(* ===== verification/Prelude.thy ===== *)
theory Prelude
  imports Main "HOL-Library.Word" "HOL-Library.Multiset"
begin

text \<open>
  Shared vocabulary of the development: the result type of fallible code, the narrowing of
  64-bit integers to \<^verbatim>\<open>int32_t\<close>, C++ truncating division, and the calculus of permutations
  of lists (\<^verbatim>\<open>permute\<close>, \<^verbatim>\<open>inv_perm\<close>) on which every layout argument rests.
\<close>

named_theorems perm_simps \<open>rewrite rules for permutations of index lists\<close>

section \<open>Results of fallible code\<close>

text \<open>
  A \<^verbatim>\<open>FailureOr<T>\<close> or a \<^verbatim>\<open>LogicalResult\<close> that carries a value: \<open>Inl\<close> names the branch that
  returned \<^verbatim>\<open>failure()\<close> by the kind of its diagnostic, \<open>Inr\<close> is the value. \<open>DivisionTrap\<close> is the one
  constructor that is no diagnostic: the compiler divides by zero and stops there.
\<close>

datatype diag =
    UnrankedTensor | DynamicShape | NotF32 | RankBelowOne
  | BadTypes | BadRank | BadAxis | BadPermutation | NoRankReduction
  | AllowZero | DimExceedsI32 | NonConstant | ShapeMismatch | CountMismatch
  | SizeOutOfRange | BadStep | BadMode | OutOfBounds | TooLarge | Duplicate
  | BadAttribute | EmptyOperands | MissingAttribute | BadPads | BadRepeats
  | NotCompatible | AxesPresent | BadPadValue | ReflectTooWide | BadBlockSize
  | NoMatch | BadReduction | EntryPoint | DivisionTrap

type_synonym 'a result = "diag + 'a"

definition bind_result :: "'a result \<Rightarrow> ('a \<Rightarrow> 'b result) \<Rightarrow> 'b result" where
  "bind_result r f = (case r of Inl e \<Rightarrow> Inl e | Inr x \<Rightarrow> f x)"

lemma bind_result_simps [simp]:
  "bind_result (Inl e) f = Inl e"
  "bind_result (Inr x) f = f x"
  by (simp_all add: bind_result_def)

lemma bind_result_Inr_iff [simp]:
  "bind_result r f = Inr y \<longleftrightarrow> (\<exists>x. r = Inr x \<and> f x = Inr y)"
  by (cases r) auto

section \<open>Machine integers\<close>

text \<open>
  \<^verbatim>\<open>int64_t\<close> values are integers here. \<open>i32\<close> is \<^verbatim>\<open>static_cast<int32_t>\<close>, which keeps the low 32 bits in
  two's complement; \<open>i64\<close> is the wrap-around of a 64-bit operation and is written where values that
  the code has not bounded yet are added or multiplied.
\<close>

definition i32 :: "int \<Rightarrow> int" where
  "i32 v = (v + 2 ^ 31) mod 2 ^ 32 - 2 ^ 31"

definition fits_i32 :: "int \<Rightarrow> bool" where
  "fits_i32 v \<longleftrightarrow> - (2 ^ 31) \<le> v \<and> v < 2 ^ 31"

definition i64 :: "int \<Rightarrow> int" where
  "i64 v = (v + 2 ^ 63) mod 2 ^ 64 - 2 ^ 63"

lemma i64_id: "- (2 ^ 63) \<le> v \<Longrightarrow> v < 2 ^ 63 \<Longrightarrow> i64 v = v"
  by (simp add: i64_def)

lemma i64_square: "b * b < 2 ^ 31 \<Longrightarrow> i64 (b * b) = b * b"
  using zero_le_square [of b] by (simp add: i64_id order.trans [of _ 0])

lemma i64_product:
  assumes "m < 2 ^ 31" and "r < 2 ^ 31" shows "i64 (int m * int r) = int m * int r"
proof -
  have "m * r < 2 ^ 31 * 2 ^ 31" using assms by (intro mult_strict_mono) auto
  then have "int (m * r) < int (2 ^ 62)" by (subst of_nat_less_iff) simp
  then show ?thesis by (intro i64_id) (simp_all add: zero_le_mult_iff order.trans [of _ 0])
qed

lemma i32_signed_take_bit: "i32 v = signed_take_bit 31 v"
  by (simp add: i32_def signed_take_bit_eq_take_bit_shift take_bit_eq_mod)

lemma i32_id [simp]: "fits_i32 v \<Longrightarrow> i32 v = v"
  by (simp add: fits_i32_def i32_def)

lemma i32_fits: "fits_i32 (i32 v)"
  by (simp add: fits_i32_def i32_def)

lemma map_i32_id: "\<forall>v\<in>set vs. fits_i32 v \<Longrightarrow> map i32 vs = vs"
  by (simp add: map_idI)

lemma sum_list_map_int: "sum_list (map int ns) = int (sum_list ns)"
  by (induction ns) auto

definition sext :: "nat \<Rightarrow> int \<Rightarrow> int" where
  "sext w v = signed_take_bit (w - 1) v"

lemma int_upto: "[0..int n - 1] = map int [0..<n]"
  by (rule nth_equalityI) (simp_all add: nth_upto)

text \<open>\<^verbatim>\<open>std::clamp\<close>.\<close>

definition clamp :: "int \<Rightarrow> int \<Rightarrow> int \<Rightarrow> int" where
  "clamp v lo hi = (if v < lo then lo else if hi < v then hi else v)"

text \<open>C++ integer division truncates towards zero.\<close>

definition cdiv :: "int \<Rightarrow> int \<Rightarrow> int" where
  "cdiv a b = sgn a * sgn b * (\<bar>a\<bar> div \<bar>b\<bar>)"

definition cmod :: "int \<Rightarrow> int \<Rightarrow> int" where
  "cmod a b = a - b * cdiv a b"

lemma cdiv_nonneg: "0 \<le> a \<Longrightarrow> 0 < b \<Longrightarrow> cdiv a b = a div b"
  by (cases "a = 0") (simp_all add: cdiv_def)

lemma cmod_nonneg: "0 \<le> a \<Longrightarrow> 0 < b \<Longrightarrow> cmod a b = a mod b"
  by (simp add: cmod_def cdiv_nonneg minus_mult_div_eq_mod)

definition int64_max :: int where
  "int64_max = 2 ^ 63 - 1"

definition int64_min :: int where
  "int64_min = - (2 ^ 63)"

definition int32_max :: int where
  "int32_max = 2 ^ 31 - 1"

lemma fits_i32I: "0 \<le> v \<Longrightarrow> v \<le> int32_max \<Longrightarrow> fits_i32 v"
  by (simp add: fits_i32_def int32_max_def)

section \<open>Permutations of lists\<close>

definition is_perm :: "nat list \<Rightarrow> nat \<Rightarrow> bool" where
  "is_perm p n \<longleftrightarrow> length p = n \<and> distinct p \<and> (\<forall>k\<in>set p. k < n)"

definition permute :: "nat list \<Rightarrow> 'a list \<Rightarrow> 'a list" where
  "permute p xs = map (\<lambda>k. xs ! k) p"

definition ipos :: "nat list \<Rightarrow> nat \<Rightarrow> nat" where
  "ipos p j = length (takeWhile (\<lambda>x. x \<noteq> j) p)"

definition inv_perm :: "nat list \<Rightarrow> nat list" where
  "inv_perm p = map (ipos p) [0..<length p]"

lemma length_permute [simp]: "length (permute p xs) = length p"
  by (simp add: permute_def)

lemma nth_permute [simp]: "k < length p \<Longrightarrow> permute p xs ! k = xs ! (p ! k)"
  by (simp add: permute_def)

lemma length_inv_perm [simp]: "length (inv_perm p) = length p"
  by (simp add: inv_perm_def)

lemma is_perm_length: "is_perm p n \<Longrightarrow> length p = n"
  by (simp add: is_perm_def)

lemma is_perm_set: "is_perm p n \<Longrightarrow> set p = {..<n}"
proof -
  assume p: "is_perm p n"
  then have "card (set p) = n" and "set p \<subseteq> {..<n}"
    by (auto simp: is_perm_def distinct_card)
  then show ?thesis by (simp add: card_subset_eq)
qed

lemma is_perm_nth_less: "is_perm p n \<Longrightarrow> k < n \<Longrightarrow> p ! k < n"
  by (auto simp: is_perm_def)

lemma ipos_nth: "distinct p \<Longrightarrow> k < length p \<Longrightarrow> ipos p (p ! k) = k"
proof (induction p arbitrary: k)
  case (Cons x p)
  then show ?case by (cases k) (auto simp: ipos_def)
qed simp

lemma ipos_less: "j \<in> set p \<Longrightarrow> ipos p j < length p"
  by (induction p) (auto simp: ipos_def)

lemma nth_ipos: "j \<in> set p \<Longrightarrow> p ! ipos p j = j"
  by (induction p) (auto simp: ipos_def)

lemma permute_inv_perm [perm_simps]:
  assumes "is_perm p n" and "length xs = n"
  shows "permute p (permute (inv_perm p) xs) = xs"
proof (rule nth_equalityI)
  fix k assume k: "k < length (permute p (permute (inv_perm p) xs))"
  with assms have k': "k < n" and pk: "p ! k < n"
    by (auto simp: is_perm_length is_perm_nth_less)
  with assms show "permute p (permute (inv_perm p) xs) ! k = xs ! k"
    by (simp add: is_perm_def inv_perm_def ipos_nth)
qed (use assms in \<open>simp add: is_perm_length\<close>)

lemma inv_perm_permute [perm_simps]:
  assumes "is_perm p n" and "length xs = n"
  shows "permute (inv_perm p) (permute p xs) = xs"
proof (rule nth_equalityI)
  fix k assume k: "k < length (permute (inv_perm p) (permute p xs))"
  with assms have "k < n" by (simp add: is_perm_length)
  with assms have "k \<in> set p" by (simp add: is_perm_set)
  then have "ipos p k < length p" and "p ! ipos p k = k"
    by (simp_all add: ipos_less nth_ipos)
  with assms \<open>k < n\<close> show "permute (inv_perm p) (permute p xs) ! k = xs ! k"
    by (simp add: is_perm_length inv_perm_def)
qed (use assms in \<open>simp add: is_perm_length\<close>)

lemma is_perm_inv_perm [intro]:
  assumes "is_perm p n" shows "is_perm (inv_perm p) n"
proof -
  have s: "set p = {..<n}" using assms by (rule is_perm_set)
  have "inj_on (ipos p) {..<n}"
    by (rule inj_on_inverseI [where g = "\<lambda>k. p ! k"]) (simp add: nth_ipos s)
  then have "distinct (inv_perm p)"
    using assms by (simp add: inv_perm_def distinct_map is_perm_length atLeast0LessThan)
  moreover have "\<forall>k\<in>set (inv_perm p). k < n"
    using assms s ipos_less by (force simp: inv_perm_def is_perm_length)
  ultimately show ?thesis using assms by (simp add: is_perm_def)
qed

lemma permute_permute:
  "\<forall>k\<in>set q. k < length p \<Longrightarrow> permute q (permute p xs) = permute (permute q p) xs"
  by (simp add: permute_def)

lemma is_perm_permute:
  assumes "is_perm p n" and "is_perm q n" shows "is_perm (permute q p) n"
proof -
  have "inj_on (\<lambda>k. p ! k) {..<n}"
    using assms(1) by (simp add: inj_on_nth is_perm_def)
  then have "distinct (permute q p)"
    using assms by (simp add: permute_def distinct_map is_perm_set) (simp add: is_perm_def)
  then show ?thesis using assms by (auto simp: is_perm_def permute_def)
qed

lemma permute_id: "length xs = n \<Longrightarrow> permute [0..<n] xs = xs"
  by (auto simp: permute_def map_nth)

lemma permute_replicate: "is_perm p n \<Longrightarrow> permute p (replicate n x) = replicate n x"
  by (intro nth_equalityI) (simp_all add: is_perm_length is_perm_nth_less)

lemma permute_map: "\<forall>k\<in>set p. k < length xs \<Longrightarrow> permute p (map f xs) = map f (permute p xs)"
  by (simp add: permute_def)

lemma permute_map2:
  assumes "\<forall>k\<in>set p. k < length xs" and "length xs = length ys"
  shows "permute p (map2 f xs ys) = map2 f (permute p xs) (permute p ys)"
  using assms by (intro nth_equalityI) simp_all

lemma list_all2_permute:
  assumes "is_perm p n" and "length xs = n" and "length ys = n"
  shows "list_all2 R (permute p xs) (permute p ys) \<longleftrightarrow> list_all2 R xs ys"
proof
  assume l: "list_all2 R (permute p xs) (permute p ys)"
  have "R (xs ! j) (ys ! j)" if "j < n" for j
  proof -
    from that assms(1) obtain k where "k < n" "p ! k = j"
      by (metis in_set_conv_nth is_perm_length is_perm_set lessThan_iff)
    with l assms(1) show ?thesis
      by (metis is_perm_length length_permute list_all2_nthD nth_permute)
  qed
  with assms(2,3) show "list_all2 R xs ys" by (simp add: list_all2_conv_all_nth)
next
  assume "list_all2 R xs ys"
  with assms show "list_all2 R (permute p xs) (permute p ys)"
    by (simp add: list_all2_conv_all_nth is_perm_length is_perm_nth_less)
qed

lemma mset_permute:
  assumes "is_perm p n" and "length xs = n"
  shows "mset (permute p xs) = mset xs"
proof -
  have "mset (permute p xs) = mset (map (\<lambda>k. xs ! k) [0..<n])"
    using assms(1) by (metis atLeast_upt distinct_upt is_perm_def is_perm_set mset_map
        permute_def set_eq_iff_mset_eq_distinct)
  also have "map (\<lambda>k. xs ! k) [0..<n] = xs"
    using assms(2) by (auto simp: map_nth)
  finally show ?thesis .
qed

lemma prod_list_permute:
  fixes xs :: "'a::comm_monoid_mult list"
  assumes "is_perm p n" and "length xs = n"
  shows "prod_list (permute p xs) = prod_list xs"
  using mset_permute [OF assms] by (metis prod_mset_prod_list)

lemma length_4_cases:
  assumes "length xs = 4"
  obtains a b c d where "xs = [a, b, c, d]"
  using assms by (auto simp: numeral_eq_Suc length_Suc_conv)

lemma list_all2_4 [simp]:
  "list_all2 R [a, b, c, d] [a', b', c', d'] \<longleftrightarrow> R a a' \<and> R b b' \<and> R c c' \<and> R d d'"
  by simp

section \<open>Dropping marked elements\<close>

definition not_dropped :: "bool list \<Rightarrow> 'a list \<Rightarrow> 'a list" where
  "not_dropped dropped xs = map snd (filter (\<lambda>(d, x). \<not> d) (zip dropped xs))"

lemma not_dropped_simps [simp]:
  "not_dropped [] xs = []" "not_dropped ds [] = []"
  "not_dropped (d # ds) (x # xs) = (if d then not_dropped ds xs else x # not_dropped ds xs)"
  by (simp_all add: not_dropped_def)

lemma not_dropped_map: "not_dropped ds (map f xs) = map f (not_dropped ds xs)"
proof (induction ds arbitrary: xs)
  case (Cons d ds)
  then show ?case by (cases xs) auto
qed simp

lemma length_not_dropped:
  "length ds = length xs \<Longrightarrow> length (not_dropped ds xs) = length (filter Not ds)"
  by (induction ds xs rule: list_induct2) auto

lemma set_not_dropped: "set (not_dropped ds xs) \<subseteq> set xs"
  by (auto simp: not_dropped_def dest: set_zip_rightD)

lemma not_dropped_filter: "not_dropped (map f xs) (map g xs) = map g (filter (\<lambda>x. \<not> f x) xs)"
  by (induction xs) auto

lemma not_dropped_nth:
  "length xs = n \<Longrightarrow> not_dropped (map f [0..<n]) xs = map (\<lambda>k. xs ! k) (filter (\<lambda>k. \<not> f k) [0..<n])"
  using not_dropped_filter [of f "[0..<n]" "\<lambda>k. xs ! k"] by (auto simp: map_nth)

end
