(* ===== verification/Tensor.thy ===== *)
theory Tensor
  imports Prelude
begin

text \<open>
  Dense tensors in row-major order and their index calculus. \<^verbatim>\<open>ravel\<close> and \<^verbatim>\<open>unravel\<close>
  translate between multi-indices and flat offsets; \<^verbatim>\<open>tgen\<close> builds a tensor from an index
  function; every tensor operation of the specifications (transpose, reshape, per-axis
  re-indexing, padding, concatenation, broadcast) is a \<^verbatim>\<open>tgen\<close>, so that two tensors are
  compared element by element with \<^verbatim>\<open>tensor_eqI\<close>.
\<close>

named_theorems tensor_simps \<open>shapes and elements of the tensor operations\<close>

section \<open>Row-major indices\<close>

fun ravel :: "nat list \<Rightarrow> nat list \<Rightarrow> nat" where
  "ravel (d # ds) (i # is) = i * prod_list ds + ravel ds is"
| "ravel _ _ = 0"

fun unravel :: "nat list \<Rightarrow> nat \<Rightarrow> nat list" where
  "unravel [] k = []"
| "unravel (d # ds) k = (k div prod_list ds) # unravel ds (k mod prod_list ds)"

definition valid_ix :: "nat list \<Rightarrow> nat list \<Rightarrow> bool" where
  "valid_ix ds is \<longleftrightarrow> list_all2 (<) is ds"

lemma valid_ix_simps [simp]:
  "valid_ix [] is \<longleftrightarrow> is = []"
  "valid_ix ds [] \<longleftrightarrow> ds = []"
  "valid_ix (d # ds) (i # is) \<longleftrightarrow> i < d \<and> valid_ix ds is"
  by (auto simp: valid_ix_def)

lemma valid_ix_Cons: "valid_ix (d # ds) is \<longleftrightarrow> (\<exists>i js. is = i # js \<and> i < d \<and> valid_ix ds js)"
  by (cases "is") auto

lemma valid_ix_length: "valid_ix ds is \<Longrightarrow> length is = length ds"
  by (auto simp: valid_ix_def list_all2_lengthD)

lemma valid_ix_nth: "valid_ix ds is \<Longrightarrow> k < length ds \<Longrightarrow> is ! k < ds ! k"
  by (auto simp: valid_ix_def list_all2_conv_all_nth)

lemma valid_ixI: "length is = length ds \<Longrightarrow> (\<And>k. k < length ds \<Longrightarrow> is ! k < ds ! k) \<Longrightarrow> valid_ix ds is"
  by (auto simp: valid_ix_def list_all2_conv_all_nth)

lemma ravel_less: "valid_ix ds is \<Longrightarrow> ravel ds is < prod_list ds"
proof (induction ds "is" rule: ravel.induct)
  case (1 d ds i "is")
  then have "i * prod_list ds + ravel ds is < (i + 1) * prod_list ds" by simp
  also have "\<dots> \<le> d * prod_list ds" using "1.prems" by (intro mult_le_mono1) simp
  finally show ?case by simp
qed auto

lemma length_unravel [simp]: "length (unravel ds k) = length ds"
  by (induction ds k rule: unravel.induct) auto

lemma unravel_valid: "k < prod_list ds \<Longrightarrow> valid_ix ds (unravel ds k)"
proof (induction ds k rule: unravel.induct)
  case (2 d ds k)
  then have "prod_list ds > 0" by (cases "prod_list ds = 0") auto
  with 2 show ?case by (simp add: less_mult_imp_div_less)
qed simp

lemma ravel_unravel [simp]: "k < prod_list ds \<Longrightarrow> ravel ds (unravel ds k) = k"
proof (induction ds k rule: unravel.induct)
  case (2 d ds k)
  then have "prod_list ds > 0" by (cases "prod_list ds = 0") auto
  with 2 show ?case by simp
qed simp

lemma unravel_ravel [simp]: "valid_ix ds is \<Longrightarrow> unravel ds (ravel ds is) = is"
proof (induction ds "is" rule: ravel.induct)
  case (1 d ds i "is")
  then have "ravel ds is < prod_list ds" by (simp add: ravel_less)
  with 1 show ?case by simp
qed auto

lemma ravel_append:
  "length is = length ds \<Longrightarrow>
    ravel (ds @ es) (is @ js) = ravel ds is * prod_list es + ravel es js"
  by (induction ds "is" rule: ravel.induct) (auto simp: algebra_simps)

section \<open>Tensors\<close>

datatype 'a tensor = Tensor (tshape: "nat list") (tdata: "'a list")

definition wf_tensor :: "'a tensor \<Rightarrow> bool" where
  "wf_tensor t \<longleftrightarrow> length (tdata t) = prod_list (tshape t)"

definition tnth :: "'a tensor \<Rightarrow> nat list \<Rightarrow> 'a" where
  "tnth t is = tdata t ! ravel (tshape t) is"

definition tgen :: "nat list \<Rightarrow> (nat list \<Rightarrow> 'a) \<Rightarrow> 'a tensor" where
  "tgen ds f = Tensor ds (map (\<lambda>k. f (unravel ds k)) [0..<prod_list ds])"

lemma tshape_tgen [simp, tensor_simps]: "tshape (tgen ds f) = ds"
  by (simp add: tgen_def)

lemma wf_tgen [simp, intro]: "wf_tensor (tgen ds f)"
  by (simp add: tgen_def wf_tensor_def)

lemma tnth_tgen [simp, tensor_simps]: "valid_ix ds is \<Longrightarrow> tnth (tgen ds f) is = f is"
  by (simp add: tnth_def tgen_def ravel_less)

lemma tensor_eqI:
  assumes "wf_tensor s" and "wf_tensor t" and sh: "tshape s = tshape t"
    and el: "\<And>is. valid_ix (tshape t) is \<Longrightarrow> tnth s is = tnth t is"
  shows "s = t"
proof -
  have "tdata s = tdata t"
  proof (rule nth_equalityI)
    show "length (tdata s) = length (tdata t)"
      using assms(1-3) by (simp add: wf_tensor_def)
    fix k assume "k < length (tdata s)"
    then have k: "k < prod_list (tshape t)" using assms(1,3) by (simp add: wf_tensor_def)
    then have "tnth s (unravel (tshape t) k) = tnth t (unravel (tshape t) k)"
      by (intro el unravel_valid)
    then show "tdata s ! k = tdata t ! k" using k sh by (simp add: tnth_def)
  qed
  with sh show ?thesis by (simp add: tensor.expand)
qed

lemma tgen_cong:
  assumes "ds = ds'" and "\<And>is. valid_ix ds' is \<Longrightarrow> f is = g is"
  shows "tgen ds f = tgen ds' g"
  using assms by (intro tensor_eqI) auto

lemma tgen_tnth: "wf_tensor t \<Longrightarrow> tgen (tshape t) (tnth t) = t"
  by (rule tensor_eqI) auto

section \<open>Transpose and reshape\<close>

definition ttranspose :: "nat list \<Rightarrow> 'a tensor \<Rightarrow> 'a tensor" where
  "ttranspose p t = tgen (permute p (tshape t)) (\<lambda>is. tnth t (permute (inv_perm p) is))"

definition treshape :: "nat list \<Rightarrow> 'a tensor \<Rightarrow> 'a tensor" where
  "treshape ds t = Tensor ds (tdata t)"

abbreviation trank :: "'a tensor \<Rightarrow> nat" where
  "trank t \<equiv> length (tshape t)"

lemma tshape_ttranspose [simp, tensor_simps]: "tshape (ttranspose p t) = permute p (tshape t)"
  by (simp add: ttranspose_def)

lemma wf_ttranspose [simp, intro]: "wf_tensor (ttranspose p t)"
  by (simp add: ttranspose_def)

lemma valid_ix_permute:
  assumes "is_perm p n" and "length ds = n" and "length is = n"
  shows "valid_ix (permute p ds) (permute p is) \<longleftrightarrow> valid_ix ds is"
  using list_all2_permute [OF assms(1,3,2)] by (simp add: valid_ix_def)

lemma valid_ix_unpermute:
  assumes p: "is_perm p (length ds)" and v: "valid_ix (permute p ds) is"
  shows "valid_ix ds (permute (inv_perm p) is)"
proof -
  have l: "length is = length ds" using v p by (auto dest: valid_ix_length simp: is_perm_length)
  have "valid_ix (permute p ds) (permute p (permute (inv_perm p) is))"
    using v p l by (simp add: perm_simps)
  then show ?thesis
    using p by (subst (asm) valid_ix_permute [OF p]) (simp_all add: is_perm_length)
qed

lemma tnth_ttranspose [tensor_simps]:
  assumes "valid_ix (permute p (tshape t)) is"
  shows "tnth (ttranspose p t) is = tnth t (permute (inv_perm p) is)"
  using assms by (simp add: ttranspose_def)

lemma tnth_ttranspose_permute:
  assumes p: "is_perm p (trank t)" and v: "valid_ix (tshape t) is"
  shows "tnth (ttranspose p t) (permute p is) = tnth t is"
proof -
  have l: "length is = trank t" using v by (rule valid_ix_length)
  have "valid_ix (permute p (tshape t)) (permute p is)"
    using valid_ix_permute [OF p _ l] v by simp
  then show ?thesis using p l by (simp add: tnth_ttranspose perm_simps)
qed

lemma inv_perm_permute_eq:
  assumes p: "is_perm p n" and q: "is_perm q n" and l: "length xs = n"
  shows "permute (inv_perm (permute q p)) xs = permute (inv_perm p) (permute (inv_perm q) xs)"
proof -
  have pq: "is_perm (permute q p) n" using p q by (rule is_perm_permute)
  let ?ys = "permute (inv_perm p) (permute (inv_perm q) xs)"
  have ly: "length ?ys = n" using p by (simp add: is_perm_length)
  have "permute (permute q p) ?ys = permute q (permute p ?ys)"
    using p q by (intro permute_permute [symmetric]) (auto simp: is_perm_def)
  also have "\<dots> = xs"
    using p q l by (simp add: perm_simps is_perm_length)
  finally have "permute (inv_perm (permute q p)) (permute (permute q p) ?ys) =
      permute (inv_perm (permute q p)) xs" by simp
  then show ?thesis using pq ly by (simp add: perm_simps)
qed

lemma ttranspose_ttranspose:
  assumes p: "is_perm p (trank t)" and q: "is_perm q (trank t)"
  shows "ttranspose q (ttranspose p t) = ttranspose (permute q p) t"
proof (rule tensor_eqI)
  show "tshape (ttranspose q (ttranspose p t)) = tshape (ttranspose (permute q p) t)"
    using p q by (simp add: permute_permute is_perm_def)
  fix "is" assume v: "valid_ix (tshape (ttranspose (permute q p) t)) is"
  then have l: "length is = trank t"
    using q by (auto dest: valid_ix_length simp: is_perm_length)
  have sh: "permute (permute q p) (tshape t) = permute q (permute p (tshape t))"
    using p q by (simp add: permute_permute is_perm_def)
  have v1: "valid_ix (permute q (permute p (tshape t))) is" using v by (simp add: sh)
  have v2: "valid_ix (permute p (tshape t)) (permute (inv_perm q) is)"
    using v1 q p by (intro valid_ix_unpermute) (simp_all add: is_perm_length)
  show "tnth (ttranspose q (ttranspose p t)) is = tnth (ttranspose (permute q p) t) is"
    using v v1 v2 p q l by (simp add: tnth_ttranspose inv_perm_permute_eq)
qed auto

lemma ttranspose_id:
  assumes "wf_tensor t" shows "ttranspose [0..<trank t] t = t"
proof (rule tensor_eqI)
  let ?p = "[0..<trank t]"
  have p: "is_perm ?p (trank t)" by (simp add: is_perm_def)
  fix "is" assume v: "valid_ix (tshape t) is"
  then have l: "length is = trank t" by (rule valid_ix_length)
  have "permute ?p is = is" using l by (simp add: permute_id)
  then show "tnth (ttranspose ?p t) is = tnth t is"
    using tnth_ttranspose_permute [OF p v] by simp
qed (use assms in \<open>auto simp: permute_id\<close>)

lemma ttranspose_inverse:
  assumes "wf_tensor t" and "is_perm p (trank t)" and "is_perm q (trank t)"
    and "permute q p = [0..<trank t]"
  shows "ttranspose q (ttranspose p t) = t"
  using assms by (simp add: ttranspose_ttranspose ttranspose_id)

lemma tshape_treshape [simp, tensor_simps]: "tshape (treshape ds t) = ds"
  by (simp add: treshape_def)

lemma wf_treshape: "wf_tensor t \<Longrightarrow> prod_list ds = prod_list (tshape t) \<Longrightarrow> wf_tensor (treshape ds t)"
  by (simp add: treshape_def wf_tensor_def)

lemma treshape_treshape [simp]: "treshape ds (treshape es t) = treshape ds t"
  by (simp add: treshape_def)

lemma treshape_id [simp]: "treshape (tshape t) t = t"
  by (simp add: treshape_def)

lemma tnth_treshape:
  "tnth (treshape ds t) is = tdata t ! ravel ds is"
  by (simp add: tnth_def treshape_def)

lemma tnth_treshape_tgen:
  assumes "prod_list ds = prod_list es" and "valid_ix ds is"
  shows "tnth (treshape ds (tgen es f)) is = f (unravel es (ravel ds is))"
  using assms ravel_less [OF assms(2)] by (simp add: tnth_treshape) (simp add: tgen_def)

end
