(* ===== verification/IR.thy ===== *)
theory IR
  imports Tensor
begin

text \<open>
  The part of MLIR that the lowering patterns read and write: builtin types, element
  attributes of constants, operands of a source operation, and the TFL values a pattern
  creates. A created value is the tree of the operations that define it (the unfolding of the
  SSA graph), so it can be evaluated against a semantics of the TFL operations, which is code
  of another project and stays a parameter \<open>sem\<close> throughout.
\<close>

section \<open>Types\<close>

datatype signedness = Signless | Signed | Unsigned

datatype elt = FloatT nat | BF16T | IntT signedness nat | IndexT | OtherElt

datatype mtype = RankedTensor "int list" elt | UnrankedT elt | NoneT | OtherT

definition kDynamic :: int where
  "kDynamic = int64_min"

definition isF32 :: "elt \<Rightarrow> bool" where
  "isF32 e \<longleftrightarrow> e = FloatT 32"

definition isInteger :: "nat \<Rightarrow> elt \<Rightarrow> bool" where
  "isInteger w e \<longleftrightarrow> (case e of IntT _ w' \<Rightarrow> w' = w | _ \<Rightarrow> False)"

definition isSignlessInteger :: "nat \<Rightarrow> elt \<Rightarrow> bool" where
  "isSignlessInteger w e \<longleftrightarrow> e = IntT Signless w"

definition isUnsignedInteger :: "nat \<Rightarrow> elt \<Rightarrow> bool" where
  "isUnsignedInteger w e \<longleftrightarrow> e = IntT Unsigned w"

definition isIntOrIndex :: "elt \<Rightarrow> bool" where
  "isIntOrIndex e \<longleftrightarrow> (case e of IntT _ _ \<Rightarrow> True | IndexT \<Rightarrow> True | _ \<Rightarrow> False)"

abbreviation F32 :: elt where "F32 \<equiv> FloatT 32"
abbreviation I1 :: elt where "I1 \<equiv> IntT Signless 1"
abbreviation I32 :: elt where "I32 \<equiv> IntT Signless 32"
abbreviation I64 :: elt where "I64 \<equiv> IntT Signless 64"

lemmas elt_defs = isF32_def isInteger_def isSignlessInteger_def isUnsignedInteger_def
  isIntOrIndex_def

definition hasStaticShape :: "int list \<Rightarrow> bool" where
  "hasStaticShape shape \<longleftrightarrow> kDynamic \<notin> set shape"

definition getRank :: "int list \<Rightarrow> int" where
  "getRank shape = int (length shape)"

definition getNumElements :: "int list \<Rightarrow> int" where
  "getNumElements shape = prod_list shape"

lemma hasStaticShape_map_int [simp]: "hasStaticShape (map int ds)"
  by (auto simp: hasStaticShape_def kDynamic_def int64_min_def)

lemma getRank_map_int [simp]: "getRank (map int ds) = int (length ds)"
  by (simp add: getRank_def)

lemma prod_list_map_int [simp]: "prod_list (map int ds) = int (prod_list ds)"
  by (induction ds) auto

lemma getNumElements_map_int [simp]: "getNumElements (map int ds) = int (prod_list ds)"
  by (simp add: getNumElements_def)

section \<open>Constants and operands of the source operation\<close>

datatype 'f elements = IntElements elt "int list" | FloatElements elt "'f list"

text \<open>
  An operand of the operation that is lowered: its type in the ONNX graph and, when its
  defining operation is an ONNX or arith constant with an elements attribute, that attribute.
\<close>

record 'f operand =
  oty :: mtype
  oattr :: "'f elements option"

definition elt_width :: "elt \<Rightarrow> nat" where
  "elt_width e = (case e of IntT _ w \<Rightarrow> w | IndexT \<Rightarrow> 64 | FloatT w \<Rightarrow> w | BF16T \<Rightarrow> 16 | OtherElt \<Rightarrow> 0)"

section \<open>Values created by a pattern\<close>

datatype 'f attr = IntAttr int | BoolAttr bool | StrAttr string | FloatAttr 'f | OpaqueAttr string string
  | ElementsAttr mtype "int list"

text \<open>
  \<open>Arg i ty\<close> is the i-th operand as the conversion adaptor hands it to the pattern, with its
  converted type; \<open>OpRes\<close> is a result of an operation created by \<^verbatim>\<open>createTFLOperation\<close>.
\<close>

datatype 'f val =
    Arg nat mtype
  | ConstI mtype "int list"
  | ConstF mtype "'f list"
  | ConstB mtype "bool list"
  | OpRes string "mtype list" "'f val list" "(string \<times> 'f attr) list" nat

fun vtype :: "'f val \<Rightarrow> mtype" where
  "vtype (Arg i ty) = ty"
| "vtype (ConstI ty vs) = ty"
| "vtype (ConstF ty vs) = ty"
| "vtype (ConstB ty vs) = ty"
| "vtype (OpRes nm tys vs attrs k) = tys ! k"

section \<open>Evaluation\<close>

datatype 'f scalar = FV 'f | IV int | BV bool

type_synonym 'f sem =
  "string \<Rightarrow> (string \<times> 'f attr) list \<Rightarrow> mtype list \<Rightarrow> 'f scalar tensor list \<Rightarrow> 'f scalar tensor list"

fun dims :: "mtype \<Rightarrow> nat list" where
  "dims (RankedTensor shape e) = map nat shape"
| "dims _ = []"

fun eval :: "'f sem \<Rightarrow> (nat \<Rightarrow> 'f scalar tensor) \<Rightarrow> 'f val \<Rightarrow> 'f scalar tensor" where
  "eval sem env (Arg i ty) = env i"
| "eval sem env (ConstI ty vs) = Tensor (dims ty) (map IV vs)"
| "eval sem env (ConstF ty vs) = Tensor (dims ty) (map FV vs)"
| "eval sem env (ConstB ty vs) = Tensor (dims ty) (map BV vs)"
| "eval sem env (OpRes nm tys vs attrs k) = sem nm attrs tys (map (eval sem env) vs) ! k"

text \<open>A logical tensor of a static ranked type.\<close>

definition conforms :: "mtype \<Rightarrow> 'a tensor \<Rightarrow> bool" where
  "conforms ty t \<longleftrightarrow> wf_tensor t \<and> (\<exists>e. ty = RankedTensor (map int (tshape t)) e)"

lemma conforms_Ranked:
  "conforms (RankedTensor shape e) t \<longleftrightarrow> wf_tensor t \<and> shape = map int (tshape t)"
  by (auto simp: conforms_def)

lemma dims_map_int [simp]: "dims (RankedTensor (map int ds) e) = ds"
  by (simp add: comp_def)

definition i32_vec :: "int list \<Rightarrow> 'f scalar tensor" where
  "i32_vec vs = Tensor [length vs] (map IV vs)"

definition i32_scalar :: "int \<Rightarrow> 'f scalar tensor" where
  "i32_scalar v = Tensor [] [IV v]"

end
