(* ===== verification/LegalizeUtils.thy ===== *)
theory LegalizeUtils
  imports IR
begin

text \<open>
  Model of \<^verbatim>\<open>src/Conversion/ONNXToTFL/ONNXToTFLLegalizeUtils.cpp\<close>: the helpers every lowering
  pattern calls. The layout contract is stated here: a rank-4 f32 tensor is represented in the
  TFL graph by its NHWC transpose, every other tensor by itself (\<^verbatim>\<open>phys\<close>), and a created value
  \<^verbatim>\<open>represents\<close> a logical tensor when it has the converted type and evaluates to that
  representation.
\<close>

section \<open>Validation of types\<close>

definition validateStaticF32TensorOrScalar :: "mtype \<Rightarrow> unit result" where
  "validateStaticF32TensorOrScalar ty =
     (case ty of
        RankedTensor shape e \<Rightarrow>
          if \<not> hasStaticShape shape then Inl DynamicShape
          else if \<not> isF32 e then Inl NotF32
          else Inr ()
      | _ \<Rightarrow> Inl UnrankedTensor)"

definition validateStaticF32Tensor :: "mtype \<Rightarrow> unit result" where
  "validateStaticF32Tensor ty =
     bind_result (validateStaticF32TensorOrScalar ty) (\<lambda>_.
       case ty of
         RankedTensor shape e \<Rightarrow> if getRank shape < 1 then Inl RankBelowOne else Inr ()
       | _ \<Rightarrow> Inl UnrankedTensor)"

definition failed :: "'a result \<Rightarrow> bool" where
  "failed r \<longleftrightarrow> (\<exists>e. r = Inl e)"

lemma failed_simps [simp]: "failed (Inl e)" "\<not> failed (Inr x)"
  by (simp_all add: failed_def)

lemma not_failedE:
  assumes "\<not> failed r" obtains x where "r = Inr x"
  using assms by (cases r) simp_all

lemma failed_code [code]: "failed r = (case r of Inl _ \<Rightarrow> True | Inr _ \<Rightarrow> False)"
  by (cases r) auto

lemma validateStaticF32TensorOrScalar_ok [simp]:
  "validateStaticF32TensorOrScalar ty = Inr u \<longleftrightarrow>
     (\<exists>shape. ty = RankedTensor shape F32 \<and> hasStaticShape shape)"
  by (auto simp: validateStaticF32TensorOrScalar_def isF32_def split: mtype.splits)

lemma validateStaticF32Tensor_ok [simp]:
  "validateStaticF32Tensor ty = Inr u \<longleftrightarrow>
     (\<exists>shape. ty = RankedTensor shape F32 \<and> hasStaticShape shape \<and> shape \<noteq> [])"
proof (cases "validateStaticF32TensorOrScalar ty")
  case (Inl e)
  then have "\<not> (\<exists>shape. ty = RankedTensor shape F32 \<and> hasStaticShape shape)"
    by (metis Inl_Inr_False validateStaticF32TensorOrScalar_ok)
  with Inl show ?thesis by (auto simp: validateStaticF32Tensor_def)
next
  case (Inr x)
  then obtain shape where "ty = RankedTensor shape F32" "hasStaticShape shape" by auto
  with Inr show ?thesis by (cases shape) (simp_all add: validateStaticF32Tensor_def getRank_def)
qed

lemma failed_validate:
  "failed (validateStaticF32Tensor ty) \<longleftrightarrow>
     \<not> (\<exists>shape. ty = RankedTensor shape F32 \<and> hasStaticShape shape \<and> shape \<noteq> [])"
proof -
  have f: "failed r \<longleftrightarrow> r \<noteq> Inr ()" for r :: "unit result"
    by (cases r) auto
  show ?thesis unfolding f by simp
qed

section \<open>Creating values\<close>

definition createTFLOperation ::
  "string \<Rightarrow> mtype list \<Rightarrow> 'f val list \<Rightarrow> (string \<times> 'f attr) list \<Rightarrow> nat \<Rightarrow> 'f val" where
  "createTFLOperation name resultTypes operands attributes k =
     OpRes name resultTypes operands attributes k"

definition createI32ShapeConstant :: "int list \<Rightarrow> 'f val" where
  "createI32ShapeConstant values =
     ConstI (RankedTensor [int (length values)] I32) (map i32 values)"

definition createI32ScalarTensorConstant :: "int \<Rightarrow> 'f val" where
  "createI32ScalarTensorConstant value = ConstI (RankedTensor [] I32) [value]"

definition createF32ScalarTensorConstant :: "'f \<Rightarrow> 'f val" where
  "createF32ScalarTensorConstant value = ConstF (RankedTensor [] F32) [value]"

definition getFusedActivationNone :: "string \<times> 'f attr" where
  "getFusedActivationNone = (''fused_activation_function'', StrAttr ''NONE'')"

lemma eval_createTFLOperation [simp]:
  "eval sem env (createTFLOperation nm tys vs attrs k) =
     sem nm attrs tys (map (eval sem env) vs) ! k"
  by (simp add: createTFLOperation_def)

lemma vtype_createTFLOperation [simp]: "vtype (createTFLOperation nm tys vs attrs k) = tys ! k"
  by (simp add: createTFLOperation_def)

lemma eval_createI32ShapeConstant [simp]:
  "eval sem env (createI32ShapeConstant vs) = i32_vec (map i32 vs)"
  by (simp add: createI32ShapeConstant_def i32_vec_def)

lemma eval_createI32ScalarTensorConstant [simp]:
  "eval sem env (createI32ScalarTensorConstant v) = i32_scalar v"
  by (simp add: createI32ScalarTensorConstant_def i32_scalar_def)

lemma eval_createF32ScalarTensorConstant [simp]:
  "eval sem env (createF32ScalarTensorConstant v) = Tensor [] [FV v]"
  by (simp add: createF32ScalarTensorConstant_def)

section \<open>Reading constants\<close>

definition getConstantIntValues :: "'f operand \<Rightarrow> int list option" where
  "getConstantIntValues v =
     (case oattr v of
        Some (IntElements e vs) \<Rightarrow>
          if isIntOrIndex e then Some (map (sext (elt_width e)) vs) else None
      | _ \<Rightarrow> None)"

definition getConstantF32Values :: "'f operand \<Rightarrow> 'f list option" where
  "getConstantF32Values v =
     (case oattr v of
        Some (FloatElements e vs) \<Rightarrow> if isF32 e then Some vs else None
      | _ \<Rightarrow> None)"

section \<open>The rank-4 layout\<close>

definition convertRank4NCHWToNHWCType :: "mtype \<Rightarrow> mtype" where
  "convertRank4NCHWToNHWCType ty =
     (case ty of
        RankedTensor shape e \<Rightarrow>
          if getRank shape \<noteq> 4 \<or> \<not> isF32 e then ty
          else RankedTensor [shape ! 0, shape ! 2, shape ! 3, shape ! 1] e
      | _ \<Rightarrow> ty)"

definition mapNCHWAxisToNHWC :: "int \<Rightarrow> int" where
  "mapNCHWAxisToNHWC axis =
     (if 0 \<le> axis \<and> axis < 4 then [0, 3, 1, 2] ! nat axis else axis)"

definition normalizeAxis :: "int \<Rightarrow> int \<Rightarrow> int" where
  "normalizeAxis axis rank = (if axis < 0 then axis + rank else axis)"

definition to_nhwc :: "nat list" where "to_nhwc = [0, 2, 3, 1]"
definition to_nchw :: "nat list" where "to_nchw = [0, 3, 1, 2]"

definition physical4 :: "mtype \<Rightarrow> bool" where
  "physical4 ty \<longleftrightarrow> (case ty of RankedTensor shape e \<Rightarrow> length shape = 4 \<and> isF32 e | _ \<Rightarrow> False)"

definition phys :: "mtype \<Rightarrow> 'a tensor \<Rightarrow> 'a tensor" where
  "phys ty t = (if physical4 ty then ttranspose to_nhwc t else t)"

definition represents ::
  "'f sem \<Rightarrow> (nat \<Rightarrow> 'f scalar tensor) \<Rightarrow> 'f val \<Rightarrow> mtype \<Rightarrow> 'f scalar tensor \<Rightarrow> bool" where
  "represents sem env v ty t \<longleftrightarrow>
     conforms ty t \<and> vtype v = convertRank4NCHWToNHWCType ty \<and> eval sem env v = phys ty t"

definition adaptor :: "nat \<Rightarrow> 'f operand \<Rightarrow> 'f val" where
  "adaptor i v = Arg i (convertRank4NCHWToNHWCType (oty v))"

lemma vtype_adaptor [simp]: "vtype (adaptor i v) = convertRank4NCHWToNHWCType (oty v)"
  and eval_adaptor [simp]: "eval sem env (adaptor i v) = env i"
  by (simp_all add: adaptor_def)

lemma is_perm_to_nhwc [simp]: "is_perm to_nhwc 4" and is_perm_to_nchw [simp]: "is_perm to_nchw 4"
  by (simp_all add: is_perm_def to_nhwc_def to_nchw_def)

lemma length_to_nhwc [simp]: "length to_nhwc = 4" "length to_nchw = 4"
  by (simp_all add: to_nhwc_def to_nchw_def)

lemma permute_to_nhwc [simp]: "permute to_nhwc [a, b, c, d] = [a, c, d, b]"
  and permute_to_nchw [simp]: "permute to_nchw [a, b, c, d] = [a, d, b, c]"
  by (simp_all add: permute_def to_nhwc_def to_nchw_def)

lemma permute_nhwc_map: "length xs = 4 \<Longrightarrow> permute to_nhwc (map f xs) = map f (permute to_nhwc xs)"
  by (intro permute_map) (simp add: to_nhwc_def)

lemma inv_perm_to_nhwc [simp]: "inv_perm to_nhwc = to_nchw"
  and inv_perm_to_nchw [simp]: "inv_perm to_nchw = to_nhwc"
  by (code_simp, code_simp)

lemma physical4_Ranked [simp]:
  "physical4 (RankedTensor shape e) \<longleftrightarrow> length shape = 4 \<and> e = F32"
  by (simp add: physical4_def isF32_def)

lemma convert_id: "\<not> physical4 ty \<Longrightarrow> convertRank4NCHWToNHWCType ty = ty"
  by (auto simp: convertRank4NCHWToNHWCType_def physical4_def getRank_def split: mtype.splits)

lemma convert_physical4:
  assumes "physical4 (RankedTensor shape e)"
  shows "convertRank4NCHWToNHWCType (RankedTensor shape e) = RankedTensor (permute to_nhwc shape) e"
  using assms by (auto simp: convertRank4NCHWToNHWCType_def getRank_def isF32_def permute_def to_nhwc_def)

lemma convert_Ranked:
  "convertRank4NCHWToNHWCType (RankedTensor shape e) =
     RankedTensor (if physical4 (RankedTensor shape e) then permute to_nhwc shape else shape) e"
  using convert_id [of "RankedTensor shape e"] convert_physical4 [of shape e] by auto

text \<open>The declared type and the shape of the representation agree.\<close>

lemma convert_conforms:
  assumes "conforms ty t" shows "conforms (convertRank4NCHWToNHWCType ty) (phys ty t)"
proof -
  obtain e where ty: "ty = RankedTensor (map int (tshape t)) e" and wf: "wf_tensor t"
    using assms by (auto simp: conforms_def)
  show ?thesis
  proof (cases "physical4 ty")
    case True
    then obtain a b c d where "tshape t = [a, b, c, d]"
      by (auto simp: ty elim: length_4_cases)
    with True wf show ?thesis by (simp add: ty convert_Ranked phys_def conforms_Ranked)
  next
    case False
    with wf show ?thesis by (simp add: convert_id phys_def) (simp add: ty conforms_Ranked)
  qed
qed

lemma conforms_convertD:
  assumes c: "conforms (convertRank4NCHWToNHWCType ty) (phys ty t)" and "wf_tensor t"
    and ty: "ty = RankedTensor sh e" "length sh = trank t"
  shows "conforms ty t"
proof (cases "physical4 ty")
  case True
  then have l: "length sh = 4" "trank t = 4" using ty by auto
  have "permute to_nhwc sh = permute to_nhwc (map int (tshape t))"
    using c True l by (simp add: ty convert_Ranked phys_def conforms_Ranked permute_nhwc_map)
  then have "permute to_nchw (permute to_nhwc sh) = permute to_nchw (permute to_nhwc (map int (tshape t)))" by simp
  moreover have "permute to_nchw (permute to_nhwc xs) = xs" if "length xs = 4" for xs :: "int list"
    using that by (elim length_4_cases) simp
  ultimately show ?thesis using l assms(2) by (simp add: ty conforms_Ranked)
next
  case False
  then show ?thesis using c by (simp add: convert_id phys_def)
qed

lemma prod_list_phys: "conforms ty t \<Longrightarrow> prod_list (tshape (phys ty t)) = prod_list (tshape t)"
  using prod_list_permute [OF is_perm_to_nhwc, of "tshape t"] by (auto simp: phys_def conforms_def)

lemma nchw_nhwc [simp]:
  assumes "wf_tensor t" and "trank t = 4"
  shows "ttranspose to_nchw (ttranspose to_nhwc t) = t"
  using assms
  by (intro ttranspose_inverse) (simp_all add: upt_conv_Cons permute_def to_nhwc_def to_nchw_def is_perm_def)

lemma nhwc_nchw [simp]:
  assumes "wf_tensor t" and "trank t = 4"
  shows "ttranspose to_nhwc (ttranspose to_nchw t) = t"
  using assms
  by (intro ttranspose_inverse) (simp_all add: upt_conv_Cons permute_def to_nhwc_def to_nchw_def is_perm_def)

text \<open>With height and width 1 both layouts have the same flat order.\<close>

lemma nhwc_flat_order:
  assumes "wf_tensor t" and "tshape t = [n, c, 1, 1]"
  shows "tdata (ttranspose to_nhwc t) = tdata t"
proof (rule nth_equalityI)
  let ?x = "ttranspose to_nhwc t"
  have wx: "length (tdata ?x) = n * c" using wf_ttranspose [of to_nhwc t] assms(2)
    by (simp add: wf_tensor_def)
  then show "length (tdata ?x) = length (tdata t)" using assms by (simp add: wf_tensor_def)
  fix k assume "k < length (tdata ?x)"
  then have k: "k < n * c" using wx by simp
  then have v: "valid_ix (tshape t) [k div c, k mod c, 0, 0]"
    using assms(2) by (auto simp: less_mult_imp_div_less intro!: mod_less_divisor gr0I)
  have "tdata ?x ! k = tnth ?x (permute to_nhwc [k div c, k mod c, 0, 0])"
    using assms(2) by (simp add: tnth_def mult.commute)
  also have "\<dots> = tnth t [k div c, k mod c, 0, 0]"
    using v assms(2) by (intro tnth_ttranspose_permute) (simp_all add: is_perm_def to_nhwc_def)
  also have "\<dots> = tdata t ! k" using assms(2) by (simp add: tnth_def)
  finally show "tdata ?x ! k = tdata t ! k" .
qed

section \<open>Axis mapping\<close>

text \<open>
  The contract between the axis mapping and the data layout, which the patterns that keep the
  NHWC layout (Concat, Split, Slice, Pad, Tile, Softmax) rely on: the physical axis of a
  logical axis is where the layout permutation reads it.
\<close>

locale axis_layout =
  fixes amap :: "int \<Rightarrow> int" and layout :: "nat list" and n :: nat
  assumes layout_perm: "is_perm layout n"
    and amap_range: "0 \<le> a \<Longrightarrow> a < int n \<Longrightarrow> 0 \<le> amap a \<and> amap a < int n"
    and layout_amap: "0 \<le> a \<Longrightarrow> a < int n \<Longrightarrow> layout ! nat (amap a) = nat a"
begin

lemma amap_eq_ipos: "0 \<le> a \<Longrightarrow> a < int n \<Longrightarrow> nat (amap a) = ipos layout (nat a)"
  using layout_perm amap_range [of a] layout_amap [of a]
  by (metis ipos_nth is_perm_def nat_less_iff)

lemma amap_inj: "0 \<le> a \<Longrightarrow> a < int n \<Longrightarrow> 0 \<le> b \<Longrightarrow> b < int n \<Longrightarrow> amap a = amap b \<Longrightarrow> a = b"
  using layout_amap [of a] layout_amap [of b] by simp

lemma amap_surj:
  assumes "k < n" obtains a where "0 \<le> a" and "a < int n" and "nat (amap a) = k"
proof
  have l: "layout ! k < n" using layout_perm assms by (rule is_perm_nth_less)
  then show "0 \<le> int (layout ! k)" and "int (layout ! k) < int n" by simp_all
  with l show "nat (amap (int (layout ! k))) = k"
    using layout_perm assms by (simp add: amap_eq_ipos ipos_nth is_perm_def)
qed

lemma permute_list_update:
  assumes "length xs = n" and "0 \<le> a" and "a < int n"
  shows "permute layout (xs[nat a := v]) = (permute layout xs)[nat (amap a) := v]"
proof (rule nth_equalityI)
  fix k assume k: "k < length (permute layout (xs[nat a := v]))"
  then have kn: "k < n" using layout_perm by (simp add: is_perm_length)
  have d: "distinct layout" "length layout = n" using layout_perm by (simp_all add: is_perm_def)
  have "layout ! k = nat a \<longleftrightarrow> k = nat (amap a)"
  proof
    assume "layout ! k = nat a"
    then show "k = nat (amap a)"
      using amap_eq_ipos [OF assms(2,3)] ipos_nth [of layout k] d kn by simp
  next
    assume "k = nat (amap a)"
    then show "layout ! k = nat a" using layout_amap [OF assms(2,3)] by simp
  qed
  then show "permute layout (xs[nat a := v]) ! k = (permute layout xs)[nat (amap a) := v] ! k"
    using assms(1) is_perm_nth_less [OF layout_perm kn] d kn
    by (cases "k = nat (amap a)") simp_all
qed simp

lemma nth_permute_amap:
  assumes "0 \<le> a" and "a < int n" shows "permute layout xs ! nat (amap a) = xs ! nat a"
proof -
  have "nat (amap a) < length layout"
    using amap_range [OF assms] layout_perm by (auto simp: is_perm_length)
  then show ?thesis using layout_amap [OF assms] by simp
qed

end

lemma mapNCHWAxisToNHWC_simps [simp]:
  "mapNCHWAxisToNHWC 0 = 0" "mapNCHWAxisToNHWC 1 = 3" "mapNCHWAxisToNHWC 2 = 1"
  "mapNCHWAxisToNHWC 3 = 2"
  by (simp_all add: mapNCHWAxisToNHWC_def)

lemma axis4_cases:
  fixes a :: int
  assumes "0 \<le> a" and "a < 4"
  obtains "a = 0" | "a = 1" | "a = 2" | "a = 3"
  using assms by linarith

lemma mapNCHWAxisToNHWC_layout:
  assumes "0 \<le> a" and "a < 4"
  shows "0 \<le> mapNCHWAxisToNHWC a" and "mapNCHWAxisToNHWC a < 4"
    and "to_nhwc ! nat (mapNCHWAxisToNHWC a) = nat a"
  using assms by (cases rule: axis4_cases; simp add: to_nhwc_def)+

interpretation nhwc: axis_layout mapNCHWAxisToNHWC to_nhwc 4
  by unfold_locales (simp_all add: mapNCHWAxisToNHWC_layout)

text \<open>The axis that a pattern passes on, seen on the representation.\<close>

lemma mapped_axis:
  assumes "0 \<le> a" and "a < 4"
  shows "mapNCHWAxisToNHWC a = int (ipos to_nhwc (nat a))"
proof -
  have "int (nat (mapNCHWAxisToNHWC a)) = mapNCHWAxisToNHWC a"
    using assms nhwc.amap_range [of a] by simp
  then show ?thesis using assms nhwc.amap_eq_ipos [of a] by simp
qed

end
