(* ===== verification/Tensor_Ops.thy ===== *)
theory Tensor_Ops
  imports Tensor
begin

text \<open>
  Specification of the tensor operations that ONNX and TFL share. Each is an index function
  (\<^verbatim>\<open>tgen\<close>); \<^verbatim>\<open>taxis\<close> is the common form of those that re-index every axis independently
  (slice, reverse, tile, edge and reflect padding), and one lemma moves any of them across a
  transpose.
\<close>

section \<open>Independent re-indexing of the axes\<close>

definition apply_ix :: "(nat \<Rightarrow> nat) list \<Rightarrow> nat list \<Rightarrow> nat list" where
  "apply_ix gs is = map2 (\<lambda>g i. g i) gs is"

definition taxis :: "nat list \<Rightarrow> (nat \<Rightarrow> nat) list \<Rightarrow> 'a tensor \<Rightarrow> 'a tensor" where
  "taxis ds gs t = tgen ds (\<lambda>is. tnth t (apply_ix gs is))"

lemma length_apply_ix [simp]: "length (apply_ix gs is) = min (length gs) (length is)"
  by (simp add: apply_ix_def)

lemma nth_apply_ix [simp]:
  "k < length gs \<Longrightarrow> k < length is \<Longrightarrow> apply_ix gs is ! k = (gs ! k) (is ! k)"
  by (simp add: apply_ix_def)

lemma apply_ix_simps [simp]:
  "apply_ix [] is = []" "apply_ix (g # gs) (i # is) = g i # apply_ix gs is"
  by (simp_all add: apply_ix_def)

lemma tshape_taxis [simp, tensor_simps]: "tshape (taxis ds gs t) = ds"
  by (simp add: taxis_def)

lemma wf_taxis [simp, intro]: "wf_tensor (taxis ds gs t)"
  by (simp add: taxis_def)

lemma tnth_taxis [simp, tensor_simps]:
  "valid_ix ds is \<Longrightarrow> tnth (taxis ds gs t) is = tnth t (apply_ix gs is)"
  by (simp add: taxis_def)

lemma permute_apply_ix:
  assumes "is_perm p n" and "length gs = n" and "length is = n"
  shows "apply_ix (permute p gs) (permute p is) = permute p (apply_ix gs is)"
  using assms by (intro nth_equalityI) (simp_all add: is_perm_length is_perm_nth_less)

text \<open>An index of a permuted shape is the permutation of an index of the shape.\<close>

lemma valid_ix_permuteE:
  assumes "is_perm p (length ds)" and "valid_ix (permute p ds) is"
  obtains js where "valid_ix ds js" and "is = permute p js"
proof
  show "valid_ix ds (permute (inv_perm p) is)" using assms by (rule valid_ix_unpermute)
  have "length is = length ds" using assms by (auto dest: valid_ix_length simp: is_perm_length)
  with assms(1) show "is = permute p (permute (inv_perm p) is)" by (simp add: perm_simps)
qed

lemma tensor_transpose_eqI:
  assumes p: "is_perm p (trank s)" and "wf_tensor t" and "tshape t = permute p (tshape s)"
    and el: "\<And>is. valid_ix (tshape s) is \<Longrightarrow> tnth t (permute p is) = tnth s is"
  shows "ttranspose p s = t"
proof (rule tensor_eqI)
  fix "is" assume "valid_ix (tshape t) is"
  with assms(1,3) obtain js where "valid_ix (tshape s) js" and "is = permute p js"
    by (auto elim: valid_ix_permuteE)
  with el p show "tnth (ttranspose p s) is = tnth t is"
    by (simp add: tnth_ttranspose_permute)
qed (use assms in auto)

lemma valid_ix_permuteI:
  assumes "is_perm p (length ds)" and "valid_ix ds is"
  shows "valid_ix (permute p ds) (permute p is)"
  using assms by (simp add: valid_ix_permute valid_ix_length)

lemma ttranspose_taxis:
  assumes p: "is_perm p n" and l: "trank t = n" "length ds = n" "length gs = n"
    and b: "\<And>is. valid_ix ds is \<Longrightarrow> valid_ix (tshape t) (apply_ix gs is)"
  shows "ttranspose p (taxis ds gs t) = taxis (permute p ds) (permute p gs) (ttranspose p t)"
proof (rule tensor_transpose_eqI)
  fix "is" assume v: "valid_ix (tshape (taxis ds gs t)) is"
  then have vd: "valid_ix ds is" and li: "length is = n"
    using l by (auto dest: valid_ix_length)
  have "tnth (taxis (permute p ds) (permute p gs) (ttranspose p t)) (permute p is) =
      tnth (ttranspose p t) (permute p (apply_ix gs is))"
    using p l vd li by (simp add: valid_ix_permuteI permute_apply_ix)
  also have "\<dots> = tnth t (apply_ix gs is)"
    using p l b [OF vd] by (simp add: tnth_ttranspose_permute)
  finally show "tnth (taxis (permute p ds) (permute p gs) (ttranspose p t)) (permute p is) =
      tnth (taxis ds gs t) is"
    using vd by simp
qed (use p l in simp_all)

lemma taxis_taxis:
  assumes "length gs = length ds" "length hs = length es" "length ds = length es"
    and "\<And>is. valid_ix es is \<Longrightarrow> valid_ix ds (apply_ix hs is)"
  shows "taxis es hs (taxis ds gs t) = taxis es (map2 (\<lambda>g h. g \<circ> h) gs hs) t"
proof (rule tensor_eqI)
  fix "is" assume "valid_ix (tshape (taxis es (map2 (\<lambda>g h. g \<circ> h) gs hs) t)) is"
  then have v: "valid_ix es is" and l: "length is = length es" by (auto dest: valid_ix_length)
  have "apply_ix gs (apply_ix hs is) = apply_ix (map2 (\<lambda>g h. g \<circ> h) gs hs) is"
    using assms(1-3) l by (intro nth_equalityI) simp_all
  with v assms(4) show "tnth (taxis es hs (taxis ds gs t)) is =
      tnth (taxis es (map2 (\<lambda>g h. g \<circ> h) gs hs) t) is" by simp
qed auto

section \<open>Slices, reversal, repetition\<close>

definition tslice :: "nat list \<Rightarrow> nat list \<Rightarrow> nat list \<Rightarrow> 'a tensor \<Rightarrow> 'a tensor" where
  "tslice bs ns ss t = taxis ns (map2 (\<lambda>b s i. b + i * s) bs ss) t"

definition treverse :: "nat \<Rightarrow> 'a tensor \<Rightarrow> 'a tensor" where
  "treverse axis t =
     taxis (tshape t) ((replicate (trank t) id)[axis := \<lambda>i. tshape t ! axis - 1 - i]) t"

definition ttile :: "nat list \<Rightarrow> 'a tensor \<Rightarrow> 'a tensor" where
  "ttile reps t = taxis (map2 (*) (tshape t) reps) (map (\<lambda>d i. i mod d) (tshape t)) t"

section \<open>Padding\<close>

definition tpad :: "nat list \<Rightarrow> nat list \<Rightarrow> 'a \<Rightarrow> 'a tensor \<Rightarrow> 'a tensor" where
  "tpad before after v t =
     tgen (map2 (+) (tshape t) (map2 (+) before after))
       (\<lambda>is. if list_all2 (\<le>) before is \<and> valid_ix (tshape t) (map2 (-) is before)
             then tnth t (map2 (-) is before) else v)"

definition reflect_ix :: "nat \<Rightarrow> nat \<Rightarrow> nat \<Rightarrow> nat" where
  "reflect_ix d b i = (if i < b then b - i else if i - b < d then i - b else 2 * d - 2 - (i - b))"

definition edge_ix :: "nat \<Rightarrow> nat \<Rightarrow> nat \<Rightarrow> nat" where
  "edge_ix d b i = (if i < b then 0 else if i - b < d then i - b else d - 1)"

definition tpad_reflect :: "nat list \<Rightarrow> nat list \<Rightarrow> 'a tensor \<Rightarrow> 'a tensor" where
  "tpad_reflect before after t =
     taxis (map2 (+) (tshape t) (map2 (+) before after)) (map2 reflect_ix (tshape t) before) t"

definition tpad_edge :: "nat list \<Rightarrow> nat list \<Rightarrow> 'a tensor \<Rightarrow> 'a tensor" where
  "tpad_edge before after t =
     taxis (map2 (+) (tshape t) (map2 (+) before after)) (map2 edge_ix (tshape t) before) t"

section \<open>Concatenation and splitting\<close>

fun locate :: "nat list \<Rightarrow> nat \<Rightarrow> nat \<times> nat" where
  "locate [] k = (0, k)"
| "locate (s # ss) k =
     (if k < s then (0, k) else (case locate ss (k - s) of (j, r) \<Rightarrow> (Suc j, r)))"

definition tconcat :: "nat \<Rightarrow> 'a tensor list \<Rightarrow> 'a tensor" where
  "tconcat axis ts =
     tgen ((tshape (hd ts))[axis := sum_list (map (\<lambda>t. tshape t ! axis) ts)])
       (\<lambda>is. case locate (map (\<lambda>t. tshape t ! axis) ts) (is ! axis) of
          (j, r) \<Rightarrow> tnth (ts ! j) (is[axis := r]))"

definition tsplit :: "nat \<Rightarrow> nat list \<Rightarrow> 'a tensor \<Rightarrow> 'a tensor list" where
  "tsplit axis sizes t =
     map (\<lambda>j. taxis ((tshape t)[axis := sizes ! j])
            ((replicate (trank t) id)[axis := \<lambda>i. sum_list (take j sizes) + i]) t)
       [0..<length sizes]"

text \<open>Tensors that can be concatenated along an axis: equal shapes elsewhere.\<close>

definition concatable :: "nat \<Rightarrow> 'a tensor list \<Rightarrow> bool" where
  "concatable axis ts \<longleftrightarrow> ts \<noteq> [] \<and> axis < trank (hd ts) \<and>
     (\<forall>t\<in>set ts. wf_tensor t \<and> (\<exists>m. tshape t = (tshape (hd ts))[axis := m]))"

lemma tshape_treverse [simp]: "tshape (treverse a x) = tshape x"
  by (simp add: treverse_def)

lemma wf_treverse [simp]: "wf_tensor (treverse a x)"
  by (simp add: treverse_def)

lemma locate_less:
  "k < sum_list ss \<Longrightarrow> locate ss k = (j, r) \<Longrightarrow> j < length ss \<and> r < ss ! j"
proof (induction ss k arbitrary: j r rule: locate.induct)
  case (2 s ss k)
  then show ?case by (force split: if_splits prod.splits)
qed simp

lemma tshape_tconcat [simp, tensor_simps]:
  "tshape (tconcat axis ts) = (tshape (hd ts))[axis := sum_list (map (\<lambda>t. tshape t ! axis) ts)]"
  by (simp add: tconcat_def)

lemma wf_tconcat [simp, intro]: "wf_tensor (tconcat axis ts)"
  by (simp add: tconcat_def)

lemma tnth_tconcat:
  assumes "valid_ix (tshape (tconcat axis ts)) is"
    and "locate (map (\<lambda>t. tshape t ! axis) ts) (is ! axis) = (j, r)"
  shows "tnth (tconcat axis ts) is = tnth (ts ! j) (is[axis := r])"
  using assms by (simp add: tconcat_def)

lemma permute_update:
  assumes p: "is_perm p n" and "length xs = n" and "a < n"
  shows "permute p (xs[a := v]) = (permute p xs)[ipos p a := v]"
proof (rule nth_equalityI)
  fix k assume "k < length (permute p (xs[a := v]))"
  then have k: "k < n" using p by (simp add: is_perm_length)
  have d: "distinct p" "length p = n" using p by (simp_all add: is_perm_def)
  have "p ! k = a \<longleftrightarrow> k = ipos p a"
  proof
    assume "p ! k = a"
    then show "k = ipos p a" using ipos_nth [OF d(1), of k] d(2) k by simp
  next
    assume "k = ipos p a"
    then show "p ! k = a" using nth_ipos [of a p] is_perm_set [OF p] assms(3) by simp
  qed
  then show "permute p (xs[a := v]) ! k = (permute p xs)[ipos p a := v] ! k"
    using assms k d is_perm_nth_less [OF p k] by (cases "k = ipos p a") simp_all
qed simp

lemma ipos_bound: "is_perm p n \<Longrightarrow> a < n \<Longrightarrow> ipos p a < n"
  using ipos_less [of a p] by (simp add: is_perm_set is_perm_length)

lemma nth_permute_ipos:
  assumes "is_perm p n" and "a < n" shows "permute p xs ! ipos p a = xs ! a"
  using assms nth_ipos [of a p] ipos_bound [OF assms] by (simp add: is_perm_set is_perm_length)

lemma concatable_rank: "concatable axis ts \<Longrightarrow> t \<in> set ts \<Longrightarrow> trank t = trank (hd ts)"
  by (auto simp: concatable_def)

lemma ttranspose_tconcat:
  assumes c: "concatable a ts" and p: "is_perm p (trank (hd ts))"
  shows "ttranspose p (tconcat a ts) = tconcat (ipos p a) (map (ttranspose p) ts)"
proof (rule tensor_transpose_eqI)
  let ?n = "trank (hd ts)" and ?a' = "ipos p a"
  have a: "a < ?n" and ne: "ts \<noteq> []" using c by (auto simp: concatable_def)
  have sizes: "map ((\<lambda>t. tshape t ! ?a') \<circ> ttranspose p) ts = map (\<lambda>t. tshape t ! a) ts"
    using p a by (simp add: nth_permute_ipos)
  show sh: "tshape (tconcat ?a' (map (ttranspose p) ts)) = permute p (tshape (tconcat a ts))"
    using p a ne by (simp add: sizes hd_map permute_update [OF p])
  fix "is" assume v: "valid_ix (tshape (tconcat a ts)) is"
  then have li: "length is = ?n" by (auto dest: valid_ix_length)
  obtain j r where jr: "locate (map (\<lambda>t. tshape t ! a) ts) (is ! a) = (j, r)" by force
  have "is ! a < sum_list (map (\<lambda>t. tshape t ! a) ts)"
    using valid_ix_nth [OF v, of a] a by simp
  from locate_less [OF this jr] have j: "j < length ts" and r: "r < tshape (ts ! j) ! a"
    by auto
  have tj: "ts ! j \<in> set ts" using j by simp
  with c obtain m where m: "tshape (ts ! j) = (tshape (hd ts))[a := m]"
    unfolding concatable_def by blast
  have rk: "trank (ts ! j) = ?n" using c tj by (rule concatable_rank)
  have "valid_ix (tshape (ts ! j)) (is[a := r])"
    using v r a m li by (intro valid_ixI) (auto simp: nth_list_update dest: valid_ix_nth)
  then have "tnth (ttranspose p (ts ! j)) (permute p (is[a := r])) = tnth (ts ! j) (is[a := r])"
    using p rk by (simp add: tnth_ttranspose_permute)
  moreover have "valid_ix (tshape (tconcat ?a' (map (ttranspose p) ts))) (permute p is)"
    unfolding sh using p v by (intro valid_ix_permuteI) simp_all
  then have "tnth (tconcat ?a' (map (ttranspose p) ts)) (permute p is) =
      tnth (map (ttranspose p) ts ! j) ((permute p is)[?a' := r])"
    using jr p a by (intro tnth_tconcat) (simp_all add: sizes nth_permute_ipos)
  ultimately show "tnth (tconcat ?a' (map (ttranspose p) ts)) (permute p is) = tnth (tconcat a ts) is"
    using tnth_tconcat [OF v jr] j permute_update [OF p li a] by simp
qed (use p in simp_all)

section \<open>Removing axes of size one\<close>

definition drops_ones :: "bool list \<Rightarrow> nat list \<Rightarrow> bool" where
  "drops_ones ds ns \<longleftrightarrow> length ds = length ns \<and> (\<forall>k<length ns. ds ! k \<longrightarrow> ns ! k = 1)"

lemma drops_ones_Cons [simp]:
  "drops_ones (d # ds) (n # ns) \<longleftrightarrow> (d \<longrightarrow> n = 1) \<and> drops_ones ds ns"
  by (auto simp: drops_ones_def nth_Cons split: nat.splits)

lemma drops_ones_prod: "drops_ones ds ns \<Longrightarrow> prod_list (not_dropped ds ns) = prod_list ns"
proof (induction ds arbitrary: ns)
  case (Cons d ds)
  then show ?case by (cases ns) (auto simp: drops_ones_def [of _ "[]"])
qed (simp add: drops_ones_def)

lemma drops_ones_valid:
  "drops_ones ds ns \<Longrightarrow> valid_ix ns is \<Longrightarrow> valid_ix (not_dropped ds ns) (not_dropped ds is)"
proof (induction ds arbitrary: ns "is")
  case (Cons d ds)
  then show ?case by (cases ns; cases "is") (auto simp: drops_ones_def [of _ "[]"])
qed simp

lemma drops_ones_ravel:
  "drops_ones ds ns \<Longrightarrow> valid_ix ns is \<Longrightarrow>
   ravel (not_dropped ds ns) (not_dropped ds is) = ravel ns is"
proof (induction ds arbitrary: ns "is")
  case (Cons d ds)
  then show ?case
    by (cases ns; cases "is") (auto simp: drops_ones_def [of _ "[]"] drops_ones_prod)
qed (simp add: drops_ones_def)

lemma drops_ones_permute:
  assumes "drops_ones ds ns" and "is_perm p (length ns)"
  shows "drops_ones (permute p ds) (permute p ns)"
  using assms by (auto simp: drops_ones_def is_perm_length dest: is_perm_nth_less)

section \<open>Moving concatenation and splitting across a transpose\<close>

lemma concatable_ttranspose:
  assumes "concatable a ts" and p: "is_perm p (trank (hd ts))"
  shows "concatable (ipos p a) (map (ttranspose p) ts)"
proof -
  let ?n = "trank (hd ts)"
  have ne: "ts \<noteq> []" and a: "a < ?n" using assms(1) by (simp_all add: concatable_def)
  have "\<exists>m. permute p (tshape t) = (permute p (tshape (hd ts)))[ipos p a := m]" if t: "t \<in> set ts" for t
  proof -
    obtain m where "tshape t = (tshape (hd ts))[a := m]" using assms(1) t by (auto simp: concatable_def)
    then show ?thesis using permute_update [OF p _ a, of "tshape (hd ts)"] by auto
  qed
  with ne a p show ?thesis
    by (auto simp: concatable_def hd_map is_perm_length ipos_bound)
qed

lemma tshape_tsplit:
  "j < length sizes \<Longrightarrow> tshape (tsplit a sizes t ! j) = (tshape t)[a := sizes ! j]"
  by (simp add: tsplit_def)

lemma length_tsplit [simp]: "length (tsplit a sizes t) = length sizes"
  by (simp add: tsplit_def)

lemma wf_tsplit: "j < length sizes \<Longrightarrow> wf_tensor (tsplit a sizes t ! j)"
  by (simp add: tsplit_def)

lemma sum_take_nth_le: "j < length ns \<Longrightarrow> sum_list (take j ns) + ns ! j \<le> sum_list (ns :: nat list)"
  by (metis append_take_drop_id hd_drop_conv_nth le_add1 sum_list_append take_Suc_conv_app_nth
      sum_list.Cons add.commute sum_list.Nil add_0_right)

lemma ttranspose_tsplit:
  assumes p: "is_perm p (trank t)" and a: "a < trank t" and s: "sum_list sizes = tshape t ! a"
  shows "map (ttranspose p) (tsplit a sizes t) = tsplit (ipos p a) sizes (ttranspose p t)"
proof (rule nth_equalityI)
  fix j assume "j < length (map (ttranspose p) (tsplit a sizes t))"
  then have j: "j < length sizes" by simp
  let ?n = "trank t" and ?off = "\<lambda>i. sum_list (take j sizes) + i"
  have "ttranspose p (taxis ((tshape t)[a := sizes ! j]) ((replicate ?n id)[a := ?off]) t) =
      taxis (permute p ((tshape t)[a := sizes ! j])) (permute p ((replicate ?n id)[a := ?off])) (ttranspose p t)"
  proof (rule ttranspose_taxis [OF p])
    fix "is" assume v: "valid_ix ((tshape t)[a := sizes ! j]) is"
    then have l: "length is = ?n" by (auto dest: valid_ix_length)
    have "sum_list (take j sizes) + i < tshape t ! a" if "i < sizes ! j" for i
      using that sum_take_nth_le [OF j] s by simp
    with v a l show "valid_ix (tshape t) (apply_ix ((replicate ?n id)[a := ?off]) is)"
      by (intro valid_ixI) (auto simp: nth_list_update dest: valid_ix_nth)
  qed simp_all
  then show "map (ttranspose p) (tsplit a sizes t) ! j = tsplit (ipos p a) sizes (ttranspose p t) ! j"
    using j a p by (simp add: tsplit_def permute_update [OF p] is_perm_length permute_replicate)
qed simp

text \<open>Reshaping away axes of size 1 that a re-indexing leaves alone.\<close>

lemma not_dropped_apply_ix:
  "length fs = length gs \<Longrightarrow> length fs = length is \<Longrightarrow>
   not_dropped fs (apply_ix gs is) = apply_ix (not_dropped fs gs) (not_dropped fs is)"
proof (induction fs arbitrary: gs "is")
  case (Cons f fs)
  then show ?case by (cases gs; cases "is") auto
qed simp

lemma treshape_taxis_dropped:
  assumes ones: "drops_ones fs ds" "drops_ones fs ns" and l: "length gs = length ns" "tshape x = ds"
    and val: "\<And>is. valid_ix ns is \<Longrightarrow> valid_ix ds (apply_ix gs is)"
  shows "treshape (not_dropped fs ns) (taxis ns gs x) =
    taxis (not_dropped fs ns) (not_dropped fs gs) (treshape (not_dropped fs ds) x)"
proof (rule tensor_eqI)
  have lf: "length fs = length ns" using ones(2) by (simp add: drops_ones_def)
  have pn: "prod_list (not_dropped fs ns) = prod_list ns" using ones(2) by (rule drops_ones_prod)
  show "wf_tensor (treshape (not_dropped fs ns) (taxis ns gs x))"
    using pn by (intro wf_treshape) simp_all
  fix js assume "valid_ix (tshape (taxis (not_dropped fs ns) (not_dropped fs gs) (treshape (not_dropped fs ds) x))) js"
  then have js: "valid_ix (not_dropped fs ns) js" by simp
  define "is" where "is = unravel ns (ravel (not_dropped fs ns) js)"
  have "ravel (not_dropped fs ns) js < prod_list ns" using ravel_less [OF js] pn by simp
  then have v: "valid_ix ns is" and r: "ravel ns is = ravel (not_dropped fs ns) js"
    by (simp_all add: is_def unravel_valid)
  have "ravel (not_dropped fs ns) (not_dropped fs is) = ravel (not_dropped fs ns) js"
    using drops_ones_ravel [OF ones(2) v] r by simp
  then have nj: "not_dropped fs is = js"
    using drops_ones_valid [OF ones(2) v] js by (metis unravel_ravel)
  have "tnth (treshape (not_dropped fs ns) (taxis ns gs x)) js = tnth (taxis ns gs x) is"
    by (simp add: tnth_treshape) (simp add: tnth_def r)
  also have "\<dots> = tnth x (apply_ix gs is)" using v by simp
  also have "\<dots> = tdata x ! ravel (not_dropped fs ds) (not_dropped fs (apply_ix gs is))"
    using drops_ones_ravel [OF ones(1) val [OF v]] l(2) by (simp add: tnth_def)
  also have "\<dots> = tnth (treshape (not_dropped fs ds) x) (apply_ix (not_dropped fs gs) js)"
    using lf l(1) valid_ix_length [OF v] nj by (simp add: tnth_treshape not_dropped_apply_ix)
  finally show "tnth (treshape (not_dropped fs ns) (taxis ns gs x)) js =
      tnth (taxis (not_dropped fs ns) (not_dropped fs gs) (treshape (not_dropped fs ds) x)) js"
    using js by simp
qed auto

end
