(* ===== verification/TFL_Runtime.thy ===== *)
theory TFL_Runtime
  imports LegalizeUtils Tensor_Ops
begin

text \<open>
  What the lowering patterns rely on in TensorFlow Lite, whose code is another project: one
  locale per family of builtin operations, with the documented behaviour of each operation as
  its assumption, for operands and declared result types that its verifier accepts. The client
  lemmas of the patterns are proved inside the locales. \<^verbatim>\<open>reference_sem\<close> is an executable
  semantics that satisfies every locale, so no assumption is empty.
\<close>

section \<open>Interfaces\<close>

definition declares :: "mtype list \<Rightarrow> 'a tensor list \<Rightarrow> bool" where
  "declares tys ts \<longleftrightarrow> list_all2 conforms tys ts"

lemma declares_single [simp]: "declares [ty] [t] \<longleftrightarrow> conforms ty t"
  by (simp add: declares_def)

definition strided_count :: "nat \<Rightarrow> nat \<Rightarrow> nat \<Rightarrow> nat" where
  "strided_count b e s = (if b < e then (e - b + s - 1) div s else 0)"

fun interleave :: "'a list \<Rightarrow> 'a list \<Rightarrow> 'a list" where
  "interleave (x # xs) (y # ys) = x # y # interleave xs ys"
| "interleave _ _ = []"

definition pad_matrix :: "nat list \<Rightarrow> nat list \<Rightarrow> 'f scalar tensor" where
  "pad_matrix before after =
     Tensor [length before, 2] (map (\<lambda>k. IV (int k)) (interleave before after))"

definition no_masks :: "(string \<times> 'f attr) list" where
  "no_masks = [(''begin_mask'', IntAttr 0), (''ellipsis_mask'', IntAttr 0), (''end_mask'', IntAttr 0),
     (''new_axis_mask'', IntAttr 0), (''offset'', BoolAttr False), (''shrink_axis_mask'', IntAttr 0)]"

locale tfl_layout =
  fixes sem :: "'f sem"
  assumes transpose:
    "wf_tensor x \<Longrightarrow> is_perm p (trank x) \<Longrightarrow> declares tys [ttranspose p x] \<Longrightarrow>
     sem ''tfl.transpose'' [] tys [x, i32_vec (map int p)] = [ttranspose p x]"
    and reshape:
    "wf_tensor x \<Longrightarrow> prod_list ds = prod_list (tshape x) \<Longrightarrow> declares tys [treshape ds x] \<Longrightarrow>
     sem ''tfl.reshape'' [] tys [x, i32_vec (map int ds)] = [treshape ds x]"

locale tfl_slicing = tfl_layout +
  assumes slice:
    "wf_tensor x \<Longrightarrow> length bs = trank x \<Longrightarrow> length ns = trank x \<Longrightarrow>
     (\<forall>k<trank x. bs ! k + ns ! k \<le> tshape x ! k) \<Longrightarrow>
     declares tys [tslice bs ns (replicate (trank x) 1) x] \<Longrightarrow>
     sem ''tfl.slice'' [] tys [x, i32_vec (map int bs), i32_vec (map int ns)] =
       [tslice bs ns (replicate (trank x) 1) x]"
    and strided_slice:
    "wf_tensor x \<Longrightarrow> length bs = trank x \<Longrightarrow> length es = trank x \<Longrightarrow> length ss = trank x \<Longrightarrow>
     (\<forall>k<trank x. bs ! k \<le> tshape x ! k \<and> es ! k \<le> tshape x ! k \<and> 0 < ss ! k) \<Longrightarrow>
     ns = map (\<lambda>k. strided_count (bs ! k) (es ! k) (ss ! k)) [0..<trank x] \<Longrightarrow>
     declares tys [tslice bs ns ss x] \<Longrightarrow>
     sem ''tfl.strided_slice'' no_masks tys
       [x, i32_vec (map int bs), i32_vec (map int es), i32_vec (map int ss)] = [tslice bs ns ss x]"
    and reverse_v2:
    "wf_tensor x \<Longrightarrow> a < trank x \<Longrightarrow> declares tys [treverse a x] \<Longrightarrow>
     sem ''tfl.reverse_v2'' [] tys [x, i32_vec [int a]] = [treverse a x]"

locale tfl_assembly = tfl_slicing +
  assumes concatenation:
    "concatable a xs \<Longrightarrow> declares tys [tconcat a xs] \<Longrightarrow>
     sem ''tfl.concatenation'' [(''axis'', IntAttr (int a)), getFusedActivationNone] tys xs =
       [tconcat a xs]"
    and split_v:
    "wf_tensor x \<Longrightarrow> a < trank x \<Longrightarrow> sum_list ns = tshape x ! a \<Longrightarrow> declares tys (tsplit a ns x) \<Longrightarrow>
     sem ''tfl.split_v'' [(''num_splits'', IntAttr (int (length ns)))] tys
       [x, i32_vec (map int ns), i32_scalar (int a)] = tsplit a ns x"
    and tile:
    "wf_tensor x \<Longrightarrow> length reps = trank x \<Longrightarrow> (\<forall>r\<in>set reps. 0 < r) \<Longrightarrow> declares tys [ttile reps x] \<Longrightarrow>
     sem ''tfl.tile'' [] tys [x, i32_vec (map int reps)] = [ttile reps x]"
    and padv2:
    "wf_tensor x \<Longrightarrow> length before = trank x \<Longrightarrow> length after = trank x \<Longrightarrow>
     declares tys [tpad before after v x] \<Longrightarrow>
     sem ''tfl.padv2'' [] tys [x, pad_matrix before after, Tensor [] [v]] = [tpad before after v x]"
    and mirror_pad:
    "wf_tensor x \<Longrightarrow> length before = trank x \<Longrightarrow> length after = trank x \<Longrightarrow>
     (\<forall>k<trank x. before ! k < tshape x ! k \<and> after ! k < tshape x ! k) \<Longrightarrow>
     declares tys [tpad_reflect before after x] \<Longrightarrow>
     sem ''tfl.mirror_pad'' [(''mode'', OpaqueAttr ''tfl'' ''mirror_pad_attr REFLECT'')] tys
       [x, pad_matrix before after] = [tpad_reflect before after x]"

section \<open>The transposes between the layouts\<close>

lemma tnth_nhwc:
  assumes "tshape t = [n, c, h, w]" and "i < n" "k < c" "y < h" "x < w"
  shows "tnth (ttranspose to_nhwc t) [i, y, x, k] = tnth t [i, k, y, x]"
  using tnth_ttranspose_permute [of to_nhwc t "[i, k, y, x]"] is_perm_to_nhwc assms by (simp add: eval_nat_numeral)

lemma nhwc_eqI:
  assumes "wf_tensor t" "wf_tensor s" "tshape t = [n, c, h, w]" "tshape s = [n, h, w, c]"
    and "\<And>i k y x. i < n \<Longrightarrow> k < c \<Longrightarrow> y < h \<Longrightarrow> x < w \<Longrightarrow> tnth s [i, y, x, k] = tnth t [i, k, y, x]"
  shows "ttranspose to_nhwc t = s"
proof (rule tensor_transpose_eqI)
  fix "is" assume "valid_ix (tshape t) is"
  then show "tnth s (permute to_nhwc is) = tnth t is" using assms(3,5) by (auto simp: valid_ix_Cons)
qed (use assms is_perm_to_nhwc in \<open>simp_all add: eval_nat_numeral\<close>)

text \<open>
  The two transposes the patterns write inline around an operation on logical axes:
  \<^verbatim>\<open>{0, 3, 1, 2}\<close> before it and \<^verbatim>\<open>{0, 2, 3, 1}\<close> after it.
\<close>

definition restoreLogicalRank4 :: "mtype \<Rightarrow> 'f val \<Rightarrow> 'f val" where
  "restoreLogicalRank4 ty v =
     createTFLOperation ''tfl.transpose'' [ty] [v, createI32ShapeConstant [0, 3, 1, 2]] [] 0"

definition toPhysicalRank4 :: "mtype \<Rightarrow> 'f val \<Rightarrow> 'f val" where
  "toPhysicalRank4 ty v =
     createTFLOperation ''tfl.transpose'' [convertRank4NCHWToNHWCType ty]
       [v, createI32ShapeConstant [0, 2, 3, 1]] [] 0"

definition emitReshape :: "mtype \<Rightarrow> int list \<Rightarrow> 'f val \<Rightarrow> 'f val" where
  "emitReshape ty shape v =
     createTFLOperation ''tfl.reshape'' [ty] [v, createI32ShapeConstant shape] [] 0"

lemma eval_operands:
  "map (eval sem env) [] = []"
  "map (eval sem env) (v # vs) = eval sem env v # map (eval sem env) vs"
  by simp_all

lemma vtype_restoreLogicalRank4 [simp]: "vtype (restoreLogicalRank4 ty v) = ty"
  and vtype_toPhysicalRank4 [simp]: "vtype (toPhysicalRank4 ty v) = convertRank4NCHWToNHWCType ty"
  and vtype_emitReshape [simp]: "vtype (emitReshape ty shape v) = ty"
  by (simp_all add: restoreLogicalRank4_def toPhysicalRank4_def emitReshape_def)

lemma represents_logical:
  "\<not> physical4 ty \<Longrightarrow> conforms ty t \<Longrightarrow> vtype v = ty \<Longrightarrow> eval sem env v = t \<Longrightarrow>
   represents sem env v ty t"
  by (simp add: represents_def convert_id phys_def)

lemma conforms_physical4:
  "physical4 ty \<Longrightarrow> conforms ty t \<Longrightarrow> wf_tensor t \<and> trank t = 4 \<and> ty = RankedTensor (map int (tshape t)) F32"
  by (auto simp: conforms_def)

lemma conforms_wf: "conforms ty t \<Longrightarrow> wf_tensor t"
  by (simp add: conforms_def)

definition operands_represent ::
  "(nat \<Rightarrow> 'f scalar tensor) \<Rightarrow> 'f operand list \<Rightarrow> 'f scalar tensor list \<Rightarrow> bool" where
  "operands_represent env ops ts \<longleftrightarrow> length ts = length ops \<and>
     (\<forall>i<length ops. conforms (oty (ops ! i)) (ts ! i) \<and> env i = phys (oty (ops ! i)) (ts ! i))"

definition i32_dims :: "nat list \<Rightarrow> bool" where
  "i32_dims ds \<longleftrightarrow> (\<forall>d\<in>set ds. d < 2 ^ 31)"

lemma i32_dims_update: "i32_dims ds \<Longrightarrow> n < 2 ^ 31 \<Longrightarrow> i32_dims (ds[k := n])"
  using set_update_subset_insert [of ds k n] by (auto simp: i32_dims_def)

lemma map_i32_dims: "i32_dims ds \<Longrightarrow> map i32 (map int ds) = map int ds"
  by (auto simp: i32_dims_def fits_i32_def intro!: map_i32_id)

lemma map_i32_comp_dims: "i32_dims ds \<Longrightarrow> map (i32 \<circ> int) ds = map int ds"
  using map_i32_dims [of ds] by simp

lemma i32_to_nchw: "map i32 [0, 3, 1, 2] = map int to_nchw"
  and i32_to_nhwc: "map i32 [0, 2, 3, 1] = map int to_nhwc"
  by (simp_all add: i32_def to_nchw_def to_nhwc_def)

lemma map_i32_small: "\<forall>k\<in>set p. k < 2 ^ 31 \<Longrightarrow> map (i32 \<circ> int) p = map int p"
  by (simp add: map_i32_comp_dims i32_dims_def)

context tfl_layout
begin

lemma eval_restoreLogicalRank4:
  assumes "physical4 ty" and "conforms ty t" and "eval sem env v = phys ty t"
  shows "eval sem env (restoreLogicalRank4 ty v) = t"
proof -
  let ?x = "ttranspose to_nhwc t"
  have t: "wf_tensor t" "trank t = 4" using assms conforms_physical4 by auto
  have v: "eval sem env v = ?x" using assms by (simp add: phys_def)
  have "sem ''tfl.transpose'' [] [ty] [?x, i32_vec (map int to_nchw)] = [ttranspose to_nchw ?x]"
    using t assms(2) by (intro transpose) simp_all
  then show ?thesis
    using t v by (simp add: restoreLogicalRank4_def i32_to_nchw eval_operands del: list.map)
qed

lemma represents_toPhysicalRank4:
  assumes "physical4 ty" and "conforms ty t" and "eval sem env v = t"
  shows "represents sem env (toPhysicalRank4 ty v) ty t"
proof -
  have t: "wf_tensor t" "trank t = 4" using assms conforms_physical4 by auto
  have "conforms (convertRank4NCHWToNHWCType ty) (ttranspose to_nhwc t)"
    using convert_conforms [OF assms(2)] assms(1) by (simp add: phys_def)
  then have "sem ''tfl.transpose'' [] [convertRank4NCHWToNHWCType ty] [t, i32_vec (map int to_nhwc)] =
      [ttranspose to_nhwc t]"
    using t by (intro transpose) simp_all
  then show ?thesis
    using assms
    by (simp add: represents_def phys_def toPhysicalRank4_def i32_to_nhwc eval_operands del: list.map)
qed

lemma eval_logical_operand:
  assumes "conforms ty t" and "eval sem env v = phys ty t"
  shows "eval sem env (if physical4 ty then restoreLogicalRank4 ty v else v) = t"
  using assms by (simp add: eval_restoreLogicalRank4) (simp add: phys_def)

lemma represents_physical_result:
  assumes "conforms ty t" and "vtype v = ty" and "eval sem env v = t"
  shows "represents sem env (if physical4 ty then toPhysicalRank4 ty v else v) ty t"
  using assms by (simp add: represents_toPhysicalRank4 represents_logical)

lemma eval_transpose:
  assumes "wf_tensor x" and "eval sem env v = x" and p: "is_perm p (trank x)"
    and "trank x \<le> 5" and "conforms ty (ttranspose p x)"
  shows "eval sem env (createTFLOperation ''tfl.transpose'' [ty]
      [v, createI32ShapeConstant (map int p)] [] 0) = ttranspose p x"
proof -
  have "\<forall>k\<in>set p. k < 2 ^ 31" using p assms(4) by (auto simp: is_perm_def)
  then show ?thesis
    using assms transpose [of x p "[ty]"] by (simp add: map_i32_small)
qed

lemma eval_emitReshape:
  assumes "wf_tensor x" and "eval sem env v = x" and "i32_dims ds"
    and "prod_list ds = prod_list (tshape x)" and "ty = RankedTensor (map int ds) e"
  shows "eval sem env (emitReshape ty (map int ds) v) = treshape ds x"
  using assms reshape [of x ds "[ty]"]
  by (simp add: emitReshape_def map_i32_comp_dims conforms_Ranked wf_treshape)

end

end
