(* ===== verification/Tensor_Pad.thy ===== *)
theory Tensor_Pad
  imports Tensor_Ops
begin

text \<open>
  Padding and repetition across a transpose, and edge padding as a sequence of concatenations,
  one per axis.
\<close>

lemma is_perm_length_bound: "is_perm p n \<Longrightarrow> length xs = n \<Longrightarrow> \<forall>k\<in>set p. k < length xs"
  by (simp add: is_perm_def)

lemma ttranspose_tpad:
  assumes p: "is_perm p (trank t)" and l: "length before = trank t" "length after = trank t"
  shows "ttranspose p (tpad before after v t) = tpad (permute p before) (permute p after) v (ttranspose p t)"
proof (rule tensor_transpose_eqI)
  let ?ds = "tshape t" and ?n = "trank t"
  let ?sh = "map2 (+) ?ds (map2 (+) before after)"
  show p': "is_perm p (trank (tpad before after v t))" using p l by (simp add: tpad_def)
  have b: "\<forall>k\<in>set p. k < ?n" using p by (simp add: is_perm_def)
  have ps: "permute p ?sh = map2 (+) (permute p ?ds) (map2 (+) (permute p before) (permute p after))"
    using b l by (simp add: permute_map2)
  show "wf_tensor (tpad (permute p before) (permute p after) v (ttranspose p t))" by (simp add: tpad_def)
  show "tshape (tpad (permute p before) (permute p after) v (ttranspose p t)) =
      permute p (tshape (tpad before after v t))"
    by (simp add: tpad_def ps)
  fix "is" assume "valid_ix (tshape (tpad before after v t)) is"
  then have v: "valid_ix ?sh is" and li: "length is = ?n" using l by (auto simp: tpad_def dest: valid_ix_length)
  have vp: "valid_ix (permute p ?sh) (permute p is)"
    using p' v l by (intro valid_ix_permuteI) (simp_all add: tpad_def)
  have sub: "map2 (-) (permute p is) (permute p before) = permute p (map2 (-) is before)"
    using b l li by (simp add: permute_map2)
  have vi: "valid_ix (permute p ?ds) (permute p (map2 (-) is before)) \<longleftrightarrow> valid_ix ?ds (map2 (-) is before)"
    using valid_ix_permute [OF p] l li by simp
  have le: "list_all2 (\<le>) (permute p before) (permute p is) \<longleftrightarrow> list_all2 (\<le>) before is"
    using p l li by (intro list_all2_permute) simp_all
  show "tnth (tpad (permute p before) (permute p after) v (ttranspose p t)) (permute p is) =
      tnth (tpad before after v t) is"
    using v vp tnth_ttranspose_permute [OF p]
    by (simp add: tpad_def ps [symmetric] sub vi le)
qed

lemma reflect_ix_less: "b < d \<Longrightarrow> a < d \<Longrightarrow> i < d + (b + a) \<Longrightarrow> reflect_ix d b i < d"
  by (auto simp: reflect_ix_def)

lemma edge_ix_less: "0 < d \<Longrightarrow> edge_ix d b i < d"
  by (auto simp: edge_ix_def)

lemma valid_pointwise:
  assumes "valid_ix ns is" and "length gs = length ds" "length ns = length ds"
    and "\<And>k. k < length ds \<Longrightarrow> is ! k < ns ! k \<Longrightarrow> (gs ! k) (is ! k) < ds ! k"
  shows "valid_ix ds (apply_ix gs is)"
  using assms valid_ix_length [OF assms(1)] valid_ix_nth [OF assms(1)] by (intro valid_ixI) simp_all

lemma ttranspose_tpad_reflect:
  assumes p: "is_perm p (trank t)" and l: "length before = trank t" "length after = trank t"
    and b: "\<forall>k<trank t. before ! k < tshape t ! k \<and> after ! k < tshape t ! k"
  shows "ttranspose p (tpad_reflect before after t) = tpad_reflect (permute p before) (permute p after) (ttranspose p t)"
proof -
  have pb: "\<forall>k\<in>set p. k < trank t" using p by (simp add: is_perm_def)
  show ?thesis unfolding tpad_reflect_def
    using p l b reflect_ix_less pb
    by (subst ttranspose_taxis [OF p]) (auto simp: permute_map2 intro!: valid_pointwise)
qed

lemma ttranspose_tpad_edge:
  assumes p: "is_perm p (trank t)" and l: "length before = trank t" "length after = trank t"
    and b: "\<forall>k<trank t. 0 < tshape t ! k"
  shows "ttranspose p (tpad_edge before after t) = tpad_edge (permute p before) (permute p after) (ttranspose p t)"
proof -
  have pb: "\<forall>k\<in>set p. k < trank t" using p by (simp add: is_perm_def)
  show ?thesis unfolding tpad_edge_def
    using p l b edge_ix_less pb
    by (subst ttranspose_taxis [OF p]) (auto simp: permute_map2 intro!: valid_pointwise)
qed

lemma ttranspose_ttile:
  assumes p: "is_perm p (trank t)" and l: "length reps = trank t" and b: "\<forall>k<trank t. 0 < tshape t ! k"
  shows "ttranspose p (ttile reps t) = ttile (permute p reps) (ttranspose p t)"
proof -
  have pb: "\<forall>k\<in>set p. k < trank t" using p by (simp add: is_perm_def)
  have m: "permute p (map2 (*) (tshape t) reps) = map2 (*) (permute p (tshape t)) (permute p reps)"
    using pb l by (simp add: permute_map2)
  show ?thesis unfolding ttile_def
    using p l b pb
    by (subst ttranspose_taxis [OF p], unfold m) (auto simp: permute_map intro!: valid_pointwise)
qed

section \<open>Edge padding, axis by axis\<close>

definition pad_axis :: "nat \<Rightarrow> nat \<Rightarrow> nat \<Rightarrow> 'a tensor \<Rightarrow> 'a tensor" where
  "pad_axis k b a t =
     taxis ((tshape t)[k := tshape t ! k + (b + a)])
       ((replicate (trank t) id)[k := edge_ix (tshape t ! k) b]) t"

definition const_axis :: "nat \<Rightarrow> nat \<Rightarrow> nat \<Rightarrow> 'a tensor \<Rightarrow> 'a tensor" where
  "const_axis k n j t = taxis ((tshape t)[k := n]) ((replicate (trank t) id)[k := \<lambda>_. j]) t"

lemma apply_ix_axis:
  assumes "length is = n" and "k < n"
  shows "apply_ix ((replicate n id)[k := g]) is = is[k := g (is ! k)]"
  using assms by (intro nth_equalityI) (auto simp: nth_list_update)

lemma tnth_axis:
  assumes "valid_ix ds is" and "length ds = n" and "k < n"
  shows "tnth (taxis ds ((replicate n id)[k := g]) t) is = tnth t (is[k := g (is ! k)])"
  using assms valid_ix_length [OF assms(1)] by (simp add: apply_ix_axis)

lemma ttile_slice_const:
  assumes k: "k < trank t" and j: "j < tshape t ! k"
  shows "ttile ((replicate (trank t) 1)[k := n])
      (tslice ((replicate (trank t) 0)[k := j]) ((tshape t)[k := 1]) (replicate (trank t) 1) t) = const_axis k n j t"
proof (rule tensor_eqI)
  let ?ds = "tshape t" and ?n = "trank t"
  let ?s = "tslice ((replicate ?n 0)[k := j]) (?ds[k := 1]) (replicate ?n 1) t"
  have s: "tshape ?s = ?ds[k := 1]" by (simp add: tslice_def)
  have sh: "map2 (*) (?ds[k := 1]) ((replicate ?n 1)[k := n]) = ?ds[k := n]"
    using k by (intro nth_equalityI) (auto simp: nth_list_update)
  then show "tshape (ttile ((replicate ?n 1)[k := n]) ?s) = tshape (const_axis k n j t)"
    unfolding ttile_def s by (simp add: const_axis_def)
  fix "is" assume "valid_ix (tshape (const_axis k n j t)) is"
  then have v: "valid_ix (?ds[k := n]) is" and l: "length is = ?n"
    by (auto simp: const_axis_def dest: valid_ix_length)
  have "\<forall>i<?n. i \<noteq> k \<longrightarrow> is ! i < ?ds ! i"
    using valid_ix_nth [OF v] by (metis length_list_update nth_list_update_neq)
  then have m: "apply_ix (map (\<lambda>d i. i mod d) (?ds[k := 1])) is = is[k := 0]"
    using l k by (intro nth_equalityI) (auto simp: nth_list_update)
  have v1: "valid_ix (?ds[k := 1]) (is[k := 0])"
    using v l k by (intro valid_ixI) (auto simp: nth_list_update dest: valid_ix_nth)
  have o: "apply_ix (map2 (\<lambda>b s i. b + i * s) ((replicate ?n 0)[k := j]) (replicate ?n 1)) (is[k := 0]) = is[k := j]"
    using l k by (intro nth_equalityI) (auto simp: nth_list_update)
  have "tnth (ttile ((replicate ?n 1)[k := n]) ?s) is = tnth ?s (is[k := 0])"
    using v m sh unfolding ttile_def s by simp
  also have "\<dots> = tnth t (is[k := j])" using v1 o unfolding tslice_def by simp
  also have "\<dots> = tnth (const_axis k n j t) is"
    using v k unfolding const_axis_def by (subst tnth_axis) simp_all
  finally show "tnth (ttile ((replicate ?n 1)[k := n]) ?s) is = tnth (const_axis k n j t) is" .
qed (simp_all add: ttile_def const_axis_def)

definition edge_pieces :: "nat \<Rightarrow> nat \<Rightarrow> nat \<Rightarrow> 'a tensor \<Rightarrow> 'a tensor list" where
  "edge_pieces k b a t =
     (if b = 0 then [] else [const_axis k b 0 t]) @ [t] @
     (if a = 0 then [] else [const_axis k a (tshape t ! k - 1) t])"

lemma concatable_edge_pieces:
  assumes "wf_tensor t" and "k < trank t" shows "concatable k (edge_pieces k b a t)"
proof -
  have "\<exists>m. tshape t = (tshape t)[k := m]" by (intro exI [of _ "tshape t ! k"]) simp
  moreover have "\<exists>m. tshape t = (tshape t)[k := c, k := m]" for c
    by (intro exI [of _ "tshape t ! k"]) simp
  ultimately show ?thesis using assms by (auto simp: concatable_def edge_pieces_def const_axis_def)
qed

lemma tconcat_edge_pieces:
  assumes wf: "wf_tensor t" and k: "k < trank t" and d: "0 < tshape t ! k"
  shows "tconcat k (edge_pieces k b a t) = pad_axis k b a t"
proof (rule tensor_eqI)
  let ?ds = "tshape t" and ?d = "tshape t ! k" and ?ps = "edge_pieces k b a t"
  have c: "tshape (const_axis k n j t) ! k = n" for n j using k by (simp add: const_axis_def)
  have sz: "map (\<lambda>t. tshape t ! k) ?ps = (if b = 0 then [] else [b]) @ [?d] @ (if a = 0 then [] else [a])"
    by (simp add: edge_pieces_def c)
  have "tshape (hd ?ps) = ?ds[k := if b = 0 then ?d else b]"
    by (simp add: edge_pieces_def const_axis_def)
  then show sh: "tshape (tconcat k ?ps) = tshape (pad_axis k b a t)"
    using sz by (simp add: pad_axis_def ac_simps)
  fix "is" assume v: "valid_ix (tshape (pad_axis k b a t)) is"
  then have v': "valid_ix (?ds[k := ?d + (b + a)]) is" and l: "length is = trank t"
    by (auto simp: pad_axis_def dest: valid_ix_length)
  have ik: "is ! k < b + (?d + a)" using valid_ix_nth [OF v', of k] k by simp
  have vk: "valid_ix (?ds[k := m]) (is[k := r])" if "r < m" for r m
    using v' that k l by (intro valid_ixI) (auto simp: nth_list_update dest: valid_ix_nth)
  have cst: "tnth (const_axis k n j t) (is[k := r]) = tnth t (is[k := j])" if "r < n" for n j r
    using vk [OF that] k l unfolding const_axis_def by (subst tnth_axis) simp_all
  have "tnth (tconcat k ?ps) is = tnth t (is[k := edge_ix ?d b (is ! k)])"
  proof -
    have at: "tnth (tconcat k ?ps) is = tnth (?ps ! j) (is[k := r])"
      if "locate (map (\<lambda>t. tshape t ! k) ?ps) (is ! k) = (j, r)" for j r
      using v sh that by (intro tnth_tconcat) simp_all
    consider "is ! k < b" | "b \<le> is ! k" "is ! k < b + ?d" | "b + ?d \<le> is ! k" by linarith
    then show ?thesis
    proof cases
      case 1
      then have "tnth (tconcat k ?ps) is = tnth (const_axis k b 0 t) (is[k := is ! k])"
        using at [of 0 "is ! k"] unfolding sz by (simp add: edge_pieces_def)
      with 1 show ?thesis by (simp only: cst edge_ix_def if_True)
    next
      case 2
      then have "tnth (tconcat k ?ps) is = tnth t (is[k := is ! k - b])"
        using at [of "if b = 0 then 0 else 1" "is ! k - b"] unfolding sz
        by (auto simp: edge_pieces_def split: if_splits)
      with 2 show ?thesis by (simp add: edge_ix_def)
    next
      case 3
      then have "a \<noteq> 0" and n: "\<not> is ! k < b" "\<not> is ! k - b < ?d" "is ! k - b - ?d < a" using ik by linarith+
      with 3 have "tnth (tconcat k ?ps) is = tnth (const_axis k a (?d - 1) t) (is[k := is ! k - b - ?d])"
        using at [of "if b = 0 then 1 else 2" "is ! k - b - ?d"] n unfolding sz
        by (auto simp: edge_pieces_def numeral_2_eq_2 split: if_splits)
      with 3 ik show ?thesis by (simp add: cst edge_ix_def)
    qed
  qed
  then show "tnth (tconcat k ?ps) is = tnth (pad_axis k b a t) is"
    using v' k unfolding pad_axis_def by (subst tnth_axis) simp_all
qed (simp_all add: pad_axis_def)

lemma pad_axis_zero: "wf_tensor t \<Longrightarrow> k < trank t \<Longrightarrow> pad_axis k 0 0 t = t"
proof (rule tensor_eqI)
  assume k: "k < trank t"
  fix "is" assume v: "valid_ix (tshape t) is"
  then have "is ! k < tshape t ! k" using k by (rule valid_ix_nth)
  then show "tnth (pad_axis k 0 0 t) is = tnth t is"
    using v k unfolding pad_axis_def by (subst tnth_axis) (simp_all add: edge_ix_def)
qed (simp_all add: pad_axis_def)

lemma pad_axes:
  assumes "wf_tensor t" and "m \<le> trank t" and pos: "\<forall>k<trank t. 0 < tshape t ! k"
  shows "foldl (\<lambda>x k. pad_axis k (bs ! k) (as ! k) x) t [0..<m] =
    taxis (map (\<lambda>k. if k < m then tshape t ! k + (bs ! k + as ! k) else tshape t ! k) [0..<trank t])
      (map (\<lambda>k. if k < m then edge_ix (tshape t ! k) (bs ! k) else id) [0..<trank t]) t"
  using assms(2)
proof (induction m)
  case 0
  have "apply_ix (replicate (trank t) (\<lambda>i. i)) is = is" if "valid_ix (tshape t) is" for "is"
    using valid_ix_length [OF that] by (intro nth_equalityI) simp_all
  then show ?case
    using assms(1) by (intro tensor_eqI) (simp_all add: map_nth map_replicate_const)
next
  case (Suc m)
  let ?n = "trank t" and ?d = "\<lambda>k. tshape t ! k"
  let ?sh = "\<lambda>m. map (\<lambda>k. if k < m then ?d k + (bs ! k + as ! k) else ?d k) [0..<?n]"
  let ?gs = "\<lambda>m. map (\<lambda>k. if k < m then edge_ix (?d k) (bs ! k) else id) [0..<?n]"
  let ?u = "(replicate ?n id)[m := edge_ix (?d m) (bs ! m)]"
  have m: "m < ?n" using Suc.prems by simp
  have sh: "(?sh m)[m := ?d m + (bs ! m + as ! m)] = ?sh (Suc m)"
    using m by (intro nth_equalityI) (auto simp: nth_list_update less_Suc_eq)
  have gs: "map2 (\<lambda>g h. g \<circ> h) (?gs m) ?u = ?gs (Suc m)"
    using m by (intro nth_equalityI) (auto simp: nth_list_update less_Suc_eq)
  have vu: "valid_ix (?sh m) (apply_ix ?u is)" if "valid_ix (?sh (Suc m)) is" for "is"
    using that pos edge_ix_less m
    by (intro valid_pointwise [OF that]) (auto simp: nth_list_update less_Suc_eq)
  have "foldl (\<lambda>x k. pad_axis k (bs ! k) (as ! k) x) t [0..<Suc m] =
      pad_axis m (bs ! m) (as ! m) (taxis (?sh m) (?gs m) t)"
    using Suc by simp
  also have "\<dots> = taxis (?sh (Suc m)) ?u (taxis (?sh m) (?gs m) t)"
    using m by (simp add: pad_axis_def sh)
  also have "\<dots> = taxis (?sh (Suc m)) (?gs (Suc m)) t"
    using vu by (subst taxis_taxis) (simp_all add: gs)
  finally show ?case .
qed

lemma pad_axes_tpad_edge:
  assumes "wf_tensor t" and "\<forall>k<trank t. 0 < tshape t ! k" and "length bs = trank t" "length as = trank t"
  shows "foldl (\<lambda>x k. pad_axis k (bs ! k) (as ! k) x) t [0..<trank t] = tpad_edge bs as t"
proof -
  have "map (\<lambda>k. if k < trank t then tshape t ! k + (bs ! k + as ! k) else tshape t ! k) [0..<trank t] =
      map2 (+) (tshape t) (map2 (+) bs as)"
    using assms by (intro nth_equalityI) simp_all
  moreover have "map (\<lambda>k. if k < trank t then edge_ix (tshape t ! k) (bs ! k) else id) [0..<trank t] =
      map2 edge_ix (tshape t) bs"
    using assms by (intro nth_equalityI) simp_all
  ultimately show ?thesis using pad_axes [OF assms(1) le_refl assms(2)] by (simp add: tpad_edge_def)
qed

end
