(* ===== verification/Tensor_Compute.thy ===== *)
theory Tensor_Compute
  imports Tensor_Pad
begin

text \<open>
  Specification of the tensor operations that compute on elements: broadcasting maps, selection,
  reduction over a set of axes, functions along one axis, indices of extrema, batched matrix
  products and gathers. The functions on scalars and on rows are parameters, so no property of
  floating-point arithmetic is assumed; the order in which a reduction sees its elements is fixed.
\<close>

section \<open>Broadcasting\<close>

definition bcast_ix :: "nat list \<Rightarrow> nat list \<Rightarrow> nat list" where
  "bcast_ix ds is = map2 (\<lambda>d i. if d = 1 then 0 else i) ds (drop (length is - length ds) is)"

definition tbroadcast :: "nat list \<Rightarrow> 'a tensor \<Rightarrow> 'a tensor" where
  "tbroadcast ds t = tgen ds (\<lambda>is. tnth t (bcast_ix (tshape t) is))"

definition bcast_ok :: "nat list \<Rightarrow> nat list \<Rightarrow> bool" where
  "bcast_ok ss ds \<longleftrightarrow> length ss \<le> length ds \<and>
     list_all2 (\<lambda>s d. s = 1 \<or> s = d) ss (drop (length ds - length ss) ds)"

definition pad_left :: "nat \<Rightarrow> nat list \<Rightarrow> nat list" where
  "pad_left n ds = replicate (n - length ds) 1 @ ds"

definition bcast_dim :: "nat \<Rightarrow> nat \<Rightarrow> nat" where
  "bcast_dim a b = (if a = 1 then b else a)"

text \<open>The broadcast shape of two shapes, aligned at their last axes.\<close>

definition bcast_shape :: "nat list \<Rightarrow> nat list \<Rightarrow> nat list" where
  "bcast_shape as bs =
     (let n = max (length as) (length bs) in map2 bcast_dim (pad_left n as) (pad_left n bs))"

definition bcast_compat :: "nat list \<Rightarrow> nat list \<Rightarrow> bool" where
  "bcast_compat as bs \<longleftrightarrow>
     (let n = max (length as) (length bs) in
      list_all2 (\<lambda>a b. a = 1 \<or> b = 1 \<or> a = b) (pad_left n as) (pad_left n bs))"

definition tmap :: "('a \<Rightarrow> 'b) \<Rightarrow> 'a tensor \<Rightarrow> 'b tensor" where
  "tmap f t = Tensor (tshape t) (map f (tdata t))"

definition tmap2 :: "('a \<Rightarrow> 'b \<Rightarrow> 'c) \<Rightarrow> 'a tensor \<Rightarrow> 'b tensor \<Rightarrow> 'c tensor" where
  "tmap2 f s t =
     (let ds = bcast_shape (tshape s) (tshape t) in
      tgen ds (\<lambda>is. f (tnth s (bcast_ix (tshape s) is)) (tnth t (bcast_ix (tshape t) is))))"

definition tselect :: "('a \<Rightarrow> bool) \<Rightarrow> 'a tensor \<Rightarrow> 'a tensor \<Rightarrow> 'a tensor \<Rightarrow> 'a tensor" where
  "tselect true c x y =
     tgen (bcast_shape (tshape c) (bcast_shape (tshape x) (tshape y)))
       (\<lambda>is. if true (tnth c (bcast_ix (tshape c) is)) then tnth x (bcast_ix (tshape x) is)
             else tnth y (bcast_ix (tshape y) is))"

lemma tshape_tbroadcast [simp]: "tshape (tbroadcast ds t) = ds" and wf_tbroadcast [simp]: "wf_tensor (tbroadcast ds t)"
  by (simp_all add: tbroadcast_def)

lemma tshape_tmap [simp]: "tshape (tmap f t) = tshape t" and wf_tmap [simp]: "wf_tensor (tmap f t) = wf_tensor t"
  by (simp_all add: tmap_def wf_tensor_def)

lemma tnth_tmap: "wf_tensor t \<Longrightarrow> valid_ix (tshape t) is \<Longrightarrow> tnth (tmap f t) is = f (tnth t is)"
  using ravel_less [of "tshape t" "is"] by (simp add: tmap_def tnth_def wf_tensor_def)

lemma wf_tmap2 [simp]: "wf_tensor (tmap2 f s t)"
  by (simp add: tmap2_def Let_def)

lemma tshape_tmap2 [simp]: "tshape (tmap2 f s t) = bcast_shape (tshape s) (tshape t)"
  by (simp add: tmap2_def Let_def)

lemma wf_tselect [simp]: "wf_tensor (tselect tr c x y)"
  by (simp add: tselect_def)

lemma bcast_shape_same [simp]: "bcast_shape ds ds = ds"
  by (induction ds) (simp_all add: bcast_shape_def pad_left_def bcast_dim_def)

lemma bcast_ix_self: "valid_ix ds is \<Longrightarrow> bcast_ix ds is = is"
  using valid_ix_nth [of ds "is"] valid_ix_length [of ds "is"]
  by (intro nth_equalityI) (simp_all add: bcast_ix_def, metis less_Suc0)

lemma tmap_ttranspose:
  assumes "wf_tensor t" and p: "is_perm p (trank t)"
  shows "ttranspose p (tmap f t) = tmap f (ttranspose p t)"
  using assms by (intro tensor_transpose_eqI)
    (simp_all add: tnth_tmap tnth_ttranspose_permute valid_ix_permuteI)

section \<open>Functions along an axis\<close>

definition trow :: "nat \<Rightarrow> 'a tensor \<Rightarrow> nat list \<Rightarrow> 'a list" where
  "trow a t is = map (\<lambda>j. tnth t (is[a := j])) [0..<tshape t ! a]"

definition talong :: "nat \<Rightarrow> ('a list \<Rightarrow> 'a list) \<Rightarrow> 'a tensor \<Rightarrow> 'a tensor" where
  "talong a f t = tgen (tshape t) (\<lambda>is. f (trow a t is) ! (is ! a))"

lemma tshape_talong [simp]: "tshape (talong a f t) = tshape t" and wf_talong [simp]: "wf_tensor (talong a f t)"
  by (simp_all add: talong_def)

lemma trow_ttranspose:
  assumes p: "is_perm p (trank t)" and a: "a < trank t" and v: "valid_ix (tshape t) is"
  shows "trow (ipos p a) (ttranspose p t) (permute p is) = trow a t is"
proof -
  have l: "length is = trank t" using v by (rule valid_ix_length)
  have "tnth (ttranspose p t) ((permute p is)[ipos p a := j]) = tnth t (is[a := j])" if "j < tshape t ! a" for j
  proof -
    have "valid_ix (tshape t) (is[a := j])"
      using v that l a by (intro valid_ixI) (auto simp: nth_list_update dest: valid_ix_nth)
    then show ?thesis using p permute_update [OF p l a] by (simp add: tnth_ttranspose_permute [symmetric])
  qed
  then show ?thesis using p a by (simp add: trow_def nth_permute_ipos)
qed

lemma ttranspose_talong:
  assumes p: "is_perm p (trank t)" and a: "a < trank t"
  shows "ttranspose p (talong a f t) = talong (ipos p a) f (ttranspose p t)"
proof (rule tensor_transpose_eqI)
  fix "is" assume "valid_ix (tshape (talong a f t)) is"
  then have v: "valid_ix (tshape t) is" by simp
  then have "valid_ix (permute p (tshape t)) (permute p is)" using p by (intro valid_ix_permuteI)
  then show "tnth (talong (ipos p a) f (ttranspose p t)) (permute p is) = tnth (talong a f t) is"
    using v p a trow_ttranspose [OF p a v] nth_permute_ipos [OF p a, of "is"]
    by (simp add: talong_def)
qed (use p in simp_all)

section \<open>Extremal positions along an axis\<close>

definition remove_ix :: "nat \<Rightarrow> 'a list \<Rightarrow> 'a list" where
  "remove_ix a xs = take a xs @ drop (Suc a) xs"

definition insert_ix :: "nat \<Rightarrow> nat \<Rightarrow> nat list \<Rightarrow> nat list" where
  "insert_ix a j is = take a is @ j # drop a is"

definition trows :: "nat \<Rightarrow> ('a list \<Rightarrow> 'b) \<Rightarrow> 'a tensor \<Rightarrow> 'b tensor" where
  "trows a f t = tgen (remove_ix a (tshape t)) (\<lambda>is. f (trow a t (insert_ix a 0 is)))"

text \<open>The positions whose element no other element of the row beats.\<close>

definition best :: "('a \<Rightarrow> 'a \<Rightarrow> bool) \<Rightarrow> 'a list \<Rightarrow> nat list" where
  "best better xs = filter (\<lambda>i. \<not> (\<exists>y\<in>set xs. better y (xs ! i))) [0..<length xs]"

definition arg_first :: "('a \<Rightarrow> 'a \<Rightarrow> bool) \<Rightarrow> 'a list \<Rightarrow> nat" where
  "arg_first better xs = hd (best better xs)"

definition arg_last :: "('a \<Rightarrow> 'a \<Rightarrow> bool) \<Rightarrow> 'a list \<Rightarrow> nat" where
  "arg_last better xs = last (best better xs)"

lemma length_remove_ix [simp]: "a < length xs \<Longrightarrow> length (remove_ix a xs) = length xs - 1"
  by (simp add: remove_ix_def)

lemma tshape_trows [simp]: "tshape (trows a f t) = remove_ix a (tshape t)" and wf_trows [simp]: "wf_tensor (trows a f t)"
  by (simp_all add: trows_def)

lemma rev_upt_minus: "rev [0..<n] = map (\<lambda>i. n - 1 - i) [0..<n]"
  by (rule nth_equalityI) (simp_all add: rev_nth)

lemma best_rev: "best better (rev xs) = rev (map (\<lambda>i. length xs - 1 - i) (best better xs))"
proof -
  let ?n = "length xs" and ?P = "\<lambda>x. \<not> (\<exists>y\<in>set xs. better y x)"
  have "rev (map (\<lambda>i. ?n - 1 - i) (best better xs)) = map (\<lambda>i. ?n - 1 - i) (filter (\<lambda>i. ?P (xs ! i)) (rev [0..<?n]))"
    by (simp add: best_def rev_map rev_filter)
  also have "\<dots> = map (\<lambda>i. ?n - 1 - (?n - 1 - i)) (filter (\<lambda>i. ?P (xs ! (?n - 1 - i))) [0..<?n])"
    by (simp add: rev_upt_minus filter_map comp_def)
  also have "filter (\<lambda>i. ?P (xs ! (?n - 1 - i))) [0..<?n] = filter (\<lambda>i. ?P (rev xs ! i)) [0..<?n]"
    by (intro filter_cong) (simp_all add: rev_nth)
  also have "map (\<lambda>i. ?n - 1 - (?n - 1 - i)) \<dots> = filter (\<lambda>i. ?P (rev xs ! i)) [0..<?n]"
    by (intro map_idI) auto
  finally show ?thesis by (simp add: best_def)
qed

lemma arg_last_rev:
  assumes "best better xs \<noteq> []" shows "arg_last better xs = length xs - 1 - arg_first better (rev xs)"
proof -
  let ?i = "last (best better xs)"
  have "?i \<in> set (best better xs)" using assms by simp
  then have "?i < length xs" by (auto simp: best_def simp del: last_in_set)
  moreover have "arg_first better (rev xs) = length xs - 1 - ?i"
    using assms by (simp add: arg_first_def best_rev hd_rev last_map)
  ultimately show ?thesis by (simp add: arg_last_def)
qed

section \<open>Reductions\<close>

text \<open>
  \<open>red\<close> marks the reduced axes. \<open>merge_ix\<close> interleaves an index of the reduced axes with one of
  the kept axes; the elements of a reduction are listed in row-major order of the reduced axes.
\<close>

fun merge_ix :: "bool list \<Rightarrow> nat list \<Rightarrow> nat list \<Rightarrow> nat list" where
  "merge_ix [] rs ks = []"
| "merge_ix (True # red) rs ks = hd rs # merge_ix red (tl rs) ks"
| "merge_ix (False # red) rs ks = hd ks # merge_ix red rs (tl ks)"

definition all_ix :: "nat list \<Rightarrow> nat list list" where
  "all_ix ds = map (unravel ds) [0..<prod_list ds]"

definition reduced_dims :: "bool list \<Rightarrow> nat list \<Rightarrow> nat list" where
  "reduced_dims red ds = not_dropped (map Not red) ds"

definition kept_dims :: "bool list \<Rightarrow> nat list \<Rightarrow> nat list" where
  "kept_dims red ds = not_dropped red ds"

definition keep_shape :: "bool \<Rightarrow> bool list \<Rightarrow> nat list \<Rightarrow> nat list" where
  "keep_shape keep red ds = (if keep then map2 (\<lambda>r d. if r then 1 else d) red ds else kept_dims red ds)"

definition treduce :: "('a list \<Rightarrow> 'b) \<Rightarrow> bool list \<Rightarrow> bool \<Rightarrow> 'a tensor \<Rightarrow> 'b tensor" where
  "treduce f red keep t =
     tgen (keep_shape keep red (tshape t))
       (\<lambda>is. f (map (\<lambda>rs. tnth t (merge_ix red rs (if keep then not_dropped red is else is)))
                  (all_ix (reduced_dims red (tshape t)))))"

lemma tshape_treduce [simp]: "tshape (treduce f red keep t) = keep_shape keep red (tshape t)"
  and wf_treduce [simp]: "wf_tensor (treduce f red keep t)"
  by (simp_all add: treduce_def)

text \<open>Reducing height and width in either layout: the elements are listed in the same order.\<close>

lemma treduce_spatial:
  assumes "tshape t = [n, c, h, w]"
  shows "treduce f [False, True, True, False] keep (ttranspose [0, 2, 3, 1] t) =
    (if keep then ttranspose [0, 2, 3, 1] (treduce f [False, False, True, True] True t)
     else treduce f [False, False, True, True] False t)"
proof -
  define p where "p = ([0, 2, 3, 1] :: nat list)"
  have p: "is_perm p (trank t)" "is_perm p (Suc (Suc (Suc (Suc 0))))"
    using assms by (simp_all add: is_perm_def p_def)
  have pm: "permute p [a, b, c, d] = [a, c, d, b]" for a b c d :: nat by (simp add: permute_def p_def)
  have el: "tnth (ttranspose p t) [i, y, x, k] = tnth t [i, k, y, x]"
    if "i < n" "k < c" "y < h" "x < w" for i k y x
    using tnth_ttranspose_permute [OF p(1), of "[i, k, y, x]"] assms that by (simp add: pm)
  have rows: "map (\<lambda>rs. tnth (ttranspose p t) (merge_ix [False, True, True, False] rs [i, k])) (all_ix [h, w]) =
      map (\<lambda>rs. tnth t (merge_ix [False, False, True, True] rs [i, k])) (all_ix [h, w])"
    if "i < n" "k < c" for i k
  proof (rule map_cong [OF refl])
    fix rs assume "rs \<in> set (all_ix [h, w])"
    then obtain j where "j < h * w" "rs = unravel [h, w] j" by (auto simp: all_ix_def)
    then obtain y x where "rs = [y, x]" "y < h" "x < w"
      using unravel_valid [of j "[h, w]"] by (auto simp: valid_ix_Cons)
    then show "tnth (ttranspose p t) (merge_ix [False, True, True, False] rs [i, k]) =
        tnth t (merge_ix [False, False, True, True] rs [i, k])"
      using el that by simp
  qed
  note d = reduced_dims_def keep_shape_def kept_dims_def assms pm
  have "treduce f [False, True, True, False] keep (ttranspose p t) =
    (if keep then ttranspose p (treduce f [False, False, True, True] True t)
     else treduce f [False, False, True, True] False t)"
  proof (cases keep)
    case True
    have "ttranspose p (treduce f [False, False, True, True] True t) =
        treduce f [False, True, True, False] True (ttranspose p t)"
    proof (rule tensor_transpose_eqI)
      fix "is" assume "valid_ix (tshape (treduce f [False, False, True, True] True t)) is"
      then obtain i k where "is = [i, k, 0, 0]" "i < n" "k < c" by (auto simp: d valid_ix_Cons)
      then show "tnth (treduce f [False, True, True, False] True (ttranspose p t)) (permute p is) =
          tnth (treduce f [False, False, True, True] True t) is"
        using arg_cong [where f = f, OF rows [of i k]] by (simp add: treduce_def d)
    qed (use p in \<open>simp_all add: d\<close>)
    with True show ?thesis by simp
  next
    case False
    then show ?thesis
      using arg_cong [where f = f, OF rows] by (auto simp: treduce_def d valid_ix_Cons intro!: tgen_cong)
  qed
  then show ?thesis unfolding p_def .
qed

section \<open>Gather\<close>

definition tgather :: "nat \<Rightarrow> 'a tensor \<Rightarrow> nat tensor \<Rightarrow> 'a tensor" where
  "tgather a t ix =
     tgen (take a (tshape t) @ tshape ix @ drop (Suc a) (tshape t))
       (\<lambda>is. tnth t (take a is @ [tnth ix (take (trank ix) (drop a is))] @ drop (a + trank ix) is))"

lemma tshape_tgather [simp]: "tshape (tgather a t ix) = take a (tshape t) @ tshape ix @ drop (Suc a) (tshape t)"
  and wf_tgather [simp]: "wf_tensor (tgather a t ix)"
  by (simp_all add: tgather_def)

section \<open>Batched matrix products\<close>

definition swap_last :: "bool \<Rightarrow> nat list \<Rightarrow> nat list" where
  "swap_last b xs =
     (if b then (let n = length xs in take (n - 2) xs @ [xs ! (n - 1), xs ! (n - 2)]) else xs)"

definition tmatmul :: "('a list \<Rightarrow> 'a list \<Rightarrow> 'a) \<Rightarrow> bool \<Rightarrow> bool \<Rightarrow> 'a tensor \<Rightarrow> 'a tensor \<Rightarrow> 'a tensor" where
  "tmatmul dot adjX adjY s t =
     (let as = swap_last adjX (tshape s); bs = swap_last adjY (tshape t);
          m = length as; n = length bs;
          batch = bcast_shape (take (m - 2) as) (take (n - 2) bs)
      in tgen (batch @ [as ! (m - 2), bs ! (n - 1)])
           (\<lambda>is. let b = length batch;
                     sb = bcast_ix (take (m - 2) as) (take b is); tb = bcast_ix (take (n - 2) bs) (take b is) in
                 dot (map (\<lambda>k. tnth s (swap_last adjX (sb @ [is ! b, k]))) [0..<as ! (m - 1)])
                     (map (\<lambda>k. tnth t (swap_last adjY (tb @ [k, is ! (b + 1)]))) [0..<as ! (m - 1)])))"

definition matmul_ok :: "bool \<Rightarrow> bool \<Rightarrow> nat list \<Rightarrow> nat list \<Rightarrow> bool" where
  "matmul_ok adjX adjY as bs \<longleftrightarrow>
     (let xs = swap_last adjX as; ys = swap_last adjY bs; m = length xs; n = length ys in
      xs ! (m - 1) = ys ! (n - 2) \<and> bcast_compat (take (m - 2) xs) (take (n - 2) ys))"

lemma wf_tmatmul [simp]: "wf_tensor (tmatmul dot adjX adjY s t)"
  by (simp add: tmatmul_def Let_def)

section \<open>Blocks\<close>

text \<open>
  ONNX DepthToSpace on \<^verbatim>\<open>[N, C, H, W]\<close> in its two channel orders, and SpaceToDepth; the TFL
  operations are the DCR forms on \<^verbatim>\<open>[N, H, W, C]\<close>.
\<close>

definition nchw_d2s :: "bool \<Rightarrow> nat \<Rightarrow> 'a tensor \<Rightarrow> 'a tensor" where
  "nchw_d2s dcr r t =
     (let ds = tshape t; c = ds ! 1 div (r * r) in
      tgen [ds ! 0, c, ds ! 2 * r, ds ! 3 * r]
        (\<lambda>is. let blk = is ! 2 mod r * r + is ! 3 mod r in
              tnth t [is ! 0, if dcr then blk * c + is ! 1 else is ! 1 * (r * r) + blk,
                      is ! 2 div r, is ! 3 div r]))"

definition nhwc_d2s :: "nat \<Rightarrow> 'a tensor \<Rightarrow> 'a tensor" where
  "nhwc_d2s r t =
     (let ds = tshape t; c = ds ! 3 div (r * r) in
      tgen [ds ! 0, ds ! 1 * r, ds ! 2 * r, c]
        (\<lambda>is. tnth t [is ! 0, is ! 1 div r, is ! 2 div r, (is ! 1 mod r * r + is ! 2 mod r) * c + is ! 3]))"

definition nchw_s2d :: "nat \<Rightarrow> 'a tensor \<Rightarrow> 'a tensor" where
  "nchw_s2d r t =
     (let ds = tshape t; c = ds ! 1 in
      tgen [ds ! 0, c * r * r, ds ! 2 div r, ds ! 3 div r]
        (\<lambda>is. let blk = is ! 1 div c in
              tnth t [is ! 0, is ! 1 mod c, is ! 2 * r + blk div r, is ! 3 * r + blk mod r]))"

definition nhwc_s2d :: "nat \<Rightarrow> 'a tensor \<Rightarrow> 'a tensor" where
  "nhwc_s2d r t =
     (let ds = tshape t; c = ds ! 3 in
      tgen [ds ! 0, ds ! 1 div r, ds ! 2 div r, c * r * r]
        (\<lambda>is. let blk = is ! 3 div c in
              tnth t [is ! 0, is ! 1 * r + blk div r, is ! 2 * r + blk mod r, is ! 3 mod c]))"

end
