(* ===== verification/Tensor_Index.thy ===== *)
theory Tensor_Index
  imports Tensor_Compute
begin

text \<open>
  Tensors addressed by coordinate tensors and by windows: the gather and the scatter of TensorFlow
  Lite, which take one complete coordinate per slice, and sliding windows over the spatial axes with
  the positions outside the input marked as absent.
\<close>

section \<open>Coordinates\<close>

text \<open>The last axis of \<open>ix\<close> holds the coordinates; \<open>coordinate ix is\<close> is the one at position \<open>is\<close>.\<close>

definition ixdepth :: "'a tensor \<Rightarrow> nat" where
  "ixdepth ix = last (tshape ix)"

definition coordinate :: "nat tensor \<Rightarrow> nat list \<Rightarrow> nat list" where
  "coordinate ix is = map (\<lambda>k. tnth ix (is @ [k])) [0..<ixdepth ix]"

definition tgather_nd :: "'a tensor \<Rightarrow> nat tensor \<Rightarrow> 'a tensor" where
  "tgather_nd t ix =
     tgen (butlast (tshape ix) @ drop (ixdepth ix) (tshape t))
       (\<lambda>is. tnth t (coordinate ix (take (trank ix - 1) is) @ drop (trank ix - 1) is))"

definition coordinates_ok :: "nat list \<Rightarrow> nat tensor \<Rightarrow> bool" where
  "coordinates_ok ds ix \<longleftrightarrow> wf_tensor ix \<and> tshape ix \<noteq> [] \<and> ixdepth ix \<le> length ds \<and>
     (\<forall>is. valid_ix (butlast (tshape ix)) is \<longrightarrow> valid_ix (take (ixdepth ix) ds) (coordinate ix is))"

text \<open>
  The updates that reach a position, in the order of the update tensor, folded into what was there
  before.
\<close>

definition updates_at :: "nat tensor \<Rightarrow> 'b tensor \<Rightarrow> nat list \<Rightarrow> 'b list" where
  "updates_at ix u is =
     map (\<lambda>js. tnth u (js @ drop (ixdepth ix) is))
       (filter (\<lambda>js. coordinate ix js = take (ixdepth ix) is) (all_ix (butlast (tshape ix))))"

definition tscatter_nd :: "('a \<Rightarrow> 'b \<Rightarrow> 'a) \<Rightarrow> nat tensor \<Rightarrow> 'b tensor \<Rightarrow> 'a tensor \<Rightarrow> 'a tensor" where
  "tscatter_nd f ix u t = tgen (tshape t) (\<lambda>is. foldl f (tnth t is) (updates_at ix u is))"

lemma tshape_tgather_nd [simp]: "tshape (tgather_nd t ix) = butlast (tshape ix) @ drop (ixdepth ix) (tshape t)"
  and wf_tgather_nd [simp]: "wf_tensor (tgather_nd t ix)"
  by (simp_all add: tgather_nd_def)

lemma tshape_tscatter_nd [simp]: "tshape (tscatter_nd f ix u t) = tshape t"
  and wf_tscatter_nd [simp]: "wf_tensor (tscatter_nd f ix u t)"
  by (simp_all add: tscatter_nd_def)

lemma length_coordinate [simp]: "length (coordinate ix is) = ixdepth ix"
  by (simp add: coordinate_def)

section \<open>All indices of a shape\<close>

lemma all_ix_Nil [simp]: "all_ix [] = [[]]"
  by (simp add: all_ix_def)

lemma set_all_ix: "set (all_ix ds) = {is. valid_ix ds is}"
proof
  show "set (all_ix ds) \<subseteq> {is. valid_ix ds is}" by (auto simp: all_ix_def unravel_valid)
  show "{is. valid_ix ds is} \<subseteq> set (all_ix ds)"
  proof
    fix "is" assume "is \<in> {is. valid_ix ds is}"
    then have "is = unravel ds (ravel ds is)" "ravel ds is < prod_list ds" by (simp_all add: ravel_less)
    then show "is \<in> set (all_ix ds)" unfolding all_ix_def by (auto simp del: unravel_ravel)
  qed
qed

lemma distinct_all_ix [simp]: "distinct (all_ix ds)"
proof -
  have "inj_on (unravel ds) {0..<prod_list ds}" by (rule inj_on_inverseI [where g = "ravel ds"]) simp
  then show ?thesis by (simp add: all_ix_def distinct_map)
qed

lemma length_all_ix [simp]: "length (all_ix ds) = prod_list ds"
  by (simp add: all_ix_def)

lemma nth_all_ix [simp]: "k < prod_list ds \<Longrightarrow> all_ix ds ! k = unravel ds k"
  by (simp add: all_ix_def)

lemma upt_mult_concat: "[0..<d * p] = concat (map (\<lambda>i. map (\<lambda>k. i * p + k) [0..<p]) [0..<d])"
proof (induction d)
  case (Suc d)
  have "[0..<d * p + p] = [0..<d * p] @ [d * p..<d * p + p]" by (rule upt_add_eq_append) simp
  then have "[0..<Suc d * p] = [0..<d * p] @ [d * p..<d * p + p]" by (simp only: mult_Suc add.commute)
  also have "[d * p..<d * p + p] = map (\<lambda>k. d * p + k) [0..<p]"
    by (rule nth_equalityI) simp_all
  finally show ?case using Suc by simp
qed simp

lemma all_ix_Cons: "all_ix (d # ds) = concat (map (\<lambda>i. map ((#) i) (all_ix ds)) [0..<d])"
proof (cases "prod_list ds = 0")
  case False
  then have "map (unravel (d # ds)) (map (\<lambda>k. i * prod_list ds + k) [0..<prod_list ds]) = map ((#) i) (all_ix ds)" for i
    by (simp add: all_ix_def)
  then show ?thesis
    by (subst all_ix_def) (simp only: prod_list.Cons upt_mult_concat map_concat map_map comp_def)
qed (simp add: all_ix_def)

text \<open>A box inside a shape, in row-major order, is what is left of the shape's indices.\<close>

lemma filter_upt_interval: "b + n \<le> d \<Longrightarrow> filter (\<lambda>i. b \<le> i \<and> i < b + n) [0..<d] = map (\<lambda>i. b + i) [0..<n]"
proof -
  assume "b + n \<le> d"
  then obtain r where d: "d = b + (n + r)" by (metis add.assoc le_Suc_ex)
  have "[0..<d] = [0..<b] @ map (\<lambda>i. b + i) [0..<n] @ map (\<lambda>i. b + n + i) [0..<r]"
    by (rule nth_equalityI) (auto simp: d nth_append)
  then show ?thesis by simp
qed

lemma concat_map_if: "concat (map (\<lambda>i. if P i then f i else []) xs) = concat (map f (filter P xs))"
  by (induction xs) auto

lemma filter_all_ix_box:
  assumes "length bs = length ds" "length ns = length ds" "\<forall>k<length ds. bs ! k + ns ! k \<le> ds ! k"
  shows "filter (\<lambda>is. list_all2 (\<le>) bs is \<and> valid_ix ns (map2 (-) is bs)) (all_ix ds) = map (\<lambda>is. map2 (+) bs is) (all_ix ns)"
  using assms
proof (induction ds arbitrary: bs ns)
  case (Cons d ds)
  obtain b bs' n ns' where c: "bs = b # bs'" "ns = n # ns'" using Cons.prems by (cases bs; cases ns) auto
  have le: "b + n \<le> d" "\<forall>k<length ds. bs' ! k + ns' ! k \<le> ds ! k"
    using Cons.prems(3) c by (simp_all add: All_less_Suc2)
  let ?P = "\<lambda>is. list_all2 (\<le>) bs' is \<and> valid_ix ns' (map2 (-) is bs')"
  have ih: "filter ?P (all_ix ds) = map (\<lambda>is. map2 (+) bs' is) (all_ix ns')"
    using Cons.prems c le by (intro Cons.IH) auto
  have "filter (\<lambda>is. list_all2 (\<le>) bs is \<and> valid_ix ns (map2 (-) is bs)) (map ((#) i) (all_ix ds)) =
      (if b \<le> i \<and> i < b + n then map (\<lambda>is. i # map2 (+) bs' is) (all_ix ns') else [])" for i
  proof -
    have "filter (\<lambda>is. list_all2 (\<le>) bs is \<and> valid_ix ns (map2 (-) is bs)) (map ((#) i) (all_ix ds)) =
        map ((#) i) (filter (\<lambda>is. (b \<le> i \<and> i < b + n) \<and> ?P is) (all_ix ds))"
      unfolding filter_map by (intro arg_cong [where f = "map ((#) i)"] filter_cong) (auto simp: c)
    then show ?thesis using ih by auto
  qed
  then have "filter (\<lambda>is. list_all2 (\<le>) bs is \<and> valid_ix ns (map2 (-) is bs)) (all_ix (d # ds)) =
      concat (map (\<lambda>i. if b \<le> i \<and> i < b + n then map (\<lambda>is. i # map2 (+) bs' is) (all_ix ns') else []) [0..<d])"
    by (simp only: all_ix_Cons filter_concat map_map comp_def)
  also have "\<dots> = concat (map (\<lambda>i. map (\<lambda>is. i # map2 (+) bs' is) (all_ix ns')) (filter (\<lambda>i. b \<le> i \<and> i < b + n) [0..<d]))"
    by (rule concat_map_if)
  finally show ?case using le by (simp add: filter_upt_interval all_ix_Cons map_concat comp_def c)
qed simp

section \<open>Windows\<close>

text \<open>
  The window of an output position: one entry per kernel position in row-major order, \<open>None\<close> where
  it lies outside the input. \<open>os\<close> are the spatial coordinates of the output.
\<close>

definition window_position :: "nat list \<Rightarrow> nat list \<Rightarrow> nat list \<Rightarrow> nat list \<Rightarrow> int list" where
  "window_position strides pads os ks =
     map2 (\<lambda>(s, p) (i, k). int (i * s + k) - int p) (zip strides pads) (zip os ks)"

definition position_ok :: "nat list \<Rightarrow> int list \<Rightarrow> bool" where
  "position_ok ds ps \<longleftrightarrow> list_all2 (\<lambda>p d. 0 \<le> p \<and> p < int d) ps ds"

definition window :: "nat list \<Rightarrow> nat list \<Rightarrow> nat list \<Rightarrow> nat list \<Rightarrow> (nat list \<Rightarrow> 'a) \<Rightarrow> nat list \<Rightarrow> 'a option list" where
  "window ksize strides pads ds elem os =
     map (\<lambda>ks. let ps = window_position strides pads os ks in if position_ok ds ps then Some (elem (map nat ps)) else None)
       (all_ix ksize)"

definition somes :: "'a option list \<Rightarrow> 'a list" where
  "somes xs = map the (filter (\<lambda>x. x \<noteq> None) xs)"

text \<open>Pooling of ONNX: batch and channel first. Pooling of TensorFlow Lite: two spatial axes, channel last.\<close>

definition tpool :: "('a option list \<Rightarrow> 'b) \<Rightarrow> nat list \<Rightarrow> nat list \<Rightarrow> nat list \<Rightarrow> nat list \<Rightarrow> 'a tensor \<Rightarrow> 'b tensor" where
  "tpool g ksize strides pads outs t =
     tgen (take 2 (tshape t) @ outs)
       (\<lambda>is. g (window ksize strides pads (drop 2 (tshape t)) (\<lambda>ps. tnth t (take 2 is @ ps)) (drop 2 is)))"

definition nhwc_pool :: "('a option list \<Rightarrow> 'b) \<Rightarrow> nat list \<Rightarrow> nat list \<Rightarrow> nat list \<Rightarrow> nat list \<Rightarrow> 'a tensor \<Rightarrow> 'b tensor" where
  "nhwc_pool g ksize strides pads outs t =
     tgen [tshape t ! 0, outs ! 0, outs ! 1, tshape t ! 3]
       (\<lambda>is. g (window ksize strides pads [tshape t ! 1, tshape t ! 2]
               (\<lambda>ps. tnth t [is ! 0, ps ! 0, ps ! 1, is ! 3]) [is ! 1, is ! 2]))"

lemma tshape_tpool [simp]: "tshape (tpool g ksize strides pads outs t) = take 2 (tshape t) @ outs"
  and wf_tpool [simp]: "wf_tensor (tpool g ksize strides pads outs t)"
  by (simp_all add: tpool_def)

lemma tshape_nhwc_pool [simp]: "tshape (nhwc_pool g ksize strides pads outs t) = [tshape t ! 0, outs ! 0, outs ! 1, tshape t ! 3]"
  and wf_nhwc_pool [simp]: "wf_tensor (nhwc_pool g ksize strides pads outs t)"
  by (simp_all add: nhwc_pool_def)

lemma window_cong:
  assumes "\<And>ps. position_ok ds (map int ps) \<Longrightarrow> elem ps = elem' ps"
  shows "window ksize strides pads ds elem os = window ksize strides pads ds elem' os"
proof -
  have "map int (map nat ps) = ps" if "position_ok ds ps" for ps
    using that by (auto simp: position_ok_def list_all2_conv_all_nth intro!: nth_equalityI)
  then show ?thesis unfolding window_def by (auto simp: Let_def intro!: assms)
qed

text \<open>The extent that the padding \<^verbatim>\<open>SAME\<close> gives a spatial axis, and the padding before it.\<close>

definition same_out :: "nat \<Rightarrow> nat \<Rightarrow> nat" where
  "same_out d s = (d + s - 1) div s"

definition same_pad :: "nat \<Rightarrow> nat \<Rightarrow> nat \<Rightarrow> nat" where
  "same_pad d k s = ((same_out d s - 1) * s + k - d) div 2"

definition valid_out :: "nat \<Rightarrow> nat \<Rightarrow> nat \<Rightarrow> nat" where
  "valid_out d k s = (d - k) div s + 1"

end
