(* ===== verification/TFL_Compute.thy ===== *)
theory TFL_Compute
  imports TFL_Runtime Tensor_Index
begin

text \<open>
  The interfaces of the TFL operations that compute on elements. The function a kernel applies to
  scalars or to a row of scalars is a parameter of the locale, so the theorems that use an
  interface hold for whatever arithmetic the runtime has; what the interface fixes is how the
  operation indexes its operands. \<open>maxrank\<close> is the largest rank for which the kernel broadcasts.
\<close>

definition is_true :: "'f scalar \<Rightarrow> bool" where
  "is_true s \<longleftrightarrow> (case s of BV b \<Rightarrow> b | _ \<Rightarrow> False)"

definition axis_mask :: "nat \<Rightarrow> nat list \<Rightarrow> bool list" where
  "axis_mask n axes = map (\<lambda>k. k \<in> set axes) [0..<n]"

lemma length_axis_mask [simp]: "length (axis_mask n axes) = n"
  by (simp add: axis_mask_def)

section \<open>Interfaces\<close>

locale tfl_broadcast = tfl_layout sem for sem :: "'f sem" +
  assumes broadcast_to:
    "wf_tensor x \<Longrightarrow> bcast_ok (tshape x) ds \<Longrightarrow> length ds \<le> 8 \<Longrightarrow> declares tys [tbroadcast ds x] \<Longrightarrow>
     sem ''tfl.broadcast_to'' [] tys [x, i32_vec (map int ds)] = [tbroadcast ds x]"

locale tfl_unary = tfl_layout sem for sem :: "'f sem" +
  fixes nm :: string and attrs :: "(string \<times> 'f attr) list" and f :: "'f scalar \<Rightarrow> 'f scalar"
  assumes unary: "wf_tensor x \<Longrightarrow> declares tys [tmap f x] \<Longrightarrow> sem nm attrs tys [x] = [tmap f x]"

locale tfl_binary = tfl_layout sem for sem :: "'f sem" +
  fixes nm :: string and attrs :: "(string \<times> 'f attr) list"
    and f :: "'f scalar \<Rightarrow> 'f scalar \<Rightarrow> 'f scalar" and maxrank :: nat
  assumes binary:
    "wf_tensor x \<Longrightarrow> wf_tensor y \<Longrightarrow> bcast_compat (tshape x) (tshape y) \<Longrightarrow>
     max (trank x) (trank y) \<le> maxrank \<Longrightarrow> declares tys [tmap2 f x y] \<Longrightarrow>
     sem nm attrs tys [x, y] = [tmap2 f x y]"

text \<open>The float arithmetic that several decompositions use together.\<close>

locale tfl_arith =
  add: tfl_binary sem "''tfl.add''" "[getFusedActivationNone]" addf 5 +
  sub: tfl_binary sem "''tfl.sub''" "[getFusedActivationNone]" subf 5 +
  mul: tfl_binary sem "''tfl.mul''" "[getFusedActivationNone]" mulf 5 +
  divi: tfl_binary sem "''tfl.div''" "[getFusedActivationNone]" divf 5 +
  maxi: tfl_binary sem "''tfl.maximum''" "[]" maxf 5 +
  mini: tfl_binary sem "''tfl.minimum''" "[]" minf 5
  for sem :: "'f sem" and addf subf mulf divf maxf minf

locale tfl_select = tfl_layout sem for sem :: "'f sem" +
  assumes select_v2:
    "wf_tensor c \<Longrightarrow> wf_tensor x \<Longrightarrow> wf_tensor y \<Longrightarrow> bcast_compat (tshape x) (tshape y) \<Longrightarrow>
     bcast_compat (tshape c) (bcast_shape (tshape x) (tshape y)) \<Longrightarrow>
     max (trank c) (max (trank x) (trank y)) \<le> 5 \<Longrightarrow> declares tys [tselect is_true c x y] \<Longrightarrow>
     sem ''tfl.select_v2'' [] tys [c, x, y] = [tselect is_true c x y]"

text \<open>The operations of the signed remainder.\<close>

locale tfl_mod =
  fm: tfl_binary sem "''tfl.floor_mod''" "[]" fmf 4 +
  ne: tfl_binary sem "''tfl.not_equal''" "[]" nef 4 +
  lt: tfl_binary sem "''tfl.less''" "[]" ltf 4 +
  sub: tfl_binary sem "''tfl.sub''" "[getFusedActivationNone]" subf 5 +
  sel: tfl_select sem +
  bc: tfl_broadcast sem
  for sem :: "'f sem" and fmf nef ltf subf

locale tfl_cast = tfl_layout sem for sem :: "'f sem" +
  fixes conv :: "elt \<Rightarrow> 'f scalar \<Rightarrow> 'f scalar"
  assumes cast:
    "wf_tensor x \<Longrightarrow> conforms (RankedTensor sh e) (tmap (conv e) x) \<Longrightarrow>
     sem ''tfl.cast'' [] [RankedTensor sh e] [x] = [tmap (conv e) x]"

locale tfl_reduce = tfl_layout sem for sem :: "'f sem" +
  fixes nm :: string and red :: "'f scalar list \<Rightarrow> 'f scalar"
  assumes reduce:
    "wf_tensor x \<Longrightarrow> distinct axes \<Longrightarrow> set axes \<subseteq> {..<trank x} \<Longrightarrow>
     declares tys [treduce red (axis_mask (trank x) axes) keep x] \<Longrightarrow>
     sem nm [(''keep_dims'', BoolAttr keep)] tys [x, i32_vec (map int axes)] =
       [treduce red (axis_mask (trank x) axes) keep x]"

locale tfl_softmax = tfl_layout sem for sem :: "'f sem" +
  fixes one :: 'f and f :: "'f scalar list \<Rightarrow> 'f scalar list"
  assumes softmax:
    "wf_tensor x \<Longrightarrow> 0 < trank x \<Longrightarrow> declares tys [talong (trank x - 1) f x] \<Longrightarrow>
     sem ''tfl.softmax'' [(''beta'', FloatAttr one)] tys [x] = [talong (trank x - 1) f x]"

text \<open>
  The extremal position: the first of the elements that no element beats. That such an element
  exists in a non-empty row is a property of the order the kernel uses.
\<close>

locale tfl_arg = tfl_layout sem for sem :: "'f sem" +
  fixes nm :: string and better :: "'f scalar \<Rightarrow> 'f scalar \<Rightarrow> bool"
  assumes arg:
    "wf_tensor x \<Longrightarrow> a < trank x \<Longrightarrow> 0 < tshape x ! a \<Longrightarrow>
     declares tys [trows a (\<lambda>xs. IV (int (arg_first better xs)) :: 'f scalar) x] \<Longrightarrow>
     sem nm [] tys [x, i32_scalar (int a)] = [trows a (\<lambda>xs. IV (int (arg_first better xs))) x]"
    and best_exists: "xs \<noteq> [] \<Longrightarrow> best better xs \<noteq> []"

definition tone_hot :: "nat \<Rightarrow> nat \<Rightarrow> 'f scalar \<Rightarrow> 'f scalar \<Rightarrow> 'f scalar tensor \<Rightarrow> 'f scalar tensor" where
  "tone_hot a depth on off x =
     tgen (insert_ix a depth (tshape x))
       (\<lambda>is. if tnth x (remove_ix a is) = IV (int (is ! a)) then on else off)"

locale tfl_one_hot = tfl_layout sem for sem :: "'f sem" +
  assumes one_hot:
    "wf_tensor x \<Longrightarrow> a \<le> trank x \<Longrightarrow> declares tys [tone_hot a depth on off x] \<Longrightarrow>
     sem ''tfl.one_hot'' [(''axis'', IntAttr (int a))] tys
       [x, i32_scalar (int depth), Tensor [] [on], Tensor [] [off]] = [tone_hot a depth on off x]"

locale tfl_matmul = tfl_layout sem for sem :: "'f sem" +
  fixes dot :: "'f scalar list \<Rightarrow> 'f scalar list \<Rightarrow> 'f scalar"
  assumes batch_matmul:
    "wf_tensor x \<Longrightarrow> wf_tensor y \<Longrightarrow> 2 \<le> trank x \<Longrightarrow> 2 \<le> trank y \<Longrightarrow> trank x \<le> 5 \<Longrightarrow> trank y \<le> 5 \<Longrightarrow>
     matmul_ok adjX adjY (tshape x) (tshape y) \<Longrightarrow> declares tys [tmatmul dot adjX adjY x y] \<Longrightarrow>
     sem ''tfl.batch_matmul''
       [(''adj_x'', BoolAttr adjX), (''adj_y'', BoolAttr adjY)] tys [x, y] = [tmatmul dot adjX adjY x y]"

locale tfl_space = tfl_layout sem for sem :: "'f sem" +
  assumes depth_to_space:
    "wf_tensor x \<Longrightarrow> trank x = 4 \<Longrightarrow> 0 < r \<Longrightarrow> r * r dvd tshape x ! 3 \<Longrightarrow> declares tys [nhwc_d2s r x] \<Longrightarrow>
     sem ''tfl.depth_to_space'' [(''block_size'', IntAttr (int r))] tys [x] = [nhwc_d2s r x]"
    and space_to_depth:
    "wf_tensor x \<Longrightarrow> trank x = 4 \<Longrightarrow> 0 < r \<Longrightarrow> r dvd tshape x ! 1 \<Longrightarrow> r dvd tshape x ! 2 \<Longrightarrow>
     declares tys [nhwc_s2d r x] \<Longrightarrow>
     sem ''tfl.space_to_depth'' [(''block_size'', IntAttr (int r))] tys [x] = [nhwc_s2d r x]"

locale tfl_gather = tfl_layout sem for sem :: "'f sem" +
  assumes gather:
    "wf_tensor x \<Longrightarrow> wf_tensor ix \<Longrightarrow> a < trank x \<Longrightarrow> (\<forall>i\<in>set (tdata ix). i < tshape x ! a) \<Longrightarrow>
     declares tys [tgather a x ix] \<Longrightarrow>
     sem ''tfl.gather'' [(''axis'', IntAttr (int a)), (''batch_dims'', IntAttr 0)] tys [x, tmap (\<lambda>i. IV (int i)) ix] =
       [tgather a x ix]"

text \<open>
  The kernel of TopK works on the last axis; \<open>order\<close> lists the positions of a row from the best
  element to the worst one, with the kernel's treatment of equal elements.
\<close>

definition ttopk :: "nat \<Rightarrow> nat \<Rightarrow> ('a list \<Rightarrow> nat list) \<Rightarrow> ('a list \<Rightarrow> nat \<Rightarrow> 'b) \<Rightarrow> 'a tensor \<Rightarrow> 'b tensor" where
  "ttopk a k order f t = tgen ((tshape t)[a := k]) (\<lambda>is. f (trow a t is) (order (trow a t is) ! (is ! a)))"

locale tfl_topk = tfl_layout sem for sem :: "'f sem" +
  fixes order :: "'f scalar list \<Rightarrow> nat list"
  assumes topk_v2:
    "wf_tensor x \<Longrightarrow> 0 < trank x \<Longrightarrow> 0 < k \<Longrightarrow> k \<le> tshape x ! (trank x - 1) \<Longrightarrow>
     declares tys [ttopk (trank x - 1) k order (\<lambda>xs i. xs ! i) x, ttopk (trank x - 1) k order (\<lambda>xs i. IV (int i) :: 'f scalar) x] \<Longrightarrow>
     sem ''tfl.topk_v2'' [] tys [x, i32_scalar (int k)] =
       [ttopk (trank x - 1) k order (\<lambda>xs i. xs ! i) x, ttopk (trank x - 1) k order (\<lambda>xs i. IV (int i)) x]"
    and order: "distinct (order xs)" "set (order xs) = {..<length xs}"

text \<open>One complete coordinate per slice; the scatter adds the updates of equal coordinates to a zero.\<close>

locale tfl_gather_nd = tfl_layout sem for sem :: "'f sem" +
  assumes gather_nd:
    "wf_tensor x \<Longrightarrow> coordinates_ok (tshape x) ix \<Longrightarrow> declares tys [tgather_nd x ix] \<Longrightarrow>
     sem ''tfl.gather_nd'' [] tys [x, tmap (\<lambda>i. IV (int i)) ix] = [tgather_nd x ix]"

definition tconst :: "nat list \<Rightarrow> 'a \<Rightarrow> 'a tensor" where
  "tconst ds v = tgen ds (\<lambda>_. v)"

lemma tshape_tconst [simp]: "tshape (tconst ds v) = ds" and wf_tconst [simp]: "wf_tensor (tconst ds v)"
  by (simp_all add: tconst_def)

lemma tnth_tconst [simp]: "valid_ix ds is \<Longrightarrow> tnth (tconst ds v) is = v"
  by (simp add: tconst_def)

locale tfl_scatter_nd = tfl_layout sem for sem :: "'f sem" +
  fixes addf :: "'f scalar \<Rightarrow> 'f scalar \<Rightarrow> 'f scalar" and zero :: "'f scalar"
  assumes scatter_nd:
    "wf_tensor u \<Longrightarrow> coordinates_ok ds ix \<Longrightarrow> tshape u = butlast (tshape ix) @ drop (ixdepth ix) ds \<Longrightarrow>
     declares tys [tscatter_nd addf ix u (tconst ds zero)] \<Longrightarrow>
     sem ''tfl.scatter_nd'' [] tys [tmap (\<lambda>i. IV (int i)) ix, u, i32_vec (map int ds)] =
       [tscatter_nd addf ix u (tconst ds zero)]"

locale tfl_zero_pad = tfl_layout sem for sem :: "'f sem" +
  fixes zero :: "'f scalar"
  assumes pad:
    "wf_tensor x \<Longrightarrow> length before = trank x \<Longrightarrow> length after = trank x \<Longrightarrow>
     declares tys [tpad before after zero x] \<Longrightarrow>
     sem ''tfl.pad'' [] tys [x, pad_matrix before after] = [tpad before after zero x]"

text \<open>
  Two-dimensional pooling. \<open>red\<close> is applied to the elements of a window that lie in the input; with
  the padding \<^verbatim>\<open>VALID\<close> all of them do.
\<close>

locale tfl_pool = tfl_layout sem for sem :: "'f sem" +
  fixes nm :: string and attrs :: "string \<Rightarrow> int \<Rightarrow> int \<Rightarrow> int \<Rightarrow> int \<Rightarrow> (string \<times> 'f attr) list"
    and red :: "'f scalar list \<Rightarrow> 'f scalar"
  assumes pool_valid:
    "wf_tensor x \<Longrightarrow> tshape x = [n, h, w, c] \<Longrightarrow> 0 < kh \<Longrightarrow> kh \<le> h \<Longrightarrow> 0 < kw \<Longrightarrow> kw \<le> w \<Longrightarrow> 0 < sh \<Longrightarrow> 0 < sw \<Longrightarrow>
     r = nhwc_pool (red \<circ> somes) [kh, kw] [sh, sw] [0, 0] [valid_out h kh sh, valid_out w kw sw] x \<Longrightarrow> declares tys [r] \<Longrightarrow>
     sem nm (attrs ''VALID'' (int kh) (int kw) (int sh) (int sw)) tys [x] = [r]"
    and pool_same:
    "wf_tensor x \<Longrightarrow> tshape x = [n, h, w, c] \<Longrightarrow> 0 < kh \<Longrightarrow> 0 < kw \<Longrightarrow> 0 < sh \<Longrightarrow> 0 < sw \<Longrightarrow>
     r = nhwc_pool (red \<circ> somes) [kh, kw] [sh, sw] [same_pad h kh sh, same_pad w kw sw] [same_out h sh, same_out w sw] x \<Longrightarrow>
     declares tys [r] \<Longrightarrow>
     sem nm (attrs ''SAME'' (int kh) (int kw) (int sh) (int sw)) tys [x] = [r]"

text \<open>
  Normalisation across channels: \<open>norm bias alpha beta x xs\<close> is the kernel's function on an element
  and the elements of the channels that are at most \<open>radius\<close> away, in the order of the channels.
\<close>

definition lrn_row :: "nat \<Rightarrow> ('a \<Rightarrow> 'a list \<Rightarrow> 'a) \<Rightarrow> 'a list \<Rightarrow> 'a list" where
  "lrn_row radius f xs =
     map (\<lambda>c. f (xs ! c) (map (\<lambda>j. xs ! j) (filter (\<lambda>j. c \<le> j + radius \<and> j \<le> c + radius) [0..<length xs]))) [0..<length xs]"

locale tfl_lrn = tfl_layout sem for sem :: "'f sem" +
  fixes norm :: "'f \<Rightarrow> 'f \<Rightarrow> 'f \<Rightarrow> 'f scalar \<Rightarrow> 'f scalar list \<Rightarrow> 'f scalar"
  assumes lrn:
    "wf_tensor x \<Longrightarrow> trank x = 4 \<Longrightarrow> declares tys [talong 3 (lrn_row r (norm bias alpha beta)) x] \<Longrightarrow>
     sem ''tfl.local_response_normalization''
       [(''radius'', IntAttr (int r)), (''bias'', FloatAttr bias), (''alpha'', FloatAttr alpha), (''beta'', FloatAttr beta)] tys [x] =
       [talong 3 (lrn_row r (norm bias alpha beta)) x]"

text \<open>The constant of element types for which MLIR has no arithmetic constant.\<close>

locale tfl_pseudo_const = tfl_layout sem for sem :: "'f sem" +
  assumes pseudo_const:
    "ty = RankedTensor (map int ds) e \<Longrightarrow> length vs = prod_list ds \<Longrightarrow>
     sem ''tfl.pseudo_const'' [(''value'', ElementsAttr ty vs)] [ty] [] = [Tensor ds (map IV vs)]"

end
