(* ===== verification/Windows.thy ===== *)
theory Windows
  imports TFL_Compute
begin

text \<open>
  Windows over the spatial axes of a tensor, for both layouts at once: the tensor has \<open>np\<close> axes before the
  spatial ones (batch and channel, or the batch alone) and maybe one after them. The part of a window that
  lies in the input is a box; a window of a padded input is the window of the input with the
  pad value where it is absent; and cells computed one by one are assembled by concatenation.
\<close>

section \<open>Pooling in either layout\<close>

definition gpool :: "nat \<Rightarrow> ('a option list \<Rightarrow> 'b) \<Rightarrow> nat list \<Rightarrow> nat list \<Rightarrow> nat list \<Rightarrow> nat list \<Rightarrow> 'a tensor \<Rightarrow> 'b tensor" where
  "gpool np g ksize strides pads outs t =
     (let sr = length outs in
      tgen (take np (tshape t) @ outs @ drop (np + sr) (tshape t))
        (\<lambda>is. g (window ksize strides pads (take sr (drop np (tshape t))) (\<lambda>ps. tnth t (take np is @ ps @ drop (np + sr) is)) (take sr (drop np is)))))"

lemma tpool_gpool: "length outs = trank t - 2 \<Longrightarrow> 2 \<le> trank t \<Longrightarrow> tpool g ksize strides pads outs t = gpool 2 g ksize strides pads outs t"
  unfolding tpool_def gpool_def Let_def by (simp, intro tgen_cong) (auto dest: valid_ix_length)

lemma list3: "length xs = 3 \<Longrightarrow> xs = [xs ! 0, xs ! 1, xs ! 2]"
  by (auto simp: length_Suc_conv numeral_3_eq_3 numeral_2_eq_2)

lemma list4: "length xs = 4 \<Longrightarrow> xs = [xs ! 0, xs ! 1, xs ! 2, xs ! 3]"
  by (auto simp: length_Suc_conv numeral_nat)

lemma nhwc_pool_gpool:
  assumes "trank t = 4" and "length outs = 2"
  shows "nhwc_pool g ksize strides pads outs t = gpool 1 g ksize strides pads outs t"
proof -
  obtain a b c d where t: "tshape t = [a, b, c, d]" using list4 [OF assms(1)] by blast
  obtain e f where o: "outs = [e, f]" using assms(2) by (auto simp: length_Suc_conv numeral_2_eq_2)
  have "window ksize strides pads [b, c] (\<lambda>ps. tnth t [is ! 0, ps ! 0, ps ! 1, is ! 3]) [is ! 1, is ! 2] =
      window ksize strides pads [b, c] (\<lambda>ps. tnth t (take 1 is @ ps @ drop 3 is)) (take 2 (drop 1 is))"
    if v: "valid_ix [a, e, f, d] is" for "is"
  proof -
    have l: "length is = 4" using valid_ix_length [OF v] by simp
    then obtain i j k m where i: "is = [i, j, k, m]" using list4 by blast
    have "tnth t [is ! 0, ps ! 0, ps ! 1, is ! 3] = tnth t (take 1 is @ ps @ drop 3 is)" if "position_ok [b, c] (map int ps)" for ps
    proof -
      have "length ps = 2" using that by (auto simp: position_ok_def dest: list_all2_lengthD)
      then obtain x y where "ps = [x, y]" by (auto simp: length_Suc_conv numeral_2_eq_2)
      then show ?thesis by (simp add: i)
    qed
    from window_cong [OF this, where ds = "[b, c]"] show ?thesis by (simp add: i)
  qed
  then show ?thesis unfolding nhwc_pool_def gpool_def Let_def by (simp add: t o numeral_nat) (intro tgen_cong; simp)
qed

lemma ttranspose_gpool:
  assumes t: "trank t = 4" and o: "length outs = 2"
  shows "ttranspose to_nhwc (gpool 2 g ksize strides pads outs t) = gpool 1 g ksize strides pads outs (ttranspose to_nhwc t)"
proof (rule tensor_transpose_eqI)
  obtain a b c d where ts: "tshape t = [a, b, c, d]" using list4 [OF t] by blast
  obtain e f where os: "outs = [e, f]" using o by (auto simp: length_Suc_conv numeral_2_eq_2)
  have p: "is_perm to_nhwc (trank t)" using t by (simp add: is_perm_def to_nhwc_def)
  show "is_perm to_nhwc (trank (gpool 2 g ksize strides pads outs t))" by (simp add: gpool_def ts os is_perm_def to_nhwc_def)
  show "tshape (gpool 1 g ksize strides pads outs (ttranspose to_nhwc t)) = permute to_nhwc (tshape (gpool 2 g ksize strides pads outs t))"
    by (simp add: gpool_def ts os)
  fix "is" assume "valid_ix (tshape (gpool 2 g ksize strides pads outs t)) is"
  then have v: "valid_ix [a, b, e, f] is" by (simp add: gpool_def ts os)
  then have "length is = 4" by (simp add: valid_ix_length)
  then obtain i j k l where i: "is = [i, j, k, l]" using list4 by blast
  have "tnth (ttranspose to_nhwc t) (i # ps @ [j]) = tnth t (i # j # ps)" if ps: "position_ok [c, d] (map int ps)" for ps
  proof -
    have "length ps = 2" using ps by (auto simp: position_ok_def dest: list_all2_lengthD)
    then obtain x y where xy: "ps = [x, y]" by (auto simp: length_Suc_conv numeral_2_eq_2)
    have "valid_ix (tshape t) [i, j, x, y]" using v ps by (simp add: i xy ts valid_ix_def position_ok_def)
    from tnth_ttranspose_permute [OF p this] show ?thesis by (simp add: xy)
  qed
  from window_cong [OF this, where ds = "[c, d]"] v show "tnth (gpool 1 g ksize strides pads outs (ttranspose to_nhwc t)) (permute to_nhwc is) = tnth (gpool 2 g ksize strides pads outs t) is"
    by (simp add: gpool_def ts os i valid_ix_def)
qed (simp add: gpool_def Let_def)

section \<open>The part of a window inside the input\<close>

definition box_start :: "nat \<Rightarrow> nat \<Rightarrow> nat \<Rightarrow> nat \<Rightarrow> nat" where
  "box_start d s p i = nat (min (max (int (i * s) - int p) 0) (int d))"

definition box_size :: "nat \<Rightarrow> nat \<Rightarrow> nat \<Rightarrow> nat \<Rightarrow> nat \<Rightarrow> nat" where
  "box_size d k s p i = nat (min (max (int (i * s + k) - int p) 0) (int d)) - box_start d s p i"

definition box_starts :: "nat list \<Rightarrow> nat list \<Rightarrow> nat list \<Rightarrow> nat list \<Rightarrow> nat list" where
  "box_starts ds ss ps os = map (\<lambda>j. box_start (ds ! j) (ss ! j) (ps ! j) (os ! j)) [0..<length ds]"

definition box_sizes :: "nat list \<Rightarrow> nat list \<Rightarrow> nat list \<Rightarrow> nat list \<Rightarrow> nat list \<Rightarrow> nat list" where
  "box_sizes ds ks ss ps os = map (\<lambda>j. box_size (ds ! j) (ks ! j) (ss ! j) (ps ! j) (os ! j)) [0..<length ds]"

lemma box_lengths [simp]: "length (box_starts ds ss ps os) = length ds" "length (box_sizes ds ks ss ps os) = length ds"
  by (simp_all add: box_starts_def box_sizes_def)

text \<open>One axis: the kernel positions that hit the input are an interval.\<close>

lemma box_axis:
  assumes k: "j < k" and pos: "0 < box_size d k s p i"
  defines "b \<equiv> nat (int (box_start d s p i) - (int (i * s) - int p))"
  shows "(0 \<le> int (i * s + j) - int p \<and> int (i * s + j) - int p < int d) \<longleftrightarrow> b \<le> j \<and> j - b < box_size d k s p i"
    and "b \<le> j \<Longrightarrow> j - b < box_size d k s p i \<Longrightarrow> int (i * s + j) - int p = int (box_start d s p i + (j - b))"
    and "b + box_size d k s p i \<le> k"
proof -
  have "box_start d s p i \<le> d" by (simp add: box_start_def)
  have bs: "int (box_start d s p i) = min (max (int (i * s) - int p) 0) (int d)" by (simp add: box_start_def)
  have sz: "int (box_size d k s p i) = min (max (int (i * s + k) - int p) 0) (int d) - min (max (int (i * s) - int p) 0) (int d)"
    unfolding box_size_def box_start_def by (simp add: of_nat_diff min_def max_def)
  have pos': "0 < int (box_size d k s p i)" using pos by simp
  then have lt: "int (i * s) - int p < int d" using bs sz by (auto simp: min_def max_def split: if_splits)
  have b: "int b = max 0 (int p - int (i * s))" unfolding b_def bs using lt by (auto simp: min_def max_def)
  show "(0 \<le> int (i * s + j) - int p \<and> int (i * s + j) - int p < int d) \<longleftrightarrow> b \<le> j \<and> j - b < box_size d k s p i"
    using b sz lt k by (auto simp: min_def max_def split: if_splits)
  show "b \<le> j \<Longrightarrow> j - b < box_size d k s p i \<Longrightarrow> int (i * s + j) - int p = int (box_start d s p i + (j - b))"
    using b bs lt by (auto simp: min_def max_def of_nat_diff split: if_splits)
  show "b + box_size d k s p i \<le> k" using b sz lt pos' by (auto simp: min_def max_def split: if_splits)
qed

lemma nth_window_position:
  assumes "length ss = n" "length ps = n" "length os = n" "length js = n"
  shows "length (window_position ss ps os js) = n"
    and "j < n \<Longrightarrow> window_position ss ps os js ! j = int (os ! j * ss ! j + js ! j) - int (ps ! j)"
  using assms by (simp_all add: window_position_def)

lemma somes_window_filter:
  "somes (window ks ss ps ds elem os) =
    map (\<lambda>js. elem (map nat (window_position ss ps os js))) (filter (\<lambda>js. position_ok ds (window_position ss ps os js)) (all_ix ks))"
proof -
  have "somes (map (\<lambda>js. if P js then Some (f js) else None) xs) = map f (filter P xs)" for P f xs and ys :: "nat list list"
    unfolding somes_def by (induction xs) auto
  then show ?thesis unfolding window_def Let_def .
qed

lemma somes_window:
  assumes l: "length ds = n" "length ks = n" "length ss = n" "length ps = n" "length os = n"
    and pos: "\<forall>j<n. 0 < box_sizes ds ks ss ps os ! j"
  shows "somes (window ks ss ps ds elem os) =
    map (\<lambda>rs. elem (map2 (+) (box_starts ds ss ps os) rs)) (all_ix (box_sizes ds ks ss ps os))"
proof -
  let ?st = "box_starts ds ss ps os" and ?sz = "box_sizes ds ks ss ps os" and ?wp = "window_position ss ps os"
  let ?b = "map (\<lambda>j. nat (int (?st ! j) - (int (os ! j * ss ! j) - int (ps ! j)))) [0..<n]"
  have sj: "?st ! j = box_start (ds ! j) (ss ! j) (ps ! j) (os ! j)" "?sz ! j = box_size (ds ! j) (ks ! j) (ss ! j) (ps ! j) (os ! j)" if "j < n" for j
    using that l by (simp_all add: box_starts_def box_sizes_def)
  have ax: "(0 \<le> ?wp js ! j \<and> ?wp js ! j < int (ds ! j)) \<longleftrightarrow> ?b ! j \<le> js ! j \<and> js ! j - ?b ! j < ?sz ! j"
    "?b ! j \<le> js ! j \<Longrightarrow> js ! j - ?b ! j < ?sz ! j \<Longrightarrow> ?wp js ! j = int (?st ! j + (js ! j - ?b ! j))"
    if "valid_ix ks js" "j < n" for js j
  proof -
    have bj: "?b ! j = nat (int (box_start (ds ! j) (ss ! j) (ps ! j) (os ! j)) - (int (os ! j * ss ! j) - int (ps ! j)))"
      using that(2) by (simp add: sj)
    have lj: "length js = n" using valid_ix_length [OF that(1)] l by simp
    have kj: "js ! j < ks ! j" using valid_ix_nth [OF that(1), of j] that(2) l by simp
    have pj: "0 < box_size (ds ! j) (ks ! j) (ss ! j) (ps ! j) (os ! j)" using pos that(2) sj(2) by metis
    note wj = nth_window_position(2) [OF l(3-5) lj that(2)]
    show "(0 \<le> ?wp js ! j \<and> ?wp js ! j < int (ds ! j)) \<longleftrightarrow> ?b ! j \<le> js ! j \<and> js ! j - ?b ! j < ?sz ! j"
      unfolding bj wj sj(2) [OF that(2)] by (rule box_axis(1) [OF kj pj])
    show "?b ! j \<le> js ! j \<Longrightarrow> js ! j - ?b ! j < ?sz ! j \<Longrightarrow> ?wp js ! j = int (?st ! j + (js ! j - ?b ! j))"
      unfolding bj wj sj [OF that(2)] by (rule box_axis(2) [OF kj pj])
  qed
  have le: "?b ! j + ?sz ! j \<le> ks ! j" if "j < n" for j
  proof -
    have pj: "0 < box_size (ds ! j) (ks ! j) (ss ! j) (ps ! j) (os ! j)" using pos that sj(2) by metis
    have kpos: "0 < ks ! j"
    proof (rule ccontr)
      assume "\<not> 0 < ks ! j"
      then have "ks ! j = 0" by simp
      with pj show False by (simp add: box_size_def box_start_def)
    qed
    show ?thesis using box_axis(3) [OF kpos, of "ds ! j" "ss ! j" "ps ! j" "os ! j", OF pj] that by (simp add: sj)
  qed
  have ok: "position_ok ds (?wp js) \<longleftrightarrow> list_all2 (\<le>) ?b js \<and> valid_ix ?sz (map2 (-) js ?b)" if v: "valid_ix ks js" for js
  proof -
    have lj: "length js = n" using valid_ix_length [OF v] l by simp
    show ?thesis using ax(1) [OF v] nth_window_position(1) [OF l(3-5) lj] l lj
      by (auto simp: position_ok_def valid_ix_def list_all2_conv_all_nth)
  qed
  have "filter (\<lambda>js. position_ok ds (?wp js)) (all_ix ks) = filter (\<lambda>js. list_all2 (\<le>) ?b js \<and> valid_ix ?sz (map2 (-) js ?b)) (all_ix ks)"
    by (intro filter_cong refl) (simp add: set_all_ix ok)
  also have "\<dots> = map (\<lambda>rs. map2 (+) ?b rs) (all_ix ?sz)" using l le by (intro filter_all_ix_box) simp_all
  finally have fl: "filter (\<lambda>js. position_ok ds (?wp js)) (all_ix ks) = map (\<lambda>rs. map2 (+) ?b rs) (all_ix ?sz)" .
  have "map nat (?wp (map2 (+) ?b rs)) = map2 (+) ?st rs" if r: "valid_ix ?sz rs" for rs
  proof (rule nth_equalityI)
    have lr: "length rs = n" using valid_ix_length [OF r] l by simp
    have lb: "length (map2 (+) ?b rs) = n" using lr by simp
    show "length (map nat (?wp (map2 (+) ?b rs))) = length (map2 (+) ?st rs)" using nth_window_position(1) [OF l(3-5) lb] lr l by simp
    fix j assume "j < length (map nat (?wp (map2 (+) ?b rs)))"
    then have j: "j < n" using nth_window_position(1) [OF l(3-5) lb] by simp
    have rj: "rs ! j < ?sz ! j" using valid_ix_nth [OF r, of j] j l by simp
    have "valid_ix ks (map2 (+) ?b rs)"
    proof (rule valid_ixI)
      fix i assume "i < length ks"
      then have "i < n" "rs ! i < ?sz ! i" using valid_ix_nth [OF r, of i] l by simp_all
      then show "map2 (+) ?b rs ! i < ks ! i" using le [of i] lr by simp
    qed (use lb l in simp)
    from ax(2) [OF this j] show "map nat (?wp (map2 (+) ?b rs)) ! j = map2 (+) ?st rs ! j"
      using j rj lr l nth_window_position(1) [OF l(3-5) lb] by simp
  qed
  then have "map (\<lambda>js. elem (map nat (?wp js))) (map (\<lambda>rs. map2 (+) ?b rs) (all_ix ?sz)) = map (\<lambda>rs. elem (map2 (+) ?st rs)) (all_ix ?sz)"
    by (simp add: set_all_ix)
  then show ?thesis unfolding somes_window_filter fl .
qed

text \<open>A padded input: every position is present, and the pad value stands where the input has none.\<close>

lemma window_padded:
  assumes l: "length ds = n" "length ks = n" "length ss = n" "length ps = n" "length os = n" "length ds' = n"
    and inside: "\<forall>j<n. \<forall>k<ks ! j. os ! j * ss ! j + k < ds' ! j"
    and elem': "\<And>qs. length qs = n \<Longrightarrow> elem' qs = (if list_all2 (\<le>) ps qs \<and> valid_ix ds (map2 (-) qs ps) then elem (map2 (-) qs ps) else v)"
  shows "window ks ss (replicate n 0) ds' elem' os = map (\<lambda>e. Some (case_option v id e)) (window ks ss ps ds elem os)"
  unfolding window_def map_map comp_def
proof (rule map_cong [OF refl])
  fix js assume "js \<in> set (all_ix ks)"
  then have vj: "valid_ix ks js" by (simp add: set_all_ix)
  then have lj: "length js = n" using valid_ix_length l by fastforce
  let ?z = "window_position ss (replicate n 0) os js" and ?w = "window_position ss ps os js" and ?q = "map2 (+) (map2 (*) os ss) js"
  have lr: "length (replicate n (0::nat)) = n" by simp
  have w: "length ?w = n" "\<And>j. j < n \<Longrightarrow> ?w ! j = int (os ! j * ss ! j + js ! j) - int (ps ! j)"
    using nth_window_position [OF l(3-5) lj] by simp_all
  have z: "?z = map int ?q"
    using nth_window_position [OF l(3) lr l(5) lj] l lj by (intro nth_equalityI) simp_all
  have "\<forall>j<n. js ! j < ks ! j" using vj l by (auto intro: valid_ix_nth)
  then have in': "\<forall>j<n. ?q ! j < ds' ! j" using l lj inside by simp
  have lq: "length ?q = n" using l lj by simp
  have ok: "position_ok ds' ?z"
    unfolding z position_ok_def list_all2_conv_all_nth
  proof (intro conjI allI impI)
    fix j assume "j < length (map int ?q)"
    then have j: "j < n" using lq length_map [of int ?q] by metis
    have e: "map int ?q ! j = int (?q ! j)" using j lq by (simp only: nth_map)
    show "0 \<le> map int ?q ! j" unfolding e by (rule of_nat_0_le_iff)
    show "map int ?q ! j < int (ds' ! j)" unfolding e using in' j by (simp only: of_nat_less_iff)
  qed (use lq l in simp)
  have q: "map nat ?z = ?q" unfolding z by (simp add: comp_def)
  have okw: "position_ok ds ?w \<longleftrightarrow> list_all2 (\<le>) ps ?q \<and> valid_ix ds (map2 (-) ?q ps)"
  proof -
    have "(0 \<le> ?w ! j \<and> ?w ! j < int (ds ! j)) \<longleftrightarrow> ps ! j \<le> ?q ! j \<and> ?q ! j - ps ! j < ds ! j" if "j < n" for j
    proof -
      have g: "(0 \<le> int a - int p \<and> int a - int p < int d) \<longleftrightarrow> p \<le> a \<and> a - p < d" for a p d :: nat by linarith
      have "?q ! j = os ! j * ss ! j + js ! j" using that l lj by simp
      then show ?thesis unfolding w(2) [OF that] by (simp only: g)
    qed
    then show ?thesis using w(1) l lj by (auto simp: position_ok_def valid_ix_def list_all2_conv_all_nth)
  qed
  have "map nat ?w = map2 (-) ?q ps" if "list_all2 (\<le>) ps ?q"
  proof (rule nth_equalityI)
    fix j assume "j < length (map nat ?w)"
    then have j: "j < n" using w(1) by simp
    have "?q ! j = os ! j * ss ! j + js ! j" using j l lj by simp
    moreover have "ps ! j \<le> ?q ! j" using that j l(4) list_all2_nthD [of "(\<le>)" ps ?q j] by metis
    ultimately have "?w ! j = int (?q ! j - ps ! j)" using w(2) [OF j] by (simp only: of_nat_diff)
    then show "map nat ?w ! j = map2 (-) ?q ps ! j" using j w(1) l lj by simp
  qed (use w l lj in simp)
  then show "(let ps = ?z in if position_ok ds' ps then Some (elem' (map nat ps)) else None) =
      Some (case_option v id (let ps = ?w in if position_ok ds ps then Some (elem (map nat ps)) else None))"
    unfolding Let_def q using ok okw elem' [OF lq] by simp
qed

lemma somes_map_Some [simp]: "somes (map (\<lambda>e. Some (f e)) xs) = map f xs"
  by (simp add: somes_def comp_def)

text \<open>A window that starts in the padded input meets the input when the pads are smaller than the kernel.\<close>

lemma window_meets_input:
  assumes l: "length ds = n" "length ks = n" "length ss = n" "length ps = n" "length os = n" "length qs = n"
    and d: "\<forall>j<n. 0 < ds ! j \<and> ps ! j < ks ! j \<and> qs ! j < ks ! j \<and> os ! j * ss ! j + ks ! j \<le> ds ! j + ps ! j + qs ! j"
  shows "somes (window ks ss ps ds elem os) \<noteq> []"
proof -
  let ?js = "map (\<lambda>j. ps ! j - os ! j * ss ! j) [0..<n]"
  have v: "valid_ix ks ?js"
  proof (rule valid_ixI)
    fix j assume "j < length ks"
    then have "j < n" "ps ! j < ks ! j" using l d by simp_all
    then show "?js ! j < ks ! j" by simp
  qed (use l in simp)
  have "position_ok ds (window_position ss ps os ?js)"
    unfolding position_ok_def list_all2_conv_all_nth
  proof (intro conjI allI impI)
    have lj: "length ?js = n" by simp
    note w = nth_window_position [OF l(3-5) lj]
    show "length (window_position ss ps os ?js) = length ds" using w(1) l by simp
    fix j assume "j < length (window_position ss ps os ?js)"
    then have j: "j < n" using w(1) by simp
    have dj: "0 < ds ! j" "qs ! j < ks ! j" "os ! j * ss ! j + ks ! j \<le> ds ! j + ps ! j + qs ! j" using d j by auto
    have wj: "window_position ss ps os ?js ! j = int (os ! j * ss ! j + (ps ! j - os ! j * ss ! j)) - int (ps ! j)" using j by (simp only: w(2) nth_map length_upt nth_upt add_0 minus_nat.diff_0)
    show "0 \<le> window_position ss ps os ?js ! j" unfolding wj by linarith
    show "window_position ss ps os ?js ! j < int (ds ! j)" unfolding wj using dj by linarith
  qed
  then have "?js \<in> set (filter (\<lambda>js. position_ok ds (window_position ss ps os js)) (all_ix ks))" using v by (simp add: set_all_ix)
  then show ?thesis unfolding somes_window_filter by (metis empty_iff list.set(1) map_is_Nil_conv)
qed

section \<open>Pooling a padded NHWC tensor\<close>

lemma valid_out_fits:
  assumes "i < valid_out d k s" and "k \<le> d" "0 < s" shows "i * s + k \<le> d"
proof -
  have "i \<le> (d - k) div s" using assms(1) by (simp add: valid_out_def)
  then have "i * s \<le> (d - k) div s * s" by (rule mult_le_mono1)
  also have "\<dots> \<le> d - k" by simp
  finally show ?thesis using assms(2) by simp
qed

lemma tpad_none:
  assumes "wf_tensor x" shows "tpad (replicate (trank x) 0) (replicate (trank x) 0) z x = x"
proof (rule tensor_eqI)
  have m: "map2 (+) (tshape x) (map2 (+) (replicate (trank x) 0) (replicate (trank x) 0)) = tshape x"
    by (rule nth_equalityI) simp_all
  then show "tshape (tpad (replicate (trank x) 0) (replicate (trank x) 0) z x) = tshape x" by (simp add: tpad_def)
  fix "is" assume v: "valid_ix (tshape x) is"
  have "map2 (-) is (replicate (trank x) 0) = is" "list_all2 (\<le>) (replicate (trank x) 0) is"
    using valid_ix_length [OF v] by (auto intro: nth_equalityI simp: list_all2_conv_all_nth)
  then show "tnth (tpad (replicate (trank x) 0) (replicate (trank x) 0) z x) is = tnth x is" using v unfolding tpad_def m by simp
qed (use assms in \<open>simp_all add: tpad_def\<close>)
lemma gpool_tpad:
  assumes x: "tshape x = [n, h, w, c]" and o: "outs = [oh, ow]"
    and fit: "\<forall>i<oh. i * sh + kh \<le> h + pt + pb" "\<forall>i<ow. i * sw + kw \<le> w + pl + pr"
  shows "gpool 1 (red \<circ> somes) [kh, kw] [sh, sw] [0, 0] outs (tpad [0, pt, pl, 0] [0, pb, pr, 0] v x) =
    gpool 1 (red \<circ> map (case_option v id)) [kh, kw] [sh, sw] [pt, pl] outs x"
proof -
  let ?y = "tpad [0, pt, pl, 0] [0, pb, pr, 0] v x"
  have sy: "tshape ?y = [n, h + (pt + pb), w + (pl + pr), c]" by (simp add: tpad_def x)
  have win: "window [kh, kw] [sh, sw] [0, 0] [h + (pt + pb), w + (pl + pr)] (\<lambda>qs. tnth ?y (a # qs @ [b])) [i, j] =
      map (\<lambda>e. Some (case_option v id e)) (window [kh, kw] [sh, sw] [pt, pl] [h, w] (\<lambda>qs. tnth x (a # qs @ [b])) [i, j])"
    if v: "a < n" "i < oh" "j < ow" "b < c" for a i j b
  proof -
    let ?e = "\<lambda>qs. if list_all2 (\<le>) [pt, pl] qs \<and> valid_ix [h, w] (map2 (-) qs [pt, pl]) then tnth x (a # map2 (-) qs [pt, pl] @ [b]) else v"
    have "window [kh, kw] [sh, sw] [0, 0] [h + (pt + pb), w + (pl + pr)] (\<lambda>qs. tnth ?y (a # qs @ [b])) [i, j] =
        window [kh, kw] [sh, sw] [0, 0] [h + (pt + pb), w + (pl + pr)] ?e [i, j]"
    proof (rule window_cong)
      fix qs assume q: "position_ok [h + (pt + pb), w + (pl + pr)] (map int qs)"
      then have "length qs = 2" by (auto simp: position_ok_def dest: list_all2_lengthD)
      then obtain y z where "qs = [y, z]" by (auto simp: length_Suc_conv numeral_2_eq_2)
      with q v show "tnth ?y (a # qs @ [b]) = ?e qs"
        by (simp add: tpad_def x valid_ix_def position_ok_def)
    qed
    also have "\<dots> = map (\<lambda>e. Some (case_option v id e)) (window [kh, kw] [sh, sw] [pt, pl] [h, w] (\<lambda>qs. tnth x (a # qs @ [b])) [i, j])"
    proof -
      have "i * sh + k < h + (pt + pb)" if "k < kh" for k using fit(1) v(2) that by fastforce
      moreover have "j * sw + k < w + (pl + pr)" if "k < kw" for k using fit(2) v(3) that by fastforce
      ultimately have "\<forall>m<2. \<forall>k<[kh, kw] ! m. [i, j] ! m * [sh, sw] ! m + k < [h + (pt + pb), w + (pl + pr)] ! m"
        by (simp add: numeral_2_eq_2 All_less_Suc)
      from window_padded [of "[h, w]" 2 "[kh, kw]" "[sh, sw]" "[pt, pl]" "[i, j]", OF _ _ _ _ _ _ this, of ?e] show ?thesis
        by (simp add: numeral_2_eq_2)
    qed
    finally show ?thesis .
  qed
  have "take 1 is @ ps @ drop 3 is = is ! 0 # ps @ [is ! 3] \<and> take 2 (drop 1 is) = [is ! 1, is ! 2] \<and> is ! 0 < n \<and> is ! 1 < oh \<and> is ! 2 < ow \<and> is ! 3 < c"
    if v: "valid_ix [n, oh, ow, c] is" for "is" ps
    using v valid_ix_length [OF v] list4 [of "is"] by (auto simp: valid_ix_def list_all2_Cons2 numeral_nat)
  note ix = this
  show ?thesis
    unfolding gpool_def Let_def sy x o
    by (simp add: numeral_nat, intro tgen_cong) (use ix win in \<open>simp_all add: numeral_nat comp_def\<close>)
qed

text \<open>The elements of a window are elements of the tensor.\<close>

lemma somes_window_elements:
  assumes "x \<in> set (somes (window ks ss ps ds elem os))"
  obtains qs where "valid_ix ds qs" "x = elem qs"
proof -
  obtain js where ok: "position_ok ds (window_position ss ps os js)" and x: "x = elem (map nat (window_position ss ps os js))"
    using assms unfolding somes_window_filter by auto
  have "valid_ix ds (map nat (window_position ss ps os js))" using ok by (auto simp: position_ok_def valid_ix_def list_all2_conv_all_nth)
  then show thesis using x by (rule that)
qed

lemma gpool_nhwc_cong:
  assumes x: "wf_tensor x" "tshape x = [n, h, w, c]" "\<forall>e\<in>set (tdata x). num e" and o: "outs = [oh, ow]"
    and eq: "\<And>i j win. i < oh \<Longrightarrow> j < ow \<Longrightarrow> \<forall>e\<in>set (somes win). num e \<Longrightarrow>
      (\<exists>elem :: nat list \<Rightarrow> 'a. win = window ks ss ps [h, w] elem [i, j]) \<Longrightarrow> f win = g win"
  shows "gpool 1 f ks ss ps outs x = gpool 1 g ks ss ps outs x"
  unfolding gpool_def Let_def o x(2)
proof (rule tgen_cong)
  fix "is" assume "valid_ix (take 1 [n, h, w, c] @ [oh, ow] @ drop (1 + length [oh, ow]) [n, h, w, c]) is"
  then have v: "valid_ix [n, oh, ow, c] is" by (simp add: numeral_nat)
  then have "length is = 4" by (simp add: valid_ix_length)
  then obtain a i j b where i: "is = [a, i, j, b]" using list4 by blast
  have av: "a < n" "i < oh" "j < ow" "b < c" using v by (simp_all add: i valid_ix_def)
  let ?win = "window ks ss ps [h, w] (\<lambda>qs. tnth x (a # qs @ [b])) [i, j]"
  have "\<forall>e\<in>set (somes ?win). num e"
  proof
    fix e assume "e \<in> set (somes ?win)"
    then obtain qs where q: "valid_ix [h, w] qs" "e = tnth x (a # qs @ [b])" by (rule somes_window_elements)
    then have "length qs = 2" by (simp add: valid_ix_length)
    then obtain y z where "qs = [y, z]" by (auto simp: length_Suc_conv numeral_2_eq_2)
    then have "valid_ix (tshape x) (a # qs @ [b])" using q(1) av by (simp add: x(2) valid_ix_def)
    then show "num e" using x(1,3) ravel_less q(2) by (fastforce simp: tnth_def wf_tensor_def)
  qed
  from eq [OF av(2,3) this] show "f (window ks ss ps (take (length [oh, ow]) (drop 1 [n, h, w, c])) (\<lambda>ps. tnth x (take 1 is @ ps @ drop (1 + length [oh, ow]) is)) (take (length [oh, ow]) (drop 1 is))) =
      g (window ks ss ps (take (length [oh, ow]) (drop 1 [n, h, w, c])) (\<lambda>ps. tnth x (take 1 is @ ps @ drop (1 + length [oh, ow]) is)) (take (length [oh, ow]) (drop 1 is)))"
    by (auto simp: i numeral_nat)
qed simp

end
