(* ===== verification/Convolution.thy ===== *)
theory Convolution
  imports Windows
begin

text \<open>
  Convolution with any number of spatial axes, in the layout of ONNX (batch, channel, spatial axes) and in the
  layout of TensorFlow Lite (batch, spatial axes, channel). A cell of the result is \<open>acc\<close> of the bias and of
  the products of the taps that lie in the input, in the order of the kernel: spatial axes first, then the
  channels of the group. Here is how the two layouts, the groups, the depthwise form, explicit padding and an
  additional axis of extent one relate.
\<close>

section \<open>Definitions\<close>

definition conv_cell ::
  "('a \<Rightarrow> ('a \<times> 'a) list \<Rightarrow> 'a) \<Rightarrow> nat list \<Rightarrow> nat list \<Rightarrow> nat list \<Rightarrow> nat list \<Rightarrow> nat list \<Rightarrow> nat \<Rightarrow>
   (nat \<Rightarrow> nat list \<Rightarrow> 'a) \<Rightarrow> (nat \<Rightarrow> nat list \<Rightarrow> 'a) \<Rightarrow> 'a \<Rightarrow> nat list \<Rightarrow> 'a" where
  "conv_cell acc ks ss dl ps ds cg xe we b os =
     acc b (concat (map (\<lambda>k. let p = window_position ss ps os (map2 (*) dl k) in
       if position_ok ds p then map (\<lambda>c. (xe c (map nat p), we c k)) [0..<cg] else []) (all_ix ks)))"

text \<open>ONNX: \<open>g\<close> groups; the filter has the shape \<open>m # cg # ks\<close>.\<close>

definition onnx_conv ::
  "('a \<Rightarrow> ('a \<times> 'a) list \<Rightarrow> 'a) \<Rightarrow> nat \<Rightarrow> nat list \<Rightarrow> nat list \<Rightarrow> nat list \<Rightarrow> nat list \<Rightarrow> 'a tensor \<Rightarrow> 'a tensor \<Rightarrow> 'a tensor \<Rightarrow> 'a tensor" where
  "onnx_conv acc g ss dl ps outs x f b =
     (let n = tshape x ! 0; m = tshape f ! 0; cg = tshape f ! 1 in
      tgen (n # m # outs) (\<lambda>is. conv_cell acc (drop 2 (tshape f)) ss dl ps (drop 2 (tshape x)) cg
        (\<lambda>c p. tnth x (is ! 0 # (is ! 1 div (m div g) * cg + c) # p)) (\<lambda>c k. tnth f (is ! 1 # c # k)) (tnth b [is ! 1]) (drop 2 is)))"

text \<open>The same with the channel last; the filter has the shape \<open>m # ks @ [cg]\<close>. The kernel computes it for one group.\<close>

definition inner :: "'a list \<Rightarrow> 'a list" where
  "inner xs = butlast (tl xs)"

definition last_conv ::
  "('a \<Rightarrow> ('a \<times> 'a) list \<Rightarrow> 'a) \<Rightarrow> nat \<Rightarrow> nat list \<Rightarrow> nat list \<Rightarrow> nat list \<Rightarrow> nat list \<Rightarrow> 'a tensor \<Rightarrow> 'a tensor \<Rightarrow> 'a tensor \<Rightarrow> 'a tensor" where
  "last_conv acc g ss dl ps outs x f b =
     (let n = hd (tshape x); m = hd (tshape f); cg = last (tshape f) in
      tgen (n # outs @ [m]) (\<lambda>is. conv_cell acc (inner (tshape f)) ss dl ps (inner (tshape x)) cg
        (\<lambda>c p. tnth x (hd is # p @ [last is div (m div g) * cg + c])) (\<lambda>c k. tnth f (last is # k @ [c])) (tnth b [last is]) (inner is)))"

text \<open>The depthwise kernel: output channel \<open>o\<close> reads input channel \<open>o div dm\<close>; the filter has the shape \<open>1 # ks @ [m]\<close>.\<close>

definition depthwise_conv ::
  "('a \<Rightarrow> ('a \<times> 'a) list \<Rightarrow> 'a) \<Rightarrow> nat \<Rightarrow> nat list \<Rightarrow> nat list \<Rightarrow> nat list \<Rightarrow> nat list \<Rightarrow> 'a tensor \<Rightarrow> 'a tensor \<Rightarrow> 'a tensor \<Rightarrow> 'a tensor" where
  "depthwise_conv acc dm ss dl ps outs x f b =
     tgen (hd (tshape x) # outs @ [last (tshape f)]) (\<lambda>is. conv_cell acc (inner (tshape f)) ss dl ps (inner (tshape x)) 1
       (\<lambda>c p. tnth x (hd is # p @ [last is div dm])) (\<lambda>c k. tnth f (0 # k @ [last is])) (tnth b [last is]) (inner is))"

text \<open>The three-dimensional kernel has its filter in the order \<open>ks @ [c, m]\<close>.\<close>

definition filter_last_conv ::
  "('a \<Rightarrow> ('a \<times> 'a) list \<Rightarrow> 'a) \<Rightarrow> nat list \<Rightarrow> nat list \<Rightarrow> nat list \<Rightarrow> nat list \<Rightarrow> 'a tensor \<Rightarrow> 'a tensor \<Rightarrow> 'a tensor \<Rightarrow> 'a tensor" where
  "filter_last_conv acc ss dl ps outs x f b =
     (let r = trank f in
      tgen (hd (tshape x) # outs @ [last (tshape f)]) (\<lambda>is. conv_cell acc (take (r - 2) (tshape f)) ss dl ps (inner (tshape x)) (tshape f ! (r - 2))
        (\<lambda>c p. tnth x (hd is # p @ [c])) (\<lambda>c k. tnth f (k @ [c, last is])) (tnth b [last is]) (inner is)))"

definition eff_kernel :: "nat \<Rightarrow> nat \<Rightarrow> nat" where
  "eff_kernel k dl = dl * (k - 1) + 1"

definition channel_perm :: "nat \<Rightarrow> nat list" where
  "channel_perm r = 0 # [2..<r] @ [1]"

lemma to_nhwc_last: "to_nhwc = channel_perm 4"
  by (simp add: to_nhwc_def channel_perm_def upt_conv_Cons)

section \<open>Indices with the channel last\<close>

lemma inner_simps [simp]: "inner (a # xs @ [b]) = xs" "hd (a # xs @ [b]) = a" "last (a # xs @ [b]) = b"
  by (simp_all add: inner_def)

lemma valid_ix_append: "length is = length ds \<Longrightarrow> valid_ix (ds @ es) (is @ js) \<longleftrightarrow> valid_ix ds is \<and> valid_ix es js"
  by (auto simp: valid_ix_def list_all2_append)

lemma valid_ix_append_iff: "valid_ix (ds @ es) is \<longleftrightarrow> (\<exists>xs ys. is = xs @ ys \<and> valid_ix ds xs \<and> valid_ix es ys)"
  unfolding valid_ix_def list_all2_append2 by (metis list_all2_lengthD)

lemma valid_ix_single: "valid_ix [c] js \<longleftrightarrow> (\<exists>j<c. js = [j])"
  by (auto simp: valid_ix_Cons)

lemma valid_ix_last: "valid_ix (n # ds @ [c]) is \<longleftrightarrow> (\<exists>i js j. is = i # js @ [j] \<and> i < n \<and> valid_ix ds js \<and> j < c)"
  by (simp add: valid_ix_Cons [of n] valid_ix_append_iff valid_ix_single) blast

lemma valid_ix_last_iff [simp]: "length js = length ds \<Longrightarrow> valid_ix (ds @ [c]) (js @ [j]) \<longleftrightarrow> valid_ix ds js \<and> j < c"
  by (simp add: valid_ix_append)

lemma is_perm_last: "2 \<le> r \<Longrightarrow> is_perm (channel_perm r) r"
  by (auto simp: is_perm_def channel_perm_def)

lemma permute_last: "permute (channel_perm (length ps + 2)) (i # c # ps) = i # ps @ [c]"
proof -
  have "map (\<lambda>k. (i # c # ps) ! k) [2..<length ps + 2] = ps"
    by (rule nth_equalityI) (simp_all add: nth_Cons' del: upt_Suc add_2_eq_Suc')
  then show ?thesis by (simp add: permute_def channel_perm_def del: upt_Suc)
qed

lemma tnth_last:
  assumes "tshape t = n # c # ds" and "i < n" "j < c" "valid_ix ds ps"
  shows "tnth (ttranspose (channel_perm (trank t)) t) (i # ps @ [j]) = tnth t (i # j # ps)"
proof -
  have l: "length ps = length ds" using assms(4) by (rule valid_ix_length)
  have r: "trank t = length ps + 2" using assms(1) l by simp
  have "valid_ix (tshape t) (i # j # ps)" using assms by simp
  from tnth_ttranspose_permute [OF _ this, of "channel_perm (trank t)"] show ?thesis
    using is_perm_last [of "trank t"] permute_last [of ps i j] by (simp add: r)
qed

lemma tshape_last: "tshape t = n # c # ds \<Longrightarrow> tshape (ttranspose (channel_perm (trank t)) t) = n # ds @ [c]"
  using permute_last [of ds n c] by simp

section \<open>Cells\<close>

lemma conv_cell_cong:
  assumes "\<And>c p. c < cg \<Longrightarrow> valid_ix ds p \<Longrightarrow> xe c p = xe' c p" and "\<And>c k. c < cg \<Longrightarrow> valid_ix ks k \<Longrightarrow> we c k = we' c k" and "b = b'"
  shows "conv_cell acc ks ss dl ps ds cg xe we b os = conv_cell acc ks ss dl ps ds cg xe' we' b' os"
proof -
  have v: "valid_ix ds (map nat p)" if "position_ok ds p" for p
    using that by (auto simp: position_ok_def valid_ix_def list_all2_conv_all_nth)
  show ?thesis
    unfolding conv_cell_def Let_def assms(3)
    by (intro arg_cong [where f = "acc b'"] arg_cong [where f = concat] map_cong refl) (auto simp: set_all_ix v assms(1,2))
qed

text \<open>The convolution of ONNX with its channel moved to the end.\<close>

lemma ttranspose_onnx_conv:
  assumes x: "tshape x = n # ci # ds" and f: "tshape f = m # cg # ks" and l: "length ks = length ds" "length outs = length ds"
    and g: "ci = g * cg" "g dvd m" "0 < g"
  shows "ttranspose (channel_perm (length ds + 2)) (onnx_conv acc g ss dl ps outs x f b) =
    last_conv acc g ss dl ps outs (ttranspose (channel_perm (length ds + 2)) x) (ttranspose (channel_perm (length ds + 2)) f) b"
proof (rule tensor_transpose_eqI)
  let ?p = "channel_perm (length ds + 2)" and ?y = "onnx_conv acc g ss dl ps outs x f b"
  have sy: "tshape ?y = n # m # outs" by (simp add: onnx_conv_def x f Let_def)
  have sx: "tshape (ttranspose ?p x) = n # ds @ [ci]" using tshape_last [OF x] x by simp
  have sf: "tshape (ttranspose ?p f) = m # ks @ [cg]" using tshape_last [OF f] f l by simp
  show "is_perm ?p (trank ?y)" using is_perm_last [of "length ds + 2"] by (simp add: sy l)
  show "tshape (last_conv acc g ss dl ps outs (ttranspose ?p x) (ttranspose ?p f) b) = permute ?p (tshape ?y)"
    using permute_last [of outs n m] l unfolding last_conv_def sx sf by (simp add: sy Let_def)
  fix "is" assume "valid_ix (tshape ?y) is"
  then obtain i j os where i: "is = i # j # os" "i < n" "j < m" "valid_ix outs os" by (auto simp: sy valid_ix_Cons)
  then have lo: "length os = length outs" by (simp add: valid_ix_length)
  have pi: "permute ?p is = i # os @ [j]" using permute_last [of os i j] lo l i by simp
  have gj: "j div (m div g) * cg + c < ci" if "c < cg" for c
  proof -
    obtain q where q: "m = g * q" using g(2) by blast
    then have "0 < q" using i(3) by (cases q) auto
    then have "j div q < g" using i(3) q by (metis less_mult_imp_div_less)
    then have "j div q * cg + c < Suc (j div q) * cg" "Suc (j div q) * cg \<le> g * cg" using that
      by (simp, intro mult_le_mono1 Suc_leI)
    then show ?thesis using q g(1,3) \<open>0 < q\<close> by simp
  qed
  have "tnth (last_conv acc g ss dl ps outs (ttranspose ?p x) (ttranspose ?p f) b) (i # os @ [j]) =
      conv_cell acc ks ss dl ps ds cg (\<lambda>c p. tnth (ttranspose ?p x) (i # p @ [j div (m div g) * cg + c]))
        (\<lambda>c k. tnth (ttranspose ?p f) (j # k @ [c])) (tnth b [j]) os"
    unfolding last_conv_def sx sf Let_def using i lo by (simp add: inner_simps)
  also have "\<dots> = conv_cell acc ks ss dl ps ds cg (\<lambda>c p. tnth x (i # (j div (m div g) * cg + c) # p)) (\<lambda>c k. tnth f (j # c # k)) (tnth b [j]) os"
    using tnth_last [OF x, of i] tnth_last [OF f, of j] i gj x f l by (intro conv_cell_cong) simp_all
  also have "\<dots> = tnth ?y is" unfolding onnx_conv_def x f Let_def using i by simp
  finally show "tnth (last_conv acc g ss dl ps outs (ttranspose ?p x) (ttranspose ?p f) b) (permute ?p is) = tnth ?y is" unfolding pi .
qed (simp add: last_conv_def Let_def)

section \<open>Groups\<close>

lemma div_group: "j < m \<Longrightarrow> m = g * q \<Longrightarrow> j div q < g" for j m g q :: nat
  using less_mult_imp_div_less [of j g q] by simp

lemma locate_replicate: "0 < q \<Longrightarrow> k < g * q \<Longrightarrow> locate (replicate g q) k = (k div q, k mod q)"
proof (induction g arbitrary: k)
  case (Suc g)
  show ?case
  proof (cases "k < q")
    case False
    then have "locate (replicate g q) (k - q) = ((k - q) div q, (k - q) mod q)" using Suc by (intro Suc.IH) simp_all
    moreover have "k div q = Suc ((k - q) div q)" "k mod q = (k - q) mod q" using False Suc.prems(1) by (simp_all add: le_div_geq le_mod_geq)
    ultimately show ?thesis using False by simp
  qed simp
qed simp

lemma sum_list_take_replicate: "j \<le> g \<Longrightarrow> sum_list (take j (replicate g q)) = j * q" for q :: nat
  by (simp add: min_def sum_list_replicate)

lemma apply_ix_one: "a < length is \<Longrightarrow> apply_ix ((replicate (length is) id)[a := h]) is = is[a := h (is ! a)]"
  by (rule nth_equalityI) (auto simp: nth_list_update)

lemma tnth_tsplit:
  assumes "j < length ns" and "a < trank x" and "valid_ix ((tshape x)[a := ns ! j]) is"
  shows "tnth (tsplit a ns x ! j) is = tnth x (is[a := sum_list (take j ns) + is ! a])"
  using assms apply_ix_one [of a "is"] valid_ix_length [OF assms(3)] by (simp add: tsplit_def)

text \<open>One part of a split of the last axis or of the first one, into equal parts.\<close>

lemma tsplit_last:
  assumes "tshape x = n # ds @ [g * q]" and "j < g"
  shows "tshape (tsplit (Suc (length ds)) (replicate g q) x ! j) = n # ds @ [q]" "wf_tensor (tsplit (Suc (length ds)) (replicate g q) x ! j)"
    and "i < n \<Longrightarrow> valid_ix ds ps \<Longrightarrow> c < q \<Longrightarrow> tnth (tsplit (Suc (length ds)) (replicate g q) x ! j) (i # ps @ [c]) = tnth x (i # ps @ [j * q + c])"
proof -
  show "tshape (tsplit (Suc (length ds)) (replicate g q) x ! j) = n # ds @ [q]" "wf_tensor (tsplit (Suc (length ds)) (replicate g q) x ! j)"
    using assms by (simp_all add: tsplit_def list_update_append)
  assume v: "i < n" "valid_ix ds ps" "c < q"
  then have l: "length ps = length ds" by (simp add: valid_ix_length)
  have "valid_ix ((tshape x)[Suc (length ds) := replicate g q ! j]) (i # ps @ [c])"
    using assms v l by (simp add: list_update_append)
  from tnth_tsplit [OF _ _ this] show "tnth (tsplit (Suc (length ds)) (replicate g q) x ! j) (i # ps @ [c]) = tnth x (i # ps @ [j * q + c])"
    using assms l by (simp add: list_update_append nth_append sum_list_take_replicate del: take_replicate)
qed

lemma tsplit_first:
  assumes "tshape x = (g * q) # ds" and "j < g"
  shows "tshape (tsplit 0 (replicate g q) x ! j) = q # ds" "wf_tensor (tsplit 0 (replicate g q) x ! j)"
    and "i < q \<Longrightarrow> valid_ix ds ps \<Longrightarrow> tnth (tsplit 0 (replicate g q) x ! j) (i # ps) = tnth x ((j * q + i) # ps)"
proof -
  show "tshape (tsplit 0 (replicate g q) x ! j) = q # ds" "wf_tensor (tsplit 0 (replicate g q) x ! j)"
    using assms by (simp_all add: tsplit_def)
  assume v: "i < q" "valid_ix ds ps"
  then have "valid_ix ((tshape x)[0 := replicate g q ! j]) (i # ps)" using assms by simp
  from tnth_tsplit [OF _ _ this] show "tnth (tsplit 0 (replicate g q) x ! j) (i # ps) = tnth x ((j * q + i) # ps)"
    using assms by (simp add: sum_list_take_replicate del: take_replicate)
qed

text \<open>A grouped convolution is the concatenation of the convolutions of its groups.\<close>

lemma last_conv_groups:
  assumes x: "tshape x = n # ds @ [g * cg]" and f: "tshape f = (g * q) # ks @ [cg]" and b: "tshape b = [g * q]"
    and l: "length outs = length ds" and g: "0 < g"
  shows "last_conv acc g ss dl ps outs x f b = tconcat (Suc (length outs)) (map (\<lambda>j. last_conv acc 1 ss dl ps outs
      (tsplit (Suc (length ds)) (replicate g cg) x ! j) (tsplit 0 (replicate g q) f ! j) (tsplit 0 (replicate g q) b ! j)) [0..<g])"
    (is "?lhs = tconcat ?a (map ?part [0..<g])")
proof (rule tensor_eqI)
  have sp: "tshape (?part j) = n # outs @ [q]" if "j < g" for j
    using tsplit_last(1) [OF x that] tsplit_first(1) [OF f that] by (simp add: last_conv_def Let_def)
  have sizes: "map (\<lambda>t. tshape t ! ?a) (map ?part [0..<g]) = replicate g q"
    using sp by (intro nth_equalityI) (simp_all add: nth_append)
  have hd: "hd (map ?part [0..<g]) = ?part 0" using g by (simp add: hd_map)
  show sh: "tshape ?lhs = tshape (tconcat ?a (map ?part [0..<g]))"
    unfolding tshape_tconcat sizes hd sp [OF g] by (simp add: last_conv_def x f Let_def sum_list_replicate list_update_append)
  have ts: "tshape ?lhs = n # outs @ [g * q]" by (simp add: last_conv_def x f Let_def)
  fix "is" assume "valid_ix (tshape (tconcat ?a (map ?part [0..<g]))) is"
  then have "valid_ix (n # outs @ [g * q]) is" by (simp only: sh [symmetric] ts)
  then obtain i os k where i: "is = i # os @ [k]" "i < n" "valid_ix outs os" "k < g * q" unfolding valid_ix_last by blast
  have lo: "length os = length outs" using i(3) by (rule valid_ix_length)
  have q: "0 < q" using i(4) by (cases q) auto
  let ?j = "k div q" and ?r = "k mod q"
  have j: "?j < g" "?r < q" "?j * q + ?r = k" using i(4) q by (simp_all add: less_mult_imp_div_less)
  have loc: "locate (map (\<lambda>t. tshape t ! ?a) (map ?part [0..<g])) (is ! ?a) = (?j, ?r)"
    unfolding sizes using q i lo by (simp add: nth_append locate_replicate)
  have "tnth (tconcat ?a (map ?part [0..<g])) is = tnth (?part ?j) (i # os @ [?r])"
  proof -
    have "valid_ix (tshape (tconcat ?a (map ?part [0..<g]))) is" unfolding sh [symmetric] ts using i lo by simp
    from tnth_tconcat [OF this loc] show ?thesis using i j lo by (simp add: list_update_append)
  qed
  also have "\<dots> = conv_cell acc ks ss dl ps ds cg (\<lambda>c p. tnth (tsplit (Suc (length ds)) (replicate g cg) x ! ?j) (i # p @ [?r div (q div 1) * cg + c]))
      (\<lambda>c k. tnth (tsplit 0 (replicate g q) f ! ?j) (?r # k @ [c])) (tnth (tsplit 0 (replicate g q) b ! ?j) [?r]) os"
    unfolding last_conv_def tsplit_last(1) [OF x j(1)] tsplit_first(1) [OF f j(1)] Let_def using i lo j by simp
  also have "\<dots> = conv_cell acc ks ss dl ps ds cg (\<lambda>c p. tnth x (i # p @ [?j * cg + c])) (\<lambda>c kk. tnth f (k # kk @ [c])) (tnth b [k]) os"
  proof (rule conv_cell_cong)
    fix c p assume "c < cg" "valid_ix ds p"
    then show "tnth (tsplit (Suc (length ds)) (replicate g cg) x ! ?j) (i # p @ [?r div (q div 1) * cg + c]) = tnth x (i # p @ [?j * cg + c])"
      using tsplit_last(3) [OF x j(1) i(2)] q j(2) by simp
  next
    fix c kk assume c: "c < cg" "valid_ix ks kk"
    then have "valid_ix (ks @ [cg]) (kk @ [c])" by (simp add: valid_ix_length)
    from tsplit_first(3) [OF f j(1) j(2) this] show "tnth (tsplit 0 (replicate g q) f ! ?j) (?r # kk @ [c]) = tnth f (k # kk @ [c])"
      using j(3) by simp
  next
    show "tnth (tsplit 0 (replicate g q) b ! ?j) [?r] = tnth b [k]" using tsplit_first(3) [OF b j(1) j(2), of "[]"] j(3) by simp
  qed
  also have "\<dots> = tnth ?lhs is"
    unfolding last_conv_def x f Let_def using i lo g by simp
  finally show "tnth ?lhs is = tnth (tconcat ?a (map ?part [0..<g])) is" ..
qed (simp_all add: last_conv_def Let_def)

text \<open>With one input channel per group the depthwise kernel computes the convolution, on the filter with its outer axes exchanged.\<close>

lemma last_conv_depthwise:
  assumes x: "tshape x = n # ds @ [g]" and f: "tshape f = m # ks @ [1]" and f': "tshape f' = 1 # ks @ [m]" and m: "m = g * dm" "0 < g"
    and l: "length outs = length ds" and el: "\<And>k j. valid_ix ks k \<Longrightarrow> j < m \<Longrightarrow> tnth f' (0 # k @ [j]) = tnth f (j # k @ [0])"
  shows "depthwise_conv acc dm ss dl ps outs x f' b = last_conv acc g ss dl ps outs x f b"
  unfolding depthwise_conv_def last_conv_def x f f' Let_def inner_simps
proof (rule tgen_cong)
  fix "is" assume "valid_ix (n # outs @ [m]) is"
  then obtain i os k where i: "is = i # os @ [k]" "i < n" "k < m" unfolding valid_ix_last by blast
  show "conv_cell acc ks ss dl ps ds 1 (\<lambda>c p. tnth x (hd is # p @ [last is div dm])) (\<lambda>c k. tnth f' (0 # k @ [last is])) (tnth b [last is]) (inner is) =
      conv_cell acc ks ss dl ps ds 1 (\<lambda>c p. tnth x (hd is # p @ [last is div (m div g) * 1 + c])) (\<lambda>c k. tnth f (last is # k @ [c])) (tnth b [last is]) (inner is)"
    using m el i by (intro conv_cell_cong) simp_all
qed simp

section \<open>Explicit padding\<close>

text \<open>Taps on a value that the accumulation ignores can be left out.\<close>

definition ignores :: "('a \<Rightarrow> ('a \<times> 'a) list \<Rightarrow> 'a) \<Rightarrow> 'a \<Rightarrow> ('a \<Rightarrow> bool) \<Rightarrow> bool" where
  "ignores acc zero num \<longleftrightarrow> (\<forall>b ps w qs. num w \<longrightarrow> acc b (ps @ (zero, w) # qs) = acc b (ps @ qs))"

lemma ignores_all:
  assumes "ignores acc zero num" and "\<forall>x\<in>set zs. fst x = zero \<and> num (snd x)" shows "acc b (ps @ zs @ qs) = acc b (ps @ qs)"
  using assms(2)
proof (induction zs)
  case (Cons z zs)
  then have "acc b (ps @ (zero, snd z) # zs @ qs) = acc b (ps @ zs @ qs)" using assms(1) by (simp add: ignores_def)
  then show ?case using Cons by (cases z) simp
qed simp

lemma ignores_taps:
  assumes "ignores acc zero num" and "\<forall>k\<in>set ks. F k = G k \<or> G k = [] \<and> (\<forall>x\<in>set (F k). fst x = zero \<and> num (snd x))"
  shows "acc b (ps @ concat (map F ks)) = acc b (ps @ concat (map G ks))"
  using assms(2)
proof (induction ks arbitrary: ps)
  case (Cons k ks)
  then have IH: "acc b (qs @ concat (map F ks)) = acc b (qs @ concat (map G ks))" for qs by simp
  show ?case
  proof (cases "F k = G k")
    case True
    then show ?thesis using IH [of "ps @ F k"] by simp
  next
    case False
    then have "G k = []" "\<forall>x\<in>set (F k). fst x = zero \<and> num (snd x)" using Cons.prems by auto
    then show ?thesis using IH [of ps] ignores_all [OF assms(1), of "F k" b ps "concat (map F ks)"] by simp
  qed
qed simp

lemma nat_of_int_terms: "nat (int a * int b + int c) = a * b + c" "nat (int a * int b + int c * int d) = a * b + c * d"
  by (metis nat_int of_nat_add of_nat_mult)+

lemma position_unpadded:
  assumes l: "length ss = r" "length before = r" "length os = r" "length kd = r" "length ds = r"
  defines "q \<equiv> map nat (window_position ss (replicate r 0) os kd)" and "p \<equiv> window_position ss before os kd"
  shows "position_ok ds p \<longleftrightarrow> list_all2 (\<le>) before q \<and> valid_ix ds (map2 (-) q before)"
    and "position_ok ds p \<Longrightarrow> map nat p = map2 (-) q before"
    and "position_ok es (window_position ss (replicate r 0) os kd) \<longleftrightarrow> valid_ix es q" and "length q = r"
proof -
  have lq: "length q = r" "length p = r" "length (window_position ss (replicate r 0) os kd) = r"
    using l nth_window_position(1) [of ss r _ os kd] by (simp_all add: q_def p_def)
  have n: "q ! j = os ! j * ss ! j + kd ! j" "p ! j = int (q ! j) - int (before ! j)"
    "window_position ss (replicate r 0) os kd ! j = int (q ! j)" if "j < r" for j
    using that l lq(3) nth_window_position(2) [of ss r _ os kd j] by (simp_all add: q_def p_def nat_of_int_terms)
  have le: "list_all2 (\<le>) before q \<longleftrightarrow> (\<forall>j<r. before ! j \<le> q ! j)" using l lq by (simp add: list_all2_conv_all_nth)
  show "position_ok ds p \<longleftrightarrow> list_all2 (\<le>) before q \<and> valid_ix ds (map2 (-) q before)"
    unfolding position_ok_def valid_ix_def le using l lq n(2) by (auto simp: list_all2_conv_all_nth)
  show "map nat p = map2 (-) q before" if "position_ok ds p"
    using l lq n(2) by (intro nth_equalityI) simp_all
  show "position_ok es (window_position ss (replicate r 0) os kd) \<longleftrightarrow> valid_ix es q"
    unfolding position_ok_def valid_ix_def using lq n(3) by (auto simp: list_all2_conv_all_nth)
  show "length q = r" by (rule lq(1))
qed

lemma tnth_tpad_last:
  assumes x: "tshape x = n # ds @ [c]" and l: "length before = length ds" "length after = length ds"
    and i: "i < n" "j < c" "valid_ix (map2 (+) ds (map2 (+) before after)) q"
  shows "tnth (tpad (0 # before @ [0]) (0 # after @ [0]) zero x) (i # q @ [j]) =
    (if list_all2 (\<le>) before q \<and> valid_ix ds (map2 (-) q before) then tnth x (i # map2 (-) q before @ [j]) else zero)"
proof -
  have lq: "length q = length ds" using valid_ix_length [OF i(3)] l by simp
  then show ?thesis
    using i l by (simp add: tpad_def x list_all2_append valid_ix_append)
qed

lemma last_conv_tpad:
  assumes x: "tshape x = n # ds @ [ci]" and f: "tshape f = m # ks @ [cg]" "wf_tensor f" "\<forall>w\<in>set (tdata f). num w"
    and l: "length before = length ds" "length after = length ds" "length ss = length ds" "length dl = length ds" "length ks = length ds" "length outs = length ds"
    and g: "ci = g * cg" "g dvd m" "0 < g" and neutral: "ignores acc zero num"
    and fit: "\<forall>j<length ds. \<forall>i<outs ! j. \<forall>k<ks ! j. i * ss ! j + dl ! j * k < ds ! j + before ! j + after ! j"
  shows "last_conv acc g ss dl (replicate (length ds) 0) outs (tpad (0 # before @ [0]) (0 # after @ [0]) zero x) f b =
    last_conv acc g ss dl before outs x f b"
proof -
  let ?y = "tpad (0 # before @ [0]) (0 # after @ [0]) zero x" and ?es = "map2 (+) ds (map2 (+) before after)" and ?r = "length ds"
  have sy: "tshape ?y = n # ?es @ [ci]" using l by (simp add: tpad_def x)
  show ?thesis
    unfolding last_conv_def sy x f Let_def inner_simps
  proof (rule tgen_cong)
    fix "is" assume "valid_ix (n # outs @ [m]) is"
    then obtain i os j where i: "is = i # os @ [j]" "i < n" "valid_ix outs os" "j < m" unfolding valid_ix_last by blast
    have lo: "length os = ?r" using valid_ix_length [OF i(3)] l by simp
    let ?ch = "\<lambda>c. j div (m div g) * cg + c"
    have ch: "?ch c < ci" if "c < cg" for c
    proof -
      obtain q where q: "m = g * q" using g(2) by blast
      then have "j div q < g" using i(4) by (intro div_group [OF i(4)]) simp
      then have "j div q * cg + c < Suc (j div q) * cg" "Suc (j div q) * cg \<le> g * cg" using that by (simp, intro mult_le_mono1 Suc_leI)
      moreover have "m div g = q" using q g(3) by simp
      ultimately show ?thesis using g(1) by simp
    qed
    let ?F = "\<lambda>k. let p = window_position ss (replicate ?r 0) os (map2 (*) dl k) in
       if position_ok ?es p then map (\<lambda>c. (tnth ?y (i # map nat p @ [?ch c]), tnth f (j # k @ [c]))) [0..<cg] else []"
    let ?G = "\<lambda>k. let p = window_position ss before os (map2 (*) dl k) in
       if position_ok ds p then map (\<lambda>c. (tnth x (i # map nat p @ [?ch c]), tnth f (j # k @ [c]))) [0..<cg] else []"
    have taps: "?F k = ?G k \<or> ?G k = [] \<and> (\<forall>x\<in>set (?F k). fst x = zero \<and> num (snd x))" if "k \<in> set (all_ix ks)" for k
    proof -
      have k: "valid_ix ks k" "length k = ?r" using that l by (auto simp: set_all_ix dest: valid_ix_length)
      let ?q = "map nat (window_position ss (replicate ?r 0) os (map2 (*) dl k))"
      have kd: "length (map2 (*) dl k) = ?r" using k l by simp
      note u = position_unpadded [OF l(3,1) lo kd refl]
      have qv: "valid_ix ?es ?q"
      proof (rule valid_ixI)
        show "length ?q = length ?es" using u(4) l by simp
        fix a assume "a < length ?es"
        then have a: "a < ?r" using l by simp
        have "os ! a < outs ! a" "k ! a < ks ! a" using valid_ix_nth [OF i(3), of a] valid_ix_nth [OF k(1), of a] a l by simp_all
        then have "os ! a * ss ! a + dl ! a * k ! a < ds ! a + before ! a + after ! a" using fit a by blast
        then show "?q ! a < ?es ! a" using a l k lo nth_window_position [of ss ?r "replicate ?r 0" os "map2 (*) dl k"] by (simp add: nat_of_int_terms)
      qed
      have num: "num (tnth f (j # k @ [c]))" if "c < cg" for c
      proof -
        have "valid_ix (tshape f) (j # k @ [c])" using i(4) k l that by (simp add: f)
        then show ?thesis using f(2,3) ravel_less by (fastforce simp: tnth_def wf_tensor_def)
      qed
      have y: "tnth ?y (i # ?q @ [?ch c]) = (if position_ok ds (window_position ss before os (map2 (*) dl k))
          then tnth x (i # map nat (window_position ss before os (map2 (*) dl k)) @ [?ch c]) else zero)" if "c < cg" for c
        using tnth_tpad_last [OF x l(1,2) i(2) ch [OF that] qv] u(1,2) by simp
      show ?thesis
      proof (cases "position_ok ds (window_position ss before os (map2 (*) dl k))")
        case True
        then have "?F k = ?G k" using y qv u(3) [of ?es] by (auto simp: Let_def)
        then show ?thesis ..
      next
        case False
        then have "?G k = []" "\<forall>x\<in>set (?F k). fst x = zero \<and> num (snd x)" using y num qv u(3) [of ?es] by (auto simp: Let_def)
        then show ?thesis by simp
      qed
    qed
    then have "acc (tnth b [j]) ([] @ concat (map ?F (all_ix ks))) = acc (tnth b [j]) ([] @ concat (map ?G (all_ix ks)))"
      by (intro ignores_taps [OF neutral]) blast
    then show "conv_cell acc ks ss dl (replicate ?r 0) ?es cg (\<lambda>c p. tnth ?y (hd is # p @ [last is div (m div g) * cg + c]))
        (\<lambda>c k. tnth f (last is # k @ [c])) (tnth b [last is]) (inner is) =
      conv_cell acc ks ss dl before ds cg (\<lambda>c p. tnth x (hd is # p @ [last is div (m div g) * cg + c]))
        (\<lambda>c k. tnth f (last is # k @ [c])) (tnth b [last is]) (inner is)"
      unfolding conv_cell_def i(1) inner_simps by simp
  qed simp
qed

section \<open>One more axis of extent one\<close>

lemma all_ix_one: "all_ix (ks @ [1]) = map (\<lambda>k. k @ [0]) (all_ix ks)"
  by (induction ks) (simp_all add: all_ix_Cons map_concat comp_def)

lemma ravel_one: "length is = length ds \<Longrightarrow> ravel (ds @ [1, c]) (is @ [0, j]) = ravel (ds @ [c]) (is @ [j])"
  by (simp add: ravel_append)

lemma window_position_one:
  assumes "length ss = length ps" "length os = length ps" "length ks = length ps"
  shows "window_position (ss @ [s]) (ps @ [0]) (os @ [0]) (ks @ [0]) = window_position ss ps os ks @ [0]"
  using assms by (simp add: window_position_def)

lemma last_conv_one:
  assumes x: "tshape x = n # ds @ [ci]" and f: "tshape f = m # ks @ [cg]"
    and l: "length ps = length ds" "length ss = length ds" "length dl = length ds" "length ks = length ds" "length outs = length ds"
    and g: "ci = g * cg" "g dvd m" "0 < g"
  shows "last_conv acc g (ss @ [1]) (dl @ [1]) (ps @ [0]) (outs @ [1]) (treshape (n # ds @ [1, ci]) x) (treshape (m # ks @ [1, cg]) f) b =
    treshape (n # outs @ [1, m]) (last_conv acc g ss dl ps outs x f b)"
proof (rule tensor_eqI)
  let ?x = "treshape (n # ds @ [1, ci]) x" and ?f = "treshape (m # ks @ [1, cg]) f"
  let ?l = "last_conv acc g (ss @ [1]) (dl @ [1]) (ps @ [0]) (outs @ [1]) ?x ?f b" and ?r = "last_conv acc g ss dl ps outs x f b"
  have sh: "tshape ?x = n # (ds @ [1]) @ [ci]" "tshape ?f = m # (ks @ [1]) @ [cg]" by simp_all
  have sl: "tshape ?l = n # (outs @ [1]) @ [m]" unfolding last_conv_def sh by (simp only: Let_def inner_simps list.sel tshape_tgen)
  have sr: "tshape ?r = n # outs @ [m]" by (simp add: last_conv_def x f Let_def)
  show "wf_tensor ?l" "wf_tensor (treshape (n # outs @ [1, m]) ?r)" using sr 
    by (auto intro!: wf_treshape) (simp_all add: last_conv_def Let_def)
  show "tshape ?l = tshape (treshape (n # outs @ [1, m]) ?r)" using sl by simp
  fix "is" assume "valid_ix (tshape (treshape (n # outs @ [1, m]) ?r)) is"
  then have hv: "valid_ix (n # (outs @ [1]) @ [m]) is" by simp
  then obtain i os' j where i': "is = i # os' @ [j]" "i < n" "valid_ix (outs @ [1]) os'" "j < m" unfolding valid_ix_last by blast
  then obtain os where os: "os' = os @ [0]" "valid_ix outs os" by (auto simp: valid_ix_append_iff valid_ix_single)
  have lo: "length os = length ds" using valid_ix_length [OF os(2)] l by simp
  have ch: "j div (m div g) * cg + c < ci" if "c < cg" for c
  proof -
    obtain q where q: "m = g * q" using g(2) by blast
    then have "j div q < g" using i'(4) by (intro div_group [OF i'(4)]) simp
    then have "j div q * cg + c < Suc (j div q) * cg" "Suc (j div q) * cg \<le> g * cg" using that by (simp, intro mult_le_mono1 Suc_leI)
    moreover have "m div g = q" using q g(3) by simp
    ultimately show ?thesis using g(1) by simp
  qed
  have el: "tnth ?x (i # (p @ [0]) @ [c]) = tnth x (i # p @ [c])" if "length p = length ds" for p c
    using ravel_one [of "i # p" "n # ds" ci c] that by (simp add: tnth_def treshape_def x)
  have fl: "tnth ?f (j # (k @ [0]) @ [c]) = tnth f (j # k @ [c])" if "length k = length ds" for k c
    using ravel_one [of "j # k" "m # ks" cg c] that l by (simp add: tnth_def treshape_def f)
  let ?p = "\<lambda>k. window_position ss ps os (map2 (*) dl k)"
  have taps: "(let p = window_position (ss @ [1]) (ps @ [0]) (os @ [0]) (map2 (*) (dl @ [1]) (k @ [0])) in
        if position_ok (ds @ [1]) p then map (\<lambda>c. (tnth ?x (i # map nat p @ [j div (m div g) * cg + c]), tnth ?f (j # (k @ [0]) @ [c]))) [0..<cg] else []) =
      (let p = ?p k in if position_ok ds p then map (\<lambda>c. (tnth x (i # map nat p @ [j div (m div g) * cg + c]), tnth f (j # k @ [c]))) [0..<cg] else [])"
    if "k \<in> set (all_ix ks)" for k
  proof -
    have k: "length k = length ds" using that l by (auto simp: set_all_ix dest: valid_ix_length)
    have "window_position (ss @ [1]) (ps @ [0]) (os @ [0]) (map2 (*) (dl @ [1]) (k @ [0])) = ?p k @ [0]"
      using window_position_one [of ss ps os "map2 (*) dl k"] l lo k by simp
    moreover have "length (?p k) = length ds" using nth_window_position(1) [of ss "length ds" ps os "map2 (*) dl k"] l lo k by simp
    moreover have "position_ok (ds @ [1]) (?p k @ [0]) = position_ok ds (?p k)"
      using calculation(2) by (simp add: position_ok_def list_all2_append)
    ultimately show ?thesis using el [of "map nat (?p k)"] fl [OF k] by (simp add: Let_def)
  qed
  have "tnth ?l is = conv_cell acc (ks @ [1]) (ss @ [1]) (dl @ [1]) (ps @ [0]) (ds @ [1]) cg (\<lambda>c p. tnth ?x (i # p @ [j div (m div g) * cg + c]))
      (\<lambda>c k. tnth ?f (j # k @ [c])) (tnth b [j]) (os @ [0])"
  proof -
    have "hd is = i" "last is = j" "inner is = os @ [0]" unfolding i'(1) inner_simps os(1) by simp_all
    then show ?thesis unfolding last_conv_def sh Let_def inner_simps list.sel tnth_tgen [OF hv] by simp
  qed
  also have "\<dots> = conv_cell acc ks ss dl ps ds cg (\<lambda>c p. tnth x (i # p @ [j div (m div g) * cg + c])) (\<lambda>c k. tnth f (j # k @ [c])) (tnth b [j]) os"
    unfolding conv_cell_def all_ix_one map_map comp_def
    by (intro arg_cong [where f = "acc (tnth b [j])"] arg_cong [where f = concat] map_cong refl taps)
  also have "\<dots> = tnth ?r (i # os @ [j])"
    unfolding last_conv_def x f Let_def using i' os lo l by simp
  also have "\<dots> = tnth (treshape (n # outs @ [1, m]) ?r) is"
    using ravel_one [of "i # os" "n # outs" m j] lo l i' os by (simp add: tnth_def treshape_def sr)
  finally show "tnth ?l is = tnth (treshape (n # outs @ [1, m]) ?r) is" .
qed

section \<open>The filter of the three-dimensional kernel\<close>

lemma filter_last_conv_eq:
  assumes x: "tshape x = n # ds @ [ci]" and f: "tshape f = m # ks @ [ci]" and f': "tshape f' = ks @ [ci, m]" and l: "length outs = length ds"
    and el: "\<And>k c j. valid_ix ks k \<Longrightarrow> c < ci \<Longrightarrow> j < m \<Longrightarrow> tnth f' (k @ [c, j]) = tnth f (j # k @ [c])"
  shows "filter_last_conv acc ss dl ps outs x f' b = last_conv acc 1 ss dl ps outs x f b"
proof -
  have r: "take (trank f' - 2) (tshape f') = ks" "tshape f' ! (trank f' - 2) = ci" "last (tshape f') = m" by (simp_all add: f' nth_append)
  show ?thesis
    unfolding filter_last_conv_def last_conv_def x f Let_def inner_simps r
  proof (rule tgen_cong)
    fix "is" assume "valid_ix (n # outs @ [m]) is"
    then obtain i os j where i: "is = i # os @ [j]" "i < n" "j < m" unfolding valid_ix_last by blast
    show "conv_cell acc ks ss dl ps ds ci (\<lambda>c p. tnth x (hd is # p @ [c])) (\<lambda>c k. tnth f' (k @ [c, last is])) (tnth b [last is]) (inner is) =
        conv_cell acc ks ss dl ps ds ci (\<lambda>c p. tnth x (hd is # p @ [last is div (m div 1) * ci + c])) (\<lambda>c k. tnth f (last is # k @ [c])) (tnth b [last is]) (inner is)"
      using el i by (intro conv_cell_cong) simp_all
  qed simp
qed

section \<open>Padding and extents\<close>

text \<open>How the kernels place their windows for their two paddings; \<open>eks\<close> are the extents of the dilated kernel.\<close>

definition kernel_ok :: "string \<Rightarrow> nat list \<Rightarrow> nat list \<Rightarrow> nat list \<Rightarrow> bool" where
  "kernel_ok padding ds eks ss \<longleftrightarrow> (padding = ''SAME'' \<or> padding = ''VALID'' \<and> list_all2 (\<le>) eks ds) \<and> (\<forall>s\<in>set ss. 0 < s)"

definition kernel_pads :: "string \<Rightarrow> nat list \<Rightarrow> nat list \<Rightarrow> nat list \<Rightarrow> nat list" where
  "kernel_pads padding ds eks ss =
     (if padding = ''SAME'' then map (\<lambda>j. same_pad (ds ! j) (eks ! j) (ss ! j)) [0..<length ds] else replicate (length ds) 0)"

definition kernel_outs :: "string \<Rightarrow> nat list \<Rightarrow> nat list \<Rightarrow> nat list \<Rightarrow> nat list" where
  "kernel_outs padding ds eks ss =
     map (\<lambda>j. if padding = ''SAME'' then same_out (ds ! j) (ss ! j) else valid_out (ds ! j) (eks ! j) (ss ! j)) [0..<length ds]"

lemma kernel_lengths [simp]: "length (kernel_pads padding ds eks ss) = length ds" "length (kernel_outs padding ds eks ss) = length ds"
  by (simp_all add: kernel_pads_def kernel_outs_def)

lemma dilated_out_fits:
  assumes "i < valid_out d (eff_kernel k dl) s" "j < k" "eff_kernel k dl \<le> d" "0 < s" shows "i * s + dl * j < d"
proof -
  have "i * s + eff_kernel k dl \<le> d" by (rule valid_out_fits [OF assms(1,3,4)])
  moreover have "dl * j \<le> dl * (k - 1)" using assms(2) by (intro mult_le_mono2) simp
  ultimately show ?thesis unfolding eff_kernel_def by linarith
qed

section \<open>The kernels\<close>

text \<open>The order in which the pattern lists the attributes.\<close>

definition conv2d_attributes :: "int \<Rightarrow> int \<Rightarrow> string \<Rightarrow> int \<Rightarrow> int \<Rightarrow> (string \<times> 'f attr) list" where
  "conv2d_attributes dh dw padding sh sw =
     [(''dilation_h_factor'', IntAttr dh), (''dilation_w_factor'', IntAttr dw), getFusedActivationNone,
      (''padding'', StrAttr padding), (''stride_h'', IntAttr sh), (''stride_w'', IntAttr sw)]"

definition conv3d_attributes :: "int list \<Rightarrow> string \<Rightarrow> int list \<Rightarrow> (string \<times> 'f attr) list" where
  "conv3d_attributes dl padding ss =
     [(''dilation_d_factor'', IntAttr (dl ! 0)), (''dilation_h_factor'', IntAttr (dl ! 1)), (''dilation_w_factor'', IntAttr (dl ! 2)),
      getFusedActivationNone, (''padding'', StrAttr padding),
      (''stride_d'', IntAttr (ss ! 0)), (''stride_h'', IntAttr (ss ! 1)), (''stride_w'', IntAttr (ss ! 2))]"

text \<open>
  The convolution kernels of TensorFlow Lite: \<open>acc\<close> is the accumulation of one cell from the bias and the
  pairs of an element and its weight, in the order in which the kernel visits them.
\<close>

locale tfl_conv = tfl_assembly sem + tfl_zero_pad sem zero for sem :: "'f sem" and zero :: "'f scalar" +
  fixes acc :: "'f scalar \<Rightarrow> ('f scalar \<times> 'f scalar) list \<Rightarrow> 'f scalar"
  assumes conv_2d:
    "wf_tensor x \<Longrightarrow> wf_tensor f \<Longrightarrow> wf_tensor b \<Longrightarrow> tshape x = [n, h, w, c] \<Longrightarrow> tshape f = [m, kh, kw, c] \<Longrightarrow> tshape b = [m] \<Longrightarrow>
     0 < kh \<Longrightarrow> 0 < kw \<Longrightarrow> 0 < dh \<Longrightarrow> 0 < dw \<Longrightarrow> eks = [eff_kernel kh dh, eff_kernel kw dw] \<Longrightarrow> kernel_ok padding [h, w] eks [sh, sw] \<Longrightarrow>
     r = last_conv acc 1 [sh, sw] [dh, dw] (kernel_pads padding [h, w] eks [sh, sw]) (kernel_outs padding [h, w] eks [sh, sw]) x f b \<Longrightarrow>
     declares tys [r] \<Longrightarrow>
     sem ''tfl.conv_2d'' (conv2d_attributes (int dh) (int dw) padding (int sh) (int sw)) tys [x, f, b] = [r]"
    and depthwise_conv_2d:
    "wf_tensor x \<Longrightarrow> wf_tensor f \<Longrightarrow> wf_tensor b \<Longrightarrow> tshape x = [n, h, w, c] \<Longrightarrow> tshape f = [1, kh, kw, c * dm] \<Longrightarrow> tshape b = [c * dm] \<Longrightarrow>
     0 < kh \<Longrightarrow> 0 < kw \<Longrightarrow> 0 < dh \<Longrightarrow> 0 < dw \<Longrightarrow> 0 < dm \<Longrightarrow> eks = [eff_kernel kh dh, eff_kernel kw dw] \<Longrightarrow> kernel_ok padding [h, w] eks [sh, sw] \<Longrightarrow>
     r = depthwise_conv acc dm [sh, sw] [dh, dw] (kernel_pads padding [h, w] eks [sh, sw]) (kernel_outs padding [h, w] eks [sh, sw]) x f b \<Longrightarrow>
     declares tys [r] \<Longrightarrow>
     sem ''tfl.depthwise_conv_2d'' (conv2d_attributes (int dh) (int dw) padding (int sh) (int sw) @ [(''depth_multiplier'', IntAttr (int dm))])
       tys [x, f, b] = [r]"
    and conv_3d:
    "wf_tensor x \<Longrightarrow> wf_tensor f \<Longrightarrow> wf_tensor b \<Longrightarrow> tshape x = n # ds @ [c] \<Longrightarrow> tshape f = ks @ [c, m] \<Longrightarrow> tshape b = [m] \<Longrightarrow>
     length ds = 3 \<Longrightarrow> length ks = 3 \<Longrightarrow> length ss = 3 \<Longrightarrow> length dl = 3 \<Longrightarrow> (\<forall>k\<in>set ks. 0 < k) \<Longrightarrow> (\<forall>d\<in>set dl. 0 < d) \<Longrightarrow>
     eks = map2 eff_kernel ks dl \<Longrightarrow> kernel_ok padding ds eks ss \<Longrightarrow>
     r = filter_last_conv acc ss dl (kernel_pads padding ds eks ss) (kernel_outs padding ds eks ss) x f b \<Longrightarrow> declares tys [r] \<Longrightarrow>
     sem ''tfl.conv_3d'' (conv3d_attributes (map int dl) padding (map int ss)) tys [x, f, b] = [r]"

end
