(* ===== verification/TFL_Reference.thy ===== *)
theory TFL_Reference
  imports TFL_Compute Convolution
begin

text \<open>
  An executable semantics of the TFL operations that satisfies every interface of
  \<^verbatim>\<open>TFL_Runtime\<close>: each locale is interpreted on it, so the hypotheses of the lowering theorems
  can hold together, and the witnesses evaluate with it.
\<close>

definition ints_of :: "'f scalar tensor \<Rightarrow> int list" where
  "ints_of t = map (\<lambda>s. case s of IV v \<Rightarrow> v | _ \<Rightarrow> 0) (tdata t)"

definition nats_of :: "'f scalar tensor \<Rightarrow> nat list" where
  "nats_of t = map nat (ints_of t)"

fun evens :: "'a list \<Rightarrow> 'a list" where
  "evens (x # y # xs) = x # evens xs"
| "evens xs = xs"

fun odds :: "'a list \<Rightarrow> 'a list" where
  "odds (x # y # xs) = y # odds xs"
| "odds xs = []"

definition int_attr :: "string \<Rightarrow> (string \<times> 'f attr) list \<Rightarrow> int" where
  "int_attr nm attrs = (case map_of attrs nm of Some (IntAttr v) \<Rightarrow> v | _ \<Rightarrow> 0)"

lemma ints_of_i32_vec [simp]: "ints_of (i32_vec vs) = vs"
  by (simp add: ints_of_def i32_vec_def comp_def)

lemma nats_of_i32_vec [simp]: "nats_of (i32_vec vs) = map nat vs"
  by (simp add: nats_of_def)

lemma map_nat_int [simp]: "map (nat \<circ> int) ns = ns"
  by (simp add: comp_def)

lemma nats_of_i32_scalar [simp]: "nats_of (i32_scalar v) = [nat v]"
  by (simp add: nats_of_def ints_of_def i32_scalar_def)

lemma evens_odds_interleave:
  "length xs = length ys \<Longrightarrow> evens (interleave xs ys) = xs \<and> odds (interleave xs ys) = ys"
  by (induction xs ys rule: list_induct2) auto

lemma nats_of_pad_matrix [simp]: "nats_of (pad_matrix xs ys) = interleave xs ys"
  by (simp add: nats_of_def ints_of_def pad_matrix_def comp_def)

text \<open>The operations that only move elements.\<close>

definition ref_layout :: "'f sem \<Rightarrow> 'f sem" where
  "ref_layout other nm attrs tys xs =
     (let x = hd xs; arg = (\<lambda>k. nats_of (xs ! k)) in
      if nm = ''tfl.transpose'' then [ttranspose (arg 1) x]
      else if nm = ''tfl.reshape'' then [treshape (arg 1) x]
      else if nm = ''tfl.slice'' then [tslice (arg 1) (arg 2) (replicate (trank x) 1) x]
      else if nm = ''tfl.strided_slice'' then
        [tslice (arg 1) (map (\<lambda>k. strided_count (arg 1 ! k) (arg 2 ! k) (arg 3 ! k)) [0..<trank x])
           (arg 3) x]
      else if nm = ''tfl.reverse_v2'' then [treverse (hd (arg 1)) x]
      else if nm = ''tfl.concatenation'' then [tconcat (nat (int_attr ''axis'' attrs)) xs]
      else if nm = ''tfl.split_v'' then tsplit (hd (arg 2)) (arg 1) x
      else if nm = ''tfl.tile'' then [ttile (arg 1) x]
      else if nm = ''tfl.padv2'' then
        [tpad (evens (arg 1)) (odds (arg 1)) (hd (tdata (xs ! 2))) x]
      else if nm = ''tfl.mirror_pad'' then [tpad_reflect (evens (arg 1)) (odds (arg 1)) x]
      else other nm attrs tys xs)"

text \<open>
  The operations that compute, on integers: floor and casts are exact there, and the comparisons
  are those of the integers.
\<close>

definition bool_attr :: "string \<Rightarrow> (string \<times> 'f attr) list \<Rightarrow> bool" where
  "bool_attr nm attrs = (case map_of attrs nm of Some (BoolAttr b) \<Rightarrow> b | _ \<Rightarrow> False)"

definition int_of :: "int scalar \<Rightarrow> int" where
  "int_of s = (case s of FV v \<Rightarrow> v | IV v \<Rightarrow> v | BV b \<Rightarrow> (if b then 1 else 0))"

definition ref_arith :: "(int \<Rightarrow> int \<Rightarrow> int) \<Rightarrow> int scalar \<Rightarrow> int scalar \<Rightarrow> int scalar" where
  "ref_arith f x y = (case (x, y) of (IV a, IV b) \<Rightarrow> IV (f a b) | _ \<Rightarrow> FV (f (int_of x) (int_of y)))"

definition ref_compare :: "(int \<Rightarrow> int \<Rightarrow> bool) \<Rightarrow> int scalar \<Rightarrow> int scalar \<Rightarrow> int scalar" where
  "ref_compare f x y = BV (f (int_of x) (int_of y))"

definition is_float :: "'f scalar \<Rightarrow> bool" where
  "is_float s \<longleftrightarrow> (case s of FV _ \<Rightarrow> True | _ \<Rightarrow> False)"

definition ref_un :: "(int \<Rightarrow> int) \<Rightarrow> int scalar \<Rightarrow> int scalar" where
  "ref_un f x = (case x of IV a \<Rightarrow> IV (f a) | _ \<Rightarrow> FV (f (int_of x)))"

definition ref_not :: "int scalar \<Rightarrow> int scalar" where
  "ref_not x = BV (\<not> is_true x)"

definition ref_conv :: "elt \<Rightarrow> int scalar \<Rightarrow> int scalar" where
  "ref_conv e x = (case e of FloatT _ \<Rightarrow> FV (int_of x)
     | IntT _ w \<Rightarrow> (if w = 1 then BV (int_of x \<noteq> 0) else IV (int_of x)) | _ \<Rightarrow> x)"

definition ref_sum :: "int scalar list \<Rightarrow> int scalar" where
  "ref_sum xs = FV (sum_list (map int_of xs))"

definition ref_mean :: "int scalar list \<Rightarrow> int scalar" where
  "ref_mean xs = FV (sum_list (map int_of xs) div int (length xs))"

definition ref_max :: "int scalar list \<Rightarrow> int scalar" where
  "ref_max xs = FV (fold max (map int_of xs) 0)"

definition ref_softmax :: "int scalar list \<Rightarrow> int scalar list" where
  "ref_softmax xs = map (\<lambda>x. FV (100 * int_of x div (1 + sum_list (map int_of xs)))) xs"

definition ref_greater :: "int scalar \<Rightarrow> int scalar \<Rightarrow> bool" where
  "ref_greater x y \<longleftrightarrow> int_of y < int_of x"

definition ref_less :: "int scalar \<Rightarrow> int scalar \<Rightarrow> bool" where
  "ref_less x y \<longleftrightarrow> int_of x < int_of y"

definition ref_dot :: "int scalar list \<Rightarrow> int scalar list \<Rightarrow> int scalar" where
  "ref_dot xs ys = FV (sum_list (map2 (\<lambda>x y. int_of x * int_of y) xs ys))"

text \<open>The stand-ins for the logarithm and the arcus tangens only have to be functions.\<close>

definition ref_log :: "int \<Rightarrow> int" where
  "ref_log v = v - 1"

definition ref_prelu :: "int scalar \<Rightarrow> int scalar \<Rightarrow> int scalar" where
  "ref_prelu x s = (if int_of x < 0 then FV (int_of x * int_of s) else x)"

definition ref_and :: "int scalar \<Rightarrow> int scalar \<Rightarrow> int scalar" where
  "ref_and x y = BV (is_true x \<and> is_true y)"

definition ref_exp :: "int \<Rightarrow> int" where
  "ref_exp v = 2 ^ nat v"

definition ref_order :: "int scalar list \<Rightarrow> nat list" where
  "ref_order xs = sort_key (\<lambda>i. - int_of (xs ! i)) [0..<length xs]"

text \<open>The order in which the patterns list the attributes of the two pooling operations.\<close>

definition max_pool_attributes :: "string \<Rightarrow> int \<Rightarrow> int \<Rightarrow> int \<Rightarrow> int \<Rightarrow> (string \<times> 'f attr) list" where
  "max_pool_attributes padding kh kw sh sw =
     [(''padding'', StrAttr padding), (''stride_w'', IntAttr sw), (''stride_h'', IntAttr sh),
      (''filter_width'', IntAttr kw), (''filter_height'', IntAttr kh), getFusedActivationNone]"

definition average_pool_attributes :: "string \<Rightarrow> int \<Rightarrow> int \<Rightarrow> int \<Rightarrow> int \<Rightarrow> (string \<times> 'f attr) list" where
  "average_pool_attributes padding kh kw sh sw =
     [(''filter_height'', IntAttr kh), (''filter_width'', IntAttr kw), (''padding'', StrAttr padding),
      (''stride_h'', IntAttr sh), (''stride_w'', IntAttr sw), getFusedActivationNone]"

definition ref_pool :: "(int scalar list \<Rightarrow> int scalar) \<Rightarrow> (string \<times> int attr) list \<Rightarrow> int scalar tensor \<Rightarrow> int scalar tensor" where
  "ref_pool red attrs x =
     (let kh = nat (int_attr ''filter_height'' attrs); kw = nat (int_attr ''filter_width'' attrs);
          sh = nat (int_attr ''stride_h'' attrs); sw = nat (int_attr ''stride_w'' attrs); h = tshape x ! 1; w = tshape x ! 2 in
      if map_of attrs ''padding'' = Some (StrAttr ''VALID'')
      then nhwc_pool (red \<circ> somes) [kh, kw] [sh, sw] [0, 0] [valid_out h kh sh, valid_out w kw sw] x
      else nhwc_pool (red \<circ> somes) [kh, kw] [sh, sw] [same_pad h kh sh, same_pad w kw sw] [same_out h sh, same_out w sw] x)"

definition float_attr :: "string \<Rightarrow> (string \<times> int attr) list \<Rightarrow> int" where
  "float_attr nm attrs = (case map_of attrs nm of Some (FloatAttr v) \<Rightarrow> v | _ \<Rightarrow> 0)"

definition ref_norm :: "int \<Rightarrow> int \<Rightarrow> int \<Rightarrow> int scalar \<Rightarrow> int scalar list \<Rightarrow> int scalar" where
  "ref_norm bias alpha beta x xs =
     FV (100 * int_of x div (bias + alpha * sum_list (map (\<lambda>y. int_of y * int_of y) xs)) ^ nat beta)"

definition ref_sqrt :: "int \<Rightarrow> int" where
  "ref_sqrt v = int (last (0 # filter (\<lambda>k. int (k * k) \<le> v) [0..<Suc (nat v)]))"

definition ref_rsqrt :: "int \<Rightarrow> int" where
  "ref_rsqrt v = 1000 div (1 + ref_sqrt v)"

text \<open>Convolutions take everything but the placement of their windows from the shapes of their operands.\<close>

definition ref_acc :: "int scalar \<Rightarrow> (int scalar \<times> int scalar) list \<Rightarrow> int scalar" where
  "ref_acc b ps = FV (int_of b + sum_list (map (\<lambda>(x, w). int_of x * int_of w) ps))"

definition ref_windows ::
  "(nat list \<Rightarrow> nat list \<Rightarrow> nat list \<Rightarrow> nat list \<Rightarrow> 'a) \<Rightarrow> string list \<Rightarrow> string list \<Rightarrow> (string \<times> int attr) list \<Rightarrow> nat list \<Rightarrow> nat list \<Rightarrow> 'a" where
  "ref_windows conv strides dilations attrs ds ks =
     (let ss = map (\<lambda>n. nat (int_attr n attrs)) strides; dl = map (\<lambda>n. nat (int_attr n attrs)) dilations; eks = map2 eff_kernel ks dl;
          padding = (if map_of attrs ''padding'' = Some (StrAttr ''SAME'') then ''SAME'' else ''VALID'') in
      conv ss dl (kernel_pads padding ds eks ss) (kernel_outs padding ds eks ss))"

definition ref_conv2d ::
  "(nat list \<Rightarrow> nat list \<Rightarrow> nat list \<Rightarrow> nat list \<Rightarrow> 'a) \<Rightarrow> (string \<times> int attr) list \<Rightarrow> nat list \<Rightarrow> nat list \<Rightarrow> 'a" where
  "ref_conv2d conv = ref_windows conv [''stride_h'', ''stride_w''] [''dilation_h_factor'', ''dilation_w_factor'']"

definition ref_conv3d ::
  "(nat list \<Rightarrow> nat list \<Rightarrow> nat list \<Rightarrow> nat list \<Rightarrow> 'a) \<Rightarrow> (string \<times> int attr) list \<Rightarrow> nat list \<Rightarrow> nat list \<Rightarrow> 'a" where
  "ref_conv3d conv = ref_windows conv [''stride_d'', ''stride_h'', ''stride_w''] [''dilation_d_factor'', ''dilation_h_factor'', ''dilation_w_factor'']"

definition ref_compute :: "int sem" where
  "ref_compute nm attrs tys xs =
     (let x = hd xs; y = xs ! 1; arg = (\<lambda>k. nats_of (xs ! k)) in
      if nm = ''tfl.broadcast_to'' then [tbroadcast (arg 1) x]
      else if nm = ''tfl.add'' then [tmap2 (ref_arith (+)) x y]
      else if nm = ''tfl.sub'' then [tmap2 (ref_arith (-)) x y]
      else if nm = ''tfl.mul'' then [tmap2 (ref_arith (*)) x y]
      else if nm = ''tfl.div'' then [tmap2 (ref_arith (div)) x y]
      else if nm = ''tfl.floor_mod'' then [tmap2 (ref_arith (mod)) x y]
      else if nm = ''tfl.pow'' then [tmap2 (ref_arith (\<lambda>a b. a ^ nat b)) x y]
      else if nm = ''tfl.maximum'' then [tmap2 (ref_arith max) x y]
      else if nm = ''tfl.minimum'' then [tmap2 (ref_arith min) x y]
      else if nm = ''tfl.less'' then [tmap2 (ref_compare (<)) x y]
      else if nm = ''tfl.greater'' then [tmap2 (ref_compare (>)) x y]
      else if nm = ''tfl.not_equal'' then [tmap2 (ref_compare (\<noteq>)) x y]
      else if nm = ''tfl.neg'' then [tmap (ref_un uminus) x]
      else if nm = ''tfl.abs'' then [tmap (ref_un abs) x]
      else if nm = ''tfl.exp'' then [tmap (ref_un ref_exp) x]
      else if nm = ''tfl.ceil'' then [tmap (ref_un id) x]
      else if nm = ''tfl.elu'' then [tmap (ref_un (max 0)) x]
      else if nm = ''tfl.logical_not'' then [tmap ref_not x]
      else if nm = ''tfl.select_v2'' then [tselect is_true x y (xs ! 2)]
      else if nm = ''tfl.cast'' then
        [tmap (ref_conv (case hd tys of RankedTensor sh e \<Rightarrow> e | _ \<Rightarrow> OtherElt)) x]
      else if nm = ''tfl.sum'' then [treduce ref_sum (axis_mask (trank x) (arg 1)) (bool_attr ''keep_dims'' attrs) x]
      else if nm = ''tfl.mean'' then [treduce ref_mean (axis_mask (trank x) (arg 1)) (bool_attr ''keep_dims'' attrs) x]
      else if nm = ''tfl.reduce_max'' then [treduce ref_max (axis_mask (trank x) (arg 1)) (bool_attr ''keep_dims'' attrs) x]
      else if nm = ''tfl.softmax'' then [talong (trank x - 1) ref_softmax x]
      else if nm = ''tfl.arg_max'' then [trows (hd (arg 1)) (\<lambda>zs. IV (int (arg_first ref_greater zs))) x]
      else if nm = ''tfl.arg_min'' then [trows (hd (arg 1)) (\<lambda>zs. IV (int (arg_first ref_less zs))) x]
      else if nm = ''tfl.one_hot'' then
        [tone_hot (nat (int_attr ''axis'' attrs)) (hd (arg 1)) (hd (tdata (xs ! 2))) (hd (tdata (xs ! 3))) x]
      else if nm = ''tfl.batch_matmul'' then
        [tmatmul ref_dot (bool_attr ''adj_x'' attrs) (bool_attr ''adj_y'' attrs) x y]
      else if nm = ''tfl.depth_to_space'' then [nhwc_d2s (nat (int_attr ''block_size'' attrs)) x]
      else if nm = ''tfl.space_to_depth'' then [nhwc_s2d (nat (int_attr ''block_size'' attrs)) x]
      else if nm = ''tfl.gather'' then [tgather (nat (int_attr ''axis'' attrs)) x (tmap (\<lambda>s. nat (int_of s)) y)]
      else if nm = ''tfl.topk_v2'' then
        [ttopk (trank x - 1) (hd (arg 1)) ref_order (\<lambda>zs i. zs ! i) x,
         ttopk (trank x - 1) (hd (arg 1)) ref_order (\<lambda>zs i. IV (int i)) x]
      else if nm = ''tfl.gather_nd'' then [tgather_nd x (tmap (\<lambda>s. nat (int_of s)) y)]
      else if nm = ''tfl.scatter_nd'' then
        [tscatter_nd (ref_arith (+)) (tmap (\<lambda>s. nat (int_of s)) x) y (tconst (arg 2) (FV 0))]
      else if nm = ''tfl.pad'' then [tpad (evens (arg 1)) (odds (arg 1)) (FV 0) x]
      else if nm = ''tfl.max_pool_2d'' then [ref_pool ref_max attrs x]
      else if nm = ''tfl.average_pool_2d'' then [ref_pool ref_mean attrs x]
      else if nm = ''tfl.local_response_normalization'' then
        [talong 3 (lrn_row (nat (int_attr ''radius'' attrs))
           (ref_norm (float_attr ''bias'' attrs) (float_attr ''alpha'' attrs) (float_attr ''beta'' attrs))) x]
      else if nm = ''tfl.sqrt'' then [tmap (ref_un ref_sqrt) x]
      else if nm = ''tfl.pseudo_const'' then
        [case map_of attrs ''value'' of Some (ElementsAttr ty vs) \<Rightarrow> Tensor (dims ty) (map IV vs) | _ \<Rightarrow> Tensor [] []]
      else if nm = ''tfl.rsqrt'' then [tmap (ref_un ref_rsqrt) x]
      else if nm = ''tfl.log'' then [tmap (ref_un ref_log) x]
      else if nm = ''tfl.sign'' then [tmap (ref_un sgn) x]
      else if nm = ''tfl.atan2'' then [tmap2 (ref_arith (-)) x y]
      else if nm = ''tfl.fill'' then [tconst (arg 0) (hd (tdata y))]
      else if nm = ''tfl.prelu'' then [tmap2 ref_prelu x y]
      else if nm = ''tfl.logical_and'' then [tmap2 ref_and x y]
      else if nm = ''tfl.conv_2d'' then
        [ref_conv2d (\<lambda>ss dl ps outs. last_conv ref_acc 1 ss dl ps outs x y (xs ! 2)) attrs (inner (tshape x)) (inner (tshape y))]
      else if nm = ''tfl.depthwise_conv_2d'' then
        [ref_conv2d (\<lambda>ss dl ps outs. depthwise_conv ref_acc (nat (int_attr ''depth_multiplier'' attrs)) ss dl ps outs x y (xs ! 2))
          attrs (inner (tshape x)) (inner (tshape y))]
      else if nm = ''tfl.conv_3d'' then
        [ref_conv3d (\<lambda>ss dl ps outs. filter_last_conv ref_acc ss dl ps outs x y (xs ! 2)) attrs (inner (tshape x)) (take 3 (tshape y))]
      else [])"

definition reference_sem :: "int sem" where
  "reference_sem = ref_layout ref_compute"

lemmas reference_defs = reference_sem_def ref_layout_def ref_compute_def Let_def int_attr_def bool_attr_def
  evens_odds_interleave

interpretation reference: tfl_assembly reference_sem
  by unfold_locales (simp_all add: reference_defs)

interpretation reference_broadcast: tfl_broadcast reference_sem
  by unfold_locales (simp add: reference_defs)

interpretation reference_add: tfl_binary reference_sem "''tfl.add''" "[getFusedActivationNone]" "ref_arith (+)" 5
  by unfold_locales (simp add: reference_defs)

interpretation reference_sub: tfl_binary reference_sem "''tfl.sub''" "[getFusedActivationNone]" "ref_arith (-)" 5
  by unfold_locales (simp add: reference_defs)

interpretation reference_mul: tfl_binary reference_sem "''tfl.mul''" "[getFusedActivationNone]" "ref_arith (*)" 5
  by unfold_locales (simp add: reference_defs)

interpretation reference_div: tfl_binary reference_sem "''tfl.div''" "[getFusedActivationNone]" "ref_arith (div)" 5
  by unfold_locales (simp add: reference_defs)

interpretation reference_floor_mod: tfl_binary reference_sem "''tfl.floor_mod''" "[]" "ref_arith (mod)" 4
  by unfold_locales (simp add: reference_defs)

interpretation reference_pow: tfl_binary reference_sem "''tfl.pow''" "[]" "ref_arith (\<lambda>a b. a ^ nat b)" 4
  by unfold_locales (simp add: reference_defs)

interpretation reference_maximum: tfl_binary reference_sem "''tfl.maximum''" "[]" "ref_arith max" 5
  by unfold_locales (simp add: reference_defs)

interpretation reference_minimum: tfl_binary reference_sem "''tfl.minimum''" "[]" "ref_arith min" 5
  by unfold_locales (simp add: reference_defs)

interpretation reference_arith: tfl_arith reference_sem "ref_arith (+)" "ref_arith (-)" "ref_arith (*)"
    "ref_arith (div)" "ref_arith max" "ref_arith min"
  by unfold_locales

interpretation reference_less: tfl_binary reference_sem "''tfl.less''" "[]" "ref_compare (<)" 4
  by unfold_locales (simp add: reference_defs)

interpretation reference_greater: tfl_binary reference_sem "''tfl.greater''" "[]" "ref_compare (>)" 4
  by unfold_locales (simp add: reference_defs)

interpretation reference_not_equal: tfl_binary reference_sem "''tfl.not_equal''" "[]" "ref_compare (\<noteq>)" 4
  by unfold_locales (simp add: reference_defs)

interpretation reference_neg: tfl_unary reference_sem "''tfl.neg''" "[]" "ref_un uminus"
  by unfold_locales (simp add: reference_defs)

interpretation reference_exp: tfl_unary reference_sem "''tfl.exp''" "[]" "ref_un ref_exp"
  by unfold_locales (simp add: reference_defs)

interpretation reference_ceil: tfl_unary reference_sem "''tfl.ceil''" "[]" "ref_un id"
  by unfold_locales (simp add: reference_defs)

interpretation reference_elu: tfl_unary reference_sem "''tfl.elu''" "[]" "ref_un (max 0)"
  by unfold_locales (simp add: reference_defs)

interpretation reference_not: tfl_unary reference_sem "''tfl.logical_not''" "[]" ref_not
  by unfold_locales (simp add: reference_defs)

interpretation reference_select: tfl_select reference_sem
  by unfold_locales (simp add: reference_defs)

interpretation reference_mod: tfl_mod reference_sem "ref_arith (mod)" "ref_compare (\<noteq>)" "ref_compare (<)" "ref_arith (-)"
  by unfold_locales

interpretation reference_cast: tfl_cast reference_sem ref_conv
  by unfold_locales (simp add: reference_defs)

interpretation reference_sum: tfl_reduce reference_sem "''tfl.sum''" ref_sum
  by unfold_locales (simp add: reference_defs)

interpretation reference_mean: tfl_reduce reference_sem "''tfl.mean''" ref_mean
  by unfold_locales (simp add: reference_defs)

interpretation reference_max: tfl_reduce reference_sem "''tfl.reduce_max''" ref_max
  by unfold_locales (simp add: reference_defs)

interpretation reference_softmax: tfl_softmax reference_sem 1 ref_softmax
  by unfold_locales (simp add: reference_defs)

lemma best_key_exists:
  fixes key :: "'a \<Rightarrow> int" assumes "xs \<noteq> []"
  shows "best (\<lambda>x y. key y < key x) xs \<noteq> []"
proof -
  let ?m = "Max (key ` set xs)"
  have "?m \<in> key ` set xs" using assms by (intro Max_in) auto
  then obtain i where i: "i < length xs" "key (xs ! i) = ?m" by (metis imageE in_set_conv_nth)
  have "\<not> (\<exists>y\<in>set xs. key (xs ! i) < key y)"
    unfolding i(2) by (auto simp: not_less)
  with i(1) show ?thesis by (auto simp: best_def filter_empty_conv intro!: bexI [of _ i])
qed

interpretation reference_arg_max: tfl_arg reference_sem "''tfl.arg_max''" ref_greater
  using best_key_exists [where key = int_of]
  by unfold_locales (simp_all add: reference_defs ref_greater_def [abs_def])

interpretation reference_arg_min: tfl_arg reference_sem "''tfl.arg_min''" ref_less
  using best_key_exists [where key = "\<lambda>x. - int_of x"]
  by unfold_locales (simp_all add: reference_defs ref_less_def [abs_def])

interpretation reference_one_hot: tfl_one_hot reference_sem
  by unfold_locales (simp add: reference_defs)

interpretation reference_matmul: tfl_matmul reference_sem ref_dot
  by unfold_locales (simp add: reference_defs)

interpretation reference_space: tfl_space reference_sem
  by unfold_locales (simp_all add: reference_defs)

interpretation reference_gather: tfl_gather reference_sem
  by unfold_locales (simp add: reference_defs tmap_def int_of_def comp_def)

interpretation reference_topk: tfl_topk reference_sem ref_order
  by unfold_locales (simp_all add: reference_defs ref_order_def atLeast0LessThan)

lemma tmap_nat_int_of [simp]: "tmap (\<lambda>s. nat (int_of s)) (tmap (\<lambda>i. IV (int i)) ix) = ix"
  by (simp add: tmap_def int_of_def comp_def)

interpretation reference_gather_nd: tfl_gather_nd reference_sem
  by unfold_locales (simp add: reference_defs)

interpretation reference_scatter_nd: tfl_scatter_nd reference_sem "ref_arith (+)" "FV 0"
  by unfold_locales (simp add: reference_defs)

interpretation reference_pad: tfl_zero_pad reference_sem "FV 0"
  by unfold_locales (simp add: reference_defs)

interpretation reference_max_pool: tfl_pool reference_sem "''tfl.max_pool_2d''" max_pool_attributes ref_max
  by unfold_locales (simp_all add: reference_defs ref_pool_def max_pool_attributes_def)

interpretation reference_average_pool: tfl_pool reference_sem "''tfl.average_pool_2d''" average_pool_attributes ref_mean
  by unfold_locales (simp_all add: reference_defs ref_pool_def average_pool_attributes_def)

interpretation reference_lrn: tfl_lrn reference_sem ref_norm
  by unfold_locales (simp add: reference_defs float_attr_def)

interpretation reference_pseudo_const: tfl_pseudo_const reference_sem
  by unfold_locales (simp add: reference_defs)

interpretation reference_sqrt: tfl_unary reference_sem "''tfl.sqrt''" "[]" "ref_un ref_sqrt"
  by unfold_locales (simp add: reference_defs)

interpretation reference_conv: tfl_conv reference_sem "FV 0" ref_acc
proof unfold_locales
  show "reference_sem ''tfl.conv_3d'' (conv3d_attributes (map int dl) padding (map int ss)) tys [x, f, b] = [r]"
    if x: "tshape x = n # ds @ [c]" and f: "tshape f = ks @ [c, m]" and l: "length ks = 3" "length ss = 3" "length dl = 3"
      and eks: "eks = map2 eff_kernel ks dl" and ok: "kernel_ok padding ds eks ss"
      and r: "r = filter_last_conv ref_acc ss dl (kernel_pads padding ds eks ss) (kernel_outs padding ds eks ss) x f b"
    for x f b n ds c ks m ss dl eks padding r tys
  proof -
    have "map nat (map int xs) = xs" for xs by (simp add: comp_def)
    obtain s0 s1 s2 d0 d1 d2 where "ss = [s0, s1, s2]" "dl = [d0, d1, d2]" using l by (auto simp: length_Suc_conv numeral_3_eq_3)
    moreover have "padding = ''SAME'' \<or> padding = ''VALID''" using ok by (auto simp: kernel_ok_def)
    ultimately show ?thesis using l(1)
      by (auto simp: reference_defs ref_conv3d_def ref_windows_def conv3d_attributes_def getFusedActivationNone_def inner_def x f eks r)
  qed
qed (auto simp: reference_defs ref_conv2d_def ref_windows_def conv2d_attributes_def getFusedActivationNone_def kernel_ok_def inner_def)

lemma ref_acc_ignores: "ignores ref_acc (FV 0) num"
  by (simp add: ignores_def ref_acc_def int_of_def)

text \<open>The tensor of the witnesses: one image of two channels, height 2 and width 3.\<close>

definition nchw_example :: "int scalar tensor" where
  "nchw_example = Tensor [1, 2, 2, 3] (map FV [1..12])"

lemma nchw_example_shape [simp]: "tshape nchw_example = [1, 2, 2, 3]"
  and nchw_example_wf [simp]: "wf_tensor nchw_example"
  by (simp_all add: nchw_example_def wf_tensor_def)

lemmas example_simps = conforms_Ranked phys_def i32_dims_def permute_def
  reference.tfl_layout_axioms reference.tfl_slicing_axioms reference.tfl_assembly_axioms

end
