(* ===== verification/Lower_Transpose.thy ===== *)
theory Lower_Transpose
  imports TFL_Reference
begin

text \<open>
  Model of \<^verbatim>\<open>Tensor/Transpose.cpp\<close>. A rank-4 f32 transpose is rewritten into the permutation
  between the two NHWC representations; a transpose of rank above 5 is reduced to rank 5 by
  removing singleton axes between two reshapes.
\<close>

section \<open>The pattern\<close>

datatype perm_attr = NoPerm | ArrayPerm "int list" | DensePerm "int list"

record 'f transpose_op =
  trn_data :: "'f operand"
  trn_perm :: perm_attr
  trn_result :: mtype

definition transpose_element_ok :: "elt \<Rightarrow> bool" where
  "transpose_element_ok e \<longleftrightarrow>
     isF32 e \<or> isInteger 1 e \<or> isSignlessInteger 32 e \<or> isSignlessInteger 64 e"

definition read_permutation :: "int \<Rightarrow> perm_attr \<Rightarrow> int list" where
  "read_permutation rank attr =
     (case attr of ArrayPerm vs \<Rightarrow> vs | DensePerm vs \<Rightarrow> vs | NoPerm \<Rightarrow> rev [0..rank - 1])"

fun check_permutation :: "int \<Rightarrow> bool list \<Rightarrow> int list \<Rightarrow> bool" where
  "check_permutation rank seen [] \<longleftrightarrow> True"
| "check_permutation rank seen (axis # rest) \<longleftrightarrow>
     (if axis < 0 \<or> rank \<le> axis \<or> seen ! nat axis then False
      else check_permutation rank (seen[nat axis := True]) rest)"

text \<open>The loop that marks the first \<open>axesToDrop\<close> singleton axes, and what is left to drop.\<close>

fun mark_dropped :: "int list \<Rightarrow> int \<Rightarrow> bool list \<times> int" where
  "mark_dropped [] axesToDrop = ([], axesToDrop)"
| "mark_dropped (dim # shape) axesToDrop =
     (if 0 < axesToDrop \<and> dim = 1
      then (case mark_dropped shape (axesToDrop - 1) of (ds, r) \<Rightarrow> (True # ds, r))
      else (case mark_dropped shape axesToDrop of (ds, r) \<Rightarrow> (False # ds, r)))"

fun old_to_reduced :: "bool list \<Rightarrow> int \<Rightarrow> int list" where
  "old_to_reduced [] n = []"
| "old_to_reduced (d # dropped) n =
     (if d then -1 # old_to_reduced dropped n else n # old_to_reduced dropped (n + 1))"

definition emit_reduced_transpose ::
  "bool list \<Rightarrow> int list \<Rightarrow> int list \<Rightarrow> int list \<Rightarrow> elt \<Rightarrow> 'f val \<Rightarrow> 'f val" where
  "emit_reduced_transpose dropped permutation inShape outShape e data =
     (let oldToReduced = old_to_reduced dropped 0;
          reducedInputShape = not_dropped dropped inShape;
          outDropped = map (\<lambda>a. dropped ! nat a) permutation;
          reducedOutputShape = not_dropped outDropped outShape;
          reducedPermutation = map (\<lambda>a. oldToReduced ! nat a) (not_dropped outDropped permutation);
          reducedInput = emitReshape (RankedTensor reducedInputShape e) reducedInputShape data;
          reducedResult = createTFLOperation ''tfl.transpose'' [RankedTensor reducedOutputShape e]
            [reducedInput, createI32ShapeConstant reducedPermutation] [] 0
      in emitReshape (RankedTensor outShape e) outShape reducedResult)"

definition physical_permutation :: "int list \<Rightarrow> int list" where
  "physical_permutation permutation =
     map (\<lambda>axis. mapNCHWAxisToNHWC (permutation ! nat axis)) [0, 2, 3, 1]"

definition lower_transpose :: "'f transpose_op \<Rightarrow> 'f val result" where
  "lower_transpose op =
     (let data = adaptor 0 (trn_data op) in
      case (oty (trn_data op), trn_result op) of
        (RankedTensor inShape inElt, RankedTensor outShape outElt) \<Rightarrow>
          if \<not> hasStaticShape inShape \<or> \<not> hasStaticShape outShape \<or> inElt \<noteq> outElt \<or>
             \<not> transpose_element_ok inElt then Inl BadTypes
          else
            let rank = getRank inShape; permutation = read_permutation rank (trn_perm op) in
            if int (length permutation) \<noteq> rank then Inl BadRank
            else if \<not> check_permutation rank (replicate (nat rank) False) permutation
              then Inl BadPermutation
            else if 5 < rank then
              (case mark_dropped inShape (rank - 5) of (dropped, axesToDrop) \<Rightarrow>
                 if axesToDrop \<noteq> 0 then Inl NoRankReduction
                 else Inr (emit_reduced_transpose dropped permutation inShape outShape inElt data))
            else
              let permutation' =
                (if rank = 4 \<and> isF32 inElt then physical_permutation permutation else permutation) in
              Inr (createTFLOperation ''tfl.transpose''
                [convertRank4NCHWToNHWCType (RankedTensor outShape outElt)]
                [data, createI32ShapeConstant permutation'] [] 0)
      | _ \<Rightarrow> Inl BadTypes)"

text \<open>What ONNX defines: the permutation attribute, or the reversal of the axes without one.\<close>

definition onnx_transpose :: "perm_attr \<Rightarrow> 'a tensor \<Rightarrow> 'a tensor" where
  "onnx_transpose attr t =
     ttranspose (case attr of ArrayPerm vs \<Rightarrow> map nat vs | DensePerm vs \<Rightarrow> map nat vs
                 | NoPerm \<Rightarrow> rev [0..<trank t]) t"

section \<open>The permutation check\<close>

lemma check_permutation_iff:
  assumes "length seen = nat rank"
  shows "check_permutation rank seen p \<longleftrightarrow>
    distinct p \<and> (\<forall>a\<in>set p. 0 \<le> a \<and> a < rank \<and> \<not> seen ! nat a)"
  using assms
proof (induction p arbitrary: seen)
  case (Cons a p)
  show ?case
  proof (cases "a < 0 \<or> rank \<le> a \<or> seen ! nat a")
    case False
    then have "nat a < length seen" using Cons.prems by simp
    then have upd: "\<forall>b\<ge>0. seen[nat a := True] ! nat b \<longleftrightarrow> b = a \<or> seen ! nat b"
      using False by (auto simp: nth_list_update)
    from False Cons show ?thesis by (auto simp: upd)
  qed auto
qed simp

lemma check_permutation_is_perm:
  assumes "int (length p) = rank" and "check_permutation rank (replicate (nat rank) False) p"
  shows "is_perm (map nat p) (length p)" and "p = map int (map nat p)"
proof -
  have c: "distinct p" "\<forall>a\<in>set p. 0 \<le> a \<and> a < rank"
    using assms(2) by (subst (asm) check_permutation_iff; auto)+
  then have "inj_on nat (set p)" by (intro inj_onI) (metis eq_nat_nat_iff)
  with c assms(1) show "is_perm (map nat p) (length p)"
    by (auto simp: is_perm_def distinct_map nat_less_iff)
  show "p = map int (map nat p)" using c(2) by (simp add: comp_def map_idI)
qed

section \<open>Removing singleton axes\<close>

lemma length_mark_dropped: "mark_dropped sh n = (ds, r) \<Longrightarrow> length ds = length sh"
  by (induction sh arbitrary: n ds r) (auto split: if_splits prod.splits)

lemma mark_dropped_singleton:
  "mark_dropped sh n = (ds, r) \<Longrightarrow> k < length sh \<Longrightarrow> ds ! k \<Longrightarrow> sh ! k = 1"
proof (induction sh arbitrary: n ds r k)
  case (Cons d sh)
  then show ?case by (cases k) (force split: if_splits prod.splits)+
qed simp

lemma mark_dropped_count:
  "mark_dropped sh n = (ds, r) \<Longrightarrow> int (length (filter id ds)) = n - r"
  by (induction sh arbitrary: n ds r) (auto split: if_splits prod.splits)

lemma mark_dropped_rest:
  "0 \<le> n \<Longrightarrow> snd (mark_dropped sh n) = max 0 (n - int (length (filter (\<lambda>d. d = 1) sh)))"
  by (induction sh arbitrary: n) (auto simp: case_prod_beta)

lemma length_old_to_reduced [simp]: "length (old_to_reduced ds n) = length ds"
  by (induction ds arbitrary: n) auto

lemma nth_old_to_reduced:
  "k < length ds \<Longrightarrow> \<not> ds ! k \<Longrightarrow> old_to_reduced ds n ! k = n + int (length (filter Not (take k ds)))"
proof (induction ds arbitrary: n k)
  case (Cons d ds)
  then show ?case by (cases k) auto
qed simp

definition new_axis :: "bool list \<Rightarrow> nat \<Rightarrow> nat" where
  "new_axis ds k = length (filter Not (take k ds))"

lemma nth_not_dropped:
  "k < length ds \<Longrightarrow> length xs = length ds \<Longrightarrow> \<not> ds ! k \<Longrightarrow>
   new_axis ds k < length (not_dropped ds xs) \<and> not_dropped ds xs ! new_axis ds k = xs ! k"
proof (induction ds arbitrary: xs k)
  case (Cons d ds)
  then obtain x ys where "xs = x # ys" by (cases xs) auto
  with Cons show ?case by (cases k) (auto simp: new_axis_def)
qed simp

lemma new_axis_mono:
  assumes "j < k" and "k < length ds" and "\<not> ds ! j" shows "new_axis ds j < new_axis ds k"
proof -
  have "take k ds = take j ds @ ds ! j # take (k - Suc j) (drop (Suc j) ds)"
    using assms id_take_nth_drop [of j "take k ds"] by (simp add: min_absorb1 drop_take)
  with assms show ?thesis by (simp add: new_axis_def)
qed

lemma new_axis_inj:
  assumes "j < length ds" "k < length ds" "\<not> ds ! j" "\<not> ds ! k" "new_axis ds j = new_axis ds k"
  shows "j = k"
  using assms new_axis_mono [of j k ds] new_axis_mono [of k j ds] by (metis nat_neq_iff)

text \<open>The reduced permutation acts on the kept axes as the permutation acts on all of them.\<close>

definition reduced_perm :: "bool list \<Rightarrow> nat list \<Rightarrow> nat list" where
  "reduced_perm ds p = map (new_axis ds) (filter (\<lambda>k. \<not> ds ! k) p)"

lemma permute_reduced:
  assumes p: "is_perm p (length ds)" and l: "length xs = length ds"
  shows "permute (reduced_perm ds p) (not_dropped ds xs) = not_dropped (permute p ds) (permute p xs)"
proof -
  have "not_dropped ds xs ! new_axis ds k = xs ! k" if "k \<in> set p" "\<not> ds ! k" for k
    using that p l nth_not_dropped [of k ds xs] by (auto simp: is_perm_def)
  then show ?thesis
    by (simp add: permute_def reduced_perm_def not_dropped_filter)
qed

lemma is_perm_reduced:
  assumes p: "is_perm p (length ds)" and l: "length ns = length ds"
  shows "is_perm (reduced_perm ds p) (length (not_dropped ds ns))"
proof -
  have kept: "k < length ds \<and> \<not> ds ! k" if "k \<in> set (filter (\<lambda>k. \<not> ds ! k) p)" for k
    using that p by (auto simp: is_perm_def)
  have "inj_on (new_axis ds) (set (filter (\<lambda>k. \<not> ds ! k) p))"
    using kept by (intro inj_onI) (blast intro: new_axis_inj)
  then have d: "distinct (reduced_perm ds p)"
    using p by (simp add: reduced_perm_def distinct_map) (simp add: is_perm_def)
  have b: "\<forall>j\<in>set (reduced_perm ds p). j < length (not_dropped ds ns)"
  proof
    fix j assume "j \<in> set (reduced_perm ds p)"
    then obtain k where "j = new_axis ds k" and "k \<in> set (filter (\<lambda>k. \<not> ds ! k) p)"
      by (auto simp: reduced_perm_def)
    then show "j < length (not_dropped ds ns)"
      using kept [of k] nth_not_dropped [of k ds ns] l by simp
  qed
  have "mset (permute p ds) = mset ds" using p by (intro mset_permute) simp_all
  then have "length (filter Not ds) = length (filter Not (permute p ds))"
    by (metis mset_filter size_mset)
  also have "\<dots> = length (reduced_perm ds p)"
    by (simp add: permute_def reduced_perm_def filter_map comp_def)
  finally have "length (reduced_perm ds p) = length (not_dropped ds ns)"
    using l by (simp add: length_not_dropped)
  with d b show ?thesis by (simp add: is_perm_def)
qed

lemma reduced_transpose:
  assumes wf: "wf_tensor t" and p: "is_perm p (trank t)" and ones: "drops_ones ds (tshape t)"
  shows "treshape (permute p (tshape t))
      (ttranspose (reduced_perm ds p) (treshape (not_dropped ds (tshape t)) t)) = ttranspose p t"
proof (rule tensor_transpose_eqI [OF p, symmetric])
  let ?ns = "tshape t" and ?rp = "reduced_perm ds p"
  let ?u = "treshape (not_dropped ds ?ns) t"
  have l: "length ds = trank t" using ones by (simp add: drops_ones_def)
  then have pl: "is_perm p (length ds)" using p by simp
  have rp: "is_perm ?rp (trank ?u)" using is_perm_reduced [OF pl l [symmetric]] by simp
  have po: "drops_ones (permute p ds) (permute p ?ns)" using ones p by (rule drops_ones_permute)
  have rs: "permute ?rp (not_dropped ds ?ns) = not_dropped (permute p ds) (permute p ?ns)"
    using p l by (intro permute_reduced) simp_all
  then show "wf_tensor (treshape (permute p ?ns) (ttranspose ?rp ?u))"
    using drops_ones_prod [OF po] by (simp add: wf_treshape)
  fix "is" assume v: "valid_ix ?ns is"
  have vp: "valid_ix (permute p ?ns) (permute p is)" using p v by (rule valid_ix_permuteI)
  have ri: "permute ?rp (not_dropped ds is) = not_dropped (permute p ds) (permute p is)"
    using p l v by (intro permute_reduced) (simp_all add: valid_ix_length)
  have "tnth (treshape (permute p ?ns) (ttranspose ?rp ?u)) (permute p is) =
      tdata (ttranspose ?rp ?u) ! ravel (permute ?rp (not_dropped ds ?ns)) (permute ?rp (not_dropped ds is))"
    using drops_ones_ravel [OF po vp] by (simp add: tnth_treshape rs ri)
  also have "\<dots> = tnth (ttranspose ?rp ?u) (permute ?rp (not_dropped ds is))"
    by (simp add: tnth_def)
  also have "\<dots> = tnth ?u (not_dropped ds is)"
    using rp drops_ones_valid [OF ones v] by (simp add: tnth_ttranspose_permute)
  also have "\<dots> = tnth t is"
    using drops_ones_ravel [OF ones v] by (simp add: tnth_treshape) (simp add: tnth_def)
  finally show "tnth (treshape (permute p ?ns) (ttranspose ?rp ?u)) (permute p is) = tnth t is" .
qed simp

section \<open>Correctness\<close>

lemma physical_permutation_layout:
  assumes p: "is_perm p 4"
  shows "is_perm (map nat (physical_permutation (map int p))) 4"
    and "permute (map nat (physical_permutation (map int p))) to_nhwc = permute to_nhwc p"
    and "map int (map nat (physical_permutation (map int p))) = physical_permutation (map int p)"
proof -
  obtain a b c d where abcd: "p = [a, b, c, d]" using is_perm_length [OF p] by (rule length_4_cases)
  have lt: "a < 4" "b < 4" "c < 4" "d < 4" and "distinct [a, b, c, d]"
    using p by (auto simp: is_perm_def abcd)
  let ?m = "\<lambda>k. nat (mapNCHWAxisToNHWC (int k))"
  have pp: "map nat (physical_permutation (map int p)) = map ?m [a, c, d, b]"
    by (simp add: physical_permutation_def abcd)
  have m: "?m k < 4" "to_nhwc ! ?m k = k" "0 \<le> mapNCHWAxisToNHWC (int k)" if "k < 4" for k
    using that mapNCHWAxisToNHWC_layout [of "int k"] by simp_all
  have inj: "?m j = ?m k \<longleftrightarrow> j = k" if "j < 4" "k < 4" for j k
    using that m(2) by metis
  show "is_perm (map nat (physical_permutation (map int p))) 4"
    using lt \<open>distinct _\<close> by (simp add: pp is_perm_def m inj)
  show "permute (map nat (physical_permutation (map int p))) to_nhwc = permute to_nhwc p"
    unfolding pp using lt by (simp add: abcd) (simp add: permute_def m)
  show "map int (map nat (physical_permutation (map int p))) = physical_permutation (map int p)"
    using lt by (simp add: physical_permutation_def abcd m)
qed

context tfl_layout
begin

lemma eval_emit_reduced:
  assumes wf: "wf_tensor x" and v: "eval sem env v = x" and p: "is_perm p (trank x)"
    and i32: "i32_dims (tshape x)" and ones: "drops_ones ds (tshape x)"
    and five: "length (filter Not ds) = 5"
  shows "eval sem env (emit_reduced_transpose ds (map int p) (map int (tshape x))
      (map int (permute p (tshape x))) e v) = ttranspose p x"
proof -
  let ?ns = "tshape x" and ?rp = "reduced_perm ds p"
  let ?ks = "not_dropped ds ?ns"
  have l: "length ds = trank x" using ones by (simp add: drops_ones_def)
  then have pl: "is_perm p (length ds)" using p by simp
  have ks: "i32_dims ?ks" "i32_dims (permute p ?ns)"
    using i32 set_not_dropped [of ds ?ns] p
    by (auto simp: i32_dims_def permute_def is_perm_def)
  have pk: "prod_list ?ks = prod_list ?ns" using ones by (rule drops_ones_prod)
  have rp: "is_perm ?rp (length ?ks)" using is_perm_reduced [OF pl l [symmetric]] .
  have outd: "map (\<lambda>a. ds ! nat a) (map int p) = permute p ds" by (simp add: permute_def)
  have kp: "not_dropped (permute p ds) (map int p) = map int (filter (\<lambda>k. \<not> ds ! k) p)"
    by (simp add: permute_def not_dropped_filter)
  have nk: "old_to_reduced ds 0 ! k = int (new_axis ds k)" if "k < length ds" "\<not> ds ! k" for k
    using that by (simp add: nth_old_to_reduced new_axis_def)
  have rpe: "map (\<lambda>a. old_to_reduced ds 0 ! nat a) (map int (filter (\<lambda>k. \<not> ds ! k) p)) = map int ?rp"
    using pl nk by (auto simp: reduced_perm_def is_perm_def)
  have rs: "not_dropped (permute p ds) (permute p ?ns) = permute ?rp ?ks"
    using permute_reduced [OF pl l [symmetric]] by simp
  let ?in = "emitReshape (RankedTensor (map int ?ks) e) (map int ?ks) v"
  have "eval sem env ?in = treshape ?ks x" using wf v ks(1) pk by (rule eval_emitReshape) simp
  moreover have "trank (treshape ?ks x) \<le> 5" using five l by (simp add: length_not_dropped)
  ultimately have tr: "eval sem env (createTFLOperation ''tfl.transpose''
        [RankedTensor (map int (permute ?rp ?ks)) e] [?in, createI32ShapeConstant (map int ?rp)] [] 0) =
      ttranspose ?rp (treshape ?ks x)"
    using rp wf pk by (intro eval_transpose) (simp_all add: wf_treshape conforms_Ranked)
  have "prod_list (permute p ?ns) = prod_list (tshape (ttranspose ?rp (treshape ?ks x)))"
    using prod_list_permute [OF p, of ?ns] prod_list_permute [OF rp, of ?ks] pk by simp
  from eval_emitReshape [OF _ tr ks(2) this refl] show ?thesis
    unfolding emit_reduced_transpose_def Let_def outd kp rpe reduced_transpose [OF wf p ones]
    by (simp add: not_dropped_map rs)
qed

end

lemma is_perm_default: "is_perm (rev [0..<n]) n"
  by (auto simp: is_perm_def)

lemma read_permutation_default: "map nat (rev [0..int n - 1]) = rev [0..<n]"
  by (induction n) (simp_all add: upto_rec2 rev_map [symmetric])

lemma onnx_transpose_read:
  "onnx_transpose attr t = ttranspose (map nat (read_permutation (int (trank t)) attr)) t"
  by (cases attr) (simp_all add: onnx_transpose_def read_permutation_def read_permutation_default)

lemma transpose_represents:
  assumes "tfl_layout sem" and low: "lower_transpose op = Inr v"
    and t: "conforms (oty (trn_data op)) t" and env: "env 0 = phys (oty (trn_data op)) t"
    and res: "conforms (trn_result op) (onnx_transpose (trn_perm op) t)"
    and i32: "i32_dims (tshape t)"
  shows "represents sem env v (trn_result op) (onnx_transpose (trn_perm op) t)"
proof -
  define perm where "perm = read_permutation (int (trank t)) (trn_perm op)"
  define p where "p = map nat perm"
  let ?ns = "tshape t"
  have spec: "onnx_transpose (trn_perm op) t = ttranspose p t"
    by (simp add: onnx_transpose_read p_def perm_def)
  obtain e e' where ty: "oty (trn_data op) = RankedTensor (map int ?ns) e" and wf: "wf_tensor t"
      and rt: "trn_result op = RankedTensor (map int (permute p ?ns)) e'"
    using t res by (auto simp: conforms_def spec)
  have e: "e' = e" and lp: "int (length perm) = int (trank t)"
    and chk: "check_permutation (int (trank t)) (replicate (trank t) False) perm"
    using low by (auto simp: lower_transpose_def ty rt Let_def perm_def [symmetric] split: if_splits)
  have p: "is_perm p (trank t)" and pm: "perm = map int p"
    using check_permutation_is_perm [OF lp] chk lp by (simp_all add: p_def)
  have lpp: "length p = trank t" using p by (rule is_perm_length)
  let ?arg = "adaptor 0 (trn_data op)"
  have arg: "eval sem env ?arg = phys (oty (trn_data op)) t" by (simp add: adaptor_def env)
  show ?thesis
  proof (cases "5 < trank t")
    case True
    then have np: "\<not> physical4 (oty (trn_data op))" "\<not> physical4 (trn_result op)"
      using lpp by (auto simp: ty rt)
    obtain ds where md: "mark_dropped (map int ?ns) (int (trank t) - 5) = (ds, 0)"
      and v: "v = emit_reduced_transpose ds (map int p) (map int ?ns)
          (map int (permute p ?ns)) e ?arg"
      using low True lp chk pm
      by (auto simp: lower_transpose_def ty rt Let_def perm_def [symmetric] split: if_splits prod.splits)
    have ones: "drops_ones ds ?ns"
      using length_mark_dropped [OF md] mark_dropped_singleton [OF md] by (auto simp: drops_ones_def)
    have "length (filter id ds) + length (filter Not ds) = trank t"
      using sum_length_filter_compl [of id ds] length_mark_dropped [OF md] by simp
    then have five: "length (filter Not ds) = 5" using mark_dropped_count [OF md] True by simp
    have "eval sem env v = ttranspose p t"
      using tfl_layout.eval_emit_reduced [OF assms(1) wf _ p i32 ones five, of env ?arg e] arg np(1)
      by (simp add: v phys_def)
    moreover have "vtype v = trn_result op" by (simp add: v emit_reduced_transpose_def Let_def rt e)
    ultimately show ?thesis
      using res np(2) by (intro represents_logical) (simp_all add: spec)
  next
    case False
    let ?q = "if trank t = 4 \<and> isF32 e then physical_permutation perm else perm"
    have v: "v = createTFLOperation ''tfl.transpose'' [convertRank4NCHWToNHWCType (trn_result op)]
        [?arg, createI32ShapeConstant ?q] [] 0"
      using low False lp chk by (auto simp: lower_transpose_def ty rt Let_def perm_def split: if_splits)
    have ph: "physical4 (oty (trn_data op)) \<longleftrightarrow> trank t = 4 \<and> isF32 e"
      "physical4 (trn_result op) \<longleftrightarrow> trank t = 4 \<and> isF32 e"
      using lpp by (simp_all add: ty rt e isF32_def)
    have tr: "eval sem env v = ttranspose q x" if "map int q = ?q" "is_perm q (trank t)"
      "x = phys (oty (trn_data op)) t" "wf_tensor x" "trank x = trank t"
      "ttranspose q x = phys (trn_result op) (onnx_transpose (trn_perm op) t)" for q x
      unfolding v that(1) [symmetric]
      using that False convert_conforms [OF res] arg
      by (intro tfl_layout.eval_transpose [OF assms(1)]) simp_all
    have "eval sem env v = phys (trn_result op) (onnx_transpose (trn_perm op) t)"
    proof (cases "trank t = 4 \<and> isF32 e")
      case True
      note pl = physical_permutation_layout [of p]
      let ?q' = "map nat (physical_permutation (map int p))"
      have "ttranspose ?q' (ttranspose to_nhwc t) = ttranspose to_nhwc (ttranspose p t)"
        using True p pl by (simp add: ttranspose_ttranspose)
      with True ph p pl show ?thesis
        using tr [of ?q' "ttranspose to_nhwc t"] by (simp add: pm phys_def spec)
    next
      case False
      then show ?thesis
        using tr [of p t] pm p wf ph by (auto simp: phys_def spec)
    qed
    then show ?thesis using res by (simp add: represents_def v)
  qed
qed

text \<open>
  C4: when the Transpose pattern succeeds, the value it creates represents the ONNX transpose of
  the operand: on rank-4 f32 tensors the created \<^verbatim>\<open>tfl.transpose\<close> permutes the NHWC representation
  of the operand into the NHWC representation of the result, and above rank 5 the detour over the
  reduced rank computes the same tensor.
\<close>

theorem lower_transpose_correct:
  assumes "tfl_layout sem" and "lower_transpose op = Inr v"
    and "conforms (oty (trn_data op)) t" and "env 0 = phys (oty (trn_data op)) t"
    and "conforms (trn_result op) (onnx_transpose (trn_perm op) t)"
    and "i32_dims (tshape t)"
  shows "represents sem env v (trn_result op) (onnx_transpose (trn_perm op) t)"
  using assms by (rule transpose_represents)

theorem lower_transpose_correct_witness:
  "represents reference_sem (\<lambda>_. ttranspose to_nhwc nchw_example)
     (createTFLOperation ''tfl.transpose'' [RankedTensor [1, 2, 2, 3] F32]
        [Arg 0 (RankedTensor [1, 2, 3, 2] F32), createI32ShapeConstant [0, 1, 3, 2]] [] 0)
     (RankedTensor [1, 3, 2, 2] F32) (ttranspose [0, 3, 2, 1] nchw_example)"
proof -
  let ?op = "\<lparr>trn_data = \<lparr>oty = RankedTensor [1, 2, 2, 3] F32, oattr = None\<rparr>,
      trn_perm = ArrayPerm [0, 3, 2, 1], trn_result = RankedTensor [1, 3, 2, 2] F32\<rparr> :: int transpose_op"
  let ?v = "createTFLOperation ''tfl.transpose'' [RankedTensor [1, 2, 2, 3] F32]
      [Arg 0 (RankedTensor [1, 2, 3, 2] F32), createI32ShapeConstant [0, 1, 3, 2]] [] 0"
  have "lower_transpose ?op = Inr ?v" by code_simp
  then show ?thesis
    using lower_transpose_correct [of reference_sem ?op ?v nchw_example]
    by (simp add: reference.tfl_layout_axioms conforms_Ranked phys_def
        onnx_transpose_def i32_dims_def permute_def)
qed

text \<open>
  C40: the exact domain of the Transpose pattern: it succeeds on the supported element types when
  the permutation is one and the rank is at most 5, or when enough axes have size 1 to reduce the
  rank to 5; in every other case it reports a diagnostic.
\<close>

theorem lower_transpose_domain:
  "(\<exists>v. lower_transpose op = Inr v) \<longleftrightarrow>
     (\<exists>inShape outShape e p. oty (trn_data op) = RankedTensor inShape e \<and>
        trn_result op = RankedTensor outShape e \<and> hasStaticShape inShape \<and> hasStaticShape outShape \<and>
        transpose_element_ok e \<and> read_permutation (getRank inShape) (trn_perm op) = map int p \<and>
        is_perm p (length inShape) \<and>
        (length inShape \<le> 5 \<or> length inShape - 5 \<le> length (filter (\<lambda>d. d = 1) inShape)))"
proof -
  have chk: "length perm = n \<and> check_permutation (int n) (replicate n False) perm \<longleftrightarrow>
      (\<exists>p. perm = map int p \<and> is_perm p n)" for perm n
  proof
    assume "length perm = n \<and> check_permutation (int n) (replicate n False) perm"
    then show "\<exists>p. perm = map int p \<and> is_perm p n"
      using check_permutation_is_perm [of perm "int n"] by (intro exI [of _ "map nat perm"]) auto
  next
    assume "\<exists>p. perm = map int p \<and> is_perm p n"
    then show "length perm = n \<and> check_permutation (int n) (replicate n False) perm"
      by (auto simp: is_perm_def check_permutation_iff distinct_map)
  qed
  have rest: "snd (mark_dropped sh (int (length sh) - 5)) = 0 \<longleftrightarrow>
      length sh - 5 \<le> length (filter (\<lambda>d. d = 1) sh)" if "5 < length sh" for sh
    using that by (subst mark_dropped_rest) auto
  have body: "(\<exists>v. lower_transpose op = Inr v) \<longleftrightarrow>
      (\<exists>inShape outShape e. oty (trn_data op) = RankedTensor inShape e \<and>
        trn_result op = RankedTensor outShape e \<and> hasStaticShape inShape \<and> hasStaticShape outShape \<and>
        transpose_element_ok e \<and>
        (length (read_permutation (getRank inShape) (trn_perm op)) = length inShape \<and>
         check_permutation (int (length inShape)) (replicate (length inShape) False)
           (read_permutation (getRank inShape) (trn_perm op))) \<and>
        (length inShape \<le> 5 \<or> snd (mark_dropped inShape (int (length inShape) - 5)) = 0))"
    by (cases "oty (trn_data op)"; cases "trn_result op")
      (auto simp: lower_transpose_def Let_def getRank_def split: prod.splits)
  have d: "length sh \<le> 5 \<or> snd (mark_dropped sh (int (length sh) - 5)) = 0 \<longleftrightarrow>
      length sh \<le> 5 \<or> length sh - 5 \<le> length (filter (\<lambda>d. d = 1) sh)" for sh
    using rest [of sh] by (cases "length sh \<le> 5") auto
  show ?thesis unfolding body chk d by blast
qed

end
