(* ===== verification/Lower_Reshape.thy ===== *)
theory Lower_Reshape
  imports TFL_Reference
begin

text \<open>
  Model of the patterns that keep the row-major order of the logical elements:
  \<^verbatim>\<open>Tensor/Reshape.cpp\<close>, \<^verbatim>\<open>Tensor/Flatten.cpp\<close>, \<^verbatim>\<open>Tensor/Squeeze.cpp\<close> and
  \<^verbatim>\<open>Tensor/Unsqueeze.cpp\<close>. The operand is brought back to logical order, reshaped, and the
  result brought to its representation.
\<close>

section \<open>Reshape\<close>

record 'f reshape_op =
  rsh_data :: "'f operand"
  rsh_allowzero :: "int option"
  rsh_result :: mtype

definition reshape_element_ok :: "elt \<Rightarrow> elt \<Rightarrow> bool" where
  "reshape_element_ok inElt outElt \<longleftrightarrow>
     (isF32 inElt \<or> isInteger 1 inElt \<or> isSignlessInteger 64 inElt) \<and> outElt = inElt"

definition emit_reshape_direct :: "mtype \<Rightarrow> mtype \<Rightarrow> bool \<Rightarrow> int list \<Rightarrow> 'f val \<Rightarrow> 'f val" where
  "emit_reshape_direct sourceResultType resultType resultIsRank4 shape data =
     (let reshape = emitReshape (if resultIsRank4 then sourceResultType else resultType) shape data in
      if \<not> resultIsRank4 then reshape else toPhysicalRank4 sourceResultType reshape)"

definition emit_reshape_logical :: "mtype \<Rightarrow> mtype \<Rightarrow> bool \<Rightarrow> int list \<Rightarrow> 'f val \<Rightarrow> 'f val" where
  "emit_reshape_logical sourceDataType sourceResultType resultIsRank4 shape data =
     (let logicalInput = restoreLogicalRank4 sourceDataType data;
          reshape = emitReshape sourceResultType shape logicalInput in
      if \<not> resultIsRank4 then reshape else toPhysicalRank4 sourceResultType reshape)"

definition lower_reshape :: "'f reshape_op \<Rightarrow> 'f val result" where
  "lower_reshape op =
     (let data = adaptor 0 (rsh_data op) in
      case (oty (rsh_data op), rsh_result op) of
        (RankedTensor inShape inElt, RankedTensor outShape outElt) \<Rightarrow>
          if \<not> hasStaticShape inShape \<or> \<not> hasStaticShape outShape \<or> getRank outShape < 1 \<or>
             \<not> reshape_element_ok inElt outElt then Inl BadTypes
          else if (case rsh_allowzero op of Some z \<Rightarrow> z \<noteq> 0 | None \<Rightarrow> False) then Inl AllowZero
          else
            let f32 = isF32 inElt;
                resultType = (if f32 then convertRank4NCHWToNHWCType (rsh_result op) else rsh_result op)
            in
            if (case resultType of RankedTensor sh _ \<Rightarrow> (\<exists>d\<in>set sh. int32_max < d) | _ \<Rightarrow> False)
              then Inl DimExceedsI32
            else
              let sourceIsRank4 = (f32 \<and> getRank inShape = 4);
                  resultIsRank4 = (f32 \<and> getRank outShape = 4);
                  fast = (sourceIsRank4 \<and> \<not> resultIsRank4 \<and> inShape ! 2 = 1 \<and> inShape ! 3 = 1)
              in
              if \<not> sourceIsRank4 \<or> fast
              then Inr (emit_reshape_direct (rsh_result op) resultType resultIsRank4 outShape data)
              else Inr (emit_reshape_logical (oty (rsh_data op)) (rsh_result op) resultIsRank4 outShape data)
      | _ \<Rightarrow> Inl BadTypes)"

section \<open>Flatten\<close>

record 'f flatten_op =
  fl_input :: "'f operand"
  fl_axis :: int
  fl_result :: mtype

definition lower_flatten :: "'f flatten_op \<Rightarrow> 'f val result" where
  "lower_flatten op =
     (case (oty (fl_input op), fl_result op) of
        (RankedTensor inShape inElt, RankedTensor outShape outElt) \<Rightarrow>
          if getRank outShape \<noteq> 2 \<or> failed (validateStaticF32Tensor (oty (fl_input op))) \<or>
             failed (validateStaticF32Tensor (fl_result op)) then Inl BadTypes
          else
            let rank = getRank inShape; axis = (if fl_axis op < 0 then fl_axis op + rank else fl_axis op) in
            if axis < 0 \<or> rank < axis then Inl BadAxis
            else
              let outer = prod_list (take (nat axis) inShape); inner = prod_list (drop (nat axis) inShape) in
              if outShape \<noteq> [outer, inner] then Inl ShapeMismatch
              else
                let input = adaptor 0 (fl_input op);
                    input' = (if rank = 4 then restoreLogicalRank4 (oty (fl_input op)) input else input) in
                Inr (emitReshape (fl_result op) outShape input')
      | _ \<Rightarrow> Inl BadTypes)"

section \<open>Squeeze and Unsqueeze\<close>

text \<open>The end of both patterns, which is the same code.\<close>

definition emit_rank_change :: "mtype \<Rightarrow> mtype \<Rightarrow> int list \<Rightarrow> int list \<Rightarrow> elt \<Rightarrow> 'f val \<Rightarrow> 'f val" where
  "emit_rank_change sourceDataType sourceResultType inShape outShape inElt data =
     (let data' = (if isF32 inElt \<and> getRank inShape = 4 then restoreLogicalRank4 sourceDataType data else data);
          logicalResult = emitReshape sourceResultType outShape data' in
      if \<not> isF32 inElt \<or> getRank outShape \<noteq> 4 then logicalResult
      else toPhysicalRank4 sourceResultType logicalResult)"

record 'f squeeze_op =
  sqz_data :: "'f operand"
  sqz_axes :: "'f operand"
  sqz_result :: mtype

fun mark_removed :: "int list \<Rightarrow> bool list \<Rightarrow> int list \<Rightarrow> bool list result" where
  "mark_removed shape removedAxes [] = Inr removedAxes"
| "mark_removed shape removedAxes (rawAxis # rest) =
     (let axis = normalizeAxis rawAxis (getRank shape) in
      if axis < 0 \<or> getRank shape \<le> axis \<or> removedAxes ! nat axis \<or> shape ! nat axis \<noteq> 1
      then Inl BadAxis
      else mark_removed shape (removedAxes[nat axis := True]) rest)"

definition expected_squeeze_shape :: "bool list \<Rightarrow> int list \<Rightarrow> int list" where
  "expected_squeeze_shape removedAxes shape = not_dropped removedAxes shape"

definition squeeze_removed_axes :: "'f squeeze_op \<Rightarrow> int list \<Rightarrow> bool list result" where
  "squeeze_removed_axes op inShape =
     (if oty (sqz_axes op) = NoneT then Inr (map (\<lambda>d. d = 1) inShape)
      else (case getConstantIntValues (sqz_axes op) of
              None \<Rightarrow> Inl NonConstant
            | Some axes \<Rightarrow> mark_removed inShape (replicate (length inShape) False) axes))"

definition lower_squeeze :: "'f squeeze_op \<Rightarrow> 'f val result" where
  "lower_squeeze op =
     (case (oty (sqz_data op), sqz_result op) of
        (RankedTensor inShape inElt, RankedTensor outShape outElt) \<Rightarrow>
          if \<not> (hasStaticShape inShape \<and> hasStaticShape outShape \<and> inElt = outElt \<and>
                (isF32 inElt \<or> isInteger 1 inElt)) then Inl BadTypes
          else bind_result (squeeze_removed_axes op inShape) (\<lambda>removedAxes.
            if expected_squeeze_shape removedAxes inShape \<noteq> outShape then Inl ShapeMismatch
            else Inr (emit_rank_change (oty (sqz_data op)) (sqz_result op) inShape outShape inElt
                        (adaptor 0 (sqz_data op))))
      | _ \<Rightarrow> Inl BadTypes)"

record 'f unsqueeze_op =
  usq_data :: "'f operand"
  usq_axes :: "'f operand"
  usq_result :: mtype

fun mark_inserted :: "int \<Rightarrow> bool list \<Rightarrow> int list \<Rightarrow> bool list result" where
  "mark_inserted rank insertedAxes [] = Inr insertedAxes"
| "mark_inserted rank insertedAxes (axis # rest) =
     (let axis' = (if axis < 0 then axis + rank else axis) in
      if axis' < 0 \<or> rank \<le> axis' \<or> insertedAxes ! nat axis' then Inl BadAxis
      else mark_inserted rank (insertedAxes[nat axis' := True]) rest)"

fun expected_unsqueeze_shape :: "bool list \<Rightarrow> int list \<Rightarrow> int list" where
  "expected_unsqueeze_shape [] shape = []"
| "expected_unsqueeze_shape (True # insertedAxes) shape = 1 # expected_unsqueeze_shape insertedAxes shape"
| "expected_unsqueeze_shape (False # insertedAxes) shape =
     hd shape # expected_unsqueeze_shape insertedAxes (tl shape)"

definition lower_unsqueeze :: "'f unsqueeze_op \<Rightarrow> 'f val result" where
  "lower_unsqueeze op =
     (case (oty (usq_data op), usq_result op) of
        (RankedTensor inShape inElt, RankedTensor outShape outElt) \<Rightarrow>
          if \<not> hasStaticShape inShape \<or> \<not> hasStaticShape outShape \<or> \<not> reshape_element_ok inElt outElt
            then Inl BadTypes
          else (case getConstantIntValues (usq_axes op) of
                  None \<Rightarrow> Inl NonConstant
                | Some axes \<Rightarrow>
                    if int (length axes) \<noteq> getRank outShape - getRank inShape then Inl NonConstant
                    else bind_result
                      (mark_inserted (getRank outShape) (replicate (length outShape) False) axes)
                      (\<lambda>insertedAxes.
                         if expected_unsqueeze_shape insertedAxes inShape \<noteq> outShape then Inl ShapeMismatch
                         else Inr (emit_rank_change (oty (usq_data op)) (usq_result op) inShape outShape
                                     inElt (adaptor 0 (usq_data op)))))
      | _ \<Rightarrow> Inl BadTypes)"

section \<open>What ONNX defines\<close>

definition onnx_flatten :: "int \<Rightarrow> 'a tensor \<Rightarrow> 'a tensor" where
  "onnx_flatten axis t =
     (let a = nat (if axis < 0 then axis + int (trank t) else axis) in
      treshape [prod_list (take a (tshape t)), prod_list (drop a (tshape t))] t)"

definition norm_axes :: "int \<Rightarrow> int list \<Rightarrow> nat set" where
  "norm_axes rank axes = (\<lambda>a. nat (if a < 0 then a + rank else a)) ` set axes"

definition onnx_squeeze :: "int list option \<Rightarrow> 'a tensor \<Rightarrow> 'a tensor" where
  "onnx_squeeze axes t =
     (let removed = (case axes of None \<Rightarrow> {k. k < trank t \<and> tshape t ! k = 1}
                     | Some as \<Rightarrow> norm_axes (int (trank t)) as) in
      treshape (map (\<lambda>k. tshape t ! k) (filter (\<lambda>k. k \<notin> removed) [0..<trank t])) t)"

definition onnx_unsqueeze :: "int list \<Rightarrow> 'a tensor \<Rightarrow> 'a tensor" where
  "onnx_unsqueeze axes t =
     (let rank = trank t + length axes; new = norm_axes (int rank) axes in
      treshape (map (\<lambda>k. if k \<in> new then 1 else tshape t ! (k - length (filter (\<lambda>j. j \<in> new) [0..<k]))) [0..<rank]) t)"

section \<open>Representation lemmas\<close>

context tfl_layout
begin

lemma eval_reshape_logical:
  assumes "conforms ty t" and v: "eval sem env v = t"
    and "conforms rty (treshape ds t)" and "i32_dims ds"
  shows "eval sem env (emitReshape rty (map int ds) v) = treshape ds t"
proof -
  obtain e where "rty = RankedTensor (map int ds) e" and p: "prod_list ds = prod_list (tshape t)"
    using assms(1,3) by (auto simp: conforms_def wf_tensor_def treshape_def)
  then show ?thesis
    using eval_emitReshape [OF conforms_wf [OF assms(1)] v assms(4) p] by simp
qed

lemma represents_rank_change:
  assumes ty: "ty = RankedTensor inShape e" "rty = RankedTensor outShape e"
    and t: "conforms ty t" and v: "eval sem env v = phys ty t"
    and res: "conforms rty (treshape ds t)" and i32: "i32_dims ds"
  shows "represents sem env (emit_rank_change ty rty inShape outShape e v) rty (treshape ds t)"
proof -
  have os: "outShape = map int ds" using res ty(2) by (simp add: conforms_Ranked)
  let ?d = "if physical4 ty then restoreLogicalRank4 ty v else v"
  let ?r = "emitReshape rty (map int ds) ?d"
  have "eval sem env ?d = t" using t v by (rule eval_logical_operand)
  with t have "eval sem env ?r = treshape ds t" using res i32 by (rule eval_reshape_logical)
  then have "represents sem env (if physical4 rty then toPhysicalRank4 rty ?r else ?r) rty (treshape ds t)"
    using res by (intro represents_physical_result) simp_all
  moreover have "(isF32 e \<and> getRank inShape = 4) = physical4 ty"
    and "(\<not> isF32 e \<or> getRank outShape \<noteq> 4) = (\<not> physical4 rty)"
    by (auto simp: ty isF32_def getRank_def)
  ultimately show ?thesis
    unfolding emit_rank_change_def Let_def os by (simp split: if_splits)
qed

end

lemma i32_dims_max: "\<not> (\<exists>d\<in>set (map int ds). int32_max < d) \<Longrightarrow> i32_dims ds"
  by (auto simp: i32_dims_def int32_max_def not_less)

lemma set_permute_perm: "is_perm p (length xs) \<Longrightarrow> set (permute p xs) = set xs"
  using mset_permute [of p "length xs" xs] mset_eq_setD by blast

text \<open>A successful Reshape either takes the same steps as Squeeze or the fast path.\<close>

lemma lower_reshape_cases:
  assumes low: "lower_reshape op = Inr v" and ty: "oty (rsh_data op) = RankedTensor inShape e"
    and rt: "rsh_result op = RankedTensor (map int ds) e'"
  shows "e' = e" and "i32_dims ds"
    and "v = emit_rank_change (oty (rsh_data op)) (rsh_result op) inShape (map int ds) e
             (adaptor 0 (rsh_data op)) \<or>
         e = F32 \<and> length inShape = 4 \<and> length ds \<noteq> 4 \<and> inShape ! 2 = 1 \<and> inShape ! 3 = 1 \<and>
         v = emitReshape (rsh_result op) (map int ds) (adaptor 0 (rsh_data op))"
proof -
  have "set (permute to_nhwc (map int ds)) = set (map int ds)" if "length ds = 4"
    using that by (intro set_permute_perm) simp
  then show "e' = e" and "i32_dims ds"
    using low
    by (auto simp: lower_reshape_def ty rt reshape_element_ok_def convert_Ranked Let_def
        simp del: set_map split: if_splits option.splits intro!: i32_dims_max)
  then show "v = emit_rank_change (oty (rsh_data op)) (rsh_result op) inShape (map int ds) e
             (adaptor 0 (rsh_data op)) \<or>
         e = F32 \<and> length inShape = 4 \<and> length ds \<noteq> 4 \<and> inShape ! 2 = 1 \<and> inShape ! 3 = 1 \<and>
         v = emitReshape (rsh_result op) (map int ds) (adaptor 0 (rsh_data op))"
    using low
    by (auto simp: lower_reshape_def ty rt Let_def emit_rank_change_def emit_reshape_direct_def
        emit_reshape_logical_def convert_id isF32_def getRank_def split: if_splits option.splits)
qed

lemma reshape_represents:
  assumes "tfl_layout sem" and low: "lower_reshape op = Inr v"
    and t: "conforms (oty (rsh_data op)) t" and env: "env 0 = phys (oty (rsh_data op)) t"
    and res: "conforms (rsh_result op) (treshape ds t)"
  shows "represents sem env v (rsh_result op) (treshape ds t)"
proof -
  let ?ty = "oty (rsh_data op)" and ?rty = "rsh_result op" and ?arg = "adaptor 0 (rsh_data op)"
  obtain e e' where ty: "?ty = RankedTensor (map int (tshape t)) e" and wf: "wf_tensor t"
    and rt: "?rty = RankedTensor (map int ds) e'"
    using t res by (auto simp: conforms_def)
  note c = lower_reshape_cases [OF low ty rt]
  have arg: "eval sem env ?arg = phys ?ty t" by (simp add: adaptor_def env)
  from c(3) show ?thesis
  proof
    assume "v = emit_rank_change ?ty ?rty (map int (tshape t)) (map int ds) e ?arg"
    then show ?thesis
      using tfl_layout.represents_rank_change [OF assms(1) ty _ t arg res c(2)] rt c(1) by simp
  next
    assume fast: "e = F32 \<and> length (map int (tshape t)) = 4 \<and> length ds \<noteq> 4 \<and>
        map int (tshape t) ! 2 = 1 \<and> map int (tshape t) ! 3 = 1 \<and> v = emitReshape ?rty (map int ds) ?arg"
    then obtain n k where sh: "tshape t = [n, k, 1, 1]"
      by (auto simp: numeral_eq_Suc length_Suc_conv)
    let ?x = "ttranspose to_nhwc t"
    have x: "eval sem env ?arg = ?x" using arg fast by (simp add: phys_def ty)
    have "prod_list ds = prod_list (tshape ?x)"
      using res wf sh by (simp add: conforms_def wf_tensor_def treshape_def)
    with x have "eval sem env v = treshape ds ?x"
      using fast c(2) rt by (auto intro: tfl_layout.eval_emitReshape [OF assms(1)])
    also have "\<dots> = treshape ds t" using nhwc_flat_order [OF wf sh] by (simp add: treshape_def)
    finally show ?thesis using fast rt c(1) res by (intro represents_logical) auto
  qed
qed

text \<open>
  C30: when the Reshape pattern succeeds, the created value represents the operand read in the
  row-major order of its logical axes with the result's shape; the fast path that skips the
  transpose for \<^verbatim>\<open>[N, C, 1, 1]\<close> included. No bound on the dimensions is assumed: the pattern's own
  check makes the narrowing to \<^verbatim>\<open>int32_t\<close> exact.
\<close>

theorem lower_reshape_correct:
  assumes "tfl_layout sem" and "lower_reshape op = Inr v"
    and "conforms (oty (rsh_data op)) t" and "env 0 = phys (oty (rsh_data op)) t"
    and "conforms (rsh_result op) (treshape ds t)"
  shows "represents sem env v (rsh_result op) (treshape ds t)"
  using assms by (rule reshape_represents)

theorem lower_reshape_correct_witness:
  "represents reference_sem (\<lambda>_. ttranspose to_nhwc nchw_example)
     (emitReshape (RankedTensor [4, 3] F32) [4, 3]
        (restoreLogicalRank4 (RankedTensor [1, 2, 2, 3] F32) (Arg 0 (RankedTensor [1, 2, 3, 2] F32))))
     (RankedTensor [4, 3] F32) (treshape [4, 3] nchw_example)"
proof -
  let ?op = "\<lparr>rsh_data = \<lparr>oty = RankedTensor [1, 2, 2, 3] F32, oattr = None\<rparr>, rsh_allowzero = None,
      rsh_result = RankedTensor [4, 3] F32\<rparr> :: int reshape_op"
  let ?v = "emitReshape (RankedTensor [4, 3] F32) [4, 3]
        (restoreLogicalRank4 (RankedTensor [1, 2, 2, 3] F32) (Arg 0 (RankedTensor [1, 2, 3, 2] F32)))"
  have "lower_reshape ?op = Inr ?v" by code_simp
  then show ?thesis
    using lower_reshape_correct [of reference_sem ?op ?v nchw_example "\<lambda>_. ttranspose to_nhwc nchw_example" "[4, 3]"]
    by (simp add: example_simps wf_treshape)
qed

text \<open>
  When the Flatten pattern succeeds, the created value represents the ONNX flattening of the
  operand at the (possibly negative) axis.
\<close>

theorem lower_flatten_correct:
  assumes "tfl_layout sem" and low: "lower_flatten op = Inr v"
    and t: "conforms (oty (fl_input op)) t" and env: "env 0 = phys (oty (fl_input op)) t"
    and i32: "i32_dims (tshape (onnx_flatten (fl_axis op) t))"
  shows "represents sem env v (fl_result op) (onnx_flatten (fl_axis op) t)"
proof -
  let ?ty = "oty (fl_input op)" and ?rty = "fl_result op" and ?arg = "adaptor 0 (fl_input op)"
  define ds where "ds = tshape (onnx_flatten (fl_axis op) t)"
  have spec: "onnx_flatten (fl_axis op) t = treshape ds t"
    by (simp add: ds_def onnx_flatten_def Let_def)
  obtain e where ty: "?ty = RankedTensor (map int (tshape t)) e" and wf: "wf_tensor t"
    using t by (auto simp: conforms_def)
  have pd: "prod_list ds = prod_list (tshape t)"
    by (simp add: ds_def onnx_flatten_def Let_def flip: prod_list.append)
  have "?rty = RankedTensor (map int ds) F32 \<and> e = F32 \<and> length ds = 2 \<and>
      v = emitReshape ?rty (map int ds)
        (if length (tshape t) = 4 then restoreLogicalRank4 ?ty ?arg else ?arg)"
    using low
    by (auto simp: lower_flatten_def ty Let_def failed_validate ds_def onnx_flatten_def
        take_map drop_map split: if_splits mtype.splits)
  moreover from this have "conforms ?rty (treshape ds t)"
    using wf pd by (simp add: conforms_Ranked wf_treshape)
  ultimately show ?thesis
    using tfl_layout.represents_rank_change [OF assms(1) ty _ t _ _ i32, of ?rty "map int ds" env ?arg]
    by (simp add: spec ds_def [symmetric] emit_rank_change_def isF32_def adaptor_def env split: if_splits)
qed

theorem lower_flatten_correct_witness:
  "represents reference_sem (\<lambda>_. ttranspose to_nhwc nchw_example)
     (emitReshape (RankedTensor [2, 6] F32) [2, 6]
        (restoreLogicalRank4 (RankedTensor [1, 2, 2, 3] F32) (Arg 0 (RankedTensor [1, 2, 3, 2] F32))))
     (RankedTensor [2, 6] F32) (treshape [2, 6] nchw_example)"
proof -
  let ?op = "\<lparr>fl_input = \<lparr>oty = RankedTensor [1, 2, 2, 3] F32, oattr = None\<rparr>, fl_axis = -2,
      fl_result = RankedTensor [2, 6] F32\<rparr> :: int flatten_op"
  let ?v = "emitReshape (RankedTensor [2, 6] F32) [2, 6]
        (restoreLogicalRank4 (RankedTensor [1, 2, 2, 3] F32) (Arg 0 (RankedTensor [1, 2, 3, 2] F32)))"
  have "lower_flatten ?op = Inr ?v" by code_simp
  then show ?thesis
    using lower_flatten_correct [of reference_sem ?op ?v nchw_example "\<lambda>_. ttranspose to_nhwc nchw_example"]
    by (simp add: example_simps onnx_flatten_def)
qed

section \<open>Squeeze and Unsqueeze are correct\<close>

lemma norm_axes_simps [simp]:
  "norm_axes r [] = {}"
  "norm_axes r (a # as) = insert (nat (normalizeAxis a r)) (norm_axes r as)"
  by (simp_all add: norm_axes_def normalizeAxis_def)

lemma mark_removed_ok:
  assumes "mark_removed shape removed axes = Inr r" and "length removed = length shape"
  shows "length r = length shape \<and>
    (\<forall>k<length shape. r ! k \<longleftrightarrow> removed ! k \<or> k \<in> norm_axes (getRank shape) axes) \<and>
    (\<forall>k\<in>norm_axes (getRank shape) axes. k < length shape \<and> shape ! k = 1)"
  using assms
  by (induction axes arbitrary: removed)
    (auto simp: Let_def getRank_def nth_list_update split: if_splits)

lemma mark_inserted_ok:
  assumes "mark_inserted rank inserted axes = Inr r" and "length inserted = nat rank"
  shows "length r = nat rank \<and> (\<forall>k<nat rank. r ! k \<longleftrightarrow> inserted ! k \<or> k \<in> norm_axes rank axes) \<and>
    length (filter (\<lambda>b. b) r) = length (filter (\<lambda>b. b) inserted) + length axes"
  using assms
proof (induction axes arbitrary: inserted)
  case (Cons a axes)
  let ?a = "normalizeAxis a rank"
  from Cons.prems have a: "0 \<le> ?a" "?a < rank" "\<not> inserted ! nat ?a"
    and rec: "mark_inserted rank (inserted[nat ?a := True]) axes = Inr r"
    by (auto simp: Let_def normalizeAxis_def split: if_splits)
  have "nat ?a < length inserted" using a Cons.prems(2) by simp
  then have "inserted = take (nat ?a) inserted @ inserted ! nat ?a # drop (Suc (nat ?a)) inserted"
    and u: "inserted[nat ?a := True] = take (nat ?a) inserted @ True # drop (Suc (nat ?a)) inserted"
    by (simp_all add: id_take_nth_drop upd_conv_take_nth_drop)
  then have "filter (\<lambda>b. b) inserted = filter (\<lambda>b. b) (take (nat ?a) inserted) @ filter (\<lambda>b. b) (drop (Suc (nat ?a)) inserted)"
    using a(3) by (metis filter.simps(2) filter_append)
  then have "length (filter (\<lambda>b. b) (inserted[nat ?a := True])) = Suc (length (filter (\<lambda>b. b) inserted))"
    by (simp add: u)
  with Cons.IH [OF rec] Cons.prems(2) a show ?case
    by (auto simp: nth_list_update)
qed simp

lemma flags_eq: "length r = n \<Longrightarrow> (\<forall>k<n. r ! k \<longleftrightarrow> k \<in> S) \<Longrightarrow> r = map (\<lambda>k. k \<in> S) [0..<n]"
  by (intro nth_equalityI) auto

text \<open>
  When the Squeeze pattern succeeds, the created value represents the operand without the
  given axes, or without all axes of size 1 when no axes are given; the pattern rejects a result
  type of any other shape.
\<close>

theorem lower_squeeze_correct:
  assumes "tfl_layout sem" and low: "lower_squeeze op = Inr v"
    and t: "conforms (oty (sqz_data op)) t" and env: "env 0 = phys (oty (sqz_data op)) t"
    and axes: "axes = (if oty (sqz_axes op) = NoneT then None else getConstantIntValues (sqz_axes op))"
    and i32: "i32_dims (tshape t)"
  shows "represents sem env v (sqz_result op) (onnx_squeeze axes t)"
proof -
  let ?ty = "oty (sqz_data op)" and ?rty = "sqz_result op" and ?n = "trank t"
  obtain e where ty: "?ty = RankedTensor (map int (tshape t)) e" and wf: "wf_tensor t"
    using t by (auto simp: conforms_def)
  obtain r where r: "squeeze_removed_axes op (map int (tshape t)) = Inr r"
    and rt: "?rty = RankedTensor (not_dropped r (map int (tshape t))) e"
    and v: "v = emit_rank_change ?ty ?rty (map int (tshape t)) (not_dropped r (map int (tshape t))) e
        (adaptor 0 (sqz_data op))"
    using low by (auto simp: lower_squeeze_def ty expected_squeeze_shape_def split: mtype.splits if_splits)
  define S where "S = (case axes of None \<Rightarrow> {k. k < ?n \<and> tshape t ! k = 1}
      | Some as \<Rightarrow> norm_axes (int ?n) as)"
  have S: "r = map (\<lambda>k. k \<in> S) [0..<?n] \<and> (\<forall>k\<in>S. k < ?n \<and> tshape t ! k = 1)"
  proof (cases axes)
    case None
    then have "oty (sqz_axes op) = NoneT \<or> getConstantIntValues (sqz_axes op) = None"
      using axes by (auto split: if_splits)
    with r None show ?thesis
      by (auto simp: S_def squeeze_removed_axes_def intro!: nth_equalityI split: if_splits)
  next
    case (Some as)
    then have "mark_removed (map int (tshape t)) (replicate ?n False) as = Inr r"
      using axes r by (auto simp: squeeze_removed_axes_def split: if_splits option.splits)
    from mark_removed_ok [OF this] Some show ?thesis
      by (auto simp: S_def getRank_def intro!: flags_eq)
  qed
  have ones: "drops_ones r (tshape t)" using S by (auto simp: drops_ones_def)
  have spec: "onnx_squeeze axes t = treshape (not_dropped r (tshape t)) t"
    using S by (simp add: onnx_squeeze_def S_def [symmetric] Let_def not_dropped_nth)
  have "conforms ?rty (treshape (not_dropped r (tshape t)) t)"
    using wf drops_ones_prod [OF ones] by (simp add: rt not_dropped_map conforms_Ranked wf_treshape)
  moreover have "i32_dims (not_dropped r (tshape t))"
    using i32 set_not_dropped [of r "tshape t"] by (auto simp: i32_dims_def)
  ultimately show ?thesis
    unfolding v spec
    by (intro tfl_layout.represents_rank_change [OF assms(1) ty rt t]) (simp_all add: adaptor_def env)
qed


theorem lower_squeeze_correct_witness:
  "represents reference_sem (\<lambda>_. ttranspose to_nhwc nchw_example)
     (emitReshape (RankedTensor [2, 2, 3] F32) [2, 2, 3]
        (restoreLogicalRank4 (RankedTensor [1, 2, 2, 3] F32) (Arg 0 (RankedTensor [1, 2, 3, 2] F32))))
     (RankedTensor [2, 2, 3] F32) (treshape [2, 2, 3] nchw_example)"
proof -
  let ?op = "\<lparr>sqz_data = \<lparr>oty = RankedTensor [1, 2, 2, 3] F32, oattr = None\<rparr>,
      sqz_axes = \<lparr>oty = RankedTensor [1] I64, oattr = Some (IntElements I64 [-4])\<rparr>,
      sqz_result = RankedTensor [2, 2, 3] F32\<rparr> :: int squeeze_op"
  let ?v = "emitReshape (RankedTensor [2, 2, 3] F32) [2, 2, 3]
        (restoreLogicalRank4 (RankedTensor [1, 2, 2, 3] F32) (Arg 0 (RankedTensor [1, 2, 3, 2] F32)))"
  have "lower_squeeze ?op = Inr ?v" by code_simp
  then show ?thesis
    using lower_squeeze_correct [of reference_sem ?op ?v nchw_example "\<lambda>_. ttranspose to_nhwc nchw_example" "Some [-4]"]
    by (simp add: example_simps onnx_squeeze_def normalizeAxis_def getConstantIntValues_def elt_defs sext_def elt_width_def)
qed

lemma expected_unsqueeze_shape_nth:
  assumes "length (filter Not fs) = length sh"
  shows "expected_unsqueeze_shape fs sh =
    map (\<lambda>k. if fs ! k then 1 else sh ! (k - length (filter (\<lambda>b. b) (take k fs)))) [0..<length fs]"
  using assms
proof (induction fs sh rule: expected_unsqueeze_shape.induct)
  case (3 fs sh)
  then obtain x xs where sh: "sh = x # xs" and l: "length (filter Not fs) = length xs"
    by (cases sh) auto
  have "Suc k - length (filter (\<lambda>b. b) (take k fs)) = Suc (k - length (filter (\<lambda>b. b) (take k fs)))"
    for k
    using length_filter_le [of "\<lambda>b. b" "take k fs"] by (simp add: Suc_diff_le)
  with 3 sh l show ?case by (simp add: upt_conv_Cons map_Suc_upt [symmetric] del: upt_Suc)
qed (simp_all add: upt_conv_Cons map_Suc_upt [symmetric] del: upt_Suc)

lemma expected_unsqueeze_shape_prod:
  "length (filter Not fs) = length sh \<Longrightarrow> prod_list (expected_unsqueeze_shape fs sh) = prod_list sh"
proof (induction fs sh rule: expected_unsqueeze_shape.induct)
  case (3 fs sh)
  then show ?case by (cases sh) auto
qed simp_all

lemma inserted_before:
  assumes "length fs = n" and "\<forall>k<n. fs ! k \<longleftrightarrow> k \<in> S" and "k < n"
  shows "length (filter (\<lambda>b. b) (take k fs)) = length (filter (\<lambda>j. j \<in> S) [0..<k])"
    and "k \<notin> S \<Longrightarrow> k - length (filter (\<lambda>j. j \<in> S) [0..<k]) < length (filter Not fs)"
proof -
  have fse: "fs = map (\<lambda>k. k \<in> S) [0..<n]" using assms by (intro flags_eq) simp_all
  show c: "length (filter (\<lambda>b. b) (take k fs)) = length (filter (\<lambda>j. j \<in> S) [0..<k])"
    using assms(3) by (simp add: fse take_map filter_map comp_def)
  assume "k \<notin> S"
  have "filter Not fs = filter Not (take k fs @ fs ! k # drop (Suc k) fs)"
    using assms(1,3) by (simp add: id_take_nth_drop [symmetric])
  then have "length (filter Not (take k fs)) < length (filter Not fs)"
    using assms(2,3) \<open>k \<notin> S\<close> by simp
  moreover have "length (filter (\<lambda>b. b) (take k fs)) + length (filter Not (take k fs)) = k"
    using sum_length_filter_compl [of "\<lambda>b. b" "take k fs"] assms by (simp add: comp_def)
  ultimately show "k - length (filter (\<lambda>j. j \<in> S) [0..<k]) < length (filter Not fs)" using c by simp
qed

lemma expected_unsqueeze_shape_spec:
  assumes "length fs = n" and "\<forall>k<n. fs ! k \<longleftrightarrow> k \<in> S" and kept: "length (filter Not fs) = length ns"
  defines "ds \<equiv> map (\<lambda>k. if k \<in> S then 1 else ns ! (k - length (filter (\<lambda>j. j \<in> S) [0..<k]))) [0..<n]"
  shows "expected_unsqueeze_shape fs (map int ns) = map int ds" and "set ds \<subseteq> insert 1 (set ns)"
proof -
  note b = inserted_before [OF assms(1,2)]
  show "expected_unsqueeze_shape fs (map int ns) = map int ds"
    using assms b by (subst expected_unsqueeze_shape_nth) auto
  show "set ds \<subseteq> insert 1 (set ns)" using b kept by (auto simp: ds_def)
qed

text \<open>
  When the Unsqueeze pattern succeeds, the created value represents the operand with axes of
  size 1 inserted at the (possibly negative) positions of the result.
\<close>

theorem lower_unsqueeze_correct:
  assumes "tfl_layout sem" and low: "lower_unsqueeze op = Inr v"
    and t: "conforms (oty (usq_data op)) t" and env: "env 0 = phys (oty (usq_data op)) t"
    and axes: "getConstantIntValues (usq_axes op) = Some axes"
    and i32: "i32_dims (tshape t)"
  shows "represents sem env v (usq_result op) (onnx_unsqueeze axes t)"
proof -
  let ?ty = "oty (usq_data op)" and ?rty = "usq_result op" and ?n = "trank t + length axes"
  define S where "S = norm_axes (int ?n) axes"
  define ds where "ds = map (\<lambda>k. if k \<in> S then 1 else tshape t ! (k - length (filter (\<lambda>j. j \<in> S) [0..<k]))) [0..<?n]"
  have spec: "onnx_unsqueeze axes t = treshape ds t"
    by (simp only: onnx_unsqueeze_def ds_def S_def Let_def)
  obtain e where ty: "?ty = RankedTensor (map int (tshape t)) e" and wf: "wf_tensor t"
    using t by (auto simp: conforms_def)
  obtain outShape fs where rt: "?rty = RankedTensor outShape e"
    and lo': "int (length axes) = getRank outShape - getRank (map int (tshape t))"
    and fs': "mark_inserted (getRank outShape) (replicate (length outShape) False) axes = Inr fs"
    and ex: "expected_unsqueeze_shape fs (map int (tshape t)) = outShape"
    and v: "v = emit_rank_change ?ty ?rty (map int (tshape t)) outShape e (adaptor 0 (usq_data op))"
    using low axes
    by (auto simp: lower_unsqueeze_def ty reshape_element_ok_def split: mtype.splits if_splits)
  have lo: "length outShape = ?n" using lo' by (simp add: getRank_def)
  have fs: "mark_inserted (int ?n) (replicate ?n False) axes = Inr fs"
    using fs' lo by (simp add: getRank_def)
  have m: "length fs = ?n" "\<forall>k<?n. fs ! k \<longleftrightarrow> k \<in> S" "length (filter (\<lambda>b. b) fs) = length axes"
    using mark_inserted_ok [OF fs] by (simp_all add: S_def)
  have kept: "length (filter Not fs) = trank t"
    using m(1,3) sum_length_filter_compl [of "\<lambda>b. b" fs] by (simp add: comp_def)
  note os = expected_unsqueeze_shape_spec [OF m(1,2) kept, folded ds_def]
  have "int (prod_list ds) = int (prod_list (tshape t))"
    using expected_unsqueeze_shape_prod [of fs "map int (tshape t)"] kept os(1) by simp
  then have "conforms ?rty (treshape ds t)"
    using wf ex os(1) by (simp add: rt conforms_Ranked wf_treshape)
  moreover have "i32_dims ds" using i32 os(2) by (auto simp: i32_dims_def)
  ultimately show ?thesis
    unfolding v spec
    by (intro tfl_layout.represents_rank_change [OF assms(1) ty rt t]) (simp_all add: adaptor_def env)
qed

theorem lower_unsqueeze_correct_witness:
  "represents reference_sem (\<lambda>_. ttranspose to_nhwc nchw_example)
     (emitReshape (RankedTensor [1, 2, 2, 3, 1] F32) [1, 2, 2, 3, 1]
        (restoreLogicalRank4 (RankedTensor [1, 2, 2, 3] F32) (Arg 0 (RankedTensor [1, 2, 3, 2] F32))))
     (RankedTensor [1, 2, 2, 3, 1] F32) (treshape [1, 2, 2, 3, 1] nchw_example)"
proof -
  let ?op = "\<lparr>usq_data = \<lparr>oty = RankedTensor [1, 2, 2, 3] F32, oattr = None\<rparr>,
      usq_axes = \<lparr>oty = RankedTensor [1] I64, oattr = Some (IntElements I64 [-1])\<rparr>,
      usq_result = RankedTensor [1, 2, 2, 3, 1] F32\<rparr> :: int unsqueeze_op"
  let ?v = "emitReshape (RankedTensor [1, 2, 2, 3, 1] F32) [1, 2, 2, 3, 1]
        (restoreLogicalRank4 (RankedTensor [1, 2, 2, 3] F32) (Arg 0 (RankedTensor [1, 2, 3, 2] F32)))"
  have "lower_unsqueeze ?op = Inr ?v" by code_simp
  then show ?thesis
    using lower_unsqueeze_correct [of reference_sem ?op ?v nchw_example "\<lambda>_. ttranspose to_nhwc nchw_example" "[-1]"]
    by (simp add: example_simps onnx_unsqueeze_def normalizeAxis_def getConstantIntValues_def elt_defs sext_def elt_width_def)
qed

end
