(* ===== verification/Lower_ConcatSplit.thy ===== *)
theory Lower_ConcatSplit
  imports TFL_Reference
begin

text \<open>
  Model of \<^verbatim>\<open>Tensor/Concat.cpp\<close> and \<^verbatim>\<open>Tensor/Split.cpp\<close>: operations along one axis, which is
  mapped to its NHWC position on rank-4 f32 tensors.
\<close>

section \<open>Concat\<close>

record 'f concat_op =
  cc_inputs :: "'f operand list"
  cc_axis :: "int option"
  cc_result :: mtype

definition adaptor_operands :: "'f operand list \<Rightarrow> 'f val list" where
  "adaptor_operands ops = map (\<lambda>i. adaptor i (ops ! i)) [0..<length ops]"

definition concat_input_ok :: "elt \<Rightarrow> int list \<Rightarrow> mtype \<Rightarrow> bool" where
  "concat_input_ok outElt outShape ty \<longleftrightarrow>
     (case ty of
        RankedTensor shape e \<Rightarrow> hasStaticShape shape \<and> e = outElt \<and> getRank shape = getRank outShape
      | _ \<Rightarrow> False)"

definition lower_concat :: "'f concat_op \<Rightarrow> 'f val result" where
  "lower_concat op =
     (if cc_inputs op = [] then Inl EmptyOperands
      else case cc_result op of
        RankedTensor outShape outElt \<Rightarrow>
          if \<not> hasStaticShape outShape \<or> \<not> isF32 outElt \<and> \<not> isInteger 1 outElt then Inl BadTypes
          else if \<not> list_all (\<lambda>v. concat_input_ok outElt outShape (oty v)) (cc_inputs op) then Inl BadTypes
          else
            let rank = getRank outShape in
            (case cc_axis op of
               None \<Rightarrow> Inl MissingAttribute
             | Some rawAxis \<Rightarrow>
                 let axis = normalizeAxis rawAxis rank in
                 if axis < 0 \<or> rank \<le> axis then Inl BadAxis
                 else
                   let axis' = (if rank = 4 \<and> isF32 outElt then mapNCHWAxisToNHWC axis else axis) in
                   Inr (createTFLOperation ''tfl.concatenation''
                     [convertRank4NCHWToNHWCType (cc_result op)] (adaptor_operands (cc_inputs op))
                     [(''axis'', IntAttr axis'), getFusedActivationNone] 0))
      | _ \<Rightarrow> Inl BadTypes)"

section \<open>Split\<close>

record 'f split_op =
  spl_input :: "'f operand"
  spl_split :: "'f operand"
  spl_axis :: "int option"
  spl_num_outputs :: "int option"
  spl_results :: "mtype list"

definition split_sizes :: "'f split_op \<Rightarrow> int \<Rightarrow> int list result" where
  "split_sizes op dimension =
     (if oty (spl_split op) \<noteq> NoneT then
        (case getConstantIntValues (spl_split op) of None \<Rightarrow> Inl NonConstant | Some vs \<Rightarrow> Inr vs)
      else
        let numResults = int (length (spl_results op));
            numOutputs = (case spl_num_outputs op of Some k \<Rightarrow> k | None \<Rightarrow> numResults) in
        if numOutputs \<noteq> numResults \<or> numOutputs \<le> 0 then Inl CountMismatch
        else
          let chunk = cdiv (dimension + numOutputs - 1) numOutputs in
          Inr (replicate (nat numOutputs - 1) chunk @ [dimension - chunk * (numOutputs - 1)]))"

definition split_result_ok :: "int list \<Rightarrow> int \<Rightarrow> int \<Rightarrow> mtype \<Rightarrow> bool" where
  "split_result_ok inShape axis sz ty \<longleftrightarrow>
     (case ty of
        RankedTensor shape e \<Rightarrow>
          \<not> failed (validateStaticF32Tensor ty) \<and> length shape = length inShape \<and>
          list_all (\<lambda>d. shape ! d = (if int d = axis then sz else inShape ! d)) [0..<length inShape]
      | _ \<Rightarrow> False)"

definition lower_split :: "'f split_op \<Rightarrow> 'f val list result" where
  "lower_split op =
     (let input = adaptor 0 (spl_input op); n = length (spl_results op) in
      case oty (spl_input op) of
        RankedTensor inShape inElt \<Rightarrow>
          if failed (validateStaticF32Tensor (vtype input)) then Inl BadTypes
          else if n = 0 \<or> int32_max < int n then Inl CountMismatch
          else
            let rank = getRank inShape;
                axis = normalizeAxis (case spl_axis op of Some a \<Rightarrow> a | None \<Rightarrow> 0) rank in
            if axis < 0 \<or> rank \<le> axis then Inl BadAxis
            else bind_result (split_sizes op (inShape ! nat axis)) (\<lambda>splitSizes.
              if length splitSizes \<noteq> n then Inl CountMismatch
              else if \<not> list_all (\<lambda>s. 0 \<le> s \<and> s \<le> int32_max) splitSizes then Inl SizeOutOfRange
              else if sum_list splitSizes \<noteq> inShape ! nat axis then Inl ShapeMismatch
              else if \<not> list_all2 (split_result_ok inShape axis) splitSizes (spl_results op)
                then Inl ShapeMismatch
              else
                let physicalAxis = (if rank = 4 then mapNCHWAxisToNHWC axis else axis);
                    resultTypes = map convertRank4NCHWToNHWCType (spl_results op) in
                Inr (map (createTFLOperation ''tfl.split_v'' resultTypes
                       [input, createI32ShapeConstant splitSizes, createI32ScalarTensorConstant (i32 physicalAxis)]
                       [(''num_splits'', IntAttr (int n))]) [0..<n]))
      | _ \<Rightarrow> Inl BadTypes)"

section \<open>Correctness of Concat\<close>

lemma eval_adaptor_operands:
  "operands_represent env ops ts \<Longrightarrow>
   map (eval sem env) (adaptor_operands ops) = map2 (\<lambda>v t. phys (oty v) t) ops ts"
  by (intro nth_equalityI) (simp_all add: operands_represent_def adaptor_operands_def adaptor_def)

lemma map_ttranspose_phys:
  assumes "length ts = length ops" and "\<And>i. i < length ops \<Longrightarrow> physical4 (oty (ops ! i)) \<longleftrightarrow> b"
  shows "map2 (\<lambda>v t. phys (oty v) t) ops ts = (if b then map (ttranspose to_nhwc) ts else ts)"
  using assms by (intro nth_equalityI) (simp_all add: phys_def)

text \<open>
  C32: when the Concat pattern succeeds, the created value represents the concatenation of the
  operands along the (possibly negative) logical axis.
\<close>

theorem lower_concat_correct:
  assumes "tfl_assembly sem" and low: "lower_concat op = Inr v"
    and ops: "operands_represent env (cc_inputs op) ts"
    and ax: "cc_axis op = Some rawAxis" "a = nat (normalizeAxis rawAxis (int (trank (hd ts))))"
    and cc: "concatable a ts" and res: "conforms (cc_result op) (tconcat a ts)"
  shows "represents sem env v (cc_result op) (tconcat a ts)"
proof -
  obtain e where rt: "cc_result op = RankedTensor (map int (tshape (tconcat a ts))) e"
    using res by (auto simp: conforms_def)
  let ?n = "trank (hd ts)" and ?b = "trank (hd ts) = 4 \<and> isF32 e"
  let ?ax = "normalizeAxis rawAxis (int ?n)"
  have v': "v = createTFLOperation ''tfl.concatenation'' [convertRank4NCHWToNHWCType (cc_result op)]
      (adaptor_operands (cc_inputs op))
      [(''axis'', IntAttr (if ?b then mapNCHWAxisToNHWC ?ax else ?ax)), getFusedActivationNone] 0"
    and ok: "list_all (\<lambda>v. concat_input_ok e (map int (tshape (tconcat a ts))) (oty v)) (cc_inputs op)"
    and axr: "0 \<le> ?ax" "?ax < int ?n"
    using low ax(1) by (auto simp: lower_concat_def rt Let_def getRank_def split: if_splits)
  have axa: "?ax = int a" and an: "a < ?n" using axr ax(2) by auto
  note v = v' [unfolded axa]
  have l: "length ts = length (cc_inputs op)" using ops by (simp add: operands_represent_def)
  have "physical4 (oty (cc_inputs op ! i)) \<longleftrightarrow> ?b" if "i < length (cc_inputs op)" for i
  proof -
    have "concat_input_ok e (map int (tshape (tconcat a ts))) (oty (cc_inputs op ! i))"
      using that ok by (simp add: list_all_length)
    then show ?thesis
      by (cases "oty (cc_inputs op ! i)") (auto simp: concat_input_ok_def getRank_def isF32_def)
  qed
  then have xs: "map (eval sem env) (adaptor_operands (cc_inputs op)) =
      (if ?b then map (ttranspose to_nhwc) ts else ts)"
    using ops l by (simp add: eval_adaptor_operands map_ttranspose_phys)
  have ph: "physical4 (cc_result op) \<longleftrightarrow> ?b" by (simp add: rt isF32_def)
  have "eval sem env v = phys (cc_result op) (tconcat a ts)"
  proof (cases ?b)
    case True
    then have p: "is_perm to_nhwc ?n" by simp
    note tc = ttranspose_tconcat [OF cc p]
    have "conforms (convertRank4NCHWToNHWCType (cc_result op)) (tconcat (ipos to_nhwc a) (map (ttranspose to_nhwc) ts))"
      using convert_conforms [OF res] ph True by (simp add: phys_def tc)
    from tfl_assembly.concatenation [OF assms(1) concatable_ttranspose [OF cc p], of "[_]", simplified, OF this]
    show ?thesis
      using True xs ph an mapped_axis [of "int a"] by (simp add: v phys_def tc)
  next
    case False
    have "conforms (convertRank4NCHWToNHWCType (cc_result op)) (tconcat a ts)"
      using convert_conforms [OF res] ph False by (auto simp: phys_def)
    from tfl_assembly.concatenation [OF assms(1) cc, of "[_]", simplified, OF this]
    show ?thesis
      using False xs ph by (auto simp: v phys_def)
  qed
  then show ?thesis using res by (simp add: represents_def v)
qed

theorem lower_concat_correct_witness:
  "represents reference_sem (\<lambda>_. ttranspose to_nhwc nchw_example)
     (createTFLOperation ''tfl.concatenation'' [RankedTensor [1, 2, 3, 4] F32]
        [Arg 0 (RankedTensor [1, 2, 3, 2] F32), Arg 1 (RankedTensor [1, 2, 3, 2] F32)]
        [(''axis'', IntAttr 3), getFusedActivationNone] 0)
     (RankedTensor [1, 4, 2, 3] F32) (tconcat 1 [nchw_example, nchw_example])"
proof -
  let ?x = "\<lparr>oty = RankedTensor [1, 2, 2, 3] F32, oattr = None\<rparr>"
  let ?op = "\<lparr>cc_inputs = [?x, ?x], cc_axis = Some (-3), cc_result = RankedTensor [1, 4, 2, 3] F32\<rparr>
      :: int concat_op"
  let ?v = "createTFLOperation ''tfl.concatenation'' [RankedTensor [1, 2, 3, 4] F32]
        [Arg 0 (RankedTensor [1, 2, 3, 2] F32), Arg 1 (RankedTensor [1, 2, 3, 2] F32)]
        [(''axis'', IntAttr 3), getFusedActivationNone] 0"
  have "lower_concat ?op = Inr ?v" by code_simp
  then show ?thesis
    using lower_concat_correct [of reference_sem ?op ?v "\<lambda>_. ttranspose to_nhwc nchw_example"
        "[nchw_example, nchw_example]" "-3" 1]
    by (simp add: example_simps operands_represent_def normalizeAxis_def concatable_def less_Suc_eq
        exI [of _ 2])
qed

section \<open>Correctness of Split\<close>

text \<open>What ONNX defines: explicit sizes, or equal chunks with a smaller last one.\<close>

definition onnx_split_sizes :: "'f split_op \<Rightarrow> nat \<Rightarrow> nat list" where
  "onnx_split_sizes op dim =
     (if oty (spl_split op) = NoneT then
        let n = length (spl_results op); chunk = (dim + n - 1) div n in
        replicate (n - 1) chunk @ [dim - chunk * (n - 1)]
      else map nat (the (getConstantIntValues (spl_split op))))"

lemma split_sizes_spec:
  assumes "split_sizes op (int dim) = Inr ss" and "list_all (\<lambda>s. 0 \<le> s \<and> s \<le> int32_max) ss"
  shows "ss = map int (onnx_split_sizes op dim)" and "i32_dims (onnx_split_sizes op dim)"
proof -
  show eq: "ss = map int (onnx_split_sizes op dim)"
  proof (cases "oty (spl_split op) = NoneT")
    case True
    let ?n = "length (spl_results op)"
    have n: "0 < ?n" and ss: "ss = replicate (?n - 1) (cdiv (int dim + int ?n - 1) (int ?n)) @
        [int dim - cdiv (int dim + int ?n - 1) (int ?n) * (int ?n - 1)]"
      using assms(1) True by (auto simp: split_sizes_def Let_def nat_diff_distrib split: if_splits)
    have d: "int dim + int ?n - 1 = int (dim + ?n - 1)" using n by linarith
    have c: "cdiv (int dim + int ?n - 1) (int ?n) = int ((dim + ?n - 1) div ?n)"
      unfolding d using n by (subst cdiv_nonneg) (simp_all only: zdiv_int of_nat_0_le_iff of_nat_0_less_iff)
    define q where "q = (dim + ?n - 1) div ?n"
    have m: "int q * (int ?n - 1) = int (q * (?n - 1))" using n by (metis int_ops(2) of_nat_diff of_nat_mult Suc_leI One_nat_def)
    have sq: "ss = replicate (?n - 1) (int q) @ [int dim - int (q * (?n - 1))]"
      unfolding ss c by (simp only: m [unfolded q_def] q_def)
    then have "int (q * (?n - 1)) \<le> int dim" using assms(2) by simp
    then have "int dim - int (q * (?n - 1)) = int (dim - q * (?n - 1))"
      by (simp only: of_nat_le_iff of_nat_diff)
    moreover have "onnx_split_sizes op dim = replicate (?n - 1) q @ [dim - q * (?n - 1)]"
      using True by (simp add: onnx_split_sizes_def Let_def q_def)
    ultimately show ?thesis unfolding sq by (simp only: map_append map_replicate list.map)
  next
    case False
    then obtain vs where "getConstantIntValues (spl_split op) = Some vs" "ss = vs"
      using assms(1) by (auto simp: split_sizes_def split: option.splits)
    then show ?thesis
      using False assms(2) by (auto simp: onnx_split_sizes_def comp_def list_all_iff intro!: map_idI [symmetric])
  qed
  show "i32_dims (onnx_split_sizes op dim)"
    using assms(2) unfolding eq by (auto simp: list_all_iff i32_dims_def int32_max_def)
qed

lemma split_result_ok_shape:
  assumes "split_result_ok (map int ds) (int a) (int s) ty" and "a < length ds"
  shows "ty = RankedTensor (map int (ds[a := s])) F32"
proof -
  obtain shape where ty: "ty = RankedTensor shape F32" and l: "length shape = length ds"
    and n: "\<forall>d<length ds. shape ! d = (if d = a then int s else int (ds ! d))"
    using assms(1) by (auto simp: split_result_ok_def failed_validate list_all_iff split: mtype.splits)
  have "shape = map int (ds[a := s])"
    using l n assms(2) by (intro nth_equalityI) (auto simp: nth_list_update)
  then show ?thesis using ty by simp
qed

text \<open>
  C31: when the Split pattern succeeds, the created values represent, in order, the consecutive
  pieces of the operand along the logical axis, with the sizes ONNX defines (given, or equal
  chunks with a smaller last one).
\<close>

theorem lower_split_correct:
  assumes "tfl_assembly sem" and low: "lower_split op = Inr vs"
    and t: "conforms (oty (spl_input op)) t" and env: "env 0 = phys (oty (spl_input op)) t"
    and a: "a = nat (normalizeAxis (case spl_axis op of Some a \<Rightarrow> a | None \<Rightarrow> 0) (int (trank t)))"
    and ns: "ns = onnx_split_sizes op (tshape t ! a)" and rank: "trank t < 2 ^ 31"
  shows "list_all2 (\<lambda>v (ty, u). represents sem env v ty u) vs (zip (spl_results op) (tsplit a ns t)) \<and>
    length vs = length (spl_results op) \<and> length ns = length (spl_results op)"
proof -
  let ?ty = "oty (spl_input op)" and ?n = "trank t" and ?m = "length (spl_results op)"
  let ?ax = "normalizeAxis (case spl_axis op of Some a \<Rightarrow> a | None \<Rightarrow> 0) (int ?n)"
  let ?pax = "if ?n = 4 then mapNCHWAxisToNHWC ?ax else ?ax"
  obtain e where ty: "?ty = RankedTensor (map int (tshape t)) e" and wf: "wf_tensor t"
    using t by (auto simp: conforms_def)
  obtain ss where axr: "0 \<le> ?ax" "?ax < int ?n" and ss: "split_sizes op (map int (tshape t) ! a) = Inr ss"
    and rng: "length ss = ?m" "list_all (\<lambda>s. 0 \<le> s \<and> s \<le> int32_max) ss"
    and sm: "sum_list ss = map int (tshape t) ! a"
    and rs: "list_all2 (split_result_ok (map int (tshape t)) ?ax) ss (spl_results op)"
    and vs: "vs = map (createTFLOperation ''tfl.split_v'' (map convertRank4NCHWToNHWCType (spl_results op))
        [adaptor 0 (spl_input op), createI32ShapeConstant ss, createI32ScalarTensorConstant (i32 ?pax)]
        [(''num_splits'', IntAttr (int ?m))]) [0..<?m]"
    and e: "\<not> failed (validateStaticF32Tensor (convertRank4NCHWToNHWCType ?ty))"
    using low a by (auto simp: lower_split_def ty Let_def adaptor_def split: if_splits)
  have axa: "?ax = int a" and an: "a < ?n" using axr a by auto
  have e32: "e = F32" using e by (auto simp: ty failed_validate convert_Ranked split: if_splits)
  note ssn = split_sizes_spec [OF ss [unfolded nth_map [OF an]] rng(2), folded ns]
  have sn: "sum_list ns = tshape t ! a" and ln: "length ns = ?m"
    using sm an rng(1) by (simp_all add: ssn(1) sum_list_map_int)
  let ?us = "tsplit a ns t"
  have res: "spl_results op ! j = RankedTensor (map int ((tshape t)[a := ns ! j])) F32"
    and con: "conforms (spl_results op ! j) (?us ! j)" if "j < ?m" for j
  proof -
    have "split_result_ok (map int (tshape t)) (int a) (int (ns ! j)) (spl_results op ! j)"
      using rs that ln by (simp add: list_all2_conv_all_nth axa ssn(1))
    from split_result_ok_shape [OF this an]
    show "spl_results op ! j = RankedTensor (map int ((tshape t)[a := ns ! j])) F32" .
    then show "conforms (spl_results op ! j) (?us ! j)"
      using that ln by (simp add: conforms_Ranked tshape_tsplit wf_tsplit)
  qed
  have ph: "physical4 (spl_results op ! j) \<longleftrightarrow> ?n = 4" if "j < ?m" for j using res [OF that] by simp
  have dec: "declares (map convertRank4NCHWToNHWCType (spl_results op))
      (if ?n = 4 then map (ttranspose to_nhwc) ?us else ?us)"
    using convert_conforms [OF con] ph ln
    by (auto simp: declares_def list_all2_conv_all_nth phys_def)
  have pax: "?pax = int (if ?n = 4 then ipos to_nhwc a else a)"
    using an mapped_axis [of "int a"] unfolding axa by simp
  have fits: "i32 ?pax = ?pax"
    using an rank ipos_bound [of to_nhwc 4 a] unfolding pax by (intro i32_id) (auto simp: fits_i32_def)
  have "sem ''tfl.split_v'' [(''num_splits'', IntAttr (int ?m))]
      (map convertRank4NCHWToNHWCType (spl_results op))
      [phys ?ty t, i32_vec (map int ns), i32_scalar ?pax] =
      (if ?n = 4 then map (ttranspose to_nhwc) ?us else ?us)"
    using tfl_assembly.split_v [OF assms(1), of "phys ?ty t" "if ?n = 4 then ipos to_nhwc a else a" ns] dec
      wf an sn ln ttranspose_tsplit [of to_nhwc t a ns] ipos_bound [of to_nhwc 4 a]
      nth_permute_ipos [of to_nhwc 4 a "tshape t"]
    unfolding pax by (auto simp: phys_def ty e32)
  then have "eval sem env (vs ! j) = phys (spl_results op ! j) (?us ! j)" if "j < ?m" for j
    using that ln ph [OF that] fits ssn
    by (simp add: vs adaptor_def env map_i32_comp_dims) (simp add: phys_def)
  then show ?thesis
    using con ln by (auto simp: list_all2_conv_all_nth represents_def vs)
qed

definition split_example :: "int split_op" where
  "split_example = \<lparr>spl_input = \<lparr>oty = RankedTensor [1, 2, 2, 3] F32, oattr = None\<rparr>,
      spl_split = \<lparr>oty = NoneT, oattr = None\<rparr>, spl_axis = Some 3, spl_num_outputs = None,
      spl_results = [RankedTensor [1, 2, 2, 2] F32, RankedTensor [1, 2, 2, 1] F32]\<rparr>"

theorem lower_split_correct_witness:
  "list_all2 (\<lambda>v (ty, u). represents reference_sem (\<lambda>_. ttranspose to_nhwc nchw_example) v ty u)
     (map (createTFLOperation ''tfl.split_v'' [RankedTensor [1, 2, 2, 2] F32, RankedTensor [1, 2, 1, 2] F32]
        [Arg 0 (RankedTensor [1, 2, 3, 2] F32), createI32ShapeConstant [2, 1],
         createI32ScalarTensorConstant 2] [(''num_splits'', IntAttr 2)]) [0, 1])
     (zip (spl_results split_example) (tsplit 3 [2, 1] nchw_example))"
proof -
  let ?vs = "map (createTFLOperation ''tfl.split_v''
        [RankedTensor [1, 2, 2, 2] F32, RankedTensor [1, 2, 1, 2] F32]
        [Arg 0 (RankedTensor [1, 2, 3, 2] F32), createI32ShapeConstant [2, 1],
         createI32ScalarTensorConstant 2] [(''num_splits'', IntAttr 2)]) [0, 1]"
  have "lower_split split_example = Inr ?vs" by code_simp
  moreover have "onnx_split_sizes split_example 3 = [2, 1]" by code_simp
  ultimately show ?thesis
    by (intro lower_split_correct [where op = split_example and a = 3, THEN conjunct1])
      (simp_all add: example_simps normalizeAxis_def split_example_def)
qed

end
