(* ===== verification/Lower_Slice.thy ===== *)
theory Lower_Slice
  imports TFL_Reference
begin

text \<open>
  Model of \<^verbatim>\<open>Tensor/Slice.cpp\<close>. The loop over the sliced axes computes begin, end, size and
  positive stride per axis and the axes to reverse; above rank 5 untouched axes of size 1 are
  collapsed; on rank-4 f32 tensors the parameters move to their NHWC positions.
\<close>

section \<open>The loop over the sliced axes\<close>

record 'f slice_op =
  sl_data :: "'f operand"
  sl_starts :: "'f operand"
  sl_ends :: "'f operand"
  sl_axes :: "'f operand"
  sl_steps :: "'f operand"
  sl_result :: mtype

record slice_params =
  sp_begin :: "int list"
  sp_end :: "int list"
  sp_size :: "int list"
  sp_stride :: "int list"
  sp_reverse :: "int list"
  sp_strided :: bool

definition adjustAndClamp :: "int \<Rightarrow> int \<Rightarrow> int" where
  "adjustAndClamp dimension value =
     (if value < 0 then
        if value < - dimension then 0 else clamp (value + dimension) 0 dimension
      else clamp value 0 dimension)"

definition adjustAndClampNegative :: "int \<Rightarrow> int \<Rightarrow> int" where
  "adjustAndClampNegative dimension value =
     (if value < 0 then
        if value < - dimension then -1 else clamp (value + dimension) (-1) (dimension - 1)
      else clamp value (-1) (dimension - 1))"

definition slice_axis_positive :: "int \<Rightarrow> int \<Rightarrow> int \<Rightarrow> int \<Rightarrow> nat \<Rightarrow> slice_params \<Rightarrow> slice_params" where
  "slice_axis_positive dimension startValue endValue step axis p =
     (let start = adjustAndClamp dimension startValue; stop = adjustAndClamp dimension endValue in
      p\<lparr>sp_begin := (sp_begin p)[axis := start], sp_end := (sp_end p)[axis := stop],
        sp_stride := (sp_stride p)[axis := step],
        sp_size := (sp_size p)[axis := if start < stop then cdiv (i64 (stop - start + step - 1)) step else 0],
        sp_strided := sp_strided p \<or> step \<noteq> 1\<rparr>)"

definition slice_axis_negative :: "int \<Rightarrow> int \<Rightarrow> int \<Rightarrow> int \<Rightarrow> nat \<Rightarrow> slice_params \<Rightarrow> slice_params" where
  "slice_axis_negative dimension startValue endValue step axis p =
     (let start = adjustAndClampNegative dimension startValue;
          stop = adjustAndClampNegative dimension endValue; positiveStep = - step in
      p\<lparr>sp_reverse := sp_reverse p @ [int axis],
        sp_begin := (sp_begin p)[axis := dimension - 1 - start],
        sp_end := (sp_end p)[axis := dimension - 1 - stop],
        sp_stride := (sp_stride p)[axis := positiveStep],
        sp_size := (sp_size p)[axis :=
          if stop < start then cdiv (i64 (start - stop + positiveStep - 1)) positiveStep else 0],
        sp_strided := sp_strided p \<or> positiveStep \<noteq> 1\<rparr>)"

fun slice_loop ::
  "int list \<Rightarrow> bool list \<Rightarrow> (int \<times> int \<times> int \<times> int) list \<Rightarrow> slice_params \<Rightarrow> slice_params result" where
  "slice_loop shape seen [] p = Inr p"
| "slice_loop shape seen ((startValue, endValue, axisValue, step) # rest) p =
     (let axis = normalizeAxis axisValue (getRank shape) in
      if axis < 0 \<or> getRank shape \<le> axis \<or> seen ! nat axis then Inl BadAxis
      else if step = 0 \<or> step = int64_min then Inl BadStep
      else
        let dimension = shape ! nat axis in
        slice_loop shape (seen[nat axis := True]) rest
          (if 0 < step then slice_axis_positive dimension startValue endValue step (nat axis) p
           else slice_axis_negative dimension startValue endValue step (nat axis) p))"

definition initial_params :: "int list \<Rightarrow> slice_params" where
  "initial_params shape =
     \<lparr>sp_begin = replicate (length shape) 0, sp_end = shape, sp_size = shape,
      sp_stride = replicate (length shape) 1, sp_reverse = [], sp_strided = False\<rparr>"

definition slice_arguments :: "'f slice_op \<Rightarrow> (int \<times> int \<times> int \<times> int) list result" where
  "slice_arguments op =
     (case (getConstantIntValues (sl_starts op), getConstantIntValues (sl_ends op)) of
        (Some starts, Some ends) \<Rightarrow>
          (case (if oty (sl_axes op) = NoneT then Some (map int [0..<length starts])
                 else getConstantIntValues (sl_axes op)) of
             None \<Rightarrow> Inl NonConstant
           | Some axes \<Rightarrow>
               (case (if oty (sl_steps op) = NoneT then Some (replicate (length starts) 1)
                      else getConstantIntValues (sl_steps op)) of
                  None \<Rightarrow> Inl NonConstant
                | Some steps \<Rightarrow>
                    if length starts \<noteq> length ends \<or> length starts \<noteq> length axes \<or>
                       length starts \<noteq> length steps then Inl CountMismatch
                    else Inr (zip starts (zip ends (zip axes steps)))))
      | _ \<Rightarrow> Inl NonConstant)"

section \<open>Collapsing untouched axes above rank 5\<close>

definition erase :: "nat \<Rightarrow> 'a list \<Rightarrow> 'a list" where
  "erase k xs = take k xs @ drop (Suc k) xs"

lemma length_erase [simp]: "k < length xs \<Longrightarrow> length (erase k xs) = length xs - 1"
  by (simp add: erase_def)

definition collapsible :: "slice_params \<Rightarrow> int list \<Rightarrow> nat \<Rightarrow> bool" where
  "collapsible p shape axis \<longleftrightarrow>
     shape ! axis = 1 \<and> sp_begin p ! axis = 0 \<and> sp_size p ! axis = 1 \<and> sp_stride p ! axis = 1 \<and>
     int axis \<notin> set (sp_reverse p)"

definition erase_axis :: "nat \<Rightarrow> slice_params \<Rightarrow> slice_params" where
  "erase_axis axis p =
     p\<lparr>sp_begin := erase axis (sp_begin p), sp_end := erase axis (sp_end p),
       sp_size := erase axis (sp_size p), sp_stride := erase axis (sp_stride p),
       sp_reverse := map (\<lambda>r. if int axis < r then r - 1 else r) (sp_reverse p)\<rparr>"

function collapse_axes ::
  "slice_params \<Rightarrow> int list \<Rightarrow> nat list \<Rightarrow> (slice_params \<times> int list \<times> nat list) result" where
  "collapse_axes p shape collapsed =
     (if length shape \<le> 5 then Inr (p, shape, collapsed)
      else case find (collapsible p shape) [0..<length shape] of
        None \<Rightarrow> Inl NoRankReduction
      | Some axis \<Rightarrow> collapse_axes (erase_axis axis p) (erase axis shape) (collapsed @ [axis]))"
  by pat_completeness auto
termination
  by (relation "measure (\<lambda>(p, shape, collapsed). length shape)") (auto simp: find_Some_iff)

declare collapse_axes.simps [simp del]

section \<open>The NHWC positions\<close>

definition to_physical_list :: "int list \<Rightarrow> int list" where
  "to_physical_list xs =
     foldl (\<lambda>ys axis. ys[nat (mapNCHWAxisToNHWC axis) := xs ! nat axis]) (replicate 4 0) [0, 1, 2, 3]"

definition physical_params :: "slice_params \<Rightarrow> slice_params" where
  "physical_params p =
     p\<lparr>sp_begin := to_physical_list (sp_begin p), sp_end := to_physical_list (sp_end p),
       sp_size := to_physical_list (sp_size p), sp_stride := to_physical_list (sp_stride p),
       sp_reverse := map mapNCHWAxisToNHWC (sp_reverse p)\<rparr>"

section \<open>The pattern\<close>

definition emit_reverse :: "int list \<Rightarrow> 'f val \<Rightarrow> 'f val" where
  "emit_reverse reverseAxes data =
     foldl (\<lambda>v axis. createTFLOperation ''tfl.reverse_v2'' [vtype v] [v, createI32ShapeConstant [axis]] [] 0)
       data reverseAxes"

definition emit_select :: "slice_params \<Rightarrow> mtype \<Rightarrow> 'f val \<Rightarrow> 'f val" where
  "emit_select p resultType data =
     (let data' = emit_reverse (sp_reverse p) data; beginValue = createI32ShapeConstant (sp_begin p) in
      if sp_strided p then
        createTFLOperation ''tfl.strided_slice'' [resultType]
          [data', beginValue, createI32ShapeConstant (sp_end p), createI32ShapeConstant (sp_stride p)]
          no_masks 0
      else
        createTFLOperation ''tfl.slice'' [resultType]
          [data', beginValue, createI32ShapeConstant (sp_size p)] [] 0)"

definition params_fit :: "slice_params \<Rightarrow> bool" where
  "params_fit p \<longleftrightarrow> list_all fits_i32 (sp_begin p) \<and> list_all fits_i32 (sp_end p) \<and>
     list_all fits_i32 (sp_size p) \<and> list_all fits_i32 (sp_stride p)"

definition emit_slice ::
  "slice_params \<Rightarrow> int list \<Rightarrow> nat list \<Rightarrow> int list \<Rightarrow> elt \<Rightarrow> 'f val \<Rightarrow> 'f val result" where
  "emit_slice p compactInputShape collapsed outShape e data =
     (let data' = (if collapsed \<noteq> [] then emitReshape (RankedTensor compactInputShape e) compactInputShape data
                   else data);
          p' = (if isF32 e \<and> length compactInputShape = 4 then physical_params p else p);
          finalResultType = convertRank4NCHWToNHWCType (RankedTensor outShape e);
          resultType = (if collapsed \<noteq> [] then RankedTensor (fold erase collapsed outShape) e
                        else finalResultType) in
      case (resultType, finalResultType) of
        (RankedTensor resultShape _, RankedTensor finalShape _) \<Rightarrow>
          if sp_size p' \<noteq> resultShape then Inl ShapeMismatch
          else if \<not> params_fit p' then Inl TooLarge
          else
            let result = emit_select p' resultType data' in
            Inr (if collapsed \<noteq> [] then emitReshape finalResultType finalShape result else result)
      | _ \<Rightarrow> Inl BadTypes)"

definition lower_slice :: "'f slice_op \<Rightarrow> 'f val result" where
  "lower_slice op =
     (case (oty (sl_data op), sl_result op) of
        (RankedTensor inShape inElt, RankedTensor outShape outElt) \<Rightarrow>
          if \<not> (hasStaticShape inShape \<and> hasStaticShape outShape \<and> inElt = outElt \<and>
                (isF32 inElt \<or> isInteger 1 inElt)) then Inl BadTypes
          else bind_result (slice_arguments op) (\<lambda>args.
            bind_result (slice_loop inShape (replicate (length inShape) False) args (initial_params inShape))
              (\<lambda>p. bind_result (collapse_axes p inShape []) (\<lambda>(p', compactInputShape, collapsed).
                 emit_slice p' compactInputShape collapsed outShape inElt (adaptor 0 (sl_data op)))))
      | _ \<Rightarrow> Inl BadTypes)"

section \<open>What ONNX defines\<close>

text \<open>
  The positions that a slice selects on one axis: \<open>start + i * step\<close> for the \<open>i\<close> below the count,
  with the bounds clamped for the sign of the step.
\<close>

definition slice_start :: "int \<Rightarrow> int \<Rightarrow> int \<Rightarrow> int" where
  "slice_start dim v step =
     (let w = (if v < 0 then v + dim else v) in
      if 0 < step then max 0 (min w dim) else max (-1) (min w (dim - 1)))"

definition slice_count :: "int \<Rightarrow> int \<Rightarrow> int \<Rightarrow> nat" where
  "slice_count start stop step =
     (if 0 < step then nat ((stop - start + step - 1) div step)
      else nat ((start - stop + (- step) - 1) div (- step)))"

definition slice_axis :: "nat \<Rightarrow> int \<times> int \<times> int \<Rightarrow> nat \<times> (nat \<Rightarrow> nat)" where
  "slice_axis dim arg =
     (case arg of (s, e, step) \<Rightarrow>
        let start = slice_start (int dim) s step; stop = slice_start (int dim) e step in
        (slice_count start stop step, \<lambda>i. nat (start + int i * step)))"

definition slice_args_of :: "nat \<Rightarrow> (int \<times> int \<times> int \<times> int) list \<Rightarrow> nat \<Rightarrow> (int \<times> int \<times> int) option" where
  "slice_args_of rank args =
     map_of (map (\<lambda>(s, e, a, st). (nat (normalizeAxis a (int rank)), (s, e, st))) args)"

definition onnx_slice_axes :: "nat list \<Rightarrow> (int \<times> int \<times> int \<times> int) list \<Rightarrow> (nat \<times> (nat \<Rightarrow> nat)) list" where
  "onnx_slice_axes ds args =
     map (\<lambda>k. case slice_args_of (length ds) args k of
                None \<Rightarrow> (ds ! k, \<lambda>i. i) | Some arg \<Rightarrow> slice_axis (ds ! k) arg) [0..<length ds]"

definition onnx_slice :: "(int \<times> int \<times> int \<times> int) list \<Rightarrow> 'a tensor \<Rightarrow> 'a tensor" where
  "onnx_slice args t =
     taxis (map fst (onnx_slice_axes (tshape t) args)) (map snd (onnx_slice_axes (tshape t) args)) t"

lemma le_zdiv_iff: "0 < s \<Longrightarrow> k \<le> y div s \<longleftrightarrow> k * s \<le> y" for k s y :: int
proof
  assume "0 < s" "k \<le> y div s"
  then have "k * s \<le> y div s * s" by (intro mult_right_mono) auto
  also have "\<dots> \<le> y" using \<open>0 < s\<close> by (metis div_mult_mod_eq le_add_same_cancel1 pos_mod_sign)
  finally show "k * s \<le> y" .
next
  assume "0 < s" "k * s \<le> y"
  then show "k \<le> y div s" using zdiv_mono1 [of "k * s" y s] by simp
qed

text \<open>The count is the number of positions before the bound, in the direction of the step.\<close>

lemma slice_count_iff:
  assumes "step \<noteq> 0"
  shows "i < slice_count start stop step \<longleftrightarrow>
    (if 0 < step then start + int i * step < stop else stop < start + int i * step)"
proof -
  have "i < nat ((x + s - 1) div s) \<longleftrightarrow> int i * s < x" if "0 < s" for x s :: int
  proof -
    have "i < nat ((x + s - 1) div s) \<longleftrightarrow> int i + 1 \<le> (x + s - 1) div s" by linarith
    also have "\<dots> \<longleftrightarrow> (int i + 1) * s \<le> x + s - 1" using that by (rule le_zdiv_iff)
    also have "\<dots> \<longleftrightarrow> int i * s < x" by (auto simp: algebra_simps)
    finally show ?thesis .
  qed
  from this [of step "stop - start"] this [of "- step" "start - stop"] assms show ?thesis
    by (auto simp: slice_count_def algebra_simps)
qed

section \<open>Selections on a tensor\<close>

lemma strided_count_bound:
  assumes "i < strided_count b e s" and "0 < s" shows "b + i * s < e"
proof -
  have b: "b < e" and "i < (e - b + s - 1) div s" using assms by (simp_all add: strided_count_def split: if_splits)
  then have "Suc i \<le> (e - b + s - 1) div s" by simp
  then have "Suc i * s \<le> (e - b + s - 1) div s * s" by (rule mult_le_mono1)
  also have "\<dots> \<le> e - b + s - 1" by (rule div_times_less_eq_dividend)
  finally show ?thesis using b assms(2) by simp
qed

lemma strided_count_one: "strided_count b e (Suc 0) = e - b"
  by (simp add: strided_count_def)

definition sel_ok :: "nat list \<Rightarrow> slice_params \<Rightarrow> bool" where
  "sel_ok ds p \<longleftrightarrow> length (sp_begin p) = length ds \<and> length (sp_end p) = length ds \<and>
     length (sp_size p) = length ds \<and> length (sp_stride p) = length ds \<and>
     (\<forall>k<length ds. 0 \<le> sp_begin p ! k \<and> sp_begin p ! k \<le> int (ds ! k) \<and>
        0 \<le> sp_end p ! k \<and> sp_end p ! k \<le> int (ds ! k) \<and> 0 < sp_stride p ! k \<and>
        sp_size p ! k = int (strided_count (nat (sp_begin p ! k)) (nat (sp_end p ! k)) (nat (sp_stride p ! k)))) \<and>
     distinct (sp_reverse p) \<and> (\<forall>r\<in>set (sp_reverse p). 0 \<le> r \<and> r < int (length ds)) \<and>
     (\<not> sp_strided p \<longrightarrow> (\<forall>k<length ds. sp_stride p ! k = 1))"

definition sel_fun :: "slice_params \<Rightarrow> nat list \<Rightarrow> nat \<Rightarrow> nat \<Rightarrow> nat" where
  "sel_fun p ds k i =
     (let j = nat (sp_begin p ! k) + i * nat (sp_stride p ! k) in
      if int k \<in> set (sp_reverse p) then ds ! k - 1 - j else j)"

definition selection :: "slice_params \<Rightarrow> 'a tensor \<Rightarrow> 'a tensor" where
  "selection p x = taxis (map nat (sp_size p)) (map (sel_fun p (tshape x)) [0..<trank x]) x"

lemma sel_ok_bound:
  assumes "sel_ok ds p" and "k < length ds" and "i < nat (sp_size p ! k)"
  shows "nat (sp_begin p ! k) + i * nat (sp_stride p ! k) < ds ! k" and "sel_fun p ds k i < ds ! k"
proof -
  have "i < strided_count (nat (sp_begin p ! k)) (nat (sp_end p ! k)) (nat (sp_stride p ! k))"
    and "0 < nat (sp_stride p ! k)" and "nat (sp_end p ! k) \<le> ds ! k"
    using assms by (auto simp: sel_ok_def)
  then show b: "nat (sp_begin p ! k) + i * nat (sp_stride p ! k) < ds ! k"
    by (meson less_le_trans strided_count_bound)
  then show "sel_fun p ds k i < ds ! k" by (auto simp: sel_fun_def Let_def)
qed

lemma sel_ok_valid:
  assumes ok: "sel_ok ds p" and v: "valid_ix (map nat (sp_size p)) is"
  shows "valid_ix ds (apply_ix (map (sel_fun p ds) [0..<length ds]) is)"
proof (rule valid_ixI)
  have l: "length (sp_size p) = length ds" using ok by (simp add: sel_ok_def)
  then show "length (apply_ix (map (sel_fun p ds) [0..<length ds]) is) = length ds"
    using valid_ix_length [OF v] by simp
  fix k assume "k < length ds"
  with l show "apply_ix (map (sel_fun p ds) [0..<length ds]) is ! k < ds ! k"
    using valid_ix_length [OF v] valid_ix_nth [OF v, of k] sel_ok_bound(2) [OF ok] by simp
qed

text \<open>Reversing a list of distinct axes one after the other.\<close>

definition rev_ix :: "nat list \<Rightarrow> nat list \<Rightarrow> (nat \<Rightarrow> nat) list" where
  "rev_ix ds as = map (\<lambda>k. if k \<in> set as then (\<lambda>i. ds ! k - 1 - i) else id) [0..<length ds]"

lemma valid_rev_ix: "valid_ix ds is \<Longrightarrow> valid_ix ds (apply_ix (rev_ix ds as) is)"
  by (intro valid_ixI) (auto simp: rev_ix_def valid_ix_length dest: valid_ix_nth)

lemma treverse_taxis:
  assumes "a < length ds" and "a \<notin> set as"
  shows "treverse a (taxis ds (rev_ix ds as) x) = taxis ds (rev_ix ds (as @ [a])) x"
proof -
  have r: "(replicate (length ds) id)[a := \<lambda>i. ds ! a - 1 - i] = rev_ix ds [a]"
    using assms by (intro nth_equalityI) (auto simp: rev_ix_def nth_list_update)
  have "map2 (\<lambda>g h. g \<circ> h) (rev_ix ds as) (rev_ix ds [a]) = rev_ix ds (as @ [a])"
    using assms by (intro nth_equalityI) (auto simp: rev_ix_def)
  moreover have "length (rev_ix ds as) = length ds" "length (rev_ix ds [a]) = length ds"
    by (simp_all add: rev_ix_def)
  ultimately show ?thesis
    unfolding treverse_def tshape_taxis r by (simp add: taxis_taxis valid_rev_ix)
qed

lemma foldl_treverse:
  assumes "distinct as" and "\<forall>a\<in>set as. a < trank x" and "wf_tensor x"
  shows "foldl (\<lambda>y a. treverse a y) x as = taxis (tshape x) (rev_ix (tshape x) as) x"
  using assms
proof (induction as rule: rev_induct)
  case Nil
  have "apply_ix (rev_ix (tshape x) []) is = is" if "valid_ix (tshape x) is" for "is"
    using valid_ix_length [OF that] by (intro nth_equalityI) (simp_all add: rev_ix_def)
  with Nil show ?case by (intro tensor_eqI) auto
next
  case (snoc a as)
  then show ?case by (simp add: treverse_taxis)
qed

lemma selection_eq:
  assumes ok: "sel_ok (tshape x) p" and wf: "wf_tensor x"
  shows "tslice (map nat (sp_begin p)) (map nat (sp_size p)) (map nat (sp_stride p))
      (foldl (\<lambda>y a. treverse a y) x (map nat (sp_reverse p))) = selection p x"
proof -
  let ?ds = "tshape x" and ?as = "map nat (sp_reverse p)"
  let ?hs = "map2 (\<lambda>b s i. b + i * s) (map nat (sp_begin p)) (map nat (sp_stride p))"
  have l: "length (sp_begin p) = length ?ds" "length (sp_stride p) = length ?ds" "length (sp_size p) = length ?ds"
    using ok by (simp_all add: sel_ok_def)
  have rs: "distinct ?as" "\<forall>a\<in>set ?as. a < trank x"
    using ok by (auto simp: sel_ok_def distinct_map inj_on_def nat_less_iff eq_nat_nat_iff)
  have mem: "k \<in> set ?as \<longleftrightarrow> int k \<in> set (sp_reverse p)" for k
    using ok by (force simp: sel_ok_def image_iff)
  have val: "valid_ix ?ds (apply_ix ?hs is)" if v: "valid_ix (map nat (sp_size p)) is" for "is"
  proof (rule valid_ixI)
    fix k assume k: "k < length ?ds"
    then have "is ! k < nat (sp_size p ! k)" "length is = length ?ds"
      using valid_ix_nth [OF v, of k] valid_ix_length [OF v] l by simp_all
    with k l show "apply_ix ?hs is ! k < ?ds ! k" using sel_ok_bound(1) [OF ok k] by simp
  qed (use valid_ix_length [OF v] l in simp)
  have "map2 (\<lambda>g h. g \<circ> h) (rev_ix ?ds ?as) ?hs = map (sel_fun p ?ds) [0..<length ?ds]"
    using l by (intro nth_equalityI ext)
      (simp_all add: rev_ix_def mem comp_def sel_fun_def Let_def fun_eq_iff del: set_map)
  moreover have "length (rev_ix ?ds ?as) = length ?ds" by (simp add: rev_ix_def)
  ultimately show ?thesis
    unfolding foldl_treverse [OF rs wf] tslice_def selection_def
    using val l by (subst taxis_taxis) simp_all
qed

section \<open>The emitted operations compute the selection\<close>

lemma vtype_emit_reverse [simp]: "vtype (emit_reverse as v) = vtype v"
  by (induction as rule: rev_induct) (simp_all add: emit_reverse_def)

lemma tshape_foldl_treverse [simp]: "tshape (foldl (\<lambda>y a. treverse a y) x as) = tshape x"
  by (induction as rule: rev_induct) simp_all

lemma wf_foldl_treverse: "wf_tensor x \<Longrightarrow> wf_tensor (foldl (\<lambda>y a. treverse a y) x as)"
  by (induction as rule: rev_induct) simp_all

lemma map_i32_fit: "list_all fits_i32 vs \<Longrightarrow> map i32 vs = vs"
  by (simp add: list_all_iff map_idI)

lemma map_int_nat: "\<forall>k<length vs. 0 \<le> vs ! k \<Longrightarrow> map int (map nat vs) = vs"
  by (intro nth_equalityI) simp_all

context tfl_slicing
begin

lemma eval_emit_reverse:
  assumes "wf_tensor x" and "eval sem env v = x" and "vtype v = RankedTensor (map int (tshape x)) e"
    and "\<forall>a\<in>set as. 0 \<le> a \<and> a < int (trank x)" and "trank x \<le> 5"
  shows "eval sem env (emit_reverse as v) = foldl (\<lambda>y a. treverse a y) x (map nat as)"
  using assms
proof (induction as rule: rev_induct)
  case (snoc a as)
  let ?y = "foldl (\<lambda>y a. treverse a y) x (map nat as)"
  have y: "eval sem env (emit_reverse as v) = ?y" using snoc by simp
  have "sem ''tfl.reverse_v2'' [] [vtype v] [?y, i32_vec [int (nat a)]] = [treverse (nat a) ?y]"
    using snoc.prems by (intro reverse_v2) (auto simp: wf_foldl_treverse conforms_Ranked nat_less_iff)
  moreover have "i32 a = a" using snoc.prems by (intro i32_id) (auto simp: fits_i32_def)
  moreover have "int (nat a) = a" using snoc.prems by simp
  moreover have "emit_reverse (as @ [a]) v = createTFLOperation ''tfl.reverse_v2'' [vtype v]
      [emit_reverse as v, createI32ShapeConstant [a]] [] 0"
    using vtype_emit_reverse [of as v] by (simp add: emit_reverse_def)
  ultimately show ?case using y by simp
qed (simp add: emit_reverse_def)

lemma eval_emit_select:
  assumes ok: "sel_ok (tshape x) p" and fit: "params_fit p" and wf: "wf_tensor x"
    and v: "eval sem env v = x" "vtype v = RankedTensor (map int (tshape x)) e" and five: "trank x \<le> 5"
  shows "eval sem env (emit_select p (RankedTensor (sp_size p) e') v) = selection p x"
proof -
  let ?n = "trank x" and ?y = "foldl (\<lambda>y a. treverse a y) x (map nat (sp_reverse p))"
  let ?bs = "map nat (sp_begin p)" and ?ns = "map nat (sp_size p)"
  let ?es = "map nat (sp_end p)" and ?ss = "map nat (sp_stride p)"
  have l: "length (sp_begin p) = ?n" "length (sp_end p) = ?n" "length (sp_stride p) = ?n" "length (sp_size p) = ?n"
    using ok by (simp_all add: sel_ok_def)
  have nn: "map i32 (sp_begin p) = map int ?bs" "map i32 (sp_end p) = map int ?es"
    "map i32 (sp_size p) = map int ?ns" "map i32 (sp_stride p) = map int ?ss" "sp_size p = map int ?ns"
    using ok fit
    by (simp_all add: map_i32_fit params_fit_def map_int_nat sel_ok_def order_less_imp_le del: map_map)
  have y: "eval sem env (emit_reverse (sp_reverse p) v) = ?y" "wf_tensor ?y" "trank ?y = ?n"
    using ok wf v five by (auto simp: sel_ok_def wf_foldl_treverse intro: eval_emit_reverse)
  have sel: "tslice ?bs ?ns ?ss ?y = selection p x" using ok wf by (rule selection_eq)
  have con: "conforms (RankedTensor (sp_size p) e') (selection p x)"
    using nn(5) by (simp add: conforms_Ranked selection_def del: map_map)
  show ?thesis
  proof (cases "sp_strided p")
    case True
    have cnt: "?ns = map (\<lambda>k. strided_count (?bs ! k) (?es ! k) (?ss ! k)) [0..<trank ?y]"
      using l ok by (intro nth_equalityI) (simp_all add: sel_ok_def)
    have "\<forall>k<trank ?y. ?bs ! k \<le> tshape ?y ! k \<and> ?es ! k \<le> tshape ?y ! k \<and> 0 < ?ss ! k"
      using ok l by (auto simp: sel_ok_def)
    then have "sem ''tfl.strided_slice'' no_masks [RankedTensor (sp_size p) e']
        [?y, i32_vec (map int ?bs), i32_vec (map int ?es), i32_vec (map int ?ss)] = [tslice ?bs ?ns ?ss ?y]"
      using y l con by (intro strided_slice [OF y(2) _ _ _ _ cnt]) (simp_all add: sel)
    then show ?thesis
      using True y(1) nn by (simp add: emit_select_def Let_def sel del: map_map)
  next
    case False
    then have "?ss = replicate ?n 1" using ok l by (intro nth_equalityI) (simp_all add: sel_ok_def)
    moreover have "\<forall>k<trank ?y. ?bs ! k + ?ns ! k \<le> tshape ?y ! k"
      using ok l False by (auto simp: sel_ok_def strided_count_one)
    ultimately have "sem ''tfl.slice'' [] [RankedTensor (sp_size p) e']
        [?y, i32_vec (map int ?bs), i32_vec (map int ?ns)] = [tslice ?bs ?ns ?ss ?y]"
      using y l con sel slice [of ?y ?bs ?ns "[RankedTensor (sp_size p) e']"] by simp
    then show ?thesis
      using False y(1) nn by (simp add: emit_select_def Let_def sel del: map_map)
  qed
qed

end

section \<open>Selections and layouts\<close>

lemma to_physical_list_permute: "length xs = 4 \<Longrightarrow> to_physical_list xs = permute to_nhwc xs"
  by (elim length_4_cases) (simp add: to_physical_list_def numeral_eq_Suc)

lemma nhwc_position: "k < 4 \<Longrightarrow> int k \<in> mapNCHWAxisToNHWC ` S \<longleftrightarrow> int (to_nhwc ! k) \<in> S"
  if "\<forall>r\<in>S. 0 \<le> r \<and> r < 4"
proof
  assume "k < 4" and "int k \<in> mapNCHWAxisToNHWC ` S"
  then obtain r where "r \<in> S" "int k = mapNCHWAxisToNHWC r" by auto
  then have "to_nhwc ! k = nat r" and "0 \<le> r"
    using that mapNCHWAxisToNHWC_layout(3) [of r] by (metis nat_int, blast)
  then show "int (to_nhwc ! k) \<in> S" using \<open>r \<in> S\<close> by simp
next
  assume "k < 4" and s: "int (to_nhwc ! k) \<in> S"
  then obtain a where a: "0 \<le> a" "a < 4" "nat (mapNCHWAxisToNHWC a) = k"
    by (metis nhwc.amap_surj of_nat_numeral)
  then have "int k = mapNCHWAxisToNHWC a" "int (to_nhwc ! k) = a"
    using mapNCHWAxisToNHWC_layout [of a] by auto
  with s show "int k \<in> mapNCHWAxisToNHWC ` S" by auto
qed

lemma sel_ok_physical:
  assumes ok: "sel_ok ds p" and l: "length ds = 4"
  shows "sel_ok (permute to_nhwc ds) (physical_params p)"
proof -
  have q: "to_nhwc ! k < 4" if "k < 4" for k using that by (intro is_perm_nth_less [OF is_perm_to_nhwc])
  have r: "distinct (sp_reverse p)" "\<forall>r\<in>set (sp_reverse p). 0 \<le> r \<and> r < 4" using ok l by (auto simp: sel_ok_def)
  have "inj_on mapNCHWAxisToNHWC (set (sp_reverse p))"
    using r(2) by (intro inj_onI) (metis nhwc.amap_inj of_nat_numeral)
  then have "distinct (map mapNCHWAxisToNHWC (sp_reverse p))" using r(1) by (simp add: distinct_map)
  moreover have "\<forall>a\<in>set (sp_reverse p). 0 \<le> mapNCHWAxisToNHWC a \<and> mapNCHWAxisToNHWC a < 4"
    using r(2) mapNCHWAxisToNHWC_layout by blast
  ultimately show ?thesis
    using ok l q by (simp add: sel_ok_def physical_params_def to_physical_list_permute)
qed

lemma selection_physical:
  assumes ok: "sel_ok (tshape x) p" and l: "trank x = 4"
  shows "ttranspose to_nhwc (selection p x) = selection (physical_params p) (ttranspose to_nhwc x)"
proof -
  let ?ds = "tshape x"
  have q: "to_nhwc ! k < 4" if "k < 4" for k using that by (intro is_perm_nth_less [OF is_perm_to_nhwc])
  have ls: "length (sp_begin p) = 4" "length (sp_stride p) = 4" "length (sp_size p) = 4"
    and r: "\<forall>r\<in>set (sp_reverse p). 0 \<le> r \<and> r < 4"
    using ok l by (simp_all add: sel_ok_def)
  have "permute to_nhwc (map (sel_fun p ?ds) [0..<4]) =
      map (sel_fun (physical_params p) (permute to_nhwc ?ds)) [0..<4]"
    using q ls nhwc_position [OF r]
    by (intro nth_equalityI ext)
      (simp_all add: sel_fun_def Let_def physical_params_def to_physical_list_permute fun_eq_iff)
  moreover have "permute to_nhwc (map nat (sp_size p)) = map nat (sp_size (physical_params p))"
    using ls q by (intro nth_equalityI) (simp_all add: physical_params_def to_physical_list_permute)
  ultimately show ?thesis
    unfolding selection_def using l ls sel_ok_valid [OF ok] by (simp add: ttranspose_taxis [where n = 4])
qed

section \<open>Collapsing one axis\<close>

definition skip :: "nat \<Rightarrow> nat \<Rightarrow> nat" where
  "skip a k = (if k < a then k else Suc k)"

lemma skip_less: "k < n - 1 \<Longrightarrow> skip a k < n"
  by (simp add: skip_def less_diff_conv)

lemma nth_erase: "k < length xs - 1 \<Longrightarrow> a < length xs \<Longrightarrow> erase a xs ! k = xs ! skip a k"
  by (auto simp: erase_def skip_def nth_append min_def)

lemma erase_map: "erase a (map f xs) = map f (erase a xs)"
  by (simp add: erase_def take_map drop_map)

lemma set_erase: "set (erase a xs) \<subseteq> set xs"
  by (auto simp: erase_def dest: in_set_takeD in_set_dropD)

lemma erase_not_dropped:
  "a < length xs \<Longrightarrow> erase a xs = not_dropped ((replicate (length xs) False)[a := True]) xs"
proof (induction xs arbitrary: a)
  case (Cons x xs)
  have n: "not_dropped (replicate (length xs) False) xs = xs" by (induction xs) auto
  from Cons show ?case by (cases a) (simp_all add: erase_def n)
qed simp

lemma drops_ones_single: "a < length ns \<Longrightarrow> ns ! a = 1 \<Longrightarrow> drops_ones ((replicate (length ns) False)[a := True]) ns"
  by (auto simp: drops_ones_def nth_list_update)

lemma prod_list_erase: "a < length ns \<Longrightarrow> ns ! a = 1 \<Longrightarrow> prod_list (erase a ns) = prod_list ns"
  for ns :: "nat list"
  by (simp add: erase_not_dropped drops_ones_prod drops_ones_single)

lemma shift_position:
  assumes "int a \<notin> S"
  shows "int k \<in> (\<lambda>r. if int a < r then r - 1 else r) ` S \<longleftrightarrow> int (skip a k) \<in> S"
  using assms by (auto simp: skip_def image_iff intro: bexI [of _ "int (Suc k)"] bexI [of _ "int k"])

lemma sel_ok_erase:
  assumes ok: "sel_ok ds p" and a: "a < length ds" "int a \<notin> set (sp_reverse p)"
  shows "sel_ok (erase a ds) (erase_axis a p)"
proof -
  let ?f = "\<lambda>r. if int a < r then r - 1 else r"
  have r: "distinct (sp_reverse p)" "\<forall>r\<in>set (sp_reverse p). 0 \<le> r \<and> r < int (length ds)"
    using ok by (simp_all add: sel_ok_def)
  have "inj_on ?f (set (sp_reverse p))"
  proof (rule inj_onI)
    fix x y assume "x \<in> set (sp_reverse p)" "y \<in> set (sp_reverse p)" and eq: "?f x = ?f y"
    then have "x \<noteq> int a" "y \<noteq> int a" using a(2) by auto
    with eq show "x = y" by (auto split: if_splits)
  qed
  then have "distinct (map ?f (sp_reverse p))" using r(1) by (simp add: distinct_map)
  moreover have "\<forall>x\<in>set (sp_reverse p). 0 \<le> ?f x \<and> ?f x < int (length ds - 1)"
  proof
    fix x assume x: "x \<in> set (sp_reverse p)"
    then have "x \<noteq> int a" "0 \<le> x" "x < int (length ds)" using a(2) r(2) by auto
    then show "0 \<le> ?f x \<and> ?f x < int (length ds - 1)" using a(1) by auto
  qed
  moreover have "skip a k < length ds" if "k < length ds - 1" for k using that by (rule skip_less)
  ultimately show ?thesis
    using ok a(1) by (auto simp: sel_ok_def erase_axis_def nth_erase)
qed

lemma selection_erase:
  assumes ok: "sel_ok (tshape x) p" and a: "a < trank x" and c: "collapsible p (map int (tshape x)) a"
  shows "treshape (erase a (map nat (sp_size p))) (selection p x) =
    selection (erase_axis a p) (treshape (erase a (tshape x)) x)"
proof -
  let ?ds = "tshape x" and ?ns = "map nat (sp_size p)" and ?fs = "(replicate (trank x) False)[a := True]"
  let ?gs = "map (sel_fun p ?ds) [0..<length ?ds]"
  have ls: "length (sp_begin p) = length ?ds" "length (sp_stride p) = length ?ds" "length (sp_size p) = length ?ds"
    using ok by (simp_all add: sel_ok_def)
  have one: "?ds ! a = 1" "?ns ! a = 1" and ar: "int a \<notin> set (sp_reverse p)"
    using c a ls by (simp_all add: collapsible_def)
  have d: "drops_ones ?fs ?ds" "drops_ones ?fs ?ns"
    using drops_ones_single [of a ?ds] drops_ones_single [of a ?ns] one a ls by simp_all
  have e: "not_dropped ?fs ?ds = erase a ?ds" "not_dropped ?fs ?ns = erase a ?ns" "not_dropped ?fs ?gs = erase a ?gs"
    using erase_not_dropped [of a ?ds] erase_not_dropped [of a ?ns] erase_not_dropped [of a ?gs] a ls by simp_all
  have "erase a ?gs = map (sel_fun (erase_axis a p) (erase a ?ds)) [0..<length (erase a ?ds)]"
  proof (intro nth_equalityI ext)
    fix k i assume "k < length (erase a ?gs)"
    then have k: "k < length ?ds - 1" using a by simp
    then have sk: "skip a k < length ?ds" by (rule skip_less)
    have "sel_fun (erase_axis a p) (erase a ?ds) k i = sel_fun p ?ds (skip a k) i"
      using k a ls shift_position [OF ar, of k] by (simp add: sel_fun_def Let_def erase_axis_def nth_erase)
    then show "(erase a ?gs ! k) i = (map (sel_fun (erase_axis a p) (erase a ?ds)) [0..<length (erase a ?ds)] ! k) i"
      using k sk a by (simp add: nth_erase)
  qed (use a in simp)
  then show ?thesis
    using treshape_taxis_dropped [OF d, of ?gs x] sel_ok_valid [OF ok] ls
    by (simp add: selection_def e erase_axis_def erase_map)
qed

text \<open>
  The loop as a whole: the selection is the one on the compact tensor, up to the shape.
\<close>

definition collapse_spec ::
  "nat list \<Rightarrow> slice_params \<Rightarrow> nat list \<Rightarrow> slice_params \<Rightarrow> nat list \<Rightarrow> 'a tensor \<Rightarrow> bool" where
  "collapse_spec ds p ds' p' as x \<longleftrightarrow>
     length ds' \<le> 5 \<and> sel_ok ds' p' \<and> prod_list ds' = prod_list ds \<and> set ds' \<subseteq> set ds \<and>
     sp_size p' = fold erase as (sp_size p) \<and> (as = [] \<longrightarrow> p' = p \<and> ds' = ds) \<and>
     (as \<noteq> [] \<longrightarrow> length ds' = 5 \<and> 5 < length ds) \<and>
     prod_list (map nat (sp_size p')) = prod_list (map nat (sp_size p)) \<and>
     selection p x = treshape (map nat (sp_size p)) (selection p' (treshape ds' x))"

lemma collapse_axes_ok:
  assumes "collapse_axes p shape c = Inr (p', shape', c')" and "shape = map int ds"
    and "sel_ok ds p" and "tshape x = ds"
  shows "\<exists>ds' as. shape' = map int ds' \<and> c' = c @ as \<and> collapse_spec ds p ds' p' as x"
  using assms
proof (induction p shape c arbitrary: ds x rule: collapse_axes.induct)
  case (1 p shape c)
  note ok = "1.prems"(3) and sh = "1.prems"(2) and x = "1.prems"(4)
  show ?case
  proof (cases "length shape \<le> 5")
    case True
    then have "p' = p" "shape' = shape" "c' = c"
      using "1.prems"(1) by (simp_all add: collapse_axes.simps [of p shape c])
    moreover have "selection p x = treshape (map nat (sp_size p)) (selection p x)"
      by (simp add: selection_def treshape_def taxis_def tgen_def)
    ultimately show ?thesis
      using True ok sh x by (intro exI [of _ ds] exI [of _ "[]"]) (auto simp: collapse_spec_def)
  next
    case False
    then obtain a where f: "find (collapsible p shape) [0..<length shape] = Some a"
      and rec: "collapse_axes (erase_axis a p) (erase a shape) (c @ [a]) = Inr (p', shape', c')"
      using "1.prems"(1) by (auto simp: collapse_axes.simps [of p shape c] split: option.splits)
    then have a: "a < length ds" and col: "collapsible p shape a" using sh by (auto simp: find_Some_iff)
    then have ar: "int a \<notin> set (sp_reverse p)" "ds ! a = 1" "sp_size p ! a = 1" "length (sp_size p) = length ds"
      using sh ok by (auto simp: collapsible_def sel_ok_def)
    let ?y = "treshape (erase a ds) x"
    obtain ds' as where ih: "shape' = map int ds'" "c' = (c @ [a]) @ as"
        "collapse_spec (erase a ds) (erase_axis a p) ds' p' as ?y"
      using "1.IH" [OF False f rec, of "erase a ds" ?y] sh sel_ok_erase [OF ok a ar(1)]
      by (auto simp: erase_map)
    have s: "sp_size (erase_axis a p) = erase a (sp_size p)" by (simp add: erase_axis_def)
    have "treshape (erase a (map nat (sp_size p))) (selection p x) = selection (erase_axis a p) ?y"
      using selection_erase [of x p a] ok a col sh x by simp
    also have "\<dots> = treshape (map nat (erase a (sp_size p))) (selection p' (treshape ds' ?y))"
      using ih(3) by (simp add: collapse_spec_def s)
    finally have "treshape (map nat (sp_size p)) (treshape (erase a (map nat (sp_size p))) (selection p x)) =
        treshape (map nat (sp_size p)) (selection p' (treshape ds' x))" by simp
    then have "selection p x = treshape (map nat (sp_size p)) (selection p' (treshape ds' x))"
      by (simp add: selection_def treshape_def taxis_def tgen_def)
    moreover have "length ds' = 5"
      using ih(3) False a sh by (cases as) (auto simp: collapse_spec_def)
    ultimately have "collapse_spec ds p ds' p' (a # as) x"
      using ih(3) a ar False sh set_erase [of a ds] prod_list_erase [of a ds]
        prod_list_erase [of a "map nat (sp_size p)"]
      by (auto simp: collapse_spec_def s erase_map)
    with ih show ?thesis by (intro exI [of _ ds'] exI [of _ "a # as"]) simp
  qed
qed

section \<open>The loop computes the ONNX positions\<close>

lemma adjust_positive:
  "0 \<le> d \<Longrightarrow> 0 < st \<Longrightarrow> adjustAndClamp d v = slice_start d v st \<and>
     0 \<le> adjustAndClamp d v \<and> adjustAndClamp d v \<le> d"
  by (auto simp: adjustAndClamp_def slice_start_def clamp_def Let_def)

lemma adjust_negative:
  "0 \<le> d \<Longrightarrow> st < 0 \<Longrightarrow> adjustAndClampNegative d v = slice_start d v st \<and>
     -1 \<le> adjustAndClampNegative d v \<and> adjustAndClampNegative d v \<le> d - 1"
  by (auto simp: adjustAndClampNegative_def slice_start_def clamp_def Let_def)

lemma ceil_div_nonpos: "x \<le> 0 \<Longrightarrow> 0 < s \<Longrightarrow> nat ((x + s - 1) div s) = 0" for x s :: int
proof -
  assume "x \<le> 0" "0 < s"
  then have "(x + s - 1) div s \<le> (s - 1) div s" by (intro zdiv_mono1) auto
  also have "(s - 1) div s = 0" using \<open>0 < s\<close> by simp
  finally show ?thesis by simp
qed

lemma strided_count_int:
  assumes "0 \<le> b" and "0 \<le> e" and "0 < s" and "e < 2 ^ 31" and "s < 2 ^ 31"
  shows "int (strided_count (nat b) (nat e) (nat s)) = (if b < e then cdiv (i64 (e - b + s - 1)) s else 0)"
    and "strided_count (nat b) (nat e) (nat s) = nat ((e - b + s - 1) div s)"
proof -
  have eq: "int (strided_count (nat b) (nat e) (nat s)) = (if b < e then (e - b + s - 1) div s else 0)"
  proof (cases "b < e")
    case True
    then have lt: "nat b < nat e" and i: "int (nat e - nat b + nat s - 1) = e - b + s - 1" "int (nat s) = s"
      using assms by linarith+
    have "int (strided_count (nat b) (nat e) (nat s)) = int (nat e - nat b + nat s - 1) div int (nat s)"
      by (simp only: strided_count_def lt if_True zdiv_int)
    then show ?thesis using True by (simp only: i if_True)
  qed (use assms in \<open>simp add: strided_count_def\<close>)
  then show "int (strided_count (nat b) (nat e) (nat s)) = (if b < e then cdiv (i64 (e - b + s - 1)) s else 0)"
    using assms by (simp add: cdiv_nonneg i64_id)
  show "strided_count (nat b) (nat e) (nat s) = nat ((e - b + s - 1) div s)"
  proof (cases "b < e")
    case True
    with eq show ?thesis by (metis nat_int)
  next
    case False
    with eq assms show ?thesis using ceil_div_nonpos [of "e - b" s] by simp
  qed
qed

definition same_axis :: "slice_params \<Rightarrow> slice_params \<Rightarrow> nat \<Rightarrow> bool" where
  "same_axis p q k \<longleftrightarrow> sp_begin q ! k = sp_begin p ! k \<and> sp_end q ! k = sp_end p ! k \<and>
     sp_size q ! k = sp_size p ! k \<and> sp_stride q ! k = sp_stride p ! k \<and>
     (int k \<in> set (sp_reverse q) \<longleftrightarrow> int k \<in> set (sp_reverse p))"

definition selects :: "nat list \<Rightarrow> slice_params \<Rightarrow> nat \<Rightarrow> nat \<times> (nat \<Rightarrow> nat) \<Rightarrow> bool" where
  "selects ds p k sel \<longleftrightarrow> nat (sp_size p ! k) = fst sel \<and> (\<forall>i<fst sel. sel_fun p ds k i = snd sel i)"

lemma same_axis_sel_fun: "same_axis p q k \<Longrightarrow> sel_fun q ds k = sel_fun p ds k"
  by (auto simp: same_axis_def sel_fun_def)

lemma same_axis_selects: "same_axis p q k \<Longrightarrow> selects ds q k sel \<longleftrightarrow> selects ds p k sel"
  by (simp add: selects_def same_axis_sel_fun) (simp add: same_axis_def)

lemma same_axis_trans: "same_axis p q k \<Longrightarrow> same_axis q r k \<Longrightarrow> same_axis p r k"
  by (auto simp: same_axis_def)

lemma sel_ok_update:
  assumes ok: "sel_ok ds p" and a: "a < length ds" and "0 \<le> b" "b \<le> int (ds ! a)" "0 \<le> e" "e \<le> int (ds ! a)" "0 < s"
    and n: "n = int (strided_count (nat b) (nat e) (nat s))"
    and r: "distinct rv" "\<forall>r\<in>set rv. 0 \<le> r \<and> r < int (length ds)" and st: "st \<longleftrightarrow> sp_strided p \<or> s \<noteq> 1"
  shows "sel_ok ds \<lparr>sp_begin = (sp_begin p)[a := b], sp_end = (sp_end p)[a := e], sp_size = (sp_size p)[a := n],
    sp_stride = (sp_stride p)[a := s], sp_reverse = rv, sp_strided = st\<rparr>"
  using assms by (auto simp: sel_ok_def nth_list_update)

lemma slice_axis_positive_ok:
  fixes s e :: int
  assumes ok: "sel_ok ds p" and a: "a < length ds" and st: "0 < st" and fresh: "int a \<notin> set (sp_reverse p)"
    and bound: "ds ! a < 2 ^ 31" "\<bar>st\<bar> < 2 ^ 31"
  defines "q \<equiv> slice_axis_positive (int (ds ! a)) s e st a p"
  shows "sel_ok ds q \<and> (\<forall>k. k \<noteq> a \<longrightarrow> same_axis p q k) \<and> selects ds q a (slice_axis (ds ! a) (s, e, st))"
proof -
  let ?d = "int (ds ! a)"
  let ?b = "adjustAndClamp ?d s" and ?e = "adjustAndClamp ?d e"
  note b = adjust_positive [OF _ st, of ?d s, simplified] and ee = adjust_positive [OF _ st, of ?d e, simplified]
  have small: "?e < 2 ^ 31" "st < 2 ^ 31" using ee bound by simp_all
  note cnt = strided_count_int [OF _ _ st small, of ?b]
  let ?n = "int (strided_count (nat ?b) (nat ?e) (nat st))"
  have qe: "q = \<lparr>sp_begin = (sp_begin p)[a := ?b], sp_end = (sp_end p)[a := ?e], sp_size = (sp_size p)[a := ?n],
      sp_stride = (sp_stride p)[a := st], sp_reverse = sp_reverse p, sp_strided = sp_strided p \<or> st \<noteq> 1\<rparr>"
    using b ee cnt by (simp add: q_def slice_axis_positive_def Let_def)
  have "sel_ok ds q"
    unfolding qe using ok a b ee st by (intro sel_ok_update) (simp_all add: sel_ok_def)
  moreover have "\<forall>k. k \<noteq> a \<longrightarrow> same_axis p q k" by (simp add: same_axis_def qe)
  moreover have "length (sp_begin p) = length ds" "length (sp_size p) = length ds" "length (sp_stride p) = length ds"
    using ok by (simp_all add: sel_ok_def)
  then have "selects ds q a (slice_axis (ds ! a) (s, e, st))"
    using a b ee cnt(2) st fresh
    by (simp add: selects_def slice_axis_def Let_def qe sel_fun_def slice_count_def nat_add_distrib nat_mult_distrib)
  ultimately show ?thesis by blast
qed

lemma slice_axis_negative_ok:
  fixes s e :: int
  assumes ok: "sel_ok ds p" and a: "a < length ds" and st: "st < 0" and fresh: "int a \<notin> set (sp_reverse p)"
    and bound: "ds ! a < 2 ^ 31" "\<bar>st\<bar> < 2 ^ 31"
  defines "q \<equiv> slice_axis_negative (int (ds ! a)) s e st a p"
  shows "sel_ok ds q \<and> (\<forall>k. k \<noteq> a \<longrightarrow> same_axis p q k) \<and> selects ds q a (slice_axis (ds ! a) (s, e, st))"
proof -
  let ?d = "int (ds ! a)"
  let ?s = "adjustAndClampNegative ?d s" and ?t = "adjustAndClampNegative ?d e"
  let ?b = "?d - 1 - ?s" and ?e = "?d - 1 - ?t"
  note b = adjust_negative [OF _ st, of ?d s, simplified] and ee = adjust_negative [OF _ st, of ?d e, simplified]
  have r: "0 \<le> ?b" "?b \<le> ?d" "0 \<le> ?e" "?e \<le> ?d" using b ee by linarith+
  have pst: "0 < - st" using st by simp
  have small: "?e < 2 ^ 31" "- st < 2 ^ 31" using r(4) bound by simp_all
  note cnt = strided_count_int [OF r(1,3) pst small]
  let ?n = "int (strided_count (nat ?b) (nat ?e) (nat (- st)))"
  have d: "?e - ?b = ?s - ?t" "?b < ?e \<longleftrightarrow> ?t < ?s" by linarith+
  have qe: "q = \<lparr>sp_begin = (sp_begin p)[a := ?b], sp_end = (sp_end p)[a := ?e], sp_size = (sp_size p)[a := ?n],
      sp_stride = (sp_stride p)[a := - st], sp_reverse = sp_reverse p @ [int a],
      sp_strided = sp_strided p \<or> - st \<noteq> 1\<rparr>"
    using cnt(1) unfolding d by (simp add: q_def slice_axis_negative_def Let_def)
  have okq: "sel_ok ds q"
    unfolding qe using ok a r pst fresh by (intro sel_ok_update) (auto simp: sel_ok_def)
  moreover have "\<forall>k. k \<noteq> a \<longrightarrow> same_axis p q k" by (simp add: same_axis_def qe)
  moreover have l: "length (sp_begin p) = length ds" "length (sp_size p) = length ds" "length (sp_stride p) = length ds"
    using ok by (simp_all add: sel_ok_def)
  have "sel_fun q ds a i = nat (?s + int i * st)" if "i < nat ?n" for i
  proof -
    have "nat ?b + i * nat (- st) < ds ! a"
      using sel_ok_bound(1) [OF okq a, of i] that l a by (simp add: qe)
    moreover have "int (nat ?b + i * nat (- st)) = ?b - int i * st" using r st by simp
    ultimately have "ds ! a - 1 - (nat ?b + i * nat (- st)) = nat (?s + int i * st)" by linarith
    then show ?thesis using l a by (simp add: sel_fun_def Let_def qe)
  qed
  moreover have "nat ?n = slice_count ?s ?t st"
    using cnt(2) st unfolding d by (simp add: slice_count_def)
  ultimately show ?thesis
    using l a b ee by (simp add: selects_def slice_axis_def Let_def) (simp add: qe)
qed

lemma slice_args_of_simps [simp]:
  "slice_args_of n [] k = None"
  "slice_args_of n ((s, e, a, st) # args) k =
     (if k = nat (normalizeAxis a (int n)) then Some (s, e, st) else slice_args_of n args k)"
  by (auto simp: slice_args_of_def)

lemma slice_loop_ok:
  assumes "slice_loop (map int ds) seen args p = Inr q" and "sel_ok ds p" and "length seen = length ds"
    and "\<forall>k<length ds. \<not> seen ! k \<longrightarrow> int k \<notin> set (sp_reverse p)"
    and "i32_dims ds" and "\<forall>(s, e, a, st)\<in>set args. \<bar>st\<bar> < 2 ^ 31"
  shows "sel_ok ds q \<and> (\<forall>k<length ds.
    (case slice_args_of (length ds) args k of
       None \<Rightarrow> same_axis p q k | Some arg \<Rightarrow> \<not> seen ! k \<and> selects ds q k (slice_axis (ds ! k) arg)))"
  using assms
proof (induction args arbitrary: seen p)
  case Nil
  then show ?case by (auto simp: same_axis_def)
next
  case (Cons arg args)
  obtain s e ax st where arg: "arg = (s, e, ax, st)" by (cases arg)
  let ?ax = "normalizeAxis ax (int (length ds))"
  define a where "a = nat ?ax"
  define p1 where "p1 = (if 0 < st then slice_axis_positive (int (ds ! a)) s e st a p
      else slice_axis_negative (int (ds ! a)) s e st a p)"
  have a: "a < length ds" "\<not> seen ! a" and st: "st \<noteq> 0"
    and rec: "slice_loop (map int ds) (seen[a := True]) args p1 = Inr q"
    using Cons.prems(1) by (auto simp: arg getRank_def Let_def a_def p1_def nat_less_iff split: if_splits)
  have fresh: "int a \<notin> set (sp_reverse p)" using a Cons.prems(4) by blast
  have bound: "ds ! a < 2 ^ 31" "\<bar>st\<bar> < 2 ^ 31" using Cons.prems(5,6) a(1) by (auto simp: arg i32_dims_def)
  have p1: "sel_ok ds p1" "\<forall>k. k \<noteq> a \<longrightarrow> same_axis p p1 k" "selects ds p1 a (slice_axis (ds ! a) (s, e, st))"
    using slice_axis_positive_ok [OF Cons.prems(2) a(1) _ fresh bound, of s e] st
      slice_axis_negative_ok [OF Cons.prems(2) a(1) _ fresh bound, of s e]
    by (cases "0 < st"; simp add: p1_def)+
  have "\<forall>k<length ds. \<not> seen[a := True] ! k \<longrightarrow> int k \<notin> set (sp_reverse p1)"
    using p1(2) Cons.prems(3,4) a(1) by (auto simp: nth_list_update same_axis_def)
  with Cons.IH [OF rec p1(1)] Cons.prems(3,5,6) have ih: "sel_ok ds q" "\<forall>k<length ds.
      (case slice_args_of (length ds) args k of None \<Rightarrow> same_axis p1 q k
       | Some arg \<Rightarrow> \<not> seen[a := True] ! k \<and> selects ds q k (slice_axis (ds ! k) arg))"
    by simp_all
  have "case slice_args_of (length ds) (arg # args) k of None \<Rightarrow> same_axis p q k
      | Some arg \<Rightarrow> \<not> seen ! k \<and> selects ds q k (slice_axis (ds ! k) arg)" if k: "k < length ds" for k
  proof (cases "k = a")
    case True
    then have "same_axis p1 q a"
      using ih(2) [rule_format, OF k] Cons.prems(3) a(1) by (auto split: option.splits)
    then show ?thesis using True p1(3) a(2) by (simp add: arg a_def [symmetric] same_axis_selects)
  next
    case False
    then show ?thesis
      using ih(2) [rule_format, OF k] p1(2) same_axis_trans [of p p1 k q]
      by (auto simp: arg a_def [symmetric] nth_list_update split: option.splits)
  qed
  with ih(1) show ?case by blast
qed

lemma sel_ok_initial: "sel_ok ds (initial_params (map int ds))"
  by (auto simp: sel_ok_def initial_params_def strided_count_def)

lemma slice_loop_selection:
  assumes "slice_loop (map int (tshape t)) (replicate (trank t) False) args (initial_params (map int (tshape t))) = Inr q"
    and "i32_dims (tshape t)" and "\<forall>(s, e, a, st)\<in>set args. \<bar>st\<bar> < 2 ^ 31"
  shows "sel_ok (tshape t) q" and "selection q t = onnx_slice args t"
    and "map nat (sp_size q) = map fst (onnx_slice_axes (tshape t) args)"
proof -
  let ?ds = "tshape t" and ?axes = "onnx_slice_axes (tshape t) args"
  have l: "sel_ok ?ds q \<and> (\<forall>k<length ?ds. (case slice_args_of (length ?ds) args k of
      None \<Rightarrow> same_axis (initial_params (map int ?ds)) q k
    | Some arg \<Rightarrow> \<not> replicate (trank t) False ! k \<and> selects ?ds q k (slice_axis (?ds ! k) arg)))"
    using assms(1) sel_ok_initial by (rule slice_loop_ok) (use assms(2,3) in \<open>simp_all add: initial_params_def\<close>)
  then show ok: "sel_ok ?ds q" by simp
  then have sz: "length (sp_size q) = length ?ds" by (simp add: sel_ok_def)
  have sel: "selects ?ds q k (?axes ! k)" if k: "k < length ?ds" for k
    using k l [THEN conjunct2, rule_format, OF k]
    by (auto simp: onnx_slice_axes_def same_axis_def selects_def sel_fun_def initial_params_def
        split: option.splits)
  have la: "length ?axes = length ?ds" by (simp add: onnx_slice_axes_def)
  show ns: "map nat (sp_size q) = map fst ?axes"
    using sel sz la by (intro nth_equalityI) (simp_all add: selects_def)
  have "apply_ix (map (sel_fun q ?ds) [0..<length ?ds]) is = apply_ix (map snd ?axes) is"
    if v: "valid_ix (map fst ?axes) is" for "is"
    using valid_ix_length [OF v] valid_ix_nth [OF v] la sel by (intro nth_equalityI) (simp_all add: selects_def)
  then show "selection q t = onnx_slice args t"
    unfolding selection_def onnx_slice_def ns by (intro tensor_eqI) auto
qed

section \<open>The steps of an accepted slice\<close>

text \<open>
  The sizes are computed before anything bounds the steps. The pattern still accepts no step outside
  32 bits: every step reaches the strides that are checked at the end, since only strides of one are
  dropped before.
\<close>

lemma slice_loop_strides:
  assumes "slice_loop shape seen args p = Inr q" and "length (sp_stride p) = length shape" and "length seen = length shape"
  shows "length (sp_stride q) = length shape \<and> (\<forall>k<length shape. seen ! k \<longrightarrow> sp_stride q ! k = sp_stride p ! k) \<and>
    (\<forall>(s, e, a, st)\<in>set args. \<bar>st\<bar> \<in> set (sp_stride q))"
  using assms
proof (induction args arbitrary: seen p)
  case (Cons arg args)
  obtain s e ax st where arg: "arg = (s, e, ax, st)" by (cases arg)
  define a where "a = nat (normalizeAxis ax (getRank shape))"
  define p1 where "p1 = (if 0 < st then slice_axis_positive (shape ! a) s e st a p else slice_axis_negative (shape ! a) s e st a p)"
  have a: "a < length shape" "\<not> seen ! a" and rec: "slice_loop shape (seen[a := True]) args p1 = Inr q"
    using Cons.prems(1) by (auto simp: arg getRank_def Let_def a_def p1_def nat_less_iff split: if_splits)
  have p1: "sp_stride p1 = (sp_stride p)[a := \<bar>st\<bar>]"
    by (simp add: p1_def slice_axis_positive_def slice_axis_negative_def Let_def)
  note ih = Cons.IH [OF rec]
  have q: "length (sp_stride q) = length shape" "\<forall>(s, e, a, st)\<in>set args. \<bar>st\<bar> \<in> set (sp_stride q)"
    and old: "\<forall>k<length shape. seen[a := True] ! k \<longrightarrow> sp_stride q ! k = sp_stride p1 ! k"
    using ih Cons.prems(2,3) p1 by simp_all
  have "sp_stride q ! a = \<bar>st\<bar>" using old a Cons.prems(2,3) p1 by simp
  then have "\<bar>st\<bar> \<in> set (sp_stride q)" using a(1) q(1) by (metis nth_mem)
  moreover have "\<forall>k<length shape. seen ! k \<longrightarrow> sp_stride q ! k = sp_stride p ! k"
    using old a Cons.prems(3) p1 by (metis nth_list_update_neq)
  ultimately show ?case using q by (simp add: arg)
qed simp

lemma set_subset_erase: "a < length xs \<Longrightarrow> set xs \<subseteq> insert (xs ! a) (set (erase a xs))"
  by (subst id_take_nth_drop [of a xs]) (auto simp: erase_def)

lemma collapse_axes_strides:
  "collapse_axes p shape c = Inr (p', shape', c') \<Longrightarrow> length (sp_stride p) = length shape \<Longrightarrow>
   length (sp_stride p') = length shape' \<and> set (sp_stride p) \<subseteq> insert 1 (set (sp_stride p'))"
proof (induction p shape c rule: collapse_axes.induct)
  case (1 p shape c)
  show ?case
  proof (cases "length shape \<le> 5")
    case True
    then show ?thesis using "1.prems" by (auto simp: collapse_axes.simps [of p shape c])
  next
    case False
    then obtain axis where f: "find (collapsible p shape) [0..<length shape] = Some axis"
      and rec: "collapse_axes (erase_axis axis p) (erase axis shape) (c @ [axis]) = Inr (p', shape', c')"
      using "1.prems"(1) by (auto simp: collapse_axes.simps [of p shape c] split: option.splits)
    have ax: "axis < length shape" "sp_stride p ! axis = 1" using f by (auto simp: find_Some_iff collapsible_def)
    have "set (sp_stride p) \<subseteq> insert 1 (set (erase axis (sp_stride p)))"
      using set_subset_erase [of axis "sp_stride p"] ax "1.prems"(2) by simp
    moreover have "length (sp_stride p') = length shape' \<and> set (erase axis (sp_stride p)) \<subseteq> insert 1 (set (sp_stride p'))"
      using "1.IH" [OF False f rec] ax(1) "1.prems"(2) by (simp add: erase_axis_def)
    ultimately show ?thesis by blast
  qed
qed

lemma set_to_physical_list: "length xs = 4 \<Longrightarrow> set (to_physical_list xs) = set xs"
  by (auto simp: to_physical_list_permute permute_def to_nhwc_def length_Suc_conv eval_nat_numeral)

lemma emit_slice_strides:
  assumes "emit_slice p shape c os e v = Inr w" and "length (sp_stride p) = length shape"
  shows "\<forall>st\<in>set (sp_stride p). fits_i32 st"
  using assms set_to_physical_list [of "sp_stride p"]
  by (auto simp: emit_slice_def Let_def params_fit_def physical_params_def list_all_iff split: if_splits mtype.splits)

lemma accepted_steps:
  assumes loop: "slice_loop shape (replicate (length shape) False) args (initial_params shape) = Inr p"
    and col: "collapse_axes p shape [] = Inr (p', shape', c')" and em: "emit_slice p' shape' c' os e v = Inr w"
  shows "\<forall>(s, e, a, st)\<in>set args. \<bar>st\<bar> < 2 ^ 31"
proof -
  have l: "length (sp_stride p) = length shape" "\<forall>(s, e, a, st)\<in>set args. \<bar>st\<bar> \<in> set (sp_stride p)"
    using slice_loop_strides [OF loop] by (simp_all add: initial_params_def)
  have c: "length (sp_stride p') = length shape'" "set (sp_stride p) \<subseteq> insert 1 (set (sp_stride p'))"
    using collapse_axes_strides [OF col l(1)] by simp_all
  have "\<forall>st\<in>set (sp_stride p). st < 2 ^ 31"
    using c(2) emit_slice_strides [OF em c(1)] by (auto simp: fits_i32_def)
  then show ?thesis using l(2) by auto
qed

section \<open>Correctness\<close>

lemma params_fit_size: "params_fit p \<Longrightarrow> sp_size p = map int ns \<Longrightarrow> i32_dims ns"
  by (auto simp: params_fit_def list_all_iff fits_i32_def i32_dims_def)

lemma conforms_selection:
  assumes "sel_ok (tshape x) p" shows "conforms (RankedTensor (sp_size p) e) (selection p x)"
  using assms map_int_nat [of "sp_size p"] by (simp add: conforms_Ranked selection_def sel_ok_def del: map_map)

context tfl_slicing
begin

lemma represents_uncollapsed:
  assumes t: "conforms ty t" "ty = RankedTensor (map int (tshape t)) e" and five: "trank t \<le> 5"
    and ok: "sel_ok (tshape t) p" and v: "eval sem env v = phys ty t" "vtype v = convertRank4NCHWToNHWCType ty"
    and em: "emit_slice p (map int (tshape t)) [] (sp_size p) e v = Inr w"
  shows "represents sem env w (RankedTensor (sp_size p) e) (selection p t)"
proof -
  let ?rty = "RankedTensor (sp_size p) e"
  have wf: "wf_tensor t" using t(1) by (rule conforms_wf)
  have ls: "length (sp_size p) = trank t" using ok by (simp add: sel_ok_def)
  have con: "conforms ?rty (selection p t)" using ok by (rule conforms_selection)
  show ?thesis
  proof (cases "isF32 e \<and> trank t = 4")
    case True
    let ?q = "physical_params p" and ?x = "ttranspose to_nhwc t"
    have ph: "physical4 ty" "physical4 ?rty" using True ls by (auto simp: t(2) isF32_def)
    have q: "sp_size ?q = permute to_nhwc (sp_size p)"
      using True ls by (simp add: physical_params_def to_physical_list_permute)
    have fit: "params_fit ?q" and w: "w = emit_select ?q (RankedTensor (sp_size ?q) e) v"
      using em True ph ls by (auto simp: emit_slice_def Let_def convert_Ranked q split: if_splits)
    have okq: "sel_ok (tshape ?x) ?q" using sel_ok_physical [OF ok] True by simp
    have "eval sem env w = selection ?q ?x"
      unfolding w using okq fit True v ph five
      by (intro eval_emit_select [where e = e]) (simp_all add: phys_def t(2) convert_Ranked permute_nhwc_map)
    also have "\<dots> = ttranspose to_nhwc (selection p t)" using selection_physical [OF ok] True by simp
    finally have "eval sem env w = phys ?rty (selection p t)" using ph by (simp add: phys_def)
    moreover have "vtype w = convertRank4NCHWToNHWCType ?rty"
      using ph(2) by (simp add: w emit_select_def Let_def q convert_Ranked)
    ultimately show ?thesis using con by (simp add: represents_def)
  next
    case False
    then have ph: "\<not> physical4 ty" "\<not> physical4 ?rty" using ls by (auto simp: t(2) isF32_def)
    have fit: "params_fit p" and w: "w = emit_select p ?rty v"
      using em False ph by (auto simp: emit_slice_def Let_def convert_id split: if_splits)
    have "eval sem env w = selection p t"
      unfolding w using ok fit wf v ph five
      by (intro eval_emit_select [where e = e]) (simp_all add: phys_def convert_id, simp add: t(2))
    moreover have "vtype w = ?rty" by (simp add: w emit_select_def Let_def)
    ultimately show ?thesis using con ph(2) by (intro represents_logical) simp_all
  qed
qed

lemma represents_collapsed:
  assumes t: "conforms ty t" "ty = RankedTensor (map int (tshape t)) e" and i32: "i32_dims (tshape t)"
    and ok: "sel_ok (tshape t) p" and v: "eval sem env v = phys ty t"
    and cs: "collapse_spec (tshape t) p ds' p' as t" and as: "as \<noteq> []"
    and em: "emit_slice p' (map int ds') as (sp_size p) e v = Inr w" and r32: "i32_dims (map nat (sp_size p))"
  shows "represents sem env w (RankedTensor (sp_size p) e) (selection p t)"
proof -
  let ?rty = "RankedTensor (sp_size p) e" and ?x = "treshape ds' t"
  have wf: "wf_tensor t" using t(1) by (rule conforms_wf)
  have c: "length ds' = 5" "5 < trank t" "sel_ok ds' p'" "prod_list ds' = prod_list (tshape t)" "set ds' \<subseteq> set (tshape t)"
    "sp_size p' = fold erase as (sp_size p)" "prod_list (map nat (sp_size p')) = prod_list (map nat (sp_size p))"
    "selection p t = treshape (map nat (sp_size p)) (selection p' ?x)"
    using cs as by (auto simp: collapse_spec_def)
  have ls: "length (sp_size p) = trank t" "length (sp_size p') = 5" using ok c by (simp_all add: sel_ok_def)
  then have ph: "\<not> physical4 ty" "\<not> physical4 ?rty" using c(2) by (auto simp: t(2))
  let ?d = "emitReshape (RankedTensor (map int ds') e) (map int ds') v"
  let ?r = "emit_select p' (RankedTensor (sp_size p') e) ?d"
  have fit: "params_fit p'" and w: "w = emitReshape ?rty (sp_size p) ?r"
    using em as c(1,6) ph by (auto simp: emit_slice_def Let_def convert_id split: if_splits)
  have "eval sem env ?d = ?x"
    using wf v ph(1) c(4,5) i32 by (intro eval_emitReshape [where e = e]) (auto simp: phys_def i32_dims_def)
  then have r: "eval sem env ?r = selection p' ?x"
    using c(1,3,4) fit wf by (intro eval_emit_select [where e = e]) (simp_all add: wf_treshape)
  have sz: "sp_size p = map int (map nat (sp_size p))" using ok map_int_nat [of "sp_size p"] by (simp add: sel_ok_def)
  have "eval sem env w = selection p t"
    unfolding w c(8) using c(7) r r32 sz
    by (subst sz, intro eval_emitReshape [where e = e]) (simp_all add: selection_def)
  then show ?thesis
    using ph(2) conforms_selection [OF ok] by (intro represents_logical) (simp_all add: w)
qed

end

lemma slice_represents:
  assumes "tfl_slicing sem" and low: "lower_slice op = Inr v"
    and t: "conforms (oty (sl_data op)) t" and env: "env 0 = phys (oty (sl_data op)) t"
    and args: "slice_arguments op = Inr args"
    and res: "conforms (sl_result op) (onnx_slice args t)"
    and i32: "i32_dims (tshape t)" "i32_dims (tshape (onnx_slice args t))"
  shows "represents sem env v (sl_result op) (onnx_slice args t)"
proof -
  let ?ty = "oty (sl_data op)" and ?arg = "adaptor 0 (sl_data op)"
  obtain e e' where ty: "?ty = RankedTensor (map int (tshape t)) e"
    and rt: "sl_result op = RankedTensor (map int (tshape (onnx_slice args t))) e'"
    using t res by (auto simp: conforms_def)
  obtain p p' shape' c' where ee: "e' = e"
    and loop: "slice_loop (map int (tshape t)) (replicate (trank t) False) args (initial_params (map int (tshape t))) = Inr p"
    and col: "collapse_axes p (map int (tshape t)) [] = Inr (p', shape', c')"
    and em: "emit_slice p' shape' c' (map int (tshape (onnx_slice args t))) e ?arg = Inr v"
    using low args by (auto simp: lower_slice_def ty rt split: if_splits)
  have steps: "\<forall>(s, e, a, st)\<in>set args. \<bar>st\<bar> < 2 ^ 31" using accepted_steps [OF _ col em] loop by simp
  note lp = slice_loop_selection [OF loop i32(1) steps]
  obtain ds' where sh: "shape' = map int ds'" and cs: "collapse_spec (tshape t) p ds' p' c' t"
    using collapse_axes_ok [OF col refl lp(1) refl] by auto
  have "map int (map nat (sp_size p)) = sp_size p"
    using lp(1) map_int_nat [of "sp_size p"] by (simp add: sel_ok_def)
  then have sz: "map int (tshape (onnx_slice args t)) = sp_size p" "tshape (onnx_slice args t) = map nat (sp_size p)"
    by (simp_all add: onnx_slice_def lp(3))
  have arg: "eval sem env ?arg = phys ?ty t" "vtype ?arg = convertRank4NCHWToNHWCType ?ty"
    by (simp_all add: adaptor_def env)
  have "represents sem env v (RankedTensor (sp_size p) e) (selection p t)"
  proof (cases "c' = []")
    case True
    then have "ds' = tshape t" "p' = p" "trank t \<le> 5" using cs by (auto simp: collapse_spec_def)
    then show ?thesis
      using tfl_slicing.represents_uncollapsed [OF assms(1) t ty _ lp(1) arg] em True
      unfolding sz(1) sh by simp
  next
    case False
    then show ?thesis
      using tfl_slicing.represents_collapsed [OF assms(1) t ty i32(1) lp(1) arg(1) cs False] em i32(2)
      unfolding sz(1) sh by (simp only: sz(2))
  qed
  then show ?thesis unfolding rt ee sz(1) lp(2) .
qed

text \<open>
  C5: when the Slice pattern succeeds, the created value represents the ONNX slice of the operand:
  negative bounds and steps, omitted axes and steps, the collapsed axes above rank 5 and the NHWC
  positions included.
\<close>

theorem lower_slice_correct:
  assumes "tfl_slicing sem" and "lower_slice op = Inr v"
    and "conforms (oty (sl_data op)) t" and "env 0 = phys (oty (sl_data op)) t"
    and "slice_arguments op = Inr args"
    and "conforms (sl_result op) (onnx_slice args t)"
    and "i32_dims (tshape t)" "i32_dims (tshape (onnx_slice args t))"
  shows "represents sem env v (sl_result op) (onnx_slice args t)"
  using assms by (rule slice_represents)

theorem lower_slice_correct_witness:
  "represents reference_sem (\<lambda>_. ttranspose to_nhwc nchw_example)
     (createTFLOperation ''tfl.strided_slice'' [RankedTensor [1, 2, 2, 2] F32]
        [createTFLOperation ''tfl.reverse_v2'' [RankedTensor [1, 2, 3, 2] F32]
           [Arg 0 (RankedTensor [1, 2, 3, 2] F32), createI32ShapeConstant [2]] [] 0,
         createI32ShapeConstant [0, 0, 0, 0], createI32ShapeConstant [1, 2, 3, 2],
         createI32ShapeConstant [1, 1, 2, 1]] no_masks 0)
     (RankedTensor [1, 2, 2, 2] F32) (onnx_slice [(-1, -100, 3, -2)] nchw_example)"
proof -
  let ?vec = "\<lambda>k. \<lparr>oty = RankedTensor [1] I64, oattr = Some (IntElements I64 [k])\<rparr>"
  let ?op = "\<lparr>sl_data = \<lparr>oty = RankedTensor [1, 2, 2, 3] F32, oattr = None\<rparr>, sl_starts = ?vec (-1),
      sl_ends = ?vec (-100), sl_axes = ?vec 3, sl_steps = ?vec (-2),
      sl_result = RankedTensor [1, 2, 2, 2] F32\<rparr> :: int slice_op"
  let ?v = "createTFLOperation ''tfl.strided_slice'' [RankedTensor [1, 2, 2, 2] F32]
        [createTFLOperation ''tfl.reverse_v2'' [RankedTensor [1, 2, 3, 2] F32]
           [Arg 0 (RankedTensor [1, 2, 3, 2] F32), createI32ShapeConstant [2]] [] 0,
         createI32ShapeConstant [0, 0, 0, 0], createI32ShapeConstant [1, 2, 3, 2],
         createI32ShapeConstant [1, 1, 2, 1]] no_masks 0"
  have "lower_slice ?op = Inr ?v" by code_simp
  moreover have "slice_arguments ?op = Inr [(-1, -100, 3, -2)]" by code_simp
  moreover have "map fst (onnx_slice_axes [1, 2, 2, 3] [(-1, -100, 3, -2)]) = [1, 2, 2, 2]" by code_simp
  ultimately show ?thesis
    using lower_slice_correct [of reference_sem ?op ?v nchw_example "\<lambda>_. ttranspose to_nhwc nchw_example"
        "[(-1, -100, 3, -2)]"]
    by (simp add: example_simps onnx_slice_def)
qed

end
