(* ===== verification/Lower_Pad.thy ===== *)
theory Lower_Pad
  imports TFL_Reference Tensor_Pad
begin

text \<open>
  Model of \<^verbatim>\<open>Tensor/Pad.cpp\<close>: the pad pairs in NHWC order, and the constant, reflect and edge
  modes. Edge padding has no TFL operation; it is a concatenation of repeated edge slices on each
  axis in turn.
\<close>

section \<open>The pattern\<close>

record 'f pad_op =
  pd_data :: "'f operand"
  pd_pads :: "'f operand"
  pd_value :: "'f operand"
  pd_axes :: "'f operand"
  pd_mode :: string
  pd_result :: mtype

definition physical_pairs :: "int \<Rightarrow> int list \<Rightarrow> int list" where
  "physical_pairs rank pads =
     foldl (\<lambda>ps logicalAxis.
              let physicalAxis = (if rank = 4 then mapNCHWAxisToNHWC logicalAxis else logicalAxis) in
              ps[nat (2 * physicalAxis) := pads ! nat logicalAxis,
                 nat (2 * physicalAxis + 1) := pads ! nat (logicalAxis + rank)])
       (replicate (nat (2 * rank)) 0) [0..rank - 1]"

definition getPhysicalPadPairs :: "'f pad_op \<Rightarrow> int \<Rightarrow> int list result" where
  "getPhysicalPadPairs op rank =
     (if oty (pd_axes op) \<noteq> NoneT then Inl AxesPresent
      else case getConstantIntValues (pd_pads op) of
        None \<Rightarrow> Inl BadPads
      | Some pads \<Rightarrow>
          if int (length pads) \<noteq> 2 * rank \<or> (\<exists>v\<in>set pads. v < 0 \<or> int32_max < v) then Inl BadPads
          else Inr (physical_pairs rank pads))"

definition createPaddingMatrix :: "int list \<Rightarrow> 'f val" where
  "createPaddingMatrix pairs =
     ConstI (RankedTensor [int (length pairs div 2), 2] I32) (map i32 pairs)"

text \<open>\<open>f0\<close> is the value of the literal \<^verbatim>\<open>0.0f\<close>.\<close>

definition getScalarPadValue :: "'f \<Rightarrow> 'f val \<Rightarrow> 'f val result" where
  "getScalarPadValue f0 value =
     (case vtype value of
        NoneT \<Rightarrow> Inr (ConstF (RankedTensor [] F32) [f0])
      | RankedTensor shape e \<Rightarrow>
          if \<not> hasStaticShape shape \<or> \<not> isF32 e \<or> getNumElements shape \<noteq> 1 then Inl BadPadValue
          else if getRank shape = 0 then Inr value
          else Inr (emitReshape (RankedTensor [] F32) [] value)
      | _ \<Rightarrow> Inl BadPadValue)"

definition createRepeatedEdge :: "elt \<Rightarrow> nat \<Rightarrow> int list \<Rightarrow> 'f val \<Rightarrow> bool \<Rightarrow> int \<Rightarrow> 'f val" where
  "createRepeatedEdge e axis currentShape current first cnt =
     (let rank = length currentShape;
          begin = (if first then replicate rank 0
                   else (replicate rank 0)[axis := currentShape ! axis - 1]);
          sliceShape = currentShape[axis := 1];
          slice = createTFLOperation ''tfl.slice'' [RankedTensor sliceShape e]
            [current, createI32ShapeConstant begin, createI32ShapeConstant (currentShape[axis := 1])] [] 0;
          multiples = (replicate rank 1)[axis := cnt]
      in createTFLOperation ''tfl.tile'' [RankedTensor (sliceShape[axis := cnt]) e]
           [slice, createI32ShapeConstant multiples] [] 0)"

definition edge_pad_axis :: "elt \<Rightarrow> int list \<Rightarrow> 'f val \<times> int list \<Rightarrow> nat \<Rightarrow> 'f val \<times> int list" where
  "edge_pad_axis e pairs st axis =
     (case st of (current, currentShape) \<Rightarrow>
        let before = pairs ! (2 * axis); after = pairs ! (2 * axis + 1) in
        if before = 0 \<and> after = 0 then (current, currentShape)
        else
          let concatenands =
                (if before \<noteq> 0 then [createRepeatedEdge e axis currentShape current True before] else []) @
                [current] @
                (if after \<noteq> 0 then [createRepeatedEdge e axis currentShape current False after] else []);
              nextShape = currentShape[axis := currentShape ! axis + (before + after)]
          in (createTFLOperation ''tfl.concatenation'' [RankedTensor nextShape e] concatenands
                [(''axis'', IntAttr (int axis)), getFusedActivationNone] 0, nextShape))"

definition lowerEdgePad :: "'f val \<Rightarrow> int list \<Rightarrow> elt \<Rightarrow> int list \<Rightarrow> int list \<Rightarrow> 'f val result" where
  "lowerEdgePad input inShape e resultShape pairs =
     (case foldl (edge_pad_axis e pairs) (input, inShape) [0..<length inShape] of
        (current, currentShape) \<Rightarrow>
          if currentShape \<noteq> resultShape then Inl ShapeMismatch else Inr current)"

definition emit_pad ::
  "'f \<Rightarrow> 'f pad_op \<Rightarrow> 'f val \<Rightarrow> int list \<Rightarrow> elt \<Rightarrow> int list \<Rightarrow> elt \<Rightarrow> int list \<Rightarrow> 'f val result" where
  "emit_pad f0 op data physIn e physOut e' pairs =
     (if \<not> list_all (\<lambda>a. physOut ! a = physIn ! a + pairs ! (2 * a) + pairs ! (2 * a + 1))
            [0..<length physIn] then Inl ShapeMismatch
      else if pd_mode op = ''constant'' then
        bind_result (getScalarPadValue f0 (adaptor 2 (pd_value op))) (\<lambda>value.
          Inr (createTFLOperation ''tfl.padv2'' [RankedTensor physOut e']
            [data, createPaddingMatrix pairs, value] [] 0))
      else if pd_mode op = ''reflect'' then
        if \<not> list_all (\<lambda>a. pairs ! (2 * a) < physIn ! a \<and> pairs ! (2 * a + 1) < physIn ! a)
               [0..<length physIn] then Inl ReflectTooWide
        else Inr (createTFLOperation ''tfl.mirror_pad'' [RankedTensor physOut e']
            [data, createPaddingMatrix pairs]
            [(''mode'', OpaqueAttr ''tfl'' ''mirror_pad_attr REFLECT'')] 0)
      else if pd_mode op = ''edge'' then lowerEdgePad data physIn e physOut pairs
      else Inl BadMode)"

definition lower_pad :: "'f \<Rightarrow> 'f pad_op \<Rightarrow> 'f val result" where
  "lower_pad f0 op =
     (case (oty (pd_data op), pd_result op) of
        (RankedTensor inShape inElt, RankedTensor outShape outElt) \<Rightarrow>
          if getRank inShape < 1 \<or> 5 < getRank inShape \<or> getRank outShape \<noteq> getRank inShape \<or>
             failed (validateStaticF32Tensor (oty (pd_data op))) \<or>
             failed (validateStaticF32Tensor (pd_result op)) then Inl BadTypes
          else bind_result (getPhysicalPadPairs op (getRank inShape)) (\<lambda>pairs.
            let data = adaptor 0 (pd_data op) in
            case (vtype data, convertRank4NCHWToNHWCType (pd_result op)) of
              (RankedTensor physIn e, RankedTensor physOut e') \<Rightarrow> emit_pad f0 op data physIn e physOut e' pairs
            | _ \<Rightarrow> Inl BadTypes)
      | _ \<Rightarrow> Inl BadTypes)"

section \<open>What ONNX defines\<close>

definition onnx_pad :: "string \<Rightarrow> nat list \<Rightarrow> 'a \<Rightarrow> 'a tensor \<Rightarrow> 'a tensor" where
  "onnx_pad mode pads value t =
     (let before = take (trank t) pads; after = drop (trank t) pads in
      if mode = ''constant'' then tpad before after value t
      else if mode = ''reflect'' then tpad_reflect before after t
      else tpad_edge before after t)"

section \<open>The pad pairs\<close>

lemma length_interleave: "length bs = length as \<Longrightarrow> length (interleave bs as) = 2 * length bs"
  by (induction bs as rule: list_induct2) auto

lemma nth_interleave:
  "length bs = length as \<Longrightarrow> k < length bs \<Longrightarrow>
   interleave bs as ! (2 * k) = bs ! k \<and> interleave bs as ! (2 * k + 1) = as ! k"
proof (induction bs as arbitrary: k rule: list_induct2)
  case (Cons b bs a as)
  then show ?case by (cases k) auto
qed simp

lemma map_interleave: "length bs = length as \<Longrightarrow> map f (interleave bs as) = interleave (map f bs) (map f as)"
  by (induction bs as rule: list_induct2) auto

definition nhwc_if4 :: "'a list \<Rightarrow> 'a list" where
  "nhwc_if4 xs = (if length xs = 4 then permute to_nhwc xs else xs)"

lemma length_nhwc_if4 [simp]: "length (nhwc_if4 xs) = length xs"
  by (simp add: nhwc_if4_def)

lemma list_upto_5:
  assumes "length xs = n" and "1 \<le> n" and "n \<le> 5"
  obtains a where "xs = [a]" | a b where "xs = [a, b]" | a b c where "xs = [a, b, c]"
  | a b c d where "xs = [a, b, c, d]" | a b c d e where "xs = [a, b, c, d, e]"
proof -
  have "n = 1 \<or> n = 2 \<or> n = 3 \<or> n = 4 \<or> n = 5" using assms by linarith
  then show thesis using assms(1) that by (auto simp: numeral_eq_Suc length_Suc_conv)
qed

lemma upto_small: "[0..0::int] = [0]" "[0..1::int] = [0, 1]" "[0..2::int] = [0, 1, 2]"
  "[0..3::int] = [0, 1, 2, 3]" "[0..4::int] = [0, 1, 2, 3, 4]"
  by (simp_all add: upto_rec1)

lemma physical_pairs_interleave:
  assumes "length bs = n" and "length as = n" and "1 \<le> n" and "n \<le> 5"
  shows "physical_pairs (int n) (bs @ as) = interleave (nhwc_if4 bs) (nhwc_if4 as)"
proof -
  note pp = physical_pairs_def Let_def upto_small nhwc_if4_def
  from assms(1,3,4) show ?thesis
  proof (cases rule: list_upto_5)
    case (1 a)
    with assms obtain w where "as = [w]" by (auto simp: length_Suc_conv)
    moreover from 1 assms(1) have "n = 1" by simp
    ultimately show ?thesis using 1 by (simp add: pp numeral_eq_Suc)
  next
    case (2 a b)
    with assms obtain w x where "as = [w, x]" by (auto simp: length_Suc_conv)
    moreover from 2 assms(1) have "n = 2" by simp
    ultimately show ?thesis using 2 by (simp add: pp numeral_eq_Suc)
  next
    case (3 a b c)
    with assms obtain w x y where "as = [w, x, y]" by (auto simp: length_Suc_conv)
    moreover from 3 assms(1) have "n = 3" by simp
    ultimately show ?thesis using 3 by (simp add: pp numeral_eq_Suc)
  next
    case (4 a b c d)
    with assms obtain w x y z where "as = [w, x, y, z]" by (auto simp: length_Suc_conv)
    moreover from 4 assms(1) have "n = 4" by simp
    ultimately show ?thesis using 4 by (simp add: pp numeral_eq_Suc)
  next
    case (5 a b c d e)
    with assms obtain w x y z u where "as = [w, x, y, z, u]" by (auto simp: length_Suc_conv)
    moreover from 5 assms(1) have "n = 5" by simp
    ultimately show ?thesis using 5 by (simp add: pp numeral_eq_Suc)
  qed
qed

section \<open>Edge padding is correct\<close>

lemma map_int_update: "map int (ds[k := n]) = (map int ds)[k := int n]"
  by (simp add: map_update)

lemma replicate_update_same: "(replicate n c)[k := c] = replicate n c"
  by (induction n arbitrary: k) (auto split: nat.splits)

lemma i32_dims_replicate: "c < 2 ^ 31 \<Longrightarrow> i32_dims (replicate n c)"
  by (simp add: i32_dims_def)

lemma tshape_pad_axis [simp]: "tshape (pad_axis k b a x) = (tshape x)[k := tshape x ! k + (b + a)]"
  by (simp add: pad_axis_def)

context tfl_assembly
begin

lemma eval_createRepeatedEdge:
  assumes wf: "wf_tensor x" and v: "eval sem env v = x" and k: "k < trank x" and d: "0 < tshape x ! k"
    and i32: "i32_dims (tshape x)" and n: "0 < n" "n < 2 ^ 31"
  shows "eval sem env (createRepeatedEdge e k (map int (tshape x)) v first (int n)) =
    const_axis k n (if first then 0 else tshape x ! k - 1) x"
proof -
  let ?ds = "tshape x" and ?n = "trank x"
  define j where "j = (if first then 0 else tshape x ! k - 1)"
  let ?bs = "(replicate ?n 0)[k := j]" and ?ns = "?ds[k := 1]" and ?ms = "(replicate ?n 1)[k := n]"
  let ?s = "tslice ?bs ?ns (replicate ?n 1) x"
  have j: "j < ?ds ! k" using d by (simp add: j_def)
  have dk: "?ds ! k < 2 ^ 31" using i32 k by (simp add: i32_dims_def)
  have b: "(if first then replicate ?n 0 else (replicate ?n 0)[k := map int ?ds ! k - 1]) = map int ?bs"
    using d k by (auto simp: j_def map_update of_nat_diff replicate_update_same)
  have i: "i32_dims ?bs" "i32_dims ?ns" "i32_dims ?ms"
    using dk j i32 n by (simp_all add: i32_dims_update i32_dims_replicate)
  have m: "(map int ?ds)[k := 1, k := int n] = map int (?ds[k := n])" "(map int ?ds)[k := 1] = map int ?ns"
    "(replicate ?n 1)[k := int n] = map int ?ms"
    by (simp_all add: map_update)
  have "sem ''tfl.slice'' [] [RankedTensor (map int ?ns) e] [x, i32_vec (map int ?bs), i32_vec (map int ?ns)] = [?s]"
    using wf j k by (intro slice) (auto simp: conforms_Ranked tslice_def nth_list_update)
  moreover have tl: "ttile ?ms ?s = const_axis k n j x" using ttile_slice_const [OF k j] .
  have "sem ''tfl.tile'' [] [RankedTensor (map int (?ds[k := n])) e] [?s, i32_vec (map int ?ms)] = [ttile ?ms ?s]"
  proof (rule tile)
    show "\<forall>r\<in>set ?ms. 0 < r" using n(1) set_update_subset_insert [of "replicate ?n (1::nat)" k n] by auto
    show "declares [RankedTensor (map int (?ds[k := n])) e] [ttile ?ms ?s]"
      unfolding tl by (simp add: conforms_Ranked const_axis_def)
  qed (simp_all add: tslice_def)
  ultimately show ?thesis
    unfolding createRepeatedEdge_def Let_def length_map b m(1) j_def [symmetric]
    unfolding m(2,3) using v i by (simp add: map_i32_comp_dims tl [simplified])
qed


lemma edge_pad_axis_ok:
  assumes wf: "wf_tensor x" and v: "eval sem env v = x" "vtype v = RankedTensor (map int (tshape x)) e"
    and k: "k < trank x" and d: "0 < tshape x ! k" and i32: "i32_dims (tshape x)"
    and ba: "pairs ! (2 * k) = int b" "pairs ! (2 * k + 1) = int a" "b < 2 ^ 31" "a < 2 ^ 31"
    and st: "edge_pad_axis e pairs (v, map int (tshape x)) k = (w, sh)"
  shows "eval sem env w = pad_axis k b a x \<and> sh = map int (tshape (pad_axis k b a x)) \<and>
    vtype w = RankedTensor sh e"
proof (cases "b = 0 \<and> a = 0")
  case True
  then show ?thesis using st v ba wf k pad_axis_zero [OF wf k] by (simp add: edge_pad_axis_def)
next
  case False
  let ?vs = "(if b = 0 then [] else [createRepeatedEdge e k (map int (tshape x)) v True (int b)]) @ [v] @
      (if a = 0 then [] else [createRepeatedEdge e k (map int (tshape x)) v False (int a)])"
  let ?sh = "map int (tshape (pad_axis k b a x))"
  have "(map int (tshape x))[k := map int (tshape x) ! k + (int b + int a)] = ?sh"
    using k by (simp add: map_update)
  then have sh: "sh = ?sh" and w: "w = createTFLOperation ''tfl.concatenation'' [RankedTensor ?sh e] ?vs
      [(''axis'', IntAttr (int k)), getFusedActivationNone] 0"
    using st False ba k by (auto simp: edge_pad_axis_def Let_def)
  have vs: "map (eval sem env) ?vs = edge_pieces k b a x"
    using eval_createRepeatedEdge [OF wf v(1) k d i32] ba(3,4) v by (simp add: edge_pieces_def)
  have tc: "tconcat k (edge_pieces k b a x) = pad_axis k b a x" using wf k d by (rule tconcat_edge_pieces)
  have "sem ''tfl.concatenation'' [(''axis'', IntAttr (int k)), getFusedActivationNone]
      [RankedTensor ?sh e] (edge_pieces k b a x) = [pad_axis k b a x]"
    using concatenation [OF concatable_edge_pieces [OF wf k], of "[RankedTensor ?sh e]" b a] tc
    by (simp add: conforms_Ranked) (simp add: pad_axis_def)
  then show ?thesis using vs by (simp add: w sh)
qed

end

context tfl_assembly
begin

lemma edge_pad_axes_ok:
  assumes wf: "wf_tensor x" and v: "eval sem env v = x" "vtype v = RankedTensor (map int (tshape x)) e"
    and l: "length bs = trank x" "length as = trank x" and pos: "\<forall>k<trank x. 0 < tshape x ! k"
    and i32: "\<forall>k<trank x. tshape x ! k + (bs ! k + as ! k) < 2 ^ 31" and m: "m \<le> trank x"
  shows "\<exists>w sh. foldl (edge_pad_axis e (map int (interleave bs as))) (v, map int (tshape x)) [0..<m] = (w, sh) \<and>
    eval sem env w = foldl (\<lambda>y k. pad_axis k (bs ! k) (as ! k) y) x [0..<m] \<and>
    sh = map int (tshape (foldl (\<lambda>y k. pad_axis k (bs ! k) (as ! k) y) x [0..<m])) \<and> vtype w = RankedTensor sh e"
  using m
proof (induction m)
  case 0
  then show ?case using v by simp
next
  case (Suc m)
  let ?pairs = "map int (interleave bs as)" and ?y = "foldl (\<lambda>y k. pad_axis k (bs ! k) (as ! k) y) x [0..<m]"
  from Suc obtain w sh where w: "foldl (edge_pad_axis e ?pairs) (v, map int (tshape x)) [0..<m] = (w, sh)"
    "eval sem env w = ?y" "sh = map int (tshape ?y)" "vtype w = RankedTensor sh e" by auto
  have mn: "m < trank x" "m \<le> trank x" using Suc.prems by simp_all
  note y = pad_axes [OF wf mn(2) pos, of bs as]
  have il: "length (interleave bs as) = 2 * trank x" using l by (simp add: length_interleave)
  have ty: "trank ?y = trank x" "tshape ?y ! m = tshape x ! m" "wf_tensor ?y" using mn by (simp_all add: y)
  have dims: "i32_dims (tshape ?y)" using i32 by (fastforce simp: y i32_dims_def)
  have pr: "?pairs ! (2 * m) = int (bs ! m)" "?pairs ! (2 * m + 1) = int (as ! m)"
    using nth_interleave [of bs as m] l mn il by simp_all
  obtain w' sh' where st: "edge_pad_axis e ?pairs (w, map int (tshape ?y)) m = (w', sh')" by force
  have ba: "bs ! m < 2 ^ 31" "as ! m < 2 ^ 31" using i32 [rule_format, OF mn(1)] by linarith+
  have "eval sem env w' = pad_axis m (bs ! m) (as ! m) ?y \<and>
      sh' = map int (tshape (pad_axis m (bs ! m) (as ! m) ?y)) \<and> vtype w' = RankedTensor sh' e"
    using ty(3) w(2) _ _ _ dims pr ba st
    by (rule edge_pad_axis_ok) (use w ty mn pos in simp_all)
  then show ?case using w st by simp
qed

lemma lowerEdgePad_ok:
  assumes "wf_tensor x" and "eval sem env v = x" "vtype v = RankedTensor (map int (tshape x)) e"
    and l: "length bs = trank x" "length as = trank x" and pos: "\<forall>k<trank x. 0 < tshape x ! k"
    and i32: "i32_dims (tshape (tpad_edge bs as x))"
    and low: "lowerEdgePad v (map int (tshape x)) e outShape (map int (interleave bs as)) = Inr w"
  shows "eval sem env w = tpad_edge bs as x \<and> vtype w = RankedTensor outShape e"
proof -
  have "\<forall>k<trank x. tshape (tpad_edge bs as x) ! k < 2 ^ 31"
    using i32 l unfolding i32_dims_def by (intro allI impI bspec [OF i32 [unfolded i32_dims_def]] nth_mem)
      (simp add: tpad_edge_def)
  then have "\<forall>k<trank x. tshape x ! k + (bs ! k + as ! k) < 2 ^ 31"
    using l by (simp add: tpad_edge_def)
  then show ?thesis
    using edge_pad_axes_ok [OF assms(1-3) l pos _ le_refl] low pad_axes_tpad_edge [OF assms(1) pos l]
    by (auto simp: lowerEdgePad_def split: if_splits)
qed

lemma eval_createPaddingMatrix:
  assumes "length bs = length as" and "i32_dims bs" and "i32_dims as"
  shows "eval sem env (createPaddingMatrix (map int (interleave bs as))) = pad_matrix bs as"
proof -
  have "set (interleave bs as) \<subseteq> set bs \<union> set as"
    using assms(1) by (induction bs as rule: list_induct2) auto
  then have "i32_dims (interleave bs as)" using assms(2,3) by (auto simp: i32_dims_def)
  then show ?thesis
    using assms(1) by (simp add: createPaddingMatrix_def pad_matrix_def length_interleave map_i32_comp_dims)
qed

end

section \<open>Correctness\<close>

text \<open>The pad value: the single element of the operand, or zero when there is none.\<close>

definition pad_value_of :: "'f \<Rightarrow> 'f operand \<Rightarrow> 'f scalar tensor \<Rightarrow> 'f scalar" where
  "pad_value_of f0 v u = (if oty v = NoneT then FV f0 else hd (tdata u))"

lemma single_element_order:
  assumes "conforms ty u" and "prod_list (tshape u) = 1"
  shows "tdata (phys ty u) = tdata u"
proof (cases "physical4 ty")
  case True
  with assms(1) have u: "wf_tensor u" "trank u = 4" using conforms_physical4 by auto
  from u(2) obtain a b c d where "tshape u = [a, b, c, d]" by (rule length_4_cases)
  with assms(2) have "tshape u = [1, 1, 1, 1]" by simp
  with u(1) True show ?thesis using nhwc_flat_order [of u 1 1] by (simp add: phys_def)
qed (simp add: phys_def)

context tfl_assembly
begin

lemma eval_getScalarPadValue:
  assumes g: "getScalarPadValue f0 (adaptor 2 v) = Inr w"
    and u: "oty v = NoneT \<or> conforms (oty v) u \<and> env 2 = phys (oty v) u"
  shows "eval sem env w = Tensor [] [pad_value_of f0 v u]"
proof (cases "oty v = NoneT")
  case True
  then show ?thesis
    using g by (auto simp: getScalarPadValue_def adaptor_def convert_id physical4_def pad_value_of_def)
next
  case False
  let ?x = "phys (oty v) u" and ?cty = "convertRank4NCHWToNHWCType (oty v)"
  have c: "conforms (oty v) u" and en: "env 2 = ?x" using u False by auto
  obtain e where ty: "?cty = RankedTensor (map int (tshape ?x)) e" and wf: "wf_tensor ?x"
    using convert_conforms [OF c] by (auto simp: conforms_def)
  have one: "prod_list (tshape ?x) = 1"
    and w: "w = (if tshape ?x = [] then Arg 2 ?cty else emitReshape (RankedTensor [] F32) [] (Arg 2 ?cty))"
    using g ty by (auto simp: getScalarPadValue_def adaptor_def getRank_def split: if_splits)
  have "prod_list (tshape u) = 1"
    using one prod_list_phys [OF c] by simp
  then have dx: "tdata ?x = tdata u" using c by (intro single_element_order)
  then obtain s where s: "tdata u = [s]" using wf one by (auto simp: wf_tensor_def length_Suc_conv)
  have "eval sem env w = treshape [] ?x"
    using w wf en one eval_emitReshape [of ?x env "Arg 2 ?cty" "[]" "RankedTensor [] F32" F32]
    by (auto simp: i32_dims_def treshape_def tensor.expand)
  then show ?thesis using s dx False by (simp add: treshape_def pad_value_of_def)
qed

end

lemma nhwc_if4_map: "nhwc_if4 (map f xs) = map f (nhwc_if4 xs)"
  by (simp add: nhwc_if4_def permute_nhwc_map)

lemma i32_dims_nhwc_if4: "i32_dims xs \<Longrightarrow> i32_dims (nhwc_if4 xs)"
  by (auto simp: nhwc_if4_def i32_dims_def permute_def to_nhwc_def)

lemma pairs_spec:
  assumes "getPhysicalPadPairs op (int n) = Inr pairs" and "getConstantIntValues (pd_pads op) = Some pads"
    and "1 \<le> n" "n \<le> 5"
  defines "bs \<equiv> map nat (take n pads)" and "as \<equiv> map nat (drop n pads)"
  shows "pairs = map int (interleave (nhwc_if4 bs) (nhwc_if4 as))" "length bs = n" "length as = n"
    "i32_dims bs" "i32_dims as"
proof -
  have l: "length pads = 2 * n" and r: "\<forall>v\<in>set pads. 0 \<le> v \<and> v \<le> int32_max"
    and p: "pairs = physical_pairs (int n) pads"
    using assms(1,2) by (auto simp: getPhysicalPadPairs_def not_less split: if_splits)
  show lb: "length bs = n" and la: "length as = n" using l by (simp_all add: bs_def as_def)
  have "set bs \<subseteq> nat ` set pads" "set as \<subseteq> nat ` set pads"
    by (auto simp: bs_def as_def dest: in_set_takeD in_set_dropD)
  then show "i32_dims bs" "i32_dims as"
    using r by (fastforce simp: i32_dims_def int32_max_def)+
  have "pads = map int bs @ map int as"
    using r by (simp add: bs_def as_def comp_def map_idI flip: map_append)
  then show "pairs = map int (interleave (nhwc_if4 bs) (nhwc_if4 as))"
    using physical_pairs_interleave [of "map int bs" n "map int as"] lb la assms(3,4) p
    by (simp add: nhwc_if4_map map_interleave)
qed

text \<open>On f32 tensors the representation of a padded tensor is the padded representation.\<close>

lemma phys_onnx_pad:
  assumes ty: "ty = RankedTensor sh F32" "rty = RankedTensor sh' F32" "length sh = trank t" "length sh' = trank t"
    and l: "length pads = 2 * trank t"
    and refl: "mode = ''reflect'' \<Longrightarrow> \<forall>k<trank t. take (trank t) pads ! k < tshape t ! k \<and> drop (trank t) pads ! k < tshape t ! k"
    and pos: "mode = ''edge'' \<Longrightarrow> \<forall>k<trank t. 0 < tshape t ! k"
    and mode: "mode \<in> {''constant'', ''reflect'', ''edge''}"
  shows "phys rty (onnx_pad mode pads c t) =
    onnx_pad mode (nhwc_if4 (take (trank t) pads) @ nhwc_if4 (drop (trank t) pads)) c (phys ty t)"
proof (cases "trank t = 4")
  case True
  then have p: "is_perm to_nhwc (trank t)" and ln: "length (take 4 pads) = trank t" "length (drop 4 pads) = trank t"
    using l by simp_all
  show ?thesis
    using True ty l mode refl pos ttranspose_tpad [OF p ln] ttranspose_tpad_reflect [OF p ln] ttranspose_tpad_edge [OF p ln]
    by (auto simp: phys_def onnx_pad_def Let_def nhwc_if4_def)
next
  case False
  then show ?thesis using ty l by (simp add: phys_def onnx_pad_def Let_def nhwc_if4_def)
qed

lemma emit_pad_mode:
  assumes "emit_pad f0 op data (map int (tshape x)) e physOut e' (map int (interleave bs as)) = Inr v"
    and l: "length bs = trank x" "length as = trank x"
  shows "pd_mode op \<in> {''constant'', ''reflect'', ''edge''}"
  using assms(1) by (auto simp: emit_pad_def split: if_splits)

lemma pairs_nth:
  assumes "length bs = n" "length as = n" and "k < n"
  shows "map int (interleave bs as) ! (2 * k) = int (bs ! k)" "map int (interleave bs as) ! (2 * k + 1) = int (as ! k)"
  using assms nth_interleave [of bs as k] length_interleave [of bs as] by simp_all

lemma emit_pad_reflect:
  assumes "emit_pad f0 op data (map int (tshape x)) e physOut e' (map int (interleave bs as)) = Inr v"
    and l: "length bs = trank x" "length as = trank x" and "pd_mode op = ''reflect''"
  shows "\<forall>k<trank x. bs ! k < tshape x ! k \<and> as ! k < tshape x ! k"
  using assms(1,4) pairs_nth [OF l] by (auto simp: emit_pad_def list_all_iff split: if_splits)

context tfl_assembly
begin

lemma eval_emit_pad:
  assumes wf: "wf_tensor x" and d: "eval sem env data = x" "vtype data = RankedTensor (map int (tshape x)) F32"
    and l: "length bs = trank x" "length as = trank x" and b32: "i32_dims bs" "i32_dims as"
    and pos: "\<forall>k<trank x. 0 < tshape x ! k" and y: "y = onnx_pad (pd_mode op) (bs @ as) c x"
    and out: "physOut = map int (tshape y)" and i32: "i32_dims (tshape y)"
    and u: "oty (pd_value op) = NoneT \<or> conforms (oty (pd_value op)) u \<and> env 2 = phys (oty (pd_value op)) u"
    and c: "c = pad_value_of f0 (pd_value op) u"
    and em: "emit_pad f0 op data (map int (tshape x)) F32 physOut F32 (map int (interleave bs as)) = Inr v"
  shows "eval sem env v = y \<and> vtype v = RankedTensor physOut F32"
proof -
  let ?pairs = "map int (interleave bs as)"
  have pm: "eval sem env (createPaddingMatrix ?pairs) = pad_matrix bs as"
    using l b32 by (simp add: eval_createPaddingMatrix)
  have con: "conforms (RankedTensor physOut F32) y"
    by (simp add: out conforms_Ranked y onnx_pad_def Let_def tpad_def tpad_reflect_def tpad_edge_def)
  note mode = emit_pad_mode [OF em l] and refl = emit_pad_reflect [OF em l]
  from mode consider (con) "pd_mode op = ''constant''" | (ref) "pd_mode op = ''reflect''"
    | (edge) "pd_mode op = ''edge''" by auto
  then show ?thesis
  proof cases
    case con
    then obtain w where g: "getScalarPadValue f0 (adaptor 2 (pd_value op)) = Inr w"
      and v: "v = createTFLOperation ''tfl.padv2'' [RankedTensor physOut F32] [data, createPaddingMatrix ?pairs, w] [] 0"
      using em by (auto simp: emit_pad_def split: if_splits)
    have "y = tpad bs as c x" using con l by (simp add: y onnx_pad_def)
    then show ?thesis
      using eval_getScalarPadValue [OF g, of u env] u padv2 [OF wf l, of "[_]" c] conforms_def d pm
        \<open>conforms (RankedTensor physOut F32) y\<close> by (simp add: v c)
  next
    case ref
    then have v: "v = createTFLOperation ''tfl.mirror_pad'' [RankedTensor physOut F32] [data, createPaddingMatrix ?pairs]
        [(''mode'', OpaqueAttr ''tfl'' ''mirror_pad_attr REFLECT'')] 0"
      using em by (auto simp: emit_pad_def split: if_splits)
    have "y = tpad_reflect bs as x" using ref l by (simp add: y onnx_pad_def)
    then show ?thesis
      using mirror_pad [OF wf l refl [OF ref], of "[_]"] d pm \<open>conforms (RankedTensor physOut F32) y\<close> by (simp add: v)
  next
    case edge
    then have "lowerEdgePad data (map int (tshape x)) F32 physOut ?pairs = Inr v" "y = tpad_edge bs as x"
      using em l by (auto simp: emit_pad_def y onnx_pad_def split: if_splits)
    then show ?thesis using lowerEdgePad_ok [OF wf d l pos] i32 by simp
  qed
qed

end

lemma list_nhwc_if4_less:
  assumes "length xs = length ys" and "\<forall>k<length xs. nhwc_if4 xs ! k < nhwc_if4 ys ! k"
  shows "\<forall>k<length xs. xs ! k < ys ! (k :: nat)"
proof (cases "length xs = 4")
  case True
  then have "list_all2 (<) (permute to_nhwc xs) (permute to_nhwc ys)"
    using assms by (simp add: nhwc_if4_def list_all2_conv_all_nth)
  then have "list_all2 (<) xs ys" using list_all2_permute [OF is_perm_to_nhwc, of xs ys] True assms(1) by simp
  then show ?thesis by (simp add: list_all2_conv_all_nth)
qed (use assms in \<open>simp add: nhwc_if4_def\<close>)

lemma list_nhwc_if4_pos: "\<forall>k<length xs. 0 < xs ! k \<Longrightarrow> \<forall>k<length xs. 0 < nhwc_if4 xs ! (k :: nat)"
  for xs :: "nat list"
  by (auto simp: nhwc_if4_def to_nhwc_def nth_Cons' )

text \<open>
  C6: when the Pad pattern succeeds, the created value represents the ONNX padding of the operand
  in the constant, reflect and edge modes; edge padding, which is a chain of slices, tiles and
  concatenations over the physical axes, needs the operand to be non-empty.
\<close>

theorem lower_pad_correct:
  assumes "tfl_assembly sem" and low: "lower_pad f0 op = Inr v"
    and t: "conforms (oty (pd_data op)) t" and env: "env 0 = phys (oty (pd_data op)) t"
    and u: "oty (pd_value op) = NoneT \<or> conforms (oty (pd_value op)) u \<and> env 2 = phys (oty (pd_value op)) u"
    and pads: "getConstantIntValues (pd_pads op) = Some pads"
    and ne: "0 \<notin> set (tshape t)"
    and i32: "i32_dims (tshape (onnx_pad (pd_mode op) (map nat pads) c t))"
    and c: "c = pad_value_of f0 (pd_value op) u"
  shows "represents sem env v (pd_result op) (onnx_pad (pd_mode op) (map nat pads) c t)"
proof -
  let ?ty = "oty (pd_data op)" and ?rty = "pd_result op" and ?n = "trank t" and ?arg = "adaptor 0 (pd_data op)"
  let ?x = "phys ?ty t" and ?pty = "convertRank4NCHWToNHWCType (pd_result op)"
  have pos: "\<forall>k<?n. 0 < tshape t ! k" using ne by (metis gr0I nth_mem)
  define bs where "bs = map nat (take ?n pads)"
  define as where "as = map nat (drop ?n pads)"
  let ?bs = "nhwc_if4 bs" and ?as = "nhwc_if4 as"
  obtain sh' where ty: "?ty = RankedTensor (map int (tshape t)) F32" and rt: "?rty = RankedTensor sh' F32"
    and n': "tshape t \<noteq> []" "?n \<le> 5" "length sh' = ?n"
    using low t by (auto simp: lower_pad_def conforms_def failed_validate getRank_def
        split: mtype.splits if_splits)
  have n: "1 \<le> ?n" "?n \<le> 5" "length sh' = ?n" using n' by (cases "tshape t"; simp)+
  have ph: "physical4 ?ty \<longleftrightarrow> ?n = 4" "physical4 ?rty \<longleftrightarrow> ?n = 4" by (simp_all add: ty rt n)
  have cty: "convertRank4NCHWToNHWCType ?ty = RankedTensor (map int (tshape ?x)) F32"
    using convert_conforms [OF t] by (auto simp: ty convert_Ranked conforms_def)
  obtain physOut where pty: "?pty = RankedTensor physOut F32" "length physOut = ?n"
    using n(3) by (simp add: rt convert_Ranked)
  obtain pairs where gp: "getPhysicalPadPairs op (int ?n) = Inr pairs"
    and em: "emit_pad f0 op ?arg (map int (tshape ?x)) F32 physOut F32 pairs = Inr v"
    using low by (auto simp: lower_pad_def ty rt adaptor_def cty [unfolded ty] pty [unfolded rt] Let_def split: if_splits)
  note ps = pairs_spec [OF gp pads n(1,2), folded bs_def as_def]
  have wx: "wf_tensor ?x" using convert_conforms [OF t] by (rule conforms_wf)
  have tx: "tshape ?x = nhwc_if4 (tshape t)" using ph by (simp add: phys_def nhwc_if4_def)
  let ?y = "onnx_pad (pd_mode op) (?bs @ ?as) c ?x"
  have sy: "tshape ?y = map2 (+) (tshape ?x) (map2 (+) ?bs ?as)" "wf_tensor ?y"
    using ps(2,3) tx by (simp_all add: onnx_pad_def Let_def tpad_def tpad_reflect_def tpad_edge_def)
  have ls: "length ?bs = trank ?x" "length ?as = trank ?x" using ps(2,3) tx by simp_all
  note em' = em [unfolded ps(1)]
  have out: "physOut = map int (tshape ?y)"
    using em' pty(2) pairs_nth [OF ls] ps(2,3) tx unfolding sy
    by (intro nth_equalityI) (auto simp: emit_pad_def list_all_iff split: if_splits)
  then have cy: "conforms ?pty ?y" using sy(2) by (simp add: pty conforms_Ranked)
  have px: "\<forall>k<trank ?x. 0 < tshape ?x ! k" using list_nhwc_if4_pos [OF pos] by (simp add: tx)
  let ?z = "onnx_pad (pd_mode op) (map nat pads) c t"
  have "\<forall>k<trank t. bs ! k < tshape t ! k \<and> as ! k < tshape t ! k" if "pd_mode op = ''reflect''"
    using emit_pad_reflect [OF em' ls that] list_nhwc_if4_less [of bs "tshape t"]
      list_nhwc_if4_less [of as "tshape t"] ps(2,3) tx by auto
  then have pz: "phys ?rty ?z = ?y"
    using phys_onnx_pad [OF ty rt _ n(3), of "map nat pads" "pd_mode op" c] emit_pad_mode [OF em' ls] pos
      ps(2,3) by (simp add: bs_def as_def take_map drop_map)
  have wz: "wf_tensor ?z \<and> trank ?z = ?n"
    using ps(2,3) by (auto simp: onnx_pad_def Let_def tpad_def tpad_reflect_def tpad_edge_def bs_def as_def)
  then have "conforms ?rty ?z" using conforms_convertD [of ?rty ?z] cy rt n(3) pz by simp
  moreover have "i32_dims (tshape ?y)"
    using i32 wz i32_dims_nhwc_if4 [of "tshape ?z"] unfolding pz [symmetric]
    by (auto simp: phys_def nhwc_if4_def rt n(3) split: if_splits)
  then have "eval sem env v = ?y \<and> vtype v = RankedTensor physOut F32"
    using tfl_assembly.eval_emit_pad [where env = env and u = u and op = op,
        OF assms(1) wx _ _ ls _ _ px refl out _ u c em'] i32_dims_nhwc_if4 ps(4,5)
    by (simp add: adaptor_def env cty)
  ultimately show ?thesis using pz pty(1) by (simp add: represents_def)
qed


theorem lower_pad_correct_witness:
  "represents reference_sem (\<lambda>_. ttranspose to_nhwc nchw_example)
     (createTFLOperation ''tfl.mirror_pad'' [RankedTensor [1, 3, 5, 2] F32]
        [Arg 0 (RankedTensor [1, 2, 3, 2] F32), createPaddingMatrix [0, 0, 1, 0, 1, 1, 0, 0]]
        [(''mode'', OpaqueAttr ''tfl'' ''mirror_pad_attr REFLECT'')] 0)
     (RankedTensor [1, 2, 3, 5] F32) (onnx_pad ''reflect'' [0, 0, 1, 1, 0, 0, 0, 1] (FV 0) nchw_example)"
proof -
  let ?none = "\<lparr>oty = NoneT, oattr = None\<rparr>" and ?pads = "[0, 0, 1, 1, 0, 0, 0, 1]"
  let ?op = "\<lparr>pd_data = \<lparr>oty = RankedTensor [1, 2, 2, 3] F32, oattr = None\<rparr>,
      pd_pads = \<lparr>oty = RankedTensor [8] I64, oattr = Some (IntElements I64 ?pads)\<rparr>, pd_value = ?none,
      pd_axes = ?none, pd_mode = ''reflect'', pd_result = RankedTensor [1, 2, 3, 5] F32\<rparr> :: int pad_op"
  let ?v = "createTFLOperation ''tfl.mirror_pad'' [RankedTensor [1, 3, 5, 2] F32]
        [Arg 0 (RankedTensor [1, 2, 3, 2] F32), createPaddingMatrix [0, 0, 1, 0, 1, 1, 0, 0]]
        [(''mode'', OpaqueAttr ''tfl'' ''mirror_pad_attr REFLECT'')] 0"
  have low: "lower_pad 0 ?op = Inr ?v" by code_simp
  have pads: "getConstantIntValues (pd_pads ?op) = Some ?pads" by code_simp
  have shape: "tshape (onnx_pad ''reflect'' [0, 0, 1, 1, 0, 0, 0, 1] (FV 0) nchw_example) = [1, 2, 3, 5]"
    by (simp add: onnx_pad_def tpad_reflect_def)
  have "represents reference_sem (\<lambda>_. ttranspose to_nhwc nchw_example) ?v (pd_result ?op)
      (onnx_pad (pd_mode ?op) (map nat ?pads) (FV 0) nchw_example)"
    by (rule lower_pad_correct [OF reference.tfl_assembly_axioms low _ _ _ pads, where u = nchw_example])
      (simp_all add: conforms_Ranked phys_def i32_dims_def pad_value_of_def shape [simplified])
  then show ?thesis by simp
qed

end
