(* ===== verification/Tensor_Broadcast.thy ===== *)
theory Tensor_Broadcast
  imports Tensor_Compute
begin

text \<open>
  Laws of broadcasting: prefixing singleton axes, permuting the axes of both operands, scalars, and
  the flat index a broadcast reads, which is unchanged when neighbouring axes that broadcast in
  the same way are merged.
\<close>

section \<open>Prefixed singleton axes\<close>

definition padded :: "nat \<Rightarrow> 'a tensor \<Rightarrow> 'a tensor" where
  "padded n t = treshape (pad_left n (tshape t)) t"

definition bget :: "'a tensor \<Rightarrow> nat list \<Rightarrow> 'a" where
  "bget t is = tnth t (bcast_ix (tshape t) is)"

lemma prod_list_replicate_1 [simp]: "prod_list (replicate n (1::nat)) = 1"
  by (induction n) auto

lemma prod_list_pad_left [simp]: "prod_list (pad_left n ds) = prod_list ds"
  by (simp add: pad_left_def)

lemma length_pad_left [simp]: "length (pad_left n ds) = max n (length ds)"
  by (simp add: pad_left_def max_def)

lemma pad_left_id [simp]: "n \<le> length ds \<Longrightarrow> pad_left n ds = ds"
  by (simp add: pad_left_def)

lemma pad_left_pad_left [simp]: "m \<le> n \<Longrightarrow> pad_left n (pad_left m ds) = pad_left n ds"
  by (simp add: pad_left_def flip: replicate_add append_assoc)

lemma tshape_padded [simp]: "tshape (padded n t) = pad_left n (tshape t)"
  and wf_padded [simp]: "wf_tensor (padded n t) = wf_tensor t"
  and tdata_padded [simp]: "tdata (padded n t) = tdata t"
  by (simp_all add: padded_def wf_tensor_def treshape_def)

lemma padded_id [simp]: "n \<le> trank t \<Longrightarrow> padded n t = t"
  by (simp add: padded_def)

lemma length_bcast_ix [simp]: "length (bcast_ix ds is) = min (length ds) (length is)"
  by (simp add: bcast_ix_def)

lemma bcast_ix_pad_left:
  assumes "length ds \<le> length is" and "length is = n"
  shows "bcast_ix (pad_left n ds) is = replicate (n - length ds) 0 @ bcast_ix ds is"
proof (rule nth_equalityI)
  fix k assume "k < length (bcast_ix (pad_left n ds) is)"
  then have k: "k < n" using assms by simp
  show "bcast_ix (pad_left n ds) is ! k = (replicate (n - length ds) 0 @ bcast_ix ds is) ! k"
    using assms k
    by (cases "k < n - length ds") (simp_all add: bcast_ix_def pad_left_def nth_append)
qed (use assms in simp)

lemma ravel_replicate_1:
  "ravel (replicate m (Suc 0) @ ds) (replicate m 0 @ is) = ravel ds is"
  by (induction m) auto

lemma bget_padded:
  assumes "trank t \<le> n" and "length is = n" shows "bget (padded n t) is = bget t is"
proof -
  have "bcast_ix (pad_left n (tshape t)) is = replicate (n - trank t) 0 @ bcast_ix (tshape t) is"
    using assms by (intro bcast_ix_pad_left) simp_all
  then show ?thesis
    by (simp add: bget_def tnth_def pad_left_def ravel_replicate_1)
qed

lemma tmap2_bget: "tmap2 f s t = tgen (bcast_shape (tshape s) (tshape t)) (\<lambda>is. f (bget s is) (bget t is))"
  by (simp add: tmap2_def bget_def Let_def)

lemma tbroadcast_bget: "tbroadcast ds t = tgen ds (bget t)"
  by (simp add: tbroadcast_def bget_def [abs_def])

lemma bcast_shape_eq:
  "max (length as) (length bs) = n \<Longrightarrow> bcast_shape as bs = map2 bcast_dim (pad_left n as) (pad_left n bs)"
  by (simp add: bcast_shape_def Let_def)

lemma length_bcast_shape [simp]: "length (bcast_shape as bs) = max (length as) (length bs)"
  by (simp add: bcast_shape_def Let_def)

lemma map2_replicate_append:
  "map2 f (replicate m a @ xs) (replicate m b @ ys) = replicate m (f a b) @ map2 f xs ys"
  by (induction m) auto

lemma pad_left_max_split: "m \<le> n \<Longrightarrow> length ds \<le> m \<Longrightarrow> pad_left n ds = replicate (n - m) 1 @ pad_left m ds"
  by (simp add: pad_left_def flip: replicate_add append_assoc)

lemma bcast_shape_pad_left:
  assumes "length as \<le> n" and "length bs \<le> n"
  shows "bcast_shape (pad_left n as) (pad_left n bs) = pad_left n (bcast_shape as bs)"
proof -
  let ?m = "max (length as) (length bs)"
  have m: "?m \<le> n" using assms by simp
  have "bcast_shape (pad_left n as) (pad_left n bs) = map2 bcast_dim (pad_left n as) (pad_left n bs)"
    using assms by (simp add: bcast_shape_eq [of _ _ n])
  also have "\<dots> = replicate (n - ?m) (bcast_dim 1 1) @ map2 bcast_dim (pad_left ?m as) (pad_left ?m bs)"
    using pad_left_max_split [OF m, of as] pad_left_max_split [OF m, of bs]
    by (simp only: map2_replicate_append max.cobounded1 max.cobounded2)
  also have "\<dots> = pad_left n (bcast_shape as bs)"
    by (simp add: bcast_shape_eq [OF refl, of as bs] pad_left_def [of n] bcast_dim_def)
  finally show ?thesis .
qed

lemma padded_tgen:
  assumes "length ds \<le> n" and "\<And>is. length is = n \<Longrightarrow> g is = f (drop (n - length ds) is)"
  shows "padded n (tgen ds f) = tgen (pad_left n ds) g"
proof (rule tensor_eqI)
  fix "is" assume "valid_ix (tshape (tgen (pad_left n ds) g)) is"
  then have v: "valid_ix (pad_left n ds) is" by simp
  then have l: "length is = n" using assms(1) valid_ix_length [OF v] by simp
  have spl: "is = take (n - length ds) is @ drop (n - length ds) is" by simp
  have "list_all2 (<) (take (n - length ds) is @ drop (n - length ds) is) (replicate (n - length ds) 1 @ ds)"
    using v unfolding valid_ix_def pad_left_def by simp
  then have "list_all2 (<) (take (n - length ds) is) (replicate (n - length ds) 1) \<and>
      list_all2 (<) (drop (n - length ds) is) ds"
    using l by (subst (asm) list_all2_append) simp_all
  then have a: "list_all2 (<) (take (n - length ds) is) (replicate (n - length ds) 1)"
    and b: "list_all2 (<) (drop (n - length ds) is) ds" by simp_all
  have z: "take (n - length ds) is = replicate (n - length ds) 0"
    using a by (intro nth_equalityI) (auto simp: list_all2_conv_all_nth)
  have "tnth (padded n (tgen ds f)) is = tnth (tgen ds f) (drop (n - length ds) is)"
    by (simp add: tnth_def pad_left_def) (subst spl, simp only: z ravel_replicate_1)
  also have "\<dots> = g is" using b l assms(2) by (simp add: valid_ix_def)
  finally show "tnth (padded n (tgen ds f)) is = tnth (tgen (pad_left n ds) g) is" using v by simp
qed simp_all

lemma bget_drop: "trank t \<le> n \<Longrightarrow> n \<le> length is \<Longrightarrow> bget t (drop (length is - n) is) = bget t is"
  by (simp add: bget_def bcast_ix_def)

lemma padded_tmap2:
  assumes "trank s \<le> n" and "trank t \<le> n"
  shows "padded n (tmap2 f s t) = tmap2 f (padded n s) (padded n t)"
proof -
  let ?ds = "bcast_shape (tshape s) (tshape t)" and ?g = "\<lambda>is. f (bget (padded n s) is) (bget (padded n t) is)"
  have "?g is = (\<lambda>is. f (bget s is) (bget t is)) (drop (n - length ?ds) is)" if "length is = n" for "is"
    using that assms bget_drop [of s "length ?ds" "is"] bget_drop [of t "length ?ds" "is"] by (simp add: bget_padded)
  then have "padded n (tmap2 f s t) = tgen (pad_left n ?ds) ?g"
    unfolding tmap2_bget using assms by (intro padded_tgen) simp_all
  then show ?thesis using assms by (simp add: tmap2_bget bcast_shape_pad_left)
qed

section \<open>Permuting the axes\<close>

lemma permute_map2_perm:
  assumes "is_perm p n" and "length xs = n" and "length ys = n"
  shows "permute p (map2 f xs ys) = map2 f (permute p xs) (permute p ys)"
  using assms by (intro nth_equalityI) (simp_all add: is_perm_length is_perm_nth_less)

lemma bget_ttranspose:
  assumes p: "is_perm p (trank t)" and "length is = trank t" and v: "valid_ix (tshape t) (bcast_ix (tshape t) is)"
  shows "bget (ttranspose p t) (permute p is) = bget t is"
proof -
  have "bcast_ix (permute p (tshape t)) (permute p is) = permute p (bcast_ix (tshape t) is)"
    using assms permute_map2_perm [OF p, of "tshape t" "is" "\<lambda>d i. if d = 1 then 0 else i"]
    by (simp add: bcast_ix_def)
  then show ?thesis using tnth_ttranspose_permute [OF p v] by (simp add: bget_def)
qed

lemma bcast_compat_same_rank:
  "length as = length bs \<Longrightarrow> bcast_compat as bs \<longleftrightarrow> (\<forall>k<length as. as ! k = 1 \<or> bs ! k = 1 \<or> as ! k = bs ! k)"
  by (simp add: bcast_compat_def Let_def list_all2_conv_all_nth)

lemma bcast_compat_permute:
  assumes p: "is_perm p (length as)" and l: "length bs = length as" and "bcast_compat as bs"
  shows "bcast_compat (permute p as) (permute p bs)"
  using assms is_perm_nth_less [OF p] by (simp add: bcast_compat_same_rank is_perm_length)

lemma bcast_compat_pad_left:
  assumes "length as \<le> n" "length bs \<le> n"
  shows "bcast_compat (pad_left n as) (pad_left n bs) \<longleftrightarrow> bcast_compat as bs"
proof -
  let ?m = "max (length as) (length bs)"
  have m: "?m \<le> n" using assms by simp
  have "list_all2 P (replicate k a @ xs) (replicate k a @ ys) \<longleftrightarrow> list_all2 P xs ys"
    if "P a a" for P :: "nat \<Rightarrow> nat \<Rightarrow> bool" and k a xs ys using that by (induction k) auto
  then show ?thesis
    using assms pad_left_max_split [OF m, of as] pad_left_max_split [OF m, of bs]
    by (simp add: bcast_compat_def Let_def)
qed

lemma bcast_read_valid:
  assumes "bcast_compat as bs" and "valid_ix (bcast_shape as bs) is"
  shows "valid_ix as (bcast_ix as is)" and "valid_ix bs (bcast_ix bs is)"
proof -
  let ?n = "max (length as) (length bs)"
  have l: "length is = ?n" using valid_ix_length [OF assms(2)] by simp
  have sh: "bcast_shape as bs = map2 bcast_dim (pad_left ?n as) (pad_left ?n bs)" by (rule bcast_shape_eq [OF refl])
  have c: "pad_left ?n as ! k = 1 \<or> pad_left ?n bs ! k = 1 \<or> pad_left ?n as ! k = pad_left ?n bs ! k" if "k < ?n" for k
    using assms(1) that by (simp add: bcast_compat_def Let_def list_all2_conv_all_nth)
  have b: "is ! k < bcast_dim (pad_left ?n as ! k) (pad_left ?n bs ! k)" if "k < ?n" for k
    using valid_ix_nth [OF assms(2), of k] that by (simp add: sh)
  show "valid_ix as (bcast_ix as is)"
  proof (rule valid_ixI)
    fix k assume k: "k < length as"
    have kk: "?n - length as + k < ?n" using k by linarith
    from k have "pad_left ?n as ! (?n - length as + k) = as ! k"
      unfolding pad_left_def by (subst nth_append_right) simp_all
    then show "bcast_ix as is ! k < as ! k"
      using k l b [OF kk] c [OF kk]
      by (auto simp: bcast_ix_def bcast_dim_def split: if_splits)
  qed (use l in simp)
  show "valid_ix bs (bcast_ix bs is)"
  proof (rule valid_ixI)
    fix k assume k: "k < length bs"
    have kk: "?n - length bs + k < ?n" using k by linarith
    from k have "pad_left ?n bs ! (?n - length bs + k) = bs ! k"
      unfolding pad_left_def by (subst nth_append_right) simp_all
    then show "bcast_ix bs is ! k < bs ! k"
      using k l b [OF kk] c [OF kk]
      by (auto simp: bcast_ix_def bcast_dim_def split: if_splits)
  qed (use l in simp)
qed

lemma ttranspose_tmap2:
  assumes r: "trank s = n" "trank t = n" and p: "is_perm p n" and c: "bcast_compat (tshape s) (tshape t)"
  shows "ttranspose p (tmap2 f s t) = tmap2 f (ttranspose p s) (ttranspose p t)"
proof (rule tensor_transpose_eqI)
  have sh: "bcast_shape (permute p (tshape s)) (permute p (tshape t)) = permute p (bcast_shape (tshape s) (tshape t))"
    using p r permute_map2_perm [OF p, of "tshape s" "tshape t" bcast_dim]
    by (simp add: bcast_shape_eq [of _ _ n] is_perm_length)
  then show "tshape (tmap2 f (ttranspose p s) (ttranspose p t)) = permute p (tshape (tmap2 f s t))" by simp
  fix "is" assume "valid_ix (tshape (tmap2 f s t)) is"
  then have v: "valid_ix (bcast_shape (tshape s) (tshape t)) is" by simp
  then have l: "length is = n" using valid_ix_length [OF v] r by simp
  have "valid_ix (permute p (bcast_shape (tshape s) (tshape t))) (permute p is)"
    using p r v by (intro valid_ix_permuteI) simp_all
  then show "tnth (tmap2 f (ttranspose p s) (ttranspose p t)) (permute p is) = tnth (tmap2 f s t) is"
    using v p r l bcast_read_valid [OF c v] by (simp add: tmap2_bget sh bget_ttranspose)
qed (use p r in simp_all)

section \<open>Scalars\<close>

lemma bget_scalar [simp]: "bget (Tensor [] [v]) is = v"
  by (simp add: bget_def bcast_ix_def tnth_def)

lemma bget_self: "valid_ix (tshape t) is \<Longrightarrow> bget t is = tnth t is"
  by (simp add: bget_def bcast_ix_self)

lemma bcast_dim_1 [simp]: "bcast_dim 1 d = d" "bcast_dim d 1 = d" "bcast_dim (Suc 0) d = d" "bcast_dim d (Suc 0) = d"
  by (simp_all add: bcast_dim_def)

lemma bcast_shape_scalar [simp]: "bcast_shape ds [] = ds" "bcast_shape [] ds = ds"
proof -
  have "map2 bcast_dim ds (replicate (length ds) 1) = ds" "map2 bcast_dim (replicate (length ds) 1) ds = ds"
    by (induction ds) auto
  then show "bcast_shape ds [] = ds" "bcast_shape [] ds = ds"
    by (simp_all add: bcast_shape_def pad_left_def)
qed

lemma bcast_compat_scalar [simp]: "bcast_compat ds []" "bcast_compat [] ds"
  by (simp_all add: bcast_compat_def pad_left_def Let_def list_all2_conv_all_nth)

lemma bcast_compat_refl [simp]: "bcast_compat ds ds"
  by (simp add: bcast_compat_same_rank)

lemma tmap2_scalar_right: "wf_tensor t \<Longrightarrow> tmap2 f t (Tensor [] [v]) = tmap (\<lambda>x. f x v) t"
  by (intro tensor_eqI) (simp_all add: tmap2_bget bget_self tnth_tmap)

lemma tmap2_scalar_left: "wf_tensor t \<Longrightarrow> tmap2 f (Tensor [] [v]) t = tmap (f v) t"
  by (intro tensor_eqI) (simp_all add: tmap2_bget bget_self tnth_tmap)

lemma tmap2_tmap_same: "wf_tensor t \<Longrightarrow> tmap2 f (tmap g t) (tmap h t) = tmap (\<lambda>x. f (g x) (h x)) t"
  by (intro tensor_eqI) (simp_all add: tmap2_bget bget_self tnth_tmap)

lemma tmap_tmap [simp]: "tmap f (tmap g t) = tmap (f \<circ> g) t"
  by (simp add: tmap_def)

section \<open>The flat index a broadcast reads\<close>

text \<open>
  For a list of axes given by the extents of an operand and of the result, \<open>bflat\<close> maps the flat
  index of a result element to the flat index of the operand element it reads.
\<close>

fun bflat :: "(nat \<times> nat) list \<Rightarrow> nat \<Rightarrow> nat" where
  "bflat [] k = 0"
| "bflat ((l, r) # as) k =
     (if l = 1 then 0 else k div prod_list (map snd as)) * prod_list (map fst as) +
     bflat as (k mod prod_list (map snd as))"

lemma bflat_ravel:
  "length L = length R \<Longrightarrow> k < prod_list R \<Longrightarrow> ravel L (bcast_ix L (unravel R k)) = bflat (zip L R) k"
proof (induction L R arbitrary: k rule: list_induct2)
  case (Cons l L r R)
  then have "0 < prod_list R" by (cases "prod_list R = 0") auto
  then have "k mod prod_list R < prod_list R" by simp
  then show ?case using Cons by (simp add: bcast_ix_def)
qed simp

lemma mod_mult_div: "(k mod (a * b)) div b = (k div b) mod (a :: nat)"
  by (cases "b = 0") (simp_all add: mod_mult2_eq mult.commute [of a])

lemma bflat_append:
  "k < prod_list (map snd (as @ bs)) \<Longrightarrow> bflat (as @ bs) k =
     bflat as (k div prod_list (map snd bs)) * prod_list (map fst bs) + bflat bs (k mod prod_list (map snd bs))"
proof (induction as arbitrary: k)
  case (Cons a as)
  obtain l r where a: "a = (l, r)" by (cases a)
  let ?p = "prod_list (map snd as) * prod_list (map snd bs)"
  have "0 < ?p" using Cons.prems by (intro gr0I) auto
  then have "k mod ?p < prod_list (map snd (as @ bs))" by simp
  note IH = Cons.IH [OF this]
  have "k mod (prod_list (map snd as) * prod_list (map snd bs)) mod prod_list (map snd bs) = k mod prod_list (map snd bs)"
    by (simp add: mod_mod_cancel)
  then show ?case
    by (simp add: a IH mod_mult_div algebra_simps)
      (simp add: div_mult2_eq mult.commute [of "prod_list (map snd as)"])
qed simp

definition bequiv :: "(nat \<times> nat) list \<Rightarrow> (nat \<times> nat) list \<Rightarrow> bool" where
  "bequiv xs ys \<longleftrightarrow> prod_list (map fst xs) = prod_list (map fst ys) \<and> prod_list (map snd xs) = prod_list (map snd ys) \<and>
     (\<forall>k<prod_list (map snd xs). bflat xs k = bflat ys k)"

lemma bequiv_refl [simp]: "bequiv xs xs"
  by (simp add: bequiv_def)

lemma bequiv_trans: "bequiv xs ys \<Longrightarrow> bequiv ys zs \<Longrightarrow> bequiv xs zs"
  by (simp add: bequiv_def)

lemma bequiv_context:
  assumes "bequiv xs ys" shows "bequiv (as @ xs @ bs) (as @ ys @ bs)"
proof -
  have p: "prod_list (map fst xs) = prod_list (map fst ys)" "prod_list (map snd xs) = prod_list (map snd ys)"
    using assms by (simp_all add: bequiv_def)
  have "bflat (as @ xs @ bs) k = bflat (as @ ys @ bs) k"
    if "k < prod_list (map snd (as @ xs @ bs))" for k
  proof -
    let ?j = "k mod (prod_list (map snd xs) * prod_list (map snd bs)) div prod_list (map snd bs)"
    have "0 < prod_list (map snd xs)" using that by (intro gr0I) simp
    then have j: "?j < prod_list (map snd xs)" by (simp add: mod_mult_div)
    have m: "k mod (prod_list (map snd xs) * prod_list (map snd bs)) < prod_list (map snd (xs @ bs))"
      using that by (intro gr0I [THEN mod_less_divisor, THEN order_less_le_trans]) auto
    note sp = bflat_append [OF that] bflat_append [of k as "ys @ bs"] bflat_append [OF m]
      bflat_append [of "k mod (prod_list (map snd ys) * prod_list (map snd bs))" ys bs]
    have "bflat xs ?j = bflat ys ?j" using assms j by (simp add: bequiv_def)
    then show ?thesis using sp that m by (simp add: p)
  qed
  then show ?thesis by (simp add: bequiv_def p)
qed

lemma bequiv_drop: "bequiv [] [(1, 1)]"
  by (simp add: bequiv_def)

lemma bequiv_merge:
  assumes "(l1 = 1) = (l2 = 1)" and "l1 = 1 \<or> l1 = r1" and "l2 = 1 \<or> l2 = r2"
  shows "bequiv [(l1 * l2, r1 * r2)] [(l1, r1), (l2, r2)]"
  using assms by (cases "l1 = 1") (auto simp: bequiv_def)

lemma tdata_tmap2:
  assumes "trank s \<le> n" "trank t \<le> n" and n: "max (trank s) (trank t) = n"
  defines "R \<equiv> bcast_shape (tshape s) (tshape t)"
  shows "tdata (tmap2 f s t) = map (\<lambda>k. f (tdata s ! bflat (zip (pad_left n (tshape s)) R) k)
           (tdata t ! bflat (zip (pad_left n (tshape t)) R) k)) [0..<prod_list R]"
proof -
  have R: "length R = n" using n by (simp add: R_def)
  have "bget s (unravel R k) = tdata s ! bflat (zip (pad_left n (tshape s)) R) k" if "k < prod_list R" for k
    using that assms(1) R bget_padded [of s n "unravel R k"] by (simp add: bget_def tnth_def bflat_ravel)
  moreover have "bget t (unravel R k) = tdata t ! bflat (zip (pad_left n (tshape t)) R) k" if "k < prod_list R" for k
    using that assms(2) R bget_padded [of t n "unravel R k"] by (simp add: bget_def tnth_def bflat_ravel)
  ultimately show ?thesis by (simp add: tmap2_bget tgen_def flip: R_def)
qed

lemma tmap2_collapse:
  assumes n: "max (trank s) (trank t) = n" and R: "R = bcast_shape (tshape s) (tshape t)"
    and l: "length L' = m" "length S' = m" and R': "bcast_shape L' S' = R'"
    and e: "bequiv (zip L' R') (zip (pad_left n (tshape s)) R)" "bequiv (zip S' R') (zip (pad_left n (tshape t)) R)"
  shows "treshape R (tmap2 f (treshape L' s) (treshape S' t)) = tmap2 f s t"
proof -
  have lR: "length R' = m" "length R = n" using l R' R n by auto
  have pr: "prod_list R' = prod_list R"
    using e(1) l lR n by (simp add: bequiv_def)
  have "tdata (tmap2 f (treshape L' s) (treshape S' t)) = tdata (tmap2 f s t)"
    using e l lR n pr
    by (simp add: tdata_tmap2 [of "treshape L' s" m "treshape S' t"] tdata_tmap2 [of s n t] R' bequiv_def flip: R)
      (simp add: treshape_def)
  then show ?thesis by (simp add: treshape_def R tmap2_bget [of f s t] tgen_def)
qed

section \<open>Materialised broadcasts\<close>

lemma bcast_ok_shape:
  assumes "bcast_compat as bs"
  shows "bcast_ok as (bcast_shape as bs)" and "bcast_ok bs (bcast_shape as bs)"
proof -
  let ?n = "max (length as) (length bs)"
  define R where "R = bcast_shape as bs"
  define as' bs' where d: "as' = pad_left ?n as" "bs' = pad_left ?n bs"
  have R: "R = map2 bcast_dim as' bs'" "length R = ?n" "length as' = ?n" "length bs' = ?n"
    by (simp_all add: R_def d bcast_shape_def Let_def)
  have c: "as' ! k = 1 \<or> bs' ! k = 1 \<or> as' ! k = bs' ! k" if "k < ?n" for k
    using assms that by (simp add: d bcast_compat_def Let_def list_all2_conv_all_nth)
  have a: "as' ! (?n - length as + k) = as ! k" if "k < length as" for k
    unfolding d pad_left_def using that by (subst nth_append_right) simp_all
  have b: "bs' ! (?n - length bs + k) = bs ! k" if "k < length bs" for k
    unfolding d pad_left_def using that by (subst nth_append_right) simp_all
  have "as ! k = 1 \<or> as ! k = drop (?n - length as) R ! k" if "k < length as" for k
  proof -
    have kk: "?n - length as + k < ?n" using that by linarith
    then show ?thesis using a [OF that] R by (simp add: bcast_dim_def)
  qed
  moreover have "bs ! k = 1 \<or> bs ! k = drop (?n - length bs) R ! k" if "k < length bs" for k
  proof -
    have kk: "?n - length bs + k < ?n" using that by linarith
    then show ?thesis using b [OF that] c [OF kk] R by (auto simp: bcast_dim_def)
  qed
  ultimately show "bcast_ok as (bcast_shape as bs)" and "bcast_ok bs (bcast_shape as bs)"
    using R(2) unfolding bcast_ok_def R_def [symmetric] by (simp_all add: list_all2_conv_all_nth)
qed

lemma tbroadcast_padded:
  assumes "wf_tensor t" and "pad_left (length R) (tshape t) = R"
  shows "tbroadcast R t = padded (length R) t"
proof (rule tensor_eqI)
  have l: "trank t \<le> length R" using arg_cong [OF assms(2), of length] by simp
  fix "is" assume "valid_ix (tshape (padded (length R) t)) is"
  then have v: "valid_ix R is" using assms(2) by simp
  then have "bget t is = bget (padded (length R) t) is"
    using l valid_ix_length [OF v] by (simp add: bget_padded)
  also have "\<dots> = tnth (padded (length R) t) is" using v assms(2) by (simp add: bget_self)
  finally show "tnth (tbroadcast R t) is = tnth (padded (length R) t) is"
    using v by (simp add: tbroadcast_bget)
qed (use assms in simp_all)

lemma tmap2_same_shape:
  assumes "wf_tensor x" "wf_tensor y" "tshape x = tshape y"
  shows "tmap2 f x y = Tensor (tshape x) (map2 f (tdata x) (tdata y))"
proof (rule tensor_eqI)
  fix "is" assume "valid_ix (tshape (Tensor (tshape x) (map2 f (tdata x) (tdata y)))) is"
  then have v: "valid_ix (tshape x) is" by simp
  then show "tnth (tmap2 f x y) is = tnth (Tensor (tshape x) (map2 f (tdata x) (tdata y))) is"
    using assms ravel_less [OF v] bget_self [OF v] bget_self [of y "is"]
    by (simp add: tmap2_bget) (simp add: tnth_def wf_tensor_def)
next
  show "wf_tensor (Tensor (tshape x) (map2 f (tdata x) (tdata y)))" using assms by (simp add: wf_tensor_def)
qed (use assms in simp_all)

lemma tmap2_flat:
  assumes "wf_tensor x" "wf_tensor y" "tshape x = tshape y" and "prod_list ds = prod_list (tshape x)"
  shows "tmap2 f (treshape ds x) (treshape ds y) = treshape ds (tmap2 f x y)"
  using assms tmap2_same_shape [of "treshape ds x" "treshape ds y" f] tmap2_same_shape [of x y f]
  by (simp add: wf_treshape) (simp add: treshape_def)

lemma tmap2_tbroadcast:
  assumes "R = bcast_shape (tshape s) (tshape t)"
  shows "tmap2 f (tbroadcast R s) (tbroadcast R t) = tmap2 f s t"
  by (rule tensor_eqI) (simp_all add: tmap2_bget bget_self tbroadcast_bget assms)

section \<open>Nested maps\<close>

lemma bget_tmap: "wf_tensor t \<Longrightarrow> valid_ix (tshape t) (bcast_ix (tshape t) is) \<Longrightarrow> bget (tmap g t) is = g (bget t is)"
  by (simp add: bget_def tnth_tmap)

lemma bcast_dim_absorb: "bcast_dim a (bcast_dim a b) = bcast_dim a b"
  "a = 1 \<or> b = 1 \<or> a = b \<Longrightarrow> bcast_dim (bcast_dim a b) b = bcast_dim a b"
  by (auto simp: bcast_dim_def)

lemma bcast_shape_absorb:
  assumes "bcast_compat as bs"
  shows "bcast_shape as (bcast_shape as bs) = bcast_shape as bs" "bcast_shape (bcast_shape as bs) bs = bcast_shape as bs"
    "bcast_compat as (bcast_shape as bs)" "bcast_compat (bcast_shape as bs) bs"
proof -
  let ?n = "max (length as) (length bs)"
  define as' bs' where d: "as' = pad_left ?n as" "bs' = pad_left ?n bs"
  have l: "length as' = ?n" "length bs' = ?n" by (simp_all add: d)
  have R: "bcast_shape as bs = map2 bcast_dim as' bs'" by (simp add: d bcast_shape_def Let_def)
  have c: "as' ! k = 1 \<or> bs' ! k = 1 \<or> as' ! k = bs' ! k" if "k < ?n" for k
    using assms that by (simp add: d bcast_compat_def Let_def list_all2_conv_all_nth)
  have "bcast_shape as (bcast_shape as bs) = map2 bcast_dim as' (map2 bcast_dim as' bs')"
    unfolding R using l by (subst bcast_shape_eq [of _ _ ?n]) (simp_all add: d)
  also have "\<dots> = map2 bcast_dim as' bs'" using l by (intro nth_equalityI) (simp_all add: bcast_dim_absorb)
  finally show "bcast_shape as (bcast_shape as bs) = bcast_shape as bs" by (simp add: R)
  have "bcast_shape (bcast_shape as bs) bs = map2 bcast_dim (map2 bcast_dim as' bs') bs'"
    unfolding R using l by (subst bcast_shape_eq [of _ _ ?n]) (simp_all add: d)
  also have "\<dots> = map2 bcast_dim as' bs'" using l c by (intro nth_equalityI) (simp_all add: bcast_dim_absorb)
  finally show "bcast_shape (bcast_shape as bs) bs = bcast_shape as bs" by (simp add: R)
  have "bcast_compat (pad_left ?n as) (bcast_shape as bs)" "bcast_compat (bcast_shape as bs) (pad_left ?n bs)"
    using l c by (auto simp: bcast_compat_same_rank R bcast_dim_def simp flip: d)
  then show "bcast_compat as (bcast_shape as bs)" "bcast_compat (bcast_shape as bs) bs"
    using bcast_compat_pad_left [of as ?n "bcast_shape as bs"] bcast_compat_pad_left [of "bcast_shape as bs" ?n bs] by simp_all
qed

lemma tmap2_nest:
  assumes "wf_tensor s" "wf_tensor t" and c: "bcast_compat (tshape s) (tshape t)"
  shows "tmap2 g (tmap h s) (tmap2 f s t) = tmap2 (\<lambda>a b. g (h a) (f a b)) s t"
    and "tmap2 g (tmap2 f s t) t = tmap2 (\<lambda>a b. g (f a b) b) s t"
    and "tmap2 g (tmap2 f s t) (tmap2 f' s t) = tmap2 (\<lambda>a b. g (f a b) (f' a b)) s t"
    and "tselect true (tmap2 f s t) (tmap2 f' s t) (tmap2 f'' s t) =
           tmap2 (\<lambda>a b. if true (f a b) then f' a b else f'' a b) s t"
  using assms bcast_read_valid [OF c]
  by (auto intro!: tensor_eqI simp: tselect_def tmap2_bget bget_self bget_tmap bcast_shape_absorb [OF c] bcast_ix_self)

end
