(* ===== verification/Lower_Elementwise.thy ===== *)
theory Lower_Elementwise
  imports TFL_Reference Tensor_Broadcast
begin

text \<open>
  Model of the broadcasting patterns of \<^verbatim>\<open>Math/Elementwise.cpp\<close>: the adaptation of a lower-rank
  operand to the NHWC result (\<^verbatim>\<open>adaptRank4ElementwiseBroadcast\<close>), \<^verbatim>\<open>BinaryElementwiseLowering\<close>
  (Add, Sub, Mul, Div, Pow) with its collapsing of high-rank broadcasts, and
  \<^verbatim>\<open>VariadicMinMaxLowering\<close>.
\<close>

section \<open>Adapting an operand to a rank-4 result\<close>

definition aligned_shape :: "nat \<Rightarrow> int list \<Rightarrow> int list" where
  "aligned_shape rank shape = replicate (rank - length shape) 1 @ shape"

definition adaptRank4ElementwiseBroadcast :: "mtype \<Rightarrow> mtype \<Rightarrow> 'f val \<Rightarrow> mtype \<Rightarrow> 'f val result" where
  "adaptRank4ElementwiseBroadcast sourceResult sourceOperand convertedOperand convertedResult =
     (case (sourceResult, sourceOperand) of
        (RankedTensor resultShape resultElt, RankedTensor operandShape operandElt) \<Rightarrow>
          let operandRank = getRank operandShape in
          if getRank resultShape \<noteq> 4 then Inr convertedOperand
          else if operandRank = 0 \<or> operandRank = 4 then Inr convertedOperand
          else if operandRank < 0 \<or> 3 < operandRank \<or>
                  \<not> (case convertedResult of RankedTensor _ _ \<Rightarrow> True | _ \<Rightarrow> False) then Inl BadRank
          else
            let logicalShape = aligned_shape 4 operandShape in
            if \<not> list_all2 (\<lambda>operandDim resultDim. operandDim = 1 \<or> operandDim = resultDim) logicalShape resultShape
              then Inl NotCompatible
            else
              let shape = [logicalShape ! 2, logicalShape ! 3, logicalShape ! 1];
                  broadcastType = RankedTensor shape operandElt in
              if operandRank = 3 \<and> logicalShape ! 1 \<noteq> 1 \<and> (logicalShape ! 2 \<noteq> 1 \<or> logicalShape ! 3 \<noteq> 1)
              then Inr (createTFLOperation ''tfl.transpose'' [broadcastType]
                     [convertedOperand, createI32ShapeConstant [1, 2, 0]] [] 0)
              else Inr (emitReshape broadcastType shape convertedOperand)
      | _ \<Rightarrow> Inr convertedOperand)"

section \<open>Collapsing the axes of a high-rank broadcast\<close>

text \<open>
  An entry is the broadcast kind of a group of axes (is the extent of the left and of the right
  operand 1) with the products of the result, left and right extents: the four vectors of the
  source, which always have the same length.
\<close>

type_synonym axis_group = "(bool \<times> bool) \<times> int \<times> int \<times> int"

definition add_axis :: "axis_group list \<Rightarrow> int \<Rightarrow> int \<Rightarrow> int \<Rightarrow> axis_group list" where
  "add_axis groups resultDimension lhsDimension rhsDimension =
     (if resultDimension = 1 then groups
      else
        let kind = (lhsDimension = 1, rhsDimension = 1) in
        if groups \<noteq> [] \<and> fst (last groups) = kind then
          (case last groups of (_, r, l, s) \<Rightarrow>
             butlast groups @ [(kind, r * resultDimension, l * lhsDimension, s * rhsDimension)])
        else groups @ [(kind, resultDimension, lhsDimension, rhsDimension)])"

fun collapse_broadcast :: "axis_group list \<Rightarrow> (int \<times> int \<times> int) list \<Rightarrow> axis_group list result" where
  "collapse_broadcast groups [] =
     Inr (if groups = [] then [((True, True), 1, 1, 1)] else groups)"
| "collapse_broadcast groups ((resultDimension, lhsDimension, rhsDimension) # rest) =
     (if (lhsDimension \<noteq> 1 \<and> lhsDimension \<noteq> resultDimension) \<or>
         (rhsDimension \<noteq> 1 \<and> rhsDimension \<noteq> resultDimension) then Inl NotCompatible
      else collapse_broadcast (add_axis groups resultDimension lhsDimension rhsDimension) rest)"

section \<open>Add, Sub, Mul, Div, Pow\<close>

record 'f binary_op =
  bin_lhs :: "'f operand"
  bin_rhs :: "'f operand"
  bin_result :: mtype

definition binary_element_ok :: "string \<Rightarrow> elt \<Rightarrow> bool" where
  "binary_element_ok tflName e \<longleftrightarrow>
     isF32 e \<or> (isSignlessInteger 32 e \<and> tflName = ''tfl.add'') \<or>
     (isSignlessInteger 64 e \<and> (tflName = ''tfl.add'' \<or> tflName = ''tfl.mul''))"

definition maximumBroadcastRank :: "string \<Rightarrow> nat" where
  "maximumBroadcastRank tflName = (if tflName = ''tfl.pow'' then 4 else 5)"

definition binary_attributes :: "string \<Rightarrow> (string \<times> 'f attr) list" where
  "binary_attributes tflName = (if tflName = ''tfl.pow'' then [] else [getFusedActivationNone])"

definition reshapeOperand :: "bool \<Rightarrow> 'f val \<Rightarrow> int list \<Rightarrow> elt \<Rightarrow> int list \<Rightarrow> 'f val" where
  "reshapeOperand f32 val sourceShape sourceElt shape =
     (let val' = (if f32 \<and> getRank sourceShape = 4
                  then restoreLogicalRank4 (RankedTensor sourceShape sourceElt) val else val) in
      emitReshape (RankedTensor shape sourceElt) shape val')"

definition emit_collapsed :: "string \<Rightarrow> elt \<Rightarrow> int list \<Rightarrow> int list \<Rightarrow> mtype \<Rightarrow> axis_group list \<Rightarrow> 'f val \<Rightarrow> 'f val \<Rightarrow> 'f val result" where
  "emit_collapsed tflName e lhsShape rhsShape sourceResultType groups lhs rhs =
     (let reducedResultShape = map (\<lambda>(_, r, l, s). r) groups;
          reducedLhsShape = map (\<lambda>(_, r, l, s). l) groups;
          reducedRhsShape = map (\<lambda>(_, r, l, s). s) groups in
      if 4 < length reducedResultShape then Inl TooLarge
      else
        let lhs' = reshapeOperand (isF32 e) lhs lhsShape e reducedLhsShape;
            rhs' = reshapeOperand (isF32 e) rhs rhsShape e reducedRhsShape;
            reducedResult = createTFLOperation tflName [RankedTensor reducedResultShape e] [lhs', rhs']
              (binary_attributes tflName) 0 in
        Inr (emitReshape sourceResultType (case sourceResultType of RankedTensor sh _ \<Rightarrow> sh | _ \<Rightarrow> []) reducedResult))"

definition lower_binary :: "string \<Rightarrow> 'f binary_op \<Rightarrow> 'f val result" where
  "lower_binary tflName op =
     (let lhs = adaptor 0 (bin_lhs op); rhs = adaptor 1 (bin_rhs op) in
      case (vtype lhs, vtype rhs, bin_result op) of
        (RankedTensor lhsShape lhsElt, RankedTensor rhsShape rhsElt, RankedTensor resultShape resultElt) \<Rightarrow>
          if \<not> hasStaticShape lhsShape \<or> \<not> hasStaticShape rhsShape \<or> \<not> hasStaticShape resultShape \<or>
             rhsElt \<noteq> lhsElt \<or> resultElt \<noteq> lhsElt \<or> \<not> binary_element_ok tflName lhsElt then Inl BadTypes
          else
            let resultType = convertRank4NCHWToNHWCType (bin_result op) in
            if int (maximumBroadcastRank tflName) < getRank resultShape then
              let resultRank = length resultShape in
              bind_result
                (collapse_broadcast []
                   (zip resultShape (zip (aligned_shape resultRank lhsShape) (aligned_shape resultRank rhsShape))))
                (\<lambda>groups. emit_collapsed tflName lhsElt lhsShape rhsShape (bin_result op) groups lhs rhs)
            else if isF32 lhsElt then
              bind_result (adaptRank4ElementwiseBroadcast (bin_result op) (oty (bin_lhs op)) lhs resultType) (\<lambda>lhs'.
              bind_result (adaptRank4ElementwiseBroadcast (bin_result op) (oty (bin_rhs op)) rhs resultType) (\<lambda>rhs'.
              Inr (createTFLOperation tflName [resultType] [lhs', rhs'] (binary_attributes tflName) 0)))
            else Inr (createTFLOperation tflName [resultType] [lhs, rhs] (binary_attributes tflName) 0)
      | _ \<Rightarrow> Inl BadTypes)"

section \<open>Min and Max\<close>

record 'f variadic_op =
  var_operands :: "'f operand list"
  var_result :: mtype

definition broadcast_dim :: "int \<Rightarrow> int \<Rightarrow> int result" where
  "broadcast_dim lhsDim rhsDim =
     (if lhsDim \<noteq> rhsDim \<and> lhsDim \<noteq> 1 \<and> rhsDim \<noteq> 1 then Inl NotCompatible else Inr (max lhsDim rhsDim))"

fun broadcast_dims :: "(int \<times> int) list \<Rightarrow> int list result" where
  "broadcast_dims [] = Inr []"
| "broadcast_dims ((l, r) # rest) =
     bind_result (broadcast_dims rest) (\<lambda>ds. bind_result (broadcast_dim l r) (\<lambda>d. Inr (d # ds)))"

definition computeBroadcastShape :: "int list \<Rightarrow> int list \<Rightarrow> int list result" where
  "computeBroadcastShape lhs rhs =
     (let rank = max (length lhs) (length rhs) in
      broadcast_dims (zip (aligned_shape rank lhs) (aligned_shape rank rhs)))"

fun adapt_operands :: "mtype \<Rightarrow> elt \<Rightarrow> nat \<Rightarrow> 'f operand list \<Rightarrow> 'f val list result" where
  "adapt_operands sourceResult elementType i [] = Inr []"
| "adapt_operands sourceResult elementType i (operand # rest) =
     (case oty operand of
        RankedTensor shape e \<Rightarrow>
          if \<not> hasStaticShape shape \<or> e \<noteq> elementType then Inl BadTypes
          else bind_result
            (if isF32 elementType
             then adaptRank4ElementwiseBroadcast sourceResult (oty operand) (adaptor i operand)
                    (convertRank4NCHWToNHWCType sourceResult)
             else Inr (adaptor i operand))
            (\<lambda>v. bind_result (adapt_operands sourceResult elementType (Suc i) rest) (\<lambda>vs. Inr (v # vs)))
      | _ \<Rightarrow> Inl BadTypes)"

fun fold_minmax :: "string \<Rightarrow> elt \<Rightarrow> 'f val \<Rightarrow> 'f val list \<Rightarrow> 'f val result" where
  "fold_minmax tflName elementType res [] = Inr res"
| "fold_minmax tflName elementType res (operand # rest) =
     (case (vtype res, vtype operand) of
        (RankedTensor lhsShape _, RankedTensor rhsShape _) \<Rightarrow>
          bind_result (computeBroadcastShape lhsShape rhsShape) (\<lambda>resultShape.
            fold_minmax tflName elementType
              (createTFLOperation tflName [RankedTensor resultShape elementType] [res, operand] [] 0) rest)
      | _ \<Rightarrow> Inl BadTypes)"

definition lower_minmax :: "string \<Rightarrow> 'f variadic_op \<Rightarrow> 'f val result" where
  "lower_minmax tflName op =
     (case var_result op of
        RankedTensor resultShape elementType \<Rightarrow>
          if \<not> hasStaticShape resultShape \<or> var_operands op = [] then Inl BadTypes
          else if \<not> isF32 elementType \<and> \<not> isSignlessInteger 32 elementType \<and> \<not> isSignlessInteger 64 elementType
            then Inl BadTypes
          else
            bind_result (adapt_operands (var_result op) elementType 0 (var_operands op)) (\<lambda>operands.
            bind_result (fold_minmax tflName elementType (hd operands) (tl operands)) (\<lambda>res.
            if vtype res \<noteq> convertRank4NCHWToNHWCType (var_result op) then Inl ShapeMismatch else Inr res))
      | _ \<Rightarrow> Inl BadTypes)"

section \<open>The adapted operand\<close>

lemma aligned_shape_map_int: "aligned_shape n (map int ds) = map int (pad_left n ds)"
  by (simp add: aligned_shape_def pad_left_def)

lemma nhwc_single_channel:
  assumes "wf_tensor t" and "tshape t = [n, 1, h, w]"
  shows "ttranspose to_nhwc t = treshape [n, h, w, 1] t"
proof (rule tensor_transpose_eqI)
  fix "is" assume "valid_ix (tshape t) is"
  then obtain i y x where "is = [i, 0, y, x]" using assms(2) by (auto simp: valid_ix_Cons)
  then show "tnth (treshape [n, h, w, 1] t) (permute to_nhwc is) = tnth t is"
    using assms(2) by (simp add: treshape_def tnth_def)
qed (use assms in \<open>simp_all add: wf_treshape is_perm_def to_nhwc_def permute_def\<close>)

lemma padded_chw:
  assumes "wf_tensor t" and "tshape t = [c, h, w]"
  shows "padded 4 (ttranspose [1, 2, 0] t) = ttranspose to_nhwc (padded 4 t)"
proof (rule sym, rule tensor_transpose_eqI)
  let ?p = "[1, 2, 0] :: nat list"
  have p: "is_perm ?p (trank t)" using assms by (simp add: is_perm_def)
  have pm: "permute [Suc 0, 2, 0] [a, b, d] = [b, d, a]" for a b d :: nat by (simp add: permute_def)
  have pad: "tshape (padded 4 t) = [1, c, h, w]" using assms by (simp add: pad_left_def)
  show "is_perm to_nhwc (trank (padded 4 t))" unfolding pad by (simp add: is_perm_def to_nhwc_def)
  show "tshape (padded 4 (ttranspose [1, 2, 0] t)) = permute to_nhwc (tshape (padded 4 t))"
    using assms by (simp add: pad permute_def to_nhwc_def pad_left_def)
  fix "is" assume "valid_ix (tshape (padded 4 t)) is"
  then obtain k y x where i: "is = [0, k, y, x]" "k < c" "y < h" "x < w"
    unfolding pad by (auto simp: valid_ix_Cons)
  then have "tnth (ttranspose ?p t) [y, x, k] = tnth t [k, y, x]"
    using tnth_ttranspose_permute [OF p, of "[k, y, x]"] assms by (simp add: pm)
  then show "tnth (padded 4 (ttranspose [1, 2, 0] t)) (permute to_nhwc is) = tnth (padded 4 t) is"
    using i(1) assms by (simp add: tnth_def pm pad_left_def)
qed simp

text \<open>
  A value stands for an operand of a rank-4 result when, with the missing axes prefixed, it is
  the NHWC transpose of the operand.
\<close>

definition stands_for :: "'f scalar tensor \<Rightarrow> 'f scalar tensor \<Rightarrow> bool" where
  "stands_for a t \<longleftrightarrow> wf_tensor a \<and> trank a \<le> 4 \<and> trank t \<le> 4 \<and> (trank t = 4 \<longleftrightarrow> trank a = 4) \<and>
     padded 4 a = ttranspose to_nhwc (padded 4 t)"

lemma stands_for_prod:
  assumes "stands_for a t" shows "prod_list (tshape a) = prod_list (tshape t)"
proof -
  have "prod_list (tshape (padded 4 a)) = prod_list (tshape (ttranspose to_nhwc (padded 4 t)))"
    using assms by (simp only: stands_for_def)
  then show ?thesis
    using prod_list_permute [OF is_perm_to_nhwc, of "pad_left 4 (tshape t)"] assms by (simp add: stands_for_def)
qed

lemma stands_for_scalar: "wf_tensor t \<Longrightarrow> tshape t = [] \<Longrightarrow> stands_for t t"
  using nhwc_single_channel [of "padded 4 t" 1 1 1]
  by (simp add: stands_for_def padded_def pad_left_def wf_tensor_def treshape_def numeral_eq_Suc)

lemma stands_for_rank4: "wf_tensor t \<Longrightarrow> trank t = 4 \<Longrightarrow> stands_for (ttranspose to_nhwc t) t"
  by (simp add: stands_for_def)

lemma stands_for_reshape:
  assumes "wf_tensor t" and "trank t < 4" and pl: "pad_left 4 (tshape t) = [1, c, h, w]"
    and "c = 1 \<or> h = 1 \<and> w = 1"
  shows "stands_for (treshape [h, w, c] t) t"
proof -
  have sh: "tshape (padded 4 t) = [1, c, h, w]" using pl by simp
  have pr: "prod_list (tshape t) = c * h * w" using arg_cong [OF pl, of prod_list] by simp
  have "ttranspose to_nhwc (padded 4 t) = treshape [1, h, w, c] (padded 4 t)"
  proof (cases "c = 1")
    case True
    then show ?thesis using nhwc_single_channel [of "padded 4 t" 1 h w] sh assms(1) by simp
  next
    case False
    then have hw: "h = 1" "w = 1" using assms(4) by auto
    have "tdata (ttranspose to_nhwc (padded 4 t)) = tdata (padded 4 t)"
      using assms(1) sh hw by (intro nhwc_flat_order [of _ 1 c]) simp_all
    then show ?thesis using sh hw by (intro tensor.expand) (simp add: treshape_def)
  qed
  then show ?thesis
    using assms pr by (simp add: stands_for_def padded_def pad_left_def [of 4 "[h, w, c]"] wf_treshape)
qed

lemma stands_for_transpose:
  "wf_tensor t \<Longrightarrow> tshape t = [c, h, w] \<Longrightarrow> stands_for (ttranspose [1, 2, 0] t) t"
  using padded_chw [of t c h w] by (simp add: stands_for_def)

lemma pad_left_rank3:
  assumes "0 < length ds" "length ds < 4"
  obtains c h w where "pad_left 4 ds = [1, c, h, w]" and "length ds = 3 \<Longrightarrow> ds = [c, h, w]"
    and "length ds \<noteq> 3 \<Longrightarrow> c = 1"
proof -
  have "length ds = 1 \<or> length ds = 2 \<or> length ds = 3" using assms by linarith
  then show thesis
    by (elim disjE) (auto simp: pad_left_def numeral_eq_Suc length_Suc_conv intro: that)
qed

context tfl_layout
begin

lemma eval_adapt:
  assumes ad: "adaptRank4ElementwiseBroadcast rty ty v cty = Inr v'"
    and rty: "rty = RankedTensor R F32" "length R = 4" and ty: "ty = RankedTensor (map int (tshape t)) F32"
    and t: "conforms ty t" and v: "eval sem env v = phys ty t" "vtype v = convertRank4NCHWToNHWCType ty"
    and i32: "i32_dims (tshape t)"
  shows "stands_for (eval sem env v') t" and "vtype v' = RankedTensor (map int (tshape (eval sem env v'))) F32"
proof -
  have wf: "wf_tensor t" using t by (rule conforms_wf)
  have "stands_for (eval sem env v') t \<and> vtype v' = RankedTensor (map int (tshape (eval sem env v'))) F32"
  proof (cases "trank t = 0 \<or> trank t = 4")
    case True
    then have "v' = v" using ad by (auto simp: adaptRank4ElementwiseBroadcast_def rty ty getRank_def Let_def)
    moreover have "stands_for (phys ty t) t"
      using True wf by (auto simp: phys_def ty stands_for_scalar stands_for_rank4)
    moreover have "conforms (convertRank4NCHWToNHWCType ty) (phys ty t)" using t by (rule convert_conforms)
    ultimately show ?thesis using v by (auto simp: conforms_def ty convert_Ranked)
  next
    case False
    then have r: "0 < trank t" "trank t < 4"
      using ad by (auto simp: adaptRank4ElementwiseBroadcast_def rty ty getRank_def Let_def split: if_splits)
    obtain c h w where pl: "pad_left 4 (tshape t) = [1, c, h, w]" and r3: "trank t = 3 \<Longrightarrow> tshape t = [c, h, w]"
      and nr3: "trank t \<noteq> 3 \<Longrightarrow> c = 1"
      using pad_left_rank3 [OF r] by metis
    have x: "eval sem env v = t" using v(1) False by (simp add: phys_def ty)
    let ?bt = "RankedTensor (map int [h, w, c]) F32"
    show ?thesis
    proof (cases "trank t = 3 \<and> c \<noteq> 1 \<and> (h \<noteq> 1 \<or> w \<noteq> 1)")
      case True
      then have sh: "tshape t = [c, h, w]" using r3 by simp
      have v': "v' = createTFLOperation ''tfl.transpose'' [?bt] [v, createI32ShapeConstant [1, 2, 0]] [] 0"
        using ad True r pl
        by (auto simp: adaptRank4ElementwiseBroadcast_def rty ty getRank_def Let_def aligned_shape_map_int split: if_splits)
      have "sem ''tfl.transpose'' [] [?bt] [t, i32_vec (map int [1, 2, 0])] = [ttranspose [1, 2, 0] t]"
        using wf sh by (intro transpose) (simp_all add: is_perm_def conforms_Ranked permute_def)
      then have "eval sem env v' = ttranspose [1, 2, 0] t" using x by (simp add: v' i32_def)
      then show ?thesis using stands_for_transpose [OF wf sh] sh by (simp add: v' permute_def)
    next
      case nt: False
      then have v': "v' = emitReshape ?bt (map int [h, w, c]) v"
        using ad r pl
        by (auto simp: adaptRank4ElementwiseBroadcast_def rty ty getRank_def Let_def aligned_shape_map_int split: if_splits)
      have "i32_dims (pad_left 4 (tshape t))" using i32 by (auto simp: pad_left_def i32_dims_def)
      then have "i32_dims [h, w, c]" by (simp add: pl i32_dims_def)
      moreover have "prod_list [h, w, c] = prod_list (tshape t)"
        using arg_cong [OF pl, of prod_list] by (simp add: ac_simps)
      ultimately have e: "eval sem env v' = treshape [h, w, c] t"
        unfolding v' using eval_emitReshape [OF wf x _ _ refl, of "[h, w, c]" F32] by simp
      then show ?thesis
        using stands_for_reshape [OF wf r(2) pl] nt r3 nr3 by (cases "trank t = 3") (auto simp: v')
    qed
  qed
  then show "stands_for (eval sem env v') t" and "vtype v' = RankedTensor (map int (tshape (eval sem env v'))) F32"
    by simp_all
qed

end

lemma stands_for_tmap2:
  assumes "stands_for a t" and "stands_for b u" and "trank t \<le> 4" "trank u \<le> 4"
    and c: "bcast_compat (tshape t) (tshape u)"
  shows "padded 4 (tmap2 f a b) = ttranspose to_nhwc (padded 4 (tmap2 f t u))" and "bcast_compat (tshape a) (tshape b)"
proof -
  have sh: "pad_left 4 (tshape a) = permute to_nhwc (pad_left 4 (tshape t))"
    "pad_left 4 (tshape b) = permute to_nhwc (pad_left 4 (tshape u))"
    using assms(1,2) arg_cong [of _ _ tshape] unfolding stands_for_def by (metis tshape_padded tshape_ttranspose)+
  have pc: "bcast_compat (pad_left 4 (tshape t)) (pad_left 4 (tshape u))"
    using assms by (simp add: bcast_compat_pad_left)
  show "bcast_compat (tshape a) (tshape b)"
    using bcast_compat_permute [OF _ _ pc, of to_nhwc] assms
      bcast_compat_pad_left [of "tshape a" 4 "tshape b"] by (simp add: sh stands_for_def)
  have "padded 4 (tmap2 f a b) = tmap2 f (ttranspose to_nhwc (padded 4 t)) (ttranspose to_nhwc (padded 4 u))"
    using assms by (simp add: padded_tmap2 stands_for_def)
  also have "\<dots> = ttranspose to_nhwc (padded 4 (tmap2 f t u))"
    using assms pc ttranspose_tmap2 [of "padded 4 t" 4 "padded 4 u" to_nhwc f] by (simp add: padded_tmap2)
  finally show "padded 4 (tmap2 f a b) = ttranspose to_nhwc (padded 4 (tmap2 f t u))" .
qed

section \<open>The collapsed broadcast\<close>

definition lhs_axes :: "axis_group list \<Rightarrow> (nat \<times> nat) list" where
  "lhs_axes groups = map (\<lambda>(_, r, l, s). (nat l, nat r)) groups"

definition rhs_axes :: "axis_group list \<Rightarrow> (nat \<times> nat) list" where
  "rhs_axes groups = map (\<lambda>(_, r, l, s). (nat s, nat r)) groups"

definition good_axis :: "int \<times> int \<times> int \<Rightarrow> bool" where
  "good_axis = (\<lambda>(r, l, s). 0 \<le> l \<and> 0 \<le> s \<and> r = (if l = 1 then s else l) \<and> (s = 1 \<or> s = r))"

definition good_group :: "axis_group \<Rightarrow> bool" where
  "good_group = (\<lambda>(kind, r, l, s). kind = (l = 1, s = 1) \<and> good_axis (r, l, s))"

lemma mult_int_1_iff: "0 \<le> a \<Longrightarrow> 0 \<le> b \<Longrightarrow> a * b = 1 \<longleftrightarrow> a = 1 \<and> b = (1 :: int)"
  by (auto simp: zmult_eq_1_iff)

lemma good_group_merge:
  assumes "good_group (kind, r, l, s)" and "good_axis (r', l', s')" and "kind = (l' = 1, s' = 1)"
  shows "good_group (kind, r * r', l * l', s * s')"
  using assms unfolding good_group_def good_axis_def prod.case
  by (intro conjI) (auto simp: mult_int_1_iff split: if_splits)

lemma bequiv_append: "bequiv xs ys \<Longrightarrow> bequiv (xs @ bs) (ys @ bs)" "bequiv xs ys \<Longrightarrow> bequiv (as @ xs) (as @ ys)"
  using bequiv_context [of xs ys "[]" bs] bequiv_context [of xs ys as "[]"] by simp_all

lemma add_axis_correct:
  assumes gs: "list_all good_group gs" and a: "good_axis (r, l, s)"
  shows "list_all good_group (add_axis gs r l s)"
    and "bequiv (lhs_axes (add_axis gs r l s)) (lhs_axes gs @ [(nat l, nat r)])"
    and "bequiv (rhs_axes (add_axis gs r l s)) (rhs_axes gs @ [(nat s, nat r)])"
proof -
  have "list_all good_group (add_axis gs r l s) \<and>
      bequiv (lhs_axes (add_axis gs r l s)) (lhs_axes gs @ [(nat l, nat r)]) \<and>
      bequiv (rhs_axes (add_axis gs r l s)) (rhs_axes gs @ [(nat s, nat r)])"
  proof (cases "r = 1")
    case True
    then have "l = 1" "s = 1" using a by (auto simp: good_axis_def split: if_splits)
    then show ?thesis
      using True gs bequiv_append(2) [OF bequiv_drop] by (force simp: add_axis_def)
  next
    case False
    show ?thesis
    proof (cases "gs \<noteq> [] \<and> fst (last gs) = (l = 1, s = 1)")
      case True
      then obtain hs r' l' s' where g: "gs = hs @ [((l = 1, s = 1), r', l', s')]"
        by (metis append_butlast_last_id prod.collapse)
      have gg: "good_group ((l = 1, s = 1), r', l', s')" and hs: "list_all good_group hs" using gs g by simp_all
      have nn: "0 \<le> r" "0 \<le> r'" "0 \<le> l'" "0 \<le> s'" "0 \<le> l" "0 \<le> s"
        and k: "(l' = 1) = (l = 1)" "(s' = 1) = (s = 1)" "l = 1 \<or> l = r" "s = 1 \<or> s = r" "l' = 1 \<or> l' = r'" "s' = 1 \<or> s' = r'"
        using a gg by (auto simp: good_axis_def good_group_def split: if_splits)
      have add: "add_axis gs r l s = hs @ [((l = 1, s = 1), r' * r, l' * l, s' * s)]"
        using \<open>r \<noteq> 1\<close> by (simp add: add_axis_def g)
      have n1: "nat v = 1 \<longleftrightarrow> v = 1" for v by auto
      have "bequiv [(nat (l' * l), nat (r' * r))] [(nat l', nat r'), (nat l, nat r)]"
        and "bequiv [(nat (s' * s), nat (r' * r))] [(nat s', nat r'), (nat s, nat r)]"
        using nn k by (auto simp: nat_mult_distrib n1 intro!: bequiv_merge simp del: One_nat_def)
      then show ?thesis
        using hs good_group_merge [OF gg a refl] bequiv_append(2)
        by (simp add: add) (simp add: g lhs_axes_def rhs_axes_def bequiv_append(2))
    next
      case False
      then have "add_axis gs r l s = gs @ [((l = 1, s = 1), r, l, s)]"
        using \<open>r \<noteq> 1\<close> by (auto simp: add_axis_def Let_def)
      then show ?thesis using gs a by (simp add: good_group_def lhs_axes_def rhs_axes_def)
    qed
  qed
  then show "list_all good_group (add_axis gs r l s)"
    and "bequiv (lhs_axes (add_axis gs r l s)) (lhs_axes gs @ [(nat l, nat r)])"
    and "bequiv (rhs_axes (add_axis gs r l s)) (rhs_axes gs @ [(nat s, nat r)])" by simp_all
qed

lemma collapse_broadcast_correct:
  assumes "collapse_broadcast gs axes = Inr gs'" and "list_all good_group gs" and "list_all good_axis axes"
  shows "list_all good_group gs' \<and>
    bequiv (lhs_axes gs') (lhs_axes gs @ map (\<lambda>(r, l, s). (nat l, nat r)) axes) \<and>
    bequiv (rhs_axes gs') (rhs_axes gs @ map (\<lambda>(r, l, s). (nat s, nat r)) axes)"
  using assms
proof (induction gs axes rule: collapse_broadcast.induct)
  case (1 gs)
  have "bequiv [(1, 1)] []" by (simp add: bequiv_def)
  moreover have "good_group ((True, True), 1, 1, 1)" by (simp add: good_group_def good_axis_def)
  ultimately show ?case using 1 by (cases "gs = []") (auto simp: lhs_axes_def rhs_axes_def)
next
  case (2 gs r l s rest)
  have low: "collapse_broadcast (add_axis gs r l s) rest = Inr gs'" using "2.prems"(1) by (auto split: if_splits)
  have a: "good_axis (r, l, s)" "list_all good_axis rest" using "2.prems"(3) by simp_all
  note c = add_axis_correct [OF "2.prems"(2) a(1)]
  have ne: "\<not> (l \<noteq> 1 \<and> l \<noteq> r \<or> s \<noteq> 1 \<and> s \<noteq> r)" using "2.prems"(1) by (auto split: if_splits)
  note IH = "2.IH" [OF ne low c(1) a(2)]
  show ?case
    using IH bequiv_trans [OF _ bequiv_append(1) [OF c(2)]] bequiv_trans [OF _ bequiv_append(1) [OF c(3)]] by simp
qed

definition i32_size :: "nat list \<Rightarrow> bool" where
  "i32_size ds \<longleftrightarrow> 0 < prod_list ds \<and> prod_list ds < 2 ^ 31"

lemma i32_size_dims: "i32_size ds \<Longrightarrow> i32_dims ds"
proof -
  have "d \<le> prod_list ds" if "d \<in> set ds" "0 < prod_list ds" for d
    using that by (auto dest!: split_list)
  then show "i32_size ds \<Longrightarrow> i32_dims ds" by (fastforce simp: i32_size_def i32_dims_def)
qed

lemma good_axes_broadcast:
  assumes c: "bcast_compat as bs" and n: "max (length as) (length bs) = n"
  shows "list_all good_axis (zip (map int (bcast_shape as bs)) (zip (map int (pad_left n as)) (map int (pad_left n bs))))"
proof -
  define as' bs' where d: "as' = pad_left n as" "bs' = pad_left n bs"
  have l: "length as' = n" "length bs' = n" using n by (auto simp: d)
  have "as' ! k = 1 \<or> bs' ! k = 1 \<or> as' ! k = bs' ! k" if "k < n" for k
    using c that n by (auto simp: d bcast_compat_def list_all2_conv_all_nth)
  then have "good_axis (int (bcast_dim (as' ! k) (bs' ! k)), int (as' ! k), int (bs' ! k))" if "k < n" for k
    using that by (fastforce simp: good_axis_def bcast_dim_def)
  then show ?thesis by (simp add: list_all_length bcast_shape_eq [OF n] l flip: d)
qed

lemma zip_pairs:
  "length xs = length ys \<Longrightarrow> length ys = length zs \<Longrightarrow>
   map (\<lambda>(r, l, s). (nat l, nat r)) (zip (map int xs) (zip (map int ys) (map int zs))) = zip ys xs \<and>
   map (\<lambda>(r, l, s). (nat s, nat r)) (zip (map int xs) (zip (map int ys) (map int zs))) = zip zs xs"
  by (induction xs ys zs rule: list_induct3) auto

lemma group_shapes:
  assumes "list_all good_group gs"
  defines "L \<equiv> map (\<lambda>(_, r, l, s). nat l) gs" and "S \<equiv> map (\<lambda>(_, r, l, s). nat s) gs"
    and "R \<equiv> map (\<lambda>(_, r, l, s). nat r) gs"
  shows "map (\<lambda>(_, r, l, s). l) gs = map int L" "map (\<lambda>(_, r, l, s). s) gs = map int S" "map (\<lambda>(_, r, l, s). r) gs = map int R"
    "bcast_shape L S = R" "bcast_compat L S" "zip L R = lhs_axes gs" "zip S R = rhs_axes gs"
proof -
  have g: "0 \<le> l \<and> 0 \<le> s \<and> r = (if l = 1 then s else l) \<and> (s = 1 \<or> s = r)" if "(k, r, l, s) \<in> set gs" for k r l s
    using assms(1) that by (auto simp: list_all_iff good_group_def good_axis_def)
  show "map (\<lambda>(_, r, l, s). l) gs = map int L" "map (\<lambda>(_, r, l, s). s) gs = map int S" "map (\<lambda>(_, r, l, s). r) gs = map int R"
    using g by (force simp: L_def S_def R_def)+
  have "bcast_shape L S = map2 bcast_dim L S" by (subst bcast_shape_eq [OF refl]) (simp add: L_def S_def)
  also have "\<dots> = R"
    using assms(1) unfolding L_def S_def R_def
    by (induction gs) (auto simp: good_group_def good_axis_def bcast_dim_def split: if_splits)
  finally show "bcast_shape L S = R" .
  have "list_all2 (\<lambda>a b. a = 1 \<or> b = 1 \<or> a = b) L S"
    using assms(1) unfolding L_def S_def
    by (induction gs) (auto simp: good_group_def good_axis_def split: if_splits)
  then show "bcast_compat L S" by (simp add: bcast_compat_same_rank list_all2_conv_all_nth)
  show "zip L R = lhs_axes gs" "zip S R = rhs_axes gs"
    by (simp_all add: L_def S_def R_def lhs_axes_def rhs_axes_def zip_map_map zip_same_conv_map split_def comp_def)
qed

section \<open>Correctness of the binary operators\<close>

context tfl_binary
begin

lemma represents_adapted:
  assumes a: "stands_for (eval sem env a) t" and b: "stands_for (eval sem env b) u"
    and r: "max (trank t) (trank u) = 4" "4 \<le> maxrank" and c: "bcast_compat (tshape t) (tshape u)"
    and rty: "physical4 rty" "conforms rty (tmap2 f t u)"
  shows "represents sem env (createTFLOperation nm [convertRank4NCHWToNHWCType rty] [a, b] attrs 0) rty (tmap2 f t u)"
proof -
  let ?a = "eval sem env a" and ?b = "eval sem env b"
  note s = stands_for_tmap2(1) [OF a b _ _ c, of f] stands_for_tmap2(2) [OF a b _ _ c]
  have rk: "max (trank ?a) (trank ?b) = 4" using a b r(1) by (auto simp: stands_for_def max_def split: if_splits)
  then have eq: "tmap2 f ?a ?b = ttranspose to_nhwc (tmap2 f t u)" using s(1) r(1) by simp
  have "conforms (convertRank4NCHWToNHWCType rty) (ttranspose to_nhwc (tmap2 f t u))"
    using convert_conforms [OF rty(2)] rty(1) by (simp add: phys_def)
  then have "sem nm attrs [convertRank4NCHWToNHWCType rty] [?a, ?b] = [tmap2 f ?a ?b]"
    using a b s(2) r rk eq by (intro binary) (simp_all add: stands_for_def)
  then show ?thesis using rty by (simp add: represents_def phys_def eq)
qed

lemma eval_direct:
  assumes "eval sem env a = t" "eval sem env b = u" "wf_tensor t" "wf_tensor u"
    and "max (trank t) (trank u) \<le> maxrank" "bcast_compat (tshape t) (tshape u)" "conforms ty (tmap2 f t u)"
  shows "eval sem env (createTFLOperation nm [ty] [a, b] attrs 0) = tmap2 f t u"
  using assms binary [of t u "[ty]"] by simp

lemma eval_collapsed:
  assumes a: "eval sem env a = t" "eval sem env b = u" "wf_tensor t" "wf_tensor u"
    and R: "R = bcast_shape (tshape t) (tshape u)" "max (trank t) (trank u) = n"
    and c: "bcast_compat (tshape t) (tshape u)"
    and col: "collapse_broadcast [] (zip (map int R) (zip (map int (pad_left n (tshape t))) (map int (pad_left n (tshape u))))) = Inr gs"
    and em: "emit_collapsed nm e (map int (tshape t)) (map int (tshape u)) (RankedTensor (map int R) e) gs a b = Inr v"
    and at: "attrs = binary_attributes nm" "4 \<le> maxrank"
    and nf: "e = F32 \<longrightarrow> trank t \<noteq> 4 \<and> trank u \<noteq> 4"
    and i32: "i32_size (tshape t)" "i32_size (tshape u)" "i32_size R"
  shows "eval sem env v = tmap2 f t u"
proof -
  define L where "L = map (\<lambda>(_, r, l, s). nat l) gs"
  define S where "S = map (\<lambda>(_, r, l, s). nat s) gs"
  define R' where "R' = map (\<lambda>(_, r, l, s). nat r) gs"
  have lR: "length R = n" using R by simp
  have good: "list_all good_group gs" and eqs: "bequiv (lhs_axes gs) (zip (pad_left n (tshape t)) R)"
    "bequiv (rhs_axes gs) (zip (pad_left n (tshape u)) R)"
    using collapse_broadcast_correct [OF col] good_axes_broadcast [OF c R(2)]
      zip_pairs [of R "pad_left n (tshape t)" "pad_left n (tshape u)"] lR R
    by (auto simp: lhs_axes_def [of "[]"] rhs_axes_def [of "[]"])
  note g = group_shapes [OF good, folded L_def S_def R'_def]
  have len: "length L = length gs" "length S = length gs" "length R' = length gs" by (simp_all add: L_def S_def R'_def)
  have pr: "prod_list L = prod_list (tshape t)" "prod_list S = prod_list (tshape u)" "prod_list R' = prod_list R"
    using eqs lR R len by (auto simp: bequiv_def simp flip: g(6,7))
  then have ds: "i32_dims L" "i32_dims S" "i32_dims R"
    using i32 by (auto intro!: i32_size_dims simp: i32_size_def)
  let ?t = "treshape L t" and ?u = "treshape S u"
  let ?x = "emitReshape (RankedTensor (map int L) e) (map int L) a" and ?y = "emitReshape (RankedTensor (map int S) e) (map int S) b"
  let ?z = "createTFLOperation nm [RankedTensor (map int R') e] [?x, ?y] attrs 0"
  have gl: "length gs \<le> 4" and v: "v = emitReshape (RankedTensor (map int R) e) (map int R) ?z"
    using em nf at(1) len(3) by (auto simp: emit_collapsed_def g(1,2,3) reshapeOperand_def isF32_def getRank_def Let_def split: if_splits)
  have x: "eval sem env ?x = ?t" "eval sem env ?y = ?u"
    using a pr ds by (auto intro!: eval_emitReshape)
  have "eval sem env ?z = tmap2 f ?t ?u"
    using x a pr gl at(2) len g(4,5)
    by (intro eval_direct) (simp_all add: wf_treshape conforms_Ranked)
  moreover have "prod_list R = prod_list (tshape (tmap2 f ?t ?u))" using pr g(4) by simp
  ultimately have "eval sem env v = treshape R (tmap2 f ?t ?u)"
    using ds(3) eval_emitReshape [of "tmap2 f ?t ?u" env ?z R] by (simp add: v)
  also have "\<dots> = tmap2 f t u"
    using tmap2_collapse [OF R(2,1) len(1,2) g(4)] eqs g(6,7) by simp
  finally show ?thesis .
qed

end

lemma binary_represents:
  assumes sem: "tfl_binary sem nm (binary_attributes nm) f (maximumBroadcastRank nm)"
    and low: "lower_binary nm op = Inr v"
    and t: "conforms (oty (bin_lhs op)) t" "env 0 = phys (oty (bin_lhs op)) t"
    and u: "conforms (oty (bin_rhs op)) u" "env 1 = phys (oty (bin_rhs op)) u"
    and c: "bcast_compat (tshape t) (tshape u)" and res: "conforms (bin_result op) (tmap2 f t u)"
    and i32: "i32_size (tshape t)" "i32_size (tshape u)" "i32_size (tshape (tmap2 f t u))"
    and layout: "4 < trank (tmap2 f t u) \<Longrightarrow> \<not> physical4 (oty (bin_lhs op)) \<and> \<not> physical4 (oty (bin_rhs op))"
  shows "represents sem env v (bin_result op) (tmap2 f t u)"
proof -
  let ?lty = "oty (bin_lhs op)" and ?rty = "oty (bin_rhs op)" and ?ty = "bin_result op"
  let ?a = "adaptor 0 (bin_lhs op)" and ?b = "adaptor 1 (bin_rhs op)"
  let ?R = "tshape (tmap2 f t u)"
  obtain e1 e2 e3 where ty: "?lty = RankedTensor (map int (tshape t)) e1" "?rty = RankedTensor (map int (tshape u)) e2"
      "?ty = RankedTensor (map int ?R) e3" and wf: "wf_tensor t" "wf_tensor u"
    using t(1) u(1) res by (auto simp: conforms_def)
  have ev: "eval sem env ?a = phys ?lty t" "eval sem env ?b = phys ?rty u" using t u by simp_all
  have vt: "vtype ?a = convertRank4NCHWToNHWCType ?lty" "vtype ?b = convertRank4NCHWToNHWCType ?rty" by simp_all
  have e: "e2 = e1" "e3 = e1" using low by (auto simp: lower_binary_def Let_def ty convert_Ranked split: if_splits)
  have mr: "4 \<le> maximumBroadcastRank nm" "maximumBroadcastRank nm \<le> 5" by (simp_all add: maximumBroadcastRank_def)
  consider (collapse) "maximumBroadcastRank nm < length ?R" | (adapt) "length ?R = 4" "e1 = F32"
    | (direct) "length ?R \<le> maximumBroadcastRank nm" "\<not> (length ?R = 4 \<and> e1 = F32)" by linarith
  then show ?thesis
  proof cases
    case collapse
    then have nt: "\<not> physical4 ?ty" "\<not> physical4 ?lty" "\<not> physical4 ?rty" using mr layout by (auto simp: ty(3))
    then have p: "eval sem env ?a = t" "eval sem env ?b = u" using ev by (simp_all add: phys_def)
    let ?n = "length ?R"
    obtain gs where col: "collapse_broadcast [] (zip (map int ?R) (zip (map int (pad_left ?n (tshape t)))
          (map int (pad_left ?n (tshape u))))) = Inr gs"
      and em: "emit_collapsed nm e1 (map int (tshape t)) (map int (tshape u)) (RankedTensor (map int ?R) e1) gs ?a ?b = Inr v"
      using low collapse nt
      by (auto simp: lower_binary_def Let_def convert_id aligned_shape_map_int getRank_def e ty split: if_splits)
    have nf: "e1 = F32 \<longrightarrow> trank t \<noteq> 4 \<and> trank u \<noteq> 4" using nt(2,3) by (auto simp: ty e)
    have "eval sem env v = tmap2 f t u"
      by (rule tfl_binary.eval_collapsed [OF sem p wf _ _ c col em refl mr(1) nf i32]) simp_all
    moreover have "vtype v = ?ty" using em by (auto simp: emit_collapsed_def Let_def ty e split: if_splits)
    ultimately show ?thesis using nt res by (intro represents_logical)
  next
    case adapt
    obtain a' b' where ad: "adaptRank4ElementwiseBroadcast ?ty ?lty ?a (convertRank4NCHWToNHWCType ?ty) = Inr a'"
        "adaptRank4ElementwiseBroadcast ?ty ?rty ?b (convertRank4NCHWToNHWCType ?ty) = Inr b'"
      and v: "v = createTFLOperation nm [convertRank4NCHWToNHWCType ?ty] [a', b'] (binary_attributes nm) 0"
      using low adapt mr
      by (auto simp: lower_binary_def Let_def ty convert_Ranked getRank_def e isF32_def split: if_splits)
    have l: "tfl_layout sem" using sem by (rule tfl_binary.axioms(1))
    have R4: "length (map int ?R) = 4" using adapt(1) by simp
    have "stands_for (eval sem env a') t"
      by (rule tfl_layout.eval_adapt(1) [OF l ad(1) _ R4 _ t(1) ev(1) vt(1)]) (simp_all add: ty e adapt i32_size_dims i32)
    moreover have "stands_for (eval sem env b') u"
      by (rule tfl_layout.eval_adapt(1) [OF l ad(2) _ R4 _ u(1) ev(2) vt(2)]) (simp_all add: ty e adapt i32_size_dims i32)
    ultimately show ?thesis
      unfolding v using adapt mr c res
      by (intro tfl_binary.represents_adapted [OF sem]) (simp_all add: ty(3) e)
  next
    case direct
    have nt: "\<not> physical4 ?ty" using direct(2) by (auto simp: ty(3) e)
    have "\<not> physical4 ?lty \<and> \<not> physical4 ?rty"
    proof (cases "4 < length ?R")
      case True then show ?thesis using layout by simp
    next
      case False then show ?thesis using direct(2) by (auto simp: ty(1,2) e max_def split: if_splits)
    qed
    then have p: "eval sem env ?a = t" "eval sem env ?b = u" and np: "\<not> physical4 ?lty" "\<not> physical4 ?rty"
      using ev by (simp_all add: phys_def)
    have v: "v = createTFLOperation nm [?ty] [?a, ?b] (binary_attributes nm) 0"
      using low direct np nt
      by (auto simp: lower_binary_def Let_def convert_id getRank_def isF32_def adaptRank4ElementwiseBroadcast_def e ty
          split: if_splits)
    have "eval sem env v = tmap2 f t u"
      unfolding v using direct(1) res c wf by (intro tfl_binary.eval_direct [OF sem p]) simp_all
    then show ?thesis using nt res by (intro represents_logical) (simp_all add: v)
  qed
qed

text \<open>
  C7: when the pattern of Add, Sub, Mul, Div or Pow succeeds, the created value represents the
  ONNX broadcast of the scalar function: through the HWC adaptation of operands of rank 1 to 3 to
  an NHWC result, and through the collapsing of the axes of a result above the kernel's
  broadcast rank. A rank-4 f32 operand of a result of rank 5 or more is excluded by the last hypothesis: the
  pattern accepts it and reads the NHWC extents as logical ones (\<open>high_rank_rank4_operand_misread\<close>).
\<close>

theorem lower_binary_correct:
  assumes "tfl_binary sem nm (binary_attributes nm) f (maximumBroadcastRank nm)"
    and "lower_binary nm op = Inr v"
    and "conforms (oty (bin_lhs op)) t" "env 0 = phys (oty (bin_lhs op)) t"
    and "conforms (oty (bin_rhs op)) u" "env 1 = phys (oty (bin_rhs op)) u"
    and "bcast_compat (tshape t) (tshape u)" and "conforms (bin_result op) (tmap2 f t u)"
    and "i32_size (tshape t)" "i32_size (tshape u)" "i32_size (tshape (tmap2 f t u))"
    and "4 < trank (tmap2 f t u) \<Longrightarrow> \<not> physical4 (oty (bin_lhs op)) \<and> \<not> physical4 (oty (bin_rhs op))"
  shows "represents sem env v (bin_result op) (tmap2 f t u)"
  using assms by (rule binary_represents)

section \<open>Correctness of Min and Max\<close>

lemma bcast_compat_of_nhwc:
  assumes "stands_for a t" and "stands_for b u" and "trank t \<le> 4" "trank u \<le> 4"
    and c: "bcast_compat (tshape a) (tshape b)"
  shows "bcast_compat (tshape t) (tshape u)"
proof -
  have undo: "permute to_nchw (permute to_nhwc ds) = ds" if "length ds = 4" for ds :: "nat list"
    using that by (elim length_4_cases) simp
  have sh: "pad_left 4 (tshape a) = permute to_nhwc (pad_left 4 (tshape t))"
    "pad_left 4 (tshape b) = permute to_nhwc (pad_left 4 (tshape u))"
    using assms(1,2) arg_cong [of _ _ tshape] unfolding stands_for_def by (metis tshape_padded tshape_ttranspose)+
  have "bcast_compat (pad_left 4 (tshape a)) (pad_left 4 (tshape b))"
    using assms by (simp add: bcast_compat_pad_left stands_for_def)
  then have "bcast_compat (permute to_nchw (pad_left 4 (tshape a))) (permute to_nchw (pad_left 4 (tshape b)))"
    using assms by (intro bcast_compat_permute) (simp_all add: stands_for_def)
  then show ?thesis using assms by (simp add: sh undo bcast_compat_pad_left)
qed

lemma stands_for_tmap2I:
  assumes "stands_for a t" and "stands_for b u" and "trank t \<le> 4" "trank u \<le> 4"
    and c: "bcast_compat (tshape a) (tshape b)"
  shows "stands_for (tmap2 f a b) (tmap2 f t u)"
  using stands_for_tmap2(1) [OF assms(1-4) bcast_compat_of_nhwc [OF assms]] assms
  by (auto simp: stands_for_def max_def)

lemma broadcast_dims_correct:
  assumes "broadcast_dims (zip (map int as) (map int bs)) = Inr ds" and "length as = length bs"
  shows "list_all2 (\<lambda>a b. a = 1 \<or> b = 1 \<or> a = b) as bs \<and>
    (0 \<notin> set as \<longrightarrow> 0 \<notin> set bs \<longrightarrow> ds = map int (map2 bcast_dim as bs))"
  using assms(2,1)
proof (induction as bs arbitrary: ds rule: list_induct2)
  case (Cons a as b bs)
  then show ?case by (fastforce simp: broadcast_dim_def bcast_dim_def split: if_splits)
qed simp

lemma computeBroadcastShape_correct:
  assumes "computeBroadcastShape (map int as) (map int bs) = Inr ds"
  shows "bcast_compat as bs" and "0 \<notin> set as \<Longrightarrow> 0 \<notin> set bs \<Longrightarrow> ds = map int (bcast_shape as bs)"
proof -
  let ?n = "max (length as) (length bs)"
  have "broadcast_dims (zip (map int (pad_left ?n as)) (map int (pad_left ?n bs))) = Inr ds"
    using assms by (simp add: computeBroadcastShape_def Let_def aligned_shape_map_int)
  note b = broadcast_dims_correct [OF this]
  have z: "0 \<notin> set (pad_left n xs) \<longleftrightarrow> 0 \<notin> set xs" for n xs by (auto simp: pad_left_def)
  show "bcast_compat as bs" using b by (simp add: bcast_compat_def Let_def)
  show "ds = map int (bcast_shape as bs)" if "0 \<notin> set as" "0 \<notin> set bs"
    using b that by (simp add: z bcast_shape_def Let_def)
qed

lemma bcast_shape_pos: "0 \<notin> set as \<Longrightarrow> 0 \<notin> set bs \<Longrightarrow> 0 \<notin> set (bcast_shape as bs)"
proof -
  have "0 \<notin> set (map2 bcast_dim xs ys)" if "0 \<notin> set xs" "0 \<notin> set ys" for xs ys
    using that by (auto simp: bcast_dim_def set_zip) (metis nth_mem)+
  then show "0 \<notin> set as \<Longrightarrow> 0 \<notin> set bs \<Longrightarrow> 0 \<notin> set (bcast_shape as bs)"
    by (simp add: bcast_shape_def Let_def pad_left_def)
qed

definition typed_value :: "'f sem \<Rightarrow> (nat \<Rightarrow> 'f scalar tensor) \<Rightarrow> elt \<Rightarrow> 'f val \<Rightarrow> 'f scalar tensor \<Rightarrow> bool" where
  "typed_value sem env e v a \<longleftrightarrow> eval sem env v = a \<and> wf_tensor a \<and> 0 \<notin> set (tshape a) \<and>
     vtype v = RankedTensor (map int (tshape a)) e"

lemma trank_foldl_tmap2:
  fixes f :: "'a \<Rightarrow> 'a \<Rightarrow> 'a"
  shows "trank t \<le> trank (foldl (tmap2 f) t ts)" "u \<in> set ts \<Longrightarrow> trank u \<le> trank (foldl (tmap2 f) t ts)"
proof -
  show le: "trank t \<le> trank (foldl (tmap2 f) t ts)" for t ts
  proof (induction ts arbitrary: t)
    case (Cons u ts)
    show ?case using Cons [of "tmap2 f t u"] by simp
  qed simp
  show "u \<in> set ts \<Longrightarrow> trank u \<le> trank (foldl (tmap2 f) t ts)"
  proof (induction ts arbitrary: t)
    case (Cons w ts)
    then show ?case using le [of "tmap2 f t w"] by auto
  qed simp
qed


context tfl_binary
begin

lemma eval_fold_minmax:
  assumes "fold_minmax nm e v vs = Inr w" and "attrs = []"
    and "typed_value sem env e v a" and "list_all2 (typed_value sem env e) vs as"
    and "trank (foldl (tmap2 f) a as) \<le> maxrank"
  shows "typed_value sem env e w (foldl (tmap2 f) a as) \<and>
    (list_all2 stands_for as ts \<longrightarrow> stands_for a t \<longrightarrow> trank t \<le> 4 \<longrightarrow> (\<forall>u\<in>set ts. trank u \<le> 4) \<longrightarrow>
       stands_for (foldl (tmap2 f) a as) (foldl (tmap2 f) t ts))"
  using assms
proof (induction vs arbitrary: v a as t ts)
  case Nil
  then show ?case by simp
next
  case (Cons x vs)
  obtain b bs where as: "as = b # bs" and b: "typed_value sem env e x b" and bs: "list_all2 (typed_value sem env e) vs bs"
    using Cons.prems(4) by (auto simp: list_all2_Cons1)
  note a = Cons.prems(3)
  obtain ds where ds: "computeBroadcastShape (map int (tshape a)) (map int (tshape b)) = Inr ds"
    and low: "fold_minmax nm e (createTFLOperation nm [RankedTensor ds e] [v, x] [] 0) vs = Inr w"
    using Cons.prems(1) a b by (auto simp: typed_value_def)
  note c = computeBroadcastShape_correct [OF ds]
  have d: "ds = map int (tshape (tmap2 f a b))" using c(2) a b by (simp add: typed_value_def)
  have "max (trank a) (trank b) \<le> maxrank"
    using Cons.prems(5) trank_foldl_tmap2(1) [of "tmap2 f a b" f bs] by (simp add: as)
  then have "eval sem env (createTFLOperation nm [RankedTensor ds e] [v, x] attrs 0) = tmap2 f a b"
    using a b c(1) d by (intro eval_direct) (simp_all add: typed_value_def conforms_Ranked)
  then have ab: "typed_value sem env e (createTFLOperation nm [RankedTensor ds e] [v, x] [] 0) (tmap2 f a b)"
    using a b d Cons.prems(2) by (simp add: typed_value_def bcast_shape_pos)
  have rk: "trank (foldl (tmap2 f) (tmap2 f a b) bs) \<le> maxrank" using Cons.prems(5) by (simp add: as)
  note IH = Cons.IH [OF low Cons.prems(2) ab bs rk]
  show ?case
  proof (intro conjI impI)
    show "typed_value sem env e w (foldl (tmap2 f) a as)" using IH by (simp add: as)
    assume st: "list_all2 stands_for as ts" "stands_for a t" "trank t \<le> 4" "\<forall>u\<in>set ts. trank u \<le> 4"
    then obtain u us where ts: "ts = u # us" "stands_for b u" "list_all2 stands_for bs us"
      by (auto simp: as list_all2_Cons1)
    have "stands_for (tmap2 f a b) (tmap2 f t u)" using st ts c(1) by (intro stands_for_tmap2I) simp_all
    then show "stands_for (foldl (tmap2 f) a as) (foldl (tmap2 f) t ts)"
      using IH [of us "tmap2 f t u"] st ts by (simp add: as)
  qed
qed

end

lemma trank_foldl_tmap2_le:
  "trank t \<le> n \<Longrightarrow> (\<And>u. u \<in> set ts \<Longrightarrow> trank u \<le> n) \<Longrightarrow> trank (foldl (tmap2 f) t ts) \<le> n"
  by (induction ts arbitrary: t) simp_all

lemma adapt_operands_elt:
  "adapt_operands rty e i ops = Inr vs \<Longrightarrow> k < length ops \<Longrightarrow> \<exists>sh. oty (ops ! k) = RankedTensor sh e"
proof (induction ops arbitrary: i vs k)
  case (Cons op ops)
  then show ?case by (cases k) (auto split: mtype.splits if_splits)
qed simp

text \<open>The operands after adaptation, for a rank-4 f32 result and for every other result.\<close>

lemma adapt_operands_typed:
  assumes "adapt_operands rty e i ops = Inr vs" and "length ts = length ops"
    and "\<And>k. k < length ops \<Longrightarrow> conforms (oty (ops ! k)) (ts ! k) \<and> env (i + k) = phys (oty (ops ! k)) (ts ! k)
           \<and> i32_size (tshape (ts ! k)) \<and> (physical4 rty \<or> \<not> physical4 (oty (ops ! k)))"
    and "tfl_layout sem" and rty: "rty = RankedTensor R e"
  shows "if physical4 rty then
      \<exists>as. list_all2 (typed_value sem env e) vs as \<and> list_all2 stands_for as ts
    else list_all2 (typed_value sem env e) vs ts"
  using assms(1-3)
proof (induction ops arbitrary: i vs ts)
  case (Cons op ops)
  obtain t us where ts: "ts = t # us" and lu: "length us = length ops" using Cons.prems(2) by (cases ts) auto
  have t: "conforms (oty op) t" "env i = phys (oty op) t" "i32_size (tshape t)" "physical4 rty \<or> \<not> physical4 (oty op)"
    using Cons.prems(3) [of 0] by (simp_all add: ts)
  have wf: "wf_tensor t" using t(1) by (rule conforms_wf)
  obtain v ws where vs: "vs = v # ws" and ty: "oty op = RankedTensor (map int (tshape t)) e"
    and ad: "(if isF32 e then adaptRank4ElementwiseBroadcast rty (oty op) (adaptor i op) (convertRank4NCHWToNHWCType rty)
         else Inr (adaptor i op)) = Inr v"
    and rest: "adapt_operands rty e (Suc i) ops = Inr ws"
    using Cons.prems(1) t(1) by (auto simp: conforms_def split: if_splits)
  have ar: "conforms (oty (ops ! k)) (us ! k) \<and> env (Suc i + k) = phys (oty (ops ! k)) (us ! k)
           \<and> i32_size (tshape (us ! k)) \<and> (physical4 rty \<or> \<not> physical4 (oty (ops ! k)))" if "k < length ops" for k
    using Cons.prems(3) [of "Suc k"] that by (simp add: ts)
  have z: "0 \<notin> set ds" if "i32_size ds" for ds
    using that by (auto simp: i32_size_def in_set_conv_decomp)
  note IH = Cons.IH [OF rest lu ar]
  show ?case
  proof (cases "physical4 rty")
    case True
    then have e: "e = F32" and R: "length R = 4" by (simp_all add: rty)
    have ad': "adaptRank4ElementwiseBroadcast rty (oty op) (adaptor i op) (convertRank4NCHWToNHWCType rty) = Inr v"
      using ad by (simp add: e isF32_def)
    note cv = tfl_layout.eval_adapt [OF assms(4) ad' rty [unfolded e] R ty [unfolded e] t(1) _ _ i32_size_dims [OF t(3)]]
    have sf: "stands_for (eval sem env v) t" and vt: "vtype v = RankedTensor (map int (tshape (eval sem env v))) F32"
      using cv [of env] t(2) by simp_all
    have tv: "typed_value sem env e v (eval sem env v)"
      using stands_for_prod [OF sf] sf vt z t(3) by (simp add: typed_value_def stands_for_def i32_size_def e)
    obtain bs where "list_all2 (typed_value sem env e) ws bs" "list_all2 stands_for bs us" using IH True by auto
    then have "list_all2 (typed_value sem env e) vs (eval sem env v # bs) \<and> list_all2 stands_for (eval sem env v # bs) ts"
      using tv sf by (simp add: vs ts)
    then show ?thesis using True by (simp only: if_True) (rule exI)
  next
    case False
    then have "\<not> physical4 (oty op)" using t(4) by simp
    moreover have "v = adaptor i op"
      using ad False by (auto simp: adaptRank4ElementwiseBroadcast_def rty ty isF32_def getRank_def split: if_splits)
    ultimately have "typed_value sem env e v t"
      using t(2,3) z wf by (auto simp: typed_value_def phys_def convert_id ty)
    then show ?thesis using IH False by (simp add: vs ts)
  qed
qed simp

definition onnx_variadic :: "('f scalar \<Rightarrow> 'f scalar \<Rightarrow> 'f scalar) \<Rightarrow> 'f scalar tensor list \<Rightarrow> 'f scalar tensor" where
  "onnx_variadic f ts = foldl (tmap2 f) (hd ts) (tl ts)"

text \<open>
  When the Min or Max pattern succeeds, the created value represents the left fold of the
  broadcast scalar function over all operands; that the operands broadcast is checked by the
  pattern, that the result is within the kernel's broadcast rank is not.
\<close>

theorem lower_minmax_correct:
  assumes sem: "tfl_binary sem nm [] f maxrank" and low: "lower_minmax nm op = Inr v"
    and ts: "operands_represent env (var_operands op) ts" and i32: "list_all (\<lambda>t. i32_size (tshape t)) ts"
    and res: "conforms (var_result op) (onnx_variadic f ts)" and rk: "trank (onnx_variadic f ts) \<le> maxrank" "4 \<le> maxrank"
    and layout: "4 < trank (onnx_variadic f ts) \<Longrightarrow> list_all (\<lambda>x. \<not> physical4 (oty x)) (var_operands op)"
  shows "represents sem env v (var_result op) (onnx_variadic f ts)"
proof -
  let ?rty = "var_result op" and ?ops = "var_operands op" and ?r = "onnx_variadic f ts"
  obtain e where ty: "?rty = RankedTensor (map int (tshape ?r)) e" using res by (auto simp: conforms_def)
  obtain vs where ad: "adapt_operands ?rty e 0 ?ops = Inr vs" and ne: "?ops \<noteq> []"
    and fo: "fold_minmax nm e (hd vs) (tl vs) = Inr v" and vt: "vtype v = convertRank4NCHWToNHWCType ?rty"
    using low by (auto simp: lower_minmax_def ty split: if_splits)
  have len: "length ts = length ?ops" using ts by (simp add: operands_represent_def)
  then obtain t us where tus: "ts = t # us" using ne by (cases ts) auto
  have rank: "trank (ts ! k) \<le> trank ?r" if "k < length ts" for k
    using trank_foldl_tmap2(1) [where t = t and f = f and ts = us] that nth_mem [OF that]
      trank_foldl_tmap2(2) [where u = "ts ! k" and t = t and f = f and ts = us]
    by (auto simp: onnx_variadic_def tus)
  have k: "conforms (oty (?ops ! k)) (ts ! k) \<and> env (0 + k) = phys (oty (?ops ! k)) (ts ! k)
      \<and> i32_size (tshape (ts ! k)) \<and> (physical4 ?rty \<or> \<not> physical4 (oty (?ops ! k)))" if "k < length ?ops" for k
  proof -
    have c: "conforms (oty (?ops ! k)) (ts ! k)" "env k = phys (oty (?ops ! k)) (ts ! k)" "i32_size (tshape (ts ! k))"
      using ts i32 that len by (simp_all add: operands_represent_def list_all_length)
    have o: "oty (?ops ! k) = RankedTensor (map int (tshape (ts ! k))) e"
      using adapt_operands_elt [OF ad that] c(1) by (auto simp: conforms_def)
    have "physical4 ?rty \<or> \<not> physical4 (oty (?ops ! k))"
      using rank [of k] layout that len by (cases "4 < trank ?r") (auto simp: o ty list_all_length)
    with c show ?thesis by simp
  qed
  have l: "tfl_layout sem" using sem by (rule tfl_binary.axioms(1))
  note at = adapt_operands_typed [OF ad len k l ty]
  show ?thesis
  proof (cases "physical4 ?rty")
    case True
    obtain as where as: "list_all2 (typed_value sem env e) vs as" "list_all2 stands_for as ts" using at True by auto
    then obtain a bs w ws where c: "as = a # bs" "vs = w # ws" "stands_for a t" "list_all2 stands_for bs us"
      "typed_value sem env e w a" "list_all2 (typed_value sem env e) ws bs"
      by (auto simp: tus list_all2_Cons2)
    have r4: "trank ?r = 4" using True by (simp add: ty)
    have le: "trank x \<le> 4" if "x \<in> set ts" for x
      using rank that r4 by (metis in_set_conv_nth)
    have "trank (foldl (tmap2 f) a bs) \<le> 4"
      using c(3,4) by (intro trank_foldl_tmap2_le) (auto simp: stands_for_def list_all2_conv_all_nth in_set_conv_nth)
    then have rb: "trank (foldl (tmap2 f) a bs) \<le> maxrank" using rk(2) by simp
    have fo': "fold_minmax nm e w ws = Inr v" using fo by (simp add: c(2))
    have "typed_value sem env e v (foldl (tmap2 f) a bs)" and "stands_for (foldl (tmap2 f) a bs) ?r"
      using tfl_binary.eval_fold_minmax [OF sem fo' refl c(5,6) rb, of us t] c le
      by (auto simp: tus onnx_variadic_def)
    then have "eval sem env v = ttranspose to_nhwc ?r"
      using r4 padded_id [of 4 ?r] padded_id [of 4 "foldl (tmap2 f) a bs"] by (auto simp: typed_value_def stands_for_def)
    then show ?thesis using True vt res by (simp add: represents_def phys_def)
  next
    case False
    then have "list_all2 (typed_value sem env e) vs ts" using at by simp
    then obtain w ws where c: "vs = w # ws" "typed_value sem env e w t" "list_all2 (typed_value sem env e) ws us"
      by (auto simp: tus list_all2_Cons2)
    have fo': "fold_minmax nm e w ws = Inr v" using fo by (simp add: c(1))
    have "trank (foldl (tmap2 f) t us) \<le> maxrank" using rk(1) by (simp add: onnx_variadic_def tus)
    note fm = tfl_binary.eval_fold_minmax [OF sem fo' refl c(2,3) this]
    then have "eval sem env v = ?r" by (simp add: onnx_variadic_def tus typed_value_def)
    then show ?thesis using False vt res by (intro represents_logical) (simp_all add: convert_id)
  qed
qed

section \<open>Instances\<close>

definition f32_operand :: "int list \<Rightarrow> 'f operand" where
  "f32_operand shape = \<lparr>oty = RankedTensor shape F32, oattr = None\<rparr>"

lemma f32_operand_simps [simp]: "oty (f32_operand sh) = RankedTensor sh F32" "oattr (f32_operand sh) = None"
  by (simp_all add: f32_operand_def)

definition add_example :: "int binary_op" where
  "add_example = \<lparr>bin_lhs = f32_operand [1, 2, 2, 3], bin_rhs = f32_operand [2, 2, 3],
     bin_result = RankedTensor [1, 2, 2, 3] F32\<rparr>"

definition chw_example :: "int scalar tensor" where
  "chw_example = Tensor [2, 2, 3] (map FV [10, 20, 30, 40, 50, 60, 70, 80, 90, 100, 110, 120])"

lemma chw_example_simps [simp]: "tshape chw_example = [2, 2, 3]" "wf_tensor chw_example"
  by (simp_all add: chw_example_def wf_tensor_def)

lemma example_broadcast [simp]: "bcast_shape [Suc 0, 2, 2, 3] [2, 2, 3] = [1, 2, 2, 3]" "bcast_compat [Suc 0, 2, 2, 3] [2, 2, 3]"
  by code_simp+

theorem lower_binary_correct_witness:
  "\<exists>v. lower_binary ''tfl.add'' add_example = Inr v \<and>
     represents reference_sem (\<lambda>i. if i = 0 then ttranspose to_nhwc nchw_example else chw_example) v
       (bin_result add_example) (tmap2 (ref_arith (+)) nchw_example chw_example)"
proof -
  have "\<not> failed (lower_binary ''tfl.add'' add_example)" by code_simp
  then obtain v where low: "lower_binary ''tfl.add'' add_example = Inr v" by (cases "lower_binary ''tfl.add'' add_example") auto
  have sem: "tfl_binary reference_sem ''tfl.add'' (binary_attributes ''tfl.add'') (ref_arith (+)) (maximumBroadcastRank ''tfl.add'')"
    using reference_add.tfl_binary_axioms by (simp add: binary_attributes_def maximumBroadcastRank_def)
  show ?thesis
    using low lower_binary_correct [OF sem low, of nchw_example "\<lambda>i. if i = 0 then ttranspose to_nhwc nchw_example else chw_example" chw_example]
    by (simp add: add_example_def example_simps i32_size_def)
qed

definition max_example :: "int variadic_op" where
  "max_example = \<lparr>var_operands = [f32_operand [2, 2, 3], f32_operand [1, 2, 2, 3]],
     var_result = RankedTensor [1, 2, 2, 3] F32\<rparr>"

theorem lower_minmax_correct_witness:
  "\<exists>v. lower_minmax ''tfl.maximum'' max_example = Inr v \<and>
     represents reference_sem (\<lambda>i. if i = 0 then chw_example else ttranspose to_nhwc nchw_example) v
       (var_result max_example) (onnx_variadic (ref_arith max) [chw_example, nchw_example])"
proof -
  have "\<not> failed (lower_minmax ''tfl.maximum'' max_example)" by code_simp
  then obtain v where low: "lower_minmax ''tfl.maximum'' max_example = Inr v"
    by (cases "lower_minmax ''tfl.maximum'' max_example") auto
  let ?env = "\<lambda>i. if i = 0 then chw_example else ttranspose to_nhwc nchw_example"
  have b: "bcast_shape [2, 2, 3] [Suc 0, 2, 2, 3] = [1, 2, 2, 3]" by code_simp
  have o: "operands_represent ?env (var_operands max_example) [chw_example, nchw_example]"
    by (simp add: operands_represent_def max_example_def less_Suc_eq nth_Cons' example_simps)
  show ?thesis
    using low lower_minmax_correct [OF reference_maximum.tfl_binary_axioms low o]
    by (simp add: max_example_def example_simps i32_size_def onnx_variadic_def b)
qed

section \<open>The rank-4 operand of a high-rank result\<close>

text \<open>
  The case that the theorem excludes. The left operand is \<^verbatim>\<open>[1, 2, 1, 1]\<close> in the ONNX graph and
  \<^verbatim>\<open>[1, 1, 1, 2]\<close> as converted; the pattern accepts it for a rank-6 result, aligns the converted
  extents, and so adds the per-channel values along the last axis.
\<close>

definition high_rank_add :: "int binary_op" where
  "high_rank_add = \<lparr>bin_lhs = f32_operand [1, 2, 1, 1], bin_rhs = f32_operand [1, 1, 1, 2, 3, 2],
     bin_result = RankedTensor [1, 1, 1, 2, 3, 2] F32\<rparr>"

lemma high_rank_rank4_operand_misread:
  "let t = Tensor [1, 2, 1, 1] [FV 0, FV 100]; u = Tensor [1, 1, 1, 2, 3, 2] (map FV [1..12]);
       env = (\<lambda>i. if i = 0 then ttranspose to_nhwc t else u) in
   map_sum (\<lambda>e. ()) (\<lambda>v. tdata (eval reference_sem env v)) (lower_binary ''tfl.add'' high_rank_add) =
     Inr (map FV [1, 102, 3, 104, 5, 106, 7, 108, 9, 110, 11, 112]) \<and>
   tdata (tmap2 (ref_arith (+)) t u) = map FV [1, 2, 3, 4, 5, 6, 107, 108, 109, 110, 111, 112]"
  by code_simp

end
