(* ===== verification/Lower_Activation.thy ===== *)
theory Lower_Activation
  imports Complex_Main Lower_Elementwise
begin

text \<open>
  Model of the patterns of \<^verbatim>\<open>Math/Elementwise.cpp\<close> and \<^verbatim>\<open>Math/LegacyMath.cpp\<close> that apply a scalar
  function to every element: the templates for builtin unary operators, and the activations that
  are decomposed into arithmetic. They keep the layout, so each proof says that the function
  commutes with the representation; what a decomposition computes is stated on real numbers.
\<close>

section \<open>Builtin unary operators\<close>

record 'f unary_op =
  un_input :: "'f operand"
  un_result :: mtype

definition lower_unary :: "string \<Rightarrow> 'f unary_op \<Rightarrow> 'f val result" where
  "lower_unary tflName op =
     (let x = adaptor 0 (un_input op) in
      if failed (validateStaticF32TensorOrScalar (vtype x)) \<or>
         failed (validateStaticF32TensorOrScalar (un_result op)) then Inl BadTypes
      else Inr (createTFLOperation tflName [convertRank4NCHWToNHWCType (un_result op)] [x] [] 0))"

definition lower_identity :: "'f unary_op \<Rightarrow> 'f val result" where
  "lower_identity op =
     (let x = adaptor 0 (un_input op) in
      if failed (validateStaticF32Tensor (vtype x)) then Inl BadTypes else Inr x)"

definition lower_gelu :: "string \<Rightarrow> 'f unary_op \<Rightarrow> 'f val result" where
  "lower_gelu approximate op =
     (let x = adaptor 0 (un_input op) in
      if failed (validateStaticF32TensorOrScalar (vtype x)) \<or>
         failed (validateStaticF32TensorOrScalar (un_result op)) then Inl BadTypes
      else if approximate \<noteq> ''none'' \<and> approximate \<noteq> ''tanh'' then Inl BadMode
      else Inr (createTFLOperation ''tfl.gelu'' [convertRank4NCHWToNHWCType (un_result op)] [x]
             [(''approximate'', BoolAttr (approximate = ''tanh''))] 0))"

definition lower_hard_swish :: "'f unary_op \<Rightarrow> 'f val result" where
  "lower_hard_swish op =
     (let x = adaptor 0 (un_input op) in
      if failed (validateStaticF32Tensor (vtype x)) \<or> failed (validateStaticF32Tensor (un_result op))
      then Inl BadTypes
      else Inr (createTFLOperation ''tfl.hard_swish'' [convertRank4NCHWToNHWCType (un_result op)] [x] [] 0))"

definition lower_leaky_relu :: "'f \<Rightarrow> 'f unary_op \<Rightarrow> 'f val result" where
  "lower_leaky_relu alpha op =
     (let x = adaptor 0 (un_input op) in
      if failed (validateStaticF32Tensor (vtype x)) \<or> failed (validateStaticF32Tensor (un_result op))
      then Inl BadTypes
      else Inr (createTFLOperation ''tfl.leaky_relu'' [convertRank4NCHWToNHWCType (un_result op)] [x]
             [(''alpha'', FloatAttr alpha)] 0))"

definition lower_ceil :: "'f unary_op \<Rightarrow> 'f val result" where
  "lower_ceil op =
     (case (oty (un_input op), un_result op) of
        (RankedTensor _ _, RankedTensor _ _) \<Rightarrow>
          if failed (validateStaticF32TensorOrScalar (oty (un_input op))) \<or>
             failed (validateStaticF32TensorOrScalar (un_result op)) \<or> oty (un_input op) \<noteq> un_result op
          then Inl BadTypes
          else Inr (createTFLOperation ''tfl.ceil'' [convertRank4NCHWToNHWCType (un_result op)]
                 [adaptor 0 (un_input op)] [] 0)
      | _ \<Rightarrow> Inl BadTypes)"

definition lower_not :: "'f unary_op \<Rightarrow> 'f val result" where
  "lower_not op =
     (case (oty (un_input op), un_result op) of
        (RankedTensor inShape inElt, RankedTensor outShape outElt) \<Rightarrow>
          if \<not> hasStaticShape inShape \<or> \<not> hasStaticShape outShape \<or> \<not> isInteger 1 inElt \<or>
             oty (un_input op) \<noteq> un_result op then Inl BadTypes
          else Inr (createTFLOperation ''tfl.logical_not'' [un_result op] [adaptor 0 (un_input op)] [] 0)
      | _ \<Rightarrow> Inl BadTypes)"

section \<open>Decomposed activations\<close>

text \<open>\<open>f0\<close> and \<open>f1\<close> are the literals \<^verbatim>\<open>0.0f\<close> and \<^verbatim>\<open>1.0f\<close>.\<close>

definition lower_elu :: "'f \<Rightarrow> 'f \<Rightarrow> 'f \<Rightarrow> 'f unary_op \<Rightarrow> 'f val result" where
  "lower_elu f0 f1 alpha op =
     (let x = adaptor 0 (un_input op) in
      if failed (validateStaticF32TensorOrScalar (vtype x)) \<or>
         failed (validateStaticF32TensorOrScalar (un_result op)) then Inl BadTypes
      else
        let resultType = convertRank4NCHWToNHWCType (un_result op) in
        if alpha = f1 then Inr (createTFLOperation ''tfl.elu'' [resultType] [x] [] 0)
        else
          let zero = createF32ScalarTensorConstant f0;
              one = createF32ScalarTensorConstant f1;
              alphaValue = createF32ScalarTensorConstant alpha;
              positive = createTFLOperation ''tfl.maximum'' [resultType] [x, zero] [] 0;
              exponent = createTFLOperation ''tfl.exp'' [resultType] [x] [] 0;
              shifted = createTFLOperation ''tfl.sub'' [resultType] [exponent, one] [getFusedActivationNone] 0;
              scaled = createTFLOperation ''tfl.mul'' [resultType] [shifted, alphaValue] [getFusedActivationNone] 0;
              negative = createTFLOperation ''tfl.minimum'' [resultType] [scaled, zero] [] 0 in
          Inr (createTFLOperation ''tfl.add'' [resultType] [positive, negative] [getFusedActivationNone] 0))"

definition lower_reciprocal :: "'f \<Rightarrow> 'f unary_op \<Rightarrow> 'f val result" where
  "lower_reciprocal f1 op =
     (let x = adaptor 0 (un_input op) in
      if failed (validateStaticF32TensorOrScalar (vtype x)) \<or>
         failed (validateStaticF32TensorOrScalar (un_result op)) then Inl BadTypes
      else Inr (createTFLOperation ''tfl.div'' [convertRank4NCHWToNHWCType (un_result op)]
             [createF32ScalarTensorConstant f1, x] [getFusedActivationNone] 0))"

definition lower_hard_sigmoid :: "'f \<Rightarrow> 'f \<Rightarrow> 'f \<Rightarrow> 'f \<Rightarrow> 'f unary_op \<Rightarrow> 'f val result" where
  "lower_hard_sigmoid f0 f1 alpha beta op =
     (let x = adaptor 0 (un_input op) in
      if failed (validateStaticF32Tensor (vtype x)) \<or> failed (validateStaticF32Tensor (un_result op))
      then Inl BadTypes
      else
        let resultType = convertRank4NCHWToNHWCType (un_result op);
            scaled = createTFLOperation ''tfl.mul'' [resultType] [x, createF32ScalarTensorConstant alpha] [getFusedActivationNone] 0;
            shifted = createTFLOperation ''tfl.add'' [resultType] [scaled, createF32ScalarTensorConstant beta] [getFusedActivationNone] 0;
            lowerClamped = createTFLOperation ''tfl.maximum'' [resultType] [shifted, createF32ScalarTensorConstant f0] [] 0 in
        Inr (createTFLOperation ''tfl.minimum'' [resultType] [lowerClamped, createF32ScalarTensorConstant f1] [] 0))"

record 'f clip_op =
  clip_input :: "'f operand"
  clip_min :: "'f operand"
  clip_max :: "'f operand"
  clip_result :: mtype

definition validateBound :: "nat \<Rightarrow> 'f operand \<Rightarrow> unit result" where
  "validateBound i source =
     (case oty source of
        NoneT \<Rightarrow> Inr ()
      | RankedTensor shape e \<Rightarrow>
          if getRank shape \<noteq> 0 \<or> failed (validateStaticF32TensorOrScalar (vtype (adaptor i source) :: mtype))
          then Inl BadTypes else Inr ()
      | _ \<Rightarrow> Inl BadTypes)"

definition lower_clip :: "'f clip_op \<Rightarrow> 'f val result" where
  "lower_clip op =
     (case clip_result op of
        RankedTensor shape e \<Rightarrow>
          let input = adaptor 0 (clip_input op) in
          if failed (validateStaticF32Tensor (vtype input)) \<or> failed (validateStaticF32Tensor (clip_result op))
          then Inl BadTypes
          else if failed (validateBound 1 (clip_min op)) \<or> failed (validateBound 2 (clip_max op)) then Inl BadTypes
          else
            let ty = convertRank4NCHWToNHWCType (clip_result op);
                lower = (if oty (clip_min op) \<noteq> NoneT
                  then createTFLOperation ''tfl.maximum'' [ty] [input, adaptor 1 (clip_min op)] [] 0 else input) in
            Inr (if oty (clip_max op) \<noteq> NoneT
                 then createTFLOperation ''tfl.minimum'' [ty] [lower, adaptor 2 (clip_max op)] [] 0 else lower)
      | _ \<Rightarrow> Inl BadTypes)"

section \<open>Scalar functions\<close>

definition elu_scalar ::
  "('a \<Rightarrow> 'a \<Rightarrow> 'a) \<Rightarrow> ('a \<Rightarrow> 'a \<Rightarrow> 'a) \<Rightarrow> ('a \<Rightarrow> 'a \<Rightarrow> 'a) \<Rightarrow> ('a \<Rightarrow> 'a \<Rightarrow> 'a) \<Rightarrow> ('a \<Rightarrow> 'a \<Rightarrow> 'a) \<Rightarrow>
   ('a \<Rightarrow> 'a) \<Rightarrow> 'a \<Rightarrow> 'a \<Rightarrow> 'a \<Rightarrow> 'a \<Rightarrow> 'a" where
  "elu_scalar addf subf mulf maxf minf expf zero one alpha x =
     addf (maxf x zero) (minf (mulf (subf (expf x) one) alpha) zero)"

definition hard_sigmoid_scalar ::
  "('a \<Rightarrow> 'a \<Rightarrow> 'a) \<Rightarrow> ('a \<Rightarrow> 'a \<Rightarrow> 'a) \<Rightarrow> ('a \<Rightarrow> 'a \<Rightarrow> 'a) \<Rightarrow> ('a \<Rightarrow> 'a \<Rightarrow> 'a) \<Rightarrow> 'a \<Rightarrow> 'a \<Rightarrow> 'a \<Rightarrow> 'a \<Rightarrow> 'a \<Rightarrow> 'a" where
  "hard_sigmoid_scalar addf mulf maxf minf zero one alpha beta x =
     minf (maxf (addf (mulf x alpha) beta) zero) one"

definition clip_scalar :: "('a \<Rightarrow> 'a \<Rightarrow> 'a) \<Rightarrow> ('a \<Rightarrow> 'a \<Rightarrow> 'a) \<Rightarrow> 'a option \<Rightarrow> 'a option \<Rightarrow> 'a \<Rightarrow> 'a" where
  "clip_scalar maxf minf lo hi x =
     (let y = (case lo of None \<Rightarrow> x | Some b \<Rightarrow> maxf x b) in case hi of None \<Rightarrow> y | Some b \<Rightarrow> minf y b)"

definition onnx_elu :: "real \<Rightarrow> real \<Rightarrow> real" where
  "onnx_elu alpha x = (if x < 0 then alpha * (exp x - 1) else x)"

definition onnx_hard_sigmoid :: "real \<Rightarrow> real \<Rightarrow> real \<Rightarrow> real" where
  "onnx_hard_sigmoid alpha beta x = max 0 (min 1 (alpha * x + beta))"

section \<open>Elementwise functions and the layout\<close>

lemma conforms_tmap [simp]: "conforms ty (tmap g t) = conforms ty t"
  by (simp add: conforms_def)

lemma phys_tmap: "conforms ty t \<Longrightarrow> phys ty (tmap g t) = tmap g (phys ty t)"
  by (auto simp: phys_def conforms_def intro!: tmap_ttranspose)

lemma trank_phys [simp]: "trank (phys ty t) = (if physical4 ty then 4 else trank t)"
  by (simp add: phys_def)

lemma validate_convert [simp]:
  "failed (validateStaticF32TensorOrScalar (convertRank4NCHWToNHWCType ty)) = failed (validateStaticF32TensorOrScalar ty)"
  "failed (validateStaticF32Tensor (convertRank4NCHWToNHWCType ty)) = failed (validateStaticF32Tensor ty)"
proof -
  have "failed (validateStaticF32TensorOrScalar (convertRank4NCHWToNHWCType ty)) = failed (validateStaticF32TensorOrScalar ty) \<and>
    failed (validateStaticF32Tensor (convertRank4NCHWToNHWCType ty)) = failed (validateStaticF32Tensor ty)"
  proof (cases "physical4 ty")
    case True
    then obtain a b c d where "ty = RankedTensor [a, b, c, d] F32"
      by (cases ty) (auto simp: physical4_def isF32_def elim: length_4_cases)
    then show ?thesis
      by (simp add: convert_Ranked validateStaticF32Tensor_def validateStaticF32TensorOrScalar_def getRank_def hasStaticShape_def isF32_def)
  qed (simp add: convert_id)
  then show "failed (validateStaticF32TensorOrScalar (convertRank4NCHWToNHWCType ty)) = failed (validateStaticF32TensorOrScalar ty)"
    "failed (validateStaticF32Tensor (convertRank4NCHWToNHWCType ty)) = failed (validateStaticF32Tensor ty)" by simp_all
qed

lemma f32_types:
  assumes "\<not> failed (validateStaticF32TensorOrScalar ty)" and "\<not> failed (validateStaticF32TensorOrScalar rty)"
    and "conforms ty t" and "conforms rty t"
  shows "ty = rty"
proof -
  have "\<exists>sh. a = RankedTensor sh F32" if "\<not> failed (validateStaticF32TensorOrScalar a)" for a
    using that by (cases "validateStaticF32TensorOrScalar a") auto
  from this [OF assms(1)] this [OF assms(2)] show ?thesis
    using assms(3,4) by (auto simp: conforms_def)
qed

lemma f32_tensor_or_scalar:
  "\<not> failed (validateStaticF32Tensor ty) \<Longrightarrow> \<not> failed (validateStaticF32TensorOrScalar ty)"
  by (cases "validateStaticF32TensorOrScalar ty") (simp_all add: validateStaticF32Tensor_def del: validateStaticF32TensorOrScalar_ok)

lemma wf_phys [simp]: "wf_tensor t \<Longrightarrow> wf_tensor (phys ty t)"
  by (simp add: phys_def)

lemma represents_tmap:
  assumes "conforms ty t" and "vtype v = convertRank4NCHWToNHWCType ty" and "eval sem env v = tmap g (phys ty t)"
  shows "represents sem env v ty (tmap g t)"
  using assms by (simp add: represents_def phys_tmap)

context tfl_unary
begin

lemma represents_unary:
  assumes "conforms ty t" and "eval sem env x = phys ty t"
  shows "represents sem env (createTFLOperation nm [convertRank4NCHWToNHWCType ty] [x] attrs 0) ty (tmap f t)"
  using assms convert_conforms [OF assms(1)] unary [of "phys ty t" "[convertRank4NCHWToNHWCType ty]"]
  by (intro represents_tmap) (simp_all add: conforms_wf)

lemma eval_unary:
  assumes "wf_tensor x" and "eval sem env v = x" and "conforms ty x"
  shows "eval sem env (createTFLOperation nm [ty] [v] attrs 0) = tmap f x"
  using assms unary [of x "[ty]"] by simp

end

context tfl_binary
begin

lemma eval_scalar_right:
  assumes "wf_tensor x" and "eval sem env v = x" and "eval sem env c = Tensor [] [s]" and "conforms ty x" and "trank x \<le> maxrank"
  shows "eval sem env (createTFLOperation nm [ty] [v, c] attrs 0) = tmap (\<lambda>a. f a s) x"
  using assms eval_direct [of env v x c "Tensor [] [s]" ty]
  by (simp add: tmap2_scalar_right wf_tensor_def [of "Tensor [] [s]"])

lemma eval_scalar_left:
  assumes "wf_tensor x" and "eval sem env v = x" and "eval sem env c = Tensor [] [s]" and "conforms ty x" and "trank x \<le> maxrank"
  shows "eval sem env (createTFLOperation nm [ty] [c, v] attrs 0) = tmap (f s) x"
  using assms eval_direct [of env c "Tensor [] [s]" v x ty]
  by (simp add: tmap2_scalar_left wf_tensor_def [of "Tensor [] [s]"])

lemma eval_same_shape:
  assumes "wf_tensor x" and "eval sem env v = tmap g x" and "eval sem env w = tmap h x" and "conforms ty x" and "trank x \<le> maxrank"
  shows "eval sem env (createTFLOperation nm [ty] [v, w] attrs 0) = tmap (\<lambda>a. f (g a) (h a)) x"
  using assms eval_direct [of env v "tmap g x" w "tmap h x" ty]
  by (simp add: tmap2_tmap_same)

end

text \<open>
  When the pattern of a builtin unary operator (Relu, Sigmoid, Tanh, Exp, Log, Sqrt, Cos, Sin,
  Abs, Neg, Round, Sign, Floor) succeeds, the created value represents the elementwise function
  of the kernel on the operand.
\<close>

theorem lower_unary_correct:
  assumes sem: "tfl_unary sem nm [] f" and low: "lower_unary nm op = Inr v"
    and t: "conforms (oty (un_input op)) t" "env 0 = phys (oty (un_input op)) t"
    and res: "conforms (un_result op) (tmap f t)"
  shows "represents sem env v (un_result op) (tmap f t)"
proof -
  have ty: "oty (un_input op) = un_result op"
    using low t(1) res by (intro f32_types [of _ _ t]) (auto simp: lower_unary_def Let_def split: if_splits)
  then show ?thesis
    using low tfl_unary.represents_unary [OF sem t(1), of env "adaptor 0 (un_input op)"] t(2)
    by (auto simp: lower_unary_def Let_def split: if_splits)
qed

definition neg_example :: "int unary_op" where
  "neg_example = \<lparr>un_input = f32_operand [1, 2, 2, 3], un_result = RankedTensor [1, 2, 2, 3] F32\<rparr>"

theorem lower_unary_correct_witness:
  "\<exists>v. lower_unary ''tfl.neg'' neg_example = Inr v \<and>
     represents reference_sem (\<lambda>_. ttranspose to_nhwc nchw_example) v
       (un_result neg_example) (tmap (ref_un uminus) nchw_example)"
proof -
  have "\<not> failed (lower_unary ''tfl.neg'' neg_example)" by code_simp
  then obtain v where low: "lower_unary ''tfl.neg'' neg_example = Inr v" by (rule not_failedE)
  from lower_unary_correct [OF reference_neg.tfl_unary_axioms low, of nchw_example "\<lambda>_. ttranspose to_nhwc nchw_example"]
  show ?thesis using low by (simp add: neg_example_def example_simps)
qed

text \<open>
  Gelu, HardSwish, LeakyRelu, Ceil, Not and Identity: on success the created value represents
  the function of the builtin (none for Identity) with the attribute the pattern passes on.
\<close>

theorem lower_builtin_activation_correct:
  assumes low: "(tfl_unary sem ''tfl.gelu'' [(''approximate'', BoolAttr (mode = ''tanh''))] f \<and> lower_gelu mode op = Inr v) \<or>
      (tfl_unary sem ''tfl.hard_swish'' [] f \<and> lower_hard_swish op = Inr v) \<or>
      (tfl_unary sem ''tfl.leaky_relu'' [(''alpha'', FloatAttr alpha)] f \<and> lower_leaky_relu alpha op = Inr v) \<or>
      (tfl_unary sem ''tfl.ceil'' [] f \<and> lower_ceil op = Inr v) \<or>
      (tfl_unary sem ''tfl.logical_not'' [] f \<and> lower_not op = Inr v)"
    and t: "conforms (oty (un_input op)) t" "env 0 = phys (oty (un_input op)) t"
    and res: "conforms (un_result op) (tmap f t)"
  shows "represents sem env v (un_result op) (tmap f t)"
proof -
  obtain nm attrs where sem: "tfl_unary sem nm attrs f" and ty: "oty (un_input op) = un_result op"
    and v: "v = createTFLOperation nm [convertRank4NCHWToNHWCType (un_result op)] [adaptor 0 (un_input op)] attrs 0"
  proof -
    have f32: "oty (un_input op) = un_result op"
      if "\<not> failed (validateStaticF32TensorOrScalar (oty (un_input op)))" "\<not> failed (validateStaticF32TensorOrScalar (un_result op))"
      using that t(1) res by (intro f32_types [of _ _ t]) simp_all
    have i1: "convertRank4NCHWToNHWCType (RankedTensor sh e) = RankedTensor sh e" if "isInteger (Suc 0) e" for sh e
      using that by (intro convert_id) (auto simp: isInteger_def)
    from low show thesis
      by (elim disjE conjE; intro that)
        (auto simp: lower_gelu_def lower_hard_swish_def lower_leaky_relu_def lower_ceil_def lower_not_def Let_def
           i1 intro!: f32 f32_tensor_or_scalar split: if_splits mtype.splits)
  qed
  then show ?thesis
    using tfl_unary.represents_unary [OF sem t(1), of env "adaptor 0 (un_input op)"] t(2) by simp
qed

definition not_example :: "int unary_op" where
  "not_example = \<lparr>un_input = \<lparr>oty = RankedTensor [2] I1, oattr = None\<rparr>, un_result = RankedTensor [2] I1\<rparr>"

theorem lower_builtin_activation_correct_witness:
  "\<exists>v. lower_not not_example = Inr v \<and>
     represents reference_sem (\<lambda>_. Tensor [2] [BV True, BV False]) v (un_result not_example) (Tensor [2] [BV False, BV True])"
proof -
  let ?t = "Tensor [2] [BV True, BV False] :: int scalar tensor"
  have "\<not> failed (lower_not not_example)" by code_simp
  then obtain v where low: "lower_not not_example = Inr v" by (rule not_failedE)
  have "tmap ref_not ?t = Tensor [2] [BV False, BV True]" by code_simp
  moreover have "represents reference_sem (\<lambda>_. ?t) v (un_result not_example) (tmap ref_not ?t)"
    using lower_builtin_activation_correct [of reference_sem _ ref_not not_example v 0 ?t "\<lambda>_. ?t", OF disjI2 [OF disjI2 [OF disjI2 [OF disjI2]]]]
      low reference_not.tfl_unary_axioms by (simp add: not_example_def conforms_Ranked phys_def wf_tensor_def)
  ultimately show ?thesis using low by simp
qed

lemma represents_identity:
  assumes "lower_identity op = Inr v" and "conforms (oty (un_input op)) t" "env 0 = phys (oty (un_input op)) t"
    and "un_result op = oty (un_input op)"
  shows "represents sem env v (un_result op) t"
  using assms by (auto simp: lower_identity_def Let_def represents_def split: if_splits)

section \<open>Decompositions\<close>

context tfl_arith
begin

lemma eval_elu_decomposition:
  fixes f0 f1 alpha :: 'f
  assumes ex: "tfl_unary sem ''tfl.exp'' [] expf" and x: "wf_tensor x" "eval sem env v = x" "conforms ty x" "trank x \<le> 5"
  defines "exponent \<equiv> createTFLOperation ''tfl.exp'' [ty] [v] [] 0"
  defines "shifted \<equiv> createTFLOperation ''tfl.sub'' [ty] [exponent, createF32ScalarTensorConstant f1] [getFusedActivationNone] 0"
  defines "scaled \<equiv> createTFLOperation ''tfl.mul'' [ty] [shifted, createF32ScalarTensorConstant alpha] [getFusedActivationNone] 0"
  shows "eval sem env (createTFLOperation ''tfl.add'' [ty]
      [createTFLOperation ''tfl.maximum'' [ty] [v, createF32ScalarTensorConstant f0] [] 0,
       createTFLOperation ''tfl.minimum'' [ty] [scaled, createF32ScalarTensorConstant f0] [] 0]
      [getFusedActivationNone] 0) =
    tmap (elu_scalar addf subf mulf maxf minf expf (FV f0) (FV f1) (FV alpha)) x"
proof -
  have e: "eval sem env exponent = tmap expf x"
    unfolding exponent_def using x by (intro tfl_unary.eval_unary [OF ex])
  have s: "eval sem env shifted = tmap (\<lambda>a. subf (expf a) (FV f1)) x"
    unfolding shifted_def using x sub.eval_scalar_right [OF _ e, of "createF32ScalarTensorConstant f1" "FV f1" ty]
    by (simp add: comp_def)
  have m: "eval sem env scaled = tmap (\<lambda>a. mulf (subf (expf a) (FV f1)) (FV alpha)) x"
    unfolding scaled_def using x mul.eval_scalar_right [OF _ s, of "createF32ScalarTensorConstant alpha" "FV alpha" ty]
    by (simp add: comp_def)
  have n: "eval sem env (createTFLOperation ''tfl.minimum'' [ty] [scaled, createF32ScalarTensorConstant f0] [] 0) =
      tmap (\<lambda>a. minf (mulf (subf (expf a) (FV f1)) (FV alpha)) (FV f0)) x"
    using x mini.eval_scalar_right [OF _ m, of "createF32ScalarTensorConstant f0" "FV f0" ty] by (simp add: comp_def)
  have p: "eval sem env (createTFLOperation ''tfl.maximum'' [ty] [v, createF32ScalarTensorConstant f0] [] 0) =
      tmap (\<lambda>a. maxf a (FV f0)) x"
    using x maxi.eval_scalar_right [OF _ x(2), of "createF32ScalarTensorConstant f0" "FV f0" ty] by simp
  show ?thesis
    unfolding elu_scalar_def [abs_def] using x(1) p n x(3,4) by (rule add.eval_same_shape)
qed

lemma eval_hard_sigmoid_decomposition:
  fixes f0 f1 alpha beta :: 'f
  assumes x: "wf_tensor x" "eval sem env v = x" "conforms ty x" "trank x \<le> 5"
  defines "scaled \<equiv> createTFLOperation ''tfl.mul'' [ty] [v, createF32ScalarTensorConstant alpha] [getFusedActivationNone] 0"
  defines "shifted \<equiv> createTFLOperation ''tfl.add'' [ty] [scaled, createF32ScalarTensorConstant beta] [getFusedActivationNone] 0"
  defines "lowerClamped \<equiv> createTFLOperation ''tfl.maximum'' [ty] [shifted, createF32ScalarTensorConstant f0] [] 0"
  shows "eval sem env (createTFLOperation ''tfl.minimum'' [ty] [lowerClamped, createF32ScalarTensorConstant f1] [] 0) =
    tmap (hard_sigmoid_scalar addf mulf maxf minf (FV f0) (FV f1) (FV alpha) (FV beta)) x"
proof -
  have s: "eval sem env scaled = tmap (\<lambda>a. mulf a (FV alpha)) x"
    unfolding scaled_def using x mul.eval_scalar_right [OF _ x(2), of "createF32ScalarTensorConstant alpha" "FV alpha" ty] by simp
  have h: "eval sem env shifted = tmap (\<lambda>a. addf (mulf a (FV alpha)) (FV beta)) x"
    unfolding shifted_def using x add.eval_scalar_right [OF _ s, of "createF32ScalarTensorConstant beta" "FV beta" ty]
    by (simp add: comp_def)
  have l: "eval sem env lowerClamped = tmap (\<lambda>a. maxf (addf (mulf a (FV alpha)) (FV beta)) (FV f0)) x"
    unfolding lowerClamped_def using x maxi.eval_scalar_right [OF _ h, of "createF32ScalarTensorConstant f0" "FV f0" ty]
    by (simp add: comp_def)
  show ?thesis
    unfolding hard_sigmoid_scalar_def [abs_def]
    using x mini.eval_scalar_right [OF _ l, of "createF32ScalarTensorConstant f1" "FV f1" ty] by (simp add: comp_def)
qed

end

text \<open>
  When the Elu pattern succeeds, the created value represents the elementwise function of its
  six-operation decomposition, or the builtin when alpha is 1.
\<close>

theorem lower_elu_correct:
  assumes sem: "tfl_arith sem addf subf mulf divf maxf minf" "tfl_unary sem ''tfl.exp'' [] expf" "tfl_unary sem ''tfl.elu'' [] eluf"
    and low: "lower_elu f0 f1 alpha op = Inr v"
    and t: "conforms (oty (un_input op)) t" "env 0 = phys (oty (un_input op)) t"
    and res: "conforms (un_result op) t" and rk: "trank t \<le> 5"
  shows "represents sem env v (un_result op)
    (tmap (if alpha = f1 then eluf else elu_scalar addf subf mulf maxf minf expf (FV f0) (FV f1) (FV alpha)) t)"
proof -
  let ?ty = "un_result op" and ?x = "adaptor 0 (un_input op)"
  have ty: "oty (un_input op) = ?ty"
    using low t(1) res by (intro f32_types [of _ _ t]) (auto simp: lower_elu_def Let_def split: if_splits)
  have x: "wf_tensor (phys ?ty t)" "eval sem env ?x = phys ?ty t" "conforms (convertRank4NCHWToNHWCType ?ty) (phys ?ty t)"
      "trank (phys ?ty t) \<le> 5"
    using t res rk convert_conforms [OF res] conforms_wf [OF res] by (simp_all add: ty)
  show ?thesis
  proof (cases "alpha = f1")
    case True
    then show ?thesis
      using low tfl_unary.represents_unary [OF sem(3) res x(2)]
      by (auto simp: lower_elu_def Let_def split: if_splits)
  next
    case False
    then show ?thesis
      using low res tfl_arith.eval_elu_decomposition [OF sem(1,2) x]
      by (intro represents_tmap) (auto simp: lower_elu_def Let_def simp del: eval_createTFLOperation split: if_splits)
  qed
qed

theorem lower_elu_correct_witness:
  "\<exists>v. lower_elu 0 1 2 neg_example = Inr v \<and>
     represents reference_sem (\<lambda>_. ttranspose to_nhwc nchw_example) v (un_result neg_example)
       (tmap (elu_scalar (ref_arith (+)) (ref_arith (-)) (ref_arith (*)) (ref_arith max) (ref_arith min)
          (ref_un ref_exp) (FV 0) (FV 1) (FV 2)) nchw_example)"
proof -
  have "\<not> failed (lower_elu 0 1 2 neg_example)" by code_simp
  then obtain v where low: "lower_elu 0 1 2 neg_example = Inr v" by (rule not_failedE)
  from lower_elu_correct [OF reference_arith.tfl_arith_axioms reference_exp.tfl_unary_axioms reference_elu.tfl_unary_axioms low,
      of nchw_example "\<lambda>_. ttranspose to_nhwc nchw_example"]
  show ?thesis using low by (simp add: neg_example_def example_simps)
qed

text \<open>
  On real numbers the Elu decomposition is the ONNX function exactly for the non-negative
  coefficients: for a negative alpha the minimum discards or adds the wrong branch.
\<close>

theorem elu_decomposition_iff:
  "(\<forall>x. elu_scalar (+) (-) (*) max min exp 0 1 alpha x = onnx_elu alpha x) \<longleftrightarrow> 0 \<le> alpha"
proof
  assume "0 \<le> alpha"
  show "\<forall>x. elu_scalar (+) (-) (*) max min exp 0 1 alpha x = onnx_elu alpha x"
  proof
    fix x :: real
    have "(exp x - 1) * alpha \<le> 0" if "x < 0" using that \<open>0 \<le> alpha\<close> by (simp add: mult_nonpos_nonneg)
    moreover have "0 \<le> (exp x - 1) * alpha" if "0 \<le> x" using that \<open>0 \<le> alpha\<close> by simp
    ultimately show "elu_scalar (+) (-) (*) max min exp 0 1 alpha x = onnx_elu alpha x"
      by (cases "x < 0") (simp_all add: elu_scalar_def onnx_elu_def min_def max_def mult.commute)
  qed
next
  assume "\<forall>x. elu_scalar (+) (-) (*) max min exp 0 1 alpha x = onnx_elu alpha x"
  then have "min ((exp (- 1) - 1) * alpha) 0 = alpha * (exp (- 1) - (1 :: real))"
    by (auto simp: elu_scalar_def onnx_elu_def dest: spec [of _ "- 1"])
  then have "(exp (- 1) - 1) * alpha \<le> (0 :: real)" by (metis min.cobounded2 mult.commute)
  moreover have "exp (- 1) < (1 :: real)" by simp
  ultimately show "0 \<le> alpha" by (simp add: mult_le_0_iff)
qed

lemma f32_physical_operand:
  assumes "\<not> failed (validateStaticF32TensorOrScalar ity)" "\<not> failed (validateStaticF32TensorOrScalar ty)"
    and "conforms ity t" "conforms ty t" and "env 0 = phys ity t" and "trank t \<le> 5"
  shows "wf_tensor (phys ty t)" "env 0 = phys ty t" "conforms (convertRank4NCHWToNHWCType ty) (phys ty t)" "trank (phys ty t) \<le> 5"
  using assms f32_types [OF assms(1-4)] convert_conforms [OF assms(4)] conforms_wf [OF assms(4)] by simp_all

text \<open>
  When the HardSigmoid pattern succeeds, the created value represents the scaled, shifted and
  clamped operand, which on real numbers is the ONNX function \<^verbatim>\<open>max(0, min(1, alpha * x + beta))\<close>.
\<close>

theorem lower_hard_sigmoid_correct:
  assumes sem: "tfl_arith sem addf subf mulf divf maxf minf"
    and low: "lower_hard_sigmoid f0 f1 alpha beta op = Inr v"
    and t: "conforms (oty (un_input op)) t" "env 0 = phys (oty (un_input op)) t"
    and res: "conforms (un_result op) t" and rk: "trank t \<le> 5"
  shows "represents sem env v (un_result op)
      (tmap (hard_sigmoid_scalar addf mulf maxf minf (FV f0) (FV f1) (FV alpha) (FV beta)) t) \<and>
    hard_sigmoid_scalar (+) (*) max min 0 1 a b x = onnx_hard_sigmoid a b x"
proof
  let ?ty = "un_result op"
  have nf: "\<not> failed (validateStaticF32TensorOrScalar (oty (un_input op)))" "\<not> failed (validateStaticF32TensorOrScalar ?ty)"
    using low by (auto simp: lower_hard_sigmoid_def Let_def split: if_splits intro!: f32_tensor_or_scalar)
  note x = f32_physical_operand [where env = env, OF nf t(1) res t(2) rk]
  have "eval sem env (adaptor 0 (un_input op)) = phys ?ty t" using x(2) by simp
  from tfl_arith.eval_hard_sigmoid_decomposition [OF sem x(1) this x(3,4)]
  show "represents sem env v (un_result op)
      (tmap (hard_sigmoid_scalar addf mulf maxf minf (FV f0) (FV f1) (FV alpha) (FV beta)) t)"
    using low res
    by (intro represents_tmap) (auto simp: lower_hard_sigmoid_def Let_def simp del: eval_createTFLOperation split: if_splits)
  show "hard_sigmoid_scalar (+) (*) max min 0 1 a b x = onnx_hard_sigmoid a b x"
    by (simp add: hard_sigmoid_scalar_def onnx_hard_sigmoid_def mult.commute max_def min_def)
qed

theorem lower_hard_sigmoid_correct_witness:
  "\<exists>v. lower_hard_sigmoid 0 1 2 (- 5) neg_example = Inr v \<and>
     represents reference_sem (\<lambda>_. ttranspose to_nhwc nchw_example) v (un_result neg_example)
       (tmap (hard_sigmoid_scalar (ref_arith (+)) (ref_arith (*)) (ref_arith max) (ref_arith min)
          (FV 0) (FV 1) (FV 2) (FV (- 5))) nchw_example)"
proof -
  have "\<not> failed (lower_hard_sigmoid 0 1 2 (- 5) neg_example)" by code_simp
  then obtain v where low: "lower_hard_sigmoid 0 1 2 (- 5) neg_example = Inr v" by (rule not_failedE)
  from lower_hard_sigmoid_correct [OF reference_arith.tfl_arith_axioms low, of nchw_example "\<lambda>_. ttranspose to_nhwc nchw_example" 0 0 0]
  show ?thesis using low by (simp add: neg_example_def example_simps)
qed

lemma lower_reciprocal_correct:
  assumes sem: "tfl_arith sem addf subf mulf divf maxf minf" and low: "lower_reciprocal f1 op = Inr v"
    and t: "conforms (oty (un_input op)) t" "env 0 = phys (oty (un_input op)) t"
    and res: "conforms (un_result op) t" and rk: "trank t \<le> 5"
  shows "represents sem env v (un_result op) (tmap (divf (FV f1)) t)"
proof -
  let ?ty = "un_result op"
  have nf: "\<not> failed (validateStaticF32TensorOrScalar (oty (un_input op)))" "\<not> failed (validateStaticF32TensorOrScalar ?ty)"
    using low by (auto simp: lower_reciprocal_def Let_def split: if_splits)
  note x = f32_physical_operand [where env = env, OF nf t(1) res t(2) rk]
  have d: "tfl_binary sem ''tfl.div'' [getFusedActivationNone] divf 5"
    using sem by (simp add: tfl_arith_def)
  have "eval sem env (adaptor 0 (un_input op)) = phys ?ty t" using x(2) by simp
  from tfl_binary.eval_scalar_left [OF d x(1) this _ x(3,4), of "createF32ScalarTensorConstant f1" "FV f1"]
  show ?thesis
    using low res
    by (intro represents_tmap)
      (auto simp: lower_reciprocal_def Let_def simp del: eval_createTFLOperation split: if_splits)
qed

section \<open>Clip\<close>

definition bound_of :: "'f operand \<Rightarrow> 'f scalar tensor \<Rightarrow> 'f scalar option" where
  "bound_of v b = (if oty v = NoneT then None else Some (hd (tdata b)))"

lemma conforms_scalar: "conforms (RankedTensor [] e) b \<Longrightarrow> b = Tensor [] [hd (tdata b)]"
  by (cases b) (auto simp: conforms_def wf_tensor_def length_Suc_conv)

lemma validateBound_scalar:
  "\<not> failed (validateBound i v) \<Longrightarrow> oty v \<noteq> NoneT \<Longrightarrow> oty v = RankedTensor [] F32"
  by (cases "oty v")
    (auto simp: validateBound_def getRank_def convert_id validateStaticF32TensorOrScalar_def isF32_def split: if_splits)

text \<open>
  When the Clip pattern succeeds, the created value represents the operand raised to the lower
  bound and then lowered to the upper bound, each only when the optional operand is present.
\<close>

theorem lower_clip_correct:
  assumes sem: "tfl_arith sem addf subf mulf divf maxf minf" and low: "lower_clip op = Inr v"
    and t: "conforms (oty (clip_input op)) t" "env 0 = phys (oty (clip_input op)) t"
    and lo: "oty (clip_min op) \<noteq> NoneT \<Longrightarrow> conforms (oty (clip_min op)) (env 1)"
    and hi: "oty (clip_max op) \<noteq> NoneT \<Longrightarrow> conforms (oty (clip_max op)) (env 2)"
    and res: "conforms (clip_result op) t" and rk: "trank t \<le> 5"
  shows "represents sem env v (clip_result op)
    (tmap (clip_scalar maxf minf (bound_of (clip_min op) (env 1)) (bound_of (clip_max op) (env 2))) t)"
proof -
  let ?ty = "clip_result op" and ?x = "adaptor 0 (clip_input op)" and ?pty = "convertRank4NCHWToNHWCType (clip_result op)"
  have nf: "\<not> failed (validateStaticF32TensorOrScalar (oty (clip_input op)))" "\<not> failed (validateStaticF32TensorOrScalar ?ty)"
    and b: "\<not> failed (validateBound 1 (clip_min op))" "\<not> failed (validateBound 2 (clip_max op))"
    using low by (auto simp: lower_clip_def Let_def split: if_splits mtype.splits intro!: f32_tensor_or_scalar)
  note x = f32_physical_operand [where env = env, OF nf t(1) res t(2) rk]
  have mx: "tfl_binary sem ''tfl.maximum'' [] maxf 5" "tfl_binary sem ''tfl.minimum'' [] minf 5"
    using sem by (simp_all add: tfl_arith_def)
  have s: "env 1 = Tensor [] [hd (tdata (env 1))]" if "oty (clip_min op) \<noteq> NoneT"
    using lo [OF that] validateBound_scalar [OF b(1) that] by (auto dest: conforms_scalar)
  have s': "env 2 = Tensor [] [hd (tdata (env 2))]" if "oty (clip_max op) \<noteq> NoneT"
    using hi [OF that] validateBound_scalar [OF b(2) that] by (auto dest: conforms_scalar)
  let ?lower = "if oty (clip_min op) \<noteq> NoneT
      then createTFLOperation ''tfl.maximum'' [?pty] [?x, adaptor 1 (clip_min op)] [] 0 else ?x"
  let ?g = "\<lambda>a. case bound_of (clip_min op) (env 1) of None \<Rightarrow> a | Some c \<Rightarrow> maxf a c"
  have l: "eval sem env ?lower = tmap ?g (phys ?ty t)"
    using tfl_binary.eval_scalar_right [OF mx(1) x(1) _ _ x(3,4), of env ?x "adaptor 1 (clip_min op)"] x(2) s
    by (auto simp: bound_of_def tmap_def [of "\<lambda>a. a"] simp del: eval_createTFLOperation)
  have g: "wf_tensor (tmap ?g (phys ?ty t))" "conforms ?pty (tmap ?g (phys ?ty t))" "trank (tmap ?g (phys ?ty t)) \<le> 5"
    using x by simp_all
  let ?v = "if oty (clip_max op) \<noteq> NoneT
      then createTFLOperation ''tfl.minimum'' [?pty] [?lower, adaptor 2 (clip_max op)] [] 0 else ?lower"
  have v: "v = ?v" using low by (auto simp: lower_clip_def Let_def split: if_splits mtype.splits)
  have e: "eval sem env ?v = tmap (clip_scalar maxf minf (bound_of (clip_min op) (env 1)) (bound_of (clip_max op) (env 2))) (phys ?ty t)"
  proof (cases "oty (clip_max op) = NoneT")
    case True
    then show ?thesis using l by (simp add: clip_scalar_def [abs_def] bound_of_def [of "clip_max op"] Let_def)
  next
    case False
    then show ?thesis
      using tfl_binary.eval_scalar_right [OF mx(2) g(1) l _ g(2,3), of "adaptor 2 (clip_max op)"] s' [OF False]
      by (simp add: clip_scalar_def [abs_def] bound_of_def [of "clip_max op"] Let_def comp_def del: eval_createTFLOperation)
  qed
  have "vtype ?v = ?pty" using f32_types [OF nf t(1) res] by simp
  with e show ?thesis unfolding v using res by (intro represents_tmap)
qed

definition clip_example :: "int clip_op" where
  "clip_example = \<lparr>clip_input = f32_operand [1, 2, 2, 3], clip_min = f32_operand [],
     clip_max = \<lparr>oty = NoneT, oattr = None\<rparr>, clip_result = RankedTensor [1, 2, 2, 3] F32\<rparr>"

theorem lower_clip_correct_witness:
  "\<exists>v. lower_clip clip_example = Inr v \<and>
     represents reference_sem (\<lambda>i. if i = 0 then ttranspose to_nhwc nchw_example else Tensor [] [FV 6]) v
       (clip_result clip_example) (tmap (\<lambda>x. ref_arith max x (FV 6)) nchw_example)"
proof -
  have "\<not> failed (lower_clip clip_example)" by code_simp
  then obtain v where low: "lower_clip clip_example = Inr v" by (rule not_failedE)
  from lower_clip_correct [OF reference_arith.tfl_arith_axioms low, of nchw_example
      "\<lambda>i. if i = 0 then ttranspose to_nhwc nchw_example else Tensor [] [FV 6]"]
  show ?thesis
    using low by (simp add: clip_example_def example_simps bound_of_def clip_scalar_def [abs_def] wf_tensor_def [of "Tensor [] [FV 6]"])
qed

end
