(* ===== verification/Lower_Compare.thy ===== *)
theory Lower_Compare
  imports Lower_Activation
begin

text \<open>
  Model of the patterns that broadcast in logical order: \<^verbatim>\<open>Math/Comparison.cpp\<close>,
  \<^verbatim>\<open>Tensor/Where.cpp\<close>, \<^verbatim>\<open>Tensor/Expand.cpp\<close>, \<^verbatim>\<open>Tensor/Cast.cpp\<close> and the Mod pattern of
  \<^verbatim>\<open>Math/Elementwise.cpp\<close>. Rank-4 f32 operands are brought back to NCHW first; rank-5 broadcasts are
  materialised and flattened, because the kernels broadcast up to rank 4.
\<close>

section \<open>Materialising a broadcast\<close>

definition flattenOperand :: "'f val \<Rightarrow> int list \<Rightarrow> elt \<Rightarrow> int list \<Rightarrow> int \<Rightarrow> 'f val" where
  "flattenOperand val sourceShape e expectedShape elementCount =
     (let val' = (if aligned_shape (length expectedShape) sourceShape \<noteq> expectedShape
                  then createTFLOperation ''tfl.broadcast_to'' [RankedTensor expectedShape e]
                         [val, createI32ShapeConstant expectedShape] [] 0
                  else val) in
      emitReshape (RankedTensor [elementCount] e) [elementCount] val')"

section \<open>Comparisons\<close>

definition lower_comparison :: "string \<Rightarrow> 'f binary_op \<Rightarrow> 'f val result" where
  "lower_comparison tflName op =
     (case (oty (bin_lhs op), oty (bin_rhs op), bin_result op) of
        (RankedTensor lhsShape lhsElt, RankedTensor rhsShape rhsElt, RankedTensor resultShape resultElt) \<Rightarrow>
          if \<not> (hasStaticShape lhsShape \<and> hasStaticShape rhsShape \<and> lhsElt = rhsElt \<and>
                (isF32 lhsElt \<or> isSignlessInteger 64 lhsElt)) \<or>
             \<not> hasStaticShape resultShape \<or> \<not> isInteger 1 resultElt then Inl BadTypes
          else if 5 < getRank lhsShape \<or> 5 < getRank rhsShape \<or> 5 < getRank resultShape then Inl BadRank
          else bind_result (computeBroadcastShape lhsShape rhsShape) (\<lambda>expectedShape.
            if expectedShape \<noteq> resultShape then Inl ShapeMismatch
            else
              let restore = (\<lambda>val ty shape e. if getRank shape \<noteq> 4 \<or> \<not> isF32 e then val else restoreLogicalRank4 ty val);
                  lhs = restore (adaptor 0 (bin_lhs op)) (oty (bin_lhs op)) lhsShape lhsElt;
                  rhs = restore (adaptor 1 (bin_rhs op)) (oty (bin_rhs op)) rhsShape rhsElt in
              if 4 < max (getRank lhsShape) (getRank rhsShape) then
                let elementCount = getNumElements resultShape;
                    lhs' = flattenOperand lhs lhsShape lhsElt expectedShape elementCount;
                    rhs' = flattenOperand rhs rhsShape rhsElt expectedShape elementCount;
                    flatResult = createTFLOperation tflName [RankedTensor [elementCount] resultElt] [lhs', rhs'] [] 0 in
                Inr (emitReshape (bin_result op) resultShape flatResult)
              else Inr (createTFLOperation tflName [bin_result op] [lhs, rhs] [] 0))
      | _ \<Rightarrow> Inl BadTypes)"

section \<open>Where\<close>

record 'f where_op =
  wh_condition :: "'f operand"
  wh_x :: "'f operand"
  wh_y :: "'f operand"
  wh_result :: mtype

fun merge_dims :: "(int \<times> int) list \<Rightarrow> int list result" where
  "merge_dims [] = Inr []"
| "merge_dims ((expected, dimension) # rest) =
     bind_result (merge_dims rest) (\<lambda>ds.
       if expected \<noteq> 1 \<and> dimension \<noteq> 1 \<and> expected \<noteq> dimension then Inl NotCompatible
       else Inr (max expected dimension # ds))"

definition mergeShape :: "int list \<Rightarrow> int list \<Rightarrow> int list result" where
  "mergeShape expectedShape shape =
     (let k = length expectedShape - length shape in
      bind_result (merge_dims (zip (drop k expectedShape) shape)) (\<lambda>ds. Inr (take k expectedShape @ ds)))"

definition lower_where :: "'f where_op \<Rightarrow> 'f val result" where
  "lower_where op =
     (case (oty (wh_condition op), oty (wh_x op), oty (wh_y op), wh_result op) of
        (RankedTensor cShape cElt, RankedTensor xShape xElt, RankedTensor yShape yElt, RankedTensor resultShape resultElt) \<Rightarrow>
          if \<not> hasStaticShape cShape \<or> \<not> isInteger 1 cElt \<or>
             \<not> (hasStaticShape xShape \<and> hasStaticShape yShape \<and> hasStaticShape resultShape \<and>
                (isF32 resultElt \<or> isSignlessInteger 64 resultElt) \<and> xElt = resultElt \<and> yElt = resultElt)
            then Inl BadTypes
          else
            let resultRank = max (getRank cShape) (max (getRank xShape) (getRank yShape)) in
            if 5 < resultRank \<or> getRank resultShape \<noteq> resultRank then Inl BadRank
            else bind_result
              (bind_result (mergeShape (replicate (nat resultRank) 1) cShape) (\<lambda>s.
               bind_result (mergeShape s xShape) (\<lambda>s. mergeShape s yShape))) (\<lambda>expectedShape.
              if expectedShape \<noteq> resultShape then Inl NotCompatible
              else
                let restore = (\<lambda>val ty shape. if \<not> isF32 resultElt \<or> getRank shape \<noteq> 4 then val else restoreLogicalRank4 ty val);
                    x = restore (adaptor 1 (wh_x op)) (oty (wh_x op)) xShape;
                    y = restore (adaptor 2 (wh_y op)) (oty (wh_y op)) yShape;
                    logicalResult = createTFLOperation ''tfl.select_v2'' [wh_result op] [adaptor 0 (wh_condition op), x, y] [] 0 in
                if \<not> isF32 resultElt \<or> getRank resultShape \<noteq> 4 then Inr logicalResult
                else Inr (toPhysicalRank4 (wh_result op) logicalResult))
      | _ \<Rightarrow> Inl BadTypes)"

section \<open>Expand\<close>

record 'f expand_op =
  ex_input :: "'f operand"
  ex_shape :: "'f operand"
  ex_result :: mtype

definition expand_dim :: "int \<Rightarrow> int \<Rightarrow> int result" where
  "expand_dim inputDim requestedDim =
     (if requestedDim < 0 \<or> (inputDim \<noteq> 1 \<and> requestedDim \<noteq> 1 \<and> inputDim \<noteq> requestedDim) then Inl NotCompatible
      else Inr (max inputDim requestedDim))"

fun expand_dims :: "(int \<times> int) list \<Rightarrow> int list result" where
  "expand_dims [] = Inr []"
| "expand_dims ((i, r) # rest) =
     bind_result (expand_dims rest) (\<lambda>ds. bind_result (expand_dim i r) (\<lambda>d. Inr (d # ds)))"

definition lower_expand :: "'f expand_op \<Rightarrow> 'f val result" where
  "lower_expand op =
     (case (oty (ex_input op), ex_result op) of
        (RankedTensor inShape inElt, RankedTensor outShape outElt) \<Rightarrow>
          if \<not> hasStaticShape inShape \<or> \<not> hasStaticShape outShape \<or>
             \<not> ((isF32 inElt \<or> isSignlessInteger 64 inElt) \<and> outElt = inElt) then Inl BadTypes
          else if 5 < getRank inShape \<or> 5 < getRank outShape then Inl BadRank
          else (case getConstantIntValues (ex_shape op) of
            None \<Rightarrow> Inl NonConstant
          | Some requested \<Rightarrow>
              let outputRank = max (length inShape) (length requested) in
              if length outShape \<noteq> outputRank then Inl BadRank
              else bind_result (expand_dims (zip (aligned_shape outputRank inShape) (aligned_shape outputRank requested)))
                (\<lambda>expectedShape.
                   if expectedShape \<noteq> outShape then Inl ShapeMismatch
                   else
                     let f32 = isF32 inElt;
                         input = (if f32 \<and> getRank inShape = 4 then restoreLogicalRank4 (oty (ex_input op)) (adaptor 0 (ex_input op))
                                  else adaptor 0 (ex_input op));
                         logicalResult = createTFLOperation ''tfl.broadcast_to'' [ex_result op]
                           [input, createI32ShapeConstant outShape] [] 0 in
                     if \<not> f32 \<or> getRank outShape \<noteq> 4 then Inr logicalResult
                     else Inr (toPhysicalRank4 (ex_result op) logicalResult)))
      | _ \<Rightarrow> Inl BadTypes)"

section \<open>Cast\<close>

definition cast_integer :: "elt \<Rightarrow> bool" where
  "cast_integer e \<longleftrightarrow> isInteger 1 e \<or> isUnsignedInteger 32 e \<or> isSignlessInteger 32 e \<or> isSignlessInteger 64 e"

definition lower_cast :: "'f unary_op \<Rightarrow> 'f val result" where
  "lower_cast op =
     (case (oty (un_input op), un_result op) of
        (RankedTensor inShape inElt, RankedTensor outShape outElt) \<Rightarrow>
          let integerToF32 = (cast_integer inElt \<and> isF32 outElt);
              f32ToInteger = (isF32 inElt \<and> (isSignlessInteger 32 outElt \<or> isSignlessInteger 64 outElt));
              integerToInteger = (cast_integer inElt \<and> cast_integer outElt \<and> inElt \<noteq> outElt) in
          if \<not> hasStaticShape inShape \<or> \<not> hasStaticShape outShape \<or> inShape \<noteq> outShape \<or>
             (\<not> integerToF32 \<and> \<not> f32ToInteger \<and> \<not> integerToInteger) then Inl BadTypes
          else
            let input = (if f32ToInteger \<and> getRank inShape = 4
                         then restoreLogicalRank4 (oty (un_input op)) (adaptor 0 (un_input op)) else adaptor 0 (un_input op));
                res = createTFLOperation ''tfl.cast'' [un_result op] [input] [] 0 in
            if \<not> integerToF32 \<or> getRank outShape \<noteq> 4 then Inr res
            else Inr (toPhysicalRank4 (un_result op) res)
      | _ \<Rightarrow> Inl BadTypes)"

section \<open>Mod\<close>

definition mod_zero :: "'f \<Rightarrow> bool \<Rightarrow> 'f val" where
  "mod_zero f0 f32 = (if f32 then createF32ScalarTensorConstant f0 else ConstI (RankedTensor [] I64) [0])"

definition mod_correction :: "'f \<Rightarrow> bool \<Rightarrow> int list \<Rightarrow> elt \<Rightarrow> int list \<Rightarrow> 'f val \<Rightarrow> 'f val \<Rightarrow> 'f val \<Rightarrow> 'f val" where
  "mod_correction f0 f32 calcShape e lhsShape lhs rhs floorMod =
     (let calculationType = RankedTensor calcShape e;
          zero = mod_zero f0 f32;
          boolType = RankedTensor calcShape I1;
          lhsBoolType = RankedTensor lhsShape I1;
          nonzero = createTFLOperation ''tfl.not_equal'' [boolType] [floorMod, zero] [] 0;
          lhsNegative = createTFLOperation ''tfl.less'' [lhsBoolType] [lhs, zero] [] 0;
          remainderNegative = createTFLOperation ''tfl.less'' [boolType] [floorMod, zero] [] 0;
          signDiff = createTFLOperation ''tfl.not_equal'' [boolType] [lhsNegative, remainderNegative] [] 0;
          corrected = createTFLOperation ''tfl.sub'' [calculationType] [floorMod, rhs] [getFusedActivationNone] 0;
          signedRemainder = createTFLOperation ''tfl.select_v2'' [calculationType] [signDiff, corrected, floorMod] [] 0 in
      createTFLOperation ''tfl.select_v2'' [calculationType] [nonzero, signedRemainder, floorMod] [] 0)"

definition lower_mod :: "'f \<Rightarrow> int \<Rightarrow> 'f binary_op \<Rightarrow> 'f val result" where
  "lower_mod f0 fmod op =
     (case (oty (bin_lhs op), oty (bin_rhs op), bin_result op) of
        (RankedTensor lhsShape lhsElt, RankedTensor rhsShape rhsElt, RankedTensor resultShape e) \<Rightarrow>
          if \<not> hasStaticShape lhsShape \<or> \<not> hasStaticShape rhsShape \<or> \<not> hasStaticShape resultShape then Inl BadTypes
          else if (\<not> isF32 e \<and> \<not> isSignlessInteger 64 e) \<or> lhsElt \<noteq> e \<or> rhsElt \<noteq> e \<or>
             5 < getRank lhsShape \<or> 5 < getRank rhsShape \<or> getRank resultShape < 1 \<or> 5 < getRank resultShape \<or>
             (isF32 e \<and> fmod \<noteq> 1) \<or> (isSignlessInteger 64 e \<and> fmod \<noteq> 0 \<and> fmod \<noteq> 1) then Inl BadAttribute
          else bind_result (computeBroadcastShape lhsShape rhsShape) (\<lambda>expectedShape.
            if expectedShape \<noteq> resultShape then Inl ShapeMismatch
            else
              let f32 = isF32 e;
                  restore = (\<lambda>val ty shape. if \<not> f32 \<or> getRank shape \<noteq> 4 then val else restoreLogicalRank4 ty val);
                  lhs = restore (adaptor 0 (bin_lhs op)) (oty (bin_lhs op)) lhsShape;
                  rhs = restore (adaptor 1 (bin_rhs op)) (oty (bin_rhs op)) rhsShape;
                  resultRank = max (getRank lhsShape) (getRank rhsShape);
                  flattened = (resultRank = 5);
                  calcShape = (if flattened then [getNumElements resultShape] else resultShape);
                  lhs' = (if flattened then flattenOperand lhs lhsShape e expectedShape (getNumElements resultShape) else lhs);
                  rhs' = (if flattened then flattenOperand rhs rhsShape e expectedShape (getNumElements resultShape) else rhs);
                  lhsCalcShape = (if flattened then calcShape else lhsShape);
                  floorMod = createTFLOperation ''tfl.floor_mod'' [RankedTensor calcShape e] [lhs', rhs'] [] 0;
                  res = (if fmod = 1 then mod_correction f0 f32 calcShape e lhsCalcShape lhs' rhs' floorMod else floorMod);
                  res' = (if flattened then emitReshape (bin_result op) resultShape res else res) in
              if f32 \<and> resultRank = 4 then Inr (toPhysicalRank4 (bin_result op) res') else Inr res')
      | _ \<Rightarrow> Inl BadTypes)"

section \<open>Evaluation of the shared steps\<close>

definition i32_count :: "nat list \<Rightarrow> bool" where
  "i32_count ds \<longleftrightarrow> i32_dims ds \<and> prod_list ds < 2 ^ 31"

context tfl_broadcast
begin

lemma eval_broadcast_to:
  assumes "wf_tensor t" and "eval sem env v = t" and "bcast_ok (tshape t) R" and "length R \<le> 8" and "i32_dims R"
    and "ty = RankedTensor (map int R) e"
  shows "eval sem env (createTFLOperation ''tfl.broadcast_to'' [ty] [v, createI32ShapeConstant (map int R)] [] 0) = tbroadcast R t"
  using assms broadcast_to [of t R "[ty]"] by (simp add: map_i32_comp_dims conforms_Ranked)

lemma eval_flattenOperand:
  assumes t: "wf_tensor t" "eval sem env v = t" and R: "bcast_ok (tshape t) R" "length R \<le> 8" and i32: "i32_count R"
  shows "eval sem env (flattenOperand v (map int (tshape t)) e (map int R) (int (prod_list R))) =
    treshape [prod_list R] (tbroadcast R t)"
proof -
  let ?v = "if aligned_shape (length (map int R)) (map int (tshape t)) \<noteq> map int R
      then createTFLOperation ''tfl.broadcast_to'' [RankedTensor (map int R) e] [v, createI32ShapeConstant (map int R)] [] 0 else v"
  have N: "i32_dims [prod_list R]" "i32_dims R" using i32 by (simp_all add: i32_count_def i32_dims_def)
  have "\<exists>x. eval sem env ?v = x \<and> wf_tensor x \<and> prod_list (tshape x) = prod_list R \<and> tdata x = tdata (tbroadcast R t)"
  proof (cases "pad_left (length R) (tshape t) = R")
    case True
    moreover from this have "prod_list (tshape t) = prod_list R" by (metis prod_list_pad_left)
    ultimately show ?thesis
      using t tbroadcast_padded [OF t(1) True] by (simp add: aligned_shape_map_int)
  next
    case False
    then have "eval sem env ?v = tbroadcast R t"
      using t R N eval_broadcast_to [OF t R N(2) refl] by (simp add: aligned_shape_map_int inj_map_eq_map)
    then show ?thesis by simp
  qed
  then obtain x where x: "eval sem env ?v = x" "wf_tensor x" "prod_list (tshape x) = prod_list R" "tdata x = tdata (tbroadcast R t)"
    by blast
  have "eval sem env (emitReshape (RankedTensor (map int [prod_list R]) e) (map int [prod_list R]) ?v) = treshape [prod_list R] x"
    using x N by (intro eval_emitReshape) simp_all
  then show ?thesis using x(4) unfolding flattenOperand_def Let_def by (simp add: treshape_def)
qed

end

lemma bcast_flat_operands:
  assumes "R = bcast_shape (tshape t) (tshape u)"
  shows "tmap2 f (treshape [prod_list R] (tbroadcast R t)) (treshape [prod_list R] (tbroadcast R u)) =
    treshape [prod_list R] (tmap2 f t u)"
  using tmap2_flat [of "tbroadcast R t" "tbroadcast R u" "[prod_list R]" f] assms by (simp add: tmap2_tbroadcast)

lemma restore_if_physical4:
  "(if getRank shape \<noteq> 4 \<or> \<not> isF32 e then v else w) = (if physical4 (RankedTensor shape e) then w else v)"
  "(if \<not> isF32 e \<or> getRank shape \<noteq> 4 then v else w) = (if physical4 (RankedTensor shape e) then w else v)"
  "(if isF32 e \<and> getRank shape = 4 then w else v) = (if physical4 (RankedTensor shape e) then w else v)"
  by (auto simp: getRank_def isF32_def)

lemma computeBroadcastShape_length:
  "computeBroadcastShape as bs = Inr ds \<Longrightarrow> length ds = max (length as) (length bs)"
proof -
  have "broadcast_dims ps = Inr xs \<Longrightarrow> length xs = length ps" for ps xs
    by (induction ps arbitrary: xs rule: broadcast_dims.induct) auto
  then show "computeBroadcastShape as bs = Inr ds \<Longrightarrow> length ds = max (length as) (length bs)"
    by (force simp: computeBroadcastShape_def Let_def aligned_shape_def)
qed

text \<open>A kernel on materialised, flattened operands, and its result reshaped: the form of a broadcast of rank 5.\<close>

lemma represents_flat_broadcast:
  assumes sem: "tfl_binary sem nm [] f 4" "tfl_broadcast sem" and c: "bcast_compat (tshape t) (tshape u)" and wf: "wf_tensor t" "wf_tensor u"
    and ev: "eval sem env l = t" "eval sem env r = u" and R5: "length R \<le> 5" and i32: "i32_count R" and R: "R = tshape (tmap2 f t u)"
    and res: "conforms ty (tmap2 f t u)" and np: "\<not> physical4 ty" and ty: "ty = RankedTensor (map int R) e3"
  shows "represents sem env (emitReshape ty (map int R) (createTFLOperation nm [RankedTensor [int (prod_list R)] e3]
      [flattenOperand l (map int (tshape t)) e (map int R) (int (prod_list R)), flattenOperand r (map int (tshape u)) e2 (map int R) (int (prod_list R))] [] 0))
    ty (tmap2 f t u)"
proof -
  let ?N = "prod_list R" and ?x = "treshape [prod_list R] (tbroadcast R t)" and ?y = "treshape [prod_list R] (tbroadcast R u)"
  let ?fl = "flattenOperand l (map int (tshape t)) e (map int R) (int ?N)" and ?fr = "flattenOperand r (map int (tshape u)) e2 (map int R) (int ?N)"
  let ?z = "createTFLOperation nm [RankedTensor [int ?N] e3] [?fl, ?fr] [] 0" and ?v = "\<lambda>z. emitReshape ty (map int R) z"
  have l: "tfl_layout sem" using sem(1) by (rule tfl_binary.axioms(1))
  have x: "eval sem env ?fl = ?x" "eval sem env ?fr = ?y"
    using bcast_ok_shape [OF c] R R5 i32 wf ev by (auto intro!: tfl_broadcast.eval_flattenOperand [OF sem(2)])
  have eq: "tmap2 f ?x ?y = treshape [?N] (tmap2 f t u)" by (rule bcast_flat_operands) (simp add: R)
  have w: "wf_tensor (treshape [?N] (tmap2 f t u))" by (rule wf_treshape) (simp_all add: R)
  have "eval sem env ?z = tmap2 f ?x ?y"
    using w unfolding eq [symmetric]
    by (intro tfl_binary.eval_direct [OF sem(1) x]) (simp_all add: wf_treshape conforms_Ranked)
  then have z: "eval sem env ?z = treshape [?N] (tmap2 f t u)" unfolding eq .
  have "eval sem env (?v ?z) = treshape R (treshape [?N] (tmap2 f t u))"
    using i32 by (intro tfl_layout.eval_emitReshape [OF l w z]) (simp_all add: i32_count_def ty)
  then show ?thesis using np res by (intro represents_logical) (simp_all add: treshape_def tmap2_bget tgen_def R)
qed

section \<open>Correctness of the comparisons\<close>

text \<open>
  C29: when the pattern of Equal, Greater, GreaterOrEqual, Less or LessOrEqual succeeds, the created
  boolean value represents the broadcast comparison of the operands in logical order; broadcasts
  of rank 5 go through materialised, flattened operands.
\<close>

theorem lower_comparison_correct:
  assumes sem: "tfl_binary sem nm [] f 4" "tfl_broadcast sem" and low: "lower_comparison nm op = Inr v"
    and t: "conforms (oty (bin_lhs op)) t" "env 0 = phys (oty (bin_lhs op)) t"
    and u: "conforms (oty (bin_rhs op)) u" "env 1 = phys (oty (bin_rhs op)) u"
    and res: "conforms (bin_result op) (tmap2 f t u)" and i32: "i32_count (tshape (tmap2 f t u))"
  shows "represents sem env v (bin_result op) (tmap2 f t u)"
proof -
  let ?lty = "oty (bin_lhs op)" and ?rty = "oty (bin_rhs op)" and ?ty = "bin_result op" and ?R = "tshape (tmap2 f t u)"
  let ?l = "if physical4 ?lty then restoreLogicalRank4 ?lty (adaptor 0 (bin_lhs op)) else adaptor 0 (bin_lhs op)"
  let ?r = "if physical4 ?rty then restoreLogicalRank4 ?rty (adaptor 1 (bin_rhs op)) else adaptor 1 (bin_rhs op)"
  obtain e e2 e3 where ty: "?lty = RankedTensor (map int (tshape t)) e" "?rty = RankedTensor (map int (tshape u)) e2"
      "?ty = RankedTensor (map int ?R) e3" and wf: "wf_tensor t" "wf_tensor u"
    using t(1) u(1) res by (auto simp: conforms_def)
  have cb: "computeBroadcastShape (map int (tshape t)) (map int (tshape u)) = Inr (map int ?R)" and e: "e2 = e"
    and i1: "isInteger 1 e3" and R5: "length ?R \<le> 5"
    using low by (auto simp: lower_comparison_def ty getRank_def Let_def split: if_splits)
  have c: "bcast_compat (tshape t) (tshape u)" using cb by (rule computeBroadcastShape_correct)
  have np: "\<not> physical4 ?ty" using i1 by (auto simp: ty isInteger_def)
  have l: "tfl_layout sem" using sem(1) by (rule tfl_binary.axioms(1))
  have ev: "eval sem env ?l = t" "eval sem env ?r = u"
    using tfl_layout.eval_logical_operand [OF l t(1), of env "adaptor 0 (bin_lhs op)"]
      tfl_layout.eval_logical_operand [OF l u(1), of env "adaptor 1 (bin_rhs op)"] t(2) u(2) by simp_all
  show ?thesis
  proof (cases "4 < length ?R")
    case True
    let ?N = "prod_list ?R"
    let ?fl = "flattenOperand ?l (map int (tshape t)) e (map int ?R) (int ?N)"
    let ?fr = "flattenOperand ?r (map int (tshape u)) e (map int ?R) (int ?N)"
    let ?z = "createTFLOperation nm [RankedTensor [int ?N] e3] [?fl, ?fr] [] 0"
    have v: "v = emitReshape ?ty (map int ?R) ?z"
      using low True cb by (auto simp: lower_comparison_def ty e isF32_def getRank_def Let_def split: if_splits)
    show ?thesis using represents_flat_broadcast [OF sem c wf ev R5 i32 refl res np ty(3)] v by simp
  next
    case False
    then have v: "v = createTFLOperation nm [?ty] [?l, ?r] [] 0"
      using low cb by (auto simp: lower_comparison_def ty e isF32_def getRank_def Let_def split: if_splits)
    have "trank t \<le> 4" "trank u \<le> 4" using False by auto
    then have "eval sem env v = tmap2 f t u"
      unfolding v using c wf res by (intro tfl_binary.eval_direct [OF sem(1) ev]) simp_all
    then show ?thesis using np res v by (intro represents_logical) simp_all
  qed
qed

definition less_example :: "int binary_op" where
  "less_example = \<lparr>bin_lhs = f32_operand [1, 2, 2, 3], bin_rhs = f32_operand [2, 2, 3],
     bin_result = RankedTensor [1, 2, 2, 3] I1\<rparr>"

theorem lower_comparison_correct_witness:
  "\<exists>v. lower_comparison ''tfl.less'' less_example = Inr v \<and>
     represents reference_sem (\<lambda>i. if i = 0 then ttranspose to_nhwc nchw_example else chw_example) v
       (bin_result less_example) (tmap2 (ref_compare (<)) nchw_example chw_example)"
proof -
  have "\<not> failed (lower_comparison ''tfl.less'' less_example)" by code_simp
  then obtain v where low: "lower_comparison ''tfl.less'' less_example = Inr v" by (rule not_failedE)
  show ?thesis
    using low lower_comparison_correct [OF reference_less.tfl_binary_axioms reference_broadcast.tfl_broadcast_axioms low,
        of nchw_example "\<lambda>i. if i = 0 then ttranspose to_nhwc nchw_example else chw_example" chw_example]
    by (simp add: less_example_def example_simps i32_count_def)
qed

section \<open>Correctness of Where\<close>

text \<open>
  When the Where pattern succeeds, the created value represents the elementwise selection
  between the operands, all three broadcast in logical order.
\<close>

theorem lower_where_correct:
  assumes sem: "tfl_select sem" and low: "lower_where op = Inr v"
    and c: "conforms (oty (wh_condition op)) c" "env 0 = phys (oty (wh_condition op)) c"
    and x: "conforms (oty (wh_x op)) x" "env 1 = phys (oty (wh_x op)) x"
    and y: "conforms (oty (wh_y op)) y" "env 2 = phys (oty (wh_y op)) y"
    and b: "bcast_compat (tshape x) (tshape y)" "bcast_compat (tshape c) (bcast_shape (tshape x) (tshape y))"
    and res: "conforms (wh_result op) (tselect is_true c x y)"
  shows "represents sem env v (wh_result op) (tselect is_true c x y)"
proof -
  let ?xty = "oty (wh_x op)" and ?yty = "oty (wh_y op)" and ?ty = "wh_result op"
  let ?c = "adaptor 0 (wh_condition op)"
  let ?x = "if physical4 ?xty then restoreLogicalRank4 ?xty (adaptor 1 (wh_x op)) else adaptor 1 (wh_x op)"
  let ?y = "if physical4 ?yty then restoreLogicalRank4 ?yty (adaptor 2 (wh_y op)) else adaptor 2 (wh_y op)"
  let ?s = "createTFLOperation ''tfl.select_v2'' [?ty] [?c, ?x, ?y] [] 0"
  obtain ce xe ye e where ty: "oty (wh_condition op) = RankedTensor (map int (tshape c)) ce"
      "?xty = RankedTensor (map int (tshape x)) xe" "?yty = RankedTensor (map int (tshape y)) ye"
      "?ty = RankedTensor (map int (tshape (tselect is_true c x y))) e" and wf: "wf_tensor c" "wf_tensor x" "wf_tensor y"
    using c(1) x(1) y(1) res by (auto simp: conforms_def)
  have ce: "isInteger 1 ce" and el: "xe = e" "ye = e" and r5: "max (trank c) (max (trank x) (trank y)) \<le> 5"
    using low by (auto simp: lower_where_def ty getRank_def Let_def split: if_splits)
  have v: "v = (if physical4 ?ty then toPhysicalRank4 ?ty ?s else ?s)"
    using low by (auto simp: lower_where_def ty el isF32_def getRank_def Let_def split: if_splits)
  have l: "tfl_layout sem" using sem by (rule tfl_select.axioms(1))
  have "\<not> physical4 (oty (wh_condition op))" using ce by (auto simp: ty isInteger_def)
  then have ev: "eval sem env ?c = c" "eval sem env ?x = x" "eval sem env ?y = y"
    using tfl_layout.eval_logical_operand [OF l x(1), of env "adaptor 1 (wh_x op)"]
      tfl_layout.eval_logical_operand [OF l y(1), of env "adaptor 2 (wh_y op)"] c(2) x(2) y(2) by (simp_all add: phys_def)
  have "eval sem env ?s = tselect is_true c x y"
    using tfl_select.select_v2 [OF sem wf b r5, of "[?ty]"] res ev by simp
  then show ?thesis
    unfolding v using res by (intro tfl_layout.represents_physical_result [OF l]) simp_all
qed

definition where_example :: "int where_op" where
  "where_example = \<lparr>wh_condition = \<lparr>oty = RankedTensor [3] I1, oattr = None\<rparr>, wh_x = f32_operand [1, 2, 2, 3],
     wh_y = f32_operand [2, 2, 3], wh_result = RankedTensor [1, 2, 2, 3] F32\<rparr>"

theorem lower_where_correct_witness:
  "\<exists>v. lower_where where_example = Inr v \<and>
     represents reference_sem (\<lambda>i. if i = 0 then Tensor [3] [BV True, BV False, BV True]
         else if i = 1 then ttranspose to_nhwc nchw_example else chw_example) v
       (wh_result where_example) (tselect is_true (Tensor [3] [BV True, BV False, BV True]) nchw_example chw_example)"
proof -
  let ?c = "Tensor [3] [BV True, BV False, BV True] :: int scalar tensor"
  have "\<not> failed (lower_where where_example)" by code_simp
  then obtain v where low: "lower_where where_example = Inr v" by (rule not_failedE)
  have b: "bcast_compat [3] [Suc 0, 2, 2, 3]" "bcast_shape [3] [Suc 0, 2, 2, 3] = [1, 2, 2, 3]" by code_simp+
  then have sh: "tshape (tselect is_true ?c nchw_example chw_example) = [1, 2, 2, 3]" by (simp add: tselect_def)
  show ?thesis
    using low lower_where_correct [OF reference_select.tfl_select_axioms low, of ?c
        "\<lambda>i. if i = 0 then ?c else if i = 1 then ttranspose to_nhwc nchw_example else chw_example" nchw_example chw_example]
    by (simp add: where_example_def example_simps wf_tensor_def [of ?c] b sh)
qed

section \<open>Correctness of Expand\<close>

definition onnx_expand :: "int list \<Rightarrow> 'a tensor \<Rightarrow> 'a tensor" where
  "onnx_expand requested t = tbroadcast (bcast_shape (tshape t) (map nat requested)) t"

lemma expand_dims_correct:
  assumes "expand_dims (zip (map int as) bs) = Inr ds" and "length as = length bs"
  shows "(\<forall>b\<in>set bs. 0 \<le> b) \<and> list_all2 (\<lambda>a b. a = 1 \<or> b = 1 \<or> a = b) as (map nat bs)"
  using assms(2,1)
proof (induction as bs arbitrary: ds rule: list_induct2)
  case (Cons a as b bs)
  then show ?case by (fastforce simp: expand_dim_def split: if_splits)
qed simp

text \<open>
  When the Expand pattern succeeds, the created value represents the two-sided broadcast of the
  operand with the requested shape, which the pattern has checked to be compatible.
\<close>

theorem lower_expand_correct:
  assumes sem: "tfl_broadcast sem" and low: "lower_expand op = Inr v" and req: "getConstantIntValues (ex_shape op) = Some requested"
    and t: "conforms (oty (ex_input op)) t" "env 0 = phys (oty (ex_input op)) t"
    and res: "conforms (ex_result op) (onnx_expand requested t)" and i32: "i32_dims (tshape (onnx_expand requested t))"
  shows "represents sem env v (ex_result op) (onnx_expand requested t)"
proof -
  let ?ity = "oty (ex_input op)" and ?ty = "ex_result op" and ?R = "bcast_shape (tshape t) (map nat requested)"
  let ?x = "if physical4 ?ity then restoreLogicalRank4 ?ity (adaptor 0 (ex_input op)) else adaptor 0 (ex_input op)"
  let ?b = "createTFLOperation ''tfl.broadcast_to'' [?ty] [?x, createI32ShapeConstant (map int ?R)] [] 0"
  obtain e e' where ty: "?ity = RankedTensor (map int (tshape t)) e" "?ty = RankedTensor (map int ?R) e'" and wf: "wf_tensor t"
    using t(1) res by (auto simp: conforms_def onnx_expand_def)
  let ?n = "max (trank t) (length requested)"
  obtain ds where ds: "expand_dims (zip (map int (pad_left ?n (tshape t))) (aligned_shape ?n requested)) = Inr ds"
    and e: "e' = e" and r5: "length ?R \<le> 5"
    using low req by (auto simp: lower_expand_def ty getRank_def Let_def aligned_shape_map_int split: if_splits)
  have v: "v = (if physical4 ?ty then toPhysicalRank4 ?ty ?b else ?b)"
    using low req by (auto simp: lower_expand_def ty e isF32_def getRank_def Let_def split: if_splits)
  have "map nat (aligned_shape ?n requested) = pad_left ?n (map nat requested)"
    by (simp add: aligned_shape_def pad_left_def)
  then have c: "bcast_compat (tshape t) (map nat requested)"
    using expand_dims_correct [OF ds] by (simp add: aligned_shape_def bcast_compat_def Let_def)
  have l: "tfl_layout sem" using sem by (rule tfl_broadcast.axioms(1))
  have x: "eval sem env ?x = t"
    using tfl_layout.eval_logical_operand [OF l t(1), of env "adaptor 0 (ex_input op)"] t(2) by simp
  have "eval sem env ?b = onnx_expand requested t"
    unfolding onnx_expand_def using i32 r5 bcast_ok_shape(1) [OF c]
    by (intro tfl_broadcast.eval_broadcast_to [OF sem wf x]) (simp_all add: ty(2) onnx_expand_def)
  then show ?thesis
    unfolding v using res by (intro tfl_layout.represents_physical_result [OF l]) simp_all
qed

definition expand_example :: "int expand_op" where
  "expand_example = \<lparr>ex_input = f32_operand [2, 1, 3], ex_shape = \<lparr>oty = RankedTensor [4] I64, oattr = Some (IntElements I64 [1, 1, 2, 1])\<rparr>,
     ex_result = RankedTensor [1, 2, 2, 3] F32\<rparr>"

theorem lower_expand_correct_witness:
  "\<exists>v. lower_expand expand_example = Inr v \<and>
     represents reference_sem (\<lambda>_. Tensor [2, 1, 3] (map FV [1..6])) v
       (ex_result expand_example) (onnx_expand [1, 1, 2, 1] (Tensor [2, 1, 3] (map FV [1..6])))"
proof -
  let ?t = "Tensor [2, 1, 3] (map FV [1..6]) :: int scalar tensor"
  have "\<not> failed (lower_expand expand_example)" by code_simp
  then obtain v where low: "lower_expand expand_example = Inr v" by (rule not_failedE)
  have rq: "getConstantIntValues (ex_shape expand_example) = Some [1, 1, 2, 1]" by code_simp
  have sh: "tshape (onnx_expand [1, 1, 2, 1] ?t) = [1, 2, 2, 3]" by code_simp
  then have "conforms (ex_result expand_example) (onnx_expand [1, 1, 2, 1] ?t)" "i32_dims (tshape (onnx_expand [1, 1, 2, 1] ?t))"
    by (simp_all add: expand_example_def conforms_Ranked onnx_expand_def i32_dims_def)
  then show ?thesis
    using low lower_expand_correct [OF reference_broadcast.tfl_broadcast_axioms low rq, of ?t "\<lambda>_. ?t"]
    by (simp add: expand_example_def conforms_Ranked phys_def wf_tensor_def)
qed

section \<open>Correctness of Cast\<close>

text \<open>
  When the Cast pattern succeeds, the created value represents the elementwise conversion to
  the result's element type; casts from and to f32 cross the NHWC boundary at rank 4.
\<close>

theorem lower_cast_correct:
  assumes sem: "tfl_cast sem conv" and low: "lower_cast op = Inr v" and ty: "un_result op = RankedTensor sh e"
    and t: "conforms (oty (un_input op)) t" "env 0 = phys (oty (un_input op)) t"
  shows "represents sem env v (un_result op) (tmap (conv e) t)"
proof -
  let ?ity = "oty (un_input op)" and ?ty = "un_result op"
  let ?x = "if physical4 ?ity then restoreLogicalRank4 ?ity (adaptor 0 (un_input op)) else adaptor 0 (un_input op)"
  let ?s = "createTFLOperation ''tfl.cast'' [?ty] [?x] [] 0"
  obtain ie where ity: "?ity = RankedTensor (map int (tshape t)) ie" and wf: "wf_tensor t" using t(1) by (auto simp: conforms_def)
  have sh: "sh = map int (tshape t)" using low by (auto simp: lower_cast_def ty ity Let_def split: if_splits)
  have v: "v = (if physical4 ?ty then toPhysicalRank4 ?ty ?s else ?s)"
    using low
    by (auto simp: lower_cast_def ty ity sh getRank_def Let_def cast_integer_def elt_defs split: if_splits elt.splits)
  have l: "tfl_layout sem" using sem by (rule tfl_cast.axioms(1))
  have x: "eval sem env ?x = t"
    using tfl_layout.eval_logical_operand [OF l t(1), of env "adaptor 0 (un_input op)"] t(2) by simp
  have c: "conforms ?ty (tmap (conv e) t)" using wf by (simp add: ty sh conforms_Ranked)
  then have "eval sem env ?s = tmap (conv e) t" using tfl_cast.cast [OF sem wf, of sh e] x by (simp add: ty)
  then show ?thesis
    unfolding v using c by (intro tfl_layout.represents_physical_result [OF l]) simp_all
qed

definition cast_example :: "int unary_op" where
  "cast_example = \<lparr>un_input = f32_operand [1, 2, 2, 3], un_result = RankedTensor [1, 2, 2, 3] I64\<rparr>"

theorem lower_cast_correct_witness:
  "\<exists>v. lower_cast cast_example = Inr v \<and>
     represents reference_sem (\<lambda>_. ttranspose to_nhwc nchw_example) v (un_result cast_example) (tmap (ref_conv I64) nchw_example)"
proof -
  have "\<not> failed (lower_cast cast_example)" by code_simp
  then obtain v where low: "lower_cast cast_example = Inr v" by (rule not_failedE)
  show ?thesis
    using low lower_cast_correct [OF reference_cast.tfl_cast_axioms low, of "[1, 2, 2, 3]" I64 nchw_example "\<lambda>_. ttranspose to_nhwc nchw_example"]
    by (simp add: cast_example_def example_simps)
qed

section \<open>Correctness of Mod\<close>

definition mod_scalar ::
  "('a \<Rightarrow> 'a \<Rightarrow> 'a) \<Rightarrow> ('a \<Rightarrow> 'a \<Rightarrow> 'b) \<Rightarrow> ('b \<Rightarrow> 'b \<Rightarrow> 'b) \<Rightarrow> ('a \<Rightarrow> 'a \<Rightarrow> 'b) \<Rightarrow> ('a \<Rightarrow> 'a \<Rightarrow> 'a) \<Rightarrow>
   ('b \<Rightarrow> bool) \<Rightarrow> 'a \<Rightarrow> bool \<Rightarrow> 'a \<Rightarrow> 'a \<Rightarrow> 'a" where
  "mod_scalar fm ne neb lt sub true zero truncated a b =
     (let r = fm a b in
      if truncated \<and> true (ne r zero) then if true (neb (lt a zero) (lt r zero)) then sub r b else r else r)"

lemma tmap_tmap2: "tmap g (tmap2 f s t) = tmap2 (\<lambda>a b. g (f a b)) s t"
  by (intro tensor_eqI) (simp_all add: tnth_tmap tmap2_bget)

context tfl_mod
begin

lemma eval_select_same:
  fixes l r :: "'f scalar tensor"
  assumes "eval sem env c = tmap2 f l r" "eval sem env x = tmap2 f' l r" "eval sem env y = tmap2 f'' l r"
    and "wf_tensor l" "wf_tensor r" "bcast_compat (tshape l) (tshape r)" "trank l \<le> 4" "trank r \<le> 4"
    and "ty = RankedTensor (map int (bcast_shape (tshape l) (tshape r))) e"
  shows "eval sem env (createTFLOperation ''tfl.select_v2'' [ty] [c, x, y] [] 0) =
    tmap2 (\<lambda>a b. if is_true (f a b) then f' a b else f'' a b) l r"
  using assms sel.select_v2 [of "tmap2 f l r" "tmap2 f' l r" "tmap2 f'' l r" "[ty]"] tmap2_nest(4) [OF assms(4-6), of is_true f f' f'']
  by (simp add: conforms_Ranked)

lemma eval_mod_correction:
  assumes l: "eval sem env lhs = l" "wf_tensor l" "trank l \<le> 4" and r: "eval sem env rhs = r" "wf_tensor r" "trank r \<le> 4"
    and c: "bcast_compat (tshape l) (tshape r)" and fmv: "eval sem env floorMod = tmap2 fmf l r"
    and R: "R = bcast_shape (tshape l) (tshape r)"
  shows "eval sem env (mod_correction f0 f32 (map int R) e (map int (tshape l)) lhs rhs floorMod) =
    tmap2 (mod_scalar fmf nef nef ltf subf is_true (if f32 then FV f0 else IV 0) True) l r"
proof -
  let ?z = "if f32 then FV f0 else IV 0" and ?zero = "mod_zero f0 f32" and ?bt = "RankedTensor (map int R) I1"
    and ?ct = "RankedTensor (map int R) e"
  let ?nz = "createTFLOperation ''tfl.not_equal'' [?bt] [floorMod, ?zero] [] 0"
    and ?ln = "createTFLOperation ''tfl.less'' [RankedTensor (map int (tshape l)) I1] [lhs, ?zero] [] 0"
    and ?rn = "createTFLOperation ''tfl.less'' [?bt] [floorMod, ?zero] [] 0"
  let ?sd = "createTFLOperation ''tfl.not_equal'' [?bt] [?ln, ?rn] [] 0"
    and ?co = "createTFLOperation ''tfl.sub'' [?ct] [floorMod, rhs] [getFusedActivationNone] 0"
  let ?sr = "createTFLOperation ''tfl.select_v2'' [?ct] [?sd, ?co, floorMod] [] 0"
  have z: "eval sem env ?zero = Tensor [] [?z]" by (simp add: mod_zero_def)
  note ab = bcast_shape_absorb [OF c]
  have nz: "eval sem env ?nz = tmap2 (\<lambda>a b. nef (fmf a b) ?z) l r"
    using ne.eval_scalar_right [OF _ fmv z, of ?bt] l r by (simp add: R conforms_Ranked tmap_tmap2 del: eval_createTFLOperation)
  have rn: "eval sem env ?rn = tmap2 (\<lambda>a b. ltf (fmf a b) ?z) l r"
    using lt.eval_scalar_right [OF _ fmv z, of ?bt] l r by (simp add: R conforms_Ranked tmap_tmap2 del: eval_createTFLOperation)
  have ln: "eval sem env ?ln = tmap (\<lambda>a. ltf a ?z) l"
    using lt.eval_scalar_right [OF l(2,1) z] l by (simp add: conforms_Ranked del: eval_createTFLOperation)
  have sd: "eval sem env ?sd = tmap2 (\<lambda>a b. nef (ltf a ?z) (ltf (fmf a b) ?z)) l r"
    using ne.eval_direct [OF ln rn, of ?bt] l r ab tmap2_nest(1) [OF l(2) r(2) c, of nef "\<lambda>a. ltf a ?z" "\<lambda>a b. ltf (fmf a b) ?z"]
    by (simp add: R conforms_Ranked del: eval_createTFLOperation)
  have co: "eval sem env ?co = tmap2 (\<lambda>a b. subf (fmf a b) b) l r"
    using sub.eval_direct [OF fmv r(1), of ?ct] l r ab tmap2_nest(2) [OF l(2) r(2) c, of subf fmf]
    by (simp add: R conforms_Ranked del: eval_createTFLOperation)
  have sr: "eval sem env ?sr = tmap2 (\<lambda>a b. if is_true (nef (ltf a ?z) (ltf (fmf a b) ?z)) then subf (fmf a b) b else fmf a b) l r"
    using eval_select_same [OF sd co fmv l(2) r(2) c l(3) r(3)] by (simp add: R del: eval_createTFLOperation)
  show ?thesis
    unfolding mod_correction_def Let_def mod_scalar_def [abs_def]
    using eval_select_same [OF nz sr fmv l(2) r(2) c l(3) r(3)] by (simp add: R del: eval_createTFLOperation)
qed

end

lemma mod_scalar_floor: "mod_scalar fm ne neb lt sub true zero False = fm"
  by (simp add: mod_scalar_def fun_eq_iff)

context tfl_mod
begin

lemma eval_mod_core:
  fixes e :: elt
  assumes l: "eval sem env lhs = l" "wf_tensor l" "trank l \<le> 4" and r: "eval sem env rhs = r" "wf_tensor r" "trank r \<le> 4"
    and c: "bcast_compat (tshape l) (tshape r)" and R: "R = bcast_shape (tshape l) (tshape r)"
  defines "floorMod \<equiv> createTFLOperation ''tfl.floor_mod'' [RankedTensor (map int R) e] [lhs, rhs] [] 0"
  shows "eval sem env (if fmod = 1 then mod_correction f0 f32 (map int R) e (map int (tshape l)) lhs rhs floorMod else floorMod) =
    tmap2 (mod_scalar fmf nef nef ltf subf is_true (if f32 then FV f0 else IV 0) (fmod = 1)) l r"
proof -
  have f: "eval sem env floorMod = tmap2 fmf l r"
    unfolding floorMod_def using l r c R by (intro fm.eval_direct [OF l(1) r(1)]) (simp_all add: conforms_Ranked)
  show ?thesis
    using eval_mod_correction [OF l r c f R] f by (simp add: mod_scalar_floor del: eval_createTFLOperation)
qed

end

text \<open>
  When the Mod pattern succeeds, the created value represents the broadcast remainder: the
  floored remainder of the kernel for \<^verbatim>\<open>fmod = 0\<close>, and for \<^verbatim>\<open>fmod = 1\<close> the remainder corrected by
  the comparison of signs; rank-5 results go through materialised, flattened operands.
\<close>

theorem lower_mod_correct:
  assumes sem: "tfl_mod sem fmf nef ltf subf" and low: "lower_mod f0 fmod op = Inr v" and ty: "bin_result op = RankedTensor sh e"
    and t: "conforms (oty (bin_lhs op)) t" "env 0 = phys (oty (bin_lhs op)) t"
    and u: "conforms (oty (bin_rhs op)) u" "env 1 = phys (oty (bin_rhs op)) u"
  defines "g \<equiv> mod_scalar fmf nef nef ltf subf is_true (if e = F32 then FV f0 else IV 0) (fmod = 1)"
  assumes res: "conforms (bin_result op) (tmap2 g t u)" and i32: "i32_count (tshape (tmap2 g t u))"
  shows "represents sem env v (bin_result op) (tmap2 g t u)"
proof -
  let ?lty = "oty (bin_lhs op)" and ?rty = "oty (bin_rhs op)" and ?ty = "bin_result op" and ?R = "bcast_shape (tshape t) (tshape u)"
  let ?l = "if physical4 ?lty then restoreLogicalRank4 ?lty (adaptor 0 (bin_lhs op)) else adaptor 0 (bin_lhs op)"
  let ?r = "if physical4 ?rty then restoreLogicalRank4 ?rty (adaptor 1 (bin_rhs op)) else adaptor 1 (bin_rhs op)"
  have R: "sh = map int ?R" using res by (simp add: ty conforms_Ranked)
  obtain e1 e2 where ity: "?lty = RankedTensor (map int (tshape t)) e1" "?rty = RankedTensor (map int (tshape u)) e2"
      and wf: "wf_tensor t" "wf_tensor u"
    using t(1) u(1) by (auto simp: conforms_def)
  have cb: "computeBroadcastShape (map int (tshape t)) (map int (tshape u)) = Inr (map int ?R)" and el: "e1 = e" "e2 = e"
    and R5: "trank t \<le> 5" "trank u \<le> 5"
    using low by (auto simp: lower_mod_def ty ity R getRank_def Let_def split: if_splits)
  have c: "bcast_compat (tshape t) (tshape u)" using cb by (rule computeBroadcastShape_correct)
  have l: "tfl_layout sem" using sem by (simp add: tfl_mod_def tfl_select_def)
  have bc: "tfl_broadcast sem" using sem by (simp add: tfl_mod_def)
  have ev: "eval sem env ?l = t" "eval sem env ?r = u"
    using tfl_layout.eval_logical_operand [OF l t(1), of env "adaptor 0 (bin_lhs op)"]
      tfl_layout.eval_logical_operand [OF l u(1), of env "adaptor 1 (bin_rhs op)"] t(2) u(2) by simp_all
  show ?thesis
  proof (cases "max (trank t) (trank u) = 5")
    case True
    let ?N = "prod_list ?R"
    let ?fl = "flattenOperand ?l (map int (tshape t)) e (map int ?R) (int ?N)"
    let ?fr = "flattenOperand ?r (map int (tshape u)) e (map int ?R) (int ?N)"
    let ?fm = "createTFLOperation ''tfl.floor_mod'' [RankedTensor (map int [?N]) e] [?fl, ?fr] [] 0"
    let ?z = "if fmod = 1 then mod_correction f0 (e = F32) (map int [?N]) e (map int [?N]) ?fl ?fr ?fm else ?fm"
    have np: "\<not> physical4 ?ty" using True by (simp add: ty R)
    have v: "v = emitReshape ?ty (map int ?R) ?z"
      using low True cb by (auto simp: lower_mod_def ty ity el R isF32_def getRank_def Let_def split: if_splits)
    let ?x = "treshape [?N] (tbroadcast ?R t)" and ?y = "treshape [?N] (tbroadcast ?R u)"
    have x: "eval sem env ?fl = ?x" "eval sem env ?fr = ?y"
      using bcast_ok_shape [OF c] R5 i32 wf ev by (auto intro!: tfl_broadcast.eval_flattenOperand [OF bc])
    have eq: "tmap2 g ?x ?y = treshape [?N] (tmap2 g t u)" by (rule bcast_flat_operands) simp
    have w: "wf_tensor (treshape [?N] (tmap2 g t u))" by (rule wf_treshape) simp_all
    have "eval sem env (if fmod = 1 then mod_correction f0 (e = F32) (map int [?N]) e (map int (tshape ?x)) ?fl ?fr ?fm else ?fm) =
        tmap2 g ?x ?y"
      unfolding g_def by (rule tfl_mod.eval_mod_core [OF sem x(1) _ _ x(2)]) (simp_all add: wf_treshape)
    then have "eval sem env ?z = tmap2 g ?x ?y" unfolding tshape_treshape .
    then have z: "eval sem env ?z = treshape [?N] (tmap2 g t u)" unfolding eq .
    have "eval sem env v = treshape ?R (treshape [?N] (tmap2 g t u))"
      unfolding v using i32 by (intro tfl_layout.eval_emitReshape [OF l w z]) (simp_all add: i32_count_def ty R)
    then show ?thesis using np res v by (intro represents_logical) (simp_all add: treshape_def tmap2_bget tgen_def)
  next
    case False
    then have r4: "trank t \<le> 4" "trank u \<le> 4" using R5 by (auto simp: max_def split: if_splits)
    let ?fm = "createTFLOperation ''tfl.floor_mod'' [?ty] [?l, ?r] [] 0"
    let ?z = "if fmod = 1 then mod_correction f0 (e = F32) (map int ?R) e (map int (tshape t)) ?l ?r ?fm else ?fm"
    have v: "v = (if physical4 ?ty then toPhysicalRank4 ?ty ?z else ?z)"
      using low cb False by (auto simp: lower_mod_def ty ity el R isF32_def getRank_def Let_def split: if_splits)
    have z: "eval sem env ?z = tmap2 g t u"
      using tfl_mod.eval_mod_core [OF sem ev(1) wf(1) r4(1) ev(2) wf(2) r4(2) c refl, where e = e and fmod = fmod and ?f0.0 = f0 and ?f32.0 = "e = F32"] unfolding g_def ty R .
    have "vtype ?z = ?ty" by (simp add: mod_correction_def Let_def ty R)
    then show ?thesis
      unfolding v using res z by (intro tfl_layout.represents_physical_result [OF l])
  qed
qed

definition mod_example :: "int binary_op" where
  "mod_example = \<lparr>bin_lhs = f32_operand [1, 2, 2, 3], bin_rhs = f32_operand [2, 2, 3], bin_result = RankedTensor [1, 2, 2, 3] F32\<rparr>"

theorem lower_mod_correct_witness:
  "\<exists>v. lower_mod 0 1 mod_example = Inr v \<and>
     represents reference_sem (\<lambda>i. if i = 0 then ttranspose to_nhwc nchw_example else chw_example) v (bin_result mod_example)
       (tmap2 (mod_scalar (ref_arith (mod)) (ref_compare (\<noteq>)) (ref_compare (\<noteq>)) (ref_compare (<)) (ref_arith (-)) is_true (FV 0) True)
          nchw_example chw_example)"
proof -
  have "\<not> failed (lower_mod 0 1 mod_example)" by code_simp
  then obtain v where low: "lower_mod 0 1 mod_example = Inr v" by (rule not_failedE)
  show ?thesis
    using low lower_mod_correct [OF reference_mod.tfl_mod_axioms low, of "[1, 2, 2, 3]" F32 nchw_example
        "\<lambda>i. if i = 0 then ttranspose to_nhwc nchw_example else chw_example" chw_example]
    by (simp add: mod_example_def example_simps i32_count_def)
qed

text \<open>
  The remainder that ONNX defines on integers: truncated like that of C++ for \<^verbatim>\<open>fmod = 1\<close>, floored otherwise.
\<close>

definition onnx_mod :: "int \<Rightarrow> 'f scalar \<Rightarrow> 'f scalar \<Rightarrow> 'f scalar" where
  "onnx_mod fmod x y = (case (x, y) of (IV a, IV b) \<Rightarrow> IV (if fmod = 1 then cmod a b else a - b * (a div b)) | _ \<Rightarrow> x)"

text \<open>A dividend and a divisor of \<open>w\<close> bits whose remainder C++ defines.\<close>

definition divisible :: "nat \<Rightarrow> int \<Rightarrow> int \<Rightarrow> bool" where
  "divisible w a b \<longleftrightarrow> a \<in> {- (2 ^ (w - 1))..<2 ^ (w - 1)} \<and> b \<in> {- (2 ^ (w - 1))..<2 ^ (w - 1)} \<and> b \<noteq> 0 \<and> (a = - (2 ^ (w - 1)) \<longrightarrow> b \<noteq> - 1)"

text \<open>
  What the kernels do with integers of \<open>w\<close> bits: the floored remainder, comparisons, and the difference wherever it fits.
\<close>

definition int_kernels ::
  "nat \<Rightarrow> ('f scalar \<Rightarrow> 'f scalar \<Rightarrow> 'f scalar) \<Rightarrow> ('f scalar \<Rightarrow> 'f scalar \<Rightarrow> 'f scalar) \<Rightarrow>
   ('f scalar \<Rightarrow> 'f scalar \<Rightarrow> 'f scalar) \<Rightarrow> ('f scalar \<Rightarrow> 'f scalar \<Rightarrow> 'f scalar) \<Rightarrow> bool" where
  "int_kernels w fmf nef ltf subf \<longleftrightarrow>
     (\<forall>a b. divisible w a b \<longrightarrow> fmf (IV a) (IV b) = IV (a mod b)) \<and>
     (\<forall>a b. nef (IV a) (IV b) = BV (a \<noteq> b)) \<and> (\<forall>p q. nef (BV p) (BV q) = BV (p \<noteq> q)) \<and>
     (\<forall>a b. ltf (IV a) (IV b) = BV (a < b)) \<and>
     (\<forall>a b. a - b \<in> {- (2 ^ (w - 1))..<2 ^ (w - 1)} \<longrightarrow> subf (IV a) (IV b) = IV (a - b))"

lemma cmod_sgn: "cmod a b = sgn a * (\<bar>a\<bar> mod \<bar>b\<bar>)"
proof -
  have "b * (sgn a * sgn b * (\<bar>a\<bar> div \<bar>b\<bar>)) = sgn a * (\<bar>b\<bar> * (\<bar>a\<bar> div \<bar>b\<bar>))"
    by (simp add: abs_sgn ac_simps)
  moreover have "a = sgn a * \<bar>a\<bar>" by (simp add: sgn_mult_abs)
  ultimately show ?thesis
    unfolding cmod_def cdiv_def by (metis minus_mult_div_eq_mod right_diff_distrib)
qed

text \<open>The truncated remainder is the floored one, less the divisor when it is nonzero and of the other sign.\<close>

lemma cmod_floor:
  assumes "b \<noteq> 0"
  shows "cmod a b = (if a mod b \<noteq> 0 \<and> (a < 0) \<noteq> (a mod b < 0) then a mod b - b else a mod b)"
proof -
  define m where "m = \<bar>a\<bar> mod \<bar>b\<bar>"
  have m: "0 \<le> m" "m < \<bar>b\<bar>" using assms by (simp_all add: m_def)
  have r: "a mod b = (if 0 \<le> a then (if 0 < b \<or> m = 0 then m else m + b)
      else if 0 < b then (if m = 0 then 0 else b - m) else - m)"
    using assms zmod_zminus1_eq_if [of "\<bar>a\<bar>" "\<bar>b\<bar>"] zmod_zminus2_eq_if [of "\<bar>a\<bar>" "\<bar>b\<bar>"] zmod_zminus1_eq_if [of "\<bar>a\<bar>" b]
    by (auto simp: m_def)
  have "m = 0" if "a = 0" using that by (simp add: m_def)
  then show ?thesis using assms m r by (auto simp: cmod_sgn r sgn_if simp flip: m_def)
qed

lemma cmod_less: "b \<noteq> 0 \<Longrightarrow> \<bar>cmod a b\<bar> < \<bar>b\<bar>"
  by (auto simp: cmod_sgn abs_mult sgn_if)

lemma mod_scalar_ints:
  assumes k: "int_kernels w fmf nef ltf subf" and ab: "divisible w a b"
  shows "mod_scalar fmf nef nef ltf subf is_true (IV 0) (fmod = 1) (IV a) (IV b) = onnx_mod fmod (IV a) (IV b)"
proof -
  have b: "b \<noteq> 0" "\<bar>b\<bar> \<le> 2 ^ (w - 1)" using ab by (auto simp: divisible_def)
  have fits: "a mod b - b \<in> {- (2 ^ (w - 1))..<2 ^ (w - 1)}" if "a mod b \<noteq> 0" "(a < 0) \<noteq> (a mod b < 0)"
    using cmod_less [OF b(1), of a] that b(2) unfolding cmod_floor [OF b(1)] by auto
  show ?thesis
    using k ab fits by (auto simp: int_kernels_def mod_scalar_def onnx_mod_def Let_def is_true_def cmod_floor [OF b(1)] minus_mult_div_eq_mod)
qed

lemma bget_element:
  assumes "wf_tensor t" "valid_ix (tshape t) (bcast_ix (tshape t) is)" shows "bget t is \<in> set (tdata t)"
  using assms ravel_less [of "tshape t" "bcast_ix (tshape t) is"] by (simp add: bget_def tnth_def wf_tensor_def)

lemma tmap2_cong_elements:
  assumes "wf_tensor s" "wf_tensor t" "bcast_compat (tshape s) (tshape t)" "\<And>x y. x \<in> set (tdata s) \<Longrightarrow> y \<in> set (tdata t) \<Longrightarrow> f x y = g x y"
  shows "tmap2 f s t = tmap2 g s t"
  unfolding tmap2_bget using bcast_read_valid [OF assms(3)] by (intro tgen_cong refl assms(4) bget_element assms(1,2))

text \<open>
  C33: when the Mod pattern succeeds on 64-bit integers, the created value represents the ONNX operator: every element
  is the remainder that C++ division leaves for \<^verbatim>\<open>fmod = 1\<close> and the floored remainder for \<^verbatim>\<open>fmod = 0\<close>. No divisor is zero,
  and the least integer is not divided by minus one; the correction of the signs stays in the range of \<^verbatim>\<open>int64_t\<close>, where
  the kernel for differences is exact.
\<close>

theorem lower_mod_integers:
  assumes sem: "tfl_mod sem fmf nef ltf subf" "int_kernels 64 fmf nef ltf subf" and low: "lower_mod f0 fmod op = Inr v"
    and ty: "bin_result op = RankedTensor sh I64"
    and t: "conforms (oty (bin_lhs op)) t" "env 0 = phys (oty (bin_lhs op)) t"
    and u: "conforms (oty (bin_rhs op)) u" "env 1 = phys (oty (bin_rhs op)) u"
    and ints: "\<forall>x\<in>set (tdata t). \<forall>y\<in>set (tdata u). \<exists>a b. x = IV a \<and> y = IV b \<and> divisible 64 a b"
    and res: "conforms (bin_result op) (tmap2 (onnx_mod fmod) t u)" and i32: "i32_count (tshape (tmap2 (onnx_mod fmod) t u))"
  shows "represents sem env v (bin_result op) (tmap2 (onnx_mod fmod) t u)"
proof -
  let ?g = "mod_scalar fmf nef nef ltf subf is_true (if I64 = F32 then FV f0 else IV 0) (fmod = 1)"
  have wf: "wf_tensor t" "wf_tensor u" using t(1) u(1) by (auto simp: conforms_def)
  have "computeBroadcastShape (map int (tshape t)) (map int (tshape u)) = Inr (map int (bcast_shape (tshape t) (tshape u)))"
    using low res t(1) u(1) by (auto simp: lower_mod_def ty conforms_def getRank_def Let_def split: if_splits)
  then have c: "bcast_compat (tshape t) (tshape u)" by (rule computeBroadcastShape_correct)
  have "?g x y = onnx_mod fmod x y" if "x \<in> set (tdata t)" "y \<in> set (tdata u)" for x y
    using ints that mod_scalar_ints [OF sem(2)] by (fastforce simp: elt_defs)
  then have "tmap2 (onnx_mod fmod) t u = tmap2 ?g t u" by (intro tmap2_cong_elements [OF wf c]) simp
  then show ?thesis using lower_mod_correct [OF sem(1) low ty t u] res i32 by simp
qed

definition mod_integer_example :: "int binary_op" where
  "mod_integer_example = \<lparr>bin_lhs = \<lparr>oty = RankedTensor [2, 2] I64, oattr = None\<rparr>, bin_rhs = \<lparr>oty = RankedTensor [2] I64, oattr = None\<rparr>,
     bin_result = RankedTensor [2, 2] I64\<rparr>"

lemma reference_int_kernels: "int_kernels w (ref_arith (mod)) (ref_compare (\<noteq>)) (ref_compare (<)) (ref_arith (-))"
  by (simp add: int_kernels_def ref_arith_def ref_compare_def int_of_def)

theorem lower_mod_integers_witness:
  "\<exists>v. lower_mod 0 1 mod_integer_example = Inr v \<and>
     represents reference_sem (\<lambda>i. if i = 0 then Tensor [2, 2] (map IV [- 7, 7, 7, - 8]) else Tensor [2] (map IV [3, - 3])) v
       (RankedTensor [2, 2] I64) (Tensor [2, 2] (map IV [- 1, 1, 1, - 2]))"
proof -
  let ?t = "Tensor [2, 2] (map IV [- 7, 7, 7, - 8]) :: int scalar tensor" and ?u = "Tensor [2] (map IV [3, - 3]) :: int scalar tensor"
  let ?env = "\<lambda>i. if i = (0 :: nat) then ?t else ?u"
  have "\<not> failed (lower_mod (0 :: int) 1 mod_integer_example)" by code_simp
  then obtain v where low: "lower_mod (0 :: int) 1 mod_integer_example = Inr v" by (rule not_failedE)
  have ty: "bin_result mod_integer_example = RankedTensor [2, 2] I64" "oty (bin_lhs mod_integer_example) = RankedTensor [2, 2] I64"
    "oty (bin_rhs mod_integer_example) = RankedTensor [2] I64" by (simp_all add: mod_integer_example_def)
  have r: "tmap2 (onnx_mod 1) ?t ?u = Tensor [2, 2] (map IV [- 1, 1, 1, - 2])" by code_simp
  have "represents reference_sem ?env v (bin_result mod_integer_example) (tmap2 (onnx_mod 1) ?t ?u)"
    by (rule lower_mod_integers [OF reference_mod.tfl_mod_axioms reference_int_kernels low ty(1)])
      (simp_all only: ty r, simp_all add: conforms_Ranked wf_tensor_def phys_def elt_defs divisible_def i32_count_def i32_dims_def)
  then show ?thesis using low unfolding ty r by blast
qed

end
