(* ===== verification/Lower_Tile.thy ===== *)
theory Lower_Tile
  imports TFL_Reference
begin

text \<open>
  Model of \<^verbatim>\<open>Tensor/Tile.cpp\<close>. Above rank 5 axes that have size 1 before and after the operation
  are reshaped away, first ones first, until five are left.
\<close>

record 'f tile_op =
  tile_input :: "'f operand"
  tile_repeats :: "'f operand"
  tile_result :: mtype

definition tile_axis_ok :: "int \<times> int \<times> int \<Rightarrow> bool" where
  "tile_axis_ok = (\<lambda>(inputDimension, resultDimension, rep).
     \<not> (rep \<le> 0 \<or> int32_max < rep \<or> inputDimension \<le> 0 \<or> cdiv int64_max rep < inputDimension \<or>
        inputDimension * rep \<noteq> resultDimension))"

fun tile_dropped :: "(int \<times> int \<times> int) list \<Rightarrow> int \<Rightarrow> bool list" where
  "tile_dropped [] axesToDrop = []"
| "tile_dropped ((inputDim, resultDim, rep) # axes) axesToDrop =
     (let inertSingleton = (inputDim = 1 \<and> resultDim = 1 \<and> rep = 1) in
      if inertSingleton \<and> 0 < axesToDrop then True # tile_dropped axes (axesToDrop - 1)
      else False # tile_dropped axes axesToDrop)"

definition emit_high_rank_tile :: "int list \<Rightarrow> int list \<Rightarrow> int list \<Rightarrow> mtype \<Rightarrow> 'f val \<Rightarrow> 'f val result" where
  "emit_high_rank_tile inShape outShape repeats sourceResultType input =
     (let dropped = tile_dropped (zip inShape (zip outShape repeats)) (getRank inShape - 5);
          reducedInputShape = not_dropped dropped inShape;
          reducedResultShape = not_dropped dropped outShape;
          reducedRepeats = not_dropped dropped repeats in
      if 5 < length reducedInputShape then Inl NoRankReduction
      else
        let input' = emitReshape (RankedTensor reducedInputShape F32) reducedInputShape input;
            res = createTFLOperation ''tfl.tile'' [RankedTensor reducedResultShape F32]
                    [input', createI32ShapeConstant reducedRepeats] [] 0 in
        Inr (emitReshape sourceResultType outShape res))"

definition lower_tile :: "'f tile_op \<Rightarrow> 'f val result" where
  "lower_tile op =
     (case (oty (tile_input op), tile_result op) of
        (RankedTensor inShape inElt, RankedTensor outShape outElt) \<Rightarrow>
          let input = adaptor 0 (tile_input op); rank = getRank inShape in
          if failed (validateStaticF32Tensor (vtype input)) \<or> failed (validateStaticF32Tensor (tile_result op))
          then Inl BadTypes
          else if rank < 1 \<or> 8 < rank \<or> getRank outShape \<noteq> rank then Inl BadRank
          else (case getConstantIntValues (tile_repeats op) of
            None \<Rightarrow> Inl NonConstant
          | Some repeats \<Rightarrow>
              if int (length repeats) \<noteq> rank then Inl NonConstant
              else if \<not> list_all tile_axis_ok (zip inShape (zip outShape repeats)) then Inl BadRepeats
              else if 5 < rank then emit_high_rank_tile inShape outShape repeats (tile_result op) input
              else
                let physicalRepeats = (if rank = 4 then [repeats ! 0, repeats ! 2, repeats ! 3, repeats ! 1] else repeats) in
                Inr (createTFLOperation ''tfl.tile'' [convertRank4NCHWToNHWCType (tile_result op)]
                       [input, createI32ShapeConstant physicalRepeats] [] 0))
      | _ \<Rightarrow> Inl BadTypes)"

section \<open>Correctness\<close>

lemma tile_axes:
  assumes "list_all tile_axis_ok (zip (map int ds) (zip os reps))" and "length os = length ds" "length reps = length ds"
  shows "reps = map int (map nat reps)" "os = map int (map2 (*) ds (map nat reps))" "\<forall>d\<in>set ds. 0 < d"
    "\<forall>r\<in>set (map nat reps). 0 < r \<and> r < 2 ^ 31"
proof -
  have ax: "0 < reps ! k" "reps ! k \<le> int32_max" "0 < ds ! k" "int (ds ! k) * reps ! k = os ! k" if "k < length ds" for k
    using assms that by (auto simp: list_all_length tile_axis_ok_def)
  show "reps = map int (map nat reps)" using ax(1) assms(3) by (intro nth_equalityI) (simp_all add: less_imp_le)
  show "os = map int (map2 (*) ds (map nat reps))"
    using ax(1,4) assms by (intro nth_equalityI) (simp_all add: less_imp_le)
  show "\<forall>d\<in>set ds. 0 < d" using ax(3) by (metis in_set_conv_nth)
  show "\<forall>r\<in>set (map nat reps). 0 < r \<and> r < 2 ^ 31"
  proof
    fix r assume "r \<in> set (map nat reps)"
    then obtain k where k: "k < length ds" and r: "r = nat (reps ! k)" using assms(3) by (auto simp: in_set_conv_nth)
    have "reps ! k < 2 ^ 31" using ax(2) [OF k] by (simp add: int32_max_def)
    then show "0 < r \<and> r < 2 ^ 31" using ax(1) [OF k] r by (simp add: nat_less_iff)
  qed
qed

lemma tile_dropped_props:
  "length (tile_dropped axes n) = length axes"
  "k < length axes \<Longrightarrow> tile_dropped axes n ! k \<Longrightarrow> axes ! k = (1, 1, 1)"
proof -
  show "length (tile_dropped axes n) = length axes"
    by (induction axes n rule: tile_dropped.induct) (auto simp: Let_def)
  show "k < length axes \<Longrightarrow> tile_dropped axes n ! k \<Longrightarrow> axes ! k = (1, 1, 1)"
  proof (induction axes n arbitrary: k rule: tile_dropped.induct)
    case (2 i r p axes n)
    then show ?case by (cases k) (auto simp: Let_def split: if_splits)
  qed simp
qed

lemma not_dropped_map2:
  "length fs = length xs \<Longrightarrow> length xs = length ys \<Longrightarrow>
   not_dropped fs (map2 f xs ys) = map2 f (not_dropped fs xs) (not_dropped fs ys)"
  by (induction fs xs ys rule: list_induct3) auto

lemma ttile_dropped:
  assumes "drops_ones fs (tshape t)" and "drops_ones fs reps" and "length reps = trank t" and "\<forall>d\<in>set (tshape t). 0 < d"
  shows "treshape (not_dropped fs (map2 (*) (tshape t) reps)) (ttile reps t) =
    ttile (not_dropped fs reps) (treshape (not_dropped fs (tshape t)) t)"
proof -
  let ?ns = "map2 (*) (tshape t) reps" and ?gs = "map (\<lambda>d i. i mod d) (tshape t)"
  have l: "length fs = trank t" using assms(1) by (simp add: drops_ones_def)
  have "drops_ones fs ?ns" using assms(1-3) by (simp add: drops_ones_def)
  moreover have "valid_ix (tshape t) (apply_ix ?gs is)" if "valid_ix ?ns is" for "is"
    using that assms(3,4) valid_ix_length [OF that] by (intro valid_ixI) simp_all
  ultimately have "treshape (not_dropped fs ?ns) (taxis ?ns ?gs t) =
      taxis (not_dropped fs ?ns) (not_dropped fs ?gs) (treshape (not_dropped fs (tshape t)) t)"
    using assms by (intro treshape_taxis_dropped) simp_all
  moreover have "not_dropped fs ?ns = map2 (*) (not_dropped fs (tshape t)) (not_dropped fs reps)"
    using l assms(3) by (intro not_dropped_map2) simp_all
  ultimately show ?thesis unfolding ttile_def tshape_treshape not_dropped_map by argo
qed

lemma tshape_ttile [simp]: "tshape (ttile reps t) = map2 (*) (tshape t) reps" "wf_tensor (ttile reps t)"
  by (simp_all add: ttile_def)

context tfl_assembly
begin

lemma eval_tile:
  assumes "wf_tensor x" "eval sem env v = x" "length reps = trank x" "\<forall>r\<in>set reps. 0 < r \<and> r < 2 ^ 31"
    and "conforms ty (ttile reps x)"
  shows "eval sem env (createTFLOperation ''tfl.tile'' [ty] [v, createI32ShapeConstant (map int reps)] [] 0) = ttile reps x"
proof -
  have "i32_dims reps" using assms(4) by (simp add: i32_dims_def)
  then show ?thesis using assms tile [of x reps "[ty]"] by (simp add: map_i32_comp_dims)
qed

lemma eval_high_rank_tile:
  assumes em: "emit_high_rank_tile (map int (tshape t)) (map int (map2 (*) (tshape t) reps)) (map int reps) ty input = Inr v"
    and t: "wf_tensor t" "eval sem env input = t" and r: "length reps = trank t" "\<forall>r\<in>set reps. 0 < r \<and> r < 2 ^ 31"
    and pos: "\<forall>d\<in>set (tshape t). 0 < d" and i32: "i32_dims (map2 (*) (tshape t) reps)"
    and ty: "ty = RankedTensor (map int (map2 (*) (tshape t) reps)) e"
  shows "eval sem env v = ttile reps t"
proof -
  define ns where "ns = map2 (*) (tshape t) reps"
  define fs where "fs = tile_dropped (zip (map int (tshape t)) (zip (map int ns) (map int reps))) (int (trank t) - 5)"
  have l: "length fs = trank t" "length ns = trank t" using r by (simp_all add: fs_def ns_def tile_dropped_props)
  have one: "tshape t ! k = 1 \<and> reps ! k = 1" if "k < trank t" "fs ! k" for k
    using tile_dropped_props(2) [of k "zip (map int (tshape t)) (zip (map int ns) (map int reps))"] that r l
    by (simp add: fs_def)
  have d: "drops_ones fs (tshape t)" "drops_ones fs reps" "drops_ones fs ns"
    using one l r by (auto simp: drops_ones_def ns_def)
  let ?sh = "not_dropped fs (tshape t)" and ?x = "treshape (not_dropped fs (tshape t)) t"
  let ?i = "emitReshape (RankedTensor (map int ?sh) F32) (map int ?sh) input"
  let ?z = "createTFLOperation ''tfl.tile'' [RankedTensor (map int (not_dropped fs ns)) F32]
      [?i, createI32ShapeConstant (map int (not_dropped fs reps))] [] 0"
  have v: "v = emitReshape ty (map int ns) ?z"
    using em by (simp add: emit_high_rank_tile_def Let_def getRank_def not_dropped_map flip: fs_def ns_def split: if_splits)
  have sub: "set (not_dropped fs reps) \<subseteq> set reps" "set ?sh \<subseteq> set (tshape t)" by (rule set_not_dropped)+
  have le: "d < 2 ^ 31" if "d \<in> set (tshape t)" for d
  proof -
    from that obtain k where k: "k < trank t" "tshape t ! k = d" by (auto simp: in_set_conv_nth)
    then have "ns ! k \<in> set ns" using l by (metis nth_mem)
    moreover have "ns ! k = d * reps ! k" "0 < reps ! k" using k l r by (simp_all add: ns_def)
    ultimately have "d \<le> ns ! k" "ns ! k < 2 ^ 31" using i32 by (auto simp: i32_dims_def ns_def)
    then show ?thesis by simp
  qed
  have wx: "wf_tensor ?x" using t(1) d(1) by (intro wf_treshape) (simp_all add: drops_ones_prod)
  have x: "eval sem env ?i = ?x"
    using t d(1) sub(2) le by (intro eval_emitReshape) (auto simp: i32_dims_def drops_ones_prod)
  have tl: "ttile (not_dropped fs reps) ?x = treshape (not_dropped fs ns) (ttile reps t)"
    using ttile_dropped [OF d(1,2) r(1) pos] by (simp add: ns_def)
  have pn: "prod_list (not_dropped fs ns) = prod_list ns" using d(3) by (rule drops_ones_prod)
  have w: "wf_tensor (treshape (not_dropped fs ns) (ttile reps t))"
    using pn by (intro wf_treshape) (simp_all add: ns_def)
  have "eval sem env ?z = ttile (not_dropped fs reps) ?x"
    using wx x r l sub(1) w
    by (intro eval_tile) (auto simp: tl conforms_Ranked length_not_dropped)
  then have z: "eval sem env ?z = treshape (not_dropped fs ns) (ttile reps t)" by (simp add: tl)
  have "eval sem env v = treshape ns (treshape (not_dropped fs ns) (ttile reps t))"
    unfolding v using i32 pn by (intro eval_emitReshape [OF w z]) (simp_all add: ns_def ty)
  then show ?thesis by (simp add: treshape_def ttile_def taxis_def tgen_def ns_def)
qed

end

text \<open>
  When the Tile pattern succeeds, the created value represents the operand repeated along each
  axis, with the repeats permuted for an NHWC operand and inert singleton axes removed above rank 5.
\<close>

theorem lower_tile_correct:
  assumes sem: "tfl_assembly sem" and low: "lower_tile op = Inr v" and rp: "getConstantIntValues (tile_repeats op) = Some repeats"
    and t: "conforms (oty (tile_input op)) t" "env 0 = phys (oty (tile_input op)) t"
    and i32: "i32_dims (tshape (ttile (map nat repeats) t))"
  shows "represents sem env v (tile_result op) (ttile (map nat repeats) t)"
proof -
  let ?ity = "oty (tile_input op)" and ?ty = "tile_result op" and ?reps = "map nat repeats"
  obtain e where ity: "?ity = RankedTensor (map int (tshape t)) e" and wf: "wf_tensor t" using t(1) by (auto simp: conforms_def)
  obtain os e' where ty: "?ty = RankedTensor os e'" using low by (auto simp: lower_tile_def ity split: mtype.splits)
  have ax: "list_all tile_axis_ok (zip (map int (tshape t)) (zip os repeats))" "length os = trank t" "length repeats = trank t"
    using low rp by (auto simp: lower_tile_def ity ty Let_def getRank_def split: if_splits)
  note T = tile_axes [OF ax]
  have f32: "e = F32" "e' = F32"
    using low by (auto simp: lower_tile_def ity ty Let_def failed_validate convert_Ranked split: if_splits)
  have res: "conforms ?ty (ttile ?reps t)" using T(2) by (simp add: ty conforms_Ranked)
  have asm: "tfl_layout sem" using sem by (simp add: tfl_assembly_def tfl_slicing_def)
  show ?thesis
  proof (cases "5 < trank t")
    case True
    have "emit_high_rank_tile (map int (tshape t)) os repeats ?ty (adaptor 0 (tile_input op)) = Inr v"
      using low rp True by (auto simp: lower_tile_def ity ty Let_def getRank_def split: if_splits)
    then have em: "emit_high_rank_tile (map int (tshape t)) (map int (map2 (*) (tshape t) ?reps)) (map int ?reps) ?ty
        (adaptor 0 (tile_input op)) = Inr v"
      using T(1,2) by simp
    have np: "\<not> physical4 ?ity" "\<not> physical4 ?ty" using True ax(2) by (simp_all add: ity ty)
    then have x: "eval sem env (adaptor 0 (tile_input op)) = t" using t(2) by (simp add: phys_def)
    have "eval sem env v = ttile ?reps t"
      by (rule tfl_assembly.eval_high_rank_tile [OF sem em wf x _ T(4,3)])
        (use ax(3) i32 T(2) in \<open>simp_all add: ty\<close>)
    moreover have "vtype v = ?ty" using em by (auto simp: emit_high_rank_tile_def Let_def split: if_splits)
    ultimately show ?thesis using np(2) res by (intro represents_logical)
  next
    case False
    let ?p = "if trank t = 4 then permute to_nhwc ?reps else ?reps"
    have nn: "int (nat (repeats ! k)) = repeats ! k" if "k < trank t" for k
      using arg_cong [OF T(1), of "\<lambda>xs. xs ! k"] that ax(3) by simp
    have v: "v = createTFLOperation ''tfl.tile'' [convertRank4NCHWToNHWCType ?ty]
        [adaptor 0 (tile_input op), createI32ShapeConstant (map int ?p)] [] 0"
    proof -
      have "map int ?p = (if trank t = 4 then [repeats ! 0, repeats ! 2, repeats ! 3, repeats ! 1] else repeats)"
        using ax(3) nn T(1) by (cases "trank t = 4") (simp_all add: permute_def to_nhwc_def)
      then show ?thesis
        using low rp False by (auto simp: lower_tile_def ity ty Let_def getRank_def split: if_splits)
    qed
    have ph: "phys ?ty (ttile ?reps t) = ttile ?p (phys ?ity t)"
      using ax(2,3) T(3) by (simp add: phys_def ity ty f32 ttranspose_ttile)
    have pos: "\<forall>r\<in>set ?p. 0 < r \<and> r < 2 ^ 31"
      using T(4) ax(3) by (auto simp: permute_def to_nhwc_def)
    have cf: "conforms (convertRank4NCHWToNHWCType ?ty) (ttile ?p (phys ?ity t))"
      using convert_conforms [OF res] unfolding ph .
    have "eval sem env v = ttile ?p (phys ?ity t)"
      unfolding v by (rule tfl_assembly.eval_tile [OF sem _ _ _ pos cf]) (use t wf ax(3) in \<open>simp_all add: phys_def ity f32\<close>)
    then show ?thesis using res ph by (simp add: represents_def v)
  qed
qed

definition tile_example :: "int tile_op" where
  "tile_example = \<lparr>tile_input = \<lparr>oty = RankedTensor [1, 2, 2, 3] F32, oattr = None\<rparr>,
     tile_repeats = \<lparr>oty = RankedTensor [4] I64, oattr = Some (IntElements I64 [1, 1, 2, 3])\<rparr>,
     tile_result = RankedTensor [1, 2, 4, 9] F32\<rparr>"

theorem lower_tile_correct_witness:
  "\<exists>v. lower_tile tile_example = Inr v \<and>
     represents reference_sem (\<lambda>_. ttranspose to_nhwc nchw_example) v (tile_result tile_example) (ttile [1, 1, 2, 3] nchw_example)"
proof -
  have "\<not> failed (lower_tile tile_example)" by code_simp
  then obtain v where low: "lower_tile tile_example = Inr v" by (rule not_failedE)
  have rp: "getConstantIntValues (tile_repeats tile_example) = Some [1, 1, 2, 3]" by code_simp
  show ?thesis
    using low lower_tile_correct [OF reference.tfl_assembly_axioms low rp, of nchw_example "\<lambda>_. ttranspose to_nhwc nchw_example"]
    by (simp add: tile_example_def example_simps)
qed

end
