(* ===== verification/Lower_Reduce.thy ===== *)
theory Lower_Reduce
  imports TFL_Reference
begin

text \<open>
  Models of \<^verbatim>\<open>Math/ReduceMax.cpp\<close>, \<^verbatim>\<open>Math/ReduceSum.cpp\<close>, \<^verbatim>\<open>Math/ReduceMean.cpp\<close> and
  \<^verbatim>\<open>Math/Softmax.cpp\<close>. The versions of an operation that read their axes from an operand and those
  that read them from an attribute are one definition; \<open>AxesOperand\<close> and \<open>AxesAttribute\<close> are the two
  branches of the C++ \<^verbatim>\<open>if constexpr\<close>. The function a reduction applies to the elements is a parameter.
\<close>

section \<open>Reductions\<close>

datatype 'f axes_source = AxesOperand "'f operand" | AxesAttribute "int list option"

record 'f reduce_op =
  red_data :: "'f operand"
  red_axes :: "'f axes_source"
  red_noop :: "int option"
  red_keepdims :: "int option"
  red_result :: mtype

definition read_reduce_axes :: "'f axes_source \<Rightarrow> int list option result" where
  "read_reduce_axes src =
     (case src of
        AxesOperand v \<Rightarrow>
          if oty v = NoneT then Inr None
          else (case getConstantIntValues v of None \<Rightarrow> Inl NonConstant | Some axes \<Rightarrow> Inr (Some axes))
      | AxesAttribute a \<Rightarrow> Inr a)"

definition noopWithEmptyAxes :: "'f reduce_op \<Rightarrow> bool" where
  "noopWithEmptyAxes op =
     (case red_axes op of
        AxesOperand v \<Rightarrow> (case red_noop op of Some a \<Rightarrow> a \<noteq> 0 | None \<Rightarrow> False)
      | AxesAttribute a \<Rightarrow> False)"

definition keepDims :: "'f reduce_op \<Rightarrow> bool" where
  "keepDims op = (case red_keepdims op of Some a \<Rightarrow> a \<noteq> 0 | None \<Rightarrow> True)"

fun normalize_axes :: "int \<Rightarrow> bool list \<Rightarrow> int list \<Rightarrow> int list result" where
  "normalize_axes rank seen [] = Inr []"
| "normalize_axes rank seen (raw # axes) =
     (let axis = normalizeAxis raw rank in
      if axis < 0 \<or> rank \<le> axis \<or> seen ! nat axis then Inl BadAxis
      else bind_result (normalize_axes rank (seen[nat axis := True]) axes) (\<lambda>as. Inr (axis # as)))"

definition no_axes :: "int list option \<Rightarrow> bool" where
  "no_axes axes \<longleftrightarrow> (case axes of None \<Rightarrow> True | Some as \<Rightarrow> as = [])"

definition axes_or_all :: "int \<Rightarrow> int list option \<Rightarrow> int list" where
  "axes_or_all rank axes = (case axes of None \<Rightarrow> [0..rank - 1] | Some as \<Rightarrow> if as = [] then [0..rank - 1] else as)"

definition reduction :: "string \<Rightarrow> mtype \<Rightarrow> 'f val \<Rightarrow> int list \<Rightarrow> bool \<Rightarrow> 'f val" where
  "reduction nm resultType input axes keep =
     createTFLOperation nm [resultType] [input, createI32ShapeConstant axes] [(''keep_dims'', BoolAttr keep)] 0"

definition emit_reduce :: "string \<Rightarrow> mtype \<Rightarrow> mtype \<Rightarrow> 'f val \<Rightarrow> int list \<Rightarrow> bool \<Rightarrow> 'f val" where
  "emit_reduce nm sourceInputType sourceResultType input axes keep =
     (let input' = (if physical4 sourceInputType then restoreLogicalRank4 sourceInputType input else input);
          res = reduction nm sourceResultType input' axes keep in
      if physical4 sourceResultType then toPhysicalRank4 sourceResultType res else res)"

definition lower_reduce_max :: "'f reduce_op \<Rightarrow> 'f val result" where
  "lower_reduce_max op =
     (case (oty (red_data op), red_result op) of
        (RankedTensor inShape inElt, RankedTensor outShape outElt) \<Rightarrow>
          if \<not> hasStaticShape inShape \<or> \<not> hasStaticShape outShape \<or>
             \<not> ((isF32 inElt \<or> isSignlessInteger 64 inElt) \<and> outElt = inElt)
          then Inl BadTypes
          else
            let rank = getRank inShape;
                axes = (case red_axes op of
                    AxesAttribute (Some as) \<Rightarrow> normalize_axes rank (replicate (length inShape) False) as
                  | _ \<Rightarrow> Inr [0..rank - 1]) in
            bind_result axes (\<lambda>as.
              Inr (emit_reduce ''tfl.reduce_max'' (oty (red_data op)) (red_result op) (adaptor 0 (red_data op)) as (keepDims op)))
      | _ \<Rightarrow> Inl BadTypes)"

definition lower_reduce_sum :: "'f reduce_op \<Rightarrow> 'f val result" where
  "lower_reduce_sum op =
     (case (oty (red_data op), red_result op) of
        (RankedTensor inShape inElt, RankedTensor outShape outElt) \<Rightarrow>
          if \<not> hasStaticShape inShape \<or> \<not> hasStaticShape outShape \<or> getRank inShape < 1 \<or> outElt \<noteq> inElt
          then Inl BadTypes
          else if \<not> isF32 inElt \<and> \<not> (isSignlessInteger 32 inElt \<or> isSignlessInteger 64 inElt) then Inl BadTypes
          else
            let rank = getRank inShape; input = adaptor 0 (red_data op) in
            bind_result (read_reduce_axes (red_axes op)) (\<lambda>axes.
              if no_axes axes \<and> noopWithEmptyAxes op then Inr input
              else bind_result (normalize_axes rank (replicate (length inShape) False) (axes_or_all rank axes)) (\<lambda>as.
                Inr (emit_reduce ''tfl.sum'' (oty (red_data op)) (red_result op) input as (keepDims op))))
      | _ \<Rightarrow> Inl BadTypes)"

definition lower_reduce_mean :: "'f reduce_op \<Rightarrow> 'f val result" where
  "lower_reduce_mean op =
     (let input = adaptor 0 (red_data op) in
      case (oty (red_data op), red_result op) of
        (RankedTensor inShape inElt, RankedTensor outShape outElt) \<Rightarrow>
          if failed (validateStaticF32TensorOrScalar (vtype input)) \<or>
             failed (validateStaticF32TensorOrScalar (red_result op))
          then Inl BadTypes
          else
            let rank = getRank inShape in
            bind_result (read_reduce_axes (red_axes op)) (\<lambda>axes.
              if rank = 0 then (if \<not> no_axes axes then Inl BadAxis else Inr input)
              else if no_axes axes \<and> noopWithEmptyAxes op then Inr input
              else bind_result (normalize_axes rank (replicate (length inShape) False) (axes_or_all rank axes)) (\<lambda>as.
                if rank = 4 \<and> sort as = [2, 3]
                then Inr (reduction ''tfl.mean'' (convertRank4NCHWToNHWCType (red_result op)) input
                            (map mapNCHWAxisToNHWC as) (keepDims op))
                else Inr (emit_reduce ''tfl.mean'' (oty (red_data op)) (red_result op) input as (keepDims op))))
      | _ \<Rightarrow> Inl BadTypes)"

section \<open>Softmax\<close>

record 'f softmax_op =
  sm_input :: "'f operand"
  sm_axis :: "int option"
  sm_result :: mtype

definition softmax_permutation :: "int \<Rightarrow> int \<Rightarrow> int list" where
  "softmax_permutation rank axis = filter (\<lambda>i. i \<noteq> axis) [0..rank - 1] @ [axis]"

fun fill_inverse :: "int list \<Rightarrow> int \<Rightarrow> int list \<Rightarrow> int list" where
  "fill_inverse [] i invPerm = invPerm"
| "fill_inverse (p # permutation) i invPerm = fill_inverse permutation (i + 1) (invPerm[nat p := i])"

definition emit_softmax :: "'f \<Rightarrow> int \<Rightarrow> int list \<Rightarrow> elt \<Rightarrow> mtype \<Rightarrow> 'f val \<Rightarrow> 'f val" where
  "emit_softmax one axis shape elt resultType input =
     (let rank = getRank shape; attributes = [(''beta'', FloatAttr one)] in
      if axis = rank - 1 then createTFLOperation ''tfl.softmax'' [resultType] [input] attributes 0
      else
        let permutation = softmax_permutation rank axis;
            invPerm = fill_inverse permutation 0 (replicate (length shape) 0);
            permutedType = RankedTensor (map (\<lambda>p. shape ! nat p) permutation) elt;
            forward = createTFLOperation ''tfl.transpose'' [permutedType]
              [input, createI32ShapeConstant permutation] [] 0;
            softmax = createTFLOperation ''tfl.softmax'' [permutedType] [forward] attributes 0 in
        createTFLOperation ''tfl.transpose'' [resultType] [softmax, createI32ShapeConstant invPerm] [] 0)"

definition lower_softmax :: "'f \<Rightarrow> 'f softmax_op \<Rightarrow> 'f val result" where
  "lower_softmax one op =
     (let input = adaptor 0 (sm_input op) in
      if failed (validateStaticF32Tensor (vtype input)) \<or> failed (validateStaticF32Tensor (sm_result op))
      then Inl BadTypes
      else (case vtype input of
        RankedTensor shape elt \<Rightarrow>
          let rank = getRank shape;
              axis = normalizeAxis (case sm_axis op of Some a \<Rightarrow> a | None \<Rightarrow> - 1) rank in
          if axis < 0 \<or> rank \<le> axis then Inl BadAxis
          else
            let axis' = (if rank = 4 then mapNCHWAxisToNHWC axis else axis) in
            Inr (emit_softmax one axis' shape elt (convertRank4NCHWToNHWCType (sm_result op)) input)
      | _ \<Rightarrow> Inl BadTypes))"

section \<open>Correctness of the reductions\<close>

lemma normalize_axes_ok:
  assumes "normalize_axes (int n) seen axes = Inr as" and "length seen = n"
  shows "as = map (\<lambda>a. normalizeAxis a (int n)) axes \<and> distinct as \<and> set as \<subseteq> {0..<int n} \<and> (\<forall>a\<in>set as. \<not> seen ! nat a)"
  using assms
proof (induction axes arbitrary: seen as)
  case (Cons raw axes)
  let ?a = "normalizeAxis raw (int n)"
  obtain as' where a: "0 \<le> ?a" "?a < int n" "\<not> seen ! nat ?a" and as': "as = ?a # as'"
    and r: "normalize_axes (int n) (seen[nat ?a := True]) axes = Inr as'"
    using Cons.prems(1) by (auto simp: Let_def split: if_splits)
  have IH: "as' = map (\<lambda>a. normalizeAxis a (int n)) axes" "distinct as'" "set as' \<subseteq> {0..<int n}"
    "\<forall>a\<in>set as'. \<not> seen[nat ?a := True] ! nat a"
    using Cons.IH [OF r] Cons.prems(2) by (metis length_list_update)+
  have "nat ?a < n" using a by linarith
  then have ne: "b \<noteq> ?a \<and> \<not> seen ! nat b" if "b \<in> set as'" for b
    using IH(4) that Cons.prems(2) by (cases "nat b = nat ?a") auto
  show ?case using IH(1-3) ne a as' by auto
qed simp

definition onnx_reduce ::
  "('f scalar list \<Rightarrow> 'f scalar) \<Rightarrow> int list option \<Rightarrow> bool \<Rightarrow> bool \<Rightarrow> 'f scalar tensor \<Rightarrow> 'f scalar tensor" where
  "onnx_reduce red axes noop keep t =
     (if no_axes axes \<and> noop then t
      else treduce red
        (axis_mask (trank t) (if no_axes axes then [0..<trank t]
           else map (\<lambda>a. nat (normalizeAxis a (int (trank t)))) (the axes))) keep t)"

lemma normalize_axes_fresh:
  assumes "normalize_axes (int n) (replicate n False) axes = Inr as"
  shows "as = map int (map (\<lambda>a. nat (normalizeAxis a (int n))) axes)" and "distinct as" and "set as \<subseteq> {0..<int n}"
proof -
  have n: "as = map (\<lambda>a. normalizeAxis a (int n)) axes" "distinct as" "set as \<subseteq> {0..<int n}"
    using normalize_axes_ok [OF assms] unfolding length_replicate by blast+
  then have "\<forall>a\<in>set as. int (nat a) = a" by auto
  then have "as = map int (map nat as)" by (simp add: map_idI)
  then show "as = map int (map (\<lambda>a. nat (normalizeAxis a (int n))) axes)" using n(1) by (simp add: comp_def)
  show "distinct as" "set as \<subseteq> {0..<int n}" using n(2,3) .
qed

lemma nat_axes:
  assumes "as = map int ks" and "distinct as" and "set as \<subseteq> {0..<int n}"
  shows "distinct ks" and "set ks \<subseteq> {..<n}"
proof -
  show "distinct ks" using assms(1,2) by (simp add: distinct_map)
  have "int k < int n" if "k \<in> set ks" for k
  proof -
    have "int k \<in> set as" using that assms(1) by simp
    then show ?thesis using assms(3) by auto
  qed
  then show "set ks \<subseteq> {..<n}" by auto
qed

lemma normalize_all_axes:
  assumes "normalize_axes (int n) (replicate n False) (axes_or_all (int n) axes) = Inr as"
  shows "as = map int (if no_axes axes then [0..<n] else map (\<lambda>a. nat (normalizeAxis a (int n))) (the axes))"
    and "distinct as" and "set as \<subseteq> {0..<int n}"
proof -
  have "map (\<lambda>a. nat (normalizeAxis a (int n))) (map int [0..<n]) = [0..<n]" by (simp add: normalizeAxis_def map_idI)
  then show "as = map int (if no_axes axes then [0..<n] else map (\<lambda>a. nat (normalizeAxis a (int n))) (the axes))"
    using normalize_axes_fresh(1) [OF assms]
    by (auto simp: axes_or_all_def no_axes_def int_upto normalizeAxis_def split: option.splits if_splits)
  show "distinct as" "set as \<subseteq> {0..<int n}" using normalize_axes_fresh(2,3) [OF assms] .
qed

context tfl_reduce
begin

lemma eval_reduction:
  assumes "wf_tensor x" "eval sem env v = x" "distinct axes" "set axes \<subseteq> {..<trank x}" "trank x < 2 ^ 31"
    and "conforms ty (treduce red (axis_mask (trank x) axes) keep x)"
  shows "eval sem env (reduction nm ty v (map int axes) keep) = treduce red (axis_mask (trank x) axes) keep x"
proof -
  have "i32_dims axes" using assms(4,5) by (auto simp: i32_dims_def)
  then show ?thesis using assms reduce [of x axes "[ty]" keep] by (simp add: reduction_def map_i32_comp_dims)
qed

lemma represents_emit_reduce:
  assumes "conforms ity t" "eval sem env v = phys ity t" "distinct axes" "set axes \<subseteq> {..<trank t}" "trank t < 2 ^ 31"
    and res: "conforms ty (treduce red (axis_mask (trank t) axes) keep t)"
  shows "represents sem env (emit_reduce nm ity ty v (map int axes) keep) ty
    (treduce red (axis_mask (trank t) axes) keep t)"
proof -
  have "eval sem env (reduction nm ty (if physical4 ity then restoreLogicalRank4 ity v else v) (map int axes) keep) =
      treduce red (axis_mask (trank t) axes) keep t"
    using assms by (intro eval_reduction eval_logical_operand) (auto dest: conforms_wf)
  then show ?thesis
    unfolding emit_reduce_def Let_def using res
    by (intro represents_physical_result) (simp_all add: reduction_def)
qed

lemma represents_normalized:
  assumes n: "normalize_axes (int (trank t)) (replicate (trank t) False) (axes_or_all (int (trank t)) axes) = Inr as"
    and "\<not> (no_axes axes \<and> noop)" and t: "conforms ity t" "eval sem env v = phys ity t" "trank t < 2 ^ 31"
    and res: "conforms ty (onnx_reduce red axes noop keep t)"
  shows "represents sem env (emit_reduce nm ity ty v as keep) ty (onnx_reduce red axes noop keep t)"
proof -
  let ?as = "if no_axes axes then [0..<trank t] else map (\<lambda>a. nat (normalizeAxis a (int (trank t)))) (the axes)"
  note a = normalize_all_axes [OF n]
  have "onnx_reduce red axes noop keep t = treduce red (axis_mask (trank t) ?as) keep t"
    using assms(2) by (auto simp: onnx_reduce_def)
  moreover have "distinct ?as" "set ?as \<subseteq> {..<trank t}" by (rule nat_axes [OF a])+
  ultimately show ?thesis using represents_emit_reduce [OF t(1,2), of ?as ty keep] t(3) res a(1) by simp
qed

end

text \<open>
  C34: when the ReduceSum pattern succeeds, the created value represents the reduction of the logical
  operand over the normalised axes, over all axes when none are given, or the operand itself when
  none are given and \<^verbatim>\<open>noop_with_empty_axes\<close> is set; both orders of the layout transposes are undone.
\<close>

theorem lower_reduce_sum_correct:
  assumes sem: "tfl_reduce sem ''tfl.sum'' red" and low: "lower_reduce_sum op = Inr v"
    and ax: "read_reduce_axes (red_axes op) = Inr axes"
    and t: "conforms (oty (red_data op)) t" "env 0 = phys (oty (red_data op)) t" "trank t < 2 ^ 31"
    and res: "conforms (red_result op) (onnx_reduce red axes (noopWithEmptyAxes op) (keepDims op) t)"
  shows "represents sem env v (red_result op) (onnx_reduce red axes (noopWithEmptyAxes op) (keepDims op) t)"
proof -
  let ?ity = "oty (red_data op)" and ?ty = "red_result op"
  obtain e where ity: "?ity = RankedTensor (map int (tshape t)) e" using t(1) by (auto simp: conforms_def)
  obtain os e' where ty: "?ty = RankedTensor os e'" using res by (auto simp: conforms_def)
  have e: "e' = e" using low by (auto simp: lower_reduce_sum_def ity ty split: if_splits)
  show ?thesis
  proof (cases "no_axes axes \<and> noopWithEmptyAxes op")
    case True
    then have "v = adaptor 0 (red_data op)"
      using low ax by (auto simp: lower_reduce_sum_def ity ty Let_def split: if_splits)
    moreover from True have "onnx_reduce red axes (noopWithEmptyAxes op) (keepDims op) t = t"
      by (simp add: onnx_reduce_def)
    ultimately show ?thesis using res t(2) by (simp add: represents_def ity ty e conforms_Ranked)
  next
    case False
    then obtain as where n: "normalize_axes (int (trank t)) (replicate (trank t) False) (axes_or_all (int (trank t)) axes) = Inr as"
      and v: "v = emit_reduce ''tfl.sum'' ?ity ?ty (adaptor 0 (red_data op)) as (keepDims op)"
      using low ax by (auto simp: lower_reduce_sum_def ity ty Let_def split: if_splits)
    show ?thesis unfolding v
      by (rule tfl_reduce.represents_normalized [OF sem n False t(1) _ t(3) res]) (simp add: t(2))
  qed
qed

text \<open>
  When the ReduceMax pattern succeeds, the created value represents the maximum of the logical
  operand over the normalised axes of the attribute, or over all axes without the attribute.
\<close>

theorem lower_reduce_max_correct:
  assumes sem: "tfl_reduce sem ''tfl.reduce_max'' red" and low: "lower_reduce_max op = Inr v"
    and ax: "red_axes op = AxesAttribute axes"
    and t: "conforms (oty (red_data op)) t" "env 0 = phys (oty (red_data op)) t" "trank t < 2 ^ 31"
    and spec: "spec = treduce red (axis_mask (trank t)
      (case axes of None \<Rightarrow> [0..<trank t] | Some as \<Rightarrow> map (\<lambda>a. nat (normalizeAxis a (int (trank t)))) as)) (keepDims op) t"
    and res: "conforms (red_result op) spec"
  shows "represents sem env v (red_result op) spec"
proof -
  let ?ity = "oty (red_data op)" and ?ty = "red_result op"
  let ?as = "case axes of None \<Rightarrow> [0..<trank t] | Some as \<Rightarrow> map (\<lambda>a. nat (normalizeAxis a (int (trank t)))) as"
  obtain e where ity: "?ity = RankedTensor (map int (tshape t)) e" using t(1) by (auto simp: conforms_def)
  obtain os e' where ty: "?ty = RankedTensor os e'" using res by (auto simp: conforms_def)
  obtain as where n: "(case axes of Some as \<Rightarrow> normalize_axes (int (trank t)) (replicate (trank t) False) as
        | None \<Rightarrow> Inr [0..int (trank t) - 1]) = Inr as"
    and v: "v = emit_reduce ''tfl.reduce_max'' ?ity ?ty (adaptor 0 (red_data op)) as (keepDims op)"
    using low ax by (auto simp: lower_reduce_max_def ity ty Let_def split: if_splits option.splits)
  have A: "as = map int ?as \<and> distinct as \<and> set as \<subseteq> {0..<int (trank t)}"
  proof (cases axes)
    case None
    then show ?thesis using n by (auto simp: int_upto distinct_map inj_on_def)
  next
    case (Some raw)
    then have "normalize_axes (int (trank t)) (replicate (trank t) False) raw = Inr as" using n by simp
    from normalize_axes_fresh [OF this] Some show ?thesis by simp
  qed
  have d: "distinct ?as" "set ?as \<subseteq> {..<trank t}" by (rule nat_axes [OF A [THEN conjunct1] A [THEN conjunct2, THEN conjunct1] A [THEN conjunct2, THEN conjunct2]])+
  show ?thesis unfolding v spec using A
    tfl_reduce.represents_emit_reduce [OF sem t(1) _ d t(3), of env "adaptor 0 (red_data op)" ?ty "keepDims op"] res t(2)
    by (simp add: spec)
qed

text \<open>The direct path of ReduceMean: both orders of the spatial axes mark height and width.\<close>

lemma spatial_axes:
  assumes "sort as = [2, 3 :: int]"
  shows "as = [2, 3] \<or> as = [3, 2]"
proof -
  have m: "mset as = {#2, 3#}" using assms by (metis mset.simps mset_sort)
  then have "length as = 2" by (metis size_mset size_add_mset size_empty numeral_2_eq_2)
  then obtain a b where "as = [a, b]" by (auto simp: numeral_2_eq_2 length_Suc_conv)
  with m show ?thesis by (auto simp: add_eq_conv_ex)
qed

lemma spatial_masks:
  assumes "as = [2, 3] \<or> as = [3, 2 :: int]"
  shows "axis_mask 4 (map nat as) = [False, False, True, True]"
    and "axis_mask 4 (map nat (map mapNCHWAxisToNHWC as)) = [False, True, True, False]"
    and "map mapNCHWAxisToNHWC as = map int (map nat (map mapNCHWAxisToNHWC as))"
    and "distinct (map nat (map mapNCHWAxisToNHWC as))" and "set (map nat (map mapNCHWAxisToNHWC as)) \<subseteq> {..<4}"
  using assms by (auto simp: axis_mask_def upt_rec)

lemma represents_phys:
  "conforms ty s \<Longrightarrow> vtype v = convertRank4NCHWToNHWCType ty \<Longrightarrow> eval sem env v = phys ty s \<Longrightarrow> represents sem env v ty s"
  by (simp add: represents_def)

context tfl_reduce
begin

lemma represents_spatial:
  assumes t: "conforms ity t" "ity = RankedTensor sh F32" "eval sem env v = phys ity t" "trank t = 4"
    and as: "as = [2, 3] \<or> as = [3, 2]" and ty: "ty = RankedTensor os F32"
    and res: "conforms ty (treduce red [False, False, True, True] keep t)"
  shows "represents sem env (reduction nm (convertRank4NCHWToNHWCType ty) v (map mapNCHWAxisToNHWC as) keep) ty
    (treduce red [False, False, True, True] keep t)"
proof -
  let ?x = "ttranspose to_nhwc t" and ?as = "map nat (map mapNCHWAxisToNHWC as)"
  note m = spatial_masks [OF as]
  obtain n c h w where sh: "tshape t = [n, c, h, w]" using t(4) by (auto elim: length_4_cases)
  have x: "eval sem env v = ?x" using t by (auto simp: phys_def conforms_Ranked)
  have ph: "phys ty (treduce red [False, False, True, True] keep t) = treduce red [False, True, True, False] keep ?x"
    using treduce_spatial [OF sh, of red keep] res
    by (cases keep) (auto simp: phys_def ty conforms_Ranked to_nhwc_def sh keep_shape_def kept_dims_def)
  have r4: "trank ?x = 4" by simp
  have "eval sem env (reduction nm (convertRank4NCHWToNHWCType ty) v (map int ?as) keep) =
      treduce red (axis_mask (trank ?x) ?as) keep ?x"
  proof (rule eval_reduction [OF _ x])
    show "conforms (convertRank4NCHWToNHWCType ty) (treduce red (axis_mask (trank ?x) ?as) keep ?x)"
      unfolding r4 m(2) using convert_conforms [OF res] unfolding ph .
  qed (use m in \<open>simp_all add: del: map_map\<close>)
  then show ?thesis
    using res ph unfolding r4 m(2) m(3) [symmetric] by (intro represents_phys) (simp_all add: reduction_def)
qed

end

text \<open>
  When the ReduceMean pattern succeeds, the created value represents the mean of the logical
  operand. The direct path, which reduces height and width of the NHWC representation, and the path
  through the logical order agree; a rank-0 operand and an empty axis list with
  \<^verbatim>\<open>noop_with_empty_axes\<close> are passed through.
\<close>

theorem lower_reduce_mean_correct:
  assumes sem: "tfl_reduce sem ''tfl.mean'' red" and low: "lower_reduce_mean op = Inr v"
    and ax: "read_reduce_axes (red_axes op) = Inr axes"
    and t: "conforms (oty (red_data op)) t" "env 0 = phys (oty (red_data op)) t" "trank t < 2 ^ 31"
    and spec: "spec = (if trank t = 0 then t else onnx_reduce red axes (noopWithEmptyAxes op) (keepDims op) t)"
    and res: "conforms (red_result op) spec"
  shows "represents sem env v (red_result op) spec"
proof -
  let ?ity = "oty (red_data op)" and ?ty = "red_result op" and ?in = "adaptor 0 (red_data op)"
  obtain e where ity: "?ity = RankedTensor (map int (tshape t)) e" using t(1) by (auto simp: conforms_def)
  obtain os e' where ty: "?ty = RankedTensor os e'" using res by (auto simp: conforms_def)
  have valid: "\<not> failed (validateStaticF32TensorOrScalar (convertRank4NCHWToNHWCType ?ity))" "\<not> failed (validateStaticF32TensorOrScalar ?ty)"
    using low by (auto simp: lower_reduce_mean_def ity ty Let_def split: if_splits)
  have e: "e = F32" "e' = F32" using valid by (auto simp: ity ty convert_Ranked elim!: not_failedE)
  let ?noop = "no_axes axes \<and> noopWithEmptyAxes op"
  show ?thesis
  proof (cases "trank t = 0 \<or> ?noop")
    case True
    then have "v = ?in"
      using low ax valid by (auto simp: lower_reduce_mean_def ity ty Let_def getRank_def split: if_splits)
    moreover from True have "spec = t" by (auto simp: spec onnx_reduce_def)
    ultimately show ?thesis using res t(2) by (simp add: represents_def ity ty e conforms_Ranked)
  next
    case False
    then obtain as where n: "normalize_axes (int (trank t)) (replicate (trank t) False) (axes_or_all (int (trank t)) axes) = Inr as"
      and v: "v = (if trank t = 4 \<and> sort as = [2, 3]
        then reduction ''tfl.mean'' (convertRank4NCHWToNHWCType ?ty) ?in (map mapNCHWAxisToNHWC as) (keepDims op)
        else emit_reduce ''tfl.mean'' ?ity ?ty ?in as (keepDims op))"
      using low ax valid by (auto simp: lower_reduce_mean_def ity ty Let_def getRank_def split: if_splits)
    have sp: "spec = onnx_reduce red axes (noopWithEmptyAxes op) (keepDims op) t" using False by (simp add: spec)
    show ?thesis
    proof (cases "trank t = 4 \<and> sort as = [2, 3]")
      case True
      then have as: "as = [2, 3] \<or> as = [3, 2]" by (intro spatial_axes) simp
      have "map nat as = (if no_axes axes then [0..<trank t] else map (\<lambda>a. nat (normalizeAxis a (int (trank t)))) (the axes))"
        using arg_cong [OF normalize_all_axes(1) [OF n], of "map nat"] by (simp add: comp_def)
      then have "spec = treduce red (axis_mask (trank t) (map nat as)) (keepDims op) t"
        using False by (auto simp: sp onnx_reduce_def)
      then have "spec = treduce red [False, False, True, True] (keepDims op) t" using True spatial_masks(1) [OF as] by simp
      then show ?thesis
        using True t res ity ty as unfolding v e
        by (simp add: tfl_reduce.represents_spatial [OF sem t(1)])
    next
      case direct: False
      show ?thesis unfolding v if_not_P [OF direct] sp
        by (rule tfl_reduce.represents_normalized [OF sem n _ t(1) _ t(3) res [unfolded sp]]) (use False t(2) in auto)
    qed
  qed
qed

definition reduce_example :: "int reduce_op" where
  "reduce_example = \<lparr>red_data = \<lparr>oty = RankedTensor [1, 2, 2, 3] F32, oattr = None\<rparr>,
     red_axes = AxesAttribute (Some [-1, 2]), red_noop = None, red_keepdims = Some 1,
     red_result = RankedTensor [1, 2, 1, 1] F32\<rparr>"

theorem lower_reduce_mean_correct_witness:
  "\<exists>v. lower_reduce_mean reduce_example = Inr v \<and>
     represents reference_sem (\<lambda>_. ttranspose to_nhwc nchw_example) v (red_result reduce_example)
       (treduce ref_mean [False, False, True, True] True nchw_example)"
proof -
  have "\<not> failed (lower_reduce_mean reduce_example)" by code_simp
  then obtain v where low: "lower_reduce_mean reduce_example = Inr v" by (rule not_failedE)
  have ax: "read_reduce_axes (red_axes reduce_example) = Inr (Some [-1, 2])"
    by (simp add: reduce_example_def read_reduce_axes_def)
  show ?thesis
    using low
      lower_reduce_mean_correct [OF reference_mean.tfl_reduce_axioms low ax, of nchw_example "\<lambda>_. ttranspose to_nhwc nchw_example"]
    by (simp add: reduce_example_def onnx_reduce_def no_axes_def keepDims_def normalizeAxis_def conforms_Ranked phys_def
        axis_mask_def keep_shape_def upt_rec)
qed

theorem lower_reduce_max_correct_witness:
  "\<exists>v. lower_reduce_max reduce_example = Inr v \<and>
     represents reference_sem (\<lambda>_. ttranspose to_nhwc nchw_example) v (red_result reduce_example)
       (treduce ref_max [False, False, True, True] True nchw_example)"
proof -
  have "\<not> failed (lower_reduce_max reduce_example)" by code_simp
  then obtain v where low: "lower_reduce_max reduce_example = Inr v" by (rule not_failedE)
  have ax: "red_axes reduce_example = AxesAttribute (Some [-1, 2])" by (simp add: reduce_example_def)
  show ?thesis
    using low
      lower_reduce_max_correct [OF reference_max.tfl_reduce_axioms low ax, of nchw_example "\<lambda>_. ttranspose to_nhwc nchw_example"]
    by (simp add: reduce_example_def keepDims_def normalizeAxis_def conforms_Ranked phys_def
        axis_mask_def keep_shape_def upt_rec)
qed

theorem lower_reduce_sum_correct_witness:
  "\<exists>v. lower_reduce_sum reduce_example = Inr v \<and>
     represents reference_sem (\<lambda>_. ttranspose to_nhwc nchw_example) v (red_result reduce_example)
       (treduce ref_sum [False, False, True, True] True nchw_example)"
proof -
  have "\<not> failed (lower_reduce_sum reduce_example)" by code_simp
  then obtain v where low: "lower_reduce_sum reduce_example = Inr v" by (rule not_failedE)
  have ax: "read_reduce_axes (red_axes reduce_example) = Inr (Some [-1, 2])"
    by (simp add: reduce_example_def read_reduce_axes_def)
  show ?thesis
    using low
      lower_reduce_sum_correct [OF reference_sum.tfl_reduce_axioms low ax, of nchw_example "\<lambda>_. ttranspose to_nhwc nchw_example"]
    by (simp add: reduce_example_def onnx_reduce_def no_axes_def keepDims_def normalizeAxis_def conforms_Ranked phys_def
        axis_mask_def keep_shape_def upt_rec)
qed

section \<open>Correctness of Softmax\<close>

definition last_perm :: "nat \<Rightarrow> nat \<Rightarrow> nat list" where
  "last_perm n a = filter (\<lambda>i. i \<noteq> a) [0..<n] @ [a]"

lemma softmax_permutation_int: "softmax_permutation (int n) (int a) = map int (last_perm n a)"
  by (simp add: softmax_permutation_def last_perm_def int_upto filter_map comp_def)

lemma is_perm_last_perm:
  assumes "a < n" shows "is_perm (last_perm n a) n" and "ipos (last_perm n a) a = n - 1"
proof -
  have l: "length (filter (\<lambda>i. i \<noteq> a) [0..<n]) = n - 1"
  proof -
    have "length (filter (\<lambda>i. i \<noteq> a) [0..<n]) = card ({..<n} - {a})"
      by (subst distinct_card [symmetric]) (auto intro!: arg_cong [where f = card])
    then show ?thesis using assms by simp
  qed
  show "is_perm (last_perm n a) n" using l assms by (auto simp: is_perm_def last_perm_def)
  show "ipos (last_perm n a) a = n - 1"
    by (simp add: ipos_def last_perm_def takeWhile_append l) 
qed

lemma fill_inverse_spec:
  assumes "distinct p" and "\<forall>k\<in>set p. k < length q"
  shows "length (fill_inverse (map int p) i q) = length q"
    and "k < length q \<Longrightarrow> fill_inverse (map int p) i q ! k = (if k \<in> set p then i + int (ipos p k) else q ! k)"
  using assms
proof (induction p arbitrary: i q)
  case (Cons a p)
  { case 1 with Cons.IH(1) [of "q[a := i]"] show ?case by simp }
  { case 2 with Cons.IH(2) [of "q[a := i]" "i + 1"] show ?case by (auto simp: ipos_def nth_list_update) }
qed simp_all

lemma fill_inverse_inv_perm:
  assumes "is_perm p n" shows "fill_inverse (map int p) 0 (replicate n 0) = map int (inv_perm p)"
proof (rule nth_equalityI)
  have d: "distinct p" "\<forall>k\<in>set p. k < length (replicate n (0 :: int))" using assms by (simp_all add: is_perm_def)
  note f = fill_inverse_spec [OF d]
  have l: "length p = n" using assms by (rule is_perm_length)
  show "length (fill_inverse (map int p) 0 (replicate n 0)) = length (map int (inv_perm p))" using f(1) l by simp
  fix k assume "k < length (fill_inverse (map int p) 0 (replicate n 0))"
  then have k: "k < n" using f(1) by simp
  then have "k \<in> set p" using is_perm_set [OF assms] by simp
  then show "fill_inverse (map int p) 0 (replicate n 0) ! k = map int (inv_perm p) ! k"
    using f(2) [of k 0] k l by (simp add: inv_perm_def)
qed

lemma talong_moved_last:
  assumes a: "a < trank x" and p: "p = last_perm (trank x) a"
  shows "ttranspose (inv_perm p) (talong (trank x - 1) f (ttranspose p x)) = talong a f x"
proof -
  have pp: "is_perm p (trank x)" "ipos p a = trank x - 1" using a p by (simp_all add: is_perm_last_perm)
  have q: "is_perm (inv_perm p) (trank x)" using pp(1) by auto
  have "talong (trank x - 1) f (ttranspose p x) = ttranspose p (talong a f x)"
    using ttranspose_talong [OF pp(1) a] pp(2) by simp
  moreover have "permute (inv_perm p) p = [0..<trank x]"
    using nth_ipos [of _ p] is_perm_set [OF pp(1)] is_perm_length [OF pp(1)]
    by (auto simp: permute_def inv_perm_def intro!: nth_equalityI)
  ultimately show ?thesis using pp q by (simp add: ttranspose_inverse)
qed

lemma tfl_transpose_op:
  assumes "tfl_layout sem" and "wf_tensor x" and "eval sem env v = x" and "is_perm p (trank x)" and "trank x < 2 ^ 31"
    and "conforms ty (ttranspose p x)"
  shows "eval sem env (createTFLOperation ''tfl.transpose'' [ty] [v, createI32ShapeConstant (map int p)] [] 0) = ttranspose p x"
proof -
  have "i32_dims p" using assms(4,5) by (auto simp: i32_dims_def is_perm_def)
  then show ?thesis using assms tfl_layout.transpose [OF assms(1,2,4), of "[ty]"] by (simp add: map_i32_comp_dims)
qed

context tfl_softmax
begin

lemma eval_softmax_moved:
  assumes x: "wf_tensor x" "eval sem env v = x" and a: "a < trank x" "trank x < 2 ^ 31"
    and p: "p = last_perm (trank x) a" and ty: "conforms ty (talong a f x)"
  shows "eval sem env (createTFLOperation ''tfl.transpose'' [ty]
      [createTFLOperation ''tfl.softmax'' [RankedTensor (map int (permute p (tshape x))) e]
         [createTFLOperation ''tfl.transpose'' [RankedTensor (map int (permute p (tshape x))) e]
            [v, createI32ShapeConstant (map int p)] [] 0] [(''beta'', FloatAttr one)] 0,
       createI32ShapeConstant (map int (inv_perm p))] [] 0) = talong a f x"
proof -
  let ?ty = "RankedTensor (map int (permute p (tshape x))) e" and ?y = "ttranspose p x"
  let ?fw = "createTFLOperation ''tfl.transpose'' [?ty] [v, createI32ShapeConstant (map int p)] [] 0"
  let ?sm = "createTFLOperation ''tfl.softmax'' [?ty] [?fw] [(''beta'', FloatAttr one)] 0"
  have pp: "is_perm p (trank x)" using a p by (simp add: is_perm_last_perm)
  have r: "trank ?y = trank x" using is_perm_length [OF pp] by simp
  have fw: "eval sem env ?fw = ?y" using x a pp by (intro tfl_transpose_op tfl_layout_axioms) (simp_all add: conforms_Ranked)
  have "eval sem env ?sm = talong (trank ?y - 1) f ?y"
  proof -
    have "0 < trank ?y" using a(1) unfolding r by linarith
    then have "sem ''tfl.softmax'' [(''beta'', FloatAttr one)] [?ty] [?y] = [talong (trank ?y - 1) f ?y]"
      by (intro softmax) (simp_all add: conforms_Ranked)
    then show ?thesis using fw by simp
  qed
  then have sm: "eval sem env ?sm = talong (trank x - 1) f ?y" using r by simp
  have back_eq: "ttranspose (inv_perm p) (talong (trank x - 1) f ?y) = talong a f x"
    by (rule talong_moved_last [OF a(1) p])
  have "eval sem env (createTFLOperation ''tfl.transpose'' [ty] [?sm, createI32ShapeConstant (map int (inv_perm p))] [] 0) =
      ttranspose (inv_perm p) (talong (trank x - 1) f ?y)"
    by (rule tfl_transpose_op [OF tfl_layout_axioms _ sm]) (use pp a ty back_eq in \<open>auto simp: is_perm_length\<close>)
  then show ?thesis unfolding back_eq .
qed

lemma eval_emit_softmax:
  assumes x: "wf_tensor x" "eval sem env v = x" and a: "a < trank x" "trank x < 2 ^ 31" and ty: "conforms ty (talong a f x)"
  shows "eval sem env (emit_softmax one (int a) (map int (tshape x)) e ty v) = talong a f x"
proof (cases "a = trank x - 1")
  case True
  have "0 < trank x" using a(1) by linarith
  then have "sem ''tfl.softmax'' [(''beta'', FloatAttr one)] [ty] [x] = [talong a f x]"
    using softmax [of x "[ty]"] x ty True by simp
  moreover have "int a = int (trank x) - 1" using True a by linarith
  ultimately show ?thesis using x by (simp add: emit_softmax_def)
next
  case False
  let ?p = "last_perm (trank x) a"
  have pp: "is_perm ?p (trank x)" using a(1) by (rule is_perm_last_perm)
  have "map ((\<lambda>q. map int (tshape x) ! nat q) \<circ> int) ?p = map int (permute ?p (tshape x))"
    using pp by (auto simp: permute_def is_perm_def)
  moreover have "int a \<noteq> int (trank x) - 1" using False a by linarith
  ultimately show ?thesis
    using eval_softmax_moved [OF x a refl ty, of e]
    by (simp add: emit_softmax_def Let_def softmax_permutation_int fill_inverse_inv_perm [OF pp] del: eval_createTFLOperation)
qed

end

lemma softmax_represents:
  assumes sem: "tfl_softmax sem one f" and low: "lower_softmax one op = Inr v"
    and t: "conforms (oty (sm_input op)) t" "env 0 = phys (oty (sm_input op)) t" "trank t < 2 ^ 31"
    and a: "a = nat (normalizeAxis (case sm_axis op of Some a \<Rightarrow> a | None \<Rightarrow> - 1) (int (trank t)))"
    and res: "conforms (sm_result op) t"
  shows "represents sem env v (sm_result op) (talong a f t)"
proof -
  let ?ity = "oty (sm_input op)" and ?ty = "sm_result op" and ?in = "adaptor 0 (sm_input op)" and ?x = "phys (oty (sm_input op)) t"
  let ?axis = "normalizeAxis (case sm_axis op of Some a \<Rightarrow> a | None \<Rightarrow> - 1) (int (trank t))"
  obtain e where ity: "?ity = RankedTensor (map int (tshape t)) e" using t(1) by (auto simp: conforms_def)
  obtain e' where ty: "?ty = RankedTensor (map int (tshape t)) e'" using res by (auto simp: conforms_def)
  have wf: "wf_tensor t" using t(1) by (rule conforms_wf)
  have val: "\<not> failed (validateStaticF32Tensor (convertRank4NCHWToNHWCType ?ity))" "\<not> failed (validateStaticF32Tensor ?ty)"
    using low by (auto simp: lower_softmax_def Let_def split: if_splits)
  have e: "e = F32" "e' = F32" using val by (auto simp: failed_validate ity ty convert_Ranked)
  have ity': "convertRank4NCHWToNHWCType ?ity = RankedTensor (map int (tshape ?x)) F32"
    by (simp add: ity e convert_Ranked phys_def permute_nhwc_map)
  have rk: "trank ?x = trank t" by (simp add: phys_def ity e)
  let ?b = "if trank t = 4 then ipos to_nhwc a else a"
  have ax: "0 \<le> ?axis" "?axis < int (trank t)"
    using low val rk by (auto simp: lower_softmax_def ity' Let_def split: if_splits)
  have b: "(if int (trank t) = 4 then mapNCHWAxisToNHWC ?axis else ?axis) = int ?b"
    using ax mapped_axis [of ?axis] by (auto simp: a)
  have al: "a < trank t" using ax a by simp
  have bl: "?b < trank ?x" using al ipos_bound [of to_nhwc 4 a] rk by simp
  have ph: "phys ?ty (talong a f t) = talong ?b f ?x"
    using al by (simp add: phys_def ity ty e ttranspose_talong)
  have cf: "conforms (convertRank4NCHWToNHWCType ?ty) (talong ?b f ?x)"
    using convert_conforms [of ?ty "talong a f t"] ph by (simp add: ty conforms_Ranked)
  have "v = emit_softmax one (int ?b) (map int (tshape ?x)) F32 (convertRank4NCHWToNHWCType ?ty) ?in"
    using low val ax unfolding b [symmetric] by (simp add: lower_softmax_def ity' rk Let_def)
  moreover have "eval sem env ?in = ?x" using t(2) by simp
  ultimately have "eval sem env v = talong ?b f ?x" "vtype v = convertRank4NCHWToNHWCType ?ty"
    using tfl_softmax.eval_emit_softmax [OF sem _ _ bl _ cf] t(3) wf rk
    by (simp_all add: phys_def emit_softmax_def Let_def)
  then show ?thesis using ph ty by (intro represents_phys) (simp_all add: conforms_Ranked)
qed

text \<open>
  C35: when the Softmax pattern succeeds, the created value represents the row function applied along
  the normalised logical axis, whatever that function is: directly when the axis is the last one of
  the representation, otherwise between two mutually inverse transposes.
\<close>

theorem lower_softmax_correct:
  assumes "tfl_softmax sem one f" and "lower_softmax one op = Inr v"
    and "conforms (oty (sm_input op)) t" "env 0 = phys (oty (sm_input op)) t" "trank t < 2 ^ 31"
    and "a = nat (normalizeAxis (case sm_axis op of Some a \<Rightarrow> a | None \<Rightarrow> - 1) (int (trank t)))"
    and "conforms (sm_result op) t"
  shows "represents sem env v (sm_result op) (talong a f t)"
  using assms by (rule softmax_represents)

definition softmax_example :: "int softmax_op" where
  "softmax_example = \<lparr>sm_input = \<lparr>oty = RankedTensor [1, 2, 2, 3] F32, oattr = None\<rparr>,
     sm_axis = Some (-1), sm_result = RankedTensor [1, 2, 2, 3] F32\<rparr>"

theorem lower_softmax_correct_witness:
  "\<exists>v. lower_softmax 1 softmax_example = Inr v \<and>
     represents reference_sem (\<lambda>_. ttranspose to_nhwc nchw_example) v (sm_result softmax_example) (talong 3 ref_softmax nchw_example)"
proof -
  have "\<not> failed (lower_softmax 1 softmax_example)" by code_simp
  then obtain v where low: "lower_softmax 1 softmax_example = Inr v" by (rule not_failedE)
  show ?thesis
    using low lower_softmax_correct [OF reference_softmax.tfl_softmax_axioms low, of nchw_example "\<lambda>_. ttranspose to_nhwc nchw_example"]
    by (simp add: softmax_example_def conforms_Ranked phys_def normalizeAxis_def)
qed

end
