(* ===== verification/Lower_Arg.thy ===== *)
theory Lower_Arg
  imports Lower_Activation Lower_Reduce
begin

text \<open>
  Models of \<^verbatim>\<open>Math/ArgMax.cpp\<close> (one template for ArgMax and ArgMin) and of Hardmax in
  \<^verbatim>\<open>Math/LegacyMath.cpp\<close>. The kernels return the first extremal position; the last one is obtained
  by reversing the axis and subtracting from the last index.
\<close>

definition createI64ScalarTensorConstant :: "int \<Rightarrow> 'f val" where
  "createI64ScalarTensorConstant value = ConstI (RankedTensor [] I64) [value]"

record 'f arg_op =
  arg_data :: "'f operand"
  arg_axis :: int
  arg_keepdims :: int
  arg_select_last :: int
  arg_result :: mtype

definition arg_expected_shape :: "bool \<Rightarrow> nat \<Rightarrow> int list \<Rightarrow> int list" where
  "arg_expected_shape keep axis shape = (if keep then shape[axis := 1] else remove_ix axis shape)"

definition emit_arg :: "string \<Rightarrow> int list \<Rightarrow> mtype \<Rightarrow> mtype \<Rightarrow> int \<Rightarrow> bool \<Rightarrow> bool \<Rightarrow> 'f val \<Rightarrow> 'f val" where
  "emit_arg tflName inShape inputType resultType axis keep lastIndex input =
     (let restored = (if physical4 inputType then restoreLogicalRank4 inputType input else input);
          reversed = (if lastIndex then createTFLOperation ''tfl.reverse_v2'' [inputType]
                        [restored, createI32ShapeConstant [axis]] [] 0 else restored);
          nativeResultType = RankedTensor (remove_ix (nat axis) inShape) I64;
          first = createTFLOperation tflName [nativeResultType]
                    [reversed, createI32ScalarTensorConstant (i32 axis)] [] 0;
          res = (if lastIndex then createTFLOperation ''tfl.sub'' [nativeResultType]
                   [createI64ScalarTensorConstant (inShape ! nat axis - 1), first] [getFusedActivationNone] 0 else first) in
      if keep then emitReshape resultType (case resultType of RankedTensor sh e \<Rightarrow> sh | _ \<Rightarrow> []) res else res)"

definition lower_arg :: "string \<Rightarrow> 'f arg_op \<Rightarrow> 'f val result" where
  "lower_arg tflName op =
     (case (oty (arg_data op), arg_result op) of
        (RankedTensor inShape inElt, RankedTensor outShape outElt) \<Rightarrow>
          if \<not> hasStaticShape inShape \<or> \<not> (isF32 inElt \<or> isSignlessInteger 32 inElt) \<or>
             \<not> hasStaticShape outShape \<or> \<not> isSignlessInteger 64 outElt
          then Inl BadTypes
          else
            let rank = getRank inShape; axis = normalizeAxis (arg_axis op) rank; keep = (arg_keepdims op \<noteq> 0) in
            if rank < 2 \<or> 5 < rank then Inl BadRank
            else if axis < 0 \<or> rank \<le> axis then Inl BadAxis
            else if arg_keepdims op \<notin> {0, 1} \<or> arg_select_last op \<notin> {0, 1} then Inl BadAttribute
            else if arg_expected_shape keep (nat axis) inShape \<noteq> outShape then Inl ShapeMismatch
            else Inr (emit_arg tflName inShape (oty (arg_data op)) (arg_result op) axis keep (arg_select_last op \<noteq> 0)
                        (adaptor 0 (arg_data op)))
      | _ \<Rightarrow> Inl BadTypes)"

record 'f hardmax_op =
  hm_input :: "'f operand"
  hm_axis :: int
  hm_result :: mtype

definition emit_hardmax :: "'f \<Rightarrow> 'f \<Rightarrow> int list \<Rightarrow> mtype \<Rightarrow> int \<Rightarrow> 'f val \<Rightarrow> 'f val" where
  "emit_hardmax zero one shape ty axis input =
     (let restored = (if physical4 ty then restoreLogicalRank4 ty input else input);
          indices = createTFLOperation ''tfl.arg_max'' [RankedTensor (remove_ix (nat axis) shape) I32]
            [restored, createI32ScalarTensorConstant (i32 axis)] [] 0;
          res = createTFLOperation ''tfl.one_hot'' [ty]
            [indices, createI32ScalarTensorConstant (i32 (shape ! nat axis)), createF32ScalarTensorConstant one,
             createF32ScalarTensorConstant zero] [(''axis'', IntAttr (i32 axis))] 0 in
      if physical4 ty then toPhysicalRank4 ty res else res)"

definition lower_hardmax :: "'f \<Rightarrow> 'f \<Rightarrow> 'f hardmax_op \<Rightarrow> 'f val result" where
  "lower_hardmax zero one op =
     (case (oty (hm_input op), hm_result op) of
        (RankedTensor shape elt, RankedTensor outShape outElt) \<Rightarrow>
          if getRank shape < 1 \<or> 5 < getRank shape \<or> failed (validateStaticF32Tensor (oty (hm_input op))) \<or>
             failed (validateStaticF32Tensor (hm_result op)) \<or> oty (hm_input op) \<noteq> hm_result op
          then Inl BadTypes
          else
            let rank = getRank shape; axis = normalizeAxis (hm_axis op) rank in
            if axis < 0 \<or> rank \<le> axis then Inl BadAxis
            else if shape ! nat axis \<le> 0 \<or> int32_max < shape ! nat axis then Inl SizeOutOfRange
            else Inr (emit_hardmax zero one shape (hm_result op) axis (adaptor 0 (hm_input op)))
      | _ \<Rightarrow> Inl BadTypes)"

section \<open>Rows of a reversed axis\<close>

lemma trow_treverse:
  assumes "a < trank t" and "valid_ix (tshape t) is" and "wf_tensor t"
  shows "trow a (treverse a t) is = rev (trow a t is)"
proof (rule nth_equalityI)
  have l: "length is = trank t" using assms(2) by (rule valid_ix_length)
  show "length (trow a (treverse a t) is) = length (rev (trow a t is))" by (simp add: trow_def)
  fix j assume "j < length (trow a (treverse a t) is)"
  then have j: "j < tshape t ! a" by (simp add: trow_def)
  have v: "valid_ix (tshape t) (is[a := k])" if "k < tshape t ! a" for k
    using assms(1,2) that l by (intro valid_ixI) (auto simp: nth_list_update dest: valid_ix_nth)
  have "apply_ix ((replicate (trank t) id)[a := \<lambda>i. tshape t ! a - 1 - i]) (is[a := j]) = is[a := tshape t ! a - 1 - j]"
    using l assms(1) by (intro nth_equalityI) (auto simp: nth_list_update)
  then have "tnth (treverse a t) (is[a := j]) = tnth t (is[a := tshape t ! a - 1 - j])"
    using v [OF j] by (simp add: treverse_def)
  then show "trow a (treverse a t) is ! j = rev (trow a t is) ! j"
    using j by (simp add: trow_def rev_nth)
qed

lemma valid_insert_ix:
  assumes "a < length ds" and "valid_ix (remove_ix a ds) is" and "j < ds ! a"
  shows "valid_ix ds (insert_ix a j is)"
proof (rule valid_ixI)
  have l: "length is = length ds - 1" using valid_ix_length [OF assms(2)] assms(1) by simp
  then show "length (insert_ix a j is) = length ds" using assms(1) by (simp add: insert_ix_def)
  fix k assume k: "k < length ds"
  have v: "is ! m < remove_ix a ds ! m" if "m < length ds - 1" for m
    using valid_ix_nth [OF assms(2), of m] that assms(1) by simp
  consider "k < a" | "k = a" | "a < k" by linarith
  then show "insert_ix a j is ! k < ds ! k"
  proof cases
    case 1
    then show ?thesis using v [of k] k l assms(1) by (simp add: insert_ix_def remove_ix_def nth_append)
  next
    case 2
    then show ?thesis using assms l by (simp add: insert_ix_def nth_append)
  next
    case 3
    then obtain m where m: "k = Suc m" "a \<le> m" by (cases k) auto
    then have "is ! m < remove_ix a ds ! m" using v [of m] k by simp
    then show ?thesis using m k l assms(1) by (simp add: insert_ix_def remove_ix_def nth_append nth_Cons')
  qed
qed

lemma trows_treverse:
  assumes "a < trank t" and "wf_tensor t" and "0 < tshape t ! a"
  shows "trows a g (treverse a t) = trows a (\<lambda>xs. g (rev xs)) t"
  using assms by (auto simp: trows_def trow_treverse valid_insert_ix intro!: tgen_cong)

lemma trows_cong:
  assumes "a < trank t" and "0 < tshape t ! a" and "\<And>xs. length xs = tshape t ! a \<Longrightarrow> g xs = h xs"
  shows "trows a g t = trows a h t"
  using assms(3) by (auto simp: trows_def trow_def intro!: tgen_cong)

lemma tmap_trows: "tmap g (trows a h t) = trows a (\<lambda>xs. g (h xs)) t"
  by (simp add: tmap_def trows_def tgen_def)

section \<open>Correctness\<close>

definition onnx_arg :: "('f scalar \<Rightarrow> 'f scalar \<Rightarrow> bool) \<Rightarrow> bool \<Rightarrow> bool \<Rightarrow> nat \<Rightarrow> 'f scalar tensor \<Rightarrow> 'f scalar tensor" where
  "onnx_arg better lastIndex keep a t =
     (let r = trows a (\<lambda>xs. IV (int (if lastIndex then arg_last better xs else arg_first better xs))) t in
      if keep then treshape ((tshape t)[a := 1]) r else r)"

lemma prod_list_remove_ix:
  fixes xs :: "nat list" assumes "a < length xs" shows "prod_list (xs[a := Suc 0]) = prod_list (remove_ix a xs)"
  using assms by (simp add: upd_conv_take_nth_drop remove_ix_def)

lemma remove_ix_map: "remove_ix a (map f xs) = map f (remove_ix a xs)"
  by (simp add: remove_ix_def take_map drop_map)

context tfl_arg
begin

lemma eval_arg:
  assumes "wf_tensor x" "eval sem env v = x" "a < trank x" "0 < tshape x ! a" "trank x \<le> 5"
  shows "eval sem env (createTFLOperation nm [RankedTensor (map int (remove_ix a (tshape x))) e]
    [v, createI32ScalarTensorConstant (i32 (int a))] [] 0) = trows a (\<lambda>xs. IV (int (arg_first better xs))) x"
  using assms arg [of x a "[RankedTensor (map int (remove_ix a (tshape x))) e]"] by (simp add: conforms_Ranked fits_i32_def)

text \<open>The last extremal position through the reversed axis.\<close>

lemma eval_arg_last:
  assumes slicing: "tfl_slicing sem" and sub: "tfl_binary sem ''tfl.sub'' [getFusedActivationNone] subf 5"
    and subf: "\<And>i j. subf (IV i) (IV j) = IV (i - j)"
    and x: "wf_tensor x" "eval sem env v = x" "a < trank x" "0 < tshape x ! a" "trank x \<le> 5"
    and ty: "ty = RankedTensor (map int (tshape x)) e"
  defines "nty \<equiv> RankedTensor (map int (remove_ix a (tshape x))) I64"
  shows "eval sem env (createTFLOperation ''tfl.sub'' [nty]
      [createI64ScalarTensorConstant (int (tshape x ! a) - 1),
       createTFLOperation nm [nty]
         [createTFLOperation ''tfl.reverse_v2'' [ty] [v, createI32ShapeConstant [int a]] [] 0,
          createI32ScalarTensorConstant (i32 (int a))] [] 0] [getFusedActivationNone] 0) =
    trows a (\<lambda>xs. IV (int (arg_last better xs))) x"
proof -
  let ?r = "createTFLOperation ''tfl.reverse_v2'' [ty] [v, createI32ShapeConstant [int a]] [] 0"
  let ?g = "createTFLOperation nm [nty] [?r, createI32ScalarTensorConstant (i32 (int a))] [] 0"
  let ?y = "trows a (\<lambda>xs. IV (int (arg_first better xs))) (treverse a x)"
  have "eval sem env ?r = treverse a x"
    using tfl_slicing.reverse_v2 [OF slicing x(1,3), of "[ty]"] x by (simp add: ty conforms_Ranked fits_i32_def)
  then have g: "eval sem env ?g = ?y" using eval_arg [of "treverse a x" env ?r a I64] x by (simp add: nty_def)
  have "eval sem env (createTFLOperation ''tfl.sub'' [nty] [createI64ScalarTensorConstant (int (tshape x ! a) - 1), ?g]
      [getFusedActivationNone] 0) = tmap (subf (IV (int (tshape x ! a) - 1))) ?y"
    using x by (intro tfl_binary.eval_scalar_left [OF sub _ g])
      (simp_all add: createI64ScalarTensorConstant_def nty_def conforms_Ranked)
  also have "\<dots> = trows a (\<lambda>xs. IV (int (tshape x ! a) - 1 - int (arg_first better (rev xs)))) x"
    using x by (simp add: trows_treverse tmap_trows subf)
  also have "\<dots> = trows a (\<lambda>xs. IV (int (arg_last better xs))) x"
  proof (rule trows_cong [OF x(3,4)])
    fix xs :: "'f scalar list" assume l: "length xs = tshape x ! a"
    then have b: "best better xs \<noteq> []" "best better (rev xs) \<noteq> []" using x(4) by (auto intro!: best_exists)
    have "arg_first better (rev xs) \<in> set (best better (rev xs))" using b(2) by (simp add: arg_first_def)
    then have "arg_first better (rev xs) < length xs" by (auto simp: best_def)
    then show "IV (int (tshape x ! a) - 1 - int (arg_first better (rev xs))) = IV (int (arg_last better xs))"
      using arg_last_rev [OF b(1)] l by simp
  qed
  finally show ?thesis .
qed

end

text \<open>
  C36: when the ArgMax or ArgMin pattern succeeds on an operand whose reduced axis is not empty, the
  created value represents the first extremal position along the logical axis, or the last one with
  \<^verbatim>\<open>select_last_index\<close>, with the axis kept or removed as \<^verbatim>\<open>keepdims\<close> says.
\<close>

theorem lower_arg_correct:
  assumes sem: "tfl_arg sem nm better" "tfl_slicing sem" "tfl_binary sem ''tfl.sub'' [getFusedActivationNone] subf 5"
    and subf: "\<And>i j. subf (IV i) (IV j) = IV (i - j)" and low: "lower_arg nm op = Inr v"
    and t: "conforms (oty (arg_data op)) t" "env 0 = phys (oty (arg_data op)) t" "i32_dims (tshape t)"
    and a: "a = nat (normalizeAxis (arg_axis op) (int (trank t)))" and pos: "0 < tshape t ! a"
  shows "represents sem env v (arg_result op) (onnx_arg better (arg_select_last op \<noteq> 0) (arg_keepdims op \<noteq> 0) a t)"
proof -
  let ?ity = "oty (arg_data op)" and ?ty = "arg_result op" and ?in = "adaptor 0 (arg_data op)"
  let ?last = "arg_select_last op \<noteq> 0" and ?keep = "arg_keepdims op \<noteq> 0"
  let ?axis = "normalizeAxis (arg_axis op) (int (trank t))"
  obtain e where ity: "?ity = RankedTensor (map int (tshape t)) e" using t(1) by (auto simp: conforms_def)
  obtain os where ty: "?ty = RankedTensor os I64"
    using low by (auto simp: lower_arg_def ity isSignlessInteger_def split: mtype.splits if_splits)
  have c: "2 \<le> trank t" "trank t \<le> 5" "0 \<le> ?axis" "?axis < int (trank t)" "os = arg_expected_shape ?keep a (map int (tshape t))"
    and v: "v = emit_arg nm (map int (tshape t)) ?ity ?ty ?axis ?keep ?last ?in"
    using low by (auto simp: lower_arg_def ity ty a Let_def split: if_splits)
  have al: "a < trank t" and ax: "?axis = int a" using c a by simp_all
  let ?r = "if physical4 ?ity then restoreLogicalRank4 ?ity ?in else ?in"
  have x: "eval sem env ?r = t"
    using t sem(2) by (intro tfl_layout.eval_logical_operand) (simp_all add: tfl_slicing_def)
  let ?nty = "RankedTensor (map int (remove_ix a (tshape t))) I64"
  let ?s = "trows a (\<lambda>xs. IV (int (if ?last then arg_last better xs else arg_first better xs))) t"
  define res where "res = (if ?last then createTFLOperation ''tfl.sub'' [?nty]
      [createI64ScalarTensorConstant (int (tshape t ! a) - 1),
       createTFLOperation nm [?nty]
         [createTFLOperation ''tfl.reverse_v2'' [?ity] [?r, createI32ShapeConstant [int a]] [] 0,
          createI32ScalarTensorConstant (i32 (int a))] [] 0] [getFusedActivationNone] 0
    else createTFLOperation nm [?nty] [?r, createI32ScalarTensorConstant (i32 (int a))] [] 0)"
  have wf: "wf_tensor t" using t(1) by (rule conforms_wf)
  have r: "eval sem env res = ?s"
    using tfl_arg.eval_arg_last [OF sem(1-3) subf wf x al pos c(2) ity] tfl_arg.eval_arg [OF sem(1) wf x al pos c(2), of I64]
    by (cases ?last) (simp_all add: res_def del: eval_createTFLOperation)
  have v': "v = (if ?keep then emitReshape ?ty os res else res)"
    using al by (simp add: v emit_arg_def Let_def ax res_def ty remove_ix_map)
  have np: "\<not> physical4 ?ty" by (simp add: ty)
  have os: "os = map int (if ?keep then (tshape t)[a := 1] else remove_ix a (tshape t))"
    using c(5) by (simp add: arg_expected_shape_def remove_ix_map map_update)
  have "eval sem env v = onnx_arg better ?last ?keep a t \<and> vtype v = ?ty"
  proof (cases ?keep)
    case True
    have "eval sem env (emitReshape ?ty (map int ((tshape t)[a := 1])) res) = treshape ((tshape t)[a := 1]) ?s"
      by (rule tfl_layout.eval_emitReshape [OF _ _ r])
        (use sem(2) t(3) al os True in \<open>auto simp: tfl_slicing_def prod_list_remove_ix i32_dims_def ty dest!: set_update_subset_insert [THEN subsetD]\<close>)
    then show ?thesis using True os by (simp add: v' onnx_arg_def)
  next
    case False
    then show ?thesis using r os by (simp add: v' onnx_arg_def ty res_def del: eval_createTFLOperation)
  qed
  moreover have "conforms ?ty (onnx_arg better ?last ?keep a t)"
    using os al by (simp add: ty conforms_Ranked onnx_arg_def wf_treshape prod_list_remove_ix)
  ultimately show ?thesis using np by (intro represents_logical) simp_all
qed

definition arg_example :: "int arg_op" where
  "arg_example = \<lparr>arg_data = \<lparr>oty = RankedTensor [1, 2, 2, 3] F32, oattr = None\<rparr>,
     arg_axis = -3, arg_keepdims = 1, arg_select_last = 1, arg_result = RankedTensor [1, 1, 2, 3] I64\<rparr>"

theorem lower_arg_correct_witness:
  "\<exists>v. lower_arg ''tfl.arg_max'' arg_example = Inr v \<and>
     represents reference_sem (\<lambda>_. ttranspose to_nhwc nchw_example) v (arg_result arg_example)
       (onnx_arg ref_greater True True 1 nchw_example)"
proof -
  have "\<not> failed (lower_arg ''tfl.arg_max'' arg_example)" by code_simp
  then obtain v where low: "lower_arg ''tfl.arg_max'' arg_example = Inr v" by (rule not_failedE)
  have "ref_arith (-) (IV i) (IV j) = IV (i - j)" for i j by (simp add: ref_arith_def)
  from lower_arg_correct [OF reference_arg_max.tfl_arg_axioms reference.tfl_slicing_axioms reference_sub.tfl_binary_axioms
      this low, of nchw_example "\<lambda>_. ttranspose to_nhwc nchw_example"] low
  show ?thesis by (simp add: arg_example_def example_simps normalizeAxis_def)
qed

section \<open>Hardmax\<close>

definition onnx_hardmax :: "('f scalar \<Rightarrow> 'f scalar \<Rightarrow> bool) \<Rightarrow> 'f scalar \<Rightarrow> 'f scalar \<Rightarrow> nat \<Rightarrow> 'f scalar tensor \<Rightarrow> 'f scalar tensor" where
  "onnx_hardmax better zero one a t =
     talong a (\<lambda>xs. map (\<lambda>i. if i = arg_first better xs then one else zero) [0..<length xs]) t"

lemma insert_remove_ix: "a < length xs \<Longrightarrow> insert_ix a (xs ! a) (remove_ix a xs) = xs"
  by (simp add: insert_ix_def remove_ix_def id_take_nth_drop [symmetric])

lemma valid_remove_ix:
  assumes "a < length ds" and "valid_ix ds is" shows "valid_ix (remove_ix a ds) (remove_ix a is)"
  using assms by (simp add: valid_ix_def remove_ix_def list_all2_appendI list_all2_takeI list_all2_dropI)

lemma trow_update: "trow a t (is[a := j]) = trow a t is"
  by (simp add: trow_def)

lemma insert_remove_update: "a < length is \<Longrightarrow> insert_ix a j (remove_ix a is) = is[a := j]"
  by (simp add: insert_ix_def remove_ix_def upd_conv_take_nth_drop)

lemma hardmax_decomposition:
  fixes one :: "'f scalar"
  assumes "a < trank t"
  shows "tone_hot a (tshape t ! a) one zero (trows a (\<lambda>xs. IV (int (arg_first better xs))) t) = onnx_hardmax better zero one a t"
  unfolding tone_hot_def onnx_hardmax_def talong_def tshape_trows insert_remove_ix [OF assms]
proof (rule tgen_cong)
  fix "is" assume v: "valid_ix (tshape t) is"
  have l: "length is = trank t" and j: "is ! a < tshape t ! a" using v assms by (simp_all add: valid_ix_length valid_ix_nth)
  have "tnth (trows a (\<lambda>xs. IV (int (arg_first better xs)) :: 'f scalar) t) (remove_ix a is) = IV (int (arg_first better (trow a t is)))"
    using valid_remove_ix [OF assms v] assms l by (simp add: trows_def insert_remove_update trow_update)
  then show "(if tnth (trows a (\<lambda>xs. IV (int (arg_first better xs)) :: 'f scalar) t) (remove_ix a is) = IV (int (is ! a)) then one else zero) =
      map (\<lambda>i. if i = arg_first better (trow a t is) then one else zero) [0..<length (trow a t is)] ! (is ! a)"
    using j by (simp add: trow_def)
qed (rule refl)

text \<open>
  When the Hardmax pattern succeeds, the created value represents the tensor that is one at the
  first maximum of each row along the logical axis and zero elsewhere.
\<close>

theorem lower_hardmax_correct:
  assumes sem: "tfl_arg sem ''tfl.arg_max'' better" "tfl_one_hot sem" and low: "lower_hardmax zero one op = Inr v"
    and t: "conforms (oty (hm_input op)) t" "env 0 = phys (oty (hm_input op)) t"
    and a: "a = nat (normalizeAxis (hm_axis op) (int (trank t)))"
  shows "represents sem env v (hm_result op) (onnx_hardmax better (FV zero) (FV one) a t)"
proof -
  let ?ty = "hm_result op" and ?in = "adaptor 0 (hm_input op)" and ?axis = "normalizeAxis (hm_axis op) (int (trank t))"
  obtain e where ity: "oty (hm_input op) = RankedTensor (map int (tshape t)) e" using t(1) by (auto simp: conforms_def)
  have ty: "oty (hm_input op) = ?ty" using low by (auto simp: lower_hardmax_def split: mtype.splits if_splits)
  have c: "trank t \<le> 5" "0 \<le> ?axis" "?axis < int (trank t)" "0 < tshape t ! a" "int (tshape t ! a) \<le> int32_max"
    and v: "v = emit_hardmax zero one (map int (tshape t)) ?ty ?axis ?in"
    using low by (auto simp: lower_hardmax_def ity ty [symmetric] a Let_def split: if_splits)
  have al: "a < trank t" and ax: "?axis = int a" using c a by simp_all
  have wf: "wf_tensor t" using t(1) by (rule conforms_wf)
  have lay: "tfl_layout sem" using sem(2) by (simp add: tfl_one_hot_def)
  let ?r = "if physical4 ?ty then restoreLogicalRank4 ?ty ?in else ?in"
  let ?g = "createTFLOperation ''tfl.arg_max'' [RankedTensor (map int (remove_ix a (tshape t))) I32]
      [?r, createI32ScalarTensorConstant (i32 (int a))] [] 0"
  have x: "eval sem env ?r = t" using t lay ty by (intro tfl_layout.eval_logical_operand) simp_all
  have g: "eval sem env ?g = trows a (\<lambda>xs. IV (int (arg_first better xs))) t"
    by (rule tfl_arg.eval_arg [OF sem(1) wf x al c(4,1)])
  let ?spec = "onnx_hardmax better (FV zero) (FV one) a t"
  have cf: "conforms ?ty ?spec" by (simp add: ty [symmetric] ity conforms_Ranked onnx_hardmax_def)
  have "fits_i32 (int (tshape t ! a))" "fits_i32 (int a)" using c al by (auto simp: fits_i32_def int32_max_def)
  then have "eval sem env (createTFLOperation ''tfl.one_hot'' [?ty]
      [?g, createI32ScalarTensorConstant (i32 (int (tshape t ! a))), createF32ScalarTensorConstant one,
       createF32ScalarTensorConstant zero] [(''axis'', IntAttr (i32 (int a)))] 0) = ?spec"
    using tfl_one_hot.one_hot [OF sem(2), of "eval sem env ?g" a "[?ty]" "tshape t ! a" "FV one" "FV zero"]
      hardmax_decomposition [OF al, of "FV one" "FV zero" better] g cf al by simp
  then show ?thesis
    unfolding v emit_hardmax_def Let_def ax nat_int remove_ix_map nth_map [OF al]
    by (intro tfl_layout.represents_physical_result [OF lay cf]) simp_all
qed

definition hardmax_example :: "int hardmax_op" where
  "hardmax_example = \<lparr>hm_input = \<lparr>oty = RankedTensor [1, 2, 2, 3] F32, oattr = None\<rparr>,
     hm_axis = -1, hm_result = RankedTensor [1, 2, 2, 3] F32\<rparr>"

theorem lower_hardmax_correct_witness:
  "\<exists>v. lower_hardmax 0 1 hardmax_example = Inr v \<and>
     represents reference_sem (\<lambda>_. ttranspose to_nhwc nchw_example) v (hm_result hardmax_example)
       (onnx_hardmax ref_greater (FV 0) (FV 1) 3 nchw_example)"
proof -
  have "\<not> failed (lower_hardmax 0 1 hardmax_example)" by code_simp
  then obtain v where low: "lower_hardmax 0 1 hardmax_example = Inr v" by (rule not_failedE)
  from lower_hardmax_correct [OF reference_arg_max.tfl_arg_axioms reference_one_hot.tfl_one_hot_axioms low,
      of nchw_example "\<lambda>_. ttranspose to_nhwc nchw_example"] low
  show ?thesis by (simp add: hardmax_example_def example_simps normalizeAxis_def)
qed

end
