(* ===== verification/Lower_MatMul.thy ===== *)
theory Lower_MatMul
  imports Lower_Activation
begin

text \<open>
  Model of \<^verbatim>\<open>Math/MatMulGemm.cpp\<close>. The function on a row and a column, with its order of
  summation, is the parameter \<open>dot\<close> of the interface of \<^verbatim>\<open>tfl.batch_matmul\<close>.
\<close>

definition createBatchMatMul ::
  "mtype \<Rightarrow> mtype \<Rightarrow> 'f val \<Rightarrow> 'f val \<Rightarrow> mtype \<Rightarrow> bool \<Rightarrow> bool \<Rightarrow> 'f val result" where
  "createBatchMatMul lhsSource rhsSource lhs rhs sourceResultType adjX adjY =
     (if failed (validateStaticF32Tensor (vtype lhs)) \<or> failed (validateStaticF32Tensor (vtype rhs)) \<or>
         failed (validateStaticF32Tensor sourceResultType)
      then Inl BadTypes
      else (case (vtype lhs, vtype rhs) of
        (RankedTensor lhsShape le, RankedTensor rhsShape re) \<Rightarrow>
          if getRank lhsShape < 2 \<or> 5 < getRank lhsShape \<or> getRank rhsShape < 2 \<or> 5 < getRank rhsShape then Inl BadRank
          else
            let lhs' = (if physical4 lhsSource then restoreLogicalRank4 lhsSource lhs else lhs);
                rhs' = (if physical4 rhsSource then restoreLogicalRank4 rhsSource rhs else rhs);
                res = createTFLOperation ''tfl.batch_matmul'' [sourceResultType] [lhs', rhs']
                  [(''adj_x'', BoolAttr adjX), (''adj_y'', BoolAttr adjY)] 0 in
            Inr (if physical4 sourceResultType then toPhysicalRank4 sourceResultType res else res)
      | _ \<Rightarrow> Inl BadTypes))"

record 'f matmul_op =
  mm_lhs :: "'f operand"
  mm_rhs :: "'f operand"
  mm_result :: mtype

definition lower_matmul :: "'f matmul_op \<Rightarrow> 'f val result" where
  "lower_matmul op =
     createBatchMatMul (oty (mm_lhs op)) (oty (mm_rhs op)) (adaptor 0 (mm_lhs op)) (adaptor 1 (mm_rhs op))
       (mm_result op) False False"

definition getFloatAttributeOr :: "'f option \<Rightarrow> 'f \<Rightarrow> 'f" where
  "getFloatAttributeOr attr defaultValue = (case attr of Some v \<Rightarrow> v | None \<Rightarrow> defaultValue)"

definition getBoolIntegerAttributeOr :: "int option \<Rightarrow> bool \<Rightarrow> bool" where
  "getBoolIntegerAttributeOr attr defaultValue = (case attr of Some v \<Rightarrow> v \<noteq> 0 | None \<Rightarrow> defaultValue)"

definition createBinaryTFL :: "string \<Rightarrow> 'f val \<Rightarrow> 'f val \<Rightarrow> mtype \<Rightarrow> 'f val" where
  "createBinaryTFL name lhs rhs resultType =
     createTFLOperation name [resultType] [lhs, rhs] [getFusedActivationNone] 0"

record 'f gemm_op =
  gm_operands :: "'f operand list"
  gm_transA :: "int option"
  gm_transB :: "int option"
  gm_alpha :: "'f option"
  gm_beta :: "'f option"
  gm_result :: mtype

definition gemm_scale :: "'f \<Rightarrow> 'f \<Rightarrow> mtype \<Rightarrow> 'f val \<Rightarrow> 'f val" where
  "gemm_scale one factor ty v =
     (if factor \<noteq> one then createBinaryTFL ''tfl.mul'' v (createF32ScalarTensorConstant factor) ty else v)"

definition lower_gemm :: "'f \<Rightarrow> 'f gemm_op \<Rightarrow> 'f val result" where
  "lower_gemm one op =
     (case gm_operands op of
        [a, b, c] \<Rightarrow>
          let transA = getBoolIntegerAttributeOr (gm_transA op) False;
              transB = getBoolIntegerAttributeOr (gm_transB op) False;
              alpha = getFloatAttributeOr (gm_alpha op) one;
              beta = getFloatAttributeOr (gm_beta op) one;
              resultType = convertRank4NCHWToNHWCType (gm_result op) in
          bind_result (createBatchMatMul (oty a) (oty b) (adaptor 0 a) (adaptor 1 b) (gm_result op) transA transB) (\<lambda>matmul.
            let scaled = gemm_scale one alpha resultType matmul; bias = adaptor 2 c in
            if vtype bias = NoneT then Inr scaled
            else if failed (validateStaticF32Tensor (vtype bias)) then Inl BadTypes
            else Inr (createBinaryTFL ''tfl.add'' scaled (gemm_scale one beta (vtype bias) bias) resultType))
      | _ \<Rightarrow> Inl CountMismatch)"

section \<open>Correctness\<close>

lemma tshape_tmatmul_rank2:
  assumes "tshape s = [m, k]" and "tshape t = [k', n]"
  shows "tshape (tmatmul dot adjX adjY s t) = [if adjX then k else m, if adjY then k' else n]"
  using assms by (simp add: tmatmul_def swap_last_def Let_def bcast_shape_def pad_left_def numeral_2_eq_2)

context tfl_matmul
begin

lemma createBatchMatMul_correct:
  assumes low: "createBatchMatMul lty rty l r ty adjX adjY = Inr v"
    and l: "conforms lty s" "eval sem env l = phys lty s" "vtype l = convertRank4NCHWToNHWCType lty"
    and r: "conforms rty t" "eval sem env r = phys rty t" "vtype r = convertRank4NCHWToNHWCType rty"
    and ok: "matmul_ok adjX adjY (tshape s) (tshape t)" and res: "conforms ty (tmatmul dot adjX adjY s t)"
  shows "represents sem env v ty (tmatmul dot adjX adjY s t)"
proof -
  let ?l = "if physical4 lty then restoreLogicalRank4 lty l else l" and ?r = "if physical4 rty then restoreLogicalRank4 rty r else r"
  obtain e where lty: "lty = RankedTensor (map int (tshape s)) e" using l(1) by (auto simp: conforms_def)
  obtain e' where rty: "rty = RankedTensor (map int (tshape t)) e'" using r(1) by (auto simp: conforms_def)
  have lx: "eval sem env ?l = s" and rx: "eval sem env ?r = t" using l r by (simp_all add: eval_logical_operand)
  let ?m = "createTFLOperation ''tfl.batch_matmul'' [ty] [?l, ?r] [(''adj_x'', BoolAttr adjX), (''adj_y'', BoolAttr adjY)] 0"
  have rk: "2 \<le> trank s" "trank s \<le> 5" "2 \<le> trank t" "trank t \<le> 5"
    and v: "v = (if physical4 ty then toPhysicalRank4 ty ?m else ?m)"
    using low unfolding createBatchMatMul_def l(3) r(3) lty rty convert_Ranked Let_def
    by (auto simp: getRank_def split: if_splits)
  have "sem ''tfl.batch_matmul'' [(''adj_x'', BoolAttr adjX), (''adj_y'', BoolAttr adjY)] [ty] [s, t] =
      [tmatmul dot adjX adjY s t]"
    using rk ok res l(1) r(1) by (intro batch_matmul) (auto dest: conforms_wf)
  then have "eval sem env ?m = tmatmul dot adjX adjY s t" using lx rx by simp
  then show ?thesis unfolding v by (intro represents_physical_result [OF res]) simp_all
qed

end

text \<open>
  When the MatMul pattern succeeds on shapes that ONNX accepts, the created value represents the
  batched matrix product of the logical operands, whatever function \<open>dot\<close> the kernel uses.
\<close>

theorem lower_matmul_correct:
  assumes sem: "tfl_matmul sem dot" and low: "lower_matmul op = Inr v"
    and l: "conforms (oty (mm_lhs op)) s" "env 0 = phys (oty (mm_lhs op)) s"
    and r: "conforms (oty (mm_rhs op)) t" "env 1 = phys (oty (mm_rhs op)) t"
    and ok: "matmul_ok False False (tshape s) (tshape t)" and res: "conforms (mm_result op) (tmatmul dot False False s t)"
  shows "represents sem env v (mm_result op) (tmatmul dot False False s t)"
  by (rule tfl_matmul.createBatchMatMul_correct [OF sem low [unfolded lower_matmul_def] l(1) _ _ r(1) _ _ ok res])
    (use l(2) r(2) in simp_all)

definition onnx_gemm ::
  "('f scalar \<Rightarrow> 'f scalar \<Rightarrow> 'f scalar) \<Rightarrow> ('f scalar \<Rightarrow> 'f scalar \<Rightarrow> 'f scalar) \<Rightarrow>
   ('f scalar list \<Rightarrow> 'f scalar list \<Rightarrow> 'f scalar) \<Rightarrow> 'f \<Rightarrow> bool \<Rightarrow> bool \<Rightarrow> 'f \<Rightarrow> 'f \<Rightarrow>
   'f scalar tensor \<Rightarrow> 'f scalar tensor \<Rightarrow> 'f scalar tensor option \<Rightarrow> 'f scalar tensor" where
  "onnx_gemm mulf addf dot one tA tB alpha beta a b c =
     (let scale = (\<lambda>f x. if f = one then x else tmap (\<lambda>e. mulf e (FV f)) x);
          p = scale alpha (tmatmul dot tA tB a b) in
      case c of None \<Rightarrow> p | Some bias \<Rightarrow> tmap2 addf p (scale beta bias))"

lemma eval_gemm_scale:
  assumes "tfl_binary sem ''tfl.mul'' [getFusedActivationNone] mulf 5" and "conforms ty x" and "eval sem env v = x" and "trank x \<le> 5"
  shows "eval sem env (gemm_scale one f ty v) = (if f = one then x else tmap (\<lambda>e. mulf e (FV f)) x)"
  using tfl_binary.eval_scalar_right [OF assms(1) _ assms(3), of "createF32ScalarTensorConstant f" "FV f" ty] assms
  by (simp add: gemm_scale_def createBinaryTFL_def conforms_wf del: eval_createTFLOperation)

text \<open>
  C37: when the Gemm pattern succeeds on matrices, the created value represents
  \<^verbatim>\<open>alpha * A' * B' + beta * C\<close> with the transpositions that the attributes ask for, a bias that
  broadcasts to the product or none, and no multiplication where a factor is one.
\<close>

theorem lower_gemm_correct:
  assumes sem: "tfl_matmul sem dot" "tfl_binary sem ''tfl.mul'' [getFusedActivationNone] mulf 5"
      "tfl_binary sem ''tfl.add'' [getFusedActivationNone] addf 5"
    and low: "lower_gemm one op = Inr v" and ops: "gm_operands op = [a, b, c]"
    and tr: "tA = getBoolIntegerAttributeOr (gm_transA op) False" "tB = getBoolIntegerAttributeOr (gm_transB op) False"
    and al: "alpha = getFloatAttributeOr (gm_alpha op) one" "beta = getFloatAttributeOr (gm_beta op) one"
    and s: "conforms (oty a) s" "env 0 = phys (oty a) s" "trank s = 2"
    and t: "conforms (oty b) t" "env 1 = phys (oty b) t" "trank t = 2"
    and bias: "case C of None \<Rightarrow> oty c = NoneT
      | Some x \<Rightarrow> conforms (oty c) x \<and> env 2 = phys (oty c) x \<and>
          bcast_compat (tshape (tmatmul dot tA tB s t)) (tshape x) \<and>
          bcast_shape (tshape (tmatmul dot tA tB s t)) (tshape x) = tshape (tmatmul dot tA tB s t)"
    and ok: "matmul_ok tA tB (tshape s) (tshape t)" and res: "conforms (gm_result op) (tmatmul dot tA tB s t)"
  shows "represents sem env v (gm_result op) (onnx_gemm mulf addf dot one tA tB alpha beta s t C)"
proof -
  let ?ty = "gm_result op" and ?p = "tmatmul dot tA tB s t"
  obtain e where ty: "?ty = RankedTensor (map int (tshape ?p)) e" using res by (auto simp: conforms_def)
  obtain m k where sh: "tshape s = [m, k]" using s(3) by (auto simp: numeral_2_eq_2 length_Suc_conv)
  obtain k' n where th: "tshape t = [k', n]" using t(3) by (auto simp: numeral_2_eq_2 length_Suc_conv)
  have r2: "trank ?p = 2" using tshape_tmatmul_rank2 [OF sh th, of dot tA tB] by simp
  have np: "\<not> physical4 ?ty" using r2 by (simp add: ty)
  then have conv: "convertRank4NCHWToNHWCType ?ty = ?ty" by (rule convert_id)
  have none: "convertRank4NCHWToNHWCType NoneT = NoneT" by (simp add: convertRank4NCHWToNHWCType_def)
  obtain mm where mm: "createBatchMatMul (oty a) (oty b) (adaptor 0 a) (adaptor 1 b) ?ty tA tB = Inr mm"
    and v: "v = (if oty c = NoneT then gemm_scale one alpha ?ty mm
      else createBinaryTFL ''tfl.add'' (gemm_scale one alpha ?ty mm) (gemm_scale one beta (vtype (adaptor 2 c)) (adaptor 2 c)) ?ty)"
    using low bias conv unfolding lower_gemm_def ops tr al
    by (cases C) (auto simp: Let_def none conforms_def convert_Ranked split: if_splits)
  have "represents sem env mm ?ty ?p"
    by (rule tfl_matmul.createBatchMatMul_correct [OF sem(1) mm s(1) _ _ t(1) _ _ ok res]) (use s t in simp_all)
  then have x: "eval sem env mm = ?p" and vt: "vtype mm = ?ty" using np conv by (simp_all add: represents_def phys_def)
  let ?q = "if alpha = one then ?p else tmap (\<lambda>e. mulf e (FV alpha)) ?p"
  have q: "eval sem env (gemm_scale one alpha ?ty mm) = ?q" using eval_gemm_scale [OF sem(2) res x] r2 by simp
  have shq: "tshape ?q = tshape ?p" "wf_tensor ?q" by simp_all
  show ?thesis
  proof (cases C)
    case None
    then show ?thesis
      using bias q vt res np by (intro represents_logical) (auto simp: v onnx_gemm_def gemm_scale_def createBinaryTFL_def)
  next
    case (Some x)
    then have cx: "conforms (oty c) x" "env 2 = phys (oty c) x" and bc: "bcast_compat (tshape ?p) (tshape x)" "bcast_shape (tshape ?p) (tshape x) = tshape ?p" using bias by simp_all
    have rx: "trank x \<le> 2" using arg_cong [OF bc(2), of length] r2 by simp
    then have npc: "\<not> physical4 (oty c)" "oty c \<noteq> NoneT" using cx(1) by (auto simp: conforms_def)
    let ?b = "if beta = one then x else tmap (\<lambda>e. mulf e (FV beta)) x"
    have b: "eval sem env (gemm_scale one beta (oty c) (adaptor 2 c)) = ?b"
      using eval_gemm_scale [OF sem(2) cx(1), of env "adaptor 2 c"] cx(2) npc rx by (simp add: phys_def)
    have bs: "bcast_compat (tshape ?q) (tshape ?b)" "bcast_shape (tshape ?q) (tshape ?b) = tshape ?p"
      using bc by simp_all
    have wb: "wf_tensor ?b" using cx(1) by (simp add: conforms_wf)
    have cf: "conforms ?ty (tmap2 addf ?q ?b)" using bs by (simp add: ty conforms_Ranked)
    have "eval sem env (createTFLOperation ''tfl.add'' [?ty] [gemm_scale one alpha ?ty mm, gemm_scale one beta (oty c) (adaptor 2 c)]
        [getFusedActivationNone] 0) = tmap2 addf ?q ?b"
      using bs wb cf r2 rx by (intro tfl_binary.eval_direct [OF sem(3) q b]) simp_all
    then show ?thesis
      using npc np cf Some
      by (intro represents_logical) (auto simp: v createBinaryTFL_def convert_id onnx_gemm_def simp del: eval_createTFLOperation)
  qed
qed

definition matmul_example :: "int matmul_op" where
  "matmul_example = \<lparr>mm_lhs = f32_operand [1, 2, 2, 3], mm_rhs = f32_operand [3, 2], mm_result = RankedTensor [1, 2, 2, 2] F32\<rparr>"

definition matrix_example :: "int scalar tensor" where
  "matrix_example = Tensor [3, 2] (map FV [1, 2, 3, 4, 5, 6])"

lemma matrix_example_simps [simp]: "tshape matrix_example = [3, 2]" "wf_tensor matrix_example"
  by (simp_all add: matrix_example_def wf_tensor_def)

lemma matmul_example_shape [simp]:
  "matmul_ok False False [Suc 0, 2, 2, 3] [3, 2]" "matmul_ok True False [3, 2] [3, 2]"
  "tshape (tmatmul dot False False nchw_example matrix_example) = [1, 2, 2, 2]"
  "tshape (tmatmul dot True False matrix_example matrix_example) = [2, 2]"
  by (simp_all add: matmul_ok_def swap_last_def Let_def tmatmul_def bcast_compat_def bcast_shape_def pad_left_def bcast_dim_def numeral_2_eq_2)

theorem lower_matmul_correct_witness:
  "\<exists>v. lower_matmul matmul_example = Inr v \<and>
     represents reference_sem (\<lambda>i. if i = 0 then ttranspose to_nhwc nchw_example else matrix_example) v (mm_result matmul_example)
       (tmatmul ref_dot False False nchw_example matrix_example)"
proof -
  let ?env = "\<lambda>i :: nat. if i = 0 then ttranspose to_nhwc nchw_example else matrix_example"
  have "\<not> failed (lower_matmul matmul_example)" by code_simp
  then obtain v where low: "lower_matmul matmul_example = Inr v" by (rule not_failedE)
  from lower_matmul_correct [OF reference_matmul.tfl_matmul_axioms low, of nchw_example ?env matrix_example] low
  show ?thesis by (simp add: matmul_example_def example_simps)
qed

definition gemm_example :: "int gemm_op" where
  "gemm_example = \<lparr>gm_operands = [f32_operand [3, 2], f32_operand [3, 2], f32_operand [1]], gm_transA = Some 1, gm_transB = None,
     gm_alpha = Some 2, gm_beta = None, gm_result = RankedTensor [2, 2] F32\<rparr>"

theorem lower_gemm_correct_witness:
  "\<exists>v. lower_gemm 1 gemm_example = Inr v \<and>
     represents reference_sem (\<lambda>i. if i = 2 then Tensor [1] [FV 5] else matrix_example) v (gm_result gemm_example)
       (onnx_gemm (ref_arith (*)) (ref_arith (+)) ref_dot 1 True False 2 1 matrix_example matrix_example (Some (Tensor [1] [FV 5])))"
proof -
  let ?env = "\<lambda>i :: nat. if i = 2 then Tensor [1] [FV 5] else matrix_example"
  have "\<not> failed (lower_gemm 1 gemm_example)" by code_simp
  then obtain v where low: "lower_gemm 1 gemm_example = Inr v" by (rule not_failedE)
  have ops: "gm_operands gemm_example = [f32_operand [3, 2], f32_operand [3, 2], f32_operand [1]]" by (simp add: gemm_example_def)
  have b: "bcast_compat [2, 2] [Suc 0]" "bcast_shape [2, 2] [Suc 0] = [2, 2]" "wf_tensor (Tensor [Suc 0] [FV 5])" by code_simp+
  from lower_gemm_correct [OF reference_matmul.tfl_matmul_axioms reference_mul.tfl_binary_axioms reference_add.tfl_binary_axioms
      low ops refl refl refl refl, of matrix_example ?env matrix_example "Some (Tensor [1] [FV 5])"] low
  show ?thesis
    by (simp add: gemm_example_def example_simps getBoolIntegerAttributeOr_def getFloatAttributeOr_def b)
qed

end
