(* ===== verification/Lower_Space.thy ===== *)
theory Lower_Space
  imports Lower_Reduce
begin

text \<open>
  Models of \<^verbatim>\<open>Tensor/DepthToSpace.cpp\<close> and \<^verbatim>\<open>Tensor/SpaceToDepth.cpp\<close>. The builtins work on NHWC in
  the depth-column-row order; the column-row-depth order of ONNX is reached by transposing the
  channel blocks first.
\<close>

record 'f space_op =
  sp_input :: "'f operand"
  sp_blocksize :: int
  sp_mode :: string
  sp_result :: mtype

definition space_types_ok :: "mtype \<Rightarrow> mtype \<Rightarrow> bool" where
  "space_types_ok inputType outputType \<longleftrightarrow>
     \<not> failed (validateStaticF32Tensor inputType) \<and> \<not> failed (validateStaticF32Tensor outputType) \<and>
     (case (inputType, outputType) of
        (RankedTensor inShape _, RankedTensor outShape _) \<Rightarrow> getRank inShape = 4 \<and> getRank outShape = 4
      | _ \<Rightarrow> False)"

definition emit_d2s :: "int \<Rightarrow> mtype \<Rightarrow> 'f val \<Rightarrow> 'f val" where
  "emit_d2s blockSize outputType input =
     createTFLOperation ''tfl.depth_to_space'' [convertRank4NCHWToNHWCType outputType] [input]
       [(''block_size'', IntAttr (i32 blockSize))] 0"

definition reorder_crd :: "int \<Rightarrow> int list \<Rightarrow> int list \<Rightarrow> 'f val \<Rightarrow> 'f val" where
  "reorder_crd blockSize inputShape outputShape input =
     (let outputChannels = outputShape ! 1;
          positions = inputShape ! 0 * inputShape ! 2 * inputShape ! 3;
          blockElements = blockSize * blockSize;
          reshaped = emitReshape (RankedTensor [positions, outputChannels, blockElements] F32)
            [positions, outputChannels, blockElements] input;
          transposed = createTFLOperation ''tfl.transpose'' [RankedTensor [positions, blockElements, outputChannels] F32]
            [reshaped, createI32ShapeConstant [0, 2, 1]] [] 0 in
      emitReshape (vtype input) (case vtype input of RankedTensor sh _ \<Rightarrow> sh | _ \<Rightarrow> []) transposed)"

definition lower_depth_to_space :: "'f space_op \<Rightarrow> 'f val result" where
  "lower_depth_to_space op =
     (if \<not> space_types_ok (oty (sp_input op)) (sp_result op) then Inl BadTypes
      else (case (oty (sp_input op), sp_result op) of
        (RankedTensor inputShape ie, RankedTensor outputShape oe) \<Rightarrow>
          let blockSize = sp_blocksize op; input = adaptor 0 (sp_input op) in
          if 0 < blockSize \<and> i64 (blockSize * blockSize) = 0 then Inl DivisionTrap
          else if blockSize \<le> 0 \<or> cmod (inputShape ! 1) (i64 (blockSize * blockSize)) \<noteq> 0 \<or>
             outputShape \<noteq> [inputShape ! 0, cdiv (inputShape ! 1) (i64 (blockSize * blockSize)),
                             i64 (inputShape ! 2 * blockSize), i64 (inputShape ! 3 * blockSize)]
          then Inl BadBlockSize
          else if sp_mode op = ''DCR'' then Inr (emit_d2s blockSize (sp_result op) input)
          else if sp_mode op \<noteq> ''CRD'' then Inl BadMode
          else Inr (emit_d2s blockSize (sp_result op) (reorder_crd blockSize inputShape outputShape input))
      | _ \<Rightarrow> Inl BadTypes))"

definition lower_space_to_depth :: "'f space_op \<Rightarrow> 'f val result" where
  "lower_space_to_depth op =
     (if \<not> space_types_ok (oty (sp_input op)) (sp_result op) then Inl BadTypes
      else (case (oty (sp_input op), sp_result op) of
        (RankedTensor inputShape ie, RankedTensor outputShape oe) \<Rightarrow>
          let blockSize = sp_blocksize op in
          if blockSize \<le> 0 \<or> cmod (inputShape ! 2) blockSize \<noteq> 0 \<or> cmod (inputShape ! 3) blockSize \<noteq> 0 \<or>
             outputShape \<noteq> [inputShape ! 0, i64 (i64 (inputShape ! 1 * blockSize) * blockSize),
                             cdiv (inputShape ! 2) blockSize, cdiv (inputShape ! 3) blockSize]
          then Inl BadBlockSize
          else Inr (createTFLOperation ''tfl.space_to_depth'' [convertRank4NCHWToNHWCType (sp_result op)]
                      [adaptor 0 (sp_input op)] [(''block_size'', IntAttr (i32 blockSize))] 0)
      | _ \<Rightarrow> Inl BadTypes))"

section \<open>Blocks in the two layouts\<close>

lemma div_block: "0 < r \<Longrightarrow> y < h * r \<Longrightarrow> y div r < (h :: nat)"
  by (simp add: less_mult_imp_div_less)

lemma block_index: "a < r \<Longrightarrow> b < r \<Longrightarrow> a * r + b < r * (r :: nat)"
  using mult_le_mono1 [of "Suc a" r r] by simp

lemma nhwc_d2s_dcr:
  assumes sh: "tshape t = [n, c * (r * r), h, w]" and r: "0 < r"
  shows "ttranspose to_nhwc (nchw_d2s True r t) = nhwc_d2s r (ttranspose to_nhwc t)"
proof (rule nhwc_eqI [of _ _ n c "h * r" "w * r"])
  fix i k y x assume b: "i < n" "k < c" "y < h * r" "x < w * r"
  have e: "(y mod r * r + x mod r) * c + k < c * (r * r)"
  proof -
    have "y mod r * r + x mod r < r * r" using r by (intro block_index) simp_all
    then have "Suc (y mod r * r + x mod r) * c \<le> r * r * c" by (intro mult_le_mono1) simp
    then show ?thesis using b(2) by (simp add: mult.commute)
  qed
  show "tnth (nhwc_d2s r (ttranspose to_nhwc t)) [i, y, x, k] = tnth (nchw_d2s True r t) [i, k, y, x]"
    using b r e div_block [OF r b(3)] div_block [OF r b(4)]
    by (simp add: nhwc_d2s_def nchw_d2s_def sh tnth_nhwc [OF sh])
qed (use r in \<open>simp_all add: nchw_d2s_def nhwc_d2s_def sh Let_def\<close>)

lemma nhwc_s2d_dcr:
  assumes sh: "tshape t = [n, c, h * r, w * r]" and r: "0 < r"
  shows "ttranspose to_nhwc (nchw_s2d r t) = nhwc_s2d r (ttranspose to_nhwc t)"
proof (rule nhwc_eqI [of _ _ n "c * r * r" h w])
  fix i k y x assume b: "i < n" "k < c * r * r" "y < h" "x < w"
  have c: "0 < c" using b(2) by (cases c) simp_all
  have q: "k div c < r * r" using b(2) by (simp add: less_mult_imp_div_less mult.commute mult.left_commute)
  have "k div c div r < r" "k div c mod r < r" using q r by (simp_all add: less_mult_imp_div_less)
  then have "y * r + k div c div r < h * r" "x * r + k div c mod r < w * r"
    using b(3,4) mult_le_mono1 [of "Suc y" h r] mult_le_mono1 [of "Suc x" w r] unfolding mult_Suc by linarith+
  then show "tnth (nhwc_s2d r (ttranspose to_nhwc t)) [i, y, x, k] = tnth (nchw_s2d r t) [i, k, y, x]"
    using b c r by (simp add: nhwc_s2d_def nchw_s2d_def sh tnth_nhwc [OF sh])
qed (use r in \<open>simp_all add: nchw_s2d_def nhwc_s2d_def sh Let_def\<close>)

text \<open>The reordering of the channels in front of the builtin.\<close>

definition crd_to_dcr :: "nat \<Rightarrow> nat \<Rightarrow> 'a tensor \<Rightarrow> 'a tensor" where
  "crd_to_dcr c r x = treshape (tshape x)
     (ttranspose [0, 2, 1] (treshape [tshape x ! 0 * tshape x ! 1 * tshape x ! 2, c, r * r] x))"

lemma tnth_crd_to_dcr:
  assumes sh: "tshape z = [n, h, w, c * (r * r)]" and wf: "wf_tensor z"
    and i: "i < n" "y < h" "x < w" "b < r * r" "k < c"
  shows "tnth (crd_to_dcr c r z) [i, y, x, b * c + k] = tnth z [i, y, x, k * (r * r) + b]"
proof -
  let ?p = "(i * h + y) * w + x" and ?N = "n * h * w"
  let ?u = "treshape [?N, c, r * r] z"
  have p: "?p < ?N"
  proof -
    have "i * h + y < n * h" using i mult_le_mono1 [of "Suc i" n h] by simp
    then show ?thesis using i(3) mult_le_mono1 [of "Suc (i * h + y)" "n * h" w] by simp
  qed
  have wu: "wf_tensor ?u" using wf sh by (intro wf_treshape) simp_all
  have pm: "is_perm [0, 2, 1] (trank ?u)" by (simp add: is_perm_def)
  have "ravel [n, h, w, c * (r * r)] [i, y, x, b * c + k] = ravel [?N, r * r, c] [?p, b, k]"
    by (simp add: algebra_simps)
  then have "tnth (crd_to_dcr c r z) [i, y, x, b * c + k] = tnth (ttranspose [0, 2, 1] ?u) [?p, b, k]"
    by (simp add: crd_to_dcr_def tnth_def treshape_def sh permute_def del: ravel.simps)
  also have "\<dots> = tnth ?u [?p, k, b]"
    using tnth_ttranspose_permute [OF pm, of "[?p, k, b]"] p i by (simp add: permute_def)
  also have "\<dots> = tnth z [i, y, x, k * (r * r) + b]"
    by (simp add: tnth_def treshape_def sh algebra_simps)
  finally show ?thesis .
qed

lemma tshape_crd_to_dcr [simp]: "tshape (crd_to_dcr c r x) = tshape x"
  by (simp add: crd_to_dcr_def)

lemma nhwc_d2s_crd:
  assumes sh: "tshape t = [n, c * (r * r), h, w]" and r: "0 < r" and wf: "wf_tensor t"
  shows "ttranspose to_nhwc (nchw_d2s False r t) = nhwc_d2s r (crd_to_dcr c r (ttranspose to_nhwc t))"
proof (rule nhwc_eqI [of _ _ n c "h * r" "w * r"])
  have z: "tshape (ttranspose to_nhwc t) = [n, h, w, c * (r * r)]" by (simp add: sh)
  fix i k y x assume b: "i < n" "k < c" "y < h * r" "x < w * r"
  let ?b = "y mod r * r + x mod r"
  have q: "?b < r * r" using r by (intro block_index) simp_all
  have e: "k * (r * r) + ?b < c * (r * r)"
    using q b(2) mult_le_mono1 [of "Suc k" c "r * r"] unfolding mult_Suc by linarith
  have "tnth (crd_to_dcr c r (ttranspose to_nhwc t)) [i, y div r, x div r, ?b * c + k] = tnth t [i, k * (r * r) + ?b, y div r, x div r]"
    using tnth_crd_to_dcr [OF z _ b(1) _ _ q b(2), of "y div r" "x div r"] b e r
    by (simp add: tnth_nhwc [OF sh] div_block)
  then show "tnth (nhwc_d2s r (crd_to_dcr c r (ttranspose to_nhwc t))) [i, y, x, k] = tnth (nchw_d2s False r t) [i, k, y, x]"
    using b r by (simp add: nhwc_d2s_def nchw_d2s_def sh)
qed (use r in \<open>simp_all add: nchw_d2s_def nhwc_d2s_def sh Let_def\<close>)

section \<open>Correctness\<close>

context tfl_layout
begin

lemma eval_reorder_crd:
  assumes x: "wf_tensor x" "eval sem env v = x" "tshape x = [n, h, w, c * (r * r)]" "vtype v = RankedTensor (map int (tshape x)) F32"
    and i32: "i32_dims (tshape x)" "n * h * w < 2 ^ 31" "c < 2 ^ 31" "r * r < 2 ^ 31"
  shows "eval sem env (reorder_crd (int r) [int n, cc, int h, int w] [o1, int c, o2, o3] v) = crd_to_dcr c r x"
proof -
  let ?N = "n * h * w" and ?u = "treshape [n * h * w, c, r * r] x"
  let ?r = "emitReshape (RankedTensor (map int [?N, c, r * r]) F32) (map int [?N, c, r * r]) v"
  let ?t = "createTFLOperation ''tfl.transpose'' [RankedTensor (map int [?N, r * r, c]) F32]
      [?r, createI32ShapeConstant (map int [0, 2, 1])] [] 0"
  have u: "eval sem env ?r = ?u" by (rule eval_emitReshape [OF x(1,2)]) (use x(3) i32 in \<open>simp_all add: i32_dims_def\<close>)
  have wu: "wf_tensor ?u" using x by (intro wf_treshape) simp_all
  have t: "eval sem env ?t = ttranspose [0, 2, 1] ?u"
    by (rule tfl_transpose_op [OF tfl_layout_axioms wu u]) (simp_all add: is_perm_def conforms_Ranked permute_def)
  have "eval sem env (emitReshape (vtype v) (map int (tshape x)) ?t) = treshape (tshape x) (ttranspose [0, 2, 1] ?u)"
    by (rule eval_emitReshape [OF _ t i32(1) _ x(4)]) (simp_all add: x(3) permute_def)
  moreover have "emitReshape (vtype v) (map int (tshape x)) ?t = reorder_crd (int r) [int n, cc, int h, int w] [o1, int c, o2, o3] v"
    unfolding reorder_crd_def Let_def x(4) by simp
  ultimately show ?thesis unfolding crd_to_dcr_def x(3) by simp
qed

end

lemma rank4_ints: "length xs = 4 \<Longrightarrow> xs = [xs ! 0, xs ! 1, xs ! 2, xs ! 3]"
  by (auto elim!: length_4_cases)

lemma space_types:
  assumes "space_types_ok ity ty" and "conforms ity t"
  obtains n c h w os where "tshape t = [n, c, h, w]" and "ity = RankedTensor (map int [n, c, h, w]) F32" and "ty = RankedTensor os F32"
proof -
  obtain e where i: "ity = RankedTensor (map int (tshape t)) e" using assms(2) by (auto simp: conforms_def)
  then have "trank t = 4" "e = F32" and "\<exists>os. ty = RankedTensor os F32"
    using assms(1) by (auto simp: space_types_ok_def failed_validate getRank_def split: mtype.splits)
  moreover then obtain n c h w where "tshape t = [n, c, h, w]" by (auto elim!: length_4_cases)
  ultimately show ?thesis using i that by auto
qed

lemma d2s_shape:
  assumes low: "lower_depth_to_space op = Inr v" and t: "conforms (oty (sp_input op)) t"
    and small: "sp_blocksize op * sp_blocksize op < 2 ^ 31"
  obtains n c h w where "tshape t = [n, c * (nat (sp_blocksize op) * nat (sp_blocksize op)), h, w]"
proof -
  have ok: "space_types_ok (oty (sp_input op)) (sp_result op)" using low by (auto simp: lower_depth_to_space_def split: if_splits)
  obtain n cc h w os where sh: "tshape t = [n, cc, h, w]" and ity: "oty (sp_input op) = RankedTensor (map int [n, cc, h, w]) F32"
    and ty: "sp_result op = RankedTensor os F32" using space_types [OF ok t] .
  define r where "r = nat (sp_blocksize op)"
  have sq: "i64 (sp_blocksize op * sp_blocksize op) = sp_blocksize op * sp_blocksize op"
    using small by (simp add: i64_square)
  have b: "sp_blocksize op = int r" "0 < r" and g: "cmod (int cc) (int r * int r) = 0"
    using low ok sq by (auto simp: lower_depth_to_space_def ity ty r_def Let_def split: if_splits)
  have rr: "int r * int r = int (r * r)" "0 < r * r" using b(2) by simp_all
  have "int cc mod int (r * r) = 0" using g rr(2) unfolding rr(1) by (metis cmod_nonneg of_nat_0_le_iff of_nat_0_less_iff)
  then have "cc mod (r * r) = 0" by (metis of_nat_eq_0_iff zmod_int)
  then obtain c where "cc = c * (r * r)" by (metis mod_0_imp_dvd dvd_def mult.commute)
  then show ?thesis by (intro that [of n c h w]) (simp only: sh r_def)
qed

lemma depth_to_space_represents:
  assumes sem: "tfl_space sem" and low: "lower_depth_to_space op = Inr v"
    and t: "conforms (oty (sp_input op)) t" "env 0 = phys (oty (sp_input op)) t"
    and i32: "i32_dims (tshape t)" "tshape t ! 0 * tshape t ! 2 * tshape t ! 3 < 2 ^ 31" "sp_blocksize op * sp_blocksize op < 2 ^ 31"
  shows "represents sem env v (sp_result op) (nchw_d2s (sp_mode op = ''DCR'') (nat (sp_blocksize op)) t)"
proof -
  have ok: "space_types_ok (oty (sp_input op)) (sp_result op)" using low by (auto simp: lower_depth_to_space_def split: if_splits)
  obtain n cc h w os where sh: "tshape t = [n, cc, h, w]" and ity: "oty (sp_input op) = RankedTensor (map int [n, cc, h, w]) F32"
    and ty: "sp_result op = RankedTensor os F32" using space_types [OF ok t(1)] .
  define r where "r = nat (sp_blocksize op)"
  have sq: "i64 (sp_blocksize op * sp_blocksize op) = sp_blocksize op * sp_blocksize op"
    using i32(3) by (simp add: i64_square)
  have b: "sp_blocksize op = int r" "0 < r"
    and os: "os = [int n, cdiv (int cc) (int r * int r), i64 (int h * int r), i64 (int w * int r)]"
    and v: "v = emit_d2s (int r) (sp_result op)
      (if sp_mode op = ''DCR'' then adaptor 0 (sp_input op) else reorder_crd (int r) (map int [n, cc, h, w]) os (adaptor 0 (sp_input op)))"
    using low ok sq by (auto simp: lower_depth_to_space_def ity ty r_def Let_def split: if_splits)
  have rr: "int r * int r = int (r * r)" "0 < r * r" using b(2) by simp_all
  have rb: "r * r < 2 ^ 31"
  proof -
    have "int (r * r) < int (2 ^ 31)" using i32(3) unfolding b(1) rr(1) by simp
    then show ?thesis by (simp only: of_nat_less_iff)
  qed
  have "r \<le> r * r" using b(2) by simp
  then have r31: "r < 2 ^ 31" using rb by linarith
  obtain c where c: "cc = c * (r * r)" using d2s_shape [OF low t(1) i32(3)] sh by (auto simp: r_def)
  have "i64 (int h * int r) = int h * int r" "i64 (int w * int r) = int w * int r"
    using i32(1) r31 by (intro i64_product; simp add: i32_dims_def sh)+
  then have os': "os = map int [n, c, h * r, w * r]" using os b(2) unfolding rr(1) c by (simp add: cdiv_nonneg flip: zdiv_int)
  let ?x = "ttranspose to_nhwc t" and ?spec = "nchw_d2s (sp_mode op = ''DCR'') r t"
  have lay: "tfl_layout sem" using sem by (simp add: tfl_space_def)
  have wf: "wf_tensor t" using t(1) by (rule conforms_wf)
  have x: "eval sem env (adaptor 0 (sp_input op)) = ?x" "vtype (adaptor 0 (sp_input op)) = RankedTensor (map int (tshape ?x)) F32"
    using t(2) by (simp_all add: ity phys_def convert_Ranked sh)
  let ?z = "if sp_mode op = ''DCR'' then ?x else crd_to_dcr c r ?x"
  let ?in = "if sp_mode op = ''DCR'' then adaptor 0 (sp_input op) else reorder_crd (int r) (map int [n, cc, h, w]) os (adaptor 0 (sp_input op))"
  have cb: "c < 2 ^ 31" using i32(1) rr(2) by (cases "c = 0") (auto simp: i32_dims_def sh c intro: le_less_trans [of _ "c * (r * r)"])
  have z: "eval sem env ?in = ?z"
  proof (cases "sp_mode op = ''DCR''")
    case False
    have "eval sem env (reorder_crd (int r) [int n, int cc, int h, int w] [int n, int c, int (h * r), int (w * r)] (adaptor 0 (sp_input op))) = crd_to_dcr c r ?x"
      by (rule tfl_layout.eval_reorder_crd [OF lay _ x(1) _ x(2)]) (use i32 cb rb in \<open>auto simp: sh c i32_dims_def\<close>)
    then show ?thesis using False by (simp add: os')
  qed (use x in simp)
  have ph: "phys (sp_result op) ?spec = nhwc_d2s r ?z"
    using nhwc_d2s_dcr [OF sh [unfolded c] b(2)] nhwc_d2s_crd [OF sh [unfolded c] b(2) wf]
    by (simp add: phys_def ty os')
  have cf: "conforms (sp_result op) ?spec" using b(2) by (simp add: ty os' conforms_Ranked nchw_d2s_def sh c Let_def)
  have wz: "wf_tensor ?z" "tshape ?z = [n, h, w, c * (r * r)]"
    by (auto simp: crd_to_dcr_def sh c permute_def to_nhwc_def intro!: wf_treshape)
  have "fits_i32 (int r)" using r31 by (simp add: fits_i32_def)
  moreover have "sem ''tfl.depth_to_space'' [(''block_size'', IntAttr (int r))] [convertRank4NCHWToNHWCType (sp_result op)] [?z] = [nhwc_d2s r ?z]"
    using convert_conforms [OF cf] unfolding ph using wz b(2) by (intro tfl_space.depth_to_space [OF sem]) simp_all
  ultimately have "eval sem env v = nhwc_d2s r ?z" using z by (simp add: v emit_d2s_def)
  then show ?thesis using cf ph by (intro represents_phys) (simp_all add: v emit_d2s_def r_def)
qed

text \<open>SpaceToDepth.\<close>

lemma space_to_depth_represents:
  assumes sem: "tfl_space sem" and low: "lower_space_to_depth op = Inr v"
    and t: "conforms (oty (sp_input op)) t" "env 0 = phys (oty (sp_input op)) t" and i32: "sp_blocksize op < 2 ^ 31"
      "int (tshape t ! 1) * sp_blocksize op * sp_blocksize op < 2 ^ 63"
  shows "represents sem env v (sp_result op) (nchw_s2d (nat (sp_blocksize op)) t)"
proof -
  have ok: "space_types_ok (oty (sp_input op)) (sp_result op)" using low by (auto simp: lower_space_to_depth_def split: if_splits)
  obtain n c hh ww os where sh: "tshape t = [n, c, hh, ww]" and ity: "oty (sp_input op) = RankedTensor (map int [n, c, hh, ww]) F32"
    and ty: "sp_result op = RankedTensor os F32" using space_types [OF ok t(1)] .
  define r where "r = nat (sp_blocksize op)"
  have b: "sp_blocksize op = int r" "0 < r" and g: "cmod (int hh) (int r) = 0" "cmod (int ww) (int r) = 0"
    and os: "os = [int n, i64 (i64 (int c * int r) * int r), cdiv (int hh) (int r), cdiv (int ww) (int r)]"
    and v: "v = createTFLOperation ''tfl.space_to_depth'' [convertRank4NCHWToNHWCType (sp_result op)]
      [adaptor 0 (sp_input op)] [(''block_size'', IntAttr (i32 (int r)))] 0"
    using low ok by (auto simp: lower_space_to_depth_def ity ty r_def Let_def split: if_splits)
  have "hh mod r = 0" "ww mod r = 0" using g b(2) by (simp_all add: cmod_nonneg flip: zmod_int)
  then obtain h w where h: "hh = h * r" "ww = w * r" by (metis mod_0_imp_dvd dvd_def mult.commute)
  have big: "int c * int r * int r < 2 ^ 63" using i32(2) by (simp add: sh b(1))
  have "int c * int r * 1 \<le> int c * int r * int r" using b(2) by (intro mult_left_mono) simp_all
  then have "i64 (int c * int r) = int c * int r" using big by (intro i64_id) (simp_all add: order.trans [of _ 0])
  then have "i64 (i64 (int c * int r) * int r) = int c * int r * int r" using big by (simp add: i64_id order.trans [of _ 0])
  then have os': "os = map int [n, c * r * r, h, w]" using os b(2) by (simp add: h cdiv_nonneg)
  let ?x = "ttranspose to_nhwc t" and ?spec = "nchw_s2d r t"
  have ph: "phys (sp_result op) ?spec = nhwc_s2d r ?x"
    using nhwc_s2d_dcr [OF sh [unfolded h] b(2)] by (simp add: phys_def ty os')
  have cf: "conforms (sp_result op) ?spec" using b(2) by (simp add: ty os' conforms_Ranked nchw_s2d_def sh h Let_def)
  have "sem ''tfl.space_to_depth'' [(''block_size'', IntAttr (int r))] [convertRank4NCHWToNHWCType (sp_result op)] [?x] = [nhwc_s2d r ?x]"
    using convert_conforms [OF cf] unfolding ph using b(2) by (intro tfl_space.space_to_depth [OF sem]) (simp_all add: sh h permute_def to_nhwc_def)
  moreover have "eval sem env (adaptor 0 (sp_input op)) = ?x" using t(2) by (simp add: ity phys_def)
  moreover have "fits_i32 (int r)" using i32(1) b by (simp add: fits_i32_def)
  ultimately have "eval sem env v = nhwc_s2d r ?x" by (simp add: v)
  then show ?thesis using cf ph by (intro represents_phys) (simp_all add: v r_def)
qed

text \<open>
  C38: when the DepthToSpace pattern succeeds, the created value represents the ONNX operator in its
  DCR and in its CRD order of the channels, for sizes that 32-bit shape constants can hold.
\<close>

theorem lower_depth_to_space_correct:
  assumes "tfl_space sem" and "lower_depth_to_space op = Inr v"
    and "conforms (oty (sp_input op)) t" "env 0 = phys (oty (sp_input op)) t"
    and "i32_dims (tshape t)" "tshape t ! 0 * tshape t ! 2 * tshape t ! 3 < 2 ^ 31" "sp_blocksize op * sp_blocksize op < 2 ^ 31"
  shows "represents sem env v (sp_result op) (nchw_d2s (sp_mode op = ''DCR'') (nat (sp_blocksize op)) t)"
  using assms by (rule depth_to_space_represents)

definition d2s_example :: "int space_op" where
  "d2s_example = \<lparr>sp_input = \<lparr>oty = RankedTensor [1, 8, 1, 2] F32, oattr = None\<rparr>, sp_blocksize = 2, sp_mode = ''CRD'',
     sp_result = RankedTensor [1, 2, 2, 4] F32\<rparr>"

definition blocks_example :: "int scalar tensor" where
  "blocks_example = Tensor [1, 8, 1, 2] (map FV [1..16])"

lemma blocks_example_simps [simp]: "tshape blocks_example = [1, 8, 1, 2]" "wf_tensor blocks_example"
  by (simp_all add: blocks_example_def wf_tensor_def)

theorem lower_depth_to_space_correct_witness:
  "\<exists>v. lower_depth_to_space d2s_example = Inr v \<and>
     represents reference_sem (\<lambda>_. ttranspose to_nhwc blocks_example) v (sp_result d2s_example) (nchw_d2s False 2 blocks_example)"
proof -
  have "\<not> failed (lower_depth_to_space d2s_example)" by code_simp
  then obtain v where low: "lower_depth_to_space d2s_example = Inr v" by (rule not_failedE)
  from lower_depth_to_space_correct [OF reference_space.tfl_space_axioms low, of blocks_example "\<lambda>_. ttranspose to_nhwc blocks_example"] low
  show ?thesis by (simp add: d2s_example_def example_simps)
qed

definition s2d_example :: "int space_op" where
  "s2d_example = \<lparr>sp_input = \<lparr>oty = RankedTensor [1, 2, 2, 4] F32, oattr = None\<rparr>, sp_blocksize = 2, sp_mode = ''DCR'',
     sp_result = RankedTensor [1, 8, 1, 2] F32\<rparr>"

definition pixels_example :: "int scalar tensor" where
  "pixels_example = Tensor [1, 2, 2, 4] (map FV [1..16])"

lemma pixels_example_simps [simp]: "tshape pixels_example = [1, 2, 2, 4]" "wf_tensor pixels_example"
  by (simp_all add: pixels_example_def wf_tensor_def)

section \<open>Round trip\<close>

lemma space_to_depth_depth_to_space:
  assumes sh: "tshape t = [n, c * (r * r), h, w]" and r: "0 < r" and wf: "wf_tensor t"
  shows "nchw_s2d r (nchw_d2s True r t) = t"
proof (rule tensor_eqI)
  have c: "c * (r * r) div (r * r) = c" using r by simp
  show "tshape (nchw_s2d r (nchw_d2s True r t)) = tshape t"
    using r by (simp add: nchw_s2d_def nchw_d2s_def Let_def sh)
  fix "is" assume "valid_ix (tshape t) is"
  then obtain i k y x where ix: "is = [i, k, y, x]" "i < n" "k < c * (r * r)" "y < h" "x < w"
    by (auto simp: sh valid_ix_Cons)
  have c0: "0 < c" using ix(3) by (cases c) simp_all
  have "k div c < r * r" using ix(3) by (simp add: less_mult_imp_div_less mult.commute mult.left_commute)
  then have q: "k div c div r < r" "k div c mod r < r" using r by (simp_all add: less_mult_imp_div_less)
  have yx: "y * r + k div c div r < h * r" "x * r + k div c mod r < w * r"
    using q ix(4,5) mult_le_mono1 [of "Suc y" h r] mult_le_mono1 [of "Suc x" w r] unfolding mult_Suc by linarith+
  have "(k div c div r * r + k div c mod r) * c + k mod c = k" by simp
  then show "tnth (nchw_s2d r (nchw_d2s True r t)) is = tnth t is"
    using ix yx q c0 r by (simp add: nchw_s2d_def nchw_d2s_def Let_def sh c mult.assoc)
qed (use wf in \<open>simp_all add: nchw_s2d_def Let_def\<close>)

text \<open>
  C39: the lowerings of DepthToSpace (DCR) and SpaceToDepth with the same block size are inverse to each
  other on the created values: feeding the value of the first into the second gives the tensor that
  was put in.
\<close>

theorem space_to_depth_undoes_depth_to_space:
  assumes sem: "tfl_space sem" and d2s: "lower_depth_to_space op = Inr v" "sp_mode op = ''DCR''"
    and s2d: "lower_space_to_depth op' = Inr v'" "sp_blocksize op' = sp_blocksize op" "oty (sp_input op') = sp_result op"
      "sp_result op' = oty (sp_input op)"
    and t: "conforms (oty (sp_input op)) t" "env 0 = phys (oty (sp_input op)) t" and env': "env' 0 = eval sem env v"
    and i32: "i32_dims (tshape t)" "tshape t ! 0 * tshape t ! 2 * tshape t ! 3 < 2 ^ 31" "sp_blocksize op * sp_blocksize op < 2 ^ 31"
  shows "eval sem env' v' = env 0"
proof -
  let ?r = "nat (sp_blocksize op)" and ?u = "nchw_d2s True (nat (sp_blocksize op)) t"
  have u: "represents sem env v (sp_result op) ?u"
    using depth_to_space_represents [where env = env, OF sem d2s(1) t i32] d2s(2) by simp
  have pos: "0 < sp_blocksize op" using d2s(1) by (auto simp: lower_depth_to_space_def Let_def split: if_splits mtype.splits)
  have "sp_blocksize op * 1 \<le> sp_blocksize op * sp_blocksize op" using pos by (intro mult_left_mono) simp_all
  then have b: "sp_blocksize op' < 2 ^ 31" using i32(3) s2d(2) by simp
  obtain n c h w where sh: "tshape t = [n, c * (?r * ?r), h, w]"
    using d2s_shape [OF d2s(1) t(1) i32(3)] .
  have "c * (?r * ?r) < 2 ^ 31" using i32(1) by (simp add: sh i32_dims_def)
  then have "int (c * (?r * ?r)) < int (2 ^ 31)" by (subst of_nat_less_iff)
  then have c: "int (tshape ?u ! 1) * sp_blocksize op' * sp_blocksize op' < 2 ^ 63"
    using pos s2d(2) by (simp add: nchw_d2s_def Let_def sh mult.assoc)
  have "represents sem env' v' (sp_result op') (nchw_s2d ?r ?u)"
    using space_to_depth_represents [OF sem s2d(1), of ?u env'] u env' s2d b c by (simp add: represents_def)
  moreover have "nchw_s2d ?r ?u = t" using sh pos t(1) by (intro space_to_depth_depth_to_space) (auto dest: conforms_wf)
  ultimately show ?thesis using t(2) s2d(4) by (simp add: represents_def)
qed

definition d2s_dcr_example :: "int space_op" where
  "d2s_dcr_example = d2s_example \<lparr>sp_mode := ''DCR''\<rparr>"

theorem space_to_depth_undoes_depth_to_space_witness:
  "\<exists>v v'. lower_depth_to_space d2s_dcr_example = Inr v \<and> lower_space_to_depth s2d_example = Inr v' \<and>
     eval reference_sem (\<lambda>_. eval reference_sem (\<lambda>_. ttranspose to_nhwc blocks_example) v) v' = ttranspose to_nhwc blocks_example"
proof -
  have "\<not> failed (lower_depth_to_space d2s_dcr_example)" "\<not> failed (lower_space_to_depth s2d_example)" by code_simp+
  then obtain v v' where low: "lower_depth_to_space d2s_dcr_example = Inr v" and low': "lower_space_to_depth s2d_example = Inr v'"
    by (metis not_failedE)
  from space_to_depth_undoes_depth_to_space [OF reference_space.tfl_space_axioms low _ low',
      of blocks_example "\<lambda>_. ttranspose to_nhwc blocks_example" "\<lambda>_. eval reference_sem (\<lambda>_. ttranspose to_nhwc blocks_example) v"]
  show ?thesis using low low' by (simp add: d2s_dcr_example_def d2s_example_def s2d_example_def example_simps)
qed

end
