(* ===== verification/Lower_Constant.thy ===== *)
theory Lower_Constant
  imports TFL_Reference
begin

text \<open>
  Models of \<^verbatim>\<open>transposeRank4NCHWToNHWC\<close> in \<^verbatim>\<open>ONNXToTFLLegalizeUtils.cpp\<close>, which reorders the raw bytes of
  a dense attribute, and of \<^verbatim>\<open>Tensor/Constant.cpp\<close>, which uses it. A dense attribute is its type, its
  splat flag and its raw data; what an element's bytes mean is a parameter.
\<close>

section \<open>Dense attributes\<close>

record 'b dense =
  d_type :: mtype
  d_splat :: bool
  d_raw :: "'b list"

definition block :: "nat \<Rightarrow> 'b list \<Rightarrow> nat \<Rightarrow> 'b list" where
  "block sz raw k = take sz (drop (k * sz) raw)"

text \<open>The elements of a dense attribute, as lists of bytes.\<close>

definition dense_elements :: "nat \<Rightarrow> 'b dense \<Rightarrow> 'b list list" where
  "dense_elements sz d =
     (if d_splat d then replicate (prod_list (dims (d_type d))) (block sz (d_raw d) 0)
      else map (block sz (d_raw d)) [0..<prod_list (dims (d_type d))])"

fun calculateStrides :: "int list \<Rightarrow> int list" where
  "calculateStrides [] = []"
| "calculateStrides [d] = [1]"
| "calculateStrides (d # e # shape) = (let strides = calculateStrides (e # shape) in hd strides * e # strides)"

fun source_offset :: "int \<Rightarrow> int list \<Rightarrow> int list \<Rightarrow> int" where
  "source_offset remaining (outputStride # outputStrides) (inputStride # inputStrides) =
     cdiv remaining outputStride * inputStride + source_offset (cmod remaining outputStride) outputStrides inputStrides"
| "source_offset remaining _ _ = 0"

definition transposeRank4NCHWToNHWC :: "'b dense \<Rightarrow> 'b dense result" where
  "transposeRank4NCHWToNHWC input =
     (case d_type input of
        RankedTensor oldShape e \<Rightarrow>
          if getRank oldShape \<noteq> 4 then Inl BadRank
          else
            let newType = convertRank4NCHWToNHWCType (d_type input) in
            if d_splat input then Inr (input \<lparr>d_type := newType\<rparr>)
            else if d_raw input = [] \<or> elt_width e mod 8 \<noteq> 0 then Inl BadTypes
            else
              let newShape = (case newType of RankedTensor sh _ \<Rightarrow> sh | _ \<Rightarrow> []);
                  inputStrides = calculateStrides oldShape;
                  outputStrides = calculateStrides newShape;
                  elementSize = elt_width e div 8;
                  permuted = map (\<lambda>k. inputStrides ! k) [0, 2, 3, 1];
                  outputBuffer = concat (map (\<lambda>destination.
                    block elementSize (d_raw input) (nat (source_offset destination outputStrides permuted)))
                    [0..getNumElements oldShape - 1]) in
              Inr \<lparr>d_type = newType, d_splat = False, d_raw = outputBuffer\<rparr>
      | _ \<Rightarrow> Inl UnrankedTensor)"

section \<open>Constants\<close>

datatype 'b const_attr = DenseValue "'b dense" | DisposableValue "'b dense" | OtherElements | NotElements

record 'b constant_op =
  c_sparse :: bool
  c_value :: "'b const_attr option"
  c_result :: mtype

definition constant_element_ok :: "elt \<Rightarrow> bool" where
  "constant_element_ok e \<longleftrightarrow> isF32 e \<or> isInteger 1 e \<or> isUnsignedInteger 32 e \<or> isSignlessInteger 32 e \<or> isSignlessInteger 64 e"

definition emit_constant :: "('b list \<Rightarrow> 'f) \<Rightarrow> ('b dense \<Rightarrow> int list) \<Rightarrow> elt \<Rightarrow> mtype \<Rightarrow> 'b dense \<Rightarrow> 'f val" where
  "emit_constant decodeF decodeI e resultType d =
     (if isUnsignedInteger 32 e
      then createTFLOperation ''tfl.pseudo_const'' [resultType] [] [(''value'', ElementsAttr (d_type d) (decodeI d))] 0
      else if isF32 e then ConstF resultType (map decodeF (dense_elements (elt_width e div 8) d))
      else if isInteger 1 e then ConstB resultType (map (\<lambda>b. b \<noteq> 0) (decodeI d))
      else ConstI resultType (decodeI d))"

definition lower_constant :: "('b list \<Rightarrow> 'f) \<Rightarrow> ('b dense \<Rightarrow> int list) \<Rightarrow> 'b constant_op \<Rightarrow> 'f val result" where
  "lower_constant decodeF decodeI op =
     (if c_sparse op then Inl BadAttribute
      else (case c_value op of
        None \<Rightarrow> Inl MissingAttribute
      | Some NotElements \<Rightarrow> Inl MissingAttribute
      | Some OtherElements \<Rightarrow> Inl BadAttribute
      | Some value \<Rightarrow>
          let constantValue = (case value of DenseValue d \<Rightarrow> d | DisposableValue d \<Rightarrow> d) in
          (case c_result op of
             RankedTensor shape e \<Rightarrow>
               if \<not> hasStaticShape shape then Inl DynamicShape
               else if \<not> constant_element_ok e then Inl BadTypes
               else
                 let resultType = convertRank4NCHWToNHWCType (c_result op) in
                 if getRank shape = 4 \<and> isF32 e
                 then bind_result (transposeRank4NCHWToNHWC constantValue)
                        (\<lambda>transposed. Inr (emit_constant decodeF decodeI e resultType transposed))
                 else Inr (emit_constant decodeF decodeI e resultType constantValue)
           | _ \<Rightarrow> Inl DynamicShape)))"

section \<open>Correctness of the reordering\<close>

lemma strides4:
  "calculateStrides [int a, int b, int c, int d] = [int (b * c * d), int (c * d), int d, 1]"
  by (simp add: Let_def mult.commute mult.left_commute)

lemma source_offset_nhwc:
  assumes k: "k < n * h * w * c"
  shows "nat (source_offset (int k) (calculateStrides [int n, int h, int w, int c])
      (map (\<lambda>j. calculateStrides [int n, int c, int h, int w] ! j) [0, 2, 3, 1])) =
    ravel [n, c, h, w] (permute to_nchw (unravel [n, h, w, c] k))"
proof -
  have pos: "0 < h" "0 < w" "0 < c" using k by (auto intro!: Nat.gr0I)
  let ?i = "k div (h * w * c)" and ?r = "k mod (h * w * c)"
  let ?y = "?r div (w * c)" and ?s = "?r mod (w * c)"
  let ?x = "?s div c" and ?k = "?s mod c"
  have "source_offset (int k) [int (h * w * c), int (w * c), int c, 1] [int (c * h * w), int w, 1, int (h * w)] =
      int (?i * (c * h * w) + ?y * w + ?x + ?k * (h * w))"
    using pos by (simp add: cdiv_nonneg cmod_nonneg zdiv_int zmod_int)
  moreover have "unravel [n, h, w, c] k = [?i, ?y, ?x, ?k]" by (simp add: mult.assoc)
  ultimately show ?thesis
    unfolding strides4 by (simp add: mult.assoc del: of_nat_add of_nat_mult)
qed

lemma length_concat_blocks: "\<forall>xs\<in>set xss. length xs = s \<Longrightarrow> length (concat xss) = length xss * s"
  by (induction xss) auto

lemma block_concat:
  assumes "\<forall>xs\<in>set xss. length xs = s" and "k < length xss" shows "block s (concat xss) k = xss ! k"
  using assms
proof (induction xss arbitrary: k)
  case (Cons x xss)
  then show ?case by (cases k) (simp_all add: block_def)
qed simp

lemma length_block: "(k + 1) * s \<le> length raw \<Longrightarrow> length (block s raw k) = s"
  by (simp add: block_def)

definition dense_ok :: "nat \<Rightarrow> 'b dense \<Rightarrow> bool" where
  "dense_ok sz d \<longleftrightarrow> length (d_raw d) = (if d_splat d then 1 else prod_list (dims (d_type d))) * sz"

lemma length_dense_elements [simp]: "length (dense_elements sz d) = prod_list (dims (d_type d))"
  by (simp add: dense_elements_def)

lemma dense_elements_blocks:
  assumes "dense_ok sz d" and "x \<in> set (dense_elements sz d)" shows "length x = sz"
proof (cases "d_splat d")
  case True
  then show ?thesis using assms by (auto simp: dense_elements_def dense_ok_def block_def)
next
  case False
  then obtain k where k: "k < prod_list (dims (d_type d))" "x = block sz (d_raw d) k"
    using assms(2) by (auto simp: dense_elements_def)
  have "(k + 1) * sz \<le> prod_list (dims (d_type d)) * sz" using k(1) by (intro mult_le_mono1) simp
  then show ?thesis using assms(1) False k(2) by (simp add: length_block dense_ok_def)
qed

lemma ttranspose_replicate:
  assumes "is_perm p (length ds)"
  shows "ttranspose p (Tensor ds (replicate (prod_list ds) x)) = Tensor (permute p ds) (replicate (prod_list ds) x)"
proof -
  let ?t = "Tensor ds (replicate (prod_list ds) x)"
  have pr: "prod_list (permute p ds) = prod_list ds" by (rule prod_list_permute [OF assms refl])
  have "ttranspose p ?t = tgen (permute p ds) (\<lambda>is. x)"
    unfolding ttranspose_def
  proof (rule tgen_cong)
    fix "is" assume "valid_ix (permute p ds) is"
    then have "valid_ix ds (permute (inv_perm p) is)" using assms by (intro valid_ix_unpermute)
    then show "tnth ?t (permute (inv_perm p) is) = x" using ravel_less by (simp add: tnth_def)
  qed simp
  then show ?thesis by (simp add: tgen_def pr map_replicate_const)
qed

lemma transpose_dense:
  assumes tr: "transposeRank4NCHWToNHWC d = Inr d'" and ty: "d_type d = RankedTensor (map int [n, c, h, w]) F32" and ok: "dense_ok 4 d"
  shows "d_type d' = RankedTensor (map int [n, h, w, c]) F32" and "dense_ok 4 d'"
    and "Tensor [n, h, w, c] (dense_elements 4 d') = ttranspose to_nhwc (Tensor [n, c, h, w] (dense_elements 4 d))"
proof -
  let ?t = "Tensor [n, c, h, w] (dense_elements 4 d)"
  have dm: "dims (d_type d) = [n, c, h, w]" by (simp add: ty)
  have perm: "is_perm to_nhwc (length [n, c, h, w])" using is_perm_to_nhwc by (simp add: eval_nat_numeral)
  have nt: "convertRank4NCHWToNHWCType (d_type d) = RankedTensor (map int [n, h, w, c]) F32" by (simp add: ty convert_Ranked)
  have "(d_type d' = RankedTensor (map int [n, h, w, c]) F32 \<and> dense_ok 4 d') \<and>
      Tensor [n, h, w, c] (dense_elements 4 d') = ttranspose to_nhwc ?t"
  proof (cases "d_splat d")
    case True
    then have d': "d' = d \<lparr>d_type := RankedTensor (map int [n, h, w, c]) F32\<rparr>"
      using tr nt by (simp add: transposeRank4NCHWToNHWC_def ty getRank_def Let_def)
    have "dense_elements 4 d = replicate (prod_list [n, c, h, w]) (block 4 (d_raw d) 0)"
      using True dm by (simp add: dense_elements_def)
    then show ?thesis
      using ttranspose_replicate [OF perm, of "block 4 (d_raw d) 0"] True ok
      by (simp add: d' dense_elements_def dense_ok_def mult.commute mult.left_commute)
  next
    case False
    let ?src = "\<lambda>k. ravel [n, c, h, w] (permute to_nchw (unravel [n, h, w, c] k))"
    let ?N = "n * h * w * c"
    define blocks where "blocks = map (\<lambda>k. block 4 (d_raw d) (?src k)) [0..<?N]"
    have num: "getNumElements (map int [n, c, h, w]) = int ?N" by (simp add: getNumElements_def mult.commute mult.left_commute)
    have d': "d' = \<lparr>d_type = RankedTensor (map int [n, h, w, c]) F32, d_splat = False, d_raw = concat blocks\<rparr>"
    proof -
      have "map (\<lambda>q. block 4 (d_raw d) (nat (source_offset q (calculateStrides (map int [n, h, w, c]))
          (map (\<lambda>j. calculateStrides (map int [n, c, h, w]) ! j) [0, 2, 3, 1])))) [0..int ?N - 1] = blocks"
        unfolding int_upto blocks_def using source_offset_nhwc [of _ n h w c] by simp
      then show ?thesis
        using tr False num nt unfolding transposeRank4NCHWToNHWC_def ty
        by (simp add: getRank_def Let_def elt_width_def del: calculateStrides.simps split: if_splits)
    qed
    have v: "valid_ix [n, c, h, w] (permute to_nchw (unravel [n, h, w, c] k))" if "k < ?N" for k
      using unravel_valid [of k "[n, h, w, c]"] that by (auto simp: mult.assoc valid_ix_Cons simp del: unravel.simps)
    have src: "?src k < prod_list [n, c, h, w]" if "k < ?N" for k using ravel_less [OF v [OF that]] .
    have el: "dense_elements 4 d ! j = block 4 (d_raw d) j" if "j < prod_list [n, c, h, w]" for j
      using that False dm by (simp add: dense_elements_def)
    have bl: "\<forall>b\<in>set blocks. length b = 4"
    proof
      fix b assume "b \<in> set blocks"
      then obtain k where k: "k < ?N" "b = block 4 (d_raw d) (?src k)" by (auto simp: blocks_def)
      then have "b \<in> set (dense_elements 4 d)" using el [OF src [OF k(1)]] src [OF k(1)] dm by (metis length_dense_elements nth_mem)
      then show "length b = 4" by (rule dense_elements_blocks [OF ok])
    qed
    have lb: "length blocks = ?N" by (simp add: blocks_def)
    have "dense_elements 4 d' = blocks"
      using block_concat [OF bl] lb by (intro nth_equalityI) (simp_all add: d' dense_elements_def mult.assoc)
    also have "\<dots> = map ((\<lambda>is. tnth ?t (permute to_nchw is)) \<circ> unravel [n, h, w, c]) [0..<?N]"
      using el src by (auto simp: blocks_def tnth_def simp del: unravel.simps ravel.simps prod_list.Cons)
    finally have "Tensor [n, h, w, c] (dense_elements 4 d') = ttranspose to_nhwc ?t"
      by (simp add: ttranspose_def tgen_def mult.assoc)
    moreover have "dense_ok 4 d'" using length_concat_blocks [OF bl] lb by (simp add: d' dense_ok_def mult.assoc)
    ultimately show ?thesis by (simp add: d')
  qed
  then show "d_type d' = RankedTensor (map int [n, h, w, c]) F32" "dense_ok 4 d'"
    "Tensor [n, h, w, c] (dense_elements 4 d') = ttranspose to_nhwc ?t" by simp_all
qed

text \<open>The elements of a dense attribute as scalars of its element type.\<close>

definition constant_scalars :: "('b list \<Rightarrow> 'f) \<Rightarrow> ('b dense \<Rightarrow> int list) \<Rightarrow> elt \<Rightarrow> 'b dense \<Rightarrow> 'f scalar list" where
  "constant_scalars decodeF decodeI e d =
     (if isF32 e then map (\<lambda>b. FV (decodeF b)) (dense_elements 4 d)
      else if isInteger 1 e then map (\<lambda>b. BV (b \<noteq> 0)) (decodeI d) else map IV (decodeI d))"

text \<open>
  C9: when the Constant pattern succeeds on a dense value of the type of the operation, the created value
  represents that tensor, for each of the five element types it accepts: a rank-4 f32 constant is reordered byte
  block by byte block into the NHWC layout (or only retyped when it is a splat), every other constant keeps
  its elements, an unsigned one in an operation of its own.
\<close>

theorem lower_constant_correct:
  assumes sem: "tfl_pseudo_const sem" and low: "lower_constant decodeF decodeI op = Inr v"
    and val: "c_value op = Some (DenseValue d) \<or> c_value op = Some (DisposableValue d)"
    and ty: "d_type d = c_result op" "c_result op = RankedTensor (map int ds) e"
    and ok: "isF32 e \<Longrightarrow> dense_ok 4 d" "\<not> isF32 e \<Longrightarrow> length (decodeI d) = prod_list ds"
  shows "represents sem env v (c_result op) (Tensor ds (constant_scalars decodeF decodeI e d))"
proof -
  let ?t = "Tensor ds (constant_scalars decodeF decodeI e d)" and ?rt = "convertRank4NCHWToNHWCType (c_result op)"
  have cf: "conforms (c_result op) ?t" using ok(2) ty by (auto simp: conforms_Ranked wf_tensor_def constant_scalars_def)
  have c: "(if length ds = 4 \<and> isF32 e then bind_result (transposeRank4NCHWToNHWC d) (\<lambda>x. Inr (emit_constant decodeF decodeI e ?rt x))
      else Inr (emit_constant decodeF decodeI e ?rt d)) = Inr v" and e: "constant_element_ok e"
    using low val unfolding lower_constant_def ty(2) by (auto simp: Let_def getRank_def split: if_splits)
  show ?thesis
  proof (cases "length ds = 4 \<and> isF32 e")
    case True
    then have f: "e = F32" by (simp add: isF32_def)
    obtain d' where d': "transposeRank4NCHWToNHWC d = Inr d'" and v: "v = emit_constant decodeF decodeI e ?rt d'" using c True by auto
    obtain n cc h w where ds: "ds = [n, cc, h, w]" using True by (auto elim!: length_4_cases)
    have "Tensor [n, h, w, cc] (dense_elements 4 d') = ttranspose to_nhwc (Tensor ds (dense_elements 4 d))"
      using transpose_dense(3) [OF d', of n cc h w] ty True f ok(1) by (simp add: ds)
    then have "tmap (\<lambda>b. FV (decodeF b)) (Tensor [n, h, w, cc] (dense_elements 4 d')) =
        ttranspose to_nhwc (tmap (\<lambda>b. FV (decodeF b)) (Tensor ds (dense_elements 4 d)))"
      using tmap_ttranspose [of "Tensor ds (dense_elements 4 d)" to_nhwc "\<lambda>b. FV (decodeF b)"] is_perm_to_nhwc ty
      by (simp add: wf_tensor_def ds eval_nat_numeral)
    then have "eval sem env v = phys (c_result op) ?t"
      using f ds by (simp add: v emit_constant_def elt_defs ty(2) convert_Ranked phys_def tmap_def elt_width_def comp_def constant_scalars_def)
    then show ?thesis using cf f by (simp add: represents_def v emit_constant_def elt_defs)
  next
    case False
    then have v: "v = emit_constant decodeF decodeI e ?rt d" and np: "\<not> physical4 (c_result op)" using c by (auto simp: ty(2) isF32_def)
    have rt: "?rt = RankedTensor (map int ds) e" using np ty(2) by (simp add: convert_id)
    have pc: "sem ''tfl.pseudo_const'' [(''value'', ElementsAttr (RankedTensor (map int ds) e) vs)] [RankedTensor (map int ds) e] [] = [Tensor ds (map IV vs)]"
      if "length vs = prod_list ds" for vs by (rule tfl_pseudo_const.pseudo_const [OF sem refl that])
    have "eval sem env v = ?t" "vtype v = c_result op"
      using e ty rt ok(2) pc by (auto simp: v emit_constant_def constant_scalars_def constant_element_ok_def elt_defs elt_width_def comp_def split: elt.splits)
    then show ?thesis using cf np by (intro represents_logical)
  qed
qed

definition constant_example :: "nat constant_op" where
  "constant_example = \<lparr>c_sparse = False,
     c_value = Some (DenseValue \<lparr>d_type = RankedTensor [1, 2, 1, 2] F32, d_splat = False,
       d_raw = [0, 0, 0, 1, 0, 0, 0, 2, 0, 0, 0, 3, 0, 0, 0, 4]\<rparr>),
     c_result = RankedTensor [1, 2, 1, 2] F32\<rparr>"

theorem lower_constant_correct_witness:
  "\<exists>v. lower_constant (\<lambda>b. int (sum_list b)) (\<lambda>_. []) constant_example = Inr v \<and>
     represents reference_sem (\<lambda>_. nchw_example) v (c_result constant_example) (Tensor [1, 2, 1, 2] (map FV [1, 2, 3, 4]))"
proof -
  let ?d = "\<lparr>d_type = RankedTensor [1, 2, 1, 2] F32, d_splat = False, d_raw = [0, 0, 0, 1, 0, 0, 0, 2, 0, 0, 0, 3, 0, 0, 0, 4 :: nat]\<rparr>"
  have "\<not> failed (lower_constant (\<lambda>b. int (sum_list b)) (\<lambda>_. []) constant_example)" by code_simp
  then obtain v where low: "lower_constant (\<lambda>b. int (sum_list b)) (\<lambda>_. []) constant_example = Inr v" by (rule not_failedE)
  have v: "c_value constant_example = Some (DenseValue ?d)" by (simp add: constant_example_def)
  have ok: "dense_ok 4 ?d" "map (\<lambda>b. FV (int (sum_list b))) (dense_elements 4 ?d) = map FV [1, 2, 3, 4]" by code_simp+
  from lower_constant_correct [OF reference_pseudo_const.tfl_pseudo_const_axioms low disjI1 [OF v], of "[1, 2, 1, 2]" F32 "\<lambda>_. nchw_example"] low ok
  show ?thesis by (simp add: constant_example_def constant_scalars_def isF32_def)
qed

end
