(* ===== verification/Lower_Gather.thy ===== *)
theory Lower_Gather
  imports Lower_Compare
begin

text \<open>
  Models of \<^verbatim>\<open>Tensor/Gather.cpp\<close> and \<^verbatim>\<open>Tensor/CompressTrilu.cpp\<close>. Constant indices are normalised by the
  pattern and checked against the axis; runtime indices are normalised by created operations.
\<close>

section \<open>Gather\<close>

record 'f gather_op =
  ga_data :: "'f operand"
  ga_indices :: "'f operand"
  ga_axis :: int
  ga_result :: mtype

fun normalizedIndices :: "int \<Rightarrow> int list \<Rightarrow> int list result" where
  "normalizedIndices axisSize [] = Inr []"
| "normalizedIndices axisSize (rawIndex # rest) =
     (let index = (if rawIndex < 0 then rawIndex + axisSize else rawIndex) in
      if index < 0 \<or> axisSize \<le> index then Inl OutOfBounds
      else bind_result (normalizedIndices axisSize rest) (\<lambda>is. Inr (i32 index # is)))"

definition makeScalar :: "elt \<Rightarrow> int \<Rightarrow> 'f val" where
  "makeScalar integerType value =
     ConstI (RankedTensor [] integerType) [if isSignlessInteger 32 integerType then i32 value else value]"

definition wrap_indices :: "int list \<Rightarrow> elt \<Rightarrow> int \<Rightarrow> 'f val \<Rightarrow> 'f val" where
  "wrap_indices shape integerType axisSize indices =
     (let zero = makeScalar integerType 0; extent = makeScalar integerType axisSize;
          negative = createTFLOperation ''tfl.less'' [RankedTensor shape I1] [indices, zero] [] 0;
          wrapped = createTFLOperation ''tfl.add'' [RankedTensor shape integerType] [indices, extent] [getFusedActivationNone] 0 in
      createTFLOperation ''tfl.select_v2'' [RankedTensor shape integerType] [negative, wrapped, indices] [] 0)"

definition gather_attributes :: "int \<Rightarrow> (string \<times> 'f attr) list" where
  "gather_attributes axis = [(''axis'', IntAttr (i32 axis)), (''batch_dims'', IntAttr 0)]"

definition emit_gather :: "mtype \<Rightarrow> mtype \<Rightarrow> int \<Rightarrow> 'f val \<Rightarrow> 'f val \<Rightarrow> 'f val" where
  "emit_gather dataType resultType axis data indices =
     (let data' = (if physical4 dataType then restoreLogicalRank4 dataType data else data);
          gathered = createTFLOperation ''tfl.gather'' [resultType] [data', indices] (gather_attributes axis) 0 in
      if physical4 resultType then toPhysicalRank4 resultType gathered else gathered)"

definition gather_types_ok :: "mtype \<Rightarrow> mtype \<Rightarrow> mtype \<Rightarrow> bool" where
  "gather_types_ok dataType indicesType resultType \<longleftrightarrow>
     (case (dataType, indicesType, resultType) of
        (RankedTensor ds de, RankedTensor ns ne, RankedTensor rs re) \<Rightarrow>
          hasStaticShape ds \<and> hasStaticShape rs \<and> \<not> getRank ds < 1 \<and> (isF32 de \<or> isInteger 1 de) \<and> re = de \<and>
          hasStaticShape ns \<and> (isSignlessInteger 32 ne \<or> isSignlessInteger 64 ne)
      | _ \<Rightarrow> False)"

definition lower_gather :: "'f gather_op \<Rightarrow> 'f val result" where
  "lower_gather op =
     (if \<not> gather_types_ok (oty (ga_data op)) (oty (ga_indices op)) (ga_result op) then Inl BadTypes
      else (case (oty (ga_data op), oty (ga_indices op), ga_result op) of
        (RankedTensor ds de, RankedTensor ns ne, RankedTensor rs re) \<Rightarrow>
          let dataRank = getRank ds; indicesRank = getRank ns; resultRank = getRank rs;
              axis = normalizeAxis (ga_axis op) dataRank; data = adaptor 0 (ga_data op) in
          if dataRank < 1 \<or> 6 < dataRank \<or> 6 < indicesRank \<or> 6 < resultRank then Inl BadRank
          else if axis < 0 \<or> dataRank \<le> axis then Inl BadAxis
          else if take (nat axis) ds @ ns @ drop (nat axis + 1) ds \<noteq> rs then Inl ShapeMismatch
          else
            let axisSize = ds ! nat axis; emit = emit_gather (oty (ga_data op)) (ga_result op) axis data in
            (case getConstantIntValues (ga_indices op) of
               Some values \<Rightarrow>
                 if 5 < dataRank \<and> indicesRank = 0 \<and> resultRank = dataRank - 1 \<and> axisSize = 1 \<and> length values = 1 \<and>
                    (values ! 0 = 0 \<or> values ! 0 = - 1)
                 then Inr (emitReshape (ga_result op) rs data)
                 else if int (length values) \<noteq> getNumElements ns then Inl CountMismatch
                 else bind_result (normalizedIndices axisSize values) (\<lambda>is.
                        Inr (emit (ConstI (RankedTensor ns I32) is)))
             | None \<Rightarrow> Inr (emit (wrap_indices ns ne axisSize (adaptor 1 (ga_indices op)))))
      | _ \<Rightarrow> Inl BadTypes))"

section \<open>Compress\<close>

record 'f compress_op =
  cp_input :: "'f operand"
  cp_condition :: "'f operand"
  cp_axis :: "int option"
  cp_result :: mtype

fun compress_indices :: "int \<Rightarrow> int \<Rightarrow> int list \<Rightarrow> int list" where
  "compress_indices limit index [] = []"
| "compress_indices limit index (selected # rest) =
     (if limit \<le> index then []
      else (if selected \<noteq> 0 then i32 index # compress_indices limit (index + 1) rest
            else compress_indices limit (index + 1) rest))"

definition lower_compress :: "'f compress_op \<Rightarrow> 'f val result" where
  "lower_compress op =
     (case (oty (cp_input op), cp_result op, oattr (cp_condition op)) of
        (RankedTensor ds de, RankedTensor rs re, Some (IntElements ce condition)) \<Rightarrow>
          if \<not> hasStaticShape ds \<or> \<not> hasStaticShape rs \<or> \<not> isF32 de \<or> \<not> isF32 re then Inl BadTypes
          else (case cp_axis op of
            None \<Rightarrow> Inl MissingAttribute
          | Some rawAxis \<Rightarrow>
              let axis = normalizeAxis rawAxis (getRank ds) in
              if axis < 0 \<or> getRank ds \<le> axis then Inl BadAxis
              else
                let indices = compress_indices (ds ! nat axis) 0 condition in
                if int (length indices) \<noteq> rs ! nat axis then Inl ShapeMismatch
                else Inr (emit_gather (oty (cp_input op)) (cp_result op) axis (adaptor 0 (cp_input op))
                            (ConstI (RankedTensor [int (length indices)] I32) indices)))
      | _ \<Rightarrow> Inl BadTypes)"

section \<open>Trilu\<close>

record 'f trilu_op =
  tl_input :: "'f operand"
  tl_k :: "'f operand"
  tl_upper :: int
  tl_result :: mtype

definition trilu_diagonal :: "'f operand \<Rightarrow> int result" where
  "trilu_diagonal k =
     (if oty k = NoneT then Inr 0
      else (case getConstantIntValues k of Some [d] \<Rightarrow> Inr d | _ \<Rightarrow> Inl NonConstant))"

definition trilu_keep :: "bool \<Rightarrow> int \<Rightarrow> int \<Rightarrow> int \<Rightarrow> bool" where
  "trilu_keep upper diagonal row column = (if upper then diagonal \<le> column - row else column - row \<le> diagonal)"

definition trilu_mask :: "'f \<Rightarrow> 'f \<Rightarrow> bool \<Rightarrow> int \<Rightarrow> int \<Rightarrow> int \<Rightarrow> int \<Rightarrow> 'f list" where
  "trilu_mask one zero upper diagonal matrices rows columns =
     concat (map (\<lambda>_. concat (map (\<lambda>row. map (\<lambda>column. if trilu_keep upper diagonal row column then one else zero)
       [0..columns - 1]) [0..rows - 1])) [0..matrices - 1])"

definition lower_trilu :: "'f \<Rightarrow> 'f \<Rightarrow> 'f trilu_op \<Rightarrow> 'f val result" where
  "lower_trilu one zero op =
     (case (oty (tl_input op), tl_result op) of
        (RankedTensor shape e, RankedTensor rs re) \<Rightarrow>
          if \<not> hasStaticShape shape \<or> \<not> hasStaticShape rs \<or> getRank shape < 2 \<or> \<not> isF32 e \<or> \<not> isF32 re then Inl BadTypes
          else bind_result (trilu_diagonal (tl_k op)) (\<lambda>diagonal.
            let inputType = oty (tl_input op);
                input = (if physical4 inputType then restoreLogicalRank4 inputType (adaptor 0 (tl_input op)) else adaptor 0 (tl_input op));
                rows = shape ! (length shape - 2); columns = last shape in
            if i64 (rows * columns) = 0 then Inl DivisionTrap
            else let
                matrices = cdiv (getNumElements shape) (i64 (rows * columns));
                mask = trilu_mask one zero (tl_upper op \<noteq> 0) diagonal matrices rows columns;
                res = createTFLOperation ''tfl.mul'' [tl_result op] [input, ConstF inputType mask] [getFusedActivationNone] 0 in
            Inr (if physical4 (tl_result op) then toPhysicalRank4 (tl_result op) res else res))
      | _ \<Rightarrow> Inl BadTypes)"

section \<open>Correctness of Gather\<close>

definition onnx_gather :: "nat \<Rightarrow> 'a tensor \<Rightarrow> int tensor \<Rightarrow> 'a tensor" where
  "onnx_gather a t ix = tgather a t (tmap (\<lambda>i. nat (if i < 0 then i + int (tshape t ! a) else i)) ix)"

lemma normalizedIndices_ok:
  assumes "normalizedIndices (int d) vs = Inr is" and "d < 2 ^ 31"
  shows "is = map (\<lambda>v. if v < 0 then v + int d else v) vs \<and> (\<forall>v\<in>set vs. - int d \<le> v \<and> v < int d)"
  using assms
proof (induction vs arbitrary: "is")
  case (Cons v vs)
  let ?i = "if v < 0 then v + int d else v"
  obtain js where "normalizedIndices (int d) vs = Inr js" "is = i32 ?i # js" "0 \<le> ?i" "?i < int d"
    using Cons.prems(1) by (auto simp: Let_def split: if_splits)
  moreover then have "i32 ?i = ?i" using assms(2) by (intro i32_id) (simp add: fits_i32_def)
  ultimately show ?case using Cons.IH [of js] Cons.prems(2) by (auto split: if_splits)
qed simp

lemma tselect_tmap_same:
  assumes "wf_tensor t"
  shows "tselect true (tmap f t) (tmap g t) (tmap h t) = tmap (\<lambda>x. if true (f x) then g x else h x) t"
  using assms by (intro tensor_eqI) (simp_all add: tselect_def tnth_tmap bcast_ix_self)

context tfl_gather
begin

lemma represents_emit_gather:
  assumes t: "conforms ity t" "eval sem env v = phys ity t" and a: "a < trank t" "trank t \<le> 8"
    and ix: "wf_tensor ix" "eval sem env iv = tmap (\<lambda>i. IV (int i)) ix" "\<forall>i\<in>set (tdata ix). i < tshape t ! a"
    and ty: "conforms ty (tgather a t ix)"
  shows "represents sem env (emit_gather ity ty (int a) v iv) ty (tgather a t ix)"
proof -
  let ?d = "if physical4 ity then restoreLogicalRank4 ity v else v"
  have d: "eval sem env ?d = t" using t by (rule eval_logical_operand)
  have "fits_i32 (int a)" using a by (simp add: fits_i32_def)
  moreover have "sem ''tfl.gather'' [(''axis'', IntAttr (int a)), (''batch_dims'', IntAttr 0)] [ty] [t, tmap (\<lambda>i. IV (int i)) ix] =
      [tgather a t ix]"
    using a ix ty conforms_wf [OF t(1)] by (intro gather) simp_all
  ultimately have "eval sem env (createTFLOperation ''tfl.gather'' [ty] [?d, iv] (gather_attributes (int a)) 0) = tgather a t ix"
    using d ix(2) by (simp add: gather_attributes_def)
  then show ?thesis unfolding emit_gather_def Let_def by (intro represents_physical_result [OF ty]) simp_all
qed

end

lemma eval_wrap_indices:
  assumes sem: "tfl_select sem" "tfl_binary sem ''tfl.less'' [] ltf 4" "tfl_binary sem ''tfl.add'' [getFusedActivationNone] addf 5"
    and ltf: "\<And>i j. ltf (IV i) (IV j) = BV (i < j)" and addf: "\<And>i j. fits_i32 (i + j) \<Longrightarrow> addf (IV i) (IV j) = IV (i + j)"
    and ix: "wf_tensor ix" "tshape ix = ns" "length ns \<le> 4" "eval sem env v = tmap IV ix" "\<forall>i\<in>set (tdata ix). - int d \<le> i"
    and d: "d < 2 ^ 31" and e: "e = I32 \<or> e = I64"
  shows "eval sem env (wrap_indices (map int ns) e (int d) v) = tmap (\<lambda>i. IV (if i < 0 then i + int d else i)) ix"
proof -
  let ?x = "tmap IV ix" and ?ty = "RankedTensor (map int ns) e" and ?a = "\<lambda>i. addf (IV i) (IV (int d))"
  have sc: "eval sem env (makeScalar e (int k)) = Tensor [] [IV (int k)]" if "k < 2 ^ 31" for k
    using that by (simp add: makeScalar_def fits_i32_def)
  have z: "eval sem env (makeScalar e 0) = Tensor [] [IV 0]" using sc [of 0] by simp
  let ?n = "createTFLOperation ''tfl.less'' [RankedTensor (map int ns) I1] [v, makeScalar e 0] [] 0"
  let ?w = "createTFLOperation ''tfl.add'' [?ty] [v, makeScalar e (int d)] [getFusedActivationNone] 0"
  have n: "eval sem env ?n = tmap (\<lambda>i. BV (i < 0)) ix"
    using tfl_binary.eval_scalar_right [OF sem(2), of ?x env v "makeScalar e 0" "IV 0"] ix z by (simp add: conforms_Ranked comp_def ltf)
  have w: "eval sem env ?w = tmap ?a ix"
    using tfl_binary.eval_scalar_right [OF sem(3), of ?x env v "makeScalar e (int d)" "IV (int d)" ?ty] ix sc [OF d]
    by (simp add: conforms_Ranked comp_def)
  have "eval sem env (createTFLOperation ''tfl.select_v2'' [?ty] [?n, ?w, v] [] 0) = tselect is_true (tmap (\<lambda>i. BV (i < 0)) ix) (tmap ?a ix) ?x"
    using tfl_select.select_v2 [OF sem(1), of "tmap (\<lambda>i. BV (i < 0)) ix" "tmap ?a ix" ?x "[?ty]"] ix n w
    by (simp add: conforms_Ranked tselect_tmap_same del: eval_createTFLOperation) simp
  moreover have "(if i < 0 then ?a i else IV i) = IV (if i < 0 then i + int d else i)" if "i \<in> set (tdata ix)" for i
    using ix(5) d that by (auto intro!: addf simp: fits_i32_def)
  ultimately show ?thesis
    using ix(1) by (simp add: wrap_indices_def Let_def tselect_tmap_same is_true_def del: eval_createTFLOperation) (simp add: tmap_def)
qed

text \<open>The reshape of the rank-6 path is the gather of the only position of the axis.\<close>

lemma tgather_singleton:
  assumes "wf_tensor t" and "a < trank t" and "tshape t ! a = 1"
  shows "tgather a t (Tensor [] [0]) = treshape (remove_ix a (tshape t)) t"
proof (rule tensor_eqI)
  let ?ds = "remove_ix a (tshape t)"
  have sh: "take a (tshape t) @ drop (Suc a) (tshape t) = ?ds" by (simp add: remove_ix_def)
  have pr: "prod_list ?ds = prod_list (tshape t)"
    using arg_cong [OF id_take_nth_drop [OF assms(2)], of prod_list] assms(3) by (simp add: remove_ix_def)
  show "wf_tensor (treshape ?ds t)" using assms(1) pr by (intro wf_treshape)
  show "tshape (tgather a t (Tensor [] [0])) = tshape (treshape ?ds t)" by (simp add: sh)
  fix "is" assume "valid_ix (tshape (treshape ?ds t)) is"
  then have v: "valid_ix ?ds is" by simp
  then have l: "length is = trank t - 1" using valid_ix_length assms(2) by fastforce
  have ra: "ravel (tshape t) (take a is @ 0 # drop a is) = ravel ?ds is"
  proof -
    have la: "length (take a is) = length (take a (tshape t))" using l assms(2) by simp
    have "ravel (tshape t) (take a is @ 0 # drop a is) =
        ravel (take a (tshape t) @ 1 # drop (Suc a) (tshape t)) (take a is @ 0 # drop a is)"
      using id_take_nth_drop [OF assms(2)] assms(3) by simp
    also have "\<dots> = ravel (take a (tshape t) @ drop (Suc a) (tshape t)) (take a is @ drop a is)"
      using la by (simp add: ravel_append del: append_take_drop_id)
    finally show ?thesis by (simp add: remove_ix_def)
  qed
  have "tnth (tgather a t (Tensor [] [0])) is = tnth t (take a is @ 0 # drop a is)"
    using v by (simp add: tgather_def sh tnth_def [of "Tensor [] [0]"])
  then show "tnth (tgather a t (Tensor [] [0])) is = tnth (treshape ?ds t) is"
    by (simp add: tnth_def treshape_def ra)
qed simp

text \<open>
  C10: when the Gather pattern succeeds, the created value represents the ONNX gather of the logical
  operand: constant indices are normalised and range-checked by the pattern, runtime indices that
  are in range are normalised by the created less, add and select, and a scalar index into a
  singleton axis of a rank-6 operand is a reshape. Runtime indices have at most four axes, the rank to which the
  comparison kernel broadcasts the scalar zero; the pattern accepts them with five or six, too.
\<close>

theorem lower_gather_correct:
  assumes sem: "tfl_gather sem" "tfl_select sem" "tfl_binary sem ''tfl.less'' [] ltf 4"
      "tfl_binary sem ''tfl.add'' [getFusedActivationNone] addf 5"
    and ltf: "\<And>i j. ltf (IV i) (IV j) = BV (i < j)" and addf: "\<And>i j. fits_i32 (i + j) \<Longrightarrow> addf (IV i) (IV j) = IV (i + j)"
    and low: "lower_gather op = Inr v" and i32: "i32_dims (tshape t)" "i32_dims (tshape ix)"
    and t: "conforms (oty (ga_data op)) t" "env 0 = phys (oty (ga_data op)) t"
    and a: "a = nat (normalizeAxis (ga_axis op) (int (trank t)))" and ix: "conforms (oty (ga_indices op)) ix"
    and vals: "case getConstantIntValues (ga_indices op) of Some vs \<Rightarrow> tdata ix = vs
      | None \<Rightarrow> env 1 = tmap IV ix \<and> trank ix \<le> 4 \<and> (\<forall>i\<in>set (tdata ix). - int (tshape t ! a) \<le> i \<and> i < int (tshape t ! a))"
  shows "represents sem env v (ga_result op) (onnx_gather a t ix)"
proof -
  let ?ity = "oty (ga_data op)" and ?ty = "ga_result op" and ?in = "adaptor 0 (ga_data op)" and ?d = "tshape t ! a"
  let ?axis = "normalizeAxis (ga_axis op) (int (trank t))" and ?n = "\<lambda>i. if i < 0 then i + int ?d else i"
  obtain e where ity: "?ity = RankedTensor (map int (tshape t)) e" using t(1) by (auto simp: conforms_def)
  obtain ie where nty: "oty (ga_indices op) = RankedTensor (map int (tshape ix)) ie" and wi: "wf_tensor ix" using ix by (auto simp: conforms_def)
  have ok: "gather_types_ok ?ity (oty (ga_indices op)) ?ty" using low by (auto simp: lower_gather_def split: if_splits)
  obtain rs where ty: "?ty = RankedTensor rs e" using ok by (auto simp: gather_types_ok_def ity nty split: mtype.splits)
  have ie: "ie = I32 \<or> ie = I64" using ok by (auto simp: gather_types_ok_def ity nty ty isSignlessInteger_def)
  have c: "trank t \<le> 6" "0 \<le> ?axis" "?axis < int (trank t)"
    "rs = map int (take a (tshape t) @ tshape ix @ drop (Suc a) (tshape t))"
    using low ok by (auto simp: lower_gather_def ity nty ty a Let_def take_map drop_map split: if_splits)
  have al: "a < trank t" and ax: "?axis = int a" using c a by simp_all
  have d31: "?d < 2 ^ 31" using i32(1) al by (auto simp: i32_dims_def)
  have cf: "conforms ?ty (onnx_gather a t ix)" using c(4) by (simp add: ty conforms_Ranked onnx_gather_def)
  have main: "represents sem env (emit_gather ?ity ?ty (int a) ?in iv) ?ty (onnx_gather a t ix)"
    if iv: "eval sem env iv = tmap (\<lambda>i. IV (?n i)) ix" and rng: "\<forall>i\<in>set (tdata ix). - int ?d \<le> i \<and> i < int ?d" for iv
  proof -
    let ?m = "tmap (\<lambda>i. nat (?n i)) ix"
    have "eval sem env iv = tmap (\<lambda>i. IV (int i)) ?m"
      using iv rng by (auto simp: tmap_def)
    moreover have "\<forall>i\<in>set (tdata ?m). i < ?d" using rng by (auto simp: tmap_def nat_less_iff)
    ultimately show ?thesis
      unfolding onnx_gather_def
      by (intro tfl_gather.represents_emit_gather [OF sem(1) t(1)])
        (use t(2) al c(1) wi cf in \<open>simp_all add: onnx_gather_def\<close>)
  qed
  show ?thesis
  proof (cases "getConstantIntValues (ga_indices op)")
    case None
    have "v = emit_gather ?ity ?ty (int a) ?in (wrap_indices (map int (tshape ix)) ie (int ?d) (adaptor 1 (ga_indices op)))"
      using low ok None al c(4) by (auto simp: lower_gather_def ity nty ty ax Let_def split: if_splits)
    moreover have "eval sem env (wrap_indices (map int (tshape ix)) ie (int ?d) (adaptor 1 (ga_indices op))) = tmap (\<lambda>i. IV (?n i)) ix"
      using vals None d31 ie by (intro eval_wrap_indices [OF sem(2-4) ltf addf wi]) simp_all
    ultimately show ?thesis using main vals None by simp
  next
    case (Some vs)
    then have vx: "tdata ix = vs" using vals by simp
    let ?fast = "5 < trank t \<and> tshape ix = [] \<and> ?d = 1 \<and> length vs = 1 \<and> (vs ! 0 = 0 \<or> vs ! 0 = - 1)"
    show ?thesis
    proof (cases ?fast)
      case True
      then have lr: "length rs = trank t - 1" using c(4) al by simp
      have v: "v = emitReshape ?ty rs ?in"
        using low ok Some True al lr by (auto simp: lower_gather_def ity nty ty ax Let_def getRank_def split: if_splits)
      have np: "\<not> physical4 ?ity" "\<not> physical4 ?ty" using True lr by (auto simp: ity ty)
      obtain x where "vs = [x]" "x = 0 \<or> x = - 1" using True by (auto simp: length_Suc_conv)
      then have "tmap (\<lambda>i. nat (?n i)) ix = Tensor [] [0]" using vx True by (cases ix) (auto simp: tmap_def)
      then have sp: "onnx_gather a t ix = treshape (remove_ix a (tshape t)) t"
        using tgather_singleton [OF conforms_wf [OF t(1)] al] True by (simp add: onnx_gather_def)
      have rs: "rs = map int (remove_ix a (tshape t))" using c(4) True by (simp add: remove_ix_def)
      have "i32_dims (remove_ix a (tshape t))"
        using i32(1) by (auto simp: i32_dims_def remove_ix_def dest: in_set_takeD in_set_dropD)
      moreover have "prod_list (remove_ix a (tshape t)) = prod_list (tshape t)"
        using arg_cong [OF id_take_nth_drop [OF al], of prod_list] True by (simp add: remove_ix_def)
      moreover have "tfl_layout sem" using sem(1) by (simp add: tfl_gather_def)
      moreover have "eval sem env ?in = t" using t(2) np by (simp add: phys_def)
      ultimately have "eval sem env v = onnx_gather a t ix"
        unfolding v sp rs by (intro tfl_layout.eval_emitReshape) (simp_all add: conforms_wf [OF t(1)] ty rs)
      then show ?thesis using np cf by (intro represents_logical) (simp_all add: v)
    next
      case False
      obtain js where js: "normalizedIndices (int ?d) vs = Inr js"
        and v: "v = emit_gather ?ity ?ty (int a) ?in (ConstI (RankedTensor (map int (tshape ix)) I32) js)"
        using low ok Some False al c(4) unfolding lower_gather_def ity nty ty ax
        by (auto simp: Let_def getRank_def ax split: if_splits)
      have "js = map ?n vs" "\<forall>i\<in>set (tdata ix). - int ?d \<le> i \<and> i < int ?d"
        using normalizedIndices_ok [OF js d31] vx by blast+
      then show ?thesis unfolding v by (intro main) (simp_all add: tmap_def vx comp_def)
    qed
  qed
qed

definition gather_example :: "int gather_op" where
  "gather_example = \<lparr>ga_data = \<lparr>oty = RankedTensor [1, 2, 2, 3] F32, oattr = None\<rparr>,
     ga_indices = \<lparr>oty = RankedTensor [2] I64, oattr = Some (IntElements I64 [2, -3])\<rparr>,
     ga_axis = -1, ga_result = RankedTensor [1, 2, 2, 2] F32\<rparr>"

theorem lower_gather_correct_witness:
  "\<exists>v. lower_gather gather_example = Inr v \<and>
     represents reference_sem (\<lambda>_. ttranspose to_nhwc nchw_example) v (ga_result gather_example)
       (onnx_gather 3 nchw_example (Tensor [2] [2, -3]))"
proof -
  have "\<not> failed (lower_gather gather_example)" by code_simp
  then obtain v where low: "lower_gather gather_example = Inr v" by (rule not_failedE)
  have r: "ref_compare (<) (IV i) (IV j) = BV (i < j)" "ref_arith (+) (IV i) (IV j) = IV (i + j)" for i j
    by (simp_all add: ref_compare_def ref_arith_def int_of_def)
  have "getConstantIntValues (ga_indices gather_example) = Some [2, -3]" by code_simp
  with lower_gather_correct [OF reference_gather.tfl_gather_axioms reference_select.tfl_select_axioms
      reference_less.tfl_binary_axioms reference_add.tfl_binary_axioms r low, of nchw_example "Tensor [2] [2, -3]"
      "\<lambda>_. ttranspose to_nhwc nchw_example"] low
  show ?thesis by (simp add: gather_example_def example_simps normalizeAxis_def wf_tensor_def [of "Tensor [2] [2, - 3 :: int]"])
qed

section \<open>Correctness of Compress\<close>

definition selected_positions :: "nat \<Rightarrow> int list \<Rightarrow> nat list" where
  "selected_positions limit condition = filter (\<lambda>i. condition ! i \<noteq> 0) [0..<min limit (length condition)]"

lemma compress_indices_spec:
  assumes "limit < 2 ^ 31" and "k \<le> limit"
  shows "compress_indices (int limit) (int k) cs = map (\<lambda>i. int (k + i)) (selected_positions (limit - k) cs)"
  using assms(2)
proof (induction cs arbitrary: k)
  case Nil
  then show ?case by (simp add: selected_positions_def)
next
  case (Cons c cs)
  show ?case
  proof (cases "k = limit")
    case True
    then show ?thesis by (simp add: selected_positions_def)
  next
    case False
    then have k: "k < limit" using Cons.prems by simp
    have fits: "i32 (int k) = int k" using k assms(1) by (intro i32_id) (simp add: fits_i32_def)
    have up: "[0..<min (limit - k) (length (c # cs))] = 0 # map Suc [0..<min (limit - Suc k) (length cs)]"
      using k by (simp add: map_Suc_upt upt_conv_Cons Suc_diff_Suc [symmetric] del: upt_Suc)
    have "selected_positions (limit - k) (c # cs) =
        (if c \<noteq> 0 then [0] else []) @ map Suc (selected_positions (limit - Suc k) cs)"
      unfolding selected_positions_def up by (simp add: filter_map comp_def)
    then show ?thesis using Cons.IH [of "Suc k"] k fits by (auto simp: add.commute)
  qed
qed

text \<open>
  When the Compress pattern succeeds, the created value represents the slices of the logical operand
  at the positions where the constant condition holds, in order; a condition longer than the axis is
  cut off, a shorter one selects nothing beyond its end.
\<close>

theorem lower_compress_correct:
  assumes sem: "tfl_gather sem" and low: "lower_compress op = Inr v" and ax: "cp_axis op = Some rawAxis"
    and cond: "oattr (cp_condition op) = Some (IntElements ce condition)"
    and t: "conforms (oty (cp_input op)) t" "env 0 = phys (oty (cp_input op)) t" "i32_dims (tshape t)" "trank t \<le> 8"
    and a: "a = nat (normalizeAxis rawAxis (int (trank t)))"
    and sel: "sel = selected_positions (tshape t ! a) condition"
    and res: "conforms (cp_result op) (tgather a t (Tensor [length sel] sel))"
  shows "represents sem env v (cp_result op) (tgather a t (Tensor [length sel] sel))"
proof -
  let ?axis = "normalizeAxis rawAxis (int (trank t))" and ?ix = "Tensor [length sel] sel"
  obtain e where ity: "oty (cp_input op) = RankedTensor (map int (tshape t)) e" using t(1) by (auto simp: conforms_def)
  obtain rs e' where ty: "cp_result op = RankedTensor rs e'" using res by (auto simp: conforms_def)
  have "0 \<le> ?axis" "?axis < int (trank t)" using low by (auto simp: lower_compress_def ity ty cond ax Let_def split: if_splits)
  then have al: "a < trank t" and axi: "?axis = int a" using a by simp_all
  have "tshape t ! a < 2 ^ 31" using t(3) al by (auto simp: i32_dims_def)
  then have ci: "compress_indices (int (tshape t ! a)) 0 condition = map int sel"
    using compress_indices_spec [of "tshape t ! a" 0] by (simp add: sel)
  have v: "v = emit_gather (oty (cp_input op)) (cp_result op) (int a) (adaptor 0 (cp_input op)) (ConstI (RankedTensor [int (length sel)] I32) (map int sel))"
    using low al by (auto simp: lower_compress_def ity ty cond ax axi ci Let_def split: if_splits)
  have "\<forall>i\<in>set sel. i < tshape t ! a" by (auto simp: sel selected_positions_def)
  then show ?thesis
    unfolding v using t al res
    by (intro tfl_gather.represents_emit_gather [OF sem]) (simp_all add: tmap_def wf_tensor_def [of ?ix] comp_def)
qed

definition compress_example :: "int compress_op" where
  "compress_example = \<lparr>cp_input = \<lparr>oty = RankedTensor [1, 2, 2, 3] F32, oattr = None\<rparr>,
     cp_condition = \<lparr>oty = RankedTensor [3] I1, oattr = Some (IntElements I1 [1, 0, 1])\<rparr>,
     cp_axis = Some 3, cp_result = RankedTensor [1, 2, 2, 2] F32\<rparr>"

theorem lower_compress_correct_witness:
  "\<exists>v. lower_compress compress_example = Inr v \<and>
     represents reference_sem (\<lambda>_. ttranspose to_nhwc nchw_example) v (cp_result compress_example)
       (tgather 3 nchw_example (Tensor [2] [0, 2]))"
proof -
  have "\<not> failed (lower_compress compress_example)" by code_simp
  then obtain v where low: "lower_compress compress_example = Inr v" by (rule not_failedE)
  have ax: "cp_axis compress_example = Some 3" and c: "oattr (cp_condition compress_example) = Some (IntElements I1 [1, 0, 1])"
    by (simp_all add: compress_example_def)
  have s: "selected_positions 3 [1, 0, 1] = [0, 2]" by code_simp
  from lower_compress_correct [OF reference_gather.tfl_gather_axioms low ax c, of nchw_example "\<lambda>_. ttranspose to_nhwc nchw_example"] low
  show ?thesis by (simp add: compress_example_def example_simps normalizeAxis_def s numeral_2_eq_2 [symmetric])
qed

section \<open>Correctness of Trilu\<close>

definition ttrilu :: "bool \<Rightarrow> int \<Rightarrow> 'a \<Rightarrow> 'a tensor \<Rightarrow> 'a tensor" where
  "ttrilu upper k zero t =
     tgen (tshape t) (\<lambda>is. if trilu_keep upper k (int (is ! (trank t - 2))) (int (is ! (trank t - 1))) then tnth t is else zero)"

lemma length_concat_const:
  assumes "\<And>i. i < m \<Longrightarrow> length (f i) = n" shows "length (concat (map f [0..<m])) = m * n"
proof -
  have "map (\<lambda>i. length (f i)) [0..<m] = replicate m n" using assms by (intro nth_equalityI) simp_all
  then show ?thesis by (simp add: length_concat comp_def sum_list_replicate)
qed

lemma concat_blocks_nth:
  assumes "k < m * n" and "\<And>i. i < m \<Longrightarrow> length (f i) = n"
  shows "concat (map f [0..<m]) ! k = f (k div n) ! (k mod n)"
  using assms
proof (induction m)
  case (Suc m)
  have n: "0 < n" using Suc.prems(1) by (cases n) simp_all
  have l: "length (concat (map f [0..<m])) = m * n"
    using Suc.prems(2) by (intro length_concat_const) simp
  show ?case
  proof (cases "k < m * n")
    case True
    then show ?thesis using Suc.IH Suc.prems(2) l by (simp add: nth_append)
  next
    case False
    then have "k = m * n + (k - m * n)" "k - m * n < n" using Suc.prems(1) by auto
    then have "k div n = m" "k mod n = k - m * n" using n by (metis add.commute div_mult_self3 div_less add_0 not_less_zero, metis mod_mult_self3 mod_less)
    then show ?thesis using False l by (simp add: nth_append)
  qed
qed simp

lemma trilu_mask_nth:
  assumes "k < m * (r * c)"
  shows "trilu_mask one zero upper d (int m) (int r) (int c) ! k =
    (if trilu_keep upper d (int (k mod (r * c) div c)) (int (k mod c)) then one else zero)"
    and "length (trilu_mask one zero upper d (int m) (int r) (int c)) = m * (r * c)"
proof -
  let ?g = "\<lambda>row. map (\<lambda>column. if trilu_keep upper d (int row) (int column) then one else zero) [0..<c]"
  let ?f = "\<lambda>_ :: nat. concat (map ?g [0..<r])"
  have e: "trilu_mask one zero upper d (int m) (int r) (int c) = concat (map ?f [0..<m])"
    by (simp add: trilu_mask_def int_upto comp_def)
  have lf: "length (?f i) = r * c" for i by (rule length_concat_const) simp
  show "length (trilu_mask one zero upper d (int m) (int r) (int c)) = m * (r * c)"
    unfolding e by (rule length_concat_const) (rule lf)
  have pos: "0 < c" "0 < r" using assms by (auto intro!: Nat.gr0I)
  let ?k = "k mod (r * c)"
  have k: "?k < r * c" using pos by simp
  have "concat (map ?f [0..<m]) ! k = ?f 0 ! ?k" using concat_blocks_nth [OF assms, of ?f] lf by simp
  also have "\<dots> = ?g (?k div c) ! (?k mod c)" using k by (intro concat_blocks_nth) simp_all
  also have "\<dots> = (if trilu_keep upper d (int (?k div c)) (int (?k mod c)) then one else zero)" using pos by simp
  finally show "trilu_mask one zero upper d (int m) (int r) (int c) ! k =
      (if trilu_keep upper d (int (k mod (r * c) div c)) (int (k mod c)) then one else zero)"
    unfolding e by (simp add: mod_mod_cancel)
qed

lemma tmap2_same: "tshape s = tshape t \<Longrightarrow> tmap2 f s t = tgen (tshape t) (\<lambda>is. f (tnth s is) (tnth t is))"
  by (simp add: tmap2_def bcast_ix_self cong: tgen_cong)

lemma last_two:
  assumes "2 \<le> length xs" obtains pre r c where "xs = pre @ [r, c]"
proof -
  obtain ys c where "xs = ys @ [c]" using assms by (cases xs rule: rev_cases) auto
  moreover then obtain pre r where "ys = pre @ [r]" using assms by (cases ys rule: rev_cases) auto
  ultimately show ?thesis using that by simp
qed

lemma trilu_mask_product:
  assumes wf: "wf_tensor t" and sh: "tshape t = pre @ [r, c]" and pos: "0 < r" "0 < c"
    and one: "\<And>x. x \<in> set (tdata t) \<Longrightarrow> mulf x (FV one) = x" and zero: "\<And>x. x \<in> set (tdata t) \<Longrightarrow> mulf x (FV zero) = FV zero"
  shows "tmap2 mulf t (Tensor (tshape t) (map FV (trilu_mask one zero upper d (int (prod_list pre)) (int r) (int c)))) =
    ttrilu upper d (FV zero) t"
proof -
  let ?m = "trilu_mask one zero upper d (int (prod_list pre)) (int r) (int c)"
  have "mulf (tnth t is) (tnth (Tensor (tshape t) (map FV ?m)) is) =
      (if trilu_keep upper d (int (is ! (trank t - 2))) (int (is ! (trank t - 1))) then tnth t is else FV zero)"
    if v: "valid_ix (tshape t) is" for "is"
  proof -
    have lis: "length is = length pre + 2" using valid_ix_length [OF v] sh by simp
    define js i j where "js = take (length pre) is" "i = is ! length pre" "j = is ! (length pre + 1)"
    have "is = js @ [i, j]"
      using lis by (intro nth_equalityI) (auto simp: js_i_j_def nth_append nth_Cons' less_Suc_eq)
    have ij: "i < r" "j < c" using valid_ix_nth [OF v, of "length pre"] valid_ix_nth [OF v, of "length pre + 1"] sh
      by (simp_all add: js_i_j_def nth_append)
    have k: "ravel (tshape t) is < prod_list pre * (r * c)" using ravel_less [OF v] sh by simp
    have "ravel (tshape t) is = ravel pre js * (r * c) + (i * c + j)"
    proof -
      have "length js = length pre" using lis by (simp add: js_i_j_def)
      then have "ravel (pre @ [r, c]) (js @ [i, j]) = ravel pre js * (r * c) + (i * c + j)" by (simp add: ravel_append)
      then show ?thesis using \<open>is = js @ [i, j]\<close> sh by simp
    qed
    moreover have "i * c + j < r * c" using ij mult_le_mono1 [of "Suc i" r c] unfolding mult_Suc by linarith
    ultimately have "ravel (tshape t) is mod (r * c) = i * c + j" by simp
    moreover have "(i * c + j) div c = i" using ij by simp
    moreover have "ravel (tshape t) is mod c = j"
      using \<open>ravel (tshape t) is mod (r * c) = i * c + j\<close> ij by (metis mod_mod_cancel dvd_triv_right mod_mult_self3 mod_less)
    ultimately have "?m ! ravel (tshape t) is = (if trilu_keep upper d (int i) (int j) then one else zero)"
      using trilu_mask_nth(1) [OF k, of one zero upper d] by simp
    moreover have "tnth t is \<in> set (tdata t)" using ravel_less [OF v] wf by (simp add: tnth_def wf_tensor_def)
    moreover have "tnth (Tensor (tshape t) (map FV ?m)) is = FV (?m ! ravel (tshape t) is)"
      using k trilu_mask_nth(2) [OF k, of one zero upper d] by (simp add: tnth_def)
    moreover have "is ! (trank t - 2) = i" "is ! (trank t - 1) = j" by (simp_all add: sh js_i_j_def)
    ultimately show ?thesis using one zero by simp
  qed
  then show ?thesis unfolding ttrilu_def by (subst tmap2_same) (auto intro!: tgen_cong)
qed

text \<open>
  When the Trilu pattern succeeds, the created value represents the
  triangular part of the logical operand, for elements on which multiplication by zero gives zero.
  (Infinities and NaNs outside the triangle do not satisfy that and stay NaN.)
\<close>

theorem lower_trilu_correct:
  assumes sem: "tfl_binary sem ''tfl.mul'' [getFusedActivationNone] mulf 5" and low: "lower_trilu one zero op = Inr v"
    and t: "conforms (oty (tl_input op)) t" "env 0 = phys (oty (tl_input op)) t" "trank t \<le> 5" "i32_dims (tshape t)"
    and k: "trilu_diagonal (tl_k op) = Inr d" and res: "conforms (tl_result op) t"
    and one: "\<And>x. x \<in> set (tdata t) \<Longrightarrow> mulf x (FV one) = x" and zero: "\<And>x. x \<in> set (tdata t) \<Longrightarrow> mulf x (FV zero) = FV zero"
  shows "represents sem env v (tl_result op) (ttrilu (tl_upper op \<noteq> 0) d (FV zero) t)"
proof -
  let ?ity = "oty (tl_input op)" and ?ty = "tl_result op" and ?up = "tl_upper op \<noteq> 0"
  let ?in = "if physical4 ?ity then restoreLogicalRank4 ?ity (adaptor 0 (tl_input op)) else adaptor 0 (tl_input op)"
  have wf: "wf_tensor t" using t(1) by (rule conforms_wf)
  obtain e where ity: "?ity = RankedTensor (map int (tshape t)) e" using t(1) by (auto simp: conforms_def)
  obtain e' where ty: "?ty = RankedTensor (map int (tshape t)) e'" using res by (auto simp: conforms_def)
  have "2 \<le> trank t" using low by (auto simp: lower_trilu_def ity ty split: if_splits)
  then obtain pre r c where sh: "tshape t = pre @ [r, c]" by (rule last_two)
  have rc: "map int (tshape t) ! (trank t - 2) = int r" "last (map int (tshape t)) = int c" by (simp_all add: sh nth_append)
  have wide: "i64 (int r * int c) = int r * int c" using t(4) by (intro i64_product) (simp_all add: i32_dims_def sh)
  have pos: "0 < r" "0 < c" using low k rc wide by (auto simp: lower_trilu_def ity ty Let_def split: if_splits)
  define mask where "mask = trilu_mask one zero ?up d (int (prod_list pre)) (int r) (int c)"
  have mat: "cdiv (getNumElements (map int (tshape t))) (int r * int c) = int (prod_list pre)"
    using pos by (simp add: getNumElements_def sh cdiv_nonneg)
  let ?m = "createTFLOperation ''tfl.mul'' [?ty] [?in, ConstF ?ity mask] [getFusedActivationNone] 0"
  have v: "v = (if physical4 ?ty then toPhysicalRank4 ?ty ?m else ?m)"
    using low k mat rc wide by (auto simp: lower_trilu_def ity ty Let_def mask_def split: if_splits)
  have lay: "tfl_layout sem" using sem by (simp add: tfl_binary_def)
  have x: "eval sem env ?in = t" using tfl_layout.eval_logical_operand [OF lay t(1)] t(2) by simp
  let ?mt = "Tensor (tshape t) (map FV mask)"
  have wm: "wf_tensor ?mt"
  proof (cases "prod_list pre = 0")
    case True
    then show ?thesis by (simp add: wf_tensor_def sh mask_def trilu_mask_def)
  next
    case False
    then show ?thesis using trilu_mask_nth(2) [of 0 "prod_list pre" r c] pos by (simp add: wf_tensor_def sh mask_def)
  qed
  have prod: "tmap2 mulf t ?mt = ttrilu ?up d (FV zero) t"
    unfolding mask_def by (rule trilu_mask_product [OF wf sh pos one zero])
  have cf: "conforms ?ty (ttrilu ?up d (FV zero) t)" by (simp add: ty conforms_Ranked ttrilu_def)
  have "eval sem env ?m = tmap2 mulf t ?mt"
    using t(3) wf wm cf by (intro tfl_binary.eval_direct [OF sem x]) (simp_all add: ity comp_def prod)
  then show ?thesis unfolding v prod by (intro tfl_layout.represents_physical_result [OF lay cf]) simp_all
qed

definition trilu_example :: "int trilu_op" where
  "trilu_example = \<lparr>tl_input = \<lparr>oty = RankedTensor [1, 2, 2, 3] F32, oattr = None\<rparr>,
     tl_k = \<lparr>oty = NoneT, oattr = None\<rparr>, tl_upper = 1, tl_result = RankedTensor [1, 2, 2, 3] F32\<rparr>"

theorem lower_trilu_correct_witness:
  "\<exists>v. lower_trilu 1 0 trilu_example = Inr v \<and>
     represents reference_sem (\<lambda>_. ttranspose to_nhwc nchw_example) v (tl_result trilu_example) (ttrilu True 0 (FV 0) nchw_example)"
proof -
  have "\<not> failed (lower_trilu 1 0 trilu_example)" by code_simp
  then obtain v where low: "lower_trilu 1 0 trilu_example = Inr v" by (rule not_failedE)
  have k: "trilu_diagonal (tl_k trilu_example) = Inr 0" by (simp add: trilu_example_def trilu_diagonal_def)
  have "x \<in> set (tdata nchw_example) \<Longrightarrow> ref_arith (*) x (FV 1) = x" "ref_arith (*) x (FV 0) = FV 0" for x
    by (auto simp: nchw_example_def ref_arith_def int_of_def split: scalar.splits)
  with lower_trilu_correct [OF reference_mul.tfl_binary_axioms low, of nchw_example "\<lambda>_. ttranspose to_nhwc nchw_example" 0] low k
  show ?thesis by (simp add: trilu_example_def example_simps)
qed

end
