(* ===== verification/Coordinates.thy ===== *)
theory Coordinates
  imports Lower_Gather
begin

text \<open>
  What the patterns of \<^verbatim>\<open>Tensor/GatherElements.cpp\<close>, \<^verbatim>\<open>Tensor/GatherND.cpp\<close>, \<^verbatim>\<open>Tensor/ScatterElements.cpp\<close> and
  \<^verbatim>\<open>Tensor/ScatterND.cpp\<close> share: the decomposition of a flat index, the normalisation of negative runtime
  indices, and the coordinate tensor that is put together from one component per axis.
\<close>

section \<open>Definitions\<close>

text \<open>The loop that divides a flat index by the dimensions from the last to the first.\<close>

fun divide_out :: "int list \<Rightarrow> int \<Rightarrow> int list" where
  "divide_out [] remainder = []"
| "divide_out (dimension # dimensions) remainder =
     cmod remainder dimension # divide_out dimensions (cdiv remainder dimension)"

definition output_position :: "int list \<Rightarrow> int \<Rightarrow> int list" where
  "output_position shape flatIndex = rev (divide_out (rev shape) flatIndex)"

definition wrap_i32 :: "int list \<Rightarrow> int \<Rightarrow> 'f val \<Rightarrow> 'f val" where
  "wrap_i32 shape extent indices =
     (let zero = createI32ScalarTensorConstant 0; extentValue = createI32ScalarTensorConstant (i32 extent);
          negative = createTFLOperation ''tfl.less'' [RankedTensor shape I1] [indices, zero] [] 0;
          wrapped = createTFLOperation ''tfl.add'' [RankedTensor shape I32] [indices, extentValue] [getFusedActivationNone] 0 in
      createTFLOperation ''tfl.select_v2'' [RankedTensor shape I32] [negative, wrapped, indices] [] 0)"

definition runtime_indices :: "int list \<Rightarrow> elt \<Rightarrow> int \<Rightarrow> 'f val \<Rightarrow> 'f val" where
  "runtime_indices indicesShape e extent indices =
     (let count = getNumElements indicesShape; i32IndicesType = RankedTensor indicesShape I32;
          cast = (if isSignlessInteger 64 e then createTFLOperation ''tfl.cast'' [i32IndicesType] [indices] [] 0 else indices) in
      if 4 < getRank indicesShape
      then emitReshape i32IndicesType indicesShape
             (wrap_i32 [count] extent (emitReshape (RankedTensor [count] I32) [count] cast))
      else wrap_i32 indicesShape extent cast)"

definition coordinate_component :: "int list \<Rightarrow> int \<Rightarrow> 'f val" where
  "coordinate_component indicesShape dimension =
     ConstI (RankedTensor (indicesShape @ [1]) I32)
       (map (\<lambda>flatIndex. i32 (output_position indicesShape flatIndex ! nat dimension)) [0..getNumElements indicesShape - 1])"

definition concat_coordinates :: "int list \<Rightarrow> int \<Rightarrow> 'f val \<Rightarrow> 'f val" where
  "concat_coordinates indicesShape axis runtimeIndices =
     (let rank = getRank indicesShape; componentShape = indicesShape @ [1];
          runtimeComponent = emitReshape (RankedTensor componentShape I32) componentShape runtimeIndices in
      createTFLOperation ''tfl.concatenation'' [RankedTensor (indicesShape @ [rank]) I32]
        (map (\<lambda>dimension. if dimension = axis then runtimeComponent else coordinate_component indicesShape dimension) [0..rank - 1])
        [(''axis'', IntAttr (i32 rank)), getFusedActivationNone] 0)"

text \<open>The dimensions that GatherElements and ScatterElements accept, and the gather itself.\<close>

definition elements_dims_ok :: "int \<Rightarrow> int list \<Rightarrow> int list \<Rightarrow> bool" where
  "elements_dims_ok axis dataShape indicesShape \<longleftrightarrow>
     list_all (\<lambda>dimension. let d = dataShape ! nat dimension; n = indicesShape ! nat dimension in
         \<not> (d \<le> 0 \<or> n \<le> 0 \<or> int32_max < d \<or> int32_max < n \<or> (dimension \<noteq> axis \<and> d < n)))
       [0..getRank dataShape - 1]"

definition emit_gather_nd :: "mtype \<Rightarrow> mtype \<Rightarrow> 'f val \<Rightarrow> 'f val \<Rightarrow> 'f val" where
  "emit_gather_nd sourceDataType sourceResultType data coordinates =
     (let data' = (if physical4 sourceDataType then restoreLogicalRank4 sourceDataType data else data);
          gathered = createTFLOperation ''tfl.gather_nd'' [sourceResultType] [data', coordinates] [] 0 in
      if physical4 sourceResultType then toPhysicalRank4 sourceResultType gathered else gathered)"

section \<open>Positions\<close>

lemma unravel_snoc:
  assumes "k < prod_list ds * d"
  shows "unravel (ds @ [d]) k = unravel ds (k div d) @ [k mod d]"
proof -
  have d: "0 < d" using assms by (cases d) simp_all
  have v: "valid_ix (ds @ [d]) (unravel ds (k div d) @ [k mod d])"
    using unravel_valid [of "k div d" ds] assms d
    by (auto simp: valid_ix_def less_mult_imp_div_less intro!: list_all2_appendI)
  have "ravel (ds @ [d]) (unravel ds (k div d) @ [k mod d]) = k"
    using assms by (simp add: ravel_append less_mult_imp_div_less)
  then show ?thesis using unravel_ravel [OF v] by simp
qed

lemma output_position_unravel: "k < prod_list ds \<Longrightarrow> output_position (map int ds) (int k) = map int (unravel ds k)"
proof (induction ds arbitrary: k rule: rev_induct)
  case (snoc d ds)
  then have k: "k < prod_list ds * d" by simp
  then have d: "0 < d" by (cases d) simp_all
  have "cmod (int k) (int d) = int (k mod d)" "cdiv (int k) (int d) = int (k div d)"
    using d by (simp_all add: cmod_nonneg cdiv_nonneg zmod_int zdiv_int)
  then show ?case
    using snoc.IH [of "k div d"] k by (simp add: output_position_def unravel_snoc less_mult_imp_div_less)
qed (simp add: output_position_def)

lemma concat_concat_eq: "concat (concat xsss) = concat (map concat xsss)"
  by (induction xsss) auto

lemma i32_dims_valid: "valid_ix ds is \<Longrightarrow> i32_dims ds \<Longrightarrow> i32_dims is"
proof -
  assume v: "valid_ix ds is" and "i32_dims ds"
  then have "is ! k < 2 ^ 31" if "k < length is" for k
    using that valid_ix_nth [OF v, of k] valid_ix_length [OF v] by (auto simp: i32_dims_def intro: less_trans)
  then show "i32_dims is" by (auto simp: i32_dims_def in_set_conv_nth)
qed

text \<open>The data of a tensor whose last axis is written out position by position.\<close>

lemma tdata_tgen_snoc:
  "tdata (tgen (ds @ [r]) f) = concat (map (\<lambda>is. map (\<lambda>j. f (is @ [j])) [0..<r]) (all_ix ds))"
proof -
  have all: "all_ix (ds @ [r]) = concat (map (\<lambda>is. map (\<lambda>j. is @ [j]) [0..<r]) (all_ix ds))"
  proof (induction ds)
    case Nil
    show ?case by (simp add: all_ix_Cons concat_map_singleton)
  next
    case (Cons d ds)
    then show ?case by (simp add: all_ix_Cons map_concat concat_concat_eq comp_def)
  qed
  have "tdata (tgen (ds @ [r]) f) = map f (all_ix (ds @ [r]))" by (simp add: tgen_def all_ix_def)
  then show ?thesis unfolding all by (simp add: map_concat comp_def)
qed

section \<open>Evaluation\<close>

text \<open>The kernels on integers: no overflow where the result fits 32 bits.\<close>

locale tfl_index =
  sel: tfl_select sem +
  lt: tfl_binary sem "''tfl.less''" "[]" ltf 4 +
  ad: tfl_binary sem "''tfl.add''" "[getFusedActivationNone]" addf 5 +
  ca: tfl_cast sem conv
  for sem :: "'f sem" and ltf addf conv +
  assumes less_int: "ltf (IV i) (IV j) = BV (i < j)"
    and add_int: "fits_i32 (i + j) \<Longrightarrow> addf (IV i) (IV j) = IV (i + j)"
    and cast_int: "fits_i32 i \<Longrightarrow> conv I32 (IV i) = IV i"

interpretation reference_index: tfl_index reference_sem "ref_compare (<)" "ref_arith (+)" ref_conv
  by unfold_locales (simp_all add: ref_compare_def ref_arith_def ref_conv_def int_of_def)

definition nonneg_index :: "nat \<Rightarrow> int \<Rightarrow> int" where
  "nonneg_index d i = (if i < 0 then i + int d else i)"

definition indices_in :: "nat \<Rightarrow> int tensor \<Rightarrow> bool" where
  "indices_in d ix \<longleftrightarrow> (\<forall>i\<in>set (tdata ix). - int d \<le> i \<and> i < int d)"

lemma nonneg_index_bound: "- int d \<le> i \<Longrightarrow> i < int d \<Longrightarrow> 0 \<le> nonneg_index d i \<and> nonneg_index d i < int d"
  by (simp add: nonneg_index_def)

lemma tmap_treshape [simp]: "tmap f (treshape ds t) = treshape ds (tmap f t)"
  by (simp add: tmap_def treshape_def)

context tfl_index
begin

lemma eval_wrap_i32:
  assumes "wf_tensor ix" "tshape ix = ns" "length ns \<le> 4" "eval sem env v = tmap IV ix" "indices_in d ix" "d < 2 ^ 31"
  shows "eval sem env (wrap_i32 (map int ns) (int d) v) = tmap (\<lambda>i. IV (nonneg_index d i)) ix"
proof -
  have "i32 0 = 0" by (simp add: i32_def)
  then have "wrap_i32 (map int ns) (int d) v = wrap_indices (map int ns) I32 (int d) v"
    by (simp add: wrap_i32_def wrap_indices_def makeScalar_def createI32ScalarTensorConstant_def isSignlessInteger_def)
  then show ?thesis
    using assms eval_wrap_indices [OF sel.tfl_select_axioms lt.tfl_binary_axioms ad.tfl_binary_axioms less_int add_int, of ix ns env v d I32]
    by (simp add: indices_in_def nonneg_index_def)
qed

lemma eval_runtime_indices:
  assumes ix: "wf_tensor ix" "eval sem env v = tmap IV ix" "indices_in d ix" and d: "d < 2 ^ 31"
    and sz: "i32_dims (tshape ix)" "prod_list (tshape ix) < 2 ^ 31"
  shows "eval sem env (runtime_indices (map int (tshape ix)) e (int d) v) = tmap (\<lambda>i. IV (nonneg_index d i)) ix"
proof -
  let ?ns = "tshape ix" and ?N = "prod_list (tshape ix)"
  define c where "c = (if isSignlessInteger 64 e then createTFLOperation ''tfl.cast'' [RankedTensor (map int ?ns) I32] [v] [] 0 else v)"
  have id: "tmap (conv I32) (tmap IV ix) = tmap IV ix"
    using ix(3) d by (auto simp: tmap_def indices_in_def fits_i32_def intro!: cast_int)
  have "eval sem env (createTFLOperation ''tfl.cast'' [RankedTensor (map int ?ns) I32] [v] [] 0) = tmap IV ix"
    using ca.cast [of "tmap IV ix" "map int ?ns" I32] ix id by (simp add: conforms_Ranked)
  then have c: "eval sem env c = tmap IV ix" using ix(2) by (simp add: c_def)
  show ?thesis
  proof (cases "4 < trank ix")
    case True
    let ?f = "emitReshape (RankedTensor (map int [?N]) I32) (map int [?N]) c" and ?w = "tmap (\<lambda>i. IV (nonneg_index d i)) ix"
    have flat: "eval sem env ?f = tmap IV (treshape [?N] ix)"
      using c ix(1) sz by (subst sel.eval_emitReshape [where x = "tmap IV ix"]) (simp_all add: i32_dims_def)
    have "eval sem env (wrap_i32 (map int [?N]) (int d) ?f) = tmap (\<lambda>i. IV (nonneg_index d i)) (treshape [?N] ix)"
      using flat ix(1,3) d by (intro eval_wrap_i32) (simp_all add: wf_treshape, simp add: indices_in_def treshape_def)
    then have "eval sem env (emitReshape (RankedTensor (map int ?ns) I32) (map int ?ns) (wrap_i32 (map int [?N]) (int d) ?f)) =
        treshape ?ns (treshape [?N] ?w)"
      using ix(1) sz by (intro sel.eval_emitReshape) (simp_all add: wf_treshape)
    then show ?thesis using True treshape_id [of ?w] by (simp add: runtime_indices_def c_def Let_def)
  next
    case False
    then show ?thesis
      using c ix(1,3) d by (simp add: runtime_indices_def c_def [symmetric] Let_def eval_wrap_i32)
  qed
qed

end

section \<open>The coordinate tensor\<close>

text \<open>The coordinates of \<open>is\<close> with the component of the axis replaced by an index.\<close>

definition axis_coordinates :: "nat \<Rightarrow> nat tensor \<Rightarrow> nat tensor" where
  "axis_coordinates a ix =
     tgen (tshape ix @ [trank ix]) (\<lambda>is. (butlast is)[a := tnth ix (butlast is)] ! last is)"

lemma valid_ix_snoc: "valid_ix (ds @ [d]) js \<longleftrightarrow> (\<exists>is j. js = is @ [j] \<and> valid_ix ds is \<and> j < d)"
proof
  show "valid_ix (ds @ [d]) js \<Longrightarrow> \<exists>is j. js = is @ [j] \<and> valid_ix ds is \<and> j < d"
    by (auto simp: valid_ix_def list_all2_append2 list_all2_Cons2)
  show "\<exists>is j. js = is @ [j] \<and> valid_ix ds is \<and> j < d \<Longrightarrow> valid_ix (ds @ [d]) js"
    by (auto simp: valid_ix_def intro!: list_all2_appendI)
qed

lemma axis_coordinates_simps [simp]:
  "tshape (axis_coordinates a ix) = tshape ix @ [trank ix]" "wf_tensor (axis_coordinates a ix)"
  "ixdepth (axis_coordinates a ix) = trank ix"
  by (simp_all add: axis_coordinates_def ixdepth_def)

lemma coordinate_axis_coordinates:
  assumes "valid_ix (tshape ix) is" shows "coordinate (axis_coordinates a ix) is = is[a := tnth ix is]"
proof (rule nth_equalityI)
  show "length (coordinate (axis_coordinates a ix) is) = length (is[a := tnth ix is])"
    using valid_ix_length [OF assms] by simp
  fix k assume "k < length (coordinate (axis_coordinates a ix) is)"
  then show "coordinate (axis_coordinates a ix) is ! k = is[a := tnth ix is] ! k"
    using assms by (simp add: coordinate_def axis_coordinates_def ixdepth_def valid_ix_snoc)
qed

lemma locate_ones: "k < n \<Longrightarrow> locate (replicate n (Suc 0)) k = (k, 0)"
  by (induction n arbitrary: k) (auto simp: less_Suc_eq_0_disj)

lemma tconcat_components:
  assumes "cs \<noteq> []" and "\<forall>c\<in>set cs. tshape c = ds @ [1]"
  shows "tconcat (length ds) cs = tgen (ds @ [length cs]) (\<lambda>is. tnth (cs ! last is) (butlast is @ [0]))"
proof -
  have hd: "tshape (hd cs) = ds @ [1]" using assms by simp
  have one: "map (\<lambda>t. tshape t ! length ds) cs = replicate (length cs) (Suc 0)"
    using assms(2) by (auto intro!: nth_equalityI)
  have "tconcat (length ds) cs = tgen (ds @ [length cs])
      (\<lambda>is. case locate (replicate (length cs) (Suc 0)) (is ! length ds) of (j, r) \<Rightarrow> tnth (cs ! j) (is[length ds := r]))"
    unfolding tconcat_def hd one by (simp add: sum_list_replicate list_update_append)
  then show ?thesis
    by (simp, intro tgen_cong) (auto simp: valid_ix_snoc locate_ones nth_append list_update_append dest: valid_ix_length)
qed

lemma eval_coordinate_component:
  assumes "i32_dims ds" and "k < length ds"
  shows "eval sem env (coordinate_component (map int ds) (int k)) = tgen (ds @ [1]) (\<lambda>is. IV (int (is ! k)))"
proof -
  have "i32 (output_position (map int ds) (int j) ! k) = int (unravel ds j ! k)" if j: "j < prod_list ds" for j
  proof -
    have "unravel ds j ! k < ds ! k" using unravel_valid [OF j] assms(2) by (rule valid_ix_nth)
    then have "fits_i32 (int (unravel ds j ! k))" using assms by (auto simp: i32_dims_def fits_i32_def dest!: nth_mem)
    then show ?thesis using j assms(2) by (simp add: output_position_unravel)
  qed
  then have "tdata (eval sem env (coordinate_component (map int ds) (int k))) = map (\<lambda>is. IV (int (is ! k))) (all_ix ds)"
    by (simp add: coordinate_component_def int_upto all_ix_def)
  moreover have "tdata (tgen (ds @ [1]) (\<lambda>is. IV (int (is ! k)))) = map (\<lambda>is. IV (int (is ! k))) (all_ix ds)"
    using assms(2) by (simp add: tdata_tgen_snoc set_all_ix nth_append concat_map_singleton cong: map_cong)
      (auto simp: set_all_ix nth_append dest: valid_ix_length)
  moreover have "tshape (eval sem env (coordinate_component (map int ds) (int k))) = ds @ [1]"
    by (simp add: coordinate_component_def)
  ultimately show ?thesis by (metis tensor.expand tshape_tgen)
qed

context tfl_assembly
begin

lemma eval_concat_coordinates:
  assumes ix: "wf_tensor ix" "eval sem env v = tmap (\<lambda>i. IV (int i)) ix" and a: "a < trank ix" and i32: "i32_dims (tshape ix)" "trank ix < 2 ^ 31"
  shows "eval sem env (concat_coordinates (map int (tshape ix)) (int a) v) = tmap (\<lambda>i. IV (int i)) (axis_coordinates a ix)"
proof -
  let ?ds = "tshape ix" and ?r = "trank ix"
  let ?rc = "emitReshape (RankedTensor (map int (?ds @ [1])) I32) (map int (?ds @ [1])) v"
  let ?comp = "\<lambda>k. if k = a then ?rc else coordinate_component (map int ?ds) (int k)"
  let ?ts = "map (\<lambda>k. tgen (?ds @ [1]) (\<lambda>is. IV (int ((butlast is)[a := tnth ix (butlast is)] ! k)))) [0..<?r]"
  have rc: "eval sem env ?rc = treshape (?ds @ [1]) (tmap (\<lambda>i. IV (int i)) ix)"
    using ix i32(1) by (intro eval_emitReshape) (auto simp: i32_dims_def)
  have rt: "treshape (?ds @ [1]) (tmap (\<lambda>i. IV (int i)) ix) = tgen (?ds @ [1]) (\<lambda>is. IV (int (tnth ix (butlast is))))"
  proof (rule tensor_eqI)
    fix js assume "valid_ix (tshape (tgen (?ds @ [1]) (\<lambda>is. IV (int (tnth ix (butlast is)))))) js"
    then obtain "is" where "js = is @ [0]" "valid_ix ?ds is" by (auto simp: valid_ix_snoc)
    then show "tnth (treshape (?ds @ [1]) (tmap (\<lambda>i. IV (int i)) ix)) js = tnth (tgen (?ds @ [1]) (\<lambda>is. IV (int (tnth ix (butlast is))))) js"
      using ix(1) valid_ix_length ravel_less
      by (simp add: valid_ix_snoc tnth_treshape ravel_append tmap_def wf_tensor_def) (simp add: tnth_def)
  qed (use ix(1) in \<open>simp_all add: wf_treshape\<close>)
  have "eval sem env (?comp k) = ?ts ! k" if k: "k < ?r" for k
  proof (cases "k = a")
    case True
    have "tgen (?ds @ [1]) (\<lambda>is. IV (int (tnth ix (butlast is)))) =
        tgen (?ds @ [1]) (\<lambda>is. IV (int ((butlast is)[a := tnth ix (butlast is)] ! a)))"
      using a by (intro tgen_cong) (auto simp: valid_ix_snoc dest!: valid_ix_length)
    from trans [OF rc trans [OF rt this]] show ?thesis using True k by simp
  next
    case False
    have "tgen (?ds @ [1]) (\<lambda>is. IV (int (is ! k))) = tgen (?ds @ [1]) (\<lambda>is. IV (int ((butlast is)[a := tnth ix (butlast is)] ! k)))"
      using k False by (intro tgen_cong) (auto simp: valid_ix_snoc nth_append dest!: valid_ix_length)
    from trans [OF eval_coordinate_component [OF i32(1) k] this] show ?thesis using False k by simp
  qed
  then have ev: "map (eval sem env) (map ?comp [0..<?r]) = ?ts" by (intro nth_equalityI) simp_all
  have ne: "?ts \<noteq> []" using a by auto
  have cc: "tconcat ?r ?ts = tmap (\<lambda>i. IV (int i)) (axis_coordinates a ix)"
  proof -
    have "tconcat ?r ?ts = tgen (?ds @ [?r]) (\<lambda>is. tnth (?ts ! last is) (butlast is @ [0]))"
      using tconcat_components [OF ne, of ?ds] by simp
    also have "\<dots> = tmap (\<lambda>i. IV (int i)) (axis_coordinates a ix)"
      by (rule tensor_eqI) (auto simp: tnth_tmap valid_ix_snoc axis_coordinates_def)
    finally show ?thesis .
  qed
  have dc: "declares [RankedTensor (map int (?ds @ [?r])) I32] [tconcat ?r ?ts]" unfolding cc by (simp add: conforms_Ranked)
  have "concatable ?r ?ts" using ne a
    by (auto simp: concatable_def hd_map intro!: exI [of _ 1])
  then have "sem ''tfl.concatenation'' [(''axis'', IntAttr (int ?r)), getFusedActivationNone] [RankedTensor (map int (?ds @ [?r])) I32] ?ts = [tconcat ?r ?ts]"
    using dc by (rule concatenation)
  moreover have "concat_coordinates (map int ?ds) (int a) v =
      createTFLOperation ''tfl.concatenation'' [RankedTensor (map int (?ds @ [?r])) I32] (map ?comp [0..<?r])
        [(''axis'', IntAttr (int ?r)), getFusedActivationNone] 0"
    using i32_id [of "int ?r"] i32(2) by (simp add: concat_coordinates_def Let_def int_upto comp_def fits_i32_def cong: if_cong)
  ultimately show ?thesis unfolding eval_createTFLOperation by (simp only: eval_createTFLOperation ev cc nth_Cons_0)
qed

end

lemma elements_dims_okD:
  assumes "elements_dims_ok (int a) (map int ds) (map int ns)" and "length ns = length ds"
  shows "i32_dims ds" "i32_dims ns" "\<forall>k<length ds. 0 < ns ! k \<and> (k \<noteq> a \<longrightarrow> ns ! k \<le> ds ! k)"
proof -
  have all: "0 < ds ! k \<and> 0 < ns ! k \<and> ds ! k < 2 ^ 31 \<and> ns ! k < 2 ^ 31 \<and> (k \<noteq> a \<longrightarrow> ns ! k \<le> ds ! k)" if k: "k < length ds" for k
  proof -
    have mem: "int k \<in> set [0..int (length ds) - 1]" using k by simp
    have "\<not> (int (ds ! k) \<le> 0 \<or> int (ns ! k) \<le> 0 \<or> int32_max < int (ds ! k) \<or> int32_max < int (ns ! k) \<or>
        (int k \<noteq> int a \<and> int (ds ! k) < int (ns ! k)))"
      using assms(1) [unfolded elements_dims_ok_def list_all_iff getRank_map_int, rule_format, OF mem] k assms(2) by (simp add: Let_def)
    then show ?thesis by (auto simp: int32_max_def)
  qed
  then show "i32_dims ds" "i32_dims ns" "\<forall>k<length ds. 0 < ns ! k \<and> (k \<noteq> a \<longrightarrow> ns ! k \<le> ds ! k)"
    using assms(2) by (auto simp: i32_dims_def in_set_conv_nth)
qed

lemma coordinates_ok_axis:
  assumes "wf_tensor ix" "trank ix = length ds" "\<forall>k<length ds. k \<noteq> a \<longrightarrow> tshape ix ! k \<le> ds ! k" "\<forall>i\<in>set (tdata ix). i < ds ! a"
  shows "coordinates_ok ds (axis_coordinates a ix)"
proof -
  have "valid_ix ds (coordinate (axis_coordinates a ix) is)" if v: "valid_ix (tshape ix) is" for "is"
  proof (rule valid_ixI)
    show "length (coordinate (axis_coordinates a ix) is) = length ds" using assms(2) by simp
    fix k assume k: "k < length ds"
    have "tnth ix is \<in> set (tdata ix)" using assms(1) ravel_less [OF v] by (simp add: tnth_def wf_tensor_def)
    then show "coordinate (axis_coordinates a ix) is ! k < ds ! k"
      using k assms(2-4) v valid_ix_length [OF v] valid_ix_nth [OF v, of k]
      by (cases "k = a") (auto simp: coordinate_axis_coordinates intro: less_le_trans)
  qed
  then show ?thesis using assms(2) by (simp add: coordinates_ok_def)
qed

context tfl_gather_nd
begin

lemma represents_emit_gather_nd:
  assumes t: "conforms ity t" "eval sem env v = phys ity t" and cx: "coordinates_ok (tshape t) cx" "eval sem env cv = tmap (\<lambda>i. IV (int i)) cx"
    and ty: "conforms ty (tgather_nd t cx)"
  shows "represents sem env (emit_gather_nd ity ty v cv) ty (tgather_nd t cx)"
proof -
  let ?d = "if physical4 ity then restoreLogicalRank4 ity v else v"
  have "eval sem env ?d = t" using t by (rule eval_logical_operand)
  moreover have "sem ''tfl.gather_nd'' [] [ty] [t, tmap (\<lambda>i. IV (int i)) cx] = [tgather_nd t cx]"
    using cx(1) ty conforms_wf [OF t(1)] by (intro gather_nd) simp_all
  ultimately have "eval sem env (createTFLOperation ''tfl.gather_nd'' [ty] [?d, cv] [] 0) = tgather_nd t cx" using cx(2) by simp
  then show ?thesis unfolding emit_gather_nd_def Let_def by (intro represents_physical_result [OF ty]) simp_all
qed

end

end
