(* ===== verification/Lower_GatherND.thy ===== *)
theory Lower_GatherND
  imports Coordinates
begin

text \<open>
  Models of \<^verbatim>\<open>Tensor/GatherElements.cpp\<close> and \<^verbatim>\<open>Tensor/GatherND.cpp\<close>. Both patterns end in one
  \<^verbatim>\<open>tfl.gather_nd\<close> with complete coordinates: constant indices are turned into a constant coordinate
  tensor, runtime indices are completed by created operations. A constant GatherND that visits every
  element in row-major order becomes a reshape.
\<close>

section \<open>GatherElements\<close>

record 'f gather_elements_op =
  ge_data :: "'f operand"
  ge_indices :: "'f operand"
  ge_axis :: int
  ge_result :: mtype

fun element_coordinates :: "nat \<Rightarrow> int list \<Rightarrow> int list \<Rightarrow> int \<Rightarrow> int list \<Rightarrow> int list result" where
  "element_coordinates axis dataShape indicesShape flatIndex [] = Inr []"
| "element_coordinates axis dataShape indicesShape flatIndex (indexValue # rest) =
     (let position = output_position indicesShape flatIndex;
          gathered = (if indexValue < 0 then indexValue + dataShape ! axis else indexValue) in
      if gathered < 0 \<or> dataShape ! axis \<le> gathered then Inl OutOfBounds
      else bind_result (element_coordinates axis dataShape indicesShape (flatIndex + 1) rest)
             (\<lambda>coordinates. Inr (map i32 (position[axis := gathered]) @ coordinates)))"

definition lower_gather_elements :: "'f gather_elements_op \<Rightarrow> 'f val result" where
  "lower_gather_elements op =
     (let data = adaptor 0 (ge_data op) in
      case (oty (ge_data op), oty (ge_indices op), ge_result op) of
        (RankedTensor dataShape de, RankedTensor indicesShape ie, RankedTensor resultShape re) \<Rightarrow>
          if failed (validateStaticF32Tensor (vtype data)) \<or> failed (validateStaticF32Tensor (ge_result op)) then Inl BadTypes
          else
            let rank = getRank dataShape in
            if rank < 1 \<or> 5 < rank \<or> getRank indicesShape \<noteq> rank \<or> getRank resultShape \<noteq> rank \<or>
               \<not> hasStaticShape indicesShape \<or> \<not> isIntOrIndex ie \<or> resultShape \<noteq> indicesShape then Inl BadRank
            else
              let axis = normalizeAxis (ge_axis op) rank in
              if axis < 0 \<or> rank \<le> axis then Inl BadAxis
              else if \<not> elements_dims_ok axis dataShape indicesShape then Inl BadTypes
              else
                let outputElements = getNumElements indicesShape in
                if cdiv int32_max rank < outputElements then Inl TooLarge
                else (case getConstantIntValues (ge_indices op) of
                  Some indexValues \<Rightarrow>
                    if int (length indexValues) \<noteq> outputElements then Inl CountMismatch
                    else bind_result (element_coordinates (nat axis) dataShape indicesShape 0 indexValues)
                      (\<lambda>coordinates. Inr (emit_gather_nd (oty (ge_data op)) (ge_result op) data
                         (ConstI (RankedTensor (indicesShape @ [rank]) I32) coordinates)))
                | None \<Rightarrow>
                    if \<not> isSignlessInteger 32 ie \<and> \<not> isSignlessInteger 64 ie then Inl BadTypes
                    else Inr (emit_gather_nd (oty (ge_data op)) (ge_result op) data
                      (concat_coordinates indicesShape axis
                        (runtime_indices indicesShape ie (dataShape ! nat axis) (adaptor 1 (ge_indices op))))))
      | _ \<Rightarrow> Inl BadTypes)"

text \<open>What ONNX defines: the output position with the coordinate of the axis replaced by the index.\<close>

definition onnx_gather_elements :: "nat \<Rightarrow> 'a tensor \<Rightarrow> int tensor \<Rightarrow> 'a tensor" where
  "onnx_gather_elements a t ix =
     tgen (tshape ix) (\<lambda>is. tnth t (is[a := nat (nonneg_index (tshape t ! a) (tnth ix is))]))"

lemma element_coordinates_ok:
  assumes "element_coordinates a (map int ds) (map int ns) (int k) vs = Inr cs"
    and "a < length ns" "length ds = length ns" "i32_dims ds" "i32_dims ns" "k + length vs = prod_list ns"
  shows "cs = concat (map (\<lambda>j. map int ((unravel ns (k + j))[a := nat (nonneg_index (ds ! a) (vs ! j))])) [0..<length vs]) \<and>
    (\<forall>v\<in>set vs. - int (ds ! a) \<le> v \<and> v < int (ds ! a))"
  using assms
proof (induction vs arbitrary: k cs)
  case (Cons v vs)
  let ?g = "nonneg_index (ds ! a) v"
  obtain cs' where rec: "element_coordinates a (map int ds) (map int ns) (int (Suc k)) vs = Inr cs'"
    and g: "0 \<le> ?g" "?g < int (ds ! a)" and cs: "cs = map i32 ((output_position (map int ns) (int k))[a := ?g]) @ cs'"
    using Cons.prems(1-3) by (auto simp: Let_def nonneg_index_def add.commute split: if_splits)
  have k: "k < prod_list ns" using Cons.prems(6) by simp
  have "ds ! a < 2 ^ 31" using Cons.prems(2-4) by (auto simp: i32_dims_def)
  then have "i32_dims ((unravel ns k)[a := nat ?g])"
    using g i32_dims_valid [OF unravel_valid [OF k] Cons.prems(5)] by (intro i32_dims_update) simp_all
  then have "map i32 ((output_position (map int ns) (int k))[a := ?g]) = map int ((unravel ns k)[a := nat ?g])"
    using k g map_i32_dims [of "(unravel ns k)[a := nat ?g]"] by (simp add: output_position_unravel map_update)
  moreover note Cons.IH [OF rec Cons.prems(2-5)]
  moreover have "- int (ds ! a) \<le> v \<and> v < int (ds ! a)" using g by (auto simp: nonneg_index_def split: if_splits)
  ultimately show ?case
    using Cons.prems(6) cs by (simp add: upt_conv_Cons map_Suc_upt [symmetric] comp_def del: upt_Suc map_map)
      (simp add: comp_def)
qed simp

lemma element_coordinates_start:
  assumes "element_coordinates a (map int ds) (map int ns) 0 vs = Inr cs"
    and "a < length ns" "length ds = length ns" "i32_dims ds" "i32_dims ns" "length vs = prod_list ns"
  shows "cs = concat (map (\<lambda>j. map int ((unravel ns j)[a := nat (nonneg_index (ds ! a) (vs ! j))])) [0..<length vs]) \<and>
    (\<forall>v\<in>set vs. - int (ds ! a) \<le> v \<and> v < int (ds ! a))"
  using element_coordinates_ok [of a ds ns 0 vs cs] assms by simp

lemma tgather_nd_axis:
  assumes "trank ix = trank t"
  shows "tgather_nd t (axis_coordinates a ix) = tgen (tshape ix) (\<lambda>is. tnth t (is[a := tnth ix is]))"
  unfolding tgather_nd_def using assms
  by (intro tgen_cong) (auto simp: coordinate_axis_coordinates valid_ix_length [of "tshape ix"])

lemma tdata_axis_coordinates:
  assumes "wf_tensor ix"
  shows "tdata (axis_coordinates a ix) = concat (map (\<lambda>k. (unravel (tshape ix) k)[a := tdata ix ! k]) [0..<prod_list (tshape ix)])"
proof -
  have "map (\<lambda>j. (butlast (is @ [j]))[a := tnth ix (butlast (is @ [j]))] ! last (is @ [j])) [0..<trank ix] = is[a := tnth ix is]"
    if "valid_ix (tshape ix) is" for "is" using valid_ix_length [OF that] by (auto intro: nth_equalityI)
  then have "tdata (axis_coordinates a ix) = concat (map (\<lambda>is. is[a := tnth ix is]) (all_ix (tshape ix)))"
    unfolding axis_coordinates_def tdata_tgen_snoc by (intro arg_cong [where f = concat] map_cong refl) (simp add: set_all_ix)
  also have "\<dots> = concat (map (\<lambda>k. (unravel (tshape ix) k)[a := tdata ix ! k]) [0..<prod_list (tshape ix)])"
    unfolding all_ix_def map_map by (intro arg_cong [where f = concat] map_cong refl) (simp add: tnth_def)
  finally show ?thesis .
qed

text \<open>
  C12: when the GatherElements pattern succeeds, the created value represents the ONNX operator on the logical
  operand, for constant indices, which the pattern normalises and checks, and for runtime indices in
  range, which the created operations complete to coordinates; negative indices count from the end.
\<close>

theorem lower_gather_elements_correct:
  assumes sem: "tfl_gather_nd sem" "tfl_index sem ltf addf conv" "tfl_assembly sem"
    and low: "lower_gather_elements op = Inr v"
    and t: "conforms (oty (ge_data op)) t" "env 0 = phys (oty (ge_data op)) t"
    and a: "a = nat (normalizeAxis (ge_axis op) (int (trank t)))" and ix: "conforms (oty (ge_indices op)) ix"
    and vals: "case getConstantIntValues (ge_indices op) of Some vs \<Rightarrow> tdata ix = vs
      | None \<Rightarrow> env 1 = tmap IV ix \<and> indices_in (tshape t ! a) ix"
  shows "represents sem env v (ge_result op) (onnx_gather_elements a t ix)"
proof -
  let ?ity = "oty (ge_data op)" and ?ty = "ge_result op" and ?d = "tshape t ! a" and ?in = "adaptor 0 (ge_data op)"
  let ?m = "tmap (\<lambda>i. nat (nonneg_index ?d i)) ix"
  obtain e where ity: "?ity = RankedTensor (map int (tshape t)) e" using t(1) by (auto simp: conforms_def)
  obtain ie where nty: "oty (ge_indices op) = RankedTensor (map int (tshape ix)) ie" and wi: "wf_tensor ix" using ix by (auto simp: conforms_def)
  obtain rs re where ty: "?ty = RankedTensor rs re" using low by (auto simp: lower_gather_elements_def ity nty Let_def split: mtype.splits)
  have c: "rs = map int (tshape ix)" "trank ix = trank t" "trank t \<le> 5" "a < trank t" and ax: "normalizeAxis (ge_axis op) (int (trank t)) = int a"
    and dims: "elements_dims_ok (int a) (map int (tshape t)) (map int (tshape ix))"
    and size: "int (prod_list (tshape ix)) \<le> cdiv int32_max (int (trank t))" "1 \<le> trank t"
    using low by (auto simp: lower_gather_elements_def ity nty ty a Let_def split: if_splits)
  note dm = elements_dims_okD [OF dims c(2)]
  have d31: "?d < 2 ^ 31" using dm(1) c(4) by (auto simp: i32_dims_def)
  have "int32_max div int (trank t) \<le> int32_max div 1" using size(2) by (intro zdiv_mono2) (simp_all add: int32_max_def)
  then have n31: "prod_list (tshape ix) < 2 ^ 31" using size cdiv_nonneg [of int32_max "int (trank t)"] by (cases "tshape t") (simp_all add: int32_max_def)
  have main: "represents sem env (emit_gather_nd ?ity ?ty ?in cv) ?ty (onnx_gather_elements a t ix)"
    if cv: "eval sem env cv = tmap (\<lambda>i. IV (int i)) (axis_coordinates a ?m)" and rng: "indices_in ?d ix" for cv
  proof -
    have "\<forall>i\<in>set (tdata ?m). i < ?d" using rng nonneg_index_bound by (fastforce simp: indices_in_def tmap_def nat_less_iff)
    then have ok: "coordinates_ok (tshape t) (axis_coordinates a ?m)"
      using wi c(2) dm(3) by (intro coordinates_ok_axis) simp_all
    have sp: "tgather_nd t (axis_coordinates a ?m) = onnx_gather_elements a t ix"
      unfolding onnx_gather_elements_def using c(2) wi by (subst tgather_nd_axis) (auto simp: tnth_tmap intro!: tgen_cong)
    have "conforms ?ty (onnx_gather_elements a t ix)" by (simp add: ty c(1) conforms_Ranked onnx_gather_elements_def)
    then show ?thesis using tfl_gather_nd.represents_emit_gather_nd [OF sem(1) t(1) _ ok cv, of ?in] t(2) by (simp add: sp)
  qed
  show ?thesis
  proof (cases "getConstantIntValues (ge_indices op)")
    case None
    let ?r = "runtime_indices (map int (tshape ix)) ie (int ?d) (adaptor 1 (ge_indices op))"
    have rng: "indices_in ?d ix" using vals None by simp
    have v: "v = emit_gather_nd ?ity ?ty ?in (concat_coordinates (map int (tshape ix)) (int a) ?r)"
      using low None c ax by (auto simp: lower_gather_elements_def ity nty ty Let_def split: if_splits)
    have "eval sem env ?r = tmap (\<lambda>i. IV (nonneg_index ?d i)) ix"
      using vals None wi d31 dm(2) n31 by (intro tfl_index.eval_runtime_indices [OF sem(2)]) simp_all
    also have "\<dots> = tmap (\<lambda>i. IV (int i)) ?m" using rng nonneg_index_bound by (fastforce simp: tmap_def indices_in_def)
    finally show ?thesis
      unfolding v using wi c(2-4) dm(2) rng by (intro main tfl_assembly.eval_concat_coordinates [OF sem(3), of ?m, simplified]) simp_all
  next
    case (Some vs)
    then have vx: "tdata ix = vs" using vals by simp
    then have lv: "length vs = prod_list (tshape ix)" using wi by (simp add: wf_tensor_def)
    obtain cs where cs: "element_coordinates a (map int (tshape t)) (map int (tshape ix)) 0 vs = Inr cs"
      and v: "v = emit_gather_nd ?ity ?ty ?in (ConstI (RankedTensor (map int (tshape ix @ [trank t])) I32) cs)"
      using low Some c ax by (auto simp: lower_gather_elements_def ity nty ty Let_def split: if_splits)
    have "a < trank ix" "trank t = trank ix" using c(2,4) by simp_all
    note el = element_coordinates_start [OF cs this dm(1,2) lv]
    have "map int (tdata (axis_coordinates a ?m)) = concat (map (\<lambda>j. map int ((unravel (tshape ix) j)[a := tdata ?m ! j])) [0..<length vs])"
      using wi lv by (subst tdata_axis_coordinates) (simp_all add: map_concat comp_def)
    also have "\<dots> = cs"
      unfolding el [THEN conjunct1] by (intro arg_cong [where f = concat] map_cong refl) (simp add: tmap_def vx)
    finally have "cs = map int (tdata (axis_coordinates a ?m))" by (rule sym)
    then have "eval sem env (ConstI (RankedTensor (map int (tshape ix @ [trank t])) I32) cs) = tmap (\<lambda>i. IV (int i)) (axis_coordinates a ?m)"
      using c(2) by (simp add: tmap_def comp_def axis_coordinates_def)
    then show ?thesis unfolding v using el [THEN conjunct2] vx by (intro main) (simp_all add: indices_in_def)
  qed
qed

definition gather_elements_example :: "int gather_elements_op" where
  "gather_elements_example = \<lparr>ge_data = \<lparr>oty = RankedTensor [1, 2, 2, 3] F32, oattr = None\<rparr>,
     ge_indices = \<lparr>oty = RankedTensor [1, 2, 1, 2] I64, oattr = Some (IntElements I64 [2, -3, 0, 1])\<rparr>,
     ge_axis = -1, ge_result = RankedTensor [1, 2, 1, 2] F32\<rparr>"

theorem lower_gather_elements_correct_witness:
  "\<exists>v. lower_gather_elements gather_elements_example = Inr v \<and>
     represents reference_sem (\<lambda>_. ttranspose to_nhwc nchw_example) v (ge_result gather_elements_example)
       (onnx_gather_elements 3 nchw_example (Tensor [1, 2, 1, 2] [2, -3, 0, 1]))"
proof -
  have "\<not> failed (lower_gather_elements gather_elements_example)" by code_simp
  then obtain v where low: "lower_gather_elements gather_elements_example = Inr v" by (rule not_failedE)
  let ?ix = "Tensor [1, 2, 1, 2] [2, -3, 0, 1 :: int]" and ?env = "\<lambda>_ :: nat. ttranspose to_nhwc nchw_example"
  have c: "getConstantIntValues (ge_indices gather_elements_example) = Some [2, -3, 0, 1]" by code_simp
  have "represents reference_sem ?env v (ge_result gather_elements_example) (onnx_gather_elements 3 nchw_example ?ix)"
  proof (rule lower_gather_elements_correct [OF reference_gather_nd.tfl_gather_nd_axioms reference_index.tfl_index_axioms
        reference.tfl_assembly_axioms low])
    show "conforms (oty (ge_data gather_elements_example)) nchw_example" "?env 0 = phys (oty (ge_data gather_elements_example)) nchw_example"
      "3 = nat (normalizeAxis (ge_axis gather_elements_example) (int (trank nchw_example)))"
      by (simp_all add: gather_elements_example_def example_simps normalizeAxis_def)
    show "conforms (oty (ge_indices gather_elements_example)) ?ix"
      by (simp add: gather_elements_example_def conforms_Ranked wf_tensor_def)
  qed (simp add: c)
  with low show ?thesis by blast
qed

section \<open>GatherND\<close>

record 'f gather_nd_op =
  gn_data :: "'f operand"
  gn_indices :: "'f operand"
  gn_batch_dims :: int
  gn_result :: mtype

definition gather_nd_ranks_ok :: "int list \<Rightarrow> int list \<Rightarrow> int list \<Rightarrow> int \<Rightarrow> bool" where
  "gather_nd_ranks_ok dataShape indicesShape resultShape batchDims \<longleftrightarrow>
     (let dataRank = getRank dataShape; indicesRank = getRank indicesShape; resultRank = getRank resultShape in
      \<not> (dataRank < 1 \<or> 5 < dataRank \<or> indicesRank < 1 \<or> 5 < indicesRank \<or> resultRank < 1 \<or> 5 < resultRank \<or>
         batchDims < 0 \<or> indicesRank - 1 < batchDims \<or> dataRank \<le> batchDims))"

fun flat_offset :: "(int \<times> int) list \<Rightarrow> int \<Rightarrow> int option" where
  "flat_offset [] flatOffset = Some flatOffset"
| "flat_offset ((dimension, coord) # rest) flatOffset =
     (if coord < 0 \<or> dimension \<le> coord then None
      else flat_offset rest (flatOffset * dimension + coord))"

definition row_major_coordinate :: "int list \<Rightarrow> int list \<Rightarrow> int \<Rightarrow> int \<Rightarrow> int list \<Rightarrow> int \<Rightarrow> int \<Rightarrow> int" where
  "row_major_coordinate dataShape indicesShape batchDims indexDepth indexValues tuple axis =
     (if axis < batchDims then output_position (butlast indicesShape) tuple ! nat axis
      else
        let coord = indexValues ! nat (tuple * indexDepth + axis - batchDims) in
        if coord < 0 then coord + dataShape ! nat axis else coord)"

definition isRowMajorReshapeGather :: "mtype \<Rightarrow> mtype \<Rightarrow> mtype \<Rightarrow> int \<Rightarrow> int list \<Rightarrow> bool" where
  "isRowMajorReshapeGather dataType indicesType resultType batchDims indexValues =
     (case (dataType, indicesType, resultType) of
        (RankedTensor dataShape de, RankedTensor indicesShape ie, RankedTensor resultShape re) \<Rightarrow>
          if \<not> hasStaticShape dataShape \<or> \<not> hasStaticShape indicesShape \<or> \<not> hasStaticShape resultShape \<or> de \<noteq> re then False
          else if \<not> gather_nd_ranks_ok dataShape indicesShape resultShape batchDims then False
          else if (\<exists>dim\<in>set dataShape. dim \<le> 0) \<or> (\<exists>dim\<in>set indicesShape. dim \<le> 0) then False
          else if take (nat batchDims) indicesShape \<noteq> take (nat batchDims) dataShape then False
          else
            let indexDepth = last indicesShape in
            if batchDims + indexDepth \<noteq> getRank dataShape \<or> int (length indexValues) \<noteq> getNumElements indicesShape then False
            else if butlast indicesShape \<noteq> resultShape then False
            else
              let tupleCount = cdiv (getNumElements indicesShape) indexDepth in
              if tupleCount \<noteq> getNumElements dataShape then False
              else list_all (\<lambda>tuple. flat_offset
                     (map (\<lambda>axis. (dataShape ! nat axis, row_major_coordinate dataShape indicesShape batchDims indexDepth indexValues tuple axis))
                        [0..getRank dataShape - 1]) 0 = Some tuple) [0..tupleCount - 1]
      | _ \<Rightarrow> False)"

fun normalize_tuple :: "int list \<Rightarrow> int list \<Rightarrow> int list result" where
  "normalize_tuple (dimension # dimensions) (index # indices) =
     (let index' = (if index < 0 then index + dimension else index) in
      if index' < 0 \<or> dimension \<le> index' then Inl OutOfBounds
      else bind_result (normalize_tuple dimensions indices) (\<lambda>rest. Inr (i32 index' # rest)))"
| "normalize_tuple _ _ = Inr []"

definition tuple_indices :: "int \<Rightarrow> int list \<Rightarrow> int \<Rightarrow> int list" where
  "tuple_indices indexDepth indexValues tuple =
     map (\<lambda>component. indexValues ! nat (tuple * indexDepth + component)) [0..indexDepth - 1]"

fun nd_coordinates :: "int list \<Rightarrow> int list \<Rightarrow> int \<Rightarrow> int \<Rightarrow> int list \<Rightarrow> int list \<Rightarrow> int list result" where
  "nd_coordinates dataShape prefixShape batchDims indexDepth indexValues [] = Inr []"
| "nd_coordinates dataShape prefixShape batchDims indexDepth indexValues (tuple # tuples) =
     bind_result (normalize_tuple (take (nat indexDepth) (drop (nat batchDims) dataShape)) (tuple_indices indexDepth indexValues tuple))
       (\<lambda>indices. bind_result (nd_coordinates dataShape prefixShape batchDims indexDepth indexValues tuples)
          (\<lambda>rest. Inr (map i32 (take (nat batchDims) (output_position prefixShape tuple)) @ indices @ rest)))"

definition nd_runtime :: "int list \<Rightarrow> int list \<Rightarrow> elt \<Rightarrow> int \<Rightarrow> 'f val \<Rightarrow> 'f val" where
  "nd_runtime dataShape indicesShape e batchDims indices =
     (let indexDepth = last indicesShape; count = getNumElements indicesShape; flatten = 4 < getRank indicesShape;
          workingShape = (if flatten then [count] else indicesShape);
          flat = (if flatten then emitReshape (RankedTensor [count] e) [count] indices else indices);
          cast = (if isSignlessInteger 64 e then createTFLOperation ''tfl.cast'' [RankedTensor workingShape I32] [flat] [] 0 else flat);
          isNegative = createTFLOperation ''tfl.less'' [RankedTensor workingShape I1] [cast, createI32ScalarTensorConstant 0] [] 0;
          dimensions = ConstI (RankedTensor [indexDepth] I32)
            (map (\<lambda>component. i32 (dataShape ! nat (batchDims + component))) [0..indexDepth - 1]);
          wrapped = createTFLOperation ''tfl.add'' [RankedTensor workingShape I32] [cast, dimensions] [getFusedActivationNone] 0;
          normalized = createTFLOperation ''tfl.select_v2'' [RankedTensor workingShape I32] [isNegative, wrapped, cast] [] 0;
          restored = (if flatten then emitReshape (RankedTensor indicesShape I32) indicesShape normalized else normalized);
          tupleCount = cdiv count indexDepth in
      if batchDims = 0 then restored
      else createTFLOperation ''tfl.concatenation'' [RankedTensor (butlast indicesShape @ [batchDims + indexDepth]) I32]
             [ConstI (RankedTensor (butlast indicesShape @ [batchDims]) I32)
                (concat (map (\<lambda>tuple. map i32 (take (nat batchDims) (output_position (butlast indicesShape) tuple))) [0..tupleCount - 1])),
              restored]
             [(''axis'', IntAttr (i32 (getRank indicesShape - 1))), getFusedActivationNone] 0)"

definition emit_reshape_gather :: "mtype \<Rightarrow> mtype \<Rightarrow> 'f val \<Rightarrow> 'f val" where
  "emit_reshape_gather sourceDataType sourceResultType data =
     (let data' = (if vtype data \<noteq> sourceDataType then restoreLogicalRank4 sourceDataType data else data);
          reshaped = emitReshape sourceResultType (case sourceResultType of RankedTensor sh _ \<Rightarrow> sh | _ \<Rightarrow> []) data' in
      if convertRank4NCHWToNHWCType sourceResultType = sourceResultType then reshaped else toPhysicalRank4 sourceResultType reshaped)"

definition lower_gather_nd :: "'f gather_nd_op \<Rightarrow> 'f val result" where
  "lower_gather_nd op =
     (let data = adaptor 0 (gn_data op); batchDims = gn_batch_dims op; indexValues = getConstantIntValues (gn_indices op) in
      case (oty (gn_data op), oty (gn_indices op), gn_result op) of
        (RankedTensor dataShape de, RankedTensor indicesShape ie, RankedTensor resultShape re) \<Rightarrow>
          if (case indexValues of Some vs \<Rightarrow> isRowMajorReshapeGather (oty (gn_data op)) (oty (gn_indices op)) (gn_result op) batchDims vs | None \<Rightarrow> False)
          then Inr (emit_reshape_gather (oty (gn_data op)) (gn_result op) data)
          else if failed (validateStaticF32Tensor (vtype data)) \<or> failed (validateStaticF32Tensor (gn_result op)) \<or>
            \<not> hasStaticShape indicesShape \<or> (\<not> isSignlessInteger 32 ie \<and> \<not> isSignlessInteger 64 ie) then Inl BadTypes
          else if \<not> gather_nd_ranks_ok dataShape indicesShape resultShape batchDims then Inl BadRank
          else if \<exists>dimension\<in>set dataShape. dimension \<le> 0 \<or> int32_max < dimension then Inl SizeOutOfRange
          else if \<exists>dimension\<in>set indicesShape. dimension \<le> 0 \<or> int32_max < dimension then Inl SizeOutOfRange
          else if take (nat batchDims) indicesShape \<noteq> take (nat batchDims) dataShape then Inl ShapeMismatch
          else
            let indexDepth = last indicesShape in
            if indexDepth \<le> 0 \<or> getRank dataShape - batchDims < indexDepth then Inl BadAxis
            else if resultShape \<noteq> butlast indicesShape @ drop (nat (batchDims + indexDepth)) dataShape then Inl ShapeMismatch
            else
              let tupleCount = cdiv (getNumElements indicesShape) indexDepth; coordinateDepth = batchDims + indexDepth in
              if cdiv int32_max coordinateDepth < tupleCount then Inl TooLarge
              else (case indexValues of
                Some vs \<Rightarrow>
                  if int (length vs) = getNumElements indicesShape
                  then bind_result (nd_coordinates dataShape (butlast indicesShape) batchDims indexDepth vs [0..tupleCount - 1])
                    (\<lambda>coordinates. Inr (emit_gather_nd (oty (gn_data op)) (gn_result op) data
                       (ConstI (RankedTensor (butlast indicesShape @ [coordinateDepth]) I32) coordinates)))
                  else Inr (emit_gather_nd (oty (gn_data op)) (gn_result op) data
                         (nd_runtime dataShape indicesShape ie batchDims (adaptor 1 (gn_indices op))))
              | None \<Rightarrow> Inr (emit_gather_nd (oty (gn_data op)) (gn_result op) data
                         (nd_runtime dataShape indicesShape ie batchDims (adaptor 1 (gn_indices op)))))
      | _ \<Rightarrow> Inl BadTypes)"

section \<open>What ONNX defines\<close>

text \<open>The coordinate of a tuple: the batch position, then the indices of the tuple.\<close>

definition nd_coordinate :: "nat \<Rightarrow> nat list \<Rightarrow> int tensor \<Rightarrow> nat list \<Rightarrow> nat list" where
  "nd_coordinate b ds ix is =
     take b is @ map (\<lambda>k. nat (nonneg_index (ds ! (b + k)) (tnth ix (is @ [k])))) [0..<ixdepth ix]"

definition onnx_gather_nd :: "nat \<Rightarrow> 'a tensor \<Rightarrow> int tensor \<Rightarrow> 'a tensor" where
  "onnx_gather_nd b t ix =
     tgen (butlast (tshape ix) @ drop (b + ixdepth ix) (tshape t))
       (\<lambda>is. tnth t (nd_coordinate b (tshape t) ix (take (trank ix - 1) is) @ drop (trank ix - 1) is))"

definition nd_tensor :: "nat \<Rightarrow> nat list \<Rightarrow> int tensor \<Rightarrow> nat tensor" where
  "nd_tensor b ds ix = tgen (butlast (tshape ix) @ [b + ixdepth ix]) (\<lambda>is. nd_coordinate b ds ix (butlast is) ! last is)"

definition nd_indices_in :: "nat \<Rightarrow> nat list \<Rightarrow> int tensor \<Rightarrow> bool" where
  "nd_indices_in b ds ix \<longleftrightarrow> (\<forall>is k. valid_ix (butlast (tshape ix)) is \<and> k < ixdepth ix \<longrightarrow>
     - int (ds ! (b + k)) \<le> tnth ix (is @ [k]) \<and> tnth ix (is @ [k]) < int (ds ! (b + k)))"

lemma nd_tensor_simps [simp]:
  "tshape (nd_tensor b ds ix) = butlast (tshape ix) @ [b + ixdepth ix]" "wf_tensor (nd_tensor b ds ix)"
  "ixdepth (nd_tensor b ds ix) = b + ixdepth ix"
  by (simp_all add: nd_tensor_def ixdepth_def)

lemma length_nd_coordinate: "b \<le> length is \<Longrightarrow> length (nd_coordinate b ds ix is) = b + ixdepth ix"
  by (simp add: nd_coordinate_def)

lemma coordinate_nd_tensor:
  assumes v: "valid_ix (butlast (tshape ix)) is" and b: "b \<le> trank ix - 1"
  shows "coordinate (nd_tensor b ds ix) is = nd_coordinate b ds ix is"
proof (rule nth_equalityI)
  have l: "length is = trank ix - 1" using valid_ix_length [OF v] by simp
  then show "length (coordinate (nd_tensor b ds ix) is) = length (nd_coordinate b ds ix is)" using b by (simp add: length_nd_coordinate)
  fix k assume "k < length (coordinate (nd_tensor b ds ix) is)"
  then show "coordinate (nd_tensor b ds ix) is ! k = nd_coordinate b ds ix is ! k"
    using v by (simp add: coordinate_def nd_tensor_def ixdepth_def valid_ix_snoc)
qed

lemma tgather_nd_tensor:
  assumes "b \<le> trank ix - 1"
  shows "tgather_nd t (nd_tensor b (tshape t) ix) = onnx_gather_nd b t ix"
  unfolding tgather_nd_def onnx_gather_nd_def
proof (rule tgen_cong)
  fix "is" assume v: "valid_ix (butlast (tshape ix) @ drop (b + ixdepth ix) (tshape t)) is"
  then have "valid_ix (butlast (tshape ix)) (take (trank ix - 1) is)"
    by (auto simp: valid_ix_def list_all2_append2 list_all2_lengthD)
  then show "tnth t (coordinate (nd_tensor b (tshape t) ix) (take (trank (nd_tensor b (tshape t) ix) - 1) is) @ drop (trank (nd_tensor b (tshape t) ix) - 1) is) =
      tnth t (nd_coordinate b (tshape t) ix (take (trank ix - 1) is) @ drop (trank ix - 1) is)"
    using assms by (simp add: coordinate_nd_tensor)
qed simp

section \<open>Constant coordinates\<close>

lemma normalize_tuple_ok:
  "normalize_tuple (map int ds) vs = Inr js \<Longrightarrow> length vs = length ds \<Longrightarrow> i32_dims ds \<Longrightarrow>
   js = map2 (\<lambda>d v. nonneg_index d v) ds vs \<and> list_all2 (\<lambda>d v. - int d \<le> v \<and> v < int d) ds vs"
proof (induction ds arbitrary: vs js)
  case (Cons d ds)
  then obtain v vs' where vs: "vs = v # vs'" by (cases vs) simp_all
  let ?j = "nonneg_index d v"
  obtain rest where rec: "normalize_tuple (map int ds) vs' = Inr rest" and j: "0 \<le> ?j" "?j < int d" and js: "js = i32 ?j # rest"
    using Cons.prems(1) by (auto simp: vs Let_def nonneg_index_def split: if_splits)
  have "i32 ?j = ?j" using j Cons.prems(3) by (intro i32_id) (auto simp: fits_i32_def i32_dims_def)
  moreover have "- int d \<le> v \<and> v < int d" using j by (auto simp: nonneg_index_def split: if_splits)
  ultimately show ?case using Cons.IH [OF rec] Cons.prems(2,3) by (simp add: vs js i32_dims_def)
qed simp

definition tuple_at :: "nat \<Rightarrow> nat list \<Rightarrow> nat \<Rightarrow> int list \<Rightarrow> nat \<Rightarrow> nat list" where
  "tuple_at b ds n vs k = map (\<lambda>j. nat (nonneg_index (ds ! (b + j)) (vs ! (k * n + j)))) [0..<n]"

definition tuple_in :: "nat \<Rightarrow> nat list \<Rightarrow> nat \<Rightarrow> int list \<Rightarrow> nat \<Rightarrow> bool" where
  "tuple_in b ds n vs k \<longleftrightarrow> (\<forall>j<n. - int (ds ! (b + j)) \<le> vs ! (k * n + j) \<and> vs ! (k * n + j) < int (ds ! (b + j)))"

lemma normalize_tuple_at:
  assumes "normalize_tuple (map int (take n (drop b ds))) (tuple_indices (int n) vs (int k)) = Inr js"
    and "b + n \<le> length ds" "i32_dims ds"
  shows "js = map int (tuple_at b ds n vs k) \<and> tuple_in b ds n vs k"
proof -
  have ti: "tuple_indices (int n) vs (int k) = map (\<lambda>j. vs ! (k * n + j)) [0..<n]"
    by (simp add: tuple_indices_def int_upto nat_add_distrib nat_mult_distrib)
  have d: "length (take n (drop b ds)) = n" "\<And>j. j < n \<Longrightarrow> take n (drop b ds) ! j = ds ! (b + j)" using assms(2) by simp_all
  have "i32_dims (take n (drop b ds))" using assms(3) by (auto simp: i32_dims_def dest: in_set_takeD in_set_dropD)
  from normalize_tuple_ok [OF assms(1) _ this] d ti
  have js: "js = map2 nonneg_index (take n (drop b ds)) (map (\<lambda>j. vs ! (k * n + j)) [0..<n])"
    and rng: "tuple_in b ds n vs k" by (auto simp: list_all2_conv_all_nth tuple_in_def)
  have "js = map int (tuple_at b ds n vs k)"
    using rng d nonneg_index_bound by (intro nth_equalityI) (simp_all add: js tuple_at_def tuple_in_def)
  with rng show ?thesis by simp
qed

lemma nd_coordinates_ok:
  assumes "nd_coordinates (map int ds) (map int ps) (int b) (int n) vs (map int ks) = Inr cs"
    and "\<forall>k\<in>set ks. k < prod_list ps" "b + n \<le> length ds" "i32_dims ds" "i32_dims ps"
  shows "cs = concat (map (\<lambda>k. map int (take b (unravel ps k) @ tuple_at b ds n vs k)) ks) \<and> (\<forall>k\<in>set ks. tuple_in b ds n vs k)"
  using assms
proof (induction ks arbitrary: cs)
  case (Cons k ks)
  obtain js rest where js: "normalize_tuple (map int (take n (drop b ds))) (tuple_indices (int n) vs (int k)) = Inr js"
    and rec: "nd_coordinates (map int ds) (map int ps) (int b) (int n) vs (map int ks) = Inr rest"
    and cs: "cs = map i32 (take b (output_position (map int ps) (int k))) @ js @ rest"
    using Cons.prems(1) by (auto simp: take_map drop_map)
  have k: "k < prod_list ps" using Cons.prems(2) by simp
  have "i32_dims (take b (unravel ps k))"
    using i32_dims_valid [OF unravel_valid [OF k] Cons.prems(5)] by (auto simp: i32_dims_def dest: in_set_takeD)
  then have "map i32 (take b (output_position (map int ps) (int k))) = map int (take b (unravel ps k))"
    using k map_i32_dims [of "take b (unravel ps k)"] by (simp add: output_position_unravel take_map)
  then show ?case
    using cs normalize_tuple_at [OF js Cons.prems(3,4)] Cons.IH [OF rec _ Cons.prems(3-5)] Cons.prems(2) by simp
qed simp

lemma tnth_snoc:
  assumes "tshape ix = ps @ [n]" and "k < prod_list ps" shows "tnth ix (unravel ps k @ [j]) = tdata ix ! (k * n + j)"
  using assms by (simp add: tnth_def ravel_append)

lemma nd_coordinate_at:
  assumes "tshape ix = ps @ [n]" and "k < prod_list ps"
  shows "nd_coordinate b ds ix (unravel ps k) = take b (unravel ps k) @ tuple_at b ds n (tdata ix) k"
  using assms by (simp add: nd_coordinate_def tuple_at_def ixdepth_def tnth_snoc)

lemma tdata_nd_tensor:
  assumes sh: "tshape ix = ps @ [n]" and b: "b \<le> length ps"
  shows "tdata (nd_tensor b ds ix) = concat (map (\<lambda>k. take b (unravel ps k) @ tuple_at b ds n (tdata ix) k) [0..<prod_list ps])"
proof -
  have "map (\<lambda>j. nd_coordinate b ds ix (butlast (is @ [j])) ! last (is @ [j])) [0..<b + n] = nd_coordinate b ds ix is"
    if "valid_ix ps is" for "is"
    using valid_ix_length [OF that] b length_nd_coordinate [of b "is" ds ix] sh by (auto intro!: nth_equalityI simp: ixdepth_def)
  then have "tdata (nd_tensor b ds ix) = concat (map (nd_coordinate b ds ix) (all_ix ps))"
    unfolding nd_tensor_def sh butlast_snoc ixdepth_def last_snoc tdata_tgen_snoc
    by (intro arg_cong [where f = concat] map_cong refl) (simp add: set_all_ix)
  also have "\<dots> = concat (map (\<lambda>k. take b (unravel ps k) @ tuple_at b ds n (tdata ix) k) [0..<prod_list ps])"
    unfolding all_ix_def map_map by (intro arg_cong [where f = concat] map_cong refl) (simp add: nd_coordinate_at [OF sh])
  finally show ?thesis .
qed

lemma nd_indices_in_tuples:
  assumes "tshape ix = ps @ [n]" and "\<forall>k<prod_list ps. tuple_in b ds n (tdata ix) k"
  shows "nd_indices_in b ds ix"
  unfolding nd_indices_in_def
proof (intro allI impI)
  fix "is" j assume "valid_ix (butlast (tshape ix)) is \<and> j < ixdepth ix"
  then have v: "valid_ix ps is" and j: "j < n" using assms(1) by (simp_all add: ixdepth_def)
  then have "tnth ix (is @ [j]) = tdata ix ! (ravel ps is * n + j)"
    using tnth_snoc [OF assms(1), of "ravel ps is" j] ravel_less by simp
  then show "- int (ds ! (b + j)) \<le> tnth ix (is @ [j]) \<and> tnth ix (is @ [j]) < int (ds ! (b + j))"
    using assms(2) ravel_less [OF v] j by (simp add: tuple_in_def)
qed

lemma valid_nd_coordinate:
  assumes sh: "tshape ix = ps @ [n]" and b: "b \<le> length ps" "take b ps = take b ds" "b + n \<le> length ds"
    and rng: "nd_indices_in b ds ix" and v: "valid_ix ps is"
  shows "valid_ix (take (b + n) ds) (nd_coordinate b ds ix is)"
proof (rule valid_ixI)
  have l: "length is = length ps" using v by (rule valid_ix_length)
  show "length (nd_coordinate b ds ix is) = length (take (b + n) ds)" using l b sh by (simp add: length_nd_coordinate ixdepth_def)
  fix k assume k: "k < length (take (b + n) ds)"
  show "nd_coordinate b ds ix is ! k < take (b + n) ds ! k"
  proof (cases "k < b")
    case True
    then have "ps ! k = ds ! k" using b(2) nth_take [of k b] by metis
    then show ?thesis using True k l b valid_ix_nth [OF v, of k] by (simp add: nd_coordinate_def nth_append)
  next
    case False
    then have kb: "k - b < n" "b + (k - b) = k" using k by auto
    then have "- int (ds ! k) \<le> tnth ix (is @ [k - b]) \<and> tnth ix (is @ [k - b]) < int (ds ! k)"
      using rng v k sh unfolding nd_indices_in_def by (auto simp: ixdepth_def dest!: spec [of _ "is"] spec [of _ "k - b"])
    then show ?thesis
      using False k kb l b sh nonneg_index_bound [of "ds ! k" "tnth ix (is @ [k - b])"]
      by (simp add: nd_coordinate_def nth_append ixdepth_def nat_less_iff)
  qed
qed

lemma coordinates_ok_nd:
  assumes sh: "tshape ix = ps @ [n]" and b: "b \<le> length ps" "take b ps = take b ds" "b + n \<le> length ds" and rng: "nd_indices_in b ds ix"
  shows "coordinates_ok ds (nd_tensor b ds ix)"
  using assms valid_nd_coordinate [OF assms] coordinate_nd_tensor [of ix _ b ds]
  by (simp add: coordinates_ok_def ixdepth_def)

section \<open>Coordinates at run time\<close>

lemma bcast_last_vector [simp]: "bcast_shape (ps @ [n]) [n] = ps @ [n]" "bcast_compat (ps @ [n]) [n]"
proof -
  have pl: "pad_left (Suc (length ps)) [n] = replicate (length ps) 1 @ [n]" "pad_left (Suc (length ps)) (ps @ [n]) = ps @ [n]"
    by (simp_all add: pad_left_def)
  show "bcast_shape (ps @ [n]) [n] = ps @ [n]"
    by (rule nth_equalityI) (auto simp: bcast_shape_def Let_def pl nth_append bcast_dim_def)
  show "bcast_compat (ps @ [n]) [n]"
    by (auto simp: bcast_compat_def Let_def pl list_all2_conv_all_nth nth_append)
qed

lemma tmap2_last_vector:
  assumes "tshape x = ps @ [n]" and "length vs = n"
  shows "tmap2 f x (Tensor [n] vs) = tgen (ps @ [n]) (\<lambda>is. f (tnth x is) (vs ! last is))"
  unfolding tmap2_bget assms(1) tensor.sel bcast_last_vector
proof (rule tgen_cong)
  fix "is" assume v: "valid_ix (ps @ [n]) is"
  then obtain js j where j: "is = js @ [j]" "j < n" by (auto simp: valid_ix_snoc)
  then have "bget (Tensor [n] vs) is = vs ! j" by (auto simp: bget_def bcast_ix_def tnth_def)
  moreover have "bget x is = tnth x is" using assms(1) v by (simp add: bget_self)
  ultimately show "f (bget x is) (bget (Tensor [n] vs) is) = f (tnth x is) (vs ! last is)" using j by simp
qed simp

lemma tselect_same_shape:
  assumes "tshape c = ds" "tshape x = ds" "tshape y = ds"
  shows "tselect p c x y = tgen ds (\<lambda>is. if p (tnth c is) then tnth x is else tnth y is)"
  using assms by (simp add: tselect_def bcast_ix_self cong: tgen_cong if_cong)

definition nd_normalized :: "nat \<Rightarrow> nat list \<Rightarrow> int tensor \<Rightarrow> int tensor" where
  "nd_normalized b ds ix = tgen (tshape ix) (\<lambda>is. nonneg_index (ds ! (b + last is)) (tnth ix is))"

context tfl_index
begin

lemma eval_nd_normalized:
  assumes sh: "tshape ix = ps @ [n]" "trank ix \<le> 4" "wf_tensor ix" and v: "eval sem env v = tmap IV ix"
    and rng: "nd_indices_in b ds ix" "b + n \<le> length ds" "i32_dims ds"
  defines "ty \<equiv> RankedTensor (map int (ps @ [n])) I32"
    and "sizes \<equiv> ConstI (RankedTensor [int n] I32) (map (\<lambda>k. i32 (map int ds ! nat (int b + k))) [0..int n - 1])"
  shows "eval sem env (createTFLOperation ''tfl.select_v2'' [ty]
      [createTFLOperation ''tfl.less'' [RankedTensor (map int (ps @ [n])) I1] [v, createI32ScalarTensorConstant 0] [] 0,
       createTFLOperation ''tfl.add'' [ty] [v, sizes] [getFusedActivationNone] 0, v] [] 0) = tmap IV (nd_normalized b ds ix)"
proof -
  let ?sz = "map (\<lambda>k. IV (int (ds ! (b + k)))) [0..<n]"
  let ?n = "createTFLOperation ''tfl.less'' [RankedTensor (map int (ps @ [n])) I1] [v, createI32ScalarTensorConstant 0] [] 0"
  let ?w = "createTFLOperation ''tfl.add'' [ty] [v, sizes] [getFusedActivationNone] 0"
  have z: "eval sem env (createI32ScalarTensorConstant 0) = Tensor [] [IV 0]" by (simp add: createI32ScalarTensorConstant_def)
  have n: "eval sem env ?n = tmap (\<lambda>i. BV (i < 0)) ix"
    using lt.eval_scalar_right [of "tmap IV ix" env v "createI32ScalarTensorConstant 0" "IV 0"] sh v z by (simp add: conforms_Ranked comp_def less_int)
  have "i32 (map int ds ! nat (int b + int k)) = int (ds ! (b + k))" if "k < n" for k
  proof -
    have "ds ! (b + k) \<in> set ds" using that rng(2) by simp
    then show ?thesis using that rng(2,3) by (simp add: nat_add_distrib i32_dims_def fits_i32_def i32_id)
  qed
  then have dm: "eval sem env sizes = Tensor [n] ?sz" by (simp add: sizes_def int_upto)
  have sum: "tmap2 addf (tmap IV ix) (Tensor [n] ?sz) = tgen (ps @ [n]) (\<lambda>is. addf (tnth (tmap IV ix) is) (?sz ! last is))"
    using sh(1) by (intro tmap2_last_vector) simp_all
  have w: "eval sem env ?w = tgen (ps @ [n]) (\<lambda>is. addf (tnth (tmap IV ix) is) (?sz ! last is))"
    using ad.eval_direct [of env v "tmap IV ix" sizes "Tensor [n] ?sz" ty] sh v dm sum
    by (simp add: ty_def conforms_Ranked wf_tensor_def [of "Tensor [n] ?sz"])
  have sel: "tselect is_true (tmap (\<lambda>i. BV (i < 0)) ix) (tgen (ps @ [n]) (\<lambda>is. addf (tnth (tmap IV ix) is) (?sz ! last is))) (tmap IV ix) =
      tmap IV (nd_normalized b ds ix)"
  proof (rule tensor_eqI)
    fix "is" assume "valid_ix (tshape (tmap IV (nd_normalized b ds ix))) is"
    then have v: "valid_ix (tshape ix) is" by (simp add: nd_normalized_def)
    then obtain js j where j: "is = js @ [j]" "valid_ix ps js" "j < n" using sh(1) by (auto simp: valid_ix_snoc)
    have r: "- int (ds ! (b + j)) \<le> tnth ix is" using rng(1) j sh(1) unfolding nd_indices_in_def by (simp add: ixdepth_def)
    have "ds ! (b + j) \<in> set ds" using j(3) rng(2) by simp
    then have "fits_i32 (tnth ix is + int (ds ! (b + j)))" if "tnth ix is < 0" using that r rng(3) by (auto simp: fits_i32_def i32_dims_def)
    then show "tnth (tselect is_true (tmap (\<lambda>i. BV (i < 0)) ix) (tgen (ps @ [n]) (\<lambda>is. addf (tnth (tmap IV ix) is) (?sz ! last is))) (tmap IV ix)) is =
        tnth (tmap IV (nd_normalized b ds ix)) is"
      using v j sh by (simp add: tselect_same_shape nd_normalized_def tnth_tmap is_true_def nonneg_index_def add_int)
  qed (use sh in \<open>simp_all add: tselect_same_shape nd_normalized_def\<close>)
  have "sem ''tfl.select_v2'' [] [ty] [tmap (\<lambda>i. BV (i < 0)) ix, tgen (ps @ [n]) (\<lambda>is. addf (tnth (tmap IV ix) is) (?sz ! last is)), tmap IV ix] =
      [tmap IV (nd_normalized b ds ix)]"
    using sel.select_v2 [of "tmap (\<lambda>i. BV (i < 0)) ix" "tgen (ps @ [n]) (\<lambda>is. addf (tnth (tmap IV ix) is) (?sz ! last is))" "tmap IV ix" "[ty]", unfolded sel] sh
    by (simp add: ty_def conforms_Ranked nd_normalized_def)
  then show ?thesis unfolding eval_createTFLOperation using n w v by simp
qed

end

lemma tdata_tnth: "wf_tensor t \<Longrightarrow> i \<in> set (tdata t) \<Longrightarrow> \<exists>js. valid_ix (tshape t) js \<and> i = tnth t js"
  unfolding in_set_conv_nth wf_tensor_def by (metis ravel_unravel tnth_def unravel_valid)

text \<open>Two parts along the last axis.\<close>

lemma tconcat_last:
  assumes "tshape x = ps @ [b]" and "tshape y = ps @ [n]"
  shows "tconcat (length ps) [x, y] =
    tgen (ps @ [b + n]) (\<lambda>is. if last is < b then tnth x is else tnth y (butlast is @ [last is - b]))"
proof -
  have "tconcat (length ps) [x, y] = tgen (ps @ [b + n])
      (\<lambda>is. case locate [b, n] (is ! length ps) of (j, r) \<Rightarrow> tnth ([x, y] ! j) (is[length ps := r]))"
    by (simp add: tconcat_def assms list_update_append)
  then show ?thesis
    by (simp, intro tgen_cong) (auto simp: valid_ix_snoc nth_append list_update_append dest!: valid_ix_length)
qed

lemma prefix_constant:
  fixes sem :: "'f sem"
  assumes "i32_dims ps" and "b \<le> length ps"
  shows "eval sem env (ConstI (RankedTensor (map int (ps @ [b])) I32)
      (concat (map (\<lambda>k. map i32 (take b (output_position (map int ps) k))) [0..int (prod_list ps) - 1]))) =
    tgen (ps @ [b]) (\<lambda>is. IV (int (butlast is ! last is)))"
proof -
  have tk: "map i32 (take b (output_position (map int ps) (int k))) = map int (take b (unravel ps k))" if k: "k < prod_list ps" for k
  proof -
    have "i32_dims (take b (unravel ps k))"
      using i32_dims_valid [OF unravel_valid [OF k] assms(1)] by (auto simp: i32_dims_def dest: in_set_takeD)
    then show ?thesis using k map_i32_dims [of "take b (unravel ps k)"] by (simp add: output_position_unravel take_map)
  qed
  have row: "map (\<lambda>j. IV (int (butlast (is @ [j]) ! last (is @ [j]))) :: 'f scalar) [0..<b] = map (\<lambda>i. IV (int i)) (take b is)"
    if "valid_ix ps is" for "is" using valid_ix_length [OF that] assms(2) by (auto intro: nth_equalityI)
  have "tdata (tgen (ps @ [b]) (\<lambda>is. IV (int (butlast is ! last is)) :: 'f scalar)) = concat (map (\<lambda>is. map (\<lambda>i. IV (int i)) (take b is)) (all_ix ps))"
    unfolding tdata_tgen_snoc by (rule arg_cong [where f = concat], rule map_cong [OF refl], rule row) (simp add: set_all_ix)
  also have "\<dots> = map IV (concat (map (\<lambda>k. map i32 (take b (output_position (map int ps) (int k)))) [0..<prod_list ps]))"
    unfolding all_ix_def map_map map_concat by (intro arg_cong [where f = concat] map_cong refl) (simp add: tk)
  finally show ?thesis by (intro tensor.expand) (simp add: int_upto comp_def)
qed

lemma tconcat_nd:
  assumes sh: "tshape ix = ps @ [n]" and b: "b \<le> length ps" "b + n \<le> length ds" and rng: "nd_indices_in b ds ix"
  shows "tconcat (length ps) [tgen (ps @ [b]) (\<lambda>is. IV (int (butlast is ! last is))), tmap IV (nd_normalized b ds ix)] =
    tmap (\<lambda>i. IV (int i)) (nd_tensor b ds ix)"
  unfolding nd_normalized_def sh
proof (subst tconcat_last [where b = b and n = n], simp, simp, rule tensor_eqI)
  fix js assume "valid_ix (tshape (tmap (\<lambda>i. IV (int i)) (nd_tensor b ds ix))) js"
  then obtain "is" j where j: "js = is @ [j]" "valid_ix ps is" "j < b + n" by (auto simp: sh valid_ix_snoc ixdepth_def)
  have l: "length is = length ps" using j(2) by (rule valid_ix_length)
  have nn: "0 \<le> nonneg_index (ds ! j) (tnth ix (is @ [j - b]))" if "\<not> j < b"
    using rng j that sh unfolding nd_indices_in_def
    by (auto simp: ixdepth_def nonneg_index_def dest!: spec [of _ "is"] spec [of _ "j - b"])
  show "tnth (tgen (ps @ [b + n]) (\<lambda>is. if last is < b then tnth (tgen (ps @ [b]) (\<lambda>is. IV (int (butlast is ! last is)))) is
        else tnth (tmap IV (tgen (ps @ [n]) (\<lambda>is. nonneg_index (ds ! (b + last is)) (tnth ix is)))) (butlast is @ [last is - b]))) js =
      tnth (tmap (\<lambda>i. IV (int i)) (nd_tensor b ds ix)) js"
    using j l b nn by (auto simp: tnth_tmap valid_ix_snoc nd_tensor_def nd_coordinate_def sh ixdepth_def nth_append)
qed (simp_all add: sh ixdepth_def)

text \<open>Without batch axes the normalised indices are the coordinates.\<close>

lemma nd_normalized_0:
  assumes "tshape ix = ps @ [n]" and "nd_indices_in 0 ds ix"
  shows "tmap IV (nd_normalized 0 ds ix) = tmap (\<lambda>i. IV (int i)) (nd_tensor 0 ds ix)"
proof (rule tensor_eqI)
  fix js assume "valid_ix (tshape (tmap (\<lambda>i. IV (int i)) (nd_tensor 0 ds ix))) js"
  then obtain "is" j where j: "js = is @ [j]" "valid_ix ps is" "j < n" by (auto simp: assms(1) valid_ix_snoc ixdepth_def)
  then have "0 \<le> nonneg_index (ds ! j) (tnth ix (is @ [j]))"
    using assms unfolding nd_indices_in_def by (auto simp: ixdepth_def nonneg_index_def dest!: spec [of _ "is"] spec [of _ j])
  then show "tnth (tmap IV (nd_normalized 0 ds ix)) js = tnth (tmap (\<lambda>i. IV (int i)) (nd_tensor 0 ds ix)) js"
    using j assms(1) by (simp add: tnth_tmap valid_ix_snoc nd_normalized_def nd_tensor_def nd_coordinate_def ixdepth_def)
qed (simp_all add: nd_normalized_def assms(1) ixdepth_def)

context tfl_index
begin

lemma eval_nd_runtime:
  assumes asm: "tfl_assembly sem"
    and sh: "tshape ix = ps @ [n]" "trank ix \<le> 4" "wf_tensor ix" "0 < n" and v: "eval sem env v = tmap IV ix"
    and b: "b \<le> length ps" "b + n \<le> length ds" and i32: "i32_dims ds" "i32_dims ps" and rng: "nd_indices_in b ds ix"
  shows "eval sem env (nd_runtime (map int ds) (map int (ps @ [n])) e (int b) v) = tmap (\<lambda>i. IV (int i)) (nd_tensor b ds ix)"
proof -
  define c where "c = (if isSignlessInteger 64 e then createTFLOperation ''tfl.cast'' [RankedTensor (map int (ps @ [n])) I32] [v] [] 0 else v)"
  have fit: "fits_i32 i" if mem: "i \<in> set (tdata ix)" for i
  proof -
    obtain js where "valid_ix (tshape ix) js" "i = tnth ix js" using tdata_tnth [OF sh(3) mem] by blast
    then obtain "is" j where j: "i = tnth ix (is @ [j])" "valid_ix ps is" "j < n" using sh(1) by (auto simp: valid_ix_snoc)
    then have "- int (ds ! (b + j)) \<le> i \<and> i < int (ds ! (b + j))" using rng sh(1) unfolding nd_indices_in_def by (simp add: ixdepth_def)
    moreover have "ds ! (b + j) \<in> set ds" using j(3) b(2) by simp
    ultimately show ?thesis using i32(1) by (auto simp: i32_dims_def fits_i32_def)
  qed
  then have id: "tmap (conv I32) (tmap IV ix) = tmap IV ix" by (auto simp: tmap_def intro!: cast_int)
  have "eval sem env (createTFLOperation ''tfl.cast'' [RankedTensor (map int (ps @ [n])) I32] [v] [] 0) = tmap IV ix"
    using ca.cast [of "tmap IV ix" "map int (ps @ [n])" I32] sh v id by (simp add: conforms_Ranked)
  then have c: "eval sem env c = tmap IV ix" using v by (simp add: c_def)
  note nz = eval_nd_normalized [OF sh(1-3) c rng b(2) i32(1)]
  let ?norm = "createTFLOperation ''tfl.select_v2'' [RankedTensor (map int (ps @ [n])) I32]
      [createTFLOperation ''tfl.less'' [RankedTensor (map int (ps @ [n])) I1] [c, createI32ScalarTensorConstant 0] [] 0,
       createTFLOperation ''tfl.add'' [RankedTensor (map int (ps @ [n])) I32] [c, ConstI (RankedTensor [int n] I32)
         (map (\<lambda>k. i32 (map int ds ! nat (int b + k))) [0..int n - 1])] [getFusedActivationNone] 0, c] [] 0"
  let ?prefix = "ConstI (RankedTensor (map int (ps @ [b])) I32)
      (concat (map (\<lambda>k. map i32 (take b (output_position (map int ps) k))) [0..int (prod_list ps) - 1]))"
  have small: "getRank (map int (ps @ [n])) = int (length ps) + 1" "(4 < int (length ps) + 1) = False" "last (map int (ps @ [n])) = int n"
    "butlast (map int (ps @ [n])) = map int ps" "cdiv (getNumElements (map int (ps @ [n]))) (int n) = int (prod_list ps)"
    using sh(1,2,4) by (simp_all add: getRank_def butlast_append cdiv_nonneg del: map_append, simp_all add: butlast_append)
  have "i32 (int (length ps)) = int (length ps)" using sh(1,2) by (intro i32_id) (simp add: fits_i32_def)
  then have rt: "nd_runtime (map int ds) (map int (ps @ [n])) e (int b) v =
     (if b = 0 then ?norm else createTFLOperation ''tfl.concatenation'' [RankedTensor (map int (ps @ [b + n])) I32] [?prefix, ?norm]
        [(''axis'', IntAttr (int (length ps))), getFusedActivationNone] 0)"
    unfolding nd_runtime_def Let_def small if_False by (simp add: c_def)
  show ?thesis
  proof (cases "b = 0")
    case True
    then show ?thesis unfolding rt if_P [OF True] nz using nd_normalized_0 [OF sh(1)] rng by simp
  next
    case False
    let ?p = "tgen (ps @ [b]) (\<lambda>is. IV (int (butlast is ! last is)))" and ?q = "tmap IV (nd_normalized b ds ix)"
    have cc: "concatable (length ps) [?p, ?q]" by (simp add: concatable_def nd_normalized_def sh(1) list_update_append)
    have tc: "tconcat (length ps) [?p, ?q] = tmap (\<lambda>i. IV (int i)) (nd_tensor b ds ix)" using sh(1) b rng by (rule tconcat_nd)
    have "declares [RankedTensor (map int (ps @ [b + n])) I32] [tconcat (length ps) [?p, ?q]]"
      unfolding tc by (simp add: conforms_Ranked sh(1) ixdepth_def)
    note cn = tfl_assembly.concatenation [OF asm cc this, unfolded tc]
    show ?thesis
      unfolding rt eval_createTFLOperation if_not_P [OF False]
      by (simp only: list.map prefix_constant [OF i32(2) b(1)] nz cn nth_Cons_0)
  qed
qed

end

section \<open>The gather that reads every element in row-major order\<close>

lemma flat_offset_ravel:
  "flat_offset (zip (map int ds) cs) (int acc) = Some r \<Longrightarrow> length cs = length ds \<Longrightarrow>
   \<exists>is. cs = map int is \<and> valid_ix ds is \<and> r = int (acc * prod_list ds + ravel ds is)"
proof (induction ds arbitrary: cs acc)
  case Nil
  then show ?case by (simp add: valid_ix_def)
next
  case (Cons d ds)
  then obtain c cs' where cs: "cs = c # cs'" by (cases cs) simp_all
  have c: "0 \<le> c" "c < int d" and rec: "flat_offset (zip (map int ds) cs') (int (acc * d + nat c)) = Some r"
    using Cons.prems(1) by (auto simp: cs split: if_splits)
  then obtain "is" where "cs' = map int is" "valid_ix ds is" "r = int ((acc * d + nat c) * prod_list ds + ravel ds is)"
    using Cons.IH [OF rec] Cons.prems(2) by (auto simp: cs)
  then show ?case using c by (intro exI [of _ "nat c # is"]) (simp add: cs valid_ix_def algebra_simps)
qed

lemma row_major_tuple:
  assumes sh: "tshape ix = ps @ [n]" "wf_tensor ix" and b: "b \<le> length ps" "b + n = length ds"
    and k: "k < prod_list ps"
    and flat: "flat_offset (map (\<lambda>axis. (map int ds ! nat axis,
        row_major_coordinate (map int ds) (map int (ps @ [n])) (int b) (int n) (tdata ix) (int k) axis)) [0..int (length ds) - 1]) 0 = Some (int k)"
  shows "valid_ix ds (nd_coordinate b ds ix (unravel ps k)) \<and> ravel ds (nd_coordinate b ds ix (unravel ps k)) = k \<and> tuple_in b ds n (tdata ix) k"
proof -
  let ?c = "\<lambda>a. row_major_coordinate (map int ds) (map int (ps @ [n])) (int b) (int n) (tdata ix) (int k) (int a)"
  let ?vs = "tdata ix" and ?cs = "map ?c [0..<length ds]"
  have z: "zip (map int ds) ?cs = map (\<lambda>a. (map int ds ! nat a, ?c (nat a))) [0..int (length ds) - 1]"
    by (intro nth_equalityI) (simp_all add: int_upto)
  have "flat_offset (zip (map int ds) ?cs) (int 0) = Some (int k)"
    unfolding z of_nat_0 flat [symmetric] by (intro arg_cong2 [where f = flat_offset] map_cong refl) simp_all
  from flat_offset_ravel [OF this] obtain "is" where cs: "?cs = map int is" and v: "valid_ix ds is" and r: "ravel ds is = k" by auto
  have lo: "?c a = int (unravel ps k ! a)" if "a < b" for a
    using that b(1) k by (simp add: row_major_coordinate_def output_position_unravel)
  have hi: "?c (b + j) = nonneg_index (ds ! (b + j)) (?vs ! (k * n + j))" if "j < n" for j
    using that b(2) by (simp add: row_major_coordinate_def nonneg_index_def Let_def nat_add_distrib nat_mult_distrib algebra_simps)
  have at: "?c a = int (is ! a)" if "a < length ds" for a using arg_cong [OF cs, of "\<lambda>xs. xs ! a"] that valid_ix_length [OF v] by simp
  have "is = nd_coordinate b ds ix (unravel ps k)"
  proof (rule nth_equalityI)
    show "length is = length (nd_coordinate b ds ix (unravel ps k))" using v b sh by (simp add: valid_ix_length length_nd_coordinate ixdepth_def)
    fix a assume "a < length is"
    then have a: "a < length ds" using v by (simp add: valid_ix_length)
    show "is ! a = nd_coordinate b ds ix (unravel ps k) ! a"
      using lo [of a] hi [of "a - b"] at [OF a] a b
      by (cases "a < b") (auto simp: nd_coordinate_at [OF sh(1) k] nth_append tuple_at_def)
  qed
  moreover have "tuple_in b ds n ?vs k"
    unfolding tuple_in_def
  proof (intro allI impI)
    fix j assume j: "j < n"
    then have "is ! (b + j) < ds ! (b + j)" using v b(2) by (intro valid_ix_nth) simp_all
    then show "- int (ds ! (b + j)) \<le> ?vs ! (k * n + j) \<and> ?vs ! (k * n + j) < int (ds ! (b + j))"
      using hi [OF j] at [of "b + j"] j b(2) by (auto simp: nonneg_index_def split: if_splits)
  qed
  ultimately show ?thesis using v r by simp
qed

lemma row_major_gather:
  assumes sh: "tshape ix = ps @ [n]" "wf_tensor t" and b: "b \<le> length ps" "b + n = trank t" and p: "prod_list ps = prod_list (tshape t)"
    and at: "\<And>k. k < prod_list ps \<Longrightarrow> ravel (tshape t) (nd_coordinate b (tshape t) ix (unravel ps k)) = k"
  shows "onnx_gather_nd b t ix = treshape ps t"
proof (rule tensor_eqI)
  show s: "tshape (onnx_gather_nd b t ix) = tshape (treshape ps t)" using b sh by (simp add: onnx_gather_nd_def ixdepth_def)
  fix "is" assume "valid_ix (tshape (treshape ps t)) is"
  then have v: "valid_ix ps is" by simp
  then have "length is = length ps" by (rule valid_ix_length)
  then show "tnth (onnx_gather_nd b t ix) is = tnth (treshape ps t) is"
    using v b sh at [OF ravel_less [OF v]] by (simp add: onnx_gather_nd_def ixdepth_def tnth_treshape) (simp add: tnth_def)
qed (use sh p in \<open>simp_all add: onnx_gather_nd_def wf_treshape\<close>)

text \<open>
  The row-major branch decides from the types alone whether an operand was transposed: the layout change
  has to show in the type.
\<close>

definition layout_visible :: "mtype \<Rightarrow> bool" where
  "layout_visible ty \<longleftrightarrow> (physical4 ty \<longrightarrow> convertRank4NCHWToNHWCType ty \<noteq> ty)"

lemma isRowMajorReshapeGatherD:
  assumes "isRowMajorReshapeGather (RankedTensor (map int ds) e) (RankedTensor (map int ns) ie) ty b' vs"
    and "b = nat b'" and "length vs = prod_list ns"
  obtains ps n where "ns = ps @ [n]" "b \<le> length ps" "b + n = length ds" "ty = RankedTensor (map int ps) e" "prod_list ps = prod_list ds" "0 < n"
    "\<And>k. k < prod_list ps \<Longrightarrow> flat_offset (map (\<lambda>axis. (map int ds ! nat axis,
        row_major_coordinate (map int ds) (map int (ps @ [n])) (int b) (int n) vs (int k) axis)) [0..int (length ds) - 1]) 0 = Some (int k)"
proof -
  obtain rs re where ty: "ty = RankedTensor rs re" using assms(1) by (auto simp: isRowMajorReshapeGather_def split: mtype.splits)
  note row = assms(1) [unfolded ty isRowMajorReshapeGather_def Let_def, simplified]
  have rk: "gather_nd_ranks_ok (map int ds) (map int ns) rs b'" and re: "re = e" using row by (auto split: if_splits)
  then have b: "b' = int b" "b \<le> length ns - 1" "ns \<noteq> []" using assms(2) by (auto simp: gather_nd_ranks_ok_def Let_def)
  define ps n where "ps = butlast ns" and "n = last ns"
  have ns: "ns = ps @ [n]" using b(3) by (simp add: ps_def n_def)
  have pos: "0 < n" using row ns by (auto split: if_splits)
  have bn: "int b + int n = int (length ds)" and rs: "map int ps = rs"
    using row by (auto simp: ns b(1) split: if_splits)
  have cnt: "cdiv (getNumElements (map int ps @ [int n])) (int n) = int (prod_list ps)"
    using pos getNumElements_map_int [of "ps @ [n]"] by (simp add: cdiv_nonneg)
  have p: "int (prod_list ps) = int (prod_list ds)" and all: "list_all (\<lambda>tuple. flat_offset (map (\<lambda>axis. (map int ds ! nat axis,
        row_major_coordinate (map int ds) (map int (ps @ [n])) (int b) (int n) vs tuple axis)) [0..int (length ds) - 1]) 0 = Some tuple)
        [0..int (prod_list ps) - 1]"
    using row cnt by (auto simp: ns b(1) split: if_splits)
  show ?thesis
    by (rule that [of ps n]) (use ns b bn pos p all rs re ty in \<open>simp_all add: list_all_iff\<close>)
qed

text \<open>
  C11: when the GatherND pattern succeeds, the created value represents the ONNX operator with its batch
  dimensions on the logical operand: for constant indices, which are checked and completed to full coordinates
  or recognised as a row-major reshape, and for runtime indices of at most four axes in range, whose
  normalisation and batch prefix are computed by the created operations. The hypotheses exclude two cases that the pattern
  accepts and gets wrong: a row-major gather whose rank-4 f32 data or result has equal channel, row and column counts, which the
  pattern takes for logical order (\<open>cube_gather_wrong\<close>), and runtime indices of rank 5 (\<open>flat_indices_no_broadcast\<close>).
\<close>

theorem lower_gather_nd_correct:
  assumes sem: "tfl_gather_nd sem" "tfl_index sem ltf addf conv" "tfl_assembly sem"
    and low: "lower_gather_nd op = Inr v"
    and t: "conforms (oty (gn_data op)) t" "env 0 = phys (oty (gn_data op)) t"
    and ix: "conforms (oty (gn_indices op)) ix" "i32_dims (tshape ix)" and b: "b = nat (gn_batch_dims op)"
    and vals: "case getConstantIntValues (gn_indices op) of
        Some vs \<Rightarrow> tdata ix = vs \<and> (isRowMajorReshapeGather (oty (gn_data op)) (oty (gn_indices op)) (gn_result op) (gn_batch_dims op) vs \<longrightarrow>
          layout_visible (oty (gn_data op)) \<and> layout_visible (gn_result op))
      | None \<Rightarrow> env 1 = tmap IV ix \<and> trank ix \<le> 4 \<and> nd_indices_in b (tshape t) ix"
  shows "represents sem env v (gn_result op) (onnx_gather_nd b t ix)"
proof -
  let ?ity = "oty (gn_data op)" and ?ty = "gn_result op" and ?ds = "tshape t" and ?in = "adaptor 0 (gn_data op)"
  obtain e where ity: "?ity = RankedTensor (map int ?ds) e" using t(1) by (auto simp: conforms_def)
  obtain ie where nty: "oty (gn_indices op) = RankedTensor (map int (tshape ix)) ie" and wi: "wf_tensor ix" using ix by (auto simp: conforms_def)
  obtain rs re where ty: "?ty = RankedTensor rs re" using low by (auto simp: lower_gather_nd_def ity nty Let_def split: mtype.splits)
  let ?row = "case getConstantIntValues (gn_indices op) of
      Some vs \<Rightarrow> isRowMajorReshapeGather ?ity (oty (gn_indices op)) ?ty (gn_batch_dims op) vs | None \<Rightarrow> False"
  show ?thesis
  proof (cases ?row)
    case True
    then obtain vs where vs: "getConstantIntValues (gn_indices op) = Some vs"
      and row: "isRowMajorReshapeGather ?ity (oty (gn_indices op)) ?ty (gn_batch_dims op) vs" by (auto split: option.splits)
    then have vx: "tdata ix = vs" and vis: "layout_visible ?ity" "layout_visible ?ty" using vals by simp_all
    then have "length vs = prod_list (tshape ix)" using wi by (simp add: wf_tensor_def)
    from isRowMajorReshapeGatherD [OF row [unfolded ity nty] b this] obtain ps n where d: "tshape ix = ps @ [n]" "b \<le> length ps" "b + n = trank t"
      "?ty = RankedTensor (map int ps) e" "prod_list ps = prod_list ?ds" "0 < n"
      and flat: "\<And>k. k < prod_list ps \<Longrightarrow> flat_offset (map (\<lambda>axis. (map int ?ds ! nat axis,
        row_major_coordinate (map int ?ds) (map int (ps @ [n])) (int b) (int n) vs (int k) axis)) [0..int (trank t) - 1]) 0 = Some (int k)"
      by blast
    have wt: "wf_tensor t" using t(1) by (rule conforms_wf)
    have eq: "onnx_gather_nd b t ix = treshape ps t"
      using row_major_tuple [OF d(1) wi d(2,3)] flat vx by (intro row_major_gather [OF d(1) wt d(2,3,5)]) simp_all
    have lay: "tfl_layout sem" using sem(3) by (simp add: tfl_assembly_def tfl_slicing_def)
    let ?l = "if physical4 ?ity then restoreLogicalRank4 ?ity ?in else ?in"
    have v: "v = (if physical4 ?ty then toPhysicalRank4 ?ty (emitReshape ?ty (map int ps) ?l) else emitReshape ?ty (map int ps) ?l)"
      using low True vis d(4) convert_id [of ?ity] convert_id [of ?ty]
      by (auto simp: lower_gather_nd_def ity nty ty emit_reshape_gather_def layout_visible_def Let_def split: if_splits)
    have "eval sem env ?l = t" using tfl_layout.eval_logical_operand [OF lay t(1)] t(2) by simp
    then have "eval sem env (emitReshape ?ty (map int ps) ?l) = treshape ps t"
      using wt d ix(2) by (intro tfl_layout.eval_emitReshape [OF lay]) (simp_all add: i32_dims_def)
    then show ?thesis
      unfolding v eq using wt d(4,5) by (intro tfl_layout.represents_physical_result [OF lay]) (simp_all add: conforms_Ranked wf_treshape)
  next
    case False
    then have rk: "gather_nd_ranks_ok (map int ?ds) (map int (tshape ix)) rs (gn_batch_dims op)"
      using low by (auto simp: lower_gather_nd_def ity nty ty Let_def split: if_splits)
    then have bb: "gn_batch_dims op = int b" "b \<le> trank ix - 1" "tshape ix \<noteq> []" using b by (auto simp: gather_nd_ranks_ok_def Let_def)
    define ps n where "ps = butlast (tshape ix)" and "n = last (tshape ix)"
    have sh: "tshape ix = ps @ [n]" using bb(3) by (simp add: ps_def n_def)
    have cnt: "cdiv (getNumElements (map int ps @ [int n])) (int n) = int (prod_list ps)" if "0 < n"
      using that getNumElements_map_int [of "ps @ [n]"] by (simp add: cdiv_nonneg)
    have ds: "\<forall>d\<in>set ?ds. \<not> (int d \<le> 0 \<or> int32_max < int d)" and n: "0 < n" "b + n \<le> trank t"
      and tk: "take b (map int (ps @ [n])) = take b (map int ?ds)" and rs: "rs = map int ps @ drop (b + n) (map int ?ds)"
      using low False [unfolded bb(1)] by (auto simp: lower_gather_nd_def ity nty ty sh bb(1) nat_add_distrib Let_def split: if_splits)
    have bp: "b \<le> length ps" using bb(2) sh by simp
    have i32: "i32_dims ?ds" "i32_dims ps" using ds ix(2) by (auto simp: i32_dims_def int32_max_def sh)
    have "take b (map int ps) = take b (map int ?ds)" using tk bp by simp
    then have tk': "take b ps = take b ?ds" by (simp add: take_map inj_map_eq_map)
    have main: "represents sem env (emit_gather_nd ?ity ?ty ?in cv) ?ty (onnx_gather_nd b t ix)"
      if cv: "eval sem env cv = tmap (\<lambda>i. IV (int i)) (nd_tensor b ?ds ix)" and rng: "nd_indices_in b ?ds ix" for cv
    proof -
      have ok: "coordinates_ok ?ds (nd_tensor b ?ds ix)" using sh bp tk' n(2) rng by (rule coordinates_ok_nd)
      have eq: "tgather_nd t (nd_tensor b ?ds ix) = onnx_gather_nd b t ix" using bp sh by (intro tgather_nd_tensor) simp
      have "conforms ?ty (onnx_gather_nd b t ix)"
        by (simp add: ty rs conforms_Ranked onnx_gather_nd_def sh ixdepth_def drop_map)
      then show ?thesis using tfl_gather_nd.represents_emit_gather_nd [OF sem(1) t(1) _ ok cv, of ?in] t(2) by (simp add: eq)
    qed
    show ?thesis
    proof (cases "getConstantIntValues (gn_indices op)")
      case None
      have v: "v = emit_gather_nd ?ity ?ty ?in (nd_runtime (map int ?ds) (map int (ps @ [n])) ie (int b) (adaptor 1 (gn_indices op)))"
        using low None by (auto simp: lower_gather_nd_def ity nty ty sh bb(1) Let_def split: if_splits)
      have "eval sem env (adaptor 1 (gn_indices op)) = tmap IV ix" and "trank ix \<le> 4" and rng: "nd_indices_in b ?ds ix" using vals None by simp_all
      then show ?thesis unfolding v
        using tfl_index.eval_nd_runtime [OF sem(2,3) sh _ wi n(1) _ bp n(2) i32 rng] main rng by blast
    next
      case (Some vs)
      then have vx: "tdata ix = vs" using vals by simp
      then have lv: "int (length vs) = getNumElements (map int ps @ [int n])"
        using wi getNumElements_map_int [of "ps @ [n]"] by (simp add: wf_tensor_def sh)
      obtain cs where cs: "nd_coordinates (map int ?ds) (map int ps) (int b) (int n) vs (map int [0..<prod_list ps]) = Inr cs"
        and v: "v = emit_gather_nd ?ity ?ty ?in (ConstI (RankedTensor (map int (ps @ [b + n])) I32) cs)"
        using low Some False [unfolded bb(1)] lv n(1) cnt
        by (auto simp: lower_gather_nd_def ity nty ty sh bb(1) Let_def int_upto bind_result_Inr_iff split: if_splits)
      note co = nd_coordinates_ok [OF cs _ n(2) i32]
      have "cs = map int (tdata (nd_tensor b ?ds ix))"
        using co by (simp add: tdata_nd_tensor [OF sh bp] vx map_concat comp_def)
      then have "eval sem env (ConstI (RankedTensor (map int (ps @ [b + n])) I32) cs) = tmap (\<lambda>i. IV (int i)) (nd_tensor b ?ds ix)"
        by (simp add: tmap_def sh ixdepth_def)
      moreover have "nd_indices_in b ?ds ix" using co vx by (intro nd_indices_in_tuples [OF sh]) simp
      ultimately show ?thesis unfolding v by (intro main)
    qed
  qed
qed

definition gather_nd_example :: "int gather_nd_op" where
  "gather_nd_example = \<lparr>gn_data = \<lparr>oty = RankedTensor [1, 2, 2, 3] F32, oattr = None\<rparr>,
     gn_indices = \<lparr>oty = RankedTensor [1, 2, 2] I64, oattr = Some (IntElements I64 [1, -1, 0, 1])\<rparr>,
     gn_batch_dims = 1, gn_result = RankedTensor [1, 2, 3] F32\<rparr>"

theorem lower_gather_nd_correct_witness:
  "\<exists>v. lower_gather_nd gather_nd_example = Inr v \<and>
     represents reference_sem (\<lambda>_. ttranspose to_nhwc nchw_example) v (gn_result gather_nd_example)
       (onnx_gather_nd 1 nchw_example (Tensor [1, 2, 2] [1, -1, 0, 1]))"
proof -
  have "\<not> failed (lower_gather_nd gather_nd_example)" by code_simp
  then obtain v where low: "lower_gather_nd gather_nd_example = Inr v" by (rule not_failedE)
  let ?ix = "Tensor [1, 2, 2] [1, -1, 0, 1 :: int]" and ?env = "\<lambda>_ :: nat. ttranspose to_nhwc nchw_example"
  have c: "getConstantIntValues (gn_indices gather_nd_example) = Some [1, -1, 0, 1]" by code_simp
  have r: "\<not> isRowMajorReshapeGather (oty (gn_data gather_nd_example)) (oty (gn_indices gather_nd_example))
      (gn_result gather_nd_example) (gn_batch_dims gather_nd_example) [1, -1, 0, 1]" by code_simp
  have "represents reference_sem ?env v (gn_result gather_nd_example) (onnx_gather_nd 1 nchw_example ?ix)"
  proof (rule lower_gather_nd_correct [OF reference_gather_nd.tfl_gather_nd_axioms reference_index.tfl_index_axioms
        reference.tfl_assembly_axioms low])
    show "conforms (oty (gn_data gather_nd_example)) nchw_example" "?env 0 = phys (oty (gn_data gather_nd_example)) nchw_example"
      "1 = nat (gn_batch_dims gather_nd_example)"
      by (simp_all add: gather_nd_example_def example_simps)
    show "conforms (oty (gn_indices gather_nd_example)) ?ix" "i32_dims (tshape ?ix)"
      by (simp_all add: gather_nd_example_def conforms_Ranked wf_tensor_def i32_dims_def)
  qed (simp add: c r)
  with low show ?thesis by blast
qed

text \<open>
  The two branches the theorem leaves out. A rank-4 operand whose channel, height and width agree keeps its type
  under the layout change, so the row-major branch reshapes the NHWC data. And runtime indices of five axes are
  flattened before the vector of the dimensions is added, which then has no broadcast.
\<close>

definition cube_gather :: "int gather_nd_op" where
  "cube_gather = \<lparr>gn_data = \<lparr>oty = RankedTensor [1, 2, 2, 2] F32, oattr = None\<rparr>,
     gn_indices = \<lparr>oty = RankedTensor [8, 4] I64, oattr = Some (IntElements I64
       [0,0,0,0, 0,0,0,1, 0,0,1,0, 0,0,1,1, 0,1,0,0, 0,1,0,1, 0,1,1,0, 0,1,1,1])\<rparr>,
     gn_batch_dims = 0, gn_result = RankedTensor [8] F32\<rparr>"

lemma cube_gather_lowered:
  "lower_gather_nd cube_gather = Inr (emitReshape (RankedTensor [8] F32) [8] (adaptor 0 (gn_data cube_gather)))"
  by code_simp

lemma cube_gather_wrong:
  "tdata (eval reference_sem (\<lambda>_. ttranspose to_nhwc (Tensor [1, 2, 2, 2] (map FV [0..7])))
     (emitReshape (RankedTensor [8] F32) [8] (adaptor 0 (gn_data cube_gather)))) = map FV [0, 4, 1, 5, 2, 6, 3, 7]"
  by code_simp

lemma cube_gather_expected:
  "tdata (onnx_gather_nd 0 (Tensor [1, 2, 2, 2] (map FV [0..7])) (Tensor [8, 4]
     [0,0,0,0, 0,0,0,1, 0,0,1,0, 0,0,1,1, 0,1,0,0, 0,1,0,1, 0,1,1,0, 0,1,1,1])) = map FV [0, 1, 2, 3, 4, 5, 6, 7]"
  by code_simp

lemma flat_indices_no_broadcast: "1 < m \<Longrightarrow> 1 < n \<Longrightarrow> \<not> bcast_compat [m * n] [n]"
  by (simp add: bcast_compat_def pad_left_def Let_def)

end
