(* ===== verification/Lower_Scatter.thy ===== *)
theory Lower_Scatter
  imports Lower_GatherND
begin

text \<open>
  \<^verbatim>\<open>Tensor/ScatterElements.cpp\<close> and \<^verbatim>\<open>Tensor/ScatterND.cpp\<close>. TensorFlow Lite only has a scatter that adds into
  zeros, so the patterns scatter the differences to the old values and add the result to the data. On exact
  arithmetic that is the ONNX operator; what it needs of the arithmetic is the locale \<open>exact_arith\<close>.
\<close>

section \<open>Definitions\<close>

record 'f scatter_elements_op =
  se_data :: "'f operand"
  se_indices :: "'f operand"
  se_updates :: "'f operand"
  se_axis :: int
  se_reduction :: string
  se_result :: mtype

text \<open>The guards on the four types that every scatter pattern starts with.\<close>

definition scatter_types_ok :: "'f operand \<Rightarrow> 'f operand \<Rightarrow> 'f operand \<Rightarrow> mtype \<Rightarrow> bool" where
  "scatter_types_ok data indices updates resultType =
     (case (oty data, oty indices, oty updates, resultType) of
        (RankedTensor dataShape de, RankedTensor indicesShape ie, RankedTensor updatesShape ue, RankedTensor resultShape re) \<Rightarrow>
          hasStaticShape dataShape \<and> hasStaticShape indicesShape \<and> hasStaticShape updatesShape \<and> hasStaticShape resultShape \<and>
          \<not> failed (validateStaticF32Tensor (vtype (adaptor 0 data))) \<and>
          \<not> failed (validateStaticF32Tensor (vtype (adaptor 2 updates))) \<and>
          \<not> failed (validateStaticF32Tensor resultType)
      | _ \<Rightarrow> False)"

definition restore_rank4 :: "mtype \<Rightarrow> 'f val \<Rightarrow> 'f val" where
  "restore_rank4 sourceType v =
     (case sourceType of RankedTensor sh _ \<Rightarrow> if getRank sh = 4 then restoreLogicalRank4 sourceType v else v | _ \<Rightarrow> v)"

definition scatter_result :: "mtype \<Rightarrow> mtype \<Rightarrow> int list \<Rightarrow> 'f val \<Rightarrow> 'f val \<Rightarrow> 'f val \<Rightarrow> 'f val" where
  "scatter_result dataType resultType dataShape data coordinates deltas =
     (let shape = createI32ShapeConstant dataShape;
          sparseDeltas = createTFLOperation ''tfl.scatter_nd'' [dataType] [coordinates, deltas, shape] [] 0;
          res = createTFLOperation ''tfl.add'' [resultType] [data, sparseDeltas] [getFusedActivationNone] 0 in
      if getRank dataShape = 4 then toPhysicalRank4 resultType res else res)"

definition identity_indices :: "int list \<Rightarrow> int \<Rightarrow> int list \<Rightarrow> bool" where
  "identity_indices shape axis indexValues \<longleftrightarrow>
     list_all (\<lambda>flatIndex.
       let index = indexValues ! nat flatIndex;
           index' = (if index < 0 then index + shape ! nat axis else index) in
       index' = output_position shape flatIndex ! nat axis) [0..getNumElements shape - 1]"

definition lower_scatter_elements_identity :: "'f scatter_elements_op \<Rightarrow> 'f val result" where
  "lower_scatter_elements_identity op =
     (if \<not> scatter_types_ok (se_data op) (se_indices op) (se_updates op) (se_result op) then Inl BadTypes
      else case (oty (se_data op), oty (se_indices op), oty (se_updates op), se_result op) of
        (RankedTensor dataShape de, RankedTensor indicesShape ie, RankedTensor updatesShape ue, RankedTensor resultShape re) \<Rightarrow>
          let rank = getRank dataShape in
          if rank < 1 \<or> 5 < rank \<or> getRank indicesShape \<noteq> rank \<or> getRank updatesShape \<noteq> rank \<or> getRank resultShape \<noteq> rank \<or>
             \<not> isIntOrIndex ie \<or> dataShape \<noteq> indicesShape \<or> dataShape \<noteq> updatesShape \<or> dataShape \<noteq> resultShape then Inl BadTypes
          else if se_reduction op \<noteq> ''none'' then Inl BadReduction
          else
            let axis = normalizeAxis (se_axis op) rank in
            if axis < 0 \<or> rank \<le> axis then Inl BadAxis
            else (case getConstantIntValues (se_indices op) of
                None \<Rightarrow> Inl NonConstant
              | Some indexValues \<Rightarrow>
                  if int (length indexValues) \<noteq> getNumElements dataShape then Inl CountMismatch
                  else if \<not> identity_indices dataShape axis indexValues then Inl NoMatch
                  else Inr (adaptor 2 (se_updates op)))
      | _ \<Rightarrow> Inl BadTypes)"

definition lower_scatter_elements_general :: "'f scatter_elements_op \<Rightarrow> 'f val result" where
  "lower_scatter_elements_general op =
     (if \<not> scatter_types_ok (se_data op) (se_indices op) (se_updates op) (se_result op) then Inl BadTypes
      else case (oty (se_data op), oty (se_indices op), oty (se_updates op), se_result op) of
        (RankedTensor dataShape de, RankedTensor indicesShape ie, RankedTensor updatesShape ue, RankedTensor resultShape re) \<Rightarrow>
          let rank = getRank dataShape in
          if rank < 1 \<or> 5 < rank \<or> getRank indicesShape \<noteq> rank \<or> getRank updatesShape \<noteq> rank \<or> getRank resultShape \<noteq> rank \<or>
             (\<not> isSignlessInteger 32 ie \<and> \<not> isSignlessInteger 64 ie) \<or>
             indicesShape \<noteq> updatesShape \<or> dataShape \<noteq> resultShape \<or> de \<noteq> ue then Inl BadTypes
          else
            let additiveReduction = (se_reduction op = ''add'') in
            if se_reduction op \<noteq> ''none'' \<and> \<not> additiveReduction then Inl BadReduction
            else
              let axis = normalizeAxis (se_axis op) rank in
              if axis < 0 \<or> rank \<le> axis then Inl BadAxis
              else if \<not> elements_dims_ok axis dataShape indicesShape then Inl SizeOutOfRange
              else if cdiv int32_max rank < getNumElements indicesShape then Inl TooLarge
              else
                let runtimeIndices = runtime_indices indicesShape ie (dataShape ! nat axis) (adaptor 1 (se_indices op));
                    coordinates = concat_coordinates indicesShape axis runtimeIndices;
                    data = restore_rank4 (oty (se_data op)) (adaptor 0 (se_data op));
                    updates = restore_rank4 (oty (se_updates op)) (adaptor 2 (se_updates op));
                    oldValues = createTFLOperation ''tfl.gather_nd'' [oty (se_updates op)] [data, coordinates] [] 0;
                    deltas = (if additiveReduction then updates
                      else createTFLOperation ''tfl.sub'' [oty (se_updates op)] [updates, oldValues] [getFusedActivationNone] 0) in
                Inr (scatter_result (oty (se_data op)) (se_result op) dataShape data coordinates deltas)
      | _ \<Rightarrow> Inl BadTypes)"

text \<open>The identity pattern has the higher benefit, so the driver tries it first.\<close>

definition lower_scatter_elements :: "'f scatter_elements_op \<Rightarrow> 'f val result" where
  "lower_scatter_elements op =
     (case lower_scatter_elements_identity op of Inr v \<Rightarrow> Inr v | Inl _ \<Rightarrow> lower_scatter_elements_general op)"

record 'f scatter_nd_op =
  sn_data :: "'f operand"
  sn_indices :: "'f operand"
  sn_updates :: "'f operand"
  sn_reduction :: string
  sn_result :: mtype

fun scatter_tuple :: "int list \<Rightarrow> int list \<Rightarrow> int \<Rightarrow> (int list \<times> int) result" where
  "scatter_tuple (dimension # dimensions) (index # indices) key =
     (let index' = (if index < 0 then index + dimension else index) in
      if index' < 0 \<or> dimension \<le> index' then Inl OutOfBounds
      else if cdiv (int64_max - index') dimension < key then Inl TooLarge
      else bind_result (scatter_tuple dimensions indices (key * dimension + index'))
        (\<lambda>(rest, key'). Inr (i32 index' # rest, key')))"
| "scatter_tuple _ _ key = Inr ([], key)"

fun scatter_tuples :: "int list \<Rightarrow> int \<Rightarrow> int list \<Rightarrow> int list \<Rightarrow> int list \<Rightarrow> int list result" where
  "scatter_tuples dataShape indexDepth indexValues coordinateKeys [] = Inr []"
| "scatter_tuples dataShape indexDepth indexValues coordinateKeys (tuple # tuples) =
     bind_result (scatter_tuple (take (nat indexDepth) dataShape) (tuple_indices indexDepth indexValues tuple) 0)
       (\<lambda>(normalized, key).
          if key \<in> set coordinateKeys then Inl Duplicate
          else bind_result (scatter_tuples dataShape indexDepth indexValues (key # coordinateKeys) tuples)
            (\<lambda>rest. Inr (normalized @ rest)))"

definition scatter_replacements :: "string \<Rightarrow> mtype \<Rightarrow> 'f val \<Rightarrow> 'f val \<Rightarrow> 'f val" where
  "scatter_replacements reduction ty oldValues updates =
     (if reduction = ''none'' then updates
      else createTFLOperation
        (if reduction = ''add'' then ''tfl.add'' else if reduction = ''mul'' then ''tfl.mul''
         else if reduction = ''max'' then ''tfl.maximum'' else ''tfl.minimum'')
        [ty] [oldValues, updates]
        (if reduction = ''add'' \<or> reduction = ''mul'' then [getFusedActivationNone] else []) 0)"

definition emit_scatter_nd :: "'f scatter_nd_op \<Rightarrow> int list \<Rightarrow> int list \<Rightarrow> elt \<Rightarrow> int \<Rightarrow> int \<Rightarrow> int list \<Rightarrow> 'f val" where
  "emit_scatter_nd op dataShape indicesShape ue tupleCount indexDepth normalized =
     (let flattenCoordinates = 5 < getRank indicesShape;
          coordinates = ConstI (RankedTensor (if flattenCoordinates then [tupleCount, indexDepth] else indicesShape) I32) normalized;
          data = restore_rank4 (oty (sn_data op)) (adaptor 0 (sn_data op));
          updates = restore_rank4 (oty (sn_updates op)) (adaptor 2 (sn_updates op));
          flatShape = tupleCount # drop (nat indexDepth) dataShape;
          ty = (if flattenCoordinates then RankedTensor flatShape ue else oty (sn_updates op));
          updates' = (if flattenCoordinates then emitReshape ty flatShape updates else updates);
          oldValues = createTFLOperation ''tfl.gather_nd'' [ty] [data, coordinates] [] 0;
          replacements = scatter_replacements (sn_reduction op) ty oldValues updates';
          deltas = createTFLOperation ''tfl.sub'' [ty] [replacements, oldValues] [getFusedActivationNone] 0 in
      scatter_result (oty (sn_data op)) (sn_result op) dataShape data coordinates deltas)"

definition lower_scatter_nd :: "'f scatter_nd_op \<Rightarrow> 'f val result" where
  "lower_scatter_nd op =
     (if \<not> scatter_types_ok (sn_data op) (sn_indices op) (sn_updates op) (sn_result op) then Inl BadTypes
      else case (oty (sn_data op), oty (sn_indices op), oty (sn_updates op), sn_result op) of
        (RankedTensor dataShape de, RankedTensor indicesShape ie, RankedTensor updatesShape ue, RankedTensor resultShape re) \<Rightarrow>
          let dataRank = getRank dataShape; indicesRank = getRank indicesShape; updatesRank = getRank updatesShape in
          if dataRank < 1 \<or> 5 < dataRank \<or> indicesRank < 1 \<or> 6 < indicesRank \<or> updatesRank < 1 \<or> 5 < updatesRank \<or>
             resultShape \<noteq> dataShape \<or> de \<noteq> ue \<or> de \<noteq> re \<or> (\<not> isSignlessInteger 32 ie \<and> \<not> isSignlessInteger 64 ie) then Inl BadTypes
          else
            let reduction = sn_reduction op in
            if reduction \<notin> {''none'', ''add'', ''mul'', ''max'', ''min''} then Inl BadReduction
            else
              let indexDepth = last indicesShape in
              if indexDepth < 1 \<or> dataRank < indexDepth then Inl BadAxis
              else if updatesShape \<noteq> butlast indicesShape @ drop (nat indexDepth) dataShape then Inl ShapeMismatch
              else if \<exists>dimension\<in>set dataShape. dimension \<le> 0 \<or> int32_max < dimension then Inl SizeOutOfRange
              else if \<exists>dimension\<in>set indicesShape. dimension \<le> 0 \<or> int32_max < dimension then Inl SizeOutOfRange
              else (case getConstantIntValues (sn_indices op) of
                  None \<Rightarrow> Inl NonConstant
                | Some indexValues \<Rightarrow>
                    if int (length indexValues) \<noteq> getNumElements indicesShape then Inl NonConstant
                    else
                      let tupleCount = cdiv (getNumElements indicesShape) indexDepth in
                      bind_result (scatter_tuples dataShape indexDepth indexValues [] [0..tupleCount - 1])
                        (\<lambda>normalized. Inr (emit_scatter_nd op dataShape indicesShape ue tupleCount indexDepth normalized)))
      | _ \<Rightarrow> Inl BadTypes)"

section \<open>What ONNX defines\<close>

text \<open>
  The updates that reach a position, in row-major order, folded into the old value. \<open>f old u\<close> is \<open>u\<close> for the
  reduction \<^verbatim>\<open>none\<close>.
\<close>

definition onnx_scatter_elements :: "nat \<Rightarrow> ('a \<Rightarrow> 'a \<Rightarrow> 'a) \<Rightarrow> 'a tensor \<Rightarrow> int tensor \<Rightarrow> 'a tensor \<Rightarrow> 'a tensor" where
  "onnx_scatter_elements a f t ix u =
     tgen (tshape t) (\<lambda>is. foldl f (tnth t is) (map (tnth u)
       (filter (\<lambda>js. js[a := nat (nonneg_index (tshape t ! a) (tnth ix js))] = is) (all_ix (tshape ix)))))"

definition onnx_scatter_nd :: "('a \<Rightarrow> 'a \<Rightarrow> 'a) \<Rightarrow> 'a tensor \<Rightarrow> int tensor \<Rightarrow> 'a tensor \<Rightarrow> 'a tensor" where
  "onnx_scatter_nd f t ix u =
     tgen (tshape t) (\<lambda>is. foldl f (tnth t is) (map (\<lambda>js. tnth u (js @ drop (ixdepth ix) is))
       (filter (\<lambda>js. nd_coordinate 0 (tshape t) ix js = take (ixdepth ix) is) (all_ix (butlast (tshape ix))))))"

definition unique_elements :: "nat \<Rightarrow> nat \<Rightarrow> int tensor \<Rightarrow> bool" where
  "unique_elements a d ix \<longleftrightarrow> inj_on (\<lambda>js. js[a := nat (nonneg_index d (tnth ix js))]) {js. valid_ix (tshape ix) js}"

section \<open>Scattering differences\<close>

text \<open>What the patterns need of the arithmetic: addition and subtraction do not round on the numbers they meet.\<close>

locale exact_arith =
  fixes addf subf :: "'s \<Rightarrow> 's \<Rightarrow> 's" and zero :: 's and num :: "'s \<Rightarrow> bool"
  assumes num_zero: "num zero"
    and num_add: "num x \<Longrightarrow> num y \<Longrightarrow> num (addf x y)"
    and add_assoc: "num x \<Longrightarrow> num y \<Longrightarrow> num z \<Longrightarrow> addf (addf x y) z = addf x (addf y z)"
    and add_zero: "num x \<Longrightarrow> addf x zero = x" and zero_add: "num x \<Longrightarrow> addf zero x = x"
    and num_sub: "num x \<Longrightarrow> num y \<Longrightarrow> num (subf y x)" and add_sub: "num x \<Longrightarrow> num y \<Longrightarrow> addf x (subf y x) = y"
begin

lemma foldl_add:
  "num x \<Longrightarrow> num y \<Longrightarrow> \<forall>u\<in>set us. num u \<Longrightarrow> addf x (foldl addf y us) = foldl addf (addf x y) us"
  by (induction us arbitrary: y) (simp_all add: num_add add_assoc)

lemma add_foldl_zero: "num x \<Longrightarrow> \<forall>u\<in>set us. num u \<Longrightarrow> addf x (foldl addf zero us) = foldl addf x us"
  using foldl_add [of x zero us] by (simp add: num_zero add_zero)

end

interpretation reference_exact: exact_arith "ref_arith (+)" "ref_arith (-)" "FV 0" is_float
  by unfold_locales (auto simp: is_float_def ref_arith_def int_of_def split: scalar.splits)

text \<open>The updates of a position when every coordinate occurs once.\<close>

definition unique_coordinates :: "nat tensor \<Rightarrow> bool" where
  "unique_coordinates cx \<longleftrightarrow> inj_on (coordinate cx) {js. valid_ix (butlast (tshape cx)) js}"

lemma filter_unique: "distinct xs \<Longrightarrow> y \<in> set xs \<Longrightarrow> \<forall>x\<in>set xs. P x \<longleftrightarrow> x = y \<Longrightarrow> filter P xs = [y]"
proof (induction xs)
  case (Cons x xs)
  show ?case
  proof (cases "x = y")
    case True
    then have "\<forall>z\<in>set xs. \<not> P z" using Cons.prems by auto
    then have "filter P xs = []" by (simp add: filter_empty_conv)
    with True Cons.prems show ?thesis by simp
  qed (use Cons in auto)
qed simp

lemma updates_at_unique:
  assumes "unique_coordinates cx" and js: "valid_ix (butlast (tshape cx)) js" "coordinate cx js = take (ixdepth cx) is"
  shows "updates_at cx u is = [tnth u (js @ drop (ixdepth cx) is)]"
proof -
  have "filter (\<lambda>ks. coordinate cx ks = take (ixdepth cx) is) (all_ix (butlast (tshape cx))) = [js]"
    using assms by (intro filter_unique) (auto simp: set_all_ix unique_coordinates_def inj_on_def)
  then show ?thesis by (simp add: updates_at_def)
qed

lemma updates_at_none:
  "(\<And>js. valid_ix (butlast (tshape cx)) js \<Longrightarrow> coordinate cx js \<noteq> take (ixdepth cx) is) \<Longrightarrow> updates_at cx u is = []"
  by (auto simp: updates_at_def filter_empty_conv set_all_ix)

lemma updates_at_mem:
  assumes "x \<in> set (updates_at cx u is)"
  obtains js where "valid_ix (butlast (tshape cx)) js" "coordinate cx js = take (ixdepth cx) is" "x = tnth u (js @ drop (ixdepth cx) is)"
  using assms by (auto simp: updates_at_def set_all_ix)

lemma tnth_mem: "wf_tensor t \<Longrightarrow> valid_ix (tshape t) is \<Longrightarrow> tnth t is \<in> set (tdata t)"
  using ravel_less [of "tshape t" "is"] by (simp add: tnth_def wf_tensor_def)

lemma valid_update_ix:
  assumes "valid_ix ds is" and "valid_ix ps js" shows "valid_ix (ps @ drop n ds) (js @ drop n is)"
  using assms by (auto simp: valid_ix_def intro!: list_all2_appendI)

lemma tnth_tgather_nd:
  assumes "valid_ix (butlast (tshape cx)) js" "coordinate cx js = take (ixdepth cx) is" "valid_ix (tshape t) is"
  shows "tnth (tgather_nd t cx) (js @ drop (ixdepth cx) is) = tnth t is"
  using assms valid_update_ix [OF assms(3,1), of "ixdepth cx"] valid_ix_length [OF assms(1)]
  by (simp add: tgather_nd_def)

context exact_arith
begin

text \<open>Replacing through differences.\<close>

lemma scatter_differences:
  assumes cx: "unique_coordinates cx" and t: "wf_tensor t" "\<forall>x\<in>set (tdata t). num x"
    and u: "wf_tensor u" "tshape u = butlast (tshape cx) @ drop (ixdepth cx) (tshape t)" "\<forall>x\<in>set (tdata u). num x"
    and f: "\<And>x y. num x \<Longrightarrow> num y \<Longrightarrow> num (f x y)"
  shows "tmap2 addf t (tscatter_nd addf cx (tmap2 subf (tmap2 f (tgather_nd t cx) u) (tgather_nd t cx)) (tconst (tshape t) zero)) =
    tscatter_nd f cx u t"
proof (rule tensor_eqI)
  let ?o = "tgather_nd t cx" let ?d = "tmap2 subf (tmap2 f ?o u) ?o"
  fix "is" assume "valid_ix (tshape (tscatter_nd f cx u t)) is"
  then have v: "valid_ix (tshape t) is" by simp
  then have nt: "num (tnth t is)" using t by (simp add: tnth_mem)
  have lhs: "tnth (tmap2 addf t (tscatter_nd addf cx ?d (tconst (tshape t) zero))) is =
      addf (tnth t is) (foldl addf zero (updates_at cx ?d is))"
    using v by (simp add: tmap2_bget bget_self) (simp add: tscatter_nd_def)
  show "tnth (tmap2 addf t (tscatter_nd addf cx ?d (tconst (tshape t) zero))) is = tnth (tscatter_nd f cx u t) is"
  proof (cases "\<exists>js. valid_ix (butlast (tshape cx)) js \<and> coordinate cx js = take (ixdepth cx) is")
    case True
    then obtain js where js: "valid_ix (butlast (tshape cx)) js" "coordinate cx js = take (ixdepth cx) is" by blast
    let ?k = "js @ drop (ixdepth cx) is"
    have k: "valid_ix (tshape u) ?k" unfolding u(2) using v js(1) by (rule valid_update_ix)
    then have nu: "num (tnth u ?k)" using u by (simp add: tnth_mem)
    have "tnth ?d ?k = subf (f (tnth t is) (tnth u ?k)) (tnth t is)"
      using k u(2) tnth_tgather_nd [OF js v] by (simp add: tmap2_bget bget_self)
    then show ?thesis
      unfolding lhs using v nt nu f by (simp add: updates_at_unique [OF cx js] tscatter_nd_def zero_add num_sub add_sub)
  next
    case False
    then have "updates_at cx u is = []" "updates_at cx ?d is = []" by (auto intro!: updates_at_none)
    then show ?thesis unfolding lhs using v nt by (simp add: tscatter_nd_def add_zero)
  qed
qed (simp_all add: tmap2_bget)

text \<open>Accumulating.\<close>

lemma scatter_sum:
  assumes t: "wf_tensor t" "\<forall>x\<in>set (tdata t). num x"
    and u: "wf_tensor u" "tshape u = butlast (tshape cx) @ drop (ixdepth cx) (tshape t)" "\<forall>x\<in>set (tdata u). num x"
  shows "tmap2 addf t (tscatter_nd addf cx u (tconst (tshape t) zero)) = tscatter_nd addf cx u t"
proof (rule tensor_eqI)
  fix "is" assume "valid_ix (tshape (tscatter_nd addf cx u t)) is"
  then have v: "valid_ix (tshape t) is" by simp
  have "\<forall>x\<in>set (updates_at cx u is). num x"
    using u valid_update_ix [OF v] by (auto elim!: updates_at_mem intro!: tnth_mem)
  then show "tnth (tmap2 addf t (tscatter_nd addf cx u (tconst (tshape t) zero))) is = tnth (tscatter_nd addf cx u t) is"
    using v t by (simp add: tmap2_bget bget_self tscatter_nd_def add_foldl_zero tnth_mem)
qed (simp_all add: tmap2_bget)

end

section \<open>The created operations\<close>

locale tfl_scatter =
  gn: tfl_gather_nd sem +
  sn: tfl_scatter_nd sem addf zero +
  ad: tfl_binary sem "''tfl.add''" "[getFusedActivationNone]" addf 5 +
  sb: tfl_binary sem "''tfl.sub''" "[getFusedActivationNone]" subf 5
  for sem :: "'f sem" and addf subf zero
begin

lemma represents_scatter_result:
  assumes t: "conforms ty t" "trank t \<le> 5" "i32_dims (tshape t)" "physical4 ty \<longleftrightarrow> trank t = 4" "eval sem env d = t"
    and cx: "coordinates_ok (tshape t) cx" "eval sem env cv = tmap (\<lambda>i. IV (int i)) cx"
    and u: "wf_tensor u" "tshape u = butlast (tshape cx) @ drop (ixdepth cx) (tshape t)" "eval sem env uv = u"
  shows "represents sem env (scatter_result ty ty (map int (tshape t)) d cv uv) ty
    (tmap2 addf t (tscatter_nd addf cx u (tconst (tshape t) zero)))"
proof -
  let ?s = "tscatter_nd addf cx u (tconst (tshape t) zero)" and ?shape = "createI32ShapeConstant (map int (tshape t))"
  let ?sp = "createTFLOperation ''tfl.scatter_nd'' [ty] [cv, uv, ?shape] [] 0"
  have ws: "conforms ty ?s" "conforms ty (tmap2 addf t ?s)" using t(1) by (auto simp: conforms_def tmap2_bget split: mtype.splits)
  have "eval sem env ?shape = i32_vec (map int (tshape t))" by (simp only: eval_createI32ShapeConstant map_i32_dims [OF t(3)])
  moreover have "sem ''tfl.scatter_nd'' [] [ty] [tmap (\<lambda>i. IV (int i)) cx, u, i32_vec (map int (tshape t))] = [?s]"
    using u(1) cx(1) u(2) by (rule sn.scatter_nd) (use ws in simp)
  ultimately have sp: "eval sem env ?sp = ?s" using cx(2) u(3) by simp
  have "eval sem env (createTFLOperation ''tfl.add'' [ty] [d, ?sp] [getFusedActivationNone] 0) = tmap2 addf t ?s"
    using t ws sp conforms_wf [OF t(1)] by (intro ad.eval_direct) simp_all
  then have "represents sem env (if physical4 ty then toPhysicalRank4 ty (createTFLOperation ''tfl.add'' [ty] [d, ?sp] [getFusedActivationNone] 0)
      else createTFLOperation ''tfl.add'' [ty] [d, ?sp] [getFusedActivationNone] 0) ty (tmap2 addf t ?s)"
    by (intro gn.represents_physical_result [OF ws(2)]) simp_all
  then show ?thesis using t(4) by (simp add: scatter_result_def Let_def)
qed

lemma eval_old_values:
  assumes "wf_tensor t" "eval sem env d = t" "coordinates_ok (tshape t) cx" "eval sem env cv = tmap (\<lambda>i. IV (int i)) cx"
    and "conforms ty (tgather_nd t cx)"
  shows "eval sem env (createTFLOperation ''tfl.gather_nd'' [ty] [d, cv] [] 0) = tgather_nd t cx"
  using assms gn.gather_nd [of t cx "[ty]"] by simp

lemma eval_difference:
  assumes "wf_tensor x" "wf_tensor y" "tshape x = tshape y" "trank x \<le> 5" "eval sem env a = x" "eval sem env b = y" "conforms ty x"
  shows "eval sem env (createTFLOperation ''tfl.sub'' [ty] [a, b] [getFusedActivationNone] 0) = tmap2 subf x y"
  using assms by (intro sb.eval_direct) (auto simp: conforms_def tmap2_bget split: mtype.splits)

lemma eval_restore_rank4:
  assumes "conforms ty t" "eval sem env v = phys ty t" "physical4 ty \<longleftrightarrow> trank t = 4"
  shows "eval sem env (restore_rank4 ty v) = t"
proof -
  obtain e where "ty = RankedTensor (map int (tshape t)) e" using assms(1) by (auto simp: conforms_def split: mtype.splits)
  then have "restore_rank4 ty v = (if physical4 ty then restoreLogicalRank4 ty v else v)" using assms(3) by (simp add: restore_rank4_def)
  then show ?thesis using gn.eval_logical_operand [OF assms(1,2)] by simp
qed

end

interpretation reference_scatter: tfl_scatter reference_sem "ref_arith (+)" "ref_arith (-)" "FV 0"
  by unfold_locales

section \<open>ScatterElements\<close>

lemma onnx_scatter_elements_eq:
  assumes "trank ix = trank t" "wf_tensor ix"
  shows "tscatter_nd f (axis_coordinates a (tmap (\<lambda>i. nat (nonneg_index (tshape t ! a) i)) ix)) u t = onnx_scatter_elements a f t ix u"
  unfolding tscatter_nd_def onnx_scatter_elements_def
proof (rule tgen_cong)
  fix "is" assume v: "valid_ix (tshape t) is"
  let ?m = "tmap (\<lambda>i. nat (nonneg_index (tshape t ! a) i)) ix"
  have "filter (\<lambda>js. coordinate (axis_coordinates a ?m) js = is) (all_ix (tshape ix)) =
      filter (\<lambda>js. js[a := nat (nonneg_index (tshape t ! a) (tnth ix js))] = is) (all_ix (tshape ix))"
    using assms(2) by (intro filter_cong) (simp_all add: set_all_ix coordinate_axis_coordinates tnth_tmap)
  then show "foldl f (tnth t is) (updates_at (axis_coordinates a ?m) u is) = foldl f (tnth t is) (map (tnth u)
      (filter (\<lambda>js. js[a := nat (nonneg_index (tshape t ! a) (tnth ix js))] = is) (all_ix (tshape ix))))"
    using assms(1) valid_ix_length [OF v] by (simp add: updates_at_def)
qed simp

lemma unique_axis_coordinates:
  assumes "wf_tensor ix" "unique_elements a d ix"
  shows "unique_coordinates (axis_coordinates a (tmap (\<lambda>i. nat (nonneg_index d i)) ix))"
  using assms by (simp add: unique_elements_def unique_coordinates_def inj_on_def coordinate_axis_coordinates tnth_tmap)

lemma scatter_types_okD:
  assumes "scatter_types_ok data indices updates (RankedTensor rs re)"
    and "oty data = RankedTensor (map int ds) de" "oty indices = RankedTensor (map int ns) ie" "oty updates = RankedTensor (map int us) ue"
  shows "isF32 de" "isF32 ue" "isF32 re"
  using assms by (auto simp: scatter_types_ok_def isF32_def elim!: not_failedE)

lemma count_below_i32:
  assumes "int n \<le> cdiv int32_max (int r)" and "1 \<le> r" shows "n < 2 ^ 31"
proof -
  have "cdiv int32_max (int r) = int32_max div int r" using assms(2) by (intro cdiv_nonneg) (simp_all add: int32_max_def)
  moreover have "int32_max div int r \<le> int32_max div 1" using assms(2) by (intro zdiv_mono2) (simp_all add: int32_max_def)
  ultimately have "int n \<le> int32_max" using assms(1) by simp
  then show ?thesis by (simp add: int32_max_def)
qed

lemma identity_scatter:
  assumes ix: "wf_tensor ix" "tshape ix = tshape t" and u: "wf_tensor u" "tshape u = tshape t" and a: "a < trank t"
    and id: "identity_indices (map int (tshape t)) (int a) (tdata ix)"
  shows "onnx_scatter_elements a (\<lambda>_ y. y) t ix u = u"
proof -
  let ?d = "tshape t ! a"
  have at: "js[a := nat (nonneg_index ?d (tnth ix js))] = js" if v: "valid_ix (tshape t) js" for js
  proof -
    let ?k = "ravel (tshape t) js"
    have k: "?k < prod_list (tshape t)" using v by (rule ravel_less)
    have "nonneg_index ?d (tdata ix ! ?k) = int (unravel (tshape t) ?k ! a)"
      using id k a by (auto simp: identity_indices_def list_all_iff nonneg_index_def Let_def output_position_unravel dest!: bspec [of _ _ "int ?k"])
    then have "nat (nonneg_index ?d (tnth ix js)) = js ! a" using v ix(2) by (simp add: tnth_def)
    then show ?thesis by simp
  qed
  have "filter (\<lambda>js. js[a := nat (nonneg_index ?d (tnth ix js))] = is) (all_ix (tshape t)) = [is]" if "valid_ix (tshape t) is" for "is"
    using at that by (intro filter_unique) (auto simp: set_all_ix)
  then show ?thesis using u ix(2) by (intro tensor_eqI) (simp_all add: onnx_scatter_elements_def)
qed

text \<open>
  C14: when one of the two ScatterElements patterns succeeds, the created value represents the ONNX operator on
  the logical operands: for unique coordinates when no reduction is asked for, and for any coordinates
  with the reduction \<^verbatim>\<open>add\<close>, provided addition and subtraction are exact on the elements. The identity
  pattern needs no arithmetic at all; it is the only form that \<^verbatim>\<open>known-limitations.md\<close> describes, while
  the second pattern is registered beside it and takes general coordinates, partial updates and runtime indices.
\<close>

theorem lower_scatter_elements_correct:
  assumes sem: "tfl_scatter sem addf subf zero" "tfl_index sem ltf iaddf conv" "tfl_assembly sem" and ex: "exact_arith addf subf zero num"
    and low: "lower_scatter_elements op = Inr v"
    and t: "conforms (oty (se_data op)) t" "env 0 = phys (oty (se_data op)) t" "\<forall>x\<in>set (tdata t). num x"
    and u: "conforms (oty (se_updates op)) u" "env 2 = phys (oty (se_updates op)) u" "\<forall>x\<in>set (tdata u). num x"
    and a: "a = nat (normalizeAxis (se_axis op) (int (trank t)))"
    and ix: "conforms (oty (se_indices op)) ix" "env 1 = tmap IV ix" "indices_in (tshape t ! a) ix"
      "\<forall>vs. getConstantIntValues (se_indices op) = Some vs \<longrightarrow> tdata ix = vs"
    and red: "if se_reduction op = ''add'' then f = addf else f = (\<lambda>_ y. y) \<and> unique_elements a (tshape t ! a) ix"
  shows "represents sem env v (se_result op) (onnx_scatter_elements a f t ix u)"
proof -
  let ?ity = "oty (se_data op)" and ?uty = "oty (se_updates op)" and ?ty = "se_result op" and ?d = "tshape t ! a"
  obtain de where ity: "?ity = RankedTensor (map int (tshape t)) de" and wt: "wf_tensor t" using t(1) by (auto simp: conforms_def)
  obtain ue where uty: "?uty = RankedTensor (map int (tshape u)) ue" and wu: "wf_tensor u" using u(1) by (auto simp: conforms_def)
  obtain ie where nty: "oty (se_indices op) = RankedTensor (map int (tshape ix)) ie" and wi: "wf_tensor ix" using ix by (auto simp: conforms_def)
  have "scatter_types_ok (se_data op) (se_indices op) (se_updates op) ?ty"
    using low by (auto simp: lower_scatter_elements_def lower_scatter_elements_identity_def lower_scatter_elements_general_def split: if_splits)
  moreover from this obtain rs re where ty: "?ty = RankedTensor rs re" by (auto simp: scatter_types_ok_def ity uty nty split: mtype.splits)
  ultimately have fl: "isF32 de" "isF32 ue" "isF32 re" using scatter_types_okD [OF _ ity nty uty] by metis+
  show ?thesis
  proof (cases "lower_scatter_elements_identity op")
    case (Inr v')
    have v: "v = adaptor 2 (se_updates op)" and sh: "tshape ix = tshape t" "tshape u = tshape t" "rs = map int (tshape t)" and none: "se_reduction op = ''none''"
      and an: "normalizeAxis (se_axis op) (int (trank t)) = int a" "a < trank t" and id: "identity_indices (map int (tshape t)) (int a) (tdata ix)"
      using Inr low ix(4) a by (auto simp: lower_scatter_elements_def lower_scatter_elements_identity_def ity nty uty ty Let_def
        split: if_splits option.splits)
    have "onnx_scatter_elements a f t ix u = u" using identity_scatter [OF wi sh(1) wu sh(2) an(2) id] red none by simp
    moreover have "?uty = ?ty" using fl by (simp add: ty uty sh isF32_def)
    ultimately show ?thesis using u(1,2) by (simp add: v represents_def)
  next
    case (Inl d)
    then have low: "lower_scatter_elements_general op = Inr v" using low by (simp add: lower_scatter_elements_def)
    have sh: "tshape u = tshape ix" "trank ix = trank t" "1 \<le> trank t" "trank t \<le> 5" "rs = map int (tshape t)"
      and rd: "se_reduction op = ''none'' \<or> se_reduction op = ''add''"
      and an: "normalizeAxis (se_axis op) (int (trank t)) = int a" "a < trank t"
      and dims: "elements_dims_ok (int a) (map int (tshape t)) (map int (tshape ix))"
      and size: "int (prod_list (tshape ix)) \<le> cdiv int32_max (int (trank t))"
      using low a by (auto simp: lower_scatter_elements_general_def ity nty uty ty Let_def split: if_splits)
    note dm = elements_dims_okD [OF dims sh(2)]
    have d31: "?d < 2 ^ 31" using dm(1) an(2) by (auto simp: i32_dims_def)
    have n31: "prod_list (tshape ix) < 2 ^ 31" using size sh(3) by (rule count_below_i32)
    let ?m = "tmap (\<lambda>i. nat (nonneg_index ?d i)) ix"
    let ?r = "runtime_indices (map int (tshape ix)) ie (int ?d) (adaptor 1 (se_indices op))"
    let ?c = "concat_coordinates (map int (tshape ix)) (int a) ?r" and ?cx = "axis_coordinates a ?m"
    let ?data = "restore_rank4 ?ity (adaptor 0 (se_data op))" and ?upd = "restore_rank4 ?uty (adaptor 2 (se_updates op))"
    let ?old = "createTFLOperation ''tfl.gather_nd'' [?uty] [?data, ?c] [] 0"
    let ?delta = "if se_reduction op = ''add'' then ?upd else createTFLOperation ''tfl.sub'' [?uty] [?upd, ?old] [getFusedActivationNone] 0"
    have v: "v = scatter_result ?ity ?ity (map int (tshape t)) ?data ?c ?delta" and tyeq: "?ity = ?ty"
      using low an sh fl by (auto simp: lower_scatter_elements_general_def ity nty uty ty Let_def isF32_def split: if_splits)
    have "eval sem env ?r = tmap (\<lambda>i. IV (nonneg_index ?d i)) ix"
      using ix wi d31 dm(2) n31 by (intro tfl_index.eval_runtime_indices [OF sem(2)]) simp_all
    also have "\<dots> = tmap (\<lambda>i. IV (int i)) ?m" using ix(3) nonneg_index_bound by (fastforce simp: tmap_def indices_in_def)
    finally have c: "eval sem env ?c = tmap (\<lambda>i. IV (int i)) ?cx"
      using wi sh an(2) dm(2) by (intro tfl_assembly.eval_concat_coordinates [OF sem(3), of ?m, simplified]) simp_all
    have "\<forall>i\<in>set (tdata ?m). i < ?d" using ix(3) nonneg_index_bound by (fastforce simp: indices_in_def tmap_def nat_less_iff)
    then have ok: "coordinates_ok (tshape t) ?cx" using wi sh(2) dm(3) by (intro coordinates_ok_axis) simp_all
    have p4: "physical4 ?ity \<longleftrightarrow> trank t = 4" "physical4 ?uty \<longleftrightarrow> trank u = 4" using fl by (simp_all add: ity uty physical4_def)
    have data: "eval sem env ?data = t" using t p4 by (intro tfl_scatter.eval_restore_rank4 [OF sem(1)]) simp_all
    have upd: "eval sem env ?upd = u" using u p4 by (intro tfl_scatter.eval_restore_rank4 [OF sem(1)]) simp_all
    have us: "tshape u = butlast (tshape ?cx) @ drop (ixdepth ?cx) (tshape t)" using sh by simp
    note res = tfl_scatter.represents_scatter_result [OF sem(1) t(1) sh(4) dm(1) p4(1) data ok c _ _]
    note spec = onnx_scatter_elements_eq [OF sh(2) wi, of _ a u]
    show ?thesis
    proof (cases "se_reduction op = ''add''")
      case True
      have "represents sem env v ?ity (tmap2 addf t (tscatter_nd addf ?cx u (tconst (tshape t) zero)))"
        unfolding v using True by (intro res [OF wu us]) (simp add: upd)
      then show ?thesis using exact_arith.scatter_sum [OF ex wt t(3) wu us u(3)] spec red True tyeq by simp
    next
      case False
      then have f: "f = (\<lambda>_ y. y)" and uq: "unique_elements a ?d ix" using red by simp_all
      have cg: "conforms ?uty (tgather_nd t ?cx)" using sh by (simp add: uty conforms_Ranked)
      note old = tfl_scatter.eval_old_values [OF sem(1) wt data ok c cg]
      have df: "eval sem env ?delta = tmap2 subf u (tgather_nd t ?cx)"
        using False sh u(1) wu upd old by (simp add: tfl_scatter.eval_difference [OF sem(1)] del: eval_createTFLOperation)
      have fu: "tmap2 f (tgather_nd t ?cx) u = u"
        unfolding f using wu us by (intro tensor_eqI) (simp_all add: tmap2_bget bget_self)
      have "represents sem env v ?ity (tmap2 addf t (tscatter_nd addf ?cx (tmap2 subf u (tgather_nd t ?cx)) (tconst (tshape t) zero)))"
        unfolding v using df us by (intro res) (simp_all add: tmap2_bget)
      then show ?thesis
        using exact_arith.scatter_differences [OF ex unique_axis_coordinates [OF wi uq] wt t(3) wu us u(3), of f] fu f spec [of f] tyeq by simp
    qed
  qed
qed

definition scatter_elements_example :: "int scatter_elements_op" where
  "scatter_elements_example = \<lparr>se_data = \<lparr>oty = RankedTensor [1, 2, 2, 3] F32, oattr = None\<rparr>,
     se_indices = \<lparr>oty = RankedTensor [1, 1, 2, 1] I64, oattr = None\<rparr>,
     se_updates = \<lparr>oty = RankedTensor [1, 1, 2, 1] F32, oattr = None\<rparr>,
     se_axis = -1, se_reduction = ''none'', se_result = RankedTensor [1, 2, 2, 3] F32\<rparr>"

theorem lower_scatter_elements_correct_witness:
  "\<exists>v. lower_scatter_elements scatter_elements_example = Inr v \<and>
     represents reference_sem (\<lambda>k. if k = 0 then ttranspose to_nhwc nchw_example else if k = 1 then Tensor [1, 1, 2, 1] [IV 2, IV (-3)]
         else ttranspose to_nhwc (Tensor [1, 1, 2, 1] [FV 70, FV 80]))
       v (se_result scatter_elements_example)
       (onnx_scatter_elements 3 (\<lambda>_ y. y) nchw_example (Tensor [1, 1, 2, 1] [2, -3]) (Tensor [1, 1, 2, 1] [FV 70, FV 80]))"
proof -
  have "\<not> failed (lower_scatter_elements scatter_elements_example)" by code_simp
  then obtain v where low: "lower_scatter_elements scatter_elements_example = Inr v" by (rule not_failedE)
  let ?ix = "Tensor [1, 1, 2, 1] [2, -3 :: int]" and ?u = "Tensor [1, 1, 2, 1] [FV 70, FV 80] :: int scalar tensor"
  let ?env = "\<lambda>k :: nat. if k = 0 then ttranspose to_nhwc nchw_example else if k = 1 then Tensor [1, 1, 2, 1] [IV 2, IV (-3)]
      else ttranspose to_nhwc ?u"
  have "represents reference_sem ?env v (se_result scatter_elements_example) (onnx_scatter_elements 3 (\<lambda>_ y. y) nchw_example ?ix ?u)"
  proof (rule lower_scatter_elements_correct [OF reference_scatter.tfl_scatter_axioms reference_index.tfl_index_axioms
        reference.tfl_assembly_axioms reference_exact.exact_arith_axioms low])
    show "conforms (oty (se_data scatter_elements_example)) nchw_example" "?env 0 = phys (oty (se_data scatter_elements_example)) nchw_example"
      "3 = nat (normalizeAxis (se_axis scatter_elements_example) (int (trank nchw_example)))"
      by (simp_all add: scatter_elements_example_def example_simps normalizeAxis_def)
    show "\<forall>x\<in>set (tdata nchw_example). is_float x" "\<forall>x\<in>set (tdata ?u). is_float x" by (simp_all add: nchw_example_def is_float_def)
    show "conforms (oty (se_updates scatter_elements_example)) ?u" "?env 2 = phys (oty (se_updates scatter_elements_example)) ?u"
      "conforms (oty (se_indices scatter_elements_example)) ?ix" "?env 1 = tmap IV ?ix" "indices_in (tshape nchw_example ! 3) ?ix"
      "\<forall>vs. getConstantIntValues (se_indices scatter_elements_example) = Some vs \<longrightarrow> tdata ?ix = vs"
      by (simp_all add: scatter_elements_example_def conforms_Ranked wf_tensor_def phys_def physical4_def isF32_def tmap_def
          indices_in_def getConstantIntValues_def)
    have "inj_on (\<lambda>js. js[3 := nat (nonneg_index 3 (tnth ?ix js))]) (set (all_ix [1, 1, 2, 1]))"
      by (simp add: all_ix_def inj_on_def upt_rec tnth_def)
    then show "if se_reduction scatter_elements_example = ''add'' then (\<lambda>_ y. y) = ref_arith (+)
        else (\<lambda>_ y. y) = (\<lambda>_ y. y) \<and> unique_elements 3 (tshape nchw_example ! 3) ?ix"
      by (simp add: scatter_elements_example_def unique_elements_def set_all_ix)
  qed
  with low show ?thesis by blast
qed

section \<open>ScatterND\<close>

lemma scatter_tuple_ok:
  "scatter_tuple (map int ds) vs (int key) = Inr (js, k) \<Longrightarrow> length vs = length ds \<Longrightarrow> i32_dims ds \<Longrightarrow>
   normalize_tuple (map int ds) vs = Inr js \<and> k = int (key * prod_list ds + ravel ds (map nat js))"
proof (induction ds arbitrary: vs js key)
  case (Cons d ds)
  then obtain v vs' where vs: "vs = v # vs'" by (cases vs) simp_all
  let ?j = "nonneg_index d v"
  have ij: "(if v < 0 then v + int d else v) = ?j" by (simp add: nonneg_index_def)
  obtain rest where rec: "scatter_tuple (map int ds) vs' (int key * int d + ?j) = Inr (rest, k)" and j: "0 \<le> ?j" "?j < int d"
    and js: "js = i32 ?j # rest"
    using Cons.prems(1) by (auto simp: vs ij Let_def split: if_splits)
  have "int key * int d + ?j = int (key * d + nat ?j)" using j(1) by simp
  note ih = Cons.IH [OF rec [unfolded this]]
  have "i32 ?j = ?j" using j Cons.prems(3) by (intro i32_id) (auto simp: fits_i32_def i32_dims_def)
  then show ?case using ih Cons.prems(2,3) j by (simp add: vs js ij Let_def i32_dims_def algebra_simps)
qed simp

lemma scatter_tuples_ok:
  assumes "scatter_tuples (map int ds) (int n) vs keys (map int ks) = Inr cs" and "n \<le> length ds" "i32_dims ds"
  shows "cs = concat (map (\<lambda>k. map int (tuple_at 0 ds n vs k)) ks) \<and> (\<forall>k\<in>set ks. tuple_in 0 ds n vs k) \<and>
    distinct (map (\<lambda>k. ravel (take n ds) (tuple_at 0 ds n vs k)) ks) \<and>
    (\<forall>k\<in>set ks. int (ravel (take n ds) (tuple_at 0 ds n vs k)) \<notin> set keys)"
  using assms
proof (induction ks arbitrary: cs keys)
  case (Cons k ks)
  let ?i = "\<lambda>k. ravel (take n ds) (tuple_at 0 ds n vs k)"
  have l: "length (tuple_indices (int n) vs (int k)) = length (take n ds)" using Cons.prems(2) by (simp add: tuple_indices_def int_upto)
  obtain js key rest where one: "scatter_tuple (map int (take n ds)) (tuple_indices (int n) vs (int k)) (int 0) = Inr (js, key)"
    and nw: "key \<notin> set keys" and rec: "scatter_tuples (map int ds) (int n) vs (key # keys) (map int ks) = Inr rest" and cs: "cs = js @ rest"
    using Cons.prems(1) by (auto simp: take_map split: if_splits)
  have "i32_dims (take n ds)" using Cons.prems(3) by (auto simp: i32_dims_def dest: in_set_takeD)
  note st = scatter_tuple_ok [OF one l this]
  have "js = map int (tuple_at 0 ds n vs k) \<and> tuple_in 0 ds n vs k"
    using normalize_tuple_at [of n 0 ds vs k js] st Cons.prems(2,3) by simp
  moreover from this have "key = int (?i k)" using st by (simp add: comp_def)
  ultimately show ?case using cs nw Cons.IH [OF rec Cons.prems(2,3)] by auto
qed simp

lemma unique_nd_tensor:
  assumes sh: "tshape ix = ps @ [n]" and d: "distinct (map (\<lambda>k. ravel (take n ds) (tuple_at 0 ds n (tdata ix) k)) [0..<prod_list ps])"
  shows "unique_coordinates (nd_tensor 0 ds ix)"
  unfolding unique_coordinates_def
proof (rule inj_onI)
  fix "is" js assume "is \<in> {js. valid_ix (butlast (tshape (nd_tensor 0 ds ix))) js}" "js \<in> {js. valid_ix (butlast (tshape (nd_tensor 0 ds ix))) js}"
    and e: "coordinate (nd_tensor 0 ds ix) is = coordinate (nd_tensor 0 ds ix) js"
  then have v: "valid_ix ps is" "valid_ix ps js" using sh by simp_all
  have c: "coordinate (nd_tensor 0 ds ix) ks = tuple_at 0 ds n (tdata ix) (ravel ps ks)" if "valid_ix ps ks" for ks
    using that sh nd_coordinate_at [OF sh ravel_less [OF that], of 0 ds] by (simp add: coordinate_nd_tensor)
  have "ravel ps is = ravel ps js"
    using d c [OF v(1)] c [OF v(2)] e ravel_less [OF v(1)] ravel_less [OF v(2)] by (auto simp: distinct_map inj_on_def)
  then show "is = js" using v by (metis unravel_ravel)
qed

lemma onnx_scatter_nd_eq: "tscatter_nd f (nd_tensor 0 (tshape t) ix) u t = onnx_scatter_nd f t ix u"
proof -
  have "filter (\<lambda>js. coordinate (nd_tensor 0 (tshape t) ix) js = take (ixdepth ix) is) (all_ix (butlast (tshape ix))) =
      filter (\<lambda>js. nd_coordinate 0 (tshape t) ix js = take (ixdepth ix) is) (all_ix (butlast (tshape ix)))" for "is"
    by (intro filter_cong) (simp_all add: set_all_ix coordinate_nd_tensor)
  then show ?thesis by (simp add: tscatter_nd_def onnx_scatter_nd_def updates_at_def)
qed

text \<open>Flattening the positions of the coordinates and of the updates changes nothing.\<close>

lemma coordinate_flat:
  assumes "tshape cx = ps @ [n]" and "k < prod_list ps"
  shows "coordinate (treshape [prod_list ps, n] cx) [k] = coordinate cx (unravel ps k)"
  using assms by (auto simp: coordinate_def ixdepth_def treshape_def tnth_def ravel_append valid_ix_def intro!: map_cong)

lemma coordinates_flat:
  assumes sh: "tshape cx = ps @ [n]" and cx: "coordinates_ok ds cx" "unique_coordinates cx"
  shows "coordinates_ok ds (treshape [prod_list ps, n] cx)" "unique_coordinates (treshape [prod_list ps, n] cx)"
proof -
  let ?fc = "treshape [prod_list ps, n] cx"
  have v: "\<exists>k<prod_list ps. is = [k]" if "valid_ix [prod_list ps] is" for "is"
    using that by (auto simp: valid_ix_def list_all2_Cons2)
  have "valid_ix (take n ds) (coordinate ?fc is)" if "valid_ix [prod_list ps] is" for "is"
    using v [OF that] cx(1) coordinate_flat [OF sh] unravel_valid by (auto simp: coordinates_ok_def sh ixdepth_def)
  then show "coordinates_ok ds ?fc" using cx(1) sh by (simp add: coordinates_ok_def ixdepth_def wf_treshape)
  show "unique_coordinates ?fc"
    unfolding unique_coordinates_def
  proof (rule inj_onI)
    fix "is" js assume "is \<in> {js. valid_ix (butlast (tshape ?fc)) js}" "js \<in> {js. valid_ix (butlast (tshape ?fc)) js}"
      and e: "coordinate ?fc is = coordinate ?fc js"
    then obtain k l where kl: "is = [k]" "js = [l]" "k < prod_list ps" "l < prod_list ps" using v [of "is"] v [of js] by auto
    then have "unravel ps k = unravel ps l"
      using e cx(2) coordinate_flat [OF sh] unravel_valid sh by (auto simp: unique_coordinates_def inj_on_def)
    then show "is = js" using kl by (metis ravel_unravel)
  qed
qed

lemma tscatter_nd_flat:
  assumes cx: "tshape cx = ps @ [n]" "wf_tensor cx" and u: "tshape u = ps @ drop n (tshape t)" "wf_tensor u"
  shows "tscatter_nd f (treshape [prod_list ps, n] cx) (treshape (prod_list ps # drop n (tshape t)) u) t = tscatter_nd f cx u t"
proof -
  let ?cx = "treshape [prod_list ps, n] cx" and ?u = "treshape (prod_list ps # drop n (tshape t)) u"
  note co = coordinate_flat [OF cx(1)]
  have ut: "tnth ?u (k # drop n is) = tnth u (unravel ps k @ drop n is)" if "k < prod_list ps" "valid_ix (tshape t) is" for k "is"
    using that u valid_update_ix [OF that(2), of "[prod_list ps]" "[k]" n]
    by (simp add: treshape_def tnth_def ravel_append valid_ix_def)
  have al: "all_ix [prod_list ps] = map (\<lambda>k. [k]) [0..<prod_list ps]" by (simp add: all_ix_def)
  have "updates_at ?cx ?u is = updates_at cx u is" if v: "valid_ix (tshape t) is" for "is"
  proof -
    have "filter (\<lambda>k. coordinate ?cx [k] = take n is) [0..<prod_list ps] = filter (\<lambda>k. coordinate cx (unravel ps k) = take n is) [0..<prod_list ps]"
      by (intro filter_cong refl) (simp add: co)
    then show ?thesis
      using cx by (simp add: updates_at_def ixdepth_def al filter_map comp_def all_ix_def) (auto simp: ut [OF _ v])
  qed
  then show ?thesis by (simp add: tscatter_nd_def cong: tgen_cong)
qed

definition scatter_reduction :: "'f sem \<Rightarrow> string \<Rightarrow> ('f scalar \<Rightarrow> 'f scalar \<Rightarrow> 'f scalar) \<Rightarrow> bool" where
  "scatter_reduction sem reduction f \<longleftrightarrow>
     (if reduction = ''none'' then f = (\<lambda>_ y. y)
      else if reduction = ''add'' then tfl_binary sem ''tfl.add'' [getFusedActivationNone] f 5
      else if reduction = ''mul'' then tfl_binary sem ''tfl.mul'' [getFusedActivationNone] f 5
      else if reduction = ''max'' then tfl_binary sem ''tfl.maximum'' [] f 5
      else tfl_binary sem ''tfl.minimum'' [] f 5)"

lemma eval_scatter_replacements:
  assumes "scatter_reduction sem reduction f" "wf_tensor x" "wf_tensor y" "tshape x = tshape y" "trank x \<le> 5"
    and "eval sem env a = x" "eval sem env b = y" "conforms ty x"
  shows "eval sem env (scatter_replacements reduction ty a b) = tmap2 f x y"
proof (cases "reduction = ''none''")
  case True
  then have "tmap2 f x y = y" using assms by (intro tensor_eqI) (simp_all add: scatter_reduction_def tmap2_bget bget_self)
  with True show ?thesis using assms by (simp add: scatter_replacements_def)
next
  case False
  have "conforms ty (tmap2 f x y)" using assms(4,8) by (auto simp: conforms_def tmap2_bget split: mtype.splits)
  with False show ?thesis
    using assms unfolding scatter_replacements_def scatter_reduction_def
    by (auto simp del: eval_createTFLOperation split: if_splits intro!: tfl_binary.eval_direct)
qed

context tfl_scatter
begin

text \<open>The operations from the old values to the differences.\<close>

lemma represents_scatter_replaced:
  assumes ex: "exact_arith addf subf zero num" and red: "scatter_reduction sem reduction f" "\<forall>x y. num x \<longrightarrow> num y \<longrightarrow> num (f x y)"
    and t: "conforms ty t" "trank t \<le> 5" "i32_dims (tshape t)" "physical4 ty \<longleftrightarrow> trank t = 4" "eval sem env d = t" "\<forall>x\<in>set (tdata t). num x"
    and cx: "coordinates_ok (tshape t) cx" "eval sem env cv = tmap (\<lambda>i. IV (int i)) cx" "unique_coordinates cx"
    and u: "conforms uty u" "tshape u = butlast (tshape cx) @ drop (ixdepth cx) (tshape t)" "eval sem env uv = u" "\<forall>x\<in>set (tdata u). num x" "trank u \<le> 5"
  defines "old \<equiv> createTFLOperation ''tfl.gather_nd'' [uty] [d, cv] [] 0"
  shows "represents sem env (scatter_result ty ty (map int (tshape t)) d cv
      (createTFLOperation ''tfl.sub'' [uty] [scatter_replacements reduction uty old uv, old] [getFusedActivationNone] 0)) ty
    (tscatter_nd f cx u t)"
proof -
  let ?o = "tgather_nd t cx" let ?r = "tmap2 f ?o u"
  have wt: "wf_tensor t" and wu: "wf_tensor u" using t(1) u(1) by (auto intro: conforms_wf)
  have cg: "conforms uty ?o" "conforms uty ?r" using u(1,2) by (auto simp: conforms_def tmap2_bget split: mtype.splits)
  have o: "eval sem env old = ?o" unfolding old_def using wt t(5) cx(1,2) cg(1) by (rule eval_old_values)
  have r: "eval sem env (scatter_replacements reduction uty old uv) = ?r"
    using u wu o cg by (intro eval_scatter_replacements [OF red(1)]) simp_all
  have df: "eval sem env (createTFLOperation ''tfl.sub'' [uty] [scatter_replacements reduction uty old uv, old] [getFusedActivationNone] 0) = tmap2 subf ?r ?o"
    using o r cg u(2,5) by (intro eval_difference) (simp_all add: tmap2_bget)
  have "represents sem env (scatter_result ty ty (map int (tshape t)) d cv
      (createTFLOperation ''tfl.sub'' [uty] [scatter_replacements reduction uty old uv, old] [getFusedActivationNone] 0)) ty
    (tmap2 addf t (tscatter_nd addf cx (tmap2 subf ?r ?o) (tconst (tshape t) zero)))"
    using u(2) by (intro represents_scatter_result t(1-5) cx(1,2) df) (simp_all add: tmap2_bget)
  then show ?thesis using exact_arith.scatter_differences [OF ex cx(3) wt t(6) wu u(2,4), of f] red(2) by simp
qed

end

text \<open>
  C13: when the ScatterND pattern succeeds, the created value represents the ONNX operator on the logical
  operands for each of the five reductions: the pattern accepts only constant indices in range whose
  tuples are distinct, and then replacing through differences is exact.
\<close>

theorem lower_scatter_nd_correct:
  assumes sem: "tfl_scatter sem addf subf zero" and ex: "exact_arith addf subf zero num"
    and red: "scatter_reduction sem (sn_reduction op) f" "\<forall>x y. num x \<longrightarrow> num y \<longrightarrow> num (f x y)"
    and low: "lower_scatter_nd op = Inr v"
    and t: "conforms (oty (sn_data op)) t" "env 0 = phys (oty (sn_data op)) t" "\<forall>x\<in>set (tdata t). num x"
    and u: "conforms (oty (sn_updates op)) u" "env 2 = phys (oty (sn_updates op)) u" "\<forall>x\<in>set (tdata u). num x"
    and ix: "conforms (oty (sn_indices op)) ix" "getConstantIntValues (sn_indices op) = Some (tdata ix)"
    and size: "prod_list (tshape ix) < 2 ^ 31"
  shows "represents sem env v (sn_result op) (onnx_scatter_nd f t ix u)"
proof -
  let ?ity = "oty (sn_data op)" and ?uty = "oty (sn_updates op)" and ?ty = "sn_result op" and ?ds = "tshape t"
  obtain de where ity: "?ity = RankedTensor (map int ?ds) de" and wt: "wf_tensor t" using t(1) by (auto simp: conforms_def)
  obtain ue where uty: "?uty = RankedTensor (map int (tshape u)) ue" and wu: "wf_tensor u" using u(1) by (auto simp: conforms_def)
  obtain ie where nty: "oty (sn_indices op) = RankedTensor (map int (tshape ix)) ie" and wi: "wf_tensor ix" using ix by (auto simp: conforms_def)
  have "scatter_types_ok (sn_data op) (sn_indices op) (sn_updates op) ?ty" using low by (auto simp: lower_scatter_nd_def split: if_splits)
  moreover from this obtain rs re where ty: "?ty = RankedTensor rs re" by (auto simp: scatter_types_ok_def ity uty nty split: mtype.splits)
  ultimately have fl: "isF32 de" "isF32 ue" "isF32 re" using scatter_types_okD [OF _ ity nty uty] by metis+
  have "tshape ix \<noteq> []" using low by (auto simp: lower_scatter_nd_def ity nty uty ty Let_def split: if_splits)
  then obtain ps n where sh: "tshape ix = ps @ [n]" by (metis append_butlast_last_id)
  have lv: "int (length (tdata ix)) = getNumElements (map int ps @ [int n])"
    using wi getNumElements_map_int [of "ps @ [n]"] by (simp add: wf_tensor_def sh)
  have cnt: "cdiv (getNumElements (map int ps @ [int n])) (int n) = int (prod_list ps)" if "0 < n"
    using that getNumElements_map_int [of "ps @ [n]"] by (simp add: cdiv_nonneg)
  obtain cs where v: "v = emit_scatter_nd op (map int ?ds) (map int (ps @ [n])) ue (int (prod_list ps)) (int n) cs"
    and cs: "scatter_tuples (map int ?ds) (int n) (tdata ix) [] (map int [0..<prod_list ps]) = Inr cs"
    and rk: "trank t \<le> 5" "trank u \<le> 5" and rs: "rs = map int ?ds" and n: "0 < n" "n \<le> trank t"
    and us: "map int (tshape u) = map int ps @ drop n (map int ?ds)" and ds: "\<forall>d\<in>set ?ds. \<not> (int d \<le> 0 \<or> int32_max < int d)"
    using low cnt lv by (auto simp: lower_scatter_nd_def ity nty uty ty sh ix(2) int_upto Let_def split: if_splits)
  have tyeq: "?ity = ?ty" "ue = de" using fl by (simp_all add: ity ty rs isF32_def)
  have us: "tshape u = ps @ drop n ?ds" using us by (simp add: drop_map map_append [symmetric] del: map_append)
  have i32: "i32_dims ?ds" using ds by (auto simp: i32_dims_def int32_max_def)
  let ?cx = "nd_tensor 0 ?ds ix"
  note st = scatter_tuples_ok [OF cs n(2) i32]
  have uq: "unique_coordinates ?cx" using st by (intro unique_nd_tensor [OF sh]) simp
  have rng: "nd_indices_in 0 ?ds ix" using st by (intro nd_indices_in_tuples [OF sh]) simp
  then have ok: "coordinates_ok ?ds ?cx" using n(2) by (intro coordinates_ok_nd [OF sh]) simp_all
  have cv: "cs = map int (tdata ?cx)" using st by (simp add: tdata_nd_tensor [OF sh] map_concat comp_def)
  have p4: "physical4 ?ity \<longleftrightarrow> trank t = 4" "physical4 ?uty \<longleftrightarrow> trank u = 4" using fl by (simp_all add: ity uty physical4_def)
  have data: "eval sem env (restore_rank4 ?ity (adaptor 0 (sn_data op))) = t"
    using t p4 by (intro tfl_scatter.eval_restore_rank4 [OF sem]) simp_all
  have upd: "eval sem env (restore_rank4 ?uty (adaptor 2 (sn_updates op))) = u"
    using u p4 by (intro tfl_scatter.eval_restore_rank4 [OF sem]) simp_all
  note main = tfl_scatter.represents_scatter_replaced [OF sem ex red t(1) rk(1) i32 p4(1) data t(3)]
  show ?thesis
  proof (cases "5 < Suc (length ps)")
    case False
    let ?c = "ConstI (RankedTensor (map int (ps @ [n])) I32) cs"
    have c: "eval sem env ?c = tmap (\<lambda>i. IV (int i)) ?cx" by (simp add: cv tmap_def sh ixdepth_def)
    have "represents sem env v ?ity (tscatter_nd f ?cx u t)"
      unfolding v emit_scatter_nd_def Let_def using False main [OF ok c uq u(1) _ upd u(3) rk(2)] us tyeq(1)
      by (simp add: getRank_def sh ixdepth_def)
    then show ?thesis using tyeq(1) by (simp add: onnx_scatter_nd_eq)
  next
    case True
    let ?T = "prod_list ps" let ?fu = "treshape (?T # drop n ?ds) u" and ?fc = "treshape [?T, n] ?cx"
    let ?fty = "RankedTensor (map int (?T # drop n ?ds)) ue"
    let ?c = "ConstI (RankedTensor (map int [?T, n]) I32) cs"
    have c: "eval sem env ?c = tmap (\<lambda>i. IV (int i)) ?fc" by (simp add: cv tmap_def treshape_def)
    have wf: "wf_tensor ?fu" using wu us by (simp add: wf_treshape)
    have "?T * 1 \<le> ?T * n" using n(1) by (intro mult_le_mono2) simp
    then have "?T \<le> prod_list (tshape ix)" by (simp add: sh)
    then have i32f: "i32_dims (?T # drop n ?ds)" using size i32 by (auto simp: i32_dims_def dest: in_set_dropD)
    have lay: "tfl_layout sem" using sem by (simp add: tfl_scatter_def tfl_gather_nd_def)
    have fu: "eval sem env (emitReshape ?fty (map int (?T # drop n ?ds)) (restore_rank4 ?uty (adaptor 2 (sn_updates op)))) = ?fu"
      using wu upd i32f us by (intro tfl_layout.eval_emitReshape [OF lay]) simp_all
    have "tshape ?cx = ps @ [n]" by (simp add: sh ixdepth_def)
    note fl = coordinates_flat [OF this ok uq]
    have "\<forall>x\<in>set (tdata ?fu). num x" using u(3) by (simp add: treshape_def)
    note m = main [OF fl(1) c fl(2) _ _ fu this]
    have "represents sem env v ?ity (tscatter_nd f ?fc ?fu t)"
      unfolding v emit_scatter_nd_def Let_def using True m tyeq(1) wf rk n(1)
      by (simp add: getRank_def drop_map ixdepth_def conforms_Ranked)
    then show ?thesis using tyeq(1) tscatter_nd_flat [of ?cx ps n u t f] us wu sh by (simp add: onnx_scatter_nd_eq ixdepth_def)
  qed
qed

definition scatter_nd_example :: "int scatter_nd_op" where
  "scatter_nd_example = \<lparr>sn_data = \<lparr>oty = RankedTensor [1, 2, 2, 3] F32, oattr = None\<rparr>,
     sn_indices = \<lparr>oty = RankedTensor [2, 3] I64, oattr = Some (IntElements I64 [0, 1, -1, 0, 0, 1])\<rparr>,
     sn_updates = \<lparr>oty = RankedTensor [2, 3] F32, oattr = None\<rparr>,
     sn_reduction = ''add'', sn_result = RankedTensor [1, 2, 2, 3] F32\<rparr>"

theorem lower_scatter_nd_correct_witness:
  "\<exists>v. lower_scatter_nd scatter_nd_example = Inr v \<and>
     represents reference_sem (\<lambda>k. if k = 0 then ttranspose to_nhwc nchw_example else Tensor [2, 3] (map FV [10..15]))
       v (sn_result scatter_nd_example)
       (onnx_scatter_nd (ref_arith (+)) nchw_example (Tensor [2, 3] [0, 1, -1, 0, 0, 1]) (Tensor [2, 3] (map FV [10..15])))"
proof -
  have "\<not> failed (lower_scatter_nd scatter_nd_example)" by code_simp
  then obtain v where low: "lower_scatter_nd scatter_nd_example = Inr v" by (rule not_failedE)
  let ?ix = "Tensor [2, 3] [0, 1, -1, 0, 0, 1 :: int]" and ?u = "Tensor [2, 3] (map FV [10..15]) :: int scalar tensor"
  let ?env = "\<lambda>k :: nat. if k = 0 then ttranspose to_nhwc nchw_example else ?u"
  have "represents reference_sem ?env v (sn_result scatter_nd_example) (onnx_scatter_nd (ref_arith (+)) nchw_example ?ix ?u)"
  proof (rule lower_scatter_nd_correct [OF reference_scatter.tfl_scatter_axioms reference_exact.exact_arith_axioms _ _ low])
    show "scatter_reduction reference_sem (sn_reduction scatter_nd_example) (ref_arith (+))"
      using reference_add.tfl_binary_axioms by (simp add: scatter_reduction_def scatter_nd_example_def)
    show "\<forall>x y. is_float x \<longrightarrow> is_float y \<longrightarrow> is_float (ref_arith (+) x y)" using reference_exact.num_add by blast
    show "conforms (oty (sn_data scatter_nd_example)) nchw_example" "?env 0 = phys (oty (sn_data scatter_nd_example)) nchw_example"
      by (simp_all add: scatter_nd_example_def example_simps)
    show "\<forall>x\<in>set (tdata nchw_example). is_float x" "\<forall>x\<in>set (tdata ?u). is_float x" by (simp_all add: nchw_example_def is_float_def)
    have "length [10..15::int] = 6" by simp
    then show "conforms (oty (sn_updates scatter_nd_example)) ?u" "?env 2 = phys (oty (sn_updates scatter_nd_example)) ?u"
      "conforms (oty (sn_indices scatter_nd_example)) ?ix" "prod_list (tshape ?ix) < 2 ^ 31"
      by (simp_all add: scatter_nd_example_def conforms_Ranked wf_tensor_def phys_def physical4_def)
    show "getConstantIntValues (sn_indices scatter_nd_example) = Some (tdata ?ix)" by code_simp
  qed
  with low show ?thesis by blast
qed

end
