(* ===== verification/Lower_TopK.thy ===== *)
theory Lower_TopK
  imports Lower_Reduce Lower_Activation
begin

text \<open>
  Model of \<^verbatim>\<open>Math/TopK.cpp\<close>: the kernel selects the largest elements of the last axis in descending order, so
  another axis is moved to the end first, and the smallest elements are the largest ones of the
  negated input.
\<close>

section \<open>Definitions\<close>

record 'f topk_op =
  tk_input :: "'f operand"
  tk_k :: "'f operand"
  tk_axis :: int
  tk_largest :: int
  tk_sorted :: int
  tk_values :: mtype
  tk_indices :: mtype

definition emitTranspose :: "mtype \<Rightarrow> int list \<Rightarrow> 'f val \<Rightarrow> 'f val" where
  "emitTranspose ty permutation v = createTFLOperation ''tfl.transpose'' [ty] [v, createI32ShapeConstant permutation] [] 0"

definition emit_topk :: "int list \<Rightarrow> int \<Rightarrow> int \<Rightarrow> bool \<Rightarrow> mtype \<Rightarrow> mtype \<Rightarrow> 'f val \<Rightarrow> 'f val \<times> 'f val" where
  "emit_topk shape axis k largest valueType indexType input =
     (let rank = getRank shape; resultShape = shape[nat axis := k];
          logical = (if rank = 4 then emitTranspose (RankedTensor shape F32) [0, 3, 1, 2] input else input);
          permutation = softmax_permutation rank axis;
          permutedInputShape = map (\<lambda>d. shape ! nat d) permutation;
          moved = (if axis \<noteq> rank - 1 then emitTranspose (RankedTensor permutedInputShape F32) permutation logical else logical);
          signed = (if \<not> largest then createTFLOperation ''tfl.neg'' [RankedTensor permutedInputShape F32] [moved] [] 0 else moved);
          permutedResultShape = permutedInputShape[length shape - 1 := k];
          types = [RankedTensor permutedResultShape F32, RankedTensor permutedResultShape I32];
          operands = [signed, createI32ScalarTensorConstant (i32 k)];
          values = createTFLOperation ''tfl.topk_v2'' types operands [] 0;
          indices = createTFLOperation ''tfl.topk_v2'' types operands [] 1;
          values' = (if \<not> largest then createTFLOperation ''tfl.neg'' [RankedTensor permutedResultShape F32] [values] [] 0 else values);
          inversePermutation = fill_inverse permutation 0 (replicate (length shape) 0);
          values'' = (if axis \<noteq> rank - 1 then emitTranspose (RankedTensor resultShape F32) inversePermutation values' else values');
          indices' = (if axis \<noteq> rank - 1 then emitTranspose (RankedTensor resultShape I32) inversePermutation indices else indices);
          indicesI64 = createTFLOperation ''tfl.cast'' [indexType] [indices'] [] 0 in
      (if rank = 4 then emitTranspose (convertRank4NCHWToNHWCType valueType) [0, 2, 3, 1] values'' else values'', indicesI64))"

definition lower_topk :: "'f topk_op \<Rightarrow> ('f val \<times> 'f val) result" where
  "lower_topk op =
     (case (oty (tk_input op), tk_values op, tk_indices op) of
        (RankedTensor inShape ie, RankedTensor valueShape ve, RankedTensor indexShape xe) \<Rightarrow>
          if \<not> hasStaticShape inShape \<or> \<not> hasStaticShape valueShape \<or> \<not> hasStaticShape indexShape \<or> \<not> isF32 ie \<or> \<not> isF32 ve \<or>
             \<not> isSignlessInteger 64 xe \<or> valueShape \<noteq> indexShape then Inl BadTypes
          else
            let rank = getRank inShape in
            if rank < 1 \<or> 5 < rank then Inl BadRank
            else
              let axis = normalizeAxis (tk_axis op) rank in
              if axis < 0 \<or> rank \<le> axis then Inl BadAxis
              else if (tk_largest op \<noteq> 0 \<and> tk_largest op \<noteq> 1) \<or> (tk_sorted op \<noteq> 0 \<and> tk_sorted op \<noteq> 1) then Inl BadAttribute
              else (case getConstantIntValues (tk_k op) of
                  None \<Rightarrow> Inl NonConstant
                | Some kValues \<Rightarrow>
                    if length kValues \<noteq> 1 then Inl NonConstant
                    else
                      let k = hd kValues in
                      if k \<le> 0 \<or> inShape ! nat axis < k \<or> int32_max < k then Inl OutOfBounds
                      else if inShape[nat axis := k] \<noteq> valueShape then Inl ShapeMismatch
                      else Inr (emit_topk inShape axis k (tk_largest op \<noteq> 0) (tk_values op) (tk_indices op) (adaptor 0 (tk_input op))))
      | _ \<Rightarrow> Inl BadTypes)"

section \<open>What ONNX defines\<close>

text \<open>
  Position \<open>i\<close> of a row comes before position \<open>j\<close>: it holds the better element, and of equal elements the one
  with the lower index comes first.
\<close>

definition beats :: "('s \<Rightarrow> 's \<Rightarrow> bool) \<Rightarrow> 's list \<Rightarrow> nat \<Rightarrow> nat \<Rightarrow> bool" where
  "beats better xs i j \<longleftrightarrow> better (xs ! i) (xs ! j) \<or> (\<not> better (xs ! j) (xs ! i) \<and> i < j)"

definition ranks_row :: "('s \<Rightarrow> 's \<Rightarrow> bool) \<Rightarrow> 's list \<Rightarrow> nat list \<Rightarrow> bool" where
  "ranks_row better xs p \<longleftrightarrow> distinct p \<and> set p = {..<length xs} \<and> sorted_wrt (beats better xs) p"

text \<open>What the kernel promises about its order, on rows of numbers.\<close>

locale tfl_topk_order = tfl_topk sem order for sem :: "'f sem" and order +
  fixes less :: "'f scalar \<Rightarrow> 'f scalar \<Rightarrow> bool" and num :: "'f scalar \<Rightarrow> bool"
  assumes descending: "\<forall>x\<in>set xs. num x \<Longrightarrow> sorted_wrt (beats (\<lambda>x y. less y x) xs) (order xs)"
    and less_asym: "num x \<Longrightarrow> num y \<Longrightarrow> less x y \<Longrightarrow> \<not> less y x"

text \<open>Two lists that rank the same row agree.\<close>

lemma sorted_wrt_unique:
  assumes "sorted_wrt R xs" "sorted_wrt R ys" "distinct xs" "distinct ys" "set xs = set ys"
    and "\<forall>i\<in>set xs. \<forall>j\<in>set xs. R i j \<longrightarrow> \<not> R j i"
  shows "xs = ys"
  using assms
proof (induction xs arbitrary: ys)
  case (Cons x xs)
  obtain y ys' where ys: "ys = y # ys'" using Cons.prems(5) by (cases ys) auto
  have xy: "x = y"
  proof (rule ccontr)
    assume "x \<noteq> y"
    then have m: "y \<in> set xs" "x \<in> set ys'" using Cons.prems(5) ys by auto
    then have "R x y" "R y x" using Cons.prems(1,2) ys by simp_all
    then show False using Cons.prems(6) m(1) by auto
  qed
  have "insert x (set xs) = insert x (set ys')" using Cons.prems(5) xy ys by simp
  then have "set xs = set ys'" using Cons.prems(3,4) xy ys by (simp add: insert_ident)
  then have "xs = ys'" using Cons.prems(1-4,6) ys by (intro Cons.IH) simp_all
  then show ?case by (simp add: ys xy)
qed simp

lemma ranks_row_unique:
  assumes "ranks_row better xs p" "ranks_row better xs q" "\<forall>x\<in>set xs. \<forall>y\<in>set xs. better x y \<longrightarrow> \<not> better y x"
  shows "p = q"
  using assms by (intro sorted_wrt_unique [of "beats better xs"]) (auto simp: ranks_row_def beats_def)

text \<open>The stable insertion sort of the positions ranks the row.\<close>

lemma sorted_beats_insort:
  fixes f :: "nat \<Rightarrow> int"
  assumes "sorted_wrt (\<lambda>i j. f i < f j \<or> (\<not> f j < f i \<and> i < j)) xs" and "\<forall>y\<in>set xs. x < y"
  shows "sorted_wrt (\<lambda>i j. f i < f j \<or> (\<not> f j < f i \<and> i < j)) (insort_key f x xs)"
  using assms by (induction xs) (auto simp: set_insort_key)

lemma sorted_beats_sort_key:
  fixes f :: "nat \<Rightarrow> int"
  shows "sorted_wrt (\<lambda>i j. f i < f j \<or> (\<not> f j < f i \<and> i < j)) (sort_key f [m..<n])"
proof (induction "n - m" arbitrary: m)
  case (Suc k)
  then have "sort_key f [m..<n] = insort_key f m (sort_key f [Suc m..<n])" by (simp add: upt_conv_Cons)
  then show ?case using Suc by (auto intro!: sorted_beats_insort)
qed simp

definition ref_less :: "int scalar \<Rightarrow> int scalar \<Rightarrow> bool" where
  "ref_less x y \<longleftrightarrow> int_of x < int_of y"

interpretation reference_topk_order: tfl_topk_order reference_sem ref_order ref_less is_float
proof unfold_locales
  fix xs :: "int scalar list"
  show "sorted_wrt (beats (\<lambda>x y. ref_less y x) xs) (ref_order xs)"
    using sorted_beats_sort_key [of "\<lambda>i. - int_of (xs ! i)" 0 "length xs"] by (simp add: ref_order_def beats_def [abs_def] ref_less_def)
qed (simp add: ref_less_def)

section \<open>Moving the axis\<close>

lemma tshape_ttopk [simp]: "tshape (ttopk a k order f t) = (tshape t)[a := k]" and wf_ttopk [simp]: "wf_tensor (ttopk a k order f t)"
  by (simp_all add: ttopk_def)

lemma ttranspose_ttopk:
  assumes p: "is_perm p (trank t)" and a: "a < trank t" and k: "k \<le> tshape t ! a"
  shows "ttranspose p (ttopk a k order f t) = ttopk (ipos p a) k order f (ttranspose p t)"
proof (rule tensor_transpose_eqI)
  show "tshape (ttopk (ipos p a) k order f (ttranspose p t)) = permute p (tshape (ttopk a k order f t))"
    using p a by (simp add: permute_update [OF p])
  fix "is" assume v: "valid_ix (tshape (ttopk a k order f t)) is"
  have v': "valid_ix (tshape t) is"
  proof (rule valid_ixI)
    show l: "length is = trank t" using valid_ix_length [OF v] by simp
    fix j assume "j < trank t"
    then show "is ! j < tshape t ! j" using valid_ix_nth [OF v, of j] k by (cases "j = a") simp_all
  qed
  have "valid_ix (permute p ((tshape t)[a := k])) (permute p is)" using p v by (intro valid_ix_permuteI) simp_all
  then show "tnth (ttopk (ipos p a) k order f (ttranspose p t)) (permute p is) = tnth (ttopk a k order f t) is"
    using v p a trow_ttranspose [OF p a v'] nth_permute_ipos [OF p a, of "is"]
    by (simp add: ttopk_def permute_update [OF p])
qed (use p in simp_all)

lemma ttopk_moved_last:
  assumes a: "a < trank t" "k \<le> tshape t ! a" and p: "p = last_perm (trank t) a"
  shows "ttranspose (inv_perm p) (ttopk (trank t - 1) k order f (ttranspose p t)) = ttopk a k order f t"
proof -
  have pp: "is_perm p (trank t)" "ipos p a = trank t - 1" using a(1) p by (simp_all add: is_perm_last_perm)
  then have "ttranspose (inv_perm p) (ttopk (trank t - 1) k order f (ttranspose p t)) = ttranspose (inv_perm p) (ttranspose p (ttopk a k order f t))"
    using ttranspose_ttopk [OF pp(1) a, of order f] by simp
  also have "\<dots> = ttopk a k order f t"
  proof (rule ttranspose_inverse)
    show "permute (inv_perm p) p = [0..<trank (ttopk a k order f t)]"
      using nth_ipos [of _ p] is_perm_set [OF pp(1)] is_perm_length [OF pp(1)]
      by (auto simp: permute_def inv_perm_def intro!: nth_equalityI)
  qed (use pp in auto)
  finally show ?thesis .
qed

section \<open>The order of the rows\<close>

lemma trow_valid:
  assumes a: "a < trank t" "k \<le> tshape t ! a" and v: "valid_ix ((tshape t)[a := k]) is" and j: "j < tshape t ! a"
  shows "valid_ix (tshape t) (is[a := j])"
proof (rule valid_ixI)
  show l: "length (is[a := j]) = trank t" using valid_ix_length [OF v] by simp
  fix i assume "i < trank t"
  then show "is[a := j] ! i < tshape t ! i" using valid_ix_nth [OF v, of i] j l by (cases "i = a") simp_all
qed

lemma trow_tmap:
  assumes "wf_tensor t" "a < trank t" "k \<le> tshape t ! a" "valid_ix ((tshape t)[a := k]) is"
  shows "trow a (tmap g t) is = map g (trow a t is)"
  using assms trow_valid [OF assms(2-4)] by (simp add: trow_def tnth_tmap)

lemma ttopk_cong:
  assumes t: "wf_tensor t" "\<forall>x\<in>set (tdata t). num x" and a: "a < trank t" "k \<le> tshape t ! a"
    and f: "\<And>xs i. length xs = tshape t ! a \<Longrightarrow> \<forall>x\<in>set xs. num x \<Longrightarrow> i < k \<Longrightarrow> f xs (order xs ! i) = g xs (rank xs ! i)"
  shows "ttopk a k order f t = ttopk a k rank g t"
  unfolding ttopk_def
proof (rule tgen_cong)
  fix "is" assume v: "valid_ix ((tshape t)[a := k]) is"
  have "is ! a < k" using valid_ix_nth [OF v, of a] a(1) by simp
  moreover have "\<forall>x\<in>set (trow a t is). num x"
    using t trow_valid [OF a v] ravel_less by (fastforce simp: trow_def tnth_def wf_tensor_def)
  ultimately show "f (trow a t is) (order (trow a t is) ! (is ! a)) = g (trow a t is) (rank (trow a t is) ! (is ! a))"
    by (intro f) (simp_all add: trow_def)
qed simp

lemma ttopk_tmap:
  assumes "wf_tensor t" "a < trank t" "k \<le> tshape t ! a"
  shows "ttopk a k order f (tmap g t) = ttopk a k (\<lambda>xs. order (map g xs)) (\<lambda>xs. f (map g xs)) t"
  unfolding ttopk_def using assms by (simp, intro tgen_cong) (simp_all add: trow_tmap)

lemma tmap_ttopk: "tmap g (ttopk a k order f t) = ttopk a k order (\<lambda>xs i. g (f xs i)) t"
  by (rule tensor_eqI) (simp_all add: ttopk_def tnth_tmap)

context tfl_topk_order
begin

lemma order_ranks: "\<forall>x\<in>set xs. num x \<Longrightarrow> ranks_row (\<lambda>x y. less y x) xs (order xs)"
  using order descending by (simp add: ranks_row_def)

lemma order_largest:
  assumes "\<forall>x\<in>set xs. num x" "ranks_row (\<lambda>x y. less y x) xs p" shows "order xs = p"
  using order_ranks [OF assms(1)] assms less_asym by (intro ranks_row_unique) auto

lemma order_smallest:
  assumes x: "\<forall>x\<in>set xs. num x" and p: "ranks_row less xs p"
    and neg: "\<And>x. num x \<Longrightarrow> num (negf x)" "\<And>x y. num x \<Longrightarrow> num y \<Longrightarrow> less (negf x) (negf y) = less y x"
  shows "order (map negf xs) = p"
proof (rule ranks_row_unique)
  have "ranks_row (\<lambda>x y. less y x) (map negf xs) (order (map negf xs))" using x neg(1) by (intro order_ranks) auto
  moreover have "sorted_wrt (beats less xs) q" if "sorted_wrt (beats (\<lambda>x y. less y x) (map negf xs)) q" "set q = {..<length xs}" for q
    using that(1) by (rule sorted_wrt_mono_rel [rotated]) (use x neg(2) that(2) in \<open>auto simp: beats_def\<close>)
  ultimately show "ranks_row less xs (order (map negf xs))" by (simp add: ranks_row_def)
qed (use p x less_asym in auto)

end

section \<open>The created operations\<close>

lemma last_perm_id: "0 < n \<Longrightarrow> last_perm n (n - Suc 0) = [0..<n]"
  by (cases n) (auto simp: last_perm_def filter_id_conv)

lemma inv_perm_id: "inv_perm [0..<n] = [0..<n]"
proof -
  have "ipos [0..<n] k = k" if "k < n" for k using ipos_nth [of "[0..<n]" k] that by simp
  then show ?thesis by (auto simp: inv_perm_def intro: nth_equalityI)
qed

text \<open>A transpose that is left out when the axis is already the last one.\<close>

lemma eval_move_axis:
  assumes lay: "tfl_layout sem" and x: "wf_tensor x" "eval sem env v = x" and a: "a < trank x" "trank x \<le> 5"
    and q: "q = last_perm (trank x) a \<or> q = inv_perm (last_perm (trank x) a)" and ty: "conforms ty (ttranspose q x)"
  shows "eval sem env (if int a \<noteq> int (trank x) - 1 then emitTranspose ty (map int q) v else v) = ttranspose q x"
proof (cases "a = trank x - 1")
  case True
  moreover have "0 < trank x" using a(1) by linarith
  ultimately have "q = [0..<trank x]" using q by (auto simp: last_perm_id inv_perm_id)
  moreover have "int a = int (trank x) - 1" using True a(1) by linarith
  ultimately show ?thesis using x by (simp add: ttranspose_id)
next
  case False
  then have "int a \<noteq> int (trank x) - 1" by linarith
  moreover have "is_perm q (trank x)" using q is_perm_last_perm(1) [OF a(1)] by auto
  ultimately show ?thesis using tfl_transpose_op [OF lay x _ _ ty] a(2) by (simp add: emitTranspose_def)
qed

context tfl_topk_order
begin

lemma eval_topk:
  assumes "wf_tensor x" "0 < trank x" "0 < k" "k \<le> tshape x ! (trank x - 1)" "k < 2 ^ 31" "eval sem env v = x"
    and tys: "tys = [RankedTensor (map int ((tshape x)[trank x - 1 := k])) F32, RankedTensor (map int ((tshape x)[trank x - 1 := k])) I32]"
  shows "eval sem env (createTFLOperation ''tfl.topk_v2'' tys [v, createI32ScalarTensorConstant (i32 (int k))] [] 0) =
      ttopk (trank x - 1) k order (\<lambda>xs i. xs ! i) x"
    and "eval sem env (createTFLOperation ''tfl.topk_v2'' tys [v, createI32ScalarTensorConstant (i32 (int k))] [] 1) =
      ttopk (trank x - 1) k order (\<lambda>xs i. IV (int i)) x"
proof -
  have "i32 (int k) = int k" using assms(5) by (intro i32_id) (simp add: fits_i32_def)
  then have "eval sem env (createI32ScalarTensorConstant (i32 (int k))) = i32_scalar (int k)"
    by (simp add: createI32ScalarTensorConstant_def i32_scalar_def)
  moreover have "sem ''tfl.topk_v2'' [] tys [x, i32_scalar (int k)] =
      [ttopk (trank x - 1) k order (\<lambda>xs i. xs ! i) x, ttopk (trank x - 1) k order (\<lambda>xs i. IV (int i)) x]"
    using assms(1-4) by (intro topk_v2) (simp_all add: tys conforms_Ranked declares_def)
  ultimately show "eval sem env (createTFLOperation ''tfl.topk_v2'' tys [v, createI32ScalarTensorConstant (i32 (int k))] [] 0) =
      ttopk (trank x - 1) k order (\<lambda>xs i. xs ! i) x"
    and "eval sem env (createTFLOperation ''tfl.topk_v2'' tys [v, createI32ScalarTensorConstant (i32 (int k))] [] 1) =
      ttopk (trank x - 1) k order (\<lambda>xs i. IV (int i)) x"
    using assms(6) by simp_all
qed

end

text \<open>The laws of the negation that the smallest elements need.\<close>

locale tfl_negation = tfl_unary sem "''tfl.neg''" "[]" negf for sem :: "'f sem" and negf +
  fixes less :: "'f scalar \<Rightarrow> 'f scalar \<Rightarrow> bool" and num :: "'f scalar \<Rightarrow> bool"
  assumes num_neg: "num x \<Longrightarrow> num (negf x)" and neg_neg: "num x \<Longrightarrow> negf (negf x) = x"
    and less_neg: "num x \<Longrightarrow> num y \<Longrightarrow> less (negf x) (negf y) = less y x"

interpretation reference_negation: tfl_negation reference_sem "ref_un uminus" ref_less is_float
  by unfold_locales (auto simp: is_float_def ref_un_def ref_less_def int_of_def split: scalar.splits)

lemma emit_topk_results:
  assumes tk: "tfl_topk_order sem order lessf num" and ng: "\<not> largest \<longrightarrow> tfl_unary sem ''tfl.neg'' [] negf"
    and t: "wf_tensor t" "eval sem env v = t" "0 < trank t" "trank t \<le> 5" and a: "a < trank t" "0 < k" "k \<le> tshape t ! a" "k < 2 ^ 31"
  defines "shape \<equiv> map int (tshape t)" and "perm \<equiv> map int (last_perm (trank t) a)" and "bperm \<equiv> map int (inv_perm (last_perm (trank t) a))"
  defines "pshape \<equiv> map (\<lambda>d. shape ! nat d) perm"
  defines "moved \<equiv> if int a \<noteq> int (trank t) - 1 then emitTranspose (RankedTensor pshape F32) perm v else v"
  defines "kin \<equiv> if \<not> largest then createTFLOperation ''tfl.neg'' [RankedTensor pshape F32] [moved] [] 0 else moved"
  defines "rshape \<equiv> pshape[length shape - 1 := int k]"
  defines "call \<equiv> createTFLOperation ''tfl.topk_v2'' [RankedTensor rshape F32, RankedTensor rshape I32] [kin, createI32ScalarTensorConstant (i32 (int k))] []"
  defines "values \<equiv> if \<not> largest then createTFLOperation ''tfl.neg'' [RankedTensor rshape F32] [call 0] [] 0 else call 0"
  defines "Ord \<equiv> \<lambda>xs. order (if largest then xs else map negf xs)" and "F \<equiv> \<lambda>xs i. if largest then xs ! i else negf (map negf xs ! i)"
  shows "vtype (if int a \<noteq> int (trank t) - 1 then emitTranspose (RankedTensor (shape[a := int k]) F32) bperm values else values) =
      RankedTensor (shape[a := int k]) F32"
    and "eval sem env (if int a \<noteq> int (trank t) - 1 then emitTranspose (RankedTensor (shape[a := int k]) F32) bperm values else values) = ttopk a k Ord F t"
    and "eval sem env (if int a \<noteq> int (trank t) - 1 then emitTranspose (RankedTensor (shape[a := int k]) I32) bperm (call 1) else call 1) =
      ttopk a k Ord (\<lambda>xs i. IV (int i)) t"
proof -
  let ?p = "last_perm (trank t) a" let ?y = "ttranspose ?p t" let ?l = "trank t - 1"
  let ?s = "if largest then ?y else tmap negf ?y"
  have lay: "tfl_layout sem" using tk by (simp add: tfl_topk_order_def tfl_topk_def)
  have pp: "is_perm ?p (trank t)" "ipos ?p a = ?l" using a(1) by (simp_all add: is_perm_last_perm)
  have ps: "pshape = map int (tshape ?y)" using pp(1) by (auto simp: pshape_def perm_def shape_def permute_def is_perm_def)
  have ry: "trank ?y = trank t" using pp(1) by (simp add: is_perm_length)
  have ky: "k \<le> tshape ?y ! ?l" using nth_permute_ipos [OF pp(1) a(1), of "tshape t"] pp(2) a(3) by simp
  have rs: "rshape = map int ((tshape ?y)[?l := k])" unfolding rshape_def ps shape_def by (simp add: map_update)
  have mv: "eval sem env moved = ?y"
    unfolding moved_def perm_def ps using t a(1) by (intro eval_move_axis [OF lay]) (simp_all add: conforms_Ranked)
  have sg: "eval sem env kin = ?s"
    using mv tfl_unary.eval_unary [OF ng [rule_format], of ?y env moved "RankedTensor pshape F32"]
    by (simp add: kin_def ps conforms_Ranked del: eval_createTFLOperation)
  have ss: "wf_tensor ?s" "tshape ?s = tshape ?y" by simp_all
  note call = tfl_topk_order.eval_topk [OF tk ss(1), of k env kin "[RankedTensor rshape F32, RankedTensor rshape I32]",
    unfolded ss(2) ry, OF t(3) a(2) ky a(4) sg]
  have cl: "eval sem env (call 0) = ttopk ?l k order (\<lambda>xs i. xs ! i) ?s" "eval sem env (call 1) = ttopk ?l k order (\<lambda>xs i. IV (int i)) ?s"
    unfolding call_def by (rule call; simp add: rs)+
  have ly: "?l < trank ?y" using ry t(3) by simp
  have sw: "ttopk ?l k order f ?s = ttopk ?l k Ord (\<lambda>xs. f (if largest then xs else map negf xs)) ?y" for f :: "'a scalar list \<Rightarrow> nat \<Rightarrow> 'a scalar"
    using ttopk_tmap [of ?y ?l k order f negf] ly ky by (simp add: Ord_def)
  have vl: "eval sem env values = ttopk ?l k Ord F ?y"
  proof (cases largest)
    case True
    then show ?thesis using cl(1) sw [of "(!)"] by (simp add: values_def F_def del: eval_createTFLOperation)
  next
    case False
    have "eval sem env (createTFLOperation ''tfl.neg'' [RankedTensor rshape F32] [call 0] [] 0) = tmap negf (ttopk ?l k order (\<lambda>xs i. xs ! i) ?s)"
      using False cl(1) by (intro tfl_unary.eval_unary [OF ng [rule_format]]) (simp_all add: rs conforms_Ranked)
    then show ?thesis using False sw [of "\<lambda>xs i. negf (xs ! i)"] by (simp add: values_def F_def tmap_ttopk del: eval_createTFLOperation)
  qed
  have ix: "eval sem env (call 1) = ttopk ?l k Ord (\<lambda>xs i. IV (int i)) ?y" using cl(2) sw [of "\<lambda>_ i. IV (int i)"] by simp
  have bk: "ttranspose (inv_perm ?p) (ttopk ?l k Ord f ?y) = ttopk a k Ord f t" for f :: "'a scalar list \<Rightarrow> nat \<Rightarrow> 'a scalar"
    using a by (intro ttopk_moved_last) simp_all
  have rk: "trank (ttopk ?l k Ord f ?y) = trank t" for f :: "'a scalar list \<Rightarrow> nat \<Rightarrow> 'a scalar" using ry by simp
  have "rshape = shape[a := int k]" if "int a = int (trank t) - 1"
  proof -
    have "a = trank t - Suc 0" using that by linarith
    then show ?thesis using t(3) by (simp add: rs last_perm_id permute_id shape_def map_update)
  qed
  then show "vtype (if int a \<noteq> int (trank t) - 1 then emitTranspose (RankedTensor (shape[a := int k]) F32) bperm values else values) =
      RankedTensor (shape[a := int k]) F32"
    by (simp add: emitTranspose_def values_def call_def)
  show "eval sem env (if int a \<noteq> int (trank t) - 1 then emitTranspose (RankedTensor (shape[a := int k]) F32) bperm values else values) = ttopk a k Ord F t"
    unfolding bperm_def shape_def
    by (rule eval_move_axis [OF lay wf_ttopk vl, unfolded rk, OF a(1) t(4) disjI2 [OF refl], unfolded bk]) (simp add: conforms_Ranked map_update)
  show "eval sem env (if int a \<noteq> int (trank t) - 1 then emitTranspose (RankedTensor (shape[a := int k]) I32) bperm (call 1) else call 1) =
      ttopk a k Ord (\<lambda>xs i. IV (int i)) t"
    unfolding bperm_def shape_def
    by (rule eval_move_axis [OF lay wf_ttopk ix, unfolded rk, OF a(1) t(4) disjI2 [OF refl], unfolded bk]) (simp add: conforms_Ranked map_update)
qed

text \<open>
  C15: when the TopK pattern succeeds, the two created values represent what ONNX defines on the logical operand:
  of every row along the axis the first k elements, and their positions, in the order that ranks the row
  (largest first or smallest first, the lower index first among equals). Any \<open>rank\<close> with
  that property is meant, and there is only one.
\<close>

theorem lower_topk_correct:
  fixes sem :: "'f sem"
  assumes sem: "tfl_topk_order sem order lessf num" "tfl_negation sem negf lessf num" "tfl_cast sem conv"
    and conv: "\<forall>i. conv I64 (IV i) = IV i"
    and low: "lower_topk op = Inr (vals, idx)"
    and t: "conforms (oty (tk_input op)) t" "env 0 = phys (oty (tk_input op)) t" "\<forall>x\<in>set (tdata t). num x"
    and a: "a = nat (normalizeAxis (tk_axis op) (int (trank t)))" and k: "getConstantIntValues (tk_k op) = Some [int k]"
    and rk: "\<forall>xs. (\<forall>x\<in>set xs. num x) \<longrightarrow> ranks_row (if tk_largest op = 1 then \<lambda>x y. lessf y x else lessf) xs (rank xs)"
  shows "represents sem env vals (tk_values op) (ttopk a k rank (\<lambda>xs i. xs ! i) t) \<and>
    represents sem env idx (tk_indices op) (ttopk a k rank (\<lambda>xs i. IV (int i)) t)"
proof -
  let ?ity = "oty (tk_input op)" and ?in = "adaptor 0 (tk_input op)" and ?lg = "tk_largest op \<noteq> 0"
  obtain ie where ity: "?ity = RankedTensor (map int (tshape t)) ie" and wt: "wf_tensor t" using t(1) by (auto simp: conforms_def)
  obtain vs ve where vty: "tk_values op = RankedTensor vs ve" using low by (auto simp: lower_topk_def ity split: mtype.splits)
  obtain ns ne where nty: "tk_indices op = RankedTensor ns ne" using low by (auto simp: lower_topk_def ity vty split: mtype.splits)
  have c: "isF32 ie" "isF32 ve" "ne = I64" "ns = vs" "vs = (map int (tshape t))[a := int k]" "0 < trank t" "trank t \<le> 5" "a < trank t"
    "0 < k" "k \<le> tshape t ! a" "int k \<le> int32_max" "tk_largest op = 0 \<or> tk_largest op = 1"
    and ax: "normalizeAxis (tk_axis op) (int (trank t)) = int a"
    and v: "(vals, idx) = emit_topk (map int (tshape t)) (int a) (int k) ?lg (tk_values op) (tk_indices op) ?in"
    using low a k by (auto simp: lower_topk_def ity vty nty Let_def isSignlessInteger_def split: if_splits)
  have k31: "k < 2 ^ 31" using c(11) by (simp add: int32_max_def)
  have p4: "physical4 ?ity \<longleftrightarrow> trank t = 4" "physical4 (tk_values op) \<longleftrightarrow> trank t = 4" "\<not> physical4 (tk_indices op)"
    using c by (simp_all add: ity vty nty physical4_def isF32_def)
  let ?x = "if trank t = 4 then emitTranspose (RankedTensor (map int (tshape t)) F32) [0, 3, 1, 2] ?in else ?in"
  have lay: "tfl_layout sem" using sem(3) by (simp add: tfl_cast_def)
  have "?x = (if physical4 ?ity then restoreLogicalRank4 ?ity ?in else ?in)"
    using p4(1) c(1) by (simp add: ity restoreLogicalRank4_def emitTranspose_def isF32_def)
  then have x: "eval sem env ?x = t" using tfl_layout.eval_logical_operand [OF lay t(1), of env ?in] t(2) by simp
  have "tfl_unary sem ''tfl.neg'' [] negf" using sem(2) by (simp add: tfl_negation_def)
  note res = emit_topk_results [OF sem(1) _ wt x c(6,7,8,9,10) k31, of ?lg negf, OF impI [OF this]]
  let ?O = "\<lambda>xs. order (if ?lg then xs else map negf xs)"
  have rank: "?O xs = rank xs" if n: "\<forall>x\<in>set xs. num x" for xs
  proof (cases ?lg)
    case True
    then show ?thesis using rk c(12) n by (simp add: tfl_topk_order.order_largest [OF sem(1) n])
  next
    case False
    then have "ranks_row lessf xs (rank xs)" using rk n by simp
    then have "order (map negf xs) = rank xs"
      using tfl_negation.num_neg [OF sem(2)] tfl_negation.less_neg [OF sem(2)] by (intro tfl_topk_order.order_smallest [OF sem(1) n])
    with False show ?thesis by simp
  qed
  have below: "rank xs ! i < length xs" if "\<forall>x\<in>set xs. num x" "i < k" "length xs = tshape t ! a" for xs i
  proof -
    have st: "set (rank xs) = {..<length xs}" "distinct (rank xs)" using rk that(1) by (simp_all add: ranks_row_def)
    then have "length (rank xs) = length xs" by (metis card_lessThan distinct_card)
    then show ?thesis using st(1) that(2,3) c(10) nth_mem [of i "rank xs"] by auto
  qed
  have vl: "ttopk a k ?O (\<lambda>xs i. if ?lg then xs ! i else negf (map negf xs ! i)) t = ttopk a k rank (\<lambda>xs i. xs ! i) t"
    using rank below tfl_negation.neg_neg [OF sem(2)] by (intro ttopk_cong [OF wt t(3) c(8,10)]) auto
  have nl: "ttopk a k ?O (\<lambda>xs i. IV (int i)) t = ttopk a k rank (\<lambda>xs i. IV (int i)) t"
    using rank by (intro ttopk_cong [OF wt t(3) c(8,10)]) auto
  have pp: "is_perm (last_perm (trank t) a) (trank t)" using c(8) by (rule is_perm_last_perm)
  have t4: "(int (trank t) = 4) = (trank t = 4)" by simp
  note em = v [unfolded emit_topk_def Let_def getRank_map_int softmax_permutation_int nat_int length_map t4 fill_inverse_inv_perm [OF pp]]
  have cv: "conforms (tk_values op) (ttopk a k rank (\<lambda>xs i. xs ! i) t)" "conforms (tk_indices op) (ttopk a k rank (\<lambda>xs i. IV (int i) :: 'f scalar) t)"
    using c by (simp_all add: vty nty conforms_Ranked map_update)
  note res = res [unfolded length_map]
  have tp: "emitTranspose (convertRank4NCHWToNHWCType ty) [0, 2, 3, 1] w = toPhysicalRank4 ty w" for ty and w :: "'f val"
    by (simp add: emitTranspose_def toPhysicalRank4_def)
  have vt: "RankedTensor ((map int (tshape t))[a := int k]) F32 = tk_values op" using c(2,5) by (simp add: vty isF32_def)
  show ?thesis
  proof
    show "represents sem env vals (tk_values op) (ttopk a k rank (\<lambda>xs i. xs ! i) t)"
      unfolding em [unfolded prod.inject, THEN conjunct1] tp
      by (rule tfl_layout.represents_physical_result [OF lay cv(1) trans [OF res(1) vt] trans [OF res(2) vl], unfolded p4(2)])
    have "eval sem env idx = ttopk a k rank (\<lambda>xs i. IV (int i)) t"
    proof -
      have "tmap (conv I64) (ttopk a k rank (\<lambda>xs i. IV (int i)) t) = ttopk a k rank (\<lambda>xs i. IV (int i)) t" using conv by (simp add: tmap_ttopk)
      then have "sem ''tfl.cast'' [] [tk_indices op] [ttopk a k rank (\<lambda>xs i. IV (int i)) t] = [ttopk a k rank (\<lambda>xs i. IV (int i)) t]"
        using tfl_cast.cast [OF sem(3), of "ttopk a k rank (\<lambda>xs i. IV (int i)) t" ns I64] cv(2) c(3) by (simp add: nty)
      then show ?thesis
        unfolding em [unfolded prod.inject, THEN conjunct2] eval_createTFLOperation list.map trans [OF res(3) nl] by simp
    qed
    moreover have "vtype idx = tk_indices op" unfolding em [unfolded prod.inject, THEN conjunct2] by simp
    ultimately show "represents sem env idx (tk_indices op) (ttopk a k rank (\<lambda>xs i. IV (int i)) t)"
      using p4(3) cv(2) by (intro represents_logical)
  qed
qed

definition topk_example :: "int topk_op" where
  "topk_example = \<lparr>tk_input = \<lparr>oty = RankedTensor [1, 2, 2, 3] F32, oattr = None\<rparr>,
     tk_k = \<lparr>oty = RankedTensor [1] I64, oattr = Some (IntElements I64 [1])\<rparr>,
     tk_axis = 1, tk_largest = 0, tk_sorted = 1, tk_values = RankedTensor [1, 1, 2, 3] F32, tk_indices = RankedTensor [1, 1, 2, 3] I64\<rparr>"

definition smallest_first :: "int scalar list \<Rightarrow> nat list" where
  "smallest_first xs = sort_key (\<lambda>i. int_of (xs ! i)) [0..<length xs]"

theorem lower_topk_correct_witness:
  "\<exists>vals idx. lower_topk topk_example = Inr (vals, idx) \<and>
     represents reference_sem (\<lambda>_. ttranspose to_nhwc nchw_example) vals (tk_values topk_example)
       (ttopk 1 1 smallest_first (\<lambda>xs i. xs ! i) nchw_example) \<and>
     represents reference_sem (\<lambda>_. ttranspose to_nhwc nchw_example) idx (tk_indices topk_example)
       (ttopk 1 1 smallest_first (\<lambda>xs i. IV (int i)) nchw_example)"
proof -
  have "\<not> failed (lower_topk topk_example)" by code_simp
  then obtain r where "lower_topk topk_example = Inr r" by (rule not_failedE)
  then obtain vals idx where low: "lower_topk topk_example = Inr (vals, idx)" by (cases r) simp
  have "represents reference_sem (\<lambda>_. ttranspose to_nhwc nchw_example) vals (tk_values topk_example)
       (ttopk 1 1 smallest_first (\<lambda>xs i. xs ! i) nchw_example) \<and>
     represents reference_sem (\<lambda>_. ttranspose to_nhwc nchw_example) idx (tk_indices topk_example)
       (ttopk 1 1 smallest_first (\<lambda>xs i. IV (int i)) nchw_example)"
  proof (rule lower_topk_correct [OF reference_topk_order.tfl_topk_order_axioms reference_negation.tfl_negation_axioms
        reference_cast.tfl_cast_axioms _ low])
    show "\<forall>i. ref_conv I64 (IV i) = IV i" by (simp add: ref_conv_def int_of_def)
    show "conforms (oty (tk_input topk_example)) nchw_example" "ttranspose to_nhwc nchw_example = phys (oty (tk_input topk_example)) nchw_example"
      "1 = nat (normalizeAxis (tk_axis topk_example) (int (trank nchw_example)))"
      by (simp_all add: topk_example_def example_simps normalizeAxis_def)
    show "\<forall>x\<in>set (tdata nchw_example). is_float x" by (simp add: nchw_example_def is_float_def)
    show "getConstantIntValues (tk_k topk_example) = Some [int 1]" by code_simp
    have "ranks_row ref_less xs (smallest_first xs)" for xs
      using sorted_beats_sort_key [of "\<lambda>i. int_of (xs ! i)" 0 "length xs"]
      by (simp add: ranks_row_def smallest_first_def beats_def [abs_def] ref_less_def atLeast0LessThan)
    then show "\<forall>xs. (\<forall>x\<in>set xs. is_float x) \<longrightarrow>
        ranks_row (if tk_largest topk_example = 1 then \<lambda>x y. ref_less y x else ref_less) xs (smallest_first xs)"
      by (simp add: topk_example_def)
  qed
  with low show ?thesis by blast
qed

end
