(* ===== verification/Lower_Norm.thy ===== *)
theory Lower_Norm
  imports Lower_Reduce Lower_Activation
begin

text \<open>
  \<^verbatim>\<open>NN/BatchNormalization.cpp\<close>, which folds the four parameters of a channel into a factor and an offset,
  and \<^verbatim>\<open>NN/LRN.cpp\<close>, which maps to the normalisation of TensorFlow Lite across the last axis.
\<close>

section \<open>Definitions\<close>

record 'f batch_norm_op =
  bn_input :: "'f operand"
  bn_scale :: "'f operand"
  bn_bias :: "'f operand"
  bn_mean :: "'f operand"
  bn_var :: "'f operand"
  bn_epsilon :: 'f
  bn_result :: mtype

definition validateParameter :: "int \<Rightarrow> mtype \<Rightarrow> bool" where
  "validateParameter channels ty =
     (case ty of RankedTensor shape e \<Rightarrow> getRank shape = 1 \<and> shape ! 0 = channels \<and> \<not> failed (validateStaticF32Tensor ty) | _ \<Rightarrow> False)"

definition emit_batch_norm :: "'f batch_norm_op \<Rightarrow> int list \<Rightarrow> int \<Rightarrow> 'f val" where
  "emit_batch_norm op inShape channels =
     (let parameterType = RankedTensor [channels] F32; epsilon = createF32ScalarTensorConstant (bn_epsilon op);
          fusedNone = [getFusedActivationNone]; rank = getRank inShape;
          varianceWithEpsilon = createTFLOperation ''tfl.add'' [parameterType] [adaptor 4 (bn_var op), epsilon] fusedNone 0;
          standardDeviation = createTFLOperation ''tfl.sqrt'' [parameterType] [varianceWithEpsilon] [] 0;
          factor = createTFLOperation ''tfl.div'' [parameterType] [adaptor 1 (bn_scale op), standardDeviation] fusedNone 0;
          scaledMean = createTFLOperation ''tfl.mul'' [parameterType] [adaptor 3 (bn_mean op), factor] fusedNone 0;
          offset = createTFLOperation ''tfl.sub'' [parameterType] [adaptor 2 (bn_bias op), scaledMean] fusedNone 0;
          broadcastShape = (replicate (length inShape) 1)[1 := channels];
          broadcast = (\<lambda>v. if rank = 3 \<or> rank = 5 then emitReshape (RankedTensor broadcastShape F32) broadcastShape v else v);
          physicalResultType = convertRank4NCHWToNHWCType (bn_result op);
          scaled = createTFLOperation ''tfl.mul'' [physicalResultType] [adaptor 0 (bn_input op), broadcast factor] fusedNone 0 in
      createTFLOperation ''tfl.add'' [physicalResultType] [scaled, broadcast offset] fusedNone 0)"

definition lower_batch_norm :: "'f batch_norm_op \<Rightarrow> 'f val result" where
  "lower_batch_norm op =
     (case (oty (bn_input op), bn_result op) of
        (RankedTensor inShape ie, RankedTensor outShape oe) \<Rightarrow>
          if getRank inShape < 2 \<or> 5 < getRank inShape \<or> failed (validateStaticF32Tensor (oty (bn_input op))) \<or>
             failed (validateStaticF32Tensor (bn_result op)) \<or> oty (bn_input op) \<noteq> bn_result op then Inl BadTypes
          else
            let channels = inShape ! 1 in
            if \<not> validateParameter channels (oty (bn_scale op)) \<or> \<not> validateParameter channels (oty (bn_bias op)) \<or>
               \<not> validateParameter channels (oty (bn_mean op)) \<or> \<not> validateParameter channels (oty (bn_var op)) then Inl BadTypes
            else Inr (emit_batch_norm op inShape channels)
      | _ \<Rightarrow> Inl BadTypes)"

text \<open>\<open>fdiv\<close> is the division of two floats and \<open>of_size\<close> the conversion of the attribute, which the compiler computes.\<close>

record 'f lrn_op =
  lrn_input :: "'f operand"
  lrn_size :: int
  lrn_alpha :: 'f
  lrn_beta :: 'f
  lrn_bias :: 'f
  lrn_result :: mtype

definition lower_lrn :: "('f \<Rightarrow> 'f \<Rightarrow> 'f) \<Rightarrow> (int \<Rightarrow> 'f) \<Rightarrow> 'f lrn_op \<Rightarrow> 'f val result" where
  "lower_lrn fdiv of_size op =
     (case (oty (lrn_input op), lrn_result op) of
        (RankedTensor inShape ie, RankedTensor outShape oe) \<Rightarrow>
          if getRank inShape \<noteq> 4 \<or> lrn_result op \<noteq> oty (lrn_input op) \<or> failed (validateStaticF32Tensor (oty (lrn_input op))) \<or>
             failed (validateStaticF32Tensor (lrn_result op)) then Inl BadTypes
          else
            let size = lrn_size op in
            if size \<le> 0 \<or> Prelude.cmod size 2 = 0 then Inl BadAttribute
            else
              let alpha = fdiv (lrn_alpha op) (of_size size);
                  attributes = [(''radius'', IntAttr (i32 (cdiv (size - 1) 2))), (''bias'', FloatAttr (lrn_bias op)),
                    (''alpha'', FloatAttr alpha), (''beta'', FloatAttr (lrn_beta op))] in
              Inr (createTFLOperation ''tfl.local_response_normalization'' [convertRank4NCHWToNHWCType (lrn_result op)]
                [adaptor 0 (lrn_input op)] attributes 0)
      | _ \<Rightarrow> Inl BadTypes)"

section \<open>A vector along one axis\<close>

lemma ravel_axis_vector:
  "ravel (replicate m 1 @ c # replicate n 1) (replicate m 0 @ i # replicate n 0) = i"
proof -
  have z: "ravel (replicate n (Suc 0)) (replicate n 0) = 0" for n by (induction n) simp_all
  have "ravel (c # replicate n 1) (i # replicate n 0) = i" by (simp add: z)
  then show ?thesis by (induction m) simp_all
qed

lemma bget_axis_vector:
  assumes w: "tshape w = replicate m 1 @ c # replicate n 1" and v: "valid_ix ds is" and a: "m \<le> a" "a + 1 + n = length ds" "ds ! a = c"
  shows "bget w is = tdata w ! (is ! a)"
proof -
  have l: "length is = length ds" using v by (rule valid_ix_length)
  have c: "is ! a < c" using valid_ix_nth [OF v, of a] a by simp
  have "bcast_ix (tshape w) is = replicate m 0 @ is ! a # replicate n 0"
  proof (rule nth_equalityI)
    show len: "length (bcast_ix (tshape w) is) = length (replicate m 0 @ is ! a # replicate n 0)" using l a by (simp add: bcast_ix_def w)
    fix k assume "k < length (bcast_ix (tshape w) is)"
    then have k: "k < m + 1 + n" unfolding len by simp
    have dr: "length is - length (tshape w) = a - m" using l a w by simp
    have "k < length is - (a - m)" "a - m \<le> length is" using k l a by linarith+
    then have "bcast_ix (tshape w) is ! k = (if tshape w ! k = 1 then 0 else is ! (a - m + k))"
      using k w unfolding bcast_ix_def dr by simp
    then show "bcast_ix (tshape w) is ! k = (replicate m 0 @ is ! a # replicate n 0) ! k"
      using k c a by (cases "k = m") (auto simp: w nth_append nth_Cons')
  qed
  then show ?thesis using ravel_axis_vector [of m c n "is ! a"] by (simp add: bget_def tnth_def w)
qed

lemma bcast_axis_vector:
  assumes "m \<le> a" "a + 1 + n = length ds" "ds ! a = c"
  shows "bcast_shape ds (replicate m 1 @ c # replicate n 1) = ds" "bcast_compat ds (replicate m 1 @ c # replicate n 1)"
proof -
  let ?S = "replicate m 1 @ c # replicate n 1"
  have mx: "max (length ds) (length ?S) = length ds" using assms by simp
  have pl: "pad_left (length ds) ds = ds" by (simp add: pad_left_def)
  have ps: "pad_left (length ds) ?S ! k = (if k = a then c else 1)" if "k < length ds" for k
    using that assms by (auto simp: pad_left_def nth_append nth_Cons')
  have lp: "length (pad_left (length ds) ?S) = length ds" using assms by (simp add: pad_left_def)
  show "bcast_shape ds ?S = ds"
    using ps lp assms(3) by (intro nth_equalityI) (simp_all add: bcast_shape_def Let_def mx pl bcast_dim_def)
  show "bcast_compat ds ?S"
    using ps lp assms(3) by (simp add: bcast_compat_def Let_def mx pl list_all2_conv_all_nth)
qed

lemma tmap2_axis_vector:
  assumes "tshape w = replicate m 1 @ c # replicate n 1" "m \<le> a" "a + 1 + n = trank x" "tshape x ! a = c"
  shows "tmap2 f x w = tgen (tshape x) (\<lambda>is. f (tnth x is) (tdata w ! (is ! a)))"
  unfolding tmap2_bget assms(1) bcast_axis_vector(1) [OF assms(2-4)]
  by (rule tgen_cong) (simp_all add: bget_self bget_axis_vector [OF assms(1) _ assms(2-4)])

section \<open>BatchNormalization\<close>

text \<open>What the created operations compute for one element, and what ONNX defines.\<close>

definition folded_norm ::
  "('s \<Rightarrow> 's \<Rightarrow> 's) \<Rightarrow> ('s \<Rightarrow> 's \<Rightarrow> 's) \<Rightarrow> ('s \<Rightarrow> 's \<Rightarrow> 's) \<Rightarrow> ('s \<Rightarrow> 's \<Rightarrow> 's) \<Rightarrow> ('s \<Rightarrow> 's) \<Rightarrow> 's \<Rightarrow> 's \<Rightarrow> 's \<Rightarrow> 's \<Rightarrow> 's \<Rightarrow> 's \<Rightarrow> 's" where
  "folded_norm addf subf mulf divf sqrtf eps x s b m v =
     (let factor = divf s (sqrtf (addf v eps)) in addf (mulf x factor) (subf b (mulf m factor)))"

lemma folded_norm_real:
  "folded_norm (+) (-) (*) (/) sqrt eps x s b m v = (x - m) / sqrt (v + eps) * s + (b :: real)"
  by (simp add: folded_norm_def Let_def diff_divide_distrib algebra_simps)

definition onnx_batch_norm :: "('a \<Rightarrow> 'a \<Rightarrow> 'a \<Rightarrow> 'a \<Rightarrow> 'a \<Rightarrow> 'a) \<Rightarrow> 'a tensor \<Rightarrow> 'a list \<Rightarrow> 'a list \<Rightarrow> 'a list \<Rightarrow> 'a list \<Rightarrow> 'a tensor" where
  "onnx_batch_norm f t s b m v = tgen (tshape t) (\<lambda>is. let c = is ! 1 in f (tnth t is) (s ! c) (b ! c) (m ! c) (v ! c))"

locale tfl_norm =
  ar: tfl_arith sem addf subf mulf divf maxf minf +
  sq: tfl_unary sem "''tfl.sqrt''" "[]" sqrtf
  for sem :: "'f sem" and addf subf mulf divf maxf minf sqrtf
begin

lemma eval_vector_op:
  assumes nm: "tfl_binary sem nm attrs f 5" and l: "length xs = n" "length ys = n"
    and ev: "eval sem env a = Tensor [n] xs" "eval sem env b = Tensor [n] ys"
  shows "eval sem env (createTFLOperation nm [RankedTensor [int n] e] [a, b] attrs 0) = Tensor [n] (map2 f xs ys)"
proof -
  have w: "wf_tensor (Tensor [n] xs)" "wf_tensor (Tensor [n] ys)" using l by (simp_all add: wf_tensor_def)
  have m: "tmap2 f (Tensor [n] xs) (Tensor [n] ys) = Tensor [n] (map2 f xs ys)" using tmap2_same_shape [OF w] by simp
  then show ?thesis
    using tfl_binary.eval_direct [OF nm ev w, of "RankedTensor [int n] e"] l by (simp add: conforms_Ranked wf_tensor_def)
qed

text \<open>The five operations on the parameters.\<close>

lemma eval_parameters:
  fixes eps :: 'f
  assumes l: "length s = n" "length b = n" "length m = n" "length v = n"
    and ev: "eval sem env sv = Tensor [n] s" "eval sem env bv = Tensor [n] b" "eval sem env mv = Tensor [n] m" "eval sem env vv = Tensor [n] v"
  defines "ty \<equiv> RankedTensor [int n] F32"
  defines "std \<equiv> createTFLOperation ''tfl.sqrt'' [ty] [createTFLOperation ''tfl.add'' [ty] [vv, createF32ScalarTensorConstant eps] [getFusedActivationNone] 0] [] 0"
  defines "fac \<equiv> createTFLOperation ''tfl.div'' [ty] [sv, std] [getFusedActivationNone] 0"
  defines "off \<equiv> createTFLOperation ''tfl.sub'' [ty] [bv, createTFLOperation ''tfl.mul'' [ty] [mv, fac] [getFusedActivationNone] 0] [getFusedActivationNone] 0"
  defines "fs \<equiv> map (\<lambda>c. divf (s ! c) (sqrtf (addf (v ! c) (FV eps)))) [0..<n]"
  shows "eval sem env fac = Tensor [n] fs" and "eval sem env off = Tensor [n] (map (\<lambda>c. subf (b ! c) (mulf (m ! c) (fs ! c))) [0..<n])"
proof -
  let ?ve = "createTFLOperation ''tfl.add'' [ty] [vv, createF32ScalarTensorConstant eps] [getFusedActivationNone] 0"
  have wv: "wf_tensor (Tensor [n] v)" using l by (simp add: wf_tensor_def)
  have "eval sem env ?ve = tmap (\<lambda>x. addf x (FV eps)) (Tensor [n] v)"
    using ev(4) wv l by (intro ar.add.eval_scalar_right) (simp_all add: ty_def conforms_Ranked)
  then have "eval sem env std = tmap sqrtf (tmap (\<lambda>x. addf x (FV eps)) (Tensor [n] v))"
    unfolding std_def using wv by (intro sq.eval_unary) (simp_all add: ty_def conforms_Ranked)
  then have std: "eval sem env std = Tensor [n] (map (\<lambda>x. sqrtf (addf x (FV eps))) v)" by (simp add: tmap_def comp_def)
  have "eval sem env fac = Tensor [n] (map2 divf s (map (\<lambda>x. sqrtf (addf x (FV eps))) v))"
    unfolding fac_def ty_def using l ev(1) std by (intro eval_vector_op ar.divi.tfl_binary_axioms) simp_all
  also have "map2 divf s (map (\<lambda>x. sqrtf (addf x (FV eps))) v) = fs" using l by (auto simp: fs_def intro: nth_equalityI)
  finally show f: "eval sem env fac = Tensor [n] fs" .
  have lf: "length fs = n" by (simp add: fs_def)
  have "eval sem env (createTFLOperation ''tfl.mul'' [ty] [mv, fac] [getFusedActivationNone] 0) = Tensor [n] (map2 mulf m fs)"
    unfolding ty_def using l(3) lf ev(3) f by (intro eval_vector_op ar.mul.tfl_binary_axioms) simp_all
  then have "eval sem env off = Tensor [n] (map2 subf b (map2 mulf m fs))"
    unfolding off_def ty_def using l lf by (intro eval_vector_op [OF ar.sub.tfl_binary_axioms l(2) _ ev(2)]) simp_all
  also have "map2 subf b (map2 mulf m fs) = map (\<lambda>c. subf (b ! c) (mulf (m ! c) (fs ! c))) [0..<n]"
    using l lf by (auto intro: nth_equalityI)
  finally show "eval sem env off = Tensor [n] (map (\<lambda>c. subf (b ! c) (mulf (m ! c) (fs ! c))) [0..<n])" .
qed

end

context tfl_norm
begin

text \<open>A vector along the channels, scaled and added to the input.\<close>

lemma eval_scale_shift:
  assumes x: "wf_tensor x" "eval sem env xv = x" "trank x \<le> 5" and a: "a < trank x" "tshape x ! a = n" "m \<le> a"
    and sh: "S = replicate m 1 @ n # replicate (trank x - 1 - a) 1" and l: "length fs = n" "length os = n"
    and ev: "eval sem env fv = Tensor S fs" "eval sem env ov = Tensor S os" and ty: "conforms ty x"
  shows "eval sem env (createTFLOperation ''tfl.add'' [ty]
      [createTFLOperation ''tfl.mul'' [ty] [xv, fv] [getFusedActivationNone] 0, ov] [getFusedActivationNone] 0) =
    tgen (tshape x) (\<lambda>is. addf (mulf (tnth x is) (fs ! (is ! a))) (os ! (is ! a)))"
proof -
  have r: "a + 1 + (trank x - 1 - a) = trank x" using a(1) by simp
  have pS: "prod_list S = n" by (simp add: sh)
  have w: "wf_tensor (Tensor S fs)" "wf_tensor (Tensor S os)" using l pS by (simp_all add: wf_tensor_def)
  have rS: "length S \<le> trank x" using a sh by simp
  let ?m = "tmap2 mulf x (Tensor S fs)"
  have m: "?m = tgen (tshape x) (\<lambda>is. mulf (tnth x is) (fs ! (is ! a)))"
    using tmap2_axis_vector [of "Tensor S fs" m n _ a x] sh a r by simp
  have cm: "conforms ty ?m" unfolding m using ty by (auto simp: conforms_def split: mtype.splits)
  have bc: "bcast_compat (tshape x) S" unfolding sh using a r by (intro bcast_axis_vector(2)) simp_all
  have em: "eval sem env (createTFLOperation ''tfl.mul'' [ty] [xv, fv] [getFusedActivationNone] 0) = ?m"
    using x w ev bc rS cm by (intro ar.mul.eval_direct) simp_all
  have ad: "tmap2 addf ?m (Tensor S os) = tgen (tshape x) (\<lambda>is. addf (mulf (tnth x is) (fs ! (is ! a))) (os ! (is ! a)))"
    unfolding m using sh a r
    by (subst tmap2_axis_vector [where m = m and c = n and n = "trank x - 1 - a" and a = a]) (auto intro!: tgen_cong)
  have "conforms ty (tmap2 addf ?m (Tensor S os))" unfolding ad using ty by (auto simp: conforms_def split: mtype.splits)
  then have "eval sem env (createTFLOperation ''tfl.add'' [ty]
      [createTFLOperation ''tfl.mul'' [ty] [xv, fv] [getFusedActivationNone] 0, ov] [getFusedActivationNone] 0) = tmap2 addf ?m (Tensor S os)"
    using em w(2) ev(2) bc rS x(3) by (intro ar.add.eval_direct) (simp_all add: m)
  then show ?thesis unfolding ad .
qed

end

lemma phys_batch_norm:
  assumes "tshape t ! 1 = n" "2 \<le> trank t" "wf_tensor t" "physical4 ty \<longleftrightarrow> trank t = 4"
    and fs_def: "fs = map (\<lambda>k. divf (s ! k) (sqrtf (addf (v ! k) eps))) [0..<n]"
    and os_def: "os = map (\<lambda>k. subf (b ! k) (mulf (m ! k) (fs ! k))) [0..<n]" and a_def: "a = (if trank t = 4 then 3 else 1)"
  shows "tgen (tshape (phys ty t)) (\<lambda>is. addf (mulf (tnth (phys ty t) is) (fs ! (is ! a))) (os ! (is ! a))) =
    phys ty (onnx_batch_norm (folded_norm addf subf mulf divf sqrtf eps) t s b m v)"
proof -
  have el: "addf (mulf x (fs ! c)) (os ! c) = folded_norm addf subf mulf divf sqrtf eps x (s ! c) (b ! c) (m ! c) (v ! c)" if "c < n" for x c
    using that by (simp add: fs_def os_def folded_norm_def Let_def)
  have ch: "is ! 1 < n" if "valid_ix (tshape t) is" for "is" using valid_ix_nth [OF that, of 1] assms(1,2) by simp
  show ?thesis
  proof (cases "trank t = 4")
    case True
    let ?f = "folded_norm addf subf mulf divf sqrtf eps"
    have p: "is_perm to_nhwc (trank t)" using True by (simp add: is_perm_def to_nhwc_def)
    have "ttranspose to_nhwc (onnx_batch_norm ?f t s b m v) =
        tgen (permute to_nhwc (tshape t)) (\<lambda>is. addf (mulf (tnth (ttranspose to_nhwc t) is) (fs ! (is ! 3))) (os ! (is ! 3)))"
    proof (rule tensor_transpose_eqI)
      fix "is" assume "valid_ix (tshape (onnx_batch_norm ?f t s b m v)) is"
      then have v: "valid_ix (tshape t) is" by (simp add: onnx_batch_norm_def)
      then have "valid_ix (permute to_nhwc (tshape t)) (permute to_nhwc is)" using p by (intro valid_ix_permuteI)
      moreover have "permute to_nhwc is ! 3 = is ! 1" by (simp add: permute_def to_nhwc_def)
      ultimately show "tnth (tgen (permute to_nhwc (tshape t)) (\<lambda>is. addf (mulf (tnth (ttranspose to_nhwc t) is) (fs ! (is ! 3))) (os ! (is ! 3)))) (permute to_nhwc is) =
          tnth (onnx_batch_norm ?f t s b m v) is"
        using v ch [OF v] el p by (simp add: onnx_batch_norm_def tnth_ttranspose_permute Let_def)
    qed (use p in \<open>simp_all add: onnx_batch_norm_def\<close>)
    then show ?thesis using True assms(4) by (simp add: phys_def a_def)
  next
    case False
    then show ?thesis using assms(4) el ch by (simp add: phys_def a_def onnx_batch_norm_def Let_def cong: tgen_cong)
  qed
qed

text \<open>
  C16: when the BatchNormalization pattern succeeds, the created value represents, for every element of the
  logical operand, the affine map of its channel, which on real numbers is the normalisation
  that ONNX defines; the channel is axis 1 whatever the rank and the physical layout.
  \<^verbatim>\<open>known-limitations.md\<close> says that there is no such pattern; the one of
  \<^verbatim>\<open>NN/BatchNormalization.cpp\<close> is registered with the others.
\<close>

theorem lower_batch_norm_correct:
  assumes sem: "tfl_norm sem addf subf mulf divf maxf minf sqrtf" and low: "lower_batch_norm op = Inr w"
    and t: "conforms (oty (bn_input op)) t" "env 0 = phys (oty (bn_input op)) t" "i32_dims (tshape t)"
    and par: "conforms (oty (bn_scale op)) (Tensor [n] s)" "conforms (oty (bn_bias op)) (Tensor [n] b)"
      "conforms (oty (bn_mean op)) (Tensor [n] m)" "conforms (oty (bn_var op)) (Tensor [n] v)"
    and env: "env 1 = Tensor [n] s" "env 2 = Tensor [n] b" "env 3 = Tensor [n] m" "env 4 = Tensor [n] v"
  shows "represents sem env w (bn_result op)
    (onnx_batch_norm (folded_norm addf subf mulf divf sqrtf (FV (bn_epsilon op))) t s b m v)"
proof -
  let ?ity = "oty (bn_input op)" and ?ty = "bn_result op" and ?x = "phys (oty (bn_input op)) t"
  obtain ie where ity: "?ity = RankedTensor (map int (tshape t)) ie" and wt: "wf_tensor t" using t(1) by (auto simp: conforms_def)
  have c: "?ty = ?ity" "2 \<le> trank t" "trank t \<le> 5" "isF32 ie" "validateParameter (int (tshape t ! 1)) (oty (bn_scale op))"
    and w: "w = emit_batch_norm op (map int (tshape t)) (int (tshape t ! 1))"
    using low by (auto simp: lower_batch_norm_def ity isF32_def Let_def split: mtype.splits if_splits elim!: not_failedE)
  have n: "tshape t ! 1 = n" using c(5) par(1) by (auto simp: validateParameter_def conforms_def split: mtype.splits if_splits)
  have ln: "length s = n" "length b = n" "length m = n" "length v = n" using par by (auto simp: wf_tensor_def dest!: conforms_wf)
  have px: "wf_tensor ?x" "eval sem env (adaptor 0 (bn_input op)) = ?x" using wt t(2) by simp_all
  have p4: "physical4 ?ity \<longleftrightarrow> trank t = 4" using c(4) by (simp add: ity physical4_def)
  have cx: "conforms (convertRank4NCHWToNHWCType ?ty) ?x" using convert_conforms [OF t(1)] by (simp add: c(1))
  let ?fs = "map (\<lambda>k. divf (s ! k) (sqrtf (addf (v ! k) (FV (bn_epsilon op))))) [0..<n]"
  let ?os = "map (\<lambda>k. subf (b ! k) (mulf (m ! k) (?fs ! k))) [0..<n]"
  have ev: "eval sem env (adaptor 1 (bn_scale op)) = Tensor [n] s" "eval sem env (adaptor 2 (bn_bias op)) = Tensor [n] b"
    "eval sem env (adaptor 3 (bn_mean op)) = Tensor [n] m" "eval sem env (adaptor 4 (bn_var op)) = Tensor [n] v" using env by simp_all
  note pe = tfl_norm.eval_parameters [OF sem ln ev, of "bn_epsilon op"]
  let ?odd = "trank t = 3 \<or> trank t = 5"
  let ?bsh = "(replicate (trank t) 1)[1 := int n]"
  let ?a = "if trank t = 4 then 3 else 1" and ?k = "if ?odd then 1 else 0 :: nat"
  let ?S = "replicate ?k 1 @ n # replicate (trank t - 1 - ?a) 1"
  let ?bc = "\<lambda>u. if int (trank t) = 3 \<or> int (trank t) = 5 then emitReshape (RankedTensor ?bsh F32) ?bsh u else u"
  have a: "?a < trank ?x" "tshape ?x ! ?a = n" "?k \<le> ?a" "trank ?x = trank t"
    using c(2) n p4 by (auto simp: phys_def to_nhwc_def permute_def)
  have bcast: "eval sem env (?bc u) = Tensor ?S xs" if "eval sem env u = Tensor [n] xs" "length xs = n" for u xs
  proof (cases ?odd)
    case True
    then have S: "?bsh = map int ?S" by (auto simp: numeral_nat)
    have i32: "i32_dims ?S" using t(3) n c(2) by (auto simp: i32_dims_def)
    have lay: "tfl_layout sem" using sem by (simp add: tfl_norm_def tfl_arith_def tfl_binary_def)
    have "eval sem env (emitReshape (RankedTensor (map int ?S) F32) (map int ?S) u) = treshape ?S (Tensor [n] xs)"
      using that i32 by (intro tfl_layout.eval_emitReshape [OF lay]) (simp_all add: wf_tensor_def)
    then show ?thesis unfolding S using True by (simp add: treshape_def)
  next
    case False
    then have "trank t = 2 \<or> trank t = 4" using c(2,3) by linarith
    then show ?thesis using that by auto
  qed
  have "eval sem env w = tgen (tshape ?x) (\<lambda>is. addf (mulf (tnth ?x is) (?fs ! (is ! ?a))) (?os ! (is ! ?a)))"
    unfolding w emit_batch_norm_def Let_def getRank_map_int length_map n
    by (rule tfl_norm.eval_scale_shift [OF sem px _ a(1-3) _ _ _ bcast [OF pe(1)] bcast [OF pe(2)] cx]) (use c(3) a(4) in simp_all)
  also have "\<dots> = phys ?ity (onnx_batch_norm (folded_norm addf subf mulf divf sqrtf (FV (bn_epsilon op))) t s b m v)"
    by (rule phys_batch_norm [OF n c(2) wt p4 refl refl refl])
  finally have res: "eval sem env w = phys ?ity (onnx_batch_norm (folded_norm addf subf mulf divf sqrtf (FV (bn_epsilon op))) t s b m v)" .
  have "conforms ?ity (onnx_batch_norm (folded_norm addf subf mulf divf sqrtf (FV (bn_epsilon op))) t s b m v)"
    by (simp add: ity conforms_Ranked onnx_batch_norm_def)
  moreover have "vtype w = convertRank4NCHWToNHWCType ?ty" by (simp add: w emit_batch_norm_def Let_def)
  ultimately show ?thesis using res by (simp add: represents_def c(1))
qed

interpretation reference_norm: tfl_norm reference_sem "ref_arith (+)" "ref_arith (-)" "ref_arith (*)" "ref_arith (div)" "ref_arith max" "ref_arith min"
  "ref_un ref_sqrt"
  by unfold_locales

definition batch_norm_example :: "int batch_norm_op" where
  "batch_norm_example = (let p = \<lparr>oty = RankedTensor [2] F32, oattr = None\<rparr> in
     \<lparr>bn_input = \<lparr>oty = RankedTensor [1, 2, 2, 3] F32, oattr = None\<rparr>, bn_scale = p, bn_bias = p, bn_mean = p, bn_var = p,
      bn_epsilon = 1, bn_result = RankedTensor [1, 2, 2, 3] F32\<rparr>)"

theorem lower_batch_norm_correct_witness:
  "\<exists>w. lower_batch_norm batch_norm_example = Inr w \<and>
     represents reference_sem (\<lambda>k. if k = 0 then ttranspose to_nhwc nchw_example else Tensor [2] [FV 3, FV 8]) w (bn_result batch_norm_example)
       (onnx_batch_norm (folded_norm (ref_arith (+)) (ref_arith (-)) (ref_arith (*)) (ref_arith (div)) (ref_un ref_sqrt)
          (FV (bn_epsilon batch_norm_example))) nchw_example [FV 3, FV 8] [FV 3, FV 8] [FV 3, FV 8] [FV 3, FV 8])"
proof -
  have "\<not> failed (lower_batch_norm batch_norm_example)" by code_simp
  then obtain w where low: "lower_batch_norm batch_norm_example = Inr w" by (rule not_failedE)
  let ?env = "\<lambda>k :: nat. if k = 0 then ttranspose to_nhwc nchw_example else Tensor [2] [FV 3, FV 8]"
  have "represents reference_sem ?env w (bn_result batch_norm_example)
       (onnx_batch_norm (folded_norm (ref_arith (+)) (ref_arith (-)) (ref_arith (*)) (ref_arith (div)) (ref_un ref_sqrt)
          (FV (bn_epsilon batch_norm_example))) nchw_example [FV 3, FV 8] [FV 3, FV 8] [FV 3, FV 8] [FV 3, FV 8])"
  proof (rule lower_batch_norm_correct [OF reference_norm.tfl_norm_axioms low])
    show "conforms (oty (bn_input batch_norm_example)) nchw_example" "?env 0 = phys (oty (bn_input batch_norm_example)) nchw_example"
      by (simp_all add: batch_norm_example_def Let_def example_simps)
  qed (simp_all add: batch_norm_example_def Let_def conforms_Ranked wf_tensor_def i32_dims_def)
  with low show ?thesis by blast
qed

section \<open>LRN\<close>

text \<open>The channels that ONNX sums: from \<open>c - floor ((size - 1) / 2)\<close> to \<open>c + ceil ((size - 1) / 2)\<close>, inside the row.\<close>

definition onnx_lrn_row :: "nat \<Rightarrow> ('a \<Rightarrow> 'a list \<Rightarrow> 'a) \<Rightarrow> 'a list \<Rightarrow> 'a list" where
  "onnx_lrn_row sz f xs =
     map (\<lambda>c. f (xs ! c) (map (\<lambda>j. xs ! j)
       (filter (\<lambda>j. int c - (int sz - 1) div 2 \<le> int j \<and> int j \<le> int c + int sz div 2) [0..<length xs]))) [0..<length xs]"

lemma lrn_row_odd: "odd sz \<Longrightarrow> lrn_row ((sz - 1) div 2) f xs = onnx_lrn_row sz f xs"
  unfolding lrn_row_def onnx_lrn_row_def
  by (intro map_cong refl arg_cong2 [where f = f] filter_cong) (auto elim!: oddE)

text \<open>
  C19: when the LRN pattern succeeds, the created value represents the ONNX operator on the logical operand: an
  odd size gives a symmetric window of channels, and alpha is divided by the size.
\<close>

theorem lower_lrn_correct:
  assumes sem: "tfl_lrn sem nrm" and low: "lower_lrn fdiv of_size op = Inr v"
    and t: "conforms (oty (lrn_input op)) t" "env 0 = phys (oty (lrn_input op)) t"
    and sz: "lrn_size op = int sz" "sz < 2 ^ 31"
  shows "represents sem env v (lrn_result op)
    (talong 1 (onnx_lrn_row sz (nrm (lrn_bias op) (fdiv (lrn_alpha op) (of_size (int sz))) (lrn_beta op))) t)"
proof -
  let ?ity = "oty (lrn_input op)" and ?al = "fdiv (lrn_alpha op) (of_size (int sz))" and ?r = "(sz - 1) div 2"
  obtain ie where ity: "?ity = RankedTensor (map int (tshape t)) ie" and wt: "wf_tensor t" using t(1) by (auto simp: conforms_def)
  have c: "lrn_result op = ?ity" "trank t = 4" "isF32 ie" "0 < sz" "Prelude.cmod (int sz) 2 \<noteq> 0"
    and v: "v = createTFLOperation ''tfl.local_response_normalization'' [convertRank4NCHWToNHWCType ?ity] [adaptor 0 (lrn_input op)]
      [(''radius'', IntAttr (i32 (cdiv (int sz - 1) 2))), (''bias'', FloatAttr (lrn_bias op)), (''alpha'', FloatAttr ?al), (''beta'', FloatAttr (lrn_beta op))] 0"
    using low by (auto simp: lower_lrn_def ity isF32_def sz(1) Let_def split: mtype.splits if_splits elim!: not_failedE)
  have od: "odd sz"
  proof
    assume "even sz"
    then have "Prelude.cmod (int sz) 2 = 0" by (simp add: Prelude.cmod_def cdiv_nonneg)
    with c(5) show False by simp
  qed
  have "cdiv (int sz - 1) 2 = int ?r" using c(4) by (simp add: cdiv_nonneg of_nat_diff zdiv_int)
  moreover have "i32 (int ?r) = int ?r" using sz(2) by (intro i32_id) (auto simp: fits_i32_def)
  ultimately have rad: "i32 (cdiv (int sz - 1) 2) = int ?r" by simp
  let ?f = "nrm (lrn_bias op) ?al (lrn_beta op)"
  have p4: "physical4 ?ity" using c by (simp add: ity physical4_def)
  have p: "is_perm to_nhwc (trank t)" "ipos to_nhwc 1 = 3" using c(2) by (simp_all add: is_perm_def to_nhwc_def ipos_def)
  have x: "phys ?ity t = ttranspose to_nhwc t" using p4 by (simp add: phys_def)
  have rw: "lrn_row ?r ?f = onnx_lrn_row sz ?f" using lrn_row_odd [OF od] by (rule ext)
  have res: "talong 3 (lrn_row ?r ?f) (ttranspose to_nhwc t) = phys ?ity (talong 1 (onnx_lrn_row sz ?f) t)"
    using ttranspose_talong [OF p(1), of 1 "lrn_row ?r ?f"] p(2) c(2) p4 rw by (simp add: phys_def)
  have cf: "conforms ?ity (talong 1 (onnx_lrn_row sz ?f) t)" using t(1) by (simp add: ity conforms_Ranked)
  have "sem ''tfl.local_response_normalization'' [(''radius'', IntAttr (int ?r)), (''bias'', FloatAttr (lrn_bias op)), (''alpha'', FloatAttr ?al), (''beta'', FloatAttr (lrn_beta op))]
      [convertRank4NCHWToNHWCType ?ity] [ttranspose to_nhwc t] = [talong 3 (lrn_row ?r ?f) (ttranspose to_nhwc t)]"
    using convert_conforms [OF cf, folded res] is_perm_length [OF p(1)] c(2) by (intro tfl_lrn.lrn [OF sem]) simp_all
  then show ?thesis using cf t(2) x res by (simp add: represents_def v rad c(1))
qed

definition lrn_example :: "int lrn_op" where
  "lrn_example = \<lparr>lrn_input = \<lparr>oty = RankedTensor [1, 2, 2, 3] F32, oattr = None\<rparr>, lrn_size = 3, lrn_alpha = 9, lrn_beta = 1, lrn_bias = 2,
     lrn_result = RankedTensor [1, 2, 2, 3] F32\<rparr>"

theorem lower_lrn_correct_witness:
  "\<exists>v. lower_lrn (div) id lrn_example = Inr v \<and>
     represents reference_sem (\<lambda>_. ttranspose to_nhwc nchw_example) v (lrn_result lrn_example)
       (talong 1 (onnx_lrn_row 3 (ref_norm (lrn_bias lrn_example) (lrn_alpha lrn_example div id (int 3)) (lrn_beta lrn_example))) nchw_example)"
proof -
  have "\<not> failed (lower_lrn (div) id lrn_example)" by code_simp
  then obtain v where low: "lower_lrn (div) id lrn_example = Inr v" by (rule not_failedE)
  have "represents reference_sem (\<lambda>_. ttranspose to_nhwc nchw_example) v (lrn_result lrn_example)
       (talong 1 (onnx_lrn_row 3 (ref_norm (lrn_bias lrn_example) (lrn_alpha lrn_example div id (int 3)) (lrn_beta lrn_example))) nchw_example)"
    by (rule lower_lrn_correct [OF reference_lrn.tfl_lrn_axioms low]) (simp_all add: lrn_example_def example_simps)
  with low show ?thesis by blast
qed

end
