(* ===== verification/Lower_Pool.thy ===== *)
theory Lower_Pool
  imports Lower_Norm Windows
begin

text \<open>
  \<^verbatim>\<open>NN/MaxPool.cpp\<close>: two-dimensional pooling by the kernel of TensorFlow Lite, with explicit pads
  materialised by the lowest float before it.
\<close>

section \<open>Definitions\<close>

record 'f max_pool_op =
  mp_input :: "'f operand"
  mp_kernel_shape :: "int list option"
  mp_strides :: "int list option"
  mp_pads :: "int list option"
  mp_dilations :: "int list option"
  mp_ceil_mode :: "int option"
  mp_storage_order :: "int option"
  mp_auto_pad :: "string option"
  mp_result :: mtype

definition getPoolArrayOr :: "int list option \<Rightarrow> int list \<Rightarrow> int list" where
  "getPoolArrayOr attr defaultValues = (case attr of None \<Rightarrow> defaultValues | Some values \<Rightarrow> values)"

definition getInteger :: "int option \<Rightarrow> int \<Rightarrow> int" where
  "getInteger attr defaultValue = (case attr of None \<Rightarrow> defaultValue | Some v \<Rightarrow> v)"

definition padded_pool_type :: "int list \<Rightarrow> int list \<Rightarrow> elt \<Rightarrow> mtype" where
  "padded_pool_type shape pads e =
     RankedTensor [shape ! 0, i64 (i64 (shape ! 1 + pads ! 0) + pads ! 2), i64 (i64 (shape ! 2 + pads ! 1) + pads ! 3), shape ! 3] e"

definition pool_padding :: "int list \<Rightarrow> 'f val" where
  "pool_padding pads =
     ConstI (RankedTensor [4, 2] I32) [0, 0, i32 (pads ! 0), i32 (pads ! 2), i32 (pads ! 1), i32 (pads ! 3), 0, 0]"

definition lower_max_pool :: "'f \<Rightarrow> 'f max_pool_op \<Rightarrow> 'f val result" where
  "lower_max_pool lowest op =
     (case (oty (mp_input op), mp_result op) of
        (RankedTensor inShape ie, RankedTensor outShape oe) \<Rightarrow>
          if getRank inShape \<noteq> 4 \<or> getRank outShape \<noteq> 4 \<or> failed (validateStaticF32Tensor (oty (mp_input op))) \<or>
             failed (validateStaticF32Tensor (mp_result op)) then Inl BadTypes
          else if getInteger (mp_ceil_mode op) 0 \<noteq> 0 then Inl BadMode
          else if getInteger (mp_storage_order op) 0 \<noteq> 0 then Inl BadMode
          else
            let ksize = getPoolArrayOr (mp_kernel_shape op) []; strides = getPoolArrayOr (mp_strides op) [1, 1];
                pads = getPoolArrayOr (mp_pads op) [0, 0, 0, 0]; dilations = getPoolArrayOr (mp_dilations op) [1, 1] in
            if length ksize \<noteq> 2 \<or> length strides \<noteq> 2 \<or> length pads \<noteq> 4 \<or> length dilations \<noteq> 2 then Inl BadAttribute
            else if \<exists>d\<in>set dilations. d \<noteq> 1 then Inl BadAttribute
            else
              let autoPad = (case mp_auto_pad op of None \<Rightarrow> ''NOTSET'' | Some a \<Rightarrow> a); input = adaptor 0 (mp_input op);
                  pool = (\<lambda>padding v. createTFLOperation ''tfl.max_pool_2d'' [convertRank4NCHWToNHWCType (mp_result op)] [v]
                    [(''padding'', StrAttr padding), (''stride_w'', IntAttr (i32 (strides ! 1))), (''stride_h'', IntAttr (i32 (strides ! 0))),
                     (''filter_width'', IntAttr (i32 (ksize ! 1))), (''filter_height'', IntAttr (i32 (ksize ! 0))), getFusedActivationNone] 0) in
              if autoPad = ''VALID'' then Inr (pool ''VALID'' input)
              else if autoPad = ''SAME_UPPER'' then Inr (pool ''SAME'' input)
              else if autoPad = ''NOTSET'' then
                if \<exists>v\<in>set pads. v < 0 then Inl BadPads
                else if \<exists>v\<in>set pads. v \<noteq> 0 then
                  (case vtype input of
                     RankedTensor shape e \<Rightarrow>
                       Inr (pool ''VALID'' (createTFLOperation ''tfl.padv2'' [padded_pool_type shape pads e]
                         [input, pool_padding pads, createF32ScalarTensorConstant lowest] [] 0))
                   | _ \<Rightarrow> Inl BadTypes)
                else Inr (pool ''VALID'' input)
              else Inl BadMode
      | _ \<Rightarrow> Inl BadTypes)"

section \<open>What ONNX defines\<close>

text \<open>
  The pads before the two spatial axes and the extents of the result for each way of padding. \<^verbatim>\<open>SAME_UPPER\<close> puts
  the odd cell of the padding at the end.
\<close>

definition onnx_pool_before :: "string \<Rightarrow> nat list \<Rightarrow> nat list \<Rightarrow> nat list \<Rightarrow> nat list \<Rightarrow> nat list" where
  "onnx_pool_before autoPad pads ds ks ss =
     (if autoPad = ''SAME_UPPER'' then map (\<lambda>k. ((((ds ! k + ss ! k - 1) div (ss ! k)) - 1) * ss ! k + ks ! k - ds ! k) div 2) [0, 1]
      else if autoPad = ''VALID'' then [0, 0] else [pads ! 0, pads ! 1])"

definition onnx_pool_outs :: "string \<Rightarrow> nat list \<Rightarrow> nat list \<Rightarrow> nat list \<Rightarrow> nat list \<Rightarrow> nat list" where
  "onnx_pool_outs autoPad pads ds ks ss =
     (if autoPad = ''SAME_UPPER'' then map (\<lambda>k. (ds ! k + ss ! k - 1) div (ss ! k)) [0, 1]
      else if autoPad = ''VALID'' then map (\<lambda>k. (ds ! k - ks ! k) div (ss ! k) + 1) [0, 1]
      else map (\<lambda>k. (ds ! k + pads ! k + pads ! (k + 2) - ks ! k) div (ss ! k) + 1) [0, 1])"

definition onnx_max_pool :: "('a list \<Rightarrow> 'a) \<Rightarrow> string \<Rightarrow> nat list \<Rightarrow> nat list \<Rightarrow> nat list \<Rightarrow> 'a tensor \<Rightarrow> 'a tensor" where
  "onnx_max_pool maxi autoPad pads ks ss t =
     (let ds = drop 2 (tshape t) in
      tpool (maxi \<circ> somes) ks ss (onnx_pool_before autoPad pads ds ks ss) (onnx_pool_outs autoPad pads ds ks ss) t)"

definition max_pool_params :: "'f max_pool_op \<Rightarrow> nat list \<Rightarrow> nat list \<Rightarrow> nat list \<Rightarrow> bool" where
  "max_pool_params op pads ks ss \<longleftrightarrow>
     map int ks = getPoolArrayOr (mp_kernel_shape op) [] \<and> map int ss = getPoolArrayOr (mp_strides op) [1, 1] \<and>
     map int pads = getPoolArrayOr (mp_pads op) [0, 0, 0, 0] \<and>
     i32_dims ks \<and> i32_dims ss \<and> i32_dims pads \<and> (\<forall>k\<in>set ks. 0 < k) \<and> (\<forall>s\<in>set ss. 0 < s)"

section \<open>Correctness\<close>

context tfl_pool
begin

lemma eval_pool_valid:
  assumes x: "wf_tensor x" "tshape x = [n, h, w, c]" "eval sem env v = x" and k: "0 < kh" "kh \<le> h" "0 < kw" "kw \<le> w" "0 < sh" "0 < sw"
    and r: "r = gpool 1 (red \<circ> somes) [kh, kw] [sh, sw] [0, 0] [valid_out h kh sh, valid_out w kw sw] x" "conforms ty r"
  shows "eval sem env (createTFLOperation nm [ty] [v] (attrs ''VALID'' (int kh) (int kw) (int sh) (int sw)) 0) = r"
  using x pool_valid [OF x(1,2) k, of r "[ty]"] r by (simp add: nhwc_pool_gpool)

lemma eval_pool_same:
  assumes x: "wf_tensor x" "tshape x = [n, h, w, c]" "eval sem env v = x" and k: "0 < kh" "0 < kw" "0 < sh" "0 < sw"
    and r: "r = gpool 1 (red \<circ> somes) [kh, kw] [sh, sw] [same_pad h kh sh, same_pad w kw sw] [same_out h sh, same_out w sw] x" "conforms ty r"
  shows "eval sem env (createTFLOperation nm [ty] [v] (attrs ''SAME'' (int kh) (int kw) (int sh) (int sw)) 0) = r"
  using x pool_same [OF x(1,2) k, of r "[ty]"] r by (simp add: nhwc_pool_gpool)

end

lemma pool_padding_matrix:
  assumes "i32_dims ps" and "length ps = 4"
  shows "eval sem env (pool_padding (map int ps)) = pad_matrix [0, ps ! 0, ps ! 1, 0] [0, ps ! 2, ps ! 3, 0]"
proof -
  have "i32 (int (ps ! k)) = int (ps ! k)" if "k < 4" for k
    using assms that by (intro i32_id) (auto simp: i32_dims_def fits_i32_def)
  then show ?thesis using assms(2) by (simp add: pool_padding_def pad_matrix_def i32_def)
qed

lemma list2: "length xs = 2 \<Longrightarrow> xs = [xs ! 0, xs ! 1]"
  by (auto simp: length_Suc_conv numeral_2_eq_2)

lemma ttranspose_elements:
  assumes "\<forall>x\<in>set (tdata t). num x" "wf_tensor t" and p: "is_perm p (trank t)"
  shows "\<forall>x\<in>set (tdata (ttranspose p t)). num x"
proof
  fix x assume "x \<in> set (tdata (ttranspose p t))"
  then obtain k where "k < prod_list (permute p (tshape t))" "x = tnth (ttranspose p t) (unravel (permute p (tshape t)) k)"
    using wf_ttranspose [of p t] by (auto simp: in_set_conv_nth wf_tensor_def tnth_def)
  then have v: "valid_ix (permute p (tshape t)) (unravel (permute p (tshape t)) k)" and x: "x = tnth (ttranspose p t) (unravel (permute p (tshape t)) k)"
    by (simp_all add: unravel_valid)
  have "valid_ix (tshape t) (permute (inv_perm p) (unravel (permute p (tshape t)) k))" using v p by (intro valid_ix_unpermute) simp_all
  then show "num x" using assms(1,2) ravel_less x v p by (fastforce simp: tnth_ttranspose tnth_def [of t] wf_tensor_def)
qed

text \<open>
  C27: when the MaxPool pattern succeeds, the created value represents the ONNX operator on the logical operand,
  with the padding of \<^verbatim>\<open>VALID\<close>, \<^verbatim>\<open>SAME_UPPER\<close> and explicit pads. Explicit pads have to be
  smaller than the kernel, and the lowest float has to be neutral for the maximum, which it is not for
  elements below it.
\<close>

theorem lower_max_pool_correct:
  assumes sem: "tfl_pool sem ''tfl.max_pool_2d'' max_pool_attributes maxi" "tfl_assembly sem"
    and low: "lower_max_pool lowest op = Inr v"
    and t: "conforms (oty (mp_input op)) t" "env 0 = phys (oty (mp_input op)) t" "i32_dims (tshape t)" "\<forall>x\<in>set (tdata t). num x"
    and par: "max_pool_params op pads ks ss" and ap: "ap = (case mp_auto_pad op of None \<Rightarrow> ''NOTSET'' | Some a \<Rightarrow> a)"
    and res: "conforms (mp_result op) (onnx_max_pool maxi ap pads ks ss t)"
    and fit: "ap = ''VALID'' \<longrightarrow> (\<forall>k<2. ks ! k \<le> tshape t ! (k + 2))"
      "ap = ''NOTSET'' \<longrightarrow> (\<forall>k<2. 0 < tshape t ! (k + 2) \<and> pads ! k < ks ! k \<and> pads ! (k + 2) < ks ! k \<and>
         ks ! k \<le> tshape t ! (k + 2) + pads ! k + pads ! (k + 2))"
    and lowest: "\<forall>w. somes w \<noteq> [] \<and> (\<forall>x\<in>set (somes w). num x) \<longrightarrow> maxi (map (case_option (FV lowest) id) w) = maxi (somes w)"
  shows "represents sem env v (mp_result op) (onnx_max_pool maxi ap pads ks ss t)"
proof -
  let ?ity = "oty (mp_input op)" and ?ty = "mp_result op" and ?in = "adaptor 0 (mp_input op)" and ?x = "ttranspose to_nhwc t"
  obtain ie where ity: "?ity = RankedTensor (map int (tshape t)) ie" and wt: "wf_tensor t" using t(1) by (auto simp: conforms_def)
  obtain os oe where ty: "?ty = RankedTensor os oe" using low by (auto simp: lower_max_pool_def ity split: mtype.splits)
  have par': "getPoolArrayOr (mp_kernel_shape op) [] = map int ks" "getPoolArrayOr (mp_strides op) [1, 1] = map int ss"
    "getPoolArrayOr (mp_pads op) [0, 0, 0, 0] = map int pads" "i32_dims ks" "i32_dims ss" "i32_dims pads" "\<forall>k\<in>set ks. 0 < k" "\<forall>s\<in>set ss. 0 < s"
    using par by (simp_all add: max_pool_params_def)
  have c: "trank t = 4" "length os = 4" "isF32 ie" "isF32 oe" "length ks = 2" "length ss = 2" "length pads = 4"
    "ap = ''VALID'' \<or> ap = ''SAME_UPPER'' \<or> ap = ''NOTSET''"
    using low by (auto simp: lower_max_pool_def ity ty par' ap Let_def getRank_def isF32_def split: if_splits elim!: not_failedE)
  obtain n cn h w where sh: "tshape t = [n, cn, h, w]" using list4 [OF c(1)] by blast
  obtain kh kw where ks: "ks = [kh, kw]" using list2 [OF c(5)] by blast
  obtain sh' sw where ss: "ss = [sh', sw]" using list2 [OF c(6)] by blast
  obtain pt pl pb pr where pads': "pads = [pt, pl, pb, pr]" using list4 [OF c(7)] by blast
  have pos: "0 < kh" "0 < kw" "0 < sh'" "0 < sw" using par'(7,8) by (simp_all add: ks ss)
  have i32: "i32 (int kh) = int kh" "i32 (int kw) = int kw" "i32 (int sh') = int sh'" "i32 (int sw) = int sw"
    using par'(4,5) by (auto simp: ks ss i32_dims_def fits_i32_def intro!: i32_id)
  have xs: "tshape ?x = [n, h, w, cn]" "wf_tensor ?x" "trank ?x = 4" by (simp_all add: sh to_nhwc_def permute_def)
  have p4: "physical4 ?ity" "physical4 ?ty" using c by (simp_all add: ity ty physical4_def)
  have xv: "eval sem env ?in = ?x" using t(2) p4 by (simp add: phys_def)
  let ?pool = "\<lambda>padding u. createTFLOperation ''tfl.max_pool_2d'' [convertRank4NCHWToNHWCType ?ty] [u]
      (max_pool_attributes padding (int kh) (int kw) (int sh') (int sw)) 0"
  let ?P = "\<lambda>b o'. gpool 1 (maxi \<circ> somes) ks ss b o' ?x"
  let ?bf = "onnx_pool_before ap pads [h, w] ks ss" and ?ou = "onnx_pool_outs ap pads [h, w] ks ss"
  have l2: "length ?ou = 2" by (simp add: onnx_pool_outs_def)
  have spec: "phys ?ty (onnx_max_pool maxi ap pads ks ss t) = ?P ?bf ?ou"
    using ttranspose_gpool [OF c(1) l2, of "maxi \<circ> somes" ks ss ?bf] tpool_gpool [of ?ou t "maxi \<circ> somes" ks ss ?bf] l2 c(1) p4 by (simp add: onnx_max_pool_def Let_def sh phys_def)
  have cf: "conforms (convertRank4NCHWToNHWCType ?ty) (?P ?bf ?ou)" using convert_conforms [OF res] unfolding spec .
  have fin: "represents sem env v ?ty (onnx_max_pool maxi ap pads ks ss t)"
    if "v = ?pool padding u" "eval sem env v = ?P ?bf ?ou" for padding u using that res spec by (simp add: represents_def)
  consider (valid) "ap = ''VALID''" | (same) "ap = ''SAME_UPPER''" | (none) "ap = ''NOTSET''" "pads = [0, 0, 0, 0]"
    | (pads) "ap = ''NOTSET''" "pads \<noteq> [0, 0, 0, 0]" using c(8) by blast
  then show ?thesis
  proof cases
    case valid
    then have v: "v = ?pool ''VALID'' ?in" using low ap i32 by (auto simp: lower_max_pool_def ity ty par' Let_def max_pool_attributes_def ks ss split: if_splits)
    have "kh \<le> h" "kw \<le> w" using fit(1) valid by (auto simp: ks sh numeral_2_eq_2 All_less_Suc)
    then have "eval sem env v = ?P ?bf ?ou"
      unfolding v using pos xs xv cf valid
      by (intro tfl_pool.eval_pool_valid [OF sem(1)]) (simp_all add: onnx_pool_before_def onnx_pool_outs_def valid_out_def ks ss)
    then show ?thesis by (rule fin [OF v])
  next
    case same
    then have v: "v = ?pool ''SAME'' ?in" using low ap i32 by (auto simp: lower_max_pool_def ity ty par' Let_def max_pool_attributes_def ks ss split: if_splits)
    have "eval sem env v = ?P ?bf ?ou"
      unfolding v using pos xs xv cf same
      by (intro tfl_pool.eval_pool_same [OF sem(1)]) (simp_all add: onnx_pool_before_def onnx_pool_outs_def same_out_def same_pad_def ks ss)
    then show ?thesis by (rule fin [OF v])
  next
    case none
    then have v: "v = ?pool ''VALID'' ?in" using low ap i32 by (auto simp: lower_max_pool_def ity ty par' Let_def max_pool_attributes_def ks ss split: if_splits)
    have "kh \<le> h" "kw \<le> w" using fit(2) none by (auto simp: ks sh numeral_2_eq_2 All_less_Suc)
    then have "eval sem env v = ?P ?bf ?ou"
      unfolding v using pos xs xv cf none
      by (intro tfl_pool.eval_pool_valid [OF sem(1)]) (simp_all add: onnx_pool_before_def onnx_pool_outs_def valid_out_def ks ss)
    then show ?thesis by (rule fin [OF v])
  next
    case pads
    let ?H = "h + (pt + pb)" and ?W = "w + (pl + pr)" and ?low = "FV lowest"
    let ?y = "tpad [0, pt, pl, 0] [0, pb, pr, 0] ?low ?x"
    let ?pty = "RankedTensor (map int [n, ?H, ?W, cn]) F32"
    let ?pv = "createTFLOperation ''tfl.padv2'' [?pty] [?in, pool_padding (map int pads), createF32ScalarTensorConstant lowest] [] 0"
    have f: "0 < h" "0 < w" "pt < kh" "pb < kh" "pl < kw" "pr < kw" "kh \<le> ?H" "kw \<le> ?W"
      using fit(2) pads by (auto simp: ks sh pads' numeral_2_eq_2 All_less_Suc numeral_nat)
    have sml: "n < 2 ^ 31" "h < 2 ^ 31" "w < 2 ^ 31" "pt < 2 ^ 31" "pb < 2 ^ 31" "pl < 2 ^ 31" "pr < 2 ^ 31"
      using t(3) par'(6) by (simp_all add: i32_dims_def sh pads')
    have "vtype ?in = RankedTensor (map int [n, h, w, cn]) F32" using p4 c(3) by (simp add: ity convert_physical4 sh isF32_def permute_nhwc_map)
    then have v: "v = ?pool ''VALID'' ?pv"
      using low ap pads sml i32 by (auto simp: lower_max_pool_def ity ty par' Let_def max_pool_attributes_def ks ss pads' padded_pool_type_def i64_id
        add.assoc split: if_splits)
    have ys: "wf_tensor ?y" "tshape ?y = [n, ?H, ?W, cn]" by (simp_all add: tpad_def sh to_nhwc_def permute_def)
    have "eval sem env ?pv = ?y"
      using tfl_assembly.padv2 [OF sem(2) xs(2), of "[0, pt, pl, 0]" "[0, pb, pr, 0]" "[?pty]" ?low] xs xv ys
        pool_padding_matrix [OF par'(6) c(7), of sem env] by (simp add: conforms_Ranked pads')
    moreover have ou: "?ou = [valid_out ?H kh sh', valid_out ?W kw sw]" "?bf = [pt, pl]"
      using pads by (simp_all add: onnx_pool_outs_def onnx_pool_before_def valid_out_def ks ss pads' add.assoc)
    moreover have pm: "is_perm to_nhwc (trank t)" using c(1) by (simp add: is_perm_def to_nhwc_def)
    have pad: "gpool 1 (maxi \<circ> somes) [kh, kw] [sh', sw] [0, 0] ?ou ?y = gpool 1 (maxi \<circ> map (case_option ?low id)) [kh, kw] [sh', sw] [pt, pl] ?ou ?x"
      unfolding ou using valid_out_fits f pos by (intro gpool_tpad [OF xs(1) refl]) (simp_all add: add.assoc)
    have eq: "gpool 1 (maxi \<circ> map (case_option ?low id)) [kh, kw] [sh', sw] [pt, pl] ?ou ?x = ?P ?bf ?ou"
      unfolding ks [symmetric] ss [symmetric] ou(2)
    proof (rule gpool_nhwc_cong [OF xs(2,1) ttranspose_elements [OF t(4) wt pm] ou(1)])
      fix i j win' assume ij: "i < valid_out ?H kh sh'" "j < valid_out ?W kw sw" and nm: "\<forall>e\<in>set (somes win'). num e"
        and "\<exists>elem :: nat list \<Rightarrow> 'a scalar. win' = window ks ss [pt, pl] [h, w] elem [i, j]"
      then obtain elem :: "nat list \<Rightarrow> 'a scalar" where w': "win' = window ks ss [pt, pl] [h, w] elem [i, j]" by blast
      have "i * sh' + kh \<le> ?H" "j * sw + kw \<le> ?W" using valid_out_fits [OF ij(1)] valid_out_fits [OF ij(2)] f pos by simp_all
      then have "somes win' \<noteq> []"
        unfolding w' using f by (intro window_meets_input [where n = 2 and qs = "[pb, pr]"]) (simp_all add: ks ss numeral_2_eq_2 All_less_Suc)
      then show "(maxi \<circ> map (case_option ?low id)) win' = (maxi \<circ> somes) win'" using lowest nm by simp
    qed
    ultimately have "eval sem env v = ?P ?bf ?ou"
      unfolding v using pos ys f cf trans [OF pad eq, symmetric] ou
      by (intro tfl_pool.eval_pool_valid [OF sem(1)]) simp_all
    then show ?thesis by (rule fin [OF v])
  qed
qed

definition max_pool_example :: "int max_pool_op" where
  "max_pool_example = \<lparr>mp_input = f32_operand [1, 2, 2, 3], mp_kernel_shape = Some [2, 2], mp_strides = None, mp_pads = Some [1, 0, 0, 1],
     mp_dilations = None, mp_ceil_mode = None, mp_storage_order = None, mp_auto_pad = None, mp_result = RankedTensor [1, 2, 2, 3] F32\<rparr>"

lemma max_lowest: "fold max (map int_of (map (case_option (FV (- 100)) id) w)) a = fold max (map int_of (somes w)) a" if "0 \<le> a"
  using that by (induction w arbitrary: a) (auto simp: int_of_def somes_def max_def split: option.splits)

theorem lower_max_pool_correct_witness:
  "\<exists>v. lower_max_pool (- 100) max_pool_example = Inr v \<and>
     represents reference_sem (\<lambda>_. ttranspose to_nhwc nchw_example) v (mp_result max_pool_example)
       (onnx_max_pool ref_max ''NOTSET'' [1, 0, 0, 1] [2, 2] [1, 1] nchw_example)"
proof -
  have "\<not> failed (lower_max_pool (- 100) max_pool_example)" by code_simp
  then obtain v where low: "lower_max_pool (- 100) max_pool_example = Inr v" by (rule not_failedE)
  have "represents reference_sem (\<lambda>_. ttranspose to_nhwc nchw_example) v (mp_result max_pool_example)
       (onnx_max_pool ref_max ''NOTSET'' [1, 0, 0, 1] [2, 2] [1, 1] nchw_example)"
  proof (rule lower_max_pool_correct [OF reference_max_pool.tfl_pool_axioms reference.tfl_assembly_axioms low])
    show "conforms (oty (mp_input max_pool_example)) nchw_example"
      "ttranspose to_nhwc nchw_example = phys (oty (mp_input max_pool_example)) nchw_example"
      "i32_dims (tshape nchw_example)" "\<forall>x\<in>set (tdata nchw_example). True"
      by (simp_all add: max_pool_example_def example_simps)
    show "max_pool_params max_pool_example [1, 0, 0, 1] [2, 2] [1, 1]"
      by (simp add: max_pool_params_def max_pool_example_def getPoolArrayOr_def i32_dims_def)
    show "''NOTSET'' = (case mp_auto_pad max_pool_example of None \<Rightarrow> ''NOTSET'' | Some a \<Rightarrow> a)" by (simp add: max_pool_example_def)
    show "conforms (mp_result max_pool_example) (onnx_max_pool ref_max ''NOTSET'' [1, 0, 0, 1] [2, 2] [1, 1] nchw_example)"
      by (simp add: max_pool_example_def onnx_max_pool_def Let_def onnx_pool_outs_def tpool_def conforms_Ranked nchw_example_def)
    show "''NOTSET'' = ''VALID'' \<longrightarrow> (\<forall>k<2. [2, 2] ! k \<le> tshape nchw_example ! (k + 2))" by simp
    show "''NOTSET'' = ''NOTSET'' \<longrightarrow> (\<forall>k<2. 0 < tshape nchw_example ! (k + 2) \<and> ([1, 0, 0, 1] :: nat list) ! k < ([2, 2] :: nat list) ! k \<and>
        ([1, 0, 0, 1] :: nat list) ! (k + 2) < ([2, 2] :: nat list) ! k \<and> [2, 2] ! k \<le> tshape nchw_example ! (k + 2) + [1, 0, 0, 1] ! k + [1, 0, 0, 1] ! (k + 2))"
      by (simp add: nchw_example_def numeral_2_eq_2 All_less_Suc)
    show "\<forall>w. somes w \<noteq> [] \<and> (\<forall>x\<in>set (somes w). True) \<longrightarrow> ref_max (map (case_option (FV (- 100)) id) w) = ref_max (somes w)"
      using max_lowest [of 0] by (simp add: ref_max_def del: map_map)
  qed
  with low show ?thesis by blast
qed

end
