(* ===== verification/Lower_Conv.thy ===== *)
theory Lower_Conv
  imports Convolution Lower_Pool
begin

text \<open>
  \<^verbatim>\<open>NN/Conv.cpp\<close>: the helpers that all its forms share, and the convolutions with two and with one spatial axis:
  plain, depthwise and grouped, with the paddings \<^verbatim>\<open>VALID\<close>, \<^verbatim>\<open>SAME_UPPER\<close> and explicit pads. A filter of rank 4
  reaches the pattern in the NHWC layout, which is the order OHWI that the kernel wants.
\<close>

section \<open>Definitions\<close>

record 'f conv_op =
  cv_x :: "'f operand"
  cv_w :: "'f operand"
  cv_b :: "'f operand"
  cv_group :: "int option"
  cv_kernel_shape :: "int list option"
  cv_dilations :: "int list option"
  cv_strides :: "int list option"
  cv_pads :: "int list option"
  cv_auto_pad :: "string option"
  cv_result :: mtype

definition getI64ArrayOr :: "int list option \<Rightarrow> int list \<Rightarrow> int list" where
  "getI64ArrayOr attr defaultValues = (case attr of None \<Rightarrow> defaultValues | Some values \<Rightarrow> values)"

definition getOrCreateConvBias :: "'f \<Rightarrow> 'f operand \<Rightarrow> int \<Rightarrow> 'f val result" where
  "getOrCreateConvBias f0 bias outputChannels =
     (case oty bias of
        NoneT \<Rightarrow> Inr (ConstF (RankedTensor [outputChannels] F32) (replicate (nat outputChannels) f0))
      | RankedTensor shape e \<Rightarrow>
          if getRank shape \<noteq> 1 \<or> shape ! 0 \<noteq> outputChannels \<or> failed (validateStaticF32Tensor (oty bias)) then Inl BadTypes
          else Inr (adaptor 2 bias)
      | _ \<Rightarrow> Inl BadTypes)"

definition padConv2DInput :: "'f val \<Rightarrow> int list \<Rightarrow> 'f val result" where
  "padConv2DInput input pads =
     (if length pads \<noteq> 4 \<or> (\<exists>v\<in>set pads. v < 0) then Inl BadPads
      else if \<forall>v\<in>set pads. v = 0 then Inr input
      else (case vtype input of
          RankedTensor shape e \<Rightarrow>
            Inr (createTFLOperation ''tfl.pad'' [padded_pool_type shape pads e] [input, pool_padding pads] [] 0)
        | _ \<Rightarrow> Inl BadTypes))"

definition getConv2DAttributes :: "int \<Rightarrow> int \<Rightarrow> string \<Rightarrow> int \<Rightarrow> int \<Rightarrow> (string \<times> 'f attr) list" where
  "getConv2DAttributes dilationH dilationW padding strideH strideW =
     [(''dilation_h_factor'', IntAttr (i32 dilationH)), (''dilation_w_factor'', IntAttr (i32 dilationW)), getFusedActivationNone,
      (''padding'', StrAttr padding), (''stride_h'', IntAttr (i32 strideH)), (''stride_w'', IntAttr (i32 strideW))]"

definition split_parts :: "int \<Rightarrow> mtype \<Rightarrow> 'f val \<Rightarrow> int list \<Rightarrow> int \<Rightarrow> nat \<Rightarrow> 'f val" where
  "split_parts grp partType v splits axis index =
     createTFLOperation ''tfl.split_v'' (replicate (nat grp) partType)
       [v, createI32ShapeConstant splits, createI32ScalarTensorConstant axis] [(''num_splits'', IntAttr (i32 grp))] index"

definition createGroupedConv2D :: "'f val \<Rightarrow> 'f val \<Rightarrow> 'f val \<Rightarrow> mtype \<Rightarrow> int \<Rightarrow> (string \<times> 'f attr) list \<Rightarrow> 'f val result" where
  "createGroupedConv2D input filt bias resultType grp convAttributes =
     (case (vtype input, vtype filt, vtype bias, resultType) of
        (RankedTensor inShape ie, RankedTensor fShape fe, RankedTensor bShape be, RankedTensor rShape re) \<Rightarrow>
          let inputChannels = inShape ! 3; outputChannels = rShape ! 3 in
          if grp \<le> 1 \<or> Prelude.cmod inputChannels grp \<noteq> 0 \<or> Prelude.cmod outputChannels grp \<noteq> 0 \<or> fShape ! 0 \<noteq> outputChannels \<or>
             fShape ! 3 \<noteq> cdiv inputChannels grp \<or> bShape ! 0 \<noteq> outputChannels then Inl BadTypes
          else
            let inputChannelsPerGroup = cdiv inputChannels grp; outputChannelsPerGroup = cdiv outputChannels grp;
                inputSplits = replicate (nat grp) inputChannelsPerGroup; outputSplits = replicate (nat grp) outputChannelsPerGroup;
                inputParts = split_parts grp (RankedTensor [inShape ! 0, inShape ! 1, inShape ! 2, inputChannelsPerGroup] ie) input inputSplits 3;
                filterParts = split_parts grp (RankedTensor [outputChannelsPerGroup, fShape ! 1, fShape ! 2, fShape ! 3] fe) filt outputSplits 0;
                biasParts = split_parts grp (RankedTensor [outputChannelsPerGroup] be) bias outputSplits 0;
                resultPartType = RankedTensor [rShape ! 0, rShape ! 1, rShape ! 2, outputChannelsPerGroup] re;
                results = map (\<lambda>index. createTFLOperation ''tfl.conv_2d'' [resultPartType]
                  [inputParts index, filterParts index, biasParts index] convAttributes 0) [0..<nat grp] in
            Inr (createTFLOperation ''tfl.concatenation'' [resultType] results [(''axis'', IntAttr 3), getFusedActivationNone] 0)
      | _ \<Rightarrow> Inl BadTypes)"

text \<open>The end of every two-dimensional form: one kernel, or the grouped decomposition.\<close>

definition emit_conv2d ::
  "bool \<Rightarrow> bool \<Rightarrow> int \<Rightarrow> int \<Rightarrow> 'f val \<Rightarrow> 'f val \<Rightarrow> 'f val \<Rightarrow> mtype \<Rightarrow> (string \<times> 'f attr) list \<Rightarrow> 'f val result" where
  "emit_conv2d isDepthwise isGrouped grp depthMultiplier input filt bias convType attributes =
     (let attributes' = (if isDepthwise then attributes @ [(''depth_multiplier'', IntAttr (i32 depthMultiplier))] else attributes) in
      if isGrouped then createGroupedConv2D input filt bias convType grp attributes'
      else Inr (createTFLOperation (if isDepthwise then ''tfl.depthwise_conv_2d'' else ''tfl.conv_2d'') [convType] [input, filt, bias] attributes' 0))"

definition conv_padding :: "string \<Rightarrow> int list \<Rightarrow> 'f val \<Rightarrow> (string \<times> 'f val) result" where
  "conv_padding autoPad pads input =
     (if autoPad = ''VALID'' then Inr (''VALID'', input)
      else if autoPad = ''SAME_UPPER'' then Inr (''SAME'', input)
      else if autoPad = ''NOTSET'' then bind_result (padConv2DInput input pads) (\<lambda>v. Inr (''VALID'', v))
      else Inl BadMode)"

definition depthwise_filter :: "'f val \<Rightarrow> 'f val result" where
  "depthwise_filter filt =
     (case vtype filt of
        RankedTensor filterShape e \<Rightarrow>
          Inr (createTFLOperation ''tfl.transpose'' [RankedTensor [1, filterShape ! 1, filterShape ! 2, filterShape ! 0] e]
            [filt, createI32ShapeConstant [3, 1, 2, 0]] [] 0)
      | _ \<Rightarrow> Inl BadTypes)"

definition lower_conv2d :: "'f \<Rightarrow> 'f conv_op \<Rightarrow> 'f val result" where
  "lower_conv2d f0 op =
     (case (oty (cv_x op), oty (cv_w op), cv_result op) of
        (RankedTensor inShape ie, RankedTensor fShape fe, RankedTensor rShape re) \<Rightarrow>
          if getRank inShape \<noteq> 4 \<or> getRank fShape \<noteq> 4 \<or> getRank rShape \<noteq> 4 \<or> failed (validateStaticF32Tensor (oty (cv_x op))) \<or>
             failed (validateStaticF32Tensor (oty (cv_w op))) \<or> failed (validateStaticF32Tensor (cv_result op)) then Inl BadTypes
          else
            let grp = getInteger (cv_group op) 1; inputChannels = inShape ! 1; outputChannels = fShape ! 0 in
            if grp \<le> 0 \<or> Prelude.cmod inputChannels grp \<noteq> 0 \<or> Prelude.cmod outputChannels grp \<noteq> 0 \<or> fShape ! 1 \<noteq> cdiv inputChannels grp
            then Inl BadAttribute
            else
              let isDepthwise = (grp = inputChannels \<and> fShape ! 1 = 1); isGrouped = (grp \<noteq> 1 \<and> \<not> isDepthwise) in
              if isDepthwise \<and> rShape ! 1 \<noteq> outputChannels then Inl BadTypes
              else
                let depthMultiplier = (if isDepthwise then cdiv outputChannels inputChannels else 1);
                    ksize = getI64ArrayOr (cv_kernel_shape op) (drop 2 fShape); dilations = getI64ArrayOr (cv_dilations op) [1, 1];
                    strides = getI64ArrayOr (cv_strides op) [1, 1]; pads = getI64ArrayOr (cv_pads op) [0, 0, 0, 0] in
                if length ksize \<noteq> 2 \<or> length strides \<noteq> 2 \<or> length dilations \<noteq> 2 then Inl BadAttribute
                else if \<exists>v\<in>set dilations. v \<le> 0 then Inl BadAttribute
                else if \<exists>v\<in>set strides. v \<le> 0 then Inl BadStep
                else bind_result (conv_padding (case cv_auto_pad op of None \<Rightarrow> ''NOTSET'' | Some a \<Rightarrow> a) pads (adaptor 0 (cv_x op)))
                  (\<lambda>(padding, input). bind_result (getOrCreateConvBias f0 (cv_b op) outputChannels) (\<lambda>bias.
                    let attributes = getConv2DAttributes (dilations ! 0) (dilations ! 1) padding (strides ! 0) (strides ! 1) in
                    bind_result (if isDepthwise then depthwise_filter (adaptor 1 (cv_w op)) else Inr (adaptor 1 (cv_w op))) (\<lambda>filt.
                      emit_conv2d isDepthwise isGrouped grp depthMultiplier input filt bias (convertRank4NCHWToNHWCType (cv_result op)) attributes)))
      | _ \<Rightarrow> Inl BadTypes)"

definition lowerConv1D :: "'f \<Rightarrow> 'f conv_op \<Rightarrow> 'f val result" where
  "lowerConv1D f0 op =
     (case (oty (cv_x op), oty (cv_w op), cv_result op) of
        (RankedTensor inShape ie, RankedTensor fShape fe, RankedTensor rShape re) \<Rightarrow>
          if getRank inShape \<noteq> 3 \<or> getRank fShape \<noteq> 3 \<or> getRank rShape \<noteq> 3 \<or> failed (validateStaticF32Tensor (oty (cv_x op))) \<or>
             failed (validateStaticF32Tensor (oty (cv_w op))) \<or> failed (validateStaticF32Tensor (cv_result op)) then Inl BadTypes
          else
            let grp = getInteger (cv_group op) 1; inputChannels = inShape ! 1; outputChannels = fShape ! 0 in
            if grp \<le> 0 \<or> Prelude.cmod inputChannels grp \<noteq> 0 \<or> Prelude.cmod outputChannels grp \<noteq> 0 \<or> fShape ! 1 \<noteq> cdiv inputChannels grp \<or>
               rShape ! 0 \<noteq> inShape ! 0 \<or> rShape ! 1 \<noteq> outputChannels then Inl BadAttribute
            else
              let isDepthwise = (grp = inputChannels \<and> fShape ! 1 = 1); isGrouped = (grp \<noteq> 1 \<and> \<not> isDepthwise);
                  depthMultiplier = (if isDepthwise then cdiv outputChannels inputChannels else 1);
                  ksize = getI64ArrayOr (cv_kernel_shape op) (drop 2 fShape); dilations = getI64ArrayOr (cv_dilations op) [1];
                  strides = getI64ArrayOr (cv_strides op) [1]; pads = getI64ArrayOr (cv_pads op) [0, 0] in
              if length ksize \<noteq> 1 \<or> ksize ! 0 \<noteq> fShape ! 2 \<or> length dilations \<noteq> 1 \<or> length strides \<noteq> 1 \<or> dilations ! 0 \<le> 0 \<or> strides ! 0 \<le> 0
              then Inl BadAttribute
              else
                let autoPad = (case cv_auto_pad op of None \<Rightarrow> ''NOTSET'' | Some a \<Rightarrow> a) in
                if autoPad = ''NOTSET'' \<and> (length pads \<noteq> 2 \<or> (\<exists>v\<in>set pads. v < 0)) then Inl BadPads
                else if autoPad \<noteq> ''NOTSET'' \<and> autoPad \<noteq> ''SAME_UPPER'' \<and> autoPad \<noteq> ''VALID'' then Inl BadMode
                else
                  let padding = (if autoPad = ''SAME_UPPER'' then ''SAME'' else ''VALID'');
                      pads2D = (if autoPad = ''NOTSET'' then [pads ! 0, 0, pads ! 1, 0] else [0, 0, 0, 0]);
                      n = inShape ! 0; l = inShape ! 2; k = ksize ! 0; outputLength = rShape ! 2;
                      nlc = createTFLOperation ''tfl.transpose'' [RankedTensor [n, l, inputChannels] F32]
                        [adaptor 0 (cv_x op), createI32ShapeConstant [0, 2, 1]] [] 0;
                      input4D = emitReshape (RankedTensor [n, l, 1, inputChannels] F32) [n, l, 1, inputChannels] nlc in
                  bind_result (if padding = ''VALID'' then padConv2DInput input4D pads2D else Inr input4D) (\<lambda>input.
                    let transposedFilter = createTFLOperation ''tfl.transpose''
                          [RankedTensor (if isDepthwise then [1, k, outputChannels] else [outputChannels, k, fShape ! 1]) F32]
                          [adaptor 1 (cv_w op), createI32ShapeConstant (if isDepthwise then [1, 2, 0] else [0, 2, 1])] [] 0;
                        filter4DShape = (if isDepthwise then [1, k, 1, outputChannels] else [outputChannels, k, 1, fShape ! 1]);
                        filter4D = emitReshape (RankedTensor filter4DShape F32) filter4DShape transposedFilter in
                    bind_result (getOrCreateConvBias f0 (cv_b op) outputChannels) (\<lambda>bias.
                      let attributes = getConv2DAttributes (dilations ! 0) 1 padding (strides ! 0) 1 in
                      bind_result (emit_conv2d isDepthwise isGrouped grp depthMultiplier input filter4D bias
                          (RankedTensor [n, outputLength, 1, outputChannels] F32) attributes) (\<lambda>conv.
                        let nlm = emitReshape (RankedTensor [n, outputLength, outputChannels] F32) [n, outputLength, outputChannels] conv in
                        Inr (createTFLOperation ''tfl.transpose'' [cv_result op] [nlm, createI32ShapeConstant [0, 2, 1]] [] 0))))
      | _ \<Rightarrow> Inl BadTypes)"

section \<open>What ONNX defines\<close>

text \<open>The padding before each spatial axis and the extents of the result, for the extents \<open>eks\<close> of the dilated kernel.\<close>

definition conv_before :: "string \<Rightarrow> nat list \<Rightarrow> nat list \<Rightarrow> nat list \<Rightarrow> nat list \<Rightarrow> nat list" where
  "conv_before autoPad pads ds eks ss =
     map (\<lambda>j. let total = ((ds ! j + ss ! j - 1) div (ss ! j) - 1) * ss ! j + eks ! j - ds ! j in
       if autoPad = ''SAME_UPPER'' then total div 2 else if autoPad = ''SAME_LOWER'' then total - total div 2
       else if autoPad = ''VALID'' then 0 else pads ! j) [0..<length ds]"

definition conv_outs :: "string \<Rightarrow> nat list \<Rightarrow> nat list \<Rightarrow> nat list \<Rightarrow> nat list \<Rightarrow> nat list" where
  "conv_outs autoPad pads ds eks ss =
     map (\<lambda>j. if autoPad = ''SAME_UPPER'' \<or> autoPad = ''SAME_LOWER'' then (ds ! j + ss ! j - 1) div (ss ! j)
       else if autoPad = ''VALID'' then (ds ! j - eks ! j) div (ss ! j) + 1
       else (ds ! j + pads ! j + pads ! (j + length ds) - eks ! j) div (ss ! j) + 1) [0..<length ds]"

definition conv_spec ::
  "('a \<Rightarrow> ('a \<times> 'a) list \<Rightarrow> 'a) \<Rightarrow> string \<Rightarrow> nat \<Rightarrow> nat list \<Rightarrow> nat list \<Rightarrow> nat list \<Rightarrow> 'a tensor \<Rightarrow> 'a tensor \<Rightarrow> 'a tensor \<Rightarrow> 'a tensor" where
  "conv_spec acc autoPad g pads dl ss x f b =
     (let ds = drop 2 (tshape x); eks = map2 eff_kernel (drop 2 (tshape f)) dl in
      onnx_conv acc g ss dl (conv_before autoPad pads ds eks ss) (conv_outs autoPad pads ds eks ss) x f b)"

definition conv_params :: "'f conv_op \<Rightarrow> nat \<Rightarrow> nat list \<Rightarrow> nat list \<Rightarrow> nat list \<Rightarrow> nat \<Rightarrow> bool" where
  "conv_params op g pads dl ss r \<longleftrightarrow>
     int g = getInteger (cv_group op) 1 \<and> map int dl = getI64ArrayOr (cv_dilations op) (replicate r 1) \<and>
     map int ss = getI64ArrayOr (cv_strides op) (replicate r 1) \<and> map int pads = getI64ArrayOr (cv_pads op) (replicate (2 * r) 0) \<and>
     i32_dims dl \<and> i32_dims ss \<and> i32_dims pads"

section \<open>Evaluation\<close>

lemma length_conv_outs [simp]: "length (conv_outs autoPad pads ds eks ss) = length ds"
  and length_conv_before [simp]: "length (conv_before autoPad pads ds eks ss) = length ds"
  by (simp_all add: conv_outs_def conv_before_def)

lemma getConv2DAttributes_fits:
  assumes "dh < 2 ^ 31" "dw < 2 ^ 31" "sh < 2 ^ 31" "sw < 2 ^ 31"
  shows "getConv2DAttributes (int dh) (int dw) padding (int sh) (int sw) = conv2d_attributes (int dh) (int dw) padding (int sh) (int sw)"
  using assms by (simp add: getConv2DAttributes_def conv2d_attributes_def i32_id fits_i32_def)

lemma conforms_F32: "conforms (RankedTensor (map int ds) e) t \<longleftrightarrow> wf_tensor t \<and> tshape t = ds"
  by (auto simp: conforms_Ranked inj_map_eq_map [OF inj_of_nat])

lemma declares_replicate: "declares (replicate g ty) ts \<longleftrightarrow> length ts = g \<and> (\<forall>t\<in>set ts. conforms ty t)"
  by (auto simp: declares_def list_all2_conv_all_nth in_set_conv_nth intro!: nth_mem)

lemma wf_last_conv [simp]: "wf_tensor (last_conv acc g ss dl ps outs x f b)"
  and tshape_last_conv [simp]: "tshape (last_conv acc g ss dl ps outs x f b) = hd (tshape x) # outs @ [hd (tshape f)]"
  by (simp_all add: last_conv_def Let_def)

context tfl_conv
begin

lemma eval_split_parts:
  assumes x: "wf_tensor x" "eval sem env v = x" and a: "a < trank x" "tshape x ! a = g * q"
    and ty: "pty = RankedTensor (map int ((tshape x)[a := q])) e" and fit: "g < 2 ^ 31" "q < 2 ^ 31" and j: "j < g" "ax = int a"
  shows "eval sem env (split_parts (int g) pty v (replicate g (int q)) ax j) = tsplit a (replicate g q) x ! j"
proof -
  have "\<forall>t\<in>set (tsplit a (replicate g q) x). conforms pty t" unfolding ty conforms_F32 using a by (auto simp: tsplit_def)
  then have d: "declares (replicate g pty) (tsplit a (replicate g q) x)" by (simp add: declares_replicate)
  have "i32 (int q) = int q" "i32 (int g) = int g" using fit by (simp_all add: i32_id fits_i32_def)
  then show ?thesis
    using split_v [OF x(1) a(1) _ d] a x(2) j(1) by (simp add: j(2) split_parts_def sum_list_replicate map_replicate)
qed

lemma eval_grouped:
  assumes low: "createGroupedConv2D input filt bias (RankedTensor (map int (tshape r)) F32) (int g) attrs = Inr v"
    and x: "wf_tensor x" "tshape x = [n, h, w, ci]" "eval sem env input = x" "vtype input = RankedTensor (map int (tshape x)) F32" "ci < 2 ^ 31"
    and f: "wf_tensor f" "tshape f = [m, kh, kw, cg]" "eval sem env filt = f" "vtype filt = RankedTensor (map int (tshape f)) F32" "m < 2 ^ 31"
    and b: "wf_tensor b" "tshape b = [m]" "eval sem env bias = b" "vtype bias = RankedTensor [int m] F32"
    and pos: "0 < kh" "0 < kw" "0 < dh" "0 < dw" "ci = g * cg" "g dvd m" and gfit: "g < 2 ^ 31" and eks: "eks = [eff_kernel kh dh, eff_kernel kw dw]"
    and ok: "kernel_ok padding [h, w] eks [sh, sw]" and attrs: "attrs = conv2d_attributes (int dh) (int dw) padding (int sh) (int sw)"
    and r: "r = last_conv acc g [sh, sw] [dh, dw] (kernel_pads padding [h, w] eks [sh, sw]) (kernel_outs padding [h, w] eks [sh, sw]) x f b"
  shows "eval sem env v = r"
proof -
  let ?P = "kernel_pads padding [h, w] eks [sh, sw]" and ?O = "kernel_outs padding [h, w] eks [sh, sw]"
  obtain oh ow where O: "?O = [oh, ow]" by (simp add: kernel_outs_def)
  obtain q where q: "m = g * q" using pos(6) by blast
  have sr: "tshape r = [n, oh, ow, m]" by (simp add: r x f O)
  have g: "1 < g" using low by (simp add: createGroupedConv2D_def sr x f b Let_def split: if_splits)
  have dv: "cdiv (int ci) (int g) = int cg" "cdiv (int m) (int g) = int q" using g by (simp_all add: cdiv_nonneg pos(5) q flip: zdiv_int)
  have cq: "cg \<le> ci" "q \<le> m" using g by (simp_all add: pos(5) q)
  define pty where "pty = RankedTensor [int n, int oh, int ow, int q] F32"
  let ?part = "\<lambda>j. last_conv acc 1 [sh, sw] [dh, dw] ?P ?O (tsplit 3 (replicate g cg) x ! j) (tsplit 0 (replicate g q) f ! j) (tsplit 0 (replicate g q) b ! j)"
  let ?ip = "split_parts (int g) (RankedTensor [int n, int h, int w, int cg] F32) input (replicate g (int cg)) 3"
    and ?fp = "split_parts (int g) (RankedTensor [int q, int kh, int kw, int cg] F32) filt (replicate g (int q)) 0"
    and ?bp = "split_parts (int g) (RankedTensor [int q] F32) bias (replicate g (int q)) 0"
  have v: "v = createTFLOperation ''tfl.concatenation'' [RankedTensor (map int (tshape r)) F32]
      (map (\<lambda>index. createTFLOperation ''tfl.conv_2d'' [pty] [?ip index, ?fp index, ?bp index] attrs 0) [0..<g]) [(''axis'', IntAttr 3), getFusedActivationNone] 0"
    using low by (simp add: createGroupedConv2D_def sr x f b dv Let_def pty_def split: if_splits)
  have x3: "tshape x = n # [h, w] @ [g * cg]" and f3: "tshape f = (g * q) # [kh, kw] @ [cg]" "tshape f = (g * q) # [kh, kw, cg]" and b3: "tshape b = [g * q]"
    by (simp_all add: x f b pos(5) q)
  have small: "cg < 2 ^ 31" "q < 2 ^ 31" using x(5) f(5) cq by simp_all
  have part: "eval sem env (createTFLOperation ''tfl.conv_2d'' [pty] [?ip j, ?fp j, ?bp j] attrs 0) = ?part j" if j: "j < g" for j
  proof -
    have "eval sem env (?ip j) = tsplit 3 (replicate g cg) x ! j"
      using x j small gfit by (intro eval_split_parts) (simp_all add: pos(5))
    moreover have "eval sem env (?fp j) = tsplit 0 (replicate g q) f ! j"
      using f j small gfit by (intro eval_split_parts) (simp_all add: q)
    moreover have "eval sem env (?bp j) = tsplit 0 (replicate g q) b ! j"
      using b j small gfit by (intro eval_split_parts) (simp_all add: q)
    moreover have "tshape (tsplit 3 (replicate g cg) x ! j) = [n, h, w, cg]" "wf_tensor (tsplit 3 (replicate g cg) x ! j)"
      using tsplit_last(1,2) [OF x3 j] by (simp_all add: numeral_3_eq_3)
    moreover note tsplit_first(1,2) [OF f3(2) j] tsplit_first(1,2) [OF b3 j]
    moreover have "declares [pty] [?part j]"
      using calculation by (simp add: declares_def pty_def conforms_Ranked O)
    ultimately show ?thesis
      using pos eks ok by (simp add: attrs conv_2d [OF _ _ _ _ _ _ pos(1-4) eks ok refl])
  qed
  have parts: "map (\<lambda>j. eval sem env (createTFLOperation ''tfl.conv_2d'' [pty] [?ip j, ?fp j, ?bp j] attrs 0)) [0..<g] = map ?part [0..<g]"
    using part by simp
  have cat: "r = tconcat 3 (map ?part [0..<g])"
    using last_conv_groups [OF x3 f3(1) b3, of ?O acc "[sh, sw]" "[dh, dw]" ?P] g by (simp add: r O numeral_3_eq_3)
  have "concatable 3 (map ?part [0..<g])"
    using g tsplit_last(1) [OF x3] tsplit_first(1) [OF f3(2)] by (auto simp: concatable_def hd_map O numeral_3_eq_3)
  moreover have "declares [RankedTensor (map int (tshape r)) F32] [r]" by (simp add: declares_def conforms_F32) (simp add: r)
  ultimately have "sem ''tfl.concatenation'' [(''axis'', IntAttr (int 3)), getFusedActivationNone] [RankedTensor (map int (tshape r)) F32] (map ?part [0..<g]) = [r]"
    unfolding cat by (rule concatenation)
  then show ?thesis unfolding v parts [symmetric] by (simp add: comp_def)
qed

text \<open>The three forms of the last step; \<open>f\<close> is the filter in the order OHWI.\<close>

lemma eval_emit_conv2d:
  assumes low: "emit_conv2d isDepthwise isGrouped (int g) dm input filt bias (RankedTensor (map int (tshape r)) F32) 
      (getConv2DAttributes (int dh) (int dw) padding (int sh) (int sw)) = Inr v"
    and form: "isDepthwise \<longleftrightarrow> g = ci \<and> cg = 1" "isGrouped \<longleftrightarrow> g \<noteq> 1 \<and> \<not> isDepthwise" "dm = (if isDepthwise then cdiv (int m) (int ci) else 1)"
    and x: "wf_tensor x" "tshape x = [n, h, w, ci]" "eval sem env input = x" "vtype input = RankedTensor (map int (tshape x)) F32" "ci < 2 ^ 31"
    and f: "tshape f = [m, kh, kw, cg]" "m < 2 ^ 31"
    and plain: "\<not> isDepthwise \<Longrightarrow> wf_tensor f \<and> eval sem env filt = f \<and> vtype filt = RankedTensor (map int (tshape f)) F32"
    and depth: "isDepthwise \<Longrightarrow> wf_tensor f' \<and> eval sem env filt = f' \<and> tshape f' = [1, kh, kw, m] \<and>
      (\<forall>a<kh. \<forall>b<kw. \<forall>j<m. tnth f' [0, a, b, j] = tnth f [j, a, b, 0])"
    and b: "wf_tensor b" "tshape b = [m]" "eval sem env bias = b" "vtype bias = RankedTensor [int m] F32"
    and pos: "0 < kh" "0 < kw" "0 < dh" "0 < dw" "0 < cg" "0 < m" "0 < g" "ci = g * cg" "g dvd m"
    and fits: "dh < 2 ^ 31" "dw < 2 ^ 31" "sh < 2 ^ 31" "sw < 2 ^ 31"
    and eks: "eks = [eff_kernel kh dh, eff_kernel kw dw]" and ok: "kernel_ok padding [h, w] eks [sh, sw]" 
    and r: "r = last_conv acc g [sh, sw] [dh, dw] (kernel_pads padding [h, w] eks [sh, sw]) (kernel_outs padding [h, w] eks [sh, sw]) x f b"
  shows "eval sem env v = r"
proof -
  let ?P = "kernel_pads padding [h, w] eks [sh, sw]" and ?O = "kernel_outs padding [h, w] eks [sh, sw]"
    and ?attrs = "conv2d_attributes (int dh) (int dw) padding (int sh) (int sw)" and ?ty = "RankedTensor (map int (tshape r)) F32"
  obtain oh ow where O: "?O = [oh, ow]" by (simp add: kernel_outs_def)
  note a = getConv2DAttributes_fits [OF fits]
  have d: "declares [?ty] [r]" by (simp add: declares_def conforms_F32) (simp add: r)
  have gfit: "g < 2 ^ 31" using x(5) pos(5,8) by (cases cg) simp_all
  consider (dw) "isDepthwise" "\<not> isGrouped" | (gr) "\<not> isDepthwise" "isGrouped" | (pl) "g = 1" "\<not> isDepthwise" "\<not> isGrouped" using form(2) by blast
  then show ?thesis
  proof cases
    case dw
    obtain q where q: "m = g * q" using pos(9) by blast
    have c: "g = ci" "cg = 1" "tshape f' = [1, kh, kw, m]" "wf_tensor f'" "eval sem env filt = f'" using form(1) dw depth by simp_all
    have "dm = int q" using form(3) dw pos(7) by (simp add: cdiv_nonneg q c(1) [symmetric] flip: zdiv_int)
    moreover have "i32 (int q) = int q" using f(2) pos(7) q by (cases g) (auto intro!: i32_id simp: fits_i32_def)
    ultimately have v: "v = createTFLOperation ''tfl.depthwise_conv_2d'' [?ty] [input, filt, bias] (?attrs @ [(''depth_multiplier'', IntAttr (int q))]) 0"
      using low dw by (simp add: emit_conv2d_def a)
    have "r = depthwise_conv acc q [sh, sw] [dh, dw] ?P ?O x f' b"
      unfolding r using x(2) f(1) c q pos(7) dw depth
      by (intro last_conv_depthwise [where n = n and ds = "[h, w]" and ks = "[kh, kw]" and m = m, symmetric]) (auto simp: valid_ix_Cons)
    moreover have "0 < q" using pos(6) q by (cases q) auto
    ultimately show ?thesis
      using depthwise_conv_2d [OF x(1) c(4) b(1) x(2) _ _ pos(1-4) _ eks ok, of q r "[?ty]"] d c b q x(3) by (simp add: v)
  next
    case gr
    then show ?thesis
      using low eval_grouped [OF _ x(1-5) _ f(1) _ _ f(2) b pos(1-4,8,9) gfit eks ok refl r] gr plain by (simp add: emit_conv2d_def a)
  next
    case pl
    have "v = createTFLOperation ''tfl.conv_2d'' [?ty] [input, filt, bias] ?attrs 0" using low pl by (simp add: emit_conv2d_def a)
    then show ?thesis
      using conv_2d [OF x(1) _ b(1), of f n h w ci m kh kw dh dw eks padding sh sw r "[?ty]"] plain x b f pos eks ok r pl d by simp
  qed
qed

text \<open>The padded input of the kernel; without pads the input itself.\<close>

lemma eval_padConv2DInput:
  assumes low: "padConv2DInput input (map int pads) = Inr v"
    and x: "wf_tensor x" "tshape x = [n, h, w, c]" "eval sem env input = x" "vtype input = RankedTensor (map int (tshape x)) F32"
    and dims: "i32_dims [n, h, w, c]" "i32_dims pads"
  obtains pt pl pb pr where "pads = [pt, pl, pb, pr]" "eval sem env v = tpad [0, pt, pl, 0] [0, pb, pr, 0] zero x"
    "vtype v = RankedTensor (map int [n, h + pt + pb, w + pl + pr, c]) F32"
proof -
  have l: "length pads = 4" using low by (simp add: padConv2DInput_def split: if_splits)
  then obtain pt pl pb pr where p: "pads = [pt, pl, pb, pr]" using list4 by blast
  have sml: "h < 2 ^ 31" "w < 2 ^ 31" "pt < 2 ^ 31" "pb < 2 ^ 31" "pl < 2 ^ 31" "pr < 2 ^ 31" using dims by (simp_all add: i32_dims_def p)
  let ?y = "tpad [0, pt, pl, 0] [0, pb, pr, 0] zero x" and ?ty = "RankedTensor (map int [n, h + pt + pb, w + pl + pr, c]) F32"
  have ys: "wf_tensor ?y" "tshape ?y = [n, h + pt + pb, w + pl + pr, c]" by (simp_all add: tpad_def x)
  show thesis
  proof (cases "pads = [0, 0, 0, 0]")
    case True
    then have "v = input" using low by (simp add: padConv2DInput_def)
    then show ?thesis using that [OF p] x True p tpad_none [OF x(1), of zero] by (simp add: numeral_eq_Suc)
  next
    case False
    then have v: "v = createTFLOperation ''tfl.pad'' [?ty] [input, pool_padding (map int pads)] [] 0"
      using low x(4) sml by (auto simp: padConv2DInput_def p x(2) padded_pool_type_def i64_id)
    have "eval sem env v = ?y"
      using pad [OF x(1), of "[0, pt, pl, 0]" "[0, pb, pr, 0]" "[?ty]"] x ys pool_padding_matrix [OF dims(2) l, of sem env]
      by (simp add: v p conforms_Ranked)
    then show ?thesis using that [OF p] by (simp add: v)
  qed
qed

lemma eval_conv_padding:
  assumes low: "conv_padding ap (map int pads) input = Inr (padding, v)"
    and x: "wf_tensor x" "tshape x = [n, h, w, ci]" "eval sem env input = x" "vtype input = RankedTensor (map int (tshape x)) F32"
    and dims: "i32_dims [n, h, w, ci]" "i32_dims pads"
    and f: "wf_tensor f" "tshape f = [m, kh, kw, cg]" and num: "(\<exists>p\<in>set pads. p \<noteq> 0) \<longrightarrow> ignores acc zero num \<and> (\<forall>w\<in>set (tdata f). num w)"
    and g: "ci = g * cg" "g dvd m" "0 < g" "0 < sh" "0 < sw" and eks: "eks = [eff_kernel kh dh, eff_kernel kw dw]"
    and fit: "ap = ''VALID'' \<longrightarrow> list_all2 (\<le>) eks [h, w]"
      "ap = ''NOTSET'' \<longrightarrow> list_all2 (\<le>) eks [h + pads ! 0 + pads ! 2, w + pads ! 1 + pads ! 3]"
  obtains h' w' x' where "wf_tensor x'" "tshape x' = [n, h', w', ci]" "eval sem env v = x'" "vtype v = RankedTensor (map int (tshape x')) F32"
    "kernel_ok padding [h', w'] eks [sh, sw]"
    "last_conv acc g [sh, sw] [dh, dw] (kernel_pads padding [h', w'] eks [sh, sw]) (kernel_outs padding [h', w'] eks [sh, sw]) x' f b =
      last_conv acc g [sh, sw] [dh, dw] (conv_before ap pads [h, w] eks [sh, sw]) (conv_outs ap pads [h, w] eks [sh, sw]) x f b"
proof -
  consider (valid) "ap = ''VALID''" "padding = ''VALID''" "v = input" | (same) "ap = ''SAME_UPPER''" "padding = ''SAME''" "v = input"
    | (none) "ap = ''NOTSET''" "padding = ''VALID''" "padConv2DInput input (map int pads) = Inr v"
    using low by (auto simp: conv_padding_def split: if_splits)
  then show thesis
  proof cases
    case valid
    then show ?thesis using that [OF x(1,2)] x fit(1) g(4,5)
      by (simp add: kernel_ok_def kernel_pads_def kernel_outs_def conv_before_def conv_outs_def valid_out_def numeral_2_eq_2)
  next
    case same
    then show ?thesis using that [OF x(1,2)] x g(4,5)
      by (simp add: kernel_ok_def kernel_pads_def kernel_outs_def conv_before_def conv_outs_def same_out_def same_pad_def numeral_2_eq_2)
  next
    case none
    obtain pt pl pb pr where p: "pads = [pt, pl, pb, pr]" and v: "eval sem env v = tpad [0, pt, pl, 0] [0, pb, pr, 0] zero x"
      "vtype v = RankedTensor (map int [n, h + pt + pb, w + pl + pr, ci]) F32" by (rule eval_padConv2DInput [OF none(3) x dims])
    let ?y = "tpad [0, pt, pl, 0] [0, pb, pr, 0] zero x" and ?h = "h + pt + pb" and ?w = "w + pl + pr"
    have ys: "wf_tensor ?y" "tshape ?y = [n, ?h, ?w, ci]" by (simp_all add: tpad_def x)
    have fi: "eff_kernel kh dh \<le> ?h" "eff_kernel kw dw \<le> ?w" using fit(2) none by (simp_all add: p eks)
    let ?O = "[valid_out ?h (eff_kernel kh dh) sh, valid_out ?w (eff_kernel kw dw) sw]"
    have ou: "conv_outs ap pads [h, w] eks [sh, sw] = ?O" "conv_before ap pads [h, w] eks [sh, sw] = [pt, pl]"
      "kernel_outs padding [?h, ?w] eks [sh, sw] = ?O" "kernel_pads padding [?h, ?w] eks [sh, sw] = [0, 0]"
      using none by (simp_all add: p eks conv_outs_def conv_before_def kernel_outs_def kernel_pads_def valid_out_def numeral_2_eq_2)
    have "last_conv acc g [sh, sw] [dh, dw] [0, 0] ?O ?y f b = last_conv acc g [sh, sw] [dh, dw] [pt, pl] ?O x f b"
    proof (cases "\<exists>p\<in>set pads. p \<noteq> 0")
      case True
      have "\<forall>j<length [h, w]. \<forall>i<?O ! j. \<forall>k<[kh, kw] ! j. i * [sh, sw] ! j + [dh, dw] ! j * k < [h, w] ! j + [pt, pl] ! j + [pb, pr] ! j"
        using dilated_out_fits [of _ ?h kh dh sh] dilated_out_fits [of _ ?w kw dw sw] fi g(4,5) by (auto simp: All_less_Suc)
      then show ?thesis
        using last_conv_tpad [of x n "[h, w]" ci f m "[kh, kw]" cg num "[pt, pl]" "[pb, pr]" "[sh, sw]" "[dh, dw]" ?O g acc zero b] x f num True g
        by (simp add: numeral_2_eq_2)
    next
      case False
      then have "?y = x" using tpad_none [OF x(1), of zero] x(2) by (simp add: p numeral_eq_Suc)
      then show ?thesis using False by (simp add: p)
    qed
    then show ?thesis using that [OF ys v(1)] v(2) fi ys g(4,5) none ou by (simp add: kernel_ok_def eks)
  qed
qed

end

section \<open>Correctness\<close>

text \<open>The bias operand: absent, it stands for zeros.\<close>

definition conv_bias :: "'f \<Rightarrow> 'f operand \<Rightarrow> (nat \<Rightarrow> 'f scalar tensor) \<Rightarrow> nat \<Rightarrow> 'f scalar tensor \<Rightarrow> bool" where
  "conv_bias f0 bias env m b \<longleftrightarrow>
     (if oty bias = NoneT then b = Tensor [m] (replicate m (FV f0)) else conforms (oty bias) b \<and> env 2 = phys (oty bias) b)"

text \<open>Where no padding of the algorithm applies, the dilated kernel has to fit into the padded input.\<close>

definition conv_fits :: "string \<Rightarrow> nat list \<Rightarrow> nat list \<Rightarrow> nat list \<Rightarrow> nat list \<Rightarrow> bool" where
  "conv_fits autoPad pads dl xshape fshape \<longleftrightarrow>
     (let ds = drop 2 xshape; eks = map2 eff_kernel (drop 2 fshape) dl in
      (autoPad = ''VALID'' \<longrightarrow> list_all2 (\<le>) eks ds) \<and>
      (autoPad = ''NOTSET'' \<longrightarrow> list_all2 (\<le>) eks (map (\<lambda>j. ds ! j + pads ! j + pads ! (j + length ds)) [0..<length ds])))"

lemma getOrCreateConvBias_represents:
  assumes "getOrCreateConvBias f0 bias (int m) = Inr v" and "conv_bias f0 bias env m b"
  shows "wf_tensor b" "tshape b = [m]" "eval sem env v = b" "vtype v = RankedTensor [int m] F32"
proof -
  consider (none) "oty bias = NoneT" | (tensor) shape e where "oty bias = RankedTensor shape e"
    using assms(1) by (auto simp: getOrCreateConvBias_def split: mtype.splits)
  then have "wf_tensor b \<and> tshape b = [m] \<and> eval sem env v = b \<and> vtype v = RankedTensor [int m] F32"
  proof cases
    case none
    then show ?thesis using assms by (auto simp: getOrCreateConvBias_def conv_bias_def wf_tensor_def)
  next
    case tensor
    then have c: "length shape = 1" "shape ! 0 = int m" "isF32 e" "v = adaptor 2 bias"
      using assms(1) by (auto simp: getOrCreateConvBias_def getRank_def isF32_def split: if_splits elim!: not_failedE)
    then have "shape = [int m]" by (cases shape) auto
    then show ?thesis
      using assms(2) tensor c by (auto simp: conv_bias_def conforms_def phys_def physical4_def adaptor_def convertRank4NCHWToNHWCType_def getRank_def isF32_def)
  qed
  then show "wf_tensor b" "tshape b = [m]" "eval sem env v = b" "vtype v = RankedTensor [int m] F32" by simp_all
qed

lemma conv_channels:
  assumes "\<not> int g \<le> 0" "Prelude.cmod (int ci) (int g) = 0" "Prelude.cmod (int m) (int g) = 0" "int cg = cdiv (int ci) (int g)"
  shows "ci = g * cg" "g dvd m" "0 < g"
proof -
  show g: "0 < g" using assms(1) by simp
  have "ci mod g = 0" "m mod g = 0" using assms(2,3) g by (simp_all add: cmod_nonneg flip: zmod_int)
  moreover have "cg = ci div g" using assms(4) g by (simp add: cdiv_nonneg flip: zdiv_int)
  ultimately show "ci = g * cg" "g dvd m" by auto
qed

lemma vtype_emit_conv2d:
  assumes "emit_conv2d isDepthwise isGrouped grp dm input filt bias ty attrs = Inr v" shows "vtype v = ty"
  using assms by (auto simp: emit_conv2d_def createGroupedConv2D_def Let_def split: mtype.splits if_splits)

context tfl_conv
begin

lemma eval_depthwise_filter:
  assumes low: "depthwise_filter filt = Inr v" and f: "wf_tensor f" "tshape f = [m, kh, kw, 1]" "eval sem env filt = f" "vtype filt = RankedTensor (map int (tshape f)) F32"
  defines "f' \<equiv> ttranspose [3, 1, 2, 0] f"
  shows "wf_tensor f'" "eval sem env v = f'" "tshape f' = [1, kh, kw, m]" "\<forall>a<kh. \<forall>b<kw. \<forall>j<m. tnth f' [0, a, b, j] = tnth f [j, a, b, 0]"
proof -
  have p: "is_perm [3, 1, 2, 0] (trank f)" by (simp add: is_perm_def f(2))
  show f': "wf_tensor f'" "tshape f' = [1, kh, kw, m]" by (simp_all add: f'_def f(2) permute_def)
  have "v = createTFLOperation ''tfl.transpose'' [RankedTensor (map int [1, kh, kw, m]) F32] [filt, createI32ShapeConstant [3, 1, 2, 0]] [] 0"
    using low f by (simp add: depthwise_filter_def)
  then show "eval sem env v = f'"
    using transpose [OF f(1) p, of "[RankedTensor (map int [1, kh, kw, m]) F32]"] f f' by (simp add: conforms_Ranked f'_def i32_def)
  show "\<forall>a<kh. \<forall>b<kw. \<forall>j<m. tnth f' [0, a, b, j] = tnth f [j, a, b, 0]"
  proof (intro allI impI)
    fix a b j assume "a < kh" "b < kw" "j < m"
    then have "valid_ix (tshape f) [j, a, b, 0]" by (simp add: f)
    from tnth_ttranspose_permute [OF p this] show "tnth f' [0, a, b, j] = tnth f [j, a, b, 0]" by (simp add: f'_def permute_def)
  qed
qed

end

text \<open>
  C20: when the pattern of a convolution with two spatial axes succeeds, the created value represents the ONNX
  operator on the logical operands: plain, depthwise and grouped, dilated and strided, with every padding the
  pattern accepts. Explicit pads have to be ignored by the accumulation, which holds for finite weights.
\<close>

theorem lower_conv2d_correct:
  assumes sem: "tfl_conv sem zero acc" and low: "lower_conv2d f0 op = Inr v"
    and x: "conforms (oty (cv_x op)) x" "env 0 = phys (oty (cv_x op)) x" "i32_dims (tshape x)"
    and f: "conforms (oty (cv_w op)) f" "env 1 = phys (oty (cv_w op)) f" "i32_dims (tshape f)" "\<forall>d\<in>set (tshape f). 0 < d"
    and b: "conv_bias f0 (cv_b op) env (tshape f ! 0) b"
    and par: "conv_params op g pads dl ss 2" and ap: "ap = (case cv_auto_pad op of None \<Rightarrow> ''NOTSET'' | Some a \<Rightarrow> a)"
    and fit: "conv_fits ap pads dl (tshape x) (tshape f)"
    and num: "(\<exists>p\<in>set pads. p \<noteq> 0) \<longrightarrow> ignores acc zero num \<and> (\<forall>w\<in>set (tdata f). num w)"
    and res: "conforms (cv_result op) (conv_spec acc ap g pads dl ss x f b)"
  shows "represents sem env v (cv_result op) (conv_spec acc ap g pads dl ss x f b)"
proof -
  let ?ty = "cv_result op" and ?X = "ttranspose to_nhwc x" and ?F = "ttranspose to_nhwc f"
  obtain ie where xt: "oty (cv_x op) = RankedTensor (map int (tshape x)) ie" and wx: "wf_tensor x" using x(1) by (auto simp: conforms_def)
  obtain fe where ft: "oty (cv_w op) = RankedTensor (map int (tshape f)) fe" and wf: "wf_tensor f" using f(1) by (auto simp: conforms_def)
  obtain os oe where ty: "?ty = RankedTensor os oe" using low by (auto simp: lower_conv2d_def xt ft split: mtype.splits)
  have c: "trank x = 4" "trank f = 4" "length os = 4" "isF32 ie" "isF32 fe" "isF32 oe"
    using low by (auto simp: lower_conv2d_def xt ft ty getRank_def isF32_def split: if_splits elim!: not_failedE)
  obtain n ci h w where xs: "tshape x = [n, ci, h, w]" using list4 [OF c(1)] by blast
  obtain m cg kh kw where fs: "tshape f = [m, cg, kh, kw]" using list4 [OF c(2)] by blast
  have par': "int g = getInteger (cv_group op) 1" "getI64ArrayOr (cv_dilations op) [1, 1] = map int dl" "getI64ArrayOr (cv_strides op) [1, 1] = map int ss"
    "getI64ArrayOr (cv_pads op) [0, 0, 0, 0] = map int pads" "i32_dims dl" "i32_dims ss" "i32_dims pads"
    using par by (simp_all add: conv_params_def numeral_2_eq_2 numeral_eq_Suc)
  note low' = low [unfolded lower_conv2d_def, simplified xt ft ty par'(1) [symmetric] par'(2-4) xs fs Let_def prod.case mtype.case]
  have l: "length ss = 2" "length dl = 2" using low' by (auto split: if_splits)
  obtain dh dw where dl: "dl = [dh, dw]" using list2 [OF l(2)] by blast
  obtain sh sw where ss: "ss = [sh, sw]" using list2 [OF l(1)] by blast
  have pos: "0 < dh" "0 < dw" "0 < sh" "0 < sw" using low' by (auto simp: dl ss split: if_splits)
  have ch: "ci = g * cg" "g dvd m" "0 < g" using low' by (intro conv_channels; auto split: if_splits)+
  have p4: "physical4 (oty (cv_x op))" "physical4 (oty (cv_w op))" "physical4 ?ty" using c by (simp_all add: xt ft ty physical4_def)
  let ?dw = "g = ci \<and> cg = 1"
  let ?dm = "if ?dw then cdiv (int m) (int ci) else 1"
  have cd: "cdiv (int ci) (int g) = int cg" using ch by (simp add: cdiv_nonneg)
  obtain padding input bias filt where steps: "conv_padding ap (map int pads) (adaptor 0 (cv_x op)) = Inr (padding, input)"
    "getOrCreateConvBias f0 (cv_b op) (int m) = Inr bias" "(if ?dw then depthwise_filter (adaptor 1 (cv_w op)) else Inr (adaptor 1 (cv_w op))) = Inr filt"
    "emit_conv2d ?dw (g \<noteq> 1 \<and> \<not> ?dw) (int g) ?dm input filt bias (convertRank4NCHWToNHWCType ?ty)
       (getConv2DAttributes (int dh) (int dw) padding (int sh) (int sw)) = Inr v"
    using low' cd by (auto simp: dl ss ap ty split: if_splits)
  have xp: "wf_tensor ?X" "tshape ?X = [n, h, w, ci]" "eval sem env (adaptor 0 (cv_x op)) = ?X" "vtype (adaptor 0 (cv_x op)) = RankedTensor (map int (tshape ?X)) F32"
    using p4 c x(2) by (simp_all add: xs permute_def to_nhwc_def phys_def xt convert_physical4 isF32_def)
  have fp: "wf_tensor ?F" "tshape ?F = [m, kh, kw, cg]" "eval sem env (adaptor 1 (cv_w op)) = ?F" "vtype (adaptor 1 (cv_w op)) = RankedTensor (map int (tshape ?F)) F32"
    using p4 c f(2) by (simp_all add: fs permute_def to_nhwc_def phys_def ft convert_physical4 isF32_def)
  have sml: "i32_dims [n, h, w, ci]" "ci < 2 ^ 31" "m < 2 ^ 31" "0 < kh" "0 < kw" "0 < cg" "0 < m"
    using x(3) f(3,4) by (simp_all add: i32_dims_def xs fs)
  have b': "conv_bias f0 (cv_b op) env m b" using b by (simp add: fs)
  note bs = getOrCreateConvBias_represents [OF steps(2) b']
  let ?eks = "[eff_kernel kh dh, eff_kernel kw dw]"
  have pf: "is_perm to_nhwc (trank f)" using c(2) by (simp add: is_perm_def to_nhwc_def)
  have num': "(\<exists>p\<in>set pads. p \<noteq> 0) \<longrightarrow> ignores acc zero num \<and> (\<forall>w\<in>set (tdata ?F). num w)"
    using num ttranspose_elements [OF _ wf pf] by blast
  have fit': "ap = ''VALID'' \<longrightarrow> list_all2 (\<le>) ?eks [h, w]"
      "ap = ''NOTSET'' \<longrightarrow> list_all2 (\<le>) ?eks [h + pads ! 0 + pads ! 2, w + pads ! 1 + pads ! 3]"
    using fit by (simp_all add: conv_fits_def xs fs dl numeral_2_eq_2 numeral_3_eq_3 Let_def)
  obtain h' w' X where X: "wf_tensor X" "tshape X = [n, h', w', ci]" "eval sem env input = X" "vtype input = RankedTensor (map int (tshape X)) F32"
    and ok: "kernel_ok padding [h', w'] ?eks [sh, sw]"
    and eq: "last_conv acc g ss dl (kernel_pads padding [h', w'] ?eks ss) (kernel_outs padding [h', w'] ?eks ss) X ?F b =
      last_conv acc g ss dl (conv_before ap pads [h, w] ?eks ss) (conv_outs ap pads [h, w] ?eks ss) ?X ?F b"
    unfolding dl ss by (rule tfl_conv.eval_conv_padding [OF sem steps(1) xp sml(1) par'(7) fp(1,2) num' ch pos(3,4) refl fit'])
  let ?r = "last_conv acc g ss dl (kernel_pads padding [h', w'] ?eks ss) (kernel_outs padding [h', w'] ?eks ss) X ?F b"
  have spec: "phys ?ty (conv_spec acc ap g pads dl ss x f b) = ?r"
    using ttranspose_onnx_conv [of x n ci "[h, w]" f m cg "[kh, kw]" "conv_outs ap pads [h, w] ?eks ss" g acc ss dl "conv_before ap pads [h, w] ?eks ss" b] xs fs ch p4
    unfolding eq by (simp add: conv_spec_def phys_def to_nhwc_last dl eval_nat_numeral Let_def)
  have cty: "convertRank4NCHWToNHWCType ?ty = RankedTensor (map int (tshape ?r)) F32"
    using convert_conforms [OF res] p4(3) c(6) unfolding spec by (auto simp: ty convert_physical4 conforms_def isF32_def)
  have plain: "wf_tensor ?F \<and> eval sem env filt = ?F \<and> vtype filt = RankedTensor (map int (tshape ?F)) F32" if "\<not> ?dw"
  proof -
    have "filt = adaptor 1 (cv_w op)" using steps(3) that by (simp split: if_splits)
    then show ?thesis using fp by simp
  qed
  have depth: "wf_tensor (ttranspose [3, 1, 2, 0] ?F) \<and> eval sem env filt = (ttranspose [3, 1, 2, 0] ?F) \<and> tshape (ttranspose [3, 1, 2, 0] ?F) = [1, kh, kw, m] \<and> (\<forall>a<kh. \<forall>b<kw. \<forall>j<m. tnth (ttranspose [3, 1, 2, 0] ?F) [0, a, b, j] = tnth ?F [j, a, b, 0])"
    if ?dw
    using steps(3) that tfl_conv.eval_depthwise_filter [OF sem _ fp(1) _ fp(3,4), where m = m and kh = kh and kw = kw] fp(2) by simp
  have sms: "dh < 2 ^ 31" "dw < 2 ^ 31" "sh < 2 ^ 31" "sw < 2 ^ 31" using par'(5,6) by (simp_all add: dl ss i32_dims_def)
  have r: "?r = last_conv acc g [sh, sw] [dh, dw] (kernel_pads padding [h', w'] ?eks [sh, sw]) (kernel_outs padding [h', w'] ?eks [sh, sw]) X ?F b"
    by (simp only: dl ss)
  have "eval sem env v = ?r"
    by (rule tfl_conv.eval_emit_conv2d [OF sem steps(4) [unfolded cty] refl refl refl X sml(2) fp(2) sml(3) plain depth bs
          sml(4,5) pos(1,2) sml(6,7) ch(3,1,2) sms refl ok r])
  then show ?thesis
    using res vtype_emit_conv2d [OF steps(4)] unfolding represents_def spec by simp
qed

lemma replicate_2: "replicate 2 a = [a, a]"
  by (simp add: numeral_2_eq_2)

text \<open>A depthwise convolution with explicit pads and without a bias.\<close>

definition conv_filter_example :: "int scalar tensor" where
  "conv_filter_example = Tensor [2, 1, 2, 2] (map FV [1..8])"

definition conv2d_example :: "int conv_op" where
  "conv2d_example = \<lparr>cv_x = f32_operand [1, 2, 2, 3], cv_w = f32_operand [2, 1, 2, 2], cv_b = \<lparr>oty = NoneT, oattr = None\<rparr>, cv_group = Some 2,
     cv_kernel_shape = Some [2, 2], cv_dilations = None, cv_strides = None, cv_pads = Some [1, 0, 0, 1], cv_auto_pad = None,
     cv_result = RankedTensor [1, 2, 2, 3] F32\<rparr>"

theorem lower_conv2d_correct_witness:
  "\<exists>v. lower_conv2d 0 conv2d_example = Inr v \<and>
     represents reference_sem (\<lambda>i. ttranspose to_nhwc (if i = 0 then nchw_example else conv_filter_example)) v (cv_result conv2d_example)
       (conv_spec ref_acc ''NOTSET'' 2 [1, 0, 0, 1] [1, 1] [1, 1] nchw_example conv_filter_example (Tensor [2] (replicate 2 (FV 0))))"
proof -
  have "\<not> failed (lower_conv2d 0 conv2d_example)" by code_simp
  then obtain v where low: "lower_conv2d 0 conv2d_example = Inr v" by (rule not_failedE)
  have fs: "tshape conv_filter_example = [2, 1, 2, 2]" "wf_tensor conv_filter_example" by (simp_all add: conv_filter_example_def wf_tensor_def)
  have "represents reference_sem (\<lambda>i. ttranspose to_nhwc (if i = 0 then nchw_example else conv_filter_example)) v (cv_result conv2d_example)
       (conv_spec ref_acc ''NOTSET'' 2 [1, 0, 0, 1] [1, 1] [1, 1] nchw_example conv_filter_example (Tensor [2] (replicate 2 (FV 0))))"
  proof (rule lower_conv2d_correct [OF reference_conv.tfl_conv_axioms low])
    show "conforms (oty (cv_x conv2d_example)) nchw_example" "i32_dims (tshape nchw_example)"
      "conforms (oty (cv_w conv2d_example)) conv_filter_example" "i32_dims (tshape conv_filter_example)" "\<forall>d\<in>set (tshape conv_filter_example). 0 < d"
      by (simp_all add: conv2d_example_def example_simps fs)
    show "ttranspose to_nhwc (if 0 = (0 :: nat) then nchw_example else conv_filter_example) = phys (oty (cv_x conv2d_example)) nchw_example"
      by (simp add: conv2d_example_def example_simps)
    show "ttranspose to_nhwc (if 1 = (0 :: nat) then nchw_example else conv_filter_example) = phys (oty (cv_w conv2d_example)) conv_filter_example"
      by (simp add: conv2d_example_def example_simps)
    show "conv_bias 0 (cv_b conv2d_example) (\<lambda>i. ttranspose to_nhwc (if i = 0 then nchw_example else conv_filter_example))
        (tshape conv_filter_example ! 0) (Tensor [2] (replicate 2 (FV 0)))"
      by (simp add: conv_bias_def conv2d_example_def fs)
    show "conv_params conv2d_example 2 [1, 0, 0, 1] [1, 1] [1, 1] 2"
      by (simp add: conv_params_def conv2d_example_def getI64ArrayOr_def getInteger_def i32_dims_def replicate_2)
    show "''NOTSET'' = (case cv_auto_pad conv2d_example of None \<Rightarrow> ''NOTSET'' | Some a \<Rightarrow> a)" by (simp add: conv2d_example_def)
    show "conv_fits ''NOTSET'' [1, 0, 0, 1] [1, 1] (tshape nchw_example) (tshape conv_filter_example)"
      by (simp add: conv_fits_def Let_def fs eff_kernel_def numeral_2_eq_2 numeral_3_eq_3)
    show "(\<exists>p\<in>set [1, 0, 0, 1 :: nat]. p \<noteq> 0) \<longrightarrow> ignores ref_acc (FV 0) (\<lambda>_. True) \<and> (\<forall>w\<in>set (tdata conv_filter_example). True)"
      by (simp add: ref_acc_ignores)
    show "conforms (cv_result conv2d_example)
        (conv_spec ref_acc ''NOTSET'' 2 [1, 0, 0, 1] [1, 1] [1, 1] nchw_example conv_filter_example (Tensor [2] (replicate 2 (FV 0))))"
      by (simp add: conv_spec_def onnx_conv_def conv_outs_def Let_def fs conforms_Ranked conv2d_example_def eff_kernel_def numeral_2_eq_2 numeral_3_eq_3)
  qed
  with low show ?thesis by blast
qed

section \<open>One spatial axis\<close>

text \<open>An axis of extent one after a single spatial axis changes neither its padding nor its extent.\<close>

lemma conv_before_1d:
  "conv_before ap [pb, 0, pa, 0] [l, 1] [ek, 1] [s, 1] = conv_before ap [pb, pa] [l] [ek] [s] @ [0]"
  and conv_outs_1d:
  "conv_outs ap [pb, 0, pa, 0] [l, 1] [ek, 1] [s, 1] = conv_outs ap [pb, pa] [l] [ek] [s] @ [1]"
  by (simp_all add: conv_before_def conv_outs_def numeral_2_eq_2 numeral_3_eq_3)

lemma conv_padding_1d:
  assumes "ap = ''NOTSET'' \<or> ap = ''SAME_UPPER'' \<or> ap = ''VALID''"
    and "padding = (if ap = ''SAME_UPPER'' then ''SAME'' else ''VALID'')"
    and "(if padding = ''VALID'' then padConv2DInput input (if ap = ''NOTSET'' then pads else [0, 0, 0, 0]) else Inr input) = Inr v"
  shows "conv_padding ap pads input = Inr (padding, v)"
  using assms by (auto simp: conv_padding_def padConv2DInput_def split: if_splits)

lemma is_perm_021: "trank t = 3 \<Longrightarrow> is_perm [0, 2, 1] (trank t)"
  and is_perm_120: "trank t = 3 \<Longrightarrow> is_perm [1, 2, 0] (trank t)"
  by (auto simp: is_perm_def)

lemma channel_perm_3: "channel_perm 3 = [0, 2, 1]"
  by (simp add: channel_perm_def upt_conv_Cons)

context tfl_conv
begin

text \<open>The filter of a convolution with one spatial axis: transposed and with one more axis, for the two kinds of kernel.\<close>

lemma eval_filter_1d:
  assumes f: "wf_tensor f" "tshape f = [m, cg, k]" "i32_dims (tshape f)" "eval sem env filt = f"
  defines "F \<equiv> treshape [m, k, 1, cg] (ttranspose [0, 2, 1] f)" and "D \<equiv> treshape [1, k, 1, m] (ttranspose [1, 2, 0] f)"
  shows "wf_tensor F" and "eval sem env (emitReshape (RankedTensor [int m, int k, 1, int cg] F32) [int m, int k, 1, int cg]
        (createTFLOperation ''tfl.transpose'' [RankedTensor [int m, int k, int cg] F32] [filt, createI32ShapeConstant [0, 2, 1]] [] 0)) = F"
    and "cg = 1 \<Longrightarrow> wf_tensor D \<and> eval sem env (emitReshape (RankedTensor [1, int k, 1, int m] F32) [1, int k, 1, int m]
        (createTFLOperation ''tfl.transpose'' [RankedTensor [1, int k, int m] F32] [filt, createI32ShapeConstant [1, 2, 0]] [] 0)) = D \<and>
      (\<forall>a<k. \<forall>b<1. \<forall>j<m. tnth D [0, a, b, j] = tnth F [j, a, b, 0])"
proof -
  have p: "is_perm [0, 2, 1] (trank f)" "is_perm [1, 2, 0] (trank f)" by (simp_all add: f is_perm_def)
  have sh: "tshape (ttranspose [0, 2, 1] f) = [m, k, cg]" "tshape (ttranspose [1, 2, 0] f) = [cg, k, m]" by (simp_all add: f permute_def)
  show "wf_tensor F" unfolding F_def using sh by (intro wf_treshape) simp_all
  have t: "eval sem env (createTFLOperation ''tfl.transpose'' [RankedTensor (map int [m, k, cg]) F32] [filt, createI32ShapeConstant (map int [0, 2, 1])] [] 0) = ttranspose [0, 2, 1] f"
    using f(1,4) p sh by (intro eval_transpose) (simp_all add: f(2) conforms_Ranked)
  show "eval sem env (emitReshape (RankedTensor [int m, int k, 1, int cg] F32) [int m, int k, 1, int cg]
        (createTFLOperation ''tfl.transpose'' [RankedTensor [int m, int k, int cg] F32] [filt, createI32ShapeConstant [0, 2, 1]] [] 0)) = F"
    using eval_emitReshape [OF _ t, of "[m, k, 1, cg]" _ F32] sh f(2,3) by (simp add: F_def i32_dims_def)
  assume c: "cg = 1"
  have t': "eval sem env (createTFLOperation ''tfl.transpose'' [RankedTensor (map int [1, k, m]) F32] [filt, createI32ShapeConstant (map int [1, 2, 0])] [] 0) = ttranspose [1, 2, 0] f"
    using f(1,4) p sh by (intro eval_transpose) (simp_all add: f(2) c conforms_Ranked)
  have "wf_tensor D" unfolding D_def using sh c by (intro wf_treshape) simp_all
  moreover have "eval sem env (emitReshape (RankedTensor [1, int k, 1, int m] F32) [1, int k, 1, int m]
        (createTFLOperation ''tfl.transpose'' [RankedTensor [1, int k, int m] F32] [filt, createI32ShapeConstant [1, 2, 0]] [] 0)) = D"
    using eval_emitReshape [OF _ t', of "[1, k, 1, m]" _ F32] sh f(2,3) c by (simp add: D_def i32_dims_def)
  moreover have "tnth D [0, a, 0, j] = tnth F [j, a, 0, 0]" if "a < k" "j < m" for a j
  proof -
    have v: "valid_ix (tshape f) [j, 0, a]" using that by (simp add: f c)
    have "tnth D [0, a, 0, j] = tnth (ttranspose [1, 2, 0] f) [0, a, j]" using sh by (simp add: D_def tnth_def treshape_def c)
    also have "\<dots> = tnth (ttranspose [0, 2, 1] f) [j, a, 0]"
      using tnth_ttranspose_permute [OF p(1) v] tnth_ttranspose_permute [OF p(2) v] by (simp add: permute_def)
    also have "\<dots> = tnth F [j, a, 0, 0]" using sh by (simp add: F_def tnth_def treshape_def c)
    finally show ?thesis .
  qed
  ultimately show "wf_tensor D \<and> eval sem env (emitReshape (RankedTensor [1, int k, 1, int m] F32) [1, int k, 1, int m]
        (createTFLOperation ''tfl.transpose'' [RankedTensor [1, int k, int m] F32] [filt, createI32ShapeConstant [1, 2, 0]] [] 0)) = D \<and>
      (\<forall>a<k. \<forall>b<1. \<forall>j<m. tnth D [0, a, b, j] = tnth F [j, a, b, 0])" by simp
qed

end

lemma tfl_conv_layout: "tfl_conv sem zero acc \<Longrightarrow> tfl_layout sem"
  unfolding tfl_conv_def tfl_assembly_def tfl_slicing_def by blast

text \<open>
  C21: when the pattern of a convolution with one spatial axis succeeds, the created value represents the ONNX
  operator: the detour over a second axis of extent one, explicit pads included, changes nothing.
\<close>

theorem lowerConv1D_correct:
  assumes sem: "tfl_conv sem zero acc" and low: "lowerConv1D f0 op = Inr v"
    and x: "conforms (oty (cv_x op)) x" "env 0 = phys (oty (cv_x op)) x" "i32_dims (tshape x)"
    and f: "conforms (oty (cv_w op)) f" "env 1 = phys (oty (cv_w op)) f" "i32_dims (tshape f)" "\<forall>d\<in>set (tshape f). 0 < d"
    and b: "conv_bias f0 (cv_b op) env (tshape f ! 0) b"
    and par: "conv_params op g pads dl ss 1" and ap: "ap = (case cv_auto_pad op of None \<Rightarrow> ''NOTSET'' | Some a \<Rightarrow> a)"
    and fit: "conv_fits ap pads dl (tshape x) (tshape f)"
    and num: "(\<exists>p\<in>set pads. p \<noteq> 0) \<longrightarrow> ignores acc zero num \<and> (\<forall>w\<in>set (tdata f). num w)"
    and res: "conforms (cv_result op) (conv_spec acc ap g pads dl ss x f b)" "i32_dims (tshape (conv_spec acc ap g pads dl ss x f b))"
  shows "represents sem env v (cv_result op) (conv_spec acc ap g pads dl ss x f b)"
proof -
  let ?ty = "cv_result op" and ?X = "ttranspose [0, 2, 1] x" and ?F = "ttranspose [0, 2, 1] f"
  obtain ie where xt: "oty (cv_x op) = RankedTensor (map int (tshape x)) ie" and wx: "wf_tensor x" using x(1) by (auto simp: conforms_def)
  obtain fe where ft: "oty (cv_w op) = RankedTensor (map int (tshape f)) fe" and wf: "wf_tensor f" using f(1) by (auto simp: conforms_def)
  obtain os oe where ty: "?ty = RankedTensor os oe" using low by (auto simp: lowerConv1D_def xt ft split: mtype.splits)
  have c: "trank x = 3" "trank f = 3" "length os = 3" "isF32 ie" "isF32 fe" "isF32 oe"
    using low by (auto simp: lowerConv1D_def xt ft ty getRank_def isF32_def split: if_splits elim!: not_failedE)
  obtain n ci l where xs: "tshape x = [n, ci, l]" using list3 [OF c(1)] by blast
  obtain m cg k where fs: "tshape f = [m, cg, k]" using list3 [OF c(2)] by blast
  have par': "int g = getInteger (cv_group op) 1" "getI64ArrayOr (cv_dilations op) [1] = map int dl" "getI64ArrayOr (cv_strides op) [1] = map int ss"
    "getI64ArrayOr (cv_pads op) [0, 0] = map int pads" "i32_dims dl" "i32_dims ss" "i32_dims pads"
    using par by (simp_all add: conv_params_def numeral_2_eq_2)
  note low' = low [unfolded lowerConv1D_def, simplified xt ft ty par'(1) [symmetric] par'(2-4) xs fs Let_def prod.case mtype.case ap [symmetric]]
  have ln: "length ss = 1" "length dl = 1" "getI64ArrayOr (cv_kernel_shape op) (drop 2 [int m, int cg, int k]) ! 0 = int k" using low' by (auto split: if_splits)
  obtain d where dl: "dl = [d]" using ln(2) by (auto simp: length_Suc_conv)
  obtain s where ss: "ss = [s]" using ln(1) by (auto simp: length_Suc_conv)
  have pos: "0 < d" "0 < s" using low' by (auto simp: dl ss split: if_splits)
  have ch: "ci = g * cg" "g dvd m" "0 < g" using low' by (intro conv_channels; auto split: if_splits)+
  let ?ds = "[l]" and ?eks = "[eff_kernel k d]" and ?S = "conv_spec acc ap g pads dl ss x f b"
  let ?bf = "conv_before ap pads ?ds ?eks ss" and ?ou = "conv_outs ap pads ?ds ?eks ss"
  obtain ol where ou: "?ou = [ol]" by (simp add: conv_outs_def)
  have S: "?S = onnx_conv acc g ss dl ?bf ?ou x f b" by (simp add: conv_spec_def xs fs dl Let_def)
  then have sS: "tshape ?S = [n, m, ol]" "wf_tensor ?S" by (simp_all add: onnx_conv_def xs fs ou Let_def)
  then have os: "os = [int n, int m, int ol]" using res(1) by (simp add: ty conforms_Ranked)
  let ?dw = "g = ci \<and> cg = 1"
  let ?dm = "if ?dw then cdiv (int m) (int ci) else 1"
  let ?P = "if ap = ''NOTSET'' then [pads ! 0, 0, pads ! 1, 0] else [0, 0, 0, 0]"
  let ?nlc = "createTFLOperation ''tfl.transpose'' [RankedTensor [int n, int l, int ci] F32] [adaptor 0 (cv_x op), createI32ShapeConstant [0, 2, 1]] [] 0"
  let ?in4 = "emitReshape (RankedTensor [int n, int l, 1, int ci] F32) [int n, int l, 1, int ci] ?nlc"
  let ?f4 = "emitReshape (RankedTensor (if ?dw then [1, int k, 1, int m] else [int m, int k, 1, int cg]) F32) (if ?dw then [1, int k, 1, int m] else [int m, int k, 1, int cg])
    (createTFLOperation ''tfl.transpose'' [RankedTensor (if ?dw then [1, int k, int m] else [int m, int k, int cg]) F32]
      [adaptor 1 (cv_w op), createI32ShapeConstant (if ?dw then [1, 2, 0] else [0, 2, 1])] [] 0)"
  have cd: "cdiv (int ci) (int g) = int cg" using ch by (simp add: cdiv_nonneg)
  obtain padding input bias conv where steps: "ap = ''NOTSET'' \<or> ap = ''SAME_UPPER'' \<or> ap = ''VALID''" "padding = (if ap = ''SAME_UPPER'' then ''SAME'' else ''VALID'')"
    "(if padding = ''VALID'' then padConv2DInput ?in4 (map int ?P) else Inr ?in4) = Inr input"
    "getOrCreateConvBias f0 (cv_b op) (int m) = Inr bias"
    "emit_conv2d ?dw (g \<noteq> 1 \<and> \<not> ?dw) (int g) ?dm input ?f4 bias (RankedTensor [int n, int ol, 1, int m] F32)
       (getConv2DAttributes (int d) 1 padding (int s) 1) = Inr conv"
    "v = createTFLOperation ''tfl.transpose'' [?ty] [emitReshape (RankedTensor [int n, int ol, int m] F32) [int n, int ol, int m] conv, createI32ShapeConstant [0, 2, 1]] [] 0"
  proof -
    have pl: "ap = ''NOTSET'' \<longrightarrow> length pads = 2" using low' by (auto split: if_splits)
    show thesis
      using that low' pl cd by (auto simp: dl ss ty os split: if_splits)
  qed
  have n4: "\<not> physical4 (oty (cv_x op))" "\<not> physical4 (oty (cv_w op))" "\<not> physical4 ?ty" using c by (simp_all add: xt ft ty physical4_def)
  have sml: "ci < 2 ^ 31" "m < 2 ^ 31" "0 < k" "0 < cg" "0 < m" "i32_dims [n, l, 1, ci]" "i32_dims [n, ol, m]" "d < 2 ^ 31" "s < 2 ^ 31" "(1 :: nat) < 2 ^ 31"
    using x(3) f(3,4) res(2) [unfolded sS(1)] par'(5,6) by (simp_all add: i32_dims_def xs fs dl ss)
  have xp: "tshape ?X = [n, l, ci]" "wf_tensor ?X" "is_perm [0, 2, 1] (trank x)" by (simp_all add: xs permute_def is_perm_def)
  let ?X4 = "treshape [n, l, 1, ci] ?X"
  have X4: "wf_tensor ?X4" "tshape ?X4 = [n, l, 1, ci]" using xp by (auto intro: wf_treshape)
  have ex: "eval sem env ?in4 = ?X4"
  proof -
    have "eval sem env (createTFLOperation ''tfl.transpose'' [RankedTensor (map int [n, l, ci]) F32] [adaptor 0 (cv_x op), createI32ShapeConstant (map int [0, 2, 1])] [] 0) = ?X"
      using x(2) n4 wx xp by (intro tfl_layout.eval_transpose [OF tfl_conv_layout [OF sem]]) (simp_all add: conforms_Ranked phys_def c)
    from tfl_layout.eval_emitReshape [OF tfl_conv_layout [OF sem] _ this sml(6), of _ F32] show ?thesis using xp by simp
  qed
  have pl: "ap = ''NOTSET'' \<longrightarrow> pads ! 0 \<in> set pads \<and> pads ! 1 \<in> set pads" using low' by (auto split: if_splits)
  then have i32P: "i32_dims ?P" using par'(7) by (auto simp: i32_dims_def)
  define F where "F = treshape [m, k, 1, cg] (ttranspose [0, 2, 1] f)"
  have ef: "eval sem env (adaptor 1 (cv_w op)) = f" using f(2) n4 by (simp add: phys_def)
  note fp = tfl_conv.eval_filter_1d [OF sem wf fs f(3) ef, folded F_def]
  have numP: "(\<exists>p\<in>set ?P. p \<noteq> 0) \<longrightarrow> ignores acc zero num \<and> (\<forall>w\<in>set (tdata F). num w)"
  proof (intro impI)
    assume "\<exists>p\<in>set ?P. p \<noteq> 0"
    then have "\<exists>p\<in>set pads. p \<noteq> 0" using pl by (auto split: if_splits)
    then have "ignores acc zero num" "\<forall>w\<in>set (tdata f). num w" using num by blast+
    then show "ignores acc zero num \<and> (\<forall>w\<in>set (tdata F). num w)"
      using ttranspose_elements [OF _ wf is_perm_021 [OF c(2)]] by (simp add: F_def treshape_def)
  qed
  have fitP: "ap = ''VALID'' \<longrightarrow> list_all2 (\<le>) [eff_kernel k d, eff_kernel 1 1] [l, 1]"
      "ap = ''NOTSET'' \<longrightarrow> list_all2 (\<le>) [eff_kernel k d, eff_kernel 1 1] [l + ?P ! 0 + ?P ! 2, 1 + ?P ! 1 + ?P ! 3]"
    using fit by (simp_all add: conv_fits_def xs fs dl Let_def eff_kernel_def)
  let ?e4 = "[eff_kernel k d, eff_kernel 1 1]"
  have Fs: "tshape F = [m, k, 1, cg]" by (simp add: F_def)
  have c1: "0 < (1 :: nat)" by simp
  obtain h' w' X where X: "wf_tensor X" "tshape X = [n, h', w', ci]" "eval sem env input = X" "vtype input = RankedTensor (map int (tshape X)) F32"
    and ok: "kernel_ok padding [h', w'] ?e4 [s, 1]"
    and eq: "last_conv acc g [s, 1] [d, 1] (kernel_pads padding [h', w'] ?e4 [s, 1]) (kernel_outs padding [h', w'] ?e4 [s, 1]) X F b =
      last_conv acc g [s, 1] [d, 1] (conv_before ap ?P [l, 1] ?e4 [s, 1]) (conv_outs ap ?P [l, 1] ?e4 [s, 1]) ?X4 F b"
  proof (rule tfl_conv.eval_conv_padding [OF sem conv_padding_1d [OF steps(1-2) _] X4 ex _ sml(6) i32P fp(1) Fs numP ch pos(2) c1 refl fitP, where b = b])
    show "(if padding = ''VALID'' then padConv2DInput ?in4 (if ap = ''NOTSET'' then map int ?P else [0, 0, 0, 0]) else Inr ?in4) = Inr input"
      using steps(3) by (simp split: if_splits)
  qed (use X4 in simp_all)
  let ?r = "last_conv acc g [s, 1] [d, 1] (kernel_pads padding [h', w'] ?e4 [s, 1]) (kernel_outs padding [h', w'] ?e4 [s, 1]) X F b"
  have wins: "conv_before ap ?P [l, 1] ?e4 [s, 1] = ?bf @ [0]" "conv_outs ap ?P [l, 1] ?e4 [s, 1] = ?ou @ [1]"
    using steps(1) by (auto simp: conv_before_def conv_outs_def eff_kernel_def ss numeral_2_eq_2 numeral_3_eq_3)
  have cp: "channel_perm (length ?ds + 2) = [0, 2, 1]" using channel_perm_3 by (simp add: numeral_3_eq_3)
  have r: "?r = treshape [n, ol, 1, m] (ttranspose [0, 2, 1] ?S)"
  proof -
    have "?r = last_conv acc g ([s] @ [1]) ([d] @ [1]) (?bf @ [0]) (?ou @ [1]) (treshape (n # [l] @ [1, ci]) ?X) (treshape (m # [k] @ [1, cg]) ?F) b"
      unfolding eq wins by (simp add: F_def)
    also have "\<dots> = treshape (n # ?ou @ [1, m]) (last_conv acc g [s] [d] ?bf ?ou ?X ?F b)"
      using xp ch by (intro last_conv_one) (simp_all add: fs permute_def)
    also have "last_conv acc g [s] [d] ?bf ?ou ?X ?F b = ttranspose [0, 2, 1] ?S"
      using ttranspose_onnx_conv [of x n ci ?ds f m cg "[k]" ?ou g acc ss dl ?bf b] xs fs ch unfolding S cp by (simp add: dl ss)
    finally show ?thesis by (simp add: ou)
  qed
  then have rs: "tshape ?r = [n, ol, 1, m]" by simp
  let ?D = "treshape [1, k, 1, m] (ttranspose [1, 2, 0] f)"
  have plain: "wf_tensor F \<and> eval sem env ?f4 = F \<and> vtype ?f4 = RankedTensor (map int (tshape F)) F32" if "\<not> ?dw"
    using fp(1,2) unfolding if_not_P [OF that] by (simp add: Fs)
  have depth: "wf_tensor ?D \<and> eval sem env ?f4 = ?D \<and> tshape ?D = [1, k, 1, m] \<and> (\<forall>a<k. \<forall>b<1. \<forall>j<m. tnth ?D [0, a, b, j] = tnth F [j, a, b, 0])" if ?dw
    using fp(3) that unfolding if_P [OF that] by simp
  have b': "conv_bias f0 (cv_b op) env m b" using b by (simp add: fs)
  have emit: "emit_conv2d ?dw (g \<noteq> 1 \<and> \<not> ?dw) (int g) ?dm input ?f4 bias (RankedTensor (map int (tshape ?r)) F32)
       (getConv2DAttributes (int d) (int 1) padding (int s) (int 1)) = Inr conv" using steps(5) unfolding rs by simp
  have "eval sem env conv = ?r"
    by (rule tfl_conv.eval_emit_conv2d [OF sem emit refl refl refl X sml(1) Fs sml(2) plain depth getOrCreateConvBias_represents [OF steps(4) b']
        sml(3) c1 pos(1) c1 sml(4,5) ch(3,1,2) sml(8,10,9,10) refl ok refl])
  then have "eval sem env (emitReshape (RankedTensor [int n, int ol, int m] F32) [int n, int ol, int m] conv) = treshape [n, ol, m] ?r"
    using tfl_layout.eval_emitReshape [OF tfl_conv_layout [OF sem] wf_last_conv, where ds = "[n, ol, m]" and e = F32] sml(7) rs by simp
  moreover have "treshape [n, ol, m] ?r = ttranspose [0, 2, 1] ?S"
    unfolding r treshape_treshape using treshape_id [of "ttranspose [0, 2, 1] ?S"] sS by (simp add: permute_def)
  ultimately have "eval sem env (emitReshape (RankedTensor [int n, int ol, int m] F32) [int n, int ol, int m] conv) = ttranspose [0, 2, 1] ?S" by simp
  moreover have inv: "ttranspose [0, 2, 1] (ttranspose [0, 2, 1] ?S) = ?S" using sS by (intro ttranspose_inverse) (auto simp: permute_def is_perm_def upt_conv_Cons)
  ultimately have "eval sem env v = ?S"
    using tfl_layout.eval_transpose [OF tfl_conv_layout [OF sem], of "ttranspose [0, 2, 1] ?S" env _ "[0, 2, 1]" ?ty] sS res(1)
    by (simp add: steps(6) permute_def is_perm_def)
  then show ?thesis using res(1) n4(3) by (intro represents_logical) (simp_all add: steps(6))
qed

text \<open>A strided convolution with one spatial axis, a bias and the padding \<^verbatim>\<open>SAME_UPPER\<close>.\<close>

definition row_example :: "int scalar tensor" where
  "row_example = Tensor [1, 2, 5] (map FV [1..10])"

definition conv1d_filter_example :: "int scalar tensor" where
  "conv1d_filter_example = Tensor [1, 2, 3] (map FV [1..6])"

definition conv1d_example :: "int conv_op" where
  "conv1d_example = \<lparr>cv_x = f32_operand [1, 2, 5], cv_w = f32_operand [1, 2, 3], cv_b = f32_operand [1], cv_group = None,
     cv_kernel_shape = Some [3], cv_dilations = None, cv_strides = Some [2], cv_pads = None, cv_auto_pad = Some ''SAME_UPPER'',
     cv_result = RankedTensor [1, 1, 3] F32\<rparr>"

theorem lowerConv1D_correct_witness:
  "\<exists>v. lowerConv1D 0 conv1d_example = Inr v \<and>
     represents reference_sem (\<lambda>i. if i = 0 then row_example else if i = 1 then conv1d_filter_example else Tensor [1] [FV 7]) v
       (cv_result conv1d_example) (conv_spec ref_acc ''SAME_UPPER'' 1 [0, 0] [1] [2] row_example conv1d_filter_example (Tensor [1] [FV 7]))"
proof -
  have "\<not> failed (lowerConv1D 0 conv1d_example)" by code_simp
  then obtain v where low: "lowerConv1D 0 conv1d_example = Inr v" by (rule not_failedE)
  let ?env = "\<lambda>i. if i = (0 :: nat) then row_example else if i = 1 then conv1d_filter_example else Tensor [1] [FV 7]"
  let ?spec = "conv_spec ref_acc ''SAME_UPPER'' 1 [0, 0] [1] [2] row_example conv1d_filter_example (Tensor [1] [FV 7])"
  have fs: "tshape conv1d_filter_example = [1, 2, 3]" "wf_tensor conv1d_filter_example" "tshape row_example = [1, 2, 5]" "wf_tensor row_example"
    by (simp_all add: conv1d_filter_example_def row_example_def wf_tensor_def)
  have ss: "tshape ?spec = [1, 1, 3]" "wf_tensor ?spec"
    by (simp_all add: conv_spec_def onnx_conv_def conv_outs_def Let_def fs numeral_3_eq_3)
  have "represents reference_sem ?env v (cv_result conv1d_example) ?spec"
  proof (rule lowerConv1D_correct [OF reference_conv.tfl_conv_axioms low])
    show "conforms (oty (cv_x conv1d_example)) row_example" "i32_dims (tshape row_example)"
      "conforms (oty (cv_w conv1d_example)) conv1d_filter_example" "i32_dims (tshape conv1d_filter_example)" "\<forall>d\<in>set (tshape conv1d_filter_example). 0 < d"
      "?env 0 = phys (oty (cv_x conv1d_example)) row_example" "?env 1 = phys (oty (cv_w conv1d_example)) conv1d_filter_example"
      by (simp_all add: conv1d_example_def example_simps fs physical4_def)
    show "conv_bias 0 (cv_b conv1d_example) ?env (tshape conv1d_filter_example ! 0) (Tensor [1] [FV 7])"
      by (simp add: conv_bias_def conv1d_example_def fs conforms_Ranked wf_tensor_def phys_def physical4_def)
    show "conv_params conv1d_example 1 [0, 0] [1] [2] 1"
      by (simp add: conv_params_def conv1d_example_def getI64ArrayOr_def getInteger_def i32_dims_def replicate_2)
    show "''SAME_UPPER'' = (case cv_auto_pad conv1d_example of None \<Rightarrow> ''NOTSET'' | Some a \<Rightarrow> a)" by (simp add: conv1d_example_def)
    show "conv_fits ''SAME_UPPER'' [0, 0] [1] (tshape row_example) (tshape conv1d_filter_example)" by (simp add: conv_fits_def Let_def)
    show "(\<exists>p\<in>set [0, 0 :: nat]. p \<noteq> 0) \<longrightarrow> ignores ref_acc (FV 0) (\<lambda>_. True) \<and> (\<forall>w\<in>set (tdata conv1d_filter_example). True)" by simp
    show "conforms (cv_result conv1d_example) ?spec" "i32_dims (tshape ?spec)" using ss by (simp_all add: conforms_Ranked conv1d_example_def i32_dims_def)
  qed
  with low show ?thesis by blast
qed

end
