(* ===== verification/Lower_Composite.thy ===== *)
theory Lower_Composite
  imports Lower_Gather
begin

text \<open>
  \<^verbatim>\<open>Math/AdditionalElementwise.cpp\<close>: activations and trigonometric functions composed of kernels, PRelu, Mean and
  the logical operators. What a composition computes is stated for the arithmetic of the runtime, whatever it
  is, and on the real numbers compared with the function of ONNX.
\<close>

section \<open>Composite unary operators\<close>

text \<open>The operators with the attributes they read.\<close>

datatype 'f composite =
    Celu 'f
  | Selu 'f 'f
  | Softplus
  | Softsign
  | Shrink 'f 'f
  | ThresholdedRelu 'f
  | Asin
  | Acos
  | Atan
  | Atanh
  | Sinh
  | Cosh
  | Asinh
  | Acosh
  | Erf

definition unary :: "string \<Rightarrow> mtype \<Rightarrow> 'f val \<Rightarrow> 'f val" where
  "unary name ty input = createTFLOperation name [ty] [input] [] 0"

definition binary :: "string \<Rightarrow> mtype \<Rightarrow> 'f val \<Rightarrow> 'f val \<Rightarrow> bool \<Rightarrow> 'f val" where
  "binary name ty lhs rhs hasFusedActivation =
     createTFLOperation name [ty] [lhs, rhs] (if hasFusedActivation then [getFusedActivationNone] else []) 0"

definition comparisonConstant :: "mtype \<Rightarrow> 'f \<Rightarrow> 'f val" where
  "comparisonConstant resultType v =
     (let scalarValue = createF32ScalarTensorConstant v in
      case resultType of
        RankedTensor shape e \<Rightarrow>
          if getRank shape \<le> 4 then scalarValue
          else createTFLOperation ''tfl.fill'' [resultType] [createI32ShapeConstant shape, scalarValue] [] 0
      | _ \<Rightarrow> scalarValue)"

definition condition_type :: "mtype \<Rightarrow> mtype" where
  "condition_type ty = (case ty of RankedTensor shape e \<Rightarrow> RankedTensor shape I1 | _ \<Rightarrow> ty)"

definition erf_coefficients :: "rat list" where
  "erf_coefficients = map (\<lambda>n. of_int n / 100000000)
     [17087277, - 82215223, 148851587, - 113520398, 27886807, - 18628806, 9678418, 37409196, 100002368]"

text \<open>\<open>lit\<close> gives the float of a decimal literal, \<open>neg\<close> is the negation of a float.\<close>

definition lower_composite :: "(rat \<Rightarrow> 'f) \<Rightarrow> ('f \<Rightarrow> 'f) \<Rightarrow> 'f composite \<Rightarrow> 'f unary_op \<Rightarrow> 'f val result" where
  "lower_composite lit neg kind op =
     (let input = adaptor 0 (un_input op) in
      if failed (validateStaticF32TensorOrScalar (oty (un_input op))) \<or> failed (validateStaticF32TensorOrScalar (un_result op))
      then Inl BadTypes
      else
        let resultType = convertRank4NCHWToNHWCType (un_result op);
            scalar = createF32ScalarTensorConstant;
            un = (\<lambda>nm v. unary nm resultType v);
            add = (\<lambda>l r. binary ''tfl.add'' resultType l r True);
            sub = (\<lambda>l r. binary ''tfl.sub'' resultType l r True);
            mul = (\<lambda>l r. binary ''tfl.mul'' resultType l r True);
            div' = (\<lambda>l r. binary ''tfl.div'' resultType l r True);
            zero = scalar (lit 0); one = scalar (lit 1) in
        Inr (case kind of
          Celu alpha \<Rightarrow>
            let alphaValue = scalar alpha;
                positive = binary ''tfl.maximum'' resultType input zero False;
                normalized = div' input alphaValue;
                negative = mul alphaValue (sub (un ''tfl.exp'' normalized) one) in
            add positive (binary ''tfl.minimum'' resultType negative zero False)
        | Selu alpha gamma \<Rightarrow>
            let positive = binary ''tfl.maximum'' resultType input zero False;
                negative = mul (scalar alpha) (sub (un ''tfl.exp'' input) one) in
            mul (scalar gamma) (add positive (binary ''tfl.minimum'' resultType negative zero False))
        | Softplus \<Rightarrow>
            let positive = binary ''tfl.maximum'' resultType input zero False;
                negative = un ''tfl.neg'' (un ''tfl.abs'' input) in
            add positive (un ''tfl.log'' (add one (un ''tfl.exp'' negative)))
        | Softsign \<Rightarrow> div' input (add one (un ''tfl.abs'' input))
        | Shrink bias lambd \<Rightarrow>
            let conditionType = condition_type resultType;
                above = createTFLOperation ''tfl.greater'' [conditionType] [input, comparisonConstant resultType lambd] [] 0;
                below = createTFLOperation ''tfl.less'' [conditionType] [input, comparisonConstant resultType (neg lambd)] [] 0;
                lowerSelected = createTFLOperation ''tfl.select_v2'' [resultType] [below, add input (scalar bias), zero] [] 0 in
            createTFLOperation ''tfl.select_v2'' [resultType] [above, sub input (scalar bias), lowerSelected] [] 0
        | ThresholdedRelu alpha \<Rightarrow>
            let condition = createTFLOperation ''tfl.greater'' [condition_type resultType] [input, comparisonConstant resultType alpha] [] 0 in
            createTFLOperation ''tfl.select_v2'' [resultType] [condition, input, zero] [] 0
        | Atan \<Rightarrow> binary ''tfl.atan2'' resultType input (add (mul input zero) one) False
        | Asin \<Rightarrow>
            let radicand = binary ''tfl.maximum'' resultType (sub one (mul input input)) zero False in
            binary ''tfl.atan2'' resultType input (un ''tfl.sqrt'' radicand) False
        | Acos \<Rightarrow>
            let radicand = binary ''tfl.maximum'' resultType (sub one (mul input input)) zero False in
            binary ''tfl.atan2'' resultType (un ''tfl.sqrt'' radicand) input False
        | Atanh \<Rightarrow> mul (scalar (lit (1 / 2))) (un ''tfl.log'' (div' (add one input) (sub one input)))
        | Sinh \<Rightarrow> mul (scalar (lit (1 / 2))) (sub (un ''tfl.exp'' input) (un ''tfl.exp'' (un ''tfl.neg'' input)))
        | Cosh \<Rightarrow> mul (scalar (lit (1 / 2))) (add (un ''tfl.exp'' input) (un ''tfl.exp'' (un ''tfl.neg'' input)))
        | Asinh \<Rightarrow> un ''tfl.log'' (add input (un ''tfl.sqrt'' (add (mul input input) one)))
        | Acosh \<Rightarrow>
            let radicand = binary ''tfl.maximum'' resultType (sub (mul input input) one) zero False in
            un ''tfl.log'' (add input (un ''tfl.sqrt'' radicand))
        | Erf \<Rightarrow>
            let absolute = un ''tfl.abs'' input;
                t = div' one (add one (mul (scalar (lit (1 / 2))) absolute));
                polynomial = fold (\<lambda>c p. add (scalar (lit c)) (mul t p)) (tl erf_coefficients) (scalar (lit (hd erf_coefficients)));
                exponent = add (sub (un ''tfl.neg'' (mul absolute absolute)) (scalar (lit (126551223 / 100000000)))) (mul t polynomial);
                tau = mul t (un ''tfl.exp'' exponent) in
            mul (un ''tfl.sign'' input) (sub one tau)))"

section \<open>What the compositions compute\<close>

text \<open>The functions of the kernels on scalars.\<close>

record 'f arith =
  fadd :: "'f scalar \<Rightarrow> 'f scalar \<Rightarrow> 'f scalar"
  fsub :: "'f scalar \<Rightarrow> 'f scalar \<Rightarrow> 'f scalar"
  fmul :: "'f scalar \<Rightarrow> 'f scalar \<Rightarrow> 'f scalar"
  fdiv :: "'f scalar \<Rightarrow> 'f scalar \<Rightarrow> 'f scalar"
  fmax :: "'f scalar \<Rightarrow> 'f scalar \<Rightarrow> 'f scalar"
  fmin :: "'f scalar \<Rightarrow> 'f scalar \<Rightarrow> 'f scalar"
  fatan2 :: "'f scalar \<Rightarrow> 'f scalar \<Rightarrow> 'f scalar"
  fgt :: "'f scalar \<Rightarrow> 'f scalar \<Rightarrow> 'f scalar"
  flt :: "'f scalar \<Rightarrow> 'f scalar \<Rightarrow> 'f scalar"
  fexp :: "'f scalar \<Rightarrow> 'f scalar"
  flog :: "'f scalar \<Rightarrow> 'f scalar"
  fsqrt :: "'f scalar \<Rightarrow> 'f scalar"
  fabs :: "'f scalar \<Rightarrow> 'f scalar"
  fneg :: "'f scalar \<Rightarrow> 'f scalar"
  fsign :: "'f scalar \<Rightarrow> 'f scalar"

definition composite_scalar :: "'f arith \<Rightarrow> (rat \<Rightarrow> 'f) \<Rightarrow> ('f \<Rightarrow> 'f) \<Rightarrow> 'f composite \<Rightarrow> 'f scalar \<Rightarrow> 'f scalar" where
  "composite_scalar F lit neg kind x =
     (let zero = FV (lit 0); one = FV (lit 1); half = FV (lit (1 / 2)) in
      case kind of
        Celu a \<Rightarrow> fadd F (fmax F x zero) (fmin F (fmul F (FV a) (fsub F (fexp F (fdiv F x (FV a))) one)) zero)
      | Selu a g \<Rightarrow> fmul F (FV g) (fadd F (fmax F x zero) (fmin F (fmul F (FV a) (fsub F (fexp F x) one)) zero))
      | Softplus \<Rightarrow> fadd F (fmax F x zero) (flog F (fadd F one (fexp F (fneg F (fabs F x)))))
      | Softsign \<Rightarrow> fdiv F x (fadd F one (fabs F x))
      | Shrink b l \<Rightarrow> if is_true (fgt F x (FV l)) then fsub F x (FV b) else if is_true (flt F x (FV (neg l))) then fadd F x (FV b) else zero
      | ThresholdedRelu a \<Rightarrow> if is_true (fgt F x (FV a)) then x else zero
      | Atan \<Rightarrow> fatan2 F x (fadd F (fmul F x zero) one)
      | Asin \<Rightarrow> fatan2 F x (fsqrt F (fmax F (fsub F one (fmul F x x)) zero))
      | Acos \<Rightarrow> fatan2 F (fsqrt F (fmax F (fsub F one (fmul F x x)) zero)) x
      | Atanh \<Rightarrow> fmul F half (flog F (fdiv F (fadd F one x) (fsub F one x)))
      | Sinh \<Rightarrow> fmul F half (fsub F (fexp F x) (fexp F (fneg F x)))
      | Cosh \<Rightarrow> fmul F half (fadd F (fexp F x) (fexp F (fneg F x)))
      | Asinh \<Rightarrow> flog F (fadd F x (fsqrt F (fadd F (fmul F x x) one)))
      | Acosh \<Rightarrow> flog F (fadd F x (fsqrt F (fmax F (fsub F (fmul F x x) one) zero)))
      | Erf \<Rightarrow>
          let a = fabs F x; t = fdiv F one (fadd F one (fmul F half a));
              p = fold (\<lambda>c p. fadd F (FV (lit c)) (fmul F t p)) (tl erf_coefficients) (FV (lit (hd erf_coefficients))) in
          fmul F (fsign F x) (fsub F one (fmul F t (fexp F (fadd F (fsub F (fneg F (fmul F a a)) (FV (lit (126551223 / 100000000)))) (fmul F t p))))))"

text \<open>
  A comparison broadcasts up to rank 4 and takes equal shapes of any rank; arcus tangens takes equal shapes only.
\<close>

locale tfl_compare = tfl_binary sem nm "[]" f 4 for sem :: "'f sem" and nm and f +
  assumes same_shape:
    "wf_tensor x \<Longrightarrow> wf_tensor y \<Longrightarrow> tshape x = tshape y \<Longrightarrow> declares tys [tmap2 f x y] \<Longrightarrow> sem nm [] tys [x, y] = [tmap2 f x y]"

locale tfl_composite =
  tfl_arith sem "fadd F" "fsub F" "fmul F" "fdiv F" "fmax F" "fmin F" +
  expo: tfl_unary sem "''tfl.exp''" "[]" "fexp F" +
  logo: tfl_unary sem "''tfl.log''" "[]" "flog F" +
  root: tfl_unary sem "''tfl.sqrt''" "[]" "fsqrt F" +
  abso: tfl_unary sem "''tfl.abs''" "[]" "fabs F" +
  nego: tfl_unary sem "''tfl.neg''" "[]" "fneg F" +
  sign: tfl_unary sem "''tfl.sign''" "[]" "fsign F" +
  gt: tfl_compare sem "''tfl.greater''" "fgt F" +
  lt: tfl_compare sem "''tfl.less''" "flt F" +
  sel: tfl_select sem
  for sem :: "'f sem" and F :: "'f arith" +
  assumes atan2:
    "wf_tensor x \<Longrightarrow> wf_tensor y \<Longrightarrow> tshape x = tshape y \<Longrightarrow> declares tys [tmap2 (fatan2 F) x y] \<Longrightarrow>
     sem ''tfl.atan2'' [] tys [x, y] = [tmap2 (fatan2 F) x y]"
    and fill:
    "declares tys [tconst ds s] \<Longrightarrow> sem ''tfl.fill'' [] tys [i32_vec (map int ds), Tensor [] [s]] = [tconst ds s]"

section \<open>Evaluation\<close>

text \<open>A value that is a function of each element of \<open>x\<close>, or else a scalar constant.\<close>

definition is_scalar_const :: "'f val \<Rightarrow> bool" where
  "is_scalar_const v \<longleftrightarrow> (\<exists>c. v = createF32ScalarTensorConstant c)"

definition pointwise :: "'f sem \<Rightarrow> (nat \<Rightarrow> 'f scalar tensor) \<Rightarrow> 'f scalar tensor \<Rightarrow> 'f val \<Rightarrow> ('f scalar \<Rightarrow> 'f scalar) \<Rightarrow> bool" where
  "pointwise sem env x v g \<longleftrightarrow>
     (if is_scalar_const v then \<exists>s. eval sem env v = Tensor [] [s] \<and> g = (\<lambda>_. s) else eval sem env v = tmap g x)"

lemma is_scalar_const_simps [simp]:
  "is_scalar_const (createF32ScalarTensorConstant c)" "\<not> is_scalar_const (createTFLOperation nm tys vs attrs k)" "\<not> is_scalar_const (adaptor i op)"
  by (simp_all add: is_scalar_const_def createF32ScalarTensorConstant_def createTFLOperation_def adaptor_def)

lemma is_scalar_const_comparison [simp]: "is_scalar_const (comparisonConstant (RankedTensor sh e) c) \<longleftrightarrow> length sh \<le> 4"
  by (simp add: comparisonConstant_def getRank_def Let_def)

lemma pointwise_operand: "eval sem env (adaptor i op) = x \<Longrightarrow> pointwise sem env x (adaptor i op) (\<lambda>e. e)"
  by (simp add: pointwise_def tmap_def)

lemma pointwise_constant: "pointwise sem env x (createF32ScalarTensorConstant c) (\<lambda>_. FV c)"
  by (simp add: pointwise_def)

lemma wf_scalar_tensor [simp]: "wf_tensor (Tensor [] [s])"
  by (simp add: wf_tensor_def)

context tfl_unary
begin

lemma pointwise_unary:
  assumes "wf_tensor x" "conforms ty x" and "pointwise sem env x v g" "\<not> is_scalar_const v"
  shows "pointwise sem env x (createTFLOperation nm [ty] [v] attrs 0) (\<lambda>e. f (g e))"
  using assms eval_unary [of "tmap g x" env v ty] by (simp add: pointwise_def comp_def)

end

context tfl_binary
begin

lemma pointwise_binary:
  assumes "wf_tensor x" "conforms ty x" "trank x \<le> maxrank" and "pointwise sem env x v g" "pointwise sem env x w h" and "\<not> (is_scalar_const v \<and> is_scalar_const w)"
  shows "pointwise sem env x (createTFLOperation nm [ty] [v, w] attrs 0) (\<lambda>e. f (g e) (h e))"
proof (cases "is_scalar_const v \<or> is_scalar_const w")
  case False
  then show ?thesis using assms eval_same_shape [of x env v g w h ty] by (simp add: pointwise_def)
next
  case True
  then show ?thesis
    using assms eval_scalar_right [of "tmap g x" env v w _ ty] eval_scalar_left [of "tmap h x" env w v _ ty]
    by (auto simp: pointwise_def comp_def)
qed

end

context tfl_compare
begin

lemma pointwise_compare:
  assumes "wf_tensor x" "conforms ty x" and "pointwise sem env x v g" "pointwise sem env x w h" and "\<not> is_scalar_const v" "trank x \<le> 4 \<or> \<not> is_scalar_const w"
  shows "pointwise sem env x (createTFLOperation nm [ty] [v, w] [] 0) (\<lambda>e. f (g e) (h e))"
proof (cases "trank x \<le> 4")
  case True
  then show ?thesis using assms by (intro pointwise_binary) simp_all
next
  case False
  then have "eval sem env v = tmap g x" "eval sem env w = tmap h x" using assms by (simp_all add: pointwise_def)
  then show ?thesis
    using assms(1,2) same_shape [of "tmap g x" "tmap h x" "[ty]"] by (simp add: pointwise_def tmap2_tmap_same)
qed

end

lemma tselect_scalar_same:
  assumes "wf_tensor t" shows "tselect p (tmap f t) (tmap g t) (Tensor [] [s]) = tmap (\<lambda>x. if p (f x) then g x else s) t"
  using assms by (intro tensor_eqI) (simp_all add: tselect_def tnth_tmap bcast_ix_self bget_scalar [unfolded bget_def, simplified])

context tfl_select
begin

lemma pointwise_select:
  assumes x: "wf_tensor x" "conforms ty x" "trank x \<le> 5" and "pointwise sem env x c g" "pointwise sem env x v h" "pointwise sem env x w k" and "\<not> is_scalar_const c" "\<not> is_scalar_const v"
  shows "pointwise sem env x (createTFLOperation ''tfl.select_v2'' [ty] [c, v, w] [] 0) (\<lambda>e. if is_true (g e) then h e else k e)"
proof (cases "is_scalar_const w")
  case False
  then show ?thesis
    using assms select_v2 [of "tmap g x" "tmap h x" "tmap k x" "[ty]"] by (simp add: pointwise_def tselect_tmap_same)
next
  case True
  then obtain s where w: "eval sem env w = Tensor [] [s]" and k: "k = (\<lambda>_. s)" using assms(6) by (auto simp: pointwise_def)
  show ?thesis
    unfolding k using w assms(1-5,7,8) select_v2 [of "tmap g x" "tmap h x" "Tensor [] [s]" "[ty]"] by (simp add: pointwise_def tselect_scalar_same)
qed

end

context tfl_composite
begin

lemma pointwise_atan2:
  assumes "wf_tensor x" "conforms ty x" and "pointwise sem env x v g" "pointwise sem env x w h" and "\<not> is_scalar_const v" "\<not> is_scalar_const w"
  shows "pointwise sem env x (createTFLOperation ''tfl.atan2'' [ty] [v, w] [] 0) (\<lambda>e. fatan2 F (g e) (h e))"
  using assms atan2 [of "tmap g x" "tmap h x" "[ty]"] by (simp add: pointwise_def tmap2_tmap_same)

lemma pointwise_comparison_constant:
  assumes "wf_tensor x" "ty = RankedTensor (map int (tshape x)) e" "i32_dims (tshape x)"
  shows "pointwise sem env x (comparisonConstant ty c) (\<lambda>_. FV c)"
proof (cases "4 < trank x")
  case True
  have t: "tconst (tshape x) (FV c) = tmap (\<lambda>_. FV c) x" using assms(1) by (intro tensor_eqI) (simp_all add: tconst_def tnth_tmap)
  then have "conforms ty (tconst (tshape x) (FV c))" using assms(1,2) by (simp add: conforms_Ranked)
  then show ?thesis
    using True assms(2,3) fill [of "[ty]" "tshape x" "FV c"] t
    by (simp add: pointwise_def comparisonConstant_def getRank_def map_i32_comp_dims)
qed (use assms pointwise_constant in \<open>simp add: comparisonConstant_def getRank_def\<close>)

lemmas pointwise_steps = pointwise_constant pointwise_atan2 expo.pointwise_unary logo.pointwise_unary root.pointwise_unary abso.pointwise_unary
  nego.pointwise_unary sign.pointwise_unary add.pointwise_binary sub.pointwise_binary mul.pointwise_binary divi.pointwise_binary
  maxi.pointwise_binary mini.pointwise_binary gt.pointwise_compare lt.pointwise_compare sel.pointwise_select

lemma pointwise_composite:
  assumes low: "lower_composite lit neg kind op = Inr v" and x: "wf_tensor x" "trank x \<le> 5" "eval sem env (adaptor 0 (un_input op)) = x" "i32_dims (tshape x)"
    and ty: "convertRank4NCHWToNHWCType (un_result op) = RankedTensor (map int (tshape x)) e"
  shows "pointwise sem env x v (composite_scalar F lit neg kind)"
proof -
  let ?ty = "RankedTensor (map int (tshape x)) e"
  have c: "conforms ?ty x" "conforms (condition_type ?ty) x" using x(1) by (simp_all add: conforms_Ranked condition_type_def)
  note op = pointwise_operand [OF x(3)] and cc = pointwise_comparison_constant [OF x(1) refl x(4)]
  note defs = lower_composite_def Let_def unary_def binary_def ty
  show ?thesis
    using low
    by (cases kind; clarsimp simp: defs composite_scalar_def [abs_def] erf_coefficients_def simp del: eval_createTFLOperation split: if_splits)
      (intro pointwise_steps op cc x c, (simp add: x c del: eval_createTFLOperation)+)+
qed

end

lemma composite_represents:
  assumes sem: "tfl_composite sem F" and low: "lower_composite lit neg kind op = Inr v"
    and t: "conforms (oty (un_input op)) t" "env 0 = phys (oty (un_input op)) t"
    and res: "conforms (un_result op) t" and rk: "trank t \<le> 5" and i32: "i32_dims (tshape t)"
  shows "represents sem env v (un_result op) (tmap (composite_scalar F lit neg kind) t)"
proof -
  let ?ty = "un_result op"
  have nf: "\<not> failed (validateStaticF32TensorOrScalar (oty (un_input op)))" "\<not> failed (validateStaticF32TensorOrScalar ?ty)"
    using low by (auto simp: lower_composite_def Let_def split: if_splits)
  note x = f32_physical_operand [where env = env, OF nf t(1) res t(2) rk]
  have "eval sem env (adaptor 0 (un_input op)) = phys ?ty t" using x(2) by simp
  moreover have "i32_dims (tshape (phys ?ty t))"
    using i32 res by (auto simp: phys_def i32_dims_def conforms_def physical4_def to_nhwc_def permute_def split: if_splits)
  moreover obtain e where e: "convertRank4NCHWToNHWCType ?ty = RankedTensor (map int (tshape (phys ?ty t))) e" using x(3) by (auto simp: conforms_def)
  ultimately have "pointwise sem env (phys ?ty t) v (composite_scalar F lit neg kind)"
    by (intro tfl_composite.pointwise_composite [OF sem low x(1,4)]) 
  moreover have "\<not> is_scalar_const v" "vtype v = convertRank4NCHWToNHWCType ?ty"
    using low by (auto simp: lower_composite_def Let_def unary_def binary_def split: if_splits composite.splits)
  ultimately show ?thesis using res by (intro represents_tmap) (simp_all add: pointwise_def)
qed

text \<open>
  C22: when the pattern of a composite unary operator succeeds, the created value represents the composition of
  the kernels' scalar functions on every element, whatever these functions are. The pattern checks no rank; the theorem
  has rank 5 as its bound, the rank to which the kernels broadcast the scalar constants.
\<close>

theorem lower_composite_correct:
  assumes sem: "tfl_composite sem F" and low: "lower_composite lit neg kind op = Inr v"
    and t: "conforms (oty (un_input op)) t" "env 0 = phys (oty (un_input op)) t"
    and res: "conforms (un_result op) t" and rk: "trank t \<le> 5" and i32: "i32_dims (tshape t)"
  shows "represents sem env v (un_result op) (tmap (composite_scalar F lit neg kind) t)"
  by (rule composite_represents [where env = env, OF assms])

section \<open>The compositions on real numbers\<close>

definition lift1 :: "(real \<Rightarrow> real) \<Rightarrow> real scalar \<Rightarrow> real scalar" where
  "lift1 f x = (case x of FV a \<Rightarrow> FV (f a) | _ \<Rightarrow> x)"

definition lift2 :: "(real \<Rightarrow> real \<Rightarrow> 'a) \<Rightarrow> ('a \<Rightarrow> real scalar) \<Rightarrow> real scalar \<Rightarrow> real scalar \<Rightarrow> real scalar" where
  "lift2 f wrap x y = (case (x, y) of (FV a, FV b) \<Rightarrow> wrap (f a b) | _ \<Rightarrow> x)"

definition real_atan2 :: "real \<Rightarrow> real \<Rightarrow> real" where
  "real_atan2 y x =
     (if 0 < x then arctan (y / x)
      else if x < 0 then (if 0 \<le> y then arctan (y / x) + pi else arctan (y / x) - pi)
      else if 0 < y then pi / 2 else if y < 0 then - (pi / 2) else 0)"

definition real_arith :: "real arith" where
  "real_arith = \<lparr>fadd = lift2 (+) FV, fsub = lift2 (-) FV, fmul = lift2 (*) FV, fdiv = lift2 (/) FV, fmax = lift2 max FV, fmin = lift2 min FV,
     fatan2 = lift2 real_atan2 FV, fgt = lift2 (>) BV, flt = lift2 (<) BV, fexp = lift1 exp, flog = lift1 ln, fsqrt = lift1 sqrt,
     fabs = lift1 abs, fneg = lift1 uminus, fsign = lift1 sgn\<rparr>"

text \<open>The functions as ONNX defines them; Erf is left out, its composition is an approximation.\<close>

definition onnx_composite :: "real composite \<Rightarrow> real \<Rightarrow> real" where
  "onnx_composite kind x =
     (case kind of
        Celu a \<Rightarrow> max 0 x + min 0 (a * (exp (x / a) - 1))
      | Selu a g \<Rightarrow> if x \<le> 0 then g * (a * exp x - a) else g * x
      | Softplus \<Rightarrow> ln (exp x + 1)
      | Softsign \<Rightarrow> x / (1 + \<bar>x\<bar>)
      | Shrink b l \<Rightarrow> if x < - l then x + b else if l < x then x - b else 0
      | ThresholdedRelu a \<Rightarrow> if a < x then x else 0
      | Asin \<Rightarrow> arcsin x
      | Acos \<Rightarrow> arccos x
      | Atan \<Rightarrow> arctan x
      | Atanh \<Rightarrow> artanh x
      | Sinh \<Rightarrow> sinh x
      | Cosh \<Rightarrow> cosh x
      | Asinh \<Rightarrow> arsinh x
      | Acosh \<Rightarrow> arcosh x
      | Erf \<Rightarrow> 0)"

definition composite_domain :: "real composite \<Rightarrow> real \<Rightarrow> bool" where
  "composite_domain kind x \<longleftrightarrow>
     (case kind of
        Selu a g \<Rightarrow> 0 \<le> a
      | Shrink b l \<Rightarrow> 0 \<le> l
      | Asin \<Rightarrow> \<bar>x\<bar> \<le> 1
      | Acos \<Rightarrow> \<bar>x\<bar> \<le> 1
      | Atanh \<Rightarrow> \<bar>x\<bar> < 1
      | Acosh \<Rightarrow> 1 \<le> x
      | Erf \<Rightarrow> False
      | _ \<Rightarrow> True)"

lemma softplus_stable: "max x 0 + ln (1 + exp (- \<bar>x\<bar>)) = ln (exp x + 1)" for x :: real
proof (cases "0 \<le> x")
  case True
  have "exp x + 1 = exp x * (1 + exp (- x))" by (simp add: algebra_simps exp_minus)
  moreover have "0 < 1 + exp (- x)" by (simp add: add_pos_pos)
  ultimately have "ln (exp x + 1) = x + ln (1 + exp (- x))" by (simp add: ln_mult)
  then show ?thesis using True by simp
qed (simp add: add.commute)

lemma atan2_asin: "\<bar>x\<bar> \<le> 1 \<Longrightarrow> real_atan2 x (sqrt (max (1 - x * x) 0)) = arcsin x"
proof -
  assume x: "\<bar>x\<bar> \<le> 1"
  consider "x = 1" | "x = - 1" | "- 1 < x" "x < 1" using x by linarith
  then show ?thesis
  proof cases
    case 3
    then have "0 < 1 - x * x" by (simp add: abs_square_less_1 [unfolded power2_eq_square])
    then show ?thesis using 3 by (simp add: real_atan2_def arcsin_arctan power2_eq_square max_def)
  qed (simp_all add: real_atan2_def)
qed

lemma atan2_acos: "\<bar>x\<bar> \<le> 1 \<Longrightarrow> real_atan2 (sqrt (max (1 - x * x) 0)) x = arccos x"
proof -
  assume x: "\<bar>x\<bar> \<le> 1"
  consider "x = 1" | "x = - 1" | "x = 0" | "- 1 < x" "x < 1" "x \<noteq> 0" using x by linarith
  then show ?thesis
  proof cases
    case 4
    then have p: "0 < 1 - x * x" by (simp add: abs_square_less_1 [unfolded power2_eq_square])
    let ?y = "sqrt (1 - x * x)"
    have "arctan (?y / x) = sgn (x / ?y) * pi / 2 - arctan (x / ?y)" using arctan_inverse [of "x / ?y"] 4 p by simp
    moreover have "sgn (x / ?y) = sgn x" using p by (simp add: sgn_divide)
    ultimately show ?thesis using 4 p by (cases "0 < x") (simp_all add: real_atan2_def arccos_arctan power2_eq_square max_def)
  qed (simp_all add: real_atan2_def)
qed

lemmas real_scalar_defs = composite_scalar_def onnx_composite_def real_arith_def lift1_def lift2_def Let_def of_rat_divide

text \<open>
  On real numbers every composition except that of Erf, which is an approximation, is the function of ONNX on
  its domain; Selu and Shrink need a non-negative coefficient.
\<close>

lemma composite_scalar_real:
  assumes "composite_domain kind x"
  shows "composite_scalar real_arith of_rat uminus kind (FV x) = FV (onnx_composite kind x)"
proof (cases kind)
  case Asinh
  then show ?thesis by (simp add: real_scalar_defs arsinh_real_def power2_eq_square)
next
  case Acosh
  then have "1 \<le> x * x" using assms mult_mono [of 1 x 1 x] by (simp add: composite_domain_def)
  then show ?thesis using Acosh assms by (simp add: real_scalar_defs composite_domain_def arcosh_real_def power2_eq_square max_def)
next
  case (Selu a g)
  then have "min (a * (exp x - 1)) 0 = (if x \<le> 0 then a * exp x - a else 0)"
    using assms Selu by (auto simp: composite_domain_def right_diff_distrib min_def mult_le_cancel_left2)
  then show ?thesis using Selu by (auto simp: real_scalar_defs)
next
  case (Shrink b l)
  then show ?thesis using assms by (auto simp: real_scalar_defs composite_domain_def is_true_def)
next
  case Atanh
  then show ?thesis using assms by (simp add: real_scalar_defs artanh_def)
next
  case Atan
  then show ?thesis by (simp add: real_scalar_defs real_atan2_def)
next
  case Celu
  then show ?thesis by (simp add: real_scalar_defs max.commute min.commute)
qed (use assms in \<open>simp_all add: real_scalar_defs composite_domain_def softplus_stable atan2_asin atan2_acos is_true_def sinh_def cosh_def\<close>)

lemma tmap_cong_elements: "(\<And>x. x \<in> set (tdata t) \<Longrightarrow> f x = g x) \<Longrightarrow> tmap f t = tmap g t"
  by (simp add: tmap_def)

text \<open>
  C23: when the pattern of a composite unary operator succeeds and the kernels compute on real numbers, the created
  value represents the function of ONNX on every element in its domain: Celu, Selu, Softplus, Softsign, Shrink,
  ThresholdedRelu, the inverse trigonometric and the hyperbolic functions. Selu needs a non-negative alpha and Shrink a
  non-negative lambd, Erf is left out because its composition is an approximation, and the rank is at most 5 as before.
\<close>

theorem lower_composite_real:
  assumes sem: "tfl_composite sem real_arith" and low: "lower_composite of_rat uminus kind op = Inr v"
    and t: "conforms (oty (un_input op)) t" "env 0 = phys (oty (un_input op)) t"
    and res: "conforms (un_result op) t" and rk: "trank t \<le> 5" and i32: "i32_dims (tshape t)"
    and domain: "\<forall>x\<in>set (tdata t). \<exists>a. x = FV a \<and> composite_domain kind a"
  shows "represents sem env v (un_result op) (tmap (lift1 (onnx_composite kind)) t)"
proof -
  have "tmap (lift1 (onnx_composite kind)) t = tmap (composite_scalar real_arith of_rat uminus kind) t"
    using domain by (intro tmap_cong_elements) (fastforce simp: composite_scalar_real lift1_def)
  with composite_represents [where env = env, OF sem low t res rk i32] show ?thesis by simp
qed

section \<open>Kernels on real numbers\<close>

definition real_compute :: "real sem" where
  "real_compute nm attrs tys xs =
     (let x = hd xs; y = xs ! 1; F = real_arith in
      if nm = ''tfl.add'' then [tmap2 (fadd F) x y]
      else if nm = ''tfl.sub'' then [tmap2 (fsub F) x y]
      else if nm = ''tfl.mul'' then [tmap2 (fmul F) x y]
      else if nm = ''tfl.div'' then [tmap2 (fdiv F) x y]
      else if nm = ''tfl.maximum'' then [tmap2 (fmax F) x y]
      else if nm = ''tfl.minimum'' then [tmap2 (fmin F) x y]
      else if nm = ''tfl.atan2'' then [tmap2 (fatan2 F) x y]
      else if nm = ''tfl.greater'' then [tmap2 (fgt F) x y]
      else if nm = ''tfl.less'' then [tmap2 (flt F) x y]
      else if nm = ''tfl.exp'' then [tmap (fexp F) x]
      else if nm = ''tfl.log'' then [tmap (flog F) x]
      else if nm = ''tfl.sqrt'' then [tmap (fsqrt F) x]
      else if nm = ''tfl.abs'' then [tmap (fabs F) x]
      else if nm = ''tfl.neg'' then [tmap (fneg F) x]
      else if nm = ''tfl.sign'' then [tmap (fsign F) x]
      else if nm = ''tfl.select_v2'' then [tselect is_true x y (xs ! 2)]
      else if nm = ''tfl.fill'' then [tconst (nats_of x) (hd (tdata y))]
      else [])"

definition real_sem :: "real sem" where
  "real_sem = ref_layout real_compute"

interpretation real_kernels: tfl_composite real_sem real_arith
  by unfold_locales (simp_all add: real_sem_def ref_layout_def real_compute_def Let_def)

section \<open>Witness\<close>

definition ref_fun :: "int arith" where
  "ref_fun = \<lparr>fadd = ref_arith (+), fsub = ref_arith (-), fmul = ref_arith (*), fdiv = ref_arith (div), fmax = ref_arith max,
     fmin = ref_arith min, fatan2 = ref_arith (-), fgt = ref_compare (>), flt = ref_compare (<), fexp = ref_un ref_exp, flog = ref_un ref_log,
     fsqrt = ref_un ref_sqrt, fabs = ref_un abs, fneg = ref_un uminus, fsign = ref_un sgn\<rparr>"

lemma ref_fun_simps [simp]:
  "fadd ref_fun = ref_arith (+)" "fsub ref_fun = ref_arith (-)" "fmul ref_fun = ref_arith (*)" "fdiv ref_fun = ref_arith (div)"
  "fmax ref_fun = ref_arith max" "fmin ref_fun = ref_arith min" "fatan2 ref_fun = ref_arith (-)" "fgt ref_fun = ref_compare (>)"
  "flt ref_fun = ref_compare (<)" "fexp ref_fun = ref_un ref_exp" "flog ref_fun = ref_un ref_log" "fsqrt ref_fun = ref_un ref_sqrt"
  "fabs ref_fun = ref_un abs" "fneg ref_fun = ref_un uminus" "fsign ref_fun = ref_un sgn"
  by (simp_all add: ref_fun_def)

interpretation reference_gt: tfl_compare reference_sem "''tfl.greater''" "ref_compare (>)"
  by unfold_locales (simp add: reference_defs)

interpretation reference_lt: tfl_compare reference_sem "''tfl.less''" "ref_compare (<)"
  by unfold_locales (simp add: reference_defs)

interpretation reference_composite: tfl_composite reference_sem ref_fun
  by unfold_locales (simp_all add: reference_defs)

text \<open>A value above rank 4, so that the thresholds of Shrink are filled up to the shape of the operand.\<close>

definition cube5_example :: "int scalar tensor" where
  "cube5_example = Tensor [1, 1, 2, 1, 2] (map FV [- 5, 0, 2, 7])"

definition shrink_example :: "int unary_op" where
  "shrink_example = \<lparr>un_input = f32_operand [1, 1, 2, 1, 2], un_result = RankedTensor [1, 1, 2, 1, 2] F32\<rparr>"

theorem lower_composite_correct_witness:
  "\<exists>v. lower_composite floor uminus (Shrink 1 3) shrink_example = Inr v \<and>
     represents reference_sem (\<lambda>_. cube5_example) v (un_result shrink_example)
       (tmap (composite_scalar ref_fun floor uminus (Shrink 1 3)) cube5_example)"
proof -
  have "\<not> failed (lower_composite floor uminus (Shrink 1 (3 :: int)) shrink_example)" by code_simp
  then obtain v where low: "lower_composite floor uminus (Shrink 1 (3 :: int)) shrink_example = Inr v" by (rule not_failedE)
  have c: "tshape cube5_example = [1, 1, 2, 1, 2]" "wf_tensor cube5_example" by (simp_all add: cube5_example_def wf_tensor_def)
  from lower_composite_correct [OF reference_composite.tfl_composite_axioms low, of cube5_example "\<lambda>_. cube5_example"]
  show ?thesis using low by (simp add: shrink_example_def example_simps physical4_def c)
qed

text \<open>The inverse hyperbolic tangent on an image of one row with two elements inside the open unit interval.\<close>

definition real_row_example :: "real scalar tensor" where
  "real_row_example = Tensor [1, 1, 1, 2] [FV (1 / 2), FV (- 1 / 3)]"

definition atanh_example :: "real unary_op" where
  "atanh_example = \<lparr>un_input = f32_operand [1, 1, 1, 2], un_result = RankedTensor [1, 1, 1, 2] F32\<rparr>"

theorem lower_composite_real_witness:
  "\<exists>v. lower_composite of_rat uminus Atanh atanh_example = Inr v \<and>
     represents real_sem (\<lambda>_. ttranspose to_nhwc real_row_example) v (un_result atanh_example)
       (Tensor [1, 1, 1, 2] [FV (artanh (1 / 2)), FV (artanh (- 1 / 3))])"
proof -
  have "\<not> failed (validateStaticF32TensorOrScalar (RankedTensor [1, 1, 1, 2] F32))" by code_simp
  then have "\<not> failed (lower_composite of_rat uminus Atanh atanh_example)"
    by (simp add: lower_composite_def atanh_example_def f32_operand_def Let_def)
  then obtain v where low: "lower_composite of_rat uminus Atanh atanh_example = Inr v" by (rule not_failedE)
  have c: "tshape real_row_example = [1, 1, 1, 2]" "wf_tensor real_row_example" by (simp_all add: real_row_example_def wf_tensor_def)
  have r: "tmap (lift1 (onnx_composite Atanh)) real_row_example = Tensor [1, 1, 1, 2] [FV (artanh (1 / 2)), FV (artanh (- 1 / 3))]"
    by (simp add: real_row_example_def tmap_def lift1_def onnx_composite_def)
  have "represents real_sem (\<lambda>_. ttranspose to_nhwc real_row_example) v (un_result atanh_example)
      (tmap (lift1 (onnx_composite Atanh)) real_row_example)"
  proof (rule lower_composite_real [OF real_kernels.tfl_composite_axioms low])
    show "\<forall>x\<in>set (tdata real_row_example). \<exists>a. x = FV a \<and> composite_domain Atanh a"
      using exI [of "\<lambda>a :: real. a * 2 = 1 \<and> \<bar>a\<bar> < 1" "1 / 2"] by (simp add: real_row_example_def composite_domain_def)
  qed (simp_all add: atanh_example_def example_simps c)
  then show ?thesis using low unfolding r by blast
qed

end
