(* ===== verification/Lower_Additional.thy ===== *)
theory Lower_Additional
  imports Lower_Composite
begin

text \<open>
  \<^verbatim>\<open>Math/AdditionalElementwise.cpp\<close>, the operators with several operands: PRelu with its slope brought to the shape
  that the kernel broadcasts, Mean, and the logical operators.
\<close>

section \<open>Definitions\<close>

record 'f prelu_op =
  pr_x :: "'f operand"
  pr_slope :: "'f operand"
  pr_result :: mtype

definition channel_slope :: "int list \<Rightarrow> 'f val \<Rightarrow> 'f val result" where
  "channel_slope shape slope =
     (let reshaped = (\<lambda>channelCount. emitReshape (RankedTensor [1, 1, channelCount] F32) [1, 1, channelCount] slope) in
      if getRank shape = 3 then
        (if shape ! 1 \<noteq> 1 \<or> shape ! 2 \<noteq> 1 then Inl ShapeMismatch else Inr (reshaped (shape ! 0)))
      else if shape ! 0 \<noteq> 1 \<or> shape ! 2 \<noteq> 1 \<or> shape ! 3 \<noteq> 1 then Inl ShapeMismatch
      else Inr (reshaped (shape ! 1)))"

definition normalized_slope :: "int list \<Rightarrow> int list \<Rightarrow> 'f val \<Rightarrow> 'f val result" where
  "normalized_slope inShape slopeShape slope =
     (let inputRank = length inShape in
      if inputRank < 2 \<or> inputRank < length slopeShape then Inl BadRank
      else
        let expandedSlopeShape = aligned_shape inputRank slopeShape in
        if \<exists>axis\<in>set [0..<inputRank]. expandedSlopeShape ! axis \<noteq> 1 \<and> expandedSlopeShape ! axis \<noteq> inShape ! axis then Inl NotCompatible
        else if hd expandedSlopeShape \<noteq> 1 then Inl ShapeMismatch
        else
          let normalizedSlopeShape = tl expandedSlopeShape in
          Inr (if slopeShape \<noteq> normalizedSlopeShape
               then emitReshape (RankedTensor normalizedSlopeShape F32) normalizedSlopeShape slope else slope))"

definition lower_prelu :: "'f prelu_op \<Rightarrow> 'f val result" where
  "lower_prelu op =
     (case (oty (pr_x op), oty (pr_slope op), pr_result op) of
        (RankedTensor inShape ie, RankedTensor slopeShape se, RankedTensor resultShape re) \<Rightarrow>
          if failed (validateStaticF32Tensor (oty (pr_x op))) \<or> failed (validateStaticF32Tensor (oty (pr_slope op))) \<or>
             failed (validateStaticF32Tensor (pr_result op)) then Inl BadTypes
          else
            let slope = adaptor 1 (pr_slope op) in
            bind_result
              (if getRank resultShape = 4 \<and> (getRank slopeShape = 3 \<or> getRank slopeShape = 4) then channel_slope slopeShape slope
               else if getRank resultShape \<noteq> 4 then normalized_slope inShape slopeShape slope
               else Inr slope)
              (\<lambda>slope'. Inr (createTFLOperation ''tfl.prelu'' [convertRank4NCHWToNHWCType (pr_result op)] [adaptor 0 (pr_x op), slope'] [] 0))
      | _ \<Rightarrow> Inl BadTypes)"

definition lower_mean :: "(rat \<Rightarrow> 'f) \<Rightarrow> 'f variadic_op \<Rightarrow> 'f val result" where
  "lower_mean lit op =
     (if (case var_result op of RankedTensor _ _ \<Rightarrow> False | _ \<Rightarrow> True) \<or> var_operands op = [] \<or>
         failed (validateStaticF32Tensor (var_result op)) then Inl BadTypes
      else
        let physicalType = convertRank4NCHWToNHWCType (var_result op);
            operands = map (\<lambda>i. adaptor i (var_operands op ! i)) [0..<length (var_operands op)];
            total = foldl (\<lambda>acc operand. binary ''tfl.add'' physicalType acc operand True) (hd operands) (tl operands);
            count = createF32ScalarTensorConstant (lit (of_nat (length operands))) in
        Inr (binary ''tfl.div'' physicalType total count True))"

definition lower_logical :: "string \<Rightarrow> 'f binary_op \<Rightarrow> 'f val result" where
  "lower_logical tflName op =
     (case (oty (bin_lhs op), oty (bin_rhs op), bin_result op) of
        (RankedTensor lhsShape lhsElt, RankedTensor rhsShape rhsElt, RankedTensor resultShape resultElt) \<Rightarrow>
          if \<not> hasStaticShape lhsShape \<or> \<not> hasStaticShape rhsShape \<or> \<not> hasStaticShape resultShape \<or>
             \<not> isInteger 1 lhsElt \<or> \<not> isInteger 1 rhsElt \<or> \<not> isInteger 1 resultElt then Inl BadTypes
          else
            let resultRank = max (getRank lhsShape) (getRank rhsShape) in
            if 5 < resultRank \<or> getRank resultShape \<noteq> resultRank then Inl BadRank
            else bind_result (computeBroadcastShape lhsShape rhsShape) (\<lambda>expectedShape.
              if expectedShape \<noteq> resultShape then Inl ShapeMismatch
              else
                let lhs = adaptor 0 (bin_lhs op); rhs = adaptor 1 (bin_rhs op) in
                if 4 < resultRank then
                  let elementCount = getNumElements resultShape;
                      lhs' = flattenOperand lhs lhsShape lhsElt expectedShape elementCount;
                      rhs' = flattenOperand rhs rhsShape rhsElt expectedShape elementCount;
                      flatResult = createTFLOperation tflName [RankedTensor [elementCount] resultElt] [lhs', rhs'] [] 0 in
                  Inr (emitReshape (bin_result op) resultShape flatResult)
                else Inr (createTFLOperation tflName [bin_result op] [lhs, rhs] [] 0))
      | _ \<Rightarrow> Inl BadTypes)"

section \<open>Logical operators\<close>

text \<open>
  When the pattern of And, Or or Xor succeeds, the created value represents the broadcast of the function of
  the kernel on two booleans; broadcasts of rank 5 go through materialised, flattened operands.
\<close>

theorem lower_logical_correct:
  assumes sem: "tfl_binary sem nm [] f 4" "tfl_broadcast sem" and low: "lower_logical nm op = Inr v"
    and t: "conforms (oty (bin_lhs op)) t" "env 0 = phys (oty (bin_lhs op)) t"
    and u: "conforms (oty (bin_rhs op)) u" "env 1 = phys (oty (bin_rhs op)) u"
    and res: "conforms (bin_result op) (tmap2 f t u)" and i32: "i32_count (tshape (tmap2 f t u))"
  shows "represents sem env v (bin_result op) (tmap2 f t u)"
proof -
  let ?lty = "oty (bin_lhs op)" and ?rty = "oty (bin_rhs op)" and ?ty = "bin_result op" and ?R = "tshape (tmap2 f t u)"
  let ?l = "adaptor 0 (bin_lhs op)" and ?r = "adaptor 1 (bin_rhs op)"
  obtain e e2 e3 where ty: "?lty = RankedTensor (map int (tshape t)) e" "?rty = RankedTensor (map int (tshape u)) e2"
      "?ty = RankedTensor (map int ?R) e3" and wf: "wf_tensor t" "wf_tensor u"
    using t(1) u(1) res by (auto simp: conforms_def)
  have cb: "computeBroadcastShape (map int (tshape t)) (map int (tshape u)) = Inr (map int ?R)"
    and i1: "isInteger 1 e" "isInteger 1 e2" "isInteger 1 e3" and R5: "length ?R \<le> 5"
    using low by (auto simp: lower_logical_def ty getRank_def Let_def split: if_splits)
  have c: "bcast_compat (tshape t) (tshape u)" using cb by (rule computeBroadcastShape_correct)
  have np: "\<not> physical4 ?ty" "\<not> physical4 ?lty" "\<not> physical4 ?rty" using i1 by (auto simp: ty isInteger_def)
  have l: "tfl_layout sem" using sem(1) by (rule tfl_binary.axioms(1))
  have ev: "eval sem env ?l = t" "eval sem env ?r = u" using t(2) u(2) np by (simp_all add: phys_def)
  show ?thesis
  proof (cases "4 < length ?R")
    case True
    let ?N = "prod_list ?R"
    let ?fl = "flattenOperand ?l (map int (tshape t)) e (map int ?R) (int ?N)"
    let ?fr = "flattenOperand ?r (map int (tshape u)) e2 (map int ?R) (int ?N)"
    let ?z = "createTFLOperation nm [RankedTensor [int ?N] e3] [?fl, ?fr] [] 0"
    have v: "v = emitReshape ?ty (map int ?R) ?z"
      using low True cb by (auto simp: lower_logical_def ty getRank_def Let_def split: if_splits)
    show ?thesis
      using represents_flat_broadcast [OF sem c wf ev R5 i32 refl res np(1) ty(3)] v by simp
  next
    case False
    then have v: "v = createTFLOperation nm [?ty] [?l, ?r] [] 0"
      using low cb by (auto simp: lower_logical_def ty getRank_def Let_def split: if_splits)
    have "trank t \<le> 4" "trank u \<le> 4" using False by auto
    then have "eval sem env v = tmap2 f t u"
      unfolding v using c wf res by (intro tfl_binary.eval_direct [OF sem(1) ev]) simp_all
    then show ?thesis using np res v by (intro represents_logical) simp_all
  qed
qed

section \<open>Mean\<close>

lemma tmap2_conforms:
  assumes "conforms ty a" "conforms ty b"
  shows "conforms ty (tmap2 f a b)" and "phys ty (tmap2 f a b) = tmap2 f (phys ty a) (phys ty b)"
proof -
  have sh: "tshape a = tshape b" using assms by (auto simp: conforms_def inj_map_eq_map [OF inj_of_nat])
  then have t: "tmap2 f a b = tgen (tshape b) (\<lambda>is. f (tnth a is) (tnth b is))" by (rule tmap2_same)
  show "conforms ty (tmap2 f a b)" using assms(2) unfolding t by (auto simp: conforms_def)
  show "phys ty (tmap2 f a b) = tmap2 f (phys ty a) (phys ty b)"
    using ttranspose_tmap2 [of a 4 b to_nhwc f] assms sh by (auto simp: phys_def conforms_def physical4_def is_perm_def to_nhwc_def)
qed

lemma foldl_tmap2_conforms:
  assumes "conforms ty a" "\<forall>b\<in>set bs. conforms ty b"
  shows "conforms ty (foldl (tmap2 f) a bs)" and "phys ty (foldl (tmap2 f) a bs) = foldl (tmap2 f) (phys ty a) (map (phys ty) bs)"
  using assms
proof (induction bs arbitrary: a)
  case (Cons b bs)
  case 1
  then show ?case using Cons.IH(1) [of "tmap2 f a b"] tmap2_conforms(1) [of ty a b f] by simp
next
  case (Cons b bs)
  case 2
  then show ?case using Cons.IH(2) [of "tmap2 f a b"] tmap2_conforms [of ty a b f] by simp
qed simp_all

context tfl_binary
begin

lemma eval_conforming:
  assumes "conforms ty t" "conforms ty u" and "eval sem env a = t" "eval sem env b = u" and "trank t \<le> maxrank"
  shows "eval sem env (createTFLOperation nm [ty] [a, b] attrs 0) = tmap2 f t u"
proof -
  have "tshape t = tshape u" using assms(1,2) by (auto simp: conforms_def inj_map_eq_map [OF inj_of_nat])
  then show ?thesis using assms tmap2_conforms(1) [OF assms(1,2)] by (intro eval_direct) (simp_all add: conforms_wf)
qed

lemma eval_foldl:
  assumes "conforms ty t" "list_all2 (\<lambda>b u. eval sem env b = u \<and> conforms ty u) bs us" and "eval sem env a = t" and "trank t \<le> maxrank"
  shows "eval sem env (foldl (\<lambda>acc b. createTFLOperation nm [ty] [acc, b] attrs 0) a bs) = foldl (tmap2 f) t us"
  using assms(2,1,3,4)
proof (induction bs us arbitrary: a t rule: list_all2_induct)
  case (Cons b bs u us)
  have sh: "tshape t = tshape u" "tshape (tmap2 f t u) = tshape t" using Cons by (auto simp: conforms_def inj_map_eq_map [OF inj_of_nat] tmap2_same)
  have ev: "eval sem env (createTFLOperation nm [ty] [a, b] attrs 0) = tmap2 f t u" using Cons by (intro eval_conforming) simp_all
  have c: "conforms ty (tmap2 f t u)" "trank (tmap2 f t u) \<le> maxrank" using Cons sh tmap2_conforms(1) [of ty t u f] by simp_all
  show ?case using Cons.IH [OF c(1) ev c(2)] by simp
qed simp

end

text \<open>
  When the Mean pattern succeeds on operands of the type of the result, the created value represents the sum
  of the operands, added from the left, divided by their number. The pattern adapts no broadcast to the NHWC
  layout, so the types have to agree.
\<close>

theorem lower_mean_correct:
  assumes sem: "tfl_arith sem addf subf mulf divf maxf minf" and low: "lower_mean lit op = Inr v"
    and ts: "operands_represent env (var_operands op) ts" and same: "\<forall>x\<in>set (var_operands op). oty x = var_result op"
    and rk: "\<forall>t\<in>set ts. trank t \<le> 5"
  shows "represents sem env v (var_result op)
    (tmap (\<lambda>s. divf s (FV (lit (of_nat (length ts))))) (foldl (tmap2 addf) (hd ts) (tl ts)))"
proof -
  let ?ty = "var_result op" and ?cty = "convertRank4NCHWToNHWCType (var_result op)" and ?n = "length (var_operands op)"
  let ?vs = "map (\<lambda>i. adaptor i (var_operands op ! i)) [0..<length (var_operands op)]" and ?add = "foldl (tmap2 addf)"
  have ne: "var_operands op \<noteq> []" using low by (auto simp: lower_mean_def split: if_splits)
  have l: "length ts = ?n" using ts by (simp add: operands_represent_def)
  have c: "conforms ?ty (ts ! i)" "env i = phys ?ty (ts ! i)" if "i < ?n" for i
    using ts same that by (simp_all add: operands_represent_def)
  have all: "\<forall>t\<in>set ts. conforms ?ty t" using c l by (auto simp: in_set_conv_nth)
  have vs: "list_all2 (\<lambda>b u. eval sem env b = u \<and> conforms ?cty u) ?vs (map (phys ?ty) ts)"
    using c convert_conforms l by (auto simp: list_all2_conv_all_nth)
  obtain t0 ts' where t: "ts = t0 # ts'" using ne l by (cases ts) auto
  obtain v0 vs' where v0: "?vs = v0 # vs'" using ne by (cases ?vs) auto
  have h: "eval sem env v0 = phys ?ty t0" "conforms ?cty (phys ?ty t0)" "list_all2 (\<lambda>b u. eval sem env b = u \<and> conforms ?cty u) vs' (map (phys ?ty) ts')"
    using vs unfolding v0 t by simp_all
  have rk0: "trank (phys ?ty t0) \<le> 5" using rk t by simp
  let ?total = "foldl (\<lambda>acc operand. binary ''tfl.add'' ?cty acc operand True) v0 vs'"
  have "eval sem env ?total = ?add (phys ?ty t0) (map (phys ?ty) ts')"
    using tfl_binary.eval_foldl [OF tfl_arith.axioms(1) [OF sem] h(2,3,1) rk0] by (simp add: binary_def)
  also have "\<dots> = phys ?ty (?add t0 ts')" using all t foldl_tmap2_conforms(2) [of ?ty t0 ts' addf] by simp
  finally have total: "eval sem env ?total = phys ?ty (?add t0 ts')" .
  have ca: "conforms ?ty (?add t0 ts')" using all t foldl_tmap2_conforms(1) [of ?ty t0 ts' addf] by simp
  have "trank (?add t0 ts') = trank t0" using ca all t by (auto simp: conforms_def dest: map_eq_imp_length_eq)
  then have "trank (phys ?ty (?add t0 ts')) \<le> 5" using rk t by simp
  then have "eval sem env (binary ''tfl.div'' ?cty ?total (createF32ScalarTensorConstant (lit (of_nat ?n))) True) =
      tmap (\<lambda>s. divf s (FV (lit (of_nat ?n)))) (phys ?ty (?add t0 ts'))"
    unfolding binary_def if_True using ca total convert_conforms [OF ca]
    by (intro tfl_binary.eval_scalar_right [OF tfl_arith.axioms(4) [OF sem]]) (simp_all add: binary_def conforms_wf)
  moreover have "v = binary ''tfl.div'' ?cty ?total (createF32ScalarTensorConstant (lit (of_nat ?n))) True"
  proof -
    have "?n = length (v0 # vs')" unfolding v0 [symmetric] by simp
    then have "rat_of_nat ?n = 1 + rat_of_nat (length vs')" by simp
    then show ?thesis using low unfolding lower_mean_def Let_def v0 by (auto split: if_splits)
  qed
  ultimately show ?thesis using ca l t by (intro represents_tmap) (simp_all add: binary_def)
qed

section \<open>PRelu\<close>

text \<open>The slope is broadcast against the input.\<close>

locale tfl_prelu = tfl_layout sem for sem :: "'f sem" +
  fixes f :: "'f scalar \<Rightarrow> 'f scalar \<Rightarrow> 'f scalar" and maxrank :: nat
  assumes prelu:
    "wf_tensor x \<Longrightarrow> wf_tensor s \<Longrightarrow> bcast_ok (tshape s) (tshape x) \<Longrightarrow> trank x \<le> maxrank \<Longrightarrow> declares tys [tmap2 f x s] \<Longrightarrow>
     sem ''tfl.prelu'' [] tys [x, s] = [tmap2 f x s]"

lemma tmap2_padded_right:
  assumes "trank s \<le> n" and "trank x = n" shows "tmap2 f x (padded n s) = tmap2 f x s"
  using padded_tmap2 [of x n s f] assms by simp

lemma bcast_ok_nth:
  assumes "bcast_ok ss ds" and "k < length ds" shows "pad_left (length ds) ss ! k = 1 \<or> pad_left (length ds) ss ! k = ds ! k"
proof (cases "k < length ds - length ss")
  case False
  then have "ss ! (k - (length ds - length ss)) = 1 \<or> ss ! (k - (length ds - length ss)) = ds ! k"
    using assms list_all2_nthD [of "\<lambda>s d. s = 1 \<or> s = d" ss "drop (length ds - length ss) ds" "k - (length ds - length ss)"]
    by (simp add: bcast_ok_def)
  then show ?thesis using False by (simp add: pad_left_def nth_append)
qed (simp add: pad_left_def nth_append)

lemma bcast_ok_absorb:
  assumes "bcast_ok ss ds" shows "bcast_shape ds ss = ds"
proof -
  have l: "max (length ds) (length ss) = length ds" using assms by (simp add: bcast_ok_def)
  show ?thesis
    unfolding bcast_shape_eq [OF l]
  proof (rule nth_equalityI)
    fix k assume "k < length (map2 bcast_dim (pad_left (length ds) ds) (pad_left (length ds) ss))"
    then have "k < length ds" using l by simp
    then show "map2 bcast_dim (pad_left (length ds) ds) (pad_left (length ds) ss) ! k = ds ! k"
      using bcast_ok_nth [OF assms, of k] l by (simp add: bcast_dim_def) metis
  qed (use l in simp)
qed

lemma prod_list_one: "prod_list ds = (1 :: nat) \<longleftrightarrow> (\<forall>d\<in>set ds. d = 1)"
  by (induction ds) auto

lemma bcast_ok_pad:
  assumes "bcast_ok ss ds" shows "bcast_ok (pad_left (length ds) ss) ds"
proof -
  have "length ss \<le> length ds" using assms by (simp add: bcast_ok_def)
  then show ?thesis using bcast_ok_nth [OF assms] unfolding bcast_ok_def by (simp add: list_all2_conv_all_nth)
qed

lemma bcast_ok_compat:
  assumes "bcast_ok ss ds" shows "bcast_compat ds (pad_left (length ds) ss)"
proof -
  have "length ss \<le> length ds" using assms by (simp add: bcast_ok_def)
  then have "length (pad_left (length ds) ss) = length ds" by simp
  then show ?thesis using bcast_ok_nth [OF assms] by (simp add: bcast_compat_same_rank) metis
qed

lemma bcast_ok_ones: "length ss \<le> length ds \<Longrightarrow> (\<forall>d\<in>set ss. d = 1) \<Longrightarrow> bcast_ok ss ds"
  by (simp add: bcast_ok_def list_all2_conv_all_nth)

lemma bcast_ok_tl:
  assumes "bcast_ok ss ds" and "0 < length ds" shows "bcast_ok (tl (pad_left (length ds) ss)) ds"
proof -
  have "length ss \<le> length ds" using assms by (simp add: bcast_ok_def)
  then show ?thesis
    unfolding bcast_ok_def using assms(2) bcast_ok_nth [OF assms(1)] by (auto simp: list_all2_conv_all_nth nth_tl)
qed

text \<open>
  C24: when the PRelu pattern succeeds, the created value represents the broadcast of the kernel's function on the
  input and the slope, for every rank and every way of bringing the slope to the kernel's shape: a slope of rank 3
  or 4 with one value per channel, a slope without batch axis, or one value. The two layout hypotheses exclude what
  the pattern accepts and misreads: an image with a slope of rank 1 or 2 that is not one value, and a slope of rank
  4 (which the conversion permutes) below an input of another rank.
\<close>

theorem lower_prelu_correct:
  assumes sem: "tfl_prelu sem f maxrank" and low: "lower_prelu op = Inr v"
    and x: "conforms (oty (pr_x op)) x" "env 0 = phys (oty (pr_x op)) x" "trank x \<le> maxrank"
    and s: "conforms (oty (pr_slope op)) s" "env 1 = phys (oty (pr_slope op)) s" "i32_dims (tshape s)" "bcast_ok (tshape s) (tshape x)"
    and res: "conforms (pr_result op) (tmap2 f x s)"
    and layout: "trank x = 4 \<longrightarrow> 3 \<le> trank s \<or> prod_list (tshape s) = 1" "trank x \<noteq> 4 \<longrightarrow> trank s \<noteq> 4"
  shows "represents sem env v (pr_result op) (tmap2 f x s)"
proof -
  let ?ty = "pr_result op" and ?cty = "convertRank4NCHWToNHWCType (pr_result op)" and ?X = "phys (oty (pr_x op)) x" and ?n = "trank x"
  have l: "tfl_layout sem" using sem by (rule tfl_prelu.axioms(1))
  have ls: "trank s \<le> ?n" using s(4) by (simp add: bcast_ok_def)
  have sh: "tshape (tmap2 f x s) = tshape x" using bcast_ok_absorb [OF s(4)] by simp
  obtain ie where xt: "oty (pr_x op) = RankedTensor (map int (tshape x)) ie" and wx: "wf_tensor x" using x(1) by (auto simp: conforms_def)
  obtain se where st: "oty (pr_slope op) = RankedTensor (map int (tshape s)) se" and ws: "wf_tensor s" using s(1) by (auto simp: conforms_def)
  obtain re where rt: "?ty = RankedTensor (map int (tshape x)) re" using res sh by (auto simp: conforms_def)
  have F32: "isF32 ie" "isF32 se" "isF32 re"
    using low by (auto simp: lower_prelu_def xt st rt isF32_def split: if_splits elim!: not_failedE)
  have p4: "physical4 (oty (pr_x op)) \<longleftrightarrow> ?n = 4" "physical4 (oty (pr_slope op)) \<longleftrightarrow> trank s = 4" "physical4 ?ty \<longleftrightarrow> ?n = 4"
    using F32 by (simp_all add: xt st rt physical4_def)
  have fin: "represents sem env v ?ty (tmap2 f x s)"
    if v: "v = createTFLOperation ''tfl.prelu'' [?cty] [adaptor 0 (pr_x op), w] [] 0" and w: "eval sem env w = S" "wf_tensor S" "bcast_ok (tshape S) (tshape ?X)"
      and eq: "tmap2 f ?X S = phys ?ty (tmap2 f x s)" for w S
    using tfl_prelu.prelu [OF sem _ w(2,3), of "[?cty]"] convert_conforms [OF res] x(2,3) wx p4 w eq res
    by (simp add: represents_def v)
  show ?thesis
  proof (cases "?n = 4")
    case False
    let ?e = "pad_left ?n (tshape s)"
    obtain w where w: "normalized_slope (map int (tshape x)) (map int (tshape s)) (adaptor 1 (pr_slope op)) = Inr w"
      "v = createTFLOperation ''tfl.prelu'' [?cty] [adaptor 0 (pr_x op), w] [] 0"
      using low False by (auto simp: lower_prelu_def xt st rt getRank_def split: if_splits)
    have r2: "2 \<le> ?n" using w(1) by (auto simp: normalized_slope_def Let_def split: if_splits)
    then have ne0: "?e \<noteq> []" by (metis length_pad_left list.size(3) max.cobounded1 not_numeral_le_zero order_trans)
    then have r: "2 \<le> ?n" "hd ?e = 1" using w(1) r2 ne0 by (auto simp: normalized_slope_def Let_def aligned_shape_map_int hd_map split: if_splits)
    have ne: "?e = 1 # tl ?e" using r ne0 by (cases ?e) auto
    have ev: "eval sem env (adaptor 1 (pr_slope op)) = s" using s(2) False layout(2) p4 by (simp add: phys_def)
    have pr: "prod_list (tl ?e) = prod_list (tshape s)" using prod_list_pad_left [of ?n "tshape s"] by (subst (asm) ne) simp
    have we: "eval sem env w = treshape (tl ?e) s"
    proof (cases "tshape s = tl ?e")
      case True
      then have "w = adaptor 1 (pr_slope op)" using w(1) by (auto simp: normalized_slope_def Let_def aligned_shape_map_int map_tl [symmetric] split: if_splits)
      then show ?thesis using ev True treshape_id [of s] by simp
    next
      case False
      then have "w = emitReshape (RankedTensor (map int (tl ?e)) F32) (map int (tl ?e)) (adaptor 1 (pr_slope op))"
        using w(1) by (auto simp: normalized_slope_def Let_def aligned_shape_map_int map_tl [symmetric] inj_map_eq_map [OF inj_of_nat] split: if_splits)
      moreover have "i32_dims (tl ?e)" using s(3) list.set_sel(2) [OF ne0] unfolding i32_dims_def by (fastforce simp: pad_left_def)
      ultimately show ?thesis using tfl_layout.eval_emitReshape [OF l ws ev _ pr, of _ F32] by simp
    qed
    have "padded ?n (treshape (tl ?e) s) = padded ?n s"
      using ne r(1) ls by (simp add: padded_def pad_left_def [of _ "tl ?e"])
    then have "tmap2 f x (treshape (tl ?e) s) = tmap2 f x s"
      using tmap2_padded_right [of "treshape (tl ?e) s" ?n x f] tmap2_padded_right [of s ?n x f] ls by simp
    moreover have "wf_tensor (treshape (tl ?e) s)" using ws pr by (rule wf_treshape)
    moreover have "bcast_ok (tl ?e) (tshape x)" using r(1) by (intro bcast_ok_tl [OF s(4)]) (cases "tshape x", simp_all)
    ultimately show ?thesis using False p4 by (intro fin [OF w(2) we]) (simp_all add: phys_def)
  next
    case True
    obtain n c h w where xs: "tshape x = [n, c, h, w]" using list4 [OF True] by blast
    let ?W = "ttranspose to_nhwc (padded 4 s)" and ?slope = "adaptor 1 (pr_slope op)"
    have pl: "bcast_ok (pad_left 4 (tshape s)) (tshape x)" using bcast_ok_pad [OF s(4)] True by simp
    have eqW: "tmap2 f ?X ?W = phys ?ty (tmap2 f x s)"
    proof -
      have "bcast_compat (tshape x) (tshape (padded 4 s))" using bcast_ok_compat [OF s(4)] True by simp
      then have "ttranspose to_nhwc (tmap2 f x (padded 4 s)) = tmap2 f (ttranspose to_nhwc x) ?W"
        using True ls by (intro ttranspose_tmap2 [of _ 4]) (simp_all add: is_perm_def to_nhwc_def)
      then show ?thesis using True p4 ls tmap2_padded_right [of s 4 x f] by (simp add: phys_def)
    qed
    have Xs: "tshape ?X = [n, h, w, c]" using True p4 by (simp add: phys_def xs permute_def to_nhwc_def)
    show ?thesis
    proof (cases "3 \<le> trank s")
      case True
      then obtain m where m: "pad_left 4 (tshape s) = [1, m, 1, 1]" "trank s = 3 \<Longrightarrow> tshape s = [m, 1, 1]"
        "v = createTFLOperation ''tfl.prelu'' [?cty] [adaptor 0 (pr_x op), emitReshape (RankedTensor (map int [1, 1, m]) F32) (map int [1, 1, m]) ?slope] [] 0"
        "m \<in> set (tshape s)"
      proof -
        show thesis
        proof (cases "trank s = 3")
          case r3: True
          obtain a b d where "tshape s = [a, b, d]" using list3 [OF r3] by blast
          then show ?thesis
            using low that [of a] \<open>?n = 4\<close> by (auto simp: lower_prelu_def xt st rt getRank_def channel_slope_def pad_left_def Let_def split: if_splits)
        next
          case False
          then have r4: "trank s = 4" using True ls \<open>?n = 4\<close> by simp
          obtain a b d e where "tshape s = [a, b, d, e]" using list4 [OF r4] by blast
          then show ?thesis
            using low that [of b] \<open>?n = 4\<close> by (auto simp: lower_prelu_def xt st rt getRank_def channel_slope_def Let_def split: if_splits)
        qed
      qed
      let ?S = "treshape [1, 1, m] (phys (oty (pr_slope op)) s)"
      have pm: "prod_list (tshape s) = m" using arg_cong [OF m(1), of prod_list] by simp
      have wS: "wf_tensor (phys (oty (pr_slope op)) s)" "prod_list [1, 1, m] = prod_list (tshape (phys (oty (pr_slope op)) s))"
      proof -
        show "wf_tensor (phys (oty (pr_slope op)) s)" using ws by simp
        have "tshape s = [1, m, 1, 1]" if "trank s = 4" using m(1) that by simp
        then show "prod_list [1, 1, m] = prod_list (tshape (phys (oty (pr_slope op)) s))"
          using pm p4(2) by (cases "trank s = 4") (simp_all add: phys_def to_nhwc_def permute_def)
      qed
      have W: "padded 4 ?S = ?W"
      proof (cases "trank s = 3")
        case r3: True
        have "ttranspose to_nhwc (padded 4 s) = treshape [1, 1, 1, m] s"
          using ws m(1,2) r3 pm by (intro nhwc_eqI [of _ _ 1 m 1 1]) (auto simp: tnth_def padded_def treshape_def pad_left_def wf_tensor_def)
        then show ?thesis using r3 p4(2) by (simp add: phys_def padded_def pad_left_def)
      next
        case False
        then have r4: "trank s = 4" using True ls \<open>?n = 4\<close> by simp
        then have "tshape (ttranspose to_nhwc s) = [1, 1, 1, m]" using m(1) by (simp add: permute_def to_nhwc_def)
        then have "treshape [1, 1, 1, m] (ttranspose to_nhwc s) = ttranspose to_nhwc s" by (metis treshape_id)
        then show ?thesis using r4 p4(2) by (simp add: phys_def padded_def [of 4 "treshape _ _"] pad_left_def)
      qed
      have i32m: "i32_dims [1, 1, m]" using s(3) m(4) by (simp add: i32_dims_def)
      have "eval sem env (emitReshape (RankedTensor (map int [1, 1, m]) F32) (map int [1, 1, m]) ?slope) = ?S"
        using s(2) wS i32m by (intro tfl_layout.eval_emitReshape [OF l wS(1)]) simp_all
      moreover have "tmap2 f ?X ?S = phys ?ty (tmap2 f x s)"
        using eqW tmap2_padded_right [of ?S 4 ?X f] Xs W by simp
      moreover have "wf_tensor ?S" using wS by (rule wf_treshape)
      moreover have "bcast_ok (tshape ?S) (tshape ?X)" using pl by (simp add: Xs m(1) xs bcast_ok_def)
      ultimately show ?thesis using fin [OF m(3)] by blast
    next
      case False
      then have ones: "\<forall>d\<in>set (tshape s). d = 1" "trank s \<le> 2" using layout(1) \<open>?n = 4\<close> prod_list_one [of "tshape s"] by simp_all
      then have p1: "pad_left 4 (tshape s) = [1, 1, 1, 1]"
      proof -
        have "tshape s = replicate (trank s) 1" using replicate_length_same [of "tshape s" 1] ones(1) by simp
        then have "pad_left 4 (tshape s) = replicate (4 - trank s + trank s) 1" unfolding pad_left_def replicate_add by simp
        then show ?thesis using ones(2) by (simp add: numeral_eq_Suc)
      qed
      have "v = createTFLOperation ''tfl.prelu'' [?cty] [adaptor 0 (pr_x op), ?slope] [] 0"
        using low ones(2) \<open>?n = 4\<close> by (auto simp: lower_prelu_def xt st rt getRank_def Let_def split: if_splits)
      moreover have "eval sem env ?slope = s" using s(2) ones(2) p4(2) by (simp add: phys_def)
      moreover have "?W = padded 4 s"
        using ws p1 by (intro nhwc_eqI [of _ _ 1 1 1 1]) (simp_all add: permute_def)
      then have "tmap2 f ?X s = phys ?ty (tmap2 f x s)" using eqW tmap2_padded_right [of s 4 ?X f] Xs ones(2) by simp
      moreover have "bcast_ok (tshape s) (tshape ?X)" using ones Xs by (intro bcast_ok_ones) simp_all
      ultimately show ?thesis using fin ws by blast
    qed
  qed
qed

section \<open>Witnesses\<close>

interpretation reference_logical_and: tfl_binary reference_sem "''tfl.logical_and''" "[]" ref_and 4
  by unfold_locales (simp add: reference_defs)

interpretation reference_prelu: tfl_prelu reference_sem ref_prelu 5
  by unfold_locales (simp add: reference_defs)

definition and_example :: "int binary_op" where
  "and_example = \<lparr>bin_lhs = \<lparr>oty = RankedTensor [1, 1, 2, 1, 2] I1, oattr = None\<rparr>, bin_rhs = \<lparr>oty = RankedTensor [2, 1] I1, oattr = None\<rparr>,
     bin_result = RankedTensor [1, 1, 2, 2, 2] I1\<rparr>"

theorem lower_logical_correct_witness:
  "\<exists>v. lower_logical ''tfl.logical_and'' and_example = Inr v \<and>
     represents reference_sem (\<lambda>i. if i = 0 then Tensor [1, 1, 2, 1, 2] (map BV [True, False, True, True]) else Tensor [2, 1] (map BV [True, False])) v
       (bin_result and_example) (tmap2 ref_and (Tensor [1, 1, 2, 1, 2] (map BV [True, False, True, True])) (Tensor [2, 1] (map BV [True, False])))"
proof -
  have "\<not> failed (lower_logical ''tfl.logical_and'' and_example)" by code_simp
  then obtain v where low: "lower_logical ''tfl.logical_and'' and_example = Inr v" by (rule not_failedE)
  let ?t = "Tensor [1, 1, 2, 1, 2] (map BV [True, False, True, True]) :: int scalar tensor" and ?u = "Tensor [2, 1] (map BV [True, False]) :: int scalar tensor"
  have w: "wf_tensor ?t" "wf_tensor ?u" by (simp_all add: wf_tensor_def)
  have sh: "tshape (tmap2 ref_and ?t ?u) = [1, 1, 2, 2, 2]" by (simp add: bcast_shape_def bcast_dim_def pad_left_def)
  show ?thesis
    using low lower_logical_correct [OF reference_logical_and.tfl_binary_axioms reference_broadcast.tfl_broadcast_axioms low,
        of ?t "\<lambda>i. if i = 0 then ?t else ?u" ?u] sh w
    by (simp add: and_example_def conforms_Ranked phys_def physical4_def i32_count_def i32_dims_def)
qed

definition mean_example :: "int variadic_op" where
  "mean_example = \<lparr>var_operands = [f32_operand [1, 2, 2, 3], f32_operand [1, 2, 2, 3]], var_result = RankedTensor [1, 2, 2, 3] F32\<rparr>"

theorem lower_mean_correct_witness:
  "\<exists>v. lower_mean floor mean_example = Inr v \<and>
     represents reference_sem (\<lambda>_. ttranspose to_nhwc nchw_example) v (var_result mean_example)
       (tmap (\<lambda>s. ref_arith (div) s (FV (floor (of_nat (length [nchw_example, nchw_example]) :: rat))))
         (foldl (tmap2 (ref_arith (+))) (hd [nchw_example, nchw_example]) (tl [nchw_example, nchw_example])))"
proof -
  have "\<not> failed (lower_mean (floor :: rat \<Rightarrow> int) mean_example)" by code_simp
  then obtain v where low: "lower_mean (floor :: rat \<Rightarrow> int) mean_example = Inr v" by (rule not_failedE)
  have "represents reference_sem (\<lambda>_. ttranspose to_nhwc nchw_example) v (var_result mean_example)
       (tmap (\<lambda>s. ref_arith (div) s (FV (floor (of_nat (length [nchw_example, nchw_example]) :: rat))))
         (foldl (tmap2 (ref_arith (+))) (hd [nchw_example, nchw_example]) (tl [nchw_example, nchw_example])))"
    by (rule lower_mean_correct [OF reference_arith.tfl_arith_axioms low])
      (auto simp: operands_represent_def mean_example_def example_simps less_Suc_eq)
  with low show ?thesis by blast
qed

definition prelu_example :: "int prelu_op" where
  "prelu_example = \<lparr>pr_x = f32_operand [1, 2, 2, 3], pr_slope = f32_operand [2, 1, 1], pr_result = RankedTensor [1, 2, 2, 3] F32\<rparr>"

definition signed_example :: "int scalar tensor" where
  "signed_example = Tensor [1, 2, 2, 3] (map FV [- 6..5])"

definition slope_example :: "int scalar tensor" where
  "slope_example = Tensor [2, 1, 1] [FV 3, FV 4]"

theorem lower_prelu_correct_witness:
  "\<exists>v. lower_prelu prelu_example = Inr v \<and>
     represents reference_sem (\<lambda>i. if i = 0 then ttranspose to_nhwc signed_example else slope_example) v
       (pr_result prelu_example) (tmap2 ref_prelu signed_example slope_example)"
proof -
  have "\<not> failed (lower_prelu prelu_example)" by code_simp
  then obtain v where low: "lower_prelu prelu_example = Inr v" by (rule not_failedE)
  have w: "wf_tensor slope_example" "wf_tensor signed_example" "tshape signed_example = [1, 2, 2, 3]" "tshape slope_example = [2, 1, 1]"
    by (simp_all add: wf_tensor_def signed_example_def slope_example_def upto.simps)
  have b: "bcast_ok (tshape slope_example) [1, 2, 2, 3]" using w by (simp add: bcast_ok_def)
  have sh: "tshape (tmap2 ref_prelu signed_example slope_example) = [1, 2, 2, 3]" using bcast_ok_absorb [OF b] w(3) by simp
  have t: "oty (pr_x prelu_example) = RankedTensor [1, 2, 2, 3] F32" "oty (pr_slope prelu_example) = RankedTensor [2, 1, 1] F32"
    "pr_result prelu_example = RankedTensor [1, 2, 2, 3] F32"
    by (simp_all add: prelu_example_def f32_operand_def)
  show ?thesis
    using low lower_prelu_correct [OF reference_prelu.tfl_prelu_axioms low, of signed_example
        "\<lambda>i. if i = 0 then ttranspose to_nhwc signed_example else slope_example" slope_example] sh w b
    by (simp add: t conforms_Ranked phys_def physical4_def isF32_def i32_dims_def)
qed

text \<open>
  Where the layouts differ. A slope with one axis runs over the columns of an image in ONNX and over its channels
  after the conversion; the operands of Mean are not adapted either.
\<close>

definition row_prelu :: "int prelu_op" where
  "row_prelu = \<lparr>pr_x = f32_operand [1, 2, 1, 2], pr_slope = f32_operand [2], pr_result = RankedTensor [1, 2, 1, 2] F32\<rparr>"

definition image_example :: "int scalar tensor" where
  "image_example = Tensor [1, 2, 1, 2] (map FV [- 1, - 1, - 1, - 1])"

lemma row_prelu_misread:
  "(case lower_prelu row_prelu of
      Inr v \<Rightarrow> tdata (eval reference_sem (\<lambda>i. if i = 0 then ttranspose to_nhwc image_example else Tensor [2] (map FV [2, 3])) v)
    | Inl _ \<Rightarrow> []) = map FV [- 2, - 3, - 2, - 3]"
  and row_prelu_expected:
  "tdata (ttranspose to_nhwc (tmap2 ref_prelu image_example (Tensor [2] (map FV [2, 3])))) = map FV [- 2, - 2, - 3, - 3]"
  by code_simp+

definition row_mean :: "int variadic_op" where
  "row_mean = \<lparr>var_operands = [f32_operand [1, 2, 1, 2], f32_operand [2]], var_result = RankedTensor [1, 2, 1, 2] F32\<rparr>"

lemma row_mean_misread:
  "(case lower_mean floor row_mean of
      Inr v \<Rightarrow> tdata (eval reference_sem (\<lambda>i. if i = 0 then ttranspose to_nhwc image_example else Tensor [2] (map FV [1, 3])) v)
    | Inl _ \<Rightarrow> []) = map FV [0, 1, 0, 1]"
  and row_mean_expected:
  "tdata (ttranspose to_nhwc (tmap (\<lambda>s. ref_arith (div) s (FV 2)) (tmap2 (ref_arith (+)) image_example (Tensor [2] (map FV [1, 3]))))) = map FV [0, 0, 1, 1]"
  by code_simp+

end
