(* ===== verification/Static_Windows.thy ===== *)
theory Static_Windows
  imports Lower_Pool Coordinates
begin

text \<open>
  Poolings that TensorFlow Lite has no kernel for are unrolled at compile time: one slice per output position, a
  reduction of each slice to a cell, and concatenations that assemble the cells. \<^verbatim>\<open>NN/AveragePool.cpp\<close> and
  \<^verbatim>\<open>NN/LpPool.cpp\<close> have this code in common. The first part is about tensors, the second models the code,
  the third shows that what is assembled is the pooling.
\<close>

section \<open>Cells of a tensor and their assembly\<close>

definition slice_at :: "nat \<Rightarrow> nat \<Rightarrow> 'a tensor \<Rightarrow> 'a tensor" where
  "slice_at a j t = tgen ((tshape t)[a := 1]) (\<lambda>is. tnth t (is[a := j]))"

definition tpick :: "(nat \<times> nat) list \<Rightarrow> 'a tensor \<Rightarrow> 'a tensor" where
  "tpick ps t = foldl (\<lambda>u (a, j). slice_at a j u) t ps"

definition pick_shape :: "nat list \<Rightarrow> nat list \<Rightarrow> nat list" where
  "pick_shape as ds = foldl (\<lambda>s a. s[a := 1]) ds as"

lemma slice_at_simps [simp]: "tshape (slice_at a j t) = (tshape t)[a := 1]" "wf_tensor (slice_at a j t)"
  by (simp_all add: slice_at_def)

lemma tpick_simps [simp]: "tpick [] t = t" "tpick (ps @ [(a, j)]) t = slice_at a j (tpick ps t)"
  by (simp_all add: tpick_def)

lemma tpick_wf [simp]: "wf_tensor t \<Longrightarrow> wf_tensor (tpick ps t)"
  by (induction ps rule: rev_induct) auto

lemma pick_shape_simps [simp]: "pick_shape [] ds = ds" "pick_shape (as @ [a]) ds = (pick_shape as ds)[a := 1]"
  by (simp_all add: pick_shape_def)

lemma length_pick_shape [simp]: "length (pick_shape as ds) = length ds"
  by (induction as rule: rev_induct) auto

lemma tshape_tpick [simp]: "tshape (tpick ps t) = pick_shape (map fst ps) (tshape t)"
  by (induction ps rule: rev_induct) auto

lemma nth_pick_shape [simp]: "a \<notin> set as \<Longrightarrow> pick_shape as ds ! a = ds ! a"
  by (induction as rule: rev_induct) auto

lemma slice_at_whole:
  assumes "wf_tensor t" and "a < trank t" "tshape t ! a = 1" shows "slice_at a 0 t = t"
proof (rule tensor_eqI)
  show s: "tshape (slice_at a 0 t) = tshape t" using assms by (simp add: list_update_same_conv)
  fix "is" assume "valid_ix (tshape t) is"
  then have v: "valid_ix (tshape (slice_at a 0 t)) is" "is ! a < 1" "a < length is"
    using assms valid_ix_nth [of "tshape t" "is" a] s by (auto dest: valid_ix_length)
  then have "is[a := 0] = is" by (simp add: list_update_same_conv)
  then show "tnth (slice_at a 0 t) is = tnth t is" using v(1) by (simp add: slice_at_def)
qed (use assms in simp_all)

text \<open>Concatenating the slices of a tensor along an axis gives the tensor.\<close>

lemma tconcat_slices:
  assumes t: "wf_tensor t" "a < trank t" "tshape t ! a = n" and n: "0 < n"
  shows "tconcat a (map (\<lambda>j. slice_at a j t) [0..<n]) = t" and "concatable a (map (\<lambda>j. slice_at a j t) [0..<n])"
proof -
  let ?ts = "map (\<lambda>j. slice_at a j t) [0..<n]"
  have hd: "hd ?ts = slice_at a 0 t" using n by (simp add: upt_conv_Cons)
  have sz: "map (\<lambda>t. tshape t ! a) ?ts = replicate n (Suc 0)" using t by (intro nth_equalityI) simp_all
  show "tconcat a ?ts = t"
  proof (rule tensor_eqI)
    have "tshape (tconcat a ?ts) = (tshape t)[a := n]" unfolding tshape_tconcat sz hd by (simp add: sum_list_replicate)
    then show sh: "tshape (tconcat a ?ts) = tshape t" using t by (simp add: list_update_same_conv)
    fix "is" assume v: "valid_ix (tshape t) is"
    have i: "is ! a < n" "a < length is" using valid_ix_nth [OF v t(2)] valid_ix_length [OF v] t by simp_all
    have "tnth (tconcat a ?ts) is = tnth (?ts ! (is ! a)) (is[a := 0])"
      using v sh i(1) unfolding sz [symmetric] by (intro tnth_tconcat) (simp_all only: sz locate_ones)
    also have "\<dots> = tnth t (is[a := 0, a := is ! a])"
      using v i t valid_ix_length [OF v] by (simp add: slice_at_def valid_ix_def list_all2_update_cong)
    finally show "tnth (tconcat a ?ts) is = tnth t is" by simp
  qed (use t in simp_all)
  show "concatable a ?ts"
    unfolding concatable_def hd using n t by (auto intro!: exI [where x = 1])
qed

lemma tnth_tpick:
  assumes "wf_tensor t" and "distinct (map fst ps)" "\<forall>(a, j)\<in>set ps. a < trank t \<and> j < tshape t ! a"
    and "valid_ix (pick_shape (map fst ps) (tshape t)) is"
  shows "tnth (tpick ps t) is = tnth t (foldr (\<lambda>(a, j) is. is[a := j]) ps is)"
  using assms(2-)
proof (induction ps arbitrary: "is" rule: rev_induct)
  case (snoc p ps)
  obtain a j where p: "p = (a, j)" by (cases p) auto
  let ?s = "pick_shape (map fst ps) (tshape t)"
  have v: "valid_ix (?s[a := 1]) is" using snoc.prems by (simp add: p)
  have a: "a < trank t" "j < ?s ! a" using snoc.prems by (auto simp: p)
  have "valid_ix ?s (is[a := j])"
  proof (rule valid_ixI)
    fix k assume k: "k < length ?s"
    then show "is[a := j] ! k < ?s ! k"
      using a valid_ix_nth [OF v, of k] valid_ix_length [OF v] by (cases "k = a") simp_all
  qed (use valid_ix_length [OF v] in simp)
  then have "tnth (tpick ps t) (is[a := j]) = tnth t (foldr (\<lambda>(a, j) is. is[a := j]) ps (is[a := j]))"
    using snoc by auto
  then show ?case using v by (simp add: p slice_at_def)
qed simp

text \<open>The picked axes are neighbours.\<close>

lemma update_append_nth: "length xs = n \<Longrightarrow> (xs @ y # ys)[n := z] = xs @ z # ys"
  by (simp add: list_update_append)

lemma foldr_updates:
  "np + length js \<le> length is \<Longrightarrow> foldr (\<lambda>(a, j) is. is[a := j]) (zip [np..<np + length js] js) is = take np is @ js @ drop (np + length js) is"
proof (induction js arbitrary: np)
  case (Cons j js)
  have u: "[np..<np + length (j # js)] = np # [Suc np..<Suc np + length js]" by (simp add: upt_rec)
  have "take (Suc np) is = take np is @ [is ! np]" using Cons.prems by (simp add: take_Suc_conv_app_nth)
  then show ?case
    unfolding u using Cons.IH [of "Suc np"] Cons.prems by (simp add: list_update_append)
qed simp

lemma foldl_updates:
  "np + m \<le> length xs \<Longrightarrow> foldl (\<lambda>l i. l[np + i := f i]) xs [0..<m] = take np xs @ map f [0..<m] @ drop (np + m) xs"
proof (induction m)
  case (Suc m)
  have "drop (np + m) xs = xs ! (np + m) # drop (np + Suc m) xs" using Suc.prems by (simp add: Cons_nth_drop_Suc)
  then show ?case using Suc by (simp add: list_update_append nth_append)
qed simp

lemma pick_shape_interval:
  "np + m \<le> length ds \<Longrightarrow> pick_shape [np..<np + m] ds = take np ds @ replicate m 1 @ drop (np + m) ds"
proof (induction m)
  case (Suc m)
  have "drop (np + m) ds = ds ! (np + m) # drop (np + Suc m) ds" using Suc.prems by (simp add: Cons_nth_drop_Suc)
  then show ?case using Suc by (simp add: list_update_append replicate_append_same [symmetric])
qed simp

section \<open>Definitions\<close>

definition getPhysicalAxis :: "int \<Rightarrow> int \<Rightarrow> int" where
  "getPhysicalAxis rank logicalAxis = (if rank = 4 then mapNCHWAxisToNHWC logicalAxis else logicalAxis)"

text \<open>\<^verbatim>\<open>shape[getPhysicalAxis(rank, 2 + i)] = values[i]\<close> for every spatial axis.\<close>

definition put_spatial :: "int \<Rightarrow> int list \<Rightarrow> int list \<Rightarrow> int list" where
  "put_spatial rank base values =
     foldl (\<lambda>shape i. shape[nat (getPhysicalAxis rank (2 + int i)) := values ! i]) base [0..<length values]"

text \<open>The part of a window that lies in the input: where it begins, its extents, and how many elements it has.\<close>

definition window_bounds :: "int list \<Rightarrow> int list \<Rightarrow> int list \<Rightarrow> int list \<Rightarrow> int list \<Rightarrow> (int \<times> int) list" where
  "window_bounds inShape ksize strides pads outputIndices =
     map (\<lambda>i. let inputDim = inShape ! (2 + i); start = outputIndices ! i * strides ! i - pads ! i; stop = start + ksize ! i;
              validStart = clamp start 0 inputDim; validStop = clamp stop 0 inputDim in
            (validStart, max (validStop - validStart) 0)) [0..<length outputIndices]"

definition window_box :: "int \<Rightarrow> int list \<Rightarrow> int list \<Rightarrow> int list \<Rightarrow> int list \<Rightarrow> int list \<Rightarrow> int list \<Rightarrow> (int list \<times> int list \<times> int) result" where
  "window_box rank inShape physicalShape ksize strides pads outputIndices =
     (let bounds = window_bounds inShape ksize strides pads outputIndices in
      if \<exists>b\<in>set bounds. snd b = 0 then Inl EmptyOperands
      else Inr (put_spatial rank (replicate (nat rank) 0) (map fst bounds), put_spatial rank physicalShape (map snd bounds), prod_list (map snd bounds)))"

definition emit_window :: "'f val \<Rightarrow> int list \<Rightarrow> int list \<Rightarrow> 'f val" where
  "emit_window input begin extents =
     createTFLOperation ''tfl.slice'' [RankedTensor extents F32] [input, createI32ShapeConstant begin, createI32ShapeConstant extents] [] 0"

fun all_results :: "'a result list \<Rightarrow> 'a list result" where
  "all_results [] = Inr []"
| "all_results (r # rs) = bind_result r (\<lambda>x. bind_result (all_results rs) (\<lambda>xs. Inr (x # xs)))"

text \<open>The cells are assembled along the last axis first.\<close>

function chunks :: "nat \<Rightarrow> 'a list \<Rightarrow> 'a list list" where
  "chunks extent pieces = (if extent = 0 \<or> pieces = [] then [] else take extent pieces # chunks extent (drop extent pieces))"
  by auto
termination by (relation "measure (\<lambda>(extent, pieces). length pieces)") auto

declare chunks.simps [simp del]

fun assemble :: "(int \<times> int) list \<Rightarrow> int list \<Rightarrow> 'f val list \<Rightarrow> 'f val list \<times> int list" where
  "assemble [] pieceShape pieces = (pieces, pieceShape)"
| "assemble ((physicalAxis, extent) # axes) pieceShape pieces =
     (let nextShape = pieceShape[nat physicalAxis := extent];
          nextPieces = map (\<lambda>part. if extent = 1 then hd part
            else createTFLOperation ''tfl.concatenation'' [RankedTensor nextShape F32] part
              [(''axis'', IntAttr (i32 physicalAxis)), getFusedActivationNone] 0) (chunks (nat extent) pieces) in
      assemble axes nextShape nextPieces)"

text \<open>
  \<open>cell\<close> creates the operations that turn a slice into a cell, from the type of the cell, the slice, the axes to reduce
  and the number of elements of the slice along them.
\<close>

definition static_windows ::
  "int list \<Rightarrow> int list \<Rightarrow> int list \<Rightarrow> int list \<Rightarrow> int list \<Rightarrow> int list \<Rightarrow> int list \<Rightarrow>
   'f val \<Rightarrow> (mtype \<Rightarrow> 'f val \<Rightarrow> int list \<Rightarrow> int \<Rightarrow> 'f val) \<Rightarrow> 'f val result" where
  "static_windows inShape physicalInShape physicalOutShape outputSpatialShape ksize strides pads input cell =
     (let rank = getRank inShape; windowCount = prod_list outputSpatialShape;
          reductionAxes = map (\<lambda>i. getPhysicalAxis rank (2 + i)) [0..rank - 3];
          cellShape = put_spatial rank physicalOutShape (replicate (nat (rank - 2)) 1);
          window = (\<lambda>flatIndex.
            bind_result (window_box rank inShape physicalInShape ksize strides pads (output_position outputSpatialShape flatIndex))
              (\<lambda>(begin, extents, validElementCount).
                Inr (cell (RankedTensor cellShape F32) (emit_window input begin extents) reductionAxes validElementCount))) in
      bind_result (all_results (map window [0..windowCount - 1])) (\<lambda>cells.
        case assemble (rev (zip reductionAxes outputSpatialShape)) cellShape cells of
          (pieces, pieceShape) \<Rightarrow> if length pieces \<noteq> 1 \<or> pieceShape \<noteq> physicalOutShape then Inl ShapeMismatch else Inr (hd pieces)))"

section \<open>Assembly\<close>

lemma chunks_concat: "0 < n \<Longrightarrow> \<forall>xs\<in>set xss. length xs = n \<Longrightarrow> chunks n (concat xss) = xss"
proof (induction xss)
  case (Cons xs xss)
  then have "xs \<noteq> []" by auto
  with Cons show ?case by (subst chunks.simps) simp
qed (simp add: chunks.simps)

lemma all_ix_snoc: "all_ix (ds @ [d]) = concat (map (\<lambda>js. map (\<lambda>j. js @ [j]) [0..<d]) (all_ix ds))"
proof (induction ds)
  case Nil
  have "all_ix [d] = map (\<lambda>i. [i]) [0..<d]" unfolding all_ix_Cons by (induction d) simp_all
  then show ?case by simp
next
  case (Cons e ds)
  then show ?case by (simp add: all_ix_Cons map_concat concat_concat_eq comp_def)
qed

context tfl_assembly
begin

lemma eval_assemble:
  assumes T: "wf_tensor T" and ao: "distinct (map fst ao)" "\<forall>(a, n)\<in>set ao. a < trank T \<and> tshape T ! a = n \<and> 0 < n \<and> a < 2 ^ 31"
    and ps: "map (eval sem env) pieces = map (\<lambda>js. tpick (zip (map fst ao) js) T) (all_ix (map snd ao))"
    and ty: "\<forall>v\<in>set pieces. vtype v = RankedTensor (map int (pick_shape (map fst ao) (tshape T))) F32"
  shows "\<exists>v. assemble (rev (map (\<lambda>(a, n). (int a, int n)) ao)) (map int (pick_shape (map fst ao) (tshape T))) pieces = ([v], map int (tshape T)) \<and>
    eval sem env v = T \<and> vtype v = RankedTensor (map int (tshape T)) F32"
  using ao ps ty
proof (induction ao arbitrary: pieces rule: rev_induct)
  case Nil
  then show ?case by (cases pieces) auto
next
  case (snoc p ao)
  obtain a n where p: "p = (a, n)" by (cases p) auto
  let ?as = "map fst ao" and ?os = "map snd ao" and ?next = "map int (pick_shape (map fst ao) (tshape T))"
  have a: "a < trank T" "tshape T ! a = n" "0 < n" "a < 2 ^ 31" "a \<notin> set ?as" using snoc.prems by (auto simp: p)
  let ?X = "\<lambda>js. tpick (zip ?as js) T"
  have X: "wf_tensor (?X js)" "tshape (?X js) = pick_shape ?as (tshape T)" "tshape (?X js) ! a = n" if "js \<in> set (all_ix ?os)" for js
  proof -
    have "length js = length ?as" using that by (auto simp: set_all_ix dest: valid_ix_length)
    then show "wf_tensor (?X js)" "tshape (?X js) = pick_shape ?as (tshape T)" "tshape (?X js) ! a = n" using T a by simp_all
  qed
  have pc: "zip (map fst (ao @ [p])) (js @ [j]) = zip ?as js @ [(a, j)]" if "js \<in> set (all_ix ?os)" for js j
    using that by (auto simp: p set_all_ix dest: valid_ix_length)
  have E: "map (eval sem env) pieces = concat (map (\<lambda>js. map (\<lambda>j. slice_at a j (?X js)) [0..<n]) (all_ix ?os))"
    unfolding snoc.prems(3) by (simp add: p all_ix_snoc map_concat comp_def) (intro arg_cong [where f = concat] map_cong refl; use pc in \<open>simp add: p\<close>)
  let ?ch = "chunks n pieces"
  have ch: "map (map (eval sem env)) ?ch = map (\<lambda>js. map (\<lambda>j. slice_at a j (?X js)) [0..<n]) (all_ix ?os)"
  proof -
    have m: "map (map f) (chunks n xs) = chunks n (map f xs)" for f :: "'f val \<Rightarrow> 'f scalar tensor" and xs
      by (induction n xs rule: chunks.induct) (subst (1 2) chunks.simps, simp add: take_map drop_map)
    show ?thesis unfolding m E using a(3) by (intro chunks_concat) auto
  qed
  have sub: "set (concat (chunks n xs)) \<subseteq> set xs" for xs :: "'f val list"
    by (induction n xs rule: chunks.induct) (subst chunks.simps, auto dest: in_set_takeD in_set_dropD)
  let ?f = "\<lambda>part. if int n = 1 then hd part
     else createTFLOperation ''tfl.concatenation'' [RankedTensor ?next F32] part [(''axis'', IntAttr (i32 (int a))), getFusedActivationNone] 0"
  have nx: "(map int (pick_shape (map fst (ao @ [p])) (tshape T)))[nat (int a) := int n] = ?next"
    using a by (simp add: p map_update [symmetric] list_update_same_conv)
  have step: "eval sem env (?f part) = ?X js \<and> vtype (?f part) = RankedTensor ?next F32"
    if e: "map (eval sem env) part = map (\<lambda>j. slice_at a j (?X js)) [0..<n]" and sp: "set part \<subseteq> set pieces" and js: "js \<in> set (all_ix ?os)" for part js
  proof (cases "n = 1")
    case True
    then obtain u where u: "part = [u]" using arg_cong [OF e, of length] by (cases part) auto
    have "eval sem env u = ?X js" using e u True slice_at_whole [OF X(1) [OF js]] X(2,3) [OF js] a by simp
    moreover have "vtype u = RankedTensor ?next F32"
    proof -
      have "(pick_shape ?as (tshape T))[a := Suc 0] = pick_shape ?as (tshape T)" using a True by (simp add: list_update_same_conv)
      then show ?thesis using snoc.prems(4) sp u by (simp add: p)
    qed
    ultimately show ?thesis using True u by simp
  next
    case False
    have c: "conforms (RankedTensor ?next F32) (?X js)" using X [OF js] by (simp add: conforms_Ranked)
    have tr: "a < trank (?X js)" using X(2) [OF js] a by simp
    have "i32 (int a) = int a" using a(4) by (simp add: i32_id fits_i32_def)
    then have "eval sem env (?f part) = ?X js"
      using False concatenation [of a "map (\<lambda>j. slice_at a j (?X js)) [0..<n]" "[RankedTensor ?next F32]"] c e
        tconcat_slices [OF X(1) [OF js] tr X(3) [OF js] a(3)] by simp
    then show ?thesis using False by simp
  qed
  have len: "length ?ch = length (all_ix ?os)" using arg_cong [OF ch, of length] by simp
  have st: "eval sem env (?f (?ch ! k)) = ?X (all_ix ?os ! k) \<and> vtype (?f (?ch ! k)) = RankedTensor ?next F32" if k: "k < length ?ch" for k
  proof (rule step)
    show "map (eval sem env) (?ch ! k) = map (\<lambda>j. slice_at a j (?X (all_ix ?os ! k))) [0..<n]"
      using arg_cong [OF ch, of "\<lambda>xs. xs ! k"] k len by simp
    show "set (?ch ! k) \<subseteq> set pieces" using sub [of pieces] nth_mem [OF k] by auto
    show "all_ix ?os ! k \<in> set (all_ix ?os)" using k len by (metis nth_mem)
  qed
  have "map (eval sem env) (map ?f ?ch) = map ?X (all_ix ?os)" using st len by (intro nth_equalityI) (simp_all del: nth_all_ix)
  moreover have "\<forall>v\<in>set (map ?f ?ch). vtype v = RankedTensor ?next F32" using st by (auto simp: in_set_conv_nth)
  ultimately have "\<exists>v. assemble (rev (map (\<lambda>(a, n). (int a, int n)) ao)) ?next (map ?f ?ch) = ([v], map int (tshape T)) \<and>
      eval sem env v = T \<and> vtype v = RankedTensor (map int (tshape T)) F32"
    using snoc.prems by (intro snoc.IH) auto
  moreover have "assemble (rev (map (\<lambda>(a, n). (int a, int n)) (ao @ [p]))) (map int (pick_shape (map fst (ao @ [p])) (tshape T))) pieces =
      assemble (rev (map (\<lambda>(a, n). (int a, int n)) ao)) ?next (map ?f ?ch)"
    using nx by (simp add: p Let_def)
  ultimately show ?case by simp
qed

end

section \<open>Windows as boxes\<close>

lemma foldl_cong2: "(\<And>i x. i \<in> set is \<Longrightarrow> f x i = g x i) \<Longrightarrow> foldl f x is = foldl g x is"
  by (induction "is" arbitrary: x) auto

definition spatial_start :: "nat \<Rightarrow> nat" where
  "spatial_start rank = (if rank = 4 then 1 else 2)"

lemma getPhysicalAxis_spatial:
  "i + 2 < rank \<Longrightarrow> getPhysicalAxis (int rank) (2 + int i) = int (spatial_start rank + i)"
  by (auto simp: getPhysicalAxis_def spatial_start_def mapNCHWAxisToNHWC_def numeral_eq_Suc less_Suc_eq)

lemma put_spatial_eq:
  assumes "length base = n" "length values + 2 = n"
  shows "put_spatial (int n) base values =
    take (spatial_start n) base @ values @ drop (spatial_start n + length values) base"
proof -
  have "put_spatial (int n) base values = foldl (\<lambda>l i. l[spatial_start n + i := values ! i]) base [0..<length values]"
    unfolding put_spatial_def using assms by (intro foldl_cong2) (simp add: getPhysicalAxis_spatial nat_int_add)
  also have "\<dots> = take (spatial_start n) base @ map ((!) values) [0..<length values] @ drop (spatial_start n + length values) base"
    using assms by (intro foldl_updates) (simp add: spatial_start_def)
  finally show ?thesis by (simp add: map_nth)
qed

lemma int_box:
  "int (box_start d s p i) = clamp (int i * int s - int p) 0 (int d)"
  "int (box_size d k s p i) = max (clamp (int i * int s - int p + int k) 0 (int d) - clamp (int i * int s - int p) 0 (int d)) 0"
proof -
  have "int (i * s + k) - int p = int i * int s - int p + int k" by simp
  then show "int (box_start d s p i) = clamp (int i * int s - int p) 0 (int d)"
    "int (box_size d k s p i) = max (clamp (int i * int s - int p + int k) 0 (int d) - clamp (int i * int s - int p) 0 (int d)) 0"
    unfolding box_size_def box_start_def of_nat_mult [symmetric] by (auto simp: of_nat_diff min_def max_def clamp_def)
qed

lemma window_bounds_eq:
  assumes "length os = length ds" "length ks = length ds" "length ss = length ds" "length ds \<le> length ps" "drop 2 is = ds"
  shows "window_bounds (map int is) (map int ks) (map int ss) (map int ps) (map int os) =
    zip (map int (box_starts ds ss ps os)) (map int (box_sizes ds ks ss ps os))"
proof (rule nth_equalityI)
  fix i assume "i < length (window_bounds (map int is) (map int ks) (map int ss) (map int ps) (map int os))"
  then have i: "i < length ds" using assms(1) by (simp add: window_bounds_def)
  have d: "2 + i < length is" "is ! (2 + i) = ds ! i" using assms(5) i by auto
  show "window_bounds (map int is) (map int ks) (map int ss) (map int ps) (map int os) ! i =
      zip (map int (box_starts ds ss ps os)) (map int (box_sizes ds ks ss ps os)) ! i"
    using i d assms by (simp add: window_bounds_def Let_def box_starts_def box_sizes_def int_box)
qed (use assms in \<open>simp add: window_bounds_def\<close>)

lemma all_results_Inr:
  "all_results (map f xs) = Inr ys \<longleftrightarrow> length ys = length xs \<and> (\<forall>k<length xs. f (xs ! k) = Inr (ys ! k))"
proof (induction xs arbitrary: ys)
  case (Cons x xs)
  then show ?case by (cases ys) (auto simp: All_less_Suc2)
qed auto

section \<open>A cell is the reduction of a slice\<close>

definition spatial_mask :: "nat \<Rightarrow> nat \<Rightarrow> nat \<Rightarrow> bool list" where
  "spatial_mask np n m = replicate np False @ replicate n True @ replicate m False"

lemma merge_spatial:
  "length a = np \<Longrightarrow> length rs = n \<Longrightarrow> length c = m \<Longrightarrow> merge_ix (spatial_mask np n m) rs (a @ c) = a @ rs @ c"
proof -
  have c: "merge_ix (replicate (length c) False) rs c = c" for c rs by (induction c) auto
  have r: "merge_ix (replicate (length rs) True @ replicate (length c) False) rs c = rs @ c" for c rs
    by (induction rs) (auto simp: c)
  show "length a = np \<Longrightarrow> length rs = n \<Longrightarrow> length c = m \<Longrightarrow> merge_ix (spatial_mask np n m) rs (a @ c) = a @ rs @ c"
    unfolding spatial_mask_def by (induction a arbitrary: np) (auto simp: r)
qed

lemma not_dropped_spatial:
  assumes "length (a :: nat list) = np" "length b = n" "length c = m"
  shows "not_dropped (spatial_mask np n m) (a @ b @ c) = a @ c" "not_dropped (map Not (spatial_mask np n m)) (a @ b @ c) = b"
proof -
  have r: "not_dropped (replicate (length xs) d @ ms) (xs @ ys) = (if d then [] else xs) @ not_dropped ms ys"
    for d ms and xs ys :: "nat list" by (induction xs) auto
  have n: "not_dropped (replicate (length xs) d) xs = (if d then [] else xs)" for d and xs :: "nat list"
    using r [of xs d "[]" "[]"] by simp
  show "not_dropped (spatial_mask np n m) (a @ b @ c) = a @ c" "not_dropped (map Not (spatial_mask np n m)) (a @ b @ c) = b"
    using r [of a] r [of b] n [of c] assms by (simp_all add: spatial_mask_def map_replicate)
qed

lemma keep_spatial:
  assumes "length a = np" "length b = n" "length c = m"
  shows "keep_shape True (spatial_mask np n m) (a @ b @ c) = a @ replicate n 1 @ c"
proof -
  have f: "length xs = n \<Longrightarrow> map2 (\<lambda>r d. if r then 1 else d) (replicate n v) xs = (if v then replicate (length xs) 1 else xs)" for v and xs :: "nat list" and n
    by (intro nth_equalityI) simp_all
  show ?thesis using f [of a np False] f [of b n True] f [of c m False] assms by (simp only: keep_shape_def spatial_mask_def zip_append length_append length_replicate map_append if_True if_False)
qed

lemma split3_index:
  assumes "valid_ix (pre @ ds @ post) is"
  obtains a b c where "is = a @ b @ c" "valid_ix pre a" "valid_ix ds b" "valid_ix post c"
  using assms unfolding valid_ix_def list_all2_append2 by blast

lemma gpool_cell:
  assumes t: "wf_tensor t" "tshape t = pre @ ds @ post" and np: "length pre = np" and n: "length ds = n" "length ks = n" "length ss = n" "length ps = n" "length outs = n"
    and js: "valid_ix outs js" and pos: "\<forall>j<n. 0 < box_sizes ds ks ss ps js ! j"
    and S: "S = tslice (replicate np 0 @ box_starts ds ss ps js @ replicate (length post) 0) (pre @ box_sizes ds ks ss ps js @ post) (replicate (trank t) 1) t"
  shows "tpick (zip [np..<np + n] js) (gpool np (\<lambda>w. f (length (somes w)) (somes w)) ks ss ps outs t) =
    treduce (f (prod_list (box_sizes ds ks ss ps js))) (spatial_mask np n (length post)) True S"
proof (rule tensor_eqI)
  let ?g = "\<lambda>w. f (length (somes w)) (somes w)" and ?bs = "box_sizes ds ks ss ps js" and ?st = "box_starts ds ss ps js"
  let ?T = "gpool np ?g ks ss ps outs t" and ?m = "length post"
  have lj: "length js = n" using valid_ix_length [OF js] n by simp
  have T: "wf_tensor ?T" "tshape ?T = pre @ outs @ post" using t np n by (simp_all add: gpool_def Let_def)
  have pz: "map fst (zip [np..<np + n] js) = [np..<np + n]" using lj by simp
  have sh: "pick_shape [np..<np + n] (pre @ outs @ post) = pre @ replicate n 1 @ post" using np n by (subst pick_shape_interval) simp_all
  have Ss: "tshape S = pre @ ?bs @ post" by (simp add: S tslice_def)
  show "tshape (tpick (zip [np..<np + n] js) ?T) = tshape (treduce (f (prod_list ?bs)) (spatial_mask np n ?m) True S)"
    using sh T pz keep_spatial [of pre np ?bs n post] np n Ss by simp
  fix "is" assume v: "valid_ix (tshape (treduce (f (prod_list ?bs)) (spatial_mask np n ?m) True S)) is"
  then have v': "valid_ix (pre @ replicate n 1 @ post) is" using keep_spatial [of pre np ?bs n post] np n Ss by simp
  then obtain a b c where i: "is = a @ b @ c" "valid_ix pre a" "valid_ix (replicate n 1) b" "valid_ix post c" by (rule split3_index)
  have l: "length a = np" "length b = n" "length c = ?m" using i(2-4) np by (auto dest: valid_ix_length)
  have axk: "np + k < trank ?T \<and> js ! k < tshape ?T ! (np + k)" if "k < n" for k
    using that T np n valid_ix_nth [OF js, of k] by (simp add: nth_append)
  have ax: "\<forall>(a, j)\<in>set (zip [np..<np + n] js). a < trank ?T \<and> j < tshape ?T ! a"
    using axk lj by (fastforce simp: in_set_zip)
  have "tnth (tpick (zip [np..<np + n] js) ?T) is = tnth ?T (a @ js @ c)"
    using tnth_tpick [OF T(1) _ ax, of "is"] v' sh T pz foldr_updates [of np js "is"] l lj by (simp add: i)
  also have "\<dots> = ?g (window ks ss ps ds (\<lambda>qs. tnth t (a @ qs @ c)) js)"
  proof -
    have "valid_ix (pre @ outs @ post) (a @ js @ c)" using i js np n l lj by (simp add: valid_ix_append)
    then show ?thesis using t np n l lj by (simp add: gpool_def Let_def)
  qed
  also have "\<dots> = f (prod_list ?bs) (map (\<lambda>rs. tnth t (a @ map2 (+) ?st rs @ c)) (all_ix ?bs))"
    unfolding somes_window [OF n(1-4) lj pos] by simp
  also have "\<dots> = f (prod_list ?bs) (map (\<lambda>rs. tnth S (merge_ix (spatial_mask np n ?m) rs (a @ c))) (all_ix ?bs))"
  proof (intro arg_cong [where f = "f (prod_list ?bs)"] map_cong refl)
    fix rs assume "rs \<in> set (all_ix ?bs)"
    then have r: "valid_ix ?bs rs" "length rs = n" using n by (auto simp: set_all_ix dest: valid_ix_length)
    have "valid_ix (pre @ ?bs @ post) (a @ rs @ c)" using i r n l np by (simp add: valid_ix_append)
    moreover have "apply_ix (map2 (\<lambda>b s i. b + i * s) (replicate np 0 @ ?st @ replicate ?m 0) (replicate (trank t) 1)) (a @ rs @ c) = a @ map2 (+) ?st rs @ c"
      using l r n np t by (intro nth_equalityI) (auto simp: nth_append)
    ultimately show "tnth t (a @ map2 (+) ?st rs @ c) = tnth S (merge_ix (spatial_mask np n ?m) rs (a @ c))"
      using l r by (simp add: merge_spatial S tslice_def)
  qed
  finally show "tnth (tpick (zip [np..<np + n] js) ?T) is = tnth (treduce (f (prod_list ?bs)) (spatial_mask np n ?m) True S) is"
    using v l np n Ss not_dropped_spatial [of pre np ?bs n post] not_dropped_spatial(1) [of a np b n c ?m]
    by (simp add: treduce_def reduced_dims_def i)
qed (use t in \<open>simp_all add: gpool_def Let_def\<close>)

section \<open>The assembled value is the pooling\<close>

lemma box_starts_append: "length ps = length ds \<Longrightarrow> box_starts ds ss (ps @ qs) os = box_starts ds ss ps os"
  and box_sizes_append: "length ps = length ds \<Longrightarrow> box_sizes ds ks ss (ps @ qs) os = box_sizes ds ks ss ps os"
  by (auto simp: box_starts_def box_sizes_def nth_append)

lemma box_fits: "box_start d s p i + box_size d k s p i \<le> d"
  by (auto simp: box_start_def box_size_def)

lemma spatial_lengths:
  assumes "n = rank - 2" "3 \<le> rank" "np = spatial_start rank" shows "np + n \<le> rank" "rank = n + 2"
  using assms by (auto simp: spatial_start_def)

lemma window_box_eq:
  assumes r: "rank = length (pre @ ds @ post)" "length pre = spatial_start rank" "length ds + 2 = rank"
    and l: "length os = length ds" "length ks = length ds" "length ss = length ds" "length ps = length ds" "drop 2 is = ds"
  shows "window_box (int rank) (map int is) (map int (pre @ ds @ post)) (map int ks) (map int ss) (map int (ps @ qs)) (map int os) =
    (if \<exists>j<length ds. box_sizes ds ks ss ps os ! j = 0 then Inl EmptyOperands
     else Inr (map int (replicate (length pre) 0 @ box_starts ds ss ps os @ replicate (length post) 0),
       map int (pre @ box_sizes ds ks ss ps os @ post), int (prod_list (box_sizes ds ks ss ps os))))"
proof -
  have b: "window_bounds (map int is) (map int ks) (map int ss) (map int (ps @ qs)) (map int os) =
      zip (map int (box_starts ds ss ps os)) (map int (box_sizes ds ks ss ps os))"
    using window_bounds_eq [of os ds ks ss "ps @ qs" "is"] l by (simp add: box_starts_append box_sizes_append)
  have e: "(\<exists>b\<in>set (zip (map int (box_starts ds ss ps os)) (map int (box_sizes ds ks ss ps os))). snd b = 0) \<longleftrightarrow>
      (\<exists>j<length ds. box_sizes ds ks ss ps os ! j = 0)"
    by (force simp: set_zip)
  have m: "map fst (zip (map int (box_starts ds ss ps os)) (map int (box_sizes ds ks ss ps os))) = map int (box_starts ds ss ps os)"
    "map snd (zip (map int (box_starts ds ss ps os)) (map int (box_sizes ds ks ss ps os))) = map int (box_sizes ds ks ss ps os)"
    by simp_all
  have p: "put_spatial (int rank) base (map int vs) = take (length pre) base @ map int vs @ drop (length pre + length ds) base"
    if "length base = rank" "length vs = length ds" for base vs
    using put_spatial_eq [of base rank "map int vs"] that r(2,3) by simp
  have lr: "length (map int (pre @ ds @ post)) = rank" "length (replicate (nat (int rank)) (0 :: int)) = rank" using r(1) by simp_all
  have z: "take (length pre) (replicate (nat (int rank)) 0) = map int (replicate (length pre) 0)"
    "drop (length pre + length ds) (replicate (nat (int rank)) 0) = map int (replicate (length post) 0)" using r(1) by simp_all
  show ?thesis
    unfolding window_box_def b e Let_def m p [OF lr(1) box_lengths(2)] p [OF lr(2) box_lengths(1)] z by simp
qed

context tfl_assembly
begin

lemma eval_emit_window:
  assumes x: "wf_tensor x" "eval sem env v = x" "length bs = trank x" "length ns = trank x" "\<forall>k<trank x. bs ! k + ns ! k \<le> tshape x ! k"
    and i32: "i32_dims (tshape x)"
  shows "eval sem env (emit_window v (map int bs) (map int ns)) = tslice bs ns (replicate (trank x) 1) x"
proof -
  have "bs ! k < 2 ^ 31 \<and> ns ! k < 2 ^ 31" if "k < trank x" for k
  proof -
    have "tshape x ! k < 2 ^ 31" using that i32 by (simp add: i32_dims_def)
    moreover have "bs ! k + ns ! k \<le> tshape x ! k" using x(5) that by blast
    ultimately show ?thesis by linarith
  qed
  then have "i32_dims bs" "i32_dims ns" using x(3,4) by (auto simp: i32_dims_def in_set_conv_nth)
  then show ?thesis
    using x slice [of x bs ns "[RankedTensor (map int ns) F32]"]
    by (simp add: emit_window_def map_i32_comp_dims conforms_Ranked tslice_def)
qed

theorem eval_static_windows:
  assumes low: "static_windows (map int is) (map int (pre @ ds @ post)) (map int (pre @ outs @ post)) (map int outs) (map int ks)
      (map int ss) (map int (ps @ qs)) input cell = Inr v"
    and x: "wf_tensor x" "tshape x = pre @ ds @ post" "eval sem env input = x" "i32_dims (tshape x)"
    and r: "rank = trank x" "length is = rank" "length pre = spatial_start rank" "length ds + 2 = rank" "3 \<le> rank" "rank \<le> 5" "drop 2 is = ds"
    and l: "length ks = length ds" "length ss = length ds" "length ps = length ds" "length outs = length ds" "\<forall>n\<in>set outs. 0 < n"
    and cell: "\<And>u S bs cty w. eval sem env u = S \<Longrightarrow> wf_tensor S \<Longrightarrow> tshape S = pre @ bs @ post \<Longrightarrow> length bs = length ds \<Longrightarrow>
      cty = RankedTensor (map int (pre @ replicate (length ds) 1 @ post)) F32 \<Longrightarrow>
      w = cell cty u (map int [length pre..<length pre + length ds]) (int (prod_list bs)) \<Longrightarrow>
      eval sem env w = treduce (f (prod_list bs)) (spatial_mask (length pre) (length ds) (length post)) True S \<and> vtype w = cty"
  shows "eval sem env v = gpool (length pre) (\<lambda>w. f (length (somes w)) (somes w)) ks ss ps outs x \<and>
    vtype v = RankedTensor (map int (pre @ outs @ post)) F32 \<and>
    (\<forall>js. valid_ix outs js \<longrightarrow> (\<forall>j<length ds. 0 < box_sizes ds ks ss ps js ! j))"
proof -
  let ?np = "length pre" and ?n = "length ds" and ?T = "gpool (length pre) (\<lambda>w. f (length (somes w)) (somes w)) ks ss ps outs x"
  let ?axes = "[length pre..<length pre + length ds]" and ?ones = "pre @ replicate (length ds) 1 @ post"
  have axes: "map (\<lambda>i. getPhysicalAxis (getRank (map int is)) (2 + i)) [0..getRank (map int is) - 3] = map int ?axes"
  proof (rule nth_equalityI)
    show "length (map (\<lambda>i. getPhysicalAxis (getRank (map int is)) (2 + i)) [0..getRank (map int is) - 3]) = length (map int ?axes)"
      using r by simp
    fix i assume "i < length (map (\<lambda>i. getPhysicalAxis (getRank (map int is)) (2 + i)) [0..getRank (map int is) - 3])"
    then have "i + 2 < rank" using r by simp
    then show "map (\<lambda>i. getPhysicalAxis (getRank (map int is)) (2 + i)) [0..getRank (map int is) - 3] ! i = map int ?axes ! i"
      using r getPhysicalAxis_spatial [of i rank] by simp
  qed
  have cs: "put_spatial (getRank (map int is)) (map int (pre @ outs @ post)) (replicate (nat (getRank (map int is) - 2)) 1) = map int ?ones"
  proof -
    have g: "getRank (map int is) = int rank" "nat (int rank - 2) = ?n" using r(2,4) by simp_all
    have "length (map int (pre @ outs @ post)) = rank" using r(1) x(2) l(4) by simp
    then show ?thesis unfolding g using put_spatial_eq [of "map int (pre @ outs @ post)" rank "replicate ?n 1"] r(3,4) l(4) by simp
  qed
  let ?window = "\<lambda>flatIndex. bind_result (window_box (getRank (map int is)) (map int is) (map int (pre @ ds @ post)) (map int ks) (map int ss) (map int (ps @ qs))
      (output_position (map int outs) flatIndex)) (\<lambda>(begin, extents, validElementCount).
        Inr (cell (RankedTensor (map int ?ones) F32) (emit_window input begin extents) (map int ?axes) validElementCount))"
  let ?asm = "\<lambda>cells. assemble (rev (zip (map int ?axes) (map int outs))) (map int ?ones) cells"
  have "\<exists>cells. all_results (map ?window [0..prod_list (map int outs) - 1]) = Inr cells \<and>
      (case ?asm cells of (pieces, pieceShape) \<Rightarrow>
         if length pieces \<noteq> 1 \<or> pieceShape \<noteq> map int (pre @ outs @ post) then Inl ShapeMismatch else Inr (hd pieces)) = Inr v"
    using low unfolding static_windows_def Let_def axes cs bind_result_Inr_iff .
  then obtain cells where c: "all_results (map ?window [0..prod_list (map int outs) - 1]) = Inr cells" and
    a': "(case ?asm cells of (pieces, pieceShape) \<Rightarrow>
         if length pieces \<noteq> 1 \<or> pieceShape \<noteq> map int (pre @ outs @ post) then Inl ShapeMismatch else Inr (hd pieces)) = Inr v" by blast
  obtain pieces pieceShape where a: "?asm cells = (pieces, pieceShape)" by (cases "?asm cells") blast
  have v: "v = hd pieces" using a' unfolding a by (simp split: if_splits)
  have len: "length cells = prod_list outs" using c unfolding all_results_Inr by simp
  have piece: "eval sem env (cells ! k) = tpick (zip ?axes (unravel outs k)) ?T \<and> vtype (cells ! k) = RankedTensor (map int ?ones) F32 \<and>
    (\<forall>j<?n. 0 < box_sizes ds ks ss ps (unravel outs k) ! j)"
    if k: "k < prod_list outs" for k
  proof -
    let ?js = "unravel outs k" and ?bs = "box_sizes ds ks ss ps (unravel outs k)" and ?st = "box_starts ds ss ps (unravel outs k)"
    have k0: "k < nat (prod_list (map int outs))" using k by simp
    have wk: "?window (int k) = Inr (cells ! k)"
      using c k0 unfolding all_results_Inr by simp
    have op: "output_position (map int outs) (int k) = map int ?js" using k by (rule output_position_unravel)
    have wb: "window_box (int rank) (map int is) (map int (pre @ ds @ post)) (map int ks) (map int ss) (map int (ps @ qs)) (map int ?js) =
      (if \<exists>j<?n. ?bs ! j = 0 then Inl EmptyOperands
       else Inr (map int (replicate ?np 0 @ ?st @ replicate (length post) 0), map int (pre @ ?bs @ post), int (prod_list ?bs)))"
      using r l x(2) by (intro window_box_eq) simp_all
    have rk: "getRank (map int is) = int rank" using r(2) by simp
    have pos: "\<forall>j<?n. 0 < ?bs ! j"
    proof (rule ccontr)
      assume "\<not> (\<forall>j<?n. 0 < ?bs ! j)"
      then have "\<exists>j<?n. ?bs ! j = 0" by simp
      with wk show False unfolding rk op wb by (simp only: if_True bind_result_simps) simp
    qed
    then have np: "\<not> (\<exists>j<?n. ?bs ! j = 0)" by fastforce
    let ?S = "tslice (replicate ?np 0 @ ?st @ replicate (length post) 0) (pre @ ?bs @ post) (replicate (trank x) 1) x"
    let ?u = "emit_window input (map int (replicate ?np 0 @ ?st @ replicate (length post) 0)) (map int (pre @ ?bs @ post))"
    have cell_eq: "cells ! k = cell (RankedTensor (map int ?ones) F32) ?u (map int ?axes) (int (prod_list ?bs))"
      using wk np unfolding rk op wb by (simp only: if_False bind_result_simps prod.case sum.inject)
    have fit: "(replicate ?np 0 @ ?st @ replicate (length post) 0) ! m + (pre @ ?bs @ post) ! m \<le> tshape x ! m" if "m < trank x" for m
      using that x(2) box_fits by (auto simp: nth_append box_starts_def box_sizes_def)
    have u: "eval sem env ?u = ?S" using x fit by (intro eval_emit_window) simp_all
    have "eval sem env (cells ! k) = treduce (f (prod_list ?bs)) (spatial_mask ?np ?n (length post)) True ?S \<and> vtype (cells ! k) = RankedTensor (map int ?ones) F32"
      by (rule cell [OF u _ _ _ refl cell_eq]) (simp_all add: tslice_def)
    moreover have "tpick (zip [?np..<?np + ?n] ?js) ?T = treduce (f (prod_list ?bs)) (spatial_mask ?np ?n (length post)) True ?S"
      by (rule gpool_cell [OF x(1,2) refl refl l(1,2,3,4) _ pos refl]) (use k in \<open>simp add: unravel_valid\<close>)
    ultimately show ?thesis using pos by simp
  qed
  have all: "\<forall>j<?n. 0 < box_sizes ds ks ss ps js ! j" if "valid_ix outs js" for js
    using piece [OF ravel_less [OF that]] that by simp
  let ?ao = "zip ?axes outs"
  have ao: "map fst ?ao = ?axes" "map snd ?ao = outs" using l by simp_all
  have T: "wf_tensor ?T" "tshape ?T = pre @ outs @ post" using x(2) l by (simp_all add: gpool_def Let_def)
  have ps': "pick_shape ?axes (tshape ?T) = ?ones" unfolding T(2) using l by (subst pick_shape_interval) simp_all
  have "\<exists>v. assemble (rev (map (\<lambda>(a, n). (int a, int n)) ?ao)) (map int (pick_shape (map fst ?ao) (tshape ?T))) cells = ([v], map int (tshape ?T)) \<and>
      eval sem env v = ?T \<and> vtype v = RankedTensor (map int (tshape ?T)) F32"
  proof (rule eval_assemble [OF T(1)])
    show "distinct (map fst ?ao)" unfolding ao by simp
    have "a < trank ?T \<and> tshape ?T ! a = n \<and> 0 < n \<and> a < 2 ^ 31" if "(a, n) \<in> set ?ao" for a n
    proof -
      obtain k where k: "k < ?n" "a = ?np + k" "n = outs ! k" using \<open>(a, n) \<in> set ?ao\<close> l by (auto simp: in_set_zip)
      have "?np \<le> 2" using r(3) by (simp add: spatial_start_def)
      then have "a < 2 ^ 31" using k r(4,6) by simp
      then show ?thesis using k T(2) l(4,5) by (simp add: nth_append)
    qed
    then show "\<forall>(a, n)\<in>set ?ao. a < trank ?T \<and> tshape ?T ! a = n \<and> 0 < n \<and> a < 2 ^ 31" by blast
    show "map (eval sem env) cells = map (\<lambda>js. tpick (zip (map fst ?ao) js) ?T) (all_ix (map snd ?ao))"
      unfolding ao using piece len by (intro nth_equalityI) simp_all
    show "\<forall>v\<in>set cells. vtype v = RankedTensor (map int (pick_shape (map fst ?ao) (tshape ?T))) F32"
      unfolding ao ps' using piece len by (auto simp: in_set_conv_nth)
  qed
  moreover have "map (\<lambda>(a, n). (int a, int n)) ?ao = zip (map int ?axes) (map int outs)" by (simp add: zip_map_map)
  ultimately show ?thesis using a v T(2) all unfolding ao ps' by auto
qed

end

section \<open>Pooling with another function, and in either layout\<close>

lemma length_window [simp]: "length (window ks ss ps ds elem os) = prod_list ks"
  by (simp add: window_def)

lemma somes_window_empty:
  assumes "length ds = n" "length ks = n" "length ss = n" "length ps = n" "length os = n" "\<forall>j<n. 0 < box_sizes ds ks ss ps os ! j"
  shows "somes (window ks ss ps ds elem os) \<noteq> []"
proof -
  have "\<forall>d\<in>set (box_sizes ds ks ss ps os). 0 < d" using assms by (auto simp: in_set_conv_nth)
  moreover have "\<forall>d\<in>set xs. 0 < d \<Longrightarrow> 0 < prod_list xs" for xs :: "nat list" by (induction xs) auto
  ultimately have "0 < prod_list (box_sizes ds ks ss ps os)" by blast
  then have "all_ix (box_sizes ds ks ss ps os) \<noteq> []" by (metis length_0_conv length_all_ix less_numeral_extra(3))
  then show ?thesis unfolding somes_window [OF assms] by simp
qed

lemma gpool_cong:
  assumes t: "tshape t = pre @ ds @ post" "length ds = length outs"
    and eq: "\<And>js elem. valid_ix outs js \<Longrightarrow> g (window ks ss ps ds elem js) = h (window ks ss ps ds elem js)"
  shows "gpool (length pre) g ks ss ps outs t = gpool (length pre) h ks ss ps outs t"
  unfolding gpool_def Let_def
proof (rule tgen_cong)
  fix "is" assume "valid_ix (take (length pre) (tshape t) @ outs @ drop (length pre + length outs) (tshape t)) is"
  then have "valid_ix (pre @ outs @ post) is" using t by simp
  then obtain a b c where i: "is = a @ b @ c" "valid_ix pre a" "valid_ix outs b" "valid_ix post c" by (rule split3_index)
  then have "length a = length pre" "length b = length outs" by (simp_all add: valid_ix_length)
  then have b: "take (length outs) (drop (length pre) is) = b" by (simp add: i)
  have d: "take (length outs) (drop (length pre) (tshape t)) = ds" using t by simp
  show "g (window ks ss ps (take (length outs) (drop (length pre) (tshape t))) (\<lambda>ps. tnth t (take (length pre) is @ ps @ drop (length pre + length outs) is)) (take (length outs) (drop (length pre) is))) =
      h (window ks ss ps (take (length outs) (drop (length pre) (tshape t))) (\<lambda>ps. tnth t (take (length pre) is @ ps @ drop (length pre + length outs) is)) (take (length outs) (drop (length pre) is)))"
    unfolding b d using i(3) by (rule eq)
qed simp

lemma somes_map_option: "somes (map (map_option f) xs) = map f (somes xs)"
  unfolding somes_def by (induction xs) auto

lemma gpool_tmap:
  assumes t: "wf_tensor t" "tshape t = pre @ ds @ post" "length ds = length outs"
  shows "gpool (length pre) (f \<circ> somes) ks ss ps outs (tmap h t) = gpool (length pre) (\<lambda>w. f (map h (somes w))) ks ss ps outs t"
  unfolding gpool_def Let_def tshape_tmap
proof (rule tgen_cong)
  fix "is" assume "valid_ix (take (length pre) (tshape t) @ outs @ drop (length pre + length outs) (tshape t)) is"
  then have "valid_ix (pre @ outs @ post) is" using t by simp
  then obtain a b c where i: "is = a @ b @ c" "valid_ix pre a" "valid_ix outs b" "valid_ix post c" by (rule split3_index)
  have l: "length a = length pre" "length b = length outs" using i by (simp_all add: valid_ix_length)
  have d: "take (length outs) (drop (length pre) (tshape t)) = ds" using t by simp
  have "tnth (tmap h t) (a @ qs @ c) = h (tnth t (a @ qs @ c))" if "position_ok ds (map int qs)" for qs
  proof -
    have "valid_ix ds qs" using that by (simp add: position_ok_def valid_ix_def list_all2_conv_all_nth)
    then have "length qs = length ds" "valid_ix ds qs" by (simp_all add: valid_ix_length)
    then have "valid_ix (tshape t) (a @ qs @ c)" unfolding t(2) using i l by (simp add: valid_ix_append)
    then show ?thesis by (rule tnth_tmap [OF t(1)])
  qed
  then have "window ks ss ps ds (\<lambda>qs. tnth (tmap h t) (a @ qs @ c)) b = window ks ss ps ds (\<lambda>qs. h (tnth t (a @ qs @ c))) b"
    by (rule window_cong)
  also have "\<dots> = map (map_option h) (window ks ss ps ds (\<lambda>qs. tnth t (a @ qs @ c)) b)"
    by (simp add: window_def Let_def)
  finally show "(f \<circ> somes) (window ks ss ps (take (length outs) (drop (length pre) (tshape t))) (\<lambda>ps. tnth (tmap h t) (take (length pre) is @ ps @ drop (length pre + length outs) is)) (take (length outs) (drop (length pre) is))) =
      f (map h (somes (window ks ss ps (take (length outs) (drop (length pre) (tshape t))) (\<lambda>ps. tnth t (take (length pre) is @ ps @ drop (length pre + length outs) is)) (take (length outs) (drop (length pre) is)))))"
    unfolding d by (simp add: i l somes_map_option)
qed simp

lemma axis_mask_spatial: "np + n + m = rank \<Longrightarrow> axis_mask rank [np..<np + n] = spatial_mask np n m"
  by (rule nth_equalityI) (auto simp: axis_mask_def spatial_mask_def nth_append)

lemma tmap_treduce: "tmap h (treduce f m k t) = treduce (\<lambda>xs. h (f xs)) m k t"
  by (rule tensor_eqI) (simp_all add: tnth_tmap treduce_def)

text \<open>The physical form of a pooled tensor, and the axes around the spatial ones.\<close>

lemma phys_tpool:
  assumes ty: "ity = RankedTensor (map int (tshape t)) F32" "rty = RankedTensor (map int (tshape (tpool g ks ss ps outs t))) F32"
    and l: "length outs + 2 = trank t"
  shows "phys rty (tpool g ks ss ps outs t) = gpool (spatial_start (trank t)) g ks ss ps outs (phys ity t)"
proof -
  have p: "tpool g ks ss ps outs t = gpool 2 g ks ss ps outs t" using l by (intro tpool_gpool) simp_all
  have p4: "physical4 rty \<longleftrightarrow> trank t = 4" "physical4 ity \<longleftrightarrow> trank t = 4" using l by (auto simp: ty physical4_def isF32_def)
  show ?thesis
    using l ttranspose_gpool [of t outs g ks ss ps] by (cases "trank t = 4") (simp_all add: phys_def p4 p spatial_start_def)
qed

lemma physical_split:
  assumes t: "conforms (RankedTensor ds F32) (t :: 'a tensor)" and "3 \<le> trank t"
  obtains pre post where "tshape (phys (RankedTensor ds F32) t) = pre @ drop 2 (tshape t) @ post" "length pre = spatial_start (trank t)"
    "\<And>outs (s :: 'a tensor) os. length outs + 2 = trank t \<Longrightarrow> conforms (RankedTensor os F32) s \<Longrightarrow> tshape s = take 2 (tshape t) @ outs \<Longrightarrow>
       convertRank4NCHWToNHWCType (RankedTensor os F32) = RankedTensor (map int (pre @ outs @ post)) F32"
proof (cases "trank t = 4")
  case True
  obtain n c h w where s: "tshape t = [n, c, h, w]" using list4 [OF True] by blast
  have "physical4 (RankedTensor ds F32)" using t True by (auto simp: conforms_def physical4_def isF32_def)
  then have 1: "tshape (phys (RankedTensor ds F32) t) = [n] @ drop 2 (tshape t) @ [c]" by (simp add: phys_def s to_nhwc_def permute_def)
  show thesis
  proof (rule that [OF 1])
    show "length [n] = spatial_start (trank t)" using True by (simp add: spatial_start_def)
    fix outs os and u :: "'a tensor" assume o: "length outs + 2 = trank t" "conforms (RankedTensor os F32) u" "tshape u = take 2 (tshape t) @ outs"
    then obtain a b where "outs = [a, b]" using True list2 [of outs] by auto
    then show "convertRank4NCHWToNHWCType (RankedTensor os F32) = RankedTensor (map int ([n] @ outs @ [c])) F32"
      using o by (auto simp: conforms_def s convertRank4NCHWToNHWCType_def getRank_def isF32_def)
  qed
next
  case False
  have "\<not> physical4 (RankedTensor ds F32)" using t False by (auto simp: conforms_def physical4_def)
  then have 1: "tshape (phys (RankedTensor ds F32) t) = take 2 (tshape t) @ drop 2 (tshape t) @ []" by (simp add: phys_def)
  show thesis
  proof (rule that [OF 1])
    show "length (take 2 (tshape t)) = spatial_start (trank t)" using False assms(2) by (simp add: spatial_start_def)
    fix outs os and u :: "'a tensor" assume o: "length outs + 2 = trank t" "conforms (RankedTensor os F32) u" "tshape u = take 2 (tshape t) @ outs"
    then have "\<not> physical4 (RankedTensor os F32)" using False by (auto simp: conforms_def physical4_def)
    then show "convertRank4NCHWToNHWCType (RankedTensor os F32) = RankedTensor (map int (take 2 (tshape t) @ outs @ [])) F32"
      using o by (auto simp: convert_id conforms_def)
  qed
qed

end
