(* ===== verification/Lower_Windows.thy ===== *)
theory Lower_Windows
  imports Static_Windows Lower_Additional
begin

text \<open>
  \<^verbatim>\<open>NN/AveragePool.cpp\<close> and \<^verbatim>\<open>NN/LpPool.cpp\<close>: average pooling by the kernel of TensorFlow Lite where it has the
  same meaning, and otherwise, like the L2 pooling, unrolled into windows.
\<close>

section \<open>Definitions\<close>

record 'f window_op =
  wp_x :: "'f operand"
  wp_kernel_shape :: "int list option"
  wp_strides :: "int list option"
  wp_pads :: "int list option"
  wp_dilations :: "int list option"
  wp_auto_pad :: string
  wp_ceil_mode :: int
  wp_result :: mtype

record 'f average_pool_op = "'f window_op" +
  ap_count_include_pad :: int

record 'f lp_pool_op = "'f window_op" +
  lp_p :: int

definition window_attributes :: "('f, 'z) window_op_scheme \<Rightarrow> int \<Rightarrow> (int list \<times> int list \<times> int list) result" where
  "window_attributes op spatialRank =
     (let sr = nat spatialRank; ksize = getPoolArrayOr (wp_kernel_shape op) []; strides = getPoolArrayOr (wp_strides op) (replicate sr 1);
          pads = getPoolArrayOr (wp_pads op) (replicate (2 * sr) 0); dilations = getPoolArrayOr (wp_dilations op) (replicate sr 1) in
      if length ksize \<noteq> sr \<or> length strides \<noteq> sr \<or> length pads \<noteq> 2 * sr \<or> length dilations \<noteq> sr \<or>
         (\<exists>value\<in>set ksize. value \<le> 0) \<or> (\<exists>value\<in>set strides. value \<le> 0) \<or> (\<exists>value\<in>set pads. value < 0) \<or>
         (\<exists>value\<in>set dilations. value \<noteq> 1) then Inl BadAttribute
      else Inr (ksize, strides, pads))"

definition fitsI32 :: "int \<Rightarrow> bool" where
  "fitsI32 value \<longleftrightarrow> 0 \<le> value \<and> value \<le> int32_max"

definition nativeOutputMatches :: "int list \<Rightarrow> int list \<Rightarrow> int list \<Rightarrow> int \<Rightarrow> int \<Rightarrow> bool" where
  "nativeOutputMatches ksize strides resultShape paddedHeight paddedWidth \<longleftrightarrow>
     \<not> (paddedHeight < ksize ! 0 \<or> paddedWidth < ksize ! 1) \<and>
     cdiv (paddedHeight - ksize ! 0) (strides ! 0) + 1 = resultShape ! 2 \<and> cdiv (paddedWidth - ksize ! 1) (strides ! 1) + 1 = resultShape ! 3"

definition emit_average_pool :: "mtype \<Rightarrow> int list \<Rightarrow> int list \<Rightarrow> 'f val \<Rightarrow> 'f val" where
  "emit_average_pool resultType ksize strides poolInput =
     createTFLOperation ''tfl.average_pool_2d'' [resultType] [poolInput]
       [(''filter_height'', IntAttr (i32 (ksize ! 0))), (''filter_width'', IntAttr (i32 (ksize ! 1))), (''padding'', StrAttr ''VALID''),
        (''stride_h'', IntAttr (i32 (strides ! 0))), (''stride_w'', IntAttr (i32 (strides ! 1))), getFusedActivationNone] 0"

text \<open>The numbers of windows and of kernel elements, bounded while they are multiplied.\<close>

fun window_limits :: "(int \<times> int) list \<Rightarrow> int \<Rightarrow> int \<Rightarrow> (int \<times> int) result" where
  "window_limits [] windowCount kernelElementCount = Inr (windowCount, kernelElementCount)"
| "window_limits ((outputDim, k) # axes) windowCount kernelElementCount =
     (if outputDim \<le> 0 \<or> cdiv 4096 outputDim < windowCount \<or> cdiv int32_max k < kernelElementCount then Inl TooLarge
      else window_limits axes (windowCount * outputDim) (kernelElementCount * k))"

text \<open>\<open>ratio v k\<close> is the quotient in f32 of the two counts.\<close>

definition average_cell :: "(int \<Rightarrow> int \<Rightarrow> 'f) \<Rightarrow> int \<Rightarrow> int \<Rightarrow> mtype \<Rightarrow> 'f val \<Rightarrow> int list \<Rightarrow> int \<Rightarrow> 'f val" where
  "average_cell ratio countIncludePad kernelElementCount cellType part reductionAxes validElementCount =
     (let mean = reduction ''tfl.mean'' cellType part reductionAxes True in
      if countIncludePad \<noteq> 0 \<and> validElementCount \<noteq> kernelElementCount
      then createTFLOperation ''tfl.mul'' [cellType] [mean, createF32ScalarTensorConstant (ratio validElementCount kernelElementCount)]
             [getFusedActivationNone] 0
      else mean)"

definition lower_average_pool :: "(int \<Rightarrow> int \<Rightarrow> 'f) \<Rightarrow> 'f average_pool_op \<Rightarrow> 'f val result" where
  "lower_average_pool ratio op =
     (case (oty (wp_x op), wp_result op) of
        (RankedTensor inShape ie, RankedTensor outShape oe) \<Rightarrow>
          let rank = getRank inShape; input = adaptor 0 (wp_x op); countIncludePad = ap_count_include_pad op in
          if rank < 3 \<or> 5 < rank \<or> getRank outShape \<noteq> rank \<or> failed (validateStaticF32Tensor (oty (wp_x op))) \<or>
             failed (validateStaticF32Tensor (wp_result op)) then Inl BadTypes
          else bind_result (window_attributes op (rank - 2)) (\<lambda>(ksize, strides, pads).
            if (wp_auto_pad op \<noteq> ''NOTSET'' \<and> wp_auto_pad op \<noteq> ''VALID'') \<or> (wp_auto_pad op = ''VALID'' \<and> (\<exists>value\<in>set pads. value \<noteq> 0)) then Inl BadMode
            else if (wp_ceil_mode op \<noteq> 0 \<and> wp_ceil_mode op \<noteq> 1) \<or> (countIncludePad \<noteq> 0 \<and> countIncludePad \<noteq> 1) then Inl BadMode
            else
              (case (vtype input, convertRank4NCHWToNHWCType (wp_result op)) of
                 (RankedTensor physicalInShape pie, RankedTensor physicalOutShape poe) \<Rightarrow>
                   if getRank physicalInShape \<noteq> rank \<or> inShape ! 0 \<noteq> outShape ! 0 \<or> inShape ! 1 \<noteq> outShape ! 1 then Inl ShapeMismatch
                   else
                     let noExplicitPads = (\<forall>value\<in>set pads. value = 0);
                         nativeUnpadded2D = (rank = 4 \<and> countIncludePad = 0 \<and> noExplicitPads \<and>
                           nativeOutputMatches ksize strides outShape (inShape ! 2) (inShape ! 3));
                         nativeIncludePad2D = (rank = 4 \<and> countIncludePad = 1 \<and>
                           nativeOutputMatches ksize strides outShape (i64 (i64 (inShape ! 2 + pads ! 0) + pads ! 2)) (i64 (i64 (inShape ! 3 + pads ! 1) + pads ! 3))) in
                     if nativeUnpadded2D \<or> nativeIncludePad2D then
                       Inr (emit_average_pool (convertRank4NCHWToNHWCType (wp_result op)) ksize strides
                         (if nativeIncludePad2D \<and> \<not> noExplicitPads
                          then createTFLOperation ''tfl.pad'' [padded_pool_type physicalInShape pads F32] [input, pool_padding pads] [] 0
                          else input))
                     else if \<not> list_all fitsI32 inShape \<or> \<not> list_all fitsI32 outShape \<or> \<not> list_all fitsI32 ksize \<or>
                             \<not> list_all fitsI32 strides \<or> \<not> list_all fitsI32 pads then Inl DimExceedsI32
                     else bind_result (window_limits (zip (drop 2 outShape) ksize) 1 1) (\<lambda>(windowCount, kernelElementCount).
                       static_windows inShape physicalInShape physicalOutShape (drop 2 outShape) ksize strides pads input
                         (average_cell ratio countIncludePad kernelElementCount))
               | _ \<Rightarrow> Inl BadTypes))
      | _ \<Rightarrow> Inl BadTypes)"

text \<open>L2 pooling.\<close>

definition square :: "mtype \<Rightarrow> 'f val \<Rightarrow> 'f val" where
  "square resultType input = createTFLOperation ''tfl.mul'' [resultType] [input, input] [getFusedActivationNone] 0"

definition l2_norm :: "mtype \<Rightarrow> 'f val \<Rightarrow> int list \<Rightarrow> 'f val" where
  "l2_norm resultType squared axes =
     createTFLOperation ''tfl.sqrt'' [resultType] [reduction ''tfl.sum'' resultType squared axes True] [] 0"

fun window_limit :: "int list \<Rightarrow> int \<Rightarrow> int result" where
  "window_limit [] windowCount = Inr windowCount"
| "window_limit (outputDim # outs) windowCount =
     (if outputDim \<le> 0 \<or> cdiv 4096 outputDim < windowCount then Inl TooLarge else window_limit outs (windowCount * outputDim))"

definition lower_lp_pool :: "'f lp_pool_op \<Rightarrow> 'f val result" where
  "lower_lp_pool op =
     (case (oty (wp_x op), wp_result op) of
        (RankedTensor inShape ie, RankedTensor outShape oe) \<Rightarrow>
          let rank = getRank inShape; input = adaptor 0 (wp_x op) in
          if rank < 3 \<or> 5 < rank \<or> getRank outShape \<noteq> rank \<or> failed (validateStaticF32Tensor (oty (wp_x op))) \<or>
             failed (validateStaticF32Tensor (wp_result op)) \<or> lp_p op \<noteq> 2 then Inl BadTypes
          else bind_result (window_attributes op (rank - 2)) (\<lambda>(ksize, strides, pads).
            if wp_auto_pad op \<noteq> ''NOTSET'' \<and> wp_auto_pad op \<noteq> ''VALID'' then Inl BadMode
            else if wp_ceil_mode op \<noteq> 0 \<and> wp_ceil_mode op \<noteq> 1 then Inl BadMode
            else if inShape ! 0 \<noteq> outShape ! 0 \<or> inShape ! 1 \<noteq> outShape ! 1 then Inl ShapeMismatch
            else if \<not> list_all fitsI32 inShape \<or> \<not> list_all fitsI32 outShape \<or> \<not> list_all fitsI32 ksize \<or>
                    \<not> list_all fitsI32 strides \<or> \<not> list_all fitsI32 pads then Inl DimExceedsI32
            else bind_result (window_limit (drop 2 outShape) 1) (\<lambda>windowCount.
              (case (convertRank4NCHWToNHWCType (oty (wp_x op)), convertRank4NCHWToNHWCType (wp_result op)) of
                 (RankedTensor physicalInShape pie, RankedTensor physicalOutShape poe) \<Rightarrow>
                   static_windows inShape physicalInShape physicalOutShape (drop 2 outShape) ksize strides pads
                     (square (RankedTensor physicalInShape pie) input) (\<lambda>cellType part reductionAxes validElementCount. l2_norm cellType part reductionAxes)
               | _ \<Rightarrow> Inl BadTypes)))
      | _ \<Rightarrow> Inl BadTypes)"

record 'f global_lp_pool_op =
  gp_x :: "'f operand"
  gp_p :: int
  gp_result :: mtype

definition lower_global_lp_pool :: "'f global_lp_pool_op \<Rightarrow> 'f val result" where
  "lower_global_lp_pool op =
     (case (oty (gp_x op), gp_result op) of
        (RankedTensor inShape ie, RankedTensor outShape oe) \<Rightarrow>
          let rank = getRank inShape in
          if rank < 3 \<or> 5 < rank \<or> getRank outShape \<noteq> rank \<or> failed (validateStaticF32Tensor (oty (gp_x op))) \<or>
             failed (validateStaticF32Tensor (gp_result op)) \<or> gp_p op \<noteq> 2 then Inl BadTypes
          else if inShape ! 0 \<noteq> outShape ! 0 \<or> inShape ! 1 \<noteq> outShape ! 1 \<or> (\<exists>dim\<in>set (drop 2 outShape). dim \<noteq> 1) then Inl ShapeMismatch
          else
            let squared = square (convertRank4NCHWToNHWCType (oty (gp_x op))) (adaptor 0 (gp_x op));
                axes = map (\<lambda>logicalAxis. getPhysicalAxis rank logicalAxis) [2..rank - 1] in
            Inr (l2_norm (convertRank4NCHWToNHWCType (gp_result op)) squared axes)
      | _ \<Rightarrow> Inl BadTypes)"

section \<open>What ONNX defines\<close>

definition window_params :: "('f, 'z) window_op_scheme \<Rightarrow> nat \<Rightarrow> nat list \<Rightarrow> nat list \<Rightarrow> nat list \<Rightarrow> nat list \<Rightarrow> bool" where
  "window_params op n ks ss ps qs \<longleftrightarrow>
     map int ks = getPoolArrayOr (wp_kernel_shape op) [] \<and> map int ss = getPoolArrayOr (wp_strides op) (replicate n 1) \<and>
     map int (ps @ qs) = getPoolArrayOr (wp_pads op) (replicate (2 * n) 0) \<and> length ps = n"

text \<open>
  The average of ONNX is taken over the input or, when the padding counts, over the padded input, whose zeros are
  elements like any other; what ceil mode leaves of a window beyond either never counts.
\<close>

definition onnx_average_pool ::
  "('a list \<Rightarrow> 'a) \<Rightarrow> 'a \<Rightarrow> int \<Rightarrow> nat list \<Rightarrow> nat list \<Rightarrow> nat list \<Rightarrow> nat list \<Rightarrow> nat list \<Rightarrow> 'a tensor \<Rightarrow> 'a tensor" where
  "onnx_average_pool mean zero countIncludePad ks ss ps qs outs t =
     (if countIncludePad \<noteq> 0 then tpool (mean \<circ> somes) ks ss (replicate (trank t - 2) 0) outs (tpad ([0, 0] @ ps) ([0, 0] @ qs) zero t)
      else tpool (mean \<circ> somes) ks ss ps outs t)"

text \<open>What the pattern computes instead: zeros wherever the window leaves the input, the overrun of ceil mode included.\<close>

definition padded_average :: "('a list \<Rightarrow> 'a) \<Rightarrow> 'a \<Rightarrow> int \<Rightarrow> 'a option list \<Rightarrow> 'a" where
  "padded_average mean zero countIncludePad w = (if countIncludePad \<noteq> 0 then mean (map (case_option zero id) w) else mean (somes w))"

text \<open>Both agree where no window runs past the padded input.\<close>

definition windows_fit :: "nat list \<Rightarrow> nat list \<Rightarrow> nat list \<Rightarrow> nat list \<Rightarrow> nat list \<Rightarrow> nat list \<Rightarrow> bool" where
  "windows_fit ds ks ss ps qs outs \<longleftrightarrow> (\<forall>j<length ds. \<forall>i<outs ! j. i * ss ! j + ks ! j \<le> ds ! j + ps ! j + qs ! j)"

lemma tpool_tpad:
  assumes r: "2 \<le> trank t" and n: "n = trank t - 2" and l: "length ks = n" "length ss = n" "length ps = n" "length qs = n" "length outs = n"
    and fit: "windows_fit (drop 2 (tshape t)) ks ss ps qs outs"
  shows "tpool (red \<circ> somes) ks ss (replicate n 0) outs (tpad ([0, 0] @ ps) ([0, 0] @ qs) z t) =
    tpool (red \<circ> map (case_option z id)) ks ss ps outs t"
proof -
  obtain a b ds where t: "tshape t = a # b # ds" using r by (metis Suc_le_length_iff numeral_2_eq_2)
  let ?ds = "map2 (+) ds (map2 (+) ps qs)" and ?y = "tpad ([0, 0] @ ps) ([0, 0] @ qs) z t"
  have y: "tshape ?y = a # b # ?ds" by (simp add: tpad_def t)
  have ld: "length ds = n" "length ?ds = n" using n l by (simp_all add: t)
  have win: "window ks ss (replicate n 0) ?ds (\<lambda>ys. tnth ?y ([i, k] @ ys)) js =
      map (\<lambda>e. Some (case_option z id e)) (window ks ss ps ds (\<lambda>ys. tnth t ([i, k] @ ys)) js)"
    if v: "i < a" "k < b" "valid_ix outs js" for i k js
  proof -
    let ?e = "\<lambda>ys. if list_all2 (\<le>) ps ys \<and> valid_ix ds (map2 (-) ys ps) then tnth t ([i, k] @ map2 (-) ys ps) else z"
    have "window ks ss (replicate n 0) ?ds (\<lambda>ys. tnth ?y ([i, k] @ ys)) js = window ks ss (replicate n 0) ?ds ?e js"
    proof (rule window_cong)
      fix ys assume "position_ok ?ds (map int ys)"
      then have "valid_ix ?ds ys" by (simp add: position_ok_def valid_ix_def list_all2_map1)
      then show "tnth ?y ([i, k] @ ys) = ?e ys" using v by (simp add: tpad_def t valid_ix_def)
    qed
    also have "\<dots> = map (\<lambda>e. Some (case_option z id e)) (window ks ss ps ds (\<lambda>ys. tnth t ([i, k] @ ys)) js)"
    proof (rule window_padded)
      have lj: "length js = n" using valid_ix_length [OF v(3)] l(5) by simp
      then show "length js = n" .
      show "\<forall>j<n. \<forall>k<ks ! j. js ! j * ss ! j + k < ?ds ! j"
      proof (intro allI impI)
        fix j k assume j: "j < n" and k: "k < ks ! j"
        have "js ! j < outs ! j" using valid_ix_nth [OF v(3)] j l(5) by simp
        then have "js ! j * ss ! j + ks ! j \<le> ds ! j + ps ! j + qs ! j" using fit j ld(1) by (simp add: windows_fit_def t)
        then show "js ! j * ss ! j + k < ?ds ! j" using j k ld l by simp
      qed
    qed (use l ld in simp_all)
    finally show ?thesis .
  qed
  show ?thesis
    unfolding tpool_def y t
  proof (rule tgen_cong)
    fix "is" assume "valid_ix (take 2 (a # b # ds) @ outs) is"
    then obtain i k js where "is = i # k # js" "i < a" "k < b" "valid_ix outs js" by (auto simp: valid_ix_def list_all2_Cons2)
    then show "(red \<circ> somes) (window ks ss (replicate n 0) (drop 2 (a # b # ?ds)) (\<lambda>ps. tnth ?y (take 2 is @ ps)) (drop 2 is)) =
        (red \<circ> map (case_option z id)) (window ks ss ps (drop 2 (a # b # ds)) (\<lambda>ps. tnth t (take 2 is @ ps)) (drop 2 is))"
      using win by simp
  qed simp
qed

lemma onnx_average_pool_padded:
  assumes "2 \<le> trank t" "length ks = trank t - 2" "length ss = trank t - 2" "length ps = trank t - 2" "length qs = trank t - 2" "length outs = trank t - 2"
    and "cip \<noteq> 0 \<longrightarrow> windows_fit (drop 2 (tshape t)) ks ss ps qs outs"
  shows "onnx_average_pool mean zero cip ks ss ps qs outs t = tpool (padded_average mean zero cip) ks ss ps outs t"
proof (cases "cip = 0")
  case True
  then have "padded_average mean zero cip = mean \<circ> somes" by (auto simp: padded_average_def)
  then show ?thesis using True by (simp add: onnx_average_pool_def)
next
  case False
  then have "padded_average mean zero cip = mean \<circ> map (case_option zero id)" by (auto simp: padded_average_def)
  then show ?thesis using tpool_tpad [OF assms(1) refl assms(2-6)] False assms(7) by (simp add: onnx_average_pool_def)
qed

text \<open>A window that ceil mode lets run past the input: the pattern halves its only element, ONNX does not.\<close>

lemma ceil_overrun_divisor:
  "tpool (padded_average ref_mean (FV 0) 1) [2] [2] [0] [2] (Tensor [1, 1, 3] (map FV [2, 4, 6])) = Tensor [1, 1, 2] (map FV [3, 3])"
  "onnx_average_pool ref_mean (FV 0) 1 [2] [2] [0] [0] [2] (Tensor [1, 1, 3] (map FV [2, 4, 6])) = Tensor [1, 1, 2] (map FV [3, 6])"
  by code_simp+

section \<open>Attributes and limits\<close>

lemma window_attributes_Inr:
  assumes par: "window_params op n ks ss ps qs" and a: "window_attributes op (int n) = Inr r"
  shows "r = (map int ks, map int ss, map int (ps @ qs))" "length ks = n" "length ss = n" "length ps = n" "length qs = n"
    "\<forall>k\<in>set ks. 0 < k" "\<forall>s\<in>set ss. 0 < s"
proof -
  have p: "getPoolArrayOr (wp_kernel_shape op) [] = map int ks" "getPoolArrayOr (wp_strides op) (replicate n 1) = map int ss"
    "getPoolArrayOr (wp_pads op) (replicate (2 * n) 0) = map int (ps @ qs)" "length ps = n"
    using par by (simp_all add: window_params_def)
  show "r = (map int ks, map int ss, map int (ps @ qs))" "length ks = n" "length ss = n" "length ps = n" "length qs = n"
    "\<forall>k\<in>set ks. 0 < k" "\<forall>s\<in>set ss. 0 < s"
    using a p by (auto simp: window_attributes_def Let_def intro!: gr0I split: if_splits)
qed

lemma window_limits_Inr:
  "length outs = length ks \<Longrightarrow> window_limits (zip (map int outs) (map int ks)) c k = Inr (c', k') \<Longrightarrow>
   k' = k * int (prod_list ks) \<and> (\<forall>n\<in>set outs. 0 < n)"
proof (induction outs ks arbitrary: c k rule: list_induct2)
  case (Cons x xs y ys)
  then show ?case using Cons.IH [of "c * int x" "k * int y"] by (simp add: mult.assoc split: if_splits)
qed simp

lemma window_limit_pos: "window_limit (map int outs) c = Inr c' \<Longrightarrow> \<forall>n\<in>set outs. 0 < n"
  by (induction outs arbitrary: c) (auto split: if_splits)

lemma fitsI32_dims: "list_all fitsI32 (map int ds) \<longleftrightarrow> i32_dims ds"
  by (auto simp: list_all_iff fitsI32_def i32_dims_def int32_max_def)

lemma native_outs:
  assumes "nativeOutputMatches [int kh, int kw] [int sh, int sw] [a, b, int oh, int ow] (int h) (int w)" "0 < kh" "0 < kw" "0 < sh" "0 < sw"
  shows "kh \<le> h" "kw \<le> w" "oh = valid_out h kh sh" "ow = valid_out w kw sw"
proof -
  show k: "kh \<le> h" "kw \<le> w" using assms(1) by (auto simp: nativeOutputMatches_def)
  have o: "cdiv (int h - int kh) (int sh) + 1 = int oh" "cdiv (int w - int kw) (int sw) + 1 = int ow"
    using assms(1) by (auto simp: nativeOutputMatches_def)
  have c: "m = valid_out d k s" if "k \<le> d" "0 < s" "cdiv (int d - int k) (int s) + 1 = int m" for d k s m
  proof -
    have "cdiv (int d - int k) (int s) = int ((d - k) div s)" using that(1,2) by (simp add: cdiv_nonneg zdiv_int of_nat_diff)
    then show ?thesis using that(3) by (simp add: valid_out_def)
  qed
  show "oh = valid_out h kh sh" by (rule c [OF k(1) assms(4) o(1)])
  show "ow = valid_out w kw sw" by (rule c [OF k(2) assms(5) o(2)])
qed

lemma somes_full: "length (somes w) = length w \<Longrightarrow> map (case_option z id) w = somes w"
proof (induction w)
  case (Cons x w)
  have "length (somes w) \<le> length w" by (simp add: somes_def)
  with Cons show ?case by (cases x) (auto simp: somes_def)
qed (simp add: somes_def)

lemma length_somes_le: "length (somes w) \<le> length w"
  by (simp add: somes_def)

section \<open>Cells\<close>

context tfl_reduce
begin

lemma eval_spatial_cell:
  assumes u: "eval sem env u = S" "wf_tensor S" "tshape S = pre @ bs @ post" "length bs = n" "trank S < 2 ^ 31"
    and cty: "cty = RankedTensor (map int (pre @ replicate n 1 @ post)) e"
  shows "eval sem env (reduction nm cty u (map int [length pre..<length pre + n]) True) =
    treduce red (spatial_mask (length pre) n (length post)) True S"
proof -
  have m: "axis_mask (trank S) [length pre..<length pre + n] = spatial_mask (length pre) n (length post)"
    using u(3,4) by (intro axis_mask_spatial) simp
  have "conforms cty (treduce red (spatial_mask (length pre) n (length post)) True S)"
    using keep_spatial [of pre "length pre" bs n post] u(3,4) by (simp add: cty conforms_Ranked)
  moreover have "set [length pre..<length pre + n] \<subseteq> {..<trank S}" using u(3,4) by auto
  ultimately show ?thesis using eval_reduction [OF u(2,1), of "[length pre..<length pre + n]" cty True] u(5) unfolding m by simp
qed

end

lemma eval_average_cell:
  assumes sem: "tfl_reduce sem ''tfl.mean'' mean" "tfl_binary sem ''tfl.mul'' [getFusedActivationNone] mulf maxrank"
    and u: "eval sem env u = S" "wf_tensor S" "tshape S = pre @ bs @ post" "length bs = n" "trank S < 2 ^ 31" "trank S \<le> maxrank"
    and cty: "cty = RankedTensor (map int (pre @ replicate n 1 @ post)) F32"
    and w: "w = average_cell ratio cip (int K) cty u (map int [length pre..<length pre + n]) (int c)"
  shows "eval sem env w = treduce (\<lambda>xs. if cip \<noteq> 0 \<and> c \<noteq> K then mulf (mean xs) (FV (ratio (int c) (int K))) else mean xs)
      (spatial_mask (length pre) n (length post)) True S \<and> vtype w = cty"
proof -
  let ?m = "spatial_mask (length pre) n (length post)" and ?r = "reduction ''tfl.mean'' cty u (map int [length pre..<length pre + n]) True"
  have r: "eval sem env ?r = treduce mean ?m True S" using u cty by (intro tfl_reduce.eval_spatial_cell [OF sem(1)])
  have ks: "keep_shape True ?m (pre @ bs @ post) = pre @ replicate n 1 @ post" using u(4) by (intro keep_spatial) simp_all
  show ?thesis
  proof (cases "cip \<noteq> 0 \<and> c \<noteq> K")
    case True
    then have w': "w = createTFLOperation ''tfl.mul'' [cty] [?r, createF32ScalarTensorConstant (ratio (int c) (int K))] [getFusedActivationNone] 0"
      using w by (simp add: average_cell_def Let_def)
    have "eval sem env w = tmap (\<lambda>a. mulf a (FV (ratio (int c) (int K)))) (treduce mean ?m True S)"
      unfolding w' using u ks cty by (intro tfl_binary.eval_scalar_right [OF sem(2) _ r]) (simp_all add: conforms_Ranked)
    then show ?thesis using True w' by (simp add: tmap_treduce)
  next
    case False
    then have "w = ?r" using w by (auto simp: average_cell_def Let_def)
    moreover have "(if cip \<noteq> 0 \<and> c \<noteq> K then mulf (mean xs) (FV (ratio (int c) (int K))) else mean xs) = mean xs" for xs using False by auto
    ultimately show ?thesis using r by (simp add: reduction_def)
  qed
qed

section \<open>Average pooling by the kernel\<close>

lemma tpad_zeros:
  assumes "wf_tensor x" "trank x = 4" shows "tpad [0, 0, 0, 0] [0, 0, 0, 0] z x = x"
proof -
  have "replicate (trank x) 0 = [0, 0, 0, 0 :: nat]" using assms(2) by (simp add: numeral_eq_Suc)
  with tpad_none [OF assms(1), of z] show ?thesis by simp
qed

lemma eval_native:
  assumes sem: "tfl_pool sem ''tfl.average_pool_2d'' average_pool_attributes mean"
    and x: "wf_tensor x" "tshape x = [n, h, w, c]" "eval sem env v = x" and i: "i32_dims [kh, kw]" "i32_dims [sh, sw]"
    and k: "0 < kh" "kh \<le> h" "0 < kw" "kw \<le> w" "0 < sh" "0 < sw"
    and r: "r = gpool 1 (mean \<circ> somes) [kh, kw] [sh, sw] [0, 0] [valid_out h kh sh, valid_out w kw sw] x" "conforms ty r"
  shows "eval sem env (emit_average_pool ty [int kh, int kw] [int sh, int sw] v) = r"
proof -
  have "i32 (int kh) = int kh" "i32 (int kw) = int kw" "i32 (int sh) = int sh" "i32 (int sw) = int sw"
    using i by (simp_all add: i32_dims_def i32_id fits_i32_def)
  then show ?thesis
    using tfl_pool.eval_pool_valid [OF sem x k r] by (simp add: emit_average_pool_def average_pool_attributes_def)
qed

text \<open>With materialised zeros the kernel averages over whole windows.\<close>

lemma eval_native_padded:
  assumes sem: "tfl_pool sem ''tfl.average_pool_2d'' average_pool_attributes mean" "tfl_zero_pad sem zero"
    and x: "wf_tensor x" "tshape x = [n, h, w, c]" "eval sem env input = x" "vtype input = RankedTensor (map int [n, h, w, c]) F32"
    and i: "i32_dims [kh, kw]" "i32_dims [sh, sw]" "i32_dims [pt, pl, pb, pr]" "i32_dims [n, h, w, c]"
    and k: "0 < kh" "kh \<le> h + pt + pb" "0 < kw" "kw \<le> w + pl + pr" "0 < sh" "0 < sw"
    and r: "r = gpool 1 (mean \<circ> map (case_option zero id)) [kh, kw] [sh, sw] [pt, pl] [valid_out (h + pt + pb) kh sh, valid_out (w + pl + pr) kw sw] x"
      "conforms ty r"
    and v: "v = (if [pt, pl, pb, pr] \<noteq> [0, 0, 0, 0]
      then createTFLOperation ''tfl.pad'' [padded_pool_type (map int [n, h, w, c]) (map int [pt, pl, pb, pr]) F32] [input, pool_padding (map int [pt, pl, pb, pr])] [] 0
      else input)"
  shows "eval sem env (emit_average_pool ty [int kh, int kw] [int sh, int sw] v) = r"
proof -
  let ?y = "tpad [0, pt, pl, 0] [0, pb, pr, 0] zero x" and ?H = "h + (pt + pb)" and ?W = "w + (pl + pr)"
  have ys: "wf_tensor ?y" "tshape ?y = [n, ?H, ?W, c]" by (simp_all add: tpad_def x(2))
  have "eval sem env v = ?y"
  proof (cases "[pt, pl, pb, pr] = [0, 0, 0, 0]")
    case True
    then show ?thesis using v x tpad_zeros [of x zero] by simp
  next
    case False
    have sml: "h < 2 ^ 31" "w < 2 ^ 31" "pt < 2 ^ 31" "pb < 2 ^ 31" "pl < 2 ^ 31" "pr < 2 ^ 31" using i by (simp_all add: i32_dims_def)
    then have ty: "padded_pool_type (map int [n, h, w, c]) (map int [pt, pl, pb, pr]) F32 = RankedTensor (map int (tshape ?y)) F32"
      by (simp add: padded_pool_type_def ys(2) i64_id)
    have pp: "eval sem env (pool_padding (map int [pt, pl, pb, pr])) = pad_matrix [0, pt, pl, 0] [0, pb, pr, 0]"
      using pool_padding_matrix [OF i(3), of sem env] by simp
    have "v = createTFLOperation ''tfl.pad'' [RankedTensor (map int (tshape ?y)) F32] [input, pool_padding (map int [pt, pl, pb, pr])] [] 0"
      using v False unfolding ty by simp
    then show ?thesis
      using tfl_zero_pad.pad [OF sem(2) x(1), of "[0, pt, pl, 0]" "[0, pb, pr, 0]" "[RankedTensor (map int (tshape ?y)) F32]"] x(2,3) pp ys(1)
      by (simp add: conforms_Ranked eval_operands del: list.map)
  qed
  moreover have "gpool 1 (mean \<circ> somes) [kh, kw] [sh, sw] [0, 0] [valid_out (h + pt + pb) kh sh, valid_out (w + pl + pr) kw sw] ?y = r"
    unfolding r using valid_out_fits k by (intro gpool_tpad [OF x(2) refl]) simp_all
  ultimately show ?thesis
    using k r(2) by (intro eval_native [OF sem(1) ys _ i(1,2)]) (simp_all add: add.assoc)
qed

section \<open>Average pooling\<close>

lemma average_cell_padded:
  assumes "length w = K" "somes w \<noteq> []"
    and "cip \<noteq> 0 \<longrightarrow> (\<forall>w. length w = K \<and> somes w \<noteq> [] \<and> length (somes w) < length w \<longrightarrow>
      mulf (mean (somes w)) (FV (ratio (int (length (somes w))) (int K))) = mean (map (case_option zero id) w))"
  shows "(if cip \<noteq> 0 \<and> length (somes w) \<noteq> K then mulf (mean (somes w)) (FV (ratio (int (length (somes w))) (int K))) else mean (somes w)) =
    padded_average mean zero cip w"
  using assms length_somes_le [of w] somes_full [of w zero] by (auto simp: padded_average_def)

lemma average_static:
  assumes sem: "tfl_reduce sem ''tfl.mean'' mean" "tfl_binary sem ''tfl.mul'' [getFusedActivationNone] mulf 5" "tfl_assembly sem"
    and low: "static_windows (map int (tshape t)) (map int (pre @ drop 2 (tshape t) @ post)) (map int (pre @ outs @ post)) (map int outs) (map int ks)
      (map int ss) (map int (ps @ qs)) input (average_cell ratio cip (int (prod_list ks))) = Inr v"
    and x: "wf_tensor x" "tshape x = pre @ drop 2 (tshape t) @ post" "eval sem env input = x" "i32_dims (tshape x)" "trank x = trank t"
    and r: "3 \<le> trank t" "trank t \<le> 5" "length pre = spatial_start (trank t)"
    and l: "length ks + 2 = trank t" "length ss + 2 = trank t" "length ps + 2 = trank t" "length outs + 2 = trank t" "\<forall>n\<in>set outs. 0 < n"
    and exact: "cip \<noteq> 0 \<longrightarrow> (\<forall>w. length w = prod_list ks \<and> somes w \<noteq> [] \<and> length (somes w) < length w \<longrightarrow>
      mulf (mean (somes w)) (FV (ratio (int (length (somes w))) (int (prod_list ks)))) = mean (map (case_option zero id) w))"
  shows "eval sem env v = gpool (length pre) (padded_average mean zero cip) ks ss ps outs x \<and> vtype v = RankedTensor (map int (pre @ outs @ post)) F32"
proof -
  let ?ds = "drop 2 (tshape t)" and ?K = "prod_list ks"
  let ?f = "\<lambda>n xs. if cip \<noteq> 0 \<and> n \<noteq> ?K then mulf (mean xs) (FV (ratio (int n) (int ?K))) else mean xs"
  have ld: "length ?ds + 2 = trank t" using r(1) by simp
  have ll: "length ks = length ?ds" "length ss = length ?ds" "length ps = length ?ds" "length outs = length ?ds" using l ld by simp_all
  have tx: "trank t = trank x" using x(5) by simp
  have rk: "trank t = length pre + (length ?ds + length post)" using x(2,5) by simp
  have *: "eval sem env v = gpool (length pre) (\<lambda>w. ?f (length (somes w)) (somes w)) ks ss ps outs x \<and>
      vtype v = RankedTensor (map int (pre @ outs @ post)) F32 \<and>
      (\<forall>js. valid_ix outs js \<longrightarrow> (\<forall>j<length ?ds. 0 < box_sizes ?ds ks ss ps js ! j))"
  proof (rule tfl_assembly.eval_static_windows [OF sem(3) low x(1-4) tx refl r(3) ld r(1,2) refl ll l(5)])
    fix u S bs cty w
    assume u: "eval sem env u = S" "wf_tensor S" "tshape S = pre @ bs @ post" "length bs = length ?ds"
      and c: "cty = RankedTensor (map int (pre @ replicate (length ?ds) 1 @ post)) F32"
        "w = average_cell ratio cip (int ?K) cty u (map int [length pre..<length pre + length ?ds]) (int (prod_list bs))"
    have "trank S = trank t" unfolding rk u(3) using u(4) by simp
    then have S: "trank S \<le> 5" "trank S < 2 ^ 31" using r(2) by simp_all
    show "eval sem env w = treduce (?f (prod_list bs)) (spatial_mask (length pre) (length ?ds) (length post)) True S \<and> vtype w = cty"
      by (rule eval_average_cell [OF sem(1,2) u S(2,1) c])
  qed
  have "gpool (length pre) (\<lambda>w. ?f (length (somes w)) (somes w)) ks ss ps outs x = gpool (length pre) (padded_average mean zero cip) ks ss ps outs x"
  proof (rule gpool_cong [OF x(2) ll(4) [symmetric]])
    fix js and elem :: "nat list \<Rightarrow> 'a scalar" assume js: "valid_ix outs js"
    let ?w = "window ks ss ps ?ds elem js"
    have lj: "length js = length ?ds" using valid_ix_length [OF js] ll(4) by simp
    have ne: "somes ?w \<noteq> []" using * js by (intro somes_window_empty [OF refl ll(1-3) lj]) blast
    show "?f (length (somes ?w)) (somes ?w) = padded_average mean zero cip ?w"
      by (rule average_cell_padded [where ratio = ratio]) (use ne exact in simp_all)
  qed
  with * show ?thesis by simp
qed

lemma average_native:
  assumes sem: "tfl_pool sem ''tfl.average_pool_2d'' average_pool_attributes mean" "tfl_zero_pad sem zero"
    and x: "wf_tensor x" "tshape x = [n, h, w, c]" "eval sem env input = x" "vtype input = RankedTensor (map int [n, h, w, c]) F32"
    and i: "i32_dims [kh, kw]" "i32_dims [sh, sw]" "i32_dims [pt, pl, pb, pr]" "i32_dims [n, h, w, c]"
    and k: "0 < kh" "0 < kw" "0 < sh" "0 < sw"
    and native: "cip = 0 \<and> pads = [0, 0, 0, 0] \<and> nativeOutputMatches [int kh, int kw] [int sh, int sw] [a, b, int oh, int ow] (int h) (int w) \<or>
      cip = 1 \<and> nativeOutputMatches [int kh, int kw] [int sh, int sw] [a, b, int oh, int ow] (int (h + pt + pb)) (int (w + pl + pr))"
    and pads: "pads = [pt, pl, pb, pr]"
    and r: "r = gpool 1 (padded_average mean zero cip) [kh, kw] [sh, sw] [pt, pl] [oh, ow] x" "conforms ty r"
    and u: "u = (if cip = 1 \<and> pads \<noteq> [0, 0, 0, 0]
      then createTFLOperation ''tfl.pad'' [padded_pool_type (map int [n, h, w, c]) (map int [pt, pl, pb, pr]) F32] [input, pool_padding (map int [pt, pl, pb, pr])] [] 0
      else input)"
  shows "eval sem env (emit_average_pool ty [int kh, int kw] [int sh, int sw] u) = r"
  using native
proof (elim disjE conjE)
  assume c: "cip = 0" "pads = [0, 0, 0, 0]" "nativeOutputMatches [int kh, int kw] [int sh, int sw] [a, b, int oh, int ow] (int h) (int w)"
  note o = native_outs [OF c(3) k]
  have "padded_average mean zero cip = mean \<circ> somes" using c(1) by (auto simp: padded_average_def)
  then have "r = gpool 1 (mean \<circ> somes) [kh, kw] [sh, sw] [0, 0] [valid_out h kh sh, valid_out w kw sw] x" using r(1) pads c(2) o by simp
  moreover have "u = input" using u c by simp
  ultimately show ?thesis using eval_native [OF sem(1) x(1-3) i(1,2) k(1) o(1) k(2) o(2) k(3,4) _ r(2)] by simp
next
  assume c: "cip = 1" "nativeOutputMatches [int kh, int kw] [int sh, int sw] [a, b, int oh, int ow] (int (h + pt + pb)) (int (w + pl + pr))"
  note o = native_outs [OF c(2) k]
  have "padded_average mean zero cip = mean \<circ> map (case_option zero id)" using c(1) by (auto simp: padded_average_def)
  then have e: "r = gpool 1 (mean \<circ> map (case_option zero id)) [kh, kw] [sh, sw] [pt, pl] [valid_out (h + pt + pb) kh sh, valid_out (w + pl + pr) kw sw] x"
    using r(1) o by simp
  have "u = (if [pt, pl, pb, pr] \<noteq> [0, 0, 0, 0]
      then createTFLOperation ''tfl.pad'' [padded_pool_type (map int [n, h, w, c]) (map int [pt, pl, pb, pr]) F32] [input, pool_padding (map int [pt, pl, pb, pr])] [] 0
      else input)" using u c(1) pads by simp
  then show ?thesis by (rule eval_native_padded [OF sem x i k(1) o(1) k(2) o(2) k(3,4) e r(2)])
qed

lemma guard_passed: "(if b then Inl e else r) = Inr v \<Longrightarrow> r = Inr v"
  by (simp split: if_splits)

lemma physical_facts:
  assumes t: "conforms (oty x) t" "env 0 = phys (oty x) t" "i32_dims (tshape t)" and r: "3 \<le> trank t"
  shows "wf_tensor (phys (oty x) t)" "eval sem env (adaptor 0 x) = phys (oty x) t" "trank (phys (oty x) t) = trank t" "i32_dims (tshape (phys (oty x) t))"
proof -
  obtain e where x: "oty x = RankedTensor (map int (tshape t)) e" and w: "wf_tensor t" using t(1) by (auto simp: conforms_def)
  show "wf_tensor (phys (oty x) t)" "eval sem env (adaptor 0 x) = phys (oty x) t" "trank (phys (oty x) t) = trank t"
    using t w by (simp_all add: phys_def x physical4_def)
  have "set (tshape (phys (oty x) t)) \<subseteq> set (tshape t)"
    by (auto simp: phys_def physical4_def x permute_def to_nhwc_def intro!: nth_mem)
  then show "i32_dims (tshape (phys (oty x) t))" using t(3) by (auto simp: i32_dims_def)
qed

lemma rank_facts:
  assumes ty: "conforms (RankedTensor os e) (tpool g ks ss ps outs t)" and "3 \<le> trank t" "length os = trank t"
  shows "length outs + 2 = trank t" "os = map int (take 2 (tshape t) @ outs)"
proof -
  show o: "os = map int (take 2 (tshape t) @ outs)" using ty by (simp add: conforms_Ranked)
  show "length outs + 2 = trank t" using arg_cong [OF o, of length] assms(2,3) by simp
qed

lemma average_pool_represents:
  assumes sem: "tfl_pool sem ''tfl.average_pool_2d'' average_pool_attributes mean" "tfl_zero_pad sem zero" "tfl_reduce sem ''tfl.mean'' mean"
      "tfl_binary sem ''tfl.mul'' [getFusedActivationNone] mulf 5" "tfl_assembly sem"
    and low: "lower_average_pool ratio op = Inr v"
    and t: "conforms (oty (wp_x op)) t" "env 0 = phys (oty (wp_x op)) t" "i32_dims (tshape t)"
    and par: "window_params op (trank t - 2) ks ss ps qs" "i32_dims ks" "i32_dims ss" "i32_dims (ps @ qs)"
    and res: "conforms (wp_result op) (tpool (padded_average mean zero (ap_count_include_pad op)) ks ss ps outs t)"
    and exact: "ap_count_include_pad op \<noteq> 0 \<longrightarrow> (\<forall>w. length w = prod_list ks \<and> somes w \<noteq> [] \<and> length (somes w) < length w \<longrightarrow>
      mulf (mean (somes w)) (FV (ratio (int (length (somes w))) (int (prod_list ks)))) = mean (map (case_option zero id) w))"
  shows "represents sem env v (wp_result op) (tpool (padded_average mean zero (ap_count_include_pad op)) ks ss ps outs t)"
proof -
  let ?ity = "oty (wp_x op)" and ?ty = "wp_result op" and ?cip = "ap_count_include_pad op" and ?in = "adaptor 0 (wp_x op)"
  let ?g = "padded_average mean zero (ap_count_include_pad op)" and ?n = "trank t - 2" and ?ds = "drop 2 (tshape t)" and ?pads = "map int (ps @ qs)"
  let ?spec = "tpool ?g ks ss ps outs t" and ?x = "phys (oty (wp_x op)) t"
  obtain ie where ity: "?ity = RankedTensor (map int (tshape t)) ie" and wt: "wf_tensor t" using t(1) by (auto simp: conforms_def)
  obtain os oe where ty: "?ty = RankedTensor os oe" using res by (auto simp: conforms_def)
  have c: "3 \<le> trank t" "trank t \<le> 5" "length os = trank t" "ie = F32" "oe = F32"
    using low by (auto simp: lower_average_pool_def ity ty Let_def getRank_def split: if_splits elim!: not_failedE)
  have o: "length outs + 2 = trank t" "os = map int (take 2 (tshape t) @ outs)" using rank_facts [OF res [unfolded ty] c(1,3)] by simp_all
  obtain pre post where pp: "tshape ?x = pre @ ?ds @ post" "length pre = spatial_start (trank t)"
    "\<And>outs (s :: 'a scalar tensor) os. length outs + 2 = trank t \<Longrightarrow> conforms (RankedTensor os F32) s \<Longrightarrow> tshape s = take 2 (tshape t) @ outs \<Longrightarrow>
       convertRank4NCHWToNHWCType (RankedTensor os F32) = RankedTensor (map int (pre @ outs @ post)) F32"
    using physical_split [of "map int (tshape t)" t] t(1) c(1) unfolding ity c(4) by blast
  have cty: "convertRank4NCHWToNHWCType ?ty = RankedTensor (map int (pre @ outs @ post)) F32"
    unfolding ty c(5) using res o by (intro pp(3) [of _ os ?spec]) (simp_all add: ty c(5))
  have city: "convertRank4NCHWToNHWCType ?ity = RankedTensor (map int (pre @ ?ds @ post)) F32"
    unfolding ity c(4) using t(1) c(1) by (intro pp(3) [of _ _ t]) (simp_all add: ity c(4))
  have spec: "phys ?ty ?spec = gpool (length pre) ?g ks ss ps outs ?x"
    unfolding pp(2) using o by (intro phys_tpool) (simp_all add: ity ty c)
  have cf: "conforms (convertRank4NCHWToNHWCType ?ty) (gpool (length pre) ?g ks ss ps outs ?x)" using convert_conforms [OF res] unfolding spec .
  note x = physical_facts [where env = env and x = "wp_x op", OF t c(1)]
  obtain r where r: "window_attributes op (int ?n) = Inr r"
    using low c by (auto simp: lower_average_pool_def ity ty Let_def getRank_def of_nat_diff split: if_splits)
  note wa = window_attributes_Inr [OF par(1) r]
  let ?nat = "int (trank t) = 4 \<and> ?cip = 0 \<and> (\<forall>value\<in>set ?pads. value = 0) \<and> nativeOutputMatches (map int ks) (map int ss) os (map int (tshape t) ! 2) (map int (tshape t) ! 3)"
  let ?nip = "int (trank t) = 4 \<and> ?cip = 1 \<and> nativeOutputMatches (map int ks) (map int ss) os
      (i64 (i64 (map int (tshape t) ! 2 + ?pads ! 0) + ?pads ! 2)) (i64 (i64 (map int (tshape t) ! 3 + ?pads ! 1) + ?pads ! 3))"
  let ?u = "if ?nip \<and> \<not> (\<forall>value\<in>set ?pads. value = 0)
      then createTFLOperation ''tfl.pad'' [padded_pool_type (map int (pre @ ?ds @ post)) ?pads F32] [?in, pool_padding ?pads] [] 0 else ?in"
  have body: "(if ?nat \<or> ?nip then Inr (emit_average_pool (RankedTensor (map int (pre @ outs @ post)) F32) (map int ks) (map int ss) ?u)
      else if \<not> list_all fitsI32 (map int (tshape t)) \<or> \<not> list_all fitsI32 os \<or> \<not> list_all fitsI32 (map int ks) \<or>
        \<not> list_all fitsI32 (map int ss) \<or> \<not> list_all fitsI32 ?pads then Inl DimExceedsI32
      else bind_result (window_limits (zip (map int outs) (map int ks)) 1 1) (\<lambda>(windowCount, kernelElementCount).
        static_windows (map int (tshape t)) (map int (pre @ ?ds @ post)) (map int (pre @ outs @ post)) (map int outs) (map int ks) (map int ss) ?pads ?in
          (average_cell ratio ?cip kernelElementCount))) = Inr v"
  proof -
    have vt: "vtype ?in = RankedTensor (map int (pre @ ?ds @ post)) F32" using city by simp
    have guard: "(int (trank t) < 3 \<or> 5 < int (trank t) \<or> getRank os \<noteq> int (trank t) \<or> failed (validateStaticF32Tensor (RankedTensor (map int (tshape t)) ie)) \<or>
        failed (validateStaticF32Tensor (RankedTensor os oe))) = False"
      using low by (auto simp: lower_average_pool_def ity ty Let_def split: if_splits)
    have n: "int (trank t) - 2 = int ?n" "drop 2 os = map int outs" unfolding o(2) using c(1) by simp_all
    note low1 = low [unfolded lower_average_pool_def ity ty mtype.case prod.case Let_def getRank_map_int guard if_False n r bind_result_simps wa(1)]
    note low2 = low1 [unfolded vt [unfolded ity] cty [unfolded ty] mtype.case prod.case]
    show ?thesis using low2 [THEN guard_passed, THEN guard_passed, THEN guard_passed] unfolding ity n .
  qed
  have fin: ?thesis if "eval sem env v = gpool (length pre) ?g ks ss ps outs ?x" "vtype v = RankedTensor (map int (pre @ outs @ post)) F32"
    using that res spec cty by (simp add: represents_def)
  show ?thesis
  proof (cases "?nat \<or> ?nip")
    case False
    note b = body [unfolded if_not_P [OF False], THEN guard_passed]
    obtain windowCount k where k: "window_limits (zip (map int outs) (map int ks)) 1 1 = Inr (windowCount, k)"
      "static_windows (map int (tshape t)) (map int (pre @ ?ds @ post)) (map int (pre @ outs @ post)) (map int outs) (map int ks) (map int ss) ?pads ?in
          (average_cell ratio ?cip k) = Inr v" using b unfolding bind_result_Inr_iff by auto
    have lk: "length outs = length ks" using wa(2) o(1) by simp
    have kk: "k = int (prod_list ks)" "\<forall>n\<in>set outs. 0 < n" using window_limits_Inr [OF lk k(1)] by simp_all
    have l: "length ks + 2 = trank t" "length ss + 2 = trank t" "length ps + 2 = trank t" using wa(2-4) c(1) by simp_all
    show ?thesis
      using average_static [OF sem(3,4,5) k(2) [unfolded kk(1)] x(1) pp(1) x(2,4,3) c(1,2) pp(2) l o(1) kk(2) exact] by (intro fin) simp_all
  next
    case True
    then have r4: "trank t = 4" by auto
    obtain n cn h w where sh: "tshape t = [n, cn, h, w]" using list4 [OF r4] by blast
    have l2: "length ks = 2" "length ss = 2" "length ps = 2" "length qs = 2" "length outs = 2" using wa(2-5) o(1) r4 by simp_all
    obtain kh kw where ks: "ks = [kh, kw]" using list2 [OF l2(1)] by blast
    obtain sh' sw where ss: "ss = [sh', sw]" using list2 [OF l2(2)] by blast
    obtain pt pl where ps: "ps = [pt, pl]" using list2 [OF l2(3)] by blast
    obtain pb pr where qs: "qs = [pb, pr]" using list2 [OF l2(4)] by blast
    obtain oh ow where ou: "outs = [oh, ow]" using list2 [OF l2(5)] by blast
    have "length pre = 1" "length post = 1" using pp(2) arg_cong [OF pp(1), of length] x(3) r4 sh by (simp_all add: spatial_start_def)
    then obtain a b where pq: "pre = [a]" "post = [b]" by (auto simp: length_Suc_conv)
    have xs: "tshape ?x = [a, h, w, b]" using pp(1) by (simp add: pq sh)
    have v: "v = emit_average_pool (RankedTensor (map int (pre @ outs @ post)) F32) [int kh, int kw] [int sh', int sw] ?u"
      using body True by (simp add: ks ss)
    have pos: "0 < kh" "0 < kw" "0 < sh'" "0 < sw" using wa(6,7) by (simp_all add: ks ss)
    have i: "i32_dims [kh, kw]" "i32_dims [sh', sw]" "i32_dims [pt, pl, pb, pr]" "i32_dims [a, h, w, b]"
      using par(2-4) x(4) xs by (simp_all add: ks ss ps qs)
    have sml: "h < 2 ^ 31" "w < 2 ^ 31" "pt < 2 ^ 31" "pb < 2 ^ 31" "pl < 2 ^ 31" "pr < 2 ^ 31" using i(3,4) by (simp_all add: i32_dims_def)
    have nat: "?cip = 0 \<and> [pt, pl, pb, pr] = [0, 0, 0, 0] \<and> nativeOutputMatches [int kh, int kw] [int sh', int sw] [int n, int cn, int oh, int ow] (int h) (int w) \<or>
      ?cip = 1 \<and> nativeOutputMatches [int kh, int kw] [int sh', int sw] [int n, int cn, int oh, int ow] (int (h + pt + pb)) (int (w + pl + pr))"
      using True sml by (auto simp: ks ss ps qs o(2) sh ou i64_id)
    have u: "?u = (if ?cip = 1 \<and> [pt, pl, pb, pr] \<noteq> [0, 0, 0, 0]
      then createTFLOperation ''tfl.pad'' [padded_pool_type (map int [a, h, w, b]) (map int [pt, pl, pb, pr]) F32] [?in, pool_padding (map int [pt, pl, pb, pr])] [] 0
      else ?in)"
      using True by (auto simp: ps qs pq sh)
    have vt: "vtype ?in = RankedTensor (map int [a, h, w, b]) F32" using city by (simp add: pq sh)
    have rr: "gpool (length pre) ?g ks ss ps outs ?x = gpool 1 ?g [kh, kw] [sh', sw] [pt, pl] [oh, ow] ?x" by (simp add: pq ks ss ps ou)
    have "eval sem env v = gpool (length pre) ?g ks ss ps outs ?x"
      unfolding v by (rule average_native [OF sem(1,2) x(1) xs x(2) vt i pos nat refl rr cf [unfolded cty] u])
    then show ?thesis by (rule fin) (simp add: v emit_average_pool_def)
  qed
qed

text \<open>
  C25: when the AveragePool pattern succeeds, the created value represents the ONNX operator on the logical operand,
  for one to three spatial axes, through the kernel, through the kernel on materialised zeros, or unrolled. Two conditions
  concern operators that count the padding. No window runs past the padded input, as ceil mode allows: there the pattern still
  divides by the size of the kernel (\<open>ceil_overrun_divisor\<close>). And scaling the mean of a window at the border by the share of its
  elements inside the input is exact, as it is on real numbers (\<open>average_exact_real\<close>).
\<close>

theorem lower_average_pool_correct:
  assumes sem: "tfl_pool sem ''tfl.average_pool_2d'' average_pool_attributes mean" "tfl_zero_pad sem zero" "tfl_reduce sem ''tfl.mean'' mean"
      "tfl_binary sem ''tfl.mul'' [getFusedActivationNone] mulf 5" "tfl_assembly sem"
    and low: "lower_average_pool ratio op = Inr v"
    and t: "conforms (oty (wp_x op)) t" "env 0 = phys (oty (wp_x op)) t" "i32_dims (tshape t)"
    and par: "window_params op (trank t - 2) ks ss ps qs" "i32_dims ks" "i32_dims ss" "i32_dims (ps @ qs)"
    and res: "conforms (wp_result op) (onnx_average_pool mean zero (ap_count_include_pad op) ks ss ps qs outs t)"
    and fit: "ap_count_include_pad op \<noteq> 0 \<longrightarrow> windows_fit (drop 2 (tshape t)) ks ss ps qs outs"
    and exact: "ap_count_include_pad op \<noteq> 0 \<longrightarrow> (\<forall>w. length w = prod_list ks \<and> somes w \<noteq> [] \<and> length (somes w) < length w \<longrightarrow>
      mulf (mean (somes w)) (FV (ratio (int (length (somes w))) (int (prod_list ks)))) = mean (map (case_option zero id) w))"
  shows "represents sem env v (wp_result op) (onnx_average_pool mean zero (ap_count_include_pad op) ks ss ps qs outs t)"
proof -
  let ?os = "onnx_average_pool mean zero (ap_count_include_pad op) ks ss ps qs outs t"
  obtain ie os oe where ty: "oty (wp_x op) = RankedTensor (map int (tshape t)) ie" "wp_result op = RankedTensor (map int (tshape ?os)) oe"
    using t(1) res by (auto simp: conforms_def)
  have c: "3 \<le> trank t" "length (tshape ?os) = trank t"
    using low by (auto simp: lower_average_pool_def ty Let_def getRank_def split: if_splits elim!: not_failedE)
  have "\<not> failed (window_attributes op (int (trank t - 2)))"
    using low c by (auto simp: lower_average_pool_def ty Let_def getRank_def of_nat_diff failed_def split: if_splits)
  then obtain r where r: "window_attributes op (int (trank t - 2)) = Inr r" by (rule not_failedE)
  note wa = window_attributes_Inr [OF par(1) r]
  have "length (tshape ?os) = 2 + length outs"
    using c(1) wa by (simp add: onnx_average_pool_def tpad_def)
  then have "?os = tpool (padded_average mean zero (ap_count_include_pad op)) ks ss ps outs t"
    using c wa fit by (intro onnx_average_pool_padded) simp_all
  then show ?thesis using average_pool_represents [where env = env, OF sem low t par _ exact] res by simp
qed

text \<open>On real numbers the scaling is exact.\<close>

definition real_part :: "real scalar \<Rightarrow> real" where
  "real_part s = (case s of FV a \<Rightarrow> a | _ \<Rightarrow> 0)"

definition real_mean :: "real scalar list \<Rightarrow> real scalar" where
  "real_mean xs = FV (sum_list (map real_part xs) / real (length xs))"

lemma average_exact_real:
  assumes "somes w \<noteq> []"
  shows "fmul real_arith (real_mean (somes w)) (FV (real_of_int (int (length (somes w))) / real_of_int (int (length w)))) =
    real_mean (map (case_option (FV 0) id) w)"
proof -
  have "sum_list (map real_part (map (case_option (FV 0) id) w)) = sum_list (map real_part (somes w))"
    unfolding somes_def by (induction w) (auto simp: real_part_def split: option.splits)
  moreover have "length (somes w) \<noteq> 0" using assms by simp
  ultimately show ?thesis by (simp add: real_mean_def real_arith_def lift2_def)
qed

section \<open>L2 pooling\<close>

definition onnx_l2 :: "('a list \<Rightarrow> 'a) \<Rightarrow> ('a \<Rightarrow> 'a \<Rightarrow> 'a) \<Rightarrow> ('a \<Rightarrow> 'a) \<Rightarrow> 'a list \<Rightarrow> 'a" where
  "onnx_l2 sumf mulf sqrtf xs = sqrtf (sumf (map (\<lambda>e. mulf e e) xs))"

text \<open>With \<^verbatim>\<open>auto_pad\<close> \<^verbatim>\<open>VALID\<close> there is no padding, whatever \<^verbatim>\<open>pads\<close> says.\<close>

definition onnx_pads :: "('f, 'z) window_op_scheme \<Rightarrow> nat list \<Rightarrow> nat list" where
  "onnx_pads op ps = (if wp_auto_pad op = ''VALID'' then map (\<lambda>_. 0) ps else ps)"

locale tfl_l2 = mul: tfl_binary sem "''tfl.mul''" "[getFusedActivationNone]" mulf 5 +
    sum: tfl_reduce sem "''tfl.sum''" sumf + sqrt: tfl_unary sem "''tfl.sqrt''" "[]" sqrtf
  for sem :: "'f sem" and mulf sumf sqrtf
begin

lemma eval_square:
  assumes "wf_tensor x" "eval sem env v = x" "conforms ty x" "trank x \<le> 5"
  shows "eval sem env (square ty v) = tmap (\<lambda>e. mulf e e) x"
proof -
  have v: "eval sem env v = tmap (\<lambda>a. a) x" using assms(2) by (simp add: tmap_def)
  show ?thesis unfolding square_def using mul.eval_same_shape [OF assms(1) v v assms(3,4)] .
qed

lemma eval_l2_norm:
  assumes u: "eval sem env u = S" "wf_tensor S" "tshape S = pre @ bs @ post" "length bs = n" "trank S < 2 ^ 31"
    and cty: "cty = RankedTensor (map int (pre @ replicate n 1 @ post)) F32"
  shows "eval sem env (l2_norm cty u (map int [length pre..<length pre + n])) =
    treduce (\<lambda>xs. sqrtf (sumf xs)) (spatial_mask (length pre) n (length post)) True S"
    and "vtype (l2_norm cty u (map int [length pre..<length pre + n])) = cty"
proof -
  let ?m = "spatial_mask (length pre) n (length post)"
  have r: "eval sem env (reduction ''tfl.sum'' cty u (map int [length pre..<length pre + n]) True) = treduce sumf ?m True S"
    using u cty by (intro sum.eval_spatial_cell)
  have "conforms cty (treduce sumf ?m True S)" using keep_spatial [of pre "length pre" bs n post] u(3,4) by (simp add: cty conforms_Ranked)
  then show "eval sem env (l2_norm cty u (map int [length pre..<length pre + n])) = treduce (\<lambda>xs. sqrtf (sumf xs)) ?m True S"
    using sqrt.eval_unary [OF _ r] by (simp add: l2_norm_def tmap_treduce)
  show "vtype (l2_norm cty u (map int [length pre..<length pre + n])) = cty" by (simp add: l2_norm_def)
qed

end

text \<open>
  C26: when the LpPool pattern succeeds, the created value represents the square root of the sum of the squares of each window,
  for one to three spatial axes. The pattern does not look at the pads when \<^verbatim>\<open>auto_pad\<close> is \<^verbatim>\<open>VALID\<close>, so they have to be zero then.
\<close>

theorem lower_lp_pool_correct:
  assumes sem: "tfl_l2 sem mulf sumf sqrtf" "tfl_assembly sem"
    and low: "lower_lp_pool op = Inr v"
    and t: "conforms (oty (wp_x op)) t" "env 0 = phys (oty (wp_x op)) t"
    and par: "window_params op (trank t - 2) ks ss ps qs" "wp_auto_pad op = ''VALID'' \<longrightarrow> set ps \<subseteq> {0}"
    and res: "conforms (wp_result op) (tpool (onnx_l2 sumf mulf sqrtf \<circ> somes) ks ss (onnx_pads op ps) outs t)"
  shows "represents sem env v (wp_result op) (tpool (onnx_l2 sumf mulf sqrtf \<circ> somes) ks ss (onnx_pads op ps) outs t)"
proof -
  let ?ity = "oty (wp_x op)" and ?ty = "wp_result op" and ?in = "adaptor 0 (wp_x op)" and ?l2 = "onnx_l2 sumf mulf sqrtf"
  let ?n = "trank t - 2" and ?ds = "drop 2 (tshape t)" and ?pads = "map int (ps @ qs)" and ?x = "phys (oty (wp_x op)) t"
  have op: "onnx_pads op ps = ps" using par(2) by (auto simp: onnx_pads_def intro!: map_idI)
  let ?spec = "tpool (?l2 \<circ> somes) ks ss ps outs t"
  note res' = res [unfolded op]
  obtain ie where ity: "?ity = RankedTensor (map int (tshape t)) ie" and wt: "wf_tensor t" using t(1) by (auto simp: conforms_def)
  obtain os oe where ty: "?ty = RankedTensor os oe" using res by (auto simp: conforms_def)
  have c: "3 \<le> trank t" "trank t \<le> 5" "length os = trank t" "ie = F32" "oe = F32"
    using low by (auto simp: lower_lp_pool_def ity ty Let_def getRank_def split: if_splits elim!: not_failedE)
  have o: "length outs + 2 = trank t" "os = map int (take 2 (tshape t) @ outs)" using rank_facts [OF res' [unfolded ty] c(1,3)] by simp_all
  obtain pre post where pp: "tshape ?x = pre @ ?ds @ post" "length pre = spatial_start (trank t)"
    "\<And>outs (s :: 'a scalar tensor) os. length outs + 2 = trank t \<Longrightarrow> conforms (RankedTensor os F32) s \<Longrightarrow> tshape s = take 2 (tshape t) @ outs \<Longrightarrow>
       convertRank4NCHWToNHWCType (RankedTensor os F32) = RankedTensor (map int (pre @ outs @ post)) F32"
    using physical_split [of "map int (tshape t)" t] t(1) c(1) unfolding ity c(4) by blast
  have cty: "convertRank4NCHWToNHWCType ?ty = RankedTensor (map int (pre @ outs @ post)) F32"
    unfolding ty c(5) using res' o by (intro pp(3) [of _ os ?spec]) (simp_all add: ty c(5))
  have city: "convertRank4NCHWToNHWCType ?ity = RankedTensor (map int (pre @ ?ds @ post)) F32"
    unfolding ity c(4) using t(1) c(1) by (intro pp(3) [of _ _ t]) (simp_all add: ity c(4))
  have spec: "phys ?ty ?spec = gpool (length pre) (?l2 \<circ> somes) ks ss ps outs ?x"
    unfolding pp(2) using o by (intro phys_tpool) (simp_all add: ity ty c)
  obtain r where r: "window_attributes op (int ?n) = Inr r"
    using low c by (auto simp: lower_lp_pool_def ity ty Let_def getRank_def of_nat_diff split: if_splits)
  note wa = window_attributes_Inr [OF par(1) r]
  let ?cell = "\<lambda>cellType part reductionAxes validElementCount. l2_norm cellType part reductionAxes"
  have body: "list_all fitsI32 (map int (tshape t))" "\<exists>windowCount. window_limit (map int outs) 1 = Inr windowCount"
    "static_windows (map int (tshape t)) (map int (pre @ ?ds @ post)) (map int (pre @ outs @ post)) (map int outs) (map int ks) (map int ss) ?pads
      (square (RankedTensor (map int (pre @ ?ds @ post)) F32) ?in) ?cell = Inr v"
  proof -
    have guard: "(int (trank t) < 3 \<or> 5 < int (trank t) \<or> getRank os \<noteq> int (trank t) \<or> failed (validateStaticF32Tensor (RankedTensor (map int (tshape t)) ie)) \<or>
        failed (validateStaticF32Tensor (RankedTensor os oe)) \<or> lp_p op \<noteq> 2) = False"
      using low by (auto simp: lower_lp_pool_def ity ty Let_def split: if_splits)
    have n: "int (trank t) - 2 = int ?n" "drop 2 os = map int outs" unfolding o(2) using c(1) by simp_all
    note low1 = low [unfolded lower_lp_pool_def ity ty mtype.case prod.case Let_def getRank_map_int guard if_False n r bind_result_simps wa(1),
        THEN guard_passed, THEN guard_passed, THEN guard_passed]
    note low2 = low1 [unfolded cty [unfolded ty] city [unfolded ity] mtype.case prod.case]
    show "list_all fitsI32 (map int (tshape t))" using low2 by (simp split: if_splits)
    show "\<exists>windowCount. window_limit (map int outs) 1 = Inr windowCount"
      "static_windows (map int (tshape t)) (map int (pre @ ?ds @ post)) (map int (pre @ outs @ post)) (map int outs) (map int ks) (map int ss) ?pads
      (square (RankedTensor (map int (pre @ ?ds @ post)) F32) ?in) ?cell = Inr v"
      using low2 [THEN guard_passed] unfolding bind_result_Inr_iff ity by blast+
  qed
  have i32: "i32_dims (tshape t)" using body(1) unfolding fitsI32_dims .
  note x = physical_facts [where env = env and x = "wp_x op", OF t i32 c(1)]
  let ?sq = "\<lambda>e. mulf e e" and ?f = "\<lambda>(n :: nat) xs. sqrtf (sumf xs)"
  let ?y = "tmap ?sq ?x"
  have cx: "conforms (RankedTensor (map int (pre @ ?ds @ post)) F32) ?x" using convert_conforms [OF t(1)] unfolding city .
  have y: "eval sem env (square (RankedTensor (map int (pre @ ?ds @ post)) F32) ?in) = ?y"
    using x(3) c(2) by (intro tfl_l2.eval_square [OF sem(1) x(1,2) cx]) simp
  have ld: "length ?ds + 2 = trank t" using c(1) by simp
  have ll: "length ks = length ?ds" "length ss = length ?ds" "length ps = length ?ds" "length outs = length ?ds" using wa(2-4) o(1) ld by simp_all
  obtain windowCount where wc: "window_limit (map int outs) 1 = Inr windowCount" using body(2) by blast
  have pos: "\<forall>n\<in>set outs. 0 < n" by (rule window_limit_pos [OF wc])
  have Y: "wf_tensor ?y" "tshape ?y = pre @ ?ds @ post" "i32_dims (tshape ?y)" "trank t = trank ?y" using x pp(1) by simp_all
  have rk: "trank t = length pre + (length ?ds + length post)" using pp(1) x(3) by simp
  have *: "eval sem env v = gpool (length pre) (\<lambda>w. ?f (length (somes w)) (somes w)) ks ss ps outs ?y \<and>
      vtype v = RankedTensor (map int (pre @ outs @ post)) F32 \<and>
      (\<forall>js. valid_ix outs js \<longrightarrow> (\<forall>j<length ?ds. 0 < box_sizes ?ds ks ss ps js ! j))"
  proof (rule tfl_assembly.eval_static_windows [OF sem(2) body(3) Y(1,2) y Y(3,4) refl pp(2) ld c(1,2) refl ll pos])
    fix u S bs cty w
    assume u: "eval sem env u = S" "wf_tensor S" "tshape S = pre @ bs @ post" "length bs = length ?ds"
      and c': "cty = RankedTensor (map int (pre @ replicate (length ?ds) 1 @ post)) F32"
        "w = l2_norm cty u (map int [length pre..<length pre + length ?ds])"
    have "trank S = trank t" unfolding rk u(3) using u(4) by simp
    then have S: "trank S < 2 ^ 31" using c(2) by simp
    show "eval sem env w = treduce (?f (prod_list bs)) (spatial_mask (length pre) (length ?ds) (length post)) True S \<and> vtype w = cty"
      unfolding c'(2) using tfl_l2.eval_l2_norm [OF sem(1) u S c'(1)] by simp
  qed
  have "gpool (length pre) (\<lambda>w. sqrtf (sumf (somes w))) ks ss ps outs ?y = gpool (length pre) (?l2 \<circ> somes) ks ss ps outs ?x"
    using gpool_tmap [OF x(1) pp(1) ll(4) [symmetric], of "\<lambda>xs. sqrtf (sumf xs)" ks ss ps ?sq] by (simp add: comp_def onnx_l2_def)
  then show ?thesis unfolding op using * res' spec cty by (simp add: represents_def)
qed

lemma treduce_tmap:
  assumes t: "wf_tensor t" "tshape t = pre @ ds @ post"
  shows "treduce f (spatial_mask (length pre) (length ds) (length post)) True (tmap h t) =
    treduce (\<lambda>xs. f (map h xs)) (spatial_mask (length pre) (length ds) (length post)) True t"
proof (rule tensor_eqI)
  let ?m = "spatial_mask (length pre) (length ds) (length post)"
  fix "is" assume v: "valid_ix (tshape (treduce (\<lambda>xs. f (map h xs)) ?m True t)) is"
  have k: "keep_shape True ?m (pre @ ds @ post) = pre @ replicate (length ds) 1 @ post" by (intro keep_spatial refl)
  then have "valid_ix (pre @ replicate (length ds) 1 @ post) is" using v t(2) by simp
  then obtain a b c where i: "is = a @ b @ c" "valid_ix pre a" "valid_ix (replicate (length ds) 1) b" "valid_ix post c" by (rule split3_index)
  have l: "length a = length pre" "length b = length ds" "length c = length post" using i(2-4) by (auto dest: valid_ix_length)
  have "map (\<lambda>rs. tnth (tmap h t) (merge_ix ?m rs (not_dropped ?m is))) (all_ix ds) = map h (map (\<lambda>rs. tnth t (merge_ix ?m rs (not_dropped ?m is))) (all_ix ds))"
    unfolding map_map comp_def
  proof (rule map_cong [OF refl])
    fix rs assume "rs \<in> set (all_ix ds)"
    then have r: "valid_ix ds rs" "length rs = length ds" by (auto simp: set_all_ix dest: valid_ix_length)
    have "merge_ix ?m rs (not_dropped ?m is) = a @ rs @ c" using l r not_dropped_spatial(1) [OF l] by (simp add: i merge_spatial)
    moreover have "valid_ix (tshape t) (a @ rs @ c)" unfolding t(2) using i l r by (simp add: valid_ix_append)
    ultimately show "tnth (tmap h t) (merge_ix ?m rs (not_dropped ?m is)) = h (tnth t (merge_ix ?m rs (not_dropped ?m is)))"
      using t(1) by (simp add: tnth_tmap)
  qed
  from arg_cong [OF this, of f] show "tnth (treduce f ?m True (tmap h t)) is = tnth (treduce (\<lambda>xs. f (map h xs)) ?m True t) is"
    using v t(2) k not_dropped_spatial(2) [of pre "length pre" ds "length ds" post "length post"] by (simp add: treduce_def reduced_dims_def)
qed simp_all

text \<open>
  When the GlobalLpPool pattern succeeds, the created value represents the square root of the sum of the squares over all
  spatial axes, with extent one.
\<close>

theorem lower_global_lp_pool_correct:
  assumes sem: "tfl_l2 sem mulf sumf sqrtf" and low: "lower_global_lp_pool op = Inr v"
    and t: "conforms (oty (gp_x op)) t" "env 0 = phys (oty (gp_x op)) t" "i32_dims (tshape t)"
    and res: "conforms (gp_result op) (treduce (onnx_l2 sumf mulf sqrtf) (spatial_mask 2 (trank t - 2) 0) True t)"
  shows "represents sem env v (gp_result op) (treduce (onnx_l2 sumf mulf sqrtf) (spatial_mask 2 (trank t - 2) 0) True t)"
proof -
  let ?ity = "oty (gp_x op)" and ?ty = "gp_result op" and ?in = "adaptor 0 (gp_x op)" and ?l2 = "onnx_l2 sumf mulf sqrtf"
  let ?n = "trank t - 2" and ?ds = "drop 2 (tshape t)" and ?x = "phys (oty (gp_x op)) t" and ?spec = "treduce (onnx_l2 sumf mulf sqrtf) (spatial_mask 2 (trank t - 2) 0) True t"
  obtain ie where ity: "?ity = RankedTensor (map int (tshape t)) ie" and wt: "wf_tensor t" using t(1) by (auto simp: conforms_def)
  obtain os oe where ty: "?ty = RankedTensor os oe" using res by (auto simp: conforms_def)
  have c: "3 \<le> trank t" "trank t \<le> 5" "length os = trank t" "ie = F32" "oe = F32"
    using low by (auto simp: lower_global_lp_pool_def ity ty Let_def getRank_def split: if_splits elim!: not_failedE)
  have ld: "length ?ds = ?n" "?n + 2 = trank t" using c(1) by simp_all
  have ss: "tshape ?spec = take 2 (tshape t) @ replicate ?n 1"
    using keep_spatial [of "take 2 (tshape t)" 2 ?ds ?n "[]" 0] c(1) by simp
  obtain pre post where pp: "tshape ?x = pre @ ?ds @ post" "length pre = spatial_start (trank t)"
    "\<And>outs (s :: 'a scalar tensor) os. length outs + 2 = trank t \<Longrightarrow> conforms (RankedTensor os F32) s \<Longrightarrow> tshape s = take 2 (tshape t) @ outs \<Longrightarrow>
       convertRank4NCHWToNHWCType (RankedTensor os F32) = RankedTensor (map int (pre @ outs @ post)) F32"
    using physical_split [of "map int (tshape t)" t] t(1) c(1) unfolding ity c(4) by blast
  have cty: "convertRank4NCHWToNHWCType ?ty = RankedTensor (map int (pre @ replicate ?n 1 @ post)) F32"
    unfolding ty c(5) using res ss ld by (intro pp(3) [of _ os ?spec]) (simp_all add: ty c(5))
  have city: "convertRank4NCHWToNHWCType ?ity = RankedTensor (map int (pre @ ?ds @ post)) F32"
    unfolding ity c(4) using t(1) c(1) by (intro pp(3) [of _ _ t]) (simp_all add: ity c(4))
  note x = physical_facts [where env = env and x = "gp_x op", OF t c(1)]
  let ?y = "tmap (\<lambda>e. mulf e e) ?x" and ?sv = "square (convertRank4NCHWToNHWCType ?ity) ?in"
  have y: "eval sem env ?sv = ?y" using x(3) c(2) convert_conforms [OF t(1)] by (intro tfl_l2.eval_square [OF sem x(1,2)]) simp_all
  have axes: "map (\<lambda>logicalAxis. getPhysicalAxis (int (trank t)) logicalAxis) [2..int (trank t) - 1] = map int [length pre..<length pre + ?n]"
  proof (rule nth_equalityI)
    fix i assume "i < length (map (\<lambda>logicalAxis. getPhysicalAxis (int (trank t)) logicalAxis) [2..int (trank t) - 1])"
    then have "i + 2 < trank t" by simp
    then show "map (\<lambda>logicalAxis. getPhysicalAxis (int (trank t)) logicalAxis) [2..int (trank t) - 1] ! i = map int [length pre..<length pre + ?n] ! i"
      using pp(2) getPhysicalAxis_spatial [of i "trank t"] by simp
  qed simp
  have v: "v = l2_norm (RankedTensor (map int (pre @ replicate ?n 1 @ post)) F32) ?sv (map int [length pre..<length pre + ?n])"
    using low cty axes by (auto simp: lower_global_lp_pool_def ity ty Let_def split: if_splits)
  have Y: "wf_tensor ?y" "tshape ?y = pre @ ?ds @ post" "trank ?y < 2 ^ 31" using x pp(1) c(2) by simp_all
  note e = tfl_l2.eval_l2_norm [OF sem y Y(1,2) ld(1) Y(3) refl, folded v]
  have "treduce (\<lambda>xs. sqrtf (sumf xs)) (spatial_mask (length pre) ?n (length post)) True ?y =
      treduce ?l2 (spatial_mask (length pre) ?n (length post)) True ?x"
    using treduce_tmap [OF x(1) pp(1), of "\<lambda>xs. sqrtf (sumf xs)" "\<lambda>e. mulf e e"] ld(1) by (simp add: onnx_l2_def [abs_def])
  also have "\<dots> = phys ?ty ?spec"
  proof (cases "trank t = 4")
    case True
    then obtain n cn h w where sh: "tshape t = [n, cn, h, w]" using list4 by blast
    have p4: "physical4 ?ity" "physical4 ?ty" using True c by (simp_all add: ity ty physical4_def isF32_def)
    have "length pre = 1" "length post = 1" using pp(2) arg_cong [OF pp(1), of length] x(3) True by (simp_all add: spatial_start_def)
    then have m: "spatial_mask (length pre) ?n (length post) = [False, True, True, False]" "spatial_mask 2 ?n 0 = [False, False, True, True]"
      using True by (simp_all add: spatial_mask_def numeral_2_eq_2)
    show ?thesis unfolding m using treduce_spatial [OF sh, of ?l2 True] p4 by (simp add: phys_def to_nhwc_def)
  next
    case False
    then have p4: "\<not> physical4 ?ity" "\<not> physical4 ?ty" and np: "length pre = 2"
      using c(3) pp(2) by (simp_all add: ity ty physical4_def spatial_start_def)
    have "trank t = length pre + (length ?ds + length post)" using pp(1) x(3) by simp
    then have "length post = 0" using np ld by linarith
    with p4 np show ?thesis by (simp add: phys_def)
  qed
  finally show ?thesis using e cty res by (simp add: represents_def)
qed

section \<open>Witnesses\<close>

interpretation reference_l2: tfl_l2 reference_sem "ref_arith (*)" ref_sum "ref_un ref_sqrt"
  by unfold_locales

text \<open>One spatial axis, unrolled: the first window starts in the padding.\<close>

definition row3_example :: "int scalar tensor" where
  "row3_example = Tensor [1, 2, 4] (map FV [1..8])"

definition average_example :: "int average_pool_op" where
  "average_example = \<lparr>wp_x = f32_operand [1, 2, 4], wp_kernel_shape = Some [2], wp_strides = Some [2], wp_pads = Some [1, 0], wp_dilations = None,
     wp_auto_pad = ''NOTSET'', wp_ceil_mode = 1, wp_result = RankedTensor [1, 2, 3] F32, ap_count_include_pad = 0\<rparr>"

lemma row3_facts: "tshape row3_example = [1, 2, 4]" "wf_tensor row3_example"
  by (simp_all add: row3_example_def wf_tensor_def upto.simps)

theorem lower_average_pool_correct_witness:
  "\<exists>v. lower_average_pool (\<lambda>v k. v div k) average_example = Inr v \<and>
     represents reference_sem (\<lambda>_. row3_example) v (wp_result average_example)
       (onnx_average_pool ref_mean (FV 0) (ap_count_include_pad average_example) [2] [2] [1] [0] [3] row3_example)"
proof -
  have "\<not> failed (lower_average_pool (\<lambda>v k. v div k) average_example)" by code_simp
  then obtain v where low: "lower_average_pool (\<lambda>v k. v div k) average_example = Inr v" by (rule not_failedE)
  have ty: "oty (wp_x average_example) = RankedTensor [1, 2, 4] F32" "wp_result average_example = RankedTensor [1, 2, 3] F32"
    "ap_count_include_pad average_example = 0"
    by (simp_all add: average_example_def f32_operand_def)
  have "represents reference_sem (\<lambda>_. row3_example) v (wp_result average_example)
       (onnx_average_pool ref_mean (FV 0) (ap_count_include_pad average_example) [2] [2] [1] [0] [3] row3_example)"
  proof (rule lower_average_pool_correct [OF reference_average_pool.tfl_pool_axioms reference_pad.tfl_zero_pad_axioms
        reference_mean.tfl_reduce_axioms reference_mul.tfl_binary_axioms reference.tfl_assembly_axioms low])
    show "conforms (oty (wp_x average_example)) row3_example" using row3_facts by (simp add: ty conforms_Ranked)
    show "row3_example = phys (oty (wp_x average_example)) row3_example" by (simp add: ty phys_def physical4_def)
    show "i32_dims (tshape row3_example)" "i32_dims [2]" "i32_dims [2]" "i32_dims ([1] @ [0])" by (simp_all add: row3_facts i32_dims_def)
    show "window_params average_example (trank row3_example - 2) [2] [2] [1] [0]"
      by (simp add: window_params_def average_example_def getPoolArrayOr_def row3_facts)
    show "conforms (wp_result average_example) (onnx_average_pool ref_mean (FV 0) (ap_count_include_pad average_example) [2] [2] [1] [0] [3] row3_example)"
      by (simp add: ty conforms_Ranked row3_facts onnx_average_pool_def)
  qed (simp_all add: ty)
  with low show ?thesis by blast
qed

definition lp_example :: "int lp_pool_op" where
  "lp_example = \<lparr>wp_x = f32_operand [1, 2, 4], wp_kernel_shape = Some [3], wp_strides = None, wp_pads = Some [1, 1], wp_dilations = None,
     wp_auto_pad = ''NOTSET'', wp_ceil_mode = 0, wp_result = RankedTensor [1, 2, 4] F32, lp_p = 2\<rparr>"

theorem lower_lp_pool_correct_witness:
  "\<exists>v. lower_lp_pool lp_example = Inr v \<and>
     represents reference_sem (\<lambda>_. row3_example) v (wp_result lp_example)
       (tpool (onnx_l2 ref_sum (ref_arith (*)) (ref_un ref_sqrt) \<circ> somes) [3] [1] (onnx_pads lp_example [1]) [4] row3_example)"
proof -
  have "\<not> failed (lower_lp_pool lp_example)" by code_simp
  then obtain v where low: "lower_lp_pool lp_example = Inr v" by (rule not_failedE)
  have ty: "oty (wp_x lp_example) = RankedTensor [1, 2, 4] F32" "wp_result lp_example = RankedTensor [1, 2, 4] F32"
    by (simp_all add: lp_example_def f32_operand_def)
  have "represents reference_sem (\<lambda>_. row3_example) v (wp_result lp_example)
       (tpool (onnx_l2 ref_sum (ref_arith (*)) (ref_un ref_sqrt) \<circ> somes) [3] [1] (onnx_pads lp_example [1]) [4] row3_example)"
  proof (rule lower_lp_pool_correct [OF reference_l2.tfl_l2_axioms reference.tfl_assembly_axioms low])
    show "conforms (oty (wp_x lp_example)) row3_example" using row3_facts by (simp add: ty conforms_Ranked)
    show "row3_example = phys (oty (wp_x lp_example)) row3_example" by (simp add: ty phys_def physical4_def)
    show "window_params lp_example (trank row3_example - 2) [3] [1] [1] [1]"
      by (simp add: window_params_def lp_example_def getPoolArrayOr_def row3_facts)
    show "wp_auto_pad lp_example = ''VALID'' \<longrightarrow> set [1] \<subseteq> {0}" by (simp add: lp_example_def)
    show "conforms (wp_result lp_example) (tpool (onnx_l2 ref_sum (ref_arith (*)) (ref_un ref_sqrt) \<circ> somes) [3] [1] (onnx_pads lp_example [1]) [4] row3_example)"
      by (simp add: ty conforms_Ranked row3_facts)
  qed
  with low show ?thesis by blast
qed

definition global_lp_example :: "int global_lp_pool_op" where
  "global_lp_example = \<lparr>gp_x = f32_operand [1, 2, 2, 3], gp_p = 2, gp_result = RankedTensor [1, 2, 1, 1] F32\<rparr>"

theorem lower_global_lp_pool_correct_witness:
  "\<exists>v. lower_global_lp_pool global_lp_example = Inr v \<and>
     represents reference_sem (\<lambda>_. ttranspose to_nhwc nchw_example) v (gp_result global_lp_example)
       (treduce (onnx_l2 ref_sum (ref_arith (*)) (ref_un ref_sqrt)) (spatial_mask 2 (trank nchw_example - 2) 0) True nchw_example)"
proof -
  have "\<not> failed (lower_global_lp_pool global_lp_example)" by code_simp
  then obtain v where low: "lower_global_lp_pool global_lp_example = Inr v" by (rule not_failedE)
  have "represents reference_sem (\<lambda>_. ttranspose to_nhwc nchw_example) v (gp_result global_lp_example)
       (treduce (onnx_l2 ref_sum (ref_arith (*)) (ref_un ref_sqrt)) (spatial_mask 2 (trank nchw_example - 2) 0) True nchw_example)"
  proof (rule lower_global_lp_pool_correct [OF reference_l2.tfl_l2_axioms low])
    show "conforms (oty (gp_x global_lp_example)) nchw_example"
      "ttranspose to_nhwc nchw_example = phys (oty (gp_x global_lp_example)) nchw_example" "i32_dims (tshape nchw_example)"
      by (simp_all add: global_lp_example_def example_simps)
    show "conforms (gp_result global_lp_example)
       (treduce (onnx_l2 ref_sum (ref_arith (*)) (ref_un ref_sqrt)) (spatial_mask 2 (trank nchw_example - 2) 0) True nchw_example)"
      by (simp add: global_lp_example_def example_simps conforms_Ranked keep_shape_def spatial_mask_def numeral_2_eq_2)
  qed
  with low show ?thesis by blast
qed

end
