(* ===== verification/Lower_LayerNorm.thy ===== *)
theory Lower_LayerNorm
  imports Lower_Norm
begin

text \<open>
  \<^verbatim>\<open>NN/LayerNormalization.cpp\<close>: LayerNormalization over the last axis, its form that stands for an imported
  InstanceNormalization, and RMSLayerNormalization. The patterns never leave the NHWC representation: they
  map the normalised axes and reshape the parameters. The specification is the definition of ONNX
  on the logical tensors, with the broadcast of the parameters from the right.
\<close>

section \<open>Definitions\<close>

record 'f layer_norm_op =
  ln_x :: "'f operand"
  ln_scale :: "'f operand"
  ln_b :: "'f operand"
  ln_axis :: int
  ln_epsilon :: 'f
  ln_stash :: int
  ln_y :: mtype
  ln_mean :: mtype
  ln_inv_std_dev :: mtype

text \<open>The operations up to the normalised tensor, which the two paths of LayerNormalization create alike.\<close>

definition emit_normalized :: "mtype \<Rightarrow> mtype \<Rightarrow> int list \<Rightarrow> 'f \<Rightarrow> 'f val \<Rightarrow> 'f val" where
  "emit_normalized calculationType statisticType axes eps input =
     (let fusedNone = [getFusedActivationNone];
          mean = reduction ''tfl.mean'' statisticType input axes True;
          centered = createTFLOperation ''tfl.sub'' [calculationType] [input, mean] fusedNone 0;
          squared = createTFLOperation ''tfl.mul'' [calculationType] [centered, centered] fusedNone 0;
          variance = reduction ''tfl.mean'' statisticType squared axes True;
          varianceEpsilon = createTFLOperation ''tfl.add'' [statisticType] [variance, createF32ScalarTensorConstant eps] fusedNone 0;
          inverseStdDev = createTFLOperation ''tfl.rsqrt'' [statisticType] [varianceEpsilon] [] 0 in
      createTFLOperation ''tfl.mul'' [calculationType] [centered, inverseStdDev] fusedNone 0)"

definition noValue :: "'f val" where
  "noValue = createTFLOperation ''tfl.no_value'' [NoneT] [] [(''value'', OpaqueAttr ''builtin'' ''unit'')] 0"

definition emit_layer_norm_last :: "'f layer_norm_op \<Rightarrow> int list \<Rightarrow> int \<Rightarrow> int \<Rightarrow> 'f val list" where
  "emit_layer_norm_last op inShape normalizedAxis scaleSize =
     (let rank = getRank inShape; fusedNone = [getFusedActivationNone];
          calculationType = convertRank4NCHWToNHWCType (oty (ln_x op));
          calculationShape = (case calculationType of RankedTensor sh e \<Rightarrow> sh | _ \<Rightarrow> []);
          calculationAxis = (if rank = 4 then mapNCHWAxisToNHWC normalizedAxis else normalizedAxis);
          statisticType = RankedTensor (calculationShape[nat calculationAxis := 1]) F32;
          normalized = emit_normalized calculationType statisticType [calculationAxis] (ln_epsilon op) (adaptor 0 (ln_x op));
          parameterShape = (replicate 4 1)[nat calculationAxis := scaleSize];
          parameter = (\<lambda>v. if rank = 4 then emitReshape (RankedTensor parameterShape F32) parameterShape v else v);
          scaled = createTFLOperation ''tfl.mul'' [calculationType] [normalized, parameter (adaptor 1 (ln_scale op))] fusedNone 0;
          shifted = createTFLOperation ''tfl.add'' [calculationType] [scaled, parameter (adaptor 2 (ln_b op))] fusedNone 0 in
      [shifted, noValue, noValue])"

definition emit_instance_norm :: "'f layer_norm_op \<Rightarrow> int list \<Rightarrow> int \<Rightarrow> 'f val list" where
  "emit_instance_norm op inShape channels =
     (let rank = getRank inShape; fusedNone = [getFusedActivationNone];
          calculationType = convertRank4NCHWToNHWCType (ln_y op);
          calculationShape = (case calculationType of RankedTensor sh e \<Rightarrow> sh | _ \<Rightarrow> []);
          reductionAxes = (if rank = 4 then [1, 2] else [2..rank - 1]);
          statisticType = RankedTensor (foldl (\<lambda>sh axis. sh[nat axis := 1]) calculationShape reductionAxes) F32;
          normalized = emit_normalized calculationType statisticType reductionAxes (ln_epsilon op) (adaptor 0 (ln_x op));
          parameterBroadcastShape = (if rank = 4 then [1, 1, channels] else (replicate (length inShape) 1)[1 := channels]);
          parameter = emitReshape (RankedTensor parameterBroadcastShape F32) parameterBroadcastShape;
          scaled = createTFLOperation ''tfl.mul'' [calculationType] [normalized, parameter (adaptor 1 (ln_scale op))] fusedNone 0;
          shifted = createTFLOperation ''tfl.add'' [calculationType] [scaled, parameter (adaptor 2 (ln_b op))] fusedNone 0 in
      [shifted, noValue, noValue])"

definition lower_layer_norm :: "'f layer_norm_op \<Rightarrow> 'f val list result" where
  "lower_layer_norm op =
     (case (oty (ln_x op), oty (ln_scale op), oty (ln_b op), ln_y op) of
        (RankedTensor inShape ie, RankedTensor scaleShape se, RankedTensor biasShape be, RankedTensor outShape oe) \<Rightarrow>
          if failed (validateStaticF32Tensor (oty (ln_x op))) \<or> failed (validateStaticF32Tensor (oty (ln_scale op))) \<or>
             failed (validateStaticF32Tensor (oty (ln_b op))) \<or> failed (validateStaticF32Tensor (ln_y op)) then Inl BadTypes
          else
            let rank = getRank inShape; normalizedAxis = normalizeAxis (ln_axis op) rank in
            if 2 \<le> rank \<and> rank \<le> 5 \<and> ln_y op = oty (ln_x op) \<and> normalizedAxis = rank - 1 \<and> getRank scaleShape = 1 \<and>
               getRank biasShape = 1 \<and> scaleShape ! 0 = last inShape \<and> biasShape = scaleShape \<and> ln_stash op = 1 \<and>
               ln_mean op = NoneT \<and> ln_inv_std_dev op = NoneT
            then Inr (emit_layer_norm_last op inShape normalizedAxis (scaleShape ! 0))
            else if rank < 3 \<or> 5 < rank \<or> getRank scaleShape \<noteq> rank - 1 \<or> getRank biasShape \<noteq> rank - 1 \<or>
                    ln_y op \<noteq> oty (ln_x op) then Inl BadTypes
            else
              let channels = inShape ! 1; expectedParameterShape = (replicate (length inShape - 1) 1)[0 := channels] in
              if normalizedAxis \<noteq> 2 \<or> ln_stash op \<noteq> 1 \<or> scaleShape \<noteq> expectedParameterShape \<or>
                 biasShape \<noteq> expectedParameterShape \<or> ln_mean op \<noteq> NoneT \<or> ln_inv_std_dev op \<noteq> NoneT then Inl BadAttribute
              else Inr (emit_instance_norm op inShape channels)
      | _ \<Rightarrow> Inl BadTypes)"

record 'f rms_norm_op =
  rn_x :: "'f operand"
  rn_scale :: "'f operand"
  rn_b :: "'f operand"
  rn_axis :: int
  rn_epsilon :: 'f
  rn_stash :: int
  rn_y :: mtype
  rn_inv_std_dev :: mtype

definition emit_rms_normalized :: "mtype \<Rightarrow> mtype \<Rightarrow> int list \<Rightarrow> 'f \<Rightarrow> 'f val \<Rightarrow> 'f val" where
  "emit_rms_normalized calculationType statisticType axes eps input =
     (let fusedNone = [getFusedActivationNone];
          squared = createTFLOperation ''tfl.mul'' [calculationType] [input, input] fusedNone 0;
          meanSquare = reduction ''tfl.mean'' statisticType squared axes True;
          varianceEpsilon = createTFLOperation ''tfl.add'' [statisticType] [meanSquare, createF32ScalarTensorConstant eps] fusedNone 0;
          inverseRootMeanSquare = createTFLOperation ''tfl.rsqrt'' [statisticType] [varianceEpsilon] [] 0 in
      createTFLOperation ''tfl.mul'' [calculationType] [input, inverseRootMeanSquare] fusedNone 0)"

definition emit_rms_norm :: "'f rms_norm_op \<Rightarrow> int list \<Rightarrow> int \<Rightarrow> int \<Rightarrow> bool \<Rightarrow> bool \<Rightarrow> 'f val list" where
  "emit_rms_norm op inShape normalizedAxis scaleSize hasBias biasMatchesScale =
     (let rank = getRank inShape; fusedNone = [getFusedActivationNone];
          calculationType = convertRank4NCHWToNHWCType (oty (rn_x op));
          calculationShape = (case calculationType of RankedTensor sh e \<Rightarrow> sh | _ \<Rightarrow> []);
          calculationAxis = (if rank = 4 then mapNCHWAxisToNHWC normalizedAxis else normalizedAxis);
          statisticType = RankedTensor (calculationShape[nat calculationAxis := 1]) F32;
          normalized = emit_rms_normalized calculationType statisticType [calculationAxis] (rn_epsilon op) (adaptor 0 (rn_x op));
          parameterShape = (replicate 4 1)[nat calculationAxis := scaleSize];
          parameter = (\<lambda>v. if rank = 4 then emitReshape (RankedTensor parameterShape F32) parameterShape v else v);
          bias = (if biasMatchesScale then parameter (adaptor 2 (rn_b op)) else adaptor 2 (rn_b op));
          scaled = createTFLOperation ''tfl.mul'' [calculationType] [normalized, parameter (adaptor 1 (rn_scale op))] fusedNone 0;
          result = (if hasBias then createTFLOperation ''tfl.add'' [calculationType] [scaled, bias] fusedNone 0 else scaled) in
      [result, noValue])"

text \<open>\<open>biasShape\<close> is empty when there is no bias, where the code never reads it.\<close>

definition lower_rms_norm :: "'f rms_norm_op \<Rightarrow> 'f val list result" where
  "lower_rms_norm op =
     (let hasBias = (oty (rn_b op) \<noteq> NoneT) in
      case (oty (rn_x op), oty (rn_scale op), rn_y op) of
        (RankedTensor inShape ie, RankedTensor scaleShape se, RankedTensor outShape oe) \<Rightarrow>
          if failed (validateStaticF32Tensor (oty (rn_x op))) \<or> failed (validateStaticF32Tensor (oty (rn_scale op))) \<or>
             failed (validateStaticF32Tensor (rn_y op)) \<or> (hasBias \<and> failed (validateStaticF32Tensor (oty (rn_b op)))) then Inl BadTypes
          else
            let rank = getRank inShape; normalizedAxis = normalizeAxis (rn_axis op) rank;
                biasShape = (case oty (rn_b op) of RankedTensor sh e \<Rightarrow> sh | _ \<Rightarrow> []);
                biasMatchesScale = (hasBias \<and> getRank biasShape = 1 \<and> biasShape = scaleShape);
                biasIsFullRankBroadcast = (hasBias \<and> getRank biasShape = rank \<and>
                  list_all2 (\<lambda>biasDimension inputDimension. biasDimension = 1 \<or> biasDimension = inputDimension) biasShape inShape) in
            if rank < 2 \<or> 5 < rank \<or> rn_y op \<noteq> oty (rn_x op) \<or> normalizedAxis \<noteq> rank - 1 \<or> getRank scaleShape \<noteq> 1 \<or>
               scaleShape ! 0 \<noteq> last inShape \<or> (hasBias \<and> \<not> biasMatchesScale \<and> \<not> biasIsFullRankBroadcast) \<or>
               rn_stash op \<noteq> 1 \<or> rn_inv_std_dev op \<noteq> NoneT then Inl BadAttribute
            else Inr (emit_rms_norm op inShape normalizedAxis (scaleShape ! 0) hasBias biasMatchesScale)
      | _ \<Rightarrow> Inl BadTypes)"

section \<open>Groups\<close>

text \<open>
  The elements that share the kept coordinates of \<open>is\<close>, in the order a reduction lists them, and an
  operation that computes every element from itself and its group.
\<close>

definition tgroup :: "bool list \<Rightarrow> 'a tensor \<Rightarrow> nat list \<Rightarrow> 'a list" where
  "tgroup red t is = map (\<lambda>rs. tnth t (merge_ix red rs (not_dropped red is))) (all_ix (reduced_dims red (tshape t)))"

definition tnorm :: "bool list \<Rightarrow> ('a \<Rightarrow> 'a list \<Rightarrow> 'b) \<Rightarrow> 'a tensor \<Rightarrow> 'b tensor" where
  "tnorm red f t = tgen (tshape t) (\<lambda>is. f (tnth t is) (tgroup red t is))"

lemma tshape_tnorm [simp]: "tshape (tnorm red f t) = tshape t" and wf_tnorm [simp]: "wf_tensor (tnorm red f t)"
  by (simp_all add: tnorm_def)

lemma tnth_tnorm: "valid_ix (tshape t) is \<Longrightarrow> tnth (tnorm red f t) is = f (tnth t is) (tgroup red t is)"
  by (simp add: tnorm_def)

lemma reduced_dims_simps:
  "reduced_dims [] ds = []" "reduced_dims (r # red) (d # ds) = (if r then d # reduced_dims red ds else reduced_dims red ds)"
  by (simp_all add: reduced_dims_def)

lemma merge_ix_group:
  assumes "length red = length ds" "valid_ix ds is" "valid_ix (reduced_dims red ds) rs"
  shows "valid_ix ds (merge_ix red rs (not_dropped red is))" and "not_dropped red (merge_ix red rs (not_dropped red is)) = not_dropped red is"
proof -
  have "valid_ix ds (merge_ix red rs (not_dropped red is)) \<and> not_dropped red (merge_ix red rs (not_dropped red is)) = not_dropped red is"
    using assms
  proof (induction red ds arbitrary: rs "is" rule: list_induct2)
    case (Cons r red d ds)
    obtain i js where i: "is = i # js" "i < d" "valid_ix ds js" using Cons.prems(1) by (auto simp: valid_ix_Cons)
    then show ?case using Cons.prems(2) Cons.IH [OF i(3)] by (cases r) (auto simp: reduced_dims_simps valid_ix_Cons)
  qed (simp add: reduced_dims_simps)
  then show "valid_ix ds (merge_ix red rs (not_dropped red is))"
    and "not_dropped red (merge_ix red rs (not_dropped red is)) = not_dropped red is" by simp_all
qed

lemma tgroup_tnorm:
  assumes "length red = trank t" "valid_ix (tshape t) is"
  shows "tgroup red (tnorm red f t) is = map (\<lambda>x. f x (tgroup red t is)) (tgroup red t is)"
  unfolding tgroup_def map_map comp_def
  using merge_ix_group [OF assms]
  by (intro map_cong) (simp_all add: tnth_tnorm tgroup_def set_all_ix)

lemma treduce_tgroup: "treduce f red True t = tgen (keep_shape True red (tshape t)) (\<lambda>is. f (tgroup red t is))"
  by (simp add: treduce_def tgroup_def)

lemma bcast_keep:
  assumes "length red = length ds" shows "bcast_shape ds (keep_shape True red ds) = ds" "bcast_compat ds (keep_shape True red ds)"
  using assms by (auto simp: bcast_shape_eq [of _ _ "length ds"] bcast_compat_same_rank keep_shape_def bcast_dim_def intro!: nth_equalityI)

lemma bcast_ix_keep:
  assumes "length red = length ds" "valid_ix ds is"
  shows "valid_ix (keep_shape True red ds) (bcast_ix (keep_shape True red ds) is)"
    and "not_dropped red (bcast_ix (keep_shape True red ds) is) = not_dropped red is"
proof -
  have "bcast_compat ds (keep_shape True red ds)" "valid_ix (bcast_shape ds (keep_shape True red ds)) is" using bcast_keep [OF assms(1)] assms(2) by simp_all
  then show "valid_ix (keep_shape True red ds) (bcast_ix (keep_shape True red ds) is)" by (rule bcast_read_valid)
  have "length is = length ds" using assms(2) by (rule valid_ix_length)
  then have "bcast_ix (keep_shape True red ds) is = map2 (\<lambda>d i. if d = 1 then 0 else i) (keep_shape True red ds) is"
    using assms(1) by (simp add: bcast_ix_def keep_shape_def)
  moreover have "not_dropped red (map2 (\<lambda>d i. if d = 1 then 0 else i) (keep_shape True red ds) is) = not_dropped red is"
    using assms
  proof (induction red ds arbitrary: "is" rule: list_induct2)
    case (Cons r red d ds)
    then show ?case by (auto simp: keep_shape_def valid_ix_Cons)
  qed simp
  ultimately show "not_dropped red (bcast_ix (keep_shape True red ds) is) = not_dropped red is" by simp
qed

lemma bget_treduce:
  assumes "length red = trank t" "valid_ix (tshape t) is" shows "bget (treduce f red True t) is = f (tgroup red t is)"
  using bcast_ix_keep [OF assms] by (simp add: bget_def treduce_tgroup tgroup_def)

lemma tmap2_treduce:
  assumes "length red = trank t" "tshape y = tshape t"
  shows "tmap2 g y (treduce f red True t) = tgen (tshape t) (\<lambda>is. g (tnth y is) (f (tgroup red t is)))"
  unfolding tmap2_bget tshape_treduce assms(2) bcast_keep(1) [OF assms(1)]
  by (rule tgen_cong) (simp_all add: bget_treduce [OF assms(1)] bget_self assms(2))

section \<open>What is computed for one element\<close>

definition layer_norm_elem ::
  "('s \<Rightarrow> 's \<Rightarrow> 's) \<Rightarrow> ('s \<Rightarrow> 's \<Rightarrow> 's) \<Rightarrow> ('s \<Rightarrow> 's \<Rightarrow> 's) \<Rightarrow> ('s list \<Rightarrow> 's) \<Rightarrow> ('s \<Rightarrow> 's) \<Rightarrow> 's \<Rightarrow> 's \<Rightarrow> 's list \<Rightarrow> 's" where
  "layer_norm_elem addf subf mulf meanf rsqrtf eps x xs =
     (let m = meanf xs; v = meanf (map (\<lambda>y. mulf (subf y m) (subf y m)) xs) in mulf (subf x m) (rsqrtf (addf v eps)))"

definition rms_norm_elem ::
  "('s \<Rightarrow> 's \<Rightarrow> 's) \<Rightarrow> ('s \<Rightarrow> 's \<Rightarrow> 's) \<Rightarrow> ('s list \<Rightarrow> 's) \<Rightarrow> ('s \<Rightarrow> 's) \<Rightarrow> 's \<Rightarrow> 's \<Rightarrow> 's list \<Rightarrow> 's" where
  "rms_norm_elem addf mulf meanf rsqrtf eps x xs = mulf x (rsqrtf (addf (meanf (map (\<lambda>y. mulf y y) xs)) eps))"


definition average :: "real list \<Rightarrow> real" where
  "average xs = sum_list xs / real (length xs)"

text \<open>On real numbers the normalised elements have mean 0, and a variance that only \<open>eps\<close> keeps below 1.\<close>

lemma layer_norm_real:
  fixes xs :: "real list"
  assumes "xs \<noteq> []" "0 < eps"
  defines "var \<equiv> average (map (\<lambda>y. (y - average xs)\<^sup>2) xs)" and "ys \<equiv> map (\<lambda>x. layer_norm_elem (+) (-) (*) average (\<lambda>v. 1 / sqrt v) eps x xs) xs"
  shows "average ys = 0" and "average (map (\<lambda>y. y\<^sup>2) ys) = var / (var + eps)"
proof -
  let ?r = "1 / sqrt (var + eps)"
  have el: "layer_norm_elem (+) (-) (*) average (\<lambda>v. 1 / sqrt v) eps x xs = (x - average xs) * ?r" for x
    by (simp add: layer_norm_elem_def Let_def var_def power2_eq_square)
  have "0 \<le> sum_list (map (\<lambda>y. (y - average xs)\<^sup>2) xs)" by (intro sum_list_nonneg) auto
  then have v: "0 < var + eps" using assms(2) by (simp add: var_def average_def add_nonneg_pos)
  have "sum_list (map (\<lambda>x. (x - average xs) * ?r) xs) = sum_list (map (\<lambda>x. x - average xs) xs) * ?r" by (rule sum_list_mult_const)
  also have "sum_list (map (\<lambda>x. x - average xs) xs) = 0"
    using assms(1) sum_list_subtractf [of "\<lambda>x. x" "\<lambda>x. average xs" xs] by (simp add: average_def sum_list_triv)
  finally show "average ys = 0" unfolding ys_def el by (simp add: average_def)
  have "(\<lambda>x. ((x - average xs) * ?r)\<^sup>2) = (\<lambda>x. (x - average xs)\<^sup>2 * (1 / (var + eps)))"
    using v by (simp add: power_mult_distrib power_divide)
  then have "sum_list (map (\<lambda>x. ((x - average xs) * ?r)\<^sup>2) xs) = sum_list (map (\<lambda>x. (x - average xs)\<^sup>2) xs) * (1 / (var + eps))"
    by (simp only: sum_list_mult_const)
  then show "average (map (\<lambda>y. y\<^sup>2) ys) = var / (var + eps)"
    unfolding ys_def el map_map comp_def by (simp add: average_def var_def)
qed

section \<open>Evaluation\<close>

locale tfl_layer_norm =
  ar: tfl_arith sem addf subf mulf divf maxf minf +
  me: tfl_reduce sem "''tfl.mean''" meanf +
  rs: tfl_unary sem "''tfl.rsqrt''" "[]" rsqrtf
  for sem :: "'f sem" and addf subf mulf divf maxf minf meanf rsqrtf
begin

text \<open>The reciprocal deviation, one element per group.\<close>

lemma eval_reciprocal:
  assumes x: "wf_tensor y" "eval sem env yv = y" "trank y \<le> 5" and ax: "distinct axes" "set axes \<subseteq> {..<trank y}"
    and mk: "mk = axis_mask (trank y) axes" and sty: "sty = RankedTensor (map int (keep_shape True mk (tshape y))) F32"
  shows "eval sem env (createTFLOperation ''tfl.rsqrt'' [sty]
      [createTFLOperation ''tfl.add'' [sty] [reduction ''tfl.mean'' sty yv (map int axes) True, createF32ScalarTensorConstant eps]
        [getFusedActivationNone] 0] [] 0) = treduce (\<lambda>xs. rsqrtf (addf (meanf xs) (FV eps))) mk True y"
proof -
  have tr: "tmap f (treduce g mk True y) = treduce (\<lambda>xs. f (g xs)) mk True y" for f g
    by (rule tensor_eqI) (simp_all add: tnth_tmap, simp add: treduce_tgroup)
  have k: "trank (treduce f mk True y) = trank y" for f by (simp add: keep_shape_def mk)
  have "eval sem env (reduction ''tfl.mean'' sty yv (map int axes) True) = treduce meanf mk True y"
    using assms by (simp add: me.eval_reduction conforms_Ranked)
  then have "eval sem env (createTFLOperation ''tfl.add'' [sty] [reduction ''tfl.mean'' sty yv (map int axes) True, createF32ScalarTensorConstant eps]
        [getFusedActivationNone] 0) = tmap (\<lambda>a. addf a (FV eps)) (treduce meanf mk True y)"
    using x(3) k by (intro ar.add.eval_scalar_right) (simp_all add: sty conforms_Ranked)
  then show ?thesis
    by (subst rs.eval_unary [OF _ refl]) (simp_all add: tr sty conforms_Ranked)
qed

lemma eval_normalized:
  assumes x: "wf_tensor x" "eval sem env xv = x" "trank x \<le> 5" and ax: "distinct axes" "set axes \<subseteq> {..<trank x}"
    and mk: "mk = axis_mask (trank x) axes" and ty: "conforms cty x" and sty: "sty = RankedTensor (map int (keep_shape True mk (tshape x))) F32"
  shows "eval sem env (emit_normalized cty sty (map int axes) eps xv) =
    tnorm mk (layer_norm_elem addf subf mulf meanf rsqrtf (FV eps)) x"
proof -
  have l: "length mk = trank x" by (simp add: mk)
  have k: "trank (treduce f mk True y) = trank y" if "tshape y = tshape x" for f and y :: "'f scalar tensor" using that by (simp add: keep_shape_def mk)
  note b = bcast_keep [OF l]
  let ?m = "reduction ''tfl.mean'' sty xv (map int axes) True"
  let ?c = "createTFLOperation ''tfl.sub'' [cty] [xv, ?m] [getFusedActivationNone] 0"
  let ?q = "createTFLOperation ''tfl.mul'' [cty] [?c, ?c] [getFusedActivationNone] 0"
  have cf: "conforms cty y" if "wf_tensor y" "tshape y = tshape x" for y :: "'f scalar tensor" using ty that by (auto simp: conforms_def split: mtype.splits)
  have m: "eval sem env ?m = treduce meanf mk True x" using assms by (simp add: me.eval_reduction conforms_Ranked)
  define C where "C = tnorm mk (\<lambda>y ys. subf y (meanf ys)) x"
  have C: "wf_tensor C" "tshape C = tshape x" by (simp_all add: C_def)
  have "tmap2 subf x (treduce meanf mk True x) = C" using tmap2_treduce [OF l refl] by (simp add: C_def tnorm_def)
  then have c: "eval sem env ?c = C"
    using x m b k [OF refl] C cf by (subst ar.sub.eval_direct [OF x(2) m]) simp_all
  have qq: "tmap2 mulf C C = tmap (\<lambda>y. mulf y y) C" using tmap2_tmap_same [OF C(1), of mulf id id] C(1) by (simp add: tmap_def)
  have q: "eval sem env ?q = tmap (\<lambda>y. mulf y y) C"
    using x C cf by (subst ar.mul.eval_direct [OF c c]) (simp_all add: qq)
  let ?Q = "tmap (\<lambda>y. mulf y y) C"
  have r: "eval sem env (createTFLOperation ''tfl.rsqrt'' [sty]
      [createTFLOperation ''tfl.add'' [sty] [reduction ''tfl.mean'' sty ?q (map int axes) True, createF32ScalarTensorConstant eps]
        [getFusedActivationNone] 0] [] 0) = treduce (\<lambda>xs. rsqrtf (addf (meanf xs) (FV eps))) mk True ?Q"
    using x(3) ax C mk sty by (intro eval_reciprocal [OF _ q]) simp_all
  have fin: "tmap2 mulf C (treduce (\<lambda>xs. rsqrtf (addf (meanf xs) (FV eps))) mk True ?Q) = tnorm mk (layer_norm_elem addf subf mulf meanf rsqrtf (FV eps)) x"
  proof -
    have g: "tgroup mk ?Q is = map (\<lambda>y. mulf (subf y (meanf (tgroup mk x is))) (subf y (meanf (tgroup mk x is)))) (tgroup mk x is)"
      if "valid_ix (tshape x) is" for "is"
    proof -
      have "?Q = tnorm mk (\<lambda>y ys. mulf (subf y (meanf ys)) (subf y (meanf ys))) x"
        by (rule tensor_eqI) (simp_all add: tnth_tmap C, simp add: C_def tnth_tnorm)
      then show ?thesis using tgroup_tnorm [OF l that] by simp
    qed
    show ?thesis
      using l g by (subst tmap2_treduce)
        (simp_all add: C tnorm_def [of mk "layer_norm_elem addf subf mulf meanf rsqrtf (FV eps)"] layer_norm_elem_def Let_def,
          auto simp: C_def tnth_tnorm intro!: tgen_cong)
  qed
  show ?thesis unfolding emit_normalized_def Let_def
    using x C cf b k [OF refl] by (subst ar.mul.eval_direct [OF c r]) (simp_all add: fin)
qed

lemma eval_rms_normalized:
  assumes x: "wf_tensor x" "eval sem env xv = x" "trank x \<le> 5" and ax: "distinct axes" "set axes \<subseteq> {..<trank x}"
    and mk: "mk = axis_mask (trank x) axes" and ty: "conforms cty x" and sty: "sty = RankedTensor (map int (keep_shape True mk (tshape x))) F32"
  shows "eval sem env (emit_rms_normalized cty sty (map int axes) eps xv) = tnorm mk (rms_norm_elem addf mulf meanf rsqrtf (FV eps)) x"
proof -
  have l: "length mk = trank x" by (simp add: mk)
  have k: "trank (treduce f mk True y) = trank y" if "tshape y = tshape x" for f and y :: "'f scalar tensor" using that by (simp add: keep_shape_def mk)
  note b = bcast_keep [OF l]
  let ?q = "createTFLOperation ''tfl.mul'' [cty] [xv, xv] [getFusedActivationNone] 0" and ?Q = "tmap (\<lambda>y. mulf y y) x"
  have cf: "conforms cty y" if "wf_tensor y" "tshape y = tshape x" for y :: "'f scalar tensor" using ty that by (auto simp: conforms_def split: mtype.splits)
  have qq: "tmap2 mulf x x = ?Q" using tmap2_tmap_same [OF x(1), of mulf id id] x(1) by (simp add: tmap_def)
  have q: "eval sem env ?q = ?Q" using x cf by (subst ar.mul.eval_direct [OF x(2) x(2)]) (simp_all add: qq)
  have r: "eval sem env (createTFLOperation ''tfl.rsqrt'' [sty]
      [createTFLOperation ''tfl.add'' [sty] [reduction ''tfl.mean'' sty ?q (map int axes) True, createF32ScalarTensorConstant eps]
        [getFusedActivationNone] 0] [] 0) = treduce (\<lambda>xs. rsqrtf (addf (meanf xs) (FV eps))) mk True ?Q"
    using x ax mk sty by (intro eval_reciprocal [OF _ q]) simp_all
  have g: "tgroup mk ?Q is = map (\<lambda>y. mulf y y) (tgroup mk x is)" if "valid_ix (tshape x) is" for "is"
  proof -
    have "?Q = tnorm mk (\<lambda>y ys. mulf y y) x" by (rule tensor_eqI) (use x(1) in \<open>simp_all add: tnth_tmap tnth_tnorm\<close>)
    then show ?thesis using tgroup_tnorm [OF l that] by simp
  qed
  have fin: "tmap2 mulf x (treduce (\<lambda>xs. rsqrtf (addf (meanf xs) (FV eps))) mk True ?Q) = tnorm mk (rms_norm_elem addf mulf meanf rsqrtf (FV eps)) x"
    using l g by (subst tmap2_treduce) (auto simp: tnorm_def rms_norm_elem_def intro!: tgen_cong)
  show ?thesis unfolding emit_rms_normalized_def Let_def
    using x cf b k [OF refl] by (subst ar.mul.eval_direct [OF x(2) r]) (simp_all add: fin)
qed

end


section \<open>Layouts\<close>

text \<open>The axes from \<open>a\<close> on, and where the representation has them.\<close>

definition trailing :: "nat \<Rightarrow> nat \<Rightarrow> bool list" where
  "trailing n a = map (\<lambda>k. a \<le> k) [0..<n]"

definition trailing_axes :: "nat \<Rightarrow> nat \<Rightarrow> nat list" where
  "trailing_axes n a = (if n = 4 then map (ipos to_nhwc) [a..<4] else [a..<n])"

lemma ipos_to_nhwc: "ipos to_nhwc 0 = 0" "ipos to_nhwc 1 = 3" "ipos to_nhwc 2 = 1" "ipos to_nhwc 3 = 2"
  by (simp_all add: ipos_def to_nhwc_def)

lemma trailing_axes_simps:
  "trailing_axes 4 2 = [1, 2]" "trailing_axes 4 3 = [2]" "n \<noteq> 4 \<Longrightarrow> trailing_axes n a = [a..<n]"
  by (simp_all add: trailing_axes_def upt_rec ipos_to_nhwc)

lemma tnorm_nhwc:
  assumes "trank t = 4" and mk: "mk = [False, False, r, True]"
  shows "tnorm (permute to_nhwc mk) f (ttranspose to_nhwc t) = ttranspose to_nhwc (tnorm mk f t)"
proof (rule tensor_transpose_eqI [symmetric])
  have pm: "permute to_nhwc [a, b, c, d] = [a, c, d, b]" for a b c d :: 'c by (simp add: permute_def to_nhwc_def)
  obtain n c h w where sh: "tshape t = [n, c, h, w]" using assms(1) by (auto elim: length_4_cases)
  fix "is" assume "valid_ix (tshape (tnorm mk f t)) is"
  then obtain i k y x where ix: "is = [i, k, y, x]" "i < n" "k < c" "y < h" "x < w" by (auto simp: sh valid_ix_Cons)
  have "tgroup (permute to_nhwc mk) (ttranspose to_nhwc t) (permute to_nhwc is) = tgroup mk t is"
    unfolding tgroup_def
    by (rule map_cong) (use ix in \<open>auto simp: mk sh pm reduced_dims_simps set_all_ix valid_ix_Cons tnth_nhwc [OF sh] split: if_splits\<close>)
  then show "tnth (tnorm (permute to_nhwc mk) f (ttranspose to_nhwc t)) (permute to_nhwc is) = tnth (tnorm mk f t) is"
    using ix tnth_nhwc [OF sh ix(2-5)] by (simp add: tnorm_def sh)
qed (use assms in simp_all)

lemma phys_tnorm:
  assumes "physical4 ty \<longleftrightarrow> trank t = 4" and a: "a = trank t - 1 \<or> a = 2" "2 \<le> trank t"
  shows "tnorm (axis_mask (trank t) (trailing_axes (trank t) a)) f (phys ty t) = phys ty (tnorm (trailing (trank t) a) f t)"
proof (cases "trank t = 4")
  case True
  then have "a = 3 \<or> a = 2" using a by auto
  then have "axis_mask 4 (trailing_axes 4 a) = permute to_nhwc (trailing 4 a) \<and> trailing 4 a = [False, False, a = 2, True]"
    by (elim disjE) (simp_all add: trailing_axes_simps axis_mask_def trailing_def upt_rec permute_def to_nhwc_def)
  then show ?thesis using True assms(1) tnorm_nhwc [of t "trailing 4 a" "a = 2" f] by (simp add: phys_def)
next
  case False
  then have "axis_mask (trank t) (trailing_axes (trank t) a) = trailing (trank t) a"
    by (auto simp: trailing_axes_simps axis_mask_def trailing_def)
  with False show ?thesis using assms(1) by (simp add: phys_def)
qed

lemma trailing_axes_ok:
  assumes "a = n - 1 \<or> a = 2" "2 \<le> n"
  shows "distinct (trailing_axes n a)" and "set (trailing_axes n a) \<subseteq> {..<n}"
proof -
  have "n = 4 \<Longrightarrow> trailing_axes n a = [2] \<or> trailing_axes n a = [1, 2]" using assms by (auto simp: trailing_axes_simps)
  then show "distinct (trailing_axes n a)" "set (trailing_axes n a) \<subseteq> {..<n}"
    by (cases "n = 4"; force simp: trailing_axes_simps)+
qed

lemma keep_axes:
  assumes "set axes \<subseteq> {..<length ds}"
  shows "map int (keep_shape True (axis_mask (length ds) axes) ds) = foldl (\<lambda>sh a. sh[nat a := 1]) (map int ds) (map int axes)"
proof (rule nth_equalityI)
  have l: "length (foldl (\<lambda>sh a. sh[nat a := 1]) xs (map int axes)) = length xs" for xs by (induction axes arbitrary: xs) simp_all
  show "length (map int (keep_shape True (axis_mask (length ds) axes) ds)) = length (foldl (\<lambda>sh a. sh[nat a := 1]) (map int ds) (map int axes))"
    by (simp add: l keep_shape_def)
  fix k assume "k < length (map int (keep_shape True (axis_mask (length ds) axes) ds))"
  then have k: "k < length ds" by (simp add: keep_shape_def)
  have el: "foldl (\<lambda>sh a. sh[nat a := 1]) xs (map int axes) ! k = (if k \<in> set axes then 1 else xs ! k)" if "k < length xs" for xs
    using that by (induction axes arbitrary: xs) (auto simp: nth_list_update)
  then show "map int (keep_shape True (axis_mask (length ds) axes) ds) ! k = foldl (\<lambda>sh a. sh[nat a := 1]) (map int ds) (map int axes) ! k"
    using k by (subst el) (simp_all add: keep_shape_def axis_mask_def)
qed

text \<open>A parameter along axis \<open>a\<close>, and its reshape along the place of \<open>a\<close> in the representation.\<close>

lemma phys_tmap2_vector:
  assumes ty: "physical4 ty \<longleftrightarrow> trank x = 4" and a: "a < trank x" "tshape x ! a = c" "a' = (if trank x = 4 then ipos to_nhwc a else a)"
    and w: "tshape w = replicate m 1 @ c # replicate n 1" "m \<le> a" "a + 1 + n = trank x"
    and w': "tshape w' = replicate m' 1 @ c # replicate n' 1" "m' \<le> a'" "a' + 1 + n' = trank x" "tdata w' = tdata w"
  shows "tmap2 f (phys ty x) w' = phys ty (tmap2 f x w)"
proof (cases "trank x = 4")
  case True
  have p: "is_perm to_nhwc (trank x)" using True by simp
  have a': "to_nhwc ! a' = a" "a' < length to_nhwc" using True a by (auto simp: to_nhwc_def ipos_def less_Suc_eq numeral_eq_Suc)
  have "ttranspose to_nhwc (tmap2 f x w) = tmap2 f (ttranspose to_nhwc x) w'"
  proof (rule tensor_transpose_eqI)
    have t': "tmap2 f (ttranspose to_nhwc x) w' = tgen (permute to_nhwc (tshape x)) (\<lambda>is. f (tnth (ttranspose to_nhwc x) is) (tdata w ! (is ! a')))"
      using tmap2_axis_vector [OF w'(1,2), of "ttranspose to_nhwc x" f] True a a' w'(3,4) p by (simp add: is_perm_length)
    note t = tmap2_axis_vector [OF w a(2), of f]
    show "tshape (tmap2 f (ttranspose to_nhwc x) w') = permute to_nhwc (tshape (tmap2 f x w))" by (simp only: t t' tshape_tgen)
    fix "is" assume "valid_ix (tshape (tmap2 f x w)) is"
    then have v: "valid_ix (tshape x) is" by (simp only: t tshape_tgen)
    then have "valid_ix (permute to_nhwc (tshape x)) (permute to_nhwc is)" using p by (intro valid_ix_permuteI)
    then show "tnth (tmap2 f (ttranspose to_nhwc x) w') (permute to_nhwc is) = tnth (tmap2 f x w) is"
      using v p a' unfolding t t' by (simp add: tnth_ttranspose_permute)
  qed (use p tmap2_axis_vector [OF w a(2), of f] in simp_all)
  then show ?thesis using True ty by (simp add: phys_def)
next
  case False
  then have n: "n' = n" "a' = a" using a w w' by simp_all
  show ?thesis using False ty n w' tmap2_axis_vector [OF w a(2), of f] tmap2_axis_vector [OF w'(1), of a x f] a w by (simp add: phys_def)
qed

lemma eval_parameter:
  assumes sem: "tfl_binary sem nm [getFusedActivationNone] f 5"
    and N: "conforms ty N" "trank N \<le> 5" "physical4 ty \<longleftrightarrow> trank N = 4" "eval sem env v = phys ty N"
    and a: "a < trank N" "tshape N ! a = c" "a' = (if trank N = 4 then ipos to_nhwc a else a)"
    and w: "tshape w = replicate m 1 @ c # replicate n 1" "m \<le> a" "a + 1 + n = trank N"
    and w': "eval sem env wv = w'" "wf_tensor w'" "tshape w' = replicate m' 1 @ c # replicate n' 1" "m' \<le> a'" "a' + 1 + n' = trank N" "tdata w' = tdata w"
  shows "eval sem env (createTFLOperation nm [convertRank4NCHWToNHWCType ty] [v, wv] [getFusedActivationNone] 0) = phys ty (tmap2 f N w)"
    and "conforms ty (tmap2 f N w)" and "tshape (tmap2 f N w) = tshape N"
proof -
  have eq: "tmap2 f (phys ty N) w' = phys ty (tmap2 f N w)" by (rule phys_tmap2_vector [OF N(3) a w w'(3-6)])
  show sh: "tshape (tmap2 f N w) = tshape N" unfolding tmap2_axis_vector [OF w a(2)] by simp
  show cf: "conforms ty (tmap2 f N w)" using N(1) sh by (auto simp: conforms_def split: mtype.splits)
  have tp: "trank (phys ty N) = trank N" using N(1,3) by (auto simp: phys_def is_perm_length)
  have a2: "a' < trank N" using w'(5) by simp
  have "tshape (phys ty N) ! a' = c"
    using N(3) a a2 by (auto simp: phys_def to_nhwc_def ipos_def permute_def less_Suc_eq numeral_eq_Suc)
  then have b: "bcast_compat (tshape (phys ty N)) (tshape w')" unfolding w'(3) using w'(4,5) tp by (intro bcast_axis_vector) simp_all
  have "max (trank (phys ty N)) (trank w') \<le> 5" using N(2) tp w'(3-5) by simp
  then show "eval sem env (createTFLOperation nm [convertRank4NCHWToNHWCType ty] [v, wv] [getFusedActivationNone] 0) = phys ty (tmap2 f N w)"
    using tfl_binary.eval_direct [OF sem N(4) w'(1) _ w'(2) _ b] convert_conforms [OF cf] conforms_wf [OF N(1)] unfolding eq by simp
qed


text \<open>A rank-1 parameter, or a column, reshaped along one axis; a rank-4 column is in the same order in both layouts.\<close>

lemma phys_column:
  assumes "conforms pty s" "tshape s = c # replicate k 1" shows "tdata (phys pty s) = tdata s"
proof (cases "physical4 pty")
  case True
  then have "tshape s = [c, 1, 1, 1]" using assms conforms_physical4 [OF True assms(1)] by (auto simp: numeral_eq_Suc)
  then show ?thesis using True nhwc_flat_order [of s c 1] conforms_wf [OF assms(1)] by (simp add: phys_def)
qed (simp add: phys_def)

lemma eval_column:
  assumes lay: "tfl_layout sem" and s: "conforms pty s" "eval sem env v = phys pty s" "tshape s = c # replicate k 1"
    and S: "S = replicate m 1 @ c # replicate n 1" "i32_dims S"
  shows "eval sem env (emitReshape (RankedTensor (map int S) F32) (map int S) v) = Tensor S (tdata s)"
proof -
  have "prod_list S = prod_list (tshape (phys pty s))" using prod_list_phys [OF s(1)] s(3) S(1) by simp
  then have "eval sem env (emitReshape (RankedTensor (map int S) F32) (map int S) v) = treshape S (phys pty s)"
    using s S(2) conforms_wf [OF s(1)] by (intro tfl_layout.eval_emitReshape [OF lay]) simp_all
  then show ?thesis using phys_column [OF s(1,3)] by (simp add: treshape_def)
qed

lemma normalized_phys:
  assumes t: "conforms ity t" "ity = RankedTensor (map int (tshape t)) F32"
    and r: "2 \<le> trank t" "trank t \<le> 5" and a: "a = trank t - 1 \<or> a = 2 \<and> 3 \<le> trank t" and axes: "axes = map int (trailing_axes (trank t) a)"
    and sty: "sty = RankedTensor (foldl (\<lambda>sh axis. sh[nat axis := 1]) (case convertRank4NCHWToNHWCType ity of RankedTensor sh e \<Rightarrow> sh | _ \<Rightarrow> []) axes) F32"
    and ev: "\<And>mk. mk = axis_mask (trank t) (trailing_axes (trank t) a) \<Longrightarrow> trank (phys ity t) = trank t \<Longrightarrow>
      sty = RankedTensor (map int (keep_shape True mk (tshape (phys ity t)))) F32 \<Longrightarrow>
      eval sem env (E (map int (trailing_axes (trank t) a))) = tnorm mk f (phys ity t)"
  shows "eval sem env (E axes) = phys ity (tnorm (trailing (trank t) a) f t)"
proof -
  let ?x = "phys ity t" and ?axes = "trailing_axes (trank t) a"
  have x: "trank ?x = trank t" using t(2) by (auto simp: phys_def is_perm_length)
  have ok: "set ?axes \<subseteq> {..<trank ?x}" using trailing_axes_ok [of a "trank t"] a r(1) x by auto
  have "sty = RankedTensor (map int (keep_shape True (axis_mask (trank ?x) ?axes) (tshape ?x))) F32"
    using convert_conforms [OF t(1)] unfolding keep_axes [OF ok] sty axes by (auto simp: conforms_def)
  then have "eval sem env (E (map int ?axes)) = tnorm (axis_mask (trank t) ?axes) f ?x" using x by (intro ev) simp_all
  then show ?thesis using t(2) a r(1) unfolding axes by (subst phys_tnorm [symmetric]) (auto simp: physical4_def isF32_def)
qed

context tfl_layer_norm
begin

lemma eval_normalized_phys:
  assumes t: "conforms ity t" "ity = RankedTensor (map int (tshape t)) F32" "eval sem env xv = phys ity t"
    and r: "2 \<le> trank t" "trank t \<le> 5" and a: "a = trank t - 1 \<or> a = 2 \<and> 3 \<le> trank t" and axes: "axes = map int (trailing_axes (trank t) a)"
    and sty: "sty = RankedTensor (foldl (\<lambda>sh axis. sh[nat axis := 1]) (case convertRank4NCHWToNHWCType ity of RankedTensor sh e \<Rightarrow> sh | _ \<Rightarrow> []) axes) F32"
  shows "eval sem env (emit_normalized (convertRank4NCHWToNHWCType ity) sty axes eps xv) =
      phys ity (tnorm (trailing (trank t) a) (layer_norm_elem addf subf mulf meanf rsqrtf (FV eps)) t)"
    and "eval sem env (emit_rms_normalized (convertRank4NCHWToNHWCType ity) sty axes eps xv) =
      phys ity (tnorm (trailing (trank t) a) (rms_norm_elem addf mulf meanf rsqrtf (FV eps)) t)"
proof -
  have ok: "distinct (trailing_axes (trank t) a)" "set (trailing_axes (trank t) a) \<subseteq> {..<trank t}"
    using trailing_axes_ok [of a "trank t"] a r(1) by auto
  have x: "wf_tensor (phys ity t)" "conforms (convertRank4NCHWToNHWCType ity) (phys ity t)"
    using convert_conforms [OF t(1)] conforms_wf [OF t(1)] by simp_all
  show "eval sem env (emit_normalized (convertRank4NCHWToNHWCType ity) sty axes eps xv) =
      phys ity (tnorm (trailing (trank t) a) (layer_norm_elem addf subf mulf meanf rsqrtf (FV eps)) t)"
    by (rule normalized_phys [OF t(1,2) r a axes sty, where E = "\<lambda>ax. emit_normalized (convertRank4NCHWToNHWCType ity) sty ax eps xv"],
      rule eval_normalized [OF x(1) t(3) _ ok(1) _ _ x(2)]) (use r ok in simp_all)
  show "eval sem env (emit_rms_normalized (convertRank4NCHWToNHWCType ity) sty axes eps xv) =
      phys ity (tnorm (trailing (trank t) a) (rms_norm_elem addf mulf meanf rsqrtf (FV eps)) t)"
    by (rule normalized_phys [OF t(1,2) r a axes sty, where E = "\<lambda>ax. emit_rms_normalized (convertRank4NCHWToNHWCType ity) sty ax eps xv"],
      rule eval_rms_normalized [OF x(1) t(3) _ ok(1) _ _ x(2)]) (use r ok in simp_all)
qed

text \<open>Scale and bias.\<close>

lemma represents_scale_bias:
  assumes N: "conforms ty N" "trank N \<le> 5" "physical4 ty \<longleftrightarrow> trank N = 4" "eval sem env nv = phys ty N"
    and a: "a < trank N" "tshape N ! a = c" "a' = (if trank N = 4 then ipos to_nhwc a else a)"
    and w: "tshape s = replicate m 1 @ c # replicate n 1" "tshape b = tshape s" "m \<le> a" "a + 1 + n = trank N" "wf_tensor s" "wf_tensor b"
    and w': "S = replicate m' 1 @ c # replicate n' 1" "m' \<le> a'" "a' + 1 + n' = trank N"
    and ev: "eval sem env sv = Tensor S (tdata s)" "eval sem env bv = Tensor S (tdata b)"
  shows "represents sem env (createTFLOperation ''tfl.add'' [convertRank4NCHWToNHWCType ty]
      [createTFLOperation ''tfl.mul'' [convertRank4NCHWToNHWCType ty] [nv, sv] [getFusedActivationNone] 0, bv] [getFusedActivationNone] 0)
    ty (tmap2 addf (tmap2 mulf N s) b)"
proof -
  have wf: "wf_tensor (Tensor S (tdata s))" "wf_tensor (Tensor S (tdata b))" using w w' by (simp_all add: wf_tensor_def)
  note m = eval_parameter [OF ar.mul.tfl_binary_axioms N a w(1,3,4) ev(1) wf(1)]
  have m1: "eval sem env (createTFLOperation ''tfl.mul'' [convertRank4NCHWToNHWCType ty] [nv, sv] [getFusedActivationNone] 0) = phys ty (tmap2 mulf N s)"
    and m2: "conforms ty (tmap2 mulf N s)" and m3: "tshape (tmap2 mulf N s) = tshape N"
    using m w' by simp_all
  have wb: "tshape b = replicate m 1 @ c # replicate n 1" using w by simp
  have "eval sem env (createTFLOperation ''tfl.add'' [convertRank4NCHWToNHWCType ty]
      [createTFLOperation ''tfl.mul'' [convertRank4NCHWToNHWCType ty] [nv, sv] [getFusedActivationNone] 0, bv] [getFusedActivationNone] 0) =
      phys ty (tmap2 addf (tmap2 mulf N s) b)"
    by (rule eval_parameter(1) [OF ar.add.tfl_binary_axioms m2 _ _ m1 _ _ _ wb w(3) _ ev(2) wf(2), where a' = a' and m' = m' and n' = n'])
      (use N a w w' m3 in simp_all)
  moreover have "conforms ty (tmap2 addf (tmap2 mulf N s) b)"
    by (rule eval_parameter(2) [OF ar.add.tfl_binary_axioms m2 _ _ m1 _ _ _ wb w(3) _ ev(2) wf(2), where a' = a' and m' = m' and n' = n'])
      (use N a w w' m3 in simp_all)
  ultimately show ?thesis by (simp add: represents_def)
qed

end

section \<open>LayerNormalization\<close>

definition onnx_layer_norm :: "('s \<Rightarrow> 's \<Rightarrow> 's) \<Rightarrow> ('s \<Rightarrow> 's \<Rightarrow> 's) \<Rightarrow> ('s \<Rightarrow> 's list \<Rightarrow> 's) \<Rightarrow> nat \<Rightarrow> 's tensor \<Rightarrow> 's tensor \<Rightarrow> 's tensor \<Rightarrow> 's tensor" where
  "onnx_layer_norm addf mulf f a t s b = tmap2 addf (tmap2 mulf (tnorm (trailing (trank t) a) f t) s) b"


lemma int_upto_from: "[int m..int n - 1] = map int [m..<n]"
  by (intro nth_equalityI) auto

lemma i32_dims_axis: "i32_dims ds \<Longrightarrow> c \<in> set ds \<Longrightarrow> i32_dims (replicate m 1 @ c # replicate n 1)"
  by (auto simp: i32_dims_def)

lemma eval_last_parameter:
  assumes lay: "tfl_layout sem" and u: "conforms pty u" "eval sem env v = phys pty u" "tshape u = [c]" "c < 2 ^ 31"
    and ps: "ps = (replicate 4 1)[nat (if int n = 4 then mapNCHWAxisToNHWC (int n - 1) else int n - 1) := int c]"
  shows "eval sem env (if int n = 4 then emitReshape (RankedTensor ps F32) ps v else v) =
    Tensor (replicate (if n = 4 then 2 else 0) 1 @ c # replicate (if n = 4 then 1 else 0) 1) (tdata u)"
proof (cases "n = 4")
  case True
  let ?S = "replicate 2 1 @ c # replicate 1 1"
  have "ps = map int ?S" using True by (simp add: ps numeral_eq_Suc)
  moreover have "eval sem env (emitReshape (RankedTensor (map int ?S) F32) (map int ?S) v) = Tensor ?S (tdata u)"
    using u by (intro eval_column [OF lay, where k = 0 and m = 2 and n = 1]) (simp_all add: i32_dims_def)
  ultimately show ?thesis using True by (simp only: of_nat_eq_iff) simp
next
  case False
  have "\<not> physical4 pty" using u(1,3) by (auto simp: conforms_def)
  with False u(2,3) show ?thesis by (cases u) (simp add: phys_def)
qed

context tfl_layer_norm
begin

lemma represents_last_axis:
  assumes t: "conforms (oty (ln_x op)) t" "oty (ln_x op) = RankedTensor (map int (tshape t)) F32" "env 0 = phys (oty (ln_x op)) t" "i32_dims (tshape t)"
    and r: "2 \<le> trank t" "trank t \<le> 5" and c: "last (tshape t) = c"
    and s: "conforms (oty (ln_scale op)) s" "env 1 = phys (oty (ln_scale op)) s" "tshape s = [c]"
    and b: "conforms (oty (ln_b op)) b" "env 2 = phys (oty (ln_b op)) b" "tshape b = [c]"
  shows "\<exists>y. emit_layer_norm_last op (map int (tshape t)) (int (trank t) - 1) (int c) = [y, noValue, noValue] \<and>
    represents sem env y (oty (ln_x op))
      (onnx_layer_norm addf mulf (layer_norm_elem addf subf mulf meanf rsqrtf (FV (ln_epsilon op))) (trank t - 1) t s b)"
proof -
  let ?ty = "oty (ln_x op)" and ?a = "trank t - 1" and ?N = "tnorm (trailing (trank t) (trank t - 1)) (layer_norm_elem addf subf mulf meanf rsqrtf (FV (ln_epsilon op))) t"
  let ?ca = "if int (trank t) = 4 then mapNCHWAxisToNHWC (int (trank t) - 1) else int (trank t) - 1"
  let ?cs = "case convertRank4NCHWToNHWCType ?ty of RankedTensor sh e \<Rightarrow> sh | _ \<Rightarrow> []"
  let ?nv = "emit_normalized (convertRank4NCHWToNHWCType ?ty) (RankedTensor (?cs[nat ?ca := 1]) F32) [?ca] (ln_epsilon op) (adaptor 0 (ln_x op))"
  let ?S = "replicate (if trank t = 4 then 2 else 0) 1 @ c # replicate (if trank t = 4 then 1 else 0) 1"
  have axes: "[?ca] = map int (trailing_axes (trank t) ?a)"
    using r by (cases "trank t = 4") (auto simp: trailing_axes_simps of_nat_diff upt_rec)
  have nv: "eval sem env ?nv = phys ?ty ?N"
    using t r by (intro eval_normalized_phys(1) [OF t(1,2) _ _ _ _ axes]) simp_all
  have ne: "tshape t \<noteq> []" using r by auto
  have lst: "tshape t ! ?a = c" "c \<in> set (tshape t)" using c ne by (simp_all add: last_conv_nth flip: c)
  have lay: "tfl_layout sem" by (rule ar.add.tfl_layout_axioms)
  let ?ps = "(replicate 4 1)[nat ?ca := int c]"
  let ?p = "\<lambda>v. if int (trank t) = 4 then emitReshape (RankedTensor ?ps F32) ?ps v else v"
  have c31: "c < 2 ^ 31" using t(4) lst(2) by (simp add: i32_dims_def)
  have e: "eval sem env (adaptor 1 (ln_scale op)) = phys (oty (ln_scale op)) s" "eval sem env (adaptor 2 (ln_b op)) = phys (oty (ln_b op)) b"
    using s(2) b(2) by simp_all
  have cf: "conforms ?ty ?N" using t(2) by (simp add: conforms_Ranked)
  have p4: "physical4 ?ty \<longleftrightarrow> trank ?N = 4" using t(2) by (simp add: physical4_def isF32_def)
  have "represents sem env (createTFLOperation ''tfl.add'' [convertRank4NCHWToNHWCType ?ty]
      [createTFLOperation ''tfl.mul'' [convertRank4NCHWToNHWCType ?ty] [?nv, ?p (adaptor 1 (ln_scale op))] [getFusedActivationNone] 0,
        ?p (adaptor 2 (ln_b op))] [getFusedActivationNone] 0)
    ?ty (tmap2 addf (tmap2 mulf ?N s) b)"
  proof (rule represents_scale_bias [OF cf _ p4 nv])
    show "eval sem env (?p (adaptor 1 (ln_scale op))) = Tensor ?S (tdata s)" "eval sem env (?p (adaptor 2 (ln_b op))) = Tensor ?S (tdata b)"
      by (rule eval_last_parameter [OF lay s(1) e(1) s(3) c31 refl], rule eval_last_parameter [OF lay b(1) e(2) b(3) c31 refl])
    show "tshape s = replicate 0 1 @ c # replicate 0 1" "tshape ?N ! ?a = c" using s(3) lst by simp_all
    show "(if trank t = 4 then 2 else 0) \<le> (if trank ?N = 4 then ipos to_nhwc ?a else ?a)"
      "(if trank ?N = 4 then ipos to_nhwc ?a else ?a) + 1 + (if trank t = 4 then 1 else 0) = trank ?N"
      using r by (auto simp: ipos_to_nhwc)
  qed (use r s b in \<open>auto dest: conforms_wf\<close>)
  then show ?thesis
    unfolding emit_layer_norm_last_def Let_def getRank_map_int onnx_layer_norm_def by (intro exI conjI) (rule refl, assumption)
qed


lemma represents_instance_form:
  assumes ty: "ln_y op = oty (ln_x op)"
    and t: "conforms (oty (ln_x op)) t" "oty (ln_x op) = RankedTensor (map int (tshape t)) F32" "env 0 = phys (oty (ln_x op)) t" "i32_dims (tshape t)"
    and r: "3 \<le> trank t" "trank t \<le> 5" and c: "tshape t ! 1 = c"
    and s: "conforms (oty (ln_scale op)) s" "env 1 = phys (oty (ln_scale op)) s" "tshape s = c # replicate (trank t - 2) 1"
    and b: "conforms (oty (ln_b op)) b" "env 2 = phys (oty (ln_b op)) b" "tshape b = c # replicate (trank t - 2) 1"
  shows "\<exists>y. emit_instance_norm op (map int (tshape t)) (int c) = [y, noValue, noValue] \<and>
    represents sem env y (ln_y op)
      (onnx_layer_norm addf mulf (layer_norm_elem addf subf mulf meanf rsqrtf (FV (ln_epsilon op))) 2 t s b)"
proof -
  let ?ty = "oty (ln_x op)" and ?N = "tnorm (trailing (trank t) 2) (layer_norm_elem addf subf mulf meanf rsqrtf (FV (ln_epsilon op))) t"
  let ?ra = "if int (trank t) = 4 then [1, 2] else [2..int (trank t) - 1]"
  let ?cs = "case convertRank4NCHWToNHWCType ?ty of RankedTensor sh e \<Rightarrow> sh | _ \<Rightarrow> []"
  let ?nv = "emit_normalized (convertRank4NCHWToNHWCType ?ty) (RankedTensor (foldl (\<lambda>sh axis. sh[nat axis := 1]) ?cs ?ra) F32) ?ra
    (ln_epsilon op) (adaptor 0 (ln_x op))"
  let ?m = "if trank t = 4 then 2 else 1" and ?n = "if trank t = 4 then 0 else trank t - 2"
  let ?S = "replicate ?m 1 @ c # replicate ?n 1"
  have axes: "?ra = map int (trailing_axes (trank t) 2)"
    using int_upto_from [of 2 "trank t"] by (cases "trank t = 4") (simp_all add: trailing_axes_simps)
  have nv: "eval sem env ?nv = phys ?ty ?N"
    using t r by (intro eval_normalized_phys(1) [OF t(1,2) _ _ _ _ axes]) simp_all
  have mem: "c \<in> set (tshape t)" using c r nth_mem [of 1 "tshape t"] by simp
  let ?ps = "if int (trank t) = 4 then [1, 1, int c] else (replicate (length (map int (tshape t))) 1)[1 := int c]"
  have ps: "?ps = map int ?S"
  proof (cases "trank t = 4")
    case False
    obtain k where "trank t = Suc (Suc k)" using r by (metis add_2_eq_Suc le_Suc_ex Suc_leD eval_nat_numeral(3))
    with False show ?thesis by simp
  qed (simp add: numeral_eq_Suc)
  have p: "eval sem env (emitReshape (RankedTensor ?ps F32) ?ps v) = Tensor ?S (tdata u)"
    if "conforms pty u" "eval sem env v = phys pty u" "tshape u = c # replicate (trank t - 2) 1" for pty v and u :: "'f scalar tensor"
    unfolding ps using that i32_dims_axis [OF t(4) mem]
    by (intro eval_column [OF ar.add.tfl_layout_axioms]) simp_all
  have e: "eval sem env (adaptor 1 (ln_scale op)) = phys (oty (ln_scale op)) s" "eval sem env (adaptor 2 (ln_b op)) = phys (oty (ln_b op)) b"
    using s(2) b(2) by simp_all
  have cf: "conforms ?ty ?N" using t(2) by (simp add: conforms_Ranked)
  have p4: "physical4 ?ty \<longleftrightarrow> trank ?N = 4" using t(2) by (simp add: physical4_def isF32_def)
  have "represents sem env (createTFLOperation ''tfl.add'' [convertRank4NCHWToNHWCType ?ty]
      [createTFLOperation ''tfl.mul'' [convertRank4NCHWToNHWCType ?ty] [?nv, emitReshape (RankedTensor ?ps F32) ?ps (adaptor 1 (ln_scale op))]
        [getFusedActivationNone] 0, emitReshape (RankedTensor ?ps F32) ?ps (adaptor 2 (ln_b op))] [getFusedActivationNone] 0)
    ?ty (tmap2 addf (tmap2 mulf ?N s) b)"
  proof (rule represents_scale_bias [OF cf _ p4 nv])
    show "eval sem env (emitReshape (RankedTensor ?ps F32) ?ps (adaptor 1 (ln_scale op))) = Tensor ?S (tdata s)"
      "eval sem env (emitReshape (RankedTensor ?ps F32) ?ps (adaptor 2 (ln_b op))) = Tensor ?S (tdata b)"
      by (rule p [OF s(1) e(1) s(3)], rule p [OF b(1) e(2) b(3)])
    show "tshape s = replicate 0 1 @ c # replicate (trank t - 2) 1" "tshape ?N ! 1 = c" using s(3) c by simp_all
    show "?m \<le> (if trank ?N = 4 then ipos to_nhwc 1 else 1)" "(if trank ?N = 4 then ipos to_nhwc 1 else 1) + 1 + ?n = trank ?N"
      using r ipos_to_nhwc by auto
  qed (use r s b in \<open>auto dest: conforms_wf\<close>)
  then show ?thesis
    unfolding emit_instance_norm_def Let_def getRank_map_int onnx_layer_norm_def ty by (intro exI conjI) (rule refl, assumption)
qed

end


lemma static_f32_conforms:
  "\<not> failed (validateStaticF32Tensor ty) \<Longrightarrow> conforms ty t \<Longrightarrow> ty = RankedTensor (map int (tshape t)) F32"
  by (auto simp: failed_validate conforms_def)

text \<open>
  C17: when the LayerNormalization pattern succeeds, its first result represents the definition of ONNX on
  the logical tensors: every element is normalised by the mean and the variance of the elements that share its
  coordinates before \<open>axis\<close>, then scaled and shifted by the broadcast parameters; the statistics are
  absent. It holds for the last-axis path and for the form of InstanceNormalization, for every rank that the
  pattern accepts, although the representation of a rank-4 tensor and of a rank-4 parameter is permuted.
\<close>

theorem lower_layer_norm_correct:
  assumes sem: "tfl_layer_norm sem addf subf mulf divf maxf minf meanf rsqrtf" and low: "lower_layer_norm op = Inr vs"
    and t: "conforms (oty (ln_x op)) t" "env 0 = phys (oty (ln_x op)) t" "i32_dims (tshape t)"
    and par: "conforms (oty (ln_scale op)) s" "env 1 = phys (oty (ln_scale op)) s"
      "conforms (oty (ln_b op)) b" "env 2 = phys (oty (ln_b op)) b"
  shows "\<exists>y. vs = [y, noValue, noValue] \<and> represents sem env y (ln_y op)
    (onnx_layer_norm addf mulf (layer_norm_elem addf subf mulf meanf rsqrtf (FV (ln_epsilon op)))
      (nat (normalizeAxis (ln_axis op) (int (trank t)))) t s b)"
proof -
  let ?xty = "oty (ln_x op)" and ?sty = "oty (ln_scale op)" and ?bty = "oty (ln_b op)"
  have valid: "\<not> failed (validateStaticF32Tensor ?xty)" "\<not> failed (validateStaticF32Tensor ?sty)" "\<not> failed (validateStaticF32Tensor ?bty)"
    "\<not> failed (validateStaticF32Tensor (ln_y op))" using low by (auto simp: lower_layer_norm_def split: mtype.splits if_splits)
  note tys = static_f32_conforms [OF valid(1) t(1)] static_f32_conforms [OF valid(2) par(1)] static_f32_conforms [OF valid(3) par(3)]
  let ?axis = "normalizeAxis (ln_axis op) (int (trank t))"
  obtain osh oe where oty: "ln_y op = RankedTensor osh oe" using low by (auto simp: lower_layer_norm_def split: mtype.splits)
  let ?n = "int (trank t)" and ?sh = "map int (tshape s)" and ?bh = "map int (tshape b)"
  let ?Q = "2 \<le> ?n \<and> ?n \<le> 5 \<and> ln_y op = ?xty \<and> ?axis = ?n - 1 \<and> int (trank s) = 1 \<and> int (trank b) = 1 \<and> ?sh ! 0 = last (map int (tshape t)) \<and>
    ?bh = ?sh \<and> ln_stash op = 1 \<and> ln_mean op = NoneT \<and> ln_inv_std_dev op = NoneT"
  let ?E = "(replicate (trank t - 1) 1)[0 := map int (tshape t) ! 1]"
  have low': "(if ?Q then Inr (emit_layer_norm_last op (map int (tshape t)) ?axis (?sh ! 0))
    else if ?n < 3 \<or> 5 < ?n \<or> int (trank s) \<noteq> ?n - 1 \<or> int (trank b) \<noteq> ?n - 1 \<or> ln_y op \<noteq> ?xty then Inl BadTypes
    else if ?axis \<noteq> 2 \<or> ln_stash op \<noteq> 1 \<or> ?sh \<noteq> ?E \<or> ?bh \<noteq> ?E \<or> ln_mean op \<noteq> NoneT \<or> ln_inv_std_dev op \<noteq> NoneT then Inl BadAttribute
    else Inr (emit_instance_norm op (map int (tshape t)) (map int (tshape t) ! 1))) = Inr vs"
    using low valid
    by (simp only: lower_layer_norm_def tys oty prod.case mtype.case Let_def getRank_map_int length_map if_False simp_thms)
  consider
    (last) "2 \<le> trank t" "trank t \<le> 5" "ln_y op = ?xty" "?axis = int (trank t) - 1" "tshape s = [last (tshape t)]" "tshape b = tshape s"
      "vs = emit_layer_norm_last op (map int (tshape t)) (int (trank t) - 1) (int (last (tshape t)))"
  | (inst) "3 \<le> trank t" "trank t \<le> 5" "ln_y op = ?xty" "?axis = 2" "tshape s = tshape t ! 1 # replicate (trank t - 2) 1" "tshape b = tshape s"
      "vs = emit_instance_norm op (map int (tshape t)) (int (tshape t ! 1))"
  proof (cases ?Q)
    case True
    then obtain c where s: "tshape s = [c]" by (auto simp: length_Suc_conv)
    have "tshape t \<noteq> []" using True by auto
    then have "c = last (tshape t)" using True s by (simp add: last_map)
    moreover have "tshape b = tshape s" using True by (simp add: inj_map_eq_map)
    ultimately show ?thesis using True low' s that(1) by simp
  next
    case False
    then have c: "3 \<le> ?n" "?n \<le> 5" "ln_y op = ?xty" "?axis = 2" "?sh = ?E" "?bh = ?E"
      and v: "vs = emit_instance_norm op (map int (tshape t)) (map int (tshape t) ! 1)"
      using low' by (auto split: if_splits)
    have "?E = map int (tshape t ! 1 # replicate (trank t - 2) 1)" using c(1) by (cases "trank t - 1") auto
    then have "tshape s = tshape t ! 1 # replicate (trank t - 2) 1" "tshape b = tshape t ! 1 # replicate (trank t - 2) 1"
      using c(5,6) by (simp_all add: inj_map_eq_map del: list.map)
    then show ?thesis using c v by (intro that(2)) simp_all
  qed
  then show ?thesis
  proof cases
    case last
    then show ?thesis using tfl_layer_norm.represents_last_axis [OF sem t(1) tys(1) t(2,3) last(1,2) refl par(1,2) last(5) par(3,4)]
      by (simp add: nat_diff_distrib)
  next
    case inst
    then show ?thesis using tfl_layer_norm.represents_instance_form [OF sem inst(3) t(1) tys(1) t(2,3) inst(1,2) refl par(1,2) inst(5) par(3,4)] by simp
  qed
qed


section \<open>RMSLayerNormalization\<close>

definition onnx_rms_norm ::
  "('s \<Rightarrow> 's \<Rightarrow> 's) \<Rightarrow> ('s \<Rightarrow> 's \<Rightarrow> 's) \<Rightarrow> ('s \<Rightarrow> 's list \<Rightarrow> 's) \<Rightarrow> nat \<Rightarrow> 's tensor \<Rightarrow> 's tensor \<Rightarrow> 's tensor option \<Rightarrow> 's tensor" where
  "onnx_rms_norm addf mulf f a t s b =
     (let y = tmap2 mulf (tnorm (trailing (trank t) a) f t) s in case b of None \<Rightarrow> y | Some u \<Rightarrow> tmap2 addf y u)"

text \<open>A bias of the rank of the input, which is permuted with it.\<close>

lemma eval_full_rank:
  assumes sem: "tfl_binary sem nm [getFusedActivationNone] f 5"
    and N: "conforms ty N" "trank N \<le> 5" "physical4 ty \<longleftrightarrow> trank N = 4" "eval sem env v = phys ty N"
    and b: "conforms bty b" "eval sem env bv = phys bty b" "physical4 bty \<longleftrightarrow> trank N = 4" "list_all2 (\<lambda>d e. d = 1 \<or> d = e) (tshape b) (tshape N)"
  shows "eval sem env (createTFLOperation nm [convertRank4NCHWToNHWCType ty] [v, bv] [getFusedActivationNone] 0) = phys ty (tmap2 f N b)"
    and "conforms ty (tmap2 f N b)"
proof -
  have l: "trank b = trank N" using b(4) by (rule list_all2_lengthD)
  have c: "bcast_compat (tshape N) (tshape b)" using b(4) l by (auto simp: bcast_compat_same_rank list_all2_conv_all_nth)
  have "bcast_shape (tshape N) (tshape b) = tshape N"
    using b(4) l by (auto simp: bcast_shape_eq [of _ _ "trank N"] list_all2_conv_all_nth bcast_dim_def intro!: nth_equalityI)
  then show cf: "conforms ty (tmap2 f N b)" using N(1) by (auto simp: conforms_def split: mtype.splits)
  have eq: "tmap2 f (phys ty N) (phys bty b) = phys ty (tmap2 f N b)"
    using N(3) b(3) l c ttranspose_tmap2 [of N 4 b to_nhwc f] by (simp add: phys_def)
  have "bcast_compat (tshape (phys ty N)) (tshape (phys bty b))"
    using c N(3) b(3) l bcast_compat_permute [of to_nhwc "tshape N" "tshape b"] by (simp add: phys_def)
  moreover have "max (trank (phys ty N)) (trank (phys bty b)) \<le> 5" using N(2,3) b(3) l by (simp add: phys_def)
  ultimately show "eval sem env (createTFLOperation nm [convertRank4NCHWToNHWCType ty] [v, bv] [getFusedActivationNone] 0) = phys ty (tmap2 f N b)"
    using tfl_binary.eval_direct [OF sem N(4) b(2)] convert_conforms [OF cf] conforms_wf [OF N(1)] conforms_wf [OF b(1)] by (simp add: eq)
qed


context tfl_layer_norm
begin

lemma represents_rms:
  assumes t: "conforms (oty (rn_x op)) t" "oty (rn_x op) = RankedTensor (map int (tshape t)) F32" "env 0 = phys (oty (rn_x op)) t" "i32_dims (tshape t)"
    and r: "2 \<le> trank t" "trank t \<le> 5" and c: "last (tshape t) = c"
    and s: "conforms (oty (rn_scale op)) s" "env 1 = phys (oty (rn_scale op)) s" "tshape s = [c]"
    and b: "hasBias \<Longrightarrow> conforms (oty (rn_b op)) b \<and> env 2 = phys (oty (rn_b op)) b"
    and vec: "hasBias \<Longrightarrow> matches \<Longrightarrow> tshape b = [c]"
    and full: "hasBias \<Longrightarrow> \<not> matches \<Longrightarrow> list_all2 (\<lambda>d e. d = 1 \<or> d = e) (tshape b) (tshape t) \<and> oty (rn_b op) = RankedTensor (map int (tshape b)) F32"
  shows "\<exists>y. emit_rms_norm op (map int (tshape t)) (int (trank t) - 1) (int c) hasBias matches = [y, noValue] \<and>
    represents sem env y (oty (rn_x op))
      (onnx_rms_norm addf mulf (rms_norm_elem addf mulf meanf rsqrtf (FV (rn_epsilon op))) (trank t - 1) t s (if hasBias then Some b else None))"
proof -
  let ?ty = "oty (rn_x op)" and ?a = "trank t - 1" and ?N = "tnorm (trailing (trank t) (trank t - 1)) (rms_norm_elem addf mulf meanf rsqrtf (FV (rn_epsilon op))) t"
  let ?ca = "if int (trank t) = 4 then mapNCHWAxisToNHWC (int (trank t) - 1) else int (trank t) - 1"
  let ?cs = "case convertRank4NCHWToNHWCType ?ty of RankedTensor sh e \<Rightarrow> sh | _ \<Rightarrow> []"
  let ?nv = "emit_rms_normalized (convertRank4NCHWToNHWCType ?ty) (RankedTensor (?cs[nat ?ca := 1]) F32) [?ca] (rn_epsilon op) (adaptor 0 (rn_x op))"
  let ?S = "replicate (if trank t = 4 then 2 else 0) 1 @ c # replicate (if trank t = 4 then 1 else 0) 1"
  let ?a' = "if trank t = 4 then ipos to_nhwc ?a else ?a" and ?ps = "(replicate 4 1)[nat ?ca := int c]"
  let ?p = "\<lambda>v. if int (trank t) = 4 then emitReshape (RankedTensor ?ps F32) ?ps v else v"
  have axes: "[?ca] = map int (trailing_axes (trank t) ?a)"
    using r by (cases "trank t = 4") (auto simp: trailing_axes_simps of_nat_diff upt_rec)
  have nv: "eval sem env ?nv = phys ?ty ?N"
    using t r by (intro eval_normalized_phys(2) [OF t(1,2) _ _ _ _ axes]) simp_all
  have ne: "tshape t \<noteq> []" using r by auto
  have lst: "tshape t ! ?a = c" "c \<in> set (tshape t)" using c ne by (simp_all add: last_conv_nth flip: c)
  have c31: "c < 2 ^ 31" using t(4) lst(2) by (simp add: i32_dims_def)
  have cf: "conforms ?ty ?N" using t(2) by (simp add: conforms_Ranked)
  have p4: "physical4 ?ty \<longleftrightarrow> trank t = 4" using t(2) by (simp add: physical4_def isF32_def)
  have pos: "(if trank t = 4 then 2 else 0) \<le> ?a'" "?a' + 1 + (if trank t = 4 then 1 else 0) = trank t" using r by (auto simp: ipos_to_nhwc)
  have ws: "wf_tensor (Tensor ?S (tdata u))" if "conforms pty u" "tshape u = [c]" for pty and u :: "'f scalar tensor"
    using conforms_wf [OF that(1)] that(2) by (simp add: wf_tensor_def)
  have e1: "eval sem env (adaptor 1 (rn_scale op)) = phys (oty (rn_scale op)) s" using s(2) by simp
  let ?sc = "createTFLOperation ''tfl.mul'' [convertRank4NCHWToNHWCType ?ty] [?nv, ?p (adaptor 1 (rn_scale op))] [getFusedActivationNone] 0"
  have lay: "tfl_layout sem" by (rule ar.add.tfl_layout_axioms)
  have z: "(if trank u = 4 then ipos to_nhwc ?a else ?a) = ?a'" if "tshape u = tshape t" for u :: "'f scalar tensor" using that by simp
  have w: "tshape u = replicate 0 1 @ c # replicate 0 1" if "tshape u = [c]" for u :: "'f scalar tensor" using that by simp
  have m: "eval sem env ?sc = phys ?ty (tmap2 mulf ?N s)" "conforms ?ty (tmap2 mulf ?N s)" "tshape (tmap2 mulf ?N s) = tshape t"
  proof -
    note ep = eval_parameter [OF ar.mul.tfl_binary_axioms cf _ _ nv _ _ z [symmetric] w [OF s(3)] _ _ eval_last_parameter [OF lay s(1) e1 s(3) c31 refl] ws [OF s(1,3)] _ pos(1)]
    show "eval sem env ?sc = phys ?ty (tmap2 mulf ?N s)" by (rule ep(1)) (use r p4 lst pos(2) in simp_all)
    show "conforms ?ty (tmap2 mulf ?N s)" by (rule ep(2)) (use r p4 lst pos(2) in simp_all)
    have "tshape (tmap2 mulf ?N s) = tshape ?N" by (rule ep(3)) (use r p4 lst pos(2) in simp_all)
    then show "tshape (tmap2 mulf ?N s) = tshape t" by simp
  qed
  show ?thesis
  proof (cases hasBias)
    case False
    then show ?thesis using m(1,2) unfolding emit_rms_norm_def Let_def getRank_map_int onnx_rms_norm_def by (simp add: represents_def)
  next
    case True
    have e2: "eval sem env (adaptor 2 (rn_b op)) = phys (oty (rn_b op)) b" using b True by simp
    let ?bv = "if matches then ?p (adaptor 2 (rn_b op)) else adaptor 2 (rn_b op)"
    let ?r = "createTFLOperation ''tfl.add'' [convertRank4NCHWToNHWCType ?ty] [?sc, ?bv] [getFusedActivationNone] 0"
    have "eval sem env ?r = phys ?ty (tmap2 addf (tmap2 mulf ?N s) b) \<and> conforms ?ty (tmap2 addf (tmap2 mulf ?N s) b)"
    proof (cases matches)
      case True
      have bc: "conforms (oty (rn_b op)) b" "tshape b = [c]" using b vec True \<open>hasBias\<close> by simp_all
      have bv: "eval sem env ?bv = Tensor ?S (tdata b)" using eval_last_parameter [OF lay bc(1) e2 bc(2) c31 refl, of "trank t"] True by simp
      note ep = eval_parameter [OF ar.add.tfl_binary_axioms m(2) _ _ m(1) _ _ z [OF m(3), symmetric] w [OF bc(2)] _ _ bv ws [OF bc] _ pos(1)]
      show ?thesis
      proof
        show "eval sem env ?r = phys ?ty (tmap2 addf (tmap2 mulf ?N s) b)" by (rule ep(1)) (use r p4 lst pos(2) m(3) in simp_all)
        show "conforms ?ty (tmap2 addf (tmap2 mulf ?N s) b)" by (rule ep(2)) (use r p4 lst pos(2) m(3) in simp_all)
      qed
    next
      case False
      have bf: "conforms (oty (rn_b op)) b" "list_all2 (\<lambda>d e. d = 1 \<or> d = e) (tshape b) (tshape (tmap2 mulf ?N s))"
        "oty (rn_b op) = RankedTensor (map int (tshape b)) F32" using b full False \<open>hasBias\<close> m(3) by simp_all
      have p4b: "physical4 (oty (rn_b op)) \<longleftrightarrow> trank (tmap2 mulf ?N s) = 4"
        using bf(2,3) by (auto simp: physical4_def isF32_def dest!: list_all2_lengthD)
      have bv: "eval sem env ?bv = phys (oty (rn_b op)) b" using e2 False by simp
      have m4: "trank (tmap2 mulf ?N s) \<le> 5" "physical4 ?ty \<longleftrightarrow> trank (tmap2 mulf ?N s) = 4" using m(3) r(2) p4 by simp_all
      show ?thesis by (intro conjI eval_full_rank [OF ar.add.tfl_binary_axioms m(2) m4 m(1) bf(1) bv p4b bf(2)])
    qed
    then show ?thesis using True unfolding emit_rms_norm_def Let_def getRank_map_int onnx_rms_norm_def by (simp add: represents_def)
  qed
qed

end


text \<open>
  C18: when the RMSLayerNormalization pattern succeeds, its first result represents the logical tensor divided by the root
  mean square of its last axis, scaled, and shifted by the bias when there is one: a vector along the last
  axis, or a tensor of the rank of the input whose representation is permuted with it.
\<close>

theorem lower_rms_norm_correct:
  assumes sem: "tfl_layer_norm sem addf subf mulf divf maxf minf meanf rsqrtf" and low: "lower_rms_norm op = Inr vs"
    and t: "conforms (oty (rn_x op)) t" "env 0 = phys (oty (rn_x op)) t" "i32_dims (tshape t)"
    and par: "conforms (oty (rn_scale op)) s" "env 1 = phys (oty (rn_scale op)) s"
      "oty (rn_b op) = NoneT \<or> conforms (oty (rn_b op)) b \<and> env 2 = phys (oty (rn_b op)) b"
  shows "\<exists>y. vs = [y, noValue] \<and> represents sem env y (rn_y op)
    (onnx_rms_norm addf mulf (rms_norm_elem addf mulf meanf rsqrtf (FV (rn_epsilon op)))
      (nat (normalizeAxis (rn_axis op) (int (trank t)))) t s (if oty (rn_b op) \<noteq> NoneT then Some b else None))"
proof -
  let ?xty = "oty (rn_x op)" and ?sty = "oty (rn_scale op)" and ?bty = "oty (rn_b op)" and ?has = "oty (rn_b op) \<noteq> NoneT"
  have valid: "\<not> failed (validateStaticF32Tensor ?xty)" "\<not> failed (validateStaticF32Tensor ?sty)" "\<not> failed (validateStaticF32Tensor (rn_y op))"
    "\<not> (?has \<and> failed (validateStaticF32Tensor ?bty))" using low by (auto simp: lower_rms_norm_def Let_def split: mtype.splits if_splits)
  obtain osh oe where oty: "rn_y op = RankedTensor osh oe" using low by (auto simp: lower_rms_norm_def Let_def split: mtype.splits)
  note tys = static_f32_conforms [OF valid(1) t(1)] static_f32_conforms [OF valid(2) par(1)]
  have bty: "?bty = RankedTensor (map int (tshape b)) F32" if ?has using static_f32_conforms [of ?bty b] valid(4) par(3) that by simp
  let ?axis = "normalizeAxis (rn_axis op) (int (trank t))" and ?n = "int (trank t)" and ?sh = "map int (tshape s)"
  let ?bh = "case ?bty of RankedTensor sh e \<Rightarrow> sh | _ \<Rightarrow> []"
  let ?matches = "?has \<and> getRank ?bh = 1 \<and> ?bh = ?sh" and ?full = "?has \<and> getRank ?bh = ?n \<and> list_all2 (\<lambda>d e. d = 1 \<or> d = e) ?bh (map int (tshape t))"
  have low': "(if ?n < 2 \<or> 5 < ?n \<or> rn_y op \<noteq> ?xty \<or> ?axis \<noteq> ?n - 1 \<or> int (trank s) \<noteq> 1 \<or> ?sh ! 0 \<noteq> last (map int (tshape t)) \<or>
      (?has \<and> \<not> ?matches \<and> \<not> ?full) \<or> rn_stash op \<noteq> 1 \<or> rn_inv_std_dev op \<noteq> NoneT then Inl BadAttribute
    else Inr (emit_rms_norm op (map int (tshape t)) ?axis (?sh ! 0) ?has ?matches)) = Inr vs"
    using low valid
    by (simp only: lower_rms_norm_def tys oty prod.case mtype.case Let_def getRank_map_int length_map if_False simp_thms)
  then have c: "2 \<le> ?n" "?n \<le> 5" "rn_y op = ?xty" "?axis = ?n - 1" "trank s = 1" "?sh ! 0 = last (map int (tshape t))" "?has \<Longrightarrow> \<not> ?matches \<Longrightarrow> ?full"
    and vs: "vs = emit_rms_norm op (map int (tshape t)) ?axis (?sh ! 0) ?has ?matches" by (auto split: if_splits)
  obtain k where s: "tshape s = [k]" using c(5) by (auto simp: length_Suc_conv)
  have "tshape t \<noteq> []" using c(1) by auto
  then have k: "last (tshape t) = k" using c(6) s by (simp add: last_map)
  have "\<exists>y. emit_rms_norm op (map int (tshape t)) (int (trank t) - 1) (int k) ?has ?matches = [y, noValue] \<and>
    represents sem env y ?xty (onnx_rms_norm addf mulf (rms_norm_elem addf mulf meanf rsqrtf (FV (rn_epsilon op))) (trank t - 1) t s (if ?has then Some b else None))"
  proof (rule tfl_layer_norm.represents_rms [OF sem t(1) tys(1) t(2,3) _ _ k par(1,2) s])
    show "conforms ?bty b \<and> env 2 = phys ?bty b" if ?has using par(3) that by blast
    show "tshape b = [k]" if ?has ?matches using bty [OF that(1)] that(2) s by (simp add: inj_map_eq_map map_eq_Cons_conv)
    show "list_all2 (\<lambda>d e. d = 1 \<or> d = e) (tshape b) (tshape t) \<and> ?bty = RankedTensor (map int (tshape b)) F32" if ?has "\<not> ?matches"
      using c(7) [OF that] bty [OF that(1)] by (simp add: list_all2_map1 list_all2_map2)
  qed (use c in simp_all)
  then show ?thesis using vs c s by (simp add: nat_diff_distrib)
qed

section \<open>Witnesses\<close>

interpretation reference_rsqrt: tfl_unary reference_sem "''tfl.rsqrt''" "[]" "ref_un ref_rsqrt"
  by unfold_locales (simp add: reference_defs)

interpretation reference_layer_norm: tfl_layer_norm reference_sem "ref_arith (+)" "ref_arith (-)" "ref_arith (*)" "ref_arith (div)" "ref_arith max"
    "ref_arith min" ref_mean "ref_un ref_rsqrt"
  by unfold_locales

definition layer_norm_example :: "int layer_norm_op" where
  "layer_norm_example = (let p = \<lparr>oty = RankedTensor [3] F32, oattr = None\<rparr>; ty = RankedTensor [1, 2, 2, 3] F32 in
     \<lparr>ln_x = \<lparr>oty = ty, oattr = None\<rparr>, ln_scale = p, ln_b = p, ln_axis = - 1, ln_epsilon = 1, ln_stash = 1, ln_y = ty, ln_mean = NoneT,
      ln_inv_std_dev = NoneT\<rparr>)"

theorem lower_layer_norm_correct_witness:
  "\<exists>y. lower_layer_norm layer_norm_example = Inr [y, noValue, noValue] \<and>
     represents reference_sem (\<lambda>k. if k = 0 then ttranspose to_nhwc nchw_example else Tensor [3] [FV 3, FV 8, FV 5]) y (ln_y layer_norm_example)
       (onnx_layer_norm (ref_arith (+)) (ref_arith (*)) (layer_norm_elem (ref_arith (+)) (ref_arith (-)) (ref_arith (*)) ref_mean (ref_un ref_rsqrt)
          (FV (ln_epsilon layer_norm_example))) (nat (normalizeAxis (ln_axis layer_norm_example) (int (trank nchw_example)))) nchw_example
        (Tensor [3] [FV 3, FV 8, FV 5]) (Tensor [3] [FV 3, FV 8, FV 5]))"
proof -
  have "\<not> failed (lower_layer_norm layer_norm_example)" by code_simp
  then obtain vs where low: "lower_layer_norm layer_norm_example = Inr vs" by (rule not_failedE)
  have "\<exists>y. vs = [y, noValue, noValue] \<and>
     represents reference_sem (\<lambda>k. if k = 0 then ttranspose to_nhwc nchw_example else Tensor [3] [FV 3, FV 8, FV 5]) y (ln_y layer_norm_example)
       (onnx_layer_norm (ref_arith (+)) (ref_arith (*)) (layer_norm_elem (ref_arith (+)) (ref_arith (-)) (ref_arith (*)) ref_mean (ref_un ref_rsqrt)
          (FV (ln_epsilon layer_norm_example))) (nat (normalizeAxis (ln_axis layer_norm_example) (int (trank nchw_example)))) nchw_example
        (Tensor [3] [FV 3, FV 8, FV 5]) (Tensor [3] [FV 3, FV 8, FV 5]))"
    by (rule lower_layer_norm_correct [OF reference_layer_norm.tfl_layer_norm_axioms low])
      (simp_all add: layer_norm_example_def Let_def example_simps conforms_Ranked wf_tensor_def [of "Tensor [3] xs" for xs] i32_dims_def)
  with low show ?thesis by auto
qed

definition rms_norm_example :: "int rms_norm_op" where
  "rms_norm_example = (let ty = RankedTensor [1, 2, 2, 3] F32 in
     \<lparr>rn_x = \<lparr>oty = ty, oattr = None\<rparr>, rn_scale = \<lparr>oty = RankedTensor [3] F32, oattr = None\<rparr>, rn_b = \<lparr>oty = ty, oattr = None\<rparr>, rn_axis = 3,
      rn_epsilon = 1, rn_stash = 1, rn_y = ty, rn_inv_std_dev = NoneT\<rparr>)"

theorem lower_rms_norm_correct_witness:
  "\<exists>y. lower_rms_norm rms_norm_example = Inr [y, noValue] \<and>
     represents reference_sem (\<lambda>k. if k = 1 then Tensor [3] [FV 3, FV 8, FV 5] else ttranspose to_nhwc nchw_example) y (rn_y rms_norm_example)
       (onnx_rms_norm (ref_arith (+)) (ref_arith (*)) (rms_norm_elem (ref_arith (+)) (ref_arith (*)) ref_mean (ref_un ref_rsqrt)
          (FV (rn_epsilon rms_norm_example))) (nat (normalizeAxis (rn_axis rms_norm_example) (int (trank nchw_example)))) nchw_example
        (Tensor [3] [FV 3, FV 8, FV 5]) (if oty (rn_b rms_norm_example) \<noteq> NoneT then Some nchw_example else None))"
proof -
  have "\<not> failed (lower_rms_norm rms_norm_example)" by code_simp
  then obtain vs where low: "lower_rms_norm rms_norm_example = Inr vs" by (rule not_failedE)
  have "\<exists>y. vs = [y, noValue] \<and>
     represents reference_sem (\<lambda>k. if k = 1 then Tensor [3] [FV 3, FV 8, FV 5] else ttranspose to_nhwc nchw_example) y (rn_y rms_norm_example)
       (onnx_rms_norm (ref_arith (+)) (ref_arith (*)) (rms_norm_elem (ref_arith (+)) (ref_arith (*)) ref_mean (ref_un ref_rsqrt)
          (FV (rn_epsilon rms_norm_example))) (nat (normalizeAxis (rn_axis rms_norm_example) (int (trank nchw_example)))) nchw_example
        (Tensor [3] [FV 3, FV 8, FV 5]) (if oty (rn_b rms_norm_example) \<noteq> NoneT then Some nchw_example else None))"
    by (rule lower_rms_norm_correct [OF reference_layer_norm.tfl_layer_norm_axioms low])
      (simp_all add: rms_norm_example_def Let_def example_simps conforms_Ranked wf_tensor_def [of "Tensor [3] xs" for xs] i32_dims_def)
  with low show ?thesis by auto
qed

end
