(* ===== verification/Convert_Entry.thy ===== *)
theory Convert_Entry
  imports LegalizeUtils
begin

text \<open>
  Model of the pass \<^verbatim>\<open>ConvertONNXToTFL.cpp\<close> around the conversion of the operations: the preparation of
  the entry function, and the change of its interface to the NHWC types with the removal of the
  casts that the conversion driver leaves behind. The state is the module (its entry points and
  its symbol table) and the body of the entry function.
\<close>

section \<open>State\<close>

record entry_fn =
  fn_name :: string
  fn_public :: bool
  fn_inputs :: "mtype list"
  fn_outputs :: "mtype list"
  fn_arg_names :: "string option list"
  fn_result_names :: "string option list"
  fn_entry :: "(string \<times> string) list option"

datatype symbol = FuncSym entry_fn | OtherSym string

fun sym_name :: "symbol \<Rightarrow> string" where
  "sym_name (FuncSym f) = fn_name f"
| "sym_name (OtherSym n) = n"

record ir_module =
  m_entries :: "string option list"
  m_symbols :: "symbol list"

definition lookupSymbol :: "ir_module \<Rightarrow> string \<Rightarrow> symbol option" where
  "lookupSymbol m n = find (\<lambda>s. sym_name s = n) (m_symbols m)"

definition lookupFunc :: "ir_module \<Rightarrow> string \<Rightarrow> entry_fn option" where
  "lookupFunc m n = (case lookupSymbol m n of Some (FuncSym f) \<Rightarrow> Some f | _ \<Rightarrow> None)"

section \<open>The entry point\<close>

fun decimal :: "nat \<Rightarrow> string" where
  "decimal n = (if n < 10 then [char_of (48 + n)] else decimal (n div 10) @ [char_of (48 + n mod 10)])"

definition getONNXValueName :: "entry_fn \<Rightarrow> nat \<Rightarrow> bool \<Rightarrow> string" where
  "getONNXValueName f index result =
     (case (if result then fn_result_names f else fn_arg_names f) ! index of Some name \<Rightarrow> name | None \<Rightarrow> [])"

definition value_name :: "entry_fn \<Rightarrow> bool \<Rightarrow> nat \<Rightarrow> string" where
  "value_name f result i =
     (let name = getONNXValueName f i result in
      if name = [] then (if result then ''output'' else ''input'') @ decimal i else name)"

fun join_names :: "string list \<Rightarrow> string" where
  "join_names [] = []"
| "join_names [n] = n"
| "join_names (n # m # ns) = n @ CHR '','' # join_names (m # ns)"

definition joinValueNames :: "entry_fn \<Rightarrow> bool \<Rightarrow> string" where
  "joinValueNames f result =
     join_names (map (value_name f result) [0..<length (if result then fn_outputs f else fn_inputs f)])"

definition validateEntryTensor :: "mtype \<Rightarrow> unit result" where
  "validateEntryTensor ty =
     (case ty of
        RankedTensor shape e \<Rightarrow>
          if \<not> hasStaticShape shape then Inl DynamicShape
          else if getRank shape < 1 then Inl RankBelowOne
          else if \<not> isF32 e \<and> \<not> isInteger 1 e \<and> \<not> isSignlessInteger 32 e \<and> \<not> isSignlessInteger 64 e then Inl BadTypes
          else Inr ()
      | _ \<Rightarrow> Inl UnrankedTensor)"

fun validate_all :: "mtype list \<Rightarrow> unit result" where
  "validate_all [] = Inr ()"
| "validate_all (ty # tys) = bind_result (validateEntryTensor ty) (\<lambda>_. validate_all tys)"

definition entry_attributes :: "entry_fn \<Rightarrow> (string \<times> string) list" where
  "entry_attributes f =
     [(''inputs'', joinValueNames f False), (''outputs'', joinValueNames f True), (''control_outputs'', [])]"

definition publish :: "entry_fn \<Rightarrow> entry_fn" where
  "publish f = f \<lparr>fn_entry := Some (entry_attributes f), fn_public := True, fn_name := ''main''\<rparr>"

definition prepareEntryPoint :: "ir_module \<Rightarrow> ir_module result" where
  "prepareEntryPoint m =
     (case m_entries m of
        [Some symbol] \<Rightarrow>
          (case lookupFunc m symbol of
             None \<Rightarrow> Inl EntryPoint
           | Some f \<Rightarrow>
               if fn_name f \<noteq> ''main'' \<and> lookupSymbol m ''main'' \<noteq> None then Inl Duplicate
               else bind_result (validate_all (fn_inputs f)) (\<lambda>_.
                 bind_result (validate_all (fn_outputs f)) (\<lambda>_.
                   Inr (m \<lparr>m_entries := [],
                           m_symbols := map (\<lambda>s. if sym_name s = symbol then FuncSym (publish f) else s) (m_symbols m)\<rparr>))))
      | [None] \<Rightarrow> Inl MissingAttribute
      | _ \<Rightarrow> Inl EntryPoint)"

section \<open>The interface of the entry function\<close>

text \<open>Values are numbers; a \<open>CastOp\<close> is an unrealized conversion cast.\<close>

datatype irop = CastOp "nat list" "nat list" | Op string "nat list" "nat list"

fun op_ins :: "irop \<Rightarrow> nat list" where
  "op_ins (CastOp ins outs) = ins"
| "op_ins (Op nm ins outs) = ins"

fun op_outs :: "irop \<Rightarrow> nat list" where
  "op_outs (CastOp ins outs) = outs"
| "op_outs (Op nm ins outs) = outs"

fun is_cast :: "irop \<Rightarrow> bool" where
  "is_cast (CastOp ins outs) = True"
| "is_cast (Op nm ins outs) = False"

record fn_body =
  b_args :: "nat list"
  b_types :: "nat \<Rightarrow> mtype"
  b_ops :: "irop list"
  b_inputs :: "mtype list"
  b_results :: "mtype list"

definition subst_value :: "nat \<Rightarrow> nat \<Rightarrow> nat \<Rightarrow> nat" where
  "subst_value old new v = (if v = old then new else v)"

fun subst_op :: "nat \<Rightarrow> nat \<Rightarrow> irop \<Rightarrow> irop" where
  "subst_op old new (CastOp ins outs) = CastOp (map (subst_value old new) ins) outs"
| "subst_op old new (Op nm ins outs) = Op nm (map (subst_value old new) ins) outs"

definition replaceAllUsesWith :: "nat \<Rightarrow> nat \<Rightarrow> irop list \<Rightarrow> irop list" where
  "replaceAllUsesWith old new ops = map (subst_op old new) ops"

text \<open>The casts of an argument whose type changed, then the walk over all remaining casts.\<close>

fun fold_arg_casts :: "nat \<Rightarrow> mtype \<Rightarrow> (nat \<Rightarrow> mtype) \<Rightarrow> irop list \<Rightarrow> irop list \<Rightarrow> irop list" where
  "fold_arg_casts argument convertedType types [] ops = ops"
| "fold_arg_casts argument convertedType types (cast # casts) ops =
     (case cast of
        CastOp [i] [o1] \<Rightarrow>
          if i \<noteq> argument \<or> types o1 \<noteq> convertedType then fold_arg_casts argument convertedType types casts ops
          else fold_arg_casts argument convertedType types casts
                 (replaceAllUsesWith o1 argument (filter (\<lambda>op. op \<noteq> cast) ops))
      | _ \<Rightarrow> fold_arg_casts argument convertedType types casts ops)"

fun retype_arguments :: "(nat \<times> mtype) list \<Rightarrow> (nat \<Rightarrow> mtype) \<Rightarrow> irop list \<Rightarrow> (nat \<Rightarrow> mtype) \<times> irop list" where
  "retype_arguments [] types ops = (types, ops)"
| "retype_arguments ((argument, convertedType) # args) types ops =
     (if types argument = convertedType then retype_arguments args types ops
      else
        let types' = types(argument := convertedType);
            casts = filter (\<lambda>op. is_cast op \<and> argument \<in> set (op_ins op)) ops in
        retype_arguments args types' (fold_arg_casts argument convertedType types' casts ops))"

definition cast_removable :: "(nat \<Rightarrow> mtype) \<Rightarrow> nat \<Rightarrow> nat \<Rightarrow> bool" where
  "cast_removable types i out \<longleftrightarrow>
     \<not> (types i \<noteq> types out \<and> types i \<noteq> convertRank4NCHWToNHWCType (types out) \<and>
        types out \<noteq> convertRank4NCHWToNHWCType (types i))"

function walk_casts :: "(nat \<Rightarrow> mtype) \<Rightarrow> irop list \<Rightarrow> irop list \<Rightarrow> irop list \<Rightarrow> irop list \<times> irop list" where
  "walk_casts types remaining visited [] = (visited, remaining)"
| "walk_casts types remaining visited (op # ops) =
     (case op of
        CastOp [i] [out] \<Rightarrow>
          if cast_removable types i out
          then walk_casts types remaining (replaceAllUsesWith out i visited) (replaceAllUsesWith out i ops)
          else walk_casts types (remaining @ [op]) (visited @ [op]) ops
      | CastOp ins outs \<Rightarrow> walk_casts types (remaining @ [op]) (visited @ [op]) ops
      | Op nm ins outs \<Rightarrow> walk_casts types remaining (visited @ [op]) ops)"
  by pat_completeness auto

termination
  by (relation "measure (\<lambda>(types, remaining, visited, ops). length ops)") (auto simp: replaceAllUsesWith_def)

definition finalizeEntryPointTypes :: "fn_body \<Rightarrow> fn_body result" where
  "finalizeEntryPointTypes b =
     (let inputs = map convertRank4NCHWToNHWCType (b_inputs b);
          results = map convertRank4NCHWToNHWCType (b_results b);
          (types, ops) = retype_arguments (zip (b_args b) inputs) (b_types b) (b_ops b);
          (ops', remaining) = walk_casts types [] [] ops in
      if remaining \<noteq> [] then Inl NotCompatible
      else Inr (b \<lparr>b_types := types, b_ops := ops', b_inputs := inputs, b_results := results\<rparr>))"

section \<open>Preparation of the entry point\<close>

lemma validate_all_ok: "validate_all tys = Inr u \<longleftrightarrow> (\<forall>ty\<in>set tys. validateEntryTensor ty = Inr ())"
  by (induction tys) auto

lemma lookupFunc_Some: "lookupFunc m n = Some f \<Longrightarrow> FuncSym f \<in> set (m_symbols m) \<and> fn_name f = n"
  by (fastforce simp: lookupFunc_def lookupSymbol_def find_Some_iff in_set_conv_nth split: option.splits symbol.splits)

lemma lookupSymbol_None: "lookupSymbol m n = None \<longleftrightarrow> n \<notin> sym_name ` set (m_symbols m)"
  by (auto simp: lookupSymbol_def find_None_iff)

definition module_ok :: "ir_module \<Rightarrow> bool" where
  "module_ok m \<longleftrightarrow> distinct (map sym_name (m_symbols m))"

lemma find_distinct:
  assumes "distinct (map f xs)" and "x \<in> set xs" and "f x = k" shows "find (\<lambda>y. f y = k) xs = Some x"
  using assms by (induction xs) auto

lemma map_publish_names:
  assumes "distinct (map sym_name ss)" and "FuncSym f \<in> set ss" and "fn_name f = ''main'' \<or> ''main'' \<notin> sym_name ` set ss"
  shows "distinct (map sym_name (map (\<lambda>s. if sym_name s = fn_name f then FuncSym (publish f) else s) ss))"
proof -
  let ?g = "\<lambda>n. if n = fn_name f then ''main'' else n"
  have eq: "map sym_name (map (\<lambda>s. if sym_name s = fn_name f then FuncSym (publish f) else s) ss) = map ?g (map sym_name ss)"
    by (auto simp: publish_def)
  have "inj_on ?g (set (map sym_name ss))" using assms(3) by (force simp: inj_on_def)
  then show ?thesis unfolding eq using assms(1) by (subst distinct_map) simp
qed

lemma find_publish_other:
  assumes "n \<noteq> k" and "n \<noteq> ''main''"
  shows "find (\<lambda>s. sym_name s = n) (map (\<lambda>s. if sym_name s = k then FuncSym (publish f) else s) ss) =
    find (\<lambda>s. sym_name s = n) ss"
  using assms by (induction ss) (auto simp: publish_def)

lemma prepareEntryPoint_facts:
  assumes ok: "module_ok m" and prep: "prepareEntryPoint m = Inr m'"
  shows "module_ok m' \<and> m_entries m' = [] \<and>
    (\<exists>sym f. m_entries m = [Some sym] \<and> lookupFunc m sym = Some f \<and> lookupFunc m' ''main'' = Some (publish f) \<and>
       (\<forall>ty. ty \<in> set (fn_inputs f) \<union> set (fn_outputs f) \<longrightarrow> validateEntryTensor ty = Inr ()) \<and>
       (\<forall>n. n \<noteq> sym \<and> n \<noteq> ''main'' \<longrightarrow> lookupSymbol m' n = lookupSymbol m n))"
proof -
  obtain sym f where e: "m_entries m = [Some sym]" and f: "lookupFunc m sym = Some f"
    and nm: "fn_name f = ''main'' \<or> lookupSymbol m ''main'' = None"
    and v: "validate_all (fn_inputs f) = Inr ()" "validate_all (fn_outputs f) = Inr ()"
    and m': "m' = m \<lparr>m_entries := [], m_symbols := map (\<lambda>s. if sym_name s = sym then FuncSym (publish f) else s) (m_symbols m)\<rparr>"
    using prep by (auto simp: prepareEntryPoint_def split: list.splits option.splits if_splits)
  have fs: "FuncSym f \<in> set (m_symbols m)" "fn_name f = sym" using lookupFunc_Some [OF f] by simp_all
  have ok': "module_ok m'"
    using map_publish_names [of "m_symbols m" f] ok fs nm by (simp add: module_ok_def m' lookupSymbol_None)
  have "FuncSym (publish f) \<in> set (m_symbols m')" using fs by (force simp: m')
  then have "find (\<lambda>s. sym_name s = ''main'') (m_symbols m') = Some (FuncSym (publish f))"
    using ok' by (intro find_distinct) (simp_all add: module_ok_def publish_def)
  then have "lookupFunc m' ''main'' = Some (publish f)" by (simp add: lookupFunc_def lookupSymbol_def)
  moreover have "\<forall>n. n \<noteq> sym \<and> n \<noteq> ''main'' \<longrightarrow> lookupSymbol m' n = lookupSymbol m n"
    by (simp add: lookupSymbol_def m' find_publish_other)
  ultimately show ?thesis using ok' e f v by (auto simp: m' validate_all_ok)
qed

text \<open>
  C28: when the preparation of the entry point succeeds, the module has no entry point operation left and
  its symbols are still distinct; the function that the only entry point named is found under
  \<^verbatim>\<open>main\<close>, public and with its entry attributes, all its inputs and outputs are static tensors of a
  supported element type, and every other symbol resolves as before.
\<close>

theorem prepareEntryPoint_invariant:
  assumes ok: "module_ok m" and prep: "prepareEntryPoint m = Inr m'"
  shows "module_ok m' \<and> m_entries m' = [] \<and>
    (\<exists>sym f. m_entries m = [Some sym] \<and> lookupFunc m sym = Some f \<and> lookupFunc m' ''main'' = Some (publish f) \<and>
       (\<forall>ty. ty \<in> set (fn_inputs f) \<union> set (fn_outputs f) \<longrightarrow> validateEntryTensor ty = Inr ()) \<and>
       (\<forall>n. n \<noteq> sym \<and> n \<noteq> ''main'' \<longrightarrow> lookupSymbol m' n = lookupSymbol m n))"
  using assms by (rule prepareEntryPoint_facts)

definition module_example :: ir_module where
  "module_example = \<lparr>m_entries = [Some ''main_graph''],
     m_symbols = [OtherSym ''weights'', FuncSym \<lparr>fn_name = ''main_graph'', fn_public = False,
       fn_inputs = [RankedTensor [1, 3, 8, 8] F32], fn_outputs = [RankedTensor [1, 10] F32, RankedTensor [1] I64],
       fn_arg_names = [Some ''image''], fn_result_names = [None, Some ''label''], fn_entry = None\<rparr>]\<rparr>"

theorem prepareEntryPoint_invariant_witness:
  "\<exists>m'. prepareEntryPoint module_example = Inr m' \<and> module_ok m' \<and> m_entries m' = []"
proof -
  have "\<not> failed (prepareEntryPoint module_example)" by code_simp
  then obtain m' where prep: "prepareEntryPoint module_example = Inr m'" by (rule not_failedE)
  have "module_ok module_example" by code_simp
  from prepareEntryPoint_invariant [OF this prep] prep show ?thesis by blast
qed

section \<open>The names of inputs and outputs\<close>

fun split_names :: "string \<Rightarrow> string list" where
  "split_names [] = [[]]"
| "split_names (c # cs) =
     (if c = CHR '','' then [] # split_names cs
      else (case split_names cs of n # ns \<Rightarrow> (c # n) # ns | [] \<Rightarrow> [[c]]))"

lemma split_names_not_Nil: "split_names cs \<noteq> []"
  by (induction cs) (auto split: list.splits)

lemma split_names_plain: "CHR '','' \<notin> set n \<Longrightarrow> split_names n = [n]"
  by (induction n) auto

lemma split_names_append: "CHR '','' \<notin> set n \<Longrightarrow> split_names (n @ CHR '','' # cs) = n # split_names cs"
  by (induction n) auto

lemma split_join_names: "ns \<noteq> [] \<Longrightarrow> \<forall>n\<in>set ns. CHR '','' \<notin> set n \<Longrightarrow> split_names (join_names ns) = ns"
  by (induction ns rule: join_names.induct) (simp_all add: split_names_plain split_names_append)

lemma decimal_no_comma: "CHR '','' \<notin> set (decimal n)"
proof (induction n rule: decimal.induct)
  case (1 n)
  have digit: "CHR '','' \<noteq> char_of (48 + k)" if "k < 10" for k :: nat
  proof
    assume "CHR '','' = char_of (48 + k)"
    then have "of_char (CHR '','') = (of_char (char_of (48 + k)) :: nat)" by simp
    then show False using that by (simp add: of_char_of)
  qed
  show ?case using 1 digit [of n] digit [of "n mod 10"] by (subst decimal.simps) (auto simp del: decimal.simps)
qed

text \<open>
  The comma-separated list that the entry function carries determines the names of its inputs and
  outputs, provided no ONNX name contains a comma; unnamed values get distinct generated names.
\<close>

theorem joinValueNames_split:
  assumes "(if result then fn_outputs f else fn_inputs f) \<noteq> []"
    and "\<forall>i < length (if result then fn_outputs f else fn_inputs f). CHR '','' \<notin> set (getONNXValueName f i result)"
  shows "split_names (joinValueNames f result) =
    map (value_name f result) [0..<length (if result then fn_outputs f else fn_inputs f)]"
proof -
  have "CHR '','' \<notin> set (value_name f result i)" if "i < length (if result then fn_outputs f else fn_inputs f)" for i
    using assms(2) that decimal_no_comma [of i] by (auto simp: value_name_def Let_def)
  then show ?thesis unfolding joinValueNames_def using assms(1) by (intro split_join_names) auto
qed

theorem joinValueNames_split_witness:
  "\<exists>f. lookupFunc module_example ''main_graph'' = Some f \<and> joinValueNames f True = ''output0,label'' \<and>
     split_names (joinValueNames f True) = [''output0'', ''label'']"
proof -
  let ?f = "\<lparr>fn_name = ''main_graph'', fn_public = False, fn_inputs = [RankedTensor [1, 3, 8, 8] F32],
      fn_outputs = [RankedTensor [1, 10] F32, RankedTensor [1] I64], fn_arg_names = [Some ''image''],
      fn_result_names = [None, Some ''label''], fn_entry = None\<rparr> :: entry_fn"
  have l: "lookupFunc module_example ''main_graph'' = Some ?f" by code_simp
  have j: "joinValueNames ?f True = ''output0,label''" by code_simp
  have n: "map (value_name ?f True) [0..<2] = [''output0'', ''label'']" by code_simp
  have "split_names (joinValueNames ?f True) = map (value_name ?f True) [0..<2]"
    using joinValueNames_split [of True ?f] by (simp add: All_less_Suc getONNXValueName_def numeral_2_eq_2)
  with l j n show ?thesis by simp
qed

section \<open>Removal of the casts\<close>

text \<open>
  Dominance: operands are defined before they are used and every value is defined once. \<open>trace\<close>
  lists the operations that a run executes, with the values of their operands; a cast with one
  operand and one result only passes a value on.
\<close>

fun wf_ssa :: "nat set \<Rightarrow> irop list \<Rightarrow> bool" where
  "wf_ssa D [] \<longleftrightarrow> True"
| "wf_ssa D (op # ops) \<longleftrightarrow> set (op_ins op) \<subseteq> D \<and> distinct (op_outs op) \<and> set (op_outs op) \<inter> D = {} \<and>
     wf_ssa (D \<union> set (op_outs op)) ops"

definition bind_values :: "nat list \<Rightarrow> 'v list \<Rightarrow> (nat \<Rightarrow> 'v) \<Rightarrow> nat \<Rightarrow> 'v" where
  "bind_values outs vs env = fold (\<lambda>(r, v) e. e(r := v)) (zip outs vs) env"

fun trace :: "(string \<Rightarrow> 'v list \<Rightarrow> 'v list) \<Rightarrow> irop list \<Rightarrow> (nat \<Rightarrow> 'v) \<Rightarrow> (string \<times> 'v list) list" where
  "trace F [] env = []"
| "trace F (CastOp ins outs # ops) env = trace F ops (bind_values outs (map env ins) env)"
| "trace F (Op nm ins outs # ops) env =
     (nm, map env ins) # trace F ops (bind_values outs (F nm (map env ins)) env)"

lemma bind_values_other: "v \<notin> set outs \<Longrightarrow> bind_values outs vs env v = env v"
proof (induction outs arbitrary: vs env)
  case (Cons r outs)
  then show ?case by (cases vs) (simp_all add: bind_values_def)
qed (simp add: bind_values_def)

lemma bind_values_agree:
  assumes "\<forall>x. x \<noteq> old \<longrightarrow> env x = env' x" shows "\<forall>x. x \<noteq> old \<longrightarrow> bind_values outs vs env x = bind_values outs vs env' x"
  using assms
proof (induction outs arbitrary: vs env env')
  case (Cons r outs)
  then show ?case by (cases vs) (simp_all add: bind_values_def)
qed (simp add: bind_values_def)

lemma op_outs_subst [simp]: "op_outs (subst_op old new op) = op_outs op"
  and op_ins_subst [simp]: "op_ins (subst_op old new op) = map (subst_value old new) (op_ins op)"
  by (cases op; simp)+

lemma trace_subst:
  assumes "wf_ssa D ops" and "old \<in> D" "new \<in> D"
    and "\<forall>x. x \<noteq> old \<longrightarrow> env x = env' x" and "env old = env new" and "new \<noteq> old"
  shows "trace F (replaceAllUsesWith old new ops) env' = trace F ops env"
  using assms
proof (induction ops arbitrary: D env env')
  case (Cons op ops)
  have v: "env' (subst_value old new x) = env x" for x using Cons.prems(4-6) by (auto simp: subst_value_def)
  have o: "old \<notin> set (op_outs op)" "new \<notin> set (op_outs op)" using Cons.prems(1-3) by auto
  have IH: "trace F (replaceAllUsesWith old new ops) (bind_values (op_outs op) vs env') = trace F ops (bind_values (op_outs op) vs env)" for vs
  proof (rule Cons.IH [of "D \<union> set (op_outs op)"])
    show "\<forall>x. x \<noteq> old \<longrightarrow> bind_values (op_outs op) vs env x = bind_values (op_outs op) vs env' x"
      by (rule bind_values_agree [OF Cons.prems(4)])
    show "bind_values (op_outs op) vs env old = bind_values (op_outs op) vs env new"
      using o Cons.prems(5) by (simp add: bind_values_other)
  qed (use Cons.prems in auto)
  show ?case using v IH by (cases op) (simp_all add: replaceAllUsesWith_def comp_def)
qed (simp add: replaceAllUsesWith_def)

lemma wf_ssa_append: "wf_ssa D (xs @ ys) \<longleftrightarrow> wf_ssa D xs \<and> wf_ssa (D \<union> (\<Union>op\<in>set xs. set (op_outs op))) ys"
  by (induction xs arbitrary: D) (auto simp: Un_assoc)

lemma wf_ssa_subst:
  assumes "wf_ssa (insert old D) ops" and "new \<in> D" and "old \<notin> D" shows "wf_ssa D (replaceAllUsesWith old new ops)"
  using assms
proof (induction ops arbitrary: D)
  case (Cons op ops)
  have "wf_ssa (insert old (D \<union> set (op_outs op))) ops" using Cons.prems(1) by simp
  moreover have "old \<notin> set (op_outs op)" using Cons.prems(1) by auto
  ultimately show ?case
    using Cons.IH [of "D \<union> set (op_outs op)"] Cons.prems by (auto simp: replaceAllUsesWith_def subst_value_def)
qed (simp add: replaceAllUsesWith_def)

lemma subst_unused: "old \<notin> D \<Longrightarrow> wf_ssa D ops \<Longrightarrow> \<forall>op\<in>set ops. old \<notin> set (op_outs op) \<Longrightarrow> replaceAllUsesWith old new ops = ops"
proof (induction ops arbitrary: D)
  case (Cons op ops)
  have "map (subst_value old new) (op_ins op) = op_ins op" using Cons.prems by (auto simp: subst_value_def intro!: map_idI)
  then have "subst_op old new op = op" by (cases op) simp_all
  then show ?case using Cons.IH [of "D \<union> set (op_outs op)"] Cons.prems by (simp add: replaceAllUsesWith_def)
qed (simp add: replaceAllUsesWith_def)

lemma trace_append:
  "trace F (xs @ CastOp [i] [out] # ys) env = trace F (xs @ zs) env"
  if "\<And>e. trace F ys (e(out := e i)) = trace F zs e" for i out
  using that by (induction F xs env rule: trace.induct) (simp_all add: bind_values_def)

text \<open>Removing one cast and replacing its result everywhere keeps dominance and the trace.\<close>

lemma remove_cast:
  assumes "wf_ssa D (xs @ CastOp [i] [out] # ys)"
  defines "zs \<equiv> replaceAllUsesWith out i xs @ replaceAllUsesWith out i ys"
  shows "wf_ssa D zs" and "trace F zs env = trace F (xs @ CastOp [i] [out] # ys) env"
proof -
  let ?D = "D \<union> (\<Union>op\<in>set xs. set (op_outs op))"
  have w: "wf_ssa D xs" "i \<in> ?D" "out \<notin> ?D" "wf_ssa (insert out ?D) ys"
    using assms(1) by (auto simp: wf_ssa_append)
  have xs: "replaceAllUsesWith out i xs = xs" using w(1,3) by (intro subst_unused [of _ D]) auto
  show "wf_ssa D zs" using w wf_ssa_subst [OF w(4,2,3)] by (simp add: zs_def xs wf_ssa_append)
  have "trace F ys (e(out := e i)) = trace F (replaceAllUsesWith out i ys) e" for e
    using w by (intro trace_subst [symmetric, of "insert out ?D"]) auto
  then show "trace F zs env = trace F (xs @ CastOp [i] [out] # ys) env"
    unfolding zs_def xs by (rule trace_append [symmetric])
qed

lemma wf_ssa_outs: "wf_ssa D ops \<Longrightarrow> op \<in> set ops \<Longrightarrow> set (op_outs op) \<inter> D = {}"
  by (induction ops arbitrary: D) auto

lemma filter_other_op:
  assumes "wf_ssa D (xs @ op # ys)" and "op_outs op \<noteq> []" shows "filter (\<lambda>p. p \<noteq> op) (xs @ op # ys) = xs @ ys"
proof -
  let ?D = "D \<union> (\<Union>p\<in>set xs. set (op_outs p))"
  have w: "set (op_outs op) \<inter> ?D = {}" "wf_ssa (?D \<union> set (op_outs op)) ys" using assms(1) by (auto simp: wf_ssa_append)
  have "op \<notin> set xs" using w(1) assms(2) by (cases "op_outs op") auto
  moreover have "op \<notin> set ys" using wf_ssa_outs [OF w(2), of op] assms(2) by (cases "op_outs op") auto
  ultimately have "filter (\<lambda>p. p \<noteq> op) xs = xs" "filter (\<lambda>p. p \<noteq> op) ys = ys" by (auto intro!: filter_True)
  then show ?thesis by simp
qed

lemma fold_arg_casts_ok:
  assumes "wf_ssa D ops" and "arg \<in> D" and "distinct (filter (\<lambda>c. op_outs c \<noteq> []) casts)" and "\<And>r. CastOp [arg] [r] \<in> set casts \<Longrightarrow> CastOp [arg] [r] \<in> set ops"
  shows "wf_ssa D (fold_arg_casts arg ty types casts ops) \<and> trace F (fold_arg_casts arg ty types casts ops) env = trace F ops env"
  using assms
proof (induction casts arbitrary: ops)
  case (Cons cast casts)
  show ?case
  proof (cases "\<exists>o1. cast = CastOp [arg] [o1] \<and> types o1 = ty")
    case True
    then obtain o1 where c: "cast = CastOp [arg] [o1]" "types o1 = ty" by blast
    obtain xs ys where ops: "ops = xs @ cast # ys" using Cons.prems(4) c(1) by (metis list.set_intros(1) split_list)
    let ?ops = "replaceAllUsesWith o1 arg (xs @ ys)"
    have r: "?ops = replaceAllUsesWith o1 arg xs @ replaceAllUsesWith o1 arg ys" by (simp add: replaceAllUsesWith_def)
    note rc = remove_cast [OF Cons.prems(1) [unfolded ops c(1)]]
    have fl: "filter (\<lambda>op. op \<noteq> cast) ops = xs @ ys" using filter_other_op [of D xs cast ys] Cons.prems(1) ops c by simp
    have e: "fold_arg_casts arg ty types (cast # casts) ops = fold_arg_casts arg ty types casts ?ops" using c fl by simp
    have sub: "CastOp [arg] [r] \<in> set ?ops" if r: "CastOp [arg] [r] \<in> set casts" for r
    proof -
      have "CastOp [arg] [r] \<noteq> cast" using Cons.prems(3) r c(1) by auto
      then have "CastOp [arg] [r] \<in> set (xs @ ys)" using Cons.prems(4) [of r] r ops by auto
      moreover have "subst_op o1 arg (CastOp [arg] [r]) = CastOp [arg] [r]" by (simp add: subst_value_def)
      ultimately show ?thesis unfolding replaceAllUsesWith_def by (metis image_eqI list.set_map)
    qed
    show ?thesis
      unfolding e using Cons.IH [of ?ops] rc(1) rc(2) [of F env] Cons.prems(2,3) sub unfolding r by (simp add: ops c split: if_splits)
  next
    case False
    then have "fold_arg_casts arg ty types (cast # casts) ops = fold_arg_casts arg ty types casts ops"
      by (auto split: irop.splits list.splits)
    then show ?thesis using Cons.IH [of ops] Cons.prems by (simp split: if_splits)
  qed
qed simp

lemma wf_ssa_distinct: "wf_ssa D ops \<Longrightarrow> distinct (filter (\<lambda>op. op_outs op \<noteq> []) ops)"
proof (induction ops arbitrary: D)
  case (Cons op ops)
  have "op_outs op = [] \<or> op \<notin> set ops" using wf_ssa_outs [of "D \<union> set (op_outs op)" ops op] Cons.prems by (cases "op_outs op") auto
  then show ?case using Cons by auto
qed simp

lemma retype_arguments_ok:
  assumes "wf_ssa D ops" and "fst ` set args \<subseteq> D" and "retype_arguments args types ops = (types', ops')"
  shows "wf_ssa D ops' \<and> trace F ops' env = trace F ops env \<and> (\<forall>v. v \<notin> fst ` set args \<longrightarrow> types' v = types v)"
  using assms
proof (induction args arbitrary: types ops)
  case (Cons a args)
  obtain arg ty where a: "a = (arg, ty)" by (cases a)
  show ?case
  proof (cases "types arg = ty")
    case True
    then show ?thesis using Cons a by simp
  next
    case False
    let ?types = "types(arg := ty)" and ?casts = "filter (\<lambda>op. is_cast op \<and> arg \<in> set (op_ins op)) ops"
    let ?ops = "fold_arg_casts arg ty ?types ?casts ops"
    have "distinct (filter (\<lambda>c. op_outs c \<noteq> []) ?casts)"
      using distinct_filter [OF wf_ssa_distinct [OF Cons.prems(1)], of "\<lambda>op. is_cast op \<and> arg \<in> set (op_ins op)"]
      by (simp add: conj_commute conj_left_commute)
    then have f: "wf_ssa D ?ops \<and> trace F ?ops env = trace F ops env"
      using Cons.prems(1,2) a by (intro fold_arg_casts_ok) auto
    have "retype_arguments args ?types ?ops = (types', ops')" using Cons.prems(3) False a by (simp add: Let_def)
    from Cons.IH [OF _ _ this] f Cons.prems(2) a show ?thesis by auto
  qed
qed simp

lemma retype_arguments_types:
  assumes "retype_arguments args types ops = (types', ops')" and "distinct (map fst args)" and "(arg, ty) \<in> set args"
  shows "types' arg = ty"
  using assms
proof (induction args arbitrary: types ops)
  case (Cons a args)
  have keep: "types' v = types v" if "retype_arguments as types ops = (types', ops')" "v \<notin> fst ` set as" for as types ops v
    using that by (induction as arbitrary: types ops) (auto simp: Let_def split: if_splits)
  show ?case
  proof (cases "(arg, ty) = a")
    case True
    then show ?thesis using Cons.prems keep [of args _ _ arg] by (auto simp: Let_def image_iff split: if_splits)
  next
    case False
    then show ?thesis using Cons by (cases a) (auto simp: Let_def split: if_splits)
  qed
qed simp

lemma walk_step:
  obtains (remove) i out where "op = CastOp [i] [out]" "cast_removable types i out"
      "\<And>rem vis ops. walk_casts types rem vis (op # ops) = walk_casts types rem (replaceAllUsesWith out i vis) (replaceAllUsesWith out i ops)"
  | (stuck) "is_cast op" "\<And>rem vis ops. walk_casts types rem vis (op # ops) = walk_casts types (rem @ [op]) (vis @ [op]) ops"
  | (other) "\<not> is_cast op" "\<And>rem vis ops. walk_casts types rem vis (op # ops) = walk_casts types rem (vis @ [op]) ops"
proof (cases op)
  case (CastOp ins outs)
  show ?thesis
  proof (cases "\<exists>i out. ins = [i] \<and> outs = [out] \<and> cast_removable types i out")
    case True
    then show ?thesis using CastOp remove by auto
  next
    case False
    then show ?thesis using CastOp by (intro stuck) (auto split: list.splits)
  qed
qed (use other in simp)

lemma is_cast_subst [simp]: "is_cast (subst_op old new op) = is_cast op"
  by (cases op) simp_all

lemma walk_casts_remaining:
  assumes "walk_casts types rem visited ops = (ops', rem')" and "rem' = []" shows "rem = []"
  using assms(1)
proof (induction "length ops" arbitrary: rem visited ops)
  case (Suc n)
  then obtain op ops1 where o: "ops = op # ops1" "length ops1 = n" by (cases ops) auto
  show ?case
  proof (rule walk_step [of op types])
    fix i out assume "\<And>rem vis ops. walk_casts types rem vis (op # ops) =
        walk_casts types rem (replaceAllUsesWith out i vis) (replaceAllUsesWith out i ops)"
    then show ?thesis
      using Suc.hyps(1) [of "replaceAllUsesWith out i ops1" rem "replaceAllUsesWith out i visited"] Suc.prems o
      by (simp add: replaceAllUsesWith_def)
  next
    assume "\<And>rem vis ops. walk_casts types rem vis (op # ops) = walk_casts types (rem @ [op]) (vis @ [op]) ops"
    then show ?thesis using Suc.hyps(1) [of ops1 "rem @ [op]" "visited @ [op]"] Suc.prems o by simp
  next
    assume "\<And>rem vis ops. walk_casts types rem vis (op # ops) = walk_casts types rem (vis @ [op]) ops"
    then show ?thesis using Suc.hyps(1) [of ops1 rem "visited @ [op]"] Suc.prems o by simp
  qed
qed (use assms(2) in simp)

lemma walk_casts_ok:
  assumes "wf_ssa D (visited @ ops)" and "walk_casts types rem visited ops = (ops', [])" and "list_all (\<lambda>op. \<not> is_cast op) visited"
  shows "wf_ssa D ops' \<and> trace F ops' env = trace F (visited @ ops) env \<and> list_all (\<lambda>op. \<not> is_cast op) ops'"
  using assms
proof (induction "length ops" arbitrary: rem visited ops)
  case (Suc n)
  then obtain op ops1 where o: "ops = op # ops1" "length ops1 = n" by (cases ops) auto
  show ?case
  proof (rule walk_step [of op types])
    fix i out assume op: "op = CastOp [i] [out]"
      and w: "\<And>rem vis ops. walk_casts types rem vis (op # ops) = walk_casts types rem (replaceAllUsesWith out i vis) (replaceAllUsesWith out i ops)"
    note rc = remove_cast [OF Suc.prems(1) [unfolded o op]]
    show ?thesis
      using Suc.hyps(1) [of "replaceAllUsesWith out i ops1" "replaceAllUsesWith out i visited" rem] rc Suc.prems w o op
      by (simp add: replaceAllUsesWith_def list_all_iff)
  next
    assume "is_cast op" and w: "\<And>rem vis ops. walk_casts types rem vis (op # ops) = walk_casts types (rem @ [op]) (vis @ [op]) ops"
    then have "walk_casts types (rem @ [op]) (visited @ [op]) ops1 = (ops', [])" using Suc.prems(2) o by simp
    from walk_casts_remaining [OF this] show ?thesis by simp
  next
    assume c: "\<not> is_cast op" and w: "\<And>rem vis ops. walk_casts types rem vis (op # ops) = walk_casts types rem (vis @ [op]) ops"
    then show ?thesis using Suc.hyps(1) [of ops1 "visited @ [op]" rem] Suc.prems o by simp
  qed
qed simp

lemma finalizeEntryPointTypes_facts:
  assumes wf: "wf_ssa (set (b_args b)) (b_ops b)" and args: "distinct (b_args b)" "length (b_args b) = length (b_inputs b)"
    and fin: "finalizeEntryPointTypes b = Inr b'"
  shows "list_all (\<lambda>op. \<not> is_cast op) (b_ops b') \<and> wf_ssa (set (b_args b)) (b_ops b') \<and>
    trace F (b_ops b') env = trace F (b_ops b) env \<and>
    map (b_types b') (b_args b') = map convertRank4NCHWToNHWCType (b_inputs b) \<and> b_inputs b' = map convertRank4NCHWToNHWCType (b_inputs b) \<and>
    b_results b' = map convertRank4NCHWToNHWCType (b_results b) \<and> (\<forall>v. v \<notin> set (b_args b) \<longrightarrow> b_types b' v = b_types b v)"
proof -
  let ?in = "map convertRank4NCHWToNHWCType (b_inputs b)" and ?args = "zip (b_args b) (map convertRank4NCHWToNHWCType (b_inputs b))"
  obtain types ops where r: "retype_arguments ?args (b_types b) (b_ops b) = (types, ops)" by fastforce
  obtain ops' rem where w: "walk_casts types [] [] ops = (ops', rem)" by fastforce
  have b': "b' = b \<lparr>b_types := types, b_ops := ops', b_inputs := ?in, b_results := map convertRank4NCHWToNHWCType (b_results b)\<rparr>"
    and rem: "rem = []" using fin r w by (auto simp: finalizeEntryPointTypes_def split: if_splits)
  have f: "fst ` set ?args = set (b_args b)" using args(2) by (metis length_map list.set_map map_fst_zip)
  have R: "wf_ssa (set (b_args b)) ops" "trace F ops env = trace F (b_ops b) env" "\<forall>v. v \<notin> set (b_args b) \<longrightarrow> types v = b_types b v"
    using retype_arguments_ok [OF wf _ r, of F env] f by simp_all
  have W: "wf_ssa (set (b_args b)) ops' \<and> trace F ops' env = trace F ops env \<and> list_all (\<lambda>op. \<not> is_cast op) ops'"
    using walk_casts_ok [of "set (b_args b)" "[]" ops types "[]" ops' F env] R(1) w rem by simp
  have "types (b_args b ! k) = ?in ! k" if "k < length (b_args b)" for k
    by (rule retype_arguments_types [OF r]) (use args that in \<open>auto simp: in_set_zip\<close>)
  then have "map types (b_args b) = ?in" using args(2) by (intro nth_equalityI) simp_all
  then show ?thesis using R W by (simp add: b')
qed

text \<open>
  C8: when the change of the entry interface succeeds, no cast is left, every value is still defined
  once and before its uses, and a run executes the same operations on the same operand values as
  before; the arguments and the function type have the NHWC types, all other types are unchanged.
\<close>

theorem finalizeEntryPointTypes_preserves:
  assumes wf: "wf_ssa (set (b_args b)) (b_ops b)" and args: "distinct (b_args b)" "length (b_args b) = length (b_inputs b)"
    and fin: "finalizeEntryPointTypes b = Inr b'"
  shows "list_all (\<lambda>op. \<not> is_cast op) (b_ops b') \<and> wf_ssa (set (b_args b)) (b_ops b') \<and>
    trace F (b_ops b') env = trace F (b_ops b) env \<and>
    map (b_types b') (b_args b') = map convertRank4NCHWToNHWCType (b_inputs b) \<and> b_inputs b' = map convertRank4NCHWToNHWCType (b_inputs b) \<and>
    b_results b' = map convertRank4NCHWToNHWCType (b_results b) \<and> (\<forall>v. v \<notin> set (b_args b) \<longrightarrow> b_types b' v = b_types b v)"
  using assms by (rule finalizeEntryPointTypes_facts)

definition body_example :: fn_body where
  "body_example = \<lparr>b_args = [0], b_types = (\<lambda>v. if v = 0 then RankedTensor [1, 3, 8, 9] F32 else RankedTensor [1, 8, 9, 3] F32),
     b_ops = [CastOp [0] [1], Op ''tfl.relu'' [1] [2], CastOp [2] [3], Op ''func.return'' [3] []],
     b_inputs = [RankedTensor [1, 3, 8, 9] F32], b_results = [RankedTensor [1, 3, 8, 9] F32]\<rparr>"

theorem finalizeEntryPointTypes_preserves_witness:
  "\<exists>b'. finalizeEntryPointTypes body_example = Inr b' \<and> list_all (\<lambda>op. \<not> is_cast op) (b_ops b') \<and>
     trace (\<lambda>nm vs. vs) (b_ops b') (\<lambda>_. 7 :: nat) = [(''tfl.relu'', [7]), (''func.return'', [7])]"
proof -
  have "\<not> failed (finalizeEntryPointTypes body_example)" by code_simp
  then obtain b' where fin: "finalizeEntryPointTypes body_example = Inr b'" by (rule not_failedE)
  have wf: "wf_ssa (set (b_args body_example)) (b_ops body_example)" and args: "distinct (b_args body_example)"
    "length (b_args body_example) = length (b_inputs body_example)"
    and tr: "trace (\<lambda>nm vs. vs) (b_ops body_example) (\<lambda>_. 7 :: nat) = [(''tfl.relu'', [7]), (''func.return'', [7])]"
    by (simp_all add: body_example_def bind_values_def)
  from finalizeEntryPointTypes_preserves [OF wf args fin, of "\<lambda>nm vs. vs" "\<lambda>_. 7 :: nat"] fin tr show ?thesis by auto
qed

end
