(* ===== verification/Convert_Pass.thy ===== *)
theory Convert_Pass
  imports Convert_Entry
begin

text \<open>
  The whole pass of \<^verbatim>\<open>ConvertONNXToTFL.cpp\<close>: \<^verbatim>\<open>runOnOperation\<close> with its order of stages and its early exits. The
  greedy rewriter, the conversion driver and the verifier are MLIR and stay parameters; what the pass
  relies on is \<open>driver_ok\<close>. A program is the module with its symbols and the body of the entry
  function; \<open>p_custom\<close> holds what the pass reads of a custom operation, the \<^verbatim>\<open>domain_name\<close> attribute
  and the function name.
\<close>

section \<open>The supported operations\<close>

type_synonym custom_info = "irop \<Rightarrow> string option \<times> string"

definition supported_names :: "string list" where
  "supported_names =
    [''onnx.EntryPoint'', ''onnx.Return'', ''onnx.NoValue'', ''onnx.Constant'', ''onnx.Identity'', ''onnx.Add'', ''onnx.Sub'',
     ''onnx.Mul'', ''onnx.Div'', ''onnx.Pow'', ''onnx.ArgMax'', ''onnx.ArgMin'', ''onnx.Cast'', ''onnx.Equal'', ''onnx.Greater'',
     ''onnx.GreaterOrEqual'', ''onnx.Mod'', ''onnx.Relu'', ''onnx.Sigmoid'', ''onnx.Tanh'', ''onnx.Exp'', ''onnx.Sqrt'', ''onnx.Cos'',
     ''onnx.Sin'', ''onnx.Abs'', ''onnx.Neg'', ''onnx.Round'', ''onnx.Sign'', ''onnx.Floor'', ''onnx.Ceil'', ''onnx.Not'',
     ''onnx.Hardmax'', ''onnx.Reciprocal'', ''onnx.BitShift'', ''onnx.Elu'', ''onnx.Less'', ''onnx.Gelu'', ''onnx.Log'',
     ''onnx.PRelu'', ''onnx.Selu'', ''onnx.Softplus'', ''onnx.Softsign'', ''onnx.Mean'', ''onnx.And'', ''onnx.Or'', ''onnx.Xor'',
     ''onnx.CumSum'', ''onnx.OneHot'', ''onnx.LpNormalization'', ''onnx.Celu'', ''onnx.ThresholdedRelu'', ''onnx.Asin'',
     ''onnx.Acos'', ''onnx.Atan'', ''onnx.Atanh'', ''onnx.Sinh'', ''onnx.Cosh'', ''onnx.Asinh'', ''onnx.Acosh'', ''onnx.Erf'',
     ''onnx.IsInf'', ''onnx.IsNaN'', ''onnx.Shrink'', ''onnx.Im2Col'', ''onnx.MeanVarianceNormalization'', ''onnx.Mish'',
     ''onnx.DFT'', ''onnx.Det'', ''onnx.NegativeLogLikelihoodLoss'', ''onnx.MatMul'', ''onnx.Gemm'', ''onnx.TopK'', ''onnx.STFT'',
     ''onnx.Reshape'', ''onnx.Transpose'', ''onnx.Concat'', ''onnx.Expand'', ''onnx.Softmax'', ''onnx.Conv'',
     ''onnx.MaxPoolSingleOut'', ''onnx.ReduceMean'', ''onnx.ReduceMeanV13'', ''onnx.ReduceMax'', ''onnx.ReduceMaxV13'',
     ''onnx.ReduceMinV13'', ''onnx.ReduceSum'', ''onnx.ReduceSumV11'', ''onnx.ReduceL1'', ''onnx.ReduceLogSumExp'',
     ''onnx.ReduceProd'', ''onnx.ReduceSumSquare'', ''onnx.Slice'', ''onnx.Split'', ''onnx.Resize'', ''onnx.Pad'', ''onnx.Flatten'',
     ''onnx.Gather'', ''onnx.GatherElements'', ''onnx.ScatterElements'', ''onnx.ScatterND'', ''onnx.Squeeze'', ''onnx.Unsqueeze'',
     ''onnx.Tile'', ''onnx.Where'', ''onnx.GatherND'', ''onnx.Clip'', ''onnx.UpsampleAndPad'', ''onnx.DepthToSpace'',
     ''onnx.SpaceToDepth'', ''onnx.Min'', ''onnx.Max'', ''onnx.LRN'', ''onnx.LSTM'', ''onnx.RNN'', ''onnx.GRU'',
     ''onnx.ReverseSequence'', ''onnx.GridSample'', ''onnx.MaxPool'', ''onnx.MaxUnpool'', ''onnx.Compress'', ''onnx.Trilu'',
     ''onnx.CenterCropPad'', ''onnx.EyeLike'', ''onnx.Col2Im'', ''onnx.AffineGrid'', ''onnx.DeformConv'', ''onnx.RoiAlign'',
     ''onnx.LpPool'', ''onnx.GlobalLpPool'', ''onnx.BatchNormalizationInferenceMode'', ''onnx.Attention'', ''onnx.AveragePool'',
     ''onnx.HardSigmoid'', ''onnx.HardSwish'', ''onnx.LayerNormalization'', ''onnx.RMSLayerNormalization'', ''onnx.LeakyRelu'']"

fun op_name :: "irop \<Rightarrow> string" where
  "op_name (CastOp ins outs) = ''builtin.unrealized_conversion_cast''"
| "op_name (Op nm ins outs) = nm"

definition dialect_namespace :: "string \<Rightarrow> string" where
  "dialect_namespace nm = takeWhile (\<lambda>c. c \<noteq> CHR ''.'') nm"

definition isSupportedONNXOperation :: "custom_info \<Rightarrow> irop \<Rightarrow> bool" where
  "isSupportedONNXOperation custom op \<longleftrightarrow>
     op_name op \<in> set supported_names \<or>
     (op_name op = ''onnx.Custom'' \<and>
      (case custom op of (domain, name) \<Rightarrow>
         domain = Some ''com.microsoft'' \<and> name \<in> {''Attention'', ''MultiHeadAttention'', ''GroupQueryAttention''}))"

section \<open>The pass\<close>

record program =
  p_module :: ir_module
  p_body :: fn_body
  p_custom :: custom_info

datatype pass_error = Prepare diag | Preprocessing | Unsupported string | Conversion | MissingMain | Materialization | Verification

text \<open>The walk over the operations, interrupted at the first one that is not supported.\<close>

definition unsupported_operation :: "program \<Rightarrow> irop option" where
  "unsupported_operation p =
     find (\<lambda>op. \<not> (dialect_namespace (op_name op) \<noteq> ''onnx'') \<and> \<not> isSupportedONNXOperation (p_custom p) op) (b_ops (p_body p))"

definition set_type :: "string \<Rightarrow> mtype list \<Rightarrow> mtype list \<Rightarrow> ir_module \<Rightarrow> ir_module" where
  "set_type n inputs results m =
     m \<lparr>m_symbols := map (\<lambda>s. case s of FuncSym f \<Rightarrow> if fn_name f = n then FuncSym (f \<lparr>fn_inputs := inputs, fn_outputs := results\<rparr>) else s
        | OtherSym k \<Rightarrow> s) (m_symbols m)\<rparr>"

definition finalize_module :: "program \<Rightarrow> pass_error + program" where
  "finalize_module p =
     (case lookupFunc (p_module p) ''main'' of
        None \<Rightarrow> Inl MissingMain
      | Some f \<Rightarrow>
          (case finalizeEntryPointTypes ((p_body p) \<lparr>b_inputs := fn_inputs f, b_results := fn_outputs f\<rparr>) of
             Inl e \<Rightarrow> Inl Materialization
           | Inr b \<Rightarrow> Inr (p \<lparr>p_body := b, p_module := set_type ''main'' (b_inputs b) (b_results b) (p_module p)\<rparr>)))"

definition runOnOperation ::
  "(program \<Rightarrow> program option) \<Rightarrow> (program \<Rightarrow> program option) \<Rightarrow> (program \<Rightarrow> bool) \<Rightarrow> program \<Rightarrow> pass_error + program" where
  "runOnOperation greedy convert verify p =
     (case prepareEntryPoint (p_module p) of
        Inl e \<Rightarrow> Inl (Prepare e)
      | Inr m \<Rightarrow>
          (case greedy (p \<lparr>p_module := m\<rparr>) of
             None \<Rightarrow> Inl Preprocessing
           | Some p1 \<Rightarrow>
               (case unsupported_operation p1 of
                  Some op \<Rightarrow> Inl (Unsupported (op_name op))
                | None \<Rightarrow>
                    (case convert p1 of
                       None \<Rightarrow> Inl Conversion
                     | Some p2 \<Rightarrow>
                         (case finalize_module p2 of
                            Inl e \<Rightarrow> Inl e
                          | Inr p3 \<Rightarrow> if verify p3 then Inr p3 else Inl Verification)))))"

section \<open>What the pass relies on\<close>

text \<open>
  A program is well formed when its symbols are distinct and the body is in SSA form with one distinct
  argument for every input of the entry function. Rewriting keeps that and leaves the symbols and
  the function types alone, because functions are legal and have no pattern; a conversion that
  succeeds leaves no operation of the illegal ONNX dialect.
\<close>

definition program_ok :: "string \<Rightarrow> program \<Rightarrow> bool" where
  "program_ok entry p \<longleftrightarrow>
     module_ok (p_module p) \<and> wf_ssa (set (b_args (p_body p))) (b_ops (p_body p)) \<and> distinct (b_args (p_body p)) \<and>
     (\<forall>f. lookupFunc (p_module p) entry = Some f \<longrightarrow> length (b_args (p_body p)) = length (fn_inputs f))"

definition is_onnx :: "irop \<Rightarrow> bool" where
  "is_onnx op \<longleftrightarrow> dialect_namespace (op_name op) = ''onnx''"

definition driver_ok :: "(program \<Rightarrow> program option) \<Rightarrow> (program \<Rightarrow> program option) \<Rightarrow> bool" where
  "driver_ok greedy convert \<longleftrightarrow>
     (\<forall>p p'. program_ok ''main'' p \<and> (greedy p = Some p' \<or> convert p = Some p') \<longrightarrow> program_ok ''main'' p' \<and> p_module p' = p_module p) \<and>
     (\<forall>p p'. convert p = Some p' \<longrightarrow> \<not> list_ex is_onnx (b_ops (p_body p')))"

text \<open>
  Values before the interface changes: every value has a logical type, its current type is that or the
  converted one, and a cast relates one value to one of the same logical type.
\<close>

definition casts_typed :: "(nat \<Rightarrow> mtype) \<Rightarrow> irop list \<Rightarrow> bool" where
  "casts_typed base ops \<longleftrightarrow> (\<forall>op\<in>set ops. is_cast op \<longrightarrow> (\<exists>i out. op = CastOp [i] [out] \<and> base i = base out))"

definition layout_types :: "(nat \<Rightarrow> mtype) \<Rightarrow> (nat \<Rightarrow> mtype) \<Rightarrow> bool" where
  "layout_types base types \<longleftrightarrow> (\<forall>v. types v = base v \<or> types v = convertRank4NCHWToNHWCType (base v))"

section \<open>Removing all casts succeeds\<close>

lemma casts_typed_subst:
  assumes "casts_typed base ops" and "base old = base new" shows "casts_typed base (replaceAllUsesWith old new ops)"
  unfolding casts_typed_def
proof (intro ballI impI)
  fix op assume "op \<in> set (replaceAllUsesWith old new ops)" "is_cast op"
  then obtain op0 where o: "op0 \<in> set ops" "op = subst_op old new op0" "is_cast op0" by (auto simp: replaceAllUsesWith_def)
  then obtain i out where "op0 = CastOp [i] [out]" "base i = base out" using assms(1) by (auto simp: casts_typed_def)
  then show "\<exists>i out. op = CastOp [i] [out] \<and> base i = base out" using o(2) assms(2) by (auto simp: subst_value_def)
qed

lemma casts_typed_subset: "casts_typed base ops \<Longrightarrow> set ops' \<subseteq> set ops \<Longrightarrow> casts_typed base ops'"
  by (auto simp: casts_typed_def)

lemma fold_arg_casts_typed:
  assumes "casts_typed base ops" and "casts_typed base casts" and "\<forall>op\<in>set casts. is_cast op"
  shows "casts_typed base (fold_arg_casts arg ty types casts ops)"
  using assms
proof (induction casts arbitrary: ops)
  case (Cons cast casts)
  obtain i out where c: "cast = CastOp [i] [out]" "base i = base out" using Cons.prems(2,3) by (auto simp: casts_typed_def)
  have "casts_typed base (filter (\<lambda>op. op \<noteq> cast) ops)" by (rule casts_typed_subset [OF Cons.prems(1)]) auto
  then have "casts_typed base (replaceAllUsesWith out i (filter (\<lambda>op. op \<noteq> cast) ops))" by (rule casts_typed_subst [OF _ c(2) [symmetric]])
  moreover have "casts_typed base casts" "\<forall>op\<in>set casts. is_cast op" using Cons.prems(2,3) by (auto simp: casts_typed_def)
  ultimately show ?case using Cons.IH Cons.prems(1) c by auto
qed simp

lemma retype_arguments_typed:
  assumes "casts_typed base ops" and "layout_types base types" and "\<forall>(arg, ty)\<in>set args. ty = convertRank4NCHWToNHWCType (base arg)"
    and "retype_arguments args types ops = (types', ops')"
  shows "casts_typed base ops' \<and> layout_types base types'"
  using assms
proof (induction args arbitrary: types ops)
  case (Cons a args)
  obtain arg ty where a: "a = (arg, ty)" by (cases a)
  show ?case
  proof (cases "types arg = ty")
    case True
    then show ?thesis using Cons a by simp
  next
    case False
    let ?types = "types(arg := ty)" and ?casts = "filter (\<lambda>op. is_cast op \<and> arg \<in> set (op_ins op)) ops"
    have "casts_typed base (fold_arg_casts arg ty ?types ?casts ops)"
      by (rule fold_arg_casts_typed [OF Cons.prems(1) casts_typed_subset [OF Cons.prems(1)]]) auto
    moreover have "layout_types base ?types" using Cons.prems(2,3) a by (auto simp: layout_types_def)
    moreover have "retype_arguments args ?types (fold_arg_casts arg ty ?types ?casts ops) = (types', ops')"
      using Cons.prems(4) False a by (simp add: Let_def)
    ultimately show ?thesis using Cons.IH Cons.prems(3) by simp
  qed
qed simp

lemma layout_removable:
  assumes "layout_types base types" and "base i = base out" shows "cast_removable types i out"
  using assms(1)[unfolded layout_types_def, rule_format, of i] assms(1)[unfolded layout_types_def, rule_format, of out] assms(2)
  by (auto simp: cast_removable_def)

lemma walk_casts_none:
  assumes "casts_typed base ops" and "layout_types base types" shows "snd (walk_casts types remaining visited ops) = remaining"
  using assms(1)
proof (induction "length ops" arbitrary: visited ops)
  case (Suc n)
  then obtain op ops1 where o: "ops = op # ops1" "length ops1 = n" by (cases ops) auto
  have t: "casts_typed base ops1" using Suc.prems o by (auto simp: casts_typed_def)
  show ?case
  proof (cases "is_cast op")
    case True
    then obtain i out where c: "op = CastOp [i] [out]" "base i = base out" using Suc.prems o by (auto simp: casts_typed_def)
    have "casts_typed base (replaceAllUsesWith out i ops1)" by (rule casts_typed_subst [OF t c(2) [symmetric]])
    from Suc.hyps(1) [OF _ this, of "replaceAllUsesWith out i visited"] show ?thesis
      using layout_removable [OF assms(2) c(2)] o c by (simp add: replaceAllUsesWith_def)
  next
    case False
    then show ?thesis using Suc.hyps(1) [OF _ t, of "visited @ [op]"] o by (cases op) simp_all
  qed
qed simp

lemma finalizeEntryPointTypes_total:
  assumes "casts_typed base (b_ops b)" and "layout_types base (b_types b)"
    and "length (b_args b) = length (b_inputs b)" and "\<forall>k<length (b_args b). b_inputs b ! k = base (b_args b ! k)"
  shows "\<exists>b'. finalizeEntryPointTypes b = Inr b'"
proof -
  let ?args = "zip (b_args b) (map convertRank4NCHWToNHWCType (b_inputs b))"
  obtain types ops where r: "retype_arguments ?args (b_types b) (b_ops b) = (types, ops)" by fastforce
  have "\<forall>(arg, ty)\<in>set ?args. ty = convertRank4NCHWToNHWCType (base arg)" using assms(3,4) by (auto simp: set_zip)
  from retype_arguments_typed [OF assms(1,2) this r] have "casts_typed base ops" "layout_types base types" by simp_all
  then have "snd (walk_casts types [] [] ops) = []" by (rule walk_casts_none)
  then show ?thesis using r by (auto simp: finalizeEntryPointTypes_def split: prod.splits)
qed

section \<open>Success and failure of the pass\<close>

lemma find_map_symbol:
  assumes "\<And>s. sym_name (h s) = sym_name s"
  shows "find (\<lambda>s. sym_name s = n) (map h ss) = map_option h (find (\<lambda>s. sym_name s = n) ss)"
  using assms by (induction ss) auto

lemma lookupFunc_set_type:
  "lookupFunc (set_type n inputs results m) n = map_option (\<lambda>f. f \<lparr>fn_inputs := inputs, fn_outputs := results\<rparr>) (lookupFunc m n)"
proof -
  let ?h = "\<lambda>s. case s of FuncSym f \<Rightarrow> if fn_name f = n then FuncSym (f \<lparr>fn_inputs := inputs, fn_outputs := results\<rparr>) else s | OtherSym k \<Rightarrow> s"
  have h: "find (\<lambda>s. sym_name s = n) (map ?h ss) = map_option ?h (find (\<lambda>s. sym_name s = n) ss)" for ss
    by (rule find_map_symbol) (simp split: symbol.split)
  show ?thesis
    using lookupFunc_Some [of m n] by (auto simp: lookupFunc_def lookupSymbol_def set_type_def h split: option.splits symbol.splits)
qed

lemma prepared_program_ok:
  assumes ok: "program_ok entry p" and e: "m_entries (p_module p) = [Some entry]" and prep: "prepareEntryPoint (p_module p) = Inr m"
  shows "program_ok ''main'' (p \<lparr>p_module := m\<rparr>)"
proof -
  have "module_ok (p_module p)" using ok by (simp add: program_ok_def)
  from prepareEntryPoint_facts [OF this prep] obtain f where
    f: "lookupFunc (p_module p) entry = Some f" "lookupFunc m ''main'' = Some (publish f)" "module_ok m" using e by auto
  then show ?thesis using ok by (simp add: program_ok_def publish_def)
qed

lemma trace_names: "map fst (trace F ops env) = map op_name (filter (\<lambda>op. \<not> is_cast op) ops)"
  by (induction F ops env rule: trace.induct) simp_all

lemma finalize_module_facts:
  assumes ok: "program_ok ''main'' p" and fin: "finalize_module p = Inr p'" and f: "lookupFunc (p_module p) ''main'' = Some f"
    and onnx: "\<not> list_ex is_onnx (b_ops (p_body p))"
  shows "m_entries (p_module p') = m_entries (p_module p) \<and>
    lookupFunc (p_module p') ''main'' = Some (f \<lparr>fn_inputs := map convertRank4NCHWToNHWCType (fn_inputs f),
      fn_outputs := map convertRank4NCHWToNHWCType (fn_outputs f)\<rparr>) \<and>
    list_all (\<lambda>op. \<not> is_cast op \<and> \<not> is_onnx op) (b_ops (p_body p')) \<and> wf_ssa (set (b_args (p_body p'))) (b_ops (p_body p')) \<and>
    map (b_types (p_body p')) (b_args (p_body p')) = map convertRank4NCHWToNHWCType (fn_inputs f)"
proof -
  let ?b = "p_body p\<lparr>b_inputs := fn_inputs f, b_results := fn_outputs f\<rparr>"
  obtain b where b: "finalizeEntryPointTypes ?b = Inr b"
    and p': "p' = p\<lparr>p_body := b, p_module := set_type ''main'' (b_inputs b) (b_results b) (p_module p)\<rparr>"
    using fin f by (auto simp: finalize_module_def split: sum.splits)
  have wf: "wf_ssa (set (b_args ?b)) (b_ops ?b)" "distinct (b_args ?b)" "length (b_args ?b) = length (b_inputs ?b)"
    using ok f by (simp_all add: program_ok_def)
  have args: "b_args b = b_args (p_body p)" using b by (auto simp: finalizeEntryPointTypes_def Let_def split: prod.splits if_splits)
  note facts = finalizeEntryPointTypes_facts [OF wf b]
  have names: "map fst (trace (\<lambda>nm vs. vs) (b_ops b) (\<lambda>_. ())) = map fst (trace (\<lambda>nm vs. vs) (b_ops ?b) (\<lambda>_. ()))"
    and "filter (\<lambda>op. \<not> is_cast op) (b_ops b) = b_ops b"
    using facts [of "\<lambda>nm vs. vs" "\<lambda>_. ()"] by (simp_all add: filter_id_conv list_all_iff)
  then have "map op_name (b_ops b) = map op_name (filter (\<lambda>op. \<not> is_cast op) (b_ops ?b))" unfolding trace_names by simp
  then have "op_name ` set (b_ops b) \<subseteq> op_name ` set (b_ops (p_body p))" by (metis filter_is_subset fn_body.select_convs(3) fn_body.surjective
        fn_body.update_convs(4,5) image_mono list.set_map)
  then have "list_all (\<lambda>op. \<not> is_onnx op) (b_ops b)" using onnx by (fastforce simp: is_onnx_def list_all_iff list_ex_iff)
  then show ?thesis using facts [of "\<lambda>nm vs. vs" "\<lambda>_. ()"] f by (simp add: p' args lookupFunc_set_type list_all_iff) (simp add: set_type_def)
qed

text \<open>
  C2: when the pass succeeds, the module had exactly one entry point, which named a function with static
  tensors of supported element types; this function is now \<^verbatim>\<open>main\<close>, public, with the NHWC types for its inputs
  and outputs and the entry attributes made from the names it had; no entry point is left, and the body
  has no cast and no operation of the ONNX dialect, is in SSA form, and its arguments have the NHWC types.
\<close>

theorem runOnOperation_success:
  assumes driver: "driver_ok greedy convert" and ok: "\<forall>entry. m_entries (p_module p) = [Some entry] \<longrightarrow> program_ok entry p"
    and run: "runOnOperation greedy convert verify p = Inr p'"
  shows "\<exists>entry f. m_entries (p_module p) = [Some entry] \<and> lookupFunc (p_module p) entry = Some f \<and>
    (\<forall>ty. ty \<in> set (fn_inputs f) \<union> set (fn_outputs f) \<longrightarrow> validateEntryTensor ty = Inr ()) \<and>
    m_entries (p_module p') = [] \<and>
    lookupFunc (p_module p') ''main'' = Some (publish f \<lparr>fn_inputs := map convertRank4NCHWToNHWCType (fn_inputs f),
      fn_outputs := map convertRank4NCHWToNHWCType (fn_outputs f)\<rparr>) \<and>
    list_all (\<lambda>op. \<not> is_cast op \<and> \<not> is_onnx op) (b_ops (p_body p')) \<and> wf_ssa (set (b_args (p_body p'))) (b_ops (p_body p')) \<and>
    map (b_types (p_body p')) (b_args (p_body p')) = map convertRank4NCHWToNHWCType (fn_inputs f) \<and> verify p'"
proof -
  obtain m p1 p2 where prep: "prepareEntryPoint (p_module p) = Inr m" and p1: "greedy (p\<lparr>p_module := m\<rparr>) = Some p1"
    and p2: "convert p1 = Some p2" and fin: "finalize_module p2 = Inr p'" and v: "verify p'"
    using run by (auto simp: runOnOperation_def split: sum.splits option.splits if_splits)
  obtain entry where e: "m_entries (p_module p) = [Some entry]"
    using prep by (auto simp: prepareEntryPoint_def split: list.splits option.splits)
  have okp: "program_ok entry p" using ok e by blast
  then have "module_ok (p_module p)" by (simp add: program_ok_def)
  from prepareEntryPoint_facts [OF this prep] obtain f where f: "lookupFunc (p_module p) entry = Some f" "m_entries m = []"
    "lookupFunc m ''main'' = Some (publish f)" "\<forall>ty. ty \<in> set (fn_inputs f) \<union> set (fn_outputs f) \<longrightarrow> validateEntryTensor ty = Inr ()"
    using e by auto
  have 0: "program_ok ''main'' (p\<lparr>p_module := m\<rparr>)" by (rule prepared_program_ok [OF okp e prep])
  have 1: "program_ok ''main'' p1" "p_module p1 = m" using driver 0 p1 by (fastforce simp: driver_ok_def)+
  have 2: "program_ok ''main'' p2" "p_module p2 = m" "\<not> list_ex is_onnx (b_ops (p_body p2))"
    using driver 1 p2 unfolding driver_ok_def by (metis, metis, metis)
  have "lookupFunc (p_module p2) ''main'' = Some (publish f)" using 2 f by simp
  from finalize_module_facts [OF 2(1) fin this 2(3)] show ?thesis
    using e f v 2 by (intro exI [of _ entry] exI [of _ f]) (simp add: publish_def)
qed

text \<open>
  C3: the pass makes progress up to the verifier. Assume that the entry point is valid, that the rewriter and the
  driver succeed, that every operation the rewriter left is supported, and that the casts that the driver left
  relate values of one logical type, each in its logical or its converted type. Then no other stage fails:
  there is one converted program, the same for every verifier, and the pass returns it when the verifier
  accepts it and reports a verification error when the verifier does not.
\<close>

theorem runOnOperation_progress:
  assumes driver: "driver_ok greedy convert" and ok: "program_ok entry p" "m_entries (p_module p) = [Some entry]"
    and f: "lookupFunc (p_module p) entry = Some f" "fn_name f = ''main'' \<or> lookupSymbol (p_module p) ''main'' = None"
      "\<forall>ty \<in> set (fn_inputs f) \<union> set (fn_outputs f). validateEntryTensor ty = Inr ()"
    and stages: "\<forall>m. prepareEntryPoint (p_module p) = Inr m \<longrightarrow>
      (\<exists>p1 p2. greedy (p\<lparr>p_module := m\<rparr>) = Some p1 \<and> unsupported_operation p1 = None \<and> convert p1 = Some p2 \<and>
        casts_typed base (b_ops (p_body p2)) \<and> layout_types base (b_types (p_body p2)) \<and> map base (b_args (p_body p2)) = fn_inputs f)"
  shows "\<exists>p'. \<forall>verify. runOnOperation greedy convert verify p = (if verify p' then Inr p' else Inl Verification)"
proof -
  have v: "validate_all (fn_inputs f) = Inr ()" "validate_all (fn_outputs f) = Inr ()" using f(3) by (simp_all add: validate_all_ok)
  obtain m where prep: "prepareEntryPoint (p_module p) = Inr m"
    using ok(2) f v by (auto simp: prepareEntryPoint_def)
  obtain p1 p2 where s: "greedy (p\<lparr>p_module := m\<rparr>) = Some p1" "unsupported_operation p1 = None" "convert p1 = Some p2"
    "casts_typed base (b_ops (p_body p2))" "layout_types base (b_types (p_body p2))" "map base (b_args (p_body p2)) = fn_inputs f"
    using stages prep by blast
  have "module_ok (p_module p)" using ok(1) by (simp add: program_ok_def)
  from prepareEntryPoint_facts [OF this prep] have main: "lookupFunc m ''main'' = Some (publish f)" using ok(2) f(1) by auto
  have "program_ok ''main'' (p\<lparr>p_module := m\<rparr>)" by (rule prepared_program_ok [OF ok prep])
  then have 1: "program_ok ''main'' p1" "p_module p1 = m" using driver s(1) by (fastforce simp: driver_ok_def)+
  have 2: "program_ok ''main'' p2" "p_module p2 = m" using driver 1 s(3) unfolding driver_ok_def by (metis, metis)
  let ?b = "p_body p2\<lparr>b_inputs := fn_inputs (publish f), b_results := fn_outputs (publish f)\<rparr>"
  have len: "length (b_args (p_body p2)) = length (fn_inputs f)" using s(6) by (metis length_map)
  have args: "\<forall>k<length (b_args (p_body p2)). fn_inputs f ! k = base (b_args (p_body p2) ! k)" using s(6) by (metis nth_map)
  have "\<exists>b'. finalizeEntryPointTypes ?b = Inr b'"
    by (rule finalizeEntryPointTypes_total [of base]) (use s len args in \<open>simp_all add: publish_def\<close>)
  then obtain p3 where "finalize_module p2 = Inr p3" using main 2 by (auto simp: finalize_module_def)
  then show ?thesis using prep s by (intro exI [of _ p3] allI) (simp add: runOnOperation_def)
qed

section \<open>A concrete driver\<close>

text \<open>A driver with one pattern per operation of a table, for the witnesses.\<close>

fun legalize :: "irop \<Rightarrow> irop" where
  "legalize (CastOp ins outs) = CastOp ins outs"
| "legalize (Op nm ins outs) = Op (if nm = ''onnx.Relu'' then ''tfl.relu'' else nm) ins outs"

definition table_convert :: "program \<Rightarrow> program option" where
  "table_convert p =
     (let ops = map legalize (b_ops (p_body p)) in
      if list_ex is_onnx ops then None else Some (p\<lparr>p_body := (p_body p)\<lparr>b_ops := ops\<rparr>\<rparr>))"

lemma legalize_ssa: "wf_ssa D (map legalize ops) = wf_ssa D ops"
proof (induction ops arbitrary: D)
  case (Cons op ops)
  then show ?case by (cases op) simp_all
qed simp

lemma table_driver: "driver_ok Some table_convert"
  by (auto simp: driver_ok_def table_convert_def Let_def program_ok_def legalize_ssa split: if_splits)

definition program_example :: program where
  "program_example = \<lparr>p_module = module_example,
     p_body = \<lparr>b_args = [0], b_types = (\<lambda>v. if v = 0 then RankedTensor [1, 3, 8, 8] F32 else RankedTensor [1, 8, 8, 3] F32),
       b_ops = [CastOp [0] [1], Op ''onnx.Relu'' [1] [2], Op ''func.return'' [2] []], b_inputs = [], b_results = []\<rparr>,
     p_custom = (\<lambda>op. (None, []))\<rparr>"

lemma program_example_entry: "m_entries (p_module program_example) = [Some ''main_graph'']"
  by (simp add: program_example_def module_example_def)

lemma program_example_ok: "program_ok ''main_graph'' program_example"
  by (simp add: program_ok_def program_example_def module_example_def module_ok_def lookupFunc_def lookupSymbol_def)

theorem runOnOperation_success_witness:
  "\<exists>p'. runOnOperation Some table_convert (\<lambda>_. True) program_example = Inr p' \<and>
     list_all (\<lambda>op. \<not> is_cast op \<and> \<not> is_onnx op) (b_ops (p_body p'))"
proof -
  have "case runOnOperation Some table_convert (\<lambda>_. True) program_example of Inr p' \<Rightarrow> True | Inl e \<Rightarrow> False" by code_simp
  then obtain p' where run: "runOnOperation Some table_convert (\<lambda>_. True) program_example = Inr p'" by (auto split: sum.splits)
  have "\<forall>entry. m_entries (p_module program_example) = [Some entry] \<longrightarrow> program_ok entry program_example"
    using program_example_ok by (simp add: program_example_entry)
  from runOnOperation_success [OF table_driver this run] run show ?thesis by blast
qed

theorem runOnOperation_progress_witness:
  "\<exists>p'. \<forall>verify. runOnOperation Some table_convert verify program_example = (if verify p' then Inr p' else Inl Verification)"
proof -
  let ?f = "\<lparr>fn_name = ''main_graph'', fn_public = False, fn_inputs = [RankedTensor [1, 3, 8, 8] F32],
      fn_outputs = [RankedTensor [1, 10] F32, RankedTensor [1] I64], fn_arg_names = [Some ''image''],
      fn_result_names = [None, Some ''label''], fn_entry = None\<rparr> :: entry_fn"
  let ?base = "\<lambda>v :: nat. RankedTensor [1, 3, 8, 8] F32"
  show ?thesis
  proof (rule runOnOperation_progress [OF table_driver program_example_ok program_example_entry, of ?f ?base])
    show "lookupFunc (p_module program_example) ''main_graph'' = Some ?f" "fn_name ?f = ''main'' \<or> lookupSymbol (p_module program_example) ''main'' = None"
      by (simp_all add: program_example_def module_example_def lookupFunc_def lookupSymbol_def)
    show "\<forall>ty \<in> set (fn_inputs ?f) \<union> set (fn_outputs ?f). validateEntryTensor ty = Inr ()"
      by (simp add: validateEntryTensor_def hasStaticShape_def kDynamic_def int64_min_def elt_defs getRank_def)
    show "\<forall>m. prepareEntryPoint (p_module program_example) = Inr m \<longrightarrow>
      (\<exists>p1 p2. Some (program_example\<lparr>p_module := m\<rparr>) = Some p1 \<and> unsupported_operation p1 = None \<and> table_convert p1 = Some p2 \<and>
        casts_typed ?base (b_ops (p_body p2)) \<and> layout_types ?base (b_types (p_body p2)) \<and> map ?base (b_args (p_body p2)) = fn_inputs ?f)"
      by (simp add: table_convert_def unsupported_operation_def program_example_def isSupportedONNXOperation_def supported_names_def
        dialect_namespace_def is_onnx_def casts_typed_def layout_types_def convertRank4NCHWToNHWCType_def elt_defs getRank_def)
  qed
qed

end
