(* ===== verification/Convert_Graph.thy ===== *)
theory Convert_Graph
  imports Lower_Transpose Lower_Slice Lower_Reduce Lower_MatMul Lower_Reshape
begin

text \<open>
  The composition of the patterns. The conversion driver is part of MLIR and a parameter here; what is relied
  on is that it replaces every operation of a graph by the value its pattern creates, with the adaptor
  operands bound to the replacements of the operands (\<open>rewrites_with\<close>).
  \<open>lowering_pattern\<close> is what a pattern has to promise for that, and the theorem about graphs is
  proved once for it; the patterns of Transpose, Reshape, Slice, the binary operators, Softmax and
  MatMul satisfy it together.
\<close>

section \<open>The contract of a pattern\<close>

locale lowering_pattern =
  fixes sem :: "'f sem" and lower :: "'n \<Rightarrow> 'f val result" and operands :: "'n \<Rightarrow> 'f operand list" and result_type :: "'n \<Rightarrow> mtype"
    and spec :: "'n \<Rightarrow> 'f scalar tensor list \<Rightarrow> 'f scalar tensor" and pre :: "'n \<Rightarrow> 'f scalar tensor list \<Rightarrow> bool"
  assumes sound: "lower n = Inr v \<Longrightarrow> operands_represent env (operands n) ts \<Longrightarrow> conforms (result_type n) (spec n ts) \<Longrightarrow> pre n ts \<Longrightarrow>
    represents sem env v (result_type n) (spec n ts)"

text \<open>A graph lists its operations in order, each with the positions of its operands among the values so far.\<close>

type_synonym 'n graph = "(nat list \<times> 'n) list"

fun run_spec :: "('n \<Rightarrow> 'f scalar tensor list \<Rightarrow> 'f scalar tensor) \<Rightarrow> 'n graph \<Rightarrow> 'f scalar tensor list \<Rightarrow> 'f scalar tensor list" where
  "run_spec spec [] vals = vals"
| "run_spec spec ((ids, n) # g) vals = run_spec spec g (vals @ [spec n (map ((!) vals) ids)])"

text \<open>The converted graph lists the created values at the same positions; this is its evaluation.\<close>

fun run_graph :: "'f sem \<Rightarrow> 'f val graph \<Rightarrow> 'f scalar tensor list \<Rightarrow> 'f scalar tensor list" where
  "run_graph sem [] vals = vals"
| "run_graph sem ((ids, v) # g) vals = run_graph sem g (vals @ [eval sem (\<lambda>k. vals ! (ids ! k)) v])"

definition rewrites_with :: "('n \<Rightarrow> 'f val result) \<Rightarrow> ('n graph \<Rightarrow> 'f val graph option) \<Rightarrow> bool" where
  "rewrites_with lower driver \<longleftrightarrow>
     (\<forall>g g'. driver g = Some g' \<longrightarrow> list_all2 (\<lambda>(ids, n) (ids', v). ids' = ids \<and> lower n = Inr v) g g')"

fun graph_typed :: "('n \<Rightarrow> 'f operand list) \<Rightarrow> ('n \<Rightarrow> mtype) \<Rightarrow> 'n graph \<Rightarrow> mtype list \<Rightarrow> bool" where
  "graph_typed operands result_type [] tys \<longleftrightarrow> True"
| "graph_typed operands result_type ((ids, n) # g) tys \<longleftrightarrow>
     length ids = length (operands n) \<and> (\<forall>k<length ids. ids ! k < length tys \<and> tys ! (ids ! k) = oty (operands n ! k)) \<and>
     graph_typed operands result_type g (tys @ [result_type n])"

fun graph_defined ::
  "('n \<Rightarrow> mtype) \<Rightarrow> ('n \<Rightarrow> 'f scalar tensor list \<Rightarrow> 'f scalar tensor) \<Rightarrow> ('n \<Rightarrow> 'f scalar tensor list \<Rightarrow> bool) \<Rightarrow>
   'n graph \<Rightarrow> 'f scalar tensor list \<Rightarrow> bool" where
  "graph_defined result_type spec pre [] vals \<longleftrightarrow> True"
| "graph_defined result_type spec pre ((ids, n) # g) vals \<longleftrightarrow>
     (let ts = map ((!) vals) ids in
      conforms (result_type n) (spec n ts) \<and> pre n ts \<and> graph_defined result_type spec pre g (vals @ [spec n ts]))"

context lowering_pattern
begin

lemma graph_sound:
  assumes "list_all2 (\<lambda>(ids, n) (ids', v). ids' = ids \<and> lower n = Inr v) g g'" and "graph_typed operands result_type g tys"
    and "graph_defined result_type spec pre g vals" and "list_all2 conforms tys vals" and "pvals = map2 phys tys vals"
  shows "run_graph sem g' pvals = map2 phys (tys @ map (\<lambda>(ids, n). result_type n) g) (run_spec spec g vals)"
  using assms
proof (induction g g' arbitrary: pvals tys vals rule: list_all2_induct)
  case (Cons node g node' g')
  obtain ids n v where node: "node = (ids, n)" "node' = (ids, v)" and low: "lower n = Inr v" using Cons.hyps(1) by (cases node; cases node') auto
  let ?ts = "map ((!) vals) ids" and ?env = "\<lambda>k. pvals ! (ids ! k)"
  have len: "length vals = length tys" using Cons.prems(3) by (simp add: list_all2_lengthD)
  have op: "operands_represent ?env (operands n) ?ts"
    unfolding operands_represent_def
  proof (intro conjI allI impI)
    show l: "length ?ts = length (operands n)" using Cons.prems(1) node by simp
    fix k assume "k < length (operands n)"
    then have k: "k < length ids" "ids ! k < length tys" "oty (operands n ! k) = tys ! (ids ! k)" using Cons.prems(1) node by simp_all
    then show "conforms (oty (operands n ! k)) (?ts ! k)" using Cons.prems(3) by (simp add: list_all2_nthD)
    show "?env k = phys (oty (operands n ! k)) (?ts ! k)" using k Cons.prems(4) len by simp
  qed
  have cf: "conforms (result_type n) (spec n ?ts)" "pre n ?ts" using Cons.prems(2) node by (simp_all add: Let_def)
  have "eval sem ?env v = phys (result_type n) (spec n ?ts)" using sound [OF low op cf] by (simp add: represents_def)
  then have "pvals @ [eval sem ?env v] = map2 phys (tys @ [result_type n]) (vals @ [spec n ?ts])"
    using Cons.prems(4) len by simp
  from Cons.IH [OF _ _ _ this] show ?case
    using Cons.prems(1-3) node cf by (simp add: Let_def list_all2_appendI)
qed simp

end

section \<open>The nodes\<close>

datatype 'f node =
    NTranspose "'f transpose_op"
  | NReshape "'f reshape_op"
  | NSlice "'f slice_op"
  | NBinary string "'f binary_op"
  | NSoftmax "'f softmax_op"
  | NMatMul "'f matmul_op"

definition binary_names :: "string list" where
  "binary_names = [''tfl.add'', ''tfl.sub'', ''tfl.mul'', ''tfl.div'', ''tfl.pow'']"

fun lower_node :: "'f \<Rightarrow> 'f node \<Rightarrow> 'f val result" where
  "lower_node one (NTranspose op) = lower_transpose op"
| "lower_node one (NReshape op) = lower_reshape op"
| "lower_node one (NSlice op) = lower_slice op"
| "lower_node one (NBinary nm op) = (if nm \<in> set binary_names then lower_binary nm op else Inl NoMatch)"
| "lower_node one (NSoftmax op) = lower_softmax one op"
| "lower_node one (NMatMul op) = lower_matmul op"

fun node_operands :: "'f node \<Rightarrow> 'f operand list" where
  "node_operands (NTranspose op) = [trn_data op]"
| "node_operands (NReshape op) = [rsh_data op]"
| "node_operands (NSlice op) = [sl_data op]"
| "node_operands (NBinary nm op) = [bin_lhs op, bin_rhs op]"
| "node_operands (NSoftmax op) = [sm_input op]"
| "node_operands (NMatMul op) = [mm_lhs op, mm_rhs op]"

fun node_result :: "'f node \<Rightarrow> mtype" where
  "node_result (NTranspose op) = trn_result op"
| "node_result (NReshape op) = rsh_result op"
| "node_result (NSlice op) = sl_result op"
| "node_result (NBinary nm op) = bin_result op"
| "node_result (NSoftmax op) = sm_result op"
| "node_result (NMatMul op) = mm_result op"

text \<open>What the ONNX operators compute, over the scalar functions of the kernels.\<close>

fun onnx_node ::
  "(string \<Rightarrow> 'f scalar \<Rightarrow> 'f scalar \<Rightarrow> 'f scalar) \<Rightarrow> ('f scalar list \<Rightarrow> 'f scalar list) \<Rightarrow>
   ('f scalar list \<Rightarrow> 'f scalar list \<Rightarrow> 'f scalar) \<Rightarrow> 'f node \<Rightarrow> 'f scalar tensor list \<Rightarrow> 'f scalar tensor" where
  "onnx_node bf sf dot (NTranspose op) ts = onnx_transpose (trn_perm op) (ts ! 0)"
| "onnx_node bf sf dot (NReshape op) ts = treshape (dims (rsh_result op)) (ts ! 0)"
| "onnx_node bf sf dot (NSlice op) ts = (case slice_arguments op of Inr args \<Rightarrow> onnx_slice args (ts ! 0) | Inl e \<Rightarrow> ts ! 0)"
| "onnx_node bf sf dot (NBinary nm op) ts = tmap2 (bf nm) (ts ! 0) (ts ! 1)"
| "onnx_node bf sf dot (NSoftmax op) ts =
     talong (nat (normalizeAxis (case sm_axis op of Some a \<Rightarrow> a | None \<Rightarrow> - 1) (int (trank (ts ! 0))))) sf (ts ! 0)"
| "onnx_node bf sf dot (NMatMul op) ts = tmatmul dot False False (ts ! 0) (ts ! 1)"

text \<open>The side conditions: sizes that fit the 32-bit constants, and shapes that ONNX accepts.\<close>

fun node_pre :: "'f node \<Rightarrow> 'f scalar tensor list \<Rightarrow> bool" where
  "node_pre (NTranspose op) ts \<longleftrightarrow> i32_dims (tshape (ts ! 0))"
| "node_pre (NReshape op) ts \<longleftrightarrow> True"
| "node_pre (NSlice op) ts \<longleftrightarrow>
     (case slice_arguments op of Inr args \<Rightarrow> i32_dims (tshape (ts ! 0)) \<and> i32_dims (tshape (onnx_slice args (ts ! 0))) | Inl e \<Rightarrow> False)"
| "node_pre (NBinary nm op) ts \<longleftrightarrow>
     bcast_compat (tshape (ts ! 0)) (tshape (ts ! 1)) \<and> i32_size (tshape (ts ! 0)) \<and> i32_size (tshape (ts ! 1)) \<and>
     i32_size (bcast_shape (tshape (ts ! 0)) (tshape (ts ! 1))) \<and>
     (4 < max (trank (ts ! 0)) (trank (ts ! 1)) \<longrightarrow> \<not> physical4 (oty (bin_lhs op)) \<and> \<not> physical4 (oty (bin_rhs op)))"
| "node_pre (NSoftmax op) ts \<longleftrightarrow> trank (ts ! 0) < 2 ^ 31"
| "node_pre (NMatMul op) ts \<longleftrightarrow> matmul_ok False False (tshape (ts ! 0)) (tshape (ts ! 1))"

lemma operands_represent_simps:
  "operands_represent env [a] ts \<longleftrightarrow> (\<exists>t. ts = [t] \<and> conforms (oty a) t \<and> env 0 = phys (oty a) t)"
  "operands_represent env [a, b] ts \<longleftrightarrow>
     (\<exists>t u. ts = [t, u] \<and> conforms (oty a) t \<and> env 0 = phys (oty a) t \<and> conforms (oty b) u \<and> env 1 = phys (oty b) u)"
  by (auto simp: operands_represent_def length_Suc_conv less_Suc_eq)

lemma node_sound:
  assumes sem: "tfl_slicing sem" "\<And>nm. nm \<in> set binary_names \<Longrightarrow> tfl_binary sem nm (binary_attributes nm) (bf nm) (maximumBroadcastRank nm)"
      "tfl_softmax sem one sf" "tfl_matmul sem dot"
    and low: "lower_node one n = Inr v" and ops: "operands_represent env (node_operands n) ts"
    and res: "conforms (node_result n) (onnx_node bf sf dot n ts)" and pre: "node_pre n ts"
  shows "represents sem env v (node_result n) (onnx_node bf sf dot n ts)"
proof (cases n)
  case (NTranspose op)
  have "tfl_layout sem" using sem(1) by (simp add: tfl_slicing_def)
  then show ?thesis using NTranspose low ops res pre by (auto simp: operands_represent_simps intro: transpose_represents)
next
  case (NReshape op)
  have "tfl_layout sem" using sem(1) by (simp add: tfl_slicing_def)
  then show ?thesis using NReshape low ops res by (auto simp: operands_represent_simps intro: reshape_represents)
next
  case (NSlice op)
  then obtain args where "slice_arguments op = Inr args" using pre by (auto split: sum.splits)
  then show ?thesis using NSlice low ops res pre by (auto simp: operands_represent_simps intro: slice_represents [OF sem(1)])
next
  case (NBinary nm op)
  then have nm: "nm \<in> set binary_names" and low': "lower_binary nm op = Inr v" using low by (auto split: if_splits)
  obtain t u where "ts = [t, u]" "conforms (oty (bin_lhs op)) t" "env 0 = phys (oty (bin_lhs op)) t"
      "conforms (oty (bin_rhs op)) u" "env 1 = phys (oty (bin_rhs op)) u"
    using ops NBinary by (auto simp: operands_represent_simps)
  then show ?thesis using NBinary res pre binary_represents [OF sem(2) [OF nm] low', of t env u] by simp
next
  case (NSoftmax op)
  then obtain t where "ts = [t]" and t: "conforms (oty (sm_input op)) t" "env 0 = phys (oty (sm_input op)) t"
    using ops by (auto simp: operands_represent_simps)
  moreover have "conforms (sm_result op) t"
    using res NSoftmax \<open>ts = [t]\<close> conforms_wf [OF t(1)] by (auto simp: conforms_def)
  ultimately show ?thesis using NSoftmax low pre softmax_represents [OF sem(3), of op v t env] by simp
next
  case (NMatMul op)
  then obtain t u where "ts = [t, u]" and t: "conforms (oty (mm_lhs op)) t" "env 0 = phys (oty (mm_lhs op)) t"
      "conforms (oty (mm_rhs op)) u" "env 1 = phys (oty (mm_rhs op)) u"
    using ops by (auto simp: operands_represent_simps)
  moreover have "createBatchMatMul (oty (mm_lhs op)) (oty (mm_rhs op)) (adaptor 0 (mm_lhs op)) (adaptor 1 (mm_rhs op)) (mm_result op) False False = Inr v"
    using low NMatMul by (simp add: lower_matmul_def)
  ultimately show ?thesis
    using NMatMul res pre tfl_matmul.createBatchMatMul_correct [OF sem(4), of "oty (mm_lhs op)" "oty (mm_rhs op)"] by simp
qed

section \<open>Graphs of these nodes\<close>

definition ref_binary :: "string \<Rightarrow> int scalar \<Rightarrow> int scalar \<Rightarrow> int scalar" where
  "ref_binary nm = ref_arith (if nm = ''tfl.add'' then (+) else if nm = ''tfl.sub'' then (-) else if nm = ''tfl.mul'' then (*)
     else if nm = ''tfl.div'' then (div) else (\<lambda>a b. a ^ nat b))"

lemma reference_binary:
  "nm \<in> set binary_names \<Longrightarrow> tfl_binary reference_sem nm (binary_attributes nm) (ref_binary nm) (maximumBroadcastRank nm)"
  using reference_add.tfl_binary_axioms reference_sub.tfl_binary_axioms reference_mul.tfl_binary_axioms
    reference_div.tfl_binary_axioms reference_pow.tfl_binary_axioms
  by (auto simp: binary_names_def ref_binary_def binary_attributes_def maximumBroadcastRank_def)

interpretation nodes: lowering_pattern reference_sem "lower_node 1" node_operands node_result
    "onnx_node ref_binary ref_softmax ref_dot" node_pre
  by unfold_locales
    (rule node_sound [OF reference.tfl_slicing_axioms reference_binary reference_softmax.tfl_softmax_axioms
        reference_matmul.tfl_matmul_axioms])

text \<open>
  C1: a graph of Transpose, Reshape, Slice, Add, Sub, Mul, Div, Pow, Softmax and MatMul operations is
  converted correctly: when a driver that replaces operations by what their patterns create succeeds, the
  converted graph run on the NHWC representations of the inputs computes the NHWC representation of every
  value of the ONNX graph, for any kernels that satisfy the interfaces. The graph has to be typed, its sizes have
  to fit 32 bits, and no binary operation of rank above 4 may have a rank-4 f32 operand, which the pattern
  accepts and reads in the wrong order (\<open>high_rank_rank4_operand_misread\<close>).
\<close>

theorem graph_conversion_correct:
  assumes sem: "tfl_slicing sem" "\<And>nm. nm \<in> set binary_names \<Longrightarrow> tfl_binary sem nm (binary_attributes nm) (bf nm) (maximumBroadcastRank nm)"
      "tfl_softmax sem one sf" "tfl_matmul sem dot"
    and driver: "rewrites_with (lower_node one) driver" "driver g = Some g'"
    and typed: "graph_typed node_operands node_result g tys" and inputs: "list_all2 conforms tys inputs"
    and defined: "graph_defined node_result (onnx_node bf sf dot) node_pre g inputs"
  shows "run_graph sem g' (map2 phys tys inputs) =
    map2 phys (tys @ map (\<lambda>(ids, n). node_result n) g) (run_spec (onnx_node bf sf dot) g inputs)"
proof -
  have "lowering_pattern sem (lower_node one) node_operands node_result (onnx_node bf sf dot) node_pre"
    by unfold_locales (rule node_sound [OF sem])
  from lowering_pattern.graph_sound [OF this _ typed defined inputs refl] show ?thesis
    using driver unfolding rewrites_with_def by blast
qed

text \<open>A driver that applies the patterns in the order of the graph, for the witness.\<close>

fun pattern_driver :: "('n \<Rightarrow> 'f val result) \<Rightarrow> 'n graph \<Rightarrow> 'f val graph option" where
  "pattern_driver lower [] = Some []"
| "pattern_driver lower ((ids, n) # g) =
     (case (lower n, pattern_driver lower g) of (Inr v, Some g') \<Rightarrow> Some ((ids, v) # g') | _ \<Rightarrow> None)"

lemma pattern_driver_rewrites: "rewrites_with lower (pattern_driver lower)"
proof -
  have "pattern_driver lower g = Some g' \<Longrightarrow> list_all2 (\<lambda>(ids, n) (ids', v). ids' = ids \<and> lower n = Inr v) g g'" for g g'
    by (induction lower g arbitrary: g' rule: pattern_driver.induct) (auto split: sum.splits option.splits)
  then show ?thesis by (simp add: rewrites_with_def)
qed

definition graph_example :: "int node graph" where
  "graph_example =
     [([0, 0], NBinary ''tfl.add'' \<lparr>bin_lhs = f32_operand [1, 2, 2, 3], bin_rhs = f32_operand [1, 2, 2, 3],
         bin_result = RankedTensor [1, 2, 2, 3] F32\<rparr>),
      ([1], NSoftmax \<lparr>sm_input = f32_operand [1, 2, 2, 3], sm_axis = Some 1, sm_result = RankedTensor [1, 2, 2, 3] F32\<rparr>),
      ([2], NReshape \<lparr>rsh_data = f32_operand [1, 2, 2, 3], rsh_allowzero = None, rsh_result = RankedTensor [2, 6] F32\<rparr>)]"

theorem graph_conversion_correct_witness:
  "\<exists>g'. pattern_driver (lower_node 1) graph_example = Some g' \<and>
     last (run_graph reference_sem g' [ttranspose to_nhwc nchw_example]) =
       treshape [2, 6] (talong 1 ref_softmax (tmap2 (ref_binary ''tfl.add'') nchw_example nchw_example))"
proof -
  let ?ty = "RankedTensor [1, 2, 2, 3] F32"
  have "pattern_driver (lower_node 1) graph_example \<noteq> None" by code_simp
  then obtain g' where g': "pattern_driver (lower_node 1) graph_example = Some g'" by blast
  have typed: "graph_typed node_operands node_result graph_example [?ty]" by (simp add: graph_example_def All_less_Suc)
  have i: "i32_size [Suc 0, 2, 2, 3]" by (simp add: i32_size_def)
  have defined: "graph_defined node_result (onnx_node ref_binary ref_softmax ref_dot) node_pre graph_example [nchw_example]"
    by (simp add: graph_example_def Let_def conforms_Ranked wf_treshape i)
  have inputs: "list_all2 conforms [?ty] [nchw_example]" by (simp add: conforms_Ranked)
  have "run_graph reference_sem g' (map2 phys [?ty] [nchw_example]) = map2 phys ([?ty] @ map (\<lambda>(ids, n). node_result n) graph_example)
      (run_spec (onnx_node ref_binary ref_softmax ref_dot) graph_example [nchw_example])"
    by (rule graph_conversion_correct [OF reference.tfl_slicing_axioms reference_binary reference_softmax.tfl_softmax_axioms
        reference_matmul.tfl_matmul_axioms pattern_driver_rewrites g' typed inputs defined])
  then have "last (run_graph reference_sem g' [ttranspose to_nhwc nchw_example]) =
      treshape [2, 6] (talong 1 ref_softmax (tmap2 (ref_binary ''tfl.add'') nchw_example nchw_example))"
    by (simp add: graph_example_def phys_def normalizeAxis_def)
  with g' show ?thesis by blast
qed

end
