(* ===== verification/Spec2Isabelle.thy ===== *)
theory Spec2Isabelle
  imports Lower_Transpose Lower_Reshape Lower_ConcatSplit Lower_Slice Lower_Pad Lower_Compare
    Lower_Tile Lower_Arg Lower_MatMul Lower_Space Lower_Constant Lower_Gather
    Lower_Scatter Lower_TopK Lower_Pool Lower_Conv Lower_Composite Lower_Additional Lower_Windows Lower_LayerNorm Convert_Entry Convert_Pass Convert_Graph
begin

text \<open>
  Verification of the ONNX to TFL conversion of onnx-mlir-to-tflite. Paths below are relative to
  \<^verbatim>\<open>src/src/Conversion/ONNXToTFL\<close> unless they name a directory of their own.

  \<^bold>\<open>The program.\<close> The pass \<^verbatim>\<open>ConvertONNXToTFL.cpp\<close> turns a module of ONNX operations with static
  shapes into a module of TensorFlow Lite operations. It first checks and renames the entry function
  (\<^verbatim>\<open>prepareEntryPoint\<close>), then runs the MLIR conversion driver with one rewrite pattern per ONNX
  operation, then changes the types of the entry function and removes the casts the driver left
  (\<^verbatim>\<open>finalizeEntryPointTypes\<close>). ONNX tensors of rank 4 are NCHW and TensorFlow Lite wants NHWC, so the
  pass keeps a layout contract: inside the converted graph every f32 tensor of rank 4 is stored as
  its NHWC transpose, and every other tensor as it is. Each pattern validates types, attributes and
  constant operands, refuses what it does not support with a diagnostic, and creates TFL operations
  whose permutations, axes, paddings and shapes respect the contract. The helpers they share are in
  \<^verbatim>\<open>ONNXToTFLLegalizeUtils.cpp\<close>. The patterns are the core of the program and of this development.

  \<^bold>\<open>What correctness of a pattern means.\<close> A pattern is a function from its operation, a record with
  the operand types, the constant operands and the attributes, to \<open>diag + value\<close>: \<open>Inl\<close> is the branch
  that emits a diagnostic and fails, \<open>Inr\<close> the value that replaces the operation, as the tree of TFL
  operations that define it. The theorem about a pattern says: when it succeeds and its operands
  hold the representations of tensors, the value evaluates to the representation of what ONNX defines
  on these tensors and has the converted type (\<open>represents\<close>, in \<^verbatim>\<open>LegalizeUtils\<close>). The ONNX meaning is
  stated on logical tensors, index by index or by a reference definition, and never mentions the layout.

  \<^bold>\<open>What TensorFlow Lite is assumed to do.\<close> The kernels are code of another project. Their semantics
  \<open>sem\<close> is a parameter everywhere, and what a pattern relies on is a locale: \<open>tfl_layout\<close> (reshape,
  transpose), \<open>tfl_slicing\<close> (slices, reversal) and \<open>tfl_assembly\<close> (concat, split, tile, pads) in \<^verbatim>\<open>TFL_Runtime\<close>; the elementwise,
  comparison, reduction, arg, softmax, matmul, gather, scatter, pooling, normalisation and top-k kernels in \<^verbatim>\<open>TFL_Compute\<close>, with the function
  on scalars as a parameter too, so nothing is assumed of floating point beyond what a statement
  lists. \<^verbatim>\<open>TFL_Reference\<close> interprets every locale on one executable semantics; the witnesses run it.

  \<^bold>\<open>The theories.\<close>
  \<^item> \<^verbatim>\<open>Prelude\<close>: results and diagnostics, 32-bit truncation and 64-bit wrap-around, truncating
    division, list lemmas.
  \<^item> \<^verbatim>\<open>Tensor\<close>, \<^verbatim>\<open>Tensor_Ops\<close>, \<^verbatim>\<open>Tensor_Pad\<close>, \<^verbatim>\<open>Tensor_Broadcast\<close>, \<^verbatim>\<open>Tensor_Compute\<close>,
    \<^verbatim>\<open>Tensor_Index\<close>, \<^verbatim>\<open>Windows\<close>, \<^verbatim>\<open>Convolution\<close>: tensors as a shape and row-major data, with transpose, reshape, slicing,
    concatenation, tiling, reversal, padding, broadcasting, reductions, matrix product, gather and scatter by
    coordinates, pooling windows and convolutions, and how these commute with one another; the interface
    \<open>tfl_conv\<close> of the convolution kernels.
  \<^item> \<^verbatim>\<open>IR\<close>: MLIR types, attributes, operands and created values with their evaluation.
  \<^item> \<^verbatim>\<open>LegalizeUtils\<close>: \<^verbatim>\<open>ONNXToTFLLegalizeUtils.cpp\<close>; the layout contract.
  \<^item> \<^verbatim>\<open>Lower_Transpose\<close>: \<^verbatim>\<open>Tensor/Transpose.cpp\<close>. Also exactly when the pattern accepts.
  \<^item> \<^verbatim>\<open>Lower_Reshape\<close>: Reshape, Flatten, Squeeze and Unsqueeze of \<^verbatim>\<open>Tensor/\<close>.
  \<^item> \<^verbatim>\<open>Lower_ConcatSplit\<close>, \<^verbatim>\<open>Lower_Slice\<close>, \<^verbatim>\<open>Lower_Pad\<close>, \<^verbatim>\<open>Lower_Tile\<close>: the files of these names in \<^verbatim>\<open>Tensor/\<close>.
  \<^item> \<^verbatim>\<open>Lower_Elementwise\<close>, \<^verbatim>\<open>Lower_Activation\<close>: \<^verbatim>\<open>Math/Elementwise.cpp\<close> and Ceil and Not of
    \<^verbatim>\<open>Math/LegacyMath.cpp\<close>: the binary operators with the adaptation of broadcasts to NHWC and the
    collapsing of axes above the kernels' rank, Min and Max of many operands, the unary operators and
    activations and their decompositions.
  \<^item> \<^verbatim>\<open>Lower_Compare\<close>: \<^verbatim>\<open>Math/Comparison.cpp\<close>, Mod, \<^verbatim>\<open>Tensor/Where.cpp\<close>, \<^verbatim>\<open>Tensor/Expand.cpp\<close>, \<^verbatim>\<open>Tensor/Cast.cpp\<close>.
  \<^item> \<^verbatim>\<open>Lower_Reduce\<close>, \<^verbatim>\<open>Lower_Arg\<close>, \<^verbatim>\<open>Lower_MatMul\<close>: reductions and Softmax; ArgMax, ArgMin and Hardmax;
    MatMul and Gemm (\<^verbatim>\<open>Math/\<close>).
  \<^item> \<^verbatim>\<open>Lower_Space\<close>: DepthToSpace and SpaceToDepth, and that they undo each other.
  \<^item> \<^verbatim>\<open>Lower_Constant\<close>: the reordering of the raw bytes of a constant against the transposition of its
    elements, and \<^verbatim>\<open>Tensor/Constant.cpp\<close>.
  \<^item> \<^verbatim>\<open>Lower_Gather\<close>: \<^verbatim>\<open>Tensor/Gather.cpp\<close> and \<^verbatim>\<open>Tensor/CompressTrilu.cpp\<close>.
  \<^item> \<^verbatim>\<open>Coordinates\<close>, \<^verbatim>\<open>Lower_GatherND\<close>, \<^verbatim>\<open>Lower_Scatter\<close>: the coordinate tensors that GatherElements, GatherND,
    ScatterElements and ScatterND (\<^verbatim>\<open>Tensor/\<close>) build at compile time or by created operations, and the patterns.
  \<^item> \<^verbatim>\<open>Lower_TopK\<close>: \<^verbatim>\<open>Math/TopK.cpp\<close>, with the axis moved to the end and back, and the negation for the smallest.
  \<^item> \<^verbatim>\<open>Lower_Norm\<close>, \<^verbatim>\<open>Lower_Pool\<close>: \<^verbatim>\<open>NN/BatchNormalization.cpp\<close>, \<^verbatim>\<open>NN/LRN.cpp\<close> and \<^verbatim>\<open>NN/MaxPool.cpp\<close>.
  \<^item> \<^verbatim>\<open>Lower_LayerNorm\<close>: \<^verbatim>\<open>NN/LayerNormalization.cpp\<close>: normalisation by groups of elements, whose mean and variance the
    created reductions keep, and on real numbers the mean and variance of the result.
  \<^item> \<^verbatim>\<open>Static_Windows\<close>, \<^verbatim>\<open>Lower_Windows\<close>: the unrolling of a pooling into one slice per output position and the assembly
    of the cells by concatenation, and with it \<^verbatim>\<open>NN/AveragePool.cpp\<close> and \<^verbatim>\<open>NN/LpPool.cpp\<close>.
  \<^item> \<^verbatim>\<open>Lower_Conv\<close>: the forms of \<^verbatim>\<open>NN/Conv.cpp\<close> with two and with one spatial axis: plain, depthwise and grouped.
  \<^item> \<^verbatim>\<open>Lower_Composite\<close>, \<^verbatim>\<open>Lower_Additional\<close>: \<^verbatim>\<open>Math/AdditionalElementwise.cpp\<close>: the composite activations and
    transcendental functions, as compositions of scalar kernels and as functions of real numbers; PRelu, Mean and the
    logical operators.
  \<^item> \<^verbatim>\<open>Convert_Entry\<close>: the state of the module and the body of the entry function, \<^verbatim>\<open>prepareEntryPoint\<close>
    with its invariant, the list of value names and its round trip, and \<^verbatim>\<open>finalizeEntryPointTypes\<close>, which
    keeps the meaning of the body.
  \<^item> \<^verbatim>\<open>Convert_Pass\<close>: the table of supported operations and \<^verbatim>\<open>runOnOperation\<close> with its stages; what a successful
    run guarantees, and when a run reaches the verifier with a converted module.
  \<^item> \<^verbatim>\<open>Convert_Graph\<close>: the contract of a pattern as the locale \<open>lowering_pattern\<close>, and from it the theorem
    about a whole graph of operations and any driver that rewrites with the patterns, interpreted on the patterns of Transpose, Reshape, Slice, the
    binary operators, Softmax and MatMul.

  \<^bold>\<open>Bounds.\<close> The patterns pass shapes and indices to the kernels as 32-bit constants. Where the code checks
  the range the theorems have no hypothesis; where it does not, the hypothesis \<open>i32_dims\<close>, \<open>i32_size\<close>
  or \<open>i32_count\<close> says that the sizes fit. The largest rank that a kernel broadcasts is the parameter
  \<open>maxrank\<close> of its locale, instantiated with the limit that the code or \<^verbatim>\<open>docs/known-limitations.md\<close> names.
  Every loop of the modelled code is a terminating recursion, so no definition needs fuel. Sums and
  products that the code computes before it has bounded their operands wrap at 64 bits (\<open>i64\<close>): in
  Slice the later check of the strides is shown to refuse every step for which they would.

  \<^bold>\<open>What the theorems exclude, and why.\<close> The binary operators above rank 4 need operands that are not
  stored as NHWC: \<open>high_rank_rank4_operand_misread\<close> shows that the code misreads such an operand. The
  decomposition of Elu is the ONNX function exactly for non-negative coefficients. Trilu multiplies by a
  mask and so needs elements for which multiplication by zero gives zero. A constant GatherND in row-major
  order needs data whose layout is visible in its type (\<open>layout_visible\<close>): \<open>cube_gather_wrong\<close> shows that the
  code misreads a rank-4 operand with equal channel, row and column counts. The scatters add differences and
  so need exact arithmetic, and MaxPool with pads needs elements that are not below the lowest float. Explicit pads
  of a convolution need an accumulation that ignores the product of a zero and a weight, as that of finite weights does.
  A slope of PRelu with one or two axes below an image, and operands of Mean of different types, are read in the wrong
  layout (\<open>row_prelu_misread\<close>, \<open>row_mean_misread\<close>); the theorems exclude them. An unrolled average that counts the padding needs exact
  arithmetic, as on real numbers (\<open>average_exact_real\<close>), and windows that stay inside the padded input: of a window that ceil mode
  lets run past it the code counts the whole kernel (\<open>ceil_overrun_divisor\<close>). LpPool with \<^verbatim>\<open>auto_pad\<close> \<^verbatim>\<open>VALID\<close> needs zero pads.
  Runtime indices of Gather and GatherND have rank 4 at most, because the created comparison broadcasts no further, and the composite
  operators rank 5 at most; on real numbers each of these is the ONNX function on its domain. The remainders of Mod are those of ONNX on
  64-bit integers without a zero divisor. The last stage of the pass, the verifier, is a parameter: \<open>runOnOperation_progress\<close> says
  that nothing else can fail.

  \<^bold>\<open>Not modelled.\<close> Im2Col and the patterns of
  \<^verbatim>\<open>Math/AdditionalMath.cpp\<close> and \<^verbatim>\<open>Math/UncommonMath.cpp\<close>; convolution with three spatial axes,
  MaxPool with indices, recurrent networks and attention (\<^verbatim>\<open>NN/\<close>); resizing, sampling, signal and
  sequence operators. They follow the same scheme and are next, in this order. The conversion driver, MLIR itself and TensorFlow Lite
  are code of other projects; the ONNX dialect with its shape inference, the importer, the other back
  ends (\<^verbatim>\<open>src/src/Conversion/ONNXToKrnl\<close> and its neighbours), the accelerators and the command-line drivers
  are upstream onnx-mlir, which this pass only consumes. Diagnostics are modelled by their kind and not
  by their text, source locations not at all, and floating-point rounding only as the parameter that
  the kernels' functions on scalars are.
\<close>

end
